(* ===== verification/Spark_Prelude.thy ===== *)
theory Spark_Prelude
  imports Main "HOL-Library.Word" "HOL-Library.Monad_Syntax"
begin

section \<open>Shared vocabulary of the development\<close>

text \<open>
  What every component of the kernel model uses: Rust results and panics, machine arithmetic with
  its width written out, the ordered map that models \<^verbatim>\<open>BTreeMap\<close>, and the interfaces (locales)
  that several components implement: transition systems with an invariant, ordered maps, FIFO
  queues, resource allocators and quota counters.

  \<^item> A Rust \<^verbatim>\<open>Result<T, E>\<close> is \<open>'e + 'a\<close>, with \<open>Ok\<close> for \<open>Inr\<close> and \<open>Err\<close> for \<open>Inl\<close>.
  \<^item> A function that may panic (an index out of range, an overflow caught by
    \<^verbatim>\<open>overflow-checks = true\<close>) or may loop for ever returns an \<open>option\<close>: \<open>None\<close> means that the call
    does not return. A theorem that the call returns says \<open>Some\<close>.
  \<^item> Machine integers that only serve as indices, sizes and counters are \<open>nat\<close> with their width
    written out in every operation that can reach it; bit masks and bytes are words.
\<close>

unbundle bit_operations_syntax

subsection \<open>Results\<close>

type_synonym ('e, 'a) result = "'e + 'a"

abbreviation Ok :: "'a \<Rightarrow> ('e, 'a) result" where "Ok \<equiv> Inr"
abbreviation Err :: "'e \<Rightarrow> ('e, 'a) result" where "Err \<equiv> Inl"

definition is_ok :: "('e, 'a) result \<Rightarrow> bool" where
  "is_ok r = (case r of Inr _ \<Rightarrow> True | Inl _ \<Rightarrow> False)"

lemma is_ok_simps [simp]: "is_ok (Ok x)" "\<not> is_ok (Err e)"
  by (simp_all add: is_ok_def)

lemma is_ok_iff: "is_ok r \<longleftrightarrow> (\<exists>x. r = Ok x)"
  by (cases r) auto

subsection \<open>Machine arithmetic on \<open>nat\<close>\<close>

text \<open>
  \<open>checked_add w\<close> is Rust's \<^verbatim>\<open>checked_add\<close> on a \<open>w\<close>-bit unsigned integer; in a function that
  may panic it also models a plain \<^verbatim>\<open>+\<close> compiled with overflow checks.
\<close>

definition U64_MAX :: nat where "U64_MAX = 2 ^ 64 - 1"

definition checked_add :: "nat \<Rightarrow> nat \<Rightarrow> nat \<Rightarrow> nat option" where
  "checked_add w a b = (if a + b < 2 ^ w then Some (a + b) else None)"

definition checked_mul :: "nat \<Rightarrow> nat \<Rightarrow> nat \<Rightarrow> nat option" where
  "checked_mul w a b = (if a * b < 2 ^ w then Some (a * b) else None)"

definition saturating_add :: "nat \<Rightarrow> nat \<Rightarrow> nat \<Rightarrow> nat" where
  "saturating_add w a b = min (a + b) (2 ^ w - 1)"

definition wrapping_add :: "nat \<Rightarrow> nat \<Rightarrow> nat \<Rightarrow> nat" where
  "wrapping_add w a b = (a + b) mod 2 ^ w"

lemma checked_add_Some [simp]: "checked_add w a b = Some c \<longleftrightarrow> a + b < 2 ^ w \<and> c = a + b"
  by (auto simp: checked_add_def)

lemma checked_add_None [simp]: "checked_add w a b = None \<longleftrightarrow> 2 ^ w \<le> a + b"
  by (auto simp: checked_add_def)

lemma checked_mul_Some [simp]: "checked_mul w a b = Some c \<longleftrightarrow> a * b < 2 ^ w \<and> c = a * b"
  by (auto simp: checked_mul_def)

lemma checked_mul_None [simp]: "checked_mul w a b = None \<longleftrightarrow> 2 ^ w \<le> a * b"
  by (auto simp: checked_mul_def)

lemma saturating_add_ge: "a < 2 ^ w \<Longrightarrow> a \<le> saturating_add w a b"
  by (auto simp: saturating_add_def)

lemma saturating_add_pos: "0 < w \<Longrightarrow> 0 < saturating_add w a (Suc 0)"
proof -
  assume "0 < w"
  then have "(2::nat) ^ 1 \<le> 2 ^ w" by (intro power_increasing) auto
  then show ?thesis by (simp add: saturating_add_def)
qed

subsection \<open>Lists: \<^verbatim>\<open>Iterator::position\<close>, \<^verbatim>\<open>Vec::remove\<close>\<close>

fun position :: "('a \<Rightarrow> bool) \<Rightarrow> 'a list \<Rightarrow> nat option" where
  "position P [] = None"
| "position P (x # xs) = (if P x then Some 0 else map_option Suc (position P xs))"

lemma position_Some:
  "position P xs = Some i \<longleftrightarrow> i < length xs \<and> P (xs ! i) \<and> (\<forall>j < i. \<not> P (xs ! j))"
proof (induction xs arbitrary: i)
  case Nil
  then show ?case by simp
next
  case (Cons x xs)
  show ?case
    by (cases i) (auto simp: Cons.IH less_Suc_eq_0_disj)
qed

lemma position_None: "position P xs = None \<longleftrightarrow> (\<forall>x \<in> set xs. \<not> P x)"
  by (induction xs) auto

lemma position_in_range: "position P xs = Some i \<Longrightarrow> i < length xs"
  by (simp add: position_Some)

lemma nth_upd: "xs[i := x] ! j = (if i = j \<and> j < length xs then x else xs ! j)"
  by (cases "i < length xs") (auto simp: nth_list_update list_update_beyond)

definition list_remove :: "nat \<Rightarrow> 'a list \<Rightarrow> 'a list" where
  "list_remove i xs = take i xs @ drop (Suc i) xs"

lemma length_list_remove: "i < length xs \<Longrightarrow> length (list_remove i xs) = length xs - 1"
  by (simp add: list_remove_def)

lemma set_list_remove: "set (list_remove i xs) \<subseteq> set xs"
  by (auto simp: list_remove_def dest: in_set_takeD in_set_dropD)

end
