(* ===== verification/Spark_Interfaces.thy ===== *)
theory Spark_Interfaces
  imports Spark_Prelude
begin

section \<open>Interfaces between the components\<close>

text \<open>
  The contracts that several components of the kernel implement, as locales: a transition system
  with an invariant, an ordered map, a FIFO queue, a resource allocator and a quota counter. Each
  locale holds the client lemmas that need only the contract; the theory of a component that
  provides the operations interprets the locale on the model's own definitions.
\<close>

subsection \<open>Transition systems with an invariant\<close>

text \<open>
  \<open>step\<close> is the step relation of a component, \<open>inv\<close> what every operation keeps. The lemmas lift
  the one-step facts to whole runs \<open>step\<^sup>*\<^sup>*\<close>.
\<close>

locale inv_system =
  fixes step :: "'s \<Rightarrow> 's \<Rightarrow> bool"
    and inv :: "'s \<Rightarrow> bool"
  assumes inv_step: "inv s \<Longrightarrow> step s t \<Longrightarrow> inv t"
begin

lemma inv_run: "step\<^sup>*\<^sup>* s t \<Longrightarrow> inv s \<Longrightarrow> inv t"
  by (induction rule: rtranclp_induct) (auto intro: inv_step)

text \<open>A predicate that one step keeps under the invariant is kept by every run.\<close>

lemma stable_run:
  assumes "step\<^sup>*\<^sup>* s t" and "inv s" and "P s"
    and keep: "\<And>s t. inv s \<Longrightarrow> step s t \<Longrightarrow> P s \<Longrightarrow> P t"
  shows "P t"
proof -
  from assms(1) have "inv t \<and> P t"
    by (induction rule: rtranclp_induct) (auto simp: assms(2,3) intro: inv_step keep)
  then show ?thesis ..
qed

text \<open>A measure that no step decreases does not decrease over a run.\<close>

lemma mono_run:
  fixes f :: "'s \<Rightarrow> nat"
  assumes "step\<^sup>*\<^sup>* s t" and "inv s"
    and keep: "\<And>s t. inv s \<Longrightarrow> step s t \<Longrightarrow> f s \<le> f t"
  shows "f s \<le> f t"
  by (rule stable_run [OF assms(1,2), where P = "\<lambda>t. f s \<le> f t"])
    (auto intro: order.trans keep)

end

subsection \<open>Ordered maps\<close>

text \<open>
  What the kernel uses of \<^verbatim>\<open>BTreeMap\<close>: lookup, insertion that replaces, removal, iteration in
  ascending key order. \<open>entries\<close> is the iteration order.
\<close>

locale ordered_map =
  fixes entries :: "'m \<Rightarrow> ('k::linorder \<times> 'v) list"
    and get :: "'m \<Rightarrow> 'k \<Rightarrow> 'v option"
    and ins :: "'k \<Rightarrow> 'v \<Rightarrow> 'm \<Rightarrow> 'm"
    and rem :: "'k \<Rightarrow> 'm \<Rightarrow> 'm"
    and ok :: "'m \<Rightarrow> bool"
  assumes get_ins: "get (ins k v m) = (get m)(k \<mapsto> v)"
    and get_rem: "get (rem k m) = (get m)(k := None)"
    and ok_ins: "ok m \<Longrightarrow> ok (ins k v m)"
    and ok_rem: "ok m \<Longrightarrow> ok (rem k m)"
    and get_entries: "get m = map_of (entries m)"
    and ok_sorted: "ok m \<longleftrightarrow> sorted_wrt (<) (map fst (entries m))"
begin

lemma get_fold_rem: "get (fold rem ks m) k = (if k \<in> set ks then None else get m k)"
  by (induction ks arbitrary: m) (auto simp: get_rem)

lemma ok_fold_rem: "ok m \<Longrightarrow> ok (fold rem ks m)"
  by (induction ks arbitrary: m) (auto intro: ok_rem)

lemma dom_ins: "dom (get (ins k v m)) = insert k (dom (get m))"
  by (auto simp: get_ins split: if_splits)

lemma ok_get_iff: "ok m \<Longrightarrow> get m k = Some v \<longleftrightarrow> (k, v) \<in> set (entries m)"
  by (simp add: get_entries ok_sorted strict_sorted_iff)

end

subsection \<open>FIFO queues\<close>

text \<open>
  \<open>accepts\<close> says when the queue takes another element; \<open>contents\<close> is the queue from its front.
\<close>

datatype 'a queue_op = Put 'a | Take

locale fifo_queue =
  fixes contents :: "'q \<Rightarrow> 'a list"
    and accepts :: "'a \<Rightarrow> 'q \<Rightarrow> bool"
    and put :: "'a \<Rightarrow> 'q \<Rightarrow> 'q"
    and get_first :: "'q \<Rightarrow> ('a \<times> 'q) option"
    and ok :: "'q \<Rightarrow> bool"
  assumes contents_put: "ok q \<Longrightarrow> accepts x q \<Longrightarrow> contents (put x q) = contents q @ [x]"
    and ok_put: "ok q \<Longrightarrow> accepts x q \<Longrightarrow> ok (put x q)"
    and get_first_None: "ok q \<Longrightarrow> get_first q = None \<longleftrightarrow> contents q = []"
    and get_first_Some: "ok q \<Longrightarrow> get_first q = Some (x, q') \<Longrightarrow> contents q = x # contents q'"
    and ok_get_first: "ok q \<Longrightarrow> get_first q = Some (x, q') \<Longrightarrow> ok q'"
begin

text \<open>
  A run of the queue: the elements taken out, the elements put in, the queue at the end. An element
  the queue does not accept is not put in.
\<close>

fun run :: "'q \<Rightarrow> 'a queue_op list \<Rightarrow> 'a list \<times> 'a list \<times> 'q" where
  "run q [] = ([], [], q)"
| "run q (Put x # ops) =
     (if accepts x q then (case run (put x q) ops of (outs, ins, q') \<Rightarrow> (outs, x # ins, q'))
      else run q ops)"
| "run q (Take # ops) =
     (case get_first q of None \<Rightarrow> run q ops
      | Some (x, q1) \<Rightarrow> (case run q1 ops of (outs, ins, q') \<Rightarrow> (x # outs, ins, q')))"

text \<open>First in, first out, nothing lost and nothing duplicated, over any sequence of operations.\<close>

lemma run_fifo:
  "ok q \<Longrightarrow> run q ops = (outs, ins, q') \<Longrightarrow> ok q' \<and> contents q @ ins = outs @ contents q'"
proof (induction q ops arbitrary: outs ins q' rule: run.induct)
  case (2 q x ops)
  then show ?case
    by (auto simp: contents_put ok_put split: if_splits prod.splits)
next
  case (3 q ops)
  show ?case
  proof (cases "get_first q")
    case None
    with 3 show ?thesis by simp
  next
    case (Some p)
    obtain x q1 where p: "p = (x, q1)" by (cases p)
    obtain outs1 ins1 q2 where r: "run q1 ops = (outs1, ins1, q2)" by (cases "run q1 ops") auto
    have ok: "ok q1" and front: "contents q = x # contents q1"
      using 3(3) Some p by (auto intro: ok_get_first get_first_Some)
    from 3(2) [OF Some] p ok r have "ok q2 \<and> contents q1 @ ins1 = outs1 @ contents q2"
      by simp
    with 3(4) Some p r front show ?thesis by auto
  qed
qed simp

end

subsection \<open>Resource allocators\<close>

text \<open>
  \<open>used\<close> is the set of units handed out. \<open>alloc_n\<close> is the loop that allocates \<open>n\<close> units one by
  one and stops at the first failure; it returns what it got, in order, and whether it got all.
\<close>

fun alloc_n :: "('s \<Rightarrow> ('r \<times> 's) option) \<Rightarrow> nat \<Rightarrow> 's \<Rightarrow> 'r list \<times> 's \<times> bool" where
  "alloc_n alloc 0 s = ([], s, True)"
| "alloc_n alloc (Suc n) s =
     (case alloc s of None \<Rightarrow> ([], s, False)
      | Some (r, t) \<Rightarrow> (case alloc_n alloc n t of (rs, u, b) \<Rightarrow> (r # rs, u, b)))"

locale allocator =
  fixes alloc :: "'s \<Rightarrow> ('r \<times> 's) option"
    and free :: "'r \<Rightarrow> 's \<Rightarrow> 's"
    and used :: "'s \<Rightarrow> 'r set"
    and ok :: "'s \<Rightarrow> bool"
  assumes alloc_fresh: "ok s \<Longrightarrow> alloc s = Some (r, t) \<Longrightarrow> r \<notin> used s"
    and alloc_used: "ok s \<Longrightarrow> alloc s = Some (r, t) \<Longrightarrow> used t = insert r (used s)"
    and alloc_ok: "ok s \<Longrightarrow> alloc s = Some (r, t) \<Longrightarrow> ok t"
    and free_used: "ok s \<Longrightarrow> used (free r s) = used s - {r}"
    and free_ok: "ok s \<Longrightarrow> ok (free r s)"
begin

lemma alloc_n_spec:
  "ok s \<Longrightarrow> alloc_n alloc n s = (rs, t, b) \<Longrightarrow>
   ok t \<and> used t = used s \<union> set rs \<and> set rs \<inter> used s = {} \<and> distinct rs \<and>
   length rs \<le> n \<and> (b \<longleftrightarrow> length rs = n)"
proof (induction n arbitrary: s rs t b)
  case 0
  then show ?case by simp
next
  case (Suc n)
  show ?case
  proof (cases "alloc s")
    case None
    with Suc.prems show ?thesis by auto
  next
    case (Some p)
    obtain r s1 where p: "p = (r, s1)" by (cases p)
    obtain rs1 u b1 where n: "alloc_n alloc n s1 = (rs1, u, b1)"
      by (cases "alloc_n alloc n s1") auto
    have r: "r \<notin> used s" "used s1 = insert r (used s)" "ok s1"
      using alloc_fresh alloc_used alloc_ok Suc.prems(1) Some p by blast+
    from Suc.IH [OF r(3) n] have
      "ok u" "used u = used s1 \<union> set rs1" "set rs1 \<inter> used s1 = {}" "distinct rs1"
      "length rs1 \<le> n" "b1 \<longleftrightarrow> length rs1 = n" by auto
    with Suc.prems(2) Some p n r show ?thesis by auto
  qed
qed

lemma fold_free:
  "ok s \<Longrightarrow> ok (fold free rs s) \<and> used (fold free rs s) = used s - set rs"
  by (induction rs arbitrary: s) (auto simp: free_used free_ok)

text \<open>Giving back everything a failed (or any) allocation loop got restores the units in use.\<close>

lemma alloc_n_rollback:
  assumes "ok s" and "alloc_n alloc n s = (rs, t, b)"
  shows "ok (fold free rs t)" and "used (fold free rs t) = used s"
  using alloc_n_spec [OF assms] fold_free [of t rs] by auto

end

subsection \<open>Quota counters\<close>

locale quota_counter =
  fixes count :: "'s \<Rightarrow> nat"
    and limit :: "'s \<Rightarrow> nat"
    and inc :: "'s \<Rightarrow> ('e, 's) result"
    and dec :: "'s \<Rightarrow> 's"
  assumes inc_ok: "inc s = Ok t \<Longrightarrow> count s < limit s \<and> count t = Suc (count s) \<and> limit t = limit s"
    and inc_err: "inc s = Err e \<Longrightarrow> limit s \<le> count s"
    and dec_count: "count (dec s) = count s - 1"
    and dec_limit: "limit (dec s) = limit s"
begin

text \<open>A sequence of requests: \<open>True\<close> asks for one more unit, \<open>False\<close> gives one back.\<close>

fun requests :: "'s \<Rightarrow> bool list \<Rightarrow> 's" where
  "requests s [] = s"
| "requests s (True # bs) = (case inc s of Inl _ \<Rightarrow> requests s bs | Inr t \<Rightarrow> requests t bs)"
| "requests s (False # bs) = requests (dec s) bs"

lemma requests_within:
  "count s \<le> limit s \<Longrightarrow> count (requests s bs) \<le> limit (requests s bs) \<and>
   limit (requests s bs) = limit s"
proof (induction s bs rule: requests.induct)
  case (2 s bs)
  then show ?case by (cases "inc s") (auto dest: inc_ok)
next
  case (3 s bs)
  then show ?case by (simp add: dec_count dec_limit, linarith)
qed simp

lemma inc_iff: "(\<exists>t. inc s = Ok t) \<longleftrightarrow> count s < limit s"
  by (cases "inc s") (auto dest: inc_ok inc_err)

end

subsection \<open>The map that models \<^verbatim>\<open>BTreeMap\<close>\<close>

text \<open>
  A \<^verbatim>\<open>BTreeMap\<close> is an association list in strictly ascending key order, which keeps the iteration
  order of the source executable.
\<close>

type_synonym ('k, 'v) btree_map = "('k \<times> 'v) list"

abbreviation bt_get :: "('k, 'v) btree_map \<Rightarrow> 'k \<Rightarrow> 'v option" where
  "bt_get m k \<equiv> map_of m k"

fun bt_insert :: "'k::linorder \<Rightarrow> 'v \<Rightarrow> ('k, 'v) btree_map \<Rightarrow> ('k, 'v) btree_map" where
  "bt_insert k v [] = [(k, v)]"
| "bt_insert k v ((k', v') # m) =
     (if k < k' then (k, v) # (k', v') # m
      else if k = k' then (k, v) # m
      else (k', v') # bt_insert k v m)"

definition bt_remove :: "'k \<Rightarrow> ('k, 'v) btree_map \<Rightarrow> ('k, 'v) btree_map" where
  "bt_remove k m = filter (\<lambda>(k', _). k' \<noteq> k) m"

definition bt_ok :: "('k::linorder, 'v) btree_map \<Rightarrow> bool" where
  "bt_ok m = sorted_wrt (<) (map fst m)"

lemma map_of_bt_insert [simp]: "map_of (bt_insert k v m) = (map_of m)(k \<mapsto> v)"
  by (induction k v m rule: bt_insert.induct) (auto simp: fun_eq_iff)

lemma map_of_bt_remove [simp]: "map_of (bt_remove k m) = (map_of m)(k := None)"
  by (induction m) (auto simp: bt_remove_def fun_eq_iff)

lemma keys_bt_insert: "fst ` set (bt_insert k v m) = insert k (fst ` set m)"
  by (induction k v m rule: bt_insert.induct) auto

lemma bt_ok_insert: "bt_ok m \<Longrightarrow> bt_ok (bt_insert k v m)"
proof (induction k v m rule: bt_insert.induct)
  case (2 k v k' v' m)
  then show ?case
    using keys_bt_insert [of k v m] by (fastforce simp: bt_ok_def)
qed (simp add: bt_ok_def)

lemma bt_ok_remove: "bt_ok m \<Longrightarrow> bt_ok (bt_remove k m)"
  by (simp add: bt_ok_def bt_remove_def sorted_wrt_map sorted_wrt_filter)

lemma length_bt_insert:
  "bt_ok m \<Longrightarrow> length (bt_insert k v m) = (if map_of m k = None then Suc (length m) else length m)"
proof (induction k v m rule: bt_insert.induct)
  case (2 k v k' v' m)
  have "k < k' \<Longrightarrow> map_of m k = None"
    using "2.prems" by (auto simp: bt_ok_def map_of_eq_None_iff)
  with 2 show ?case by (auto simp: bt_ok_def)
qed simp

lemma bt_get_iff: "bt_ok m \<Longrightarrow> map_of m k = Some v \<longleftrightarrow> (k, v) \<in> set m"
  by (simp add: bt_ok_def strict_sorted_iff)

lemma bt_ok_Nil [simp]: "bt_ok []"
  by (simp add: bt_ok_def)

interpretation bt: ordered_map "\<lambda>m. m" map_of bt_insert bt_remove bt_ok
  by unfold_locales (simp_all add: bt_ok_insert bt_ok_remove, simp add: bt_ok_def)

lemma bt_remove_where:
  assumes "bt_ok m"
  shows "bt_get (fold bt_remove (map fst (filter P m)) m) k =
    (case bt_get m k of None \<Rightarrow> None | Some v \<Rightarrow> if P (k, v) then None else Some v)"
proof (cases "bt_get m k")
  case (Some v)
  then have "(k, v') \<in> set m \<longleftrightarrow> v' = v" for v' using bt_get_iff [OF assms, of k v'] by auto
  then have "k \<in> set (map fst (filter P m)) \<longleftrightarrow> P (k, v)" by force
  with Some show ?thesis by (simp add: bt.get_fold_rem)
qed (simp add: bt.get_fold_rem)

end
