(* ===== verification/Frame_Pool.thy ===== *)
theory Frame_Pool
  imports Spark_Interfaces
begin

section \<open>Physical frame bookkeeping\<close>

text \<open>
  \<^verbatim>\<open>kernel/src/frame_pool.rs\<close>: the pool of physical frames. \<open>regions\<close> are the address ranges never
  handed out yet, \<open>recycled\<close> the returned frames in ascending order, \<open>allocated\<close> the frames in use.
  An allocation of several frames is one contiguous extent, taken from a run of recycled frames or
  from the front of a region.
\<close>

definition PAGE_BYTES :: nat where "PAGE_BYTES = 4096"

record frame_pool =
  regions :: "(nat \<times> nat) list"
  recycled :: "nat list"
  allocated :: "nat set"
  total_bytes :: nat

text \<open>\<^verbatim>\<open>end - start\<close> and the sum are checked: an inverted region or a total beyond 64 bits panics.\<close>

fun region_bytes :: "(nat \<times> nat) list \<Rightarrow> nat option" where
  "region_bytes [] = Some 0"
| "region_bytes ((s, e) # rs) = do {
     n \<leftarrow> region_bytes rs;
     if e < s then None else checked_add 64 (e - s) n
   }"

definition new_pool :: "(nat \<times> nat) list \<Rightarrow> frame_pool option" where
  "new_pool rs = do {
     n \<leftarrow> region_bytes rs;
     Some \<lparr>regions = rs, recycled = [], allocated = {}, total_bytes = n\<rparr>
   }"

text \<open>The scan for a run of \<open>count\<close> adjacent recycled frames; it returns the run's first and last index.\<close>

definition run_from :: "nat list \<Rightarrow> nat \<Rightarrow> nat \<Rightarrow> nat" where
  "run_from xs run_start stop =
     (if 0 < stop \<and> checked_add 64 (xs ! (stop - 1)) PAGE_BYTES \<noteq> Some (xs ! stop) then stop else run_start)"

function find_run :: "nat \<Rightarrow> nat list \<Rightarrow> nat \<Rightarrow> nat \<Rightarrow> (nat \<times> nat) option" where
  "find_run count xs run_start stop =
     (if stop < length xs then
        let rs = run_from xs run_start stop
        in if stop - rs + 1 = count then Some (rs, stop)
           else find_run count xs rs (stop + 1)
      else None)"
  by auto
termination by (relation "measure (\<lambda>(_, xs, _, e). length xs - e)") auto

declare find_run.simps [simp del]

fun take_region :: "nat \<Rightarrow> (nat \<times> nat) list \<Rightarrow> (nat \<times> (nat \<times> nat) list) option" where
  "take_region bytes [] = None"
| "take_region bytes ((s, e) # rs) =
     (case checked_add 64 s bytes of
        Some nxt \<Rightarrow>
          if nxt \<le> e then Some (s, (nxt, e) # rs)
          else map_option (\<lambda>(f, rs'). (f, (s, e) # rs')) (take_region bytes rs)
      | None \<Rightarrow> map_option (\<lambda>(f, rs'). (f, (s, e) # rs')) (take_region bytes rs))"

definition run_of :: "nat \<Rightarrow> nat \<Rightarrow> nat set" where
  "run_of first count = (\<lambda>i. first + i * PAGE_BYTES) ` {..<count}"

definition allocate :: "nat \<Rightarrow> frame_pool \<Rightarrow> nat option \<times> frame_pool" where
  "allocate count p =
     (if count = 0 then (None, p)
      else case checked_mul 64 count PAGE_BYTES of
        None \<Rightarrow> (None, p)
      | Some bytes \<Rightarrow>
          (case (if count \<le> length (recycled p) then find_run count (recycled p) 0 0 else None) of
             Some (rs, e) \<Rightarrow>
               (Some (recycled p ! rs),
                p\<lparr>recycled := take rs (recycled p) @ drop (Suc e) (recycled p),
                  allocated := allocated p \<union> set (take (Suc e - rs) (drop rs (recycled p)))\<rparr>)
           | None \<Rightarrow>
               (case take_region bytes (regions p) of
                  None \<Rightarrow> (None, p)
                | Some (first, rgs) \<Rightarrow>
                    (Some first, p\<lparr>regions := rgs, allocated := allocated p \<union> run_of first count\<rparr>))))"

text \<open>\<^verbatim>\<open>binary_search(..).unwrap_err()\<close> panics when the frame is recycled already.\<close>

definition insert_index :: "nat \<Rightarrow> nat list \<Rightarrow> nat option" where
  "insert_index a xs = (if a \<in> set xs then None else Some (length (takeWhile (\<lambda>x. x < a) xs)))"

definition release :: "nat \<Rightarrow> frame_pool \<Rightarrow> frame_pool option" where
  "release addr p =
     (if addr \<in> allocated p then do {
        i \<leftarrow> insert_index addr (recycled p);
        Some (p\<lparr>allocated := allocated p - {addr},
                recycled := take i (recycled p) @ addr # drop i (recycled p)\<rparr>)
      }
      else Some p)"

definition stats :: "frame_pool \<Rightarrow> nat \<times> nat" where
  "stats p = (card (allocated p) * PAGE_BYTES, total_bytes p)"

subsection \<open>The run scan\<close>

definition contig :: "nat list \<Rightarrow> nat \<Rightarrow> nat \<Rightarrow> bool" where
  "contig xs i j \<longleftrightarrow> i \<le> j \<and> j < length xs \<and>
     (\<forall>k. i \<le> k \<and> k < j \<longrightarrow> checked_add 64 (xs ! k) PAGE_BYTES = Some (xs ! Suc k))"

lemma contig_Suc:
  "Suc j < length xs \<Longrightarrow> i \<le> j \<Longrightarrow>
   contig xs i (Suc j) \<longleftrightarrow> contig xs i j \<and> checked_add 64 (xs ! j) PAGE_BYTES = Some (xs ! Suc j)"
  by (auto simp: contig_def less_Suc_eq)

lemma contig_self: "i < length xs \<Longrightarrow> contig xs i i"
  by (simp add: contig_def)

lemma contig_addr: "contig xs i j \<Longrightarrow> i + k \<le> j \<Longrightarrow> xs ! (i + k) = xs ! i + k * PAGE_BYTES"
proof (induction k)
  case (Suc k)
  have "checked_add 64 (xs ! (i + k)) PAGE_BYTES = Some (xs ! Suc (i + k))"
    using Suc.prems unfolding contig_def by force
  with Suc show ?case by simp
qed simp

text \<open>
  The loop invariant: the current run \<open>[run_start, end)\<close> is contiguous, shorter than \<open>count\<close>, and
  no contiguous run that ends there starts earlier.
\<close>

definition scanning :: "nat \<Rightarrow> nat list \<Rightarrow> nat \<Rightarrow> nat \<Rightarrow> bool" where
  "scanning count xs rs e \<longleftrightarrow> rs \<le> e \<and> e - rs < count \<and>
     (0 < e \<and> e \<le> length xs \<longrightarrow> rs < e \<and> contig xs rs (e - 1) \<and> (\<forall>i. contig xs i (e - 1) \<longrightarrow> rs \<le> i))"

lemma scanning_next:
  assumes "scanning count xs rs e" and "e < length xs"
    and rs': "rs' = run_from xs rs e"
  shows "rs' \<le> e \<and> e - rs' < count \<and> contig xs rs' e \<and> (\<forall>i. contig xs i e \<longrightarrow> rs' \<le> i)"
proof (cases e)
  case 0
  with assms show ?thesis by (auto simp: scanning_def contig_self run_from_def)
next
  case (Suc d)
  have inv: "rs \<le> d" "Suc d - rs < count" "contig xs rs d" "\<forall>i. contig xs i d \<longrightarrow> rs \<le> i"
    using assms(1,2) by (auto simp: scanning_def Suc)
  have up: "contig xs i (Suc d) \<longleftrightarrow> i = Suc d \<or>
      i \<le> d \<and> contig xs i d \<and> checked_add 64 (xs ! d) PAGE_BYTES = Some (xs ! Suc d)" for i
    using assms(2) contig_Suc [of d xs i] by (auto simp: Suc contig_self) (auto simp: contig_def)
  show ?thesis
  proof (cases "checked_add 64 (xs ! d) PAGE_BYTES = Some (xs ! Suc d)")
    case True
    then have "rs' = rs" by (simp add: rs' run_from_def Suc)
    moreover have "i \<le> d \<or> i = Suc d \<Longrightarrow> contig xs i (Suc d) \<Longrightarrow> rs \<le> i" for i
      using up inv by auto
    ultimately show ?thesis using inv up True by (auto simp: Suc)
  next
    case False
    then have "rs' = Suc d" by (auto simp: rs' run_from_def Suc)
    moreover have "0 < count" using inv(2) by linarith
    ultimately show ?thesis using up False by (auto simp: Suc)
  qed
qed

lemma find_run_correct:
  "scanning count xs rs e \<Longrightarrow>
   (case find_run count xs rs e of
      Some (i, j) \<Rightarrow> contig xs i j \<and> j - i + 1 = count
    | None \<Rightarrow> \<forall>i j. e \<le> j \<longrightarrow> contig xs i j \<longrightarrow> j - i + 1 \<noteq> count)"
proof (induction count xs rs e rule: find_run.induct)
  case (1 count xs rs e)
  show ?case
  proof (cases "e < length xs")
    case False
    then show ?thesis by (subst find_run.simps) (auto simp: contig_def)
  next
    case True
    define rs' where "rs' = run_from xs rs e"
    note nx = scanning_next [OF "1.prems" True rs'_def]
    show ?thesis
    proof (cases "e - rs' + 1 = count")
      case True
      with \<open>e < length xs\<close> nx show ?thesis
        by (subst find_run.simps) (simp add: rs'_def [symmetric] Let_def)
    next
      case False
      have sc: "scanning count xs rs' (e + 1)" using nx False by (auto simp: scanning_def)
      have no: "\<not> (contig xs i e \<and> e - i + 1 = count)" for i using nx False by auto
      have eq: "find_run count xs rs e = find_run count xs rs' (e + 1)"
        using True False by (subst find_run.simps) (simp add: rs'_def [symmetric] Let_def)
      from 1(1) [OF True rs'_def False sc] show ?thesis
        unfolding eq by (cases "find_run count xs rs' (e + 1)") (use no in \<open>auto, metis Suc_leI le_neq_implies_less\<close>)
    qed
  qed
qed


lemma find_run_Some:
  assumes "find_run count xs 0 0 = Some (i, j)" and "0 < count"
  shows "contig xs i j" and "j - i + 1 = count"
  using find_run_correct [of count xs 0 0] assms by (auto simp: scanning_def)

lemma find_run_None:
  assumes "find_run count xs 0 0 = None" and "0 < count" and "contig xs i j"
  shows "j - i + 1 \<noteq> count"
  using find_run_correct [of count xs 0 0] assms by (auto simp: scanning_def)

lemma set_nth_image: "set xs = (\<lambda>k. xs ! k) ` {..<length xs}"
  by (auto simp: set_conv_nth)

lemma contig_slice:
  assumes "contig xs i j" and "j - i + 1 = count"
  shows "set (take (Suc j - i) (drop i xs)) = run_of (xs ! i) count"
proof -
  let ?l = "take (Suc j - i) (drop i xs)"
  have len: "length ?l = count" and ij: "i \<le> j"
    using assms by (auto simp: contig_def)
  have "take (Suc j - i) (drop i xs) ! k = xs ! i + k * PAGE_BYTES" if "k < count" for k
  proof -
    have "k \<le> j - i" using that assms(2) by linarith
    then have "i + k \<le> j" using ij by linarith
    from contig_addr [OF assms(1) this] show ?thesis
      using that len \<open>k \<le> j - i\<close> ij by simp
  qed
  then have "(\<lambda>k. ?l ! k) ` {..<count} = run_of (xs ! i) count" unfolding run_of_def by (intro image_cong) auto
  then show ?thesis using set_nth_image [of ?l] len by simp
qed

subsection \<open>The invariant\<close>

text \<open>
  The bytes of a frame and of the pool: every byte the pool manages belongs to a frame in use, to a
  recycled frame or to a region, and to only one of them.
\<close>

definition page :: "nat \<Rightarrow> nat set" where
  "page a = {a..<a + PAGE_BYTES}"

abbreviation frames :: "frame_pool \<Rightarrow> nat set" where
  "frames p \<equiv> allocated p \<union> set (recycled p)"

definition disjoint_pages :: "nat set \<Rightarrow> bool" where
  "disjoint_pages A \<longleftrightarrow> (\<forall>a \<in> A. \<forall>b \<in> A. a \<noteq> b \<longrightarrow> page a \<inter> page b = {})"

definition pool_ok :: "frame_pool \<Rightarrow> bool" where
  "pool_ok p \<longleftrightarrow> finite (allocated p) \<and> sorted_wrt (<) (recycled p) \<and>
     allocated p \<inter> set (recycled p) = {} \<and> disjoint_pages (frames p) \<and>
     (\<forall>a \<in> frames p. \<forall>(s, e) \<in> set (regions p). page a \<inter> {s..<e} = {}) \<and>
     sorted_wrt (\<lambda>(s, e) (s', e'). {s..<e} \<inter> {s'..<e'} = {}) (regions p)"

definition space :: "frame_pool \<Rightarrow> nat set" where
  "space p = (\<Union>a \<in> frames p. page a) \<union> (\<Union>(s, e) \<in> set (regions p). {s..<e})"

lemma page_run: "(\<Union>a \<in> run_of first count. page a) = {first..<first + count * PAGE_BYTES}"
proof (induction count)
  case 0
  then show ?case by (simp add: run_of_def)
next
  case (Suc count)
  have "run_of first (Suc count) = insert (first + count * PAGE_BYTES) (run_of first count)"
    by (simp add: run_of_def lessThan_Suc)
  with Suc show ?case by (auto simp: page_def)
qed

lemma mem_page: "a \<in> page a"
  by (simp add: page_def PAGE_BYTES_def)

lemma disjoint_pages_run: "disjoint_pages (run_of first count)"
proof -
  have "page (first + i * PAGE_BYTES) \<inter> page (first + j * PAGE_BYTES) = {}" if "i < j" for i j
  proof -
    have "i * PAGE_BYTES + PAGE_BYTES \<le> j * PAGE_BYTES"
      using that mult_le_mono1 [of "Suc i" j PAGE_BYTES] by simp
    then show ?thesis by (auto simp: page_def)
  qed
  then show ?thesis by (fastforce simp: disjoint_pages_def run_of_def neq_iff)
qed

lemma disjoint_pages_Un:
  assumes "disjoint_pages A" and "disjoint_pages B" and "(\<Union>a \<in> A. page a) \<inter> (\<Union>b \<in> B. page b) = {}"
  shows "disjoint_pages (A \<union> B)"
  using assms unfolding disjoint_pages_def by blast

lemma take_region_Some:
  assumes "take_region bytes rgs = Some (first, rgs')"
  shows "\<exists>e pre post. rgs = pre @ (first, e) # post \<and> rgs' = pre @ (first + bytes, e) # post \<and>
    first + bytes \<le> e"
  using assms
proof (induction bytes rgs arbitrary: rgs' rule: take_region.induct)
  case (2 bytes s e rs)
  show ?case
  proof (cases "s + bytes < 2 ^ 64 \<and> s + bytes \<le> e")
    case True
    with 2(3) show ?thesis
      by (intro exI [of _ e] exI [of _ "[]"] exI [of _ rs]) (auto simp: checked_add_def)
  next
    case False
    then obtain rs'' where r: "take_region bytes rs = Some (first, rs'')" "rgs' = (s, e) # rs''"
      using 2(3) by (auto simp: checked_add_def split: if_splits)
    have "\<exists>e pre post. rs = pre @ (first, e) # post \<and> rs'' = pre @ (first + bytes, e) # post \<and> first + bytes \<le> e"
      using False r(1) 2(1,2) by (cases "checked_add 64 s bytes") auto
    then obtain e1 pre post where "rs = pre @ (first, e1) # post" "rs'' = pre @ (first + bytes, e1) # post"
      "first + bytes \<le> e1" by blast
    with r(2) show ?thesis by (intro exI [of _ e1] exI [of _ "(s, e) # pre"] exI [of _ post]) simp
  qed
qed simp

lemma take_region_None:
  "take_region bytes rgs = None \<longleftrightarrow> (\<forall>(s, e) \<in> set rgs. e < s + bytes \<or> 2 ^ 64 \<le> s + bytes)"
  by (induction bytes rgs rule: take_region.induct) (auto simp: checked_add_def)


subsection \<open>Allocation and release keep the invariant and the managed bytes\<close>

text \<open>The two ways an allocation is served.\<close>

lemma allocate_cases:
  assumes "allocate count p = (Some first, p')"
  obtains (reuse) pre mid post where "recycled p = pre @ mid @ post" "set mid = run_of first count"
      "p' = p\<lparr>recycled := pre @ post, allocated := allocated p \<union> run_of first count\<rparr>"
  | (carve) e pre post where "regions p = pre @ (first, e) # post" "first + count * PAGE_BYTES \<le> e"
      "p' = p\<lparr>regions := pre @ (first + count * PAGE_BYTES, e) # post, allocated := allocated p \<union> run_of first count\<rparr>"
proof -
  let ?find = "if count \<le> length (recycled p) then find_run count (recycled p) 0 0 else None"
  have c: "0 < count" "count * PAGE_BYTES < 2 ^ 64"
    using assms by (auto simp: allocate_def checked_mul_def split: if_splits)
  show ?thesis
  proof (cases ?find)
    case (Some ij)
    obtain i j where ij: "ij = (i, j)" by (cases ij)
    with Some have f: "find_run count (recycled p) 0 0 = Some (i, j)" by (auto split: if_splits)
    note run = find_run_Some [OF f c(1)]
    have eq: "first = recycled p ! i"
      "p' = p\<lparr>recycled := take i (recycled p) @ drop (Suc j) (recycled p), allocated := allocated p \<union> run_of first count\<rparr>"
      using assms c Some ij contig_slice [OF run] by (auto simp: allocate_def checked_mul_def)
    have "Suc j - i + i = Suc j" using run(1) by (simp add: contig_def)
    then have "recycled p = take i (recycled p) @ take (Suc j - i) (drop i (recycled p)) @ drop (Suc j) (recycled p)"
      by (metis append_take_drop_id drop_drop)
    with contig_slice [OF run] eq reuse show ?thesis by blast
  next
    case None
    with assms c obtain rgs where t: "take_region (count * PAGE_BYTES) (regions p) = Some (first, rgs)"
      and p': "p' = p\<lparr>regions := rgs, allocated := allocated p \<union> run_of first count\<rparr>"
      by (auto simp: allocate_def checked_mul_def split: option.splits)
    from take_region_Some [OF t] p' carve show ?thesis by blast
  qed
qed

lemma run_region:
  assumes "first + count * PAGE_BYTES \<le> e" and "a \<in> run_of first count"
  shows "page a \<subseteq> {first..<e}"
proof -
  have "page a \<subseteq> {first..<first + count * PAGE_BYTES}"
    unfolding page_run [symmetric] using assms(2) by blast
  with assms(1) show ?thesis by auto
qed

text \<open>What an allocation promises: the pool stays well formed and manages the same bytes, exactly the
  run is added to the frames in use, and its bytes were in no frame in use.\<close>

definition alloc_effect :: "frame_pool \<Rightarrow> nat \<Rightarrow> nat \<Rightarrow> frame_pool \<Rightarrow> bool" where
  "alloc_effect p first count p' \<longleftrightarrow> pool_ok p' \<and> space p' = space p \<and> total_bytes p' = total_bytes p \<and>
     allocated p' = allocated p \<union> run_of first count \<and>
     (\<Union>a \<in> run_of first count. page a) \<inter> (\<Union>a \<in> allocated p. page a) = {}"

lemma finite_run [simp]: "finite (run_of first count)"
  by (simp add: run_of_def)

lemma reuse_effect:
  assumes "pool_ok p" and r: "recycled p = pre @ mid @ post" "set mid = run_of first count"
    and p': "p' = p\<lparr>recycled := pre @ post, allocated := allocated p \<union> run_of first count\<rparr>"
  shows "alloc_effect p first count p'"
proof -
  have fr: "frames p' = frames p" using r p' by auto
  have sorted: "sorted_wrt (<) (pre @ mid @ post)" and apart: "allocated p \<inter> set (recycled p) = {}"
    and disj: "disjoint_pages (frames p)"
    using assms(1) r(1) by (auto simp: pool_ok_def)
  have "(set pre \<union> set post) \<inter> set mid = {}" using sorted by (fastforce simp: sorted_wrt_append)
  with apart r have "allocated p' \<inter> set (recycled p') = {}" by (auto simp: p')
  moreover have "sorted_wrt (<) (recycled p')" using sorted by (auto simp: p' sorted_wrt_append)
  moreover have "finite (allocated p')" "regions p' = regions p"
    using assms(1) by (auto simp: pool_ok_def p')
  ultimately have ok: "pool_ok p'"
    using assms(1) unfolding pool_ok_def fr by simp
  have "page a \<inter> page b = {}" if "a \<in> run_of first count" "b \<in> allocated p" for a b
  proof -
    have "a \<in> set (recycled p)" using that(1) r by auto
    moreover from this have "a \<noteq> b" using that(2) apart by blast
    ultimately show ?thesis using that(2) disj by (simp add: disjoint_pages_def)
  qed
  then have "(\<Union>a \<in> run_of first count. page a) \<inter> (\<Union>a \<in> allocated p. page a) = {}" by blast
  moreover have "space p' = space p" unfolding space_def fr by (simp add: p')
  ultimately show ?thesis using ok unfolding alloc_effect_def by (simp add: p')
qed

lemma sorted_wrt_replace:
  assumes "sorted_wrt P (pre @ x # post)" and "\<And>y. P y x \<Longrightarrow> P y x'" and "\<And>y. P x y \<Longrightarrow> P x' y"
  shows "sorted_wrt P (pre @ x' # post)"
  using assms by (auto simp: sorted_wrt_append)

lemma carve_effect:
  assumes "pool_ok p" and r: "regions p = pre @ (first, e) # post" "first + count * PAGE_BYTES \<le> e"
    and p': "p' = p\<lparr>regions := pre @ (first + count * PAGE_BYTES, e) # post,
                    allocated := allocated p \<union> run_of first count\<rparr>"
  shows "alloc_effect p first count p'"
proof -
  let ?run = "run_of first count" and ?nxt = "first + count * PAGE_BYTES"
  let ?out = "\<lambda>(s, e) (s', e'). {s..<e} \<inter> {s'..<e'} = ({} :: nat set)"
  have old: "page a \<inter> {s..<t} = {}" if "a \<in> frames p" "(s, t) \<in> set (regions p)" for a s t
    using assms(1) that unfolding pool_ok_def by blast
  have apart: "allocated p \<inter> set (recycled p) = {}" and disj: "disjoint_pages (frames p)"
    and rg: "sorted_wrt ?out (pre @ (first, e) # post)"
    using assms(1) r(1) by (simp_all add: pool_ok_def)
  have sub: "{?nxt..<e} \<subseteq> {first..<e}" by auto
  have run_new: "page a \<inter> page b = {}" if "a \<in> ?run" "b \<in> frames p" for a b
    using run_region [OF r(2) that(1)] old [OF that(2), of first e] r(1) by fastforce
  have run_rest: "page a \<inter> {s..<t} = {}"
    if "a \<in> ?run" "(s, t) \<in> set pre \<union> set post" for a s t
    using run_region [OF r(2) that(1)] rg that(2) unfolding sorted_wrt_append by fastforce
  have run_tail: "page a \<inter> {?nxt..<e} = {}" if "a \<in> ?run" for a
  proof -
    have "page a \<subseteq> {first..<?nxt}" by (rule run_region [OF order_refl that])
    then show ?thesis by auto
  qed
  have fr: "frames p' = frames p \<union> ?run" by (auto simp: p')
  have "disjoint_pages (frames p')" unfolding fr
    by (rule disjoint_pages_Un [OF disj disjoint_pages_run]) (use run_new in blast)
  moreover have "page a \<inter> {s..<t} = {}" if "a \<in> frames p'" "(s, t) \<in> set (regions p')" for a s t
  proof (cases "(s, t) = (?nxt, e)")
    case True
    show ?thesis
    proof (cases "a \<in> ?run")
      case False
      with that(1) fr have "a \<in> frames p" by blast
      then have "page a \<inter> {first..<e} = {}" by (rule old) (simp add: r(1))
      with sub True show ?thesis by auto
    qed (use run_tail True in simp)
  next
    case False
    with that(2) have st: "(s, t) \<in> set pre \<union> set post" by (auto simp: p')
    then have "(s, t) \<in> set (regions p)" by (auto simp: r(1))
    with that(1) fr run_rest [OF _ st] old show ?thesis by blast
  qed
  moreover have "sorted_wrt ?out (regions p')"
  proof -
    have "sorted_wrt ?out (pre @ (?nxt, e) # post)"
      by (rule sorted_wrt_replace [OF rg]) (use sub in \<open>fast+\<close>)
    moreover have "regions p' = pre @ (?nxt, e) # post" by (simp add: p')
    ultimately show ?thesis by (simp only:)
  qed
  moreover have "allocated p' \<inter> set (recycled p') = {}"
    using apart run_new mem_page by (auto simp: p') blast
  moreover have "finite (allocated p')" "sorted_wrt (<) (recycled p')"
    using assms(1) by (auto simp: pool_ok_def p')
  ultimately have "pool_ok p'" unfolding pool_ok_def by blast
  moreover have "space p' = space p"
  proof -
    have cut: "{first..<?nxt} \<union> {?nxt..<e} = {first..<e}" using r(2) by auto
    show ?thesis unfolding space_def fr UN_Un page_run by (simp add: p' r(1) cut [symmetric] Un_ac)
  qed
  moreover have "(\<Union>a \<in> ?run. page a) \<inter> (\<Union>a \<in> allocated p. page a) = {}" using run_new by blast
  ultimately show ?thesis unfolding alloc_effect_def by (simp add: p')
qed

lemma allocate_effect:
  assumes "pool_ok p" and "allocate count p = (Some first, p')"
  shows "alloc_effect p first count p'"
  using assms(2) by (cases rule: allocate_cases) (use reuse_effect carve_effect assms(1) in blast)+


lemma insert_index_Some:
  assumes "insert_index a xs = Some i" and "sorted_wrt (<) xs"
  shows "sorted_wrt (<) (take i xs @ a # drop i xs)" and "set (take i xs @ a # drop i xs) = insert a (set xs)"
proof -
  have i: "take i xs = takeWhile (\<lambda>x. x < a) xs" "drop i xs = dropWhile (\<lambda>x. x < a) xs" and a: "a \<notin> set xs"
    using assms(1) by (auto simp: insert_index_def takeWhile_eq_take [symmetric] dropWhile_eq_drop split: if_splits)
  show "set (take i xs @ a # drop i xs) = insert a (set xs)"
    by (metis append_take_drop_id list.simps(15) set_append Un_insert_right)
  have small: "\<forall>x \<in> set (take i xs). x < a" unfolding i(1) by (auto dest: set_takeWhileD)
  have "\<forall>x \<in> set (drop i xs). a < x"
  proof (cases "drop i xs")
    case (Cons y ys)
    then have "\<not> y < a" "y \<in> set xs"
      unfolding i(2) by (auto simp: dropWhile_eq_Cons_conv dest: arg_cong [where f = set])
    with a have "a < y" by (metis linorder_less_linear)
    moreover have "sorted_wrt (<) (drop i xs)" using assms(2) by (rule sorted_wrt_drop)
    ultimately show ?thesis using Cons by auto
  qed simp
  moreover have "\<forall>x \<in> set (take i xs). \<forall>y \<in> set (drop i xs). x < y"
    using assms(2) append_take_drop_id [of i xs] by (metis sorted_wrt_append)
  ultimately show "sorted_wrt (<) (take i xs @ a # drop i xs)"
    using small assms(2) by (simp add: sorted_wrt_append sorted_wrt_take sorted_wrt_drop)
qed

lemma release_returns:
  assumes "pool_ok p"
  shows "\<exists>p'. release a p = Some p'"
  using assms by (auto simp: release_def insert_index_def pool_ok_def)

lemma release_ok:
  assumes "pool_ok p" and "release a p = Some p'"
  shows "pool_ok p' \<and> allocated p' = allocated p - {a} \<and> space p' = space p \<and>
    set (recycled p') = set (recycled p) \<union> (allocated p \<inter> {a}) \<and> total_bytes p' = total_bytes p"
proof (cases "a \<in> allocated p")
  case False
  with assms show ?thesis by (auto simp: release_def)
next
  case True
  with assms(2) obtain i where i: "insert_index a (recycled p) = Some i"
    and p': "p' = p\<lparr>allocated := allocated p - {a}, recycled := take i (recycled p) @ a # drop i (recycled p)\<rparr>"
    by (auto simp: release_def split: bind_splits)
  have s: "sorted_wrt (<) (recycled p')" and set: "set (recycled p') = insert a (set (recycled p))"
    using insert_index_Some [OF i] assms(1) by (auto simp: p' pool_ok_def)
  have fr: "frames p' = frames p" using set True by (auto simp: p')
  have "allocated p' \<inter> set (recycled p') = {}"
    using set assms(1) unfolding pool_ok_def by (simp add: p') blast
  with s assms(1) have "pool_ok p'" unfolding pool_ok_def fr by (simp add: p')
  moreover have "space p' = space p" unfolding space_def fr by (simp add: p')
  ultimately show ?thesis using set True by (simp add: p')
qed

subsection \<open>The pool as an allocator of single frames and as a transition system\<close>

definition alloc_frame :: "frame_pool \<Rightarrow> (nat \<times> frame_pool) option" where
  "alloc_frame p = (case allocate 1 p of (Some a, p') \<Rightarrow> Some (a, p') | (None, _) \<Rightarrow> None)"

definition free_frame :: "nat \<Rightarrow> frame_pool \<Rightarrow> frame_pool" where
  "free_frame a p = (case release a p of Some p' \<Rightarrow> p' | None \<Rightarrow> p)"

lemma run_of_1 [simp]: "run_of a (Suc 0) = {a}"
  by (simp add: run_of_def lessThan_Suc)

lemma alloc_frame_effect:
  assumes "pool_ok p" and "alloc_frame p = Some (a, p')"
  shows "pool_ok p'" and "allocated p' = insert a (allocated p)" and "a \<notin> allocated p"
proof -
  have "allocate 1 p = (Some a, p')"
    using assms(2) by (auto simp: alloc_frame_def split: prod.splits option.splits)
  from allocate_effect [OF assms(1) this]
  show "pool_ok p'" "allocated p' = insert a (allocated p)" "a \<notin> allocated p"
    using mem_page [of a] by (auto simp: alloc_effect_def)
qed

lemma free_frame_effect:
  assumes "pool_ok p"
  shows "pool_ok (free_frame a p)" and "allocated (free_frame a p) = allocated p - {a}"
  using release_returns [OF assms, of a] release_ok [OF assms, of a] by (auto simp: free_frame_def)

interpretation pool: allocator alloc_frame free_frame allocated pool_ok
  by unfold_locales
    (erule (1) alloc_frame_effect(3) alloc_frame_effect(2) alloc_frame_effect(1) | erule free_frame_effect)+

inductive pool_step :: "frame_pool \<Rightarrow> frame_pool \<Rightarrow> bool" where
  pool_alloc: "allocate count p = (r, p') \<Longrightarrow> pool_step p p'"
| pool_release: "release a p = Some p' \<Longrightarrow> pool_step p p'"

lemma allocate_None: "allocate count p = (None, p') \<Longrightarrow> p' = p"
  by (auto simp: allocate_def Let_def split: if_splits option.splits prod.splits)

lemma pool_step_ok:
  assumes "pool_ok p" and "pool_step p p'"
  shows "pool_ok p' \<and> space p' = space p \<and> total_bytes p' = total_bytes p"
  using assms(2)
proof cases
  case (pool_alloc count r)
  with assms(1) show ?thesis
    using allocate_None [of count p p'] allocate_effect [OF assms(1), of count _ p']
    by (cases r) (simp_all add: alloc_effect_def)
next
  case (pool_release a)
  with release_ok [OF assms(1)] show ?thesis by blast
qed

interpretation pool_run: inv_system pool_step pool_ok
  by unfold_locales (simp add: pool_step_ok)

lemma new_pool_ok:
  assumes "new_pool rs = Some p" and "sorted_wrt (\<lambda>(s, e) (s', e'). {s..<e} \<inter> {s'..<e'} = ({} :: nat set)) rs"
  shows "pool_ok p" and "space p = (\<Union>(s, e) \<in> set rs. {s..<e})"
  using assms by (auto simp: new_pool_def pool_ok_def disjoint_pages_def space_def split: bind_splits)

subsection \<open>Properties\<close>

text \<open>
  C20. An allocation of \<open>count\<close> frames hands out one contiguous extent of bytes that overlaps no frame
  in use, adds exactly these frames to the frames in use, and keeps the pool well formed. A refused
  request leaves the pool as it was.
\<close>

theorem frame_allocation_exclusive:
  assumes "pool_ok p" and "allocate count p = (r, p')"
  shows "(case r of
     None \<Rightarrow> p' = p
   | Some first \<Rightarrow> pool_ok p' \<and> allocated p' = allocated p \<union> run_of first count \<and>
       {first..<first + count * PAGE_BYTES} \<inter> (\<Union>a \<in> allocated p. page a) = {})"
  using assms allocate_effect [OF assms(1)]
  by (cases r) (auto dest: allocate_None simp: alloc_effect_def page_run)

definition demo_pool :: frame_pool where
  "demo_pool = \<lparr>regions = [(4096, 12288), (36864, 53248)], recycled = [], allocated = {}, total_bytes = 24576\<rparr>"

definition demo_pool_used :: frame_pool where
  "demo_pool_used = \<lparr>regions = [(4096, 12288), (49152, 53248)], recycled = [],
     allocated = run_of 36864 3, total_bytes = 24576\<rparr>"

lemma demo_pool_new: "new_pool [(4096, 12288), (36864, 53248)] = Some demo_pool"
  by (simp add: new_pool_def demo_pool_def checked_add_def)

lemma demo_pool_ok: "pool_ok demo_pool"
  by (rule new_pool_ok(1) [OF demo_pool_new]) auto

lemma demo_pool_alloc: "allocate 3 demo_pool = (Some 36864, demo_pool_used)"
  by (simp add: allocate_def demo_pool_def demo_pool_used_def PAGE_BYTES_def checked_mul_def checked_add_def)

theorem frame_allocation_exclusive_witness:
  "pool_ok demo_pool_used \<and> allocated demo_pool_used = run_of 36864 3"
  using frame_allocation_exclusive [OF demo_pool_ok demo_pool_alloc] by (simp add: demo_pool_def)

text \<open>
  No request is refused while it could be served: \<^verbatim>\<open>allocate\<close> answers \<^verbatim>\<open>None\<close> for a positive
  count that fits 64 bits only when the recycled frames hold no run of \<open>count\<close> adjacent frames and no
  region has that many bytes left.
\<close>

theorem frame_allocation_complete:
  assumes "0 < count" and "count * PAGE_BYTES < 2 ^ 64"
  shows "fst (allocate count p) = None \<longleftrightarrow>
    \<not> (\<exists>i. i + count \<le> length (recycled p) \<and>
        (\<forall>k < count - 1. checked_add 64 (recycled p ! (i + k)) PAGE_BYTES = Some (recycled p ! (i + k + 1)))) \<and>
    (\<forall>(s, e) \<in> set (regions p). e < s + count * PAGE_BYTES \<or> 2 ^ 64 \<le> s + count * PAGE_BYTES)"
proof -
  let ?xs = "recycled p"
  let ?run = "\<lambda>i. i + count \<le> length ?xs \<and>
    (\<forall>k < count - 1. checked_add 64 (?xs ! (i + k)) PAGE_BYTES = Some (?xs ! (i + k + 1)))"
  have contig_run: "contig ?xs i j" if "?run i" "j = i + count - 1" for i j
    unfolding contig_def
  proof (intro conjI allI impI)
    show "i \<le> j" "j < length ?xs" using that assms(1) by auto
    fix k assume k: "i \<le> k \<and> k < j"
    then have "k - i < count - 1" using that(2) by linarith
    then have "checked_add 64 (?xs ! (i + (k - i))) PAGE_BYTES = Some (?xs ! (i + (k - i) + 1))"
      using that(1) by blast
    then show "checked_add 64 (?xs ! k) PAGE_BYTES = Some (?xs ! Suc k)" using k by simp
  qed
  have run_contig: "?run i" if "contig ?xs i j" "j - i + 1 = count" for i j
    using that by (auto simp: contig_def simp del: checked_add_Some)
  have "find_run count ?xs 0 0 = None \<longleftrightarrow> \<not> (\<exists>i. ?run i)"
  proof
    assume "find_run count ?xs 0 0 = None"
    with find_run_None [OF this assms(1)] contig_run assms(1) show "\<not> (\<exists>i. ?run i)" by fastforce
  next
    assume "\<not> (\<exists>i. ?run i)"
    with find_run_Some [OF _ assms(1)] run_contig show "find_run count ?xs 0 0 = None"
      by (metis not_None_eq surj_pair)
  qed
  moreover have "\<not> count \<le> length ?xs \<Longrightarrow> \<not> (\<exists>i. ?run i)" by auto
  ultimately show ?thesis
    using assms take_region_None [of "count * PAGE_BYTES" "regions p"]
    by (auto simp: allocate_def checked_mul_def split: option.splits prod.splits)
qed

theorem frame_allocation_complete_witness:
  "fst (allocate 5 demo_pool) = None \<and> fst (allocate 4 demo_pool) \<noteq> None"
  using frame_allocation_complete [of 5 demo_pool] frame_allocation_complete [of 4 demo_pool]
  by (simp add: demo_pool_def PAGE_BYTES_def)

text \<open>
  A release always returns: it moves the frame from the frames in use to the recycled frames; a
  frame that is not in use (a double or a wild free) changes nothing.
\<close>

theorem frame_release_functional:
  assumes "pool_ok p"
  shows "\<exists>p'. release a p = Some p' \<and> pool_ok p' \<and> allocated p' = allocated p - {a} \<and>
    set (recycled p') = set (recycled p) \<union> (allocated p \<inter> {a}) \<and> (a \<notin> allocated p \<longrightarrow> p' = p)"
proof -
  obtain p' where r: "release a p = Some p'" using release_returns [OF assms] by blast
  with release_ok [OF assms r] show ?thesis by (auto simp: release_def)
qed

theorem frame_release_functional_witness:
  "\<exists>p'. release 40960 demo_pool_used = Some p' \<and> set (recycled p') = {40960} \<and>
     40960 \<notin> allocated p' \<and> release 41000 demo_pool_used = Some demo_pool_used"
proof -
  have ok: "pool_ok demo_pool_used"
    using allocate_effect [OF demo_pool_ok demo_pool_alloc] by (simp add: alloc_effect_def)
  have m: "40960 \<in> allocated demo_pool_used" "41000 \<notin> allocated demo_pool_used" "recycled demo_pool_used = []"
    by (auto simp: demo_pool_used_def run_of_def PAGE_BYTES_def lessThan_nat_numeral lessThan_Suc)
  from frame_release_functional [OF ok, of 40960] frame_release_functional [OF ok, of 41000] m
  show ?thesis by auto
qed

text \<open>
  No frame is created and none is lost: after any sequence of allocations and releases, the
  frames in use, the recycled frames and the regions are still well formed and cover exactly the
  bytes the pool was made of.
\<close>

theorem frame_pool_conserves_memory:
  assumes "new_pool rs = Some p" and "sorted_wrt (\<lambda>(s, e) (s', e'). {s..<e} \<inter> {s'..<e'} = ({} :: nat set)) rs"
    and "pool_step\<^sup>*\<^sup>* p q"
  shows "pool_ok q \<and> space q = (\<Union>(s, e) \<in> set rs. {s..<e})"
proof -
  note new = new_pool_ok [OF assms(1,2)]
  have "space q = space p"
    by (rule pool_run.stable_run [OF assms(3) new(1), where P = "\<lambda>q. space q = space p"])
      (auto dest: pool_step_ok)
  then show ?thesis using new pool_run.inv_run [OF assms(3) new(1)] by simp
qed

theorem frame_pool_conserves_memory_witness:
  "space demo_pool_used = {4096..<12288} \<union> {36864..<53248}"
proof -
  have "pool_step\<^sup>*\<^sup>* demo_pool demo_pool_used"
    by (rule r_into_rtranclp) (rule pool_alloc [OF demo_pool_alloc])
  from frame_pool_conserves_memory [OF demo_pool_new _ this] show ?thesis by auto
qed

end
