(* ===== verification/Cap_Abi.thy ===== *)
theory Cap_Abi
  imports Spark_Interfaces
begin

section \<open>Capability vocabulary of the ABI crate\<close>

text \<open>
  The types of \<^verbatim>\<open>spark-abi/src/lib.rs\<close> that kernel and user space share: capability errors and their
  errno values, handles, rights masks, object kinds, transfer modes and message envelopes.
\<close>

datatype cap_error = Invalid | Revoked | NoRights | NotFound | Exhausted | AlreadyExists | QuotaExceeded

definition EIO :: nat where "EIO = 5"
definition EINVAL :: nat where "EINVAL = 22"
definition EACCES :: nat where "EACCES = 13"
definition ENOENT :: nat where "ENOENT = 2"
definition ENOMEM :: nat where "ENOMEM = 12"
definition EAGAIN :: nat where "EAGAIN = 11"
definition EQUOTA :: nat where "EQUOTA = 122"
definition ESRCH :: nat where "ESRCH = 3"
definition ENOSYS :: nat where "ENOSYS = 38"

text \<open>Negative error numbers as a system call returns them in a \<^verbatim>\<open>u64\<close>.\<close>

definition EFAULT_RET :: nat where "EFAULT_RET = 2 ^ 64 - 14"
definition EACCES_RET :: nat where "EACCES_RET = 2 ^ 64 - 13"
definition EAGAIN_RET :: nat where "EAGAIN_RET = 2 ^ 64 - 11"

fun to_errno :: "cap_error \<Rightarrow> nat" where
  "to_errno Invalid = EINVAL"
| "to_errno Revoked = EACCES"
| "to_errno NoRights = EACCES"
| "to_errno NotFound = ENOENT"
| "to_errno Exhausted = ENOMEM"
| "to_errno AlreadyExists = EAGAIN"
| "to_errno QuotaExceeded = EQUOTA"

text \<open>A handle names a slot of the global table together with the generation it was issued for.\<close>

record cap_handle =
  h_slot :: nat
  h_gen :: nat

type_synonym rights = "32 word"

definition RIGHT_READ :: rights where "RIGHT_READ = 1"
definition RIGHT_WRITE :: rights where "RIGHT_WRITE = 2"
definition RIGHT_MAP :: rights where "RIGHT_MAP = 4"
definition RIGHT_IO :: rights where "RIGHT_IO = 8"
definition RIGHT_DMA :: rights where "RIGHT_DMA = 16"
definition RIGHT_TRANSFER :: rights where "RIGHT_TRANSFER = 32"
definition RIGHT_GRANT :: rights where "RIGHT_GRANT = 64"
definition RIGHT_DESTROY :: rights where "RIGHT_DESTROY = 128"
definition RIGHT_EXECUTE :: rights where "RIGHT_EXECUTE = 256"
definition RIGHT_MANAGE :: rights where "RIGHT_MANAGE = 512"

definition rights_empty :: rights where "rights_empty = 0"
definition rights_all :: rights where "rights_all = 0x3FF"

lemmas right_bits = RIGHT_READ_def RIGHT_WRITE_def RIGHT_MAP_def RIGHT_IO_def RIGHT_DMA_def
  RIGHT_TRANSFER_def RIGHT_GRANT_def RIGHT_DESTROY_def RIGHT_EXECUTE_def RIGHT_MANAGE_def
  rights_empty_def rights_all_def

definition rights_contains :: "rights \<Rightarrow> rights \<Rightarrow> bool" where
  "rights_contains self other = (self AND other = other)"

definition rights_bitand :: "rights \<Rightarrow> rights \<Rightarrow> rights" where
  "rights_bitand self rhs = self AND rhs"

definition rights_bitor :: "rights \<Rightarrow> rights \<Rightarrow> rights" where
  "rights_bitor self rhs = self OR rhs"

datatype object_kind = KMemory | KDevice | KEndpoint | KGeneric | KFd | KProcess | KMemObject

datatype transfer_mode = ModeNone | ModeTransfer | ModeLend

record 'm cap_message =
  m_payload :: 'm
  m_capability :: "cap_handle option"
  m_mode :: transfer_mode

definition new_plain :: "'m \<Rightarrow> 'm cap_message" where
  "new_plain p = \<lparr>m_payload = p, m_capability = None, m_mode = ModeNone\<rparr>"

definition new_with_cap :: "'m \<Rightarrow> cap_handle \<Rightarrow> transfer_mode \<Rightarrow> 'm cap_message" where
  "new_with_cap p c mode = \<lparr>m_payload = p, m_capability = Some c, m_mode = mode\<rparr>"

subsection \<open>Rights masks are ordered by \<open>rights_contains\<close>\<close>

lemma rights_contains_bits: "rights_contains a b \<longleftrightarrow> (\<forall>n. bit b n \<longrightarrow> bit a n)"
proof
  assume eq: "rights_contains a b"
  show "\<forall>n. bit b n \<longrightarrow> bit a n"
  proof (intro allI impI)
    fix n assume "bit b n"
    then have "bit (a AND b) n" using eq by (simp add: rights_contains_def)
    then show "bit a n" by (simp add: bit_and_iff)
  qed
next
  assume "\<forall>n. bit b n \<longrightarrow> bit a n"
  then show "rights_contains a b"
    unfolding rights_contains_def by (intro bit_eqI) (auto simp: bit_and_iff)
qed

lemma rights_contains_refl [simp]: "rights_contains a a"
  by (simp add: rights_contains_bits)

lemma rights_contains_trans: "rights_contains a b \<Longrightarrow> rights_contains b c \<Longrightarrow> rights_contains a c"
  by (simp add: rights_contains_bits)

lemma rights_contains_antisym: "rights_contains a b \<Longrightarrow> rights_contains b a \<Longrightarrow> a = b"
  unfolding rights_contains_bits by (intro bit_eqI) auto

lemma rights_contains_empty [simp]: "rights_contains a 0"
  by (simp add: rights_contains_def)

lemma rights_bitand_lower:
  "rights_contains a (rights_bitand a b)" "rights_contains b (rights_bitand a b)"
  by (auto simp: rights_contains_bits rights_bitand_def bit_and_iff)

lemma rights_bitand_req: "rights_contains a req \<Longrightarrow> rights_bitand a req = req"
  by (simp add: rights_contains_def rights_bitand_def)

lemma rights_contains_or:
  "rights_contains a (rights_bitor b c) \<longleftrightarrow> rights_contains a b \<and> rights_contains a c"
  by (auto simp: rights_contains_bits rights_bitor_def bit_or_iff)

end
