(* ===== verification/Process_Model.thy ===== *)
theory Process_Model
  imports Cap_Abi
begin

section \<open>Process control blocks and resource quotas\<close>

text \<open>
  The process control block of \<^verbatim>\<open>kernel/src/task/process.rs\<close>: its states, the reasons a process can
  be blocked for, what it may use and what it uses. The saved register context, the kernel stack and
  the ring-3 entry registers are machine state that no decision of the scheduler reads; they are left
  out.
\<close>

datatype process_kind = UIBound | BackgroundCapable

datatype process_state =
  New | Ready | Running | Blocked | Exiting | Crashed | Terminated | Exited | Reaped

datatype block_reason = Generic | ChannelRecv | ChannelSend | Condvar | Sleep nat | WaitPid nat

record resource_usage =
  current_memory_bytes :: nat
  peak_memory_bytes :: nat
  cpu_ticks :: nat
  cpu_time_ms :: nat
  window_count :: nat
  surface_count :: nat
  ipc_channel_count :: nat
  cap_count :: nat
  endpoint_count :: nat

record resource_limits =
  max_memory_bytes :: nat
  max_windows :: nat
  max_surfaces :: nat
  max_ipc_channels :: nat
  max_caps :: nat
  max_endpoints :: nat

definition new_usage :: resource_usage where
  "new_usage = \<lparr>current_memory_bytes = 0, peak_memory_bytes = 0, cpu_ticks = 0, cpu_time_ms = 0,
     window_count = 0, surface_count = 0, ipc_channel_count = 0, cap_count = 0, endpoint_count = 0\<rparr>"

definition default_ui :: resource_limits where
  "default_ui = \<lparr>max_memory_bytes = 32 * 1024 * 1024, max_windows = 8, max_surfaces = 16,
     max_ipc_channels = 32, max_caps = 128, max_endpoints = 32\<rparr>"

definition default_background :: resource_limits where
  "default_background = \<lparr>max_memory_bytes = 16 * 1024 * 1024, max_windows = 2, max_surfaces = 4,
     max_ipc_channels = 16, max_caps = 64, max_endpoints = 16\<rparr>"

record process =
  p_pid :: nat
  pname :: string
  pstate :: process_state
  p_kind :: process_kind
  is_user :: bool
  user_rip :: nat
  user_rsp :: nat
  user_cr3 :: nat
  user_cs :: nat
  user_ss :: nat
  is_crashed :: bool
  owned_windows :: "nat list"
  usage :: resource_usage
  limits :: resource_limits
  exit_code :: nat
  exited :: bool
  parent_pid :: "nat option"
  reaped :: bool
  cap_table :: "(nat \<times> cap_handle) list"
  allowed_ports :: "(nat \<times> nat) option"
  cpu_affinity :: "nat option"
  pending_signals :: "32 word"
  blocked_signals :: "32 word"
  signal_handlers :: "(nat, nat) btree_map"
  block_reason :: "block_reason option"
  wait_next :: "nat option"
  wait_prev :: "nat option"
  on_cpu :: "nat option"

definition new_process :: "string \<Rightarrow> process" where
  "new_process name = \<lparr>p_pid = 0, pname = name, pstate = New, p_kind = UIBound, is_user = False,
     user_rip = 0, user_rsp = 0, user_cr3 = 0, user_cs = 0, user_ss = 0, is_crashed = False, owned_windows = [], usage = new_usage, limits = default_ui, exit_code = 0,
     exited = False, parent_pid = None, reaped = False, cap_table = [], allowed_ports = None,
     cpu_affinity = None, pending_signals = 0, blocked_signals = 0, signal_handlers = [],
     block_reason = None, wait_next = None, wait_prev = None, on_cpu = None\<rparr>"

subsection \<open>Quotas\<close>

definition try_charge_memory :: "nat \<Rightarrow> process \<Rightarrow> (string, process) result" where
  "try_charge_memory bytes p =
     (let new_total = saturating_add 64 (current_memory_bytes (usage p)) bytes in
      if new_total > max_memory_bytes (limits p) then Err ''Memory quota exceeded''
      else Ok (p\<lparr>usage := (usage p)\<lparr>current_memory_bytes := new_total,
             peak_memory_bytes := (if new_total > peak_memory_bytes (usage p) then new_total
                                   else peak_memory_bytes (usage p))\<rparr>\<rparr>))"

definition uncharge_memory :: "nat \<Rightarrow> process \<Rightarrow> process" where
  "uncharge_memory bytes p =
     p\<lparr>usage := (usage p)\<lparr>current_memory_bytes := current_memory_bytes (usage p) - bytes\<rparr>\<rparr>"

definition charge_cpu_ticks :: "nat \<Rightarrow> process \<Rightarrow> process" where
  "charge_cpu_ticks ticks p =
     (let t = saturating_add 64 (cpu_ticks (usage p)) ticks in
      p\<lparr>usage := (usage p)\<lparr>cpu_ticks := t, cpu_time_ms := t\<rparr>\<rparr>)"

text \<open>
  The four counters. The increment after the guard cannot overflow: the counter is below a 32-bit
  limit.
\<close>

definition increment_window_count :: "process \<Rightarrow> (string, process) result" where
  "increment_window_count p =
     (if window_count (usage p) \<ge> max_windows (limits p) then Err ''Window quota exceeded''
      else Ok (p\<lparr>usage := (usage p)\<lparr>window_count := window_count (usage p) + 1\<rparr>\<rparr>))"

definition decrement_window_count :: "process \<Rightarrow> process" where
  "decrement_window_count p = p\<lparr>usage := (usage p)\<lparr>window_count := window_count (usage p) - 1\<rparr>\<rparr>"

definition increment_surface_count :: "process \<Rightarrow> (string, process) result" where
  "increment_surface_count p =
     (if surface_count (usage p) \<ge> max_surfaces (limits p) then Err ''Surface quota exceeded''
      else Ok (p\<lparr>usage := (usage p)\<lparr>surface_count := surface_count (usage p) + 1\<rparr>\<rparr>))"

definition decrement_surface_count :: "process \<Rightarrow> process" where
  "decrement_surface_count p = p\<lparr>usage := (usage p)\<lparr>surface_count := surface_count (usage p) - 1\<rparr>\<rparr>"

definition increment_cap_count :: "process \<Rightarrow> (string, process) result" where
  "increment_cap_count p =
     (if cap_count (usage p) \<ge> max_caps (limits p) then Err ''Capability quota exceeded''
      else Ok (p\<lparr>usage := (usage p)\<lparr>cap_count := cap_count (usage p) + 1\<rparr>\<rparr>))"

definition decrement_cap_count :: "process \<Rightarrow> process" where
  "decrement_cap_count p = p\<lparr>usage := (usage p)\<lparr>cap_count := cap_count (usage p) - 1\<rparr>\<rparr>"

definition increment_endpoint_count :: "process \<Rightarrow> (string, process) result" where
  "increment_endpoint_count p =
     (if endpoint_count (usage p) \<ge> max_endpoints (limits p) then Err ''Endpoint quota exceeded''
      else Ok (p\<lparr>usage := (usage p)\<lparr>endpoint_count := endpoint_count (usage p) + 1\<rparr>\<rparr>))"

definition decrement_endpoint_count :: "process \<Rightarrow> process" where
  "decrement_endpoint_count p =
     p\<lparr>usage := (usage p)\<lparr>endpoint_count := endpoint_count (usage p) - 1\<rparr>\<rparr>"

lemmas quota_defs = increment_window_count_def decrement_window_count_def
  increment_surface_count_def decrement_surface_count_def increment_cap_count_def
  decrement_cap_count_def increment_endpoint_count_def decrement_endpoint_count_def

interpretation window_quota: quota_counter "\<lambda>p. window_count (usage p)" "\<lambda>p. max_windows (limits p)"
    increment_window_count decrement_window_count
  by unfold_locales (auto simp: quota_defs split: if_splits)

interpretation surface_quota: quota_counter "\<lambda>p. surface_count (usage p)" "\<lambda>p. max_surfaces (limits p)"
    increment_surface_count decrement_surface_count
  by unfold_locales (auto simp: quota_defs split: if_splits)

interpretation cap_quota: quota_counter "\<lambda>p. cap_count (usage p)" "\<lambda>p. max_caps (limits p)"
    increment_cap_count decrement_cap_count
  by unfold_locales (auto simp: quota_defs split: if_splits)

interpretation endpoint_quota: quota_counter "\<lambda>p. endpoint_count (usage p)" "\<lambda>p. max_endpoints (limits p)"
    increment_endpoint_count decrement_endpoint_count
  by unfold_locales (auto simp: quota_defs split: if_splits)

subsection \<open>A process's resource operations as a transition system\<close>

inductive quota_step :: "process \<Rightarrow> process \<Rightarrow> bool" where
  charge: "try_charge_memory b p = Ok q \<Longrightarrow> quota_step p q"
| uncharge: "quota_step p (uncharge_memory b p)"
| cpu: "quota_step p (charge_cpu_ticks t p)"
| inc_window: "increment_window_count p = Ok q \<Longrightarrow> quota_step p q"
| dec_window: "quota_step p (decrement_window_count p)"
| inc_surface: "increment_surface_count p = Ok q \<Longrightarrow> quota_step p q"
| dec_surface: "quota_step p (decrement_surface_count p)"
| inc_cap: "increment_cap_count p = Ok q \<Longrightarrow> quota_step p q"
| dec_cap: "quota_step p (decrement_cap_count p)"
| inc_endpoint: "increment_endpoint_count p = Ok q \<Longrightarrow> quota_step p q"
| dec_endpoint: "quota_step p (decrement_endpoint_count p)"

definition within_limits :: "process \<Rightarrow> bool" where
  "within_limits p \<longleftrightarrow>
     current_memory_bytes (usage p) \<le> max_memory_bytes (limits p) \<and>
     current_memory_bytes (usage p) \<le> peak_memory_bytes (usage p) \<and>
     peak_memory_bytes (usage p) \<le> max_memory_bytes (limits p) \<and>
     window_count (usage p) \<le> max_windows (limits p) \<and>
     surface_count (usage p) \<le> max_surfaces (limits p) \<and>
     cap_count (usage p) \<le> max_caps (limits p) \<and>
     endpoint_count (usage p) \<le> max_endpoints (limits p)"

lemma quota_step_within:
  assumes "within_limits p" and "quota_step p q"
  shows "within_limits q \<and> limits q = limits p"
  using assms(2,1)
  by cases (auto simp: within_limits_def try_charge_memory_def uncharge_memory_def charge_cpu_ticks_def
      quota_defs Let_def split: if_splits)

interpretation quota: inv_system quota_step within_limits
  by unfold_locales (simp add: quota_step_within)

lemma new_process_within: "within_limits (new_process name)"
  by (simp add: within_limits_def new_process_def new_usage_def)

subsection \<open>Properties\<close>


definition demo_charged :: process where
  "demo_charged = (new_process ''app'')\<lparr>usage := new_usage\<lparr>current_memory_bytes := 8192, peak_memory_bytes := 8192\<rparr>\<rparr>"

lemma demo_charge: "try_charge_memory 8192 (new_process ''app'') = Ok demo_charged"
  by (simp add: try_charge_memory_def new_process_def new_usage_def default_ui_def demo_charged_def
      saturating_add_def Let_def)


text \<open>
  Memory accounting: a charge succeeds exactly when the total stays within the limit, and then
  it adds exactly the bytes asked for; releasing them again restores the total.
\<close>

theorem memory_charge_roundtrip:
  assumes "max_memory_bytes (limits p) < 2 ^ 64 - 1"
  shows "case try_charge_memory b p of
      Inl _ \<Rightarrow> max_memory_bytes (limits p) < current_memory_bytes (usage p) + b
    | Inr q \<Rightarrow> current_memory_bytes (usage p) + b \<le> max_memory_bytes (limits p) \<and>
        current_memory_bytes (usage q) = current_memory_bytes (usage p) + b \<and>
        current_memory_bytes (usage (uncharge_memory b q)) = current_memory_bytes (usage p)"
  using assms
  by (auto simp: try_charge_memory_def uncharge_memory_def saturating_add_def Let_def min_def split: if_splits)

theorem memory_charge_roundtrip_witness:
  "current_memory_bytes (usage (uncharge_memory 8192 demo_charged)) = 0 \<and>
   is_ok (try_charge_memory 33554432 (new_process ''app''))"
proof -
  have lim: "max_memory_bytes (limits (new_process ''app'')) < 2 ^ 64 - 1"
    by (simp add: new_process_def default_ui_def)
  have "is_ok (try_charge_memory 33554432 (new_process ''app''))"
    using memory_charge_roundtrip [OF lim, of 33554432]
    by (cases "try_charge_memory 33554432 (new_process ''app'')")
      (auto simp: new_process_def default_ui_def new_usage_def)
  moreover have "current_memory_bytes (usage (uncharge_memory 8192 demo_charged)) =
      current_memory_bytes (usage (new_process ''app''))"
    using memory_charge_roundtrip [OF lim, of 8192] by (simp add: demo_charge)
  ultimately show ?thesis by (simp add: new_process_def new_usage_def)
qed

end
