(* ===== verification/Wait_Queue.thy ===== *)
theory Wait_Queue
  imports Process_Model
begin

section \<open>Intrusive wait queues\<close>

text \<open>
  \<^verbatim>\<open>WaitQueue\<close> and the \<^verbatim>\<open>Scheduler\<close> record of \<^verbatim>\<open>kernel/src/task/process.rs\<close>. A queue holds only the
  pids of its head and tail; the chain runs through the \<^verbatim>\<open>wait_next\<close> and \<^verbatim>\<open>wait_prev\<close> fields of the
  process table. The operations are modelled on these links; the theory then shows that they
  implement a FIFO list of pids.
\<close>

record wait_queue =
  q_head :: "nat option"
  q_tail :: "nat option"

definition new_queue :: wait_queue where
  "new_queue = \<lparr>q_head = None, q_tail = None\<rparr>"

definition MAX_CPUS :: nat where "MAX_CPUS = 8"

type_synonym ptable = "(nat, process) btree_map"

record scheduler =
  table :: ptable
  ready :: "nat list"
  current :: "nat option list"
  sleep_queue :: wait_queue

definition uninit :: scheduler where
  "uninit = \<lparr>table = [], ready = [], current = replicate MAX_CPUS None, sleep_queue = new_queue\<rparr>"

text \<open>\<^verbatim>\<open>if let Some(p) = table.get_mut(&pid)\<close> followed by assignments to fields of \<^verbatim>\<open>p\<close>.\<close>

definition upd :: "nat \<Rightarrow> (process \<Rightarrow> process) \<Rightarrow> ptable \<Rightarrow> ptable" where
  "upd pid f t = (case bt_get t pid of None \<Rightarrow> t | Some p \<Rightarrow> bt_insert pid (f p) t)"

abbreviation upd_proc :: "nat \<Rightarrow> (process \<Rightarrow> process) \<Rightarrow> scheduler \<Rightarrow> scheduler" where
  "upd_proc pid f s \<equiv> s\<lparr>table := upd pid f (table s)\<rparr>"

definition current_for_cpu :: "nat \<Rightarrow> scheduler \<Rightarrow> nat option" where
  "current_for_cpu cpu s = (if cpu < MAX_CPUS then current s ! cpu else None)"

definition is_running_on_any_cpu :: "nat \<Rightarrow> scheduler \<Rightarrow> bool" where
  "is_running_on_any_cpu pid s = list_ex (\<lambda>c. c = Some pid) (current s)"

subsection \<open>Queue operations on the links\<close>

definition enqueue_links :: "nat \<Rightarrow> wait_queue \<Rightarrow> ptable \<Rightarrow> wait_queue \<times> ptable" where
  "enqueue_links pid q t =
     (let t1 = upd pid (\<lambda>p. p\<lparr>wait_next := None, wait_prev := q_tail q\<rparr>) t in
      case q_tail q of
        Some old_tail \<Rightarrow> (q\<lparr>q_tail := Some pid\<rparr>, upd old_tail (\<lambda>p. p\<lparr>wait_next := Some pid\<rparr>) t1)
      | None \<Rightarrow> (q\<lparr>q_head := Some pid, q_tail := Some pid\<rparr>, t1))"

definition enqueue_internal :: "nat \<Rightarrow> wait_queue \<Rightarrow> scheduler \<Rightarrow> wait_queue \<times> scheduler" where
  "enqueue_internal pid q s =
     (case enqueue_links pid q (table s) of (q', t') \<Rightarrow> (q', s\<lparr>table := t'\<rparr>))"

text \<open>
  The loop of \<^verbatim>\<open>dequeue_internal\<close>: when the head is no longer in the table, the process whose
  \<^verbatim>\<open>wait_prev\<close> still names it becomes the head.
\<close>

definition find_successor :: "nat \<Rightarrow> ptable \<Rightarrow> nat option" where
  "find_successor h t = map_option fst (find (\<lambda>(_, p). wait_prev p = Some h) t)"

lemma find_successor_Some:
  "find_successor h t = Some c \<Longrightarrow> \<exists>p. (c, p) \<in> set t \<and> wait_prev p = Some h"
  by (auto simp: find_successor_def find_Some_iff) (metis nth_mem)

lemma map_of_upd: "map_of (upd i f t) = (\<lambda>j. if j = i then map_option f (map_of t j) else map_of t j)"
  by (auto simp: upd_def fun_eq_iff split: option.splits)

function dequeue_links :: "wait_queue \<Rightarrow> ptable \<Rightarrow> nat option \<times> wait_queue \<times> ptable" where
  "dequeue_links q t =
     (case q_head q of
        None \<Rightarrow> (None, q, t)
      | Some h \<Rightarrow>
          (case bt_get t h of
             Some p \<Rightarrow>
               let t1 = upd h (\<lambda>p. p\<lparr>wait_next := None, wait_prev := None\<rparr>) t in
               (case wait_next p of
                  Some nx \<Rightarrow> (Some h, q\<lparr>q_head := Some nx\<rparr>, upd nx (\<lambda>p. p\<lparr>wait_prev := None\<rparr>) t1)
                | None \<Rightarrow> (Some h, \<lparr>q_head = None, q_tail = None\<rparr>, t1))
           | None \<Rightarrow>
               if q_head q = q_tail q then (None, \<lparr>q_head = None, q_tail = None\<rparr>, t)
               else (case find_successor h t of
                       Some nx \<Rightarrow> dequeue_links (q\<lparr>q_head := Some nx\<rparr>) (upd nx (\<lambda>p. p\<lparr>wait_prev := None\<rparr>) t)
                     | None \<Rightarrow> (None, \<lparr>q_head = None, q_tail = None\<rparr>, t))))"
  by auto
termination
proof (relation "measure (\<lambda>(q, t). if \<exists>h. q_head q = Some h \<and> bt_get t h = None then 1 else 0)", simp, goal_cases)
  case (1 q t h nx)
  then obtain p where "(nx, p) \<in> set t" using find_successor_Some by blast
  then have "map_of t nx \<noteq> None" by (simp add: weak_map_of_SomeI)
  with 1 show ?case by (auto simp: map_of_upd)
qed

declare dequeue_links.simps [simp del]

definition dequeue_internal :: "wait_queue \<Rightarrow> scheduler \<Rightarrow> nat option \<times> wait_queue \<times> scheduler" where
  "dequeue_internal q s =
     (case dequeue_links q (table s) of (r, q', t') \<Rightarrow> (r, q', s\<lparr>table := t'\<rparr>))"

definition remove_links :: "nat \<Rightarrow> wait_queue \<Rightarrow> ptable \<Rightarrow> wait_queue \<times> ptable" where
  "remove_links pid q t =
     (case bt_get t pid of
        None \<Rightarrow> (q, t)
      | Some p \<Rightarrow>
          let prv = wait_prev p; nxt = wait_next p;
              t1 = upd pid (\<lambda>p. p\<lparr>wait_prev := None, wait_next := None\<rparr>) t;
              (hd', t2) = (case prv of
                 Some a \<Rightarrow> (q_head q, upd a (\<lambda>p. p\<lparr>wait_next := nxt\<rparr>) t1)
               | None \<Rightarrow> (if q_head q = Some pid then nxt else q_head q, t1));
              (tl', t3) = (case nxt of
                 Some n \<Rightarrow> (q_tail q, upd n (\<lambda>p. p\<lparr>wait_prev := prv\<rparr>) t2)
               | None \<Rightarrow> (if q_tail q = Some pid then prv else q_tail q, t2))
          in (\<lparr>q_head = hd', q_tail = tl'\<rparr>, t3))"

definition remove_internal :: "nat \<Rightarrow> wait_queue \<Rightarrow> scheduler \<Rightarrow> wait_queue \<times> scheduler" where
  "remove_internal pid q s =
     (case remove_links pid q (table s) of (q', t') \<Rightarrow> (q', s\<lparr>table := t'\<rparr>))"

subsection \<open>Blocking and waking\<close>

text \<open>\<^verbatim>\<open>prepare_wait\<close> panics when nothing runs on this CPU.\<close>

definition prepare_wait :: "nat \<Rightarrow> block_reason \<Rightarrow> wait_queue \<Rightarrow> scheduler \<Rightarrow> (wait_queue \<times> scheduler) option" where
  "prepare_wait cpu reason q s = do {
     cur \<leftarrow> current_for_cpu cpu s;
     let (q', s') = enqueue_internal cur q s;
     Some (q', upd_proc cur (\<lambda>p. p\<lparr>pstate := Blocked, block_reason := Some reason\<rparr>) s')
   }"

definition finish_wait :: "nat \<Rightarrow> wait_queue \<Rightarrow> scheduler \<Rightarrow> wait_queue \<times> scheduler" where
  "finish_wait cpu q s =
     (case current_for_cpu cpu s of
        None \<Rightarrow> (q, s)
      | Some cur \<Rightarrow>
          (case remove_internal cur q s of (q', s') \<Rightarrow>
             (q', upd_proc cur (\<lambda>p. if pstate p = Blocked then p\<lparr>pstate := Running, block_reason := None\<rparr> else p) s')))"

text \<open>\<open>wake_try\<close> is the body of the loop of \<^verbatim>\<open>wake_one\<close> for the pid just dequeued.\<close>

definition wake_try :: "nat \<Rightarrow> scheduler \<Rightarrow> (nat \<times> scheduler) option" where
  "wake_try pid s =
     (case bt_get (table s) pid of
        None \<Rightarrow> None
      | Some p \<Rightarrow>
          if is_running_on_any_cpu pid s then
            if pstate p = Blocked \<or> block_reason p \<noteq> None
            then Some (pid, upd_proc pid (\<lambda>p. p\<lparr>pstate := Running, block_reason := None\<rparr>) s) else None
          else if pstate p = Blocked
            then Some (pid, (upd_proc pid (\<lambda>p. p\<lparr>pstate := Ready, block_reason := None\<rparr>) s)\<lparr>ready := ready s @ [pid]\<rparr>)
          else None)"

partial_function (option) wake_one ::
    "wait_queue \<Rightarrow> scheduler \<Rightarrow> (nat option \<times> wait_queue \<times> scheduler) option" where
  "wake_one q s =
     (case dequeue_internal q s of
        (None, q', s') \<Rightarrow> Some (None, q', s')
      | (Some pid, q', s') \<Rightarrow>
          (case wake_try pid s' of
             Some (w, s'') \<Rightarrow> Some (Some w, q', s'')
           | None \<Rightarrow> wake_one q' s'))"

partial_function (option) wake_all :: "nat \<Rightarrow> wait_queue \<Rightarrow> scheduler \<Rightarrow> (nat \<times> wait_queue \<times> scheduler) option" where
  "wake_all count q s =
     Option.bind (wake_one q s) (\<lambda>(r, q', s').
       case r of None \<Rightarrow> Some (count, q', s') | Some _ \<Rightarrow> wake_all (count + 1) q' s')"


subsection \<open>The list a queue stands for\<close>

definition ptrs :: "ptable \<Rightarrow> nat \<Rightarrow> (nat option \<times> nat option) option" where
  "ptrs t i = map_option (\<lambda>p. (wait_prev p, wait_next p)) (bt_get t i)"

definition first_or :: "nat list \<Rightarrow> nat option \<Rightarrow> nat option" where
  "first_or xs n = (case xs of [] \<Rightarrow> n | y # _ \<Rightarrow> Some y)"

definition last_or :: "nat list \<Rightarrow> nat option \<Rightarrow> nat option" where
  "last_or xs p = (if xs = [] then p else Some (last xs))"

lemma first_last_simps [simp]:
  "first_or [] n = n" "first_or (x # xs) n = Some x" "last_or [] p = p" "last_or (x # xs) p = last_or xs (Some x)"
  "first_or (xs @ ys) n = first_or xs (first_or ys n)" "last_or (xs @ ys) p = last_or ys (last_or xs p)"
  by (auto simp: first_or_def last_or_def split: list.split)

text \<open>\<open>links t p xs n\<close>: the chain \<open>xs\<close>, entered from \<open>p\<close> and left to \<open>n\<close>, is linked both ways.\<close>

fun links :: "ptable \<Rightarrow> nat option \<Rightarrow> nat list \<Rightarrow> nat option \<Rightarrow> bool" where
  "links t p [] n = True"
| "links t p (x # xs) n \<longleftrightarrow> ptrs t x = Some (p, first_or xs n) \<and> links t (Some x) xs n"

lemma links_append:
  "links t p (xs @ ys) n \<longleftrightarrow> links t p xs (first_or ys n) \<and> links t (last_or xs p) ys n"
  by (induction xs arbitrary: p) auto

lemma links_cong:
  "(\<And>x. x \<in> set xs \<Longrightarrow> ptrs t x = ptrs t' x) \<Longrightarrow> links t p xs n = links t' p xs n"
  by (induction xs arbitrary: p) auto

definition queue_repr :: "wait_queue \<Rightarrow> ptable \<Rightarrow> nat list \<Rightarrow> bool" where
  "queue_repr q t xs \<longleftrightarrow> distinct xs \<and> links t None xs None \<and> q_head q = first_or xs None \<and> q_tail q = last_or xs None"

lemma ptrs_upd:
  "ptrs (upd i f t) = (\<lambda>j. if j = i then map_option (\<lambda>p. (wait_prev (f p), wait_next (f p))) (bt_get t j) else ptrs t j)"
  by (auto simp: ptrs_def map_of_upd fun_eq_iff option.map_comp comp_def)

lemma ptrs_get: "ptrs t i = Some (p, n) \<longleftrightarrow> (\<exists>pr. bt_get t i = Some pr \<and> wait_prev pr = p \<and> wait_next pr = n)"
  by (auto simp: ptrs_def)

lemma ptrs_dom: "ptrs t i = None \<longleftrightarrow> bt_get t i = None"
  by (simp add: ptrs_def)

lemma links_in: "links t p xs n \<Longrightarrow> x \<in> set xs \<Longrightarrow> bt_get t x \<noteq> None"
  by (induction xs arbitrary: p) (auto simp: ptrs_get)

lemma snoc_cases: obtains "xs = []" | ys z where "xs = ys @ [z]"
  by (cases xs rule: rev_cases) auto

lemma enqueue_repr:
  assumes "queue_repr q t xs" and "pid \<notin> set xs" and "bt_get t pid \<noteq> None" and "enqueue_links pid q t = (q', t')"
  shows "queue_repr q' t' (xs @ [pid])"
proof (cases xs rule: rev_cases)
  case Nil
  then show ?thesis
    using assms by (auto simp: queue_repr_def enqueue_links_def Let_def ptrs_upd)
next
  case (snoc ys z)
  let ?t1 = "upd pid (\<lambda>p. p\<lparr>wait_next := None, wait_prev := Some z\<rparr>) t"
  have q: "q_tail q = Some z" using assms(1) snoc by (simp add: queue_repr_def)
  have eq: "q' = q\<lparr>q_tail := Some pid\<rparr>" "t' = upd z (\<lambda>p. p\<lparr>wait_next := Some pid\<rparr>) ?t1"
    using assms(4) q by (auto simp: enqueue_links_def Let_def)
  have old: "links t None ys (Some z)" "ptrs t z = Some (last_or ys None, None)"
    using assms(1) snoc by (auto simp: queue_repr_def links_append)
  have new: "ptrs t' pid = Some (Some z, None)" "ptrs t' z = Some (last_or ys None, Some pid)"
    using old(2) assms(2,3) snoc by (auto simp: eq ptrs_upd map_of_upd ptrs_get)
  have "links t' None ys (Some z) = links t None ys (Some z)"
    using assms(1,2) snoc by (intro links_cong) (auto simp: eq ptrs_upd queue_repr_def)
  with old new show ?thesis
    using assms(1,2) snoc eq(1) by (auto simp: queue_repr_def links_append)
qed

lemma dequeue_repr:
  assumes "queue_repr q t (x # xs)"
  shows "\<exists>q' t'. dequeue_links q t = (Some x, q', t') \<and> queue_repr q' t' xs \<and> ptrs t' x = Some (None, None) \<and>
    (\<forall>i. i \<notin> set (x # xs) \<longrightarrow> ptrs t' i = ptrs t i)"
proof -
  let ?t1 = "upd x (\<lambda>p. p\<lparr>wait_next := None, wait_prev := None\<rparr>) t"
  obtain pr where x: "q_head q = Some x" "bt_get t x = Some pr" "wait_next pr = first_or xs None"
    using assms by (auto simp: queue_repr_def ptrs_get)
  show ?thesis
  proof (cases xs)
    case Nil
    with x show ?thesis
      by (subst dequeue_links.simps) (auto simp: Let_def queue_repr_def ptrs_upd)
  next
    case (Cons y ys)
    let ?t2 = "upd y (\<lambda>p. p\<lparr>wait_prev := None\<rparr>) ?t1"
    have d: "dequeue_links q t = (Some x, q\<lparr>q_head := Some y\<rparr>, ?t2)"
      using x Cons by (subst dequeue_links.simps) (simp add: Let_def)
    have old: "ptrs t y = Some (Some x, first_or ys None)" "links t (Some y) ys None" "distinct (x # y # ys)"
      using assms Cons by (auto simp: queue_repr_def)
    have "links ?t2 (Some y) ys None = links t (Some y) ys None"
      using old(3) by (intro links_cong) (auto simp: ptrs_upd)
    moreover have "ptrs ?t2 y = Some (None, first_or ys None)"
      using old by (auto simp: ptrs_upd map_of_upd ptrs_get)
    moreover have "ptrs ?t2 x = Some (None, None)" using old x by (auto simp: ptrs_upd map_of_upd)
    ultimately show ?thesis
      using assms old Cons d by (auto simp: queue_repr_def ptrs_upd)
  qed
qed

lemma dequeue_empty: "queue_repr q t [] \<Longrightarrow> dequeue_links q t = (None, q, t)"
  by (subst dequeue_links.simps) (simp add: queue_repr_def)

text \<open>What \<^verbatim>\<open>remove_internal\<close> does to the links, for a process inside the chain.\<close>

lemma remove_ptrs:
  assumes "queue_repr q t (as @ x # bs)" and "remove_links x q t = (q', t')"
  shows "ptrs t' = (\<lambda>i. if i = x then Some (None, None)
      else if as \<noteq> [] \<and> i = last as then map_option (\<lambda>(p, _). (p, first_or bs None)) (ptrs t i)
      else if bs \<noteq> [] \<and> i = hd bs then map_option (\<lambda>(_, n). (last_or as None, n)) (ptrs t i)
      else ptrs t i)" (is "_ = ?new")
    and "q_head q' = first_or (as @ bs) None" and "q_tail q' = last_or (as @ bs) None"
proof -
  have d: "distinct (as @ x # bs)" and qh: "q_head q = first_or as (Some x)" "q_tail q = last_or bs (Some x)"
    and xp: "ptrs t x = Some (last_or as None, first_or bs None)"
    using assms(1) by (auto simp: queue_repr_def links_append)
  then obtain p where p: "bt_get t x = Some p" "wait_prev p = last_or as None" "wait_next p = first_or bs None"
    by (auto simp: ptrs_get)
  have ne: "as \<noteq> [] \<Longrightarrow> last as \<noteq> x" "bs \<noteq> [] \<Longrightarrow> hd bs \<noteq> x" "as \<noteq> [] \<Longrightarrow> bs \<noteq> [] \<Longrightarrow> hd bs \<noteq> last as"
    using d by (cases as rule: rev_cases; cases bs; auto)+
  have "q_head q' = first_or (as @ bs) None \<and> q_tail q' = last_or (as @ bs) None \<and> ptrs t' = ?new"
  proof (cases as rule: rev_cases)
    case Nil
    then show ?thesis
      using assms(2) p qh ne by (cases bs) (auto simp: remove_links_def Let_def ptrs_upd map_of_upd fun_eq_iff ptrs_def option.map_comp comp_def)
  next
    case (snoc ys a)
    then show ?thesis
      using assms(2) p qh ne d
      by (cases bs) (auto simp: remove_links_def Let_def ptrs_upd map_of_upd fun_eq_iff ptrs_def
          option.map_comp comp_def)
  qed
  then show "ptrs t' = ?new" "q_head q' = first_or (as @ bs) None" "q_tail q' = last_or (as @ bs) None" by auto
qed

lemma remove_repr:
  assumes "queue_repr q t (as @ x # bs)" and "remove_links x q t = (q', t')"
  shows "queue_repr q' t' (as @ bs)" and "ptrs t' x = Some (None, None)"
    and "\<And>i. i \<notin> set (as @ x # bs) \<Longrightarrow> ptrs t' i = ptrs t i"
proof -
  note new = remove_ptrs [OF assms]
  have d: "distinct (as @ x # bs)" and la: "links t None as (Some x)" and lb: "links t (Some x) bs None"
    using assms(1) by (auto simp: queue_repr_def links_append)
  have "links t' None as (first_or bs None)"
  proof (cases as rule: rev_cases)
    case (snoc ys a)
    have "links t' None ys (Some a) = links t None ys (Some a)"
      using d snoc by (intro links_cong) (auto simp: new(1))
    with la snoc d show ?thesis by (auto simp: links_append new(1))
  qed simp
  moreover have "links t' (last_or as None) bs None"
  proof (cases bs)
    case (Cons b cs)
    have "links t' (Some b) cs None = links t (Some b) cs None"
      using d Cons last_in_set [of as] by (intro links_cong) (auto simp: new(1) disjoint_iff)
    with lb Cons d show ?thesis by (auto simp: new(1))
  qed simp
  ultimately show "queue_repr q' t' (as @ bs)"
    using d new(2,3) by (auto simp: queue_repr_def links_append)
  show "ptrs t' x = Some (None, None)" by (simp add: new(1))
  show "\<And>i. i \<notin> set (as @ x # bs) \<Longrightarrow> ptrs t' i = ptrs t i"
    using last_in_set [of as] hd_in_set [of bs] by (auto simp: new(1))
qed

text \<open>A process that is in no queue (both links empty) can be removed without effect on the queue.\<close>

lemma remove_absent:
  assumes "queue_repr q t xs" and "x \<notin> set xs" and "ptrs t x = Some (None, None)" and "remove_links x q t = (q', t')"
  shows "q' = q" and "ptrs t' = ptrs t"
proof -
  from assms(3) obtain p where p: "bt_get t x = Some p" "wait_prev p = None" "wait_next p = None"
    by (auto simp: ptrs_get)
  have "q_head q \<noteq> Some x" "q_tail q \<noteq> Some x"
    using assms(1,2) last_in_set [of xs] by (cases xs; auto simp: queue_repr_def last_or_def)+
  with assms(4) p show "q' = q" by (auto simp: remove_links_def Let_def)
  have "t' = upd x (\<lambda>p. p\<lparr>wait_prev := None, wait_next := None\<rparr>) t"
    using assms(4) p by (simp add: remove_links_def Let_def)
  with assms(3) show "ptrs t' = ptrs t" by (auto simp: ptrs_upd fun_eq_iff ptrs_def)
qed

subsection \<open>The queue as a FIFO of pids\<close>

text \<open>The chain read off the links, following at most as many links as there are processes.\<close>

fun walk :: "nat \<Rightarrow> ptable \<Rightarrow> nat option \<Rightarrow> nat list" where
  "walk 0 t h = []"
| "walk (Suc n) t h =
     (case h of None \<Rightarrow> []
      | Some x \<Rightarrow> (case bt_get t x of None \<Rightarrow> [] | Some p \<Rightarrow> x # walk n t (wait_next p)))"

definition waiters :: "wait_queue \<Rightarrow> ptable \<Rightarrow> nat list" where
  "waiters q t = walk (length t) t (q_head q)"

lemma walk_links: "links t p xs None \<Longrightarrow> length xs \<le> n \<Longrightarrow> walk n t (first_or xs None) = xs"
proof (induction xs arbitrary: p n)
  case Nil
  then show ?case by (cases n) auto
next
  case (Cons x xs)
  then obtain m where "n = Suc m" by (cases n) auto
  with Cons show ?case by (auto simp: ptrs_get)
qed

lemma repr_length:
  assumes "queue_repr q t xs"
  shows "length xs \<le> length t"
proof -
  have "set xs \<subseteq> fst ` set t"
    using assms links_in by (fastforce simp: queue_repr_def map_of_eq_None_iff)
  then have "card (set xs) \<le> card (fst ` set t)" by (intro card_mono) auto
  also have "\<dots> \<le> length t" by (metis card_length length_map list.set_map)
  finally show ?thesis using assms by (simp add: queue_repr_def distinct_card)
qed

lemma waiters_repr: "queue_repr q t xs \<Longrightarrow> waiters q t = xs"
  using walk_links [of t None xs "length t"] repr_length [of q t xs] by (simp add: waiters_def queue_repr_def)

definition queue_ok :: "wait_queue \<Rightarrow> ptable \<Rightarrow> bool" where
  "queue_ok q t \<longleftrightarrow> queue_repr q t (waiters q t)"

lemma queue_okI: "queue_repr q t xs \<Longrightarrow> queue_ok q t"
  by (simp add: queue_ok_def waiters_repr)

definition dequeue_pair :: "wait_queue \<times> ptable \<Rightarrow> (nat \<times> wait_queue \<times> ptable) option" where
  "dequeue_pair qt = (case dequeue_links (fst qt) (snd qt) of (None, _) \<Rightarrow> None | (Some x, qt') \<Rightarrow> Some (x, qt'))"

definition may_enqueue :: "nat \<Rightarrow> wait_queue \<times> ptable \<Rightarrow> bool" where
  "may_enqueue x qt \<longleftrightarrow> x \<notin> set (waiters (fst qt) (snd qt)) \<and> bt_get (snd qt) x \<noteq> None"

definition enqueue_pair :: "nat \<Rightarrow> wait_queue \<times> ptable \<Rightarrow> wait_queue \<times> ptable" where
  "enqueue_pair x qt = enqueue_links x (fst qt) (snd qt)"

interpretation wq: fifo_queue "\<lambda>qt. waiters (fst qt) (snd qt)" may_enqueue enqueue_pair
  dequeue_pair "\<lambda>qt. queue_ok (fst qt) (snd qt)"
proof (unfold_locales, goal_cases)
  case (1 qt x)
  obtain q' t' where e: "enqueue_links x (fst qt) (snd qt) = (q', t')" by fastforce
  from 1 have "queue_repr q' t' (waiters (fst qt) (snd qt) @ [x])"
    by (intro enqueue_repr [OF _ _ _ e]) (auto simp: queue_ok_def may_enqueue_def)
  then show ?case by (simp add: e waiters_repr enqueue_pair_def)
next
  case (2 qt x)
  obtain q' t' where e: "enqueue_links x (fst qt) (snd qt) = (q', t')" by fastforce
  from 2 have "queue_repr q' t' (waiters (fst qt) (snd qt) @ [x])"
    by (intro enqueue_repr [OF _ _ _ e]) (auto simp: queue_ok_def may_enqueue_def)
  then show ?case by (simp add: e queue_okI enqueue_pair_def)
next
  case (3 qt)
  then show ?case
    using dequeue_repr [of "fst qt" "snd qt"] dequeue_empty [of "fst qt" "snd qt"]
    by (cases "waiters (fst qt) (snd qt)") (fastforce simp: dequeue_pair_def queue_ok_def)+
next
  case (4 qt x qt')
  then show ?case
    using dequeue_repr [of "fst qt" "snd qt"] dequeue_empty [of "fst qt" "snd qt"]
    by (cases "waiters (fst qt) (snd qt)") (fastforce simp: dequeue_pair_def queue_ok_def waiters_repr)+
next
  case (5 qt x qt')
  then show ?case
    using dequeue_repr [of "fst qt" "snd qt"] dequeue_empty [of "fst qt" "snd qt"]
    by (cases "waiters (fst qt) (snd qt)") (fastforce simp: dequeue_pair_def queue_ok_def waiters_repr)+
qed


text \<open>
  A run of enqueue and dequeue operations on the links, as they are: pids taken out, pids put in, the queue at the end.
  \<open>puts_fresh\<close> is what the callers of \<^verbatim>\<open>enqueue_internal\<close> owe it: the pid is in the process table and not in the queue yet.
\<close>

fun queue_run :: "wait_queue \<times> ptable \<Rightarrow> nat queue_op list \<Rightarrow> nat list \<times> nat list \<times> wait_queue \<times> ptable" where
  "queue_run qt [] = ([], [], qt)"
| "queue_run (q, t) (Put x # ops) =
     (case queue_run (enqueue_links x q t) ops of (outs, ins, qt') \<Rightarrow> (outs, x # ins, qt'))"
| "queue_run (q, t) (Take # ops) =
     (case dequeue_links q t of
        (None, qt1) \<Rightarrow> queue_run qt1 ops
      | (Some x, qt1) \<Rightarrow> (case queue_run qt1 ops of (outs, ins, qt') \<Rightarrow> (x # outs, ins, qt')))"

fun puts_fresh :: "wait_queue \<times> ptable \<Rightarrow> nat queue_op list \<Rightarrow> bool" where
  "puts_fresh qt [] = True"
| "puts_fresh (q, t) (Put x # ops) =
     (bt_get t x \<noteq> None \<and> x \<notin> set (waiters q t) \<and> puts_fresh (enqueue_links x q t) ops)"
| "puts_fresh (q, t) (Take # ops) = puts_fresh (snd (dequeue_links q t)) ops"

lemma dequeue_nothing:
  assumes "queue_ok q t" and "dequeue_links q t = (None, qt)"
  shows "qt = (q, t)"
  using assms dequeue_repr [of q t] dequeue_empty [of q t]
  by (cases "waiters q t") (fastforce simp: queue_ok_def)+

lemma queue_run_eq: "queue_ok (fst qt) (snd qt) \<Longrightarrow> puts_fresh qt ops \<Longrightarrow> queue_run qt ops = wq.run qt ops"
proof (induction qt ops rule: queue_run.induct)
  case (2 q t x ops)
  then have m: "may_enqueue x (q, t)" by (simp add: may_enqueue_def)
  have e: "enqueue_pair x (q, t) = enqueue_links x q t" by (simp add: enqueue_pair_def)
  with 2 m wq.ok_put [of "(q, t)" x] show ?case by simp
next
  case (3 q t ops)
  obtain r qt1 where d: "dequeue_links q t = (r, qt1)" by (metis prod.exhaust)
  show ?case
  proof (cases r)
    case None
    then have "dequeue_pair (q, t) = None" using d by (simp add: dequeue_pair_def)
    then show ?thesis using d None 3 dequeue_nothing [of q t qt1] by simp
  next
    case (Some x)
    then have "dequeue_pair (q, t) = Some (x, qt1)" using d by (simp add: dequeue_pair_def)
    then show ?thesis using d Some 3 wq.ok_get_first [of "(q, t)" x qt1] by simp
  qed
qed simp

subsection \<open>What waking does\<close>

text \<open>A process without its queue links: what the operations on links leave alone.\<close>

definition core :: "process \<Rightarrow> process" where
  "core p = p\<lparr>wait_next := None, wait_prev := None\<rparr>"

definition cores :: "ptable \<Rightarrow> nat \<Rightarrow> process option" where
  "cores t i = map_option core (bt_get t i)"

lemma core_links [simp]:
  "core (p\<lparr>wait_next := a\<rparr>) = core p" "core (p\<lparr>wait_prev := b\<rparr>) = core p"
  "core (wait_next_update f p) = core p" "core (wait_prev_update f p) = core p"
  by (simp_all add: core_def)

lemma cores_upd: "cores (upd i f t) = (\<lambda>j. if j = i then map_option (\<lambda>p. core (f p)) (bt_get t j) else cores t j)"
  by (auto simp: cores_def map_of_upd fun_eq_iff option.map_comp comp_def)

lemma cores_upd_links:
  "(\<And>p. core (f p) = core p) \<Longrightarrow> cores (upd i f t) = cores t"
  by (auto simp: cores_upd fun_eq_iff cores_def)

lemma enqueue_cores: "enqueue_links i q t = (q', t') \<Longrightarrow> cores t' = cores t"
  by (auto simp: enqueue_links_def Let_def cores_upd_links split: option.splits)

lemma dequeue_cores: "dequeue_links q t = (r, q', t') \<Longrightarrow> cores t' = cores t"
proof (induction q t arbitrary: r q' t' rule: dequeue_links.induct)
  case (1 q t)
  from "1.prems" show ?case
    using "1.IH" by (subst (asm) dequeue_links.simps)
      (auto simp: Let_def cores_upd_links split: option.splits if_splits)
qed

lemma remove_cores: "remove_links i q t = (q', t') \<Longrightarrow> cores t' = cores t"
  by (auto simp: remove_links_def Let_def cores_upd_links split: option.splits prod.splits)

definition wakeable :: "scheduler \<Rightarrow> nat \<Rightarrow> bool" where
  "wakeable s i = (case bt_get (table s) i of
     None \<Rightarrow> False
   | Some p \<Rightarrow> pstate p = Blocked \<or> is_running_on_any_cpu i s \<and> block_reason p \<noteq> None)"

definition awake :: "scheduler \<Rightarrow> nat \<Rightarrow> process \<Rightarrow> process" where
  "awake s i p = p\<lparr>pstate := (if is_running_on_any_cpu i s then Running else Ready), block_reason := None\<rparr>"

definition awake_set :: "nat set \<Rightarrow> scheduler \<Rightarrow> nat \<Rightarrow> process option" where
  "awake_set W s i = (if i \<in> W then map_option (awake s i) (cores (table s) i) else cores (table s) i)"

lemma core_simps [simp]: "pstate (core p) = pstate p" "block_reason (core p) = block_reason p"
  "core (awake s i p) = awake s i (core p)"
  by (simp_all add: core_def awake_def)

lemma wakeable_cores:
  "wakeable s i = (case cores (table s) i of
     None \<Rightarrow> False
   | Some p \<Rightarrow> pstate p = Blocked \<or> is_running_on_any_cpu i s \<and> block_reason p \<noteq> None)"
  by (simp add: wakeable_def cores_def split: option.split)

lemma awake_fun:
  "awake s i = (if is_running_on_any_cpu i s then (\<lambda>p. p\<lparr>pstate := Running, block_reason := None\<rparr>)
     else (\<lambda>p. p\<lparr>pstate := Ready, block_reason := None\<rparr>))"
  by (auto simp: awake_def)

lemma wake_try_None: "wake_try i s = None \<longleftrightarrow> \<not> wakeable s i"
  by (auto simp: wake_try_def wakeable_def split: option.split)

lemma wake_try_Some:
  assumes "wake_try i s = Some (w, s')"
  shows "w = i" and "ptrs (table s') = ptrs (table s)" and "current s' = current s"
    and "sleep_queue s' = sleep_queue s"
    and "cores (table s') = awake_set {i} s"
    and "ready s' = ready s @ (if is_running_on_any_cpu i s then [] else [i])"
proof -
  from assms obtain p where p: "bt_get (table s) i = Some p"
    and eq: "w = i" "s' = s\<lparr>table := upd i (awake s i) (table s), ready := ready s @ (if is_running_on_any_cpu i s then [] else [i])\<rparr>"
    by (cases "is_running_on_any_cpu i s") (auto simp: wake_try_def awake_fun split: option.splits if_splits)
  show "w = i" "current s' = current s" "sleep_queue s' = sleep_queue s"
    "ready s' = ready s @ (if is_running_on_any_cpu i s then [] else [i])"
    using eq by simp_all
  show "ptrs (table s') = ptrs (table s)" using eq by (auto simp: ptrs_upd awake_def fun_eq_iff ptrs_def)
  show "cores (table s') = awake_set {i} s"
    using eq by (auto simp: cores_upd awake_set_def fun_eq_iff cores_def option.map_comp comp_def)
qed

lemma repr_ptrs: "ptrs t' = ptrs t \<Longrightarrow> queue_repr q t' xs = queue_repr q t xs"
  using links_cong [of xs t' t None None] by (simp add: queue_repr_def)


lemma running_cong: "current s = current s' \<Longrightarrow> is_running_on_any_cpu i s = is_running_on_any_cpu i s'"
  by (simp add: is_running_on_any_cpu_def)

lemma wakeable_cong:
  "cores (table s) i = cores (table s') i \<Longrightarrow> current s = current s' \<Longrightarrow> wakeable s i = wakeable s' i"
  unfolding wakeable_cores is_running_on_any_cpu_def by (cases "cores (table s') i") simp_all

lemma awake_cong: "current s = current s' \<Longrightarrow> awake s = awake s'"
  by (simp add: awake_def fun_eq_iff is_running_on_any_cpu_def)

lemma awake_set_cong:
  assumes "cores (table s) = cores (table s')" and "current s = current s'"
  shows "awake_set W s = awake_set W s'"
  by (rule ext) (simp only: awake_set_def assms(1) awake_cong [OF assms(2)])

text \<open>\<^verbatim>\<open>wake_one\<close> drops the waiters that are not blocked any more and wakes the first one that is.\<close>

definition same_but_table :: "scheduler \<Rightarrow> scheduler \<Rightarrow> bool" where
  "same_but_table s s' \<longleftrightarrow> current s' = current s \<and> sleep_queue s' = sleep_queue s"

lemma wake_one_spec:
  assumes "queue_repr q (table s) xs"
  shows "\<exists>q' s'. wake_one q s =
      Some (case dropWhile (\<lambda>i. \<not> wakeable s i) xs of [] \<Rightarrow> None | w # _ \<Rightarrow> Some w, q', s') \<and> same_but_table s s' \<and>
    (case dropWhile (\<lambda>i. \<not> wakeable s i) xs of
       [] \<Rightarrow> queue_repr q' (table s') [] \<and> cores (table s') = cores (table s) \<and> ready s' = ready s
     | w # bs \<Rightarrow> queue_repr q' (table s') bs \<and> cores (table s') = awake_set {w} s \<and>
         ready s' = ready s @ (if is_running_on_any_cpu w s then [] else [w]))"
  using assms
proof (induction xs arbitrary: q s)
  case Nil
  then show ?case
    by (subst wake_one.simps) (simp add: dequeue_internal_def dequeue_empty same_but_table_def)
next
  case (Cons x xs)
  from dequeue_repr [OF Cons.prems] obtain q1 t1 where d: "dequeue_links q (table s) = (Some x, q1, t1)"
    and r1: "queue_repr q1 t1 xs" by blast
  let ?s1 = "s\<lparr>table := t1\<rparr>"
  have c1: "cores t1 = cores (table s)" by (rule dequeue_cores [OF d])
  have same: "wakeable ?s1 = wakeable s" "is_running_on_any_cpu i ?s1 = is_running_on_any_cpu i s" for i
    using wakeable_cong [of ?s1 _ s] by (auto simp: fun_eq_iff c1 is_running_on_any_cpu_def)
  show ?case
  proof (cases "wakeable s x")
    case True
    then have "wake_try x ?s1 \<noteq> None" using wake_try_None [of x ?s1] same by simp
    then obtain w s2 where w: "wake_try x ?s1 = Some (w, s2)" by auto
    note ws = wake_try_Some [OF w]
    have "wake_one q s = Some (Some x, q1, s2)"
      using ws(1) by (subst wake_one.simps) (simp add: dequeue_internal_def d w)
    moreover have "queue_repr q1 (table s2) xs" using repr_ptrs [of "table s2" t1] ws(2) r1 by simp
    moreover have "cores (table s2) = awake_set {x} s"
      using ws(5) c1 awake_set_cong [of ?s1 s] by simp
    ultimately show ?thesis
      using True ws(3,4,6) same(2) by (simp add: same_but_table_def)
  next
    case False
    then have n: "wake_try x ?s1 = None" using wake_try_None [of x ?s1] same by simp
    have "wake_one q s = wake_one q1 ?s1"
      by (subst wake_one.simps) (simp add: dequeue_internal_def d n)
    moreover have "awake_set W ?s1 = awake_set W s" for W
      using c1 by (intro awake_set_cong) simp_all
    ultimately show ?thesis
      using Cons.IH [of q1 ?s1] r1 False same c1
      by (cases "dropWhile (\<lambda>i. \<not> wakeable s i) xs") (simp_all add: same_but_table_def del: dropWhile_eq_Nil_conv)
  qed
qed

text \<open>Waking on one queue leaves the links of every process outside that queue alone.\<close>

lemma wake_one_frame:
  assumes "queue_repr q (table s) xs" and "wake_one q s = Some (r, q', s')" and "i \<notin> set xs"
  shows "ptrs (table s') i = ptrs (table s) i"
  using assms
proof (induction xs arbitrary: q s)
  case Nil
  then show ?case by (subst (asm) wake_one.simps) (simp add: dequeue_internal_def dequeue_empty)
next
  case (Cons x xs)
  from dequeue_repr [OF Cons.prems(1)] obtain q1 t1 where d: "dequeue_links q (table s) = (Some x, q1, t1)"
    and r1: "queue_repr q1 t1 xs" and fr: "\<forall>i. i \<notin> set (x # xs) \<longrightarrow> ptrs t1 i = ptrs (table s) i" by blast
  let ?s1 = "s\<lparr>table := t1\<rparr>"
  have i: "ptrs t1 i = ptrs (table s) i" using fr Cons.prems(3) by blast
  show ?case
  proof (cases "wake_try x ?s1")
    case None
    then have "wake_one q1 ?s1 = Some (r, q', s')"
      using Cons.prems(2) by (subst (asm) wake_one.simps) (simp add: dequeue_internal_def d)
    with Cons.IH [of q1 ?s1] r1 Cons.prems(3) i show ?thesis by simp
  next
    case (Some p)
    obtain w s2 where p: "p = (w, s2)" by (cases p)
    with Some Cons.prems(2) have "s' = s2"
      by (subst (asm) wake_one.simps) (simp add: dequeue_internal_def d)
    with wake_try_Some(2) [of x ?s1 w s2] Some p i show ?thesis by simp
  qed
qed

lemma repr_other:
  assumes "queue_repr q' t ys" and "\<And>i. i \<in> set ys \<Longrightarrow> ptrs t' i = ptrs t i"
  shows "queue_repr q' t' ys"
  using assms links_cong [of ys t' t None None] by (simp add: queue_repr_def)

lemma dropWhile_None: "dropWhile (\<lambda>i. \<not> P i) xs = [] \<longleftrightarrow> filter P xs = []"
  by (induction xs) auto

lemma dropWhile_Cons: "dropWhile (\<lambda>i. \<not> P i) xs = w # bs \<Longrightarrow> filter P xs = w # filter P bs \<and> P w \<and> set (w # bs) \<subseteq> set xs"
  by (induction xs) (auto split: if_splits)

lemma wake_all_spec:
  assumes "queue_repr q (table s) xs"
  shows "\<exists>q' s'. wake_all n q s = Some (n + length (filter (wakeable s) xs), q', s') \<and> same_but_table s s' \<and>
    queue_repr q' (table s') [] \<and> cores (table s') = awake_set (set (filter (wakeable s) xs)) s \<and>
    ready s' = ready s @ filter (\<lambda>i. wakeable s i \<and> \<not> is_running_on_any_cpu i s) xs"
  using assms
proof (induction "length xs" arbitrary: n q s xs rule: less_induct)
  case less
  obtain q1 s1 where w: "wake_one q s = Some (case dropWhile (\<lambda>i. \<not> wakeable s i) xs of [] \<Rightarrow> None | w # _ \<Rightarrow> Some w, q1, s1)"
    and same: "same_but_table s s1"
    and eff: "case dropWhile (\<lambda>i. \<not> wakeable s i) xs of
       [] \<Rightarrow> queue_repr q1 (table s1) [] \<and> cores (table s1) = cores (table s) \<and> ready s1 = ready s
     | w # bs \<Rightarrow> queue_repr q1 (table s1) bs \<and> cores (table s1) = awake_set {w} s \<and>
         ready s1 = ready s @ (if is_running_on_any_cpu w s then [] else [w])"
    using wake_one_spec [OF less.prems] by blast
  show ?case
  proof (cases "dropWhile (\<lambda>i. \<not> wakeable s i) xs")
    case Nil
    then have f: "filter (wakeable s) xs = []" by (simp add: dropWhile_None)
    then have f': "filter (\<lambda>i. wakeable s i \<and> \<not> is_running_on_any_cpu i s) xs = []"
      by (auto simp: filter_empty_conv)
    show ?thesis
      using w eff Nil same f by (subst wake_all.simps) (simp add: f' awake_set_def fun_eq_iff)
  next
    case (Cons x bs)
    note fx = dropWhile_Cons [OF Cons]
    have d: "distinct (x # bs)"
      using less.prems Cons by (metis distinct_dropWhile queue_repr_def)
    have "length bs < length xs"
      using Cons length_dropWhile_le [of "\<lambda>i. \<not> wakeable s i" xs] by simp
    moreover have "queue_repr q1 (table s1) bs" using eff Cons by simp
    ultimately obtain q2 s2 where IH: "wake_all (n + 1) q1 s1 = Some (n + 1 + length (filter (wakeable s1) bs), q2, s2)"
      "same_but_table s1 s2" "queue_repr q2 (table s2) []"
      "cores (table s2) = awake_set (set (filter (wakeable s1) bs)) s1"
      "ready s2 = ready s1 @ filter (\<lambda>i. wakeable s1 i \<and> \<not> is_running_on_any_cpu i s1) bs"
      using less.hyps by blast
    have cur: "current s1 = current s" using same by (simp add: same_but_table_def)
    have c1: "cores (table s1) = awake_set {x} s" using eff Cons by simp
    have wk: "wakeable s1 i = wakeable s i" if "i \<in> set bs" for i
      using that d c1 cur by (intro wakeable_cong) (auto simp: awake_set_def)
    have f: "filter (wakeable s1) bs = filter (wakeable s) bs" using wk by (simp cong: filter_cong)
    have f2: "filter (\<lambda>i. wakeable s1 i \<and> \<not> is_running_on_any_cpu i s1) bs =
        filter (\<lambda>i. wakeable s i \<and> \<not> is_running_on_any_cpu i s) bs"
      using wk running_cong [OF cur] by (simp cong: filter_cong)
    have f3: "filter (\<lambda>i. wakeable s i \<and> \<not> is_running_on_any_cpu i s) xs =
        (if is_running_on_any_cpu x s then [] else [x]) @ filter (\<lambda>i. wakeable s i \<and> \<not> is_running_on_any_cpu i s) bs"
    proof -
      have "filter (\<lambda>i. wakeable s i \<and> \<not> is_running_on_any_cpu i s) zs =
          filter (\<lambda>i. \<not> is_running_on_any_cpu i s) (filter (wakeable s) zs)" for zs by simp
      then show ?thesis using fx by (simp only: filter.simps append.simps if_distrib split: if_split) simp
    qed
    have "cores (table s2) = awake_set (set (filter (wakeable s) xs)) s"
      unfolding IH(4) f by (rule ext) (use d fx in \<open>simp add: awake_set_def c1 awake_cong [OF cur]\<close>)
    moreover have "wake_all n q s = wake_all (n + 1) q1 s1"
      using w Cons by (subst wake_all.simps) simp
    ultimately show ?thesis
      using IH fx eff Cons same f f2 f3 by (simp add: same_but_table_def)
  qed
qed

lemma wake_one_sub:
  assumes "queue_repr q (table s) xs"
  shows "\<exists>r q' s' xs'. wake_one q s = Some (r, q', s') \<and> queue_repr q' (table s') xs' \<and> set xs' \<subseteq> set xs \<and>
    (\<forall>i. i \<notin> set xs \<longrightarrow> ptrs (table s') i = ptrs (table s) i)"
proof -
  obtain r q' s' xs' where w: "wake_one q s = Some (r, q', s')" and rep: "queue_repr q' (table s') xs'" "set xs' \<subseteq> set xs"
  proof (cases "dropWhile (\<lambda>i. \<not> wakeable s i) xs")
    case Nil
    then show ?thesis using wake_one_spec [OF assms] that [of None _ _ "[]"]
      by (auto simp del: dropWhile_eq_Nil_conv)
  next
    case (Cons x bs)
    then have "set bs \<subseteq> set xs" using dropWhile_Cons [of "wakeable s" xs x bs] by auto
    then show ?thesis using wake_one_spec [OF assms] that [of "Some x" _ _ bs] Cons
      by (auto simp del: dropWhile_eq_Nil_conv)
  qed
  with wake_one_frame [OF assms w] show ?thesis by blast
qed

lemma wake_all_sub:
  assumes "queue_repr q (table s) xs" and "wake_all n q s = Some (k, q', s')"
  shows "queue_repr q' (table s') [] \<and> (\<forall>i. i \<notin> set xs \<longrightarrow> ptrs (table s') i = ptrs (table s) i)"
  using assms
proof (induction "length xs" arbitrary: n q s xs rule: less_induct)
  case less
  show ?case
  proof (cases "dropWhile (\<lambda>i. \<not> wakeable s i) xs")
    case Nil
    then obtain q1 s1 where w: "wake_one q s = Some (None, q1, s1)" "queue_repr q1 (table s1) []"
      using wake_one_spec [OF less.prems(1)] by (auto simp del: dropWhile_eq_Nil_conv)
    with less.prems(2) have "q' = q1" "s' = s1" by (subst (asm) wake_all.simps, simp)+
    with w wake_one_frame [OF less.prems(1) w(1)] show ?thesis by blast
  next
    case (Cons x bs)
    then obtain q1 s1 where w: "wake_one q s = Some (Some x, q1, s1)" "queue_repr q1 (table s1) bs"
      using wake_one_spec [OF less.prems(1)] by (auto simp del: dropWhile_eq_Nil_conv)
    have bs: "length bs < length xs" "set bs \<subseteq> set xs"
      using Cons length_dropWhile_le [of "\<lambda>i. \<not> wakeable s i" xs] dropWhile_Cons [OF Cons] by auto
    have "wake_all (n + 1) q1 s1 = Some (k, q', s')" using less.prems(2) w(1) by (subst (asm) wake_all.simps) simp
    with less.hyps [OF bs(1) w(2)] wake_one_frame [OF less.prems(1) w(1)] bs(2) show ?thesis
      by (metis subsetD)
  qed
qed


subsection \<open>Properties\<close>

text \<open>
  C9. The intrusive queue is a FIFO: over any sequence of enqueue and dequeue operations on the links in which every pid that is
  enqueued is in the process table and not in the queue already, the pids come out in the order they went in, none lost and
  none twice, and the chain stays linked both ways. \<^verbatim>\<open>enqueue_internal\<close> does not check the two conditions.
\<close>

theorem wait_queue_is_fifo:
  assumes "queue_ok q t" and "puts_fresh (q, t) ops" and "queue_run (q, t) ops = (outs, ins, (q', t'))"
  shows "queue_ok q' t' \<and> waiters q t @ ins = outs @ waiters q' t'"
  using wq.run_fifo [of "(q, t)" ops outs ins "(q', t')"] assms queue_run_eq [of "(q, t)" ops] by simp

definition demo_table :: ptable where
  "demo_table = [(1, new_process ''a''), (2, new_process ''b''), (3, new_process ''c'')]"

theorem wait_queue_is_fifo_witness:
  "\<exists>q' t'. queue_run (new_queue, demo_table) [Put 2, Put 3, Take, Put 1] = ([2], [2, 3, 1], (q', t')) \<and>
     waiters q' t' = [3, 1]"
proof -
  let ?ops = "[Put 2, Put 3, Take, Put 1]"
  let ?r = "queue_run (new_queue, demo_table) ?ops"
  have ok: "queue_ok new_queue demo_table" "waiters new_queue demo_table = []"
    by (auto simp: queue_ok_def queue_repr_def new_queue_def waiters_def demo_table_def)
  have "fst ?r = [2]" "fst (snd ?r) = [2, 3, 1]"
    by (simp_all add: demo_table_def new_queue_def new_process_def enqueue_links_def dequeue_links.simps upd_def Let_def)
  then obtain q' t' where r: "?r = ([2], [2, 3, 1], (q', t'))" by (cases ?r) auto
  have "puts_fresh (new_queue, demo_table) ?ops"
    by (simp add: demo_table_def new_queue_def new_process_def waiters_def
        enqueue_links_def dequeue_links.simps upd_def Let_def)
  with wait_queue_is_fifo [OF ok(1) _ r] ok(2) r show ?thesis by auto
qed

text \<open>
  Removing a waiter (the path of \<^verbatim>\<open>finish_wait\<close>) takes exactly that pid out, wherever it is in
  the chain, clears its links and touches the links of no process outside the queue.
\<close>

theorem wait_queue_remove:
  assumes "queue_ok q t" and "x \<in> set (waiters q t)" and "remove_links x q t = (q', t')"
  shows "queue_ok q' t' \<and> waiters q' t' = remove1 x (waiters q t) \<and> ptrs t' x = Some (None, None) \<and>
    (\<forall>i. i \<notin> set (waiters q t) \<longrightarrow> ptrs t' i = ptrs t i) \<and> cores t' = cores t"
proof -
  obtain as bs where w: "waiters q t = as @ x # bs" "x \<notin> set as" using assms(2) by (meson split_list_first)
  have r: "queue_repr q t (as @ x # bs)" using assms(1) w(1) by (simp add: queue_ok_def)
  note new = remove_repr [OF r assms(3)]
  show ?thesis
    using new w waiters_repr [OF new(1)] queue_okI [OF new(1)] remove_cores [OF assms(3)]
    by (simp add: remove1_append)
qed

definition demo_queued :: ptable where
  "demo_queued = [(1, (new_process ''a'')\<lparr>wait_next := Some 2, pstate := Blocked\<rparr>),
     (2, (new_process ''b'')\<lparr>wait_prev := Some 1, wait_next := Some 3\<rparr>),
     (3, (new_process ''c'')\<lparr>wait_prev := Some 2, pstate := Blocked\<rparr>)]"

definition demo_q :: wait_queue where "demo_q = \<lparr>q_head = Some 1, q_tail = Some 3\<rparr>"

lemma demo_queued_repr: "queue_repr demo_q demo_queued [1, 2, 3]"
  by (simp add: queue_repr_def demo_q_def demo_queued_def new_process_def ptrs_def first_or_def last_or_def)

text \<open>Enqueuing a process that already waits cuts the chain behind it: the process at the tail is lost.\<close>

theorem double_enqueue_loses_waiter:
  "waiters demo_q demo_queued = [1, 2, 3] \<and>
   (case enqueue_links 2 demo_q demo_queued of (q, t) \<Rightarrow> waiters q t = [1, 2] \<and> q_tail q = Some 2)"
  by (simp add: waiters_def demo_q_def demo_queued_def enqueue_links_def new_process_def upd_def numeral_3_eq_3)

theorem wait_queue_remove_witness:
  "\<exists>q' t'. remove_links 2 demo_q demo_queued = (q', t') \<and> waiters q' t' = [1, 3]"
proof -
  obtain q' t' where r: "remove_links 2 demo_q demo_queued = (q', t')" by fastforce
  from wait_queue_remove [OF queue_okI [OF demo_queued_repr] _ r] r show ?thesis
    by (simp add: waiters_repr [OF demo_queued_repr])
qed

text \<open>
  \<^verbatim>\<open>wake_one\<close> always returns on a well-formed queue, and wakes the first waiter that is still
  blocked: it becomes Ready and goes to the end of the run queue (or, when it still occupies a CPU,
  Running), its block reason is cleared, the waiters before it, which were not blocked any more, are
  dropped, those behind it stay, and nothing else of any process changes.
\<close>

theorem wake_one_wakes_first_blocked:
  assumes "queue_ok q (table s)"
  shows "\<exists>r q' s'. wake_one q s = Some (r, q', s') \<and> queue_ok q' (table s') \<and> current s' = current s \<and>
    (case dropWhile (\<lambda>i. \<not> wakeable s i) (waiters q (table s)) of
       [] \<Rightarrow> r = None \<and> waiters q' (table s') = [] \<and> cores (table s') = cores (table s) \<and> ready s' = ready s
     | w # rest \<Rightarrow> r = Some w \<and> waiters q' (table s') = rest \<and> cores (table s') = awake_set {w} s \<and>
         ready s' = ready s @ (if is_running_on_any_cpu w s then [] else [w]))"
  using wake_one_spec [OF assms [unfolded queue_ok_def]]
  by (cases "dropWhile (\<lambda>i. \<not> wakeable s i) (waiters q (table s))")
    (auto simp: same_but_table_def waiters_repr intro: queue_okI simp del: dropWhile_eq_Nil_conv)

definition demo_sched :: scheduler where
  "demo_sched = \<lparr>table = demo_queued, ready = [9], current = replicate MAX_CPUS None, sleep_queue = new_queue\<rparr>"

lemma demo_sched_ok: "queue_ok demo_q (table demo_sched)" "waiters demo_q (table demo_sched) = [1, 2, 3]"
  using demo_queued_repr by (auto simp: demo_sched_def intro: queue_okI waiters_repr)

theorem wake_one_wakes_first_blocked_witness:
  "\<exists>q' s'. wake_one demo_q demo_sched = Some (Some 1, q', s') \<and> waiters q' (table s') = [2, 3] \<and> ready s' = [9, 1]"
proof -
  have "wakeable demo_sched 1" "\<not> is_running_on_any_cpu 1 demo_sched"
    by (simp_all add: wakeable_def demo_sched_def demo_queued_def is_running_on_any_cpu_def MAX_CPUS_def list_ex_iff)
  with wake_one_wakes_first_blocked [OF demo_sched_ok(1)] show ?thesis
    by (simp add: demo_sched_ok(2)) (auto simp: demo_sched_def)
qed

text \<open>
  \<^verbatim>\<open>wake_all\<close> always returns, leaves the queue empty, wakes every waiter that was blocked and no
  other, puts those that occupy no CPU on the run queue in their queue order, and counts them.
\<close>

theorem wake_all_wakes_every_blocked:
  assumes "queue_ok q (table s)"
  shows "\<exists>q' s'. wake_all 0 q s = Some (length (filter (wakeable s) (waiters q (table s))), q', s') \<and>
    queue_ok q' (table s') \<and> waiters q' (table s') = [] \<and> current s' = current s \<and>
    cores (table s') = awake_set (set (filter (wakeable s) (waiters q (table s)))) s \<and>
    ready s' = ready s @ filter (\<lambda>i. wakeable s i \<and> \<not> is_running_on_any_cpu i s) (waiters q (table s))"
  using wake_all_spec [OF assms [unfolded queue_ok_def], of 0]
  by (auto simp: same_but_table_def waiters_repr intro: queue_okI)

theorem wake_all_wakes_every_blocked_witness:
  "\<exists>q' s'. wake_all 0 demo_q demo_sched = Some (2, q', s') \<and> ready s' = [9, 1, 3]"
proof -
  have "wakeable demo_sched 1" "\<not> wakeable demo_sched 2" "wakeable demo_sched 3"
    "\<not> is_running_on_any_cpu i demo_sched" for i
    by (simp_all add: wakeable_def demo_sched_def demo_queued_def new_process_def is_running_on_any_cpu_def MAX_CPUS_def list_ex_iff)
  with wake_all_wakes_every_blocked [OF demo_sched_ok(1)] show ?thesis
    by (simp add: demo_sched_ok(2)) (auto simp: demo_sched_def)
qed

text \<open>
  A queue survives the death of its head: when the process at the head has been purged from the
  table, the next dequeue still finds the waiter behind it, by the back link, and the rest of the
  chain is intact.
\<close>

theorem dequeue_survives_purged_head:
  assumes "queue_repr q t (x # y # ys)" and "\<And>i p. bt_get t i = Some p \<Longrightarrow> wait_prev p = Some x \<Longrightarrow> i = y"
    and "bt_ok t"
  shows "\<exists>q' t'. dequeue_links q (bt_remove x t) = (Some y, q', t') \<and> queue_repr q' t' ys"
proof -
  let ?t = "bt_remove x t"
  let ?t1 = "upd y (\<lambda>p. p\<lparr>wait_prev := None\<rparr>) ?t"
  have d: "distinct (x # y # ys)" and py: "ptrs t y = Some (Some x, first_or ys None)"
    and rest: "links t (Some y) ys None" and q: "q_head q = Some x" "q_tail q = last_or ys (Some y)"
    using assms(1) by (auto simp: queue_repr_def)
  have okt: "bt_ok ?t" using assms(3) by (rule bt_ok_remove)
  obtain p where p: "bt_get ?t y = Some p" "wait_prev p = Some x" using py d by (auto simp: ptrs_get)
  then have "(y, p) \<in> set ?t" by (simp only: bt_get_iff [OF okt])
  with p(2) have "find_successor x ?t \<noteq> None" by (auto simp: find_successor_def find_None_iff)
  then obtain c where c: "find_successor x ?t = Some c" by auto
  from find_successor_Some [OF this] obtain pc where "bt_get ?t c = Some pc" "wait_prev pc = Some x"
    using bt_get_iff [OF okt] by blast
  with assms(2) have "c = y" by (auto split: if_splits)
  moreover have "last_or ys (Some y) \<noteq> Some x" using d by (auto simp: last_or_def)
  ultimately have step: "dequeue_links q ?t = dequeue_links (q\<lparr>q_head := Some y\<rparr>) ?t1"
    using q c by (subst dequeue_links.simps) simp
  have "links ?t1 (Some y) ys None = links t (Some y) ys None"
    using d by (intro links_cong) (auto simp: ptrs_upd ptrs_def)
  moreover have "ptrs ?t1 y = Some (None, first_or ys None)"
    using py d by (auto simp: ptrs_upd ptrs_def)
  ultimately have "queue_repr (q\<lparr>q_head := Some y\<rparr>) ?t1 (y # ys)"
    using d rest q by (simp add: queue_repr_def)
  from dequeue_repr [OF this] step show ?thesis by auto
qed

theorem dequeue_survives_purged_head_witness:
  "\<exists>q' t'. dequeue_links demo_q (bt_remove 1 demo_queued) = (Some 2, q', t') \<and> queue_repr q' t' [3]"
proof (rule dequeue_survives_purged_head [OF demo_queued_repr])
  show "\<And>i p. bt_get demo_queued i = Some p \<Longrightarrow> wait_prev p = Some 1 \<Longrightarrow> i = 2"
    by (auto simp: demo_queued_def new_process_def split: if_splits)
  show "bt_ok demo_queued" by (simp add: bt_ok_def demo_queued_def)
qed

end
