(* ===== verification/Channel.thy ===== *)
theory Channel
  imports Wait_Queue
begin

section \<open>Blocking channels\<close>

text \<open>
  \<^verbatim>\<open>BlockingChannel\<close> of \<^verbatim>\<open>kernel/src/sync.rs\<close>: a bounded FIFO buffer with one wait queue of receivers
  and one of senders. The loops of \<^verbatim>\<open>send\<close> and \<^verbatim>\<open>recv\<close> give up the CPU between two rounds, so the
  model has one round as a step: it either finishes the call or parks the caller.
\<close>

record 'm channel =
  buffer :: "'m list"
  not_empty :: wait_queue
  not_full :: wait_queue
  capacity :: nat

definition new_channel :: "nat \<Rightarrow> 'm channel" where
  "new_channel cap = \<lparr>buffer = [], not_empty = new_queue, not_full = new_queue, capacity = cap\<rparr>"

datatype ('m, 'r) round = Done 'r | Parked

text \<open>One round of \<^verbatim>\<open>send\<close> on the CPU \<open>cpu\<close>; \<open>Done\<close> carries the pid that was woken, if any.\<close>

definition send_round ::
    "nat \<Rightarrow> 'm \<Rightarrow> 'm channel \<Rightarrow> scheduler \<Rightarrow> (('m, nat option) round \<times> 'm channel \<times> scheduler) option" where
  "send_round cpu msg c s =
     (if length (buffer c) < capacity c then do {
        (woken, q, s') \<leftarrow> wake_one (not_empty c) s;
        Some (Done woken, c\<lparr>buffer := buffer c @ [msg], not_empty := q\<rparr>, s')
      } else do {
        (q, s') \<leftarrow> prepare_wait cpu ChannelSend (not_full c) s;
        Some (Parked, c\<lparr>not_full := q\<rparr>, s')
      })"

definition try_send :: "'m \<Rightarrow> 'm channel \<Rightarrow> scheduler \<Rightarrow> (('m, unit) result \<times> 'm channel \<times> scheduler) option" where
  "try_send msg c s =
     (if length (buffer c) \<ge> capacity c then Some (Err msg, c, s)
      else do {
        (_, q, s') \<leftarrow> wake_one (not_empty c) s;
        Some (Ok (), c\<lparr>buffer := buffer c @ [msg], not_empty := q\<rparr>, s')
      })"

definition try_recv :: "'m channel \<Rightarrow> scheduler \<Rightarrow> ('m option \<times> 'm channel \<times> scheduler) option" where
  "try_recv c s =
     (case buffer c of
        [] \<Rightarrow> Some (None, c, s)
      | msg # rest \<Rightarrow> do {
          (_, q, s') \<leftarrow> wake_one (not_full c) s;
          Some (Some msg, c\<lparr>buffer := rest, not_full := q\<rparr>, s')
        })"

definition recv_round ::
    "nat \<Rightarrow> 'm channel \<Rightarrow> scheduler \<Rightarrow> (('m, 'm) round \<times> 'm channel \<times> scheduler) option" where
  "recv_round cpu c s =
     (case buffer c of
        msg # rest \<Rightarrow> do {
          (_, q, s') \<leftarrow> wake_one (not_full c) s;
          Some (Done msg, c\<lparr>buffer := rest, not_full := q\<rparr>, s')
        }
      | [] \<Rightarrow> do {
          (q, s') \<leftarrow> prepare_wait cpu ChannelRecv (not_empty c) s;
          Some (Parked, c\<lparr>not_empty := q\<rparr>, s')
        })"

subsection \<open>Well-formed channels\<close>

definition chan_ok :: "'m channel \<Rightarrow> scheduler \<Rightarrow> bool" where
  "chan_ok c s \<longleftrightarrow> length (buffer c) \<le> capacity c \<and>
     (\<exists>xs ys. queue_repr (not_empty c) (table s) xs \<and> queue_repr (not_full c) (table s) ys \<and> set xs \<inter> set ys = {})"

lemma wake_one_two_queues:
  assumes "queue_repr q (table s) xs" and "queue_repr q2 (table s) ys" and "set xs \<inter> set ys = {}"
  shows "\<exists>w q' s' xs'. wake_one q s = Some (w, q', s') \<and> queue_repr q' (table s') xs' \<and> queue_repr q2 (table s') ys \<and>
    set xs' \<inter> set ys = {}"
proof -
  obtain w q' s' xs' where w: "wake_one q s = Some (w, q', s')" "queue_repr q' (table s') xs'" "set xs' \<subseteq> set xs"
    and fr: "\<And>i. i \<notin> set xs \<Longrightarrow> ptrs (table s') i = ptrs (table s) i"
    using wake_one_sub [OF assms(1)] by blast
  have "queue_repr q2 (table s') ys"
    using assms(3) by (intro repr_other [OF assms(2)] fr) auto
  with w assms(3) show ?thesis by blast
qed

lemma chan_wake_receiver:
  assumes "chan_ok c s"
  shows "\<exists>w q s'. wake_one (not_empty c) s = Some (w, q, s') \<and>
    (length b \<le> capacity c \<longrightarrow> chan_ok (c\<lparr>buffer := b, not_empty := q\<rparr>) s')"
proof -
  from assms obtain xs ys where "queue_repr (not_empty c) (table s) xs" "queue_repr (not_full c) (table s) ys"
    "set xs \<inter> set ys = {}" by (auto simp: chan_ok_def)
  from wake_one_two_queues [OF this] show ?thesis by (fastforce simp: chan_ok_def)
qed

lemma chan_wake_sender:
  assumes "chan_ok c s"
  shows "\<exists>w q s'. wake_one (not_full c) s = Some (w, q, s') \<and>
    (length b \<le> capacity c \<longrightarrow> chan_ok (c\<lparr>buffer := b, not_full := q\<rparr>) s')"
proof -
  from assms obtain xs ys where "queue_repr (not_full c) (table s) ys" "queue_repr (not_empty c) (table s) xs"
    "set ys \<inter> set xs = {}" by (auto simp: chan_ok_def)
  from wake_one_two_queues [OF this] show ?thesis by (fastforce simp: chan_ok_def)
qed

lemma try_send_spec:
  assumes "chan_ok c s"
  shows "\<exists>c' s'. try_send msg c s =
      Some (if length (buffer c) < capacity c then Ok () else Err msg, c', s') \<and> chan_ok c' s' \<and>
    buffer c' = buffer c @ (if length (buffer c) < capacity c then [msg] else []) \<and> capacity c' = capacity c"
  using chan_wake_receiver [OF assms, of "buffer c @ [msg]"] assms by (auto simp: try_send_def)

lemma try_recv_spec:
  assumes "chan_ok c s"
  shows "\<exists>c' s'. try_recv c s = Some (case buffer c of [] \<Rightarrow> None | m # _ \<Rightarrow> Some m, c', s') \<and> chan_ok c' s' \<and>
    buffer c' = tl (buffer c) \<and> capacity c' = capacity c"
proof (cases "buffer c")
  case (Cons m rest)
  with assms have "length rest \<le> capacity c" by (simp add: chan_ok_def)
  with chan_wake_sender [OF assms, of rest] Cons show ?thesis by (auto simp: try_recv_def)
qed (simp add: try_recv_def assms)

subsection \<open>The channel as a FIFO queue\<close>

definition chan_put :: "'m \<Rightarrow> 'm channel \<times> scheduler \<Rightarrow> 'm channel \<times> scheduler" where
  "chan_put m cs = (case try_send m (fst cs) (snd cs) of Some (_, cs') \<Rightarrow> cs' | None \<Rightarrow> cs)"

definition chan_get :: "'m channel \<times> scheduler \<Rightarrow> ('m \<times> 'm channel \<times> scheduler) option" where
  "chan_get cs = (case try_recv (fst cs) (snd cs) of Some (Some m, cs') \<Rightarrow> Some (m, cs') | _ \<Rightarrow> None)"

definition chan_accepts :: "'m \<Rightarrow> 'm channel \<times> scheduler \<Rightarrow> bool" where
  "chan_accepts m cs \<longleftrightarrow> length (buffer (fst cs)) < capacity (fst cs)"

interpretation chan: fifo_queue "\<lambda>cs. buffer (fst cs)" chan_accepts chan_put chan_get "\<lambda>cs. chan_ok (fst cs) (snd cs)"
proof (unfold_locales, goal_cases)
  case (1 cs m)
  then show ?case using try_send_spec [of "fst cs" "snd cs" m] by (auto simp: chan_put_def chan_accepts_def)
next
  case (2 cs m)
  then show ?case using try_send_spec [of "fst cs" "snd cs" m] by (auto simp: chan_put_def chan_accepts_def)
next
  case (3 cs)
  then show ?case
    using try_recv_spec [of "fst cs" "snd cs"] by (auto simp: chan_get_def split: list.splits)
next
  case (4 cs m cs')
  then show ?case
    using try_recv_spec [of "fst cs" "snd cs"] by (auto simp: chan_get_def split: list.splits)
next
  case (5 cs m cs')
  then show ?case
    using try_recv_spec [of "fst cs" "snd cs"] by (auto simp: chan_get_def split: list.splits)
qed


text \<open>A run of non-blocking sends and receives: messages received, messages accepted, the end state.\<close>

fun chan_run :: "'m channel \<times> scheduler \<Rightarrow> 'm queue_op list \<Rightarrow> 'm list \<times> 'm list \<times> 'm channel \<times> scheduler" where
  "chan_run cs [] = ([], [], cs)"
| "chan_run cs (Put m # ops) =
     (case try_send m (fst cs) (snd cs) of
        Some (Inr _, cs') \<Rightarrow> (case chan_run cs' ops of (outs, ins, e) \<Rightarrow> (outs, m # ins, e))
      | _ \<Rightarrow> chan_run cs ops)"
| "chan_run cs (Take # ops) =
     (case try_recv (fst cs) (snd cs) of
        Some (Some m, cs') \<Rightarrow> (case chan_run cs' ops of (outs, ins, e) \<Rightarrow> (m # outs, ins, e))
      | _ \<Rightarrow> chan_run cs ops)"

lemma chan_run_eq: "chan_ok (fst cs) (snd cs) \<Longrightarrow> chan_run cs ops = chan.run cs ops"
proof (induction cs ops rule: chan_run.induct)
  case (2 cs m ops)
  show ?case
  proof (cases "chan_accepts m cs")
    case True
    then obtain c' s' where t: "try_send m (fst cs) (snd cs) = Some (Ok (), c', s')" "chan_ok c' s'"
      using try_send_spec [OF "2.prems", of m] by (auto simp: chan_accepts_def)
    then have "chan_put m cs = (c', s')" by (simp add: chan_put_def)
    with 2(3) [OF t(1) refl refl] t True show ?thesis by simp
  next
    case False
    then obtain c' s' where t: "try_send m (fst cs) (snd cs) = Some (Err m, c', s')"
      using try_send_spec [OF "2.prems", of m] by (auto simp: chan_accepts_def)
    with 2 False show ?thesis by simp
  qed
next
  case (3 cs ops)
  obtain r c' s' where t: "try_recv (fst cs) (snd cs) = Some (r, c', s')" "chan_ok c' s'"
    using try_recv_spec [OF "3.prems"] by blast
  show ?case
  proof (cases r)
    case None
    with t have "chan_get cs = None" by (simp add: chan_get_def)
    with t None 3 show ?thesis by simp
  next
    case (Some m)
    with t have "chan_get cs = Some (m, c', s')" by (simp add: chan_get_def)
    with t Some 3 show ?thesis by simp
  qed
qed simp

subsection \<open>Properties\<close>

text \<open>
  C19. A channel is a bounded FIFO: over any sequence of non-blocking sends and receives every message
  accepted comes out once, in order, the buffer never exceeds the capacity, and the two wait queues
  stay well formed.
\<close>

theorem channel_is_bounded_fifo:
  assumes "chan_ok c s" and "chan_run (c, s) ops = (outs, ins, (c', s'))"
  shows "chan_ok c' s' \<and> buffer c @ ins = outs @ buffer c' \<and> length (buffer c') \<le> capacity c'"
proof -
  have "chan.run (c, s) ops = (outs, ins, (c', s'))" using assms chan_run_eq [of "(c, s)" ops] by simp
  with chan.run_fifo [of "(c, s)" ops outs ins "(c', s')"] assms(1) show ?thesis by (simp add: chan_ok_def)
qed

lemma new_channel_ok: "chan_ok (new_channel n) s"
  by (auto simp: chan_ok_def new_channel_def queue_repr_def new_queue_def intro!: exI [of _ "[]"])

theorem channel_is_bounded_fifo_witness:
  "\<exists>c' s'. chan_run (new_channel 2, demo_sched) [Put (10 :: nat), Put 20, Put 30, Take, Put 40] =
     ([10], [10, 20, 40], (c', s')) \<and> buffer c' = [20, 40]"
proof -
  let ?r = "chan_run (new_channel 2, demo_sched) [Put (10 :: nat), Put 20, Put 30, Take, Put 40]"
  have "fst ?r = [10]" "fst (snd ?r) = [10, 20, 40]"
    by (simp_all add: new_channel_def new_queue_def try_send_def try_recv_def wake_one.simps dequeue_internal_def
        dequeue_links.simps)
  then obtain c' s' where r: "?r = ([10], [10, 20, 40], (c', s'))" by (cases ?r) auto
  with channel_is_bounded_fifo [OF new_channel_ok r] show ?thesis by (auto simp: new_channel_def)
qed

text \<open>
  No wake-up is lost: when a receiver is parked on the channel and there is room, a send delivers
  its message and wakes the receiver that has waited longest; a receive that has to park does so only
  when there is no message.
\<close>

theorem send_wakes_parked_receiver:
  assumes "queue_ok (not_empty c) (table s)" and "length (buffer c) < capacity c"
    and "i \<in> set (waiters (not_empty c) (table s))" and "wakeable s i"
  shows "\<exists>w c' s'. send_round cpu msg c s = Some (Done (Some w), c', s') \<and> buffer c' = buffer c @ [msg] \<and>
    w = hd (filter (wakeable s) (waiters (not_empty c) (table s))) \<and>
    (is_running_on_any_cpu w s \<or> last (ready s') = w)"
proof -
  let ?xs = "waiters (not_empty c) (table s)"
  have rep: "queue_repr (not_empty c) (table s) ?xs" using assms(1) by (simp add: queue_ok_def)
  have "filter (wakeable s) ?xs \<noteq> []" using assms(3,4) by (auto simp: filter_empty_conv)
  then obtain w bs where d: "dropWhile (\<lambda>i. \<not> wakeable s i) ?xs = w # bs"
    using dropWhile_None [of "wakeable s" ?xs] by (cases "dropWhile (\<lambda>i. \<not> wakeable s i) ?xs") auto
  then have "w = hd (filter (wakeable s) ?xs)" using dropWhile_Cons [of "wakeable s" ?xs w bs] by simp
  with wake_one_spec [OF rep] d assms(2) show ?thesis by (auto simp: send_round_def)
qed

theorem send_wakes_parked_receiver_witness:
  "\<exists>c' s'. send_round 0 (7 :: nat) \<lparr>buffer = [], not_empty = demo_q, not_full = new_queue, capacity = 4\<rparr> demo_sched =
     Some (Done (Some 1), c', s') \<and> buffer c' = [7]"
proof -
  let ?c = "\<lparr>buffer = [] :: nat list, not_empty = demo_q, not_full = new_queue, capacity = 4\<rparr>"
  have w: "wakeable demo_sched 1"
    by (simp add: wakeable_def demo_sched_def demo_queued_def)
  have q: "queue_ok (not_empty ?c) (table demo_sched)" "waiters (not_empty ?c) (table demo_sched) = [1, 2, 3]"
    using demo_sched_ok by simp_all
  from send_wakes_parked_receiver [OF q(1), of 1 0 "7 :: nat"] q(2) w show ?thesis by auto
qed

end
