(* ===== verification/Cap_Core.thy ===== *)
theory Cap_Core
  imports Cap_Abi
begin

section \<open>The capability core\<close>

text \<open>
  The capability table of \<^verbatim>\<open>kernel/src/cap.rs\<close>. Every operation of the source holds the one global
  lock \<^verbatim>\<open>STATE\<close> from its first to its last statement, so an operation is one function from the table
  to its result and the table it leaves behind; the interleavings of several processes are sequences
  of these functions, the step relation \<open>cap_step\<close> below. The result is an \<open>option\<close>: \<open>None\<close> is a
  panic (an index out of range or an overflow caught by the overflow checks) or, for the walk up the
  lineage, a walk that never ends.

  Indices (slot, node and object numbers) and generations are \<open>nat\<close>. The source narrows the indices
  to \<^verbatim>\<open>u32\<close>; the invariant \<open>cap_ok\<close> bounds the three tables by 2048, 2048 and 1024 entries, so the
  casts are exact. Generations are \<^verbatim>\<open>u32\<close> for slots and \<^verbatim>\<open>u64\<close> for objects, and every increment
  is checked at that width.
\<close>

subsection \<open>State\<close>

record cap_node =
  n_parent :: "nat option"
  n_epoch :: nat

record cap_object =
  o_kind :: object_kind
  o_refcount :: nat
  o_gen :: nat
  o_valid :: bool

record cap_slot =
  s_node :: nat
  s_object :: nat
  s_rights :: rights
  s_gen :: nat
  s_free :: bool
  s_lent :: bool

record core_state =
  slots :: "cap_slot list"
  nodes :: "cap_node list"
  objects :: "cap_object list"

type_synonym 'a cap_op = "core_state \<Rightarrow> ((cap_error, 'a) result \<times> core_state) option"

definition MAX_CAP_SLOTS :: nat where "MAX_CAP_SLOTS = 2048"
definition MAX_CAP_NODES :: nat where "MAX_CAP_NODES = 2048"
definition MAX_CAP_OBJECTS :: nat where "MAX_CAP_OBJECTS = 1024"

definition init_core :: core_state where
  "init_core = \<lparr>slots = [], nodes = [], objects = []\<rparr>"

subsection \<open>Operations\<close>

text \<open>
  The first free slot, or a fresh one at the end of the table. The caller overwrites it.
\<close>

definition allocate_slot :: "core_state \<Rightarrow> (cap_error, nat) result \<times> core_state" where
  "allocate_slot s =
     (case position s_free (slots s) of
        Some i \<Rightarrow> (Ok i, s)
      | None \<Rightarrow>
          if length (slots s) \<ge> MAX_CAP_SLOTS then (Err Exhausted, s)
          else (Ok (length (slots s)),
                s\<lparr>slots := slots s @ [\<lparr>s_node = 0, s_object = 0, s_rights = rights_empty,
                                       s_gen = 1, s_free = True, s_lent = False\<rparr>]\<rparr>))"

text \<open>
  The walk from a node to the root of its lineage, which stops at the first node whose epoch was
  raised. \<open>None\<close> is an index panic or an endless walk through a cycle.
\<close>

partial_function (option) is_revoked :: "cap_node list \<Rightarrow> nat \<Rightarrow> bool option" where
  "is_revoked ns cur =
     (if length ns \<le> cur then None
      else if 0 < n_epoch (ns ! cur) then Some True
      else (case n_parent (ns ! cur) of
              Some p \<Rightarrow> is_revoked ns p
            | None \<Rightarrow> Some False))"

declare is_revoked.simps [code]

text \<open>The handle check every operation starts with: range, \<open>s_free\<close>, generation.\<close>

definition handle_slot :: "core_state \<Rightarrow> cap_handle \<Rightarrow> cap_slot option" where
  "handle_slot s h =
     (if h_slot h \<ge> length (slots s) then None
      else let sl = slots s ! h_slot h in
        if s_free sl \<or> s_gen sl \<noteq> h_gen h then None else Some sl)"

text \<open>
  The common tail of \<^verbatim>\<open>create_object\<close>, \<^verbatim>\<open>grant\<close>, \<^verbatim>\<open>transfer\<close> and \<^verbatim>\<open>lend\<close>: push a node, take a slot and
  fill it, keeping the slot's generation. A full slot table leaves the pushed node behind.
\<close>

definition install_cap ::
    "nat option \<Rightarrow> nat \<Rightarrow> rights \<Rightarrow> bool \<Rightarrow> core_state \<Rightarrow> (cap_error, cap_handle) result \<times> core_state"
where
  "install_cap par obj rts lent s =
     (let s1 = s\<lparr>nodes := nodes s @ [\<lparr>n_parent = par, n_epoch = 0\<rparr>]\<rparr> in
      case allocate_slot s1 of
        (Inl e, s2) \<Rightarrow> (Err e, s2)
      | (Inr i, s2) \<Rightarrow>
          let g = s_gen (slots s2 ! i) in
          (Ok \<lparr>h_slot = i, h_gen = g\<rparr>,
           s2\<lparr>slots := (slots s2)[i := \<lparr>s_node = length (nodes s), s_object = obj, s_rights = rts,
                                         s_gen = g, s_free = False, s_lent = lent\<rparr>]\<rparr>))"

definition create_object :: "object_kind \<Rightarrow> cap_handle cap_op" where
  "create_object kind s =
     (if length (objects s) \<ge> MAX_CAP_OBJECTS \<or> length (nodes s) \<ge> MAX_CAP_NODES
      then Some (Err Exhausted, s)
      else Some (install_cap None (length (objects s)) rights_all False
             (s\<lparr>objects := objects s @ [\<lparr>o_kind = kind, o_refcount = 0, o_gen = 1, o_valid = True\<rparr>]\<rparr>)))"

text \<open>The checks \<^verbatim>\<open>grant\<close>, \<^verbatim>\<open>transfer\<close> and \<^verbatim>\<open>lend\<close> share, in the source's order.\<close>

definition derive_check :: "cap_handle \<Rightarrow> rights \<Rightarrow> core_state \<Rightarrow> (cap_error, cap_slot) result option" where
  "derive_check h req s =
     (case handle_slot s h of
        None \<Rightarrow> Some (Err Invalid)
      | Some p \<Rightarrow>
          if \<not> rights_contains (s_rights p) req then Some (Err NoRights)
          else if s_lent p then Some (Err NoRights)
          else do {
            rv \<leftarrow> is_revoked (nodes s) (s_node p);
            if rv then Some (Err Revoked)
            else if length (nodes s) \<ge> MAX_CAP_NODES then Some (Err Exhausted)
            else Some (Ok p)
          })"

definition grant :: "cap_handle \<Rightarrow> rights \<Rightarrow> cap_handle cap_op" where
  "grant parent req s = do {
     c \<leftarrow> derive_check parent req s;
     case c of
       Inl e \<Rightarrow> Some (Err e, s)
     | Inr p \<Rightarrow> Some (install_cap (Some (s_node p)) (s_object p) (rights_bitand (s_rights p) req) False s)
   }"

definition lend :: "cap_handle \<Rightarrow> rights \<Rightarrow> cap_handle cap_op" where
  "lend parent req s = do {
     c \<leftarrow> derive_check parent req s;
     case c of
       Inl e \<Rightarrow> Some (Err e, s)
     | Inr p \<Rightarrow> Some (install_cap (Some (s_node p)) (s_object p) (rights_bitand (s_rights p) req) True s)
   }"

text \<open>Marking a slot free: \<^verbatim>\<open>free = true; generation += 1\<close> (a checked \<^verbatim>\<open>u32\<close> increment).\<close>

definition free_slot :: "nat \<Rightarrow> core_state \<Rightarrow> core_state option" where
  "free_slot i s = do {
     g \<leftarrow> checked_add 32 (s_gen (slots s ! i)) 1;
     Some (s\<lparr>slots := (slots s)[i := (slots s ! i)\<lparr>s_free := True, s_gen := g\<rparr>]\<rparr>)
   }"

text \<open>
  \<^verbatim>\<open>transfer\<close> starts a new root lineage and closes the source handle after the new slot is filled.
\<close>

definition transfer :: "cap_handle \<Rightarrow> rights \<Rightarrow> cap_handle cap_op" where
  "transfer src req s = do {
     c \<leftarrow> derive_check src req s;
     case c of
       Inl e \<Rightarrow> Some (Err e, s)
     | Inr p \<Rightarrow>
         (case install_cap None (s_object p) (rights_bitand (s_rights p) req) False s of
            (Inl e, s1) \<Rightarrow> Some (Err e, s1)
          | (Inr h, s1) \<Rightarrow> do { s2 \<leftarrow> free_slot (h_slot src) s1; Some (Ok h, s2) })
   }"

definition close :: "cap_handle \<Rightarrow> unit cap_op" where
  "close cap s =
     (case handle_slot s cap of
        None \<Rightarrow> Some (Err Invalid, s)
      | Some _ \<Rightarrow> do { s1 \<leftarrow> free_slot (h_slot cap) s; Some (Ok (), s1) })"

definition revoke :: "cap_handle \<Rightarrow> unit cap_op" where
  "revoke cap s =
     (case handle_slot s cap of
        None \<Rightarrow> Some (Err Invalid, s)
      | Some sl \<Rightarrow>
          if s_node sl \<ge> length (nodes s) then None
          else let nd = nodes s ! s_node sl in
            Some (Ok (), s\<lparr>nodes := (nodes s)[s_node sl := nd\<lparr>n_epoch := saturating_add 64 (n_epoch nd) 1\<rparr>]\<rparr>))"

definition reclaim :: "cap_handle \<Rightarrow> unit cap_op" where
  "reclaim cap = revoke cap"

definition destroy_owned :: "cap_handle \<Rightarrow> unit cap_op" where
  "destroy_owned cap s = do { (_, s1) \<leftarrow> revoke cap s; close cap s1 }"

text \<open>The teardown of a process: every handle of its table is destroyed, then the table is cleared.\<close>

fun destroy_process_cspace ::
    "(nat \<times> cap_handle) list \<Rightarrow> core_state \<Rightarrow> ((nat \<times> cap_handle) list \<times> core_state) option"
where
  "destroy_process_cspace [] s = Some ([], s)"
| "destroy_process_cspace ((_, h) # tbl) s = do {
     (_, s1) \<leftarrow> destroy_owned h s;
     destroy_process_cspace tbl s1
   }"

text \<open>The passive checks. An object index out of range would be an index panic.\<close>

definition object_valid :: "core_state \<Rightarrow> nat \<Rightarrow> bool option" where
  "object_valid s i = (if i < length (objects s) then Some (o_valid (objects s ! i)) else None)"

definition check_rights :: "cap_handle \<Rightarrow> rights \<Rightarrow> core_state \<Rightarrow> (cap_error, unit) result option" where
  "check_rights cap needed s =
     (case handle_slot s cap of
        None \<Rightarrow> Some (Err Invalid)
      | Some sl \<Rightarrow>
          if \<not> rights_contains (s_rights sl) needed then Some (Err NoRights)
          else do {
            rv \<leftarrow> is_revoked (nodes s) (s_node sl);
            if rv then Some (Err Revoked)
            else do {
              v \<leftarrow> object_valid s (s_object sl);
              if \<not> v then Some (Err Invalid) else Some (Ok ())
            }
          })"

definition check_rights_for_object ::
    "cap_handle \<Rightarrow> cap_handle \<Rightarrow> rights \<Rightarrow> core_state \<Rightarrow> (cap_error, unit) result option"
where
  "check_rights_for_object cap target needed s =
     (case (handle_slot s cap, handle_slot s target) of
        (Some sl, Some tsl) \<Rightarrow>
          if s_object sl \<noteq> s_object tsl then Some (Err NoRights)
          else check_rights cap needed s
      | _ \<Rightarrow> Some (Err Invalid))"

definition object_identity :: "cap_handle \<Rightarrow> core_state \<Rightarrow> (cap_error, object_kind \<times> nat) result option" where
  "object_identity cap s =
     (case handle_slot s cap of
        None \<Rightarrow> Some (Err Invalid)
      | Some sl \<Rightarrow> do {
          rv \<leftarrow> is_revoked (nodes s) (s_node sl);
          if rv then Some (Err Revoked)
          else do {
            v \<leftarrow> object_valid s (s_object sl);
            if \<not> v then Some (Err Invalid)
            else Some (Ok (o_kind (objects s ! s_object sl), s_object sl))
          }
        })"

text \<open>
  \<^verbatim>\<open>deref\<close> returns the access guard (the object's index) and counts it; \<open>drop_access\<close> is the guard's
  destructor, which frees the object when the last guard goes.
\<close>

definition deref :: "cap_handle \<Rightarrow> rights \<Rightarrow> nat cap_op" where
  "deref cap flags s = do {
     c \<leftarrow> check_rights cap flags s;
     case c of
       Inl e \<Rightarrow> Some (Err e, s)
     | Inr _ \<Rightarrow>
         let i = s_object (slots s ! h_slot cap); obj = objects s ! i in do {
           rc \<leftarrow> checked_add 64 (o_refcount obj) 1;
           Some (Ok i, s\<lparr>objects := (objects s)[i := obj\<lparr>o_refcount := rc\<rparr>]\<rparr>)
         }
   }"

definition drop_access :: "nat \<Rightarrow> core_state \<Rightarrow> core_state option" where
  "drop_access i s =
     (if i \<ge> length (objects s) then None
      else let obj = objects s ! i in
        if o_valid obj \<and> 0 < o_refcount obj then
          if o_refcount obj = 1 then do {
            g \<leftarrow> checked_add 64 (o_gen obj) 1;
            Some (s\<lparr>objects := (objects s)[i := obj\<lparr>o_refcount := 0, o_valid := False, o_gen := g\<rparr>]\<rparr>)
          }
          else Some (s\<lparr>objects := (objects s)[i := obj\<lparr>o_refcount := o_refcount obj - 1\<rparr>]\<rparr>)
        else Some s)"

text \<open>One step of the table: any operation that may change it, with any arguments and any result.\<close>

inductive cap_step :: "core_state \<Rightarrow> core_state \<Rightarrow> bool" where
  step_create: "create_object kind s = Some (r, t) \<Longrightarrow> cap_step s t"
| step_grant: "grant h req s = Some (r', t) \<Longrightarrow> cap_step s t"
| step_lend: "lend h req s = Some (r', t) \<Longrightarrow> cap_step s t"
| step_transfer: "transfer h req s = Some (r', t) \<Longrightarrow> cap_step s t"
| step_close: "close h s = Some (ru, t) \<Longrightarrow> cap_step s t"
| step_revoke: "revoke h s = Some (ru, t) \<Longrightarrow> cap_step s t"
| step_deref: "deref h req s = Some (rn, t) \<Longrightarrow> cap_step s t"
| step_drop: "drop_access i s = Some t \<Longrightarrow> cap_step s t"


subsection \<open>Lineage\<close>

text \<open>
  The abstract reading of the node table: \<open>lineage ns i j\<close> says that \<open>j\<close> is \<open>i\<close> or an ancestor of
  \<open>i\<close>; a node is revoked when some node of its lineage has a raised epoch.
\<close>

inductive lineage :: "cap_node list \<Rightarrow> nat \<Rightarrow> nat \<Rightarrow> bool" for ns where
  lineage_self: "i < length ns \<Longrightarrow> lineage ns i i"
| lineage_up: "i < length ns \<Longrightarrow> n_parent (ns ! i) = Some p \<Longrightarrow> lineage ns p j \<Longrightarrow> lineage ns i j"

definition revoked :: "cap_node list \<Rightarrow> nat \<Rightarrow> bool" where
  "revoked ns i \<longleftrightarrow> (\<exists>j. lineage ns i j \<and> 0 < n_epoch (ns ! j))"

definition wf_nodes :: "cap_node list \<Rightarrow> bool" where
  "wf_nodes ns \<longleftrightarrow> (\<forall>i < length ns. \<forall>p. n_parent (ns ! i) = Some p \<longrightarrow> p < i)"

lemma lineage_bounds: "lineage ns i j \<Longrightarrow> wf_nodes ns \<Longrightarrow> j \<le> i \<and> i < length ns \<and> j < length ns"
  by (induction rule: lineage.induct) (auto simp: wf_nodes_def)

lemma lineage_trans: "lineage ns i j \<Longrightarrow> lineage ns j k \<Longrightarrow> lineage ns i k"
  by (induction rule: lineage.induct) (auto intro: lineage.intros)

inductive_simps lineage_iff: "lineage ns i j"

lemma revoked_rec:
  "i < length ns \<Longrightarrow> revoked ns i \<longleftrightarrow>
     0 < n_epoch (ns ! i) \<or> (\<exists>p. n_parent (ns ! i) = Some p \<and> revoked ns p)"
  unfolding revoked_def by (subst lineage_iff) auto

text \<open>The loop of the source computes exactly this, and it ends, on every well-formed table.\<close>

lemma is_revoked_eq:
  assumes "wf_nodes ns" and "i < length ns"
  shows "is_revoked ns i = Some (revoked ns i)"
  using assms(2)
proof (induction i rule: less_induct)
  case (less i)
  show ?case
  proof (cases "n_parent (ns ! i)")
    case None
    then show ?thesis using less.prems by (simp add: is_revoked.simps [of ns i] revoked_rec)
  next
    case (Some p)
    then have "p < i" using assms(1) less.prems by (simp add: wf_nodes_def)
    with Some less show ?thesis by (simp add: is_revoked.simps [of ns i] revoked_rec [of i])
  qed
qed

text \<open>Tables that grow and raise epochs only: a revoked node stays revoked.\<close>

definition nodes_le :: "cap_node list \<Rightarrow> cap_node list \<Rightarrow> bool" where
  "nodes_le ns ms \<longleftrightarrow> length ns \<le> length ms \<and>
     (\<forall>i < length ns. n_parent (ms ! i) = n_parent (ns ! i) \<and> n_epoch (ns ! i) \<le> n_epoch (ms ! i))"

lemma nodes_le_refl [simp]: "nodes_le ns ns"
  by (simp add: nodes_le_def)

lemma nodes_le_trans:
  assumes "nodes_le a b" and "nodes_le b c"
  shows "nodes_le a c"
  unfolding nodes_le_def
proof (intro conjI allI impI)
  show "length a \<le> length c" using assms by (simp add: nodes_le_def)
  fix i assume "i < length a"
  then have "i < length b" and "n_parent (b ! i) = n_parent (a ! i)" "n_epoch (a ! i) \<le> n_epoch (b ! i)"
    using assms(1) by (auto simp: nodes_le_def)
  moreover from this have "n_parent (c ! i) = n_parent (b ! i)" "n_epoch (b ! i) \<le> n_epoch (c ! i)"
    using assms(2) by (auto simp: nodes_le_def)
  ultimately show "n_parent (c ! i) = n_parent (a ! i)" "n_epoch (a ! i) \<le> n_epoch (c ! i)"
    by auto
qed

lemma nodes_le_append [simp]: "nodes_le ns (ns @ ms)"
  by (simp add: nodes_le_def nth_append)

lemma lineage_mono: "lineage ns i j \<Longrightarrow> nodes_le ns ms \<Longrightarrow> lineage ms i j"
  by (induction rule: lineage.induct) (auto simp: nodes_le_def intro: lineage.intros)

lemma lineage_antimono:
  "lineage ms i j \<Longrightarrow> nodes_le ns ms \<Longrightarrow> wf_nodes ns \<Longrightarrow> i < length ns \<Longrightarrow> lineage ns i j"
proof (induction rule: lineage.induct)
  case (lineage_up i p j)
  then have "n_parent (ns ! i) = Some p" by (simp add: nodes_le_def)
  moreover from this have "p < length ns" using lineage_up by (fastforce simp: wf_nodes_def)
  ultimately show ?case using lineage_up by (auto intro: lineage.intros)
qed (auto intro: lineage.intros)

lemma lineage_target: "lineage ns i j \<Longrightarrow> j < length ns"
  by (induction rule: lineage.induct) auto

lemma revoked_mono: "revoked ns i \<Longrightarrow> nodes_le ns ms \<Longrightarrow> revoked ms i"
  unfolding revoked_def
  by (metis lineage_mono lineage_target nodes_le_def order.strict_trans2)

lemma revoked_append:
  "wf_nodes ns \<Longrightarrow> i < length ns \<Longrightarrow> revoked (ns @ ms) i \<longleftrightarrow> revoked ns i"
  unfolding revoked_def
  by (metis lineage_antimono lineage_mono lineage_target nodes_le_append nth_append)

lemma wf_nodes_append:
  "wf_nodes ns \<Longrightarrow> (\<And>p. n_parent nd = Some p \<Longrightarrow> p < length ns) \<Longrightarrow> wf_nodes (ns @ [nd])"
  by (auto simp: wf_nodes_def nth_append less_Suc_eq)

subsection \<open>The invariant and the order of tables in time\<close>

definition cap_ok :: "core_state \<Rightarrow> bool" where
  "cap_ok s \<longleftrightarrow> wf_nodes (nodes s) \<and>
     (\<forall>sl \<in> set (slots s). \<not> s_free sl \<longrightarrow> s_node sl < length (nodes s) \<and> s_object sl < length (objects s)) \<and>
     length (slots s) \<le> MAX_CAP_SLOTS \<and> length (nodes s) \<le> MAX_CAP_NODES \<and>
     length (objects s) \<le> MAX_CAP_OBJECTS \<and>
     (\<forall>ob \<in> set (objects s). \<not> o_valid ob \<longrightarrow> o_refcount ob = 0) \<and>
     (\<forall>nd \<in> set (nodes s). n_epoch nd < 2 ^ 64)"

text \<open>
  \<open>slots_le\<close>: no slot's generation ever goes down, and as long as a slot that was in use keeps its
  generation it keeps everything else.
\<close>

definition slots_le :: "cap_slot list \<Rightarrow> cap_slot list \<Rightarrow> bool" where
  "slots_le xs ys \<longleftrightarrow> length xs \<le> length ys \<and>
     (\<forall>i < length xs. s_gen (xs ! i) \<le> s_gen (ys ! i) \<and>
        (s_gen (ys ! i) = s_gen (xs ! i) \<and> \<not> s_free (xs ! i) \<longrightarrow> ys ! i = xs ! i))"

definition objects_le :: "cap_object list \<Rightarrow> cap_object list \<Rightarrow> bool" where
  "objects_le xs ys \<longleftrightarrow> length xs \<le> length ys \<and>
     (\<forall>i < length xs. o_kind (ys ! i) = o_kind (xs ! i) \<and> (o_valid (ys ! i) \<longrightarrow> o_valid (xs ! i)))"

definition cap_le :: "core_state \<Rightarrow> core_state \<Rightarrow> bool" where
  "cap_le s t \<longleftrightarrow> nodes_le (nodes s) (nodes t) \<and> slots_le (slots s) (slots t) \<and>
     objects_le (objects s) (objects t)"

lemma slots_le_refl [simp]: "slots_le xs xs"
  by (simp add: slots_le_def)

lemma slots_le_trans:
  assumes "slots_le a b" and "slots_le b c"
  shows "slots_le a c"
  unfolding slots_le_def
proof (intro conjI allI impI)
  show "length a \<le> length c" using assms by (simp add: slots_le_def)
  fix i assume "i < length a"
  then have i: "i < length b" and ab: "s_gen (a ! i) \<le> s_gen (b ! i)"
      "s_gen (b ! i) = s_gen (a ! i) \<and> \<not> s_free (a ! i) \<Longrightarrow> b ! i = a ! i"
    using assms(1) by (auto simp: slots_le_def)
  from i have bc: "s_gen (b ! i) \<le> s_gen (c ! i)"
      "s_gen (c ! i) = s_gen (b ! i) \<and> \<not> s_free (b ! i) \<Longrightarrow> c ! i = b ! i"
    using assms(2) by (auto simp: slots_le_def)
  show "s_gen (a ! i) \<le> s_gen (c ! i)" using ab(1) bc(1) by simp
  assume eq: "s_gen (c ! i) = s_gen (a ! i) \<and> \<not> s_free (a ! i)"
  then have "b ! i = a ! i" using ab bc(1) by auto
  with eq bc show "c ! i = a ! i" by simp
qed

lemma objects_le_refl [simp]: "objects_le xs xs"
  by (simp add: objects_le_def)

lemma objects_le_trans: "objects_le a b \<Longrightarrow> objects_le b c \<Longrightarrow> objects_le a c"
  by (auto simp: objects_le_def)

lemma objects_le_append [simp]: "objects_le xs (xs @ ys)"
  by (simp add: objects_le_def nth_append)

lemma slots_le_append [simp]: "slots_le xs (xs @ ys)"
  by (simp add: slots_le_def nth_append)

lemma cap_le_refl [simp]: "cap_le s s"
  by (simp add: cap_le_def)

lemma cap_le_trans: "cap_le s t \<Longrightarrow> cap_le t u \<Longrightarrow> cap_le s u"
  by (auto simp: cap_le_def intro: nodes_le_trans slots_le_trans objects_le_trans)

subsection \<open>Every operation keeps the invariant and moves the table forward in time\<close>

lemma allocate_slot_frame:
  "allocate_slot s = (r, t) \<Longrightarrow> nodes t = nodes s \<and> objects t = objects s"
  by (auto simp: allocate_slot_def split: option.splits if_splits)

lemma allocate_slot_Ok:
  assumes "allocate_slot s = (Ok i, t)"
  shows "i < length (slots t)" and "s_free (slots t ! i)"
    and "\<exists>xs. slots t = slots s @ xs \<and> (\<forall>x \<in> set xs. s_free x)"
    and "length (slots s) \<le> MAX_CAP_SLOTS \<Longrightarrow> length (slots t) \<le> MAX_CAP_SLOTS"
  using assms
  by (auto simp: allocate_slot_def position_Some split: option.splits if_splits)

lemma allocate_slot_Err:
  "allocate_slot s = (Err e, t) \<Longrightarrow>
   t = s \<and> e = Exhausted \<and> MAX_CAP_SLOTS \<le> length (slots s) \<and> (\<forall>sl \<in> set (slots s). \<not> s_free sl)"
  by (auto simp: allocate_slot_def position_None split: option.splits if_splits)

text \<open>Replacing a free slot by any slot of the same generation moves the slot table forward.\<close>

lemma slots_le_fill:
  assumes "slots_le xs ys" and "s_free (ys ! i)" and "s_gen sl = s_gen (ys ! i)"
  shows "slots_le xs (ys[i := sl])"
proof -
  have "slots_le ys (ys[i := sl])"
    using assms(2,3) by (auto simp: slots_le_def nth_upd split: if_splits)
  with assms(1) show ?thesis by (rule slots_le_trans)
qed

lemma slots_le_bump:
  "s_gen (xs ! i) < s_gen sl \<Longrightarrow> slots_le xs (xs[i := sl])"
  by (auto simp: slots_le_def nth_upd split: if_splits)

lemma install_cap_Ok:
  assumes "install_cap par obj rts lent s = (Ok h, t)"
  shows "nodes t = nodes s @ [\<lparr>n_parent = par, n_epoch = 0\<rparr>]" and "objects t = objects s"
    and "handle_slot t h = Some \<lparr>s_node = length (nodes s), s_object = obj, s_rights = rts,
           s_gen = h_gen h, s_free = False, s_lent = lent\<rparr>"
    and "slots_le (slots s) (slots t)"
    and "h_slot h < length (slots s) \<Longrightarrow> s_free (slots s ! h_slot h)"
    and "\<And>i. i < length (slots s) \<Longrightarrow> i \<noteq> h_slot h \<Longrightarrow> slots t ! i = slots s ! i"
proof -
  let ?s1 = "s\<lparr>nodes := nodes s @ [\<lparr>n_parent = par, n_epoch = 0\<rparr>]\<rparr>"
  from assms obtain i s2 where a: "allocate_slot ?s1 = (Ok i, s2)"
    and h: "h = \<lparr>h_slot = i, h_gen = s_gen (slots s2 ! i)\<rparr>"
    and t: "t = s2\<lparr>slots := (slots s2)[i := \<lparr>s_node = length (nodes s), s_object = obj,
              s_rights = rts, s_gen = s_gen (slots s2 ! i), s_free = False, s_lent = lent\<rparr>]\<rparr>"
    by (auto simp: install_cap_def Let_def split: prod.splits sum.splits)
  note fr = allocate_slot_frame [OF a]
  note al = allocate_slot_Ok [OF a]
  obtain xs where xs: "slots s2 = slots s @ xs" using al(3) by auto
  show "nodes t = nodes s @ [\<lparr>n_parent = par, n_epoch = 0\<rparr>]" "objects t = objects s"
    using fr t by simp_all
  show "handle_slot t h = Some \<lparr>s_node = length (nodes s), s_object = obj, s_rights = rts,
           s_gen = h_gen h, s_free = False, s_lent = lent\<rparr>"
    using al(1) h t by (simp add: handle_slot_def)
  show "slots_le (slots s) (slots t)"
    using al(2) t by (simp add: slots_le_fill xs)
  show "h_slot h < length (slots s) \<Longrightarrow> s_free (slots s ! h_slot h)"
    using al(2) h by (simp add: xs nth_append)
  show "\<And>i. i < length (slots s) \<Longrightarrow> i \<noteq> h_slot h \<Longrightarrow> slots t ! i = slots s ! i"
    using h t by (simp add: xs nth_append)
qed

lemma install_cap_Err:
  "install_cap par obj rts lent s = (Err e, t) \<Longrightarrow>
   t = s\<lparr>nodes := nodes s @ [\<lparr>n_parent = par, n_epoch = 0\<rparr>]\<rparr> \<and> e = Exhausted"
  by (auto simp: install_cap_def Let_def split: prod.splits sum.splits dest: allocate_slot_Err)

lemma install_cap_length:
  "install_cap par obj rts lent s = (r, t) \<Longrightarrow> length (slots s) \<le> MAX_CAP_SLOTS \<Longrightarrow>
   length (slots t) \<le> MAX_CAP_SLOTS"
  by (auto simp: install_cap_def Let_def split: prod.splits sum.splits
        dest: allocate_slot_Err allocate_slot_Ok(4))

lemma install_cap_frame:
  assumes "install_cap par obj rts lent s = (r, t)"
  shows "nodes t = nodes s @ [\<lparr>n_parent = par, n_epoch = 0\<rparr>]" and "objects t = objects s"
    and "cap_le s t"
proof -
  have fr: "nodes t = nodes s @ [\<lparr>n_parent = par, n_epoch = 0\<rparr>] \<and> objects t = objects s \<and>
      slots_le (slots s) (slots t)"
    using assms by (cases r) (auto dest: install_cap_Err install_cap_Ok(1,2,4))
  then show "nodes t = nodes s @ [\<lparr>n_parent = par, n_epoch = 0\<rparr>]" "objects t = objects s"
    by simp_all
  show "cap_le s t" using fr by (simp add: cap_le_def)
qed

lemma install_cap_slots:
  assumes "install_cap par obj rts lent s = (r, t)" and "sl \<in> set (slots t)" and "\<not> s_free sl"
  shows "sl \<in> set (slots s) \<or> s_node sl = length (nodes s) \<and> s_object sl = obj"
proof (cases r)
  case (Inl e)
  then show ?thesis using assms by (auto dest: install_cap_Err)
next
  case (Inr h)
  with assms show ?thesis
    by (auto simp: install_cap_def Let_def split: prod.splits sum.splits
        dest!: allocate_slot_Ok(3) set_update_subset_insert [THEN subsetD])
qed

lemma install_cap_ok:
  assumes "cap_ok s" and i: "install_cap par obj rts lent s = (r, t)"
    and "\<And>p. par = Some p \<Longrightarrow> p < length (nodes s)" and "obj < length (objects s)"
    and "length (nodes s) < MAX_CAP_NODES"
  shows "cap_ok t"
  unfolding cap_ok_def
proof (intro conjI ballI impI)
  note fr = install_cap_frame(1,2) [OF i]
  show "wf_nodes (nodes t)" using assms(1) fr by (auto simp: cap_ok_def intro!: wf_nodes_append assms(3))
  show "length (slots t) \<le> MAX_CAP_SLOTS" using install_cap_length [OF i] assms(1) by (simp add: cap_ok_def)
  show "length (nodes t) \<le> MAX_CAP_NODES" using fr assms(5) by simp
  show "length (objects t) \<le> MAX_CAP_OBJECTS" using fr assms(1) by (simp add: cap_ok_def)
  fix nd assume "nd \<in> set (nodes t)"
  then show "n_epoch nd < 2 ^ 64" using fr assms(1) by (auto simp: cap_ok_def)
next
  note fr = install_cap_frame(1,2) [OF i]
  fix sl assume "sl \<in> set (slots t)" "\<not> s_free sl"
  from install_cap_slots [OF i this] show "s_node sl < length (nodes t)" "s_object sl < length (objects t)"
    using fr assms(1,4) \<open>\<not> s_free sl\<close> by (auto simp: cap_ok_def)
qed (use install_cap_frame(2) [OF i] assms(1) in \<open>auto simp: cap_ok_def\<close>)

lemma handle_slot_Some:
  "handle_slot s h = Some sl \<longleftrightarrow>
     h_slot h < length (slots s) \<and> sl = slots s ! h_slot h \<and> \<not> s_free sl \<and> s_gen sl = h_gen h"
  by (auto simp: handle_slot_def Let_def)

lemma handle_slot_ok:
  "cap_ok s \<Longrightarrow> handle_slot s h = Some sl \<Longrightarrow> s_node sl < length (nodes s) \<and> s_object sl < length (objects s)"
  by (auto simp: handle_slot_Some cap_ok_def)

lemma handle_revoked:
  "cap_ok s \<Longrightarrow> handle_slot s h = Some sl \<Longrightarrow> is_revoked (nodes s) (s_node sl) = Some (revoked (nodes s) (s_node sl))"
  using handle_slot_ok [of s h sl] by (simp add: cap_ok_def is_revoked_eq)

lemma derive_check_Ok:
  "cap_ok s \<Longrightarrow> derive_check h req s = Some (Ok p) \<longleftrightarrow>
     handle_slot s h = Some p \<and> rights_contains (s_rights p) req \<and> \<not> s_lent p \<and>
     \<not> revoked (nodes s) (s_node p) \<and> length (nodes s) < MAX_CAP_NODES"
  by (auto simp: derive_check_def handle_revoked split: option.splits)

lemma derive_check_returns: "cap_ok s \<Longrightarrow> \<exists>c. derive_check h req s = Some c"
  by (auto simp: derive_check_def handle_revoked split: option.splits)

text \<open>The two facts every operation satisfies; the step lemma below collects them.\<close>

definition moves :: "core_state \<Rightarrow> core_state \<Rightarrow> bool" where
  "moves s t \<longleftrightarrow> (cap_ok s \<longrightarrow> cap_ok t) \<and> (cap_ok s \<longrightarrow> cap_le s t)"

named_theorems cap_moves

lemma moves_refl [cap_moves, simp]: "moves s s"
  by (simp add: moves_def)

lemma moves_trans: "moves s t \<Longrightarrow> moves t u \<Longrightarrow> moves s u"
  by (auto simp: moves_def intro: cap_le_trans)

lemma create_object_moves [cap_moves]:
  assumes "create_object kind s = Some (r, t)"
  shows "moves s t"
proof (cases "length (objects s) \<ge> MAX_CAP_OBJECTS \<or> length (nodes s) \<ge> MAX_CAP_NODES")
  case True
  with assms show ?thesis by (auto simp: create_object_def)
next
  case False
  let ?s1 = "s\<lparr>objects := objects s @ [\<lparr>o_kind = kind, o_refcount = 0, o_gen = 1, o_valid = True\<rparr>]\<rparr>"
  from assms False have i: "install_cap None (length (objects s)) rights_all False ?s1 = (r, t)"
    by (simp add: create_object_def)
  have le: "cap_le s ?s1" by (simp add: cap_le_def)
  have "cap_ok s \<Longrightarrow> cap_ok ?s1" using False by (fastforce simp: cap_ok_def)
  then show ?thesis
    using install_cap_ok [OF _ i] install_cap_frame(3) [OF i] False le
    by (auto simp: moves_def intro: cap_le_trans)
qed

lemma derive_moves:
  assumes "cap_ok s" and "derive_check h req s = Some (Ok p)"
    and "install_cap par (s_object p) rts lent s = (r, t)" and "par = None \<or> par = Some (s_node p)"
  shows "cap_ok t" and "cap_le s t"
proof -
  have "s_node p < length (nodes s)" "s_object p < length (objects s)" "length (nodes s) < MAX_CAP_NODES"
    using assms(1,2) handle_slot_ok by (auto simp: derive_check_Ok)
  then show "cap_ok t" by (rule_tac install_cap_ok [OF assms(1,3)]) (use assms(4) in auto)
  show "cap_le s t" using assms(3) by (rule install_cap_frame(3))
qed

lemma grant_moves [cap_moves]: "grant h req s = Some (r, t) \<Longrightarrow> moves s t"
  by (auto simp: grant_def moves_def split: bind_splits sum.splits dest: derive_moves)

lemma lend_moves [cap_moves]: "lend h req s = Some (r, t) \<Longrightarrow> moves s t"
  by (auto simp: lend_def moves_def split: bind_splits sum.splits dest: derive_moves)

lemma free_slot_moves:
  assumes "free_slot i s = Some t"
  shows "moves s t"
proof -
  from assms have t: "t = s\<lparr>slots := (slots s)[i := (slots s ! i)\<lparr>s_free := True, s_gen := Suc (s_gen (slots s ! i))\<rparr>]\<rparr>"
    by (auto simp: free_slot_def split: bind_splits)
  then have "slots_le (slots s) (slots t)" by (simp add: slots_le_bump)
  moreover have "cap_ok s \<Longrightarrow> cap_ok t"
    using t by (auto simp: cap_ok_def dest!: set_update_subset_insert [THEN subsetD])
  ultimately show ?thesis using t by (simp add: moves_def cap_le_def)
qed

lemma transfer_moves [cap_moves]:
  assumes "transfer h req s = Some (r, t)"
  shows "moves s t"
proof (cases "derive_check h req s")
  case (Some c)
  show ?thesis
  proof (cases c)
    case (Inr p)
    let ?i = "install_cap None (s_object p) (rights_bitand (s_rights p) req) False s"
    obtain r1 s1 where i: "?i = (r1, s1)" by (cases ?i)
    have "moves s s1" using derive_moves [OF _ _ i] Some Inr by (auto simp: moves_def)
    moreover have "moves s1 t"
      using assms Some Inr i free_slot_moves
      by (auto simp: transfer_def split: bind_splits sum.splits)
    ultimately show ?thesis by (rule moves_trans)
  qed (use assms Some in \<open>simp add: transfer_def\<close>)
qed (use assms in \<open>simp add: transfer_def\<close>)

lemma close_moves [cap_moves]: "close h s = Some (r, t) \<Longrightarrow> moves s t"
  by (auto simp: close_def split: option.splits bind_splits intro: free_slot_moves)

lemma revoke_moves [cap_moves]:
  assumes "revoke h s = Some (r, t)"
  shows "moves s t"
proof (cases "handle_slot s h")
  case (Some sl)
  let ?nd = "nodes s ! s_node sl"
  from assms Some have t: "s_node sl < length (nodes s)"
    "t = s\<lparr>nodes := (nodes s)[s_node sl := ?nd\<lparr>n_epoch := saturating_add 64 (n_epoch ?nd) 1\<rparr>]\<rparr>"
    by (auto simp: revoke_def Let_def split: if_splits)
  have "saturating_add 64 (n_epoch ?nd) 1 < 2 ^ 64" by (simp add: saturating_add_def)
  then have "cap_ok s \<Longrightarrow> cap_ok t"
    using t by (auto simp: cap_ok_def wf_nodes_def nth_upd split: if_splits
        dest!: set_update_subset_insert [THEN subsetD])
  moreover have "cap_ok s \<Longrightarrow> nodes_le (nodes s) (nodes t)"
    using t by (auto simp: cap_ok_def nodes_le_def nth_upd intro!: saturating_add_ge)
  ultimately show ?thesis using t by (auto simp: moves_def cap_le_def)
qed (use assms in \<open>simp add: revoke_def\<close>)

lemma check_rights_Ok:
  "cap_ok s \<Longrightarrow> check_rights h needed s = Some (Ok ()) \<longleftrightarrow>
     (\<exists>sl. handle_slot s h = Some sl \<and> rights_contains (s_rights sl) needed \<and>
        \<not> revoked (nodes s) (s_node sl) \<and> o_valid (objects s ! s_object sl))"
  using handle_slot_ok [of s h]
  by (auto simp: check_rights_def handle_revoked object_valid_def split: option.splits)

lemma check_rights_returns: "cap_ok s \<Longrightarrow> \<exists>c. check_rights h needed s = Some c"
  using handle_slot_ok [of s h]
  by (auto simp: check_rights_def handle_revoked object_valid_def split: option.splits)

lemma objects_le_upd:
  "o_kind ob = o_kind (xs ! i) \<Longrightarrow> (o_valid ob \<Longrightarrow> o_valid (xs ! i)) \<Longrightarrow> objects_le xs (xs[i := ob])"
  by (auto simp: objects_le_def nth_upd)

lemma object_update_moves:
  assumes "o_kind ob = o_kind (objects s ! i)" and "o_valid ob \<Longrightarrow> o_valid (objects s ! i)"
    and "\<not> o_valid ob \<Longrightarrow> o_refcount ob = 0"
  shows "moves s (s\<lparr>objects := (objects s)[i := ob]\<rparr>)"
  using assms objects_le_upd [of ob "objects s" i]
  by (auto simp: moves_def cap_ok_def cap_le_def dest!: set_update_subset_insert [THEN subsetD])

lemma deref_moves [cap_moves]:
  assumes "deref h req s = Some (r, t)"
  shows "moves s t"
proof -
  have "moves s t" if "cap_ok s"
    using assms that check_rights_Ok [OF that, of h req]
    by (auto simp: deref_def Let_def handle_slot_Some split: bind_splits sum.splits
        intro!: object_update_moves)
  then show ?thesis by (auto simp: moves_def)
qed

lemma drop_access_moves [cap_moves]:
  "drop_access i s = Some t \<Longrightarrow> moves s t"
  by (auto simp: drop_access_def Let_def split: if_splits bind_splits intro!: object_update_moves)

lemma cap_step_moves: "cap_step s t \<Longrightarrow> moves s t"
  by (induction rule: cap_step.induct) (auto intro: cap_moves)

interpretation cap: inv_system cap_step cap_ok
  by unfold_locales (use cap_step_moves in \<open>auto simp: moves_def\<close>)

lemma cap_run_le: "cap_step\<^sup>*\<^sup>* s t \<Longrightarrow> cap_ok s \<Longrightarrow> cap_le s t"
proof (induction rule: rtranclp_induct)
  case (step t u)
  then have "cap_ok t" by (blast intro: cap.inv_run)
  with step show ?case using cap_step_moves [of t u] by (auto simp: moves_def intro: cap_le_trans)
qed simp

lemma cap_ok_init [simp]: "cap_ok init_core"
  by (simp add: cap_ok_def init_core_def wf_nodes_def)

end
