(* ===== verification/Cap_Security.thy ===== *)
theory Cap_Security
  imports Cap_Core
begin

section \<open>What the capability core guarantees\<close>

text \<open>
  The security properties of \<^verbatim>\<open>kernel/src/cap.rs\<close>, over the operations of \<open>Cap_Core\<close>: the table
  stays well formed and its operations return; rights only shrink along a lineage; revocation kills
  exactly the lineage; closed and revoked handles never come back; lent handles cannot be passed on;
  a transferred capability leaves its old lineage.
\<close>

subsection \<open>Handles over time\<close>

lemma handle_slot_stable:
  assumes "cap_le s t" and "handle_slot s h = Some sl"
  shows "handle_slot t h = Some sl \<or> handle_slot t h = None"
proof (cases "handle_slot t h")
  case (Some sl')
  with assms have "h_slot h < length (slots s)" "sl = slots s ! h_slot h" "\<not> s_free sl"
    "sl' = slots t ! h_slot h" "s_gen sl' = s_gen sl"
    by (auto simp: handle_slot_Some)
  with assms(1) have "sl' = sl" by (auto simp: cap_le_def slots_le_def)
  with Some show ?thesis by simp
qed simp

lemma handle_dead_stable:
  assumes "cap_le s t" and "h_slot h < length (slots s)" and "h_gen h < s_gen (slots s ! h_slot h)"
  shows "handle_slot t h = None"
proof -
  have "s_gen (slots s ! h_slot h) \<le> s_gen (slots t ! h_slot h)"
    using assms(1,2) by (auto simp: cap_le_def slots_le_def)
  with assms(3) show ?thesis by (auto simp: handle_slot_def Let_def)
qed

lemma free_slot_kills:
  assumes "free_slot i s = Some t" and "i < length (slots s)"
  shows "i < length (slots t)" and "s_gen (slots t ! i) = Suc (s_gen (slots s ! i))"
    and "\<And>j. j \<noteq> i \<Longrightarrow> slots t ! j = slots s ! j" and "nodes t = nodes s" and "objects t = objects s"
    and "length (slots t) = length (slots s)"
  using assms by (auto simp: free_slot_def split: bind_splits)

lemma close_dead:
  assumes "close h s = Some (Ok (), t)"
  shows "h_slot h < length (slots t)" and "h_gen h < s_gen (slots t ! h_slot h)"
  using assms
  by (auto simp: close_def handle_slot_Some free_slot_kills split: option.splits bind_splits)

lemma check_rights_invalid: "handle_slot s h = None \<Longrightarrow> check_rights h needed s = Some (Err Invalid)"
  by (simp add: check_rights_def)

subsection \<open>Attenuation along a lineage\<close>

text \<open>
  A slot's rights are those of its node, and a node's rights contain those of its children. Nodes
  carry no rights in the source, so the invariant says that an assignment of rights and objects to
  nodes exists.
\<close>

definition attenuated :: "core_state \<Rightarrow> bool" where
  "attenuated s \<longleftrightarrow> (\<exists>f g.
     (\<forall>i < length (nodes s). \<forall>p. n_parent (nodes s ! i) = Some p \<longrightarrow>
        rights_contains (f p) (f i) \<and> g p = (g i :: nat)) \<and>
     (\<forall>sl \<in> set (slots s). \<not> s_free sl \<longrightarrow> s_rights sl = f (s_node sl) \<and> s_object sl = g (s_node sl)))"

lemma attenuated_lineage:
  assumes "\<forall>i < length ns. \<forall>p. n_parent (ns ! i) = Some p \<longrightarrow> rights_contains (f p) (f i) \<and> g p = g i"
    and "lineage ns i j"
  shows "rights_contains (f j) (f i) \<and> g j = (g i :: nat)"
  using assms(2)
  by (induction rule: lineage.induct) (use assms(1) in \<open>auto intro: rights_contains_trans\<close>)

lemma attenuated_handles:
  assumes "attenuated s" and "handle_slot s h = Some a" and "handle_slot s k = Some b"
    and "lineage (nodes s) (s_node a) (s_node b)"
  shows "rights_contains (s_rights b) (s_rights a) \<and> s_object a = s_object b"
proof -
  from assms(1) obtain f g where
    fg: "\<forall>i < length (nodes s). \<forall>p. n_parent (nodes s ! i) = Some p \<longrightarrow>
           rights_contains (f p) (f i) \<and> g p = (g i :: nat)"
    and sl: "\<forall>sl \<in> set (slots s). \<not> s_free sl \<longrightarrow> s_rights sl = f (s_node sl) \<and> s_object sl = g (s_node sl)"
    unfolding attenuated_def by blast
  have "a \<in> set (slots s)" "\<not> s_free a" "b \<in> set (slots s)" "\<not> s_free b"
    using assms(2,3) by (auto simp: handle_slot_Some)
  with sl attenuated_lineage [OF fg assms(4)] show ?thesis by auto
qed

lemma attenuated_slots:
  assumes "attenuated s" and "nodes t = nodes s"
    and "\<And>sl. sl \<in> set (slots t) \<Longrightarrow> \<not> s_free sl \<Longrightarrow> sl \<in> set (slots s)"
  shows "attenuated t"
  using assms unfolding attenuated_def by metis

lemma install_cap_attenuated:
  assumes "cap_ok s" and "attenuated s" and i: "install_cap par obj rts lent s = (r, t)"
    and par: "par = None \<or> (\<exists>p \<in> set (slots s). \<not> s_free p \<and> par = Some (s_node p) \<and>
      rights_contains (s_rights p) rts \<and> s_object p = obj)"
  shows "attenuated t"
proof -
  from assms(2) obtain f g where
    fg: "\<forall>i < length (nodes s). \<forall>p. n_parent (nodes s ! i) = Some p \<longrightarrow>
           rights_contains (f p) (f i) \<and> g p = (g i :: nat)"
    and sl: "\<forall>sl \<in> set (slots s). \<not> s_free sl \<longrightarrow> s_rights sl = f (s_node sl) \<and> s_object sl = g (s_node sl)"
    unfolding attenuated_def by blast
  let ?n = "length (nodes s)"
  let ?f = "f(?n := rts)" and ?g = "g(?n := obj)"
  have nt: "nodes t = nodes s @ [\<lparr>n_parent = par, n_epoch = 0\<rparr>]" by (rule install_cap_frame(1) [OF i])
  have small: "n_parent (nodes s ! i) = Some p \<Longrightarrow> i < ?n \<Longrightarrow> p < ?n" for i p
    using assms(1) by (fastforce simp: cap_ok_def wf_nodes_def)
  have node_small: "\<lbrakk>x \<in> set (slots s); \<not> s_free x\<rbrakk> \<Longrightarrow> s_node x < ?n" for x
    using assms(1) by (auto simp: cap_ok_def)
  have "rights_contains (?f p) (?f i) \<and> ?g p = ?g i"
    if "i < length (nodes t)" "n_parent (nodes t ! i) = Some p" for i p
  proof (cases "i < ?n")
    case True
    then have "n_parent (nodes s ! i) = Some p" using that(2) by (simp add: nt nth_append)
    with True fg small show ?thesis by fastforce
  next
    case False
    then have "i = ?n" using that(1) by (simp add: nt)
    then have "par = Some p" using that(2) by (simp add: nt)
    with par sl node_small \<open>i = ?n\<close> show ?thesis by fastforce
  qed
  moreover have "s_rights x = ?f (s_node x) \<and> s_object x = ?g (s_node x)"
    if "x \<in> set (slots t)" "\<not> s_free x" for x
  proof (cases "x \<in> set (slots s)")
    case True
    with that(2) sl node_small show ?thesis by fastforce
  next
    case False
    have "s_node x = ?n \<and> s_object x = obj \<and> s_rights x = rts"
      using i that False
      by (auto simp: install_cap_def Let_def split: prod.splits sum.splits
          dest!: allocate_slot_Ok(3) allocate_slot_Err set_update_subset_insert [THEN subsetD])
    then show ?thesis by simp
  qed
  ultimately show ?thesis unfolding attenuated_def by blast
qed

lemma derive_attenuated:
  assumes "cap_ok s" and "attenuated s" and "derive_check h req s = Some (Ok p)"
    and "install_cap par (s_object p) (rights_bitand (s_rights p) req) lent s = (r, t)"
    and "par = None \<or> par = Some (s_node p)"
  shows "attenuated t"
proof (rule install_cap_attenuated [OF assms(1,2,4)])
  have "p \<in> set (slots s)" "\<not> s_free p"
    using assms(1,3) by (auto simp: derive_check_Ok handle_slot_Some)
  then show "par = None \<or> (\<exists>q \<in> set (slots s). \<not> s_free q \<and> par = Some (s_node q) \<and>
      rights_contains (s_rights q) (rights_bitand (s_rights p) req) \<and> s_object q = s_object p)"
    using assms(5) rights_bitand_lower(1) by blast
qed

lemma free_slot_attenuated: "free_slot i s = Some t \<Longrightarrow> attenuated s \<Longrightarrow> attenuated t"
  by (rule attenuated_slots [where s = s])
    (auto simp: free_slot_def split: bind_splits dest!: set_update_subset_insert [THEN subsetD])

lemma transfer_cases:
  assumes "transfer h req s = Some (r, t)"
  obtains (refused) e where "derive_check h req s = Some (Err e)" "r = Err e" "t = s"
  | (full) p e where "derive_check h req s = Some (Ok p)" "r = Err e"
      "install_cap None (s_object p) (rights_bitand (s_rights p) req) False s = (Err e, t)"
  | (moved) p k s1 where "derive_check h req s = Some (Ok p)" "r = Ok k"
      "install_cap None (s_object p) (rights_bitand (s_rights p) req) False s = (Ok k, s1)"
      "free_slot (h_slot h) s1 = Some t"
  using assms by (auto simp: transfer_def split: bind_splits sum.splits prod.splits)

lemma revoke_nodes:
  assumes "revoke h s = Some (r, t)"
  shows "slots t = slots s" and "objects t = objects s" and "length (nodes t) = length (nodes s)"
    and "n_parent (nodes t ! i) = n_parent (nodes s ! i)"
  using assms by (auto simp: revoke_def Let_def nth_upd split: option.splits if_splits)

lemma attenuated_revoke: "revoke h s = Some (r, t) \<Longrightarrow> attenuated s \<Longrightarrow> attenuated t"
  unfolding attenuated_def by (simp add: revoke_nodes)

lemma attenuated_objects:
  "slots t = slots s \<Longrightarrow> nodes t = nodes s \<Longrightarrow> attenuated s \<Longrightarrow> attenuated t"
  by (simp add: attenuated_def)

lemma cap_step_attenuated:
  assumes "cap_step s t" and "cap_ok s" and "attenuated s"
  shows "attenuated t"
  using assms(1)
proof cases
  case (step_create kind r)
  show ?thesis
  proof (cases "length (objects s) \<ge> MAX_CAP_OBJECTS \<or> length (nodes s) \<ge> MAX_CAP_NODES")
    case True
    with step_create assms(3) show ?thesis by (simp add: create_object_def)
  next
    case False
    let ?s1 = "s\<lparr>objects := objects s @ [\<lparr>o_kind = kind, o_refcount = 0, o_gen = 1, o_valid = True\<rparr>]\<rparr>"
    have "cap_ok ?s1" using assms(2) False by (fastforce simp: cap_ok_def)
    moreover have "attenuated ?s1" using assms(3) by (simp add: attenuated_def)
    ultimately show ?thesis
      using step_create False install_cap_attenuated by (auto simp: create_object_def)
  qed
next
  case (step_grant h req r)
  with assms derive_attenuated show ?thesis
    by (auto simp: grant_def split: bind_splits sum.splits)
next
  case (step_lend h req r)
  with assms derive_attenuated show ?thesis
    by (auto simp: lend_def split: bind_splits sum.splits)
next
  case (step_transfer h req r)
  then show ?thesis
    by (cases rule: transfer_cases)
      (use assms derive_attenuated free_slot_attenuated in \<open>blast+\<close>)
next
  case (step_close h r)
  with assms free_slot_attenuated show ?thesis
    by (auto simp: close_def split: option.splits bind_splits)
next
  case (step_revoke h r)
  with assms show ?thesis by (blast intro: attenuated_revoke)
next
  case (step_deref h req r)
  with assms show ?thesis
    by (auto simp: deref_def Let_def split: bind_splits sum.splits intro: attenuated_objects)
next
  case (step_drop i)
  with assms show ?thesis
    by (auto simp: drop_access_def Let_def split: bind_splits if_splits intro: attenuated_objects)
qed

lemma attenuated_init: "attenuated init_core"
  by (simp add: attenuated_def init_core_def)

lemma cap_reachable_attenuated: "cap_step\<^sup>*\<^sup>* init_core s \<Longrightarrow> attenuated s"
  by (rule cap.stable_run [where P = attenuated])
    (auto intro: attenuated_init cap_step_attenuated)

subsection \<open>The effect of \<^verbatim>\<open>revoke\<close> on lineages\<close>

lemma revoke_lineage:
  assumes "revoke h s = Some (r, t)"
  shows "lineage (nodes t) i j \<longleftrightarrow> lineage (nodes s) i j"
proof
  show "lineage (nodes t) i j \<Longrightarrow> lineage (nodes s) i j"
    by (induction rule: lineage.induct) (auto simp: revoke_nodes [OF assms] intro: lineage.intros)
  show "lineage (nodes s) i j \<Longrightarrow> lineage (nodes t) i j"
    by (induction rule: lineage.induct)
      (auto simp: revoke_nodes(3) [OF assms] revoke_nodes(4) [OF assms, symmetric] intro: lineage.intros)
qed

lemma revoke_epoch:
  assumes "revoke h s = Some (r, t)" and "handle_slot s h = Some sl"
  shows "0 < n_epoch (nodes t ! j) \<longleftrightarrow> j = s_node sl \<or> 0 < n_epoch (nodes s ! j)"
  using assms by (auto simp: revoke_def Let_def nth_upd saturating_add_pos split: if_splits)

lemma revoked_after_revoke:
  assumes "cap_ok s" and "handle_slot s h = Some sl" and "revoke h s = Some (r, t)"
  shows "revoked (nodes t) i \<longleftrightarrow> lineage (nodes s) i (s_node sl) \<or> revoked (nodes s) i"
  using revoke_lineage [OF assms(3)] revoke_epoch [OF assms(3,2)] unfolding revoked_def by auto

lemma check_after_revoke:
  assumes "cap_ok s" and "handle_slot s h = Some sl" and "handle_slot s k = Some sk"
    and "revoke h s = Some (r, t)"
  shows "check_rights k needed t =
    (if lineage (nodes s) (s_node sk) (s_node sl)
     then Some (Err (if rights_contains (s_rights sk) needed then Revoked else NoRights))
     else check_rights k needed s)"
proof -
  have ok: "cap_ok t" using revoke_moves [OF assms(4)] assms(1) by (simp add: moves_def)
  note fr = revoke_nodes [OF assms(4)]
  have k: "handle_slot t k = Some sk" using assms(3) fr(1) by (auto simp: handle_slot_Some)
  have "revoked (nodes t) (s_node sk) \<longleftrightarrow>
      lineage (nodes s) (s_node sk) (s_node sl) \<or> revoked (nodes s) (s_node sk)"
    by (rule revoked_after_revoke [OF assms(1,2,4)])
  then show ?thesis
    using handle_revoked [OF ok k] handle_revoked [OF assms(1,3)] fr(2)
    by (simp add: check_rights_def k assms(3) object_valid_def)
qed

lemma revoked_stays_dead:
  assumes "cap_ok s" and "check_rights h needed s = Some (Err Revoked)" and "cap_step\<^sup>*\<^sup>* s t"
  shows "check_rights h needed' t \<noteq> Some (Ok ())"
proof
  assume ok: "check_rights h needed' t = Some (Ok ())"
  have okt: "cap_ok t" by (rule cap.inv_run [OF assms(3,1)])
  have le: "cap_le s t" by (rule cap_run_le [OF assms(3,1)])
  from assms(2) obtain sl where sl: "handle_slot s h = Some sl" "revoked (nodes s) (s_node sl)"
    using handle_revoked [OF assms(1)] handle_slot_ok [OF assms(1)]
    by (auto simp: check_rights_def object_valid_def split: option.splits if_splits)
  from ok obtain sl' where "handle_slot t h = Some sl'" "\<not> revoked (nodes t) (s_node sl')"
    using check_rights_Ok [OF okt] by blast
  moreover from this(1) have "sl' = sl" using handle_slot_stable [OF le sl(1)] by auto
  ultimately show False using sl(2) revoked_mono le by (auto simp: cap_le_def)
qed

subsection \<open>Frame of a new capability\<close>

lemma lineage_child:
  assumes "p < length ns"
  shows "lineage (ns @ [\<lparr>n_parent = Some p, n_epoch = e\<rparr>]) (length ns) p"
  by (rule lineage_up [OF _ _ lineage_self]) (use assms in auto)

lemma revoked_child:
  assumes "wf_nodes ns" and "p < length ns"
  shows "revoked (ns @ [\<lparr>n_parent = Some p, n_epoch = 0\<rparr>]) (length ns) \<longleftrightarrow> revoked ns p"
  by (subst revoked_rec) (use assms in \<open>simp_all add: revoked_append\<close>)

lemma install_cap_fresh:
  assumes "install_cap par obj rts lent s = (Ok k, t)"
  shows "handle_slot s k = None"
  using install_cap_Ok(5) [OF assms] by (auto simp: handle_slot_def Let_def)

lemma install_cap_other:
  assumes "install_cap par obj rts lent s = (Ok k, t)" and "handle_slot s h = Some x"
  shows "handle_slot t h = Some x"
proof -
  have "h_slot h < length (slots s)" "\<not> s_free (slots s ! h_slot h)"
    using assms(2) by (auto simp: handle_slot_Some)
  moreover from this have "h_slot h \<noteq> h_slot k" using install_cap_Ok(5) [OF assms(1)] by auto
  ultimately show ?thesis
    using assms(2) install_cap_Ok(4,6) [OF assms(1)] by (auto simp: handle_slot_Some slots_le_def)
qed

lemma grant_Ok:
  assumes "cap_ok s" and "grant h req s = Some (Ok k, t)"
  shows "\<exists>p c. handle_slot s h = Some p \<and> rights_contains (s_rights p) req \<and> \<not> s_lent p \<and>
    \<not> revoked (nodes s) (s_node p) \<and> handle_slot s k = None \<and>
    handle_slot t k = Some c \<and> s_rights c = req \<and> s_object c = s_object p \<and> \<not> s_lent c \<and>
    lineage (nodes t) (s_node c) (s_node p) \<and> \<not> revoked (nodes t) (s_node c) \<and> objects t = objects s \<and>
    (\<forall>h' x. handle_slot s h' = Some x \<longrightarrow> handle_slot t h' = Some x)"
proof -
  from assms(2) obtain p where d: "derive_check h req s = Some (Ok p)"
    and i: "install_cap (Some (s_node p)) (s_object p) (rights_bitand (s_rights p) req) False s = (Ok k, t)"
    by (auto simp: grant_def split: bind_splits sum.splits)
  note p = d [unfolded derive_check_Ok [OF assms(1)]]
  have np: "s_node p < length (nodes s)" using p handle_slot_ok [OF assms(1)] by blast
  have "lineage (nodes t) (length (nodes s)) (s_node p)"
    using np by (simp add: install_cap_Ok(1) [OF i] lineage_child)
  moreover have "\<not> revoked (nodes t) (length (nodes s))"
    using p np assms(1) by (simp add: install_cap_Ok(1) [OF i] revoked_child cap_ok_def)
  moreover have "handle_slot t h' = Some x" if "handle_slot s h' = Some x" for h' x
    using install_cap_other [OF i that] .
  moreover have "rights_bitand (s_rights p) req = req" using p by (simp add: rights_bitand_req)
  ultimately show ?thesis
    using p install_cap_Ok(2,3) [OF i] install_cap_fresh [OF i]
    by (intro exI [of _ p] exI conjI) (assumption | simp)+
qed

lemma transfer_Ok:
  assumes "cap_ok s" and "transfer h req s = Some (Ok k, t)"
  shows "\<exists>p c. handle_slot s h = Some p \<and> handle_slot t k = Some c \<and> s_object c = s_object p \<and>
    s_rights c = req \<and> rights_contains (s_rights p) req \<and>
    (\<forall>j. lineage (nodes t) (s_node c) j \<longleftrightarrow> j = s_node c) \<and>
    (\<forall>u needed. cap_step\<^sup>*\<^sup>* t u \<longrightarrow> check_rights h needed u = Some (Err Invalid))"
  using assms(2)
proof (cases rule: transfer_cases)
  case (moved p k' s1)
  note p = moved(1) [unfolded derive_check_Ok [OF assms(1)]]
  note i = moved(3)
  have hs: "h_slot h < length (slots s)" "\<not> s_free (slots s ! h_slot h)" "h_gen h = s_gen (slots s ! h_slot h)"
    using p by (auto simp: handle_slot_Some)
  then have kh: "h_slot k' \<noteq> h_slot h" using install_cap_Ok(5) [OF i] by auto
  have s1h: "slots s1 ! h_slot h = slots s ! h_slot h"
    using install_cap_Ok(6) [OF i hs(1)] kh by simp
  have len: "h_slot h < length (slots s1)"
    using install_cap_Ok(4) [OF i] hs(1) by (simp add: slots_le_def)
  note fr = free_slot_kills [OF moved(4) len]
  have c: "handle_slot t k' = handle_slot s1 k'"
    using kh fr by (simp add: handle_slot_def)
  have nt: "nodes t = nodes s @ [\<lparr>n_parent = None, n_epoch = 0\<rparr>]"
    using install_cap_Ok(1) [OF i] fr(4) by simp
  have "lineage (nodes t) (length (nodes s)) j \<longleftrightarrow> j = length (nodes s)" for j
    by (subst lineage_iff) (auto simp: nt)
  moreover have "check_rights h needed u = Some (Err Invalid)" if "cap_step\<^sup>*\<^sup>* t u" for u needed
  proof (rule check_rights_invalid, rule handle_dead_stable)
    have "cap_ok t" using transfer_moves [OF assms(2)] assms(1) by (simp add: moves_def)
    then show "cap_le t u" by (rule cap_run_le [OF that])
  qed (use fr(1,2) hs(3) s1h in auto)
  ultimately show ?thesis
    using p moved(2) c install_cap_Ok(3) [OF i] by (auto simp: rights_bitand_req)
qed simp_all

subsection \<open>Teardown of a process\<close>

lemma dead_by_lineage:
  assumes "cap_le s t" and "cap_ok t" and "handle_slot s k = Some sk" and "revoked (nodes t) (s_node sk)"
  shows "check_rights k needed t \<noteq> Some (Ok ())"
  using handle_slot_stable [OF assms(1,3)] assms(2,4) by (auto simp: check_rights_Ok)

lemma destroy_owned_moves: "destroy_owned h s = Some (r, t) \<Longrightarrow> moves s t"
  by (auto simp: destroy_owned_def split: bind_splits intro: moves_trans revoke_moves close_moves)

lemma destroy_owned_revokes:
  assumes "destroy_owned h s = Some (r, t)" and "cap_ok s" and "handle_slot s h = Some sl"
    and "lineage (nodes s) i (s_node sl)"
  shows "revoked (nodes t) i"
proof -
  from assms(1) obtain r1 s1 where r: "revoke h s = Some (r1, s1)" and c: "close h s1 = Some (r, t)"
    by (auto simp: destroy_owned_def split: bind_splits)
  have "revoked (nodes s1) i" using revoked_after_revoke [OF assms(2,3) r] assms(4) by simp
  moreover have "nodes_le (nodes s1) (nodes t)"
    using close_moves [OF c] revoke_moves [OF r] assms(2) by (auto simp: moves_def cap_le_def)
  ultimately show ?thesis by (rule revoked_mono)
qed

lemma destroy_owned_other:
  assumes "destroy_owned h s = Some (r, t)" and "handle_slot s k = Some sk" and "k \<noteq> h"
  shows "handle_slot t k = Some sk"
proof -
  from assms(1) obtain r1 s1 where r: "revoke h s = Some (r1, s1)" and c: "close h s1 = Some (r, t)"
    by (auto simp: destroy_owned_def split: bind_splits)
  have k: "handle_slot s1 k = Some sk" using assms(2) revoke_nodes(1) [OF r] by (auto simp: handle_slot_Some)
  show ?thesis
  proof (cases "handle_slot s1 h")
    case None
    with c k show ?thesis by (simp add: close_def)
  next
    case (Some sl)
    with k assms(3) have ne: "h_slot k \<noteq> h_slot h" by (auto simp: handle_slot_Some intro: cap_handle.equality)
    from c Some obtain u where u: "free_slot (h_slot h) s1 = Some t" by (auto simp: close_def split: bind_splits)
    have "h_slot h < length (slots s1)" using Some by (simp add: handle_slot_Some)
    from free_slot_kills [OF u this] ne k show ?thesis by (auto simp: handle_slot_Some)
  qed
qed

lemma destroy_process_cspace_effect:
  assumes "destroy_process_cspace tbl s = Some (tbl', t)" and "cap_ok s"
  shows "tbl' = [] \<and> cap_ok t \<and> cap_le s t \<and>
    (\<forall>h \<in> snd ` set tbl. \<forall>sl. handle_slot s h = Some sl \<longrightarrow>
       (\<forall>i. lineage (nodes s) i (s_node sl) \<longrightarrow> revoked (nodes t) i))"
  using assms
proof (induction tbl arbitrary: s)
  case (Cons e tbl)
  obtain a h0 where e: "e = (a, h0)" by (cases e)
  with Cons.prems(1) obtain r s1 where d: "destroy_owned h0 s = Some (r, s1)"
    and rest: "destroy_process_cspace tbl s1 = Some (tbl', t)" by (auto split: bind_splits)
  have m: "cap_ok s1" "cap_le s s1" using destroy_owned_moves [OF d] Cons.prems(2) by (auto simp: moves_def)
  note IH = Cons.IH [OF rest m(1)]
  have "revoked (nodes t) i"
    if "h \<in> snd ` set (e # tbl)" "handle_slot s h = Some sl" "lineage (nodes s) i (s_node sl)" for h sl i
  proof (cases "h = h0")
    case True
    with destroy_owned_revokes [OF d Cons.prems(2)] that(2,3) have "revoked (nodes s1) i" by blast
    then show ?thesis using IH by (auto simp: cap_le_def intro: revoked_mono)
  next
    case False
    have "handle_slot s1 h = Some sl" by (rule destroy_owned_other [OF d that(2) False])
    moreover have "lineage (nodes s1) i (s_node sl)" using m(2) that(3) by (auto simp: cap_le_def intro: lineage_mono)
    moreover have "h \<in> snd ` set tbl" using that(1) False e by auto
    ultimately show ?thesis using IH by blast
  qed
  then show ?case using IH m(2) cap_le_trans by blast
qed simp

subsection \<open>Calls return\<close>

lemma derived_returns:
  "cap_ok s \<Longrightarrow> (\<exists>r t. grant h req s = Some (r, t)) \<and> (\<exists>r t. lend h req s = Some (r, t))"
  using derive_check_returns [of s h req] by (auto simp: grant_def lend_def split: sum.split)

lemma revoke_returns: "cap_ok s \<Longrightarrow> \<exists>r t. revoke h s = Some (r, t)"
  using handle_slot_ok [of s h] by (force simp: revoke_def Let_def split: option.split)

lemma object_identity_returns: "cap_ok s \<Longrightarrow> \<exists>r. object_identity h s = Some r"
  using handle_slot_ok [of s h]
  by (auto simp: object_identity_def handle_revoked object_valid_def split: option.split)

lemma check_rights_for_object_returns: "cap_ok s \<Longrightarrow> \<exists>r. check_rights_for_object h k req s = Some r"
  using check_rights_returns [of s h req]
  by (auto simp: check_rights_for_object_def split: option.split)

lemma free_slot_returns: "s_gen (slots s ! i) + 1 < 2 ^ 32 \<Longrightarrow> \<exists>t. free_slot i s = Some t"
  by (simp add: free_slot_def checked_add_def)

lemma close_returns:
  assumes "\<forall>sl \<in> set (slots s). s_gen sl + 1 < 2 ^ 32"
  shows "\<exists>r t. close h s = Some (r, t)"
proof (cases "handle_slot s h")
  case (Some sl)
  then have "slots s ! h_slot h \<in> set (slots s)" by (simp add: handle_slot_Some)
  with assms obtain t where "free_slot (h_slot h) s = Some t" using free_slot_returns by blast
  with Some show ?thesis by (simp add: close_def)
qed (simp add: close_def)

lemma transfer_returns:
  assumes "cap_ok s" and gens: "\<forall>sl \<in> set (slots s). s_gen sl + 1 < 2 ^ 32"
  shows "\<exists>r t. transfer h req s = Some (r, t)"
proof -
  obtain c where c: "derive_check h req s = Some c" using derive_check_returns [OF assms(1)] by blast
  show ?thesis
  proof (cases c)
    case p: (Inr p)
    let ?i = "install_cap None (s_object p) (rights_bitand (s_rights p) req) False s"
    obtain r1 s1 where i: "?i = (r1, s1)" by (cases ?i)
    show ?thesis
    proof (cases r1)
      case k: (Inr k)
      have h: "h_slot h < length (slots s)" "\<not> s_free (slots s ! h_slot h)"
        using c p assms(1) by (auto simp: derive_check_Ok handle_slot_Some)
      then have "slots s1 ! h_slot h = slots s ! h_slot h"
        using install_cap_Ok(5,6) [of None _ _ _ s k s1] i k by metis
      then have "s_gen (slots s1 ! h_slot h) + 1 < 2 ^ 32" using gens h(1) by simp
      then obtain t where "free_slot (h_slot h) s1 = Some t" using free_slot_returns by blast
      then show ?thesis using c i k p by (simp add: transfer_def)
    qed (use c i p in \<open>simp add: transfer_def\<close>)
  qed (use c in \<open>simp add: transfer_def\<close>)
qed

lemma deref_returns:
  assumes "cap_ok s" and rc: "\<forall>ob \<in> set (objects s). o_refcount ob + 1 < 2 ^ 64"
  shows "\<exists>r t. deref h req s = Some (r, t)"
proof -
  obtain d where d: "check_rights h req s = Some d" using check_rights_returns [OF assms(1)] by blast
  show ?thesis
  proof (cases d)
    case (Inr u)
    then obtain sl where "handle_slot s h = Some sl" using d check_rights_Ok [OF assms(1)] by auto
    then have "objects s ! s_object (slots s ! h_slot h) \<in> set (objects s)"
      using handle_slot_ok [OF assms(1)] by (auto simp: handle_slot_Some)
    with rc d Inr show ?thesis by (simp add: deref_def Let_def checked_add_def)
  qed (use d in \<open>simp add: deref_def\<close>)
qed

subsection \<open>Properties\<close>

text \<open>
  C1. Every table that any sequence of capability operations reaches from the empty one is well
  formed: parents of nodes come earlier in the table (so lineages are trees), slots in use point at
  existing nodes and objects, the three tables stay within their limits, and an invalid object has
  no outstanding access.
\<close>

theorem cap_reachable_ok:
  assumes "cap_step\<^sup>*\<^sup>* init_core s"
  shows "cap_ok s"
  using assms by (rule cap.inv_run) simp

text \<open>
  In a well-formed table no call of the capability interface panics on an index and the walk up
  the lineage always ends. Only the checked increments can stop a call: \<^verbatim>\<open>close\<close> and \<^verbatim>\<open>transfer\<close> at a
  slot generation of \<^verbatim>\<open>u32::MAX\<close>, \<^verbatim>\<open>deref\<close> at a reference count of \<^verbatim>\<open>u64::MAX\<close>.
\<close>

theorem cap_ops_return:
  assumes "cap_ok s"
  shows "(i < length (nodes s) \<longrightarrow> (\<exists>b. is_revoked (nodes s) i = Some b)) \<and>
    (\<exists>r t. create_object kind s = Some (r, t)) \<and>
    (\<exists>r t. grant h req s = Some (r, t)) \<and>
    (\<exists>r t. lend h req s = Some (r, t)) \<and>
    (\<exists>r t. revoke h s = Some (r, t)) \<and>
    (\<exists>r. check_rights h req s = Some r) \<and>
    (\<exists>r. check_rights_for_object h k req s = Some r) \<and>
    (\<exists>r. object_identity h s = Some r) \<and>
    ((\<forall>sl \<in> set (slots s). s_gen sl + 1 < 2 ^ 32) \<longrightarrow>
      (\<exists>r t. close h s = Some (r, t)) \<and> (\<exists>r t. transfer h req s = Some (r, t))) \<and>
    ((\<forall>ob \<in> set (objects s). o_refcount ob + 1 < 2 ^ 64) \<longrightarrow> (\<exists>r t. deref h req s = Some (r, t)))"
proof -
  have "i < length (nodes s) \<longrightarrow> (\<exists>b. is_revoked (nodes s) i = Some b)"
    using assms is_revoked_eq by (auto simp: cap_ok_def)
  moreover have "\<exists>r t. create_object kind s = Some (r, t)" by (auto simp: create_object_def)
  ultimately show ?thesis
    using assms derived_returns revoke_returns check_rights_returns check_rights_for_object_returns
      object_identity_returns close_returns transfer_returns deref_returns
    by meson
qed

subsection \<open>Concrete tables\<close>

text \<open>
  The tables the witnesses use: one memory object with its root handle, a handle granted from the
  root with READ and WRITE, and a handle granted from that one with READ.
\<close>

abbreviation handle :: "nat \<Rightarrow> nat \<Rightarrow> cap_handle" where
  "handle i g \<equiv> \<lparr>h_slot = i, h_gen = g\<rparr>"

definition demo1 :: core_state where
  "demo1 = \<lparr>slots = [\<lparr>s_node = 0, s_object = 0, s_rights = 0x3FF, s_gen = 1, s_free = False, s_lent = False\<rparr>],
     nodes = [\<lparr>n_parent = None, n_epoch = 0\<rparr>],
     objects = [\<lparr>o_kind = KMemory, o_refcount = 0, o_gen = 1, o_valid = True\<rparr>]\<rparr>"

definition demo2 :: core_state where
  "demo2 = \<lparr>slots = slots demo1 @
       [\<lparr>s_node = 1, s_object = 0, s_rights = 3, s_gen = 1, s_free = False, s_lent = False\<rparr>],
     nodes = nodes demo1 @ [\<lparr>n_parent = Some 0, n_epoch = 0\<rparr>], objects = objects demo1\<rparr>"

definition demo3 :: core_state where
  "demo3 = \<lparr>slots = slots demo2 @
       [\<lparr>s_node = 2, s_object = 0, s_rights = 1, s_gen = 1, s_free = False, s_lent = False\<rparr>],
     nodes = nodes demo2 @ [\<lparr>n_parent = Some 1, n_epoch = 0\<rparr>], objects = objects demo2\<rparr>"

lemma demo1_step: "create_object KMemory init_core = Some (Ok (handle 0 1), demo1)"
  by code_simp

lemma demo2_step: "grant (handle 0 1) 3 demo1 = Some (Ok (handle 1 1), demo2)"
  by code_simp

lemma demo3_step: "grant (handle 1 1) 1 demo2 = Some (Ok (handle 2 1), demo3)"
  by code_simp

lemma demo1_run: "cap_step\<^sup>*\<^sup>* init_core demo1"
  by (rule r_into_rtranclp) (rule step_create [OF demo1_step])

lemma demo3_run: "cap_step\<^sup>*\<^sup>* init_core demo3"
  by (rule rtranclp.rtrancl_into_rtrancl [OF rtranclp.rtrancl_into_rtrancl [OF demo1_run]])
    (rule step_grant [OF demo2_step], rule step_grant [OF demo3_step])

lemma demo_ok: "cap_ok demo1" "cap_ok demo3"
  using demo1_run demo3_run by (auto intro: cap.inv_run cap_ok_init)

lemma demo3_handles:
  "handle_slot demo3 (handle 0 1) = Some (slots demo3 ! 0)"
  "handle_slot demo3 (handle 1 1) = Some (slots demo3 ! 1)"
  "handle_slot demo3 (handle 2 1) = Some (slots demo3 ! 2)"
  by code_simp+

lemma demo3_lineage: "lineage (nodes demo3) 2 0" "lineage (nodes demo3) 2 1" "lineage (nodes demo3) 1 0"
proof -
  have p: "n_parent (nodes demo3 ! 2) = Some 1" "n_parent (nodes demo3 ! 1) = Some 0"
    "2 < length (nodes demo3)" by code_simp+
  show l1: "lineage (nodes demo3) 1 0" by (rule lineage_up [OF _ p(2) lineage_self]) (use p(3) in auto)
  show "lineage (nodes demo3) 2 1" by (rule lineage_up [OF p(3,1) lineage_self]) (use p(3) in auto)
  show "lineage (nodes demo3) 2 0" by (rule lineage_up [OF p(3,1) l1])
qed

theorem cap_reachable_ok_witness: "cap_step\<^sup>*\<^sup>* init_core demo3 \<and> cap_ok demo3"
  using cap_reachable_ok [OF demo3_run] demo3_run by simp

theorem cap_ops_return_witness:
  "cap_ok demo3 \<and> (\<exists>r t. transfer (handle 2 1) 1 demo3 = Some (r, t)) \<and>
   (\<exists>b. is_revoked (nodes demo3) 2 = Some b)"
proof -
  have gens: "\<forall>sl \<in> set (slots demo3). s_gen sl + 1 < 2 ^ 32"
    by (simp add: demo3_def demo2_def demo1_def)
  have len: "2 < length (nodes demo3)" by code_simp
  from cap_ops_return [OF demo_ok(2), of 2 KMemory "handle 2 1" 1 "handle 0 1"] gens len demo_ok(2)
  show ?thesis by blast
qed

text \<open>
  C2. \<^verbatim>\<open>revoke(h)\<close> kills exactly the subtree of \<open>h\<close>: for every live handle \<open>k\<close>, a check after the
  revocation answers \<open>Revoked\<close> (or \<open>NoRights\<close>, which the source tests first) when \<open>k\<close> descends from
  \<open>h\<close> or is \<open>h\<close>, and answers what it answered before in every other case.
\<close>

theorem revoke_kills_exactly_the_lineage:
  assumes "cap_ok s" and "handle_slot s h = Some sl" and "handle_slot s k = Some sk"
    and "revoke h s = Some (r, t)"
  shows "check_rights k needed t =
    (if lineage (nodes s) (s_node sk) (s_node sl)
     then Some (Err (if rights_contains (s_rights sk) needed then Revoked else NoRights))
     else check_rights k needed s)"
  by (rule check_after_revoke [OF assms])

theorem revoke_kills_exactly_the_lineage_witness:
  "check_rights (handle 2 1) 1 demo3 = Some (Ok ()) \<and>
   check_rights (handle 2 1) 1 (snd (the (revoke (handle 0 1) demo3))) = Some (Err Revoked)"
proof -
  obtain r t where t: "revoke (handle 0 1) demo3 = Some (r, t)" using revoke_returns [OF demo_ok(2)] by blast
  have nodes: "s_node (slots demo3 ! 2) = 2" "s_node (slots demo3 ! 0) = 0"
    "rights_contains (s_rights (slots demo3 ! 2)) 1" by code_simp+
  have "check_rights (handle 2 1) 1 demo3 = Some (Ok ())" by code_simp
  with revoke_kills_exactly_the_lineage [OF demo_ok(2) demo3_handles(1,3) t, of 1] t nodes demo3_lineage(1)
  show ?thesis by simp
qed

text \<open>
  C4. A closed handle is dead for ever: whatever operations follow, by whatever process, and however
  often its slot is reused, every check of the handle answers \<open>Invalid\<close>.
\<close>

theorem closed_handle_never_revives:
  assumes "cap_ok s" and "close h s = Some (Ok (), t)" and "cap_step\<^sup>*\<^sup>* t u"
  shows "check_rights h needed u = Some (Err Invalid)"
proof -
  have "cap_ok t" using close_moves [OF assms(2)] assms(1) by (simp add: moves_def)
  then have "cap_le t u" by (rule cap_run_le [OF assms(3)])
  then have "handle_slot u h = None" by (rule handle_dead_stable [OF _ close_dead [OF assms(2)]])
  then show ?thesis by (rule check_rights_invalid)
qed

theorem closed_handle_never_revives_witness:
  "\<exists>t u. close (handle 0 1) demo1 = Some (Ok (), t) \<and> create_object KMemory t = Some (Ok (handle 0 2), u) \<and>
     check_rights (handle 0 1) 1 u = Some (Err Invalid)"
proof -
  define t where "t = snd (the (close (handle 0 1) demo1))"
  define u where "u = snd (the (create_object KMemory t))"
  have c: "close (handle 0 1) demo1 = Some (Ok (), t)"
    by (simp add: t_def close_def handle_slot_def free_slot_def demo1_def checked_add_def)
  have n: "create_object KMemory t = Some (Ok (handle 0 2), u)"
    by (simp add: u_def t_def close_def handle_slot_def free_slot_def demo1_def checked_add_def
        create_object_def install_cap_def allocate_slot_def MAX_CAP_OBJECTS_def MAX_CAP_NODES_def)
  have "cap_step\<^sup>*\<^sup>* t u" by (rule r_into_rtranclp) (rule step_create [OF n])
  from closed_handle_never_revives [OF demo_ok(1) c this] c n show ?thesis by blast
qed

text \<open>
  A revoked handle is dead for ever: once a check answers \<open>Revoked\<close>, no check of that handle
  succeeds in any later table.
\<close>

theorem revoked_handle_never_revives:
  assumes "cap_ok s" and "check_rights h needed s = Some (Err Revoked)" and "cap_step\<^sup>*\<^sup>* s t"
  shows "check_rights h needed' t \<noteq> Some (Ok ())"
  by (rule revoked_stays_dead [OF assms])

theorem revoked_handle_never_revives_witness:
  "\<exists>t u. revoke (handle 1 1) demo3 = Some (Ok (), t) \<and> close (handle 1 1) t = Some (Ok (), u) \<and>
     check_rights (handle 2 1) 1 u \<noteq> Some (Ok ())"
proof -
  define t where "t = snd (the (revoke (handle 1 1) demo3))"
  define u where "u = snd (the (close (handle 1 1) t))"
  have nd: "s_node (slots demo3 ! 2) = 2" "s_node (slots demo3 ! 1) = 1"
    "rights_contains (s_rights (slots demo3 ! 2)) 1" "length (nodes demo3) = 3" by code_simp+
  have r: "revoke (handle 1 1) demo3 = Some (Ok (), t)"
    using nd by (simp add: t_def revoke_def demo3_handles Let_def del: One_nat_def)
  have st: "slots t = slots demo3" by (rule revoke_nodes(1) [OF r])
  have c: "close (handle 1 1) t = Some (Ok (), u)"
    by (simp add: u_def close_def handle_slot_def free_slot_def st demo3_def demo2_def demo1_def checked_add_def)
  have ok: "cap_ok t" using revoke_moves [OF r] demo_ok(2) by (simp add: moves_def)
  have "check_rights (handle 2 1) 1 t = Some (Err Revoked)"
    using check_after_revoke [OF demo_ok(2) demo3_handles(2,3) r, of 1] nd demo3_lineage(2)
    by simp
  from revoked_handle_never_revives [OF ok this] r c step_close [OF c] show ?thesis by blast
qed

text \<open>
  C3. Rights never grow: in every reachable table, a live handle that descends from another live
  handle names the same object and holds no right the ancestor lacks.
\<close>

theorem rights_only_shrink_along_lineage:
  assumes "cap_step\<^sup>*\<^sup>* init_core s" and "handle_slot s h = Some a" and "handle_slot s k = Some b"
    and "lineage (nodes s) (s_node a) (s_node b)"
  shows "rights_contains (s_rights b) (s_rights a) \<and> s_object a = s_object b"
  by (rule attenuated_handles [OF cap_reachable_attenuated [OF assms(1)] assms(2-4)])

theorem rights_only_shrink_along_lineage_witness:
  "rights_contains (s_rights (slots demo3 ! 1)) (s_rights (slots demo3 ! 2)) \<and>
   s_rights (slots demo3 ! 1) \<noteq> s_rights (slots demo3 ! 2)"
proof -
  have nd: "s_node (slots demo3 ! 2) = 2" "s_node (slots demo3 ! 1) = 1" by code_simp+
  have "s_rights (slots demo3 ! 1) \<noteq> s_rights (slots demo3 ! 2)" by code_simp
  with rights_only_shrink_along_lineage [OF demo3_run demo3_handles(3,2)] nd demo3_lineage(2)
  show ?thesis by (simp del: One_nat_def)
qed

text \<open>
  \<^verbatim>\<open>grant\<close> does what it says: when it succeeds, the parent handle was live, not lent and held
  the requested rights; the new handle was not valid before, names the same object with exactly the
  requested rights, hangs below the parent in the lineage, is not revoked, and every handle that was valid before is
  still valid and unchanged.
\<close>

theorem grant_functional:
  assumes "cap_ok s" and "grant h req s = Some (Ok k, t)"
  shows "\<exists>p c. handle_slot s h = Some p \<and> rights_contains (s_rights p) req \<and> \<not> s_lent p \<and>
    \<not> revoked (nodes s) (s_node p) \<and> handle_slot s k = None \<and>
    handle_slot t k = Some c \<and> s_rights c = req \<and> s_object c = s_object p \<and> \<not> s_lent c \<and>
    lineage (nodes t) (s_node c) (s_node p) \<and> \<not> revoked (nodes t) (s_node c) \<and> objects t = objects s \<and>
    (\<forall>h' x. handle_slot s h' = Some x \<longrightarrow> handle_slot t h' = Some x)"
  by (rule grant_Ok [OF assms])

theorem grant_functional_witness:
  "\<exists>c. handle_slot demo2 (handle 1 1) = Some c \<and> s_rights c = 3 \<and> handle_slot demo1 (handle 1 1) = None"
  using grant_functional [OF demo_ok(1) demo2_step] by blast

text \<open>
  Lending is one level deep: a handle made by \<^verbatim>\<open>lend\<close> can never be granted, lent or transferred
  further, in whatever later table.
\<close>

theorem lent_handle_cannot_be_passed_on:
  assumes "cap_ok s" and "lend h req s = Some (Ok k, t)" and "cap_step\<^sup>*\<^sup>* t u"
    and "r = grant k req' u \<or> r = lend k req' u \<or> r = transfer k req' u"
  shows "\<exists>e. r = Some (Err e, u) \<and> (e = NoRights \<or> e = Invalid)"
proof -
  from assms(2) obtain p where d: "derive_check h req s = Some (Ok p)"
    and i: "install_cap (Some (s_node p)) (s_object p) (rights_bitand (s_rights p) req) True s = (Ok k, t)"
    by (auto simp: lend_def split: bind_splits sum.splits)
  from install_cap_Ok(3) [OF i] obtain c where c: "handle_slot t k = Some c" "s_lent c" by simp
  have "cap_ok t" using lend_moves [OF assms(2)] assms(1) by (simp add: moves_def)
  then have "cap_le t u" by (rule cap_run_le [OF assms(3)])
  with c have "handle_slot u k = None \<or> handle_slot u k = Some c" using handle_slot_stable by blast
  then have "\<exists>e. derive_check k req' u = Some (Err e) \<and> (e = NoRights \<or> e = Invalid)"
    using c(2) by (auto simp: derive_check_def)
  with assms(4) show ?thesis by (auto simp: grant_def lend_def transfer_def)
qed

theorem lent_handle_cannot_be_passed_on_witness:
  "\<exists>k t. lend (handle 0 1) 1 demo1 = Some (Ok k, t) \<and> grant k 1 t = Some (Err NoRights, t)"
proof -
  define t where "t = snd (the (lend (handle 0 1) 1 demo1))"
  have l: "lend (handle 0 1) 1 demo1 = Some (Ok (handle 1 1), t)" unfolding t_def by code_simp
  have "grant (handle 1 1) 1 t \<noteq> Some (Err Invalid, t)" unfolding t_def by code_simp
  with lent_handle_cannot_be_passed_on [OF demo_ok(1) l rtranclp.rtrancl_refl, of _ 1] l
  show ?thesis by blast
qed

text \<open>
  \<^verbatim>\<open>transfer\<close> moves a capability out of its lineage: the source handle is dead for ever, and the
  new handle names the same object with the requested rights and descends from no other node, so no
  revocation through another handle can reach it.
\<close>

theorem transfer_leaves_lineage:
  assumes "cap_ok s" and "transfer h req s = Some (Ok k, t)"
  shows "\<exists>p c. handle_slot s h = Some p \<and> handle_slot t k = Some c \<and> s_object c = s_object p \<and>
    s_rights c = req \<and> rights_contains (s_rights p) req \<and>
    (\<forall>j. lineage (nodes t) (s_node c) j \<longleftrightarrow> j = s_node c) \<and>
    (\<forall>u needed. cap_step\<^sup>*\<^sup>* t u \<longrightarrow> check_rights h needed u = Some (Err Invalid))"
  by (rule transfer_Ok [OF assms])

theorem transfer_leaves_lineage_witness:
  "\<exists>k t. transfer (handle 2 1) 1 demo3 = Some (Ok k, t) \<and> check_rights (handle 2 1) 1 t = Some (Err Invalid)"
proof -
  define t where "t = snd (the (transfer (handle 2 1) 1 demo3))"
  have "transfer (handle 2 1) 1 demo3 = Some (Ok (handle 3 1), t)"
    by (simp add: t_def transfer_def derive_check_def handle_slot_def demo3_def demo2_def demo1_def
        is_revoked.simps install_cap_def allocate_slot_def free_slot_def checked_add_def
        rights_contains_def rights_bitand_def MAX_CAP_NODES_def MAX_CAP_SLOTS_def)
  with transfer_leaves_lineage [OF demo_ok(2) this] show ?thesis by blast
qed

text \<open>
  C5. Teardown of a process leaves nothing usable behind: the table is cleared, and every
  handle of the process and every handle derived from one of them, in whatever process, fails every
  check in every later table. This is what \<^verbatim>\<open>destroy_process_cspace\<close> does, which revokes the objects; section 5 of
  \<^verbatim>\<open>docs/architecture/RESOURCE_LIFETIME.md\<close> plans to close the handles only, so that delegations outlive the delegator.
\<close>

theorem process_teardown_is_complete:
  assumes "cap_ok s" and "destroy_process_cspace tbl s = Some (tbl', t)" and "cap_step\<^sup>*\<^sup>* t u"
    and "(a, h) \<in> set tbl" and "handle_slot s h = Some sl" and "handle_slot s k = Some sk"
    and "lineage (nodes s) (s_node sk) (s_node sl)"
  shows "tbl' = [] \<and> check_rights k needed u \<noteq> Some (Ok ()) \<and> check_rights h needed u \<noteq> Some (Ok ())"
proof -
  note eff = destroy_process_cspace_effect [OF assms(2,1)]
  have h: "h \<in> snd ` set tbl" using assms(4) by force
  have u: "cap_ok u" "cap_le t u" using eff assms(3) by (auto intro: cap.inv_run cap_run_le)
  have le: "cap_le s u" using eff u(2) cap_le_trans by blast
  have self: "lineage (nodes s) (s_node sl) (s_node sl)"
    using handle_slot_ok [OF assms(1,5)] by (simp add: lineage_self)
  have dead: "revoked (nodes u) i" if "lineage (nodes s) i (s_node sl)" for i
    using eff h assms(5) that u(2) by (auto simp: cap_le_def intro: revoked_mono)
  show ?thesis
    using eff dead_by_lineage [OF le u(1) assms(6) dead [OF assms(7)]]
      dead_by_lineage [OF le u(1) assms(5) dead [OF self]] by blast
qed

theorem process_teardown_is_complete_witness:
  "\<exists>t. destroy_process_cspace [(7, handle 1 1)] demo3 = Some ([], t) \<and>
     check_rights (handle 2 1) 1 demo3 = Some (Ok ()) \<and> check_rights (handle 2 1) 1 t \<noteq> Some (Ok ())"
proof -
  define t where "t = snd (the (destroy_process_cspace [(7, handle 1 1)] demo3))"
  have nd: "s_node (slots demo3 ! 2) = 2" "s_node (slots demo3 ! 1) = 1" by code_simp+
  have d: "destroy_process_cspace [(7, handle 1 1)] demo3 = Some ([], t)"
    by (simp add: t_def destroy_owned_def revoke_def close_def handle_slot_def free_slot_def
        demo3_def demo2_def demo1_def checked_add_def)
  have "check_rights (handle 2 1) 1 demo3 = Some (Ok ())" by code_simp
  with process_teardown_is_complete
    [OF demo_ok(2) d rtranclp.rtrancl_refl _ demo3_handles(2,3), of 7 1] nd demo3_lineage(2) d
  show ?thesis by (simp del: One_nat_def)
qed

end
