(* ===== verification/Cap_Registry.thy ===== *)
theory Cap_Registry
  imports Cap_Security
begin

section \<open>The capability registries\<close>

text \<open>
  The statics of \<^verbatim>\<open>kernel/src/cap.rs\<close> around the table: the table itself (\<^verbatim>\<open>STATE\<close>, \<open>None\<close> before
  \<^verbatim>\<open>init\<close>), the root capability, the expiry times of lent handles and the port ranges of devices. An
  operation that takes several locks in turn is a sequence of the operations of \<open>Cap_Core\<close>.
\<close>

record cap_world =
  w_state :: "core_state option"
  w_root :: "cap_handle option"
  w_expiries :: "(nat, nat \<times> nat) btree_map"
  w_pending :: nat
  w_ports :: "(nat, nat \<times> nat) btree_map"

definition empty_world :: cap_world where
  "empty_world = \<lparr>w_state = None, w_root = None, w_expiries = [], w_pending = 0, w_ports = []\<rparr>"

text \<open>\<^verbatim>\<open>lock_state().as_mut().ok_or(CapError::Invalid)?\<close> around an operation on the table.\<close>

definition with_state ::
    "'a cap_op \<Rightarrow> cap_world \<Rightarrow> ((cap_error, 'a) result \<times> cap_world) option" where
  "with_state f w =
     (case w_state w of
        None \<Rightarrow> Some (Err Invalid, w)
      | Some s \<Rightarrow> do { (r, t) \<leftarrow> f s; Some (r, w\<lparr>w_state := Some t\<rparr>) })"

definition read_state ::
    "(core_state \<Rightarrow> (cap_error, 'a) result option) \<Rightarrow> cap_world \<Rightarrow> (cap_error, 'a) result option" where
  "read_state f w = (case w_state w of None \<Rightarrow> Some (Err Invalid) | Some s \<Rightarrow> f s)"

definition init :: "cap_world \<Rightarrow> cap_world" where
  "init w = w\<lparr>w_state := Some init_core, w_ports := []\<rparr>"

definition root_cap :: "cap_world \<Rightarrow> cap_handle option" where
  "root_cap w = w_root w"

text \<open>\<^verbatim>\<open>ROOT_CAP\<close> is a \<^verbatim>\<open>Once\<close>: the first handle stays.\<close>

definition bootstrap_root :: "cap_world \<Rightarrow> ((cap_error, cap_handle) result \<times> cap_world) option" where
  "bootstrap_root w = do {
     (r, w1) \<leftarrow> with_state (create_object KProcess) w;
     case r of
       Inl e \<Rightarrow> Some (Err e, w1)
     | Inr root \<Rightarrow> do {
         (r2, w2) \<leftarrow> with_state (grant root (1 OR 2 OR 4 OR 256)) w1;
         case r2 of
           Inl e \<Rightarrow> Some (Err e, w2)
         | Inr h \<Rightarrow> Some (Ok h, if w_root w2 = None then w2\<lparr>w_root := Some h\<rparr> else w2)
       }
   }"

subsection \<open>Lending with an expiry\<close>

definition lend_with_expiry ::
    "cap_handle \<Rightarrow> rights \<Rightarrow> nat \<Rightarrow> cap_world \<Rightarrow> ((cap_error, cap_handle) result \<times> cap_world) option" where
  "lend_with_expiry parent req expiry w = do {
     (r, w1) \<leftarrow> with_state (lend parent req) w;
     case r of
       Inl e \<Rightarrow> Some (Err e, w1)
     | Inr h \<Rightarrow> Some (Ok h, w1\<lparr>w_expiries := bt_insert (h_slot h) (h_gen h, expiry) (w_expiries w1)\<rparr>)
   }"

fun revoke_all :: "cap_handle list \<Rightarrow> cap_world \<Rightarrow> (nat \<times> cap_world) option" where
  "revoke_all [] w = Some (0, w)"
| "revoke_all (h # hs) w = do {
     (r, w1) \<leftarrow> with_state (revoke h) w;
     (n, w2) \<leftarrow> revoke_all hs w1;
     Some ((if is_ok r then 1 else 0) + n, w2)
   }"

definition expired_slots :: "nat \<Rightarrow> (nat, nat \<times> nat) btree_map \<Rightarrow> nat list" where
  "expired_slots tick m = map fst (filter (\<lambda>(_, _, expiry). expiry \<le> tick) m)"

definition expired_handles :: "nat \<Rightarrow> (nat, nat \<times> nat) btree_map \<Rightarrow> cap_handle list" where
  "expired_handles tick m =
     concat (map (\<lambda>slot. case bt_get m slot of
                           None \<Rightarrow> []
                         | Some (g, _) \<Rightarrow> [\<lparr>h_slot = slot, h_gen = g\<rparr>])
       (expired_slots tick m))"

definition expire_lent_capabilities :: "nat \<Rightarrow> cap_world \<Rightarrow> (nat \<times> cap_world) option" where
  "expire_lent_capabilities tick w =
     (let m = w_expiries w;
          w1 = w\<lparr>w_expiries := fold bt_remove (expired_slots tick m) m\<rparr>
      in revoke_all (expired_handles tick m) w1)"

definition mark_lend_expiry_pending :: "nat \<Rightarrow> cap_world \<Rightarrow> cap_world" where
  "mark_lend_expiry_pending tick w = w\<lparr>w_pending := tick\<rparr>"

definition poll_pending_lend_expiries :: "cap_world \<Rightarrow> cap_world option" where
  "poll_pending_lend_expiries w =
     (let tick = w_pending w; w1 = w\<lparr>w_pending := 0\<rparr> in
      if tick \<noteq> 0 then do { (_, w2) \<leftarrow> expire_lent_capabilities tick w1; Some w2 } else Some w1)"

subsection \<open>Device port ranges\<close>

text \<open>The \<^verbatim>\<open>debug_assert_eq!\<close> on the kind is a panic branch.\<close>

definition create_device_ports ::
    "nat \<Rightarrow> nat \<Rightarrow> cap_world \<Rightarrow> ((cap_error, cap_handle) result \<times> cap_world) option" where
  "create_device_ports start end_incl w = do {
     (r, w1) \<leftarrow> with_state (create_object KDevice) w;
     case r of
       Inl e \<Rightarrow> Some (Err e, w1)
     | Inr dev \<Rightarrow> do {
         i \<leftarrow> read_state (object_identity dev) w1;
         case i of
           Inl e \<Rightarrow> Some (Err e, w1)
         | Inr (kind, idx) \<Rightarrow>
             if kind \<noteq> KDevice then None
             else with_state (grant dev (8 OR 512))
                    (w1\<lparr>w_ports := bt_insert idx (start, end_incl) (w_ports w1)\<rparr>)
       }
   }"

definition device_io_range :: "cap_handle \<Rightarrow> cap_world \<Rightarrow> (cap_error, nat \<times> nat) result option" where
  "device_io_range cap w = do {
     c \<leftarrow> read_state (check_rights cap RIGHT_IO) w;
     case c of
       Inl e \<Rightarrow> Some (Err e)
     | Inr _ \<Rightarrow> do {
         i \<leftarrow> read_state (object_identity cap) w;
         case i of
           Inl e \<Rightarrow> Some (Err e)
         | Inr (kind, idx) \<Rightarrow>
             if kind \<noteq> KDevice then Some (Err NoRights)
             else (case bt_get (w_ports w) idx of
                     None \<Rightarrow> Some (Err NoRights)
                   | Some rng \<Rightarrow> Some (Ok rng))
       }
   }"

definition port_range_allowed ::
    "cap_handle \<Rightarrow> nat \<Rightarrow> nat \<Rightarrow> cap_world \<Rightarrow> (cap_error, unit) result option" where
  "port_range_allowed cap start end_incl w = do {
     c \<leftarrow> device_io_range cap w;
     case c of
       Inl e \<Rightarrow> Some (Err e)
     | Inr (lo, hi) \<Rightarrow>
         if start < lo \<or> end_incl > hi then Some (Err NoRights) else Some (Ok ())
   }"

subsection \<open>Lemmas\<close>

definition world_ok :: "cap_world \<Rightarrow> bool" where
  "world_ok w \<longleftrightarrow> (\<forall>s. w_state w = Some s \<longrightarrow> cap_ok s) \<and> bt_ok (w_expiries w) \<and> bt_ok (w_ports w)"

lemma object_identity_Ok:
  "cap_ok s \<Longrightarrow> object_identity h s = Some (Ok (k, i)) \<longleftrightarrow>
     (\<exists>sl. handle_slot s h = Some sl \<and> \<not> revoked (nodes s) (s_node sl) \<and>
        o_valid (objects s ! s_object sl) \<and> k = o_kind (objects s ! s_object sl) \<and> i = s_object sl)"
  using handle_slot_ok [of s h]
  by (auto simp: object_identity_def handle_revoked object_valid_def split: option.splits)

lemma device_io_range_Ok:
  assumes "device_io_range h w = Some (Ok rng)" and "world_ok w"
  shows "\<exists>s sl. w_state w = Some s \<and> handle_slot s h = Some sl \<and> rights_contains (s_rights sl) RIGHT_IO \<and>
    \<not> revoked (nodes s) (s_node sl) \<and> o_kind (objects s ! s_object sl) = KDevice \<and>
    bt_get (w_ports w) (s_object sl) = Some rng"
proof -
  from assms(1) obtain s kind i where s: "w_state w = Some s" "check_rights h RIGHT_IO s = Some (Ok ())"
    "object_identity h s = Some (Ok (kind, i))" "kind = KDevice" "bt_get (w_ports w) i = Some rng"
    by (auto simp: device_io_range_def read_state_def split: bind_splits option.splits sum.splits if_splits)
  have "cap_ok s" using s(1) assms(2) by (simp add: world_ok_def)
  with s show ?thesis by (auto simp: object_identity_Ok check_rights_Ok)
qed

lemma port_range_allowed_Ok:
  assumes "world_ok w" and "port_range_allowed cap start end_incl w = Some (Ok ())"
  shows "\<exists>s sl lo hi. w_state w = Some s \<and> handle_slot s cap = Some sl \<and>
    rights_contains (s_rights sl) RIGHT_IO \<and> \<not> revoked (nodes s) (s_node sl) \<and>
    o_kind (objects s ! s_object sl) = KDevice \<and> bt_get (w_ports w) (s_object sl) = Some (lo, hi) \<and>
    {start..end_incl} \<subseteq> {lo..hi}"
proof -
  from assms(2) obtain lo hi where "device_io_range cap w = Some (Ok (lo, hi))" "lo \<le> start" "end_incl \<le> hi"
    by (auto simp: port_range_allowed_def split: bind_splits sum.splits if_splits)
  with device_io_range_Ok [OF this(1) assms(1)] show ?thesis by fastforce
qed

lemma with_state_Some:
  "with_state f w = Some (r, w') \<longleftrightarrow>
     (w_state w = None \<and> r = Err Invalid \<and> w' = w) \<or>
     (\<exists>s t. w_state w = Some s \<and> f s = Some (r, t) \<and> w' = w\<lparr>w_state := Some t\<rparr>)"
  by (auto simp: with_state_def split: option.splits bind_splits)

lemma revoke_keeps_dead:
  assumes "revoke h s = Some (r, t)" and "cap_ok s" and "cap_ok t" and "check_rights k needed s \<noteq> Some (Ok ())"
  shows "check_rights k needed t \<noteq> Some (Ok ())"
proof
  assume "check_rights k needed t = Some (Ok ())"
  then obtain sl where "handle_slot t k = Some sl" "rights_contains (s_rights sl) needed"
    "\<not> revoked (nodes t) (s_node sl)" "o_valid (objects t ! s_object sl)"
    using check_rights_Ok [OF assms(3)] by blast
  moreover from this(1) have "handle_slot s k = Some sl"
    by (simp only: handle_slot_def revoke_nodes(1) [OF assms(1)])
  moreover have "nodes_le (nodes s) (nodes t)"
    using revoke_moves [OF assms(1)] assms(2) by (simp add: moves_def cap_le_def)
  ultimately show False
    using assms(2,4) revoked_mono revoke_nodes(2) [OF assms(1)] by (auto simp: check_rights_Ok)
qed

lemma revoke_dead:
  assumes "revoke h s = Some (r, t)" and "cap_ok s"
  shows "check_rights h needed t \<noteq> Some (Ok ())"
proof (cases "handle_slot s h")
  case None
  with assms(1) show ?thesis by (auto simp: revoke_def check_rights_def)
next
  case (Some sl)
  with check_after_revoke [OF assms(2) Some Some assms(1), of needed] handle_slot_ok [OF assms(2) Some]
  show ?thesis by (simp add: lineage_self)
qed

lemma revoke_all_effect:
  assumes "revoke_all hs w = Some (n, w')" and "w_state w = Some s" and "cap_ok s"
  shows "\<exists>t. w' = w\<lparr>w_state := Some t\<rparr> \<and> cap_step\<^sup>*\<^sup>* s t \<and>
    (\<forall>h. h \<in> set hs \<or> check_rights h needed s \<noteq> Some (Ok ()) \<longrightarrow> check_rights h needed t \<noteq> Some (Ok ()))"
  using assms
proof (induction hs arbitrary: w n s)
  case Nil
  then show ?case by (auto intro: exI [of _ s])
next
  case (Cons h hs)
  from Cons.prems(1) obtain r w1 n1 where r: "with_state (revoke h) w = Some (r, w1)"
    and rest: "revoke_all hs w1 = Some (n1, w')"
    by (auto split: bind_splits)
  from r Cons.prems(2) obtain s1 where s1: "revoke h s = Some (r, s1)" "w1 = w\<lparr>w_state := Some s1\<rparr>"
    by (auto simp: with_state_Some)
  have ok1: "cap_ok s1" using revoke_moves [OF s1(1)] Cons.prems(3) by (simp add: moves_def)
  obtain t where t: "w' = w1\<lparr>w_state := Some t\<rparr>" "cap_step\<^sup>*\<^sup>* s1 t"
    "\<forall>k. k \<in> set hs \<or> check_rights k needed s1 \<noteq> Some (Ok ()) \<longrightarrow> check_rights k needed t \<noteq> Some (Ok ())"
    using Cons.IH [OF rest _ ok1] s1(2) by auto
  have "check_rights k needed t \<noteq> Some (Ok ())"
    if "k \<in> set (h # hs) \<or> check_rights k needed s \<noteq> Some (Ok ())" for k
    using that t(3) revoke_dead [OF s1(1) Cons.prems(3), of needed]
      revoke_keeps_dead [OF s1(1) Cons.prems(3) ok1, of k needed] by auto
  moreover have "cap_step\<^sup>*\<^sup>* s t"
    by (rule converse_rtranclp_into_rtranclp [OF step_revoke [OF s1(1)] t(2)])
  ultimately show ?case using t(1) s1(2) by auto
qed

lemma revoke_all_returns:
  assumes "w_state w = Some s" and "cap_ok s"
  shows "\<exists>n w'. revoke_all hs w = Some (n, w')"
  using assms
proof (induction hs arbitrary: w s)
  case (Cons h hs)
  obtain r t where t: "revoke h s = Some (r, t)" using revoke_returns [OF Cons.prems(2)] by blast
  have "cap_ok t" using revoke_moves [OF t] Cons.prems(2) by (simp add: moves_def)
  with Cons.IH [of "w\<lparr>w_state := Some t\<rparr>" t] t Cons.prems(1) show ?case
    by (auto simp: with_state_def)
qed simp

lemma set_expired_slots:
  "bt_ok m \<Longrightarrow> slot \<in> set (expired_slots tick m) \<longleftrightarrow> (\<exists>g e. map_of m slot = Some (g, e) \<and> e \<le> tick)"
  by (force simp: expired_slots_def bt_get_iff)

lemma set_expired_handles:
  "bt_ok m \<Longrightarrow> h \<in> set (expired_handles tick m) \<longleftrightarrow>
     (\<exists>e. map_of m (h_slot h) = Some (h_gen h, e) \<and> e \<le> tick)"
  by (cases h) (auto simp: expired_handles_def set_expired_slots split: option.splits)

subsection \<open>Properties\<close>

text \<open>
  \<^verbatim>\<open>expire_lent_capabilities\<close> at a tick always returns; it leaves exactly the entries whose
  expiry lies after the tick, and none of the lent handles it dropped passes a check any more.
\<close>

theorem expiry_revokes_lent_handles:
  assumes "world_ok w" and "w_state w = Some s"
  shows "\<exists>n w' t. expire_lent_capabilities tick w = Some (n, w') \<and> w_state w' = Some t \<and>
    cap_step\<^sup>*\<^sup>* s t \<and> w_ports w' = w_ports w \<and>
    (\<forall>slot. bt_get (w_expiries w') slot =
       (case bt_get (w_expiries w) slot of
          Some (g, e) \<Rightarrow> if e \<le> tick then None else Some (g, e) | None \<Rightarrow> None)) \<and>
    (\<forall>h e needed. bt_get (w_expiries w) (h_slot h) = Some (h_gen h, e) \<longrightarrow> e \<le> tick \<longrightarrow>
       check_rights h needed t \<noteq> Some (Ok ()))"
proof -
  let ?m = "w_expiries w"
  let ?w1 = "w\<lparr>w_expiries := fold bt_remove (expired_slots tick ?m) ?m\<rparr>"
  have ok: "cap_ok s" "bt_ok ?m" using assms by (auto simp: world_ok_def)
  obtain n w' where r: "revoke_all (expired_handles tick ?m) ?w1 = Some (n, w')"
    using revoke_all_returns [of ?w1 s "expired_handles tick ?m"] ok(1) assms(2) by auto
  have eff: "\<exists>t. w' = ?w1\<lparr>w_state := Some t\<rparr> \<and> cap_step\<^sup>*\<^sup>* s t \<and>
    (\<forall>h. h \<in> set (expired_handles tick ?m) \<or> check_rights h needed s \<noteq> Some (Ok ()) \<longrightarrow>
      check_rights h needed t \<noteq> Some (Ok ()))" for needed
    by (rule revoke_all_effect [OF r _ ok(1)]) (simp add: assms(2))
  then obtain t where t: "w' = ?w1\<lparr>w_state := Some t\<rparr>" "cap_step\<^sup>*\<^sup>* s t" by blast
  have dead: "h \<in> set (expired_handles tick ?m) \<Longrightarrow> check_rights h needed t \<noteq> Some (Ok ())" for h needed
    using eff [of needed] t by (auto dest!: arg_cong [where f = w_state])
  have "bt_get (w_expiries w') slot = (case bt_get ?m slot of
      Some (g, e) \<Rightarrow> if e \<le> tick then None else Some (g, e) | None \<Rightarrow> None)" for slot
    using set_expired_slots [OF ok(2), of slot tick] by (auto simp: t(1) bt.get_fold_rem split: option.splits)
  then show ?thesis
    using r t dead set_expired_handles [OF ok(2)] by (auto simp: expire_lent_capabilities_def Let_def)
qed

definition demo_world :: cap_world where
  "demo_world = \<lparr>w_state = Some demo3, w_root = None, w_expiries = [(2, 1, 50), (7, 1, 900)], w_pending = 0, w_ports = []\<rparr>"

theorem expiry_revokes_lent_handles_witness:
  "\<exists>n w' t. expire_lent_capabilities 60 demo_world = Some (n, w') \<and> w_state w' = Some t \<and>
     bt_get (w_expiries w') 7 = Some (1, 900) \<and> bt_get (w_expiries w') 2 = None \<and>
     check_rights (handle 2 1) 1 demo3 = Some (Ok ()) \<and> check_rights (handle 2 1) 1 t \<noteq> Some (Ok ())"
proof -
  have ok: "world_ok demo_world" "w_state demo_world = Some demo3"
    using demo_ok(2) by (auto simp: world_ok_def demo_world_def bt_ok_def)
  have e: "bt_get (w_expiries demo_world) 2 = Some (1, 50)" "bt_get (w_expiries demo_world) 7 = Some (1, 900)"
    by (simp_all add: demo_world_def)
  have "check_rights (handle 2 1) 1 demo3 = Some (Ok ())" by code_simp
  with expiry_revokes_lent_handles [OF ok, of 60] e show ?thesis
    by (fastforce simp del: One_nat_def)
qed

text \<open>
  A port range is granted to user code only through a live handle with the I/O right on a
  device object, and every port of the range lies in the range bound to that device.
\<close>

theorem port_access_confined:
  assumes "world_ok w" and "port_range_allowed cap start end_incl w = Some (Ok ())"
  shows "\<exists>s sl lo hi. w_state w = Some s \<and> handle_slot s cap = Some sl \<and>
    rights_contains (s_rights sl) RIGHT_IO \<and> \<not> revoked (nodes s) (s_node sl) \<and>
    o_kind (objects s ! s_object sl) = KDevice \<and> bt_get (w_ports w) (s_object sl) = Some (lo, hi) \<and>
    {start..end_incl} \<subseteq> {lo..hi}"
  by (rule port_range_allowed_Ok [OF assms])

definition device_world :: cap_world where
  "device_world = snd (the (create_device_ports 1016 1023 (init empty_world)))"

lemma device_world_eq:
  "device_world = \<lparr>w_state = Some \<lparr>slots =
       [\<lparr>s_node = 0, s_object = 0, s_rights = 0x3FF, s_gen = 1, s_free = False, s_lent = False\<rparr>,
        \<lparr>s_node = 1, s_object = 0, s_rights = 0x208, s_gen = 1, s_free = False, s_lent = False\<rparr>],
      nodes = [\<lparr>n_parent = None, n_epoch = 0\<rparr>, \<lparr>n_parent = Some 0, n_epoch = 0\<rparr>],
      objects = [\<lparr>o_kind = KDevice, o_refcount = 0, o_gen = 1, o_valid = True\<rparr>]\<rparr>,
    w_root = None, w_expiries = [], w_pending = 0, w_ports = [(0, 1016, 1023)]\<rparr>"
  by code_simp

lemma device_world_ok: "world_ok device_world"
  by (simp add: device_world_eq world_ok_def bt_ok_def cap_ok_def wf_nodes_def MAX_CAP_SLOTS_def
      MAX_CAP_NODES_def MAX_CAP_OBJECTS_def less_Suc_eq)

theorem port_access_confined_witness:
  "port_range_allowed (handle 1 1) 1017 1018 device_world = Some (Ok ()) \<and>
   (\<exists>lo hi. bt_get (w_ports device_world) 0 = Some (lo, hi) \<and> {1017..1018} \<subseteq> {lo..hi})"
proof -
  have a: "port_range_allowed (handle 1 1) 1017 1018 device_world = Some (Ok ())"
    unfolding device_world_eq
    by (simp add: port_range_allowed_def device_io_range_def read_state_def check_rights_def handle_slot_def
        is_revoked.simps object_valid_def object_identity_def rights_contains_def RIGHT_IO_def)
  from port_access_confined [OF device_world_ok a] a show ?thesis
    by (auto simp: device_world_eq handle_slot_def)
qed

text \<open>
  A device's capability reaches exactly its ports: through the handle \<^verbatim>\<open>create_device_ports\<close>
  returns, a range inside the bound ports is allowed and a range that leaves them on either side is
  refused with \<open>NoRights\<close>.
\<close>

theorem device_ports_exact:
  assumes "world_ok w" and "create_device_ports lo hi w = Some (Ok h, w')"
  shows "port_range_allowed h a b w' = Some (if a < lo \<or> b > hi then Err NoRights else Ok ())"
proof -
  from assms(2) obtain s dev s1 i t where s: "w_state w = Some s" "create_object KDevice s = Some (Ok dev, s1)"
    "object_identity dev s1 = Some (Ok (KDevice, i))" "grant dev (8 OR 512) s1 = Some (Ok h, t)"
    "w_state w' = Some t" "w_ports w' = bt_insert i (lo, hi) (w_ports w)"
    by (auto simp: create_device_ports_def with_state_Some read_state_def
        split: bind_splits sum.splits if_splits option.splits)
  have ok: "cap_ok s1" "cap_ok t"
    using create_object_moves [OF s(2)] grant_moves [OF s(4)] s(1) assms(1)
    by (auto simp: world_ok_def moves_def)
  obtain p where p: "handle_slot s1 dev = Some p" "o_valid (objects s1 ! s_object p)" "s_object p = i"
    "o_kind (objects s1 ! i) = KDevice"
    using s(3) [unfolded object_identity_Ok [OF ok(1)]] by metis
  from grant_Ok [OF ok(1) s(4)] p(1) obtain c where c: "handle_slot t h = Some c"
    "s_rights c = 8 OR 512" "s_object c = s_object p" "\<not> revoked (nodes t) (s_node c)" "objects t = objects s1"
    by auto
  have io: "rights_contains (8 OR 512) RIGHT_IO" by code_simp
  have "o_valid (objects t ! s_object c)" "s_object c = i" "o_kind (objects t ! i) = KDevice" using c p by simp_all
  with c io have "check_rights h RIGHT_IO t = Some (Ok ())" "object_identity h t = Some (Ok (KDevice, i))"
    by (simp_all add: check_rights_Ok [OF ok(2)] object_identity_Ok [OF ok(2)])
  then show ?thesis
    using s(5,6) by (auto simp: port_range_allowed_def device_io_range_def read_state_def)
qed

theorem device_ports_exact_witness:
  "port_range_allowed (handle 1 1) 1020 1023 device_world = Some (Ok ()) \<and>
   port_range_allowed (handle 1 1) 1016 1024 device_world = Some (Err NoRights)"
proof -
  have "create_device_ports 1016 1023 (init empty_world) = Some (Ok (handle 1 1), device_world)"
    unfolding device_world_def by code_simp
  moreover have "world_ok (init empty_world)"
    using cap_ok_init by (simp add: world_ok_def init_def empty_world_def)
  ultimately show ?thesis using device_ports_exact by simp
qed

end
