(* ===== verification/Io_Ports.thy ===== *)
theory Io_Ports
  imports Cap_Registry Wait_Queue
begin

section \<open>I/O port permissions\<close>

text \<open>
  The I/O permission bitmaps of \<^verbatim>\<open>kernel/src/gdt.rs\<close> (one per CPU, a set bit closes a port to ring 3),
  the cache \<^verbatim>\<open>CURRENT_IOPB_PORTS\<close> of \<^verbatim>\<open>kernel/src/task/process.rs\<close> that decides whether a context
  switch has to rewrite the bitmap, and the system call \<^verbatim>\<open>sys_ioperm\<close> of \<^verbatim>\<open>kernel/src/syscall.rs\<close>
  that opens ports for the running process.
\<close>

type_synonym io_bitmap = "8 word list"

record io_state =
  bitmaps :: "io_bitmap list"
  iopb_ports :: "nat list"

definition no_ports :: nat where "no_ports = 2 ^ 32 - 1"

definition closed_bitmap :: io_bitmap where
  "closed_bitmap = replicate 8192 255"

definition io_init :: io_state where
  "io_init = \<lparr>bitmaps = replicate MAX_CPUS closed_bitmap, iopb_ports = replicate MAX_CPUS no_ports\<rparr>"

definition open_port :: "nat \<Rightarrow> io_bitmap \<Rightarrow> io_bitmap" where
  "open_port port bm =
     (let b = port div 8 in if b < 8192 then bm[b := bm ! b AND NOT (push_bit (port mod 8) 1)] else bm)"

definition close_port :: "nat \<Rightarrow> io_bitmap \<Rightarrow> io_bitmap" where
  "close_port port bm =
     (let b = port div 8 in if b < 8192 then bm[b := bm ! b OR push_bit (port mod 8) 1] else bm)"

definition allow_port_range_for_cpu :: "nat \<Rightarrow> nat \<Rightarrow> nat \<Rightarrow> io_state \<Rightarrow> io_state" where
  "allow_port_range_for_cpu cpu start end_incl st =
     (if cpu < MAX_CPUS
      then st\<lparr>bitmaps := (bitmaps st)[cpu := fold open_port [start..<Suc end_incl] (bitmaps st ! cpu)]\<rparr> else st)"

definition deny_port_range_for_cpu :: "nat \<Rightarrow> nat \<Rightarrow> nat \<Rightarrow> io_state \<Rightarrow> io_state" where
  "deny_port_range_for_cpu cpu start end_incl st =
     (if cpu < MAX_CPUS
      then st\<lparr>bitmaps := (bitmaps st)[cpu := fold close_port [start..<Suc end_incl] (bitmaps st ! cpu)]\<rparr> else st)"

definition reset_io_bitmap_for_cpu :: "nat \<Rightarrow> io_state \<Rightarrow> io_state" where
  "reset_io_bitmap_for_cpu cpu st =
     (if cpu < MAX_CPUS then st\<lparr>bitmaps := (bitmaps st)[cpu := closed_bitmap]\<rparr> else st)"

text \<open>\<^verbatim>\<open>allow_port_range\<close> and \<^verbatim>\<open>deny_port_range\<close> always address CPU 0.\<close>

definition allow_port_range :: "nat \<Rightarrow> nat \<Rightarrow> io_state \<Rightarrow> io_state" where
  "allow_port_range start end_incl = allow_port_range_for_cpu 0 start end_incl"

definition deny_port_range :: "nat \<Rightarrow> nat \<Rightarrow> io_state \<Rightarrow> io_state" where
  "deny_port_range start end_incl = deny_port_range_for_cpu 0 start end_incl"

text \<open>\<^verbatim>\<open>start | (end << 16)\<close> on 16-bit ports; the two halves do not overlap.\<close>

definition encode_ports :: "(nat \<times> nat) option \<Rightarrow> nat" where
  "encode_ports ports = (case ports of Some (s, e) \<Rightarrow> s + e * 2 ^ 16 | None \<Rightarrow> no_ports)"

definition sync_iopb_for_process_for_cpu :: "nat \<Rightarrow> (nat \<times> nat) option \<Rightarrow> io_state \<Rightarrow> io_state" where
  "sync_iopb_for_process_for_cpu cpu ports st =
     (if cpu \<ge> MAX_CPUS then st
      else let encoded = encode_ports ports;
               prev = iopb_ports st ! cpu;
               st1 = st\<lparr>iopb_ports := (iopb_ports st)[cpu := encoded]\<rparr>
           in if prev \<noteq> encoded then
                let st2 = reset_io_bitmap_for_cpu cpu st1 in
                (case ports of Some (s, e) \<Rightarrow> allow_port_range_for_cpu cpu s e st2 | None \<Rightarrow> st2)
              else st1)"

subsection \<open>The system call\<close>

definition set_current_allowed_ports :: "nat \<Rightarrow> (nat \<times> nat) option \<Rightarrow> scheduler \<Rightarrow> scheduler" where
  "set_current_allowed_ports cpu ports s =
     (case current_for_cpu cpu s of
        None \<Rightarrow> s
      | Some pid \<Rightarrow> upd_proc pid (\<lambda>p. p\<lparr>allowed_ports := ports\<rparr>) s)"

text \<open>The first handle of the table that names a device; a check that panics or loops yields \<open>None\<close>.\<close>

fun find_device_cap :: "(nat \<times> cap_handle) list \<Rightarrow> cap_world \<Rightarrow> cap_handle option option" where
  "find_device_cap [] w = Some None"
| "find_device_cap ((_, h) # tbl) w = do {
     i \<leftarrow> read_state (object_identity h) w;
     case i of
       Inr (k, _) \<Rightarrow> if k = KDevice then Some (Some h) else find_device_cap tbl w
     | Inl _ \<Rightarrow> find_device_cap tbl w
   }"

datatype ioperm_result = IopermOk | IopermInvalid | IopermDenied

text \<open>\<open>pid\<close> is the running process, on the CPU \<open>cpu\<close>.\<close>

definition sys_ioperm ::
    "nat \<Rightarrow> nat \<Rightarrow> nat \<Rightarrow> nat \<Rightarrow> bool \<Rightarrow> cap_world \<Rightarrow> scheduler \<Rightarrow> io_state \<Rightarrow> (ioperm_result \<times> scheduler \<times> io_state) option" where
  "sys_ioperm cpu pid start_port end_port enable w s io =
     (if start_port > end_port \<or> end_port > 65535 then Some (IopermInvalid, s, io)
      else do {
        dev \<leftarrow> (case bt_get (table s) pid of None \<Rightarrow> Some None | Some p \<Rightarrow> find_device_cap (cap_table p) w);
        (case dev of
           None \<Rightarrow> Some (IopermDenied, s, io)
         | Some cap \<Rightarrow> do {
             c \<leftarrow> port_range_allowed cap start_port end_port w;
             case c of
               Inl _ \<Rightarrow> Some (IopermDenied, s, io)
             | Inr _ \<Rightarrow>
                 if enable then
                   Some (IopermOk, set_current_allowed_ports cpu (Some (start_port, end_port)) s,
                         allow_port_range start_port end_port io)
                 else
                   Some (IopermOk, set_current_allowed_ports cpu None s, deny_port_range start_port end_port io)
           })
      })"

subsection \<open>Which ports are open\<close>

definition port_open :: "io_state \<Rightarrow> nat \<Rightarrow> nat \<Rightarrow> bool" where
  "port_open st cpu port = (\<not> bit (bitmaps st ! cpu ! (port div 8)) (port mod 8))"

definition bm_open :: "io_bitmap \<Rightarrow> nat \<Rightarrow> bool" where
  "bm_open bm port = (\<not> bit (bm ! (port div 8)) (port mod 8))"

lemma bit_mask8: "bit ((2 :: 8 word) ^ j) i \<longleftrightarrow> i = j \<and> j < 8"
  by (auto simp: bit_exp_iff)

lemma same_port: "a div 8 = b div 8 \<Longrightarrow> a mod 8 = b mod (8::nat) \<longleftrightarrow> a = b"
  by (metis div_mult_mod_eq)

lemma open_port_bm:
  assumes "length bm = 8192" and "port < 65536" and "x < 65536"
  shows "bm_open (open_port x bm) port \<longleftrightarrow> port = x \<or> bm_open bm port" and "length (open_port x bm) = 8192"
proof -
  have b: "x div 8 < 8192" "port div 8 < 8192" using assms by auto
  show "bm_open (open_port x bm) port \<longleftrightarrow> port = x \<or> bm_open bm port"
    using b assms(1) same_port [of port x]
    by (auto simp: bm_open_def open_port_def Let_def nth_upd bit_and_iff bit_not_iff bit_mask8)
  show "length (open_port x bm) = 8192" using assms(1) by (simp add: open_port_def Let_def)
qed

lemma open_range_bm:
  assumes "length bm = 8192" and "port < 65536" and "\<forall>x \<in> set xs. x < 65536"
  shows "bm_open (fold open_port xs bm) port \<longleftrightarrow> port \<in> set xs \<or> bm_open bm port"
    and "length (fold open_port xs bm) = 8192"
  using assms
proof (induction xs arbitrary: bm)
  case (Cons x xs)
  { case 1
    then show ?case using Cons.IH(1) [of "open_port x bm"] open_port_bm [of bm port x] by auto }
  { case 2
    then show ?case using Cons.IH(2) [of "open_port x bm"] open_port_bm [of bm port x] by auto }
qed auto

lemma bm_open_closed: "port < 65536 \<Longrightarrow> \<not> bm_open closed_bitmap port"
proof -
  assume "port < 65536"
  then have "closed_bitmap ! (port div 8) = 255" by (simp add: closed_bitmap_def)
  moreover have "bit (255 :: 8 word) i" if "i < 8" for i
  proof -
    have "(255 :: 8 word) = mask 8" by (simp add: mask_eq_exp_minus_1)
    then show ?thesis using that by (simp only: bit_mask_iff) simp
  qed
  ultimately show ?thesis by (simp add: bm_open_def)
qed


subsection \<open>The bitmap of a CPU follows the running process\<close>

definition in_ports :: "(nat \<times> nat) option \<Rightarrow> nat \<Rightarrow> bool" where
  "in_ports ports port = (case ports of Some (s, e) \<Rightarrow> s \<le> port \<and> port \<le> e | None \<Rightarrow> False)"

text \<open>
  Ports are \<^verbatim>\<open>u16\<close>. The range \<open>(65535, 65535)\<close> has the encoding that the cache uses for \<open>None\<close>; no other two ranges share theirs.
\<close>

definition valid_ports :: "(nat \<times> nat) option \<Rightarrow> bool" where
  "valid_ports ports = (case ports of Some (s, e) \<Rightarrow> s < 65536 \<and> e < 65536 | None \<Rightarrow> True)"

definition ports_clash :: "(nat \<times> nat) option \<Rightarrow> (nat \<times> nat) option \<Rightarrow> bool" where
  "ports_clash a b \<longleftrightarrow> a = None \<and> b = Some (65535, 65535) \<or> a = Some (65535, 65535) \<and> b = None"

definition io_wf :: "io_state \<Rightarrow> bool" where
  "io_wf st \<longleftrightarrow> length (bitmaps st) = MAX_CPUS \<and> length (iopb_ports st) = MAX_CPUS \<and>
     (\<forall>bm \<in> set (bitmaps st). length bm = 8192)"

definition exactly_open :: "io_state \<Rightarrow> nat \<Rightarrow> (nat \<times> nat) option \<Rightarrow> bool" where
  "exactly_open st cpu ports \<longleftrightarrow> iopb_ports st ! cpu = encode_ports ports \<and>
     (\<forall>port < 65536. port_open st cpu port \<longleftrightarrow> in_ports ports port)"

lemma encode_Some:
  assumes "s < 65536" and "s' < 65536"
  shows "s + e * 65536 = s' + e' * 65536 \<longleftrightarrow> s = s' \<and> e = (e' :: nat)"
proof
  assume eq: "s + e * 65536 = s' + e' * 65536"
  have "(s + e * 65536) mod 65536 = s" "(s' + e' * 65536) mod 65536 = s'" using assms by simp_all
  then have "s = s'" using eq by simp
  then show "s = s' \<and> e = e'" using eq by simp
qed simp

lemma encode_None: "s < 65536 \<Longrightarrow> s + e * 65536 = 4294967295 \<longleftrightarrow> s = 65535 \<and> e = (65535 :: nat)"
  using encode_Some [of s 65535 e 65535] by simp

lemma encode_eq:
  assumes "valid_ports a" and "valid_ports b"
  shows "encode_ports a = encode_ports b \<longleftrightarrow> a = b \<or> ports_clash a b"
proof -
  have none: "encode_ports (Some (s, e)) = encode_ports None \<longleftrightarrow> s = 65535 \<and> e = 65535" if "valid_ports (Some (s, e))" for s e
    using that encode_None [of s e] by (auto simp: valid_ports_def encode_ports_def no_ports_def)
  have some: "encode_ports (Some (s, e)) = encode_ports (Some (s', e')) \<longleftrightarrow> s = s' \<and> e = e'"
    if "valid_ports (Some (s, e))" "valid_ports (Some (s', e'))" for s e s' e'
    using that encode_Some [of s s' e e'] by (simp add: valid_ports_def encode_ports_def)
  show ?thesis
    using assms none some by (cases a; cases b) (auto simp: ports_clash_def eq_commute [of "encode_ports None"])
qed

lemma port_open_bm: "cpu < length (bitmaps st) \<Longrightarrow> port_open st cpu port = bm_open (bitmaps st ! cpu) port"
  by (simp add: port_open_def bm_open_def)

lemma reset_exact:
  assumes "io_wf st" and "cpu < MAX_CPUS" and "valid_ports ports" and "port < 65536"
    and "st' = (case ports of Some (s, e) \<Rightarrow> allow_port_range_for_cpu cpu s e (reset_io_bitmap_for_cpu cpu st)
                | None \<Rightarrow> reset_io_bitmap_for_cpu cpu st)"
  shows "port_open st' cpu port \<longleftrightarrow> in_ports ports port" and "io_wf st'" and "iopb_ports st' = iopb_ports st"
proof -
  have len: "length closed_bitmap = 8192" by (simp add: closed_bitmap_def)
  have range: "\<forall>x \<in> set [s..<Suc e]. x < 65536" if "ports = Some (s, e)" for s e
    using that assms(3) by (auto simp: valid_ports_def)
  show "port_open st' cpu port \<longleftrightarrow> in_ports ports port"
    using assms(1,2,5) open_range_bm(1) [OF len assms(4) range] bm_open_closed [OF assms(4)]
    by (cases ports) (auto simp: port_open_bm io_wf_def in_ports_def allow_port_range_for_cpu_def
        reset_io_bitmap_for_cpu_def)
  show "io_wf st'"
    using assms(1,2,5) open_range_bm(2) [OF len assms(4) range] len
    by (cases ports) (auto simp: io_wf_def allow_port_range_for_cpu_def reset_io_bitmap_for_cpu_def
        dest!: set_update_subset_insert [THEN subsetD])
  show "iopb_ports st' = iopb_ports st"
    using assms(5) by (cases ports) (auto simp: allow_port_range_for_cpu_def reset_io_bitmap_for_cpu_def)
qed

lemma sync_exact:
  assumes "io_wf st" and "cpu < MAX_CPUS" and "valid_ports ports" and "valid_ports old" and "exactly_open st cpu old"
  shows "exactly_open (sync_iopb_for_process_for_cpu cpu ports st) cpu (if ports_clash ports old then old else ports)"
    and "io_wf (sync_iopb_for_process_for_cpu cpu ports st)"
proof -
  let ?st1 = "st\<lparr>iopb_ports := (iopb_ports st)[cpu := encode_ports ports]\<rparr>"
  have wf1: "io_wf ?st1" using assms(1) by (simp add: io_wf_def)
  have len: "cpu < length (iopb_ports st)" using assms(1,2) by (simp add: io_wf_def)
  have "exactly_open (sync_iopb_for_process_for_cpu cpu ports st) cpu (if ports_clash ports old then old else ports) \<and>
    io_wf (sync_iopb_for_process_for_cpu cpu ports st)"
  proof (cases "encode_ports ports = encode_ports old")
    case True
    then have "sync_iopb_for_process_for_cpu cpu ports st = ?st1"
      using assms(2,5) by (simp add: sync_iopb_for_process_for_cpu_def exactly_open_def)
    moreover have "exactly_open ?st1 cpu old"
      using True assms(5) len by (simp add: exactly_open_def port_open_def)
    moreover have "(if ports_clash ports old then old else ports) = old" using True encode_eq [OF assms(3,4)] by auto
    ultimately show ?thesis using wf1 by simp
  next
    case False
    let ?st2 = "case ports of Some (s, e) \<Rightarrow> allow_port_range_for_cpu cpu s e (reset_io_bitmap_for_cpu cpu ?st1)
                | None \<Rightarrow> reset_io_bitmap_for_cpu cpu ?st1"
    have ne: "iopb_ports st ! cpu \<noteq> encode_ports ports" using False assms(5) by (simp add: exactly_open_def)
    then have "sync_iopb_for_process_for_cpu cpu ports st = ?st2"
      using assms(2) by (simp add: sync_iopb_for_process_for_cpu_def Let_def)
    moreover have "exactly_open ?st2 cpu ports"
      using reset_exact(1) [OF wf1 assms(2,3) _ refl] reset_exact(3) [OF wf1 assms(2,3) _ refl, of 0] len
      by (simp add: exactly_open_def)
    moreover have "io_wf ?st2" using reset_exact(2) [OF wf1 assms(2,3) _ refl, of 0] by simp
    moreover have "\<not> ports_clash ports old" using False encode_eq [OF assms(3,4)] by simp
    ultimately show ?thesis by simp
  qed
  then show "exactly_open (sync_iopb_for_process_for_cpu cpu ports st) cpu (if ports_clash ports old then old else ports)"
    "io_wf (sync_iopb_for_process_for_cpu cpu ports st)" by auto
qed

lemma io_init_ok: "io_wf io_init" "cpu < MAX_CPUS \<Longrightarrow> exactly_open io_init cpu None"
proof -
  show "io_wf io_init" by (simp add: io_wf_def io_init_def closed_bitmap_def)
  assume c: "cpu < MAX_CPUS"
  then have "port_open io_init cpu port = bm_open closed_bitmap port" for port
    by (simp add: port_open_def bm_open_def io_init_def)
  with c show "exactly_open io_init cpu None"
    by (simp add: exactly_open_def in_ports_def bm_open_closed encode_ports_def) (simp add: io_init_def)
qed


subsection \<open>Properties\<close>

text \<open>
  C11. A context switch leaves exactly the ports of the next process open: when the bitmap of a CPU agreed with the cached
  range before, then after \<^verbatim>\<open>sync_iopb_for_process_for_cpu\<close> ring 3 can reach a port on this CPU if and only if it lies in the
  next process's range. The one exception is a switch between no ports and the range that is just port 65535, whose
  encodings are the same: it leaves the ports of the process before open.
\<close>

theorem switch_opens_exactly_own_ports:
  assumes "io_wf st" and "cpu < MAX_CPUS" and "valid_ports ports" and "valid_ports old" and "exactly_open st cpu old"
    and "port < 65536"
  shows "port_open (sync_iopb_for_process_for_cpu cpu ports st) cpu port \<longleftrightarrow>
    (if ports = None \<and> old = Some (65535, 65535) \<or> ports = Some (65535, 65535) \<and> old = None
     then in_ports old port else in_ports ports port)"
  using sync_exact(1) [OF assms(1-5)] assms(6) by (auto simp: exactly_open_def ports_clash_def)

theorem switch_opens_exactly_own_ports_witness:
  "port_open (sync_iopb_for_process_for_cpu 1 (Some (1016, 1023)) io_init) 1 1017 \<and>
   \<not> port_open (sync_iopb_for_process_for_cpu 1 (Some (1016, 1023)) io_init) 1 1024 \<and>
   \<not> port_open (sync_iopb_for_process_for_cpu 1 (Some (65535, 65535)) io_init) 1 65535"
proof -
  have c: "(1::nat) < MAX_CPUS" by (simp add: MAX_CPUS_def)
  have v: "valid_ports (Some (1016, 1023))" "valid_ports (Some (65535, 65535))" "valid_ports None" by (simp_all add: valid_ports_def)
  note sw = switch_opens_exactly_own_ports [OF io_init_ok(1) c _ v(3) io_init_ok(2) [OF c]]
  show ?thesis using sw [OF v(1), of 1017] sw [OF v(1), of 1024] sw [OF v(2), of 65535] by (simp add: in_ports_def)
qed

text \<open>
  In the exceptional case a port leaks: when port 65535 is open for one process and the CPU switches to a process without ports, that
  process can reach it.
\<close>

theorem last_port_leaks:
  assumes "io_wf st" and "cpu < MAX_CPUS" and "exactly_open st cpu (Some (65535, 65535))"
  shows "port_open (sync_iopb_for_process_for_cpu cpu None st) cpu 65535"
  using sync_exact(1) [OF assms(1,2) _ _ assms(3), of None]
  by (auto simp: valid_ports_def ports_clash_def exactly_open_def in_ports_def)

text \<open>Such a state is reached by switching to a process with another range first.\<close>

theorem last_port_leaks_witness:
  "port_open (fold (sync_iopb_for_process_for_cpu 1) [Some (1016, 1023), Some (65535, 65535), None] io_init) 1 65535"
proof -
  have c: "(1::nat) < MAX_CPUS" by (simp add: MAX_CPUS_def)
  have v: "valid_ports (Some (1016, 1023))" "valid_ports (Some (65535, 65535))" "valid_ports None" by (simp_all add: valid_ports_def)
  let ?s1 = "sync_iopb_for_process_for_cpu 1 (Some (1016, 1023)) io_init"
  have s1: "exactly_open ?s1 1 (Some (1016, 1023))" "io_wf ?s1"
    using sync_exact [OF io_init_ok(1) c v(1,3) io_init_ok(2) [OF c]] by (simp_all add: ports_clash_def)
  have "exactly_open (sync_iopb_for_process_for_cpu 1 (Some (65535, 65535)) ?s1) 1 (Some (65535, 65535))"
    "io_wf (sync_iopb_for_process_for_cpu 1 (Some (65535, 65535)) ?s1)"
    using sync_exact [OF s1(2) c v(2,1) s1(1)] by (simp_all add: ports_clash_def)
  from last_port_leaks [OF this(2) c this(1)] show ?thesis by simp
qed

text \<open>
  \<^verbatim>\<open>sys_ioperm\<close> opens ports only to the owner of a device: when it succeeds, the process holds a
  live device handle with the I/O right, and the whole range asked for lies in the ports bound to that
  device. When it refuses, neither the bitmap nor the process changes.
\<close>

theorem ioperm_confined:
  assumes "world_ok w" and "sys_ioperm cpu pid start_port end_port enable w s io = Some (r, s', io')"
  shows "if r = IopermOk then
      \<exists>p h st sl lo hi. bt_get (table s) pid = Some p \<and> h \<in> snd ` set (cap_table p) \<and> w_state w = Some st \<and>
        handle_slot st h = Some sl \<and> rights_contains (s_rights sl) RIGHT_IO \<and> \<not> revoked (nodes st) (s_node sl) \<and>
        o_kind (objects st ! s_object sl) = KDevice \<and> bt_get (w_ports w) (s_object sl) = Some (lo, hi) \<and>
        {start_port..end_port} \<subseteq> {lo..hi} \<and> end_port < 65536
    else s' = s \<and> io' = io"
proof (cases "r = IopermOk")
  case False
  then show ?thesis
    using assms(2) by (auto simp: sys_ioperm_def split: if_splits option.splits bind_splits sum.splits)
next
  case True
  have dev: "find_device_cap tbl w = Some (Some h) \<Longrightarrow> h \<in> snd ` set tbl" for tbl h
  proof (induction tbl)
    case (Cons e tbl)
    then show ?case by (cases e) (auto split: bind_splits sum.splits if_splits)
  qed simp
  from True assms(2) obtain p h where p: "bt_get (table s) pid = Some p" "find_device_cap (cap_table p) w = Some (Some h)"
    "port_range_allowed h start_port end_port w = Some (Ok ())" "end_port < 65536"
    by (auto simp: sys_ioperm_def split: if_splits option.splits bind_splits sum.splits)
  from port_range_allowed_Ok [OF assms(1) p(3)] dev [OF p(2)] p(1,4) True show ?thesis
    unfolding if_P [OF True] by blast
qed

definition demo_driver :: scheduler where
  "demo_driver = \<lparr>table = [(4, (new_process ''drv'')\<lparr>cap_table := [(0, handle 1 1)]\<rparr>), (5, new_process ''app'')],
     ready = [], current = (replicate MAX_CPUS None)[0 := Some 4], sleep_queue = new_queue\<rparr>"

lemma demo_ioperm:
  "sys_ioperm 0 4 1016 1023 True device_world demo_driver io_init =
     Some (IopermOk, set_current_allowed_ports 0 (Some (1016, 1023)) demo_driver, allow_port_range 1016 1023 io_init)"
  by (simp add: sys_ioperm_def demo_driver_def device_world_eq read_state_def object_identity_def handle_slot_def
      is_revoked.simps object_valid_def port_range_allowed_def device_io_range_def check_rights_def
      rights_contains_def RIGHT_IO_def)

theorem ioperm_confined_witness:
  "\<exists>p h. bt_get (table demo_driver) 4 = Some p \<and> h \<in> snd ` set (cap_table p) \<and>
     sys_ioperm 0 4 1016 1023 True device_world demo_driver io_init =
       Some (IopermOk, set_current_allowed_ports 0 (Some (1016, 1023)) demo_driver, allow_port_range 1016 1023 io_init)"
  using ioperm_confined [OF device_world_ok demo_ioperm] demo_ioperm by auto

text \<open>
  The cache is not told about \<^verbatim>\<open>sys_ioperm\<close>: when a process that was switched in without ports
  opens a range on CPU 0 and the CPU then switches to another process without ports, the cached value
  is unchanged, the bitmap is not reset, and the other process keeps the opened ports.
\<close>

theorem ioperm_leaks_ports_to_next_process:
  assumes "s \<le> e" and "e < 65536" and "port \<in> {s..e}"
  shows "port_open (sync_iopb_for_process_for_cpu 0 None (allow_port_range s e io_init)) 0 port"
proof -
  have c: "(0::nat) < MAX_CPUS" by (simp add: MAX_CPUS_def)
  let ?st = "allow_port_range s e io_init"
  have "iopb_ports ?st ! 0 = no_ports"
    using c by (simp add: allow_port_range_def allow_port_range_for_cpu_def io_init_def)
  then have "bitmaps (sync_iopb_for_process_for_cpu 0 None ?st) = bitmaps ?st"
    using c by (simp add: sync_iopb_for_process_for_cpu_def encode_ports_def)
  moreover have "bitmaps ?st ! 0 = fold open_port [s..<Suc e] closed_bitmap"
    using c by (simp add: allow_port_range_def allow_port_range_for_cpu_def io_init_def)
  moreover have "bm_open (fold open_port [s..<Suc e] closed_bitmap) port"
    using assms by (subst open_range_bm(1)) (auto simp: closed_bitmap_def)
  ultimately show ?thesis by (simp add: port_open_def bm_open_def)
qed

theorem ioperm_leaks_ports_to_next_process_witness:
  "port_open (sync_iopb_for_process_for_cpu 0 None (allow_port_range 1016 1023 io_init)) 0 1016"
  by (rule ioperm_leaks_ports_to_next_process) simp_all

end
