(* ===== verification/Scheduler.thy ===== *)
theory Scheduler
  imports Io_Ports
begin

section \<open>The scheduler\<close>

text \<open>
  The rest of \<^verbatim>\<open>kernel/src/task/process.rs\<close> that decides which process runs: the sleep queue, process
  creation, the choice of the next process and the switch, termination, signals and \<^verbatim>\<open>waitpid\<close>. The
  CPU an operation runs on and the timer's tick are arguments; the register contexts that the switch
  saves and loads are not part of the state, so \<open>schedule_internal\<close> ends where the source calls
  \<^verbatim>\<open>switch_context\<close>, and \<open>finish_switch\<close> is what runs after it.
\<close>

definition QUANTUM_TICKS :: nat where "QUANTUM_TICKS = 5"
definition MAX_PROCESSES :: nat where "MAX_PROCESSES = 64"

record kernel =
  sched :: scheduler
  earliest_sleep :: nat
  next_pid :: nat
  cpu_pids :: "nat list"
  ticks_left :: "nat list"
  preempt :: "bool list"
  sched_tick :: nat
  ticks_skipped :: nat
  io :: io_state

abbreviation ktable :: "kernel \<Rightarrow> ptable" where "ktable k \<equiv> table (sched k)"
abbreviation kready :: "kernel \<Rightarrow> nat list" where "kready k \<equiv> ready (sched k)"
abbreviation upd_k :: "nat \<Rightarrow> (process \<Rightarrow> process) \<Rightarrow> kernel \<Rightarrow> kernel" where
  "upd_k i f k \<equiv> k\<lparr>sched := upd_proc i f (sched k)\<rparr>"
abbreviation push_ready :: "nat \<Rightarrow> kernel \<Rightarrow> kernel" where
  "push_ready i k \<equiv> k\<lparr>sched := (sched k)\<lparr>ready := kready k @ [i]\<rparr>\<rparr>"
abbreviation cur_of :: "nat \<Rightarrow> kernel \<Rightarrow> nat option" where
  "cur_of cpu k \<equiv> current_for_cpu cpu (sched k)"

definition boot_kernel :: kernel where
  "boot_kernel = \<lparr>sched = uninit, earliest_sleep = U64_MAX, next_pid = 1, cpu_pids = replicate MAX_CPUS 0,
     ticks_left = replicate MAX_CPUS 0, preempt = replicate MAX_CPUS False, sched_tick = 0, ticks_skipped = 0,
     io = io_init\<rparr>"

subsection \<open>The sleep queue\<close>

definition enqueue_sleep :: "nat \<Rightarrow> nat \<Rightarrow> kernel \<Rightarrow> kernel" where
  "enqueue_sleep pid target k =
     (let s = sched k; q = sleep_queue s;
          t1 = upd pid (\<lambda>p. p\<lparr>wait_next := None, wait_prev := q_tail q, pstate := Blocked,
                              block_reason := Some (Sleep target)\<rparr>) (table s);
          (q', t2) = (case q_tail q of
             Some old_tail \<Rightarrow> (q\<lparr>q_tail := Some pid\<rparr>, upd old_tail (\<lambda>p. p\<lparr>wait_next := Some pid\<rparr>) t1)
           | None \<Rightarrow> (q\<lparr>q_head := Some pid, q_tail := Some pid\<rparr>, t1))
      in k\<lparr>sched := s\<lparr>table := t2, sleep_queue := q'\<rparr>, earliest_sleep := min (earliest_sleep k) target\<rparr>)"

definition sleep_target :: "process \<Rightarrow> nat option" where
  "sleep_target p = (case block_reason p of Some (Sleep x) \<Rightarrow> Some x | _ \<Rightarrow> None)"

partial_function (option) min_sleep :: "ptable \<Rightarrow> nat option \<Rightarrow> nat \<Rightarrow> nat option" where
  "min_sleep t cur m =
     (case cur of
        None \<Rightarrow> Some m
      | Some i \<Rightarrow>
          (case bt_get t i of
             None \<Rightarrow> Some m
           | Some p \<Rightarrow> min_sleep t (wait_next p)
               (case sleep_target p of Some x \<Rightarrow> if x < m then x else m | None \<Rightarrow> m)))"

definition recalculate_earliest_sleep :: "kernel \<Rightarrow> kernel option" where
  "recalculate_earliest_sleep k = do {
     m \<leftarrow> min_sleep (ktable k) (q_head (sleep_queue (sched k))) U64_MAX;
     Some (k\<lparr>earliest_sleep := m\<rparr>)
   }"

definition remove_sleep :: "nat \<Rightarrow> kernel \<Rightarrow> kernel option" where
  "remove_sleep pid k =
     (case bt_get (ktable k) pid of
        None \<Rightarrow> Some k
      | Some _ \<Rightarrow>
          let s = sched k; (q', t') = remove_links pid (sleep_queue s) (table s)
          in recalculate_earliest_sleep (k\<lparr>sched := s\<lparr>table := t', sleep_queue := q'\<rparr>\<rparr>))"

partial_function (option) expired_from :: "nat \<Rightarrow> ptable \<Rightarrow> nat option \<Rightarrow> bool option" where
  "expired_from tick t cur =
     (case cur of
        None \<Rightarrow> Some False
      | Some i \<Rightarrow>
          (case bt_get t i of
             None \<Rightarrow> Some False
           | Some p \<Rightarrow>
               if (case sleep_target p of Some x \<Rightarrow> x \<le> tick | None \<Rightarrow> False) then Some True
               else expired_from tick t (wait_next p)))"

definition has_expired_sleep :: "nat \<Rightarrow> kernel \<Rightarrow> bool option" where
  "has_expired_sleep tick k = expired_from tick (ktable k) (q_head (sleep_queue (sched k)))"

partial_function (option) poll_sleeping_from :: "nat \<Rightarrow> nat option \<Rightarrow> kernel \<Rightarrow> kernel option" where
  "poll_sleeping_from tick cur k =
     (case cur of
        None \<Rightarrow> Some k
      | Some i \<Rightarrow>
          (case bt_get (ktable k) i of
             None \<Rightarrow> poll_sleeping_from tick None k
           | Some p \<Rightarrow>
               if (case sleep_target p of Some x \<Rightarrow> x \<le> tick | None \<Rightarrow> False)
               then Option.bind (remove_sleep i k) (\<lambda>k1.
                 poll_sleeping_from tick (wait_next p)
                   (if bt_get (ktable k1) i = None then k1
                    else push_ready i (upd_k i (\<lambda>p. p\<lparr>pstate := Ready, block_reason := None\<rparr>) k1)))
               else poll_sleeping_from tick (wait_next p) k))"

definition poll_sleeping_processes_locked :: "nat \<Rightarrow> kernel \<Rightarrow> kernel option" where
  "poll_sleeping_processes_locked tick k = poll_sleeping_from tick (q_head (sleep_queue (sched k))) k"

subsection \<open>Table maintenance\<close>

definition set_current_for_cpu :: "nat \<Rightarrow> nat option \<Rightarrow> kernel \<Rightarrow> kernel" where
  "set_current_for_cpu cpu p k =
     (if cpu < MAX_CPUS
      then k\<lparr>sched := (sched k)\<lparr>current := (current (sched k))[cpu := p]\<rparr>,
             cpu_pids := (cpu_pids k)[cpu := case p of Some i \<Rightarrow> i | None \<Rightarrow> 0]\<rparr>
      else k)"

definition clear_current_if_matches :: "nat \<Rightarrow> kernel \<Rightarrow> kernel" where
  "clear_current_if_matches pid k =
     k\<lparr>sched := (sched k)\<lparr>current := map (\<lambda>c. if c = Some pid then None else c) (current (sched k))\<rparr>,
       cpu_pids := map (\<lambda>(c, x). if c = Some pid then 0 else x) (zip (current (sched k)) (cpu_pids k))\<rparr>"

definition exit_process :: "nat \<Rightarrow> nat \<Rightarrow> kernel \<Rightarrow> kernel" where
  "exit_process pid code =
     upd_k pid (\<lambda>p. if reaped p then p
                    else p\<lparr>pstate := Exited, exit_code := code, exited := True, reaped := True\<rparr>)"

definition crash_process :: "nat \<Rightarrow> kernel \<Rightarrow> kernel" where
  "crash_process pid =
     upd_k pid (\<lambda>p. if reaped p then p
                    else p\<lparr>pstate := Crashed, is_crashed := True, exited := True, reaped := True\<rparr>)"

definition remove_from_ready :: "nat \<Rightarrow> kernel \<Rightarrow> kernel" where
  "remove_from_ready pid k = k\<lparr>sched := (sched k)\<lparr>ready := filter (\<lambda>p. p \<noteq> pid) (kready k)\<rparr>\<rparr>"

definition purge_pid :: "nat \<Rightarrow> kernel \<Rightarrow> kernel" where
  "purge_pid pid k =
     (let k1 = clear_current_if_matches pid (remove_from_ready pid k) in
      k1\<lparr>sched := (sched k1)\<lparr>table := bt_remove pid (ktable k1)\<rparr>\<rparr>)"

definition is_exited :: "nat \<Rightarrow> kernel \<Rightarrow> bool" where
  "is_exited pid k =
     (case bt_get (ktable k) pid of
        None \<Rightarrow> True
      | Some p \<Rightarrow> exited p \<or> reaped p \<or> pstate p = Exited \<or> pstate p = Terminated)"

definition remove_process_from_ready :: "nat \<Rightarrow> kernel \<Rightarrow> kernel" where
  "remove_process_from_ready pid k = upd_k pid (\<lambda>p. p\<lparr>pstate := Blocked\<rparr>) (remove_from_ready pid k)"

definition try_charge_process_memory :: "nat \<Rightarrow> nat \<Rightarrow> kernel \<Rightarrow> (string, unit) result \<times> kernel" where
  "try_charge_process_memory pid bytes k =
     (case bt_get (ktable k) pid of
        None \<Rightarrow> (Ok (), k)
      | Some p \<Rightarrow> (case try_charge_memory bytes p of
                     Inl e \<Rightarrow> (Err e, k)
                   | Inr q \<Rightarrow> (Ok (), upd_k pid (\<lambda>_. q) k)))"

definition uncharge_process_memory :: "nat \<Rightarrow> nat \<Rightarrow> kernel \<Rightarrow> kernel" where
  "uncharge_process_memory pid bytes = upd_k pid (uncharge_memory bytes)"

definition set_process_cpu_affinity :: "nat \<Rightarrow> nat option \<Rightarrow> kernel \<Rightarrow> (string, unit) result \<times> kernel" where
  "set_process_cpu_affinity pid cpu k =
     (if (case cpu of Some c \<Rightarrow> c \<ge> MAX_CPUS | None \<Rightarrow> False) then (Err ''Invalid CPU ID for affinity'', k)
      else if bt_get (ktable k) pid = None then (Err ''Process not found'', k)
      else (Ok (), upd_k pid (\<lambda>p. p\<lparr>cpu_affinity := cpu\<rparr>) k))"

text \<open>\<^verbatim>\<open>NEXT_PID.fetch_add\<close> wraps.\<close>

definition insert_process :: "nat \<Rightarrow> string \<Rightarrow> kernel \<Rightarrow> nat \<times> kernel" where
  "insert_process cpu name k =
     (let t = ktable k;
          t1 = (if length t \<ge> MAX_PROCESSES
                then fold bt_remove (map fst (filter (\<lambda>(_, p). pstate p = Terminated \<and> reaped p) t)) t
                else t);
          i = next_pid k;
          p = (new_process name)\<lparr>p_pid := i, parent_pid := cur_of cpu k\<rparr>
      in (i, k\<lparr>next_pid := wrapping_add 64 i 1, sched := (sched k)\<lparr>table := bt_insert i p t1\<rparr>\<rparr>))"

definition create_kernel_process :: "nat \<Rightarrow> string \<Rightarrow> kernel \<Rightarrow> nat \<times> kernel" where
  "create_kernel_process cpu name k =
     (let (i, k1) = insert_process cpu name k in
      (i, push_ready i (upd_k i (\<lambda>p. p\<lparr>parent_pid := cur_of cpu k1, pstate := Ready\<rparr>) k1)))"

definition pending_commit :: "nat \<Rightarrow> kernel \<Rightarrow> kernel" where
  "pending_commit pid k =
     (if bt_get (ktable k) pid = None then k else push_ready pid (upd_k pid (\<lambda>p. p\<lparr>pstate := Ready\<rparr>) k))"

subsection \<open>The switch\<close>

definition alive :: "process \<Rightarrow> bool" where
  "alive p \<longleftrightarrow> \<not> exited p \<and> \<not> reaped p \<and> pstate p \<noteq> Terminated \<and> pstate p \<noteq> Exited"

definition elsewhere :: "nat \<Rightarrow> process \<Rightarrow> bool" where
  "elsewhere cpu p \<longleftrightarrow> (case on_cpu p of Some c \<Rightarrow> c \<noteq> cpu | None \<Rightarrow> False) \<or>
     (case cpu_affinity p of Some c \<Rightarrow> c \<noteq> cpu | None \<Rightarrow> False)"

text \<open>The scan of the run queue: at most as many attempts as it has entries.\<close>

fun pick_loop :: "nat \<Rightarrow> ptable \<Rightarrow> nat \<Rightarrow> nat list \<Rightarrow> nat option \<times> nat list" where
  "pick_loop cpu t 0 r = (None, r)"
| "pick_loop cpu t (Suc n) [] = (None, [])"
| "pick_loop cpu t (Suc n) (c # r) =
     (case bt_get t c of
        None \<Rightarrow> pick_loop cpu t n r
      | Some p \<Rightarrow>
          if \<not> alive p then pick_loop cpu t n r
          else if elsewhere cpu p then pick_loop cpu t n (r @ [c])
          else (Some c, r))"

definition hint_ok :: "nat \<Rightarrow> ptable \<Rightarrow> nat option \<Rightarrow> nat option" where
  "hint_ok cpu t hint =
     (case hint of
        None \<Rightarrow> None
      | Some target \<Rightarrow>
          (case bt_get t target of
             None \<Rightarrow> None
           | Some p \<Rightarrow>
               if \<not> exited p \<and> \<not> reaped p \<and> (pstate p = Ready \<or> pstate p = Running) \<and> \<not> elsewhere cpu p
               then Some target else None))"

definition requeue_current :: "nat \<Rightarrow> kernel \<Rightarrow> kernel" where
  "requeue_current cpu k =
     (case cur_of cpu k of
        None \<Rightarrow> k
      | Some cur \<Rightarrow>
          (case bt_get (ktable k) cur of
             None \<Rightarrow> k
           | Some p \<Rightarrow>
               if pstate p = Running \<and> \<not> exited p \<and> \<not> reaped p
               then push_ready cur (upd_k cur (\<lambda>p. p\<lparr>pstate := Ready\<rparr>) k) else k))"

definition pick_next :: "nat \<Rightarrow> nat option \<Rightarrow> kernel \<Rightarrow> nat option \<times> kernel" where
  "pick_next cpu hint k =
     (case hint_ok cpu (ktable k) hint of
        Some target \<Rightarrow> (Some target, k)
      | None \<Rightarrow>
          (case pick_loop cpu (ktable k) (length (kready k)) (kready k) of
             (r, rd) \<Rightarrow> (r, k\<lparr>sched := (sched k)\<lparr>ready := rd\<rparr>\<rparr>)))"

definition arm_quantum :: "nat \<Rightarrow> kernel \<Rightarrow> kernel" where
  "arm_quantum cpu k = k\<lparr>ticks_left := (ticks_left k)[cpu := QUANTUM_TICKS]\<rparr>"

definition sync_iopb :: "nat \<Rightarrow> (nat \<times> nat) option \<Rightarrow> kernel \<Rightarrow> kernel" where
  "sync_iopb cpu ports k = k\<lparr>io := sync_iopb_for_process_for_cpu cpu ports (io k)\<rparr>"

definition run_on :: "nat \<Rightarrow> nat \<Rightarrow> kernel \<Rightarrow> kernel" where
  "run_on cpu pid = upd_k pid (\<lambda>p. p\<lparr>pstate := Running, on_cpu := Some cpu\<rparr>)"

definition ports_of :: "nat \<Rightarrow> kernel \<Rightarrow> (nat \<times> nat) option" where
  "ports_of pid k = (case bt_get (ktable k) pid of None \<Rightarrow> None | Some p \<Rightarrow> allowed_ports p)"

datatype switch = Stay | Switch "nat option" nat

text \<open>With nothing to run and no idle process the CPU halts for ever, which is \<open>None\<close>.\<close>

definition schedule_internal :: "nat \<Rightarrow> nat \<Rightarrow> nat option \<Rightarrow> kernel \<Rightarrow> (switch \<times> kernel) option" where
  "schedule_internal cpu tick hint k0 = do {
     k1 \<leftarrow> poll_sleeping_processes_locked tick k0;
     let prev = cur_of cpu k1;
     let (nxt, k3) = pick_next cpu hint (requeue_current cpu k1);
     case nxt of
       Some pid \<Rightarrow>
         if prev = Some pid then Some (Stay, arm_quantum cpu (run_on cpu pid k3))
         else let k4 = run_on cpu pid (set_current_for_cpu cpu (Some pid) k3) in
              Some (Switch prev pid, arm_quantum cpu (sync_iopb cpu (ports_of pid k4) k4))
     | None \<Rightarrow>
         if prev = Some 0 then Some (Stay, arm_quantum cpu k3)
         else if bt_get (ktable k3) 0 = None then None
         else Some (Switch prev 0, arm_quantum cpu (run_on cpu 0 (set_current_for_cpu cpu (Some 0) k3)))
   }"

definition finish_switch :: "nat \<Rightarrow> nat option \<Rightarrow> kernel \<Rightarrow> kernel" where
  "finish_switch cpu prev k =
     (case prev of
        None \<Rightarrow> k
      | Some i \<Rightarrow> upd_k i (\<lambda>p. if on_cpu p = Some cpu \<and> cur_of cpu k \<noteq> Some i then p\<lparr>on_cpu := None\<rparr> else p) k)"

text \<open>\<open>lock_free\<close> says whether \<^verbatim>\<open>SCHEDULER.try_lock\<close> succeeds in the timer interrupt.\<close>

definition timer_tick :: "nat \<Rightarrow> nat \<Rightarrow> bool \<Rightarrow> kernel \<Rightarrow> (switch \<times> kernel) option" where
  "timer_tick cpu tick lock_free k =
     (let k1 = k\<lparr>sched_tick := wrapping_add 64 (sched_tick k) 1\<rparr> in
      if \<not> preempt k1 ! cpu then Some (Stay, k1)
      else let left = ticks_left k1 ! cpu;
               k2 = (if left > 1 then k1\<lparr>ticks_left := (ticks_left k1)[cpu := left - 1]\<rparr> else k1);
               has_waking = (tick \<ge> earliest_sleep k2)
           in if left \<le> 1 \<or> has_waking then
                if lock_free then schedule_internal cpu tick None k2
                else Some (Stay, k2\<lparr>ticks_skipped := wrapping_add 64 (ticks_skipped k2) 1\<rparr>)
              else Some (Stay, k2))"

subsection \<open>Termination, \<^verbatim>\<open>waitpid\<close> and signals\<close>

text \<open>\<^verbatim>\<open>exit_current\<close> up to the resource teardown, which runs without the scheduler's lock.\<close>

definition exit_begin :: "nat \<Rightarrow> kernel \<Rightarrow> (nat option \<times> kernel) option" where
  "exit_begin cpu k =
     (case cur_of cpu k of
        None \<Rightarrow> Some (None, k)
      | Some pid \<Rightarrow> do {
          k1 \<leftarrow> remove_sleep pid (upd_k pid (\<lambda>p. p\<lparr>pstate := Exiting, on_cpu := None\<rparr>) k);
          Some (cur_of cpu k1, k1)
        })"

text \<open>\<^verbatim>\<open>core::mem::take\<close> of the capability table, then its destruction.\<close>

definition exit_caps :: "nat \<Rightarrow> kernel \<times> core_state \<Rightarrow> (kernel \<times> core_state) option" where
  "exit_caps pid kc =
     (case kc of (k, c) \<Rightarrow> do {
        (_, c') \<leftarrow> destroy_process_cspace (case bt_get (ktable k) pid of None \<Rightarrow> [] | Some p \<Rightarrow> cap_table p) c;
        Some (upd_k pid (\<lambda>p. p\<lparr>cap_table := []\<rparr>) k, c')
      })"

text \<open>The test both \<^verbatim>\<open>exit_current\<close> and \<^verbatim>\<open>send_signal\<close> make before they wake the parent.\<close>

definition should_wake :: "nat \<Rightarrow> process \<Rightarrow> bool" where
  "should_wake child p =
     (case block_reason p of Some (WaitPid c) \<Rightarrow> c = child | _ \<Rightarrow> pstate p = Blocked)"

definition wake_parent :: "nat \<Rightarrow> nat option \<Rightarrow> kernel \<Rightarrow> kernel" where
  "wake_parent child parent k =
     (case parent of
        None \<Rightarrow> k
      | Some i \<Rightarrow>
          (case bt_get (ktable k) i of
             None \<Rightarrow> k
           | Some p \<Rightarrow>
               if should_wake child p
               then push_ready i (upd_k i (\<lambda>p. p\<lparr>pstate := Ready, block_reason := None\<rparr>) k) else k))"

text \<open>
  The last block of \<^verbatim>\<open>exit_current\<close>: the pid to report as killed, and the process the CPU continues
  with. \<^verbatim>\<open>s.table[&pid]\<close> panics for a pid that is not in the table.
\<close>

definition exit_finish :: "nat \<Rightarrow> kernel \<Rightarrow> (nat option \<times> nat \<times> kernel) option" where
  "exit_finish cpu k =
     (let (killed, k1) = (case cur_of cpu k of
            None \<Rightarrow> (None, k)
          | Some pid \<Rightarrow>
              (case bt_get (ktable k) pid of
                 None \<Rightarrow> (Some pid, k)
               | Some p \<Rightarrow>
                   (if is_user p then None else Some pid,
                    wake_parent pid (parent_pid p)
                      (upd_k pid (\<lambda>p. p\<lparr>pstate := Terminated, exited := True, on_cpu := None, allowed_ports := None\<rparr>) k))))
      in case kready k1 of
           x # rest \<Rightarrow>
             let k2 = run_on cpu x (set_current_for_cpu cpu (Some x) (k1\<lparr>sched := (sched k1)\<lparr>ready := rest\<rparr>\<rparr>));
                 k3 = arm_quantum cpu (sync_iopb cpu (ports_of x k2) k2)
             in if bt_get (ktable k3) x = None then None else Some (killed, x, k3)
         | [] \<Rightarrow>
             let k3 = sync_iopb cpu None (set_current_for_cpu cpu None k1)
             in if bt_get (ktable k3) 0 = None then None else Some (killed, 0, k3))"

datatype wait_result = WaitDone "(string, nat) result" | WaitBlock

text \<open>One round of the loop of \<^verbatim>\<open>waitpid\<close>; after \<open>WaitBlock\<close> the caller schedules and tries again.\<close>

definition waitpid_step :: "nat \<Rightarrow> nat \<Rightarrow> kernel \<Rightarrow> wait_result \<times> kernel" where
  "waitpid_step cpu child k =
     (case bt_get (ktable k) child of
        None \<Rightarrow> (WaitDone (Err ''Process not found''), k)
      | Some p \<Rightarrow>
          if pstate p = Reaped \<or> reaped p then (WaitDone (Err ''Already reaped''), k)
          else if pstate p = Terminated \<or> exited p then
            (WaitDone (Ok (exit_code p)), upd_k child (\<lambda>p. p\<lparr>pstate := Reaped, reaped := True\<rparr>) k)
          else case cur_of cpu k of
            None \<Rightarrow> (WaitBlock, k)
          | Some parent \<Rightarrow>
              (WaitBlock,
               upd_k child (\<lambda>p. if parent_pid p = None then p\<lparr>parent_pid := Some parent\<rparr> else p)
                 (upd_k parent (\<lambda>p. p\<lparr>pstate := Blocked, block_reason := Some (WaitPid child)\<rparr>) k)))"

definition SIGKILL :: nat where "SIGKILL = 9"
definition SIGCHLD :: nat where "SIGCHLD = 17"
definition SIGCONT :: nat where "SIGCONT = 18"
definition SIGSTOP :: nat where "SIGSTOP = 19"

definition sig_bit :: "nat \<Rightarrow> 32 word" where "sig_bit sig = push_bit sig 1"

definition kill_process :: "nat \<Rightarrow> process \<Rightarrow> kernel \<Rightarrow> kernel option" where
  "kill_process target p k = do {
     k1 \<leftarrow> remove_sleep target
            (upd_k target (\<lambda>p. p\<lparr>pstate := Terminated, exited := True, exit_code := 128 + SIGKILL\<rparr>) k);
     Some (case parent_pid p of
        None \<Rightarrow> k1
      | Some i \<Rightarrow>
          (case bt_get (ktable k1) i of
             None \<Rightarrow> k1
           | Some pp \<Rightarrow>
               let k2 = upd_k i (\<lambda>p. (if should_wake target p then p\<lparr>pstate := Ready, block_reason := None\<rparr> else p)
                                     \<lparr>pending_signals := pending_signals p OR sig_bit SIGCHLD\<rparr>) k1
               in if should_wake target pp then push_ready i k2 else k2))
   }"

definition send_signal :: "nat \<Rightarrow> nat \<Rightarrow> kernel \<Rightarrow> ((string, unit) result \<times> kernel) option" where
  "send_signal target sig k =
     (if sig = 0 \<or> sig > 31 then Some (Err ''Invalid signal number'', k)
      else case bt_get (ktable k) target of
        None \<Rightarrow> Some (Err ''Process not found'', k)
      | Some p \<Rightarrow>
          if pstate p = Terminated \<or> pstate p = Reaped \<or> exited p then Some (Err ''Process already terminated'', k)
          else if sig = SIGKILL then do { k1 \<leftarrow> kill_process target p k; Some (Ok (), k1) }
          else if sig = SIGSTOP then Some (Ok (), upd_k target (\<lambda>p. p\<lparr>pstate := Blocked\<rparr>) k)
          else if sig = SIGCONT then
            Some (Ok (), if pstate p = Blocked
                         then push_ready target (upd_k target (\<lambda>p. p\<lparr>pstate := Ready\<rparr>) k) else k)
          else if blocked_signals p AND sig_bit sig = 0 then
            let k1 = upd_k target (\<lambda>p. p\<lparr>pending_signals := pending_signals p OR sig_bit sig\<rparr>) k in
            Some (Ok (), if pstate p = Blocked
                         then push_ready target (upd_k target (\<lambda>p. p\<lparr>pstate := Ready\<rparr>) k1) else k1)
          else Some (Ok (), k))"

definition register_signal_handler :: "nat \<Rightarrow> nat \<Rightarrow> nat \<Rightarrow> kernel \<Rightarrow> (string, unit) result \<times> kernel" where
  "register_signal_handler cur sig rip k =
     (if sig = SIGKILL \<or> sig = SIGSTOP then (Err ''SIGKILL and SIGSTOP cannot be caught or ignored'', k)
      else if sig = 0 \<or> sig > 31 then (Err ''Invalid signal number'', k)
      else if bt_get (ktable k) cur = None then (Err ''Process not found'', k)
      else (Ok (), upd_k cur (\<lambda>p. p\<lparr>signal_handlers := bt_insert sig rip (signal_handlers p)\<rparr>) k))"

text \<open>\<open>cur\<close> is \<^verbatim>\<open>current_pid()\<close>; \<open>how\<close> is 0, 1 or 2 for block, unblock and set.\<close>

definition set_signal_mask :: "nat \<Rightarrow> nat \<Rightarrow> 32 word \<Rightarrow> kernel \<Rightarrow> (string, 32 word) result \<times> kernel" where
  "set_signal_mask cur how msk k =
     (case bt_get (ktable k) cur of
        None \<Rightarrow> (Err ''Process not found'', k)
      | Some p \<Rightarrow>
          let old = blocked_signals p;
              sane = msk AND NOT (sig_bit SIGKILL OR sig_bit SIGSTOP)
          in if how = 0 then (Ok old, upd_k cur (\<lambda>p. p\<lparr>blocked_signals := blocked_signals p OR sane\<rparr>) k)
             else if how = 1 then (Ok old, upd_k cur (\<lambda>p. p\<lparr>blocked_signals := blocked_signals p AND NOT sane\<rparr>) k)
             else if how = 2 then (Ok old, upd_k cur (\<lambda>p. p\<lparr>blocked_signals := sane\<rparr>) k)
             else (Err ''Invalid how parameter'', k))"

subsection \<open>The choice of the next process\<close>

definition eligible :: "nat \<Rightarrow> ptable \<Rightarrow> nat \<Rightarrow> bool" where
  "eligible cpu t i = (case bt_get t i of None \<Rightarrow> False | Some p \<Rightarrow> alive p \<and> \<not> elsewhere cpu p)"

definition live :: "ptable \<Rightarrow> nat \<Rightarrow> bool" where
  "live t i = (case bt_get t i of None \<Rightarrow> False | Some p \<Rightarrow> alive p)"

lemma pick_loop_rotate:
  "n \<le> length r \<Longrightarrow>
   pick_loop cpu t n r =
     (case dropWhile (\<lambda>i. \<not> eligible cpu t i) (take n r) of
        c # rest \<Rightarrow> (Some c, rest @ drop n r @ filter (live t) (takeWhile (\<lambda>i. \<not> eligible cpu t i) (take n r)))
      | [] \<Rightarrow> (None, drop n r @ filter (live t) (take n r)))"
proof (induction cpu t n r rule: pick_loop.induct)
  case (3 cpu t n c r)
  then have n: "n \<le> length r" by simp
  consider (gone) "\<not> live t c" | (away) "live t c" "\<not> eligible cpu t c" | (here) "eligible cpu t c" "live t c"
    by (auto simp: eligible_def live_def split: option.splits)
  then show ?case
  proof cases
    case gone
    then have "\<not> eligible cpu t c" by (auto simp: eligible_def live_def split: option.splits)
    moreover have "pick_loop cpu t (Suc n) (c # r) = pick_loop cpu t n r"
      using gone by (auto simp: live_def split: option.splits)
    moreover have "pick_loop cpu t n r =
      (case dropWhile (\<lambda>i. \<not> eligible cpu t i) (take n r) of
        c' # rest \<Rightarrow> (Some c', rest @ drop n r @ filter (live t) (takeWhile (\<lambda>i. \<not> eligible cpu t i) (take n r)))
      | [] \<Rightarrow> (None, drop n r @ filter (live t) (take n r)))"
      using gone 3(1,2) n by (auto simp: live_def split: option.splits)
    ultimately show ?thesis
      using gone by (cases "dropWhile (\<lambda>i. \<not> eligible cpu t i) (take n r)") (simp_all del: dropWhile_eq_Nil_conv)
  next
    case away
    then obtain p where p: "bt_get t c = Some p" "alive p" "elsewhere cpu p"
      by (auto simp: eligible_def live_def split: option.splits)
    have step: "pick_loop cpu t (Suc n) (c # r) = pick_loop cpu t n (r @ [c])" using p by simp
    have IH: "pick_loop cpu t n (r @ [c]) =
      (case dropWhile (\<lambda>i. \<not> eligible cpu t i) (take n (r @ [c])) of
        c' # rest \<Rightarrow> (Some c', rest @ drop n (r @ [c]) @ filter (live t) (takeWhile (\<lambda>i. \<not> eligible cpu t i) (take n (r @ [c]))))
      | [] \<Rightarrow> (None, drop n (r @ [c]) @ filter (live t) (take n (r @ [c]))))"
      using 3(3) p n by simp
    show ?thesis unfolding step IH using away n by (simp del: dropWhile_eq_Nil_conv split: list.splits)
  next
    case here
    then obtain p where "bt_get t c = Some p" "alive p" "\<not> elsewhere cpu p"
      by (auto simp: eligible_def split: option.splits)
    with here show ?thesis by simp
  qed
qed auto

lemma pick_loop_all:
  "pick_loop cpu t (length r) r =
     (case dropWhile (\<lambda>i. \<not> eligible cpu t i) r of
        c # rest \<Rightarrow> (Some c, rest @ filter (live t) (takeWhile (\<lambda>i. \<not> eligible cpu t i) r))
      | [] \<Rightarrow> (None, filter (live t) r))"
  by (simp add: pick_loop_rotate del: dropWhile_eq_Nil_conv split: list.splits)

lemma pick_loop_eligible: "pick_loop cpu t (length r) r = (Some c, r') \<Longrightarrow> eligible cpu t c"
  unfolding pick_loop_all
  by (auto split: list.splits simp del: dropWhile_eq_Nil_conv dest: dropWhile_Cons)

subsection \<open>What the sleep queue operations leave alone\<close>

text \<open>The part of a process that queue operations and wake-ups never touch.\<close>

definition static :: "process \<Rightarrow> process" where
  "static p = p\<lparr>wait_next := None, wait_prev := None, pstate := New, block_reason := None\<rparr>"

definition tstatics :: "ptable \<Rightarrow> nat \<Rightarrow> process option" where
  "tstatics t i = map_option static (bt_get t i)"

abbreviation statics :: "kernel \<Rightarrow> nat \<Rightarrow> process option" where
  "statics k \<equiv> tstatics (ktable k)"

lemma static_fields [simp]:
  "on_cpu (static p) = on_cpu p" "exited (static p) = exited p" "reaped (static p) = reaped p"
  "cpu_affinity (static p) = cpu_affinity p"
  by (simp_all add: static_def)

lemma static_core: "static (core p) = static p"
  by (simp add: static_def core_def)

lemma statics_cores: "cores (ktable k) = cores (ktable k') \<Longrightarrow> statics k = statics k'"
proof (rule ext)
  fix i assume "cores (ktable k) = cores (ktable k')"
  then have "map_option static (cores (ktable k) i) = map_option static (cores (ktable k') i)" by simp
  then show "statics k i = statics k' i" by (simp add: tstatics_def cores_def option.map_comp comp_def static_core)
qed

lemma statics_upd:
  "(\<And>p. static (f p) = static p) \<Longrightarrow> tstatics (upd i f t) = tstatics t"
  by (auto simp: tstatics_def map_of_upd fun_eq_iff option.map_comp comp_def)

lemma static_wake [simp]:
  "tstatics (upd i (\<lambda>p. p\<lparr>pstate := st, block_reason := b\<rparr>) t) = tstatics t"
  "tstatics (upd i (pstate_update f) t) = tstatics t"
  by (rule statics_upd, simp add: static_def)+

lemma remove_sleep_frame:
  assumes "remove_sleep i k = Some k'"
  shows "cores (ktable k') = cores (ktable k)" and "current (sched k') = current (sched k)" and "kready k' = kready k"
    and "cpu_pids k' = cpu_pids k" and "io k' = io k"
  using assms
  by (auto simp: remove_sleep_def recalculate_earliest_sleep_def Let_def dest: remove_cores
      split: option.splits prod.splits bind_splits)

definition same_cpus :: "kernel \<Rightarrow> kernel \<Rightarrow> bool" where
  "same_cpus k k' \<longleftrightarrow> statics k' = statics k \<and> current (sched k') = current (sched k) \<and> io k' = io k"

lemma same_cpus_trans: "same_cpus a b \<Longrightarrow> same_cpus b c \<Longrightarrow> same_cpus a c"
  by (simp add: same_cpus_def)

lemma poll_sleeping_same:
  assumes "poll_sleeping_from tick cur k = Some k'"
  shows "same_cpus k k'"
proof (rule poll_sleeping_from.raw_induct [where P = "\<lambda>tick cur k k'. same_cpus k k'", OF _ assms], goal_cases)
  case (1 f tick cur k k')
  show ?case
  proof (cases cur)
    case None
    with 1(2) show ?thesis by (simp add: same_cpus_def)
  next
    case (Some i)
    show ?thesis
    proof (cases "bt_get (ktable k) i")
      case None
      with 1 Some show ?thesis by simp
    next
      case p: (Some p)
      show ?thesis
      proof (cases "case sleep_target p of Some x \<Rightarrow> x \<le> tick | None \<Rightarrow> False")
        case False
        with 1 Some p show ?thesis by simp
      next
        case True
        with 1(2) Some p obtain k1 where r: "remove_sleep i k = Some k1"
          and f: "f tick (wait_next p) (if bt_get (ktable k1) i = None then k1
                    else push_ready i (upd_k i (\<lambda>p. p\<lparr>pstate := Ready, block_reason := None\<rparr>) k1)) = Some k'"
          by (auto split: bind_splits)
        let ?k2 = "if bt_get (ktable k1) i = None then k1
                    else push_ready i (upd_k i (\<lambda>p. p\<lparr>pstate := Ready, block_reason := None\<rparr>) k1)"
        have "same_cpus k k1" using remove_sleep_frame [OF r] statics_cores [OF remove_sleep_frame(1) [OF r]] by (simp add: same_cpus_def)
        moreover have "same_cpus k1 ?k2"
          by (simp add: same_cpus_def)
        moreover have "same_cpus ?k2 k'" by (rule 1(1) [OF f])
        ultimately show ?thesis using same_cpus_trans by blast
      qed
    qed
  qed
qed

subsection \<open>Two CPUs never run the same process\<close>

definition cpu_excl :: "kernel \<Rightarrow> bool" where
  "cpu_excl k \<longleftrightarrow> length (current (sched k)) = MAX_CPUS \<and>
     (\<forall>c < MAX_CPUS. \<forall>i. current (sched k) ! c = Some i \<longrightarrow> i \<noteq> 0 \<longrightarrow>
        (\<exists>p. bt_get (ktable k) i = Some p \<and> on_cpu p = Some c))"

lemma cpu_excl_statics:
  "cpu_excl k \<longleftrightarrow> length (current (sched k)) = MAX_CPUS \<and>
     (\<forall>c < MAX_CPUS. \<forall>i. current (sched k) ! c = Some i \<longrightarrow> i \<noteq> 0 \<longrightarrow>
        (\<exists>p. statics k i = Some p \<and> on_cpu p = Some c))"
proof -
  have "(\<exists>p. bt_get (ktable k) i = Some p \<and> on_cpu p = Some c) \<longleftrightarrow> (\<exists>p. statics k i = Some p \<and> on_cpu p = Some c)" for i c
    by (auto simp: tstatics_def)
  then show ?thesis by (simp add: cpu_excl_def)
qed

lemma same_cpus_excl: "same_cpus k k' \<Longrightarrow> cpu_excl k' = cpu_excl k"
  by (simp add: same_cpus_def cpu_excl_statics)

lemma requeue_same: "same_cpus k (requeue_current cpu k)"
  by (auto simp: requeue_current_def same_cpus_def split: option.splits)

lemma pick_next_facts:
  assumes "pick_next cpu hint k = (r, k')"
  shows "same_cpus k k'" and "ktable k' = ktable k"
    and "r = Some i \<Longrightarrow> \<exists>p. bt_get (ktable k) i = Some p \<and> \<not> exited p \<and> \<not> reaped p \<and> \<not> elsewhere cpu p"
proof -
  show "same_cpus k k'" "ktable k' = ktable k"
    using assms by (auto simp: pick_next_def same_cpus_def split: option.splits prod.splits)
  assume "r = Some i"
  with assms show "\<exists>p. bt_get (ktable k) i = Some p \<and> \<not> exited p \<and> \<not> reaped p \<and> \<not> elsewhere cpu p"
    by (auto simp: pick_next_def hint_ok_def eligible_def alive_def split: option.splits prod.splits if_splits
        dest!: pick_loop_eligible)
qed

lemma run_on_excl:
  assumes "cpu_excl k" and "cpu < MAX_CPUS" and "bt_get (ktable k) i = Some p" and "\<not> elsewhere cpu p"
  shows "cpu_excl (run_on cpu i (set_current_for_cpu cpu (Some i) k))"
proof -
  let ?k = "run_on cpu i (set_current_for_cpu cpu (Some i) k)"
  have len: "length (current (sched k)) = MAX_CPUS" using assms(1) by (simp add: cpu_excl_def)
  have cur: "current (sched ?k) = (current (sched k))[cpu := Some i]"
    using assms(2) by (simp add: run_on_def set_current_for_cpu_def)
  have tab: "bt_get (ktable ?k) j = (if j = i then map_option (\<lambda>p. p\<lparr>pstate := Running, on_cpu := Some cpu\<rparr>) (bt_get (ktable k) j)
      else bt_get (ktable k) j)" for j
    using assms(2) by (simp add: run_on_def set_current_for_cpu_def map_of_upd)
  have "\<exists>q. bt_get (ktable ?k) j = Some q \<and> on_cpu q = Some c"
    if c: "c < MAX_CPUS" "current (sched ?k) ! c = Some j" "j \<noteq> 0" for c j
  proof (cases "c = cpu")
    case True
    then have "j = i" using that(2) cur len assms(2) by simp
    then show ?thesis using tab assms(3) True by simp
  next
    case False
    then have "current (sched k) ! c = Some j" using that(2) cur by simp
    then obtain q where q: "bt_get (ktable k) j = Some q" "on_cpu q = Some c"
      using assms(1) c(1,3) by (auto simp: cpu_excl_def)
    then have "j \<noteq> i" using assms(3,4) False by (auto simp: elsewhere_def)
    then show ?thesis using q tab by simp
  qed
  then show ?thesis using cur len by (simp add: cpu_excl_def)
qed

lemma run_on_stay:
  assumes "cpu_excl k" and "cur_of cpu k = Some i" and "cpu < MAX_CPUS"
  shows "cpu_excl (run_on cpu i k)"
proof -
  have "\<exists>q. bt_get (ktable (run_on cpu i k)) j = Some q \<and> on_cpu q = Some c"
    if c: "c < MAX_CPUS" "current (sched (run_on cpu i k)) ! c = Some j" "j \<noteq> 0" for c j
  proof -
    from c obtain q where q: "bt_get (ktable k) j = Some q" "on_cpu q = Some c"
      using assms(1) by (auto simp: cpu_excl_def run_on_def)
    show ?thesis
    proof (cases "j = i")
      case True
      then have "on_cpu q = Some cpu"
        using assms q(1) c(3) by (auto simp: cpu_excl_def current_for_cpu_def split: if_splits)
      then show ?thesis using q True by (simp add: run_on_def map_of_upd)
    next
      case False
      then show ?thesis using q by (simp add: run_on_def map_of_upd)
    qed
  qed
  then show ?thesis using assms(1) by (simp add: cpu_excl_def run_on_def)
qed

lemma arm_excl [simp]: "cpu_excl (arm_quantum cpu k) = cpu_excl k"
  by (simp add: arm_quantum_def cpu_excl_def)

lemma sync_excl [simp]: "cpu_excl (sync_iopb cpu ports k) = cpu_excl k"
  by (simp add: sync_iopb_def cpu_excl_def)

text \<open>The four outcomes of \<open>schedule_internal\<close>; \<open>k3\<close> is the kernel once the next process is chosen.\<close>

definition may_run :: "nat \<Rightarrow> kernel \<Rightarrow> nat \<Rightarrow> bool" where
  "may_run cpu k i \<longleftrightarrow> (\<exists>p. bt_get (ktable k) i = Some p \<and> \<not> exited p \<and> \<not> reaped p \<and> \<not> elsewhere cpu p)"

lemma may_run_same: "same_cpus k k' \<Longrightarrow> may_run cpu k' i = may_run cpu k i"
proof -
  assume "same_cpus k k'"
  then have eq: "statics k' i = statics k i" by (simp add: same_cpus_def)
  have "may_run cpu k i \<longleftrightarrow> (\<exists>p. statics k i = Some p \<and> \<not> exited p \<and> \<not> reaped p \<and> \<not> elsewhere cpu p)" for k
    by (auto simp: may_run_def tstatics_def elsewhere_def)
  then show ?thesis by (simp add: eq)
qed

lemma schedule_cases:
  assumes "schedule_internal cpu tick hint k = Some (sw, k')"
  obtains (stay) k3 i where "same_cpus k k3" "may_run cpu k3 i" "cur_of cpu k = Some i"
      "sw = Stay" "k' = arm_quantum cpu (run_on cpu i k3)"
  | (switch) k3 i k4 where "same_cpus k k3" "may_run cpu k3 i" "cur_of cpu k \<noteq> Some i" "sw = Switch (cur_of cpu k) i"
      "k4 = run_on cpu i (set_current_for_cpu cpu (Some i) k3)" "k' = arm_quantum cpu (sync_iopb cpu (ports_of i k4) k4)"
  | (idle_stay) k3 where "same_cpus k k3" "cur_of cpu k = Some 0" "sw = Stay" "k' = arm_quantum cpu k3"
  | (idle) k3 where "same_cpus k k3" "cur_of cpu k \<noteq> Some 0" "sw = Switch (cur_of cpu k) 0" "bt_get (ktable k3) 0 \<noteq> None"
      "k' = arm_quantum cpu (run_on cpu 0 (set_current_for_cpu cpu (Some 0) k3))"
proof -
  from assms obtain k1 where p: "poll_sleeping_processes_locked tick k = Some k1"
    by (auto simp: schedule_internal_def split: bind_splits)
  obtain nxt k3 where n: "pick_next cpu hint (requeue_current cpu k1) = (nxt, k3)" by fastforce
  have s1: "same_cpus k k1" using p poll_sleeping_same by (auto simp: poll_sleeping_processes_locked_def)
  have s3: "same_cpus k k3"
    using s1 requeue_same pick_next_facts(1) [OF n] same_cpus_trans by blast
  have cur: "cur_of cpu k1 = cur_of cpu k" using s1 by (simp add: same_cpus_def current_for_cpu_def)
  have run: "may_run cpu k3 i" if "nxt = Some i" for i
    using pick_next_facts(2,3) [OF n] that by (simp add: may_run_def)
  note eq = assms [unfolded schedule_internal_def, simplified p n bind.bind_lunit case_prod_conv Let_def cur]
  show ?thesis
  proof (cases nxt)
    case None
    with eq s3 idle_stay idle show ?thesis by (auto split: if_splits)
  next
    case (Some i)
    with eq s3 run stay switch show ?thesis by (auto split: if_splits)
  qed
qed

lemma schedule_keeps_excl:
  assumes "cpu_excl k" and "cpu < MAX_CPUS" and "schedule_internal cpu tick hint k = Some (sw, k')"
  shows "cpu_excl k'"
  using assms(3)
proof (cases rule: schedule_cases)
  case (stay k3 i)
  then have "cpu_excl k3" "cur_of cpu k3 = Some i"
    using assms(1) assms(2) same_cpus_excl [OF stay(1)] by (simp_all add: same_cpus_def current_for_cpu_def)
  with stay run_on_stay assms(2) show ?thesis by simp
next
  case (switch k3 i k4)
  then have "cpu_excl k3" using assms(1) same_cpus_excl [OF switch(1)] by simp
  with switch run_on_excl assms(2) show ?thesis by (auto simp: may_run_def)
next
  case (idle_stay k3)
  with assms(1) same_cpus_excl [OF idle_stay(1)] show ?thesis by simp
next
  case (idle k3)
  then have ok: "cpu_excl k3" using assms(1) same_cpus_excl [OF idle(1)] by simp
  show ?thesis
    using ok assms(2) idle(5)
    by (auto simp: cpu_excl_def run_on_def set_current_for_cpu_def arm_quantum_def map_of_upd nth_upd split: if_splits)
qed

lemma finish_switch_excl:
  assumes "cpu_excl k" and "cpu < MAX_CPUS"
  shows "cpu_excl (finish_switch cpu prev k)"
proof (cases prev)
  case (Some i)
  have "\<exists>q. bt_get (ktable (finish_switch cpu prev k)) j = Some q \<and> on_cpu q = Some c"
    if c: "c < MAX_CPUS" "current (sched k) ! c = Some j" "j \<noteq> 0" for c j
  proof -
    from c obtain q where q: "bt_get (ktable k) j = Some q" "on_cpu q = Some c"
      using assms(1) by (auto simp: cpu_excl_def)
    then have "bt_get (ktable (finish_switch cpu prev k)) j =
        Some (if j = i \<and> on_cpu q = Some cpu \<and> cur_of cpu k \<noteq> Some i then q\<lparr>on_cpu := None\<rparr> else q)"
      by (auto simp: Some finish_switch_def map_of_upd)
    with q c show ?thesis by (auto simp: current_for_cpu_def)
  qed
  moreover have "current (sched (finish_switch cpu prev k)) = current (sched k)" by (simp add: Some finish_switch_def)
  ultimately show ?thesis using assms(1) by (simp add: cpu_excl_def)
qed (simp add: assms(1) finish_switch_def)

subsection \<open>Properties of the switch\<close>

text \<open>
  C8. The run queue is served round robin: the scan takes the first process of the queue that is
  alive and free to run on this CPU; the processes it passed over go to the back in their order, dead
  processes are dropped, and no live process is lost. When nothing can run here the queue keeps every
  live process in order.
\<close>

theorem run_queue_round_robin:
  "pick_loop cpu t (length r) r =
     (case dropWhile (\<lambda>i. \<not> eligible cpu t i) r of
        c # rest \<Rightarrow> (Some c, rest @ filter (live t) (takeWhile (\<lambda>i. \<not> eligible cpu t i) r))
      | [] \<Rightarrow> (None, filter (live t) r))"
  by (rule pick_loop_all)

text \<open>
  C6. Two CPUs never run the same process: when every running process is marked with the CPU it runs
  on, this stays so after any \<open>schedule_internal\<close>, on whatever CPU, with or without a hint, and
  after the clean-up that follows the switch; so no process other than idle is current on two CPUs.
\<close>

theorem schedule_keeps_cpus_exclusive:
  assumes "cpu_excl k" and "cpu < MAX_CPUS" and "schedule_internal cpu tick hint k = Some (sw, k')"
    and "k'' = k' \<or> k'' = finish_switch cpu prev k'"
  shows "cpu_excl k'' \<and>
    (\<forall>c d i. c < MAX_CPUS \<and> d < MAX_CPUS \<and> current (sched k'') ! c = Some i \<and> current (sched k'') ! d = Some i \<and> i \<noteq> 0
       \<longrightarrow> c = d)"
proof -
  have "cpu_excl k''"
    using schedule_keeps_excl [OF assms(1-3)] finish_switch_excl [OF _ assms(2)] assms(4) by blast
  moreover from this have "c = d"
    if "c < MAX_CPUS" "d < MAX_CPUS" "current (sched k'') ! c = Some i" "current (sched k'') ! d = Some i" "i \<noteq> 0" for c d i
    using that unfolding cpu_excl_def by (metis option.inject)
  ultimately show ?thesis by blast
qed

text \<open>
  The example: process 1 runs on CPU 0; process 3 was just switched out on CPU 1, where process 4 is
  current, and its context is not saved yet; process 2 is ready.
\<close>

definition demo_kernel :: kernel where
  "demo_kernel = boot_kernel\<lparr>next_pid := 5, sched :=
     \<lparr>table = [(0, new_process ''idle''),
        (1, (new_process ''a'')\<lparr>pstate := Running, on_cpu := Some 0\<rparr>),
        (2, (new_process ''b'')\<lparr>pstate := Ready\<rparr>),
        (3, (new_process ''c'')\<lparr>pstate := Ready, on_cpu := Some 1\<rparr>),
        (4, (new_process ''d'')\<lparr>pstate := Running, on_cpu := Some 1\<rparr>)],
      ready = [3, 2], current = [Some 1, Some 4, None, None, None, None, None, None], sleep_queue = new_queue\<rparr>\<rparr>"

lemma demo_kernel_excl: "cpu_excl demo_kernel"
  by (auto simp: cpu_excl_def demo_kernel_def MAX_CPUS_def less_Suc_eq numeral_eq_Suc)

lemma demo_switch: "\<exists>k'. schedule_internal 0 10 None demo_kernel = Some (Switch (Some 1) 2, k')"
  by (simp add: schedule_internal_def poll_sleeping_processes_locked_def poll_sleeping_from.simps demo_kernel_def
      new_queue_def requeue_current_def current_for_cpu_def MAX_CPUS_def pick_next_def hint_ok_def upd_def
      new_process_def alive_def elsewhere_def numeral_eq_Suc Let_def)

theorem schedule_keeps_cpus_exclusive_witness:
  "\<exists>k'. schedule_internal 0 10 None demo_kernel = Some (Switch (Some 1) 2, k') \<and> cpu_excl (finish_switch 0 (Some 1) k')"
proof -
  obtain k' where k': "schedule_internal 0 10 None demo_kernel = Some (Switch (Some 1) 2, k')" using demo_switch by blast
  have "(0::nat) < MAX_CPUS" by (simp add: MAX_CPUS_def)
  from schedule_keeps_cpus_exclusive [OF demo_kernel_excl this k', of "finish_switch 0 (Some 1) k'" "Some 1"] k'
  show ?thesis by blast
qed



text \<open>
  \<^verbatim>\<open>exit_current\<close> makes none of these checks: it continues with the front of the run queue even
  when another CPU is still executing that process (its context is not saved yet) or when it was
  killed while it waited there.
\<close>

theorem exit_resumes_unchecked:
  assumes "cur_of cpu k = None" and "kready k = x # rest" and "bt_get (ktable k) x = Some p"
  shows "\<exists>k'. exit_finish cpu k = Some (None, x, k') \<and> (cpu < MAX_CPUS \<and> length (current (sched k)) = MAX_CPUS \<longrightarrow> cur_of cpu k' = Some x)"
  using assms
  by (auto simp: exit_finish_def run_on_def set_current_for_cpu_def arm_quantum_def sync_iopb_def map_of_upd
      current_for_cpu_def Let_def)

theorem exit_resumes_unchecked_witness:
  "\<exists>k' p. exit_finish 2 demo_kernel = Some (None, 3, k') \<and> cur_of 2 k' = Some 3 \<and>
     bt_get (ktable demo_kernel) 3 = Some p \<and> on_cpu p = Some 1"
proof -
  have h: "cur_of 2 demo_kernel = None" "kready demo_kernel = 3 # [2]"
    "bt_get (ktable demo_kernel) 3 = Some ((new_process ''c'')\<lparr>pstate := Ready, on_cpu := Some 1\<rparr>)"
    "(2::nat) < MAX_CPUS" "length (current (sched demo_kernel)) = MAX_CPUS"
    by (simp_all add: demo_kernel_def current_for_cpu_def MAX_CPUS_def)
  from exit_resumes_unchecked [OF h(1-3)] h show ?thesis by fastforce
qed

subsection \<open>Sleeping\<close>

definition targets :: "ptable \<Rightarrow> nat set \<Rightarrow> nat set" where
  "targets t A = {x. \<exists>i \<in> A. \<exists>p. bt_get t i = Some p \<and> sleep_target p = Some x}"

lemma targets_insert:
  "bt_get t i = Some p \<Longrightarrow>
   targets t (insert i A) = (case sleep_target p of Some x \<Rightarrow> insert x (targets t A) | None \<Rightarrow> targets t A)"
  by (auto simp: targets_def split: option.splits)

lemma targets_finite: "finite A \<Longrightarrow> finite (targets t A)"
  by (rule finite_subset [of _ "(\<lambda>i. the (sleep_target (the (bt_get t i)))) ` A"]) (force simp: targets_def)+

lemma min_sleep_spec:
  "links t p xs None \<Longrightarrow> min_sleep t (first_or xs None) m = Some (Min (insert m (targets t (set xs))))"
proof (induction xs arbitrary: p m)
  case Nil
  then show ?case by (subst min_sleep.simps) (simp add: targets_def)
next
  case (Cons x xs)
  then obtain pr where x: "bt_get t x = Some pr" "wait_next pr = first_or xs None" and l: "links t (Some x) xs None"
    by (auto simp: ptrs_get)
  have fin: "finite (targets t (set xs))" by (simp add: targets_finite)
  show ?case
  proof (cases "sleep_target pr")
    case None
    then show ?thesis
      using x Cons.IH [OF l, of m] targets_insert [OF x(1), of "set xs"] by (subst min_sleep.simps) simp
  next
    case (Some a)
    have "min_sleep t (first_or (x # xs) None) m = min_sleep t (first_or xs None) (min a m)"
      using x Some by (subst min_sleep.simps) (simp add: min_def not_less le_less)
    also have "\<dots> = Some (Min (insert (min a m) (targets t (set xs))))" by (rule Cons.IH [OF l])
    also have "Min (insert (min a m) (targets t (set xs))) = Min (insert m (insert a (targets t (set xs))))"
      using fin by (cases "targets t (set xs) = {}") (auto simp: min.assoc min.commute min.left_commute)
    finally show ?thesis using targets_insert [OF x(1), of "set xs"] Some by simp
  qed
qed

definition expired :: "nat \<Rightarrow> ptable \<Rightarrow> nat \<Rightarrow> bool" where
  "expired tick t i = (case bt_get t i of
     None \<Rightarrow> False
   | Some p \<Rightarrow> (case sleep_target p of Some x \<Rightarrow> x \<le> tick | None \<Rightarrow> False))"

lemma sleep_target_core [simp]: "sleep_target (core p) = sleep_target p"
  by (simp add: sleep_target_def)

lemma expired_cores:
  "expired tick t i = (case cores t i of None \<Rightarrow> False | Some p \<Rightarrow> (case sleep_target p of Some x \<Rightarrow> x \<le> tick | None \<Rightarrow> False))"
  by (simp add: expired_def cores_def split: option.split)

lemma targets_cores: "targets t A = {x. \<exists>i \<in> A. \<exists>p. cores t i = Some p \<and> sleep_target p = Some x}"
  by (force simp: targets_def cores_def)

text \<open>The sleepers in queue order, and \<^verbatim>\<open>EARLIEST_SLEEP_TICK\<close> is not later than any of their targets.\<close>

definition sleepers :: "kernel \<Rightarrow> nat list \<Rightarrow> bool" where
  "sleepers k xs \<longleftrightarrow> queue_repr (sleep_queue (sched k)) (ktable k) xs \<and>
     (\<forall>x \<in> targets (ktable k) (set xs). earliest_sleep k \<le> x)"

lemma remove_sleep_repr:
  assumes "queue_repr (sleep_queue (sched k)) (ktable k) (as @ x # bs)"
  shows "\<exists>k'. remove_sleep x k = Some k' \<and> sleepers k' (as @ bs)"
proof -
  obtain q' t' where r: "remove_links x (sleep_queue (sched k)) (ktable k) = (q', t')" by fastforce
  note new = remove_repr(1) [OF assms r]
  have x: "bt_get (ktable k) x \<noteq> None" using assms links_in by (fastforce simp: queue_repr_def)
  let ?k1 = "k\<lparr>sched := (sched k)\<lparr>table := t', sleep_queue := q'\<rparr>\<rparr>"
  let ?m = "Min (insert U64_MAX (targets t' (set (as @ bs))))"
  have "min_sleep t' (q_head q') U64_MAX = Some ?m"
    using new min_sleep_spec [of t' None "as @ bs" U64_MAX] by (simp add: queue_repr_def)
  then have "remove_sleep x k = Some (?k1\<lparr>earliest_sleep := ?m\<rparr>)"
    using x r by (auto simp: remove_sleep_def recalculate_earliest_sleep_def)
  moreover have "sleepers (?k1\<lparr>earliest_sleep := ?m\<rparr>) (as @ bs)"
    using new targets_finite [of "set (as @ bs)" t'] by (simp add: sleepers_def)
  ultimately show ?thesis by blast
qed

definition made_ready :: "nat set \<Rightarrow> ptable \<Rightarrow> nat \<Rightarrow> process option" where
  "made_ready W t i = (if i \<in> W then map_option (\<lambda>p. p\<lparr>pstate := Ready, block_reason := None\<rparr>) (cores t i) else cores t i)"

lemma cores_made_ready:
  "cores (upd i (\<lambda>p. p\<lparr>pstate := Ready, block_reason := None\<rparr>) t) = made_ready {i} t"
proof (rule ext)
  fix j
  show "cores (upd i (\<lambda>p. p\<lparr>pstate := Ready, block_reason := None\<rparr>) t) j = made_ready {i} t j"
    by (cases "bt_get t i") (simp_all add: cores_upd made_ready_def cores_def core_def)
qed

lemma ptrs_ready: "ptrs (upd i (\<lambda>p. p\<lparr>pstate := st, block_reason := b\<rparr>) t) = ptrs t"
  by (auto simp: ptrs_upd fun_eq_iff ptrs_def)

lemma expired_cong: "cores t i = cores t' i \<Longrightarrow> expired tick t i = expired tick t' i"
  by (simp add: expired_cores)

lemma poll_sleeping_spec:
  assumes "sleepers k (as @ ys)"
  shows "\<exists>k'. poll_sleeping_from tick (first_or ys None) k = Some k' \<and>
    sleepers k' (as @ filter (\<lambda>i. \<not> expired tick (ktable k) i) ys) \<and>
    kready k' = kready k @ filter (expired tick (ktable k)) ys \<and>
    cores (ktable k') = made_ready (set (filter (expired tick (ktable k)) ys)) (ktable k)"
  using assms
proof (induction ys arbitrary: as k)
  case Nil
  then show ?case by (subst poll_sleeping_from.simps) (simp add: made_ready_def fun_eq_iff)
next
  case (Cons y ys)
  have rep: "queue_repr (sleep_queue (sched k)) (ktable k) (as @ y # ys)" using Cons.prems by (simp add: sleepers_def)
  then obtain p where p: "bt_get (ktable k) y = Some p" "wait_next p = first_or ys None"
    by (auto simp: queue_repr_def links_append ptrs_get)
  show ?case
  proof (cases "expired tick (ktable k) y")
    case False
    then have ne: "\<not> (case sleep_target p of Some x \<Rightarrow> x \<le> tick | None \<Rightarrow> False)" using p by (simp add: expired_def)
    have "poll_sleeping_from tick (first_or (y # ys) None) k = poll_sleeping_from tick (first_or ys None) k"
      using p ne by (subst poll_sleeping_from.simps) simp
    with Cons.IH [of k "as @ [y]"] Cons.prems False show ?thesis by simp
  next
    case True
    then have ex: "case sleep_target p of Some x \<Rightarrow> x \<le> tick | None \<Rightarrow> False" using p by (simp add: expired_def)
    obtain k1 where r: "remove_sleep y k = Some k1" and s1: "sleepers k1 (as @ ys)"
      using remove_sleep_repr [OF rep] by blast
    note fr = remove_sleep_frame [OF r]
    obtain y1 where y1: "bt_get (ktable k1) y = Some y1" using fun_cong [OF fr(1), of y] p(1) by (auto simp: cores_def)
    let ?k2 = "push_ready y (upd_k y (\<lambda>p. p\<lparr>pstate := Ready, block_reason := None\<rparr>) k1)"
    have d: "y \<notin> set (as @ ys)" using rep by (auto simp: queue_repr_def)
    have c2': "cores (upd y (\<lambda>p. p\<lparr>pstate := Ready, block_reason := None\<rparr>) (ktable k1)) = made_ready {y} (ktable k)"
      using fr(1) by (simp add: cores_made_ready made_ready_def fun_eq_iff)
    then have c2: "cores (ktable ?k2) = made_ready {y} (ktable k)" by simp
    have same: "cores (ktable ?k2) i = cores (ktable k) i" if "i \<noteq> y" for i
      using c2 that by (simp add: made_ready_def)
    have s2: "sleepers ?k2 (as @ ys)"
    proof -
      have "targets (ktable ?k2) (set (as @ ys)) = targets (ktable k1) (set (as @ ys))"
        unfolding targets_cores using same d fr(1) by (metis (no_types, lifting))
      moreover have "queue_repr (sleep_queue (sched k1)) (ktable ?k2) (as @ ys)"
        using s1 repr_ptrs [of "ktable ?k2" "ktable k1"] by (simp add: sleepers_def ptrs_ready)
      ultimately show ?thesis using s1 by (simp add: sleepers_def)
    qed
    have ex2: "expired tick (ktable ?k2) i = expired tick (ktable k) i" if "i \<in> set ys" for i
      using that d by (intro expired_cong same) auto
    have step: "poll_sleeping_from tick (first_or (y # ys) None) k = poll_sleeping_from tick (first_or ys None) ?k2"
      using p ex r y1 by (subst poll_sleeping_from.simps) simp
    obtain k' where k': "poll_sleeping_from tick (first_or ys None) ?k2 = Some k'"
      "sleepers k' (as @ filter (\<lambda>i. \<not> expired tick (ktable ?k2) i) ys)"
      "kready k' = kready ?k2 @ filter (expired tick (ktable ?k2)) ys"
      "cores (ktable k') = made_ready (set (filter (expired tick (ktable ?k2)) ys)) (ktable ?k2)"
      using Cons.IH [OF s2] by blast
    have f: "filter (\<lambda>i. \<not> expired tick (ktable ?k2) i) ys = filter (\<lambda>i. \<not> expired tick (ktable k) i) ys"
      "filter (expired tick (ktable ?k2)) ys = filter (expired tick (ktable k)) ys"
      using ex2 by (simp_all cong: filter_cong)
    have "cores (ktable k') = made_ready (set (filter (expired tick (ktable k)) (y # ys))) (ktable k)"
      unfolding k'(4) f by (rule ext) (use True d in \<open>auto simp: made_ready_def c2'\<close>)
    then show ?thesis using step k'(1-3) f fr(3) True by simp
  qed
qed

lemma enqueue_sleep_repr:
  assumes "sleepers k xs" and "i \<notin> set xs" and "bt_get (ktable k) i \<noteq> None"
  shows "sleepers (enqueue_sleep i target k) (xs @ [i])"
proof -
  let ?f = "\<lambda>p. p\<lparr>pstate := Blocked, block_reason := Some (Sleep target)\<rparr>"
  obtain q' t' where e: "enqueue_links i (sleep_queue (sched k)) (upd i ?f (ktable k)) = (q', t')" by fastforce
  have rep: "queue_repr (sleep_queue (sched k)) (upd i ?f (ktable k)) xs"
    using assms(1) repr_ptrs [of "upd i ?f (ktable k)" "ktable k"] by (simp add: sleepers_def ptrs_ready)
  have dom: "bt_get (upd i ?f (ktable k)) i \<noteq> None" using assms(3) by (simp add: map_of_upd)
  note new = enqueue_repr [OF rep assms(2) dom e]
  let ?k = "enqueue_sleep i target k"
  have tab: "bt_get (ktable ?k) j = bt_get t' j" for j
    using e by (cases "bt_get (ktable k) j")
      (auto simp: enqueue_sleep_def enqueue_links_def Let_def map_of_upd option.map_comp comp_def split: option.splits)
  have q: "sleep_queue (sched ?k) = q'" "earliest_sleep ?k = min (earliest_sleep k) target"
    using e by (auto simp: enqueue_sleep_def enqueue_links_def Let_def split: option.splits)
  have "ptrs (ktable ?k) = ptrs t'" by (simp add: ptrs_def fun_eq_iff tab)
  then have rep': "queue_repr q' (ktable ?k) (xs @ [i])" using new repr_ptrs by blast
  have c: "cores (ktable ?k) = cores (upd i ?f (ktable k))" using enqueue_cores [OF e] by (simp add: cores_def fun_eq_iff tab)
  have "earliest_sleep ?k \<le> x" if "x \<in> targets (ktable ?k) (set (xs @ [i]))" for x
  proof -
    from that obtain j p where j: "j \<in> set (xs @ [i])" "cores (upd i ?f (ktable k)) j = Some p" "sleep_target p = Some x"
      by (auto simp: targets_cores c)
    show ?thesis
    proof (cases "j = i")
      case True
      with j(2,3) have "x = target" by (auto simp: cores_upd sleep_target_def)
      then show ?thesis by (simp add: q)
    next
      case False
      with j have "x \<in> targets (ktable k) (set xs)" by (auto simp: targets_cores cores_upd)
      with assms(1) have "earliest_sleep k \<le> x" by (simp add: sleepers_def)
      then show ?thesis by (simp add: q)
    qed
  qed
  with rep' q show ?thesis by (simp add: sleepers_def)
qed

text \<open>
  Sleepers wake exactly when their time has come: on a well-formed sleep queue the poll always
  returns; it makes Ready, and puts on the run queue in queue order, exactly the sleepers whose target
  is not after the tick; the others stay asleep in their order, and \<^verbatim>\<open>EARLIEST_SLEEP_TICK\<close> never
  exceeds the target of one that still sleeps.
\<close>

theorem poll_wakes_exactly_expired:
  assumes "sleepers k xs"
  shows "\<exists>k'. poll_sleeping_processes_locked tick k = Some k' \<and>
    sleepers k' (filter (\<lambda>i. \<not> expired tick (ktable k) i) xs) \<and>
    kready k' = kready k @ filter (expired tick (ktable k)) xs \<and>
    cores (ktable k') = made_ready (set (filter (expired tick (ktable k)) xs)) (ktable k)"
proof -
  have "q_head (sleep_queue (sched k)) = first_or xs None" using assms by (simp add: sleepers_def queue_repr_def)
  then show ?thesis
    using poll_sleeping_spec [of k "[]" xs tick] assms by (simp add: poll_sleeping_processes_locked_def)
qed

definition demo_sleepy :: kernel where
  "demo_sleepy = boot_kernel\<lparr>earliest_sleep := 40, sched :=
     \<lparr>table = [(1, (new_process ''a'')\<lparr>pstate := Blocked, block_reason := Some (Sleep 40), wait_next := Some 2\<rparr>),
        (2, (new_process ''b'')\<lparr>pstate := Blocked, block_reason := Some (Sleep 90), wait_prev := Some 1\<rparr>)],
      ready = [7], current = replicate MAX_CPUS None, sleep_queue = \<lparr>q_head = Some 1, q_tail = Some 2\<rparr>\<rparr>\<rparr>"

lemma demo_sleepy_ok: "sleepers demo_sleepy [1, 2]"
  by (auto simp: sleepers_def demo_sleepy_def queue_repr_def ptrs_def new_process_def first_or_def last_or_def
      targets_def sleep_target_def split: if_splits)

theorem poll_wakes_exactly_expired_witness:
  "\<exists>k'. poll_sleeping_processes_locked 50 demo_sleepy = Some k' \<and> kready k' = [7, 1] \<and> sleepers k' [2]"
proof -
  have e: "expired 50 (ktable demo_sleepy) 1" "\<not> expired 50 (ktable demo_sleepy) 2" "kready demo_sleepy = [7]"
    by (simp_all add: expired_def demo_sleepy_def sleep_target_def)
  from poll_wakes_exactly_expired [OF demo_sleepy_ok, of 50] e show ?thesis by auto
qed

subsection \<open>Signals and exit status\<close>

lemma remove_links_clears:
  assumes "remove_links x q t = (q', t')" and "bt_get t x = Some p" and "wait_prev p \<noteq> Some x" and "wait_next p \<noteq> Some x"
  shows "ptrs t' x = Some (None, None)"
  using assms by (auto simp: remove_links_def Let_def ptrs_upd map_of_upd split: option.splits if_splits)

lemma remove_sleep_clears:
  assumes "remove_sleep x k = Some k'" and "bt_get (ktable k) x = Some p" and "wait_prev p \<noteq> Some x" and "wait_next p \<noteq> Some x"
  shows "ptrs (ktable k') x = Some (None, None)"
  using assms remove_links_clears [OF _ assms(2-4)]
  by (auto simp: remove_sleep_def recalculate_earliest_sleep_def Let_def split: prod.splits bind_splits)

lemma kill_process_facts:
  assumes "kill_process x p k = Some k'" and "bt_get (ktable k) x = Some p" and "parent_pid p \<noteq> Some x"
    and "wait_prev p \<noteq> Some x" and "wait_next p \<noteq> Some x"
  shows "\<exists>q. bt_get (ktable k') x = Some q \<and> pstate q = Terminated \<and> exited q \<and> exit_code q = 137 \<and>
    wait_next q = None \<and> wait_prev q = None"
proof -
  let ?f = "\<lambda>p. p\<lparr>pstate := Terminated, exited := True, exit_code := 128 + SIGKILL\<rparr>"
  let ?k0 = "upd_k x ?f k"
  from assms(1) obtain k1 where r: "remove_sleep x ?k0 = Some k1" and k': "bt_get (ktable k') x = bt_get (ktable k1) x"
    using assms(3) by (auto simp: kill_process_def Let_def map_of_upd split: bind_splits option.splits if_splits)
  have p0: "bt_get (ktable ?k0) x = Some (?f p)" using assms(2) by (simp add: map_of_upd)
  have "cores (ktable k1) x = cores (ktable ?k0) x" using remove_sleep_frame(1) [OF r] by simp
  then obtain q where q: "bt_get (ktable k1) x = Some q" "core q = core (?f p)" using p0 by (auto simp: cores_def)
  then have "pstate q = Terminated" "exited q" "exit_code q = 137"
    by (auto simp: core_def SIGKILL_def dest: arg_cong [where f = pstate] arg_cong [where f = exited] arg_cong [where f = exit_code])
  moreover have "ptrs (ktable k1) x = Some (None, None)"
    by (rule remove_sleep_clears [OF r p0]) (use assms(4,5) in simp_all)
  ultimately show ?thesis using q(1) k' by (auto simp: ptrs_get)
qed

text \<open>
  \<^verbatim>\<open>SIGKILL\<close> always terminates a process that has not ended: whatever signals it blocks and
  whatever it waits for, it becomes Terminated with exit status 137.
\<close>

theorem sigkill_terminates:
  assumes "bt_get (ktable k) x = Some p" and "pstate p \<noteq> Terminated" and "pstate p \<noteq> Reaped" and "\<not> exited p"
    and "parent_pid p \<noteq> Some x" and "wait_prev p \<noteq> Some x" and "wait_next p \<noteq> Some x"
    and "send_signal x SIGKILL k = Some (r, k')"
  shows "r = Ok () \<and> (\<exists>q. bt_get (ktable k') x = Some q \<and> pstate q = Terminated \<and> exited q \<and> exit_code q = 137)"
proof -
  from assms(1-4,8) have "r = Ok ()" "kill_process x p k = Some k'"
    by (auto simp: send_signal_def SIGKILL_def split: bind_splits)
  with kill_process_facts [OF this(2) assms(1,5-7)] show ?thesis by blast
qed

definition demo_blocked :: kernel where
  "demo_blocked = boot_kernel\<lparr>sched := demo_sched\<rparr>"

lemma demo_kill: "\<exists>k'. send_signal 1 SIGKILL demo_blocked = Some (Ok (), k')"
  by (simp add: send_signal_def SIGKILL_def kill_process_def remove_sleep_def recalculate_earliest_sleep_def
      min_sleep.simps demo_blocked_def demo_sched_def demo_queued_def new_process_def new_queue_def remove_links_def upd_def)

theorem sigkill_terminates_witness:
  "\<exists>k' q. send_signal 1 SIGKILL demo_blocked = Some (Ok (), k') \<and> bt_get (ktable k') 1 = Some q \<and> pstate q = Terminated"
proof -
  obtain k' where k': "send_signal 1 SIGKILL demo_blocked = Some (Ok (), k')" using demo_kill by blast
  have "bt_get (ktable demo_blocked) 1 = Some ((new_process ''a'')\<lparr>wait_next := Some 2, pstate := Blocked\<rparr>)"
    by (simp add: demo_blocked_def demo_sched_def demo_queued_def)
  from sigkill_terminates [OF this _ _ _ _ _ _ k'] k' show ?thesis by (auto simp: new_process_def)
qed

text \<open>
  Killing a waiter cuts its queue: \<^verbatim>\<open>send_signal\<close> unlinks the victim from the sleep queue only,
  but clears its links. When the victim is the first waiter of another queue (a channel, a condition),
  that queue still starts with it; the next dequeue returns the dead process and empties the queue, and
  every waiter behind it is lost.
\<close>

theorem kill_cuts_wait_queue:
  assumes "queue_repr q (ktable k) (x # y # ys)" and "send_signal x SIGKILL k = Some (Ok (), k')"
    and "\<And>p. bt_get (ktable k) x = Some p \<Longrightarrow> parent_pid p \<noteq> Some x"
  shows "\<exists>t'. dequeue_links q (ktable k') = (Some x, new_queue, t')"
proof -
  from assms(1) obtain p where p: "bt_get (ktable k) x = Some p" "wait_prev p = None" "wait_next p = Some y"
    and h: "q_head q = Some x" and ne: "x \<noteq> y"
    by (auto simp: queue_repr_def ptrs_get)
  from assms(2) p have "kill_process x p k = Some k'"
    by (auto simp: send_signal_def SIGKILL_def split: bind_splits if_splits)
  from kill_process_facts [OF this p(1) assms(3) [OF p(1)]] p ne
  obtain r where "bt_get (ktable k') x = Some r" "wait_next r = None" by auto
  with h show ?thesis by (subst dequeue_links.simps) (simp add: new_queue_def Let_def)
qed

theorem kill_cuts_wait_queue_witness:
  "\<exists>k' t'. send_signal 1 SIGKILL demo_blocked = Some (Ok (), k') \<and> waiters demo_q (ktable demo_blocked) = [1, 2, 3] \<and>
     dequeue_links demo_q (ktable k') = (Some 1, new_queue, t')"
proof -
  obtain k' where k': "send_signal 1 SIGKILL demo_blocked = Some (Ok (), k')" using demo_kill by blast
  have r: "queue_repr demo_q (ktable demo_blocked) [1, 2, 3]"
    using demo_queued_repr by (simp add: demo_blocked_def demo_sched_def)
  have "bt_get (ktable demo_blocked) 1 = Some p \<Longrightarrow> parent_pid p \<noteq> Some 1" for p
    by (simp add: demo_blocked_def demo_sched_def demo_queued_def) (auto simp: new_process_def)
  from kill_cuts_wait_queue [OF r k' this] k' waiters_repr [OF r] show ?thesis by blast
qed

text \<open>
  An exit status is delivered exactly once: when \<^verbatim>\<open>waitpid\<close> returns a status, the child had ended
  and the status is its exit code; every later \<^verbatim>\<open>waitpid\<close> on it answers that it is already reaped.
\<close>

theorem waitpid_reaps_once:
  assumes "waitpid_step cpu child k = (WaitDone (Ok code), k')"
  shows "(\<exists>p. bt_get (ktable k) child = Some p \<and> (pstate p = Terminated \<or> exited p) \<and> exit_code p = code) \<and>
    waitpid_step cpu' child k' = (WaitDone (Err ''Already reaped''), k')"
  using assms by (auto simp: waitpid_step_def map_of_upd split: option.splits if_splits)

theorem waitpid_reaps_once_witness:
  "\<exists>k'. waitpid_step 0 1 (upd_k 1 (\<lambda>p. p\<lparr>pstate := Terminated, exit_code := 3\<rparr>) demo_blocked) = (WaitDone (Ok 3), k') \<and>
     waitpid_step 0 1 k' = (WaitDone (Err ''Already reaped''), k')"
proof -
  let ?k = "upd_k 1 (\<lambda>p. p\<lparr>pstate := Terminated, exit_code := 3\<rparr>) demo_blocked"
  obtain k' where k': "waitpid_step 0 1 ?k = (WaitDone (Ok 3), k')"
    by (auto simp: waitpid_step_def map_of_upd demo_blocked_def demo_sched_def demo_queued_def new_process_def)
  with waitpid_reaps_once [OF k', of 0] show ?thesis by blast
qed

text \<open>\<^verbatim>\<open>SIGKILL\<close> and \<^verbatim>\<open>SIGSTOP\<close> can never be masked.\<close>

lemma unmaskable_bits: "bit (sig_bit SIGKILL OR sig_bit SIGSTOP) 9" "bit (sig_bit SIGKILL OR sig_bit SIGSTOP) 19"
  by code_simp+

lemma signal_mask_sane:
  assumes "set_signal_mask cur how msk k = (r, k')"
    and "\<And>i p. bt_get (ktable k) i = Some p \<Longrightarrow> \<not> bit (blocked_signals p) 9 \<and> \<not> bit (blocked_signals p) 19"
    and "bt_get (ktable k') i = Some p"
  shows "\<not> bit (blocked_signals p) 9 \<and> \<not> bit (blocked_signals p) 19"
  using assms unmaskable_bits
  by (fastforce simp: set_signal_mask_def Let_def map_of_upd bit_and_iff bit_or_iff bit_not_iff
      split: option.splits if_splits)

end
