(* ===== verification/Ipc.thy ===== *)
theory Ipc
  imports Channel Scheduler
begin

section \<open>Capability-gated IPC\<close>

text \<open>
  \<^verbatim>\<open>kernel/src/ipc.rs\<close>: channels whose sends and receives are gated by a capability on their endpoint
  object, the registry of endpoints with their owners, the hang-up of a dead process, and the
  delivery of interrupts as messages. The lock-free queue of pending interrupts is a third-party
  container: its \<^verbatim>\<open>push\<close> and \<^verbatim>\<open>pop\<close> are arguments of the operations that use it.
\<close>

type_synonym bytes = "8 word list"

record 'm cap_channel =
  endpoint_cap :: cap_handle
  inner :: "'m cap_message channel"

text \<open>\<^verbatim>\<open>CapChannel::new\<close>: the endpoint object first, then the channel; the handle is returned too.\<close>

definition new_cap_channel ::
    "nat \<Rightarrow> cap_world \<Rightarrow> ((cap_error, 'm cap_channel \<times> cap_handle) result \<times> cap_world) option" where
  "new_cap_channel cap w = do {
     (r, w1) \<leftarrow> with_state (create_object KEndpoint) w;
     case r of
       Inl e \<Rightarrow> Some (Err e, w1)
     | Inr h \<Rightarrow> Some (Ok (\<lparr>endpoint_cap = h, inner = new_channel cap\<rparr>, h), w1)
   }"

text \<open>What a send does with the attached capability, by transfer mode.\<close>

definition attach ::
    "cap_handle option \<Rightarrow> transfer_mode \<Rightarrow> cap_world \<Rightarrow>
     ((cap_error, cap_handle option) result \<times> cap_world) option" where
  "attach att mode w =
     (case (att, mode) of
        (Some c, ModeTransfer) \<Rightarrow> do {
          (r, w1) \<leftarrow> with_state (transfer c rights_all) w;
          case r of Inl e \<Rightarrow> Some (Err e, w1) | Inr h \<Rightarrow> Some (Ok (Some h), w1)
        }
      | (Some c, ModeLend) \<Rightarrow> do {
          r \<leftarrow> read_state (check_rights c rights_empty) w;
          case r of Inl e \<Rightarrow> Some (Err e, w) | Inr _ \<Rightarrow> Some (Ok (Some c), w)
        }
      | (Some c, ModeNone) \<Rightarrow> Some (Ok (Some c), w)
      | (None, _) \<Rightarrow> Some (Ok None, w))"

text \<open>The common front of \<^verbatim>\<open>send\<close> and \<^verbatim>\<open>try_send\<close>: check the sender, prepare the capability, build the envelope.\<close>

definition seal ::
    "'m cap_channel \<Rightarrow> cap_handle \<Rightarrow> 'm \<Rightarrow> cap_handle option \<Rightarrow> transfer_mode \<Rightarrow> cap_world \<Rightarrow>
     ((cap_error, 'm cap_message) result \<times> cap_world) option" where
  "seal ch sender msg att mode w = do {
     c \<leftarrow> read_state (check_rights_for_object sender (endpoint_cap ch) RIGHT_WRITE) w;
     case c of
       Inl e \<Rightarrow> Some (Err e, w)
     | Inr _ \<Rightarrow> do {
         (r, w1) \<leftarrow> attach att mode w;
         case r of
           Inl e \<Rightarrow> Some (Err e, w1)
         | Inr final \<Rightarrow> Some (Ok \<lparr>m_payload = msg, m_capability = final, m_mode = mode\<rparr>, w1)
       }
   }"

definition cap_send ::
    "nat \<Rightarrow> 'm cap_channel \<Rightarrow> cap_handle \<Rightarrow> 'm \<Rightarrow> cap_handle option \<Rightarrow> transfer_mode \<Rightarrow> cap_world \<Rightarrow> scheduler \<Rightarrow>
     ((cap_error, ('m cap_message, nat option) round) result \<times> 'm cap_channel \<times> cap_world \<times> scheduler) option" where
  "cap_send cpu ch sender msg att mode w s = do {
     (r, w1) \<leftarrow> seal ch sender msg att mode w;
     case r of
       Inl e \<Rightarrow> Some (Err e, ch, w1, s)
     | Inr envelope \<Rightarrow> do {
         (rd, c, s1) \<leftarrow> send_round cpu envelope (inner ch) s;
         Some (Ok rd, ch\<lparr>inner := c\<rparr>, w1, s1)
       }
   }"

definition cap_try_send ::
    "'m cap_channel \<Rightarrow> cap_handle \<Rightarrow> 'm \<Rightarrow> cap_handle option \<Rightarrow> transfer_mode \<Rightarrow> cap_world \<Rightarrow> scheduler \<Rightarrow>
     ((cap_error, unit) result \<times> 'm cap_channel \<times> cap_world \<times> scheduler) option" where
  "cap_try_send ch sender msg att mode w s = do {
     (r, w1) \<leftarrow> seal ch sender msg att mode w;
     case r of
       Inl e \<Rightarrow> Some (Err e, ch, w1, s)
     | Inr envelope \<Rightarrow> do {
         (rd, c, s1) \<leftarrow> try_send envelope (inner ch) s;
         Some (case rd of Inl _ \<Rightarrow> Err Exhausted | Inr _ \<Rightarrow> Ok (), ch\<lparr>inner := c\<rparr>, w1, s1)
       }
   }"

text \<open>\<^verbatim>\<open>recv\<close> gives up the CPU when it parks, so the model has its rounds.\<close>

definition cap_recv ::
    "nat \<Rightarrow> 'm cap_channel \<Rightarrow> cap_handle \<Rightarrow> cap_world \<Rightarrow> scheduler \<Rightarrow>
     ((cap_error, ('m cap_message, 'm cap_message) round) result \<times> 'm cap_channel \<times> scheduler) option" where
  "cap_recv cpu ch receiver w s = do {
     c \<leftarrow> read_state (check_rights_for_object receiver (endpoint_cap ch) RIGHT_READ) w;
     case c of
       Inl e \<Rightarrow> Some (Err e, ch, s)
     | Inr _ \<Rightarrow> do {
         (rd, i, s1) \<leftarrow> recv_round cpu (inner ch) s;
         Some (Ok rd, ch\<lparr>inner := i\<rparr>, s1)
       }
   }"

definition cap_try_recv ::
    "'m cap_channel \<Rightarrow> cap_handle \<Rightarrow> cap_world \<Rightarrow> scheduler \<Rightarrow>
     ((cap_error, 'm cap_message option) result \<times> 'm cap_channel \<times> scheduler) option" where
  "cap_try_recv ch receiver w s = do {
     c \<leftarrow> read_state (check_rights_for_object receiver (endpoint_cap ch) RIGHT_READ) w;
     case c of
       Inl e \<Rightarrow> Some (Err e, ch, s)
     | Inr _ \<Rightarrow> do {
         (m, i, s1) \<leftarrow> try_recv (inner ch) s;
         Some (Ok m, ch\<lparr>inner := i\<rparr>, s1)
       }
   }"

text \<open>The loop that empties a channel and closes the capabilities in flight; it counts the messages.\<close>

lemma cap_try_recv_shorter:
  "cap_try_recv ch h w s = Some (Ok (Some m), ch', s') \<Longrightarrow>
   length (buffer (inner ch')) < length (buffer (inner ch))"
  by (auto simp: cap_try_recv_def try_recv_def split: bind_splits sum.splits list.splits)

function drain ::
    "cap_handle \<Rightarrow> 'm cap_channel \<Rightarrow> cap_world \<Rightarrow> scheduler \<Rightarrow>
     (nat \<times> 'm cap_channel \<times> cap_world \<times> scheduler) option" where
  "drain h ch w s =
     (case cap_try_recv ch h w s of
        None \<Rightarrow> None
      | Some (Inr (Some msg), ch1, s1) \<Rightarrow>
          (case (case m_capability msg of None \<Rightarrow> Some w | Some a \<Rightarrow> map_option snd (with_state (close a) w)) of
             None \<Rightarrow> None
           | Some w1 \<Rightarrow> (case drain h ch1 w1 s1 of
                           None \<Rightarrow> None
                         | Some (n, rest) \<Rightarrow> Some (Suc n, rest)))
      | Some (_, ch1, s1) \<Rightarrow> Some (0, ch1, w, s1))"
  by pat_completeness auto

termination
  by (relation "measure (\<lambda>(h, ch, w, s). length (buffer (inner ch)))") (auto dest: cap_try_recv_shorter)

declare drain.simps [simp del]

subsection \<open>The endpoint registry\<close>

record irq_binding =
  b_ep :: nat
  b_writer :: cap_handle

record 'q ipc =
  caps :: cap_world
  kern :: kernel
  endpoints :: "(nat, bytes cap_channel) btree_map"
  owners :: "(nat, nat) btree_map"
  next_ep_id :: nat
  irq_bindings :: "(nat, irq_binding) btree_map"
  irq_nonempty :: bool
  irq_events :: "'q option"

definition MAX_ENDPOINT_CAPACITY :: nat where "MAX_ENDPOINT_CAPACITY = 256"
definition MAX_ENDPOINTS :: nat where "MAX_ENDPOINTS = 256"

definition boot_ipc :: "cap_world \<Rightarrow> kernel \<Rightarrow> 'q ipc" where
  "boot_ipc w k = \<lparr>caps = w, kern = k, endpoints = [], owners = [], next_ep_id = 8, irq_bindings = [],
     irq_nonempty = False, irq_events = None\<rparr>"

abbreviation isched :: "'q ipc \<Rightarrow> scheduler" where "isched st \<equiv> sched (kern st)"

text \<open>Storing the channel, the capability table and the scheduler back after an operation on a channel.\<close>

definition put_channel :: "nat \<Rightarrow> bytes cap_channel \<Rightarrow> cap_world \<Rightarrow> scheduler \<Rightarrow> 'q ipc \<Rightarrow> 'q ipc" where
  "put_channel ep ch w s st = st\<lparr>endpoints := bt_insert ep ch (endpoints st), caps := w, kern := (kern st)\<lparr>sched := s\<rparr>\<rparr>"

definition create_raw_endpoint :: "nat \<Rightarrow> 'q ipc \<Rightarrow> ((cap_error, nat \<times> cap_handle) result \<times> 'q ipc) option" where
  "create_raw_endpoint cap st =
     (if cap = 0 \<or> cap > MAX_ENDPOINT_CAPACITY then Some (Err Invalid, st)
      else if length (endpoints st) \<ge> MAX_ENDPOINTS then Some (Err Exhausted, st)
      else do {
        (r, w) \<leftarrow> new_cap_channel cap (caps st);
        case r of
          Inl e \<Rightarrow> Some (Err e, st\<lparr>caps := w\<rparr>)
        | Inr (ch, h) \<Rightarrow>
            let ep = next_ep_id st in
            Some (Ok (ep, h), st\<lparr>caps := w, next_ep_id := wrapping_add 32 ep 1,
                                 endpoints := bt_insert ep ch (endpoints st)\<rparr>)
      })"

definition register_endpoint_owner :: "nat \<Rightarrow> nat \<Rightarrow> 'q ipc \<Rightarrow> 'q ipc" where
  "register_endpoint_owner ep pid st = st\<lparr>owners := bt_insert ep pid (owners st)\<rparr>"

definition owned_by :: "nat \<Rightarrow> 'q ipc \<Rightarrow> nat list" where
  "owned_by pid st = map fst (filter (\<lambda>(_, owner). owner = pid) (owners st))"

definition irqs_of :: "nat \<Rightarrow> 'q ipc \<Rightarrow> nat list" where
  "irqs_of ep st = map fst (filter (\<lambda>(_, b). b_ep b = ep) (irq_bindings st))"

text \<open>
  The body of the loop of \<^verbatim>\<open>hangup_channel_for_pid\<close>: forget the owner, take the channel out, wake every
  process parked on it, close the capabilities in flight, drop the interrupt bindings.
\<close>

definition hangup_endpoint :: "nat \<Rightarrow> bytes cap_channel \<Rightarrow> 'q ipc \<Rightarrow> 'q ipc option" where
  "hangup_endpoint ep ch st = do {
     (_, q1, s1) \<leftarrow> wake_all 0 (not_empty (inner ch)) (isched st);
     (_, q2, s2) \<leftarrow> wake_all 0 (not_full (inner ch)) s1;
     (_, _, w, s3) \<leftarrow> drain (endpoint_cap ch) (ch\<lparr>inner := (inner ch)\<lparr>not_empty := q1, not_full := q2\<rparr>\<rparr>) (caps st) s2;
     Some (st\<lparr>endpoints := bt_remove ep (endpoints st), caps := w, kern := (kern st)\<lparr>sched := s3\<rparr>\<rparr>)
   }"

definition hangup_one :: "nat \<Rightarrow> 'q ipc \<Rightarrow> 'q ipc option" where
  "hangup_one ep st = do {
     st1 \<leftarrow> (case bt_get (endpoints st) ep of
               None \<Rightarrow> Some (st\<lparr>owners := bt_remove ep (owners st)\<rparr>)
             | Some ch \<Rightarrow> hangup_endpoint ep ch (st\<lparr>owners := bt_remove ep (owners st)\<rparr>));
     Some (st1\<lparr>irq_bindings := fold bt_remove (irqs_of ep st1) (irq_bindings st1)\<rparr>)
   }"

fun hangup_all :: "nat list \<Rightarrow> 'q ipc \<Rightarrow> 'q ipc option" where
  "hangup_all [] st = Some st"
| "hangup_all (ep # eps) st = do { st1 \<leftarrow> hangup_one ep st; hangup_all eps st1 }"

definition hangup_channel_for_pid :: "nat \<Rightarrow> 'q ipc \<Rightarrow> 'q ipc option" where
  "hangup_channel_for_pid pid st =
     (let eps = owned_by pid st in
      if eps = [] then Some st
      else do {
        st1 \<leftarrow> hangup_all eps st;
        Some (if irq_bindings st1 = [] then st1\<lparr>irq_nonempty := False\<rparr> else st1)
      })"

text \<open>
  \<^verbatim>\<open>raw_ipc_send\<close> holds the lock of the endpoint table across \<^verbatim>\<open>send\<close>: a send that has to park calls
  \<^verbatim>\<open>schedule\<close> with the lock held, which its assertion turns into a panic. A send that wakes a receiver
  gives it the CPU.
\<close>

definition raw_ipc_send ::
    "nat \<Rightarrow> nat \<Rightarrow> nat \<Rightarrow> cap_handle \<Rightarrow> bytes \<Rightarrow> cap_handle option \<Rightarrow> transfer_mode \<Rightarrow> 'q ipc \<Rightarrow>
     ((cap_error, switch) result \<times> 'q ipc) option" where
  "raw_ipc_send cpu tick ep sender data att mode st =
     (case bt_get (endpoints st) ep of
        None \<Rightarrow> Some (Err NotFound, st)
      | Some ch \<Rightarrow> do {
          (r, ch1, w, s) \<leftarrow> cap_send cpu ch sender data att mode (caps st) (isched st);
          let st1 = put_channel ep ch1 w s st;
          case r of
            Inl e \<Rightarrow> Some (Err e, st1)
          | Inr Parked \<Rightarrow> None
          | Inr (Done None) \<Rightarrow> Some (Ok Stay, st1)
          | Inr (Done (Some pid)) \<Rightarrow> do {
              (sw, k) \<leftarrow> schedule_internal cpu tick (Some pid) (kern st1);
              Some (Ok sw, st1\<lparr>kern := k\<rparr>)
            }
        })"

definition raw_ipc_try_send ::
    "nat \<Rightarrow> cap_handle \<Rightarrow> bytes \<Rightarrow> cap_handle option \<Rightarrow> transfer_mode \<Rightarrow> 'q ipc \<Rightarrow>
     ((cap_error, unit) result \<times> 'q ipc) option" where
  "raw_ipc_try_send ep sender data att mode st =
     (case bt_get (endpoints st) ep of
        None \<Rightarrow> Some (Err NotFound, st)
      | Some ch \<Rightarrow> do {
          (r, ch1, w, s) \<leftarrow> cap_try_send ch sender data att mode (caps st) (isched st);
          Some (r, put_channel ep ch1 w s st)
        })"

definition raw_ipc_try_recv ::
    "nat \<Rightarrow> cap_handle \<Rightarrow> 'q ipc \<Rightarrow> ((cap_error, bytes cap_message option) result \<times> 'q ipc) option" where
  "raw_ipc_try_recv ep receiver st =
     (case bt_get (endpoints st) ep of
        None \<Rightarrow> Some (Err NotFound, st)
      | Some ch \<Rightarrow> do {
          (r, ch1, s) \<leftarrow> cap_try_recv ch receiver (caps st) (isched st);
          Some (r, put_channel ep ch1 (caps st) s st)
        })"

text \<open>
  \<^verbatim>\<open>raw_ipc_recv\<close> loops; \<open>raw_ipc_recv_round\<close> is the part of a round before \<^verbatim>\<open>schedule\<close> and
  \<open>raw_ipc_recv_resume\<close> the part after it, which either ends the call (\<open>Some\<close> error) or starts the
  next round.
\<close>

definition raw_ipc_recv_round ::
    "nat \<Rightarrow> nat \<Rightarrow> cap_handle \<Rightarrow> 'q ipc \<Rightarrow>
     ((cap_error, (bytes cap_message, bytes cap_message) round) result \<times> 'q ipc) option" where
  "raw_ipc_recv_round cpu ep receiver st =
     (case bt_get (endpoints st) ep of
        None \<Rightarrow> Some (Err NotFound, st)
      | Some ch \<Rightarrow> do {
          (r, ch1, s) \<leftarrow> cap_try_recv ch receiver (caps st) (isched st);
          case r of
            Inl e \<Rightarrow> Some (Err e, put_channel ep ch1 (caps st) s st)
          | Inr (Some msg) \<Rightarrow> Some (Ok (Done msg), put_channel ep ch1 (caps st) s st)
          | Inr None \<Rightarrow> do {
              (q, s1) \<leftarrow> prepare_wait cpu ChannelRecv (not_empty (inner ch1)) s;
              Some (Ok Parked, put_channel ep (ch1\<lparr>inner := (inner ch1)\<lparr>not_empty := q\<rparr>\<rparr>) (caps st) s1 st)
            }
        })"

definition raw_ipc_recv_resume :: "nat \<Rightarrow> nat \<Rightarrow> 'q ipc \<Rightarrow> (cap_error option \<times> 'q ipc) option" where
  "raw_ipc_recv_resume cpu ep st =
     (case bt_get (endpoints st) ep of
        Some ch \<Rightarrow>
          let (q, s) = finish_wait cpu (not_empty (inner ch)) (isched st) in
          Some (None, put_channel ep (ch\<lparr>inner := (inner ch)\<lparr>not_empty := q\<rparr>\<rparr>) (caps st) s st)
      | None \<Rightarrow>
          Some (Some NotFound,
            (case current_for_cpu cpu (isched st) of
               None \<Rightarrow> st
             | Some cur \<Rightarrow> st\<lparr>kern := upd_k cur (\<lambda>p. if pstate p = Blocked
                                  then p\<lparr>pstate := Running, block_reason := None\<rparr> else p) (kern st)\<rparr>)))"

definition cancel_endpoint :: "nat \<Rightarrow> cap_handle \<Rightarrow> 'q ipc \<Rightarrow> ((cap_error, nat) result \<times> 'q ipc) option" where
  "cancel_endpoint ep cap st =
     (case bt_get (endpoints st) ep of
        None \<Rightarrow> Some (Err NotFound, st)
      | Some ch \<Rightarrow> do {
          (n, ch1, w, s) \<leftarrow> drain cap ch (caps st) (isched st);
          Some (Ok n, put_channel ep ch1 w s st)
        })"

subsection \<open>Interrupts as messages\<close>

definition init_irq_notify :: "'q \<Rightarrow> 'q ipc \<Rightarrow> 'q ipc" where
  "init_irq_notify q0 st = (if irq_events st = None then st\<lparr>irq_events := Some q0\<rparr> else st)"

text \<open>The gate both \<^verbatim>\<open>bind_irq\<close> and \<^verbatim>\<open>unbind_irq\<close> start with.\<close>

definition device_gate :: "cap_handle \<Rightarrow> cap_world \<Rightarrow> (cap_error, unit) result option" where
  "device_gate dev w = do {
     c \<leftarrow> read_state (check_rights dev RIGHT_MANAGE) w;
     case c of
       Inl e \<Rightarrow> Some (Err e)
     | Inr _ \<Rightarrow> do {
         i \<leftarrow> read_state (object_identity dev) w;
         case i of
           Inl e \<Rightarrow> Some (Err e)
         | Inr (kind, _) \<Rightarrow> Some (if kind \<noteq> KDevice then Err NoRights else Ok ())
       }
   }"

definition bind_irq ::
    "cap_handle \<Rightarrow> nat \<Rightarrow> nat \<Rightarrow> cap_handle \<Rightarrow> 'q ipc \<Rightarrow> ((cap_error, unit) result \<times> 'q ipc) option" where
  "bind_irq dev irq ep writer st = do {
     g \<leftarrow> device_gate dev (caps st);
     case g of
       Inl e \<Rightarrow> Some (Err e, st)
     | Inr _ \<Rightarrow>
         if irq > 15 then Some (Err Invalid, st)
         else (case bt_get (endpoints st) ep of
                 None \<Rightarrow> Some (Err NotFound, st)
               | Some ch \<Rightarrow> do {
                   c \<leftarrow> read_state (check_rights_for_object writer (endpoint_cap ch) RIGHT_WRITE) (caps st);
                   case c of
                     Inl e \<Rightarrow> Some (Err e, st)
                   | Inr _ \<Rightarrow> Some (Ok (), st\<lparr>irq_nonempty := True,
                       irq_bindings := bt_insert irq \<lparr>b_ep = ep, b_writer = writer\<rparr> (irq_bindings st)\<rparr>)
                 })
   }"

definition unbind_irq :: "cap_handle \<Rightarrow> nat \<Rightarrow> 'q ipc \<Rightarrow> ((cap_error, unit) result \<times> 'q ipc) option" where
  "unbind_irq dev irq st = do {
     g \<leftarrow> device_gate dev (caps st);
     case g of
       Inl e \<Rightarrow> Some (Err e, st)
     | Inr _ \<Rightarrow>
         let st1 = st\<lparr>irq_bindings := bt_remove irq (irq_bindings st)\<rparr>;
             st2 = (if irq_bindings st1 = [] then st1\<lparr>irq_nonempty := False\<rparr> else st1)
         in Some (if bt_get (irq_bindings st) irq = None then Err NotFound else Ok (), st2)
   }"

type_synonym irq_msg = "nat \<times> 8 word"

definition irq_event :: "('q \<Rightarrow> irq_msg \<Rightarrow> 'q option) \<Rightarrow> nat \<Rightarrow> 8 word \<Rightarrow> 'q ipc \<Rightarrow> 'q ipc" where
  "irq_event push irq payload st =
     (if \<not> irq_nonempty st then st
      else (case irq_events st of
              None \<Rightarrow> st
            | Some q \<Rightarrow> (case push q (irq, payload) of None \<Rightarrow> st | Some q' \<Rightarrow> st\<lparr>irq_events := Some q'\<rparr>)))"

partial_function (option) pop_all :: "('q \<Rightarrow> ('e \<times> 'q) option) \<Rightarrow> 'q \<Rightarrow> ('e list \<times> 'q) option" where
  "pop_all pop q =
     (case pop q of
        None \<Rightarrow> Some ([], q)
      | Some (e, q1) \<Rightarrow> do { (es, q2) \<leftarrow> pop_all pop q1; Some (e # es, q2) })"

fun deliver_events :: "irq_msg list \<Rightarrow> 'q ipc \<Rightarrow> 'q ipc option" where
  "deliver_events [] st = Some st"
| "deliver_events ((irq, payload) # es) st =
     (case bt_get (irq_bindings st) irq of
        None \<Rightarrow> deliver_events es st
      | Some b \<Rightarrow> do {
          (_, st1) \<leftarrow> raw_ipc_try_send (b_ep b) (b_writer b) [payload] None ModeNone st;
          deliver_events es st1
        })"

definition deliver_pending_irqs :: "('q \<Rightarrow> (irq_msg \<times> 'q) option) \<Rightarrow> 'q ipc \<Rightarrow> 'q ipc option" where
  "deliver_pending_irqs pop st =
     (case irq_events st of
        None \<Rightarrow> Some st
      | Some q \<Rightarrow> do {
          (es, q1) \<leftarrow> pop_all pop q;
          deliver_events es (st\<lparr>irq_events := Some q1\<rparr>)
        })"

end
