(* ===== verification/Ipc_Security.thy ===== *)
theory Ipc_Security
  imports Ipc
begin

section \<open>What the IPC gate guarantees\<close>

text \<open>
  Lemmas and properties of \<open>Ipc\<close>: who may send and receive, the well-formedness of the endpoint
  registry, the hang-up of a process, the cancellation of messages in flight, and the delivery of
  interrupts.
\<close>

subsection \<open>The capability check\<close>

text \<open>\<open>holds w h root needed\<close>: \<open>h\<close> is a live handle of the object \<open>root\<close> names, with the needed rights.\<close>

definition holds :: "cap_world \<Rightarrow> cap_handle \<Rightarrow> cap_handle \<Rightarrow> rights \<Rightarrow> bool" where
  "holds w h root needed \<longleftrightarrow> (\<exists>s sl tsl. w_state w = Some s \<and> handle_slot s h = Some sl \<and> handle_slot s root = Some tsl \<and>
     s_object sl = s_object tsl \<and> rights_contains (s_rights sl) needed \<and> \<not> revoked (nodes s) (s_node sl) \<and>
     o_valid (objects s ! s_object sl))"

lemma gate_Ok:
  assumes "world_ok w"
  shows "read_state (check_rights_for_object h root needed) w = Some (Ok ()) \<longleftrightarrow> holds w h root needed"
  using assms
  by (auto simp: read_state_def holds_def check_rights_for_object_def world_ok_def check_rights_Ok
      split: option.splits)

lemma gate_returns: "world_ok w \<Longrightarrow> \<exists>r. read_state (check_rights_for_object h root needed) w = Some r"
  using check_rights_for_object_returns by (auto simp: read_state_def world_ok_def split: option.splits)

lemma gate_cases:
  assumes "world_ok w"
  obtains "read_state (check_rights_for_object h root needed) w = Some (Ok ())" "holds w h root needed"
  | e where "read_state (check_rights_for_object h root needed) w = Some (Err e)" "\<not> holds w h root needed"
proof -
  obtain r where r: "read_state (check_rights_for_object h root needed) w = Some r"
    using gate_returns [OF assms] by blast
  show thesis
  proof (cases r)
    case (Inl e)
    then show thesis using r that(2) gate_Ok [OF assms, of h root needed] by auto
  next
    case (Inr u)
    then show thesis using r that(1) gate_Ok [OF assms, of h root needed] by auto
  qed
qed

lemma seal_Ok:
  assumes "world_ok w" and "seal ch h msg att mode w = Some (Ok env, w1)"
  shows "holds w h (endpoint_cap ch) RIGHT_WRITE" and "m_payload env = msg" and "m_mode env = mode"
    and "mode \<noteq> ModeTransfer \<Longrightarrow> m_capability env = att \<and> w1 = w"
    and "mode = ModeTransfer \<Longrightarrow> att = Some a \<Longrightarrow>
      \<exists>s t k. w_state w = Some s \<and> transfer a rights_all s = Some (Ok k, t) \<and> m_capability env = Some k \<and>
        w1 = w\<lparr>w_state := Some t\<rparr>"
  using assms(2) gate_Ok [OF assms(1), of h "endpoint_cap ch" RIGHT_WRITE]
  by (auto simp: seal_def attach_def with_state_Some split: bind_splits sum.splits option.splits transfer_mode.splits)

subsection \<open>Well-formed registries\<close>

text \<open>
  \<open>W (ep, False)\<close> and \<open>W (ep, True)\<close> are the processes parked on the receiving and on the sending
  side of an endpoint; no process is parked twice.
\<close>

definition parted :: "('a \<Rightarrow> nat list) \<Rightarrow> bool" where
  "parted W \<longleftrightarrow> (\<forall>a b. a \<noteq> b \<longrightarrow> set (W a) \<inter> set (W b) = {})"

definition waits_ok :: "'q ipc \<Rightarrow> (nat \<times> bool \<Rightarrow> nat list) \<Rightarrow> bool" where
  "waits_ok st W \<longleftrightarrow> parted W \<and>
     (\<forall>ep ch. bt_get (endpoints st) ep = Some ch \<longrightarrow>
        queue_repr (not_empty (inner ch)) (table (isched st)) (W (ep, False)) \<and>
        queue_repr (not_full (inner ch)) (table (isched st)) (W (ep, True)) \<and>
        length (buffer (inner ch)) \<le> capacity (inner ch))"

definition ipc_ok :: "'q ipc \<Rightarrow> bool" where
  "ipc_ok st \<longleftrightarrow> world_ok (caps st) \<and> (\<exists>W. waits_ok st W)"

lemma ipc_ok_frame [simp]:
  "ipc_ok (st\<lparr>owners := x\<rparr>) = ipc_ok st" "ipc_ok (st\<lparr>irq_bindings := y\<rparr>) = ipc_ok st"
  "ipc_ok (st\<lparr>irq_nonempty := f\<rparr>) = ipc_ok st" "ipc_ok (st\<lparr>irq_events := z\<rparr>) = ipc_ok st"
  by (simp_all add: ipc_ok_def waits_ok_def)

lemma waits_disjoint: "waits_ok st W \<Longrightarrow> a \<noteq> b \<Longrightarrow> i \<in> set (W a) \<Longrightarrow> i \<notin> set (W b)"
  unfolding waits_ok_def parted_def by blast

lemma parted_shrink: "parted W \<Longrightarrow> set xs \<subseteq> set (W a) \<Longrightarrow> parted (W(a := xs))"
  unfolding parted_def by (metis disjoint_iff fun_upd_apply subsetD)

lemma put_channel_simps [simp]:
  "bt_get (endpoints (put_channel ep ch w s st)) e = (if e = ep then Some ch else bt_get (endpoints st) e)"
  "caps (put_channel ep ch w s st) = w" "isched (put_channel ep ch w s st) = s"
  "owners (put_channel ep ch w s st) = owners st" "irq_bindings (put_channel ep ch w s st) = irq_bindings st"
  "irq_events (put_channel ep ch w s st) = irq_events st"
  by (simp_all add: put_channel_def)

lemma waits_same: "bt_get (endpoints st) ep = Some ch \<Longrightarrow> waits_ok st W \<Longrightarrow> waits_ok (put_channel ep ch w (isched st) st) W"
  by (simp add: waits_ok_def)

lemma wake_receivers:
  assumes "waits_ok st W" and "bt_get (endpoints st) ep = Some ch"
  shows "\<exists>r q s'. wake_one (not_empty (inner ch)) (isched st) = Some (r, q, s') \<and>
    (\<forall>b w. length b \<le> capacity (inner ch) \<longrightarrow>
      (\<exists>W'. waits_ok (put_channel ep (ch\<lparr>inner := (inner ch)\<lparr>buffer := b, not_empty := q\<rparr>\<rparr>) w s' st) W'))"
proof -
  have rep: "queue_repr (not_empty (inner ch)) (table (isched st)) (W (ep, False))"
    using assms by (auto simp: waits_ok_def)
  obtain r q s' xs where w: "wake_one (not_empty (inner ch)) (isched st) = Some (r, q, s')"
    and x: "queue_repr q (table s') xs" "set xs \<subseteq> set (W (ep, False))"
    and fr: "\<And>i. i \<notin> set (W (ep, False)) \<Longrightarrow> ptrs (table s') i = ptrs (table (isched st)) i"
    using wake_one_sub [OF rep] by blast
  have other: "queue_repr q2 (table s') (W a)" if "queue_repr q2 (table (isched st)) (W a)" "a \<noteq> (ep, False)" for q2 a
    by (intro repr_other [OF that(1)] fr waits_disjoint [OF assms(1) that(2)])
  have "waits_ok (put_channel ep (ch\<lparr>inner := (inner ch)\<lparr>buffer := b, not_empty := q\<rparr>\<rparr>) w s' st) (W((ep, False) := xs))"
    if "length b \<le> capacity (inner ch)" for b w
    using assms x that other by (auto simp: waits_ok_def intro: parted_shrink)
  with w show ?thesis by blast
qed

lemma wake_senders:
  assumes "waits_ok st W" and "bt_get (endpoints st) ep = Some ch"
  shows "\<exists>r q s'. wake_one (not_full (inner ch)) (isched st) = Some (r, q, s') \<and>
    (\<forall>b w. length b \<le> capacity (inner ch) \<longrightarrow>
      (\<exists>W'. waits_ok (put_channel ep (ch\<lparr>inner := (inner ch)\<lparr>buffer := b, not_full := q\<rparr>\<rparr>) w s' st) W'))"
proof -
  have rep: "queue_repr (not_full (inner ch)) (table (isched st)) (W (ep, True))"
    using assms by (auto simp: waits_ok_def)
  obtain r q s' xs where w: "wake_one (not_full (inner ch)) (isched st) = Some (r, q, s')"
    and x: "queue_repr q (table s') xs" "set xs \<subseteq> set (W (ep, True))"
    and fr: "\<And>i. i \<notin> set (W (ep, True)) \<Longrightarrow> ptrs (table s') i = ptrs (table (isched st)) i"
    using wake_one_sub [OF rep] by blast
  have other: "queue_repr q2 (table s') (W a)" if "queue_repr q2 (table (isched st)) (W a)" "a \<noteq> (ep, True)" for q2 a
    by (intro repr_other [OF that(1)] fr waits_disjoint [OF assms(1) that(2)])
  have "waits_ok (put_channel ep (ch\<lparr>inner := (inner ch)\<lparr>buffer := b, not_full := q\<rparr>\<rparr>) w s' st) (W((ep, True) := xs))"
    if "length b \<le> capacity (inner ch)" for b w
    using assms x that other by (auto simp: waits_ok_def intro: parted_shrink)
  with w show ?thesis by blast
qed

subsection \<open>Plain sends and receives\<close>

lemma plain_send:
  assumes "ipc_ok st" and "bt_get (endpoints st) ep = Some ch"
  shows "\<exists>r ch' s'. raw_ipc_try_send ep h data None ModeNone st = Some (r, put_channel ep ch' (caps st) s' st) \<and>
    ipc_ok (put_channel ep ch' (caps st) s' st) \<and> endpoint_cap ch' = endpoint_cap ch \<and>
    capacity (inner ch') = capacity (inner ch) \<and>
    buffer (inner ch') = buffer (inner ch) @
      (if holds (caps st) h (endpoint_cap ch) RIGHT_WRITE \<and> length (buffer (inner ch)) < capacity (inner ch)
       then [new_plain data] else [])"
proof -
  from assms(1) obtain W where W: "world_ok (caps st)" "waits_ok st W" by (auto simp: ipc_ok_def)
  have same: "ipc_ok (put_channel ep ch (caps st) (isched st) st)"
    using W(1) waits_same [OF assms(2) W(2)] by (auto simp: ipc_ok_def)
  show ?thesis
  proof (cases rule: gate_cases [OF W(1), of h "endpoint_cap ch" RIGHT_WRITE])
    case 1
    then have seal: "seal ch h data None ModeNone (caps st) = Some (Ok (new_plain data), caps st)"
      by (simp add: seal_def attach_def new_plain_def)
    show ?thesis
    proof (cases "length (buffer (inner ch)) < capacity (inner ch)")
      case True
      obtain r q s' where w: "wake_one (not_empty (inner ch)) (isched st) = Some (r, q, s')"
        and ok: "\<And>b w. length b \<le> capacity (inner ch) \<Longrightarrow>
          \<exists>W'. waits_ok (put_channel ep (ch\<lparr>inner := (inner ch)\<lparr>buffer := b, not_empty := q\<rparr>\<rparr>) w s' st) W'"
        using wake_receivers [OF W(2) assms(2)] by blast
      let ?ch' = "ch\<lparr>inner := (inner ch)\<lparr>buffer := buffer (inner ch) @ [new_plain data], not_empty := q\<rparr>\<rparr>"
      have "ipc_ok (put_channel ep ?ch' (caps st) s' st)"
        using True W(1) ok [of "buffer (inner ch) @ [new_plain data]" "caps st"] by (simp add: ipc_ok_def)
      with True 1(2) seal assms(2) w show ?thesis
        by (intro exI [of _ "Ok ()"] exI [of _ ?ch'] exI [of _ s'])
          (simp add: raw_ipc_try_send_def cap_try_send_def try_send_def)
    next
      case False
      with seal assms(2) same show ?thesis
        by (auto simp: raw_ipc_try_send_def cap_try_send_def try_send_def)
    qed
  next
    case (2 e)
    with assms(2) same show ?thesis
      by (auto simp: raw_ipc_try_send_def cap_try_send_def seal_def)
  qed
qed

lemma plain_recv:
  assumes "ipc_ok st" and "bt_get (endpoints st) ep = Some ch"
  shows "\<exists>r ch' s'. cap_try_recv ch h (caps st) (isched st) = Some (r, ch', s') \<and>
    (\<forall>w. world_ok w \<longrightarrow> ipc_ok (put_channel ep ch' w s' st)) \<and> endpoint_cap ch' = endpoint_cap ch \<and>
    capacity (inner ch') = capacity (inner ch) \<and>
    (if holds (caps st) h (endpoint_cap ch) RIGHT_READ
     then r = Ok (case buffer (inner ch) of [] \<Rightarrow> None | m # _ \<Rightarrow> Some m) \<and> buffer (inner ch') = tl (buffer (inner ch))
     else \<not> is_ok r \<and> ch' = ch \<and> s' = isched st)"
proof -
  from assms(1) obtain W where W: "world_ok (caps st)" "waits_ok st W" by (auto simp: ipc_ok_def)
  have same: "\<And>w. world_ok w \<Longrightarrow> ipc_ok (put_channel ep ch w (isched st) st)"
    using W(1) waits_same [OF assms(2) W(2)] by (auto simp: ipc_ok_def)
  show ?thesis
  proof (cases rule: gate_cases [OF W(1), of h "endpoint_cap ch" RIGHT_READ])
    case 1
    show ?thesis
    proof (cases "buffer (inner ch)")
      case Nil
      with 1 same show ?thesis by (simp add: cap_try_recv_def try_recv_def)
    next
      case (Cons m rest)
      obtain r q s' where w: "wake_one (not_full (inner ch)) (isched st) = Some (r, q, s')"
        and ok: "\<And>b w. length b \<le> capacity (inner ch) \<Longrightarrow>
          \<exists>W'. waits_ok (put_channel ep (ch\<lparr>inner := (inner ch)\<lparr>buffer := b, not_full := q\<rparr>\<rparr>) w s' st) W'"
        using wake_senders [OF W(2) assms(2)] by blast
      have "length rest \<le> capacity (inner ch)" using W(2) assms(2) Cons by (force simp: waits_ok_def)
      with 1 Cons w ok [of rest] show ?thesis
        by (auto simp: cap_try_recv_def try_recv_def ipc_ok_def)
    qed
  next
    case (2 e)
    with same show ?thesis by (simp add: cap_try_recv_def)
  qed
qed

subsection \<open>Emptying a channel\<close>

text \<open>
  \<open>later w w'\<close>: the table of \<open>w'\<close> comes after that of \<open>w\<close>. \<open>live w a\<close>: the handle \<open>a\<close> names a slot;
  \<open>gone w a\<close>: its slot has moved on, for ever.
\<close>

definition later :: "cap_world \<Rightarrow> cap_world \<Rightarrow> bool" where
  "later w w' \<longleftrightarrow> w' = w \<or> (\<exists>s t. w_state w = Some s \<and> w' = w\<lparr>w_state := Some t\<rparr> \<and> (cap_ok s \<longrightarrow> cap_ok t \<and> cap_le s t))"

definition live :: "cap_world \<Rightarrow> cap_handle \<Rightarrow> bool" where
  "live w a \<longleftrightarrow> (\<exists>s. w_state w = Some s \<and> handle_slot s a \<noteq> None)"

definition gone :: "cap_world \<Rightarrow> cap_handle \<Rightarrow> bool" where
  "gone w a \<longleftrightarrow> (\<exists>s. w_state w = Some s \<and> h_slot a < length (slots s) \<and> h_gen a < s_gen (slots s ! h_slot a))"

lemma later_refl [simp]: "later w w"
  by (simp add: later_def)

lemma later_trans:
  assumes "later w w'" and "later w' w''"
  shows "later w w''"
proof (cases "w' = w \<or> w'' = w'")
  case True
  with assms show ?thesis by auto
next
  case False
  with assms obtain s t u where "w_state w = Some s" "w' = w\<lparr>w_state := Some t\<rparr>" "w'' = w\<lparr>w_state := Some u\<rparr>"
    "cap_ok s \<longrightarrow> cap_ok t \<and> cap_le s t" "cap_ok t \<longrightarrow> cap_ok u \<and> cap_le t u"
    by (auto simp: later_def)
  then have "cap_ok s \<longrightarrow> cap_ok u \<and> cap_le s u" using cap_le_trans by blast
  with \<open>w_state w = Some s\<close> \<open>w'' = _\<close> show ?thesis unfolding later_def by blast
qed

lemma later_ok: "later w w' \<Longrightarrow> world_ok w \<Longrightarrow> world_ok w'"
  by (auto simp: later_def world_ok_def)

lemma later_gone: "later w w' \<Longrightarrow> world_ok w \<Longrightarrow> gone w a \<Longrightarrow> gone w' a"
  by (fastforce simp: later_def gone_def world_ok_def cap_le_def slots_le_def)

lemma later_live:
  assumes "later w w'" and "world_ok w" and "live w a"
  shows "live w' a \<or> gone w' a"
proof (cases "w' = w")
  case False
  with assms obtain s t sl where s: "w_state w = Some s" "w' = w\<lparr>w_state := Some t\<rparr>" "cap_le s t" "handle_slot s a = Some sl"
    by (auto simp: later_def live_def world_ok_def)
  have a: "h_slot a < length (slots s)" "sl = slots s ! h_slot a" "\<not> s_free sl" "s_gen sl = h_gen a"
    using s(4) by (auto simp: handle_slot_Some)
  with s(3) have "h_slot a < length (slots t)" "h_gen a \<le> s_gen (slots t ! h_slot a)"
    "s_gen (slots t ! h_slot a) = h_gen a \<longrightarrow> slots t ! h_slot a = sl"
    by (auto simp: cap_le_def slots_le_def)
  then have "handle_slot t a = Some sl \<or> h_gen a < s_gen (slots t ! h_slot a)"
    using a by (auto simp: handle_slot_Some)
  with s(2) \<open>h_slot a < length (slots t)\<close> show ?thesis by (auto simp: live_def gone_def)
qed (use assms in simp)

lemma gone_checks: "gone w a \<Longrightarrow> read_state (check_rights a needed) w = Some (Err Invalid)"
  by (auto simp: gone_def read_state_def handle_slot_def check_rights_def)

lemma close_gone:
  assumes "with_state (close a) w = Some (r, w')" and "world_ok w" and "w_state w = Some s"
  shows "later w w'" and "live w a \<Longrightarrow> gone w' a"
proof -
  from assms(1,3) obtain t where t: "close a s = Some (r, t)" "w' = w\<lparr>w_state := Some t\<rparr>"
    by (auto simp: with_state_Some)
  show "later w w'" using close_moves [OF t(1)] t(2) assms(3) by (auto simp: later_def moves_def)
  assume "live w a"
  with t(1) assms(3) have "close a s = Some (Ok (), t)" by (auto simp: live_def close_def split: bind_splits)
  with t(2) close_dead show "gone w' a" by (auto simp: gone_def)
qed

lemma bt_insert_twice [simp]: "bt_insert k v (bt_insert k v' m) = bt_insert k v m"
  by (induction k v' m rule: bt_insert.induct) auto

lemma put_channel_twice [simp]: "put_channel ep ch w s (put_channel ep ch' w' s' st) = put_channel ep ch w s st"
  by (simp add: put_channel_def)

lemma drain_spec:
  assumes "ipc_ok st" and "bt_get (endpoints st) ep = Some ch" and "drain h ch (caps st) (isched st) = Some (n, ch', w', s')"
  shows "later (caps st) w' \<and> ipc_ok (put_channel ep ch' w' s' st) \<and> endpoint_cap ch' = endpoint_cap ch \<and>
    n \<le> length (buffer (inner ch)) \<and> buffer (inner ch') = drop n (buffer (inner ch)) \<and>
    (n < length (buffer (inner ch)) \<longrightarrow> \<not> holds w' h (endpoint_cap ch) RIGHT_READ) \<and>
    (\<forall>m \<in> set (take n (buffer (inner ch))). \<forall>a. m_capability m = Some a \<longrightarrow> live (caps st) a \<longrightarrow> gone w' a)"
  using assms
proof (induction "length (buffer (inner ch))" arbitrary: st ch n rule: less_induct)
  case less
  have wok: "world_ok (caps st)" using less.prems(1) by (simp add: ipc_ok_def)
  obtain r ch1 s1 where r: "cap_try_recv ch h (caps st) (isched st) = Some (r, ch1, s1)"
    and ok1: "\<And>w. world_ok w \<Longrightarrow> ipc_ok (put_channel ep ch1 w s1 st)"
    and same: "endpoint_cap ch1 = endpoint_cap ch" "capacity (inner ch1) = capacity (inner ch)"
    and res: "if holds (caps st) h (endpoint_cap ch) RIGHT_READ
     then r = Ok (case buffer (inner ch) of [] \<Rightarrow> None | m # _ \<Rightarrow> Some m) \<and> buffer (inner ch1) = tl (buffer (inner ch))
     else \<not> is_ok r \<and> ch1 = ch \<and> s1 = isched st"
    using plain_recv [OF less.prems(1,2), of h] by metis
  show ?case
  proof (cases "holds (caps st) h (endpoint_cap ch) RIGHT_READ \<and> buffer (inner ch) \<noteq> []")
    case False
    then have "n = 0 \<and> ch' = ch1 \<and> w' = caps st \<and> s' = s1 \<and> buffer (inner ch1) = buffer (inner ch)"
      using less.prems(3) r res by (subst (asm) drain.simps) (auto split: if_splits sum.splits option.splits simp: is_ok_def)
    with False ok1 [OF wok] same show ?thesis by auto
  next
    case True
    then obtain m rest where b: "buffer (inner ch) = m # rest" by (cases "buffer (inner ch)") auto
    with True res have r1: "r = Ok (Some m)" and b1: "buffer (inner ch1) = rest" by auto
    from True obtain s0 where s0: "w_state (caps st) = Some s0" by (auto simp: holds_def)
    let ?close = "case m_capability m of None \<Rightarrow> Some (caps st) | Some a \<Rightarrow> map_option snd (with_state (close a) (caps st))"
    obtain w1 n1 where w1: "?close = Some w1" and d: "drain h ch1 w1 s1 = Some (n1, ch', w', s')" and n: "n = Suc n1"
      using less.prems(3) r r1 by (subst (asm) drain.simps) (auto split: option.splits)
    have l1: "later (caps st) w1" and g1: "\<And>a. m_capability m = Some a \<Longrightarrow> live (caps st) a \<Longrightarrow> gone w1 a"
      using w1 close_gone [OF _ wok s0] by (auto split: option.splits)
    have wok1: "world_ok w1" by (rule later_ok [OF l1 wok])
    let ?st1 = "put_channel ep ch1 w1 s1 st"
    have IH: "later w1 w' \<and> ipc_ok (put_channel ep ch' w' s' st) \<and> endpoint_cap ch' = endpoint_cap ch1 \<and>
      n1 \<le> length rest \<and> buffer (inner ch') = drop n1 rest \<and>
      (n1 < length rest \<longrightarrow> \<not> holds w' h (endpoint_cap ch1) RIGHT_READ) \<and>
      (\<forall>m \<in> set (take n1 rest). \<forall>a. m_capability m = Some a \<longrightarrow> live w1 a \<longrightarrow> gone w' a)"
      using less.hyps [of ch1 ?st1 n1] b b1 d ok1 [OF wok1] by simp
    have "gone w' a" if "x \<in> set (take n1 rest)" "m_capability x = Some a" "live (caps st) a" for x a
      using IH that later_live [OF l1 wok that(3)] later_gone [OF _ wok1] by blast
    moreover have "gone w' a" if "m_capability m = Some a" "live (caps st) a" for a
      using IH g1 [OF that] later_gone [OF _ wok1] by blast
    ultimately show ?thesis using IH l1 same b n later_trans by auto
  qed
qed

text \<open>Only a slot generation at the top of its 32 bits can stop the loop.\<close>

definition gens_below :: "nat \<Rightarrow> cap_world \<Rightarrow> bool" where
  "gens_below n w \<longleftrightarrow> (\<forall>s. w_state w = Some s \<longrightarrow> (\<forall>sl \<in> set (slots s). s_gen sl + n < 2 ^ 32))"

lemma gens_below_mono: "gens_below m w \<Longrightarrow> n \<le> m \<Longrightarrow> gens_below n w"
  unfolding gens_below_def by (meson add_left_mono order.strict_trans1)

lemma close_gens:
  assumes "gens_below (Suc n) w"
  shows "\<exists>r w'. with_state (close a) w = Some (r, w') \<and> gens_below n w'"
proof (cases "w_state w")
  case None
  with assms show ?thesis by (auto simp: with_state_def gens_below_def)
next
  case (Some s)
  note g = assms [unfolded gens_below_def, rule_format, OF Some]
  show ?thesis
  proof (cases "handle_slot s a")
    case None
    then show ?thesis using Some g by (force simp: with_state_def close_def gens_below_def)
  next
    case sl: (Some sl)
    then have i: "h_slot a < length (slots s)" by (simp add: handle_slot_Some)
    have "slots s ! h_slot a \<in> set (slots s)" using i by simp
    note gi = g [OF this]
    have "s_gen x + n < 2 ^ 32" if "x \<in> set ((slots s)[h_slot a := (slots s ! h_slot a)\<lparr>s_free := True, s_gen := Suc (s_gen (slots s ! h_slot a))\<rparr>])" for x
      using that gi g [of x] by (auto dest!: set_update_subset_insert [THEN subsetD])
    with sl Some gi show ?thesis
      by (simp add: with_state_def close_def free_slot_def checked_add_def gens_below_def)
  qed
qed

lemma drain_returns:
  assumes "ipc_ok st" and "bt_get (endpoints st) ep = Some ch" and "gens_below (length (buffer (inner ch))) (caps st)"
  shows "\<exists>n ch' w' s'. drain h ch (caps st) (isched st) = Some (n, ch', w', s')"
  using assms
proof (induction "length (buffer (inner ch))" arbitrary: st ch rule: less_induct)
  case less
  have wok: "world_ok (caps st)" using less.prems(1) by (simp add: ipc_ok_def)
  obtain r ch1 s1 where r: "cap_try_recv ch h (caps st) (isched st) = Some (r, ch1, s1)"
    and ok1: "\<And>w. world_ok w \<Longrightarrow> ipc_ok (put_channel ep ch1 w s1 st)"
    using plain_recv [OF less.prems(1,2), of h] by metis
  show ?case
  proof (cases "\<exists>m. r = Ok (Some m)")
    case False
    with r show ?thesis by (subst drain.simps) (auto split: sum.split option.split)
  next
    case True
    then obtain m where m: "r = Ok (Some m)" ..
    note short = cap_try_recv_shorter [OF r [unfolded m]]
    then obtain k where k: "length (buffer (inner ch)) = Suc k" "length (buffer (inner ch1)) \<le> k"
      by (cases "length (buffer (inner ch))") auto
    obtain w1 where w1: "(case m_capability m of None \<Rightarrow> Some (caps st) | Some a \<Rightarrow> map_option snd (with_state (close a) (caps st))) = Some w1"
      "gens_below k w1" "world_ok w1"
    proof (cases "m_capability m")
      case None
      with less.prems(3) k(1) wok show ?thesis by (intro that [of "caps st"]) (auto intro: gens_below_mono)
    next
      case (Some a)
      obtain r2 w1 where c: "with_state (close a) (caps st) = Some (r2, w1)" "gens_below k w1"
        using close_gens [of k "caps st" a] less.prems(3) k(1) by auto
      have "world_ok w1"
        using c(1) wok close_gone(1) [OF c(1) wok] later_ok by (auto simp: with_state_Some)
      with Some c show ?thesis by (intro that [of w1]) auto
    qed
    have "gens_below (length (buffer (inner ch1))) w1"
      by (rule gens_below_mono [OF w1(2) k(2)])
    then have "\<exists>n ch' w' s'. drain h ch1 w1 s1 = Some (n, ch', w', s')"
      using less.hyps [OF short, of "put_channel ep ch1 w1 s1 st"] ok1 [OF w1(3)] by simp
    with r m w1(1) show ?thesis by (subst drain.simps) auto
  qed
qed

subsection \<open>Hang-up\<close>

text \<open>Removing an endpoint and waking everyone parked on it keeps the other endpoints well formed.\<close>

lemma wake_both_sides:
  assumes "waits_ok st W" and "bt_get (endpoints st) ep = Some ch"
    and "wake_all 0 (not_empty (inner ch)) (isched st) = Some (k1, q1, s1)" and "wake_all 0 (not_full (inner ch)) s1 = Some (k2, q2, s2)"
  shows "\<exists>W'. waits_ok (put_channel ep (ch\<lparr>inner := (inner ch)\<lparr>not_empty := q1, not_full := q2\<rparr>\<rparr>) w s2 st) W'"
proof -
  have reps: "queue_repr (not_empty (inner ch)) (table (isched st)) (W (ep, False))"
    "queue_repr (not_full (inner ch)) (table (isched st)) (W (ep, True))"
    using assms(1,2) by (auto simp: waits_ok_def)
  note A = wake_all_sub [OF reps(1) assms(3)]
  have keep1: "queue_repr q (table s1) (W a)" if "queue_repr q (table (isched st)) (W a)" "a \<noteq> (ep, False)" for q a
    using A waits_disjoint [OF assms(1) that(2)] by (intro repr_other [OF that(1)]) blast
  note B = wake_all_sub [OF keep1 [OF reps(2)] assms(4)]
  have keep2: "queue_repr q (table s2) (W a)"
    if "queue_repr q (table (isched st)) (W a)" "a \<noteq> (ep, False)" "a \<noteq> (ep, True)" for q a
    using B waits_disjoint [OF assms(1) that(3)] by (intro repr_other [OF keep1 [OF that(1,2)]]) blast
  have "queue_repr q1 (table s2) []" by (rule repr_other [OF A [THEN conjunct1]]) simp
  moreover have "parted (W((ep, False) := [], (ep, True) := []))"
    using assms(1) by (intro parted_shrink) (auto simp: waits_ok_def)
  moreover have "queue_repr (not_empty (inner c)) (table s2) (W (e, False)) \<and>
      queue_repr (not_full (inner c)) (table s2) (W (e, True)) \<and> length (buffer (inner c)) \<le> capacity (inner c)"
    if "bt_get (endpoints st) e = Some c" "e \<noteq> ep" for e c
    using assms(1) that keep2 [of _ "(e, False)"] keep2 [of _ "(e, True)"] by (auto simp: waits_ok_def)
  moreover have "length (buffer (inner ch)) \<le> capacity (inner ch)" using assms(1,2) by (auto simp: waits_ok_def)
  ultimately have "waits_ok (put_channel ep (ch\<lparr>inner := (inner ch)\<lparr>not_empty := q1, not_full := q2\<rparr>\<rparr>) w s2 st)
    (W((ep, False) := [], (ep, True) := []))"
    using B by (simp add: waits_ok_def)
  then show ?thesis by blast
qed

lemma waits_remove:
  "waits_ok (put_channel ep ch w s st) W \<Longrightarrow>
   waits_ok (st\<lparr>endpoints := bt_remove ep (endpoints st), caps := w, kern := (kern st)\<lparr>sched := s\<rparr>\<rparr>) W"
  by (auto simp: waits_ok_def put_channel_def split: if_splits)

lemma hangup_endpoint_spec:
  assumes "ipc_ok st" and "bt_get (endpoints st) ep = Some ch" and "hangup_endpoint ep ch st = Some st1"
  shows "ipc_ok st1 \<and> later (caps st) (caps st1) \<and> bt_get (endpoints st1) = (bt_get (endpoints st))(ep := None) \<and>
    owners st1 = owners st \<and> irq_bindings st1 = irq_bindings st"
proof -
  from assms(1) obtain W where W: "world_ok (caps st)" "waits_ok st W" by (auto simp: ipc_ok_def)
  from assms(3) obtain k1 q1 s1 k2 q2 s2 n ch2 w s3 where
    wk: "wake_all 0 (not_empty (inner ch)) (isched st) = Some (k1, q1, s1)" "wake_all 0 (not_full (inner ch)) s1 = Some (k2, q2, s2)"
    and dr: "drain (endpoint_cap ch) (ch\<lparr>inner := (inner ch)\<lparr>not_empty := q1, not_full := q2\<rparr>\<rparr>) (caps st) s2 = Some (n, ch2, w, s3)"
    and eq: "st1 = st\<lparr>endpoints := bt_remove ep (endpoints st), caps := w, kern := (kern st)\<lparr>sched := s3\<rparr>\<rparr>"
    by (auto simp: hangup_endpoint_def split: bind_splits)
  let ?ch1 = "ch\<lparr>inner := (inner ch)\<lparr>not_empty := q1, not_full := q2\<rparr>\<rparr>"
  have "ipc_ok (put_channel ep ?ch1 (caps st) s2 st)"
    using wake_both_sides [OF W(2) assms(2) wk] W(1) by (auto simp: ipc_ok_def)
  from drain_spec [OF this, of ep ?ch1 "endpoint_cap ch" n ch2 w s3] dr
  have d: "later (caps st) w" "ipc_ok (put_channel ep ch2 w s3 st)" by simp_all
  then obtain W2 where "waits_ok (put_channel ep ch2 w s3 st) W2" by (auto simp: ipc_ok_def)
  from waits_remove [OF this] eq have "waits_ok st1 W2" by simp
  with d(1) eq later_ok [OF d(1) W(1)] show ?thesis by (auto simp: ipc_ok_def fun_eq_iff)
qed

lemma hangup_one_spec:
  assumes "ipc_ok st" and "bt_ok (irq_bindings st)" and "hangup_one ep st = Some st'"
  shows "ipc_ok st' \<and> bt_get (endpoints st') = (bt_get (endpoints st))(ep := None) \<and>
    bt_get (owners st') = (bt_get (owners st))(ep := None) \<and> bt_ok (irq_bindings st') \<and> later (caps st) (caps st') \<and>
    (\<forall>irq. bt_get (irq_bindings st') irq =
       (case bt_get (irq_bindings st) irq of None \<Rightarrow> None | Some b \<Rightarrow> if b_ep b = ep then None else Some b))"
proof -
  let ?st = "st\<lparr>owners := bt_remove ep (owners st)\<rparr>"
  have ok: "ipc_ok ?st" using assms(1) by simp
  from assms(3) obtain st1 where st': "st' = st1\<lparr>irq_bindings := fold bt_remove (irqs_of ep st1) (irq_bindings st1)\<rparr>"
    and st1: "(case bt_get (endpoints st) ep of None \<Rightarrow> Some ?st | Some ch \<Rightarrow> hangup_endpoint ep ch ?st) = Some st1"
    unfolding hangup_one_def by (auto split: bind_splits)
  have core: "ipc_ok st1 \<and> later (caps st) (caps st1) \<and> bt_get (endpoints st1) = (bt_get (endpoints st))(ep := None) \<and>
    owners st1 = bt_remove ep (owners st) \<and> irq_bindings st1 = irq_bindings st"
  proof (cases "bt_get (endpoints st) ep")
    case None
    with st1 ok show ?thesis by (auto simp: fun_eq_iff)
  next
    case (Some ch)
    with st1 hangup_endpoint_spec [OF ok, of ep ch st1] show ?thesis by (simp add: fun_eq_iff)
  qed
  have "bt_get (irq_bindings st') irq =
       (case bt_get (irq_bindings st) irq of None \<Rightarrow> None | Some b \<Rightarrow> if b_ep b = ep then None else Some b)" for irq
    using core st' bt_remove_where [OF assms(2)] by (simp add: irqs_of_def case_prod_unfold split: option.split)
  moreover have "ipc_ok st'" using core st' by simp
  ultimately show ?thesis using core st' assms(2) by (simp add: bt.ok_fold_rem fun_eq_iff)
qed

lemma hangup_all_spec:
  assumes "ipc_ok st" and "bt_ok (irq_bindings st)" and "hangup_all eps st = Some st'"
  shows "ipc_ok st' \<and> bt_ok (irq_bindings st') \<and> later (caps st) (caps st') \<and>
    (\<forall>ep. bt_get (endpoints st') ep = (if ep \<in> set eps then None else bt_get (endpoints st) ep) \<and>
          bt_get (owners st') ep = (if ep \<in> set eps then None else bt_get (owners st) ep)) \<and>
    (\<forall>irq. bt_get (irq_bindings st') irq =
       (case bt_get (irq_bindings st) irq of None \<Rightarrow> None | Some b \<Rightarrow> if b_ep b \<in> set eps then None else Some b))"
  using assms
proof (induction eps arbitrary: st)
  case Nil
  then show ?case by (auto split: option.splits)
next
  case (Cons ep eps)
  from Cons.prems(3) obtain st1 where h: "hangup_one ep st = Some st1" "hangup_all eps st1 = Some st'"
    by (auto split: bind_splits)
  note one = hangup_one_spec [OF Cons.prems(1,2) h(1)]
  note rest = Cons.IH [OF one [THEN conjunct1] _ h(2)]
  show ?case using one rest later_trans by (auto split: option.splits)
qed

subsection \<open>Delivery of interrupts\<close>

text \<open>The messages a list of interrupts means for the endpoint \<open>ep\<close> whose root handle is \<open>root\<close>.\<close>

definition irq_messages :: "'q ipc \<Rightarrow> nat \<Rightarrow> cap_handle \<Rightarrow> irq_msg list \<Rightarrow> bytes cap_message list" where
  "irq_messages st ep root es =
     map (\<lambda>(irq, payload). new_plain [payload])
       (filter (\<lambda>(irq, _). \<exists>b. bt_get (irq_bindings st) irq = Some b \<and> b_ep b = ep \<and>
          holds (caps st) (b_writer b) root RIGHT_WRITE) es)"

lemma pop_all_spec:
  assumes "fifo_queue contents accepts put pop ok" and "ok q"
  shows "\<exists>q'. pop_all pop q = Some (contents q, q') \<and> ok q' \<and> contents q' = []"
  using assms(2)
proof (induction "contents q" arbitrary: q)
  case Nil
  then have "pop q = None" using fifo_queue.get_first_None [OF assms(1)] by metis
  with Nil show ?case by (subst pop_all.simps) simp
next
  case (Cons e es)
  have "pop q \<noteq> None" using fifo_queue.get_first_None [OF assms(1) Cons.prems] Cons.hyps(2) by auto
  then obtain e' q1 where p: "pop q = Some (e', q1)" by auto
  have f: "contents q = e' # contents q1" "ok q1"
    using fifo_queue.get_first_Some [OF assms(1) Cons.prems p] fifo_queue.ok_get_first [OF assms(1) Cons.prems p] by auto
  with Cons.hyps obtain q' where "pop_all pop q1 = Some (contents q1, q')" "ok q'" "contents q' = []" by auto
  with p f show ?case by (subst pop_all.simps) simp
qed

lemma deliver_events_spec:
  assumes "ipc_ok st"
  shows "\<exists>st'. deliver_events es st = Some st' \<and> ipc_ok st' \<and> caps st' = caps st \<and> irq_bindings st' = irq_bindings st \<and>
    irq_events st' = irq_events st \<and>
    (\<forall>ep ch. bt_get (endpoints st) ep = Some ch \<longrightarrow> (\<exists>ch'. bt_get (endpoints st') ep = Some ch' \<and>
       endpoint_cap ch' = endpoint_cap ch \<and> capacity (inner ch') = capacity (inner ch) \<and>
       buffer (inner ch') = buffer (inner ch) @
         take (capacity (inner ch) - length (buffer (inner ch))) (irq_messages st ep (endpoint_cap ch) es)))"
  using assms
proof (induction es arbitrary: st)
  case Nil
  then show ?case by (simp add: irq_messages_def)
next
  case (Cons e es)
  obtain irq payload where e: "e = (irq, payload)" by (cases e)
  show ?case
  proof (cases "bt_get (irq_bindings st) irq")
    case None
    then have "irq_messages st ep root (e # es) = irq_messages st ep root es" for ep root
      by (simp add: irq_messages_def e)
    with None Cons show ?thesis by (simp add: e)
  next
    case (Some b)
    show ?thesis
    proof (cases "bt_get (endpoints st) (b_ep b)")
      case None
      with Some have step: "deliver_events (e # es) st = deliver_events es st"
        by (simp add: e raw_ipc_try_send_def)
      have "irq_messages st ep (endpoint_cap ch) (e # es) = irq_messages st ep (endpoint_cap ch) es"
        if "bt_get (endpoints st) ep = Some ch" for ep ch
        using that None Some by (auto simp: irq_messages_def e)
      with step Cons.IH [OF Cons.prems] show ?thesis by simp
    next
      case ch: (Some ch)
      let ?hold = "holds (caps st) (b_writer b) (endpoint_cap ch) RIGHT_WRITE"
      obtain r ch1 s1 where snd: "raw_ipc_try_send (b_ep b) (b_writer b) [payload] None ModeNone st =
          Some (r, put_channel (b_ep b) ch1 (caps st) s1 st)"
        and ok1: "ipc_ok (put_channel (b_ep b) ch1 (caps st) s1 st)"
        and c1: "endpoint_cap ch1 = endpoint_cap ch" "capacity (inner ch1) = capacity (inner ch)"
        and b1: "buffer (inner ch1) = buffer (inner ch) @
          (if ?hold \<and> length (buffer (inner ch)) < capacity (inner ch) then [new_plain [payload]] else [])"
        using plain_send [OF Cons.prems ch] by blast
      let ?st1 = "put_channel (b_ep b) ch1 (caps st) s1 st"
      have step: "deliver_events (e # es) st = deliver_events es ?st1" using Some snd by (simp add: e)
      have msgs: "irq_messages ?st1 ep root es = irq_messages st ep root es" for ep root
        by (simp add: irq_messages_def)
      have cons: "irq_messages st ep root (e # es) =
          (if b_ep b = ep \<and> holds (caps st) (b_writer b) root RIGHT_WRITE then [new_plain [payload]] else []) @
          irq_messages st ep root es" for ep root
        using Some by (simp add: irq_messages_def e)
      have buf: "buffer (inner ch) @ take (capacity (inner ch) - length (buffer (inner ch))) (irq_messages st (b_ep b) (endpoint_cap ch) (e # es)) =
          buffer (inner ch1) @ take (capacity (inner ch) - length (buffer (inner ch1))) (irq_messages st (b_ep b) (endpoint_cap ch) es)"
        using b1 by (cases "length (buffer (inner ch)) < capacity (inner ch)") (auto simp: cons take_Cons')
      obtain st' where st': "deliver_events es ?st1 = Some st'" "ipc_ok st'" "caps st' = caps st"
        "irq_bindings st' = irq_bindings st" "irq_events st' = irq_events st"
        and eps: "\<And>ep c. bt_get (endpoints ?st1) ep = Some c \<Longrightarrow> \<exists>ch'. bt_get (endpoints st') ep = Some ch' \<and>
          endpoint_cap ch' = endpoint_cap c \<and> capacity (inner ch') = capacity (inner c) \<and>
          buffer (inner ch') = buffer (inner c) @
            take (capacity (inner c) - length (buffer (inner c))) (irq_messages st ep (endpoint_cap c) es)"
        using Cons.IH [OF ok1] by (auto simp: msgs)
      have "\<exists>ch'. bt_get (endpoints st') ep = Some ch' \<and> endpoint_cap ch' = endpoint_cap c \<and>
          capacity (inner ch') = capacity (inner c) \<and> buffer (inner ch') = buffer (inner c) @
            take (capacity (inner c) - length (buffer (inner c))) (irq_messages st ep (endpoint_cap c) (e # es))"
        if "bt_get (endpoints st) ep = Some c" for ep c
      proof (cases "ep = b_ep b")
        case True
        with that ch have "c = ch" by simp
        with eps [of ep ch1] True c1 buf show ?thesis by simp
      next
        case False
        with eps [of ep c] that cons [of ep] show ?thesis by simp
      qed
      with st' step show ?thesis by simp
    qed
  qed
qed

subsection \<open>Properties\<close>

text \<open>
  C12. Nobody sends without the right: a non-blocking send succeeds only with a live handle that holds
  WRITE on the very object of the endpoint (no confused deputy) and with room in the queue, and then
  appends one envelope with the payload; a send that fails leaves every queue as it was; no other
  endpoint is touched.
\<close>

theorem ipc_send_authorised:
  assumes "world_ok (caps st)" and "raw_ipc_try_send ep h data att mode st = Some (r, st')"
  shows "(case r of
      Inr _ \<Rightarrow> \<exists>ch ch' m. bt_get (endpoints st) ep = Some ch \<and> bt_get (endpoints st') ep = Some ch' \<and>
        holds (caps st) h (endpoint_cap ch) RIGHT_WRITE \<and> length (buffer (inner ch)) < capacity (inner ch) \<and>
        buffer (inner ch') = buffer (inner ch) @ [m] \<and> m_payload m = data \<and> m_mode m = mode \<and>
        (mode \<noteq> ModeTransfer \<longrightarrow> m_capability m = att)
    | Inl _ \<Rightarrow> map_option (buffer \<circ> inner) (bt_get (endpoints st') ep) = map_option (buffer \<circ> inner) (bt_get (endpoints st) ep)) \<and>
    (\<forall>e. e \<noteq> ep \<longrightarrow> bt_get (endpoints st') e = bt_get (endpoints st) e)"
proof (cases "bt_get (endpoints st) ep")
  case None
  with assms(2) show ?thesis by (auto simp: raw_ipc_try_send_def)
next
  case (Some ch)
  with assms(2) obtain ch' w s where t: "cap_try_send ch h data att mode (caps st) (isched st) = Some (r, ch', w, s)"
    and st': "st' = put_channel ep ch' w s st"
    by (auto simp: raw_ipc_try_send_def split: bind_splits)
  from t obtain r1 w1 where sl: "seal ch h data att mode (caps st) = Some (r1, w1)"
    by (auto simp: cap_try_send_def split: bind_splits)
  show ?thesis
  proof (cases r1)
    case (Inl e)
    with t sl st' Some show ?thesis by (auto simp: cap_try_send_def)
  next
    case (Inr env)
    with t sl st' Some seal_Ok [OF assms(1), of ch h data att mode env w1] show ?thesis
      by (auto simp: cap_try_send_def try_send_def split: bind_splits if_splits)
  qed
qed

definition list_pop :: "'a list \<Rightarrow> ('a \<times> 'a list) option" where
  "list_pop q = (case q of [] \<Rightarrow> None | x # xs \<Rightarrow> Some (x, xs))"

text \<open>A registry with one endpoint of capacity 2, owned by process 42 and bound to interrupt 1.\<close>

definition demo_caps :: cap_world where
  "demo_caps = empty_world\<lparr>w_state := Some \<lparr>
     slots = map (\<lambda>i. \<lparr>s_node = i, s_object = i, s_rights = 0x3FF, s_gen = 1, s_free = False, s_lent = False\<rparr>) [0, 1, 2],
     nodes = replicate 3 \<lparr>n_parent = None, n_epoch = 0\<rparr>,
     objects = map (\<lambda>k. \<lparr>o_kind = k, o_refcount = 0, o_gen = 1, o_valid = True\<rparr>) [KEndpoint, KMemory, KDevice]\<rparr>\<rparr>"

definition demo_ipc :: "bytes cap_message list \<Rightarrow> irq_msg list \<Rightarrow> irq_msg list ipc" where
  "demo_ipc buf evs = \<lparr>caps = demo_caps, kern = boot_kernel,
     endpoints = [(8, \<lparr>endpoint_cap = handle 0 1, inner = (new_channel 2)\<lparr>buffer := buf\<rparr>\<rparr>)], owners = [(8, 42)],
     next_ep_id = 9, irq_bindings = [(1, \<lparr>b_ep = 8, b_writer = handle 0 1\<rparr>)], irq_nonempty = True, irq_events = Some evs\<rparr>"

lemma demo_caps_ok: "world_ok demo_caps"
  by (simp add: world_ok_def demo_caps_def empty_world_def cap_ok_def wf_nodes_def MAX_CAP_SLOTS_def MAX_CAP_NODES_def
      MAX_CAP_OBJECTS_def numeral_3_eq_3 less_Suc_eq)

lemma demo_ipc_ok: "length buf \<le> 2 \<Longrightarrow> ipc_ok (demo_ipc buf evs)"
  by (auto simp: ipc_ok_def waits_ok_def demo_ipc_def demo_caps_ok parted_def new_channel_def new_queue_def queue_repr_def
      intro!: exI [of _ "\<lambda>_. []"])

lemma demo_holds: "holds demo_caps (handle 0 1) (handle 0 1) RIGHT_WRITE" "holds demo_caps (handle 0 1) (handle 0 1) RIGHT_READ"
  unfolding gate_Ok [OF demo_caps_ok, symmetric]
  by (simp_all add: read_state_def demo_caps_def empty_world_def check_rights_for_object_def
      check_rights_def handle_slot_def is_revoked.simps object_valid_def rights_contains_def right_bits)

lemmas demo_eval = demo_ipc_def new_channel_def new_queue_def wake_one.simps dequeue_internal_def dequeue_links.simps

theorem ipc_send_authorised_witness:
  "\<exists>st'. raw_ipc_try_send 8 (handle 0 1) [7] None ModeNone (demo_ipc [] []) = Some (Ok (), st') \<and>
     map_option (\<lambda>c. map m_payload (buffer (inner c))) (bt_get (endpoints st') 8) = Some [[7]]"
proof -
  let ?st = "demo_ipc [] []"
  have g: "read_state (check_rights_for_object (handle 0 1) (handle 0 1) RIGHT_WRITE) demo_caps = Some (Ok ())"
    using demo_holds(1) gate_Ok [OF demo_caps_ok] by blast
  obtain st' where s: "raw_ipc_try_send 8 (handle 0 1) [7] None ModeNone ?st = Some (Ok (), st')"
    using g by (simp add: raw_ipc_try_send_def cap_try_send_def seal_def attach_def try_send_def demo_eval)
  have "world_ok (caps ?st)" by (simp add: demo_ipc_def demo_caps_ok)
  from ipc_send_authorised [OF this s] s show ?thesis by (auto simp: demo_ipc_def new_channel_def)
qed

text \<open>
  Cancelling an endpoint returns and closes what was in flight: it takes the first \<open>n\<close> messages
  out, every capability attached to one of them is dead afterwards, and it leaves messages behind only if
  the caller's handle no longer has READ on the endpoint.
\<close>

theorem cancel_closes_in_flight:
  assumes "ipc_ok st" and "bt_get (endpoints st) ep = Some ch" and "gens_below (length (buffer (inner ch))) (caps st)"
  shows "\<exists>n st' ch'. cancel_endpoint ep h st = Some (Ok n, st') \<and> ipc_ok st' \<and> bt_get (endpoints st') ep = Some ch' \<and>
    buffer (inner ch') = drop n (buffer (inner ch)) \<and>
    (buffer (inner ch') \<noteq> [] \<longrightarrow> \<not> holds (caps st') h (endpoint_cap ch) RIGHT_READ) \<and>
    (\<forall>m \<in> set (take n (buffer (inner ch))). \<forall>a. m_capability m = Some a \<and> live (caps st) a \<longrightarrow>
       read_state (check_rights a needed) (caps st') = Some (Err Invalid))"
proof -
  obtain n ch' w' s' where d: "drain h ch (caps st) (isched st) = Some (n, ch', w', s')"
    using drain_returns [OF assms] by blast
  note spec = drain_spec [OF assms(1,2) d]
  have "cancel_endpoint ep h st = Some (Ok n, put_channel ep ch' w' s' st)"
    using assms(2) d by (simp add: cancel_endpoint_def)
  with spec show ?thesis
    by (intro exI [of _ n] exI [of _ "put_channel ep ch' w' s' st"] exI [of _ ch']) (auto intro: gone_checks)
qed

theorem cancel_closes_in_flight_witness:
  "\<exists>st'. cancel_endpoint 8 (handle 0 1) (demo_ipc [new_with_cap [1] (handle 1 1) ModeLend] []) = Some (Ok 1, st') \<and>
     read_state (check_rights (handle 1 1) 0) (caps st') = Some (Err Invalid)"
proof -
  let ?m = "new_with_cap [1 :: 8 word] (handle 1 1) ModeLend" let ?st = "demo_ipc [?m] []"
  have ok: "ipc_ok ?st" by (rule demo_ipc_ok) simp
  have ch: "bt_get (endpoints ?st) 8 = Some \<lparr>endpoint_cap = handle 0 1, inner = (new_channel 2)\<lparr>buffer := [?m]\<rparr>\<rparr>"
    by (simp add: demo_ipc_def)
  have g: "gens_below (length [?m]) (caps ?st)" "live (caps ?st) (handle 1 1)"
    by (simp_all add: gens_below_def live_def demo_ipc_def demo_caps_def handle_slot_def)
  have n: "map_option fst (cancel_endpoint 8 (handle 0 1) ?st) = Some (Ok 1)"
    by (simp add: cancel_endpoint_def demo_eval, subst drain.simps,
        simp add: cap_try_recv_def try_recv_def read_state_def check_rights_for_object_def check_rights_def handle_slot_def
          is_revoked.simps object_valid_def rights_contains_def right_bits demo_caps_def empty_world_def demo_eval new_with_cap_def
          with_state_def close_def free_slot_def checked_add_def, subst drain.simps,
        simp add: cap_try_recv_def try_recv_def read_state_def check_rights_for_object_def check_rights_def handle_slot_def
          is_revoked.simps object_valid_def rights_contains_def right_bits)
  from cancel_closes_in_flight [OF ok ch, of "handle 0 1" 0] g n
  show ?thesis by (auto simp: new_with_cap_def)
qed

text \<open>
  C17. The hang-up of a process is complete: every endpoint it owned is gone, so sends and receives on it
  answer \<open>NotFound\<close>, no interrupt stays bound to one of them, and the endpoints and bindings of the
  others are untouched.
\<close>

theorem hangup_is_complete:
  assumes "ipc_ok st" and "bt_ok (irq_bindings st)" and "bt_ok (owners st)" and "hangup_channel_for_pid pid st = Some st'"
  shows "ipc_ok st' \<and>
    (\<forall>ep. bt_get (owners st) ep = Some pid \<longrightarrow> bt_get (owners st') ep = None \<and>
       raw_ipc_try_send ep h data att mode st' = Some (Err NotFound, st') \<and>
       raw_ipc_try_recv ep h st' = Some (Err NotFound, st')) \<and>
    (\<forall>ep. bt_get (owners st) ep \<noteq> Some pid \<longrightarrow> bt_get (endpoints st') ep = bt_get (endpoints st) ep \<and>
       bt_get (owners st') ep = bt_get (owners st) ep) \<and>
    (\<forall>irq. bt_get (irq_bindings st') irq =
       (case bt_get (irq_bindings st) irq of None \<Rightarrow> None | Some b \<Rightarrow> if bt_get (owners st) (b_ep b) = Some pid then None else Some b))"
proof -
  have eps: "ep \<in> set (owned_by pid st) \<longleftrightarrow> bt_get (owners st) ep = Some pid" for ep
    using bt_get_iff [OF assms(3), of ep pid] by (force simp: owned_by_def)
  show ?thesis
  proof (cases "owned_by pid st = []")
    case True
    then have "\<And>ep. bt_get (owners st) ep \<noteq> Some pid" using eps by (metis empty_iff empty_set)
    with True assms show ?thesis by (auto simp: hangup_channel_for_pid_def split: option.splits)
  next
    case False
    with assms(4) obtain st1 where h: "hangup_all (owned_by pid st) st = Some st1"
      and st': "st' = (if irq_bindings st1 = [] then st1\<lparr>irq_nonempty := False\<rparr> else st1)"
      by (auto simp: hangup_channel_for_pid_def Let_def split: bind_splits)
    note spec = hangup_all_spec [OF assms(1,2) h, unfolded eps]
    have "endpoints st' = endpoints st1" "owners st' = owners st1" "irq_bindings st' = irq_bindings st1" "ipc_ok st'"
      using st' spec by auto
    with spec show ?thesis by (simp add: raw_ipc_try_send_def raw_ipc_try_recv_def)
  qed
qed

theorem hangup_is_complete_witness:
  "\<exists>st'. hangup_channel_for_pid 42 (demo_ipc [] []) = Some st' \<and>
     raw_ipc_try_send 8 (handle 0 1) [1] None ModeNone st' = Some (Err NotFound, st') \<and> bt_get (irq_bindings st') 1 = None"
proof -
  let ?st = "demo_ipc [] []"
  obtain st' where h: "hangup_channel_for_pid 42 ?st = Some st'"
    by (simp add: hangup_channel_for_pid_def owned_by_def hangup_one_def hangup_endpoint_def wake_all.simps demo_eval, subst (asm) drain.simps,
        simp add: cap_try_recv_def try_recv_def read_state_def check_rights_for_object_def check_rights_def handle_slot_def
          is_revoked.simps object_valid_def rights_contains_def right_bits demo_caps_def empty_world_def)
  have "ipc_ok ?st" "bt_ok (irq_bindings ?st)" "bt_ok (owners ?st)"
    using demo_ipc_ok [of "[]" "[]"] by (simp_all add: demo_ipc_def bt_ok_def)
  from hangup_is_complete [OF this h] h show ?thesis by (auto simp: demo_ipc_def)
qed

text \<open>
  C18. Interrupts reach their endpoint in order: for any queue of pending events that is a FIFO, delivery
  returns, empties the queue, and appends to each endpoint, as far as its capacity goes, exactly the
  payloads of the events bound to it by a handle that still holds WRITE on it.
\<close>

theorem irq_delivery_in_order:
  assumes "fifo_queue contents accepts put pop ok" and "ipc_ok st" and "irq_events st = Some q" and "ok q"
    and "bt_get (endpoints st) ep = Some ch"
  shows "\<exists>st' q' ch'. deliver_pending_irqs pop st = Some st' \<and> ipc_ok st' \<and> irq_events st' = Some q' \<and> contents q' = [] \<and>
    bt_get (endpoints st') ep = Some ch' \<and> buffer (inner ch') = buffer (inner ch) @
      take (capacity (inner ch) - length (buffer (inner ch))) (irq_messages st ep (endpoint_cap ch) (contents q))"
proof -
  obtain q' where p: "pop_all pop q = Some (contents q, q')" "contents q' = []" using pop_all_spec [OF assms(1,4)] by blast
  let ?st = "st\<lparr>irq_events := Some q'\<rparr>"
  have msgs: "irq_messages ?st = irq_messages st" by (intro ext) (simp add: irq_messages_def)
  have "ipc_ok ?st" using assms(2) by simp
  from deliver_events_spec [OF this, of "contents q"] obtain st' ch' where d: "deliver_events (contents q) ?st = Some st'" "ipc_ok st'"
    "irq_events st' = Some q'" "bt_get (endpoints st') ep = Some ch'"
    "buffer (inner ch') = buffer (inner ch) @
      take (capacity (inner ch) - length (buffer (inner ch))) (irq_messages st ep (endpoint_cap ch) (contents q))"
    unfolding msgs using assms(5) by force
  moreover have "deliver_pending_irqs pop st = Some st'" using assms(3) p(1) d(1) by (simp add: deliver_pending_irqs_def)
  ultimately show ?thesis using p(2) by blast
qed

lemma list_queue_fifo: "fifo_queue (\<lambda>q. q) (\<lambda>_ q. length q < n) (\<lambda>e q. q @ [e]) list_pop (\<lambda>_. True)"
  by unfold_locales (auto simp: list_pop_def split: list.splits)

theorem irq_delivery_in_order_witness:
  "\<exists>st' ch'. deliver_pending_irqs list_pop (demo_ipc [] [(1, 0x4b), (4, 0x99), (1, 0x4c), (1, 1)]) = Some st' \<and>
     bt_get (endpoints st') 8 = Some ch' \<and> map m_payload (buffer (inner ch')) = [[0x4b], [0x4c]]"
proof -
  let ?st = "demo_ipc [] [(1, 0x4b), (4, 0x99), (1, 0x4c), (1, 1)]"
  have ok: "ipc_ok ?st" by (rule demo_ipc_ok) simp
  have ev: "irq_events ?st = Some [(1, 0x4b), (4, 0x99), (1, 0x4c), (1, 1)]" by (simp add: demo_ipc_def)
  have ch: "bt_get (endpoints ?st) 8 = Some \<lparr>endpoint_cap = handle 0 1, inner = (new_channel 2)\<lparr>buffer := []\<rparr>\<rparr>"
    by (simp add: demo_ipc_def)
  have "\<exists>st' q' ch'. deliver_pending_irqs list_pop ?st = Some st' \<and> ipc_ok st' \<and> irq_events st' = Some q' \<and> q' = [] \<and>
    bt_get (endpoints st') 8 = Some ch' \<and>
    buffer (inner ch') = take 2 (irq_messages ?st 8 (handle 0 1) [(1, 0x4b), (4, 0x99), (1, 0x4c), (1, 1)])"
    using irq_delivery_in_order [OF list_queue_fifo [of 256] ok ev _ ch] by (simp add: new_channel_def)
  then show ?thesis
    using demo_holds(1) by (auto simp: irq_messages_def demo_ipc_def new_plain_def numeral_2_eq_2)
qed

text \<open>
  Only the manager of a device binds an interrupt: a successful bind had a live handle with MANAGE
  on a Device object, an interrupt of the controller, a registered endpoint, and a writer handle with WRITE on
  that endpoint's object; the binding is recorded and the handler's gate is opened.
\<close>

theorem irq_bind_gate:
  assumes "world_ok (caps st)" and "bind_irq dev irq ep writer st = Some (Ok (), st')"
  shows "\<exists>s sl ch. w_state (caps st) = Some s \<and> handle_slot s dev = Some sl \<and> rights_contains (s_rights sl) RIGHT_MANAGE \<and>
    \<not> revoked (nodes s) (s_node sl) \<and> o_kind (objects s ! s_object sl) = KDevice \<and> irq \<le> 15 \<and>
    bt_get (endpoints st) ep = Some ch \<and> holds (caps st) writer (endpoint_cap ch) RIGHT_WRITE \<and>
    bt_get (irq_bindings st') irq = Some \<lparr>b_ep = ep, b_writer = writer\<rparr> \<and> irq_nonempty st'"
proof -
  from assms(2) obtain ch where g: "device_gate dev (caps st) = Some (Ok ())" and irq: "irq \<le> 15"
    and ch: "bt_get (endpoints st) ep = Some ch"
    and wr: "read_state (check_rights_for_object writer (endpoint_cap ch) RIGHT_WRITE) (caps st) = Some (Ok ())"
    and st': "st' = st\<lparr>irq_nonempty := True, irq_bindings := bt_insert irq \<lparr>b_ep = ep, b_writer = writer\<rparr> (irq_bindings st)\<rparr>"
    by (auto simp: bind_irq_def split: bind_splits sum.splits if_splits option.splits)
  from g obtain s kind i where s: "w_state (caps st) = Some s" "check_rights dev RIGHT_MANAGE s = Some (Ok ())"
    "object_identity dev s = Some (Ok (kind, i))" "kind = KDevice"
    by (auto simp: device_gate_def read_state_def split: bind_splits option.splits sum.splits if_splits)
  have "cap_ok s" using s(1) assms(1) by (simp add: world_ok_def)
  with s irq ch wr st' gate_Ok [OF assms(1)] show ?thesis by (auto simp: object_identity_Ok check_rights_Ok)
qed

theorem irq_bind_gate_witness:
  "\<exists>st'. bind_irq (handle 2 1) 3 8 (handle 0 1) (demo_ipc [] []) = Some (Ok (), st') \<and>
     bt_get (irq_bindings st') 3 = Some \<lparr>b_ep = 8, b_writer = handle 0 1\<rparr>"
proof -
  have "world_ok (caps (demo_ipc [] []))" by (simp add: demo_ipc_def demo_caps_ok)
  moreover obtain st' where b: "bind_irq (handle 2 1) 3 8 (handle 0 1) (demo_ipc [] []) = Some (Ok (), st')"
    by (simp add: bind_irq_def device_gate_def demo_ipc_def demo_caps_def empty_world_def read_state_def check_rights_for_object_def
        check_rights_def handle_slot_def is_revoked.simps object_valid_def object_identity_def rights_contains_def right_bits
        numeral_2_eq_2)
  ultimately show ?thesis using irq_bind_gate by blast
qed

text \<open>
  A non-blocking send that transfers a capability into a full queue loses it: the call answers
  \<open>Exhausted\<close> and queues nothing, but the sender's handle is already dead.
\<close>

theorem full_try_send_loses_capability:
  assumes "world_ok (caps st)" and "bt_get (endpoints st) ep = Some ch" and "capacity (inner ch) \<le> length (buffer (inner ch))"
    and "seal ch h data (Some a) ModeTransfer (caps st) = Some (Ok env, w)"
  shows "\<exists>st'. raw_ipc_try_send ep h data (Some a) ModeTransfer st = Some (Err Exhausted, st') \<and>
    map_option (buffer \<circ> inner) (bt_get (endpoints st') ep) = Some (buffer (inner ch)) \<and>
    read_state (check_rights a needed) (caps st') = Some (Err Invalid)"
proof -
  obtain s t k where t: "w_state (caps st) = Some s" "transfer a rights_all s = Some (Ok k, t)" "w = (caps st)\<lparr>w_state := Some t\<rparr>"
    using seal_Ok(5) [OF assms(1,4)] by blast
  have "cap_ok s" using t(1) assms(1) by (simp add: world_ok_def)
  from transfer_Ok [OF this t(2)] have "check_rights a needed t = Some (Err Invalid)" by blast
  with assms(2-4) t(3) show ?thesis
    by (simp add: raw_ipc_try_send_def cap_try_send_def try_send_def read_state_def)
qed

theorem full_try_send_loses_capability_witness:
  "\<exists>st'. raw_ipc_try_send 8 (handle 0 1) [9] (Some (handle 1 1)) ModeTransfer (demo_ipc [new_plain [1], new_plain [2]] []) =
     Some (Err Exhausted, st') \<and> read_state (check_rights (handle 1 1) 0) (caps st') = Some (Err Invalid)"
proof -
  let ?st = "demo_ipc [new_plain [1], new_plain [2]] []"
  let ?ch = "\<lparr>endpoint_cap = handle 0 1, inner = (new_channel 2)\<lparr>buffer := [new_plain [1 :: 8 word], new_plain [2]]\<rparr>\<rparr>"
  have ch: "bt_get (endpoints ?st) 8 = Some ?ch" "world_ok (caps ?st)" by (simp_all add: demo_ipc_def demo_caps_ok)
  obtain env w where "seal ?ch (handle 0 1) [9] (Some (handle 1 1)) ModeTransfer (caps ?st) = Some (Ok env, w)"
    by (simp add: seal_def attach_def demo_ipc_def demo_caps_def empty_world_def read_state_def check_rights_for_object_def
        check_rights_def handle_slot_def is_revoked.simps object_valid_def rights_contains_def right_bits with_state_def
        transfer_def derive_check_def install_cap_def allocate_slot_def free_slot_def checked_add_def MAX_CAP_NODES_def
        MAX_CAP_SLOTS_def)
  from full_try_send_loses_capability [OF ch(2,1) _ this, of 0] show ?thesis by (auto simp: new_channel_def)
qed

text \<open>
  A blocking send on a full queue does not return: it would have to park while the lock of the
  endpoint table is held, which the scheduler's assertion forbids.
\<close>

theorem raw_send_on_full_queue_stops:
  assumes "world_ok (caps st)" and "bt_get (endpoints st) ep = Some ch" and "capacity (inner ch) \<le> length (buffer (inner ch))"
    and "holds (caps st) h (endpoint_cap ch) RIGHT_WRITE"
  shows "raw_ipc_send cpu tick ep h data None ModeNone st = None"
proof -
  have "read_state (check_rights_for_object h (endpoint_cap ch) RIGHT_WRITE) (caps st) = Some (Ok ())"
    using gate_Ok [OF assms(1)] assms(4) by blast
  with assms(2,3) show ?thesis
    by (auto simp: raw_ipc_send_def cap_send_def seal_def attach_def send_round_def split: bind_splits)
qed

theorem raw_send_on_full_queue_stops_witness:
  "raw_ipc_send 0 10 8 (handle 0 1) [9] None ModeNone (demo_ipc [new_plain [1], new_plain [2]] []) = None"
  using raw_send_on_full_queue_stops [of "demo_ipc [new_plain [1], new_plain [2]] []" 8 _ "handle 0 1"] demo_holds(1)
  by (simp add: demo_ipc_def demo_caps_ok new_channel_def)

end
