(* ===== verification/Damage.thy ===== *)
theory Damage
  imports Spark_Interfaces
begin

section \<open>Damage tracking of the compositor\<close>

text \<open>
  \<^verbatim>\<open>kernel/src/damage.rs\<close>: rectangles of pixels with \<^verbatim>\<open>i32\<close> corners and \<^verbatim>\<open>u32\<close> extents, and the tracker that
  merges them into at most four regions per frame. Casts wrap as in Rust; additions and
  subtractions of \<^verbatim>\<open>i32\<close> are checked, so an overflow is \<open>None\<close>.
\<close>

subsection \<open>Signed arithmetic\<close>

definition as_i32 :: "nat \<Rightarrow> int" where
  "as_i32 n = (if n < 2 ^ 31 then int n else int n - 2 ^ 32)"

definition as_u32 :: "int \<Rightarrow> nat" where
  "as_u32 i = nat (i mod 2 ^ 32)"

definition chk_i32 :: "int \<Rightarrow> int option" where
  "chk_i32 i = (if - (2 ^ 31) \<le> i \<and> i < 2 ^ 31 then Some i else None)"

definition clamp_i32 :: "int \<Rightarrow> int \<Rightarrow> int \<Rightarrow> int option" where
  "clamp_i32 v lo hi = (if lo > hi then None else Some (if v < lo then lo else if v > hi then hi else v))"

subsection \<open>Regions\<close>

record region =
  rx :: int
  ry :: int
  rw :: nat
  rh :: nat

definition empty_region :: region where
  "empty_region = \<lparr>rx = 0, ry = 0, rw = 0, rh = 0\<rparr>"

definition new_region :: "int \<Rightarrow> int \<Rightarrow> nat \<Rightarrow> nat \<Rightarrow> region" where
  "new_region x y w h = \<lparr>rx = x, ry = y, rw = w, rh = h\<rparr>"

definition is_empty_region :: "region \<Rightarrow> bool" where
  "is_empty_region r \<longleftrightarrow> rw r = 0 \<or> rh r = 0"

definition union_region :: "region \<Rightarrow> region \<Rightarrow> region option" where
  "union_region a b =
     (if is_empty_region a then Some b
      else if is_empty_region b then Some a
      else do {
        let min_x = min (rx a) (rx b);
        let min_y = min (ry a) (ry b);
        ax \<leftarrow> chk_i32 (rx a + as_i32 (rw a));
        bx \<leftarrow> chk_i32 (rx b + as_i32 (rw b));
        ay \<leftarrow> chk_i32 (ry a + as_i32 (rh a));
        bot \<leftarrow> chk_i32 (ry b + as_i32 (rh b));
        w \<leftarrow> chk_i32 (max ax bx - min_x);
        h \<leftarrow> chk_i32 (max ay bot - min_y);
        Some \<lparr>rx = min_x, ry = min_y, rw = as_u32 w, rh = as_u32 h\<rparr>
      })"

definition clamp_to_screen :: "nat \<Rightarrow> nat \<Rightarrow> region \<Rightarrow> region option" where
  "clamp_to_screen max_w max_h r =
     (if is_empty_region r \<or> rx r \<ge> as_i32 max_w \<or> ry r \<ge> as_i32 max_h then Some empty_region
      else do {
        let clamped_x = max (rx r) 0;
        let clamped_y = max (ry r) 0;
        ex \<leftarrow> chk_i32 (rx r + as_i32 (rw r));
        end_x \<leftarrow> clamp_i32 ex 0 (as_i32 max_w);
        ey \<leftarrow> chk_i32 (ry r + as_i32 (rh r));
        end_y \<leftarrow> clamp_i32 ey 0 (as_i32 max_h);
        if end_x \<le> clamped_x \<or> end_y \<le> clamped_y then Some empty_region
        else do {
          w \<leftarrow> chk_i32 (end_x - clamped_x);
          h \<leftarrow> chk_i32 (end_y - clamped_y);
          Some \<lparr>rx = clamped_x, ry = clamped_y, rw = as_u32 w, rh = as_u32 h\<rparr>
        }
      })"

definition contains_point :: "region \<Rightarrow> int \<Rightarrow> int \<Rightarrow> bool option" where
  "contains_point r px py =
     (if px < rx r then Some False
      else do {
        ex \<leftarrow> chk_i32 (rx r + as_i32 (rw r));
        if \<not> px < ex \<or> py < ry r then Some False
        else do {
          ey \<leftarrow> chk_i32 (ry r + as_i32 (rh r));
          Some (py < ey)
        }
      })"

definition area :: "region \<Rightarrow> nat" where
  "area r = rw r * rh r"

subsection \<open>The tracker\<close>

record tracker =
  rects :: "region list"
  rcount :: nat
  current_damage :: "region option"
  force_full :: bool

definition new_tracker :: tracker where
  "new_tracker = \<lparr>rects = replicate 4 empty_region, rcount = 0, current_damage = None, force_full = True\<rparr>"

text \<open>The merging loop: a merge takes the last rectangle's place and starts over.\<close>

function merge_loop :: "region list \<Rightarrow> nat \<Rightarrow> region \<Rightarrow> nat \<Rightarrow> (region list \<times> nat \<times> region) option" where
  "merge_loop rs n pending i =
     (if i < n then
        (case union_region (rs ! i) pending of
           None \<Rightarrow> None
         | Some merged \<Rightarrow>
             (case checked_add 64 (area (rs ! i)) (area pending) of
                None \<Rightarrow> None
              | Some two \<Rightarrow>
                  if area merged \<le> two then merge_loop (rs[i := rs ! (n - 1)]) (n - 1) merged 0
                  else merge_loop rs n pending (i + 1)))
      else Some (rs, n, pending))"
  by pat_completeness auto

termination
  by (relation "measures [\<lambda>(rs, n, p, i). n, \<lambda>(rs, n, p, i). n - i]") auto

declare merge_loop.simps [simp del]

text \<open>The rectangle whose growth by \<open>pending\<close> adds the least area, the first of equals.\<close>

definition extra_area :: "region \<Rightarrow> region \<Rightarrow> nat option" where
  "extra_area pending r = do { u \<leftarrow> union_region r pending; Some (area u - area r) }"

definition best_index :: "region list \<Rightarrow> region \<Rightarrow> nat option" where
  "best_index rs pending = do {
     ks \<leftarrow> those (map (extra_area pending) rs);
     position (\<lambda>k. \<forall>k' \<in> set ks. k \<le> k') ks
   }"

definition add_rect :: "region \<Rightarrow> tracker \<Rightarrow> tracker option" where
  "add_rect r t =
     (if is_empty_region r then Some t
      else do {
        cur \<leftarrow> (case current_damage t of Some c \<Rightarrow> union_region c r | None \<Rightarrow> Some r);
        (rs, n, pending) \<leftarrow> merge_loop (rects t) (rcount t) r 0;
        let t1 = t\<lparr>current_damage := Some cur\<rparr>;
        if n < length rs then Some (t1\<lparr>rects := rs[n := pending], rcount := n + 1\<rparr>)
        else do {
          best \<leftarrow> best_index (take n rs) pending;
          u \<leftarrow> union_region (rs ! best) pending;
          Some (t1\<lparr>rects := rs[best := u], rcount := n\<rparr>)
        }
      })"

definition reset_tracker :: "tracker \<Rightarrow> tracker" where
  "reset_tracker t = t\<lparr>current_damage := None, rcount := 0, force_full := False\<rparr>"

fun clip_all :: "nat \<Rightarrow> nat \<Rightarrow> region list \<Rightarrow> region list option" where
  "clip_all w h [] = Some []"
| "clip_all w h (r # rs) = do {
     c \<leftarrow> clamp_to_screen w h r;
     cs \<leftarrow> clip_all w h rs;
     Some (if is_empty_region c then cs else c # cs)
   }"

text \<open>\<^verbatim>\<open>take_regions\<close> returns an array of four with a count: the count and the regions it counts.\<close>

definition take_regions :: "nat \<Rightarrow> nat \<Rightarrow> tracker \<Rightarrow> (region list \<times> tracker) option" where
  "take_regions w h t =
     (if force_full t then Some ([new_region 0 0 w h], reset_tracker t)
      else do {
        cs \<leftarrow> clip_all w h (take (rcount t) (rects t));
        Some (cs, reset_tracker t)
      })"

definition add_bounds :: "int \<Rightarrow> int \<Rightarrow> nat \<Rightarrow> nat \<Rightarrow> tracker \<Rightarrow> tracker option" where
  "add_bounds x y w h t = add_rect (new_region x y w h) t"

definition add_full_screen :: "nat \<Rightarrow> nat \<Rightarrow> tracker \<Rightarrow> tracker option" where
  "add_full_screen w h t = add_bounds 0 0 w h (t\<lparr>force_full := True\<rparr>)"

text \<open>\<open>sw\<close> and \<open>sh\<close> are the size of the screen, a global of the source.\<close>

definition take_damage :: "nat \<Rightarrow> nat \<Rightarrow> tracker \<Rightarrow> region option \<times> tracker" where
  "take_damage sw sh t =
     (if force_full t then Some (new_region 0 0 sw sh) else current_damage t,
      t\<lparr>force_full := False, rcount := 0, current_damage := None\<rparr>)"

definition peek_damage :: "nat \<Rightarrow> nat \<Rightarrow> tracker \<Rightarrow> region option" where
  "peek_damage sw sh t = (if force_full t then Some (new_region 0 0 sw sh) else current_damage t)"

definition is_damaged :: "tracker \<Rightarrow> bool" where
  "is_damaged t \<longleftrightarrow> force_full t \<or> (case current_damage t of None \<Rightarrow> False | Some d \<Rightarrow> \<not> is_empty_region d)"

subsection \<open>Pixels\<close>

definition inside :: "region \<Rightarrow> int \<Rightarrow> int \<Rightarrow> bool" where
  "inside r px py \<longleftrightarrow> rx r \<le> px \<and> px < rx r + int (rw r) \<and> ry r \<le> py \<and> py < ry r + int (rh r)"

text \<open>Coordinates far enough from the ends of \<^verbatim>\<open>i32\<close> that no sum of the source overflows.\<close>

definition in_range :: "region \<Rightarrow> bool" where
  "in_range r \<longleftrightarrow> - (2 ^ 29) \<le> rx r \<and> rx r + int (rw r) \<le> 2 ^ 29 \<and> - (2 ^ 29) \<le> ry r \<and> ry r + int (rh r) \<le> 2 ^ 29"

lemma in_range_arith:
  assumes "in_range r"
  shows "as_i32 (rw r) = int (rw r)" "as_i32 (rh r) = int (rh r)"
    "chk_i32 (rx r + int (rw r)) = Some (rx r + int (rw r))" "chk_i32 (ry r + int (rh r)) = Some (ry r + int (rh r))"
  using assms by (auto simp: in_range_def as_i32_def chk_i32_def)

lemma as_u32_small: "0 \<le> i \<Longrightarrow> i < 2 ^ 32 \<Longrightarrow> as_u32 i = nat i"
  by (simp add: as_u32_def)

lemma union_spec:
  assumes "in_range a" and "in_range b"
  shows "\<exists>u. union_region a b = Some u \<and> in_range u \<and>
    (\<forall>px py. inside a px py \<or> inside b px py \<longrightarrow> inside u px py) \<and>
    (\<not> is_empty_region a \<or> \<not> is_empty_region b \<longrightarrow> \<not> is_empty_region u)"
proof (cases "is_empty_region a \<or> is_empty_region b")
  case True
  then show ?thesis using assms by (auto simp: union_region_def is_empty_region_def inside_def)
next
  case False
  let ?x = "min (rx a) (rx b)" and ?y = "min (ry a) (ry b)"
  let ?w = "max (rx a + int (rw a)) (rx b + int (rw b)) - ?x" and ?h = "max (ry a + int (rh a)) (ry b + int (rh b)) - ?y"
  have pos: "0 < rw a" "0 < rh a" "0 < rw b" "0 < rh b" using False by (auto simp: is_empty_region_def)
  have b: "0 < ?w" "?w \<le> 2 ^ 30" "0 < ?h" "?h \<le> 2 ^ 30" using assms pos by (auto simp: in_range_def)
  have u: "union_region a b = Some \<lparr>rx = ?x, ry = ?y, rw = nat ?w, rh = nat ?h\<rparr>"
    using False b by (simp add: union_region_def Let_def in_range_arith [OF assms(1)] in_range_arith [OF assms(2)] as_u32_small)
      (simp add: chk_i32_def as_u32_small)
  show ?thesis
    unfolding u using b assms by (auto simp: in_range_def inside_def is_empty_region_def)
qed

lemma area_bound:
  assumes "in_range r"
  shows "area r \<le> 2 ^ 60"
proof -
  have "rw r \<le> 2 ^ 30" "rh r \<le> 2 ^ 30" using assms by (auto simp: in_range_def)
  then have "rw r * rh r \<le> 2 ^ 30 * 2 ^ 30" by (rule mult_le_mono)
  then show ?thesis by (simp add: area_def)
qed

definition covered :: "region list \<Rightarrow> nat \<Rightarrow> int \<Rightarrow> int \<Rightarrow> bool" where
  "covered rs n px py \<longleftrightarrow> (\<exists>k < n. inside (rs ! k) px py)"

lemma covered_push:
  assumes "n < length rs" and "inside p px py \<or> covered rs n px py"
  shows "covered (rs[n := p]) (Suc n) px py"
proof -
  from assms(2) consider "inside p px py" | k where "k < n" "inside (rs ! k) px py" by (auto simp: covered_def)
  then show ?thesis
  proof cases
    case 1
    with assms(1) show ?thesis unfolding covered_def by (intro exI [of _ n]) simp
  next
    case 2
    then show ?thesis unfolding covered_def by (intro exI [of _ k]) simp
  qed
qed

lemma covered_grow:
  assumes "k < n" and "n \<le> length rs" and "inside (rs ! k) px py \<or> inside p px py \<Longrightarrow> inside u px py"
    and "inside p px py \<or> covered rs n px py"
  shows "covered (rs[k := u]) n px py"
proof -
  from assms(4) consider "inside p px py" | j where "j < n" "inside (rs ! j) px py" by (auto simp: covered_def)
  then show ?thesis
  proof cases
    case 1
    with assms(1-3) show ?thesis unfolding covered_def by (intro exI [of _ k]) simp
  next
    case 2
    with assms(1-3) show ?thesis unfolding covered_def by (intro exI [of _ j]) (auto simp: nth_upd)
  qed
qed

definition all_in_range :: "region list \<Rightarrow> nat \<Rightarrow> bool" where
  "all_in_range rs n \<longleftrightarrow> n \<le> length rs \<and> (\<forall>k < n. in_range (rs ! k))"

lemma merge_step:
  assumes "all_in_range rs n" and "i < n"
  shows "all_in_range (rs[i := rs ! (n - 1)]) (n - 1)"
    and "covered rs n px py \<Longrightarrow> inside (rs ! i) px py \<or> covered (rs[i := rs ! (n - 1)]) (n - 1) px py"
proof -
  show "all_in_range (rs[i := rs ! (n - 1)]) (n - 1)"
    using assms by (auto simp: all_in_range_def nth_upd)
  assume "covered rs n px py"
  then obtain k where k: "k < n" "inside (rs ! k) px py" by (auto simp: covered_def)
  show "inside (rs ! i) px py \<or> covered (rs[i := rs ! (n - 1)]) (n - 1) px py"
  proof (cases "k = i \<or> k < n - 1")
    case True
    with k assms show ?thesis by (cases "k = i") (auto simp: covered_def nth_upd intro!: exI [of _ k])
  next
    case False
    with k have "k = n - 1" "k \<noteq> i" by auto
    with k assms show ?thesis by (auto simp: covered_def nth_upd all_in_range_def intro!: exI [of _ i])
  qed
qed

lemma merge_loop_spec:
  assumes "all_in_range rs n" and "in_range p"
  shows "\<exists>rs' n' p'. merge_loop rs n p i = Some (rs', n', p') \<and> length rs' = length rs \<and> n' \<le> n \<and>
    all_in_range rs' n' \<and> in_range p' \<and> (\<not> is_empty_region p \<longrightarrow> \<not> is_empty_region p') \<and>
    (\<forall>px py. inside p px py \<or> covered rs n px py \<longrightarrow> inside p' px py \<or> covered rs' n' px py)"
  using assms
proof (induction rs n p i rule: merge_loop.induct)
  case (1 rs n p i)
  show ?case
  proof (cases "i < n")
    case False
    with "1.prems" show ?thesis by (subst merge_loop.simps) auto
  next
    case True
    then have ri: "in_range (rs ! i)" using "1.prems"(1) by (simp add: all_in_range_def)
    obtain u where u: "union_region (rs ! i) p = Some u" "in_range u"
      "\<And>px py. inside (rs ! i) px py \<or> inside p px py \<Longrightarrow> inside u px py"
      "\<not> is_empty_region p \<longrightarrow> \<not> is_empty_region u"
      using union_spec [OF ri "1.prems"(2)] by blast
    have a: "checked_add 64 (area (rs ! i)) (area p) = Some (area (rs ! i) + area p)"
      using area_bound [OF ri] area_bound [OF "1.prems"(2)] by simp
    show ?thesis
    proof (cases "area u \<le> area (rs ! i) + area p")
      case mrg: True
      note step = merge_step [OF "1.prems"(1) True]
      obtain rs' n' p' where IH: "merge_loop (rs[i := rs ! (n - 1)]) (n - 1) u 0 = Some (rs', n', p')"
        "length rs' = length rs" "n' \<le> n - 1" "all_in_range rs' n'" "in_range p'" "\<not> is_empty_region u \<longrightarrow> \<not> is_empty_region p'"
        "\<And>px py. inside u px py \<or> covered (rs[i := rs ! (n - 1)]) (n - 1) px py \<Longrightarrow> inside p' px py \<or> covered rs' n' px py"
        using "1.IH"(1) [OF True u(1) a mrg step(1) u(2)] unfolding length_list_update by blast
      have "merge_loop rs n p i = Some (rs', n', p')"
        using True u(1) a mrg IH(1) by (subst merge_loop.simps) (simp del: checked_add_Some)
      moreover have "inside p' px py \<or> covered rs' n' px py" if "inside p px py \<or> covered rs n px py" for px py
        using that step(2) [of px py] u(3) [of px py] IH(7) [of px py] by blast
      ultimately show ?thesis using IH(2-6) u(4) by auto
    next
      case False
      have "merge_loop rs n p i = merge_loop rs n p (i + 1)"
        using True u(1) a False by (subst merge_loop.simps) (simp del: checked_add_Some)
      with "1.IH"(2) [OF True u(1) a False "1.prems"] show ?thesis by simp
    qed
  qed
qed

lemma those_Some: "(\<And>x. x \<in> set xs \<Longrightarrow> \<exists>y. f x = Some y) \<Longrightarrow> \<exists>ys. those (map f xs) = Some ys \<and> length ys = length xs"
proof (induction xs)
  case (Cons x xs)
  obtain y where "f x = Some y" using Cons.prems [of x] by auto
  moreover obtain ys where "those (map f xs) = Some ys" "length ys = length xs" using Cons.IH Cons.prems by auto
  ultimately show ?case by simp
qed simp

lemma best_index_spec:
  assumes "all_in_range rs (length rs)" and "in_range p" and "rs \<noteq> []"
  shows "\<exists>i < length rs. best_index rs p = Some i"
proof -
  have "\<exists>y. extra_area p r = Some y" if "r \<in> set rs" for r
    using that assms union_spec [of r p] by (auto simp: extra_area_def all_in_range_def in_set_conv_nth)
  then obtain ks where ks: "those (map (extra_area p) rs) = Some ks" "length ks = length rs"
    using those_Some [of rs "extra_area p"] by blast
  then have "ks \<noteq> []" using assms(3) by auto
  then have "Min (set ks) \<in> set ks" "\<forall>k \<in> set ks. Min (set ks) \<le> k" by simp_all
  then have "position (\<lambda>k. \<forall>k' \<in> set ks. k \<le> k') ks \<noteq> None" unfolding position_None by blast
  then obtain i where "position (\<lambda>k. \<forall>k' \<in> set ks. k \<le> k') ks = Some i" by blast
  with ks position_in_range show ?thesis by (fastforce simp: best_index_def)
qed

definition tracker_ok :: "tracker \<Rightarrow> bool" where
  "tracker_ok t \<longleftrightarrow> length (rects t) = 4 \<and> all_in_range (rects t) (rcount t) \<and>
     (\<forall>c. current_damage t = Some c \<longrightarrow> in_range c)"

lemma add_rect_spec:
  assumes "tracker_ok t" and "in_range r"
  shows "\<exists>t'. add_rect r t = Some t' \<and> tracker_ok t' \<and> force_full t' = force_full t \<and>
    (\<forall>px py. inside r px py \<or> covered (rects t) (rcount t) px py \<longrightarrow> covered (rects t') (rcount t') px py)"
proof (cases "is_empty_region r")
  case True
  then have "\<not> inside r px py" for px py by (auto simp: inside_def is_empty_region_def)
  with True assms show ?thesis by (simp add: add_rect_def)
next
  case False
  have t: "length (rects t) = 4" "all_in_range (rects t) (rcount t)" using assms(1) by (auto simp: tracker_ok_def)
  obtain cur where cur: "(case current_damage t of Some c \<Rightarrow> union_region c r | None \<Rightarrow> Some r) = Some cur" "in_range cur"
  proof (cases "current_damage t")
    case (Some c)
    then have "in_range c" using assms(1) by (simp add: tracker_ok_def)
    from union_spec [OF this assms(2)] Some show ?thesis using that by auto
  qed (use assms(2) in \<open>auto intro: that\<close>)
  obtain rs n p where m: "merge_loop (rects t) (rcount t) r 0 = Some (rs, n, p)" "length rs = 4"
    "all_in_range rs n" "in_range p"
    and cov: "\<And>px py. inside r px py \<or> covered (rects t) (rcount t) px py \<Longrightarrow> inside p px py \<or> covered rs n px py"
    using merge_loop_spec [OF t(2) assms(2), of 0] t(1) by metis
  show ?thesis
  proof (cases "n < length rs")
    case True
    let ?t = "t\<lparr>current_damage := Some cur, rects := rs[n := p], rcount := n + 1\<rparr>"
    have "add_rect r t = Some ?t" using False cur(1) m(1) True by (simp add: add_rect_def Let_def)
    moreover have "tracker_ok ?t" using m cur(2) True by (auto simp: tracker_ok_def all_in_range_def nth_upd less_Suc_eq)
    moreover have "covered (rects ?t) (rcount ?t) px py" if "inside p px py \<or> covered rs n px py" for px py
      using that covered_push [OF True] by simp
    ultimately show ?thesis using cov by (intro exI [of _ ?t]) simp
  next
    case full: False
    with m(2,3) have n: "n = 4" by (simp add: all_in_range_def)
    obtain best where b: "best < 4" "best_index (take n rs) p = Some best"
      using best_index_spec [of rs p] m n by fastforce
    have rb: "in_range (rs ! best)" using m(3) b(1) n by (simp add: all_in_range_def)
    obtain u where u: "union_region (rs ! best) p = Some u" "in_range u"
      "\<And>px py. inside (rs ! best) px py \<or> inside p px py \<Longrightarrow> inside u px py"
      using union_spec [OF rb m(4)] by blast
    let ?t = "t\<lparr>current_damage := Some cur, rects := rs[best := u], rcount := n\<rparr>"
    have "add_rect r t = Some ?t" using False cur(1) m(1) full b(2) u(1) by (simp add: add_rect_def Let_def)
    moreover have "tracker_ok ?t" using m cur(2) u(2) by (auto simp: tracker_ok_def all_in_range_def nth_upd)
    moreover have "covered (rects ?t) (rcount ?t) px py" if "inside p px py \<or> covered rs n px py" for px py
      using that u(3) b(1) n m(2) covered_grow [of best n rs px py p u] by simp
    ultimately show ?thesis using cov by (intro exI [of _ ?t]) simp
  qed
qed

lemma clamp_axis:
  fixes x W p :: int
  shows "\<not> max 0 (min (x + int w) W) \<le> max x 0 \<Longrightarrow>
      (max x 0 \<le> p \<and> p < max x 0 + int (nat (max 0 (min (x + int w) W) - max x 0))) \<longleftrightarrow>
      (x \<le> p \<and> p < x + int w) \<and> 0 \<le> p \<and> p < W"
    and "max 0 (min (x + int w) W) \<le> max x 0 \<Longrightarrow> \<not> ((x \<le> p \<and> p < x + int w) \<and> 0 \<le> p \<and> p < W)"
  by (auto simp: max_def min_def split: if_splits)

lemma clamp_spec:
  assumes "in_range r" and "w < 2 ^ 31" and "h < 2 ^ 31"
  shows "\<exists>c. clamp_to_screen w h r = Some c \<and>
    (\<forall>px py. inside c px py \<longleftrightarrow> inside r px py \<and> 0 \<le> px \<and> px < int w \<and> 0 \<le> py \<and> py < int h)"
proof (cases "is_empty_region r \<or> rx r \<ge> int w \<or> ry r \<ge> int h")
  case True
  have "as_i32 w = int w" "as_i32 h = int h" using assms(2,3) by (simp_all add: as_i32_def)
  then show ?thesis using True by (auto simp: clamp_to_screen_def empty_region_def is_empty_region_def inside_def)
next
  case False
  have wh: "as_i32 w = int w" "as_i32 h = int h" using assms(2,3) by (simp_all add: as_i32_def)
  let ?x = "max (rx r) 0" and ?y = "max (ry r) 0"
  let ?ex = "max 0 (min (rx r + int (rw r)) (int w))" and ?ey = "max 0 (min (ry r + int (rh r)) (int h))"
  have cl: "clamp_i32 v 0 (int n) = Some (max 0 (min v (int n)))" for v n by (auto simp: clamp_i32_def)
  have b: "chk_i32 (?ex - ?x) = Some (?ex - ?x)" "chk_i32 (?ey - ?y) = Some (?ey - ?y)"
    using assms by (auto simp: chk_i32_def in_range_def)
  have eq: "clamp_to_screen w h r = (if ?ex \<le> ?x \<or> ?ey \<le> ?y then Some empty_region
      else Some \<lparr>rx = ?x, ry = ?y, rw = as_u32 (?ex - ?x), rh = as_u32 (?ey - ?y)\<rparr>)"
    using False by (simp only: clamp_to_screen_def wh Let_def in_range_arith [OF assms(1)] cl b bind.bind_lunit if_False)
  show ?thesis
  proof (cases "?ex \<le> ?x \<or> ?ey \<le> ?y")
    case True
    then have "\<not> (inside r px py \<and> 0 \<le> px \<and> px < int w \<and> 0 \<le> py \<and> py < int h)" for px py
      unfolding inside_def using clamp_axis(2) [of "rx r" "rw r" "int w" px] clamp_axis(2) [of "ry r" "rh r" "int h" py] by blast
    moreover have "clamp_to_screen w h r = Some empty_region" "\<And>px py. \<not> inside empty_region px py"
      using eq True by (simp_all add: inside_def empty_region_def)
    ultimately show ?thesis by blast
  next
    case ne: False
    have "as_u32 (?ex - ?x) = nat (?ex - ?x)" "as_u32 (?ey - ?y) = nat (?ey - ?y)"
      using ne assms by (auto intro!: as_u32_small)
    with eq ne have c: "clamp_to_screen w h r = Some \<lparr>rx = ?x, ry = ?y, rw = nat (?ex - ?x), rh = nat (?ey - ?y)\<rparr>" by simp
    have "inside \<lparr>rx = ?x, ry = ?y, rw = nat (?ex - ?x), rh = nat (?ey - ?y)\<rparr> px py \<longleftrightarrow>
        inside r px py \<and> 0 \<le> px \<and> px < int w \<and> 0 \<le> py \<and> py < int h" for px py
      unfolding inside_def region.simps
      using clamp_axis(1) [of "rx r" "rw r" "int w" px] clamp_axis(1) [of "ry r" "rh r" "int h" py] ne by argo
    with c show ?thesis by (intro exI conjI) auto
  qed
qed

lemma clip_all_spec:
  assumes "\<forall>r \<in> set rs. in_range r" and "w < 2 ^ 31" and "h < 2 ^ 31"
  shows "\<exists>cs. clip_all w h rs = Some cs \<and> length cs \<le> length rs \<and>
    (\<forall>px py. (\<exists>c \<in> set cs. inside c px py) \<longleftrightarrow>
       (\<exists>r \<in> set rs. inside r px py) \<and> 0 \<le> px \<and> px < int w \<and> 0 \<le> py \<and> py < int h)"
  using assms(1)
proof (induction rs)
  case (Cons r rs)
  obtain c where c: "clamp_to_screen w h r = Some c"
    "\<And>px py. inside c px py \<longleftrightarrow> inside r px py \<and> 0 \<le> px \<and> px < int w \<and> 0 \<le> py \<and> py < int h"
    using clamp_spec [of r w h] Cons.prems assms(2,3) by auto
  obtain cs where cs: "clip_all w h rs = Some cs" "length cs \<le> length rs"
    "\<And>px py. (\<exists>c \<in> set cs. inside c px py) \<longleftrightarrow>
       (\<exists>r \<in> set rs. inside r px py) \<and> 0 \<le> px \<and> px < int w \<and> 0 \<le> py \<and> py < int h"
    using Cons by auto
  have "is_empty_region c \<Longrightarrow> \<not> inside c px py" for px py by (auto simp: inside_def is_empty_region_def)
  then have "(\<exists>x \<in> set (if is_empty_region c then cs else c # cs). inside x px py) \<longleftrightarrow>
      inside c px py \<or> (\<exists>x \<in> set cs. inside x px py)" for px py by auto
  then show ?case
    using c(1) cs(1,2) by (simp add: c(2) cs(3)) blast
qed simp

fun add_rects :: "region list \<Rightarrow> tracker \<Rightarrow> tracker option" where
  "add_rects [] t = Some t"
| "add_rects (r # rs) t = do { t1 \<leftarrow> add_rect r t; add_rects rs t1 }"

lemma add_rects_spec:
  assumes "tracker_ok t" and "\<forall>r \<in> set rs. in_range r"
  shows "\<exists>t'. add_rects rs t = Some t' \<and> tracker_ok t' \<and> force_full t' = force_full t \<and>
    (\<forall>px py. (\<exists>r \<in> set rs. inside r px py) \<or> covered (rects t) (rcount t) px py \<longrightarrow> covered (rects t') (rcount t') px py)"
  using assms
proof (induction rs arbitrary: t)
  case (Cons r rs)
  obtain t1 where t1: "add_rect r t = Some t1" "tracker_ok t1" "force_full t1 = force_full t"
    "\<And>px py. inside r px py \<or> covered (rects t) (rcount t) px py \<Longrightarrow> covered (rects t1) (rcount t1) px py"
    using add_rect_spec [OF Cons.prems(1), of r] Cons.prems(2) by auto
  from Cons.IH [OF t1(2)] Cons.prems(2) t1 show ?case by fastforce
qed simp

subsection \<open>Properties\<close>

text \<open>
  C33. No damage is lost: starting from an empty tracker, after any sequence of rectangles whose corners are within \<open>2 ^ 29\<close> pixels
  of the origin, the regions handed to the compositor are at most four, lie on the screen, and contain every pixel on the
  screen of every rectangle; the tracker is clean afterwards. The code does not check the corners: beyond the range of
  \<^verbatim>\<open>i32\<close> its sums overflow, which stops the kernel.
\<close>

theorem damage_is_covered:
  assumes "length (rects t) = 4" and "\<forall>r \<in> set rs. in_range r" and "w < 2 ^ 31" and "h < 2 ^ 31"
  shows "\<exists>t1 cs t2. add_rects rs (reset_tracker t) = Some t1 \<and> take_regions w h t1 = Some (cs, t2) \<and> length cs \<le> 4 \<and>
    (\<forall>px py. (\<exists>c \<in> set cs. inside c px py) \<longrightarrow> 0 \<le> px \<and> px < int w \<and> 0 \<le> py \<and> py < int h) \<and>
    (\<forall>px py. (\<exists>r \<in> set rs. inside r px py) \<and> 0 \<le> px \<and> px < int w \<and> 0 \<le> py \<and> py < int h \<longrightarrow>
       (\<exists>c \<in> set cs. inside c px py)) \<and> \<not> is_damaged t2"
proof -
  have ok: "tracker_ok (reset_tracker t)" using assms(1) by (simp add: tracker_ok_def all_in_range_def reset_tracker_def)
  obtain t1 where t1: "add_rects rs (reset_tracker t) = Some t1" "tracker_ok t1" "\<not> force_full t1"
    "\<And>px py. \<exists>r \<in> set rs. inside r px py \<Longrightarrow> covered (rects t1) (rcount t1) px py"
    using add_rects_spec [OF ok assms(2)] by (auto simp: reset_tracker_def)
  let ?rs = "take (rcount t1) (rects t1)"
  have n: "rcount t1 \<le> 4" "length (rects t1) = 4" "\<forall>r \<in> set ?rs. in_range r"
    using t1(2) by (auto simp: tracker_ok_def all_in_range_def in_set_conv_nth)
  have cov: "covered (rects t1) (rcount t1) px py \<longleftrightarrow> (\<exists>r \<in> set ?rs. inside r px py)" for px py
    using t1(2) by (fastforce simp: covered_def in_set_conv_nth tracker_ok_def all_in_range_def)
  obtain cs where cs: "clip_all w h ?rs = Some cs" "length cs \<le> length ?rs"
    "\<And>px py. (\<exists>c \<in> set cs. inside c px py) \<longleftrightarrow>
       (\<exists>r \<in> set ?rs. inside r px py) \<and> 0 \<le> px \<and> px < int w \<and> 0 \<le> py \<and> py < int h"
    using clip_all_spec [OF n(3) assms(3,4)] by auto
  have "take_regions w h t1 = Some (cs, reset_tracker t1)" using t1(3) cs(1) by (simp add: take_regions_def)
  moreover have "\<not> is_damaged (reset_tracker t1)" by (simp add: is_damaged_def reset_tracker_def)
  moreover have "length cs \<le> 4" using cs(2) n(1,2) by simp
  moreover have "\<exists>c \<in> set cs. inside c px py"
    if "(\<exists>r \<in> set rs. inside r px py) \<and> 0 \<le> px \<and> px < int w \<and> 0 \<le> py \<and> py < int h" for px py
    using that t1(4) [of px py] cov [of px py] cs(3) [of px py] by blast
  moreover have "0 \<le> px \<and> px < int w \<and> 0 \<le> py \<and> py < int h" if "\<exists>c \<in> set cs. inside c px py" for px py
    using that cs(3) [of px py] by blast
  ultimately show ?thesis using t1(1) 
    by - (rule exI [of _ t1], rule exI [of _ cs], rule exI [of _ "reset_tracker t1"], intro conjI allI impI, blast+)
qed

theorem damage_is_covered_witness:
  "\<exists>t1 cs t2. add_rects [new_region 0 0 10 10, new_region 80 40 10 10, new_region (-5) (-5) 10 10] (reset_tracker new_tracker) = Some t1 \<and>
     take_regions 800 600 t1 = Some (cs, t2) \<and> length cs \<le> 4 \<and> (\<exists>c \<in> set cs. inside c 89 49) \<and> \<not> is_damaged t2"
proof -
  let ?rs = "[new_region 0 0 10 10, new_region 80 40 10 10, new_region (-5) (-5) 10 10]"
  have "length (rects new_tracker) = 4" "\<forall>r \<in> set ?rs. in_range r"
    by (simp_all add: new_tracker_def new_region_def in_range_def)
  from damage_is_covered [OF this, of 800 600] obtain t1 cs t2 where
    "add_rects ?rs (reset_tracker new_tracker) = Some t1" "take_regions 800 600 t1 = Some (cs, t2)" "length cs \<le> 4"
    "\<not> is_damaged t2"
    and all: "\<And>px py. (\<exists>r \<in> set ?rs. inside r px py) \<and> 0 \<le> px \<and> px < int 800 \<and> 0 \<le> py \<and> py < int 600 \<Longrightarrow>
       \<exists>c \<in> set cs. inside c px py" by auto
  moreover have "inside (new_region 80 40 10 10) 89 49" by (simp add: inside_def new_region_def)
  ultimately show ?thesis using all [of 89 49] by auto
qed

text \<open>A rectangle that reaches beyond the range of \<^verbatim>\<open>i32\<close> stops the kernel as soon as another one has been recorded.\<close>

theorem far_damage_panics:
  assumes "\<not> is_empty_region a" and "\<not> is_empty_region b" and "2 ^ 31 \<le> rx b + as_i32 (rw b)" and "length (rects t) = 4"
  shows "add_rects [a, b] (reset_tracker t) = None"
proof -
  have "merge_loop (rects t) 0 a 0 = Some (rects t, 0, a)" by (simp add: merge_loop.simps)
  then obtain t1 where "add_rect a (reset_tracker t) = Some t1" "current_damage t1 = Some a"
    using assms(1,4) by (simp add: add_rect_def reset_tracker_def)
  moreover have "union_region a b = None" using assms(1-3) by (auto simp: union_region_def chk_i32_def Let_def bind_eq_None_conv)
  ultimately show ?thesis using assms(2) by (simp add: add_rect_def [of b])
qed

theorem far_damage_panics_witness:
  "add_rects [new_region 0 0 10 10, new_region 2147483640 0 10 10] (reset_tracker new_tracker) = None"
  by (rule far_damage_panics) (simp_all add: new_region_def is_empty_region_def as_i32_def new_tracker_def)

end
