(* ===== verification/Byte_Codec.thy ===== *)
theory Byte_Codec
  imports Spark_Interfaces
begin

section \<open>Bytes, little-endian integers, slices and UTF-8\<close>

text \<open>
  What the on-disk formats and packet parsers use of Rust's core library: \<^verbatim>\<open>to_le_bytes\<close> and
  \<^verbatim>\<open>from_le_bytes\<close>, range indexing (a range out of bounds panics, which is \<open>None\<close>), and \<^verbatim>\<open>from_utf8\<close>. A
  Rust \<^verbatim>\<open>String\<close> is a \<open>string\<close> whose characters are its UTF-8 bytes.
\<close>

type_synonym byte = "8 word"

subsection \<open>Little-endian integers\<close>

fun le_bytes :: "nat \<Rightarrow> nat \<Rightarrow> byte list" where
  "le_bytes 0 v = []"
| "le_bytes (Suc n) v = word_of_nat (v mod 256) # le_bytes n (v div 256)"

fun le_val :: "byte list \<Rightarrow> nat" where
  "le_val [] = 0"
| "le_val (b # bs) = unat b + 256 * le_val bs"

lemma length_le_bytes [simp]: "length (le_bytes n v) = n"
  by (induction n arbitrary: v) auto

lemma unat_byte [simp]: "unat (word_of_nat (v mod 256) :: byte) = v mod 256"
  by (simp add: unat_of_nat)

lemma byte_bound: "unat (b :: byte) < 256"
  using unsigned_less [of b, where 'a = nat] by simp

lemma le_val_le_bytes: "le_val (le_bytes n v) = v mod 256 ^ n"
proof (induction n arbitrary: v)
  case (Suc n)
  have "v mod 256 ^ Suc n = v mod 256 + 256 * (v div 256 mod 256 ^ n)"
    by (simp add: mod_mult2_eq)
  with Suc show ?case by simp
qed simp

lemma le_val_le_bytes_id [simp]: "v < 256 ^ n \<Longrightarrow> le_val (le_bytes n v) = v"
  by (simp add: le_val_le_bytes)

lemma le_val_bound: "le_val bs < 256 ^ length bs"
proof (induction bs)
  case (Cons b bs)
  have "unat b < 256" by (rule byte_bound)
  moreover have "le_val bs + 1 \<le> 256 ^ length bs" using Cons by simp
  ultimately show ?case by simp
qed simp

lemma le_bytes_le_val: "le_bytes (length bs) (le_val bs) = bs"
proof (induction bs)
  case (Cons b bs)
  have b: "unat b < 256" by (rule byte_bound)
  then have "(unat b + 256 * le_val bs) mod 256 = unat b" "(unat b + 256 * le_val bs) div 256 = le_val bs"
    by simp_all
  with Cons show ?case by simp
qed simp

subsection \<open>Slices\<close>

definition slice :: "'a list \<Rightarrow> nat \<Rightarrow> nat \<Rightarrow> 'a list option" where
  "slice xs a b = (if a \<le> b \<and> b \<le> length xs then Some (take (b - a) (drop a xs)) else None)"

definition overwrite :: "nat \<Rightarrow> 'a list \<Rightarrow> 'a list \<Rightarrow> 'a list" where
  "overwrite a ys xs = take a xs @ ys @ drop (a + length ys) xs"

lemma slice_append [simp]: "slice (xs @ ys @ zs) (length xs) (length xs + length ys) = Some ys"
  by (simp add: slice_def)

lemma slice_middle: "a = length xs \<Longrightarrow> b = a + length ys \<Longrightarrow> slice (xs @ ys @ zs) a b = Some ys"
  by simp

lemma slice_length: "slice xs a b = Some ys \<Longrightarrow> length ys = b - a"
  by (auto simp: slice_def split: if_splits)

lemma length_overwrite [simp]: "a + length ys \<le> length xs \<Longrightarrow> length (overwrite a ys xs) = length xs"
  by (simp add: overwrite_def)

lemma slice_overwrite_same: "a + length ys \<le> length xs \<Longrightarrow> slice (overwrite a ys xs) a (a + length ys) = Some ys"
  by (simp add: slice_def overwrite_def)

lemma slice_overwrite_other:
  assumes "a + length ys \<le> length xs" and "c + n \<le> a \<or> a + length ys \<le> c" and "c + n \<le> length xs"
  shows "slice (overwrite a ys xs) c (c + n) = slice xs c (c + n)"
proof -
  have "take n (drop c (overwrite a ys xs)) = take n (drop c xs)"
  proof (rule nth_equalityI)
    fix i assume "i < length (take n (drop c (overwrite a ys xs)))"
    then have "i < n" by simp
    with assms show "take n (drop c (overwrite a ys xs)) ! i = take n (drop c xs) ! i"
      by (auto simp: overwrite_def nth_append)
  qed (use assms in simp)
  with assms show ?thesis by (simp add: slice_def)
qed

text \<open>A little-endian field of \<open>n\<close> bytes at an offset, of a slice known to be long enough.\<close>

definition field :: "byte list \<Rightarrow> nat \<Rightarrow> nat \<Rightarrow> nat" where
  "field s off n = le_val (take n (drop off s))"

lemma field_at: "length xs = off \<Longrightarrow> length ys = n \<Longrightarrow> field (xs @ ys @ zs) off n = le_val ys"
  by (simp add: field_def)

lemma field_bound: "field s off n < 256 ^ n"
proof -
  have "le_val (take n (drop off s)) < 256 ^ length (take n (drop off s))" by (rule le_val_bound)
  also have "\<dots> \<le> 256 ^ n" by (rule power_increasing) simp_all
  finally show ?thesis by (simp add: field_def)
qed

subsection \<open>Strings\<close>

definition char_byte :: "char \<Rightarrow> byte" where "char_byte c = word_of_nat (of_char c)"
definition byte_char :: "byte \<Rightarrow> char" where "byte_char b = char_of (unat b)"

lemma byte_char_byte [simp]: "byte_char (char_byte c) = c"
proof -
  have "(of_char c :: nat) < 256" by simp
  then have "unat (word_of_nat (of_char c) :: byte) = of_char c" by (simp add: unat_of_nat)
  then show ?thesis by (simp add: byte_char_def char_byte_def)
qed

definition as_bytes :: "string \<Rightarrow> byte list" where "as_bytes = map char_byte"

definition of_bytes :: "byte list \<Rightarrow> string" where "of_bytes = map byte_char"

lemma of_bytes_as_bytes [simp]: "of_bytes (as_bytes s) = s"
  by (simp add: of_bytes_def as_bytes_def comp_def)

lemma length_as_bytes [simp]: "length (as_bytes s) = length s"
  by (simp add: as_bytes_def)

text \<open>Well-formed UTF-8 as Rust's \<^verbatim>\<open>from_utf8\<close> checks it: no overlong forms, no surrogates, at most U+10FFFF.\<close>

definition in_span :: "nat \<Rightarrow> nat \<Rightarrow> byte \<Rightarrow> bool" where
  "in_span lo hi b \<longleftrightarrow> lo \<le> unat b \<and> unat b \<le> hi"

abbreviation cont :: "byte \<Rightarrow> bool" where "cont \<equiv> in_span 0x80 0xBF"

fun utf8_valid :: "byte list \<Rightarrow> bool" where
  "utf8_valid [] = True"
| "utf8_valid (a # bs) =
     (if in_span 0 0x7F a then utf8_valid bs
      else if in_span 0xC2 0xDF a then
        (case bs of b # rest \<Rightarrow> cont b \<and> utf8_valid rest | _ \<Rightarrow> False)
      else if in_span 0xE0 0xEF a then
        (case bs of
           b # c # rest \<Rightarrow>
             in_span (if unat a = 0xE0 then 0xA0 else 0x80) (if unat a = 0xED then 0x9F else 0xBF) b \<and>
             cont c \<and> utf8_valid rest
         | _ \<Rightarrow> False)
      else if in_span 0xF0 0xF4 a then
        (case bs of
           b # c # d # rest \<Rightarrow>
             in_span (if unat a = 0xF0 then 0x90 else 0x80) (if unat a = 0xF4 then 0x8F else 0xBF) b \<and>
             cont c \<and> cont d \<and> utf8_valid rest
         | _ \<Rightarrow> False)
      else False)"

definition from_utf8 :: "byte list \<Rightarrow> string option" where
  "from_utf8 bs = (if utf8_valid bs then Some (of_bytes bs) else None)"

definition utf8_string :: "string \<Rightarrow> bool" where
  "utf8_string s \<longleftrightarrow> utf8_valid (as_bytes s)"

lemma from_utf8_as_bytes: "utf8_string s \<Longrightarrow> from_utf8 (as_bytes s) = Some s"
  by (simp add: from_utf8_def utf8_string_def)

lemma ascii_utf8: "\<forall>c \<in> set s. (of_char c :: nat) < 128 \<Longrightarrow> utf8_string s"
proof (induction s)
  case (Cons c s)
  then have "in_span 0 0x7F (char_byte c)"
    by (simp add: in_span_def char_byte_def unat_of_nat)
  with Cons show ?case by (simp add: utf8_string_def as_bytes_def)
qed (simp add: utf8_string_def as_bytes_def)

text \<open>\<^verbatim>\<open>String::from_utf8_lossy\<close>: every maximal ill-formed piece becomes one U+FFFD.\<close>

definition REPLACEMENT :: "byte list" where "REPLACEMENT = [0xEF, 0xBF, 0xBD]"

fun utf8_lossy :: "byte list \<Rightarrow> byte list" where
  "utf8_lossy [] = []"
| "utf8_lossy (a # bs) =
     (if in_span 0 0x7F a then a # utf8_lossy bs
      else if in_span 0xC2 0xDF a then
        (case bs of
           b # rest \<Rightarrow> if cont b then a # b # utf8_lossy rest else REPLACEMENT @ utf8_lossy bs
         | [] \<Rightarrow> REPLACEMENT)
      else if in_span 0xE0 0xEF a then
        (case bs of
           b # r1 \<Rightarrow>
             if in_span (if unat a = 0xE0 then 0xA0 else 0x80) (if unat a = 0xED then 0x9F else 0xBF) b
             then (case r1 of
                     c # rest \<Rightarrow> if cont c then a # b # c # utf8_lossy rest else REPLACEMENT @ utf8_lossy r1
                   | [] \<Rightarrow> REPLACEMENT)
             else REPLACEMENT @ utf8_lossy bs
         | [] \<Rightarrow> REPLACEMENT)
      else if in_span 0xF0 0xF4 a then
        (case bs of
           b # r1 \<Rightarrow>
             if in_span (if unat a = 0xF0 then 0x90 else 0x80) (if unat a = 0xF4 then 0x8F else 0xBF) b
             then (case r1 of
                     c # r2 \<Rightarrow>
                       if cont c
                       then (case r2 of
                               d # rest \<Rightarrow> if cont d then a # b # c # d # utf8_lossy rest else REPLACEMENT @ utf8_lossy r2
                             | [] \<Rightarrow> REPLACEMENT)
                       else REPLACEMENT @ utf8_lossy r1
                   | [] \<Rightarrow> REPLACEMENT)
             else REPLACEMENT @ utf8_lossy bs
         | [] \<Rightarrow> REPLACEMENT)
      else REPLACEMENT @ utf8_lossy bs)"

lemma utf8_lossy_valid: "utf8_valid bs \<Longrightarrow> utf8_lossy bs = bs"
proof (induction bs rule: length_induct)
  case (1 bs)
  show ?case
  proof (cases bs)
    case (Cons a r)
    consider "in_span 0 0x7F a" | "\<not> in_span 0 0x7F a" "in_span 0xC2 0xDF a"
      | "\<not> in_span 0 0x7F a" "\<not> in_span 0xC2 0xDF a" "in_span 0xE0 0xEF a"
      | "\<not> in_span 0 0x7F a" "\<not> in_span 0xC2 0xDF a" "\<not> in_span 0xE0 0xEF a" "in_span 0xF0 0xF4 a"
      using "1.prems" Cons by (simp split: if_splits)
    then show ?thesis
    proof cases
      case 1
      with "1.prems" "1.IH" Cons show ?thesis by simp
    next
      case 2
      then obtain b q where "r = b # q" "cont b" "utf8_valid q" using "1.prems" Cons by (simp split: list.splits)
      with 2 "1.IH" Cons show ?thesis by simp
    next
      case 3
      then obtain b c q where "r = b # c # q" "cont c" "utf8_valid q"
        "in_span (if unat a = 0xE0 then 0xA0 else 0x80) (if unat a = 0xED then 0x9F else 0xBF) b"
        using "1.prems" Cons by (simp split: list.splits split del: if_split)
      with 3 "1.IH" Cons show ?thesis by (simp split del: if_split)
    next
      case 4
      then obtain b c d q where "r = b # c # d # q" "cont c" "cont d" "utf8_valid q"
        "in_span (if unat a = 0xF0 then 0x90 else 0x80) (if unat a = 0xF4 then 0x8F else 0xBF) b"
        using "1.prems" Cons by (simp split: list.splits split del: if_split)
      with 4 "1.IH" Cons show ?thesis by (simp split del: if_split)
    qed
  qed simp
qed

end
