(* ===== verification/Vfs_Image.thy ===== *)
theory Vfs_Image
  imports Byte_Codec
begin

section \<open>The file tree and its disk image\<close>

text \<open>
  \<^verbatim>\<open>FsNode\<close>, \<^verbatim>\<open>serialize\<close> and \<^verbatim>\<open>deserialize\<close> of \<^verbatim>\<open>kernel/src/fs.rs\<close>. The nodes named \<^verbatim>\<open>proc\<close> and \<^verbatim>\<open>dev\<close>
  are made anew at every boot and left out of the image. \<open>deserialize\<close> gives \<open>None\<close> where a slice of the source
  is out of range, which panics, and the node it reads, if any, with the offset it leaves.
\<close>

datatype fs_node =
    File string "byte list"
  | Directory string "fs_node list"
  | Device string

fun node_name :: "fs_node \<Rightarrow> string" where
  "node_name (File n _) = n"
| "node_name (Directory n _) = n"
| "node_name (Device n) = n"

fun node_is_dir :: "fs_node \<Rightarrow> bool" where
  "node_is_dir (Directory _ _) = True"
| "node_is_dir _ = False"

definition synthetic :: "string \<Rightarrow> bool" where
  "synthetic n \<longleftrightarrow> n = ''proc'' \<or> n = ''dev''"

definition saved_children :: "string \<Rightarrow> fs_node list \<Rightarrow> fs_node list" where
  "saved_children n cs = filter (\<lambda>c. \<not> (n = ''/'' \<and> synthetic (node_name c))) cs"

lemma saved_children_subset: "c \<in> set (saved_children n cs) \<Longrightarrow> c \<in> set cs"
  by (simp add: saved_children_def)

lemma size_saved_child [termination_simp]:
  "c \<in> set (saved_children n cs) \<Longrightarrow> size c < Suc (size_list size cs)"
  by (auto dest!: saved_children_subset intro: size_list_estimation' le_imp_less_Suc)

definition name_bytes :: "string \<Rightarrow> byte list" where
  "name_bytes n = le_bytes 4 (length n) @ as_bytes n"

fun serialize :: "fs_node \<Rightarrow> byte list" where
  "serialize (File n content) = 1 # name_bytes n @ le_bytes 4 (length content) @ content"
| "serialize (Directory n cs) = 2 # name_bytes n @
     (if synthetic n then le_bytes 4 0
      else le_bytes 4 (length (saved_children n cs)) @ concat (map serialize (saved_children n cs)))"
| "serialize (Device n) = 3 # name_bytes n"

definition read_u32 :: "byte list \<Rightarrow> nat \<Rightarrow> nat option" where
  "read_u32 data off = map_option le_val (slice data off (off + 4))"

text \<open>A length-prefixed name: \<open>Inl\<close> the offset after the length when the bytes are not UTF-8.\<close>

definition read_name :: "byte list \<Rightarrow> nat \<Rightarrow> (nat + string \<times> nat) option" where
  "read_name data off = do {
     n \<leftarrow> read_u32 data off;
     bs \<leftarrow> slice data (off + 4) (off + 4 + n);
     Some (case from_utf8 bs of None \<Rightarrow> Inl (off + 4) | Some s \<Rightarrow> Inr (s, off + 4 + n))
   }"

fun deser_children :: "(nat \<Rightarrow> (fs_node option \<times> nat) option) \<Rightarrow> nat \<Rightarrow> nat \<Rightarrow> (fs_node list \<times> nat) option" where
  "deser_children f 0 off = Some ([], off)"
| "deser_children f (Suc n) off = do {
     (r, o1) \<leftarrow> f off;
     (cs, o2) \<leftarrow> deser_children f n o1;
     Some ((case r of Some c \<Rightarrow> c # cs | None \<Rightarrow> cs), o2)
   }"

text \<open>The recursion on directories, bounded by the bytes left (\<open>deser_fuel\<close> shows that the bound is never reached).\<close>

fun deser :: "nat \<Rightarrow> byte list \<Rightarrow> nat \<Rightarrow> (fs_node option \<times> nat) option" where
  "deser 0 data off = None"
| "deser (Suc k) data off =
     (if length data \<le> off then Some (None, off)
      else if data ! off = 1 then do {
        r \<leftarrow> read_name data (off + 1);
        (case r of
           Inl o1 \<Rightarrow> Some (None, o1)
         | Inr (n, o1) \<Rightarrow> do {
             len \<leftarrow> read_u32 data o1;
             content \<leftarrow> slice data (o1 + 4) (o1 + 4 + len);
             Some (Some (File n content), o1 + 4 + len)
           })
      }
      else if data ! off = 2 then do {
        r \<leftarrow> read_name data (off + 1);
        (case r of
           Inl o1 \<Rightarrow> Some (None, o1)
         | Inr (n, o1) \<Rightarrow> do {
             count \<leftarrow> read_u32 data o1;
             (cs, o2) \<leftarrow> deser_children (deser k data) count (o1 + 4);
             Some (Some (Directory n cs), o2)
           })
      }
      else if data ! off = 3 then do {
        r \<leftarrow> read_name data (off + 1);
        Some (case r of Inl o1 \<Rightarrow> (None, o1) | Inr (n, o1) \<Rightarrow> (Some (Device n), o1))
      }
      else Some (None, off + 1))"

definition deserialize :: "byte list \<Rightarrow> nat \<Rightarrow> (fs_node option \<times> nat) option" where
  "deserialize data off = deser (length data + 1) data off"

subsection \<open>The bound on the recursion is never reached\<close>

lemma read_name_mono: "read_name data off = Some (Inr (n, o1)) \<Longrightarrow> off + 4 \<le> o1 \<and> o1 \<le> length data"
  by (auto simp: read_name_def slice_def bind_eq_Some_conv split: if_splits option.splits)

lemma read_u32_mono: "read_u32 data off = Some v \<Longrightarrow> off + 4 \<le> length data"
  by (auto simp: read_u32_def slice_def split: if_splits)

lemma deser_children_mono:
  assumes "\<And>a r b. f a = Some (r, b) \<Longrightarrow> a \<le> b" and "deser_children f n off = Some (cs, o2)"
  shows "off \<le> o2"
  using assms(2)
proof (induction n arbitrary: off cs)
  case (Suc n)
  then obtain r o1 cs1 where "f off = Some (r, o1)" "deser_children f n o1 = Some (cs1, o2)"
    by (auto simp: bind_eq_Some_conv)
  with Suc.IH assms(1) [of off r o1] show ?case by fastforce
qed simp

lemma deser_mono: "deser k data off = Some (r, o1) \<Longrightarrow> off \<le> o1"
proof (induction k arbitrary: off r o1)
  case (Suc k)
  have name: "read_name data (off + 1) = Some (Inl o1) \<Longrightarrow> off \<le> o1" for o1
    by (auto simp: read_name_def bind_eq_Some_conv split: option.splits)
  note ch = deser_children_mono [of "deser k data", OF Suc.IH]
  show ?case
  proof (cases "read_name data (off + 1)")
    case None
    with Suc.prems show ?thesis by (auto split: if_splits)
  next
    case (Some q)
    show ?thesis
    proof (cases q)
      case (Inl p)
      with Some Suc.prems name show ?thesis by (auto split: if_splits)
    next
      case (Inr p)
      obtain n p1 where p: "p = (n, p1)" by (cases p)
      have "off + 5 \<le> p1" using read_name_mono [of data "off + 1" n p1] Some Inr p by simp
      with Some Inr p Suc.prems ch show ?thesis
        by (fastforce simp: bind_eq_Some_conv split: if_splits)
    qed
  qed
qed simp

lemma deser_children_cong:
  assumes "\<And>a. off \<le> a \<Longrightarrow> f a = g a" and "\<And>a r b. f a = Some (r, b) \<Longrightarrow> a \<le> b"
  shows "deser_children f n off = deser_children g n off"
  using assms(1)
proof (induction n arbitrary: off)
  case (Suc n)
  have "f off = g off" using Suc.prems by simp
  moreover have "deser_children f n o1 = deser_children g n o1" if "f off = Some (r, o1)" for r o1
    using Suc.IH Suc.prems assms(2) [OF that] by simp
  ultimately show ?case by (cases "g off") auto
qed simp

lemma deser_step: "length data - off < k \<Longrightarrow> deser k data off = deser (Suc k) data off"
proof (induction k arbitrary: off)
  case (Suc k)
  show ?case
  proof (cases "length data \<le> off")
    case False
    have ch: "deser_children (deser k data) c (o1 + 4) = deser_children (deser (Suc k) data) c (o1 + 4)"
      if "off + 5 \<le> o1" "o1 + 4 \<le> length data" for c o1
    proof (rule deser_children_cong)
      fix a assume "o1 + 4 \<le> a"
      with that Suc.prems show "deser k data a = deser (Suc k) data a" by (intro Suc.IH) simp
    qed (rule deser_mono)
    show ?thesis
    proof (cases "read_name data (off + 1)")
      case None
      then show ?thesis by simp
    next
      case (Some q)
      show ?thesis
      proof (cases q)
        case (Inl p)
        with Some show ?thesis by simp
      next
        case (Inr p)
        obtain n o1 where p: "p = (n, o1)" by (cases p)
        have o1: "off + 5 \<le> o1" using read_name_mono [of data "off + 1" n o1] Some Inr p by simp
        show ?thesis
        proof (cases "read_u32 data o1")
          case (Some c)
          have "deser_children (deser k data) c (o1 + 4) = deser_children (deser (Suc k) data) c (o1 + 4)"
            by (rule ch [OF o1 read_u32_mono [OF Some]])
          then show ?thesis using \<open>read_name data (off + 1) = Some q\<close> Inr p Some by (simp del: deser_children.simps)
        qed (use Some Inr p in simp)
      qed
    qed
  qed simp
qed simp

lemma deser_fuel: "length data - off < k \<Longrightarrow> k \<le> l \<Longrightarrow> deser k data off = deser l data off"
proof (induction l)
  case (Suc l)
  then show ?case using deser_step [of data off l] by (cases "k = Suc l") auto
qed simp

subsection \<open>Round trip\<close>

text \<open>What an image keeps of a tree, and the trees that fit the format.\<close>

fun strip :: "fs_node \<Rightarrow> fs_node" where
  "strip (File n content) = File n content"
| "strip (Directory n cs) = Directory n (if synthetic n then [] else map strip (saved_children n cs))"
| "strip (Device n) = Device n"

definition name_ok :: "string \<Rightarrow> bool" where
  "name_ok n \<longleftrightarrow> utf8_string n \<and> length n < 2 ^ 32"

fun node_fits :: "fs_node \<Rightarrow> bool" where
  "node_fits (File n content) \<longleftrightarrow> name_ok n \<and> length content < 2 ^ 32"
| "node_fits (Directory n cs) \<longleftrightarrow> name_ok n \<and> length cs < 2 ^ 32 \<and> (\<forall>c \<in> set cs. node_fits c)"
| "node_fits (Device n) \<longleftrightarrow> name_ok n"

lemma read_u32_at: "off = length pre \<Longrightarrow> v < 2 ^ 32 \<Longrightarrow> read_u32 (pre @ le_bytes 4 v @ post) off = Some v"
  by (simp add: read_u32_def slice_middle)

lemma read_name_at:
  assumes "off = length pre" and "name_ok n"
  shows "read_name (pre @ name_bytes n @ post) off = Some (Inr (n, off + length (name_bytes n)))"
proof -
  have "slice (pre @ name_bytes n @ post) (off + 4) (off + 4 + length n) = Some (as_bytes n)"
    using slice_middle [of "off + 4" "pre @ le_bytes 4 (length n)" "off + 4 + length n" "as_bytes n" post] assms(1)
    by (simp add: name_bytes_def)
  moreover have "read_u32 (pre @ name_bytes n @ post) off = Some (length n)"
    using read_u32_at [OF assms(1), of "length n" "as_bytes n @ post"] assms(2) by (simp add: name_bytes_def name_ok_def)
  ultimately show ?thesis
    using assms(2) by (simp add: read_name_def from_utf8_as_bytes name_ok_def name_bytes_def)
qed

lemma slice_at: "off = length pre \<Longrightarrow> slice (pre @ ys @ post) off (off + length ys) = Some ys"
  by (simp add: slice_middle)

lemma deser_children_at:
  assumes "\<And>c pre post. c \<in> set cs \<Longrightarrow> data = pre @ serialize c @ post \<Longrightarrow>
      f (length pre) = Some (Some (strip c), length pre + length (serialize c))"
    and "data = pre @ concat (map serialize cs) @ post"
  shows "deser_children f (length cs) (length pre) = Some (map strip cs, length pre + length (concat (map serialize cs)))"
  using assms
proof (induction cs arbitrary: pre)
  case (Cons c cs)
  have f: "f (length pre) = Some (Some (strip c), length pre + length (serialize c))"
    using Cons.prems(1) [of c pre "concat (map serialize cs) @ post"] Cons.prems(2) by simp
  have "deser_children f (length cs) (length (pre @ serialize c)) =
      Some (map strip cs, length (pre @ serialize c) + length (concat (map serialize cs)))"
  proof (rule Cons.IH)
    fix d pre post assume "d \<in> set cs" "data = pre @ serialize d @ post"
    then show "f (length pre) = Some (Some (strip d), length pre + length (serialize d))" by (intro Cons.prems(1)) simp_all
  qed (use Cons.prems(2) in simp)
  with f show ?case by simp
qed simp

lemma length_serialize_pos: "0 < length (serialize nd)"
  by (cases nd) simp_all

lemma length_serialize_child:
  "c \<in> set (saved_children n cs) \<Longrightarrow> \<not> synthetic n \<Longrightarrow> length (serialize c) < length (serialize (Directory n cs))"
proof -
  assume c: "c \<in> set (saved_children n cs)" and "\<not> synthetic n"
  have "length (serialize c) \<le> length (concat (map serialize (saved_children n cs)))"
    using c by (induction "saved_children n cs" arbitrary: cs) (auto simp: length_concat intro!: member_le_sum_list)
  then show ?thesis using \<open>\<not> synthetic n\<close> by simp
qed

lemma deser_serialize:
  "node_fits nd \<Longrightarrow> length (serialize nd) < k \<Longrightarrow> data = pre @ serialize nd @ post \<Longrightarrow>
   deser k data (length pre) = Some (Some (strip nd), length pre + length (serialize nd))"
proof (induction nd arbitrary: k pre post rule: serialize.induct)
  case (1 n content)
  obtain k' where k: "k = Suc k'" using 1(2) by (cases k) auto
  let ?p = "pre @ [1]"
  have nm: "read_name data (length ?p) = Some (Inr (n, length ?p + length (name_bytes n)))"
    using read_name_at [of "length ?p" ?p n "le_bytes 4 (length content) @ content @ post"] 1 by simp
  have ln: "read_u32 data (length (?p @ name_bytes n)) = Some (length content)"
    using read_u32_at [of _ "?p @ name_bytes n" "length content" "content @ post"] 1 by simp
  have "slice data (length (?p @ name_bytes n @ le_bytes 4 (length content)))
      (length (?p @ name_bytes n @ le_bytes 4 (length content)) + length content) = Some content"
    using slice_at [of _ "?p @ name_bytes n @ le_bytes 4 (length content)" content post] 1 by simp
  with nm ln 1(3) k show ?case by (simp add: nth_append add.commute add.left_commute)
next
  case (2 n cs)
  obtain k' where k: "k = Suc k'" using 2(3) by (cases k) auto
  let ?p = "pre @ [2]" and ?ks = "if synthetic n then [] else saved_children n cs"
  have fits: "name_ok n" "length ?ks < 2 ^ 32" "\<And>c. c \<in> set ?ks \<Longrightarrow> node_fits c"
    using 2(2) le_less_trans [OF length_filter_le] by (auto simp: saved_children_def split: if_splits)
  have data: "data = ?p @ name_bytes n @ le_bytes 4 (length ?ks) @ concat (map serialize ?ks) @ post"
    using 2(4) by simp
  let ?q = "?p @ name_bytes n @ le_bytes 4 (length ?ks)"
  have nm: "read_name data (length ?p) = Some (Inr (n, length ?p + length (name_bytes n)))"
    unfolding data by (rule read_name_at) (simp_all add: fits)
  have ln: "read_u32 data (length (?p @ name_bytes n)) = Some (length ?ks)"
    using read_u32_at [of _ "?p @ name_bytes n" "length ?ks" "concat (map serialize ?ks) @ post"] fits(2) data by simp
  have "deser_children (deser k' data) (length ?ks) (length ?q) = Some (map strip ?ks, length ?q + length (concat (map serialize ?ks)))"
  proof (rule deser_children_at)
    fix c pre' post' assume c: "c \<in> set ?ks" and d: "data = pre' @ serialize c @ post'"
    then have ns: "\<not> synthetic n" "c \<in> set (saved_children n cs)" by (auto split: if_splits)
    have "length (serialize c) < k'" using length_serialize_child [OF ns(2,1)] 2(3) k by simp
    then show "deser k' data (length pre') = Some (Some (strip c), length pre' + length (serialize c))"
      using 2(1) [OF ns fits(3) [OF c] _ d] by simp
  qed (simp add: data)
  moreover have "strip (Directory n cs) = Directory n (map strip ?ks)"
    "length (serialize (Directory n cs)) = 5 + length (name_bytes n) + length (concat (map serialize ?ks))" by simp_all
  ultimately show ?case using nm ln data k
    by (simp add: nth_append add.commute add.left_commute del: strip.simps serialize.simps split del: if_split)
next
  case (3 n)
  obtain k' where k: "k = Suc k'" using 3(2) by (cases k) auto
  have "read_name data (length (pre @ [3])) = Some (Inr (n, length (pre @ [3]) + length (name_bytes n)))"
    using read_name_at [of _ "pre @ [3]" n post] 3 by simp
  with 3(3) k show ?case by (simp add: nth_append)
qed

subsection \<open>Properties\<close>

text \<open>
  Reading an image back returns the tree that was written, less the nodes that are synthetic (\<^verbatim>\<open>/proc\<close>,
  \<^verbatim>\<open>/dev\<close>), and stops exactly at the end of the image, whatever follows it: for every tree whose names are UTF-8
  and whose names, files and directories are shorter than 2^32.
\<close>
theorem image_roundtrip:
  assumes "node_fits nd"
  shows "deserialize (serialize nd @ rest) 0 = Some (Some (strip nd), length (serialize nd))"
proof -
  have "deser (length (serialize nd @ rest) + 1) (serialize nd @ rest) (length ([] :: byte list)) =
      Some (Some (strip nd), length ([] :: byte list) + length (serialize nd))"
    by (rule deser_serialize [OF assms, where post = rest]) simp_all
  then show ?thesis by (simp add: deserialize_def)
qed

definition sample_tree :: fs_node where
  "sample_tree = Directory ''/'' [Directory ''etc'' [File ''hostname'' [1, 255, 3]], Directory ''proc'' [Device ''x''], Device ''tty'']"

lemma sample_tree_fits: "node_fits sample_tree"
  by (simp add: sample_tree_def name_ok_def ascii_utf8)

theorem image_roundtrip_witness:
  "deserialize (serialize sample_tree @ [9, 9]) 0 =
     Some (Some (Directory ''/'' [Directory ''etc'' [File ''hostname'' [1, 255, 3]], Device ''tty'']), length (serialize sample_tree))"
  using image_roundtrip [OF sample_tree_fits, of "[9, 9]"]
  by (simp add: sample_tree_def saved_children_def synthetic_def)

end
