(* ===== verification/Vfs_Paths.thy ===== *)
theory Vfs_Paths
  imports Vfs_Image
begin

section \<open>Paths\<close>

text \<open>
  \<^verbatim>\<open>resolve_path\<close> of \<^verbatim>\<open>kernel/src/fs.rs\<close> and the splitting of a path into its parent and last component, which
  every operation of the file system starts with.
\<close>

fun split_on :: "char \<Rightarrow> string \<Rightarrow> string list" where
  "split_on c [] = [[]]"
| "split_on c (x # xs) =
     (if x = c then [] # split_on c xs
      else (case split_on c xs of [] \<Rightarrow> [[x]] | p # ps \<Rightarrow> (x # p) # ps))"

definition SLASH :: char where "SLASH = CHR ''/''"

definition path_parts :: "string \<Rightarrow> string list" where
  "path_parts path = filter (\<lambda>s. s \<noteq> []) (split_on SLASH path)"

definition join_parts :: "string list \<Rightarrow> string" where
  "join_parts ps = concat (map (\<lambda>p. SLASH # p) ps)"

definition parent_of :: "string \<Rightarrow> (string \<times> string) option" where
  "parent_of path =
     (let ps = path_parts path in
      if ps = [] then None
      else Some (if length ps = 1 then [SLASH] else join_parts (butlast ps), last ps))"

fun norm_parts :: "string list \<Rightarrow> string list \<Rightarrow> string list" where
  "norm_parts acc [] = acc"
| "norm_parts acc (p # ps) =
     norm_parts (if p = [] \<or> p = ''.'' then acc else if p = ''..'' then butlast acc else acc @ [p]) ps"

definition full_path :: "string \<Rightarrow> string \<Rightarrow> string" where
  "full_path cwd path =
     (if path \<noteq> [] \<and> hd path = SLASH then path
      else if cwd = [SLASH] then SLASH # path else cwd @ SLASH # path)"

definition resolve_path :: "string \<Rightarrow> string \<Rightarrow> string" where
  "resolve_path cwd path =
     (let ps = norm_parts [] (split_on SLASH (full_path cwd path)) in if ps = [] then [SLASH] else join_parts ps)"

subsection \<open>Splitting and joining\<close>

lemma split_on_nonempty: "split_on c s \<noteq> []"
  by (cases s) (auto split: list.splits)

lemma split_on_sep: "p \<in> set (split_on c s) \<Longrightarrow> c \<notin> set p"
proof (induction s arbitrary: p)
  case (Cons x xs)
  obtain q qs where "split_on c xs = q # qs" using split_on_nonempty [of c xs] by (cases "split_on c xs") auto
  with Cons show ?case by (auto split: if_splits)
qed simp

lemma split_on_cons: "c \<notin> set p \<Longrightarrow> split_on c (p @ c # s) = p # split_on c s"
  by (induction p) auto

lemma split_on_single: "c \<notin> set p \<Longrightarrow> split_on c p = [p]"
  by (induction p) auto

lemma split_on_join:
  assumes "\<forall>p \<in> set ps. SLASH \<notin> set p"
  shows "split_on SLASH (join_parts ps) = [] # ps"
proof (cases ps)
  case (Cons p qs)
  have "\<forall>p \<in> set ps. SLASH \<notin> set p \<Longrightarrow> ps = p # qs \<Longrightarrow> split_on SLASH (p @ join_parts qs) = p # qs" for ps p qs
  proof (induction qs arbitrary: ps p)
    case Nil
    then show ?case by (simp add: join_parts_def split_on_single)
  next
    case (Cons q qs)
    then have "split_on SLASH (q @ join_parts qs) = q # qs" by simp
    with Cons.prems show ?case by (simp add: join_parts_def split_on_cons)
  qed
  from this [OF assms Cons] Cons show ?thesis by (simp add: join_parts_def)
qed (simp add: join_parts_def)

definition good_name :: "string \<Rightarrow> bool" where
  "good_name p \<longleftrightarrow> p \<noteq> [] \<and> SLASH \<notin> set p"

lemma path_parts_join: "\<forall>p \<in> set ps. good_name p \<Longrightarrow> path_parts (join_parts ps) = ps"
  using split_on_join [of ps] by (simp add: path_parts_def good_name_def filter_id_conv)

lemma path_parts_good: "p \<in> set (path_parts path) \<Longrightarrow> good_name p"
  using split_on_sep by (auto simp: path_parts_def good_name_def)

lemma path_parts_root [simp]: "path_parts [SLASH] = []"
  by (simp add: path_parts_def)

lemma join_parts_root: "join_parts ps = [SLASH] \<Longrightarrow> \<forall>p \<in> set ps. good_name p \<Longrightarrow> ps = []"
  using path_parts_join [of ps] by simp

text \<open>The parent of a path, by its components.\<close>

lemma parent_of_Some:
  assumes "parent_of path = Some (pp, n)"
  obtains ps where "path_parts path = ps @ [n]" "path_parts pp = ps" "good_name n" "\<forall>p \<in> set ps. good_name p"
proof
  have ne: "path_parts path \<noteq> []" using assms by (auto simp: parent_of_def Let_def split: if_splits)
  then show eq: "path_parts path = butlast (path_parts path) @ [n]"
    using assms by (auto simp: parent_of_def Let_def split: if_splits)
  have good: "\<forall>p \<in> set (path_parts path). good_name p" using path_parts_good by blast
  then show b: "\<forall>p \<in> set (butlast (path_parts path)). good_name p" by (auto dest: in_set_butlastD)
  show "good_name n" using good eq by (metis in_set_conv_decomp)
  show "path_parts pp = butlast (path_parts path)"
  proof (cases "length (path_parts path) = 1")
    case True
    then have "butlast (path_parts path) = []" by (cases "path_parts path") auto
    with True assms ne show ?thesis by (auto simp: parent_of_def Let_def)
  next
    case False
    with assms ne path_parts_join [OF b] show ?thesis by (auto simp: parent_of_def Let_def)
  qed
qed

lemma parent_of_None: "parent_of path = None \<longleftrightarrow> path_parts path = []"
  by (simp add: parent_of_def Let_def)

subsection \<open>Properties\<close>

definition plain_part :: "string \<Rightarrow> bool" where
  "plain_part p \<longleftrightarrow> good_name p \<and> p \<noteq> ''.'' \<and> p \<noteq> ''..''"

lemma norm_parts_plain:
  "\<forall>p \<in> set acc. plain_part p \<Longrightarrow> \<forall>p \<in> set ps. SLASH \<notin> set p \<Longrightarrow> \<forall>p \<in> set (norm_parts acc ps). plain_part p"
proof (induction acc ps rule: norm_parts.induct)
  case (2 acc p ps)
  have "\<forall>q \<in> set (if p = [] \<or> p = ''.'' then acc else if p = ''..'' then butlast acc else acc @ [p]). plain_part q"
    using 2(2,3) by (auto simp: plain_part_def good_name_def dest: in_set_butlastD)
  with 2 show ?case by simp
qed simp

lemma norm_parts_id: "\<forall>p \<in> set ps. plain_part p \<Longrightarrow> norm_parts acc ps = acc @ ps"
  by (induction acc ps rule: norm_parts.induct) (auto simp: plain_part_def good_name_def)

text \<open>
  C40. A resolved path is canonical whatever the working directory and the path: its components are the non-empty
  pieces between slashes, none of them is \<^verbatim>\<open>.\<close> or \<^verbatim>\<open>..\<close> (so no path climbs above the root), it is either \<^verbatim>\<open>/\<close> or
  its components joined with one slash before each, and resolving it again from any directory changes nothing.
\<close>
theorem resolve_path_canonical:
  "list_all plain_part (path_parts (resolve_path cwd path)) \<and>
   resolve_path cwd path =
     (if path_parts (resolve_path cwd path) = [] then ''/'' else join_parts (path_parts (resolve_path cwd path))) \<and>
   resolve_path cwd' (resolve_path cwd path) = resolve_path cwd path"
proof -
  define ps where "ps = norm_parts [] (split_on SLASH (full_path cwd path))"
  have plain: "\<forall>p \<in> set ps. plain_part p" unfolding ps_def by (rule norm_parts_plain) (use split_on_sep in auto)
  then have good: "\<forall>p \<in> set ps. good_name p" by (simp add: plain_part_def)
  have root: "''/'' = [SLASH]" by (simp add: SLASH_def)
  have r: "resolve_path cwd path = (if ps = [] then [SLASH] else join_parts ps)" by (simp add: resolve_path_def ps_def Let_def)
  show ?thesis
  proof (cases "ps = []")
    case True
    then show ?thesis unfolding root r by (simp add: resolve_path_def full_path_def)
  next
    case False
    have "join_parts ps \<noteq> [] \<and> hd (join_parts ps) = SLASH" using False by (cases ps) (auto simp: join_parts_def)
    moreover have "norm_parts [] (split_on SLASH (join_parts ps)) = ps"
      using good plain split_on_join [of ps] norm_parts_id [of ps "[]"] by (simp add: good_name_def)
    ultimately have "resolve_path cwd' (join_parts ps) = join_parts ps"
      using False by (simp add: resolve_path_def full_path_def)
    then show ?thesis using plain False path_parts_join [OF good] unfolding r by (simp add: list_all_iff)
  qed
qed

end
