(* ===== verification/Vfs_Tree.thy ===== *)
theory Vfs_Tree
  imports Vfs_Paths
begin

section \<open>Operations on the file tree\<close>

text \<open>
  The directory walk of \<^verbatim>\<open>kernel/src/fs.rs\<close> and the operations on the tree, each with its guards in the source's
  order: \<^verbatim>\<open>mkdir\<close>, \<^verbatim>\<open>write_file_bytes\<close>, \<^verbatim>\<open>remove\<close>, \<^verbatim>\<open>write_file_chunk\<close>, \<^verbatim>\<open>write_file_quiet_bytes\<close> and
  the lookups. They are proved to implement a map from component lists to entries.
  A mutable reference \<^verbatim>\<open>&mut Vec<FsNode>\<close> into the tree is the pair of \<open>find_dir\<close>, the children it shows, and
  \<open>store_dir\<close>, the tree after they were changed.
\<close>

definition dir_named :: "string \<Rightarrow> fs_node \<Rightarrow> bool" where
  "dir_named p c \<longleftrightarrow> node_name c = p \<and> node_is_dir c"

fun children_of :: "fs_node \<Rightarrow> fs_node list option" where
  "children_of (Directory _ cs) = Some cs"
| "children_of _ = None"

fun walk :: "fs_node \<Rightarrow> string list \<Rightarrow> fs_node option" where
  "walk cur [] = Some cur"
| "walk cur (p # ps) =
     (case children_of cur of
        None \<Rightarrow> None
      | Some cs \<Rightarrow> (case position (dir_named p) cs of None \<Rightarrow> None | Some i \<Rightarrow> walk (cs ! i) ps))"

definition find_dir :: "fs_node \<Rightarrow> string \<Rightarrow> fs_node list option" where
  "find_dir root path =
     (if path = ''/'' then children_of root else Option.bind (walk root (path_parts path)) children_of)"

definition find_dir_ro :: "fs_node \<Rightarrow> string \<Rightarrow> fs_node list option" where
  "find_dir_ro root path =
     (if path = ''/'' then children_of root else Option.bind (walk root (path_parts path)) children_of)"

fun store_at :: "fs_node \<Rightarrow> string list \<Rightarrow> fs_node list \<Rightarrow> fs_node" where
  "store_at (Directory n cs) [] new = Directory n new"
| "store_at (Directory n cs) (p # ps) new =
     (case position (dir_named p) cs of
        None \<Rightarrow> Directory n cs
      | Some i \<Rightarrow> Directory n (cs[i := store_at (cs ! i) ps new]))"
| "store_at nd ps new = nd"

definition store_dir :: "fs_node \<Rightarrow> string \<Rightarrow> fs_node list \<Rightarrow> fs_node" where
  "store_dir root path new = store_at root (path_parts path) new"

definition child_index :: "string \<Rightarrow> fs_node list \<Rightarrow> nat option" where
  "child_index name cs = position (\<lambda>c. node_name c = name) cs"

subsection \<open>The operations\<close>

definition mkdir_tree :: "string \<Rightarrow> fs_node \<Rightarrow> (string, unit) result \<times> fs_node" where
  "mkdir_tree path root =
     (if path = ''/'' then (Err ''Root zaten var'', root)
      else case parent_of path of
        None \<Rightarrow> (Err ''Gecersiz yol'', root)
      | Some (pp, name) \<Rightarrow>
          (case find_dir root pp of
             None \<Rightarrow> (Err ''Ust dizin bulunamadi'', root)
           | Some cs \<Rightarrow>
               if list_ex (\<lambda>c. node_name c = name) cs
               then (Err ''Bu isimde bir dosya veya dizin zaten var'', root)
               else (Ok (), store_dir root pp (cs @ [Directory name []]))))"

definition write_file_tree :: "string \<Rightarrow> byte list \<Rightarrow> fs_node \<Rightarrow> (string, unit) result \<times> fs_node" where
  "write_file_tree path content root =
     (if path = ''/'' then (Err ''Root uzerine yazi yazilamaz'', root)
      else case parent_of path of
        None \<Rightarrow> (Err ''Gecersiz yol'', root)
      | Some (pp, name) \<Rightarrow>
          (case find_dir root pp of
             None \<Rightarrow> (Err ''Ust dizin bulunamadi'', root)
           | Some cs \<Rightarrow>
               (case child_index name cs of
                  None \<Rightarrow> (Ok (), store_dir root pp (cs @ [File name content]))
                | Some i \<Rightarrow>
                    (case cs ! i of
                       File n _ \<Rightarrow> (Ok (), store_dir root pp (cs[i := File n content]))
                     | _ \<Rightarrow> (Err ''Bu bir dizin, dosya degil!'', root)))))"

definition remove_tree :: "string \<Rightarrow> fs_node \<Rightarrow> (string, unit) result \<times> fs_node" where
  "remove_tree path root =
     (if path = ''/'' then (Err ''Root dizini silinemez'', root)
      else case parent_of path of
        None \<Rightarrow> (Err ''Gecersiz yol'', root)
      | Some (pp, name) \<Rightarrow>
          (case find_dir root pp of
             None \<Rightarrow> (Err ''Ust dizin bulunamadi'', root)
           | Some cs \<Rightarrow>
               (case child_index name cs of
                  None \<Rightarrow> (Err ''Dosya veya dizin bulunamadi'', root)
                | Some i \<Rightarrow> (Ok (), store_dir root pp (list_remove i cs)))))"

text \<open>
  A chunk write past the end extends the file with zeros; an end of 2^63 bytes or more panics, by the overflow of
  \<^verbatim>\<open>offset + buf.len()\<close> or by the capacity limit of \<^verbatim>\<open>Vec::resize\<close>.
\<close>

definition patch_content :: "nat \<Rightarrow> byte list \<Rightarrow> byte list \<Rightarrow> byte list" where
  "patch_content off buf content =
     overwrite off buf (if length content < off + length buf
                        then content @ replicate (off + length buf - length content) 0 else content)"

definition write_file_chunk_tree ::
    "string \<Rightarrow> nat \<Rightarrow> byte list \<Rightarrow> fs_node \<Rightarrow> ((string, nat) result \<times> fs_node) option" where
  "write_file_chunk_tree path off buf root =
     (if path = ''/'' then Some (Err ''Root uzerine yazi yazilamaz'', root)
      else case parent_of path of
        None \<Rightarrow> Some (Err ''Gecersiz yol'', root)
      | Some (pp, name) \<Rightarrow>
          (case find_dir root pp of
             None \<Rightarrow> Some (Err ''Ust dizin bulunamadi'', root)
           | Some cs \<Rightarrow>
               (case child_index name cs of
                  None \<Rightarrow> do {
                    _ \<leftarrow> checked_add 63 off (length buf);
                    Some (Ok (length buf), store_dir root pp (cs @ [File name (patch_content off buf [])]))
                  }
                | Some i \<Rightarrow>
                    (case cs ! i of
                       File n content \<Rightarrow> do {
                         _ \<leftarrow> checked_add 63 off (length buf);
                         Some (Ok (length buf), store_dir root pp (cs[i := File n (patch_content off buf content)]))
                       }
                     | _ \<Rightarrow> Some (Err ''Bu bir dizin veya cihaz, dosya degil!'', root)))))"

definition write_file_quiet_bytes :: "string \<Rightarrow> byte list \<Rightarrow> fs_node \<Rightarrow> (string, unit) result \<times> fs_node" where
  "write_file_quiet_bytes path content root =
     (if path = ''/'' then (Err ''Root uzerine yazi yazilamaz'', root)
      else case parent_of path of
        None \<Rightarrow> (Err ''Gecersiz yol'', root)
      | Some (pp, name) \<Rightarrow>
          (case find_dir root pp of
             None \<Rightarrow> (Err ''Ust dizin bulunamadi'', root)
           | Some cs \<Rightarrow>
               (case child_index name cs of
                  None \<Rightarrow> (Ok (), store_dir root pp (cs @ [File name content]))
                | Some i \<Rightarrow>
                    (case cs ! i of
                       File n _ \<Rightarrow> (Ok (), store_dir root pp (cs[i := File n content]))
                     | _ \<Rightarrow> (Ok (), root)))))"

text \<open>The lookup that the reading operations share; \<open>msg\<close> is the error for a node that is no file.\<close>

definition lookup_file :: "string \<Rightarrow> string \<Rightarrow> fs_node \<Rightarrow> (string, byte list) result" where
  "lookup_file msg path root =
     (case parent_of path of
        None \<Rightarrow> Err ''Gecersiz yol''
      | Some (pp, name) \<Rightarrow>
          (case find_dir_ro root pp of
             None \<Rightarrow> Err ''Ust dizin bulunamadi''
           | Some cs \<Rightarrow>
               (case child_index name cs of
                  None \<Rightarrow> Err ''Dosya bulunamadi''
                | Some i \<Rightarrow> (case cs ! i of File _ content \<Rightarrow> Ok content | _ \<Rightarrow> Err msg))))"

subsection \<open>The tree as a map from paths to entries\<close>

datatype entry = EFile "byte list" | EDir | EDev

fun entry_of :: "fs_node \<Rightarrow> entry" where
  "entry_of (File _ c) = EFile c"
| "entry_of (Directory _ _) = EDir"
| "entry_of (Device _) = EDev"

abbreviation kids :: "fs_node list \<Rightarrow> string \<Rightarrow> fs_node option" where
  "kids cs \<equiv> map_of (map (\<lambda>c. (node_name c, c)) cs)"

fun node_at :: "fs_node \<Rightarrow> string list \<Rightarrow> fs_node option" where
  "node_at nd [] = Some nd"
| "node_at nd (p # ps) =
     (case children_of nd of None \<Rightarrow> None | Some cs \<Rightarrow> (case kids cs p of None \<Rightarrow> None | Some c \<Rightarrow> node_at c ps))"

definition tree_view :: "fs_node \<Rightarrow> string list \<Rightarrow> entry option" where
  "tree_view nd ps = map_option entry_of (node_at nd ps)"

fun tree_ok :: "fs_node \<Rightarrow> bool" where
  "tree_ok (Directory n cs) \<longleftrightarrow> distinct (map node_name cs) \<and> (\<forall>c \<in> set cs. good_name (node_name c) \<and> tree_ok c)"
| "tree_ok _ \<longleftrightarrow> True"

definition root_ok :: "fs_node \<Rightarrow> bool" where
  "root_ok root \<longleftrightarrow> tree_ok root \<and> node_is_dir root"

lemma entry_of_dir: "entry_of nd = EDir \<longleftrightarrow> node_is_dir nd"
  by (cases nd) simp_all

lemma is_dir_children: "node_is_dir nd \<longleftrightarrow> (\<exists>cs. children_of nd = Some cs)"
  by (cases nd) simp_all

lemma kids_index: "kids cs p = map_option (\<lambda>i. cs ! i) (child_index p cs)"
  by (induction cs) (auto simp: child_index_def option.map_comp comp_def)

lemma kids_in: "kids cs p = Some c \<Longrightarrow> c \<in> set cs \<and> node_name c = p"
  by (induction cs) (auto split: if_splits)

lemma kids_None: "kids cs p = None \<longleftrightarrow> (\<forall>c \<in> set cs. node_name c \<noteq> p)"
  by (induction cs) auto

lemma names_differ: "distinct (map node_name (c # cs)) \<Longrightarrow> d \<in> set cs \<Longrightarrow> node_name d \<noteq> node_name c"
  by (metis distinct.simps(2) imageI list.set_map list.simps(9))

lemma node_at_append: "node_at nd (ps @ rs) = Option.bind (node_at nd ps) (\<lambda>d. node_at d rs)"
  by (induction nd ps rule: node_at.induct) (auto split: option.splits)

text \<open>With unique names, the first directory called \<open>p\<close> is the child called \<open>p\<close>, if that is a directory.\<close>

lemma position_dir:
  assumes "distinct (map node_name cs)"
  shows "position (dir_named p) cs = (case child_index p cs of None \<Rightarrow> None | Some i \<Rightarrow> if node_is_dir (cs ! i) then Some i else None)"
  using assms
proof (induction cs)
  case (Cons c cs)
  show ?case
  proof (cases "node_name c = p")
    case True
    then have "position (dir_named p) cs = None" using names_differ [OF Cons.prems] by (simp add: position_None dir_named_def)
    moreover have "dir_named p c \<longleftrightarrow> node_is_dir c" using True by (simp add: dir_named_def)
    ultimately show ?thesis using True by (simp add: child_index_def)
  next
    case False
    then have "\<not> dir_named p c" by (simp add: dir_named_def)
    with False Cons show ?thesis by (auto simp: child_index_def split: option.splits)
  qed
qed (simp add: child_index_def)

lemma walk_node_at:
  "tree_ok nd \<Longrightarrow> Option.bind (walk nd ps) children_of = Option.bind (node_at nd ps) children_of"
proof (induction nd ps rule: walk.induct)
  case (2 cur p ps)
  show ?case
  proof (cases cur)
    case (Directory n cs)
    show ?thesis
    proof (cases "child_index p cs")
      case None
      with Directory 2 show ?thesis by (simp add: position_dir kids_index)
    next
      case (Some i)
      then have i: "i < length cs" by (simp add: child_index_def position_in_range)
      have "\<not> node_is_dir (cs ! i) \<Longrightarrow> Option.bind (node_at (cs ! i) ps) children_of = None"
        by (cases ps; cases "cs ! i") simp_all
      with Directory Some 2 i show ?thesis by (simp add: position_dir kids_index)
    qed
  qed simp_all
qed simp

lemma find_dir_node_at:
  "tree_ok root \<Longrightarrow> find_dir root path = Option.bind (node_at root (path_parts path)) children_of"
  using walk_node_at [of root "path_parts path"] by (simp add: find_dir_def path_parts_def SLASH_def)

lemma find_dir_ro_eq: "find_dir_ro = find_dir"
  by (simp add: fun_eq_iff find_dir_def find_dir_ro_def)

lemma kids_upd:
  "child_index p cs = Some i \<Longrightarrow> node_name c = p \<Longrightarrow> kids (cs[i := c]) = (kids cs)(p \<mapsto> c)"
proof (induction cs arbitrary: i)
  case (Cons d cs)
  show ?case
  proof (cases "node_name d = p")
    case False
    with Cons obtain j where "child_index p cs = Some j" "i = Suc j" by (auto simp: child_index_def)
    with Cons False show ?thesis by auto
  qed (use Cons.prems in \<open>auto simp: child_index_def fun_eq_iff\<close>)
qed (simp add: child_index_def)

lemma kids_snoc: "kids cs (node_name c) = None \<Longrightarrow> kids (cs @ [c]) = (kids cs)(node_name c \<mapsto> c)"
  by (induction cs) (auto simp: fun_eq_iff split: if_splits)

lemma kids_remove:
  "distinct (map node_name cs) \<Longrightarrow> child_index p cs = Some i \<Longrightarrow> kids (list_remove i cs) = (kids cs)(p := None)"
proof (induction cs arbitrary: i)
  case (Cons d cs)
  show ?case
  proof (cases "node_name d = p")
    case True
    then have "kids cs p = None" using names_differ [OF Cons.prems(1)] by (simp add: kids_None)
    with True Cons.prems show ?thesis by (auto simp: child_index_def list_remove_def fun_eq_iff)
  next
    case False
    with Cons.prems obtain j where j: "child_index p cs = Some j" "i = Suc j" by (auto simp: child_index_def)
    have "kids (list_remove j cs) = (kids cs)(p := None)" by (rule Cons.IH [OF _ j(1)]) (use Cons.prems(1) in simp)
    with j False show ?thesis by (auto simp: list_remove_def fun_eq_iff)
  qed
qed (simp add: child_index_def)

lemma child_index_Some: "child_index p cs = Some i \<Longrightarrow> i < length cs \<and> node_name (cs ! i) = p"
  by (simp add: child_index_def position_Some)

lemma distinct_names_upd:
  assumes "i < length cs" and "node_name c = node_name (cs ! i)"
  shows "map node_name (cs[i := c]) = map node_name cs"
  using assms by (simp add: map_update list_update_same_conv)

lemma tree_ok_upd:
  "tree_ok (Directory n cs) \<Longrightarrow> i < length cs \<Longrightarrow> node_name c = node_name (cs ! i) \<Longrightarrow> tree_ok c \<Longrightarrow>
   tree_ok (Directory n (cs[i := c]))"
  using distinct_names_upd [of i cs c] by (auto dest!: set_update_subset_insert [THEN subsetD])

text \<open>Changing the children of one directory.\<close>

lemma store_at_spec:
  assumes "tree_ok nd" and "node_at nd ps = Some (Directory n cs)" and "tree_ok (Directory n new)"
  shows "tree_ok (store_at nd ps new)" and "node_name (store_at nd ps new) = node_name nd"
    and "node_is_dir (store_at nd ps new)"
    and "tree_view (store_at nd ps new) qs =
      (if take (length ps) qs = ps then tree_view (Directory n new) (drop (length ps) qs) else tree_view nd qs)"
proof -
  have "tree_ok (store_at nd ps new) \<and> node_name (store_at nd ps new) = node_name nd \<and> node_is_dir (store_at nd ps new) \<and>
    (\<forall>qs. tree_view (store_at nd ps new) qs =
      (if take (length ps) qs = ps then tree_view (Directory n new) (drop (length ps) qs) else tree_view nd qs))"
    using assms
  proof (induction ps arbitrary: nd)
    case (Cons p ps)
    then obtain m ks where nd: "nd = Directory m ks" by (cases nd) auto
    with Cons.prems(2) obtain i where i: "child_index p ks = Some i" and at: "node_at (ks ! i) ps = Some (Directory n cs)"
      by (auto simp: kids_index split: option.splits)
    note ci = child_index_Some [OF i]
    have sub: "tree_ok (ks ! i)" using Cons.prems(1) nd ci by simp
    have dir: "node_is_dir (ks ! i)" using at by (cases ps; cases "ks ! i") auto
    let ?c = "store_at (ks ! i) ps new"
    have IH: "tree_ok ?c" "node_name ?c = p" "\<And>qs. tree_view ?c qs =
        (if take (length ps) qs = ps then tree_view (Directory n new) (drop (length ps) qs) else tree_view (ks ! i) qs)"
      using Cons.IH [OF sub at Cons.prems(3)] ci by simp_all
    have st: "store_at nd (p # ps) new = Directory m (ks[i := ?c])"
      using nd i dir Cons.prems(1) position_dir [of ks p] by simp
    have "tree_view (Directory m (ks[i := ?c])) qs =
        (if take (length (p # ps)) qs = p # ps then tree_view (Directory n new) (drop (length (p # ps)) qs) else tree_view nd qs)" for qs
    proof (cases qs)
      case (Cons q qs')
      then show ?thesis
        using kids_upd [OF i IH(2)] IH(3) [of qs'] nd i by (simp add: tree_view_def kids_index)
    qed (simp add: nd tree_view_def)
    moreover have "tree_ok (Directory m (ks[i := ?c]))"
      by (rule tree_ok_upd) (use Cons.prems(1) nd ci IH(1,2) in \<open>simp_all only:\<close>)
    ultimately show ?case using st nd by simp
  qed simp
  then show "tree_ok (store_at nd ps new)" "node_name (store_at nd ps new) = node_name nd"
    "node_is_dir (store_at nd ps new)" "tree_view (store_at nd ps new) qs =
      (if take (length ps) qs = ps then tree_view (Directory n new) (drop (length ps) qs) else tree_view nd qs)" by blast+
qed

definition leaf :: "fs_node \<Rightarrow> bool" where
  "leaf nd \<longleftrightarrow> (\<forall>cs. children_of nd = Some cs \<longrightarrow> cs = [])"

lemma leaf_view: "leaf nd \<Longrightarrow> tree_view nd rs = (if rs = [] then Some (entry_of nd) else None)"
  by (cases rs; cases nd) (auto simp: tree_view_def leaf_def)

text \<open>Putting a leaf in a directory, where there was nothing or another leaf.\<close>

lemma store_leaf_view:
  assumes ok: "tree_ok nd" and at: "node_at nd ps = Some (Directory n cs)" and new: "tree_ok (Directory n new)"
    and kids: "kids new = (kids cs)(p \<mapsto> x)" and leaf: "leaf x" "\<And>y. kids cs p = Some y \<Longrightarrow> leaf y"
  shows "tree_view (store_at nd ps new) = (tree_view nd)(ps @ [p] \<mapsto> entry_of x)"
proof
  have dir: "tree_view nd (ps @ rs) = tree_view (Directory n cs) rs" for rs
    using at by (simp add: tree_view_def node_at_append)
  have one: "tree_view (Directory n new) rs = ((tree_view (Directory n cs))([p] \<mapsto> entry_of x)) rs" for rs
  proof (cases rs)
    case (Cons q qs)
    show ?thesis
    proof (cases "q = p")
      case True
      then have "tree_view (Directory n new) rs = tree_view x qs" using Cons kids by (simp add: tree_view_def)
      moreover have "tree_view (Directory n cs) rs = None" if "qs \<noteq> []"
        using that Cons True leaf(2) leaf_view [of _ qs]
        by (cases "kids cs p") (auto simp: tree_view_def)
      ultimately show ?thesis using Cons True leaf_view [OF leaf(1), of qs] by simp
    qed (use Cons kids in \<open>simp add: tree_view_def\<close>)
  qed (simp add: tree_view_def)
  fix qs
  show "tree_view (store_at nd ps new) qs = ((tree_view nd)(ps @ [p] \<mapsto> entry_of x)) qs"
  proof (cases "take (length ps) qs = ps")
    case True
    then obtain rs where rs: "qs = ps @ rs" by (metis append_take_drop_id)
    then show ?thesis using store_at_spec(4) [OF ok at new, of qs] one [of rs] dir [of rs] by simp
  next
    case False
    then have "qs \<noteq> ps @ [p]" by auto
    with False show ?thesis using store_at_spec(4) [OF ok at new, of qs] by simp
  qed
qed

lemma store_remove_view:
  assumes ok: "tree_ok nd" and at: "node_at nd ps = Some (Directory n cs)" and new: "tree_ok (Directory n new)"
    and kids: "kids new = (kids cs)(p := None)"
  shows "tree_view (store_at nd ps new) qs = (if take (length ps + 1) qs = ps @ [p] then None else tree_view nd qs)"
proof (cases "take (length ps) qs = ps")
  case True
  then obtain rs where rs: "qs = ps @ rs" by (metis append_take_drop_id)
  have "tree_view nd qs = tree_view (Directory n cs) rs" using at rs by (simp add: tree_view_def node_at_append)
  moreover have "tree_view (store_at nd ps new) qs = tree_view (Directory n new) rs"
    using store_at_spec(4) [OF ok at new, of qs] rs by simp
  moreover have "tree_view (Directory n new) rs = (if take 1 rs = [p] then None else tree_view (Directory n cs) rs)"
    using kids by (cases rs) (simp_all add: tree_view_def)
  ultimately show ?thesis using rs by simp
next
  case False
  have "take (length ps + 1) qs \<noteq> ps @ [p]"
  proof
    assume "take (length ps + 1) qs = ps @ [p]"
    then have "take (length ps) (take (length ps + 1) qs) = ps" by simp
    with False show False by (simp add: take_take)
  qed
  with False show ?thesis using store_at_spec(4) [OF ok at new, of qs] by simp
qed

subsection \<open>The abstract file system\<close>

type_synonym path_map = "string list \<Rightarrow> entry option"

definition spec_mkdir :: "string list \<Rightarrow> path_map \<Rightarrow> path_map option" where
  "spec_mkdir ps m = (if ps \<noteq> [] \<and> m (butlast ps) = Some EDir \<and> m ps = None then Some (m(ps \<mapsto> EDir)) else None)"

definition no_file :: "entry option \<Rightarrow> bool" where
  "no_file x \<longleftrightarrow> x = Some EDir \<or> x = Some EDev"

definition spec_write :: "string list \<Rightarrow> (byte list \<Rightarrow> byte list) \<Rightarrow> path_map \<Rightarrow> path_map option" where
  "spec_write ps f m =
     (if ps \<noteq> [] \<and> m (butlast ps) = Some EDir \<and> \<not> no_file (m ps)
      then Some (m(ps \<mapsto> EFile (f (case m ps of Some (EFile c) \<Rightarrow> c | _ \<Rightarrow> [])))) else None)"

definition spec_remove :: "string list \<Rightarrow> path_map \<Rightarrow> path_map option" where
  "spec_remove ps m =
     (if ps \<noteq> [] \<and> m ps \<noteq> None then Some (\<lambda>qs. if take (length ps) qs = ps then None else m qs) else None)"

definition implements :: "(string, 'a) result \<times> fs_node \<Rightarrow> path_map option \<Rightarrow> fs_node \<Rightarrow> bool" where
  "implements res sp root \<longleftrightarrow>
     (is_ok (fst res) \<longleftrightarrow> sp \<noteq> None) \<and> root_ok (snd res) \<and>
     tree_view (snd res) = (case sp of Some m \<Rightarrow> m | None \<Rightarrow> tree_view root)"

lemma implements_err: "root_ok root \<Longrightarrow> implements (Err msg, root) None root"
  by (simp add: implements_def)

lemma tree_ok_node_at: "tree_ok nd \<Longrightarrow> node_at nd ps = Some d \<Longrightarrow> tree_ok d"
proof (induction nd ps rule: node_at.induct)
  case (2 nd p ps)
  from 2(3) obtain cs c where c: "children_of nd = Some cs" "kids cs p = Some c" "node_at c ps = Some d"
    by (auto split: option.splits)
  then have "tree_ok c" using 2(2) kids_in [OF c(2)] by (cases nd) auto
  with 2(1) [OF c(1,2)] c(3) show ?case by simp
qed simp

text \<open>What the guards of an operation find out: no path, no directory, or the directory and its children.\<close>

lemma path_cases [consumes 1, case_names no_path no_dir in_dir]:
  assumes root: "root_ok root"
  obtains "parent_of path = None" "path_parts path = []"
  | pp nm ps where "path \<noteq> ''/''" "parent_of path = Some (pp, nm)" "find_dir root pp = None" "path_parts path = ps @ [nm]"
      "tree_view root ps \<noteq> Some EDir" "tree_view root (ps @ [nm]) = None"
  | pp nm ps n cs where "path \<noteq> ''/''" "parent_of path = Some (pp, nm)" "find_dir root pp = Some cs" "path_parts path = ps @ [nm]"
      "path_parts pp = ps" "good_name nm" "tree_view root ps = Some EDir"
      "tree_view root (ps @ [nm]) = map_option entry_of (kids cs nm)"
      "node_at root ps = Some (Directory n cs)" "tree_ok (Directory n cs)"
proof (cases "parent_of path")
  case None
  then show ?thesis using that(1) by (simp add: parent_of_None)
next
  case (Some q)
  obtain pp nm where q: "parent_of path = Some (pp, nm)" using Some by (cases q) simp
  obtain ps where ps: "path_parts path = ps @ [nm]" "path_parts pp = ps" "good_name nm" by (rule parent_of_Some [OF q])
  have ne: "path \<noteq> ''/''" using ps(1) by (auto simp: path_parts_def SLASH_def)
  have ok: "tree_ok root" using root by (simp add: root_ok_def)
  have f: "find_dir root pp = Option.bind (node_at root ps) children_of" using find_dir_node_at [OF ok] ps(2) by simp
  show ?thesis
  proof (cases "find_dir root pp")
    case None
    with f have "tree_view root ps \<noteq> Some EDir \<and> tree_view root (ps @ [nm]) = None"
      by (cases "node_at root ps") (auto simp: tree_view_def node_at_append entry_of_dir is_dir_children)
    then show ?thesis using that(2) [OF ne q None ps(1)] by simp
  next
    case (Some cs)
    then have "Option.bind (node_at root ps) children_of = Some cs" using f by simp
    then obtain d where d: "node_at root ps = Some d" "children_of d = Some cs" by (auto simp: bind_eq_Some_conv)
    then obtain n where n: "node_at root ps = Some (Directory n cs)" by (cases d) auto
    show ?thesis
      using that(3) [OF ne q Some ps _ _ n tree_ok_node_at [OF ok n]] n
      by (auto simp: tree_view_def node_at_append split: option.splits)
  qed
qed

text \<open>Adding a node, or replacing a file, in a directory that was found.\<close>

lemma tree_ok_snoc:
  "tree_ok (Directory n cs) \<Longrightarrow> kids cs (node_name c) = None \<Longrightarrow> good_name (node_name c) \<Longrightarrow> tree_ok c \<Longrightarrow>
   tree_ok (Directory n (cs @ [c]))"
  by (auto simp: kids_None)

lemma leaf_file [simp]: "leaf (File n c)" "leaf (Directory n [])" "leaf (Device n)"
  by (simp_all add: leaf_def)

lemma root_ok_store:
  "root_ok root \<Longrightarrow> node_at root ps = Some (Directory n cs) \<Longrightarrow> tree_ok (Directory n new) \<Longrightarrow> root_ok (store_at root ps new)"
  using store_at_spec(1,3) [of root ps n cs new] by (simp add: root_ok_def)

lemma add_leaf:
  assumes root: "root_ok root" and at: "node_at root ps = Some (Directory n cs)" "tree_ok (Directory n cs)"
    and x: "kids cs (node_name x) = None" "good_name (node_name x)" "leaf x" "tree_ok x"
  shows "root_ok (store_at root ps (cs @ [x]))"
    and "tree_view (store_at root ps (cs @ [x])) = (tree_view root)(ps @ [node_name x] \<mapsto> entry_of x)"
proof -
  have new: "tree_ok (Directory n (cs @ [x]))" by (rule tree_ok_snoc [OF at(2) x(1,2,4)])
  show "root_ok (store_at root ps (cs @ [x]))" by (rule root_ok_store [OF root at(1) new])
  show "tree_view (store_at root ps (cs @ [x])) = (tree_view root)(ps @ [node_name x] \<mapsto> entry_of x)"
    by (rule store_leaf_view [OF _ at(1) new kids_snoc [OF x(1)] x(3)]) (use root x(1) in \<open>simp_all add: root_ok_def\<close>)
qed

lemma replace_file:
  assumes root: "root_ok root" and at: "node_at root ps = Some (Directory n cs)" "tree_ok (Directory n cs)"
    and i: "child_index nm cs = Some i" "cs ! i = File nm c"
  shows "root_ok (store_at root ps (cs[i := File nm d]))"
    and "tree_view (store_at root ps (cs[i := File nm d])) = (tree_view root)(ps @ [nm] \<mapsto> EFile d)"
proof -
  note ci = child_index_Some [OF i(1)]
  have new: "tree_ok (Directory n (cs[i := File nm d]))" by (rule tree_ok_upd [OF at(2)]) (use ci in simp_all)
  show "root_ok (store_at root ps (cs[i := File nm d]))" by (rule root_ok_store [OF root at(1) new])
  have k: "kids (cs[i := File nm d]) = (kids cs)(nm \<mapsto> File nm d)" by (rule kids_upd [OF i(1)]) simp
  have "tree_view (store_at root ps (cs[i := File nm d])) = (tree_view root)(ps @ [nm] \<mapsto> entry_of (File nm d))"
    by (rule store_leaf_view [OF _ at(1) new k]) (use root i in \<open>simp_all add: root_ok_def kids_index\<close>)
  then show "tree_view (store_at root ps (cs[i := File nm d])) = (tree_view root)(ps @ [nm] \<mapsto> EFile d)" by simp
qed

lemma mkdir_tree_implements:
  assumes root: "root_ok root"
  shows "implements (mkdir_tree path root) (spec_mkdir (path_parts path) (tree_view root)) root"
  using root
proof (cases rule: path_cases [of root path])
  case (in_dir pp nm ps n cs)
  show ?thesis
  proof (cases "kids cs nm")
    case None
    then have "\<not> list_ex (\<lambda>c. node_name c = nm) cs" by (simp add: kids_None list_ex_iff)
    with in_dir(1-5) have run: "mkdir_tree path root = (Ok (), store_at root ps (cs @ [Directory nm []]))"
      by (simp add: mkdir_tree_def store_dir_def)
    show ?thesis using add_leaf [OF root in_dir(9,10), of "Directory nm []"] None in_dir(4,6,7,8)
      by (simp add: run implements_def spec_mkdir_def)
  next
    case (Some c)
    then have "list_ex (\<lambda>c. node_name c = nm) cs" using kids_in [OF Some] by (auto simp: list_ex_iff)
    with in_dir(1-4,8) Some show ?thesis by (simp add: mkdir_tree_def spec_mkdir_def implements_err [OF root])
  qed
qed (simp_all add: mkdir_tree_def spec_mkdir_def implements_err [OF root])

lemma file_child:
  assumes "child_index nm cs = Some i" and "cs ! i = File n c"
  shows "n = nm" and "kids cs nm = Some (File nm c)"
  using child_index_Some [OF assms(1)] assms by (simp_all add: kids_index)

lemma write_file_tree_implements:
  assumes root: "root_ok root"
  shows "implements (write_file_tree path content root) (spec_write (path_parts path) (\<lambda>_. content) (tree_view root)) root"
  using root
proof (cases rule: path_cases [of root path])
  case (in_dir pp nm ps n cs)
  note st = write_file_tree_def store_dir_def in_dir(1-5)
  show ?thesis
  proof (cases "child_index nm cs")
    case None
    then show ?thesis using add_leaf [OF root in_dir(9,10), of "File nm content"] in_dir(6-8)
      by (simp add: st implements_def spec_write_def no_file_def kids_index)
  next
    case (Some i)
    then have k: "kids cs nm = Some (cs ! i)" by (simp add: kids_index)
    show ?thesis
    proof (cases "cs ! i")
      case (File m c)
      note m = file_child(1) [OF Some File]
      show ?thesis using replace_file [OF root in_dir(9,10) Some, of c content] Some File m in_dir(7,8) k
        by (simp add: st implements_def spec_write_def no_file_def)
    qed (use Some k in_dir(7,8) in \<open>simp_all add: st spec_write_def no_file_def implements_err [OF root]\<close>)
  qed
qed (simp_all add: write_file_tree_def spec_write_def implements_err [OF root])

lemma write_file_chunk_tree_implements:
  assumes root: "root_ok root" and small: "off + length buf < 2 ^ 63"
  shows "\<exists>res. write_file_chunk_tree path off buf root = Some res \<and>
    implements res (spec_write (path_parts path) (patch_content off buf) (tree_view root)) root"
  using root
proof (cases rule: path_cases [of root path])
  case (in_dir pp nm ps n cs)
  have chk: "checked_add 63 off (length buf) = Some (off + length buf)" using small by simp
  note st = write_file_chunk_tree_def store_dir_def in_dir(1-5) chk
  show ?thesis
  proof (cases "child_index nm cs")
    case None
    then show ?thesis using add_leaf [OF root in_dir(9,10), of "File nm (patch_content off buf [])"] in_dir(6-8)
      by (simp add: st implements_def spec_write_def no_file_def kids_index del: checked_add_Some)
  next
    case (Some i)
    then have k: "kids cs nm = Some (cs ! i)" by (simp add: kids_index)
    show ?thesis
    proof (cases "cs ! i")
      case (File m c)
      note m = file_child(1) [OF Some File]
      show ?thesis using replace_file [OF root in_dir(9,10) Some, of c "patch_content off buf c"] Some File m in_dir(7,8) k
        by (simp add: st implements_def spec_write_def no_file_def del: checked_add_Some)
    qed (use Some k in_dir(7,8) in \<open>simp_all add: st spec_write_def no_file_def implements_err [OF root]\<close>)
  qed
qed (simp_all add: write_file_chunk_tree_def spec_write_def implements_err [OF root])

lemma distinct_list_remove: "distinct xs \<Longrightarrow> distinct (list_remove i xs)"
  by (simp add: list_remove_def set_take_disj_set_drop_if_distinct)

lemma map_list_remove: "map f (list_remove i xs) = list_remove i (map f xs)"
  by (simp add: list_remove_def take_map drop_map)

lemma remove_tree_implements:
  assumes root: "root_ok root"
  shows "implements (remove_tree path root) (spec_remove (path_parts path) (tree_view root)) root"
  using root
proof (cases rule: path_cases [of root path])
  case (in_dir pp nm ps n cs)
  show ?thesis
  proof (cases "child_index nm cs")
    case None
    with in_dir(1-4,8) show ?thesis by (simp add: remove_tree_def spec_remove_def kids_index implements_err [OF root])
  next
    case (Some i)
    have d: "distinct (map node_name cs)" using in_dir(10) by simp
    have new: "tree_ok (Directory n (list_remove i cs))"
      using in_dir(10) distinct_list_remove [of "map node_name cs" i] set_list_remove [of i cs]
      by (auto simp: map_list_remove)
    have ok: "tree_ok root" using root by (simp add: root_ok_def)
    show ?thesis
      using store_remove_view [OF ok in_dir(9) new kids_remove [OF d Some]] root_ok_store [OF root in_dir(9) new] Some in_dir(1-5,8)
      by (simp add: remove_tree_def store_dir_def implements_def spec_remove_def kids_index fun_eq_iff)
  qed
qed (simp_all add: remove_tree_def spec_remove_def implements_err [OF root])

lemma lookup_file_spec:
  assumes root: "root_ok root"
  shows "lookup_file msg path root = Ok c \<longleftrightarrow> path_parts path \<noteq> [] \<and> tree_view root (path_parts path) = Some (EFile c)"
  using root
proof (cases rule: path_cases [of root path])
  case (in_dir pp nm ps n cs)
  then show ?thesis
    by (cases "child_index nm cs") (auto simp: lookup_file_def find_dir_ro_eq kids_index split: fs_node.splits)
qed (auto simp: lookup_file_def find_dir_ro_eq)

subsection \<open>Properties\<close>

text \<open>
  C36. The tree implements a map from component lists to entries. In a well-formed tree, \<^verbatim>\<open>mkdir\<close>,
  \<^verbatim>\<open>write_file_bytes\<close>, \<^verbatim>\<open>remove\<close> and \<^verbatim>\<open>write_file_chunk\<close> (with an end below 2^63) succeed exactly when the map
  allows it, then change the map exactly at the path (for a removal: everything below it too), leave it alone when
  they fail, and keep the tree well formed; a lookup returns a file's content exactly when the map has it there.
\<close>
theorem vfs_refines_path_map:
  assumes "root_ok root" and "off + length buf < 2 ^ 63"
  shows "implements (mkdir_tree path root) (spec_mkdir (path_parts path) (tree_view root)) root \<and>
    implements (write_file_tree path content root) (spec_write (path_parts path) (\<lambda>_. content) (tree_view root)) root \<and>
    implements (remove_tree path root) (spec_remove (path_parts path) (tree_view root)) root \<and>
    (\<exists>res. write_file_chunk_tree path off buf root = Some res \<and>
       implements res (spec_write (path_parts path) (patch_content off buf) (tree_view root)) root) \<and>
    (lookup_file msg path root = Ok c \<longleftrightarrow> path_parts path \<noteq> [] \<and> tree_view root (path_parts path) = Some (EFile c))"
  using assms mkdir_tree_implements write_file_tree_implements remove_tree_implements write_file_chunk_tree_implements lookup_file_spec
  by blast

definition empty_root :: fs_node where "empty_root = Directory ''/'' []"

lemma empty_root_ok: "root_ok empty_root"
  by (simp add: root_ok_def empty_root_def)

theorem vfs_refines_path_map_witness:
  "implements (mkdir_tree ''/bin'' empty_root) (spec_mkdir (path_parts ''/bin'') (tree_view empty_root)) empty_root \<and>
   implements (write_file_tree ''/bin'' [1] empty_root) (spec_write (path_parts ''/bin'') (\<lambda>_. [1]) (tree_view empty_root)) empty_root \<and>
   implements (remove_tree ''/bin'' empty_root) (spec_remove (path_parts ''/bin'') (tree_view empty_root)) empty_root \<and>
   (\<exists>res. write_file_chunk_tree ''/bin'' 5 [1] empty_root = Some res \<and>
      implements res (spec_write (path_parts ''/bin'') (patch_content 5 [1]) (tree_view empty_root)) empty_root) \<and>
   (lookup_file ''Bu bir dizin!'' ''/bin'' empty_root = Ok [1] \<longleftrightarrow>
      path_parts ''/bin'' \<noteq> [] \<and> tree_view empty_root (path_parts ''/bin'') = Some (EFile [1]))"
  by (rule vfs_refines_path_map [OF empty_root_ok]) simp

end
