(* ===== verification/Procfs.thy ===== *)
theory Procfs
  imports Vfs_Paths
begin

section \<open>The virtual files of \<^verbatim>\<open>/proc\<close>\<close>

text \<open>
  \<^verbatim>\<open>generate_procfs_content\<close> of \<^verbatim>\<open>kernel/src/fs.rs\<close>. What it reads from the rest of the kernel (the memory
  statistics, the tick counter and the snapshot of the process table) is the record \<open>kernel_stats\<close>. Rust's integer
  formatting and parsing are those of the core library.
\<close>

record proc_snapshot =
  snap_pid :: nat
  snap_name :: string
  snap_state :: string
  peak_memory_bytes :: nat
  current_memory_bytes :: nat
  snap_cpu_ticks :: nat

record kernel_stats =
  alloc_bytes :: nat
  total_bytes :: nat
  ticks :: nat
  snapshots :: "proc_snapshot list"

subsection \<open>Decimal numbers\<close>

definition digit :: "nat \<Rightarrow> char" where "digit d = char_of (48 + d)"

fun dec :: "nat \<Rightarrow> string" where
  "dec n = (if n < 10 then [digit n] else dec (n div 10) @ [digit (n mod 10)])"

declare dec.simps [simp del]

definition pad_left :: "nat \<Rightarrow> char \<Rightarrow> string \<Rightarrow> string" where
  "pad_left w c s = replicate (w - length s) c @ s"

definition digit_val :: "char \<Rightarrow> nat option" where
  "digit_val c = (if 48 \<le> (of_char c :: nat) \<and> (of_char c :: nat) \<le> 57 then Some (of_char c - 48) else None)"

fun parse_digits :: "nat \<Rightarrow> string \<Rightarrow> nat option" where
  "parse_digits acc [] = Some acc"
| "parse_digits acc (c # s) = do {
     d \<leftarrow> digit_val c;
     a \<leftarrow> checked_mul 64 acc 10;
     b \<leftarrow> checked_add 64 a d;
     parse_digits b s
   }"

text \<open>\<^verbatim>\<open>str::parse::<u64>\<close>: an optional plus sign, then at least one digit.\<close>

definition parse_u64 :: "string \<Rightarrow> nat option" where
  "parse_u64 s =
     (let t = (case s of [] \<Rightarrow> [] | c # r \<Rightarrow> if c = CHR ''+'' then r else s) in
      if t = [] then None else parse_digits 0 t)"

lemma digit_val_digit: "d < 10 \<Longrightarrow> digit_val (digit d) = Some d"
  by (simp add: digit_val_def digit_def)

lemma dec_nonempty: "dec n \<noteq> []"
  by (subst dec.simps) simp

lemma dec_digits: "c \<in> set (dec n) \<Longrightarrow> \<exists>d < 10. c = digit d"
proof (induction n rule: dec.induct)
  case (1 n)
  have last: "\<exists>d < 10. digit (n mod 10) = digit d" by (rule exI [of _ "n mod 10"]) simp
  from 1(2) have "c \<in> set (if n < 10 then [digit n] else dec (n div 10) @ [digit (n mod 10)])" by (simp only: dec.simps [of n])
  then consider "n < 10" "c = digit n" | "\<not> n < 10" "c \<in> set (dec (n div 10))" | "c = digit (n mod 10)" by (auto split: if_splits)
  then show ?case using 1(1) last by cases auto
qed

lemma parse_digits_append:
  "parse_digits acc (s @ t) = Option.bind (parse_digits acc s) (\<lambda>a. parse_digits a t)"
  by (induction s arbitrary: acc) (simp_all add: bind_assoc)

lemma parse_digits_dec: "n < 2 ^ 64 \<Longrightarrow> parse_digits 0 (dec n) = Some n"
proof (induction n rule: dec.induct)
  case (1 n)
  show ?case
  proof (cases "n < 10")
    case True
    then show ?thesis using "1.prems" by (subst dec.simps) (simp add: digit_val_digit checked_mul_def checked_add_def)
  next
    case False
    then have "parse_digits 0 (dec (n div 10)) = Some (n div 10)" using 1 by simp
    moreover have "n div 10 * 10 + n mod 10 = n" by simp
    ultimately show ?thesis using False "1.prems"
      by (subst dec.simps) (simp add: parse_digits_append digit_val_digit checked_mul_def checked_add_def)
  qed
qed

lemma parse_u64_dec: "n < 2 ^ 64 \<Longrightarrow> parse_u64 (dec n) = Some n"
proof -
  assume n: "n < 2 ^ 64"
  obtain c r where c: "dec n = c # r" using dec_nonempty by (cases "dec n") auto
  obtain d where "d < 10" "c = digit d" using dec_digits [of c n] c by auto
  then have "digit_val c \<noteq> digit_val CHR ''+''" by (simp add: digit_val_digit) (simp add: digit_val_def)
  then have "c \<noteq> CHR ''+''" by auto
  then show ?thesis using c parse_digits_dec [OF n] by (simp add: parse_u64_def)
qed

subsection \<open>The files\<close>

abbreviation NL :: char where "NL \<equiv> CHR 0x0A"
abbreviation TAB :: char where "TAB \<equiv> CHR 0x09"

definition starts_with :: "string \<Rightarrow> string \<Rightarrow> bool" where
  "starts_with pre s \<longleftrightarrow> take (length pre) s = pre"

definition trim_slashes_start :: "string \<Rightarrow> string" where
  "trim_slashes_start s = dropWhile (\<lambda>c. c = SLASH) s"

definition proc_version :: string where
  "proc_version = ''SparkOS Kernel v0.2.0 (x86_64-unknown-none SMP+CoW)'' @ [NL]"

definition proc_cpuinfo :: string where
  "proc_cpuinfo =
     ''processor'' @ [TAB] @ '': 0'' @ [NL] @
     ''vendor_id'' @ [TAB] @ '': GenuineIntel/AuthenticAMD'' @ [NL] @
     ''model name'' @ [TAB] @ '': SparkOS Virtual CPU'' @ [NL] @
     ''cpu MHz'' @ [TAB, TAB] @ '': 1000.000'' @ [NL] @
     ''cache size'' @ [TAB] @ '': 4096 KB'' @ [NL] @
     ''flags'' @ [TAB, TAB] @
     '': fpu vme de pse tsc msr pae mce cx8 apic sep mtrr pge mca cmov pat pse36 clflush mmx fxsr sse sse2 ht syscall nx lm'' @ [NL]"

definition proc_meminfo :: "kernel_stats \<Rightarrow> string" where
  "proc_meminfo k =
     (let free = total_bytes k - alloc_bytes k; kb = (\<lambda>n. pad_left 8 CHR '' '' (dec (n div 1024)) @ '' kB'' @ [NL]) in
      ''MemTotal:       '' @ kb (total_bytes k) @
      ''MemFree:        '' @ kb free @
      ''MemAvailable:   '' @ kb free @
      ''Buffers:               0 kB'' @ [NL] @
      ''Cached:             1024 kB'' @ [NL])"

definition proc_uptime :: "kernel_stats \<Rightarrow> string" where
  "proc_uptime k =
     (let sec = dec (ticks k div 1000); sub = pad_left 2 CHR ''0'' (dec (ticks k mod 1000 div 10)) in
      sec @ ''.'' @ sub @ '' '' @ sec @ ''.'' @ sub @ [NL])"

definition proc_cmdline :: string where
  "proc_cmdline = ''BOOT_IMAGE=/boot/sparkos.bin root=/dev/spfs0 quiet console=ttyS0'' @ [NL]"

definition proc_status_line :: "string \<Rightarrow> string \<Rightarrow> string" where
  "proc_status_line key v = key @ '':'' @ [TAB] @ v @ [NL]"

definition proc_status :: "kernel_stats \<Rightarrow> nat \<Rightarrow> string" where
  "proc_status k pid =
     (case find (\<lambda>s. snap_pid s = pid) (snapshots k) of
        Some s \<Rightarrow>
          proc_status_line ''Name'' (snap_name s) @ proc_status_line ''State'' (snap_state s) @
          proc_status_line ''Tgid'' (dec pid) @ proc_status_line ''Pid'' (dec pid) @
          proc_status_line ''VmPeak'' (dec (peak_memory_bytes s div 1024) @ '' kB'') @
          proc_status_line ''VmSize'' (dec (current_memory_bytes s div 1024) @ '' kB'') @
          proc_status_line ''CpuTicks'' (dec (snap_cpu_ticks s))
      | None \<Rightarrow>
          proc_status_line ''Name'' (''process_'' @ dec pid) @ proc_status_line ''State'' ''Running'' @
          proc_status_line ''Tgid'' (dec pid) @ proc_status_line ''Pid'' (dec pid) @
          proc_status_line ''VmPeak'' ''4096 kB'' @ proc_status_line ''VmSize'' ''4096 kB'' @
          proc_status_line ''CpuTicks'' ''100'')"

definition generate_procfs_content :: "kernel_stats \<Rightarrow> string \<Rightarrow> byte list option" where
  "generate_procfs_content k path =
     (let clean = trim_slashes_start path in
      if \<not> starts_with ''proc'' clean then None
      else if clean = ''proc'' then None
      else if clean = ''proc/version'' then Some (as_bytes proc_version)
      else if clean = ''proc/cpuinfo'' then Some (as_bytes proc_cpuinfo)
      else if clean = ''proc/meminfo'' then Some (as_bytes (proc_meminfo k))
      else if clean = ''proc/uptime'' then Some (as_bytes (proc_uptime k))
      else if clean = ''proc/cmdline'' then Some (as_bytes proc_cmdline)
      else (case split_on SLASH clean of
              _ # pid_str # sub # _ \<Rightarrow>
                (case parse_u64 pid_str of
                   Some pid \<Rightarrow> if sub = ''status'' then Some (as_bytes (proc_status k pid)) else None
                 | None \<Rightarrow> None)
            | _ \<Rightarrow> None))"

lemma procfs_only_under_proc:
  "generate_procfs_content k path \<noteq> None \<Longrightarrow> starts_with ''proc'' (trim_slashes_start path)"
  by (auto simp: generate_procfs_content_def Let_def split: if_splits)

lemma proc_status_path:
  assumes "pid < 2 ^ 64"
  shows "generate_procfs_content k (''/proc/'' @ dec pid @ ''/status'') = Some (as_bytes (proc_status k pid))"
proof -
  let ?c = "''proc/'' @ dec pid @ ''/status''"
  have slash: "digit d \<noteq> SLASH" if "d < 10" for d
    using digit_val_digit [OF that] by (auto simp: SLASH_def digit_val_def)
  then have "SLASH \<notin> set (dec pid)" using dec_digits [of SLASH pid] by metis
  then have "split_on SLASH (dec pid @ SLASH # ''status'') = [dec pid, ''status'']"
    by (simp add: split_on_cons SLASH_def)
  moreover have "split_on SLASH (''proc'' @ SLASH # dec pid @ SLASH # ''status'') =
      ''proc'' # split_on SLASH (dec pid @ SLASH # ''status'')" by (rule split_on_cons) (simp add: SLASH_def)
  ultimately have sp: "split_on SLASH ?c = [''proc'', dec pid, ''status'']" by (simp add: SLASH_def)
  have "?c \<noteq> ''proc''" by simp
  moreover have "?c \<noteq> f" if "split_on SLASH f = [''proc'', x]" for f x using sp that by auto
  then have "?c \<notin> {''proc/version'', ''proc/cpuinfo'', ''proc/meminfo'', ''proc/uptime'', ''proc/cmdline''}"
    by (auto simp: SLASH_def simp del: append_Cons)
  ultimately show ?thesis
    using sp parse_u64_dec [OF assms]
    by (simp add: generate_procfs_content_def trim_slashes_start_def starts_with_def SLASH_def Let_def)
qed

end
