(* ===== verification/Spfs_Blocks.thy ===== *)
theory Spfs_Blocks
  imports Byte_Codec
begin

section \<open>The SPFS v2 block engine\<close>

text \<open>
  \<^verbatim>\<open>BlockAllocator\<close> and \<^verbatim>\<open>SpfsV2Engine\<close> of \<^verbatim>\<open>kernel/src/fs.rs\<close>: a bitmap of sectors, a store of their
  contents, and files made of six direct blocks and one table of 128 indirect pointers.
\<close>

definition BLOCK_SIZE :: nat where "BLOCK_SIZE = 512"
definition PTRS_PER_BLOCK :: nat where "PTRS_PER_BLOCK = 128"
definition DIRECT_BLOCKS_COUNT :: nat where "DIRECT_BLOCKS_COUNT = 6"

lemmas spfs_sizes = BLOCK_SIZE_def PTRS_PER_BLOCK_def DIRECT_BLOCKS_COUNT_def

datatype fs_error = NoSpace | InvalidSeek | PermissionDenied | FsNotFound | CorruptedMetadata

record inode_v2 =
  inode_id :: nat
  file_type :: nat
  iflags :: nat
  permissions :: nat
  uid :: nat
  gid :: nat
  isize :: nat
  block_count :: nat
  direct_blocks :: "nat list"
  indirect_block :: nat
  double_indirect :: nat

subsection \<open>The allocator\<close>

record block_allocator =
  total_blocks :: nat
  free_blocks :: nat
  bitmap :: "bool list"

definition new_allocator :: "nat \<Rightarrow> block_allocator" where
  "new_allocator n = \<lparr>total_blocks = n, free_blocks = n - 1, bitmap = (replicate n False)[0 := True]\<rparr>"

definition allocate_block :: "block_allocator \<Rightarrow> nat option \<times> block_allocator" where
  "allocate_block a =
     (if free_blocks a = 0 then (None, a)
      else (case position Not (bitmap a) of
              None \<Rightarrow> (None, a)
            | Some i \<Rightarrow> (Some i, a\<lparr>bitmap := (bitmap a)[i := True], free_blocks := free_blocks a - 1\<rparr>)))"

definition free_block :: "nat \<Rightarrow> block_allocator \<Rightarrow> block_allocator option" where
  "free_block b a =
     (if b < length (bitmap a) \<and> bitmap a ! b then do {
        n \<leftarrow> checked_add 32 (free_blocks a) 1;
        Some (a\<lparr>bitmap := (bitmap a)[b := False], free_blocks := n\<rparr>)
      } else Some a)"

text \<open>The shapes the allocation loop and the interface use.\<close>

definition take_block :: "block_allocator \<Rightarrow> (nat \<times> block_allocator) option" where
  "take_block a = (case allocate_block a of (Some b, a') \<Rightarrow> Some (b, a') | (None, _) \<Rightarrow> None)"

definition give_block :: "nat \<Rightarrow> block_allocator \<Rightarrow> block_allocator" where
  "give_block b a = (case free_block b a of Some a' \<Rightarrow> a' | None \<Rightarrow> a)"

fun free_all :: "nat list \<Rightarrow> block_allocator \<Rightarrow> block_allocator option" where
  "free_all [] a = Some a"
| "free_all (b # bs) a = do { a1 \<leftarrow> free_block b a; free_all bs a1 }"

subsection \<open>The engine\<close>

record engine =
  balloc :: block_allocator
  block_data :: "(nat, byte list) btree_map"

definition new_engine :: "nat \<Rightarrow> engine" where
  "new_engine n = \<lparr>balloc = new_allocator n, block_data = []\<rparr>"

text \<open>\<open>link_block\<close> records block number \<open>idx\<close> of the file in the inode or its indirect table.\<close>

definition link_block :: "nat \<Rightarrow> nat \<Rightarrow> inode_v2 \<Rightarrow> engine \<Rightarrow> inode_v2 \<times> engine" where
  "link_block idx blk ino e =
     (if idx < DIRECT_BLOCKS_COUNT then (ino\<lparr>direct_blocks := (direct_blocks ino)[idx := blk]\<rparr>, e)
      else if idx < DIRECT_BLOCKS_COUNT + PTRS_PER_BLOCK then
        let (ino1, e1) =
              (if indirect_block ino = 0 then
                 (case allocate_block (balloc e) of
                    (Some t, a) \<Rightarrow> (ino\<lparr>indirect_block := t\<rparr>,
                                    e\<lparr>balloc := a, block_data := bt_insert t (replicate BLOCK_SIZE 0) (block_data e)\<rparr>)
                  | (None, a) \<Rightarrow> (ino, e\<lparr>balloc := a\<rparr>))
               else (ino, e));
            slot = idx - DIRECT_BLOCKS_COUNT
        in (ino1,
            (case bt_get (block_data e1) (indirect_block ino1) of
               None \<Rightarrow> e1
             | Some tbl \<Rightarrow> e1\<lparr>block_data := bt_insert (indirect_block ino1) (overwrite (slot * 4) (le_bytes 4 blk) tbl) (block_data e1)\<rparr>))
      else (ino, e))"

definition pad_block :: "byte list \<Rightarrow> byte list" where
  "pad_block chunk = chunk @ replicate (BLOCK_SIZE - length chunk) 0"

text \<open>The writing loop: the data left, the staged blocks left; an empty iterator would be an \<^verbatim>\<open>unwrap\<close> panic.\<close>

fun write_blocks :: "nat \<Rightarrow> nat list \<Rightarrow> byte list \<Rightarrow> inode_v2 \<Rightarrow> engine \<Rightarrow> (nat \<times> inode_v2 \<times> engine) option" where
  "write_blocks idx [] data ino e = (if data = [] then Some (idx, ino, e) else None)"
| "write_blocks idx (blk # blks) data ino e =
     (if data = [] then Some (idx, ino, e)
      else let e1 = e\<lparr>block_data := bt_insert blk (pad_block (take BLOCK_SIZE data)) (block_data e)\<rparr>;
               (ino1, e2) = link_block idx blk ino e1
           in write_blocks (idx + 1) blks (drop BLOCK_SIZE data) ino1 e2)"

definition write_file_transactional ::
    "byte list \<Rightarrow> inode_v2 \<Rightarrow> engine \<Rightarrow> ((fs_error, nat) result \<times> inode_v2 \<times> engine) option" where
  "write_file_transactional data ino e =
     (if data = [] then Some (Ok 0, ino, e)
      else (case alloc_n take_block ((length data + BLOCK_SIZE - 1) div BLOCK_SIZE) (balloc e) of
              (staged, a, False) \<Rightarrow> do { a1 \<leftarrow> free_all staged a; Some (Err NoSpace, ino, e\<lparr>balloc := a1\<rparr>) }
            | (staged, a, True) \<Rightarrow> do {
                (n, ino1, e1) \<leftarrow> write_blocks 0 staged data ino (e\<lparr>balloc := a\<rparr>);
                Some (Ok (length data), ino1\<lparr>isize := length data mod 2 ^ 32, block_count := n mod 2 ^ 32\<rparr>, e1)
              }))"

text \<open>Freeing a data block: the bitmap and the contents.\<close>

definition drop_block :: "nat \<Rightarrow> engine \<Rightarrow> engine option" where
  "drop_block b e = do {
     a \<leftarrow> free_block b (balloc e);
     Some (e\<lparr>balloc := a, block_data := bt_remove b (block_data e)\<rparr>)
   }"

fun drop_nonzero :: "nat list \<Rightarrow> engine \<Rightarrow> engine option" where
  "drop_nonzero [] e = Some e"
| "drop_nonzero (b # bs) e = do { e1 \<leftarrow> (if b \<noteq> 0 then drop_block b e else Some e); drop_nonzero bs e1 }"

definition table_ptrs :: "byte list \<Rightarrow> nat list" where
  "table_ptrs tbl = map (\<lambda>i. le_val (take 4 (drop (i * 4) tbl))) [0..<PTRS_PER_BLOCK]"

text \<open>One table of pointers: the table's contents go, then the blocks it names, then the table itself.\<close>

definition drop_table :: "nat \<Rightarrow> engine \<Rightarrow> engine option" where
  "drop_table t e = do {
     e1 \<leftarrow> (case bt_get (block_data e) t of
               None \<Rightarrow> Some e
             | Some tbl \<Rightarrow> drop_nonzero (table_ptrs tbl) (e\<lparr>block_data := bt_remove t (block_data e)\<rparr>));
     a \<leftarrow> free_block t (balloc e1);
     Some (e1\<lparr>balloc := a\<rparr>)
   }"

fun drop_tables :: "nat list \<Rightarrow> engine \<Rightarrow> engine option" where
  "drop_tables [] e = Some e"
| "drop_tables (t # ts) e = do { e1 \<leftarrow> (if t \<noteq> 0 then drop_table t e else Some e); drop_tables ts e1 }"

definition drop_double :: "nat \<Rightarrow> engine \<Rightarrow> engine option" where
  "drop_double t e = do {
     e1 \<leftarrow> (case bt_get (block_data e) t of
               None \<Rightarrow> Some e
             | Some tbl \<Rightarrow> drop_tables (table_ptrs tbl) (e\<lparr>block_data := bt_remove t (block_data e)\<rparr>));
     a \<leftarrow> free_block t (balloc e1);
     Some (e1\<lparr>balloc := a\<rparr>)
   }"

definition truncate_and_reclaim :: "inode_v2 \<Rightarrow> engine \<Rightarrow> (inode_v2 \<times> engine) option" where
  "truncate_and_reclaim ino e = do {
     e1 \<leftarrow> drop_nonzero (direct_blocks ino) e;
     e2 \<leftarrow> (if indirect_block ino \<noteq> 0 then drop_table (indirect_block ino) e1 else Some e1);
     e3 \<leftarrow> (if double_indirect ino \<noteq> 0 then drop_double (double_indirect ino) e2 else Some e2);
     Some (ino\<lparr>direct_blocks := map (\<lambda>_. 0) (direct_blocks ino), indirect_block := 0, double_indirect := 0,
               isize := 0, block_count := 0\<rparr>, e3)
   }"

subsection \<open>The allocator keeps its books\<close>

definition used :: "block_allocator \<Rightarrow> nat set" where
  "used a = {i. i < length (bitmap a) \<and> bitmap a ! i}"

definition alloc_ok :: "block_allocator \<Rightarrow> bool" where
  "alloc_ok a \<longleftrightarrow> length (bitmap a) = total_blocks a \<and> total_blocks a < 2 ^ 32 \<and>
     free_blocks a = length (filter Not (bitmap a))"

lemma filter_upd_False:
  "i < length bs \<Longrightarrow> \<not> bs ! i \<Longrightarrow> Suc (length (filter Not (bs[i := True]))) = length (filter Not bs)"
  by (induction bs arbitrary: i) (auto simp: nth_Cons' split: nat.splits)

lemma filter_upd_True:
  "i < length bs \<Longrightarrow> bs ! i \<Longrightarrow> length (filter Not (bs[i := False])) = Suc (length (filter Not bs))"
  by (induction bs arbitrary: i) (auto simp: nth_Cons' split: nat.splits)

lemma allocate_block_Some:
  assumes "alloc_ok a" and "allocate_block a = (Some b, a')"
  shows "b \<notin> used a" and "used a' = insert b (used a)" and "alloc_ok a'" and "b < total_blocks a"
    and "total_blocks a' = total_blocks a"
proof -
  from assms(2) obtain p: "position Not (bitmap a) = Some b"
    and a': "a' = a\<lparr>bitmap := (bitmap a)[b := True], free_blocks := free_blocks a - 1\<rparr>"
    by (auto simp: allocate_block_def split: if_splits option.splits)
  from p have b: "b < length (bitmap a)" "\<not> bitmap a ! b" by (auto simp: position_Some)
  then show "b \<notin> used a" "used a' = insert b (used a)" using a' by (auto simp: used_def nth_upd)
  show "b < total_blocks a" "total_blocks a' = total_blocks a" using assms(1) a' b(1) by (simp_all add: alloc_ok_def)
  show "alloc_ok a'" using assms(1) a' filter_upd_False [OF b] by (simp add: alloc_ok_def)
qed

lemma allocate_block_None:
  assumes "alloc_ok a"
  shows "fst (allocate_block a) = None \<longleftrightarrow> used a = {..<total_blocks a}"
proof -
  have len: "length (bitmap a) = total_blocks a" "free_blocks a = length (filter Not (bitmap a))"
    using assms by (simp_all add: alloc_ok_def)
  have "free_blocks a = 0 \<longleftrightarrow> (\<forall>x \<in> set (bitmap a). x)" unfolding len(2) by (simp add: filter_empty_conv)
  moreover have "(\<forall>x \<in> set (bitmap a). x) \<longleftrightarrow> used a = {..<total_blocks a}"
    unfolding len(1) [symmetric] used_def all_set_conv_all_nth by blast
  ultimately show ?thesis
    using position_None [of Not "bitmap a"] by (auto simp: allocate_block_def split: option.splits)
qed

lemma free_block_spec:
  assumes "alloc_ok a"
  shows "\<exists>a'. free_block b a = Some a' \<and> used a' = used a - {b} \<and> alloc_ok a' \<and> total_blocks a' = total_blocks a"
proof (cases "b < length (bitmap a) \<and> bitmap a ! b")
  case True
  let ?a = "a\<lparr>bitmap := (bitmap a)[b := False], free_blocks := free_blocks a + 1\<rparr>"
  have ok: "alloc_ok ?a" using assms True filter_upd_True [of b "bitmap a"] by (simp add: alloc_ok_def)
  then have "free_blocks ?a \<le> total_blocks a"
    using length_filter_le [of Not "bitmap ?a"] by (simp add: alloc_ok_def)
  then have "free_block b a = Some ?a" using True assms by (simp add: free_block_def checked_add_def alloc_ok_def)
  moreover have "used ?a = used a - {b}" by (auto simp: used_def nth_upd)
  ultimately show ?thesis using ok by auto
next
  case False
  then show ?thesis using assms by (auto simp: free_block_def used_def)
qed

lemma take_block_Some: "take_block a = Some (b, a') \<longleftrightarrow> allocate_block a = (Some b, a')"
  by (auto simp: take_block_def split: prod.splits option.splits)

interpretation blocks: allocator take_block give_block used alloc_ok
proof (unfold_locales, goal_cases)
  case (1 s r t)
  then show ?case using allocate_block_Some(1) [of s r t] by (simp add: take_block_Some)
next
  case (2 s r t)
  then show ?case using allocate_block_Some(2) [of s r t] by (simp add: take_block_Some)
next
  case (3 s r t)
  then show ?case using allocate_block_Some(3) [of s r t] by (simp add: take_block_Some)
next
  case (4 s r)
  obtain a' where "free_block r s = Some a'" "used a' = used s - {r}" "alloc_ok a'" using free_block_spec [OF 4] by blast
  then show ?case by (simp add: give_block_def)
next
  case (5 s r)
  obtain a' where "free_block r s = Some a'" "used a' = used s - {r}" "alloc_ok a'" using free_block_spec [OF 5] by blast
  then show ?case by (simp add: give_block_def)
qed

lemma free_all_eq: "alloc_ok a \<Longrightarrow> free_all bs a = Some (fold give_block bs a)"
proof (induction bs arbitrary: a)
  case (Cons b bs)
  obtain a' where "free_block b a = Some a'" "alloc_ok a'" using free_block_spec [OF Cons.prems] by blast
  with Cons.IH show ?case by (simp add: give_block_def)
qed simp

lemma new_allocator_ok: "n < 2 ^ 32 \<Longrightarrow> alloc_ok (new_allocator n)"
  by (cases n) (simp_all add: alloc_ok_def new_allocator_def)

subsection \<open>Reading a file through its pointers\<close>

definition file_ptr :: "inode_v2 \<Rightarrow> engine \<Rightarrow> nat \<Rightarrow> nat" where
  "file_ptr ino e j =
     (if j < DIRECT_BLOCKS_COUNT then direct_blocks ino ! j
      else (case bt_get (block_data e) (indirect_block ino) of
              None \<Rightarrow> 0
            | Some tbl \<Rightarrow> le_val (take 4 (drop ((j - DIRECT_BLOCKS_COUNT) * 4) tbl))))"

definition block_of :: "engine \<Rightarrow> nat \<Rightarrow> byte list" where
  "block_of e b = (case bt_get (block_data e) b of None \<Rightarrow> [] | Some d \<Rightarrow> d)"

definition file_content :: "inode_v2 \<Rightarrow> engine \<Rightarrow> byte list" where
  "file_content ino e = take (isize ino) (concat (map (\<lambda>j. block_of e (file_ptr ino e j)) [0..<block_count ino]))"

text \<open>The state of the writing loop before block \<open>idx\<close>, with \<open>blks\<close> still to be used.\<close>

definition writing :: "nat \<Rightarrow> nat list \<Rightarrow> inode_v2 \<Rightarrow> engine \<Rightarrow> bool" where
  "writing idx blks ino e \<longleftrightarrow> length (direct_blocks ino) = 6 \<and> alloc_ok (balloc e) \<and> 0 \<in> used (balloc e) \<and>
     set blks \<subseteq> used (balloc e) \<and> distinct blks \<and> 0 \<notin> set blks \<and> (6 < idx \<longrightarrow> indirect_block ino \<noteq> 0) \<and>
     bt_get (block_data e) 0 = None \<and>
     (indirect_block ino \<noteq> 0 \<longrightarrow> indirect_block ino \<in> used (balloc e) \<and> indirect_block ino \<notin> set blks \<and>
        (\<exists>tbl. bt_get (block_data e) (indirect_block ino) = Some tbl \<and> length tbl = 512)) \<and>
     (indirect_block ino = 0 \<and> 6 < idx + length blks \<longrightarrow> used (balloc e) \<noteq> {..<total_blocks (balloc e)})"

lemma used_bound: "alloc_ok a \<Longrightarrow> b \<in> used a \<Longrightarrow> b < 2 ^ 32"
  by (auto simp: used_def alloc_ok_def)

lemma ptr_slot:
  assumes "length tbl = 512" and "k < 128" and "v < 2 ^ 32"
  shows "le_val (take 4 (drop (k * 4) (overwrite (k * 4) (le_bytes 4 v) tbl))) = v"
    and "j < 128 \<Longrightarrow> j \<noteq> k \<Longrightarrow> take 4 (drop (j * 4) (overwrite (k * 4) (le_bytes 4 v) tbl)) = take 4 (drop (j * 4) tbl)"
proof -
  let ?o = "overwrite (k * 4) (le_bytes 4 v) tbl"
  have "slice ?o (k * 4) (k * 4 + length (le_bytes 4 v)) = Some (le_bytes 4 v)"
    by (rule slice_overwrite_same) (use assms in simp)
  then have "take 4 (drop (k * 4) ?o) = le_bytes 4 v" by (simp add: slice_def split: if_splits)
  then show "le_val (take 4 (drop (k * 4) ?o)) = v" using assms(3) by simp
  assume j: "j < 128" "j \<noteq> k"
  have "slice ?o (j * 4) (j * 4 + 4) = slice tbl (j * 4) (j * 4 + 4)"
    by (rule slice_overwrite_other) (use assms j in auto)
  then show "take 4 (drop (j * 4) ?o) = take 4 (drop (j * 4) tbl)"
    using assms j by (simp add: slice_def split: if_splits)
qed

lemma zero_slot: "le_val (take n (drop m (replicate k 0))) = 0"
proof -
  have "le_val (replicate i 0) = 0" for i by (induction i) simp_all
  then show ?thesis by (simp add: take_replicate)
qed

text \<open>The two ways to reach a table: the inode has one, or the allocator gives one.\<close>

lemma link_block_table:
  assumes w: "writing idx (blk # blks) ino e" and idx: "6 \<le> idx" "idx < 134"
    and st: "link_block idx blk ino (e\<lparr>block_data := bt_insert blk d (block_data e)\<rparr>) = (ino', e')"
  obtains t tbl a m where "ino' = ino\<lparr>indirect_block := t\<rparr>"
    "e' = e\<lparr>balloc := a, block_data := bt_insert t (overwrite ((idx - 6) * 4) (le_bytes 4 blk) tbl) m\<rparr>"
    "length tbl = 512" "\<And>b. b \<noteq> t \<Longrightarrow> bt_get m b = (if b = blk then Some d else bt_get (block_data e) b)"
    "t \<noteq> 0" "t \<notin> set (blk # blks)" "alloc_ok a" "total_blocks a = total_blocks (balloc e)"
    "t = indirect_block ino \<and> a = balloc e \<and> bt_get (block_data e) t = Some tbl \<and> t \<in> used a \<or>
     indirect_block ino = 0 \<and> idx = 6 \<and> tbl = replicate 512 0 \<and> t \<notin> used (balloc e) \<and> used a = insert t (used (balloc e))"
proof (cases "indirect_block ino = 0")
  case False
  with w obtain tbl where tbl: "bt_get (block_data e) (indirect_block ino) = Some tbl" "length tbl = 512"
    by (auto simp: writing_def)
  have ne: "indirect_block ino \<noteq> blk" "indirect_block ino \<notin> set (blk # blks)" "indirect_block ino \<in> used (balloc e)"
    "alloc_ok (balloc e)" using False w by (auto simp: writing_def)
  show thesis
    using st idx False tbl ne
    by (intro that [of "indirect_block ino" tbl "bt_insert blk d (block_data e)" "balloc e"])
      (auto simp: link_block_def spfs_sizes)
next
  case True
  with w idx have six: "idx = 6" by (auto simp: writing_def)
  have ok: "alloc_ok (balloc e)" and u: "used (balloc e) \<noteq> {..<total_blocks (balloc e)}" and z: "0 \<in> used (balloc e)"
    and sub: "set (blk # blks) \<subseteq> used (balloc e)"
    using w True six by (simp_all add: writing_def)
  obtain t a where ta: "allocate_block (balloc e) = (Some t, a)"
    using allocate_block_None [OF ok] u by (cases "allocate_block (balloc e)") auto
  note al = allocate_block_Some [OF ok ta]
  have t: "t \<noteq> 0" "t \<notin> set (blk # blks)" using al(1) z sub by (metis, blast)
  show thesis
    using st six True ta al t
    by (intro that [of t "replicate BLOCK_SIZE 0" "bt_insert t (replicate BLOCK_SIZE 0) (bt_insert blk d (block_data e))" a])
      (auto simp: link_block_def spfs_sizes)
qed

lemma store_block:
  assumes w: "writing idx (blk # blks) ino e" and idx: "idx < 134"
    and st: "link_block idx blk ino (e\<lparr>block_data := bt_insert blk d (block_data e)\<rparr>) = (ino', e')"
  shows "writing (idx + 1) blks ino' e' \<and> file_ptr ino' e' idx = blk \<and>
    (\<forall>j < 134. j \<noteq> idx \<longrightarrow> file_ptr ino' e' j = file_ptr ino e j) \<and>
    (\<forall>b. b \<noteq> indirect_block ino' \<longrightarrow> bt_get (block_data e') b = (if b = blk then Some d else bt_get (block_data e) b)) \<and>
    (indirect_block ino' = indirect_block ino \<and> used (balloc e') = used (balloc e) \<or>
     indirect_block ino = 0 \<and> indirect_block ino' \<notin> used (balloc e) \<and> used (balloc e') = insert (indirect_block ino') (used (balloc e))) \<and>
    blk \<noteq> indirect_block ino'"
proof (cases "idx < 6")
  case True
  then have eq: "ino' = ino\<lparr>direct_blocks := (direct_blocks ino)[idx := blk]\<rparr>"
    "e' = e\<lparr>block_data := bt_insert blk d (block_data e)\<rparr>"
    using st by (auto simp: link_block_def spfs_sizes)
  have "bt_get (block_data e') (indirect_block ino) = bt_get (block_data e) (indirect_block ino)"
    using w eq by (cases "indirect_block ino = 0") (auto simp: writing_def)
  then have "file_ptr ino' e' j = file_ptr ino e j" if "j \<noteq> idx" for j
    using that True eq(1) by (simp add: file_ptr_def spfs_sizes)
  moreover have "file_ptr ino' e' idx = blk" using w True eq by (simp add: file_ptr_def spfs_sizes writing_def)
  moreover have "writing (idx + 1) blks ino' e'" using w True eq by (auto simp: writing_def)
  moreover have "blk \<noteq> indirect_block ino'" using w eq by (auto simp: writing_def)
  ultimately show ?thesis using eq by simp
next
  case False
  obtain t tbl a m where t: "ino' = ino\<lparr>indirect_block := t\<rparr>"
    "e' = e\<lparr>balloc := a, block_data := bt_insert t (overwrite ((idx - 6) * 4) (le_bytes 4 blk) tbl) m\<rparr>"
    "length tbl = 512" "\<And>b. b \<noteq> t \<Longrightarrow> bt_get m b = (if b = blk then Some d else bt_get (block_data e) b)"
    "t \<noteq> 0" "t \<notin> set (blk # blks)" "alloc_ok a" "total_blocks a = total_blocks (balloc e)"
    and way: "t = indirect_block ino \<and> a = balloc e \<and> bt_get (block_data e) t = Some tbl \<and> t \<in> used a \<or>
      indirect_block ino = 0 \<and> idx = 6 \<and> tbl = replicate 512 0 \<and> t \<notin> used (balloc e) \<and> used a = insert t (used (balloc e))"
  proof (rule link_block_table [OF w _ idx st])
    show "6 \<le> idx" using False by simp
  qed (rule that)
  have blk: "blk < 2 ^ 32" using w used_bound [of "balloc e" blk] by (simp add: writing_def)
  have ptr: "file_ptr ino' e' (j + 6) = (if j = idx - 6 then blk else le_val (take 4 (drop (j * 4) tbl)))" if "j < 128" for j
  proof -
    have k: "idx - 6 < 128" using idx by simp
    show ?thesis using t(1,2) ptr_slot [OF t(3) k blk] that by (simp add: file_ptr_def spfs_sizes)
  qed
  have "file_ptr ino' e' j = file_ptr ino e j" if "j < 134" "j \<noteq> idx" for j
  proof (cases "j < 6")
    case True
    then show ?thesis using t(1) by (simp add: file_ptr_def spfs_sizes)
  next
    case j: False
    then have "j - 6 \<noteq> idx - 6" "j - 6 < 128" "j - 6 + 6 = j" using that False by auto
    then have "file_ptr ino' e' j = le_val (take 4 (drop ((j - 6) * 4) tbl))" using ptr [of "j - 6"] by simp
    moreover have "file_ptr ino e j = le_val (take 4 (drop ((j - 6) * 4) tbl))"
    proof (cases "bt_get (block_data e) (indirect_block ino) = Some tbl")
      case False
      with way have "indirect_block ino = 0" "tbl = replicate 512 0" by auto
      moreover have "le_val (take 4 (drop ((j - 6) * 4) (replicate 512 0))) = 0" by (rule zero_slot)
      ultimately show ?thesis using w j by (simp add: file_ptr_def spfs_sizes writing_def)
    qed (use j in \<open>simp add: file_ptr_def spfs_sizes\<close>)
    ultimately show ?thesis by simp
  qed
  moreover have "file_ptr ino' e' idx = blk" using ptr [of "idx - 6"] idx False by simp
  moreover have "writing (idx + 1) blks ino' e'"
  proof -
    have "0 \<in> used a" "set blks \<subseteq> used a" "t \<in> used a" "distinct blks" "0 \<notin> set blks" "length (direct_blocks ino) = 6"
      using way w by (auto simp: writing_def)
    moreover have "length (overwrite ((idx - 6) * 4) (le_bytes 4 blk) tbl) = 512" using t(3) idx by (subst length_overwrite) auto
    moreover have "bt_get m 0 = None" using t(4) [of 0] t(5) w by (auto simp: writing_def)
    ultimately show ?thesis using t(1,2,5-7) by (simp add: writing_def)
  qed
  moreover have "indirect_block ino' = indirect_block ino \<and> used (balloc e') = used (balloc e) \<or>
     indirect_block ino = 0 \<and> indirect_block ino' \<notin> used (balloc e) \<and> used (balloc e') = insert (indirect_block ino') (used (balloc e))"
    using way t(1,2) by auto
  ultimately show ?thesis using t(1,2,4,6) by simp
qed

lemma write_blocks_spec:
  assumes "writing idx blks ino e" and "idx + length blks \<le> 134"
    and "length blks = (length data + 511) div 512"
  shows "\<exists>ino' e'. write_blocks idx blks data ino e = Some (idx + length blks, ino', e') \<and> alloc_ok (balloc e') \<and>
    bt_get (block_data e') 0 = None \<and> (\<forall>j < 134. j < idx \<or> idx + length blks \<le> j \<longrightarrow> file_ptr ino' e' j = file_ptr ino e j) \<and>
    (\<forall>k < length blks. file_ptr ino' e' (idx + k) = blks ! k \<and> blks ! k \<noteq> indirect_block ino' \<and>
       bt_get (block_data e') (blks ! k) = Some (pad_block (take 512 (drop (512 * k) data)))) \<and>
    (\<forall>b. b \<notin> set blks \<and> b \<noteq> indirect_block ino' \<longrightarrow> bt_get (block_data e') b = bt_get (block_data e) b) \<and>
    (indirect_block ino' = indirect_block ino \<and> used (balloc e') = used (balloc e) \<or>
     indirect_block ino = 0 \<and> indirect_block ino' \<notin> used (balloc e) \<and> used (balloc e') = insert (indirect_block ino') (used (balloc e)))"
  using assms
proof (induction blks arbitrary: idx data ino e)
  case Nil
  then have "data = []" by (cases data) auto
  with Nil show ?case by (auto simp: writing_def)
next
  case (Cons blk blks)
  then have ne: "data \<noteq> []" by auto
  obtain ino1 e1 where l: "link_block idx blk ino (e\<lparr>block_data := bt_insert blk (pad_block (take 512 data)) (block_data e)\<rparr>) = (ino1, e1)"
    by (cases "link_block idx blk ino (e\<lparr>block_data := bt_insert blk (pad_block (take 512 data)) (block_data e)\<rparr>)")
  have idx: "idx < 134" using Cons.prems(2) by simp
  note st = store_block [OF Cons.prems(1) idx l]
  have len: "length blks = (length (drop 512 data) + 511) div 512" using Cons.prems(3) ne by (cases "length data \<le> 512") (auto simp: div_if)
  have "writing (idx + 1) blks ino1 e1" "idx + 1 + length blks \<le> 134" using st Cons.prems(2) by simp_all
  from Cons.IH [OF this len] obtain ino' e' where IH:
    "write_blocks (idx + 1) blks (drop 512 data) ino1 e1 = Some (idx + 1 + length blks, ino', e')" "alloc_ok (balloc e') \<and> bt_get (block_data e') 0 = None"
    "\<And>j. j < 134 \<Longrightarrow> j < idx + 1 \<or> idx + 1 + length blks \<le> j \<Longrightarrow> file_ptr ino' e' j = file_ptr ino1 e1 j"
    "\<And>k. k < length blks \<Longrightarrow> file_ptr ino' e' (idx + 1 + k) = blks ! k \<and> blks ! k \<noteq> indirect_block ino' \<and>
       bt_get (block_data e') (blks ! k) = Some (pad_block (take 512 (drop (512 * k) (drop 512 data))))"
    "\<And>b. b \<notin> set blks \<Longrightarrow> b \<noteq> indirect_block ino' \<Longrightarrow> bt_get (block_data e') b = bt_get (block_data e1) b"
    "indirect_block ino' = indirect_block ino1 \<and> used (balloc e') = used (balloc e1) \<or>
     indirect_block ino1 = 0 \<and> indirect_block ino' \<notin> used (balloc e1) \<and> used (balloc e') = insert (indirect_block ino') (used (balloc e1))"
    by blast
  have u: "blk \<in> used (balloc e)" "blk \<notin> set blks" "0 \<in> used (balloc e)" "blk \<noteq> 0" using Cons.prems(1) by (auto simp: writing_def)
  have zero: "bt_get (block_data e1) 0 = None" using st by (simp add: writing_def)
  have blk': "blk \<noteq> indirect_block ino'" using st IH(6) u by auto
  have run: "write_blocks idx (blk # blks) data ino e = Some (idx + length (blk # blks), ino', e')"
    using ne l IH(1) by (simp add: BLOCK_SIZE_def)
  have data: "file_ptr ino' e' (idx + k) = (blk # blks) ! k \<and> (blk # blks) ! k \<noteq> indirect_block ino' \<and>
      bt_get (block_data e') ((blk # blks) ! k) = Some (pad_block (take 512 (drop (512 * k) data)))"
    if "k < length (blk # blks)" for k
  proof (cases k)
    case 0
    have "bt_get (block_data e') blk = Some (pad_block (take 512 data))" using IH(5) [OF u(2) blk'] st by auto
    with 0 st IH(3) [of idx] idx blk' show ?thesis by simp
  next
    case (Suc k')
    with that IH(4) [of k'] show ?thesis by (simp add: add.commute)
  qed
  have frame: "bt_get (block_data e') b = bt_get (block_data e) b" if "b \<notin> set (blk # blks)" "b \<noteq> indirect_block ino'" for b
  proof (cases "b = indirect_block ino1")
    case True
    with that IH(6) st have "b = 0" "indirect_block ino = 0" by auto
    then show ?thesis using that(2) IH(5) [of b] st zero that(1) Cons.prems(1) True by (auto simp: writing_def)
  qed (use that IH(5) [of b] st in auto)
  have ptrs: "file_ptr ino' e' j = file_ptr ino e j" if "j < 134" "j < idx \<or> idx + length (blk # blks) \<le> j" for j
    using that IH(3) [of j] st by auto
  have tbl: "indirect_block ino' = indirect_block ino \<and> used (balloc e') = used (balloc e) \<or>
     indirect_block ino = 0 \<and> indirect_block ino' \<notin> used (balloc e) \<and> used (balloc e') = insert (indirect_block ino') (used (balloc e))"
    using IH(6) st u(3) by auto
  show ?case
  proof (intro exI conjI allI impI)
    show "write_blocks idx (blk # blks) data ino e = Some (idx + length (blk # blks), ino', e')" by (rule run)
    show "alloc_ok (balloc e')" "bt_get (block_data e') 0 = None" using IH(2) by simp_all
  qed (use data frame ptrs tbl in \<open>simp_all only: not_False_eq_True simp_thms\<close>)
qed

subsection \<open>Allocation loops\<close>

lemma free_blocks_pos:
  assumes "alloc_ok a" and "0 < free_blocks a"
  shows "used a \<noteq> {..<total_blocks a}"
proof
  assume "used a = {..<total_blocks a}"
  then have "\<forall>i < length (bitmap a). bitmap a ! i" using assms(1) by (auto simp: used_def alloc_ok_def)
  then have "filter Not (bitmap a) = []" by (simp add: filter_empty_conv all_set_conv_all_nth)
  with assms show False by (simp add: alloc_ok_def)
qed

lemma allocate_block_steps:
  assumes "allocate_block a = (Some b, a1)"
  shows "free_blocks a = Suc (free_blocks a1)" and "take_block a = Some (b, a1)"
  using assms by (auto simp: allocate_block_def take_block_def split: if_splits option.splits)

lemma alloc_n_enough:
  assumes "alloc_ok a" and "n \<le> free_blocks a"
  shows "\<exists>rs a'. alloc_n take_block n a = (rs, a', True) \<and> free_blocks a' = free_blocks a - n"
  using assms
proof (induction n arbitrary: a)
  case (Suc n)
  then have "used a \<noteq> {..<total_blocks a}" using free_blocks_pos by simp
  then obtain b a1 where b: "allocate_block a = (Some b, a1)"
    using allocate_block_None [OF Suc.prems(1)] by (cases "allocate_block a") auto
  note st = allocate_block_steps [OF b]
  have "n \<le> free_blocks a1" using Suc.prems(2) st(1) by simp
  then obtain rs a' where "alloc_n take_block n a1 = (rs, a', True)" "free_blocks a' = free_blocks a1 - n"
    using Suc.IH [OF allocate_block_Some(3) [OF Suc.prems(1) b]] by blast
  then have "alloc_n take_block (Suc n) a = (b # rs, a', True)" "free_blocks a' = free_blocks a - Suc n"
    using st by simp_all
  then show ?case by blast
qed simp

lemma alloc_n_short:
  assumes "alloc_ok a" and "free_blocks a < n"
  shows "\<exists>rs a'. alloc_n take_block n a = (rs, a', False)"
  using assms
proof (induction n arbitrary: a)
  case (Suc n)
  show ?case
  proof (cases "take_block a")
    case None
    then show ?thesis by simp
  next
    case (Some p)
    obtain b a1 where p: "p = (b, a1)" by (cases p)
    have b: "allocate_block a = (Some b, a1)" using Some p by (simp add: take_block_Some)
    have "free_blocks a1 < n" using Suc.prems(2) allocate_block_steps(1) [OF b] by simp
    then obtain rs a' where "alloc_n take_block n a1 = (rs, a', False)"
      using Suc.IH [OF allocate_block_Some(3) [OF Suc.prems(1) b]] by blast
    then show ?thesis using Some p by simp
  qed
qed simp

definition engine_ok :: "engine \<Rightarrow> bool" where
  "engine_ok e \<longleftrightarrow> alloc_ok (balloc e) \<and> 0 \<in> used (balloc e) \<and> bt_get (block_data e) 0 = None"

definition blocks_for :: "byte list \<Rightarrow> nat" where
  "blocks_for data = (length data + BLOCK_SIZE - 1) div BLOCK_SIZE"

definition fresh_inode :: "inode_v2 \<Rightarrow> bool" where
  "fresh_inode ino \<longleftrightarrow> direct_blocks ino = replicate 6 0 \<and> indirect_block ino = 0 \<and> double_indirect ino = 0"

lemma pad_map_Suc:
  "map (\<lambda>k. pad_block (take 512 (drop (512 * k) data))) [0..<Suc m] =
   pad_block (take 512 data) # map (\<lambda>k. pad_block (take 512 (drop (512 * k) (drop 512 data)))) [0..<m]"
proof -
  have "[0..<Suc m] = 0 # map Suc [0..<m]" by (simp add: upt_conv_Cons map_Suc_upt del: upt_Suc)
  then show ?thesis by (simp add: comp_def add.commute del: upt_Suc)
qed

lemma concat_blocks:
  "take (length data) (concat (map (\<lambda>k. pad_block (take 512 (drop (512 * k) data))) [0..<(length data + 511) div 512])) = data"
proof (induction "length data" arbitrary: data rule: less_induct)
  case less
  show ?case
  proof (cases "data = []")
    case False
    let ?r = "concat (map (\<lambda>k. pad_block (take 512 (drop (512 * k) (drop 512 data)))) [0..<(length (drop 512 data) + 511) div 512])"
    have n: "(length data + 511) div 512 = Suc ((length (drop 512 data) + 511) div 512)"
      using False by (cases "length data \<le> 512") (auto simp: div_if)
    have IH: "take (length (drop 512 data)) ?r = drop 512 data" by (rule less) (use False in simp)
    have "take (length data) (pad_block (take 512 data) @ ?r) = data"
    proof (cases "length data \<le> 512")
      case True
      then show ?thesis by (simp add: pad_block_def BLOCK_SIZE_def)
    next
      case c: False
      have "take (length data) (take 512 data @ ?r) = take 512 data @ take (length (drop 512 data)) ?r"
        using c by (simp only: take_append) simp
      with c IH show ?thesis by (simp add: pad_block_def BLOCK_SIZE_def)
    qed
    then show ?thesis unfolding n pad_map_Suc by simp
  qed simp
qed

lemma link_block_shape:
  "link_block idx blk ino e = (ino', e') \<Longrightarrow>
   length (direct_blocks ino') = length (direct_blocks ino) \<and> double_indirect ino' = double_indirect ino"
  by (auto simp: link_block_def Let_def split: if_splits prod.splits option.splits)

lemma write_blocks_shape:
  "write_blocks idx blks data ino e = Some (n, ino', e') \<Longrightarrow>
   length (direct_blocks ino') = length (direct_blocks ino) \<and> double_indirect ino' = double_indirect ino"
proof (induction idx blks data ino e rule: write_blocks.induct)
  case (2 idx blk blks data ino e)
  show ?case
  proof (cases "data = []")
    case False
    obtain ino1 e1 where l: "link_block idx blk ino (e\<lparr>block_data := bt_insert blk (pad_block (take BLOCK_SIZE data)) (block_data e)\<rparr>) = (ino1, e1)"
      by (cases "link_block idx blk ino (e\<lparr>block_data := bt_insert blk (pad_block (take BLOCK_SIZE data)) (block_data e)\<rparr>)")
    from 2(1) [OF False refl l [symmetric] refl] 2(2) False l link_block_shape [OF l] show ?thesis by simp
  qed (use 2(2) in simp)
qed (simp split: if_splits)

text \<open>A successful write into a fresh inode, with everything the properties need.\<close>

lemma write_fresh:
  assumes "engine_ok e" and "fresh_inode ino" and "data \<noteq> []" and n134: "blocks_for data \<le> 134"
    and "blocks_for data + (if 6 < blocks_for data then 1 else 0) \<le> free_blocks (balloc e)"
  obtains blks ino' e' where "write_file_transactional data ino e = Some (Ok (length data), ino', e')"
    "length blks = blocks_for data" "distinct blks" "set blks \<inter> used (balloc e) = {}" "alloc_ok (balloc e')"
    "bt_get (block_data e') 0 = None" "isize ino' = length data" "block_count ino' = blocks_for data" "double_indirect ino' = 0"
    "\<And>k. k < length blks \<Longrightarrow> file_ptr ino' e' k = blks ! k \<and> blks ! k \<noteq> indirect_block ino' \<and>
       bt_get (block_data e') (blks ! k) = Some (pad_block (take 512 (drop (512 * k) data)))"
    "\<And>j. j < 134 \<Longrightarrow> length blks \<le> j \<Longrightarrow> file_ptr ino' e' j = 0" "length (direct_blocks ino') = 6"
    "indirect_block ino' = 0 \<and> used (balloc e') = used (balloc e) \<union> set blks \<or>
     indirect_block ino' \<notin> used (balloc e) \<union> set blks \<and> used (balloc e') = insert (indirect_block ino') (used (balloc e) \<union> set blks)"
proof -
  have ok: "alloc_ok (balloc e)" "0 \<in> used (balloc e)" "bt_get (block_data e) 0 = None"
    using assms(1) by (simp_all add: engine_ok_def)
  have fr: "direct_blocks ino = replicate 6 0" "indirect_block ino = 0" "double_indirect ino = 0"
    using assms(2) by (simp_all add: fresh_inode_def)
  have n: "blocks_for data = (length data + 511) div 512" by (simp add: blocks_for_def BLOCK_SIZE_def)
  have "blocks_for data \<le> free_blocks (balloc e)" using assms(5) by simp
  then obtain blks a where al: "alloc_n take_block (blocks_for data) (balloc e) = (blks, a, True)"
    "free_blocks a = free_blocks (balloc e) - blocks_for data"
    using alloc_n_enough [OF ok(1)] by blast
  have sp: "alloc_ok a" "used a = used (balloc e) \<union> set blks" "set blks \<inter> used (balloc e) = {}" "distinct blks"
    "length blks = blocks_for data" using blocks.alloc_n_spec [OF ok(1) al(1)] by simp_all
  let ?e = "e\<lparr>balloc := a\<rparr>"
  have room: "used a \<noteq> {..<total_blocks a}" if "6 < length blks"
    using free_blocks_pos [OF sp(1)] al(2) assms(5) sp(5) that by simp
  have "writing 0 blks ino ?e" using ok fr sp room by (auto simp: writing_def)
  then obtain ino' e' where w: "write_blocks 0 blks data ino ?e = Some (length blks, ino', e')" "alloc_ok (balloc e')"
    "bt_get (block_data e') 0 = None" "\<And>j. j < 134 \<Longrightarrow> length blks \<le> j \<Longrightarrow> file_ptr ino' e' j = file_ptr ino ?e j"
    "\<And>k. k < length blks \<Longrightarrow> file_ptr ino' e' k = blks ! k \<and> blks ! k \<noteq> indirect_block ino' \<and>
       bt_get (block_data e') (blks ! k) = Some (pad_block (take 512 (drop (512 * k) data)))"
    "indirect_block ino' = indirect_block ino \<and> used (balloc e') = used a \<or>
     indirect_block ino = 0 \<and> indirect_block ino' \<notin> used a \<and> used (balloc e') = insert (indirect_block ino') (used a)"
    using write_blocks_spec [of 0 blks ino ?e data] sp(5) n n134 by auto
  let ?i = "ino'\<lparr>isize := length data, block_count := length blks\<rparr>"
  have small: "length data < 2 ^ 32" "length blks < 2 ^ 32" using n134 n sp(5) by simp_all
  have run: "write_file_transactional data ino e = Some (Ok (length data), ?i, e')"
    using assms(3) al(1) w(1) small by (simp add: write_file_transactional_def blocks_for_def)
  have ptr: "file_ptr (ino'\<lparr>isize := x, block_count := y\<rparr>) e' j = file_ptr ino' e' j" for x y j by (simp add: file_ptr_def)
  have zero: "file_ptr ino ?e j = 0" for j
    using fr ok(3) by (simp add: file_ptr_def spfs_sizes)
  show ?thesis
    using w(4,5) zero write_blocks_shape [OF w(1)] fr sp w(6)
    by (intro that [OF run sp(5) sp(4) sp(3) w(2,3)]) (simp_all add: ptr)
qed

text \<open>With no block left for the table, the pointers past the direct ones are dropped.\<close>

lemma write_blocks_full:
  assumes "free_blocks (balloc e) = 0" and "indirect_block ino = 0" and "bt_get (block_data e) 0 = None"
    and "length blks = (length data + 511) div 512" and "0 \<notin> set blks"
  shows "\<exists>d m. write_blocks idx blks data ino e = Some (idx + length blks, ino\<lparr>direct_blocks := d\<rparr>, e\<lparr>block_data := m\<rparr>) \<and>
    bt_get m 0 = None"
  using assms
proof (induction blks arbitrary: idx data ino e)
  case Nil
  then have "data = []" by (cases data) auto
  with Nil show ?case by (intro exI [of _ "direct_blocks ino"] exI [of _ "block_data e"]) simp
next
  case (Cons blk blks)
  have data: "data \<noteq> []" using Cons.prems(4) by auto
  define m1 where "m1 = bt_insert blk (pad_block (take BLOCK_SIZE data)) (block_data e)"
  have m1: "bt_get m1 0 = None" using Cons.prems(3,5) by (simp add: m1_def)
  obtain d1 where l: "link_block idx blk ino (e\<lparr>block_data := m1\<rparr>) = (ino\<lparr>direct_blocks := d1\<rparr>, e\<lparr>block_data := m1\<rparr>)"
  proof -
    have same: "ino\<lparr>direct_blocks := direct_blocks ino\<rparr> = ino" "e\<lparr>balloc := balloc e\<rparr> = e" by simp_all
    show thesis
    proof (cases "idx < DIRECT_BLOCKS_COUNT")
      case False
      then show ?thesis using that [of "direct_blocks ino"] Cons.prems(1,2) m1 by (simp add: link_block_def allocate_block_def)
    qed (use that in \<open>simp add: link_block_def\<close>)
  qed
  have n: "length blks = (length (drop BLOCK_SIZE data) + 511) div 512"
    using Cons.prems(4) data by (cases "length data \<le> 512") (auto simp: BLOCK_SIZE_def div_if)
  obtain d m where "write_blocks (idx + 1) blks (drop BLOCK_SIZE data) (ino\<lparr>direct_blocks := d1\<rparr>) (e\<lparr>block_data := m1\<rparr>) =
      Some (idx + 1 + length blks, ino\<lparr>direct_blocks := d\<rparr>, e\<lparr>block_data := m\<rparr>)" "bt_get m 0 = None"
    using Cons.IH [of "e\<lparr>block_data := m1\<rparr>" "ino\<lparr>direct_blocks := d1\<rparr>" "drop BLOCK_SIZE data" "idx + 1"] Cons.prems(1,2,5) m1 n by auto
  with data l show ?case by (auto simp: m1_def)
qed

lemma content_direct_only:
  assumes "indirect_block ino = 0" and "bt_get (block_data e) 0 = None"
  shows "6 \<le> j \<Longrightarrow> file_ptr ino e j = 0" and "block_of e 0 = []"
  using assms by (simp_all add: file_ptr_def block_of_def spfs_sizes)

subsection \<open>Reclaiming\<close>

lemma drop_block_spec:
  assumes "alloc_ok (balloc e)"
  shows "\<exists>e'. drop_block b e = Some e' \<and> alloc_ok (balloc e') \<and> used (balloc e') = used (balloc e) - {b} \<and>
    block_data e' = bt_remove b (block_data e)"
proof -
  obtain a where "free_block b (balloc e) = Some a" "used a = used (balloc e) - {b}" "alloc_ok a"
    using free_block_spec [OF assms] by blast
  then show ?thesis by (simp add: drop_block_def)
qed

lemma drop_nonzero_spec:
  assumes "alloc_ok (balloc e)"
  shows "\<exists>e'. drop_nonzero bs e = Some e' \<and> alloc_ok (balloc e') \<and>
    used (balloc e') = used (balloc e) - (set bs - {0}) \<and>
    (\<forall>b. b \<notin> set bs \<longrightarrow> bt_get (block_data e') b = bt_get (block_data e) b)"
  using assms
proof (induction bs arbitrary: e)
  case (Cons b bs)
  obtain e1 where e1: "(if b \<noteq> 0 then drop_block b e else Some e) = Some e1" "alloc_ok (balloc e1)"
    "used (balloc e1) = used (balloc e) - ({b} - {0})" "\<forall>c. c \<noteq> b \<longrightarrow> bt_get (block_data e1) c = bt_get (block_data e) c"
  proof (cases "b = 0")
    case False
    obtain e1 where "drop_block b e = Some e1" "alloc_ok (balloc e1)" "used (balloc e1) = used (balloc e) - {b}"
      "block_data e1 = bt_remove b (block_data e)" using drop_block_spec [OF Cons.prems] by blast
    with False that [of e1] show ?thesis by simp
  qed (use Cons.prems that [of e] in simp)
  obtain e2 where "drop_nonzero bs e1 = Some e2" "alloc_ok (balloc e2)"
    "used (balloc e2) = used (balloc e1) - (set bs - {0})"
    "\<forall>c. c \<notin> set bs \<longrightarrow> bt_get (block_data e2) c = bt_get (block_data e1) c" using Cons.IH [OF e1(2)] by blast
  with e1 show ?case by (intro exI [of _ e2]) auto
qed simp

lemma drop_table_spec:
  assumes "alloc_ok (balloc e)" and "bt_get (block_data e) t = Some tbl"
  shows "\<exists>e'. drop_table t e = Some e' \<and> used (balloc e') = used (balloc e) - (set (table_ptrs tbl) - {0}) - {t} \<and> alloc_ok (balloc e')"
proof -
  obtain e1 where e1: "drop_nonzero (table_ptrs tbl) (e\<lparr>block_data := bt_remove t (block_data e)\<rparr>) = Some e1"
    "alloc_ok (balloc e1)" "used (balloc e1) = used (balloc e) - (set (table_ptrs tbl) - {0})"
    using drop_nonzero_spec [of "e\<lparr>block_data := bt_remove t (block_data e)\<rparr>" "table_ptrs tbl"] assms(1) by auto
  obtain a where "free_block t (balloc e1) = Some a" "used a = used (balloc e1) - {t}" "alloc_ok a"
    using free_block_spec [OF e1(2)] by blast
  with e1 assms(2) show ?thesis by (simp add: drop_table_def)
qed

text \<open>What the direct pointers and the table name, through \<^const>\<open>file_ptr\<close>.\<close>

lemma direct_ptrs: "length (direct_blocks ino) = 6 \<Longrightarrow> set (direct_blocks ino) = file_ptr ino e ` {..<6}"
  by (auto simp: set_conv_nth file_ptr_def spfs_sizes)

lemma indirect_ptrs:
  assumes "bt_get (block_data e) (indirect_block ino) = Some tbl"
  shows "set (table_ptrs tbl) = file_ptr ino e ` {6..<134}"
proof -
  have "set (table_ptrs tbl) = (\<lambda>i. file_ptr ino e (i + 6)) ` {0..<128}"
    using assms by (simp add: table_ptrs_def file_ptr_def spfs_sizes)
  also have "\<dots> = file_ptr ino e ` ((\<lambda>i. i + 6) ` {0..<128})" by (simp only: image_image)
  also have "(\<lambda>i. i + 6) ` {0..<128::nat} = {6..<134}" by (simp add: image_add_atLeastLessThan')
  finally show ?thesis .
qed

text \<open>All the pointers of a file written by \<^const>\<open>write_file_transactional\<close>.\<close>

lemma all_ptrs:
  assumes "\<And>k. k < length blks \<Longrightarrow> f k = blks ! k" and "\<And>j. j < m \<Longrightarrow> length blks \<le> j \<Longrightarrow> f j = 0"
    and "length blks \<le> m" and "0 \<notin> set blks"
  shows "f ` {..<m} - {0 :: nat} = set blks"
proof -
  have "f j \<in> insert 0 (set blks)" if "j < m" for j using assms(1,2) [of j] that by (cases "j < length blks") auto
  moreover have "b \<in> f ` {..<m}" if "b \<in> set blks" for b
    using that assms(1,3) by (auto simp: in_set_conv_nth image_iff) (metis order.strict_trans2 lessThan_iff)
  ultimately show ?thesis using assms(4) by auto
qed

lemma drop_table_zero:
  assumes "alloc_ok (balloc e)" and "bt_get (block_data e) t = None"
  shows "\<exists>e'. drop_table t e = Some e' \<and> used (balloc e') = used (balloc e) - {t} \<and> alloc_ok (balloc e')"
proof -
  obtain a where "free_block t (balloc e) = Some a" "used a = used (balloc e) - {t}" "alloc_ok a"
    using free_block_spec [OF assms(1)] by blast
  with assms(2) show ?thesis by (simp add: drop_table_def)
qed

lemma truncate_pointers:
  assumes ok: "alloc_ok (balloc e)" and len: "length (direct_blocks ino) = 6" and dbl: "double_indirect ino = 0"
    and ind: "indirect_block ino \<notin> file_ptr ino e ` {..<6} - {0}"
  shows "\<exists>e'. truncate_and_reclaim ino e = Some (ino\<lparr>direct_blocks := map (\<lambda>_. 0) (direct_blocks ino), indirect_block := 0,
       double_indirect := 0, isize := 0, block_count := 0\<rparr>, e') \<and> alloc_ok (balloc e') \<and>
     used (balloc e') = used (balloc e) - (file_ptr ino e ` {..<if indirect_block ino = 0 then 6 else 134} - {0}) - ({indirect_block ino} - {0})"
proof -
  obtain e1 where e1: "drop_nonzero (direct_blocks ino) e = Some e1" "alloc_ok (balloc e1)"
    "used (balloc e1) = used (balloc e) - (file_ptr ino e ` {..<6} - {0})"
    "\<And>b. b \<notin> file_ptr ino e ` {..<6} \<Longrightarrow> bt_get (block_data e1) b = bt_get (block_data e) b"
    using drop_nonzero_spec [OF ok, of "direct_blocks ino"] unfolding direct_ptrs [OF len, of e] by auto
  show ?thesis
  proof (cases "indirect_block ino = 0")
    case True
    with e1 dbl show ?thesis by (simp add: truncate_and_reclaim_def)
  next
    case False
    then have keep: "bt_get (block_data e1) (indirect_block ino) = bt_get (block_data e) (indirect_block ino)"
      using e1(4) ind by simp
    have "{..<134::nat} = {..<6} \<union> {6..<134}" by auto
    then have split: "file_ptr ino e ` {..<134} = file_ptr ino e ` {..<6} \<union> file_ptr ino e ` {6..<134}"
      by (simp only: image_Un)
    obtain e2 where "drop_table (indirect_block ino) e1 = Some e2" "alloc_ok (balloc e2)"
      "used (balloc e2) = used (balloc e1) - (file_ptr ino e ` {6..<134} - {0}) - {indirect_block ino}"
    proof (cases "bt_get (block_data e) (indirect_block ino)")
      case None
      then have "file_ptr ino e ` {6..<134} - {0} = {}" by (auto simp: file_ptr_def spfs_sizes)
      with None that show ?thesis using drop_table_zero [OF e1(2), of "indirect_block ino"] keep by auto
    next
      case (Some tbl)
      with that show ?thesis
        using drop_table_spec [OF e1(2), of "indirect_block ino" tbl] keep unfolding indirect_ptrs [OF Some] by auto
    qed
    then show ?thesis using e1(1,3) dbl False by (simp add: truncate_and_reclaim_def split Diff_eq Int_ac)
  qed
qed

subsection \<open>Properties\<close>

text \<open>An engine of 16 sectors and an inode with nothing in it, for the witnesses.\<close>

definition small_engine :: engine where "small_engine = new_engine 16"

definition empty_inode :: inode_v2 where
  "empty_inode = \<lparr>inode_id = 1, file_type = 0, iflags = 0, permissions = 0x1A4, uid = 0, gid = 0, isize = 0, block_count = 0,
     direct_blocks = replicate 6 0, indirect_block = 0, double_indirect = 0\<rparr>"

lemma small_engine_ok: "engine_ok small_engine" "fresh_inode empty_inode" "free_blocks (balloc small_engine) = 15"
  using new_allocator_ok [of 16]
  by (simp_all add: engine_ok_def fresh_inode_def small_engine_def empty_inode_def new_engine_def new_allocator_def used_def)

lemma blocks_for_replicate: "blocks_for (replicate n b) = (n + 511) div 512"
  by (simp add: blocks_for_def BLOCK_SIZE_def)

text \<open>
  C38. A transactional write into a fresh inode, of data that fits the 134 direct and indirect pointers and the
  free space (one more block when a table is needed), returns the number of bytes written, and reading the blocks
  the inode's pointers name gives back exactly the data; every block that was in use before keeps its place.
\<close>
theorem spfs_write_reads_back:
  assumes "engine_ok e" and "fresh_inode ino" and "data \<noteq> []" and "blocks_for data \<le> 134"
    and "blocks_for data + (if 6 < blocks_for data then 1 else 0) \<le> free_blocks (balloc e)"
  shows "\<exists>ino' e'. write_file_transactional data ino e = Some (Ok (length data), ino', e') \<and>
    file_content ino' e' = data \<and> used (balloc e) \<subseteq> used (balloc e') \<and> alloc_ok (balloc e')"
proof -
  obtain blks ino' e' where w: "write_file_transactional data ino e = Some (Ok (length data), ino', e')"
    "length blks = blocks_for data" "alloc_ok (balloc e')" "isize ino' = length data" "block_count ino' = blocks_for data"
    "\<And>k. k < length blks \<Longrightarrow> file_ptr ino' e' k = blks ! k \<and> blks ! k \<noteq> indirect_block ino' \<and>
       bt_get (block_data e') (blks ! k) = Some (pad_block (take 512 (drop (512 * k) data)))"
    "indirect_block ino' = 0 \<and> used (balloc e') = used (balloc e) \<union> set blks \<or>
     indirect_block ino' \<notin> used (balloc e) \<union> set blks \<and> used (balloc e') = insert (indirect_block ino') (used (balloc e) \<union> set blks)"
    using write_fresh [OF assms] by metis
  have "map (\<lambda>j. block_of e' (file_ptr ino' e' j)) [0..<blocks_for data] =
    map (\<lambda>k. pad_block (take 512 (drop (512 * k) data))) [0..<(length data + 511) div 512]"
    proof -
    have "blocks_for data = (length data + 511) div 512" by (simp add: blocks_for_def BLOCK_SIZE_def)
    then show ?thesis using w(2,6) by (intro map_cong) (simp_all add: block_of_def)
  qed
  then have "file_content ino' e' = data" using w(4,5) concat_blocks [of data] by (simp add: file_content_def)
  with w(1,3,7) show ?thesis by auto
qed

theorem spfs_write_reads_back_witness:
  "\<exists>ino' e'. write_file_transactional (replicate 4000 7) empty_inode small_engine = Some (Ok 4000, ino', e') \<and>
    file_content ino' e' = replicate 4000 7 \<and> used (balloc small_engine) \<subseteq> used (balloc e') \<and> alloc_ok (balloc e')"
  using spfs_write_reads_back [OF small_engine_ok(1,2), of "replicate 4000 7"] small_engine_ok(3)
  by (simp add: blocks_for_replicate del: replicate.simps)

text \<open>
  C39. A write that finds fewer free blocks than its data fills fails with \<^const>\<open>NoSpace\<close> and rolls back: the inode and
  the contents of every block are untouched and the blocks in use are the same as before. As in the code, only the blocks of
  data are counted, not the block of the pointer table that a file of more than 6 blocks needs besides:
  \<open>full_disk_loses_tail\<close> below says what the write does when exactly that one is missing.
\<close>
theorem spfs_write_rolls_back:
  assumes "engine_ok e" and "free_blocks (balloc e) < blocks_for data"
  shows "\<exists>a. write_file_transactional data ino e = Some (Err NoSpace, ino, e\<lparr>balloc := a\<rparr>) \<and>
    used a = used (balloc e) \<and> alloc_ok a"
proof -
  have ok: "alloc_ok (balloc e)" using assms(1) by (simp add: engine_ok_def)
  have ne: "data \<noteq> []" using assms(2) by (auto simp: blocks_for_def BLOCK_SIZE_def)
  obtain rs a where al: "alloc_n take_block (blocks_for data) (balloc e) = (rs, a, False)"
    using alloc_n_short [OF ok assms(2)] by blast
  have "alloc_ok a" using blocks.alloc_n_spec [OF ok al] by simp
  then have "write_file_transactional data ino e = Some (Err NoSpace, ino, e\<lparr>balloc := fold give_block rs a\<rparr>)"
    using al ne by (simp add: write_file_transactional_def blocks_for_def free_all_eq)
  then show ?thesis using blocks.alloc_n_rollback [OF ok al] by blast
qed

theorem spfs_write_rolls_back_witness:
  "\<exists>a. write_file_transactional (replicate 8000 7) empty_inode small_engine =
    Some (Err NoSpace, empty_inode, small_engine\<lparr>balloc := a\<rparr>) \<and> used a = used (balloc small_engine) \<and> alloc_ok a"
  using spfs_write_rolls_back [OF small_engine_ok(1), of "replicate 8000 7" empty_inode] small_engine_ok(3)
  by (simp add: blocks_for_replicate)

text \<open>
  When the free blocks are just those of the data, and the data needs the pointer table, the write does not fail: it takes all
  the blocks and reports every byte as written, but no pointer past the direct ones is stored, so the rest cannot be read back.
\<close>
theorem full_disk_loses_tail:
  assumes "engine_ok e" and "fresh_inode ino" and "6 < blocks_for data" and "free_blocks (balloc e) = blocks_for data"
  shows "\<exists>ino' e'. write_file_transactional data ino e = Some (Ok (length data), ino', e') \<and>
    (\<forall>j \<ge> 6. block_of e' (file_ptr ino' e' j) = []) \<and> free_blocks (balloc e') = 0"
proof -
  have ok: "alloc_ok (balloc e)" "0 \<in> used (balloc e)" "bt_get (block_data e) 0 = None"
    using assms(1) by (simp_all add: engine_ok_def)
  have data: "data \<noteq> []" using assms(3) by (auto simp: blocks_for_def BLOCK_SIZE_def)
  obtain blks a where al: "alloc_n take_block (blocks_for data) (balloc e) = (blks, a, True)" "free_blocks a = 0"
    using alloc_n_enough [OF ok(1), of "blocks_for data"] assms(4) by auto
  have sp: "set blks \<inter> used (balloc e) = {}" "length blks = blocks_for data"
    using blocks.alloc_n_spec [OF ok(1) al(1)] by simp_all
  then have nz: "0 \<notin> set blks" using ok(2) by blast
  have n: "length blks = (length data + 511) div 512" using sp(2) by (simp add: blocks_for_def BLOCK_SIZE_def)
  obtain d m where w: "write_blocks 0 blks data ino (e\<lparr>balloc := a\<rparr>) =
      Some (length blks, ino\<lparr>direct_blocks := d\<rparr>, e\<lparr>balloc := a, block_data := m\<rparr>)" "bt_get m 0 = None"
    using write_blocks_full [of "e\<lparr>balloc := a\<rparr>" ino blks data 0] al(2) ok(3) n nz assms(2)
    by (auto simp: fresh_inode_def)
  let ?i = "ino\<lparr>direct_blocks := d, isize := length data mod 2 ^ 32, block_count := length blks mod 2 ^ 32\<rparr>"
  let ?e = "e\<lparr>balloc := a, block_data := m\<rparr>"
  have "write_file_transactional data ino e = Some (Ok (length data), ?i, ?e)"
    using data al(1) w(1) by (simp add: write_file_transactional_def blocks_for_def)
  moreover have "\<forall>j \<ge> 6. block_of ?e (file_ptr ?i ?e j) = []"
    using content_direct_only [of ?i ?e] w(2) assms(2) by (simp add: fresh_inode_def)
  ultimately show ?thesis using al(2) by (intro exI [of _ ?i] exI [of _ ?e]) simp
qed
theorem full_disk_loses_tail_witness:
  "\<exists>ino' e'. write_file_transactional (replicate 7680 7) empty_inode small_engine = Some (Ok 7680, ino', e') \<and>
    block_of e' (file_ptr ino' e' 6) = []"
  using full_disk_loses_tail [OF small_engine_ok(1,2), of "replicate 7680 7"] small_engine_ok(3)
  by (auto simp: blocks_for_replicate)

text \<open>
  Truncating a file right after it was written into a fresh inode returns and undoes the allocation: the blocks
  in use, the pointer table included, are those of before the write, and the inode is fresh and empty again.
\<close>
theorem spfs_truncate_undoes_write:
  assumes "engine_ok e" and "fresh_inode ino" and "data \<noteq> []" and "blocks_for data \<le> 134"
    and "blocks_for data + (if 6 < blocks_for data then 1 else 0) \<le> free_blocks (balloc e)"
  shows "\<exists>ino1 e1 ino2 e2. write_file_transactional data ino e = Some (Ok (length data), ino1, e1) \<and>
    truncate_and_reclaim ino1 e1 = Some (ino2, e2) \<and> used (balloc e2) = used (balloc e) \<and> alloc_ok (balloc e2) \<and>
    fresh_inode ino2 \<and> isize ino2 = 0 \<and> block_count ino2 = 0"
proof -
  obtain blks ino' e' where w: "write_file_transactional data ino e = Some (Ok (length data), ino', e')"
    "length blks = blocks_for data" "set blks \<inter> used (balloc e) = {}" "alloc_ok (balloc e')" "double_indirect ino' = 0"
    "\<And>k. k < length blks \<Longrightarrow> file_ptr ino' e' k = blks ! k \<and> blks ! k \<noteq> indirect_block ino' \<and>
       bt_get (block_data e') (blks ! k) = Some (pad_block (take 512 (drop (512 * k) data)))"
    "\<And>j. j < 134 \<Longrightarrow> length blks \<le> j \<Longrightarrow> file_ptr ino' e' j = 0" "length (direct_blocks ino') = 6"
    "indirect_block ino' = 0 \<and> used (balloc e') = used (balloc e) \<union> set blks \<or>
     indirect_block ino' \<notin> used (balloc e) \<union> set blks \<and> used (balloc e') = insert (indirect_block ino') (used (balloc e) \<union> set blks)"
    "bt_get (block_data e') 0 = None"
    using write_fresh [OF assms] by metis
  have z: "0 \<in> used (balloc e)" using assms(1) by (simp add: engine_ok_def)
  then have nz: "0 \<notin> set blks" using w(3) by auto
  let ?m = "if indirect_block ino' = 0 then 6 else 134"
  have all: "file_ptr ino' e' ` {..<134} - {0} = set blks"
    by (rule all_ptrs) (use w(2,6,7) assms(4) nz in simp_all)
  then have ind: "indirect_block ino' \<notin> file_ptr ino' e' ` {..<6} - {0}" using w(9) by auto
  have "file_ptr ino' e' ` {..<?m} - {0} = set blks"
  proof (cases "indirect_block ino' = 0")
    case True
    then have "file_ptr ino' e' j = 0" if "6 \<le> j" for j
      using that w(10) by (simp add: file_ptr_def spfs_sizes)
    moreover have "{..<134::nat} = {..<6} \<union> {6..<134}" by auto
    ultimately show ?thesis using all True by auto
  qed (use all in simp)
  moreover have "fresh_inode (ino'\<lparr>direct_blocks := map (\<lambda>_. 0) (direct_blocks ino'), indirect_block := 0,
       double_indirect := 0, isize := 0, block_count := 0\<rparr>)"
    using w(8) by (simp add: fresh_inode_def map_replicate_const)
  moreover have "used (balloc e') - set blks - ({indirect_block ino'} - {0}) = used (balloc e)"
    using w(3,9) z by auto
  ultimately show ?thesis using truncate_pointers [OF w(4,8,5) ind] w(1) by auto
qed

theorem spfs_truncate_undoes_write_witness:
  "\<exists>ino1 e1 ino2 e2. write_file_transactional (replicate 4000 7) empty_inode small_engine = Some (Ok 4000, ino1, e1) \<and>
    truncate_and_reclaim ino1 e1 = Some (ino2, e2) \<and> used (balloc e2) = used (balloc small_engine) \<and> alloc_ok (balloc e2) \<and>
    fresh_inode ino2 \<and> isize ino2 = 0 \<and> block_count ino2 = 0"
  using spfs_truncate_undoes_write [OF small_engine_ok(1,2), of "replicate 4000 7"] small_engine_ok(3)
  by (simp add: blocks_for_replicate)

end
