(* ===== verification/Data_Drive.thy ===== *)
theory Data_Drive
  imports Byte_Codec
begin

section \<open>The data drive\<close>

text \<open>
  The file system reaches the disk through \<^verbatim>\<open>DATA_DRIVE.read_sector\<close> and \<^verbatim>\<open>write_sector\<close>, which drive a
  hardware controller by port I/O. The drive is a parameter of the operations that use it: its two calls over a
  state of their own. What the round trips need of it is \<open>drive_stores\<close>, the behaviour of a working disk, with
  \<open>view\<close> the sectors it holds.
\<close>

record 'd drive =
  read_sector :: "nat \<Rightarrow> 'd \<Rightarrow> (string, byte list) result \<times> 'd"
  write_sector :: "nat \<Rightarrow> byte list \<Rightarrow> 'd \<Rightarrow> (string, unit) result \<times> 'd"

definition drive_stores :: "'d drive \<Rightarrow> ('d \<Rightarrow> nat \<Rightarrow> byte list) \<Rightarrow> nat \<Rightarrow> bool" where
  "drive_stores dr view n \<longleftrightarrow>
     (\<forall>lba d. lba < n \<longrightarrow> fst (read_sector dr lba d) = Ok (view d lba) \<and> view (snd (read_sector dr lba d)) = view d) \<and>
     (\<forall>lba s d. lba < n \<longrightarrow> length s = 512 \<longrightarrow>
        fst (write_sector dr lba s d) = Ok () \<and> view (snd (write_sector dr lba s d)) = (view d)(lba := s))"

lemma drive_read:
  assumes "drive_stores dr view n" and "lba < n"
  obtains d' where "read_sector dr lba d = (Ok (view d lba), d')" "view d' = view d"
proof (rule that)
  show "read_sector dr lba d = (Ok (view d lba), snd (read_sector dr lba d))"
    using assms by (intro prod_eqI) (simp_all add: drive_stores_def)
  show "view (snd (read_sector dr lba d)) = view d" using assms by (simp add: drive_stores_def)
qed

lemma drive_write:
  assumes "drive_stores dr view n" and "lba < n" and "length s = 512"
  obtains d' where "write_sector dr lba s d = (Ok (), d')" "view d' = (view d)(lba := s)"
proof (rule that)
  show "write_sector dr lba s d = (Ok (), snd (write_sector dr lba s d))"
    using assms by (intro prod_eqI) (simp_all add: drive_stores_def)
  show "view (snd (write_sector dr lba s d)) = (view d)(lba := s)" using assms by (simp add: drive_stores_def)
qed

text \<open>A disk of \<open>n\<close> sectors in memory, and a controller that never answers.\<close>

definition ram_drive :: "nat \<Rightarrow> (nat \<Rightarrow> byte list) drive" where
  "ram_drive n =
     \<lparr>read_sector = (\<lambda>lba d. (if lba < n then Ok (d lba) else Err ''ATA Disk Okuma Hatasi (ERR)'', d)),
      write_sector = (\<lambda>lba s d. if lba < n then (Ok (), d(lba := s)) else (Err ''ATA Disk Yazma Hatasi (ERR)'', d))\<rparr>"

lemma ram_drive_stores: "drive_stores (ram_drive n) (\<lambda>d. d) n"
  by (simp add: drive_stores_def ram_drive_def)

end
