(* ===== verification/Spfs_Journal.thy ===== *)
theory Spfs_Journal
  imports Spfs_Blocks Data_Drive
begin

section \<open>The SPFS write-ahead journal\<close>

text \<open>
  \<^verbatim>\<open>SpfsJournal\<close> of \<^verbatim>\<open>kernel/src/fs.rs\<close>: records with ascending sequence numbers, the last committed sequence,
  the rollback of allocations that were never committed, and the one-sector image of the journal on the drive.
\<close>

datatype journal_op_type = AllocBlock | FreeBlock | WriteInode | Commit

record journal_record =
  op_type :: journal_op_type
  rec_inode_id :: nat
  rec_block_id :: nat
  rec_sequence :: nat

record journal =
  records :: "journal_record list"
  next_sequence :: nat
  committed_sequence :: nat

definition new_journal :: journal where
  "new_journal = \<lparr>records = [], next_sequence = 1, committed_sequence = 0\<rparr>"

definition log_alloc_block :: "nat \<Rightarrow> nat \<Rightarrow> journal \<Rightarrow> (nat \<times> journal) option" where
  "log_alloc_block ino blk j = do {
     nxt \<leftarrow> checked_add 64 (next_sequence j) 1;
     Some (next_sequence j, j\<lparr>next_sequence := nxt, records := records j @
       [\<lparr>op_type = AllocBlock, rec_inode_id = ino, rec_block_id = blk, rec_sequence = next_sequence j\<rparr>]\<rparr>)
   }"

definition log_free_block :: "nat \<Rightarrow> nat \<Rightarrow> journal \<Rightarrow> (nat \<times> journal) option" where
  "log_free_block ino blk j = do {
     nxt \<leftarrow> checked_add 64 (next_sequence j) 1;
     Some (next_sequence j, j\<lparr>next_sequence := nxt, records := records j @
       [\<lparr>op_type = FreeBlock, rec_inode_id = ino, rec_block_id = blk, rec_sequence = next_sequence j\<rparr>]\<rparr>)
   }"

definition log_write_inode :: "nat \<Rightarrow> journal \<Rightarrow> (nat \<times> journal) option" where
  "log_write_inode ino j = do {
     nxt \<leftarrow> checked_add 64 (next_sequence j) 1;
     Some (next_sequence j, j\<lparr>next_sequence := nxt, records := records j @
       [\<lparr>op_type = WriteInode, rec_inode_id = ino, rec_block_id = 0, rec_sequence = next_sequence j\<rparr>]\<rparr>)
   }"

definition commit_journal :: "nat \<Rightarrow> journal \<Rightarrow> journal" where
  "commit_journal sq j =
     (if committed_sequence j < sq
      then j\<lparr>committed_sequence := sq, records := records j @
             [\<lparr>op_type = Commit, rec_inode_id = 0, rec_block_id = 0, rec_sequence = sq\<rparr>]\<rparr>
      else j)"

definition uncommitted_allocations :: "journal \<Rightarrow> nat list" where
  "uncommitted_allocations j =
     map rec_block_id (filter (\<lambda>r. committed_sequence j < rec_sequence r \<and> op_type r = AllocBlock) (records j))"

definition recover_and_rollback_uncommitted ::
    "journal \<Rightarrow> block_allocator \<Rightarrow> (nat \<times> journal \<times> block_allocator) option" where
  "recover_and_rollback_uncommitted j a = do {
     a1 \<leftarrow> free_all (uncommitted_allocations j) a;
     Some (length (uncommitted_allocations j),
           j\<lparr>records := filter (\<lambda>r. rec_sequence r \<le> committed_sequence j) (records j)\<rparr>, a1)
   }"

subsection \<open>The image on the drive\<close>

definition WAL_MAGIC :: nat where "WAL_MAGIC = 0x57414C31"

definition op_byte :: "journal_op_type \<Rightarrow> byte" where
  "op_byte t = (case t of AllocBlock \<Rightarrow> 1 | FreeBlock \<Rightarrow> 2 | WriteInode \<Rightarrow> 3 | Commit \<Rightarrow> 4)"

definition op_of_byte :: "byte \<Rightarrow> journal_op_type" where
  "op_of_byte b = (if b = 1 then AllocBlock else if b = 2 then FreeBlock else if b = 3 then WriteInode else Commit)"

definition record_bytes :: "journal_record \<Rightarrow> byte list" where
  "record_bytes r = op_byte (op_type r) # le_bytes 4 (rec_inode_id r) @ le_bytes 4 (rec_block_id r) @ le_bytes 8 (rec_sequence r)"

fun put_records :: "nat \<Rightarrow> journal_record list \<Rightarrow> byte list \<Rightarrow> byte list" where
  "put_records off [] s = s"
| "put_records off (r # rs) s =
     (if off + 17 \<le> 512 then put_records (off + 17) rs (overwrite off (record_bytes r) s) else put_records off rs s)"

definition journal_sector :: "journal \<Rightarrow> byte list" where
  "journal_sector j =
     put_records 16 (take 20 (records j))
       (overwrite 12 (le_bytes 4 (length (records j)))
         (overwrite 4 (le_bytes 8 (committed_sequence j))
           (overwrite 0 (le_bytes 4 WAL_MAGIC) (replicate 512 0))))"

definition flush_to_disk :: "'d drive \<Rightarrow> journal \<Rightarrow> 'd \<Rightarrow> (string, unit) result \<times> 'd" where
  "flush_to_disk dr j d =
     (case write_sector dr 1 (journal_sector j) d of
        (Err e, d1) \<Rightarrow> (Err e, d1)
      | (Ok _, d1) \<Rightarrow> (Ok (), d1))"

fun get_records :: "nat \<Rightarrow> nat \<Rightarrow> byte list \<Rightarrow> journal_record list" where
  "get_records 0 off s = []"
| "get_records (Suc n) off s =
     (if off + 17 \<le> 512 then
        \<lparr>op_type = op_of_byte (s ! off), rec_inode_id = field s (off + 1) 4, rec_block_id = field s (off + 5) 4,
         rec_sequence = field s (off + 9) 8\<rparr> # get_records n (off + 17) s
      else get_records n off s)"

definition recover_from_disk :: "'d drive \<Rightarrow> journal \<Rightarrow> 'd \<Rightarrow> (string, nat) result \<times> journal \<times> 'd" where
  "recover_from_disk dr j d =
     (case read_sector dr 1 d of
        (Err e, d1) \<Rightarrow> (Err e, j, d1)
      | (Ok s, d1) \<Rightarrow>
          if field s 0 4 \<noteq> WAL_MAGIC then (Err ''Invalid WAL signature'', j, d1)
          else let rs = get_records (min (field s 12 4) 20) 16 s
               in (Ok (length rs), j\<lparr>committed_sequence := field s 4 8, records := rs\<rparr>, d1))"

subsection \<open>Encoding and decoding\<close>

definition record_ok :: "journal_record \<Rightarrow> bool" where
  "record_ok r \<longleftrightarrow> rec_inode_id r < 2 ^ 32 \<and> rec_block_id r < 2 ^ 32 \<and> rec_sequence r < 2 ^ 64"

definition journal_ok :: "journal \<Rightarrow> bool" where
  "journal_ok j \<longleftrightarrow> (\<forall>r \<in> set (records j). record_ok r) \<and> committed_sequence j < 2 ^ 64 \<and> length (records j) < 2 ^ 32"

lemma length_record_bytes [simp]: "length (record_bytes r) = 17"
  by (simp add: record_bytes_def)

lemma op_of_byte_op_byte [simp]: "op_of_byte (op_byte t) = t"
  by (cases t) (simp_all add: op_byte_def op_of_byte_def)

lemma overwrite_prefix: "length xs = a \<Longrightarrow> overwrite a ys (xs @ zs) = xs @ ys @ drop (length ys) zs"
  by (simp add: overwrite_def)

lemma put_records_eq:
  "length xs = off \<Longrightarrow> off + 17 * length rs \<le> 512 \<Longrightarrow>
   put_records off rs (xs @ zs) = xs @ concat (map record_bytes rs) @ drop (17 * length rs) zs"
proof (induction rs arbitrary: off xs zs)
  case (Cons r rs)
  have "put_records off (r # rs) (xs @ zs) = put_records (off + 17) rs ((xs @ record_bytes r) @ drop 17 zs)"
    using Cons.prems by (simp add: overwrite_prefix)
  also have "\<dots> = (xs @ record_bytes r) @ concat (map record_bytes rs) @ drop (17 * length rs) (drop 17 zs)"
    using Cons.prems by (intro Cons.IH) simp_all
  finally show ?case by (simp add: add.commute)
qed simp

lemma get_records_eq:
  "length xs = off \<Longrightarrow> off + 17 * length rs \<le> 512 \<Longrightarrow> \<forall>r \<in> set rs. record_ok r \<Longrightarrow>
   get_records (length rs) off (xs @ concat (map record_bytes rs) @ zs) = rs"
proof (induction rs arbitrary: off xs)
  case (Cons r rs)
  let ?i = "le_bytes 4 (rec_inode_id r)" and ?b = "le_bytes 4 (rec_block_id r)" and ?q = "le_bytes 8 (rec_sequence r)"
  let ?t = "concat (map record_bytes rs) @ zs"
  let ?s = "xs @ concat (map record_bytes (r # rs)) @ zs"
  have s: "?s = xs @ op_byte (op_type r) # ?i @ ?b @ ?q @ ?t" by (simp add: record_bytes_def)
  have ok: "rec_inode_id r < 256 ^ 4" "rec_block_id r < 256 ^ 4" "rec_sequence r < 256 ^ 8"
    using Cons.prems(3) by (simp_all add: record_ok_def)
  have "?s ! off = op_byte (op_type r)" unfolding s using Cons.prems(1) by (simp add: nth_append)
  moreover have "field ?s (off + 1) 4 = rec_inode_id r"
    using field_at [of "xs @ [op_byte (op_type r)]" "off + 1" ?i 4 "?b @ ?q @ ?t"] Cons.prems(1) ok unfolding s by simp
  moreover have "field ?s (off + 5) 4 = rec_block_id r"
    using field_at [of "xs @ op_byte (op_type r) # ?i" "off + 5" ?b 4 "?q @ ?t"] Cons.prems(1) ok unfolding s by simp
  moreover have "field ?s (off + 9) 8 = rec_sequence r"
    using field_at [of "xs @ op_byte (op_type r) # ?i @ ?b" "off + 9" ?q 8 ?t] Cons.prems(1) ok unfolding s by simp
  moreover have "get_records (length rs) (off + 17) ?s = rs"
    using Cons.IH [of "xs @ record_bytes r" "off + 17"] Cons.prems by simp
  ultimately show ?case using Cons.prems(2) by simp
qed simp

lemma journal_sector_eq:
  "journal_sector j = (le_bytes 4 WAL_MAGIC @ le_bytes 8 (committed_sequence j) @ le_bytes 4 (length (records j))) @
     concat (map record_bytes (take 20 (records j))) @ replicate (496 - 17 * length (take 20 (records j))) 0"
proof -
  let ?m = "le_bytes 4 WAL_MAGIC" and ?c = "le_bytes 8 (committed_sequence j)" and ?n = "le_bytes 4 (length (records j))"
  have "overwrite 0 ?m (replicate 512 0) = ?m @ replicate 508 0" by (simp add: overwrite_def)
  moreover have "overwrite 4 ?c (?m @ replicate 508 0) = (?m @ ?c) @ replicate 500 0"
    by (subst overwrite_prefix) simp_all
  moreover have "overwrite 12 ?n ((?m @ ?c) @ replicate 500 0) = (?m @ ?c @ ?n) @ replicate 496 0"
    by (subst overwrite_prefix) simp_all
  moreover have "put_records 16 (take 20 (records j)) ((?m @ ?c @ ?n) @ replicate 496 0) =
      (?m @ ?c @ ?n) @ concat (map record_bytes (take 20 (records j))) @ drop (17 * length (take 20 (records j))) (replicate 496 0)"
    by (rule put_records_eq) simp_all
  ultimately show ?thesis by (simp add: journal_sector_def)
qed

lemma length_concat_const: "(\<And>x. x \<in> set xs \<Longrightarrow> length (f x) = n) \<Longrightarrow> length (concat (map f xs)) = n * length xs"
  by (induction xs) simp_all

lemma length_journal_sector [simp]: "length (journal_sector j) = 512"
  using length_concat_const [of "take 20 (records j)" record_bytes 17] by (simp add: journal_sector_eq)

lemma journal_sector_fields:
  assumes "journal_ok j"
  shows "field (journal_sector j) 0 4 = WAL_MAGIC" and "field (journal_sector j) 4 8 = committed_sequence j"
    and "field (journal_sector j) 12 4 = length (records j)"
    and "get_records (min (length (records j)) 20) 16 (journal_sector j) = take 20 (records j)"
proof -
  let ?m = "le_bytes 4 WAL_MAGIC" and ?c = "le_bytes 8 (committed_sequence j)" and ?n = "le_bytes 4 (length (records j))"
  let ?r = "concat (map record_bytes (take 20 (records j)))" and ?z = "replicate (496 - 17 * length (take 20 (records j))) (0::byte)"
  have b: "WAL_MAGIC < 256 ^ 4" "committed_sequence j < 256 ^ 8" "length (records j) < 256 ^ 4"
    using assms by (simp_all add: journal_ok_def WAL_MAGIC_def)
  show "field (journal_sector j) 0 4 = WAL_MAGIC"
    using field_at [of "[]" 0 ?m 4 "?c @ ?n @ ?r @ ?z"] b by (simp add: journal_sector_eq)
  show "field (journal_sector j) 4 8 = committed_sequence j"
    using field_at [of ?m 4 ?c 8 "?n @ ?r @ ?z"] b by (simp add: journal_sector_eq)
  show "field (journal_sector j) 12 4 = length (records j)"
    using field_at [of "?m @ ?c" 12 ?n 4 "?r @ ?z"] b by (simp add: journal_sector_eq)
  have "get_records (length (take 20 (records j))) 16 (journal_sector j) = take 20 (records j)"
    unfolding journal_sector_eq
    by (rule get_records_eq) (use assms in \<open>auto simp: journal_ok_def dest: in_set_takeD\<close>)
  then show "get_records (min (length (records j)) 20) 16 (journal_sector j) = take 20 (records j)" by simp
qed

lemma flush_to_disk_stores:
  assumes "drive_stores dr view n" and "1 < n"
  obtains d' where "flush_to_disk dr j d = (Ok (), d')" "view d' = (view d)(1 := journal_sector j)"
proof (rule drive_write [OF assms, of "journal_sector j" d])
  fix d' assume "write_sector dr 1 (journal_sector j) d = (Ok (), d')" "view d' = (view d)(1 := journal_sector j)"
  then show thesis by (intro that [of d']) (simp_all add: flush_to_disk_def)
qed simp

lemma recover_from_disk_reads:
  assumes "drive_stores dr view n" and "1 < n" and "view d 1 = journal_sector j" and "journal_ok j"
  obtains d' where "recover_from_disk dr k d =
    (Ok (min (length (records j)) 20), k\<lparr>committed_sequence := committed_sequence j, records := take 20 (records j)\<rparr>, d')"
proof -
  obtain d' where "read_sector dr 1 d = (Ok (journal_sector j), d')"
    using drive_read [OF assms(1,2), of d] unfolding assms(3) by blast
  with that show ?thesis using journal_sector_fields [OF assms(4)] by (simp add: recover_from_disk_def)
qed

subsection \<open>Properties\<close>

text \<open>
  On a drive that stores what it is given, flushing a journal and recovering it on the next boot gives back the
  committed sequence and the first twenty records exactly (all of them, when there are no more than twenty); nothing
  else of the recovering journal changes.
\<close>
theorem journal_survives_flush:
  assumes "drive_stores dr view n" and "1 < n" and "journal_ok j"
  shows "\<exists>d1 d2. flush_to_disk dr j d = (Ok (), d1) \<and>
    recover_from_disk dr k d1 =
      (Ok (min (length (records j)) 20), k\<lparr>committed_sequence := committed_sequence j, records := take 20 (records j)\<rparr>, d2)"
proof -
  obtain d1 where d1: "flush_to_disk dr j d = (Ok (), d1)" "view d1 1 = journal_sector j"
    by (rule flush_to_disk_stores [OF assms(1,2), of j d]) simp
  obtain d2 where "recover_from_disk dr k d1 =
      (Ok (min (length (records j)) 20), k\<lparr>committed_sequence := committed_sequence j, records := take 20 (records j)\<rparr>, d2)"
    by (rule recover_from_disk_reads [OF assms(1,2) d1(2) assms(3)])
  with d1(1) show ?thesis by blast
qed

definition two_records :: journal where
  "two_records = \<lparr>records = [\<lparr>op_type = AllocBlock, rec_inode_id = 7, rec_block_id = 300, rec_sequence = 1\<rparr>,
      \<lparr>op_type = Commit, rec_inode_id = 0, rec_block_id = 0, rec_sequence = 1\<rparr>], next_sequence = 2, committed_sequence = 1\<rparr>"

lemma two_records_ok: "journal_ok two_records"
  by (simp add: journal_ok_def two_records_def record_ok_def)

theorem journal_survives_flush_witness:
  "\<exists>d1 d2. flush_to_disk (ram_drive 8) two_records (\<lambda>_. []) = (Ok (), d1) \<and>
    recover_from_disk (ram_drive 8) new_journal d1 =
      (Ok 2, \<lparr>records = records two_records, next_sequence = 1, committed_sequence = 1\<rparr>, d2)"
  using journal_survives_flush [OF ram_drive_stores [of 8] _ two_records_ok, of "\<lambda>_. []" new_journal]
  by (simp add: two_records_def new_journal_def numeral_2_eq_2)

text \<open>
  Recovery returns, takes back exactly the blocks whose allocation was logged after the last commit, keeps the
  committed records only, and doing it again changes nothing: a crash during recovery is harmless.
\<close>
theorem journal_rollback_exact:
  assumes "alloc_ok a"
  shows "\<exists>m j' a'. recover_and_rollback_uncommitted j a = Some (m, j', a') \<and> alloc_ok a' \<and>
    used a' = used a - {rec_block_id r | r. r \<in> set (records j) \<and> op_type r = AllocBlock \<and> committed_sequence j < rec_sequence r} \<and>
    set (records j') = {r \<in> set (records j). rec_sequence r \<le> committed_sequence j} \<and>
    recover_and_rollback_uncommitted j' a' = Some (0, j', a')"
proof -
  let ?u = "uncommitted_allocations j" and ?j = "j\<lparr>records := filter (\<lambda>r. rec_sequence r \<le> committed_sequence j) (records j)\<rparr>"
  have "set ?u = {rec_block_id r | r. r \<in> set (records j) \<and> op_type r = AllocBlock \<and> committed_sequence j < rec_sequence r}"
    by (auto simp: uncommitted_allocations_def)
  then have f: "alloc_ok (fold give_block ?u a)" "used (fold give_block ?u a) =
      used a - {rec_block_id r | r. r \<in> set (records j) \<and> op_type r = AllocBlock \<and> committed_sequence j < rec_sequence r}"
    using blocks.fold_free [OF assms, of ?u] by simp_all
  have "uncommitted_allocations ?j = []" by (auto simp: uncommitted_allocations_def filter_empty_conv)
  then have "recover_and_rollback_uncommitted ?j (fold give_block ?u a) = Some (0, ?j, fold give_block ?u a)"
    by (simp add: recover_and_rollback_uncommitted_def)
  moreover have "recover_and_rollback_uncommitted j a = Some (length ?u, ?j, fold give_block ?u a)"
    using free_all_eq [OF assms] by (simp add: recover_and_rollback_uncommitted_def)
  moreover have "set (records ?j) = {r \<in> set (records j). rec_sequence r \<le> committed_sequence j}" by auto
  ultimately show ?thesis using f by blast
qed

theorem journal_rollback_exact_witness:
  "\<exists>m j' a'. recover_and_rollback_uncommitted two_records (new_allocator 400) = Some (m, j', a') \<and> alloc_ok a' \<and>
    used a' = used (new_allocator 400) - {rec_block_id r | r. r \<in> set (records two_records) \<and> op_type r = AllocBlock \<and>
      committed_sequence two_records < rec_sequence r} \<and>
    set (records j') = {r \<in> set (records two_records). rec_sequence r \<le> committed_sequence two_records} \<and>
    recover_and_rollback_uncommitted j' a' = Some (0, j', a')"
  by (rule journal_rollback_exact [OF new_allocator_ok]) simp

text \<open>
  A recovered journal numbers new records from 1 again although its committed sequence is higher, so an allocation
  logged and never committed after a reboot counts as committed: rollback keeps the block.
\<close>

lemma recovered_journal_misses_rollback:
  assumes drive: "drive_stores dr view n" "1 < n" and j: "journal_ok j" "1 \<le> committed_sequence j"
    and all: "\<forall>r \<in> set (records j). rec_sequence r \<le> committed_sequence j"
  shows "\<exists>d1 d2 m j1 j2 j3. flush_to_disk dr j d = (Ok (), d1) \<and> recover_from_disk dr new_journal d1 = (Ok m, j1, d2) \<and>
    log_alloc_block ino blk j1 = Some (1, j2) \<and> recover_and_rollback_uncommitted j2 a = Some (0, j3, a)"
proof -
  obtain d1 where d1: "flush_to_disk dr j d = (Ok (), d1)" "view d1 1 = journal_sector j"
    by (rule flush_to_disk_stores [OF drive, of j d]) simp
  let ?j = "new_journal\<lparr>committed_sequence := committed_sequence j, records := take 20 (records j)\<rparr>"
  obtain d2 where d2: "recover_from_disk dr new_journal d1 = (Ok (min (length (records j)) 20), ?j, d2)"
    by (rule recover_from_disk_reads [OF drive d1(2) j(1)])
  obtain j2 where j2: "log_alloc_block ino blk ?j = Some (1, j2)" "committed_sequence j2 = committed_sequence j"
    "records j2 = take 20 (records j) @ [\<lparr>op_type = AllocBlock, rec_inode_id = ino, rec_block_id = blk, rec_sequence = 1\<rparr>]"
  proof (rule that)
    let ?r = "\<lparr>op_type = AllocBlock, rec_inode_id = ino, rec_block_id = blk, rec_sequence = 1\<rparr>"
    show "log_alloc_block ino blk ?j = Some (1, ?j\<lparr>next_sequence := 2, records := take 20 (records j) @ [?r]\<rparr>)"
      by (simp add: log_alloc_block_def new_journal_def checked_add_def)
  qed simp_all
  have "uncommitted_allocations j2 = []"
    using all j(2) j2(2,3) by (auto simp: uncommitted_allocations_def filter_empty_conv dest!: in_set_takeD)
  then have "recover_and_rollback_uncommitted j2 a =
      Some (0, j2\<lparr>records := filter (\<lambda>r. rec_sequence r \<le> committed_sequence j2) (records j2)\<rparr>, a)"
    by (simp add: recover_and_rollback_uncommitted_def)
  with d1(1) d2 j2(1) show ?thesis by blast
qed

end
