(* ===== verification/Vfs.thy ===== *)
theory Vfs
  imports Vfs_Tree Procfs Spfs_Journal
begin

section \<open>The file system of the kernel\<close>

text \<open>
  The state of \<^verbatim>\<open>kernel/src/fs.rs\<close> (the tree \<^verbatim>\<open>VFS\<close>, the store of seeded binaries and the drive) and its
  operations: every change is followed by a write of the whole image to the drive. The request protocol of
  \<^verbatim>\<open>spark-abi/src/fs.rs\<close> and its dispatcher come last. The image is assumed to need fewer than 2^32 sectors, which
  the kernel's memory bounds.
\<close>

record 'd vfs =
  vroot :: fs_node
  blob_store :: "(string \<times> byte list) list"
  vdisk :: 'd

subsection \<open>The image on the drive\<close>

function write_chunks :: "'d drive \<Rightarrow> nat \<Rightarrow> byte list \<Rightarrow> 'd \<Rightarrow> 'd" where
  "write_chunks dr sec buf d =
     (if buf = [] then d
      else (case write_sector dr sec (pad_block (take 512 buf)) d of
              (Err _, d1) \<Rightarrow> d1
            | (Ok _, d1) \<Rightarrow> write_chunks dr (sec + 1) (drop 512 buf) d1))"
  by pat_completeness auto
termination by (relation "measure (\<lambda>(_, _, buf, _). length buf)") auto

declare write_chunks.simps [simp del]

definition spfs_header :: "nat \<Rightarrow> byte list" where
  "spfs_header sz = overwrite 4 (as_bytes ''SPFS'') (overwrite 0 (le_bytes 4 sz) (replicate 512 0))"

definition sync_to_disk :: "'d drive \<Rightarrow> 'd vfs \<Rightarrow> (string, unit) result \<times> 'd vfs" where
  "sync_to_disk dr v =
     (let buf = serialize (vroot v) in
      case write_sector dr 0 (spfs_header (length buf)) (vdisk v) of
        (Err _, d1) \<Rightarrow> (Ok (), v\<lparr>vdisk := d1\<rparr>)
      | (Ok _, d1) \<Rightarrow> (Ok (), v\<lparr>vdisk := write_chunks dr 1 buf d1\<rparr>))"

text \<open>The tail of every changing operation: keep the tree, then sync when it succeeded.\<close>

definition then_sync :: "'d drive \<Rightarrow> (string, 'a) result \<times> fs_node \<Rightarrow> 'd vfs \<Rightarrow> (string, 'a) result \<times> 'd vfs" where
  "then_sync dr res v =
     (case res of
        (Err e, root) \<Rightarrow> (Err e, v\<lparr>vroot := root\<rparr>)
      | (Ok x, root) \<Rightarrow>
          (case sync_to_disk dr (v\<lparr>vroot := root\<rparr>) of
             (Err e, v1) \<Rightarrow> (Err e, v1)
           | (Ok _, v1) \<Rightarrow> (Ok x, v1)))"

definition mkdir :: "'d drive \<Rightarrow> string \<Rightarrow> 'd vfs \<Rightarrow> (string, unit) result \<times> 'd vfs" where
  "mkdir dr path v = then_sync dr (mkdir_tree path (vroot v)) v"

definition write_file_bytes :: "'d drive \<Rightarrow> string \<Rightarrow> byte list \<Rightarrow> 'd vfs \<Rightarrow> (string, unit) result \<times> 'd vfs" where
  "write_file_bytes dr path content v = then_sync dr (write_file_tree path content (vroot v)) v"

definition write_file :: "'d drive \<Rightarrow> string \<Rightarrow> string \<Rightarrow> 'd vfs \<Rightarrow> (string, unit) result \<times> 'd vfs" where
  "write_file dr path content v = write_file_bytes dr path (as_bytes content) v"

definition fs_remove :: "'d drive \<Rightarrow> string \<Rightarrow> 'd vfs \<Rightarrow> (string, unit) result \<times> 'd vfs" where
  "fs_remove dr path v = then_sync dr (remove_tree path (vroot v)) v"

definition write_file_chunk ::
    "'d drive \<Rightarrow> string \<Rightarrow> nat \<Rightarrow> byte list \<Rightarrow> 'd vfs \<Rightarrow> ((string, nat) result \<times> 'd vfs) option" where
  "write_file_chunk dr path off buf v = do {
     res \<leftarrow> write_file_chunk_tree path off buf (vroot v);
     Some (then_sync dr res v)
   }"

subsection \<open>Reading\<close>

definition read_file_bytes :: "kernel_stats \<Rightarrow> string \<Rightarrow> 'd vfs \<Rightarrow> (string, byte list) result" where
  "read_file_bytes k path v =
     (if path = ''/'' then Err ''Bu bir dizin''
      else case generate_procfs_content k path of
        Some content \<Rightarrow> Ok content
      | None \<Rightarrow> lookup_file ''Bu bir dizin!'' path (vroot v))"

definition read_file :: "kernel_stats \<Rightarrow> string \<Rightarrow> 'd vfs \<Rightarrow> (string, string) result" where
  "read_file k path v = map_sum id (\<lambda>bytes. of_bytes (utf8_lossy bytes)) (read_file_bytes k path v)"

definition trim_slashes :: "string \<Rightarrow> string" where
  "trim_slashes s = rev (trim_slashes_start (rev (trim_slashes_start s)))"

definition list_dir :: "string \<Rightarrow> 'd vfs \<Rightarrow> (string, (string \<times> bool) list) result" where
  "list_dir path v =
     (let norm = trim_slashes path in
      if norm = ''proc'' then
        Ok [(''version'', False), (''cpuinfo'', False), (''meminfo'', False), (''uptime'', False), (''cmdline'', False), (''1'', True)]
      else if norm = ''dev'' then
        Ok [(''null'', False), (''zero'', False), (''ttyS0'', False), (''ata0'', False)]
      else case find_dir_ro (vroot v) path of
        None \<Rightarrow> Err ''Dizin bulunamadi''
      | Some cs \<Rightarrow>
          let l0 = map (\<lambda>c. (node_name c, node_is_dir c)) cs;
              l1 = (if norm = [] \<and> \<not> list_ex (\<lambda>(n, _). n = ''proc'') l0 then l0 @ [(''proc'', True)] else l0);
              l2 = (if norm = [] \<and> \<not> list_ex (\<lambda>(n, _). n = ''dev'') l1 then l1 @ [(''dev'', True)] else l1)
          in Ok l2)"

definition is_dir :: "string \<Rightarrow> 'd vfs \<Rightarrow> bool" where
  "is_dir path v =
     (let norm = trim_slashes path in
      if norm = [] \<or> norm = ''proc'' \<or> norm = ''dev'' \<or> norm = ''proc/1'' then True
      else find_dir_ro (vroot v) path \<noteq> None)"

definition get_file_size :: "kernel_stats \<Rightarrow> string \<Rightarrow> 'd vfs \<Rightarrow> (string, nat) result" where
  "get_file_size k path v =
     (if path = ''/'' then Err ''Bu bir dizin''
      else case generate_procfs_content k path of
        Some content \<Rightarrow> Ok (length content)
      | None \<Rightarrow> map_sum id length (lookup_file ''Bu bir dizin veya cihaz!'' path (vroot v)))"

text \<open>Copying from \<open>offset\<close> into the caller's buffer: the count and the buffer afterwards.\<close>

definition copy_chunk :: "byte list \<Rightarrow> nat \<Rightarrow> byte list \<Rightarrow> nat \<times> byte list" where
  "copy_chunk content off buf =
     (if length content \<le> off then (0, buf)
      else let n = min (length buf) (length content - off) in (n, overwrite 0 (take n (drop off content)) buf))"

definition read_file_chunk :: "kernel_stats \<Rightarrow> string \<Rightarrow> nat \<Rightarrow> byte list \<Rightarrow> 'd vfs \<Rightarrow> (string, nat) result \<times> byte list" where
  "read_file_chunk k path off buf v =
     (if path = ''/'' then (Err ''Bu bir dizin'', buf)
      else case generate_procfs_content k path of
        Some content \<Rightarrow> (let (n, b) = copy_chunk content off buf in (Ok n, b))
      | None \<Rightarrow>
          (case lookup_file ''Bu bir dizin veya cihaz!'' path (vroot v) of
             Err e \<Rightarrow> (Err e, buf)
           | Ok content \<Rightarrow> (let (n, b) = copy_chunk content off buf in (Ok n, b))))"

subsection \<open>Seeded files and boot\<close>

text \<open>All ten binaries embed the same program, the argument \<open>hello\<close> (\<^verbatim>\<open>fixtures/hello.elf\<close>).\<close>

definition SEEDED_BINARIES :: "byte list \<Rightarrow> (string \<times> byte list) list" where
  "SEEDED_BINARIES hello =
     map (\<lambda>p. (p, hello))
       [''/bin/hello'', ''/bin/echo'', ''/bin/cat'', ''/bin/ls'', ''/bin/touch'', ''/bin/mkdir'', ''/bin/rm'', ''/bin/ping'',
        ''/bin/host'', ''/bin/fetch'']"

definition SEEDED_TEXT :: "(string \<times> string) list" where
  "SEEDED_TEXT = [(''/etc/hostname'', ''sparkos'' @ [NL]), (''/etc/version'', ''0.1.0-distro'' @ [NL])]"

definition write_file_quiet :: "string \<Rightarrow> string \<Rightarrow> fs_node \<Rightarrow> (string, unit) result \<times> fs_node" where
  "write_file_quiet path content root = write_file_quiet_bytes path (as_bytes content) root"

definition is_seeded_binary :: "string \<Rightarrow> 'd vfs \<Rightarrow> bool" where
  "is_seeded_binary path v = list_ex (\<lambda>(p, _). p = path) (blob_store v)"

definition seed_blob :: "string \<times> byte list \<Rightarrow> 'd vfs \<Rightarrow> 'd vfs" where
  "seed_blob b v =
     (if is_seeded_binary (fst b) v then v
      else v\<lparr>blob_store := blob_store v @ [b], vroot := snd (write_file_quiet (fst b) [] (vroot v))\<rparr>)"

definition seed_text :: "kernel_stats \<Rightarrow> string \<times> string \<Rightarrow> 'd vfs \<Rightarrow> 'd vfs" where
  "seed_text k t v =
     (if is_ok (read_file k (fst t) v) then v
      else v\<lparr>vroot := snd (write_file_quiet (fst t) (snd t) (vroot v))\<rparr>)"

definition seed_default_files :: "byte list \<Rightarrow> kernel_stats \<Rightarrow> 'd vfs \<Rightarrow> 'd vfs" where
  "seed_default_files hello k v = fold (seed_text k) SEEDED_TEXT (fold seed_blob (SEEDED_BINARIES hello) v)"

definition init_default_fs :: "'d drive \<Rightarrow> byte list \<Rightarrow> kernel_stats \<Rightarrow> 'd vfs \<Rightarrow> 'd vfs" where
  "init_default_fs dr hello k v =
     seed_default_files hello k
       (fold (\<lambda>p v. snd (mkdir dr p v)) [''/bin'', ''/etc'', ''/home'', ''/sys'', ''/proc'', ''/dev''] v)"

fun read_sectors :: "'d drive \<Rightarrow> nat \<Rightarrow> nat \<Rightarrow> 'd \<Rightarrow> byte list \<times> 'd" where
  "read_sectors dr i 0 d = ([], d)"
| "read_sectors dr i (Suc m) d =
     (let (r, d1) = read_sector dr (1 + i) d;
          (rest, d2) = read_sectors dr (i + 1) m d1
      in ((case r of Ok s \<Rightarrow> s | Err _ \<Rightarrow> replicate 512 0) @ rest, d2))"

definition load_from_disk :: "'d drive \<Rightarrow> byte list \<Rightarrow> kernel_stats \<Rightarrow> 'd vfs \<Rightarrow> 'd vfs option" where
  "load_from_disk dr hello k v =
     (case read_sector dr 0 (vdisk v) of
        (Err _, d1) \<Rightarrow> Some (init_default_fs dr hello k (v\<lparr>vdisk := d1\<rparr>))
      | (Ok _, d1) \<Rightarrow>
          (case read_sector dr 0 d1 of
             (Err _, d2) \<Rightarrow> Some (init_default_fs dr hello k (v\<lparr>vdisk := d2\<rparr>))
           | (Ok header, d2) \<Rightarrow>
               let sz = field header 0 4 in
               if take 4 (drop 4 header) \<noteq> as_bytes ''SPFS'' \<or> sz = 0 \<or> 10 * 1024 * 1024 < sz
               then Some (init_default_fs dr hello k (v\<lparr>vdisk := d2\<rparr>))
               else let (data, d3) = read_sectors dr 0 ((sz + 511) div 512) d2 in do {
                 (node, off) \<leftarrow> deserialize (take sz data) 0;
                 Some (seed_default_files hello k
                   (v\<lparr>vdisk := d3, vroot := (case node of Some nd \<Rightarrow> nd | None \<Rightarrow> vroot v)\<rparr>))
               }))"

subsection \<open>Programs by full path\<close>

definition read_file_from_path :: "kernel_stats \<Rightarrow> string \<Rightarrow> 'd vfs \<Rightarrow> (string, byte list) result" where
  "read_file_from_path k path v =
     (let norm = resolve_path ''/'' path in
      case find (\<lambda>(p, _). p = norm) (blob_store v) of
        Some (_, bytes) \<Rightarrow> Ok bytes
      | None \<Rightarrow> map_sum id as_bytes (read_file k norm v))"

definition file_exists :: "kernel_stats \<Rightarrow> string \<Rightarrow> 'd vfs \<Rightarrow> bool" where
  "file_exists k path v =
     (if is_seeded_binary path v then True else if is_dir path v then True else is_ok (read_file k path v))"

definition read_file_from_path_chunk ::
    "kernel_stats \<Rightarrow> string \<Rightarrow> nat \<Rightarrow> byte list \<Rightarrow> 'd vfs \<Rightarrow> (string, nat) result \<times> byte list" where
  "read_file_from_path_chunk k path off buf v =
     (case read_file_from_path k path v of
        Err e \<Rightarrow> (Err e, buf)
      | Ok bytes \<Rightarrow> (let (n, b) = copy_chunk bytes off buf in (Ok n, b)))"

definition get_file_size_from_path :: "kernel_stats \<Rightarrow> string \<Rightarrow> 'd vfs \<Rightarrow> (string, nat) result" where
  "get_file_size_from_path k path v = map_sum id length (read_file_from_path k path v)"

subsection \<open>The image survives a reboot\<close>

lemma length_pad_block: "length c \<le> 512 \<Longrightarrow> length (pad_block c) = 512"
  by (simp add: pad_block_def BLOCK_SIZE_def)

abbreviation sectors_for :: "byte list \<Rightarrow> nat" where
  "sectors_for buf \<equiv> (length buf + 511) div 512"

lemma sectors_for_step: "buf \<noteq> [] \<Longrightarrow> sectors_for buf = Suc (sectors_for (drop 512 buf))"
  by (cases "length buf \<le> 512") (auto simp: div_if)

lemma write_chunks_view:
  assumes "drive_stores dr view n" and "sec + sectors_for buf \<le> n"
  shows "view (write_chunks dr sec buf d) l =
    (if sec \<le> l \<and> l < sec + sectors_for buf then pad_block (take 512 (drop (512 * (l - sec)) buf)) else view d l)"
  using assms(2)
proof (induction "length buf" arbitrary: buf sec d rule: less_induct)
  case less
  show ?case
  proof (cases "buf = []")
    case False
    note st = sectors_for_step [OF False]
    obtain d1 where d1: "write_sector dr sec (pad_block (take 512 buf)) d = (Ok (), d1)"
      "view d1 = (view d)(sec := pad_block (take 512 buf))"
      by (rule drive_write [OF assms(1), of sec "pad_block (take 512 buf)" d]) (use less.prems st in \<open>simp_all add: length_pad_block\<close>)
    have "view (write_chunks dr (sec + 1) (drop 512 buf) d1) l =
      (if sec + 1 \<le> l \<and> l < sec + 1 + sectors_for (drop 512 buf)
       then pad_block (take 512 (drop (512 * (l - (sec + 1))) (drop 512 buf))) else view d1 l)"
      by (rule less.hyps) (use False less.prems st in simp_all)
    moreover have "sec + 1 \<le> l \<Longrightarrow> drop (512 * (l - (sec + 1))) (drop 512 buf) = drop (512 * (l - sec)) buf"
      by (cases l) (auto simp: algebra_simps Suc_diff_le)
    moreover have "write_chunks dr sec buf d = write_chunks dr (sec + 1) (drop 512 buf) d1"
      using False d1(1) by (subst write_chunks.simps) simp
    ultimately show ?thesis using d1(2) st by (cases "l = sec") auto
  qed (auto simp: write_chunks.simps)
qed

lemma read_sectors_view:
  assumes "drive_stores dr view n" and "1 + i + m \<le> n"
  shows "\<exists>d'. read_sectors dr i m d = (concat (map (\<lambda>j. view d (1 + i + j)) [0..<m]), d') \<and> view d' = view d"
  using assms(2)
proof (induction m arbitrary: i d)
  case (Suc m)
  obtain d1 where d1: "read_sector dr (1 + i) d = (Ok (view d (1 + i)), d1)" "view d1 = view d"
    by (rule drive_read [OF assms(1), of "1 + i" d]) (use Suc.prems in simp)
  obtain d2 where d2: "read_sectors dr (i + 1) m d1 = (concat (map (\<lambda>j. view d1 (1 + (i + 1) + j)) [0..<m]), d2)" "view d2 = view d1"
    using Suc.IH [of "i + 1" d1] Suc.prems by auto
  have "[0..<Suc m] = 0 # map Suc [0..<m]" by (simp add: upt_conv_Cons map_Suc_upt del: upt_Suc)
  then have "concat (map (\<lambda>j. view d (1 + i + j)) [0..<Suc m]) = view d (1 + i) @ concat (map (\<lambda>j. view d (1 + (i + 1) + j)) [0..<m])"
    by (simp add: comp_def del: upt_Suc)
  then show ?case using d1 d2 by (simp del: upt_Suc)
qed simp

text \<open>The drive after a sync: the header, then the image; and what booting from such a drive reads.\<close>

definition holds_image :: "(nat \<Rightarrow> byte list) \<Rightarrow> byte list \<Rightarrow> bool" where
  "holds_image secs buf \<longleftrightarrow> secs 0 = spfs_header (length buf) \<and>
     (\<forall>i < sectors_for buf. secs (1 + i) = pad_block (take 512 (drop (512 * i) buf)))"

lemma spfs_header_eq:
  "spfs_header sz = le_bytes 4 sz @ as_bytes ''SPFS'' @ replicate 504 0"
proof -
  have "overwrite 0 (le_bytes 4 sz) (replicate 512 0) = le_bytes 4 sz @ replicate 508 0" by (simp add: overwrite_def)
  moreover have "overwrite 4 (as_bytes ''SPFS'') (le_bytes 4 sz @ replicate 508 0) = le_bytes 4 sz @ as_bytes ''SPFS'' @ replicate 504 0"
    by (subst overwrite_prefix) simp_all
  ultimately show ?thesis by (simp add: spfs_header_def)
qed

lemma spfs_header_fields:
  "sz < 2 ^ 32 \<Longrightarrow> field (spfs_header sz) 0 4 = sz" "take 4 (drop 4 (spfs_header sz)) = as_bytes ''SPFS''"
  "length (spfs_header sz) = 512"
  by (simp_all add: spfs_header_eq field_def as_bytes_def)

lemma sync_holds_image:
  assumes dr: "drive_stores dr view n" and room: "1 + sectors_for (serialize (vroot v)) \<le> n"
  obtains d where "sync_to_disk dr v = (Ok (), v\<lparr>vdisk := d\<rparr>)" "holds_image (view d) (serialize (vroot v))"
proof -
  let ?buf = "serialize (vroot v)"
  obtain d1 where d1: "write_sector dr 0 (spfs_header (length ?buf)) (vdisk v) = (Ok (), d1)"
    "view d1 = (view (vdisk v))(0 := spfs_header (length ?buf))"
    by (rule drive_write [OF dr, of 0 "spfs_header (length ?buf)" "vdisk v"]) (use room in \<open>simp_all add: spfs_header_fields\<close>)
  show ?thesis
  proof (rule that)
    show "sync_to_disk dr v = (Ok (), v\<lparr>vdisk := write_chunks dr 1 ?buf d1\<rparr>)" using d1(1) by (simp add: sync_to_disk_def)
    show "holds_image (view (write_chunks dr 1 ?buf d1)) ?buf"
      using write_chunks_view [OF dr room, of d1] d1(2) by (simp add: holds_image_def)
  qed
qed

text \<open>Booting when the header is that of an image of \<open>sz\<close> bytes.\<close>

lemma load_with_header:
  assumes dr: "drive_stores dr view n" and hdr: "view (vdisk v) 0 = spfs_header sz"
    and sz: "0 < sz" "sz \<le> 10 * 1024 * 1024" "1 + (sz + 511) div 512 \<le> n"
  obtains d where "view d = view (vdisk v)" "load_from_disk dr hello k v =
    do { (node, off) \<leftarrow> deserialize (take sz (concat (map (\<lambda>j. view (vdisk v) (1 + j)) [0..<(sz + 511) div 512]))) 0;
         Some (seed_default_files hello k (v\<lparr>vdisk := d, vroot := (case node of Some nd \<Rightarrow> nd | None \<Rightarrow> vroot v)\<rparr>)) }"
proof -
  have n: "0 < n" using sz(3) by simp
  obtain d1 where d1: "read_sector dr 0 (vdisk v) = (Ok (spfs_header sz), d1)" "view d1 = view (vdisk v)"
    by (rule drive_read [OF dr n, of "vdisk v"]) (simp add: hdr)
  obtain d2 where d2: "read_sector dr 0 d1 = (Ok (spfs_header sz), d2)" "view d2 = view (vdisk v)"
    by (rule drive_read [OF dr n, of d1]) (simp add: hdr d1(2))
  obtain d3 where d3: "read_sectors dr 0 ((sz + 511) div 512) d2 =
      (concat (map (\<lambda>j. view (vdisk v) (1 + j)) [0..<(sz + 511) div 512]), d3)" "view d3 = view (vdisk v)"
    using read_sectors_view [OF dr, of 0 "(sz + 511) div 512" d2] sz(3) d2(2) by auto
  have "field (spfs_header sz) 0 4 = sz" using spfs_header_fields(1) [of sz] sz(2) by simp
  then show ?thesis
    using that [OF d3(2)] d1(1) d2(1) d3(1) sz(1,2) by (simp add: load_from_disk_def spfs_header_fields(2))
qed

lemma image_read_back:
  assumes "holds_image secs buf"
  shows "take (length buf) (concat (map (\<lambda>j. secs (1 + j)) [0..<sectors_for buf])) = buf"
proof -
  have "map (\<lambda>j. secs (1 + j)) [0..<sectors_for buf] = map (\<lambda>k. pad_block (take 512 (drop (512 * k) buf))) [0..<sectors_for buf]"
    using assms by (auto simp: holds_image_def)
  then show ?thesis using concat_blocks [of buf] by (simp only:)
qed

text \<open>The first sector of the image, when it was replaced by another.\<close>

lemma first_byte_after:
  assumes "secs 1 = s" and "s \<noteq> []" and "0 < sz"
  shows "take sz (concat (map (\<lambda>j. secs (1 + j)) [0..<(sz + 511) div 512])) \<noteq> []"
    and "take sz (concat (map (\<lambda>j. secs (1 + j)) [0..<(sz + 511) div 512])) ! 0 = s ! 0"
proof -
  obtain m where m: "(sz + 511) div 512 = Suc m" using assms(3) by (cases "(sz + 511) div 512") auto
  have "[0..<Suc m] = 0 # [1..<Suc m]" by (simp add: upt_conv_Cons del: upt_Suc)
  then show "take sz (concat (map (\<lambda>j. secs (1 + j)) [0..<(sz + 511) div 512])) \<noteq> []"
    "take sz (concat (map (\<lambda>j. secs (1 + j)) [0..<(sz + 511) div 512])) ! 0 = s ! 0"
    unfolding m using assms by (simp_all add: nth_append del: upt_Suc)
qed

lemma deserialize_other: "data \<noteq> [] \<Longrightarrow> data ! 0 \<notin> {1, 2, 3} \<Longrightarrow> deserialize data 0 = Some (None, 1)"
  by (simp add: deserialize_def)

text \<open>
  What an image keeps of a path: everything but \<^verbatim>\<open>/proc\<close> and \<^verbatim>\<open>/dev\<close>, and but what lies inside a directory
  that is called \<^verbatim>\<open>proc\<close> or \<^verbatim>\<open>dev\<close>, wherever it is.
\<close>

definition not_saved :: "string list \<Rightarrow> bool" where
  "not_saved ps \<longleftrightarrow> ps \<noteq> [] \<and> (synthetic (hd ps) \<or> (\<exists>p \<in> set (butlast ps). synthetic p))"

lemma node_name_strip [simp]: "node_name (strip nd) = node_name nd"
  by (cases nd) simp_all

lemma kids_strip: "kids (map strip cs) p = map_option strip (kids cs p)"
  by (induction cs) auto

lemma kids_saved: "kids (saved_children n cs) p = (if n = ''/'' \<and> synthetic p then None else kids cs p)"
  by (induction cs) (auto simp: saved_children_def)

lemma strip_node_at:
  "tree_ok nd \<Longrightarrow> node_name nd \<noteq> ''/'' \<Longrightarrow>
   node_at (strip nd) ps = (if \<exists>p \<in> set (butlast (node_name nd # ps)). synthetic p then None else map_option strip (node_at nd ps))"
proof (induction ps arbitrary: nd)
  case (Cons p ps)
  show ?case
  proof (cases nd)
    case (Directory n cs)
    show ?thesis
    proof (cases "kids cs p")
      case None
      then show ?thesis using Directory Cons.prems by (simp add: kids_strip kids_saved del: map_map)
    next
      case (Some c)
      then have c: "c \<in> set cs" "node_name c = p" using kids_in by blast+
      then have "tree_ok c" "node_name c \<noteq> ''/''" using Cons.prems Directory by (auto simp: good_name_def SLASH_def)
      then show ?thesis using Cons.IH [of c] Cons.prems Directory Some c(2) by (cases ps) (auto simp: kids_strip kids_saved simp del: map_map)
    qed
  qed simp_all
qed simp

lemma entry_of_strip [simp]: "entry_of (strip nd) = entry_of nd"
  by (cases nd) simp_all

lemma strip_view:
  assumes "root_ok root" and "node_name root = ''/''"
  shows "tree_view (strip root) ps = (if not_saved ps then None else tree_view root ps)"
proof (cases ps)
  case (Cons p qs)
  obtain cs where root: "root = Directory ''/'' cs" using assms by (cases root) (auto simp: root_ok_def)
  show ?thesis
  proof (cases "kids cs p")
    case None
    then show ?thesis using Cons root by (simp add: tree_view_def kids_strip kids_saved synthetic_def del: map_map)
  next
    case (Some c)
    then have c: "c \<in> set cs" "node_name c = p" using kids_in by blast+
    then have "tree_ok c" "node_name c \<noteq> ''/''" using assms root by (auto simp: root_ok_def good_name_def SLASH_def)
    then show ?thesis using strip_node_at [of c qs] Some c(2) Cons root
      by (cases qs) (auto simp: tree_view_def kids_strip kids_saved not_saved_def synthetic_def option.map_comp comp_def simp del: map_map)
  qed
qed (simp add: not_saved_def tree_view_def)

subsection \<open>Properties\<close>

text \<open>
  C37. What is synced is what the next boot loads, up to one exception: on a drive that stores what it is given and is large
  enough, booting after a sync returns, and mounts, before the default files are seeded into it and whatever the tree in memory
  was at boot, the tree that was synced with each path holding the same entry, file contents included; missing are
  \<^verbatim>\<open>/proc\<close>, \<^verbatim>\<open>/dev\<close> and everything inside a directory called \<^verbatim>\<open>proc\<close> or \<^verbatim>\<open>dev\<close> at any depth, which
  comes back empty (so files under \<^verbatim>\<open>/home/dev\<close> are lost). The tree must fit the format and 10 MiB.
\<close>
theorem sync_survives_reboot:
  assumes "drive_stores dr view n" and "node_fits (vroot v)" and "length (serialize (vroot v)) \<le> 10 * 1024 * 1024"
    and "1 + sectors_for (serialize (vroot v)) \<le> n"
  shows "\<exists>d d' t. sync_to_disk dr v = (Ok (), v\<lparr>vdisk := d\<rparr>) \<and> view d' = view d \<and>
    load_from_disk dr hello k (w\<lparr>vdisk := d\<rparr>) = Some (seed_default_files hello k (w\<lparr>vdisk := d', vroot := t\<rparr>)) \<and>
    t = strip (vroot v) \<and>
    (root_ok (vroot v) \<and> node_name (vroot v) = ''/'' \<longrightarrow>
      (\<forall>ps. tree_view t ps = (if not_saved ps then None else tree_view (vroot v) ps)))"
proof -
  let ?buf = "serialize (vroot v)"
  obtain d where d: "sync_to_disk dr v = (Ok (), v\<lparr>vdisk := d\<rparr>)" "holds_image (view d) ?buf"
    by (rule sync_holds_image [OF assms(1,4)])
  have hdr: "view (vdisk (w\<lparr>vdisk := d\<rparr>)) 0 = spfs_header (length ?buf)" using d(2) by (simp add: holds_image_def)
  obtain d' where "view d' = view (vdisk (w\<lparr>vdisk := d\<rparr>))"
    "load_from_disk dr hello k (w\<lparr>vdisk := d\<rparr>) =
      do { (node, off) \<leftarrow> deserialize (take (length ?buf) (concat (map (\<lambda>j. view (vdisk (w\<lparr>vdisk := d\<rparr>)) (1 + j)) [0..<sectors_for ?buf]))) 0;
           Some (seed_default_files hello k (w\<lparr>vdisk := d, vdisk := d', vroot := (case node of Some nd \<Rightarrow> nd | None \<Rightarrow> vroot (w\<lparr>vdisk := d\<rparr>))\<rparr>)) }"
    by (rule load_with_header [OF assms(1) hdr length_serialize_pos assms(3,4)])
  with d image_read_back [OF d(2)] image_roundtrip [OF assms(2), of "[]"] strip_view [of "vroot v"] show ?thesis
    by (intro exI [of _ d] exI [of _ d'] exI [of _ "strip (vroot v)"]) simp
qed

text \<open>
  The journal and the image share sector 1: flushing the journal after a sync destroys the first sector of the
  image, and the next boot, which returns, finds no node there and keeps the tree it started with: the whole synced
  tree is lost, whatever it was.
\<close>
theorem journal_flush_loses_tree:
  assumes "drive_stores dr view n" and "length (serialize (vroot v)) \<le> 10 * 1024 * 1024"
    and "1 + sectors_for (serialize (vroot v)) \<le> n"
  shows "\<exists>d1 d2 d3. sync_to_disk dr v = (Ok (), v\<lparr>vdisk := d1\<rparr>) \<and> flush_to_disk dr j d1 = (Ok (), d2) \<and>
    load_from_disk dr hello k (w\<lparr>vdisk := d2\<rparr>) = Some (seed_default_files hello k (w\<lparr>vdisk := d3\<rparr>))"
proof -
  let ?buf = "serialize (vroot v)"
  have pos: "0 < length ?buf" by (rule length_serialize_pos)
  then have n: "1 < n" using assms(3) by (cases "sectors_for ?buf") (auto simp: div_if)
  obtain d1 where d1: "sync_to_disk dr v = (Ok (), v\<lparr>vdisk := d1\<rparr>)" "holds_image (view d1) ?buf"
    by (rule sync_holds_image [OF assms(1,3)])
  obtain d2 where d2: "flush_to_disk dr j d1 = (Ok (), d2)" "view d2 = (view d1)(1 := journal_sector j)"
    by (rule flush_to_disk_stores [OF assms(1) n, of j d1])
  have hdr: "view (vdisk (w\<lparr>vdisk := d2\<rparr>)) 0 = spfs_header (length ?buf)" using d1(2) d2(2) by (simp add: holds_image_def)
  obtain d3 where d3: "load_from_disk dr hello k (w\<lparr>vdisk := d2\<rparr>) =
      do { (node, off) \<leftarrow> deserialize (take (length ?buf) (concat (map (\<lambda>j. view (vdisk (w\<lparr>vdisk := d2\<rparr>)) (1 + j)) [0..<sectors_for ?buf]))) 0;
           Some (seed_default_files hello k (w\<lparr>vdisk := d2, vdisk := d3, vroot := (case node of Some nd \<Rightarrow> nd | None \<Rightarrow> vroot (w\<lparr>vdisk := d2\<rparr>))\<rparr>)) }"
    by (rule load_with_header [OF assms(1) hdr pos assms(2,3)])
  let ?data = "take (length ?buf) (concat (map (\<lambda>j. view d2 (1 + j)) [0..<sectors_for ?buf]))"
  have s: "view d2 1 = journal_sector j" using d2(2) by simp
  have "le_bytes (Suc 3) WAL_MAGIC = 0x31 # le_bytes 3 (WAL_MAGIC div 256)" by (simp only: le_bytes.simps) (simp add: WAL_MAGIC_def)
  then have j0: "journal_sector j ! 0 = 0x31" by (simp add: journal_sector_eq)
  have js: "journal_sector j \<noteq> []" using length_journal_sector [of j] by fastforce
  note first = first_byte_after [where secs = "view d2", OF s js pos]
  have ne: "?data \<noteq> []" by (rule first(1))
  have b: "?data ! 0 = 0x31" by (rule trans [OF first(2) j0])
  have "deserialize ?data 0 = Some (None, 1)" by (rule deserialize_other [OF ne]) (unfold b, simp)
  with d1(1) d2(1) d3 show ?thesis by (intro exI [of _ d1] exI [of _ d2] exI [of _ d3]) simp
qed

text \<open>A file system with one directory and one file on an in-memory drive, for the witnesses.\<close>

definition sample_vfs :: "(nat \<Rightarrow> byte list) vfs" where
  "sample_vfs = \<lparr>vroot = Directory ''/'' [Directory ''etc'' [File ''motd'' [104, 105]]], blob_store = [], vdisk = (\<lambda>_. [])\<rparr>"

definition idle_stats :: kernel_stats where
  "idle_stats = \<lparr>alloc_bytes = 0, total_bytes = 0, ticks = 0, snapshots = []\<rparr>"

lemma sample_vfs_ok:
  "node_fits (vroot sample_vfs)" "strip (vroot sample_vfs) = vroot sample_vfs" "length (serialize (vroot sample_vfs)) = 37"
  "root_ok (vroot sample_vfs)"
  by (simp_all add: sample_vfs_def name_ok_def ascii_utf8 synthetic_def saved_children_def name_bytes_def root_ok_def good_name_def SLASH_def)

text \<open>A file of the user's under \<^verbatim>\<open>/home/dev\<close>.\<close>

definition home_vfs :: "(nat \<Rightarrow> byte list) vfs" where
  "home_vfs = \<lparr>vroot = Directory ''/'' [Directory ''etc'' [File ''motd'' [104, 105]], Directory ''home'' [Directory ''dev'' [File ''a.c'' [59]]]],
     blob_store = [], vdisk = (\<lambda>_. [])\<rparr>"

lemma home_vfs_ok:
  "node_fits (vroot home_vfs)" "length (serialize (vroot home_vfs)) = 62" "root_ok (vroot home_vfs)" "node_name (vroot home_vfs) = ''/''"
  by (simp_all add: home_vfs_def name_ok_def ascii_utf8 synthetic_def saved_children_def name_bytes_def root_ok_def good_name_def SLASH_def)

theorem sync_survives_reboot_witness:
  "\<exists>d t. sync_to_disk (ram_drive 8) home_vfs = (Ok (), home_vfs\<lparr>vdisk := d\<rparr>) \<and>
    load_from_disk (ram_drive 8) [] idle_stats (sample_vfs\<lparr>vdisk := d\<rparr>) = Some (seed_default_files [] idle_stats (sample_vfs\<lparr>vdisk := d, vroot := t\<rparr>)) \<and>
    tree_view t [''etc'', ''motd''] = Some (EFile [104, 105]) \<and> tree_view t [''home'', ''dev''] = Some EDir"
proof -
  obtain d where d: "sync_to_disk (ram_drive 8) home_vfs = (Ok (), home_vfs\<lparr>vdisk := d\<rparr>)"
    "load_from_disk (ram_drive 8) [] idle_stats (sample_vfs\<lparr>vdisk := d\<rparr>) =
      Some (seed_default_files [] idle_stats (sample_vfs\<lparr>vdisk := d, vroot := strip (vroot home_vfs)\<rparr>))"
    "\<And>ps. tree_view (strip (vroot home_vfs)) ps = (if not_saved ps then None else tree_view (vroot home_vfs) ps)"
    using sync_survives_reboot [OF ram_drive_stores [of 8] home_vfs_ok(1), of "[]" idle_stats sample_vfs]
    by (simp add: home_vfs_ok(2-4)) metis
  have "tree_view (strip (vroot home_vfs)) [''etc'', ''motd''] = Some (EFile [104, 105])"
    "tree_view (strip (vroot home_vfs)) [''home'', ''dev''] = Some EDir"
    by (simp_all add: d(3) not_saved_def synthetic_def) (simp_all add: tree_view_def home_vfs_def)
  with d(1,2) show ?thesis by blast
qed

text \<open>The exception is a loss: the file in \<^verbatim>\<open>/home/dev\<close> is there before the reboot and in no entry of the tree after it.\<close>

lemma home_dev_lost:
  "tree_view (vroot home_vfs) [''home'', ''dev'', ''a.c''] = Some (EFile [59])"
  "deserialize (serialize (vroot home_vfs)) 0 = Some (Some (strip (vroot home_vfs)), 62)"
  "tree_view (strip (vroot home_vfs)) [''home'', ''dev'', ''a.c''] = None"
proof -
  show "deserialize (serialize (vroot home_vfs)) 0 = Some (Some (strip (vroot home_vfs)), 62)"
    using image_roundtrip [OF home_vfs_ok(1), of "[]"] home_vfs_ok(2) by simp
  show "tree_view (strip (vroot home_vfs)) [''home'', ''dev'', ''a.c''] = None"
    by (simp add: strip_view [OF home_vfs_ok(3,4)] not_saved_def synthetic_def)
qed (simp add: tree_view_def home_vfs_def)

theorem journal_flush_loses_tree_witness:
  "\<exists>d1 d2 d3. sync_to_disk (ram_drive 8) sample_vfs = (Ok (), sample_vfs\<lparr>vdisk := d1\<rparr>) \<and>
    flush_to_disk (ram_drive 8) new_journal d1 = (Ok (), d2) \<and>
    load_from_disk (ram_drive 8) [] idle_stats (sample_vfs\<lparr>vroot := empty_root, vdisk := d2\<rparr>) =
      Some (seed_default_files [] idle_stats (sample_vfs\<lparr>vroot := empty_root, vdisk := d3\<rparr>))"
  using journal_flush_loses_tree [OF ram_drive_stores [of 8], of sample_vfs new_journal "[]" idle_stats "sample_vfs\<lparr>vroot := empty_root\<rparr>"]
    sample_vfs_ok(3) by simp

lemma sync_always_ok: "\<exists>d. sync_to_disk dr v = (Ok (), v\<lparr>vdisk := d\<rparr>)"
  by (cases "write_sector dr 0 (spfs_header (length (serialize (vroot v)))) (vdisk v)")
    (auto simp: sync_to_disk_def split: sum.splits)

lemma then_sync_simps [simp]:
  "fst (then_sync dr res v) = fst res" "vroot (snd (then_sync dr res v)) = snd res"
  "blob_store (snd (then_sync dr res v)) = blob_store v"
proof (atomize (full), cases res)
  case (Pair r root)
  obtain d where "sync_to_disk dr (v\<lparr>vroot := root\<rparr>) = (Ok (), v\<lparr>vroot := root, vdisk := d\<rparr>)"
    using sync_always_ok [of dr "v\<lparr>vroot := root\<rparr>"] by auto
  with Pair show "fst (then_sync dr res v) = fst res \<and> vroot (snd (then_sync dr res v)) = snd res \<and>
      blob_store (snd (then_sync dr res v)) = blob_store v"
    by (cases r) (simp_all add: then_sync_def)
qed

lemma read_file_bytes_spec:
  assumes "root_ok (vroot v)" and "generate_procfs_content k path = None"
  shows "read_file_bytes k path v = Ok c \<longleftrightarrow> path_parts path \<noteq> [] \<and> tree_view (vroot v) (path_parts path) = Some (EFile c)"
proof (cases "path = ''/''")
  case True
  then show ?thesis by (simp add: read_file_bytes_def path_parts_def SLASH_def)
next
  case False
  then show ?thesis using assms lookup_file_spec [OF assms(1)] by (simp add: read_file_bytes_def)
qed

lemma write_ok_view:
  assumes "root_ok (vroot v)" and "write_file_bytes dr path c v = (Ok (), w)"
  shows "root_ok (vroot w)" and "tree_view (vroot w) = (tree_view (vroot v))(path_parts path \<mapsto> EFile c)" and "path_parts path \<noteq> []"
    and "tree_view (vroot v) (butlast (path_parts path)) = Some EDir" and "\<not> no_file (tree_view (vroot v) (path_parts path))"
proof -
  have "fst (write_file_tree path c (vroot v)) = Ok ()" "vroot w = snd (write_file_tree path c (vroot v))"
    using assms(2) then_sync_simps [of dr "write_file_tree path c (vroot v)" v] by (simp_all add: write_file_bytes_def)
  then show "root_ok (vroot w)" "tree_view (vroot w) = (tree_view (vroot v))(path_parts path \<mapsto> EFile c)" "path_parts path \<noteq> []"
    "tree_view (vroot v) (butlast (path_parts path)) = Some EDir" "\<not> no_file (tree_view (vroot v) (path_parts path))"
    using write_file_tree_implements [OF assms(1), of path c] by (simp_all add: implements_def spec_write_def split: if_splits)
qed

text \<open>
  A file written is read back byte for byte and with its size, every other path (outside \<^verbatim>\<open>/proc\<close>, which shadows
  the tree) still reads as it did before, and the tree stays well formed.
\<close>
theorem vfs_write_read:
  assumes "root_ok (vroot v)" and "write_file_bytes dr path c v = (Ok (), w)" and "generate_procfs_content k path = None"
  shows "root_ok (vroot w) \<and> read_file_bytes k path w = Ok c \<and> get_file_size k path w = Ok (length c) \<and>
    (\<forall>q d. path_parts q \<noteq> path_parts path \<longrightarrow> (read_file_bytes k q w = Ok d \<longleftrightarrow> read_file_bytes k q v = Ok d))"
proof -
  note wr = write_ok_view [OF assms(1,2)]
  have "path \<noteq> ''/''" using wr(3) by (auto simp: path_parts_def SLASH_def)
  moreover have "lookup_file m path (vroot w) = Ok c" for m using lookup_file_spec [OF wr(1)] wr(2,3) by simp
  ultimately have "read_file_bytes k path w = Ok c" "get_file_size k path w = Ok (length c)"
    using assms(3) by (simp_all add: read_file_bytes_def get_file_size_def)
  moreover have "read_file_bytes k q w = Ok d \<longleftrightarrow> read_file_bytes k q v = Ok d" if "path_parts q \<noteq> path_parts path" for q d
  proof (cases "generate_procfs_content k q")
    case None
    then show ?thesis using read_file_bytes_spec [OF wr(1) None] read_file_bytes_spec [OF assms(1) None] wr(2) that by simp
  next
    case (Some x)
    then show ?thesis by (simp add: read_file_bytes_def)
  qed
  ultimately show ?thesis using wr(1) by simp
qed

lemma sample_write: "\<exists>w. write_file_bytes (ram_drive 8) ''/etc/x'' [1, 2, 3] sample_vfs = (Ok (), w)"
proof -
  let ?r = "write_file_bytes (ram_drive 8) ''/etc/x'' [1, 2, 3] sample_vfs"
  have "fst ?r = Ok ()"
    by (simp add: write_file_bytes_def write_file_tree_def sample_vfs_def parent_of_def path_parts_def SLASH_def join_parts_def
      find_dir_def dir_named_def child_index_def)
  then show ?thesis by (cases ?r) simp
qed

lemma sample_not_proc: "generate_procfs_content k ''/etc/x'' = None"
  by (simp add: generate_procfs_content_def trim_slashes_start_def starts_with_def SLASH_def)

theorem vfs_write_read_witness:
  "\<exists>w. write_file_bytes (ram_drive 8) ''/etc/x'' [1, 2, 3] sample_vfs = (Ok (), w) \<and>
    root_ok (vroot w) \<and> read_file_bytes idle_stats ''/etc/x'' w = Ok [1, 2, 3] \<and> get_file_size idle_stats ''/etc/x'' w = Ok 3 \<and>
    (\<forall>q d. path_parts q \<noteq> path_parts ''/etc/x'' \<longrightarrow>
      (read_file_bytes idle_stats q w = Ok d \<longleftrightarrow> read_file_bytes idle_stats q sample_vfs = Ok d))"
proof -
  obtain w where w: "write_file_bytes (ram_drive 8) ''/etc/x'' [1, 2, 3] sample_vfs = (Ok (), w)" using sample_write by blast
  from vfs_write_read [OF sample_vfs_ok(4) w sample_not_proc] w show ?thesis by simp
qed

text \<open>
  A chunk written at any offset is read back from that offset, whatever the file was: the write returns the
  length of the chunk, bytes before the offset are kept, and a gap after the old end reads as zeros.
\<close>
theorem vfs_chunk_roundtrip:
  assumes "root_ok (vroot v)" and "off + length buf < 2 ^ 63" and "generate_procfs_content k path = None"
    and "write_file_chunk dr path off buf v = Some (Ok n, w)"
  shows "n = length buf \<and> read_file_chunk k path off (replicate (length buf) 0) w = (Ok (length buf), buf) \<and>
    (\<forall>old. read_file_bytes k path v = Ok old \<longrightarrow>
       (\<exists>new. read_file_bytes k path w = Ok new \<and> take off new = take off (old @ replicate off 0)))"
proof -
  obtain res where res: "write_file_chunk_tree path off buf (vroot v) = Some res"
    "implements res (spec_write (path_parts path) (patch_content off buf) (tree_view (vroot v))) (vroot v)"
    using write_file_chunk_tree_implements [OF assms(1,2)] by blast
  have r: "fst res = Ok n" "vroot w = snd res"
    using assms(4) res(1) then_sync_simps [of dr res v] by (auto simp: write_file_chunk_def)
  have n: "n = length buf" using res(1) r(1)
    by (cases res) (auto simp: write_file_chunk_tree_def bind_eq_Some_conv split: if_splits option.splits fs_node.splits)
  define old where "old = (case tree_view (vroot v) (path_parts path) of Some (EFile c) \<Rightarrow> c | _ \<Rightarrow> [])"
  let ?new = "patch_content off buf old"
  have t: "root_ok (vroot w)" "tree_view (vroot w) = (tree_view (vroot v))(path_parts path \<mapsto> EFile ?new)" "path_parts path \<noteq> []"
    using res(2) r by (simp_all add: implements_def spec_write_def old_def split: if_splits)
  have ne: "path \<noteq> ''/''" using t(3) by (auto simp: path_parts_def SLASH_def)
  have look: "lookup_file m path (vroot w) = Ok ?new" for m using lookup_file_spec [OF t(1)] t(2,3) by simp
  have len: "off + length buf \<le> length ?new" and mid: "take (length buf) (drop off ?new) = buf"
    by (simp_all add: patch_content_def overwrite_def)
  have "copy_chunk ?new off (replicate (length buf) 0) = (length buf, buf)"
    using len mid by (cases "buf = []") (auto simp: copy_chunk_def overwrite_def Let_def)
  then have "read_file_chunk k path off (replicate (length buf) 0) w = (Ok (length buf), buf)"
    using ne look assms(3) by (simp add: read_file_chunk_def)
  moreover have "read_file_bytes k path w = Ok ?new" using ne look assms(3) by (simp add: read_file_bytes_def)
  moreover have "take off ?new = take off (o1 @ replicate off 0)" if "read_file_bytes k path v = Ok o1" for o1
  proof -
    have "old = o1" using that read_file_bytes_spec [OF assms(1,3)] by (simp add: old_def)
    then show ?thesis by (auto simp: patch_content_def overwrite_def min_def)
  qed
  ultimately show ?thesis using n by blast
qed

lemma sample_chunk: "\<exists>w. write_file_chunk (ram_drive 8) ''/etc/motd'' 5 [1, 2] sample_vfs = Some (Ok 2, w)"
proof -
  have "\<exists>r. write_file_chunk_tree ''/etc/motd'' 5 [1, 2] (vroot sample_vfs) = Some (Ok 2, r)"
    by (simp add: write_file_chunk_tree_def sample_vfs_def parent_of_def path_parts_def SLASH_def join_parts_def
      find_dir_def dir_named_def child_index_def checked_add_def)
  then obtain r where r: "write_file_chunk_tree ''/etc/motd'' 5 [1, 2] (vroot sample_vfs) = Some (Ok 2, r)" by blast
  then show ?thesis
    using then_sync_simps(1) [of "ram_drive 8" "(Ok (2::nat), r)" sample_vfs]
    by (cases "then_sync (ram_drive 8) (Ok (2::nat), r) sample_vfs") (simp add: write_file_chunk_def)
qed

theorem vfs_chunk_roundtrip_witness:
  "\<exists>w. write_file_chunk (ram_drive 8) ''/etc/motd'' 5 [1, 2] sample_vfs = Some (Ok 2, w) \<and>
    read_file_chunk idle_stats ''/etc/motd'' 5 [0, 0] w = (Ok 2, [1, 2]) \<and>
    (\<forall>old. read_file_bytes idle_stats ''/etc/motd'' sample_vfs = Ok old \<longrightarrow>
       (\<exists>new. read_file_bytes idle_stats ''/etc/motd'' w = Ok new \<and> take 5 new = take 5 (old @ replicate 5 0)))"
proof -
  obtain w where w: "write_file_chunk (ram_drive 8) ''/etc/motd'' 5 [1, 2] sample_vfs = Some (Ok 2, w)" using sample_chunk by blast
  have "generate_procfs_content idle_stats ''/etc/motd'' = None"
    by (simp add: generate_procfs_content_def trim_slashes_start_def starts_with_def SLASH_def)
  moreover have "5 + length [1 :: byte, 2] < 2 ^ 63" by simp
  ultimately show ?thesis using vfs_chunk_roundtrip [OF sample_vfs_ok(4) _ _ w, of idle_stats] w by (simp add: numeral_2_eq_2)
qed

subsection \<open>Seeded programs\<close>

lemma list_ex_fst: "list_ex (\<lambda>(p, _). p = q) xs \<longleftrightarrow> map_of xs q \<noteq> None"
  by (induction xs) auto

lemma seed_blob_store:
  "map_of (blob_store (seed_blob b v)) p = (if map_of (blob_store v) p = None \<and> fst b = p then Some (snd b) else map_of (blob_store v) p)"
proof (cases "map_of (blob_store v) (fst b)")
  case None
  then have "blob_store (seed_blob b v) = blob_store v @ [(fst b, snd b)]"
    by (simp add: seed_blob_def is_seeded_binary_def list_ex_fst)
  with None show ?thesis by (cases "map_of (blob_store v) p") (auto simp: map_add_def)
next
  case (Some x)
  then show ?thesis by (auto simp: seed_blob_def is_seeded_binary_def list_ex_fst)
qed

lemma fold_seed_blob_store:
  "map_of (blob_store (fold seed_blob bs v)) p = (case map_of (blob_store v) p of Some x \<Rightarrow> Some x | None \<Rightarrow> map_of bs p)"
  by (induction bs arbitrary: v) (auto simp: seed_blob_store split: option.splits)

lemma seed_text_store: "blob_store (fold (seed_text k) ts v) = blob_store v"
  by (induction ts arbitrary: v) (simp_all add: seed_text_def)

lemma find_map_of: "find (\<lambda>(p, _). p = q) xs = map_option (Pair q) (map_of xs q)"
  by (induction xs) auto

text \<open>
  A seeded program reads back byte for byte by its full path, relative or absolute, binary data included: the store
  shadows the tree, where the program has an empty placeholder. A file of the tree is read through lossy UTF-8, so it
  comes back unchanged exactly when its bytes are well formed.
\<close>

lemma seeded_program_exact:
  assumes "blob_store v = []" and "map_of (SEEDED_BINARIES hello) (resolve_path ''/'' path) \<noteq> None"
  shows "read_file_from_path k path (seed_default_files hello k v) = Ok hello"
proof -
  have "map_of (SEEDED_BINARIES hello) q \<noteq> None \<Longrightarrow> map_of (SEEDED_BINARIES hello) q = Some hello" for q
    by (auto simp: SEEDED_BINARIES_def split: if_splits)
  then have "map_of (blob_store (seed_default_files hello k v)) (resolve_path ''/'' path) = Some hello"
    using assms by (simp add: seed_default_files_def seed_text_store fold_seed_blob_store)
  then show ?thesis by (simp add: read_file_from_path_def find_map_of Let_def)
qed

lemma tree_file_from_path:
  assumes "map_of (blob_store v) (resolve_path ''/'' path) = None" and "read_file_bytes k (resolve_path ''/'' path) v = Ok c"
  shows "read_file_from_path k path v = Ok (utf8_lossy c)" and "utf8_valid c \<Longrightarrow> read_file_from_path k path v = Ok c"
proof -
  have "as_bytes (of_bytes bs) = bs" for bs
    using byte_bound by (induction bs) (simp_all add: as_bytes_def of_bytes_def char_byte_def byte_char_def)
  then show r: "read_file_from_path k path v = Ok (utf8_lossy c)"
    using assms by (simp add: read_file_from_path_def find_map_of read_file_def Let_def)
  show "utf8_valid c \<Longrightarrow> read_file_from_path k path v = Ok c" using r utf8_lossy_valid by simp
qed

end
