(* ===== verification/Fs_Service.thy ===== *)
theory Fs_Service
  imports Vfs Cap_Abi
begin

section \<open>The file service protocol\<close>

text \<open>
  \<^verbatim>\<open>FsRequest\<close> and \<^verbatim>\<open>FsResponse\<close> of \<^verbatim>\<open>spark-abi/src/fs.rs\<close> and \<^verbatim>\<open>dispatch_fs_request\<close> of \<^verbatim>\<open>kernel/src/fs.rs\<close>.
\<close>

definition MAX_FS_PATH_LEN :: nat where "MAX_FS_PATH_LEN = 64"

definition FS_OP_OPEN :: nat where "FS_OP_OPEN = 1"
definition FS_OP_READ :: nat where "FS_OP_READ = 2"
definition FS_OP_WRITE :: nat where "FS_OP_WRITE = 3"
definition FS_OP_STAT :: nat where "FS_OP_STAT = 4"
definition FS_OP_MKDIR :: nat where "FS_OP_MKDIR = 6"
definition FS_OP_UNLINK :: nat where "FS_OP_UNLINK = 7"
definition FS_OP_SYNC :: nat where "FS_OP_SYNC = 9"
definition FS_OP_CLOSE :: nat where "FS_OP_CLOSE = 10"
definition O_CREAT :: "32 word" where "O_CREAT = 0x40"

lemmas fs_ops = FS_OP_OPEN_def FS_OP_READ_def FS_OP_WRITE_def FS_OP_STAT_def FS_OP_MKDIR_def FS_OP_UNLINK_def
  FS_OP_SYNC_def FS_OP_CLOSE_def

record fs_request =
  rq_opcode :: nat
  rq_handle :: nat
  rq_flags :: "32 word"
  rq_mode :: nat
  rq_offset :: nat
  rq_length :: nat
  rq_path :: "byte list"
  rq_path_len :: nat

record fs_response =
  rs_status :: nat
  rs_handle :: nat
  rs_bytes :: nat
  rs_inode_id :: nat
  rs_size :: nat
  rs_is_dir :: bool

definition empty_request :: fs_request where
  "empty_request = \<lparr>rq_opcode = 0, rq_handle = 0, rq_flags = 0, rq_mode = 0, rq_offset = 0, rq_length = 0,
     rq_path = replicate MAX_FS_PATH_LEN 0, rq_path_len = 0\<rparr>"

definition set_path :: "string \<Rightarrow> fs_request \<Rightarrow> fs_request" where
  "set_path p r =
     (let n = min (length p) MAX_FS_PATH_LEN in
      r\<lparr>rq_path := overwrite 0 (take n (as_bytes p)) (replicate MAX_FS_PATH_LEN 0), rq_path_len := n\<rparr>)"

definition path_str :: "fs_request \<Rightarrow> string" where
  "path_str r =
     (case from_utf8 (take (min (rq_path_len r) MAX_FS_PATH_LEN) (rq_path r)) of Some s \<Rightarrow> s | None \<Rightarrow> [])"

definition new_open :: "string \<Rightarrow> 32 word \<Rightarrow> nat \<Rightarrow> fs_request" where
  "new_open p flags mode = set_path p (empty_request\<lparr>rq_opcode := FS_OP_OPEN, rq_flags := flags, rq_mode := mode\<rparr>)"

definition new_read :: "nat \<Rightarrow> nat \<Rightarrow> nat \<Rightarrow> fs_request" where
  "new_read h off len = empty_request\<lparr>rq_opcode := FS_OP_READ, rq_handle := h, rq_offset := off, rq_length := len\<rparr>"

definition new_write :: "nat \<Rightarrow> nat \<Rightarrow> nat \<Rightarrow> fs_request" where
  "new_write h off len = empty_request\<lparr>rq_opcode := FS_OP_WRITE, rq_handle := h, rq_offset := off, rq_length := len\<rparr>"

definition new_stat :: "string \<Rightarrow> fs_request" where
  "new_stat p = set_path p (empty_request\<lparr>rq_opcode := FS_OP_STAT\<rparr>)"

definition new_close :: "nat \<Rightarrow> fs_request" where
  "new_close h = empty_request\<lparr>rq_opcode := FS_OP_CLOSE, rq_handle := h\<rparr>"

definition resp_ok :: "nat \<Rightarrow> nat \<Rightarrow> fs_response" where
  "resp_ok h bytes = \<lparr>rs_status = 0, rs_handle = h, rs_bytes = bytes, rs_inode_id = 0, rs_size = 0, rs_is_dir = False\<rparr>"

definition resp_err :: "nat \<Rightarrow> fs_response" where
  "resp_err e = \<lparr>rs_status = e, rs_handle = 0, rs_bytes = 0, rs_inode_id = 0, rs_size = 0, rs_is_dir = False\<rparr>"


definition dispatch_fs_request ::
    "'d drive \<Rightarrow> kernel_stats \<Rightarrow> fs_request \<Rightarrow> byte list option \<Rightarrow> 'd vfs \<Rightarrow> ((fs_response \<times> byte list) \<times> 'd vfs) option" where
  "dispatch_fs_request dr k req payload v =
     (let path = path_str req in
      if rq_opcode req = FS_OP_OPEN then
        let w = (if (rq_flags req AND O_CREAT) \<noteq> 0 then snd (write_file_bytes dr path [] v) else v) in
        (case read_file_bytes k path w of
           Ok content \<Rightarrow> Some ((resp_ok 1 (length content)\<lparr>rs_size := length content\<rparr>, []), w)
         | Err _ \<Rightarrow> Some ((resp_err ENOENT, []), w))
      else if rq_opcode req = FS_OP_READ then
        (case read_file_bytes k path v of
           Ok content \<Rightarrow> do {
             let start = min (rq_offset req) (length content);
             e \<leftarrow> checked_add 64 start (rq_length req);
             let slc = take (min e (length content) - start) (drop start content);
             Some ((resp_ok (rq_handle req) (length slc), slc), v)
           }
         | Err _ \<Rightarrow> Some ((resp_err ENOENT, []), v))
      else if rq_opcode req = FS_OP_WRITE then
        let data = (case payload of Some d \<Rightarrow> d | None \<Rightarrow> []) in
        (case write_file_bytes dr path data v of
           (Ok _, w) \<Rightarrow> Some ((resp_ok (rq_handle req) (length data), []), w)
         | (Err _, w) \<Rightarrow> Some ((resp_err EIO, []), w))
      else if rq_opcode req = FS_OP_STAT then
        (case read_file_bytes k path v of
           Ok content \<Rightarrow> Some ((resp_ok 0 (length content)\<lparr>rs_size := length content\<rparr>, []), v)
         | Err _ \<Rightarrow> Some ((resp_err ENOENT, []), v))
      else if rq_opcode req = FS_OP_MKDIR then
        (case mkdir dr path v of
           (Ok _, w) \<Rightarrow> Some ((resp_ok 0 0, []), w)
         | (Err _, w) \<Rightarrow> Some ((resp_err EIO, []), w))
      else if rq_opcode req = FS_OP_UNLINK then
        (case fs_remove dr path v of
           (Ok _, w) \<Rightarrow> Some ((resp_ok 0 0, []), w)
         | (Err _, w) \<Rightarrow> Some ((resp_err ENOENT, []), w))
      else if rq_opcode req = FS_OP_CLOSE \<or> rq_opcode req = FS_OP_SYNC then
        Some ((resp_ok (rq_handle req) 0, []), v)
      else Some ((resp_err ENOSYS, []), v))"

subsection \<open>Paths in requests\<close>

lemma path_str_set_path:
  assumes "utf8_string p" and "length p \<le> 64"
  shows "path_str (set_path p r) = p"
proof -
  have "take (length p) (overwrite 0 (as_bytes p) (replicate 64 0)) = as_bytes p" by (simp add: overwrite_def)
  then show ?thesis
    using assms from_utf8_as_bytes [OF assms(1)] by (simp add: path_str_def set_path_def MAX_FS_PATH_LEN_def Let_def min_absorb1)
qed

lemma set_path_keeps [simp]:
  "rq_opcode (set_path p r) = rq_opcode r" "rq_flags (set_path p r) = rq_flags r" "rq_handle (set_path p r) = rq_handle r"
  "rq_offset (set_path p r) = rq_offset r" "rq_length (set_path p r) = rq_length r"
  by (simp_all add: set_path_def Let_def)

lemma write_file_bytes_runs:
  assumes "root_ok (vroot v)" and "path_parts p \<noteq> []" and "tree_view (vroot v) (butlast (path_parts p)) = Some EDir"
    and "\<not> no_file (tree_view (vroot v) (path_parts p))"
  obtains w where "write_file_bytes dr p c v = (Ok (), w)"
proof -
  have "is_ok (fst (write_file_tree p c (vroot v)))"
    using write_file_tree_implements [OF assms(1), of p c] assms(2-4) by (simp add: implements_def spec_write_def)
  then have "fst (write_file_bytes dr p c v) = Ok ()" by (auto simp: write_file_bytes_def is_ok_iff)
  then show ?thesis using that by (cases "write_file_bytes dr p c v") simp
qed

lemma fs_remove_runs:
  assumes "root_ok (vroot v)" and "path_parts p \<noteq> []" and "tree_view (vroot v) (path_parts p) \<noteq> None"
  obtains w where "fs_remove dr p v = (Ok (), w)" "root_ok (vroot w)"
    "\<And>qs. tree_view (vroot w) qs = (if take (length (path_parts p)) qs = path_parts p then None else tree_view (vroot v) qs)"
proof -
  let ?r = "remove_tree p (vroot v)"
  have i: "is_ok (fst ?r)" "root_ok (snd ?r)"
    "tree_view (snd ?r) = (\<lambda>qs. if take (length (path_parts p)) qs = path_parts p then None else tree_view (vroot v) qs)"
    using remove_tree_implements [OF assms(1), of p] assms(2,3) by (simp_all add: implements_def spec_remove_def)
  then have "fst (fs_remove dr p v) = Ok ()" "vroot (snd (fs_remove dr p v)) = snd ?r"
    by (auto simp: fs_remove_def is_ok_iff)
  with that [of "snd (fs_remove dr p v)"] i show ?thesis by (cases "fs_remove dr p v") simp
qed

text \<open>The requests, one by one, in terms of the file system's operations.\<close>

lemma dispatch_open_creat:
  assumes "path_str r = p" and "rq_opcode r = FS_OP_OPEN" and "(rq_flags r AND O_CREAT) \<noteq> 0"
    and "write_file_bytes dr p [] v = (Ok (), w)" and "read_file_bytes k p w = Ok []"
  shows "dispatch_fs_request dr k r pl v = Some ((resp_ok 1 0, []), w)"
  using assms by (simp add: dispatch_fs_request_def fs_ops resp_ok_def Let_def)

lemma dispatch_write:
  assumes "path_str r = p" and "rq_opcode r = FS_OP_WRITE" and "write_file_bytes dr p c v = (Ok (), w)"
  shows "dispatch_fs_request dr k r (Some c) v = Some ((resp_ok (rq_handle r) (length c), []), w)"
  using assms by (simp add: dispatch_fs_request_def fs_ops Let_def)

lemma dispatch_read:
  assumes "path_str r = p" and "rq_opcode r = FS_OP_READ" and "read_file_bytes k p v = Ok c" and "rq_offset r + rq_length r < 2 ^ 64"
  shows "dispatch_fs_request dr k r pl v =
    Some ((resp_ok (rq_handle r) (min (rq_length r) (length c - rq_offset r)), take (rq_length r) (drop (rq_offset r) c)), v)"
proof -
  let ?s = "min (rq_offset r) (length c)"
  have add: "checked_add 64 ?s (rq_length r) = Some (?s + rq_length r)" using assms(4) by simp
  have "take (min (?s + rq_length r) (length c) - ?s) (drop ?s c) = take (rq_length r) (drop (rq_offset r) c)"
    by (cases "rq_offset r \<le> length c") (auto simp: min_def)
  moreover have "length (take (rq_length r) (drop (rq_offset r) c)) = min (rq_length r) (length c - rq_offset r)" by (simp add: min.commute)
  ultimately show ?thesis
    using assms(1-3) add by (simp add: dispatch_fs_request_def fs_ops Let_def del: length_take length_drop checked_add_Some)
qed

lemma dispatch_unlink:
  assumes "path_str r = p" and "rq_opcode r = FS_OP_UNLINK" and "fs_remove dr p v = (Ok (), w)"
  shows "dispatch_fs_request dr k r pl v = Some ((resp_ok 0 0, []), w)"
  using assms by (simp add: dispatch_fs_request_def fs_ops Let_def)

lemma dispatch_stat_missing:
  assumes "path_str r = p" and "rq_opcode r = FS_OP_STAT" and "\<not> is_ok (read_file_bytes k p v)"
  shows "dispatch_fs_request dr k r pl v = Some ((resp_err ENOENT, []), v)"
  using assms by (cases "read_file_bytes k p v") (simp_all add: dispatch_fs_request_def fs_ops Let_def)

subsection \<open>Properties\<close>

text \<open>
  A whole session of the file service behaves as a client expects, for every path of at most 64 bytes whose parent
  is a directory and that is no directory or device itself (and not served by \<^verbatim>\<open>/proc\<close>): every request returns; create
  answers handle 1, write answers the number of bytes, read answers exactly the bytes written, unlink succeeds, a stat
  afterwards answers ENOENT, and at the end the tree is what it was with nothing at or below the path.
\<close>
theorem fs_service_session:
  assumes root: "root_ok (vroot v)" and p: "utf8_string p" "length p \<le> 64" "path_parts p \<noteq> []"
    and parent: "tree_view (vroot v) (butlast (path_parts p)) = Some EDir" "\<not> no_file (tree_view (vroot v) (path_parts p))"
    and proc: "generate_procfs_content k p = None" and len: "length data < 2 ^ 64"
  shows "\<exists>v1 v2 v3.
    dispatch_fs_request dr k (new_open p O_CREAT mode) None v = Some ((resp_ok 1 0, []), v1) \<and>
    dispatch_fs_request dr k (set_path p (new_write 1 0 (length data))) (Some data) v1 = Some ((resp_ok 1 (length data), []), v2) \<and>
    dispatch_fs_request dr k (set_path p (new_read 1 0 (length data))) None v2 = Some ((resp_ok 1 (length data), data), v2) \<and>
    dispatch_fs_request dr k (set_path p (empty_request\<lparr>rq_opcode := FS_OP_UNLINK\<rparr>)) None v2 = Some ((resp_ok 0 0, []), v3) \<and>
    dispatch_fs_request dr k (new_stat p) None v3 = Some ((resp_err ENOENT, []), v3) \<and>
    (\<forall>qs. tree_view (vroot v3) qs = (if take (length (path_parts p)) qs = path_parts p then None else tree_view (vroot v) qs))"
proof -
  note ps = path_str_set_path [OF p(1,2)]
  obtain v1 where w1: "write_file_bytes dr p [] v = (Ok (), v1)" by (rule write_file_bytes_runs [OF root p(3) parent])
  note t1 = write_ok_view [OF root w1]
  have b: "butlast (path_parts p) \<noteq> path_parts p" using p(3) by (metis append_butlast_last_id append_self_conv list.distinct(1))
  obtain v2 where w2: "write_file_bytes dr p data v1 = (Ok (), v2)"
    by (rule write_file_bytes_runs [OF t1(1) p(3)]) (use t1(2,4) b in \<open>simp_all add: no_file_def\<close>)
  note t2 = write_ok_view [OF t1(1) w2]
  obtain v3 where w3: "fs_remove dr p v2 = (Ok (), v3)" "root_ok (vroot v3)"
    "\<And>qs. tree_view (vroot v3) qs = (if take (length (path_parts p)) qs = path_parts p then None else tree_view (vroot v2) qs)"
    by (rule fs_remove_runs [OF t2(1) p(3), of dr]) (use t2(2) in simp_all)
  have reads: "read_file_bytes k p v1 = Ok []" "read_file_bytes k p v2 = Ok data" "\<not> is_ok (read_file_bytes k p v3)"
    using read_file_bytes_spec [OF t1(1) proc] read_file_bytes_spec [OF t2(1) proc] read_file_bytes_spec [OF w3(2) proc]
      t1(2) t2(2) w3(3) p(3) by (simp_all add: is_ok_iff)
  show ?thesis
  proof (intro exI conjI allI)
    show "dispatch_fs_request dr k (new_open p O_CREAT mode) None v = Some ((resp_ok 1 0, []), v1)"
      by (rule dispatch_open_creat [OF _ _ _ w1 reads(1)]) (simp_all add: new_open_def ps O_CREAT_def)
    show "dispatch_fs_request dr k (set_path p (new_write 1 0 (length data))) (Some data) v1 = Some ((resp_ok 1 (length data), []), v2)"
      using dispatch_write [OF ps _ w2, of "new_write 1 0 (length data)"] by (simp add: new_write_def)
    show "dispatch_fs_request dr k (set_path p (new_read 1 0 (length data))) None v2 = Some ((resp_ok 1 (length data), data), v2)"
      using dispatch_read [OF ps _ reads(2), of "new_read 1 0 (length data)"] len by (simp add: new_read_def)
    show "dispatch_fs_request dr k (set_path p (empty_request\<lparr>rq_opcode := FS_OP_UNLINK\<rparr>)) None v2 = Some ((resp_ok 0 0, []), v3)"
      by (rule dispatch_unlink [OF ps _ w3(1)]) simp
    show "dispatch_fs_request dr k (new_stat p) None v3 = Some ((resp_err ENOENT, []), v3)"
      by (rule dispatch_stat_missing [OF _ _ reads(3)]) (simp_all add: new_stat_def ps)
    fix qs
    show "tree_view (vroot v3) qs = (if take (length (path_parts p)) qs = path_parts p then None else tree_view (vroot v) qs)"
      using w3(3) t2(2) t1(2) by auto
  qed
qed

lemma sample_path: "path_parts ''/etc/x'' = [''etc'', ''x'']"
  by (simp add: path_parts_def SLASH_def)

theorem fs_service_session_witness:
  "\<exists>v1 v2 v3.
    dispatch_fs_request (ram_drive 8) idle_stats (new_open ''/etc/x'' O_CREAT 0) None sample_vfs = Some ((resp_ok 1 0, []), v1) \<and>
    dispatch_fs_request (ram_drive 8) idle_stats (set_path ''/etc/x'' (new_write 1 0 2)) (Some [255, 0]) v1 = Some ((resp_ok 1 2, []), v2) \<and>
    dispatch_fs_request (ram_drive 8) idle_stats (set_path ''/etc/x'' (new_read 1 0 2)) None v2 = Some ((resp_ok 1 2, [255, 0]), v2) \<and>
    dispatch_fs_request (ram_drive 8) idle_stats (set_path ''/etc/x'' (empty_request\<lparr>rq_opcode := FS_OP_UNLINK\<rparr>)) None v2 =
      Some ((resp_ok 0 0, []), v3) \<and>
    dispatch_fs_request (ram_drive 8) idle_stats (new_stat ''/etc/x'') None v3 = Some ((resp_err ENOENT, []), v3)"
proof -
  have "utf8_string ''/etc/x''" by (rule ascii_utf8) simp
  moreover have "tree_view (vroot sample_vfs) (butlast (path_parts ''/etc/x'')) = Some EDir"
    "\<not> no_file (tree_view (vroot sample_vfs) (path_parts ''/etc/x''))"
    by (simp_all add: sample_path sample_vfs_def tree_view_def no_file_def)
  moreover have two: "length [255 :: byte, 0] = 2" by simp
  ultimately show ?thesis
    using fs_service_session [OF sample_vfs_ok(4), of "''/etc/x''" idle_stats "[255, 0]" "ram_drive 8" 0] sample_not_proc [of idle_stats]
    unfolding two by (auto simp: sample_path)
qed

text \<open>Opening an existing file with \<^verbatim>\<open>O_CREAT\<close> alone empties it: the flag is treated as create and truncate.\<close>

lemma open_creat_truncates:
  assumes "root_ok (vroot v)" and "utf8_string p" and "length p \<le> 64" and "read_file_bytes k p v = Ok c"
    and "generate_procfs_content k p = None"
  shows "\<exists>w. dispatch_fs_request dr k (new_open p O_CREAT mode) None v = Some ((resp_ok 1 0, []), w) \<and> read_file_bytes k p w = Ok []"
proof -
  have t: "path_parts p \<noteq> []" "tree_view (vroot v) (path_parts p) = Some (EFile c)"
    using assms(4) read_file_bytes_spec [OF assms(1,5)] by simp_all
  have "is_ok (fst (write_file_tree p [] (vroot v)))"
  proof (rule ccontr)
    assume "\<not> ?thesis"
    then have "tree_view (vroot v) (butlast (path_parts p)) \<noteq> Some EDir"
      using write_file_tree_implements [OF assms(1), of p "[]"] t by (simp add: implements_def spec_write_def no_file_def split: if_splits)
    moreover have "tree_view (vroot v) (butlast (path_parts p)) = Some EDir"
    proof -
      have "path_parts p = butlast (path_parts p) @ [last (path_parts p)]" using t(1) by simp
      then obtain d where "node_at (vroot v) (butlast (path_parts p)) = Some d" "node_at d [last (path_parts p)] \<noteq> None"
        using t(2) node_at_append [of "vroot v" "butlast (path_parts p)" "[last (path_parts p)]"]
        by (cases "node_at (vroot v) (butlast (path_parts p))") (auto simp: tree_view_def)
      then show ?thesis by (cases d) (auto simp: tree_view_def)
    qed
    ultimately show False by simp
  qed
  then have "fst (write_file_bytes dr p [] v) = Ok ()" by (auto simp: write_file_bytes_def is_ok_iff)
  then obtain w where w: "write_file_bytes dr p [] v = (Ok (), w)" by (cases "write_file_bytes dr p [] v") simp
  note tw = write_ok_view [OF assms(1) w]
  have r: "read_file_bytes k p w = Ok []" using read_file_bytes_spec [OF tw(1) assms(5)] tw(2,3) by simp
  have "dispatch_fs_request dr k (new_open p O_CREAT mode) None v = Some ((resp_ok 1 0, []), w)"
    by (rule dispatch_open_creat [OF _ _ _ w r]) (simp_all add: new_open_def path_str_set_path [OF assms(2,3)] O_CREAT_def)
  with r show ?thesis by blast
qed

end
