(* ===== verification/Block_Cache.thy ===== *)
theory Block_Cache
  imports Byte_Codec
begin

section \<open>The sector cache\<close>

text \<open>
  \<^verbatim>\<open>CachedBlock\<close> and \<^verbatim>\<open>BlockCache\<close> of \<^verbatim>\<open>kernel/src/fs.rs\<close>: 64 entries searched in order, the least frequently
  used one replaced when all are taken.
\<close>

definition CACHE_BLOCKS :: nat where "CACHE_BLOCKS = 64"

record cached_block =
  lba :: nat
  cdata :: "byte list"
  valid :: bool
  dirty :: bool
  access_count :: nat

type_synonym block_cache = "cached_block list"

definition empty_block :: cached_block where
  "empty_block = \<lparr>lba = 0, cdata = replicate 512 0, valid = False, dirty = False, access_count = 0\<rparr>"

definition new_cache :: block_cache where
  "new_cache = replicate CACHE_BLOCKS empty_block"

definition holds :: "nat \<Rightarrow> cached_block \<Rightarrow> bool" where
  "holds n x \<longleftrightarrow> valid x \<and> lba x = n"

definition touch :: "cached_block \<Rightarrow> cached_block" where
  "touch x = x\<lparr>access_count := saturating_add 32 (access_count x) 1\<rparr>"

definition cache_get :: "nat \<Rightarrow> block_cache \<Rightarrow> byte list option \<times> block_cache" where
  "cache_get n c =
     (case position (holds n) c of
        None \<Rightarrow> (None, c)
      | Some i \<Rightarrow> (Some (cdata (c ! i)), c[i := touch (c ! i)]))"

text \<open>The victim: the first entry with the smallest count below \<open>m\<close>, \<open>best\<close> when there is none.\<close>

fun least_used :: "nat \<Rightarrow> nat \<Rightarrow> nat \<Rightarrow> block_cache \<Rightarrow> nat" where
  "least_used i m best [] = best"
| "least_used i m best (x # c) =
     (if access_count x < m then least_used (i + 1) (access_count x) i c else least_used (i + 1) m best c)"

definition cache_put :: "nat \<Rightarrow> byte list \<Rightarrow> bool \<Rightarrow> block_cache \<Rightarrow> block_cache" where
  "cache_put n d dt c =
     (case position (holds n) c of
        Some i \<Rightarrow> c[i := touch ((c ! i)\<lparr>cdata := d, dirty := dirty (c ! i) \<or> dt\<rparr>)]
      | None \<Rightarrow>
          (case position (\<lambda>x. \<not> valid x) c of
             Some i \<Rightarrow> c[i := (c ! i)\<lparr>lba := n, cdata := d, valid := True, dirty := dt, access_count := 1\<rparr>]
           | None \<Rightarrow> c[least_used 0 (2 ^ 32 - 1) 0 c :=
                        \<lparr>lba = n, cdata = d, valid = True, dirty = dt, access_count = 1\<rparr>]))"

subsection \<open>What the cache holds\<close>

definition cached :: "block_cache \<Rightarrow> nat \<Rightarrow> cached_block option" where
  "cached c n = map_option (\<lambda>i. c ! i) (position (holds n) c)"

definition cache_ok :: "block_cache \<Rightarrow> bool" where
  "cache_ok c \<longleftrightarrow> length c = CACHE_BLOCKS \<and>
     (\<forall>i < length c. \<forall>j < length c. valid (c ! i) \<and> valid (c ! j) \<and> lba (c ! i) = lba (c ! j) \<longrightarrow> i = j)"

lemma cached_unique:
  assumes "cache_ok c" and "i < length c" and "holds n (c ! i)"
  shows "position (holds n) c = Some i" and "cached c n = Some (c ! i)"
proof -
  have "\<not> holds n (c ! j)" if "j < i" for j
    using assms that unfolding cache_ok_def holds_def by (metis nat_neq_iff order.strict_trans)
  with assms show "position (holds n) c = Some i" by (simp add: position_Some)
  then show "cached c n = Some (c ! i)" by (simp add: cached_def)
qed

lemma cached_None: "cached c n = None \<longleftrightarrow> (\<forall>i < length c. \<not> holds n (c ! i))"
  by (auto simp: cached_def position_None all_set_conv_all_nth)

lemma least_used_spec:
  "least_used i m best c = best \<and> (\<forall>k < length c. m \<le> access_count (c ! k)) \<or>
   (\<exists>k < length c. least_used i m best c = i + k \<and> access_count (c ! k) < m \<and>
      (\<forall>l < length c. access_count (c ! k) \<le> access_count (c ! l)))"
proof (induction i m best c rule: least_used.induct)
  case (2 i m best x c)
  show ?case
  proof (cases "access_count x < m")
    case True
    from 2(1) [OF this] consider "least_used (i + 1) (access_count x) i c = i" "\<forall>k < length c. access_count x \<le> access_count (c ! k)"
      | k where "k < length c" "least_used (i + 1) (access_count x) i c = i + 1 + k" "access_count (c ! k) < access_count x"
        "\<forall>l < length c. access_count (c ! k) \<le> access_count (c ! l)" by blast
    then show ?thesis
    proof cases
      case 1
      with True show ?thesis by (intro disjI2 exI [of _ 0]) (auto simp: nth_Cons split: nat.splits)
    next
      case (2 k)
      with True show ?thesis by (intro disjI2 exI [of _ "Suc k"]) (auto simp: nth_Cons split: nat.splits)
    qed
  next
    case False
    from 2(2) [OF this] consider "least_used (i + 1) m best c = best" "\<forall>k < length c. m \<le> access_count (c ! k)"
      | k where "k < length c" "least_used (i + 1) m best c = i + 1 + k" "access_count (c ! k) < m"
        "\<forall>l < length c. access_count (c ! k) \<le> access_count (c ! l)" by blast
    then show ?thesis
    proof cases
      case 1
      with False show ?thesis by (auto simp: nth_Cons split: nat.splits)
    next
      case (2 k)
      with False show ?thesis by (intro disjI2 exI [of _ "Suc k"]) (auto simp: nth_Cons split: nat.splits)
    qed
  qed
qed simp

lemma least_used_least:
  assumes "c \<noteq> []"
  shows "least_used 0 m 0 c < length c \<and>
    ((\<forall>e \<in> set c. access_count (c ! least_used 0 m 0 c) \<le> access_count e) \<or> (\<forall>e \<in> set c. m \<le> access_count e))"
  using least_used_spec [of 0 m 0 c]
proof (elim disjE)
  assume "\<exists>k < length c. least_used 0 m 0 c = 0 + k \<and> access_count (c ! k) < m \<and> (\<forall>l < length c. access_count (c ! k) \<le> access_count (c ! l))"
  then obtain k where "k < length c" "least_used 0 m 0 c = k" "\<forall>l < length c. access_count (c ! k) \<le> access_count (c ! l)" by auto
  then show ?thesis by (simp add: all_set_conv_all_nth)
qed (use assms in \<open>simp add: all_set_conv_all_nth\<close>)

text \<open>Replacing entry \<open>i\<close> by one that holds \<open>n\<close>, when no other entry does.\<close>

lemma replace_entry:
  assumes ok: "cache_ok c" and i: "i < length c" and x: "holds n x"
    and new: "\<forall>j < length c. holds n (c ! j) \<longrightarrow> j = i"
  shows "cache_ok (c[i := x])" and "cached (c[i := x]) n = Some x"
    and "k \<noteq> n \<Longrightarrow> cached (c[i := x]) k = (if holds k (c ! i) then None else cached c k)"
proof -
  have uniq: "valid (c ! a) \<Longrightarrow> valid (c ! b) \<Longrightarrow> lba (c ! a) = lba (c ! b) \<Longrightarrow> a < length c \<Longrightarrow> b < length c \<Longrightarrow> a = b" for a b
    using ok unfolding cache_ok_def by blast
  show "cache_ok (c[i := x])"
    unfolding cache_ok_def
  proof (intro conjI allI impI)
    show "length (c[i := x]) = CACHE_BLOCKS" using ok by (simp add: cache_ok_def)
    fix a b assume ab: "a < length (c[i := x])" "b < length (c[i := x])"
      and eq: "valid (c[i := x] ! a) \<and> valid (c[i := x] ! b) \<and> lba (c[i := x] ! a) = lba (c[i := x] ! b)"
    consider "a = i" "b = i" | "a = i" "b \<noteq> i" | "a \<noteq> i" "b = i" | "a \<noteq> i" "b \<noteq> i" by blast
    then show "a = b"
    proof cases
      case 2
      then have "holds n (c ! b)" using eq x i by (simp add: holds_def)
      with new ab 2(2) show ?thesis by (metis length_list_update)
    next
      case 3
      then have "holds n (c ! a)" using eq x i by (simp add: holds_def)
      with new ab 3(1) show ?thesis by (metis length_list_update)
    next
      case 4
      then show ?thesis using eq ab uniq [of a b] by simp
    qed simp
  qed
  then show "cached (c[i := x]) n = Some x" using cached_unique(2) [of "c[i := x]" i n] i x by simp
  assume k: "k \<noteq> n"
  have h: "holds k (c[i := x] ! j) \<longleftrightarrow> j \<noteq> i \<and> holds k (c ! j)" if "j < length c" for j
    using that i x k by (auto simp: nth_list_update holds_def)
  show "cached (c[i := x]) k = (if holds k (c ! i) then None else cached c k)"
  proof (cases "\<exists>j < length c. j \<noteq> i \<and> holds k (c ! j)")
    case True
    then obtain j where j: "j < length c" "j \<noteq> i" "holds k (c ! j)" by blast
    then have "\<not> holds k (c ! i)" using uniq [of i j] i by (auto simp: holds_def)
    moreover have "cached (c[i := x]) k = Some (c ! j)"
      using cached_unique(2) [OF \<open>cache_ok (c[i := x])\<close>, of j k] h j by simp
    ultimately show ?thesis using cached_unique(2) [OF ok j(1,3)] by simp
  next
    case False
    then have "cached (c[i := x]) k = None" using h by (simp add: cached_None)
    moreover have "\<not> holds k (c ! i) \<Longrightarrow> cached c k = None" using False by (auto simp: cached_None)
    ultimately show ?thesis by simp
  qed
qed

lemma cache_get_cached: "fst (cache_get n c) = map_option cdata (cached c n)"
  by (simp add: cache_get_def cached_def split: option.splits)

lemma cache_get_keeps:
  assumes "cache_ok c"
  shows "cache_ok (snd (cache_get n c))"
    and "map_option cdata (cached (snd (cache_get n c)) k) = map_option cdata (cached c k)"
proof (atomize (full), cases "position (holds n) c")
  case None
  then show "cache_ok (snd (cache_get n c)) \<and> map_option cdata (cached (snd (cache_get n c)) k) = map_option cdata (cached c k)"
    using assms by (simp add: cache_get_def)
next
  case (Some i)
  then have i: "i < length c" "holds n (c ! i)" by (simp_all add: position_Some)
  have only: "\<forall>j < length c. holds n (c ! j) \<longrightarrow> j = i"
    using cached_unique(1) [OF assms, of _ n] Some by force
  have t: "holds n (touch (c ! i))" using i(2) by (simp add: touch_def holds_def)
  have "map_option cdata (cached (c[i := touch (c ! i)]) k) = map_option cdata (cached c k)"
  proof (cases "k = n")
    case True
    then show ?thesis using replace_entry(2) [OF assms i(1) t only] cached_unique(2) [OF assms i] by (simp add: touch_def)
  next
    case False
    then have "\<not> holds k (c ! i)" using i(2) by (auto simp: holds_def)
    then show ?thesis using replace_entry(3) [OF assms i(1) t only False] by simp
  qed
  then show "cache_ok (snd (cache_get n c)) \<and> map_option cdata (cached (snd (cache_get n c)) k) = map_option cdata (cached c k)"
    using replace_entry(1) [OF assms i(1) t only] Some by (simp add: cache_get_def)
qed

text \<open>Which entry a put replaces: the one that holds the sector, else an invalid one, else a least used one.\<close>

lemma cache_put_replaces:
  assumes ok: "cache_ok c"
  obtains i x where "cache_put n d dt c = c[i := x]" "i < length c" "holds n x" "cdata x = d"
    "\<forall>j < length c. holds n (c ! j) \<longrightarrow> j = i"
    "holds n (c ! i) \<or> \<not> valid (c ! i) \<or>
     (\<forall>e \<in> set c. valid e) \<and> ((\<forall>e \<in> set c. access_count (c ! i) \<le> access_count e) \<or> (\<forall>e \<in> set c. 2 ^ 32 - 1 \<le> access_count e))"
proof (cases "position (holds n) c")
  case (Some i)
  then have i: "i < length c" "holds n (c ! i)" by (simp_all add: position_Some)
  have only: "\<forall>j < length c. holds n (c ! j) \<longrightarrow> j = i"
    using cached_unique(1) [OF ok, of _ n] Some by force
  show ?thesis
    by (rule that [OF _ i(1) _ _ only disjI1, of "touch ((c ! i)\<lparr>cdata := d, dirty := dirty (c ! i) \<or> dt\<rparr>)"])
      (use Some i in \<open>simp_all add: cache_put_def touch_def holds_def\<close>)
next
  case None
  then have no: "\<forall>j < length c. holds n (c ! j) \<longrightarrow> j = i" for i by (simp add: position_None)
  show ?thesis
  proof (cases "position (\<lambda>x. \<not> valid x) c")
    case (Some i)
    then have i: "i < length c" "\<not> valid (c ! i)" by (simp_all add: position_Some)
    show ?thesis
      by (rule that [OF _ i(1) _ _ no, of "(c ! i)\<lparr>lba := n, cdata := d, valid := True, dirty := dt, access_count := 1\<rparr>"])
        (use None Some i in \<open>simp_all add: cache_put_def holds_def\<close>)
  next
    case full: None
    let ?i = "least_used 0 (2 ^ 32 - 1) 0 c"
    have "c \<noteq> []" using ok by (auto simp: cache_ok_def CACHE_BLOCKS_def)
    note least = least_used_least [OF this, of "2 ^ 32 - 1"]
    have v: "\<forall>e \<in> set c. valid e" using full by (simp add: position_None)
    show ?thesis
    proof (rule that [OF _ _ _ _ no])
      show "cache_put n d dt c = c[?i := \<lparr>lba = n, cdata = d, valid = True, dirty = dt, access_count = 1\<rparr>]"
        unfolding cache_put_def None full option.case by (rule refl)
      show "holds n (c ! ?i) \<or> \<not> valid (c ! ?i) \<or>
        (\<forall>e \<in> set c. valid e) \<and> ((\<forall>e \<in> set c. access_count (c ! ?i) \<le> access_count e) \<or> (\<forall>e \<in> set c. 2 ^ 32 - 1 \<le> access_count e))"
        using least v by blast
    qed (use least in \<open>simp_all add: holds_def\<close>)
  qed
qed

subsection \<open>Properties\<close>

text \<open>
  The cache is sound: after a sector is put, getting it returns the data put, getting any other sector returns
  what it returned before or nothing, and it can become nothing only when all 64 entries were valid and none of them
  held the sector put. The cache stays well formed.
\<close>
theorem cache_put_get:
  assumes "cache_ok c"
  shows "cache_ok (cache_put n d dt c) \<and> fst (cache_get n (cache_put n d dt c)) = Some d \<and>
    (\<forall>k. k \<noteq> n \<longrightarrow> fst (cache_get k (cache_put n d dt c)) = fst (cache_get k c) \<or>
       fst (cache_get k (cache_put n d dt c)) = None \<and> fst (cache_get n c) = None \<and> (\<forall>e \<in> set c. valid e))"
proof -
  obtain i x where p: "cache_put n d dt c = c[i := x]" "i < length c" "holds n x" "cdata x = d"
    "\<forall>j < length c. holds n (c ! j) \<longrightarrow> j = i"
    "holds n (c ! i) \<or> \<not> valid (c ! i) \<or>
     (\<forall>e \<in> set c. valid e) \<and> ((\<forall>e \<in> set c. access_count (c ! i) \<le> access_count e) \<or> (\<forall>e \<in> set c. 2 ^ 32 - 1 \<le> access_count e))"
    by (rule cache_put_replaces [OF assms, of n d dt])
  note rep = replace_entry [OF assms p(2,3,5)]
  have "cached (c[i := x]) k = cached c k \<or> cached (c[i := x]) k = None \<and> cached c n = None \<and> (\<forall>e \<in> set c. valid e)"
    if k: "k \<noteq> n" for k
  proof (cases "holds k (c ! i)")
    case True
    then have "\<not> holds n (c ! i)" "valid (c ! i)" using k by (auto simp: holds_def)
    then have "cached c n = None" "\<forall>e \<in> set c. valid e" using p(5,6) by (auto simp: cached_None)
    with True rep(3) [OF k] show ?thesis by simp
  qed (use rep(3) [OF k] in simp)
  then show ?thesis using rep(1,2) p(1,4) unfolding cache_get_cached p(1) by (intro conjI allI impI) (simp_all, metis)
qed

lemma new_cache_ok: "cache_ok new_cache"
  by (simp add: cache_ok_def new_cache_def empty_block_def)

theorem cache_put_get_witness:
  "cache_ok (cache_put 100 [1, 2] False new_cache) \<and> fst (cache_get 100 (cache_put 100 [1, 2] False new_cache)) = Some [1, 2] \<and>
   fst (cache_get 7 (cache_put 100 [1, 2] False new_cache)) = None"
proof -
  have "position (holds 7) new_cache = None" by (simp add: position_None new_cache_def holds_def empty_block_def)
  then have seven: "fst (cache_get 7 new_cache) = None" by (simp add: cache_get_def)
  note put = cache_put_get [OF new_cache_ok, of 100 "[1, 2]" False]
  have "fst (cache_get 7 (cache_put 100 [1, 2] False new_cache)) = None"
    using put [THEN conjunct2, THEN conjunct2, THEN spec, of 7] seven by auto
  then show ?thesis using put by blast
qed

text \<open>
  Eviction does not look at the dirty bit: when the cache is full, the entry replaced may hold the only copy of a
  written sector, which is then lost.
\<close>

lemma full_put_drops_dirty:
  assumes ok: "cache_ok c" and dirty: "\<forall>e \<in> set c. valid e \<and> dirty e" and miss: "cached c n = None"
  shows "\<exists>k e. cached c k = Some e \<and> dirty e \<and> cached (cache_put n d dt c) k = None"
proof -
  obtain i x where p: "cache_put n d dt c = c[i := x]" "i < length c" "holds n x"
    "\<forall>j < length c. holds n (c ! j) \<longrightarrow> j = i" by (rule cache_put_replaces [OF ok, of n d dt])
  have e: "valid (c ! i)" "dirty (c ! i)" using dirty p(2) by simp_all
  then have h: "holds (lba (c ! i)) (c ! i)" by (simp add: holds_def)
  have "lba (c ! i) \<noteq> n" using miss h p(2) by (auto simp: cached_None)
  then have "cached (c[i := x]) (lba (c ! i)) = None"
    using replace_entry(3) [OF ok p(2,3,4)] h by simp
  with cached_unique(2) [OF ok p(2) h] e(2) p(1) show ?thesis by metis
qed

end
