(* ===== verification/Elf_Loader.thy ===== *)
theory Elf_Loader
  imports Byte_Codec
begin

section \<open>The ELF loader's validation\<close>

text \<open>
  \<^verbatim>\<open>parse_elf\<close> of \<^verbatim>\<open>kernel/src/elf.rs\<close>: the only gate between a program file and the user address space. The fixed
  offsets are those of the packed header structs, whose sizes are 64 and 56 bytes. Whether the \<open>i\<close>-th fallible
  reservation of heap memory succeeds is the argument \<open>heap i\<close>.
\<close>

definition PT_LOAD :: nat where "PT_LOAD = 1"
definition PF_X :: "32 word" where "PF_X = 1"
definition USER_ADDR_MIN :: nat where "USER_ADDR_MIN = 0x40000000"
definition USER_ADDR_MAX :: nat where "USER_ADDR_MAX = 0x70000000"
definition MAX_IMAGE_BYTES :: nat where "MAX_IMAGE_BYTES = 16 * 1024 * 1024"
definition MAX_PROGRAM_HEADERS :: nat where "MAX_PROGRAM_HEADERS = 128"

lemmas elf_limits = USER_ADDR_MIN_def USER_ADDR_MAX_def MAX_IMAGE_BYTES_def MAX_PROGRAM_HEADERS_def

datatype elf_error =
    FileTooSmall | InvalidMagic | Not64Bit | NotLittleEndian | NotExecutable | InvalidMachine | HeadersOutOfBounds
  | SegmentOutOfBounds | InvalidSegmentBounds | KernelAddressViolation | OverlappingSegments | InvalidEntryPoint
  | NoLoadableSegments | ImageTooLarge | OutOfMemory

record elf_header =
  e_ident :: "byte list"
  e_type :: nat
  e_machine :: nat
  e_entry :: nat
  e_phoff :: nat
  e_phentsize :: nat
  e_phnum :: nat

record program_header =
  p_type :: nat
  p_flags :: "32 word"
  p_offset :: nat
  p_vaddr :: nat
  p_filesz :: nat
  p_memsz :: nat

record segment =
  vaddr :: nat
  filesz :: nat
  memsz :: nat
  seg_flags :: "32 word"
  seg_data :: "byte list"

record elf_file =
  entry_point :: nat
  segments :: "segment list"

definition read_ehdr :: "byte list \<Rightarrow> elf_header" where
  "read_ehdr bs =
     \<lparr>e_ident = take 16 bs, e_type = field bs 16 2, e_machine = field bs 18 2, e_entry = field bs 24 8,
      e_phoff = field bs 32 8, e_phentsize = field bs 54 2, e_phnum = field bs 56 2\<rparr>"

definition read_phdr :: "byte list \<Rightarrow> nat \<Rightarrow> program_header" where
  "read_phdr bs off =
     \<lparr>p_type = field bs off 4, p_flags = word_of_nat (field bs (off + 4) 4), p_offset = field bs (off + 8) 8,
      p_vaddr = field bs (off + 16) 8, p_filesz = field bs (off + 32) 8, p_memsz = field bs (off + 40) 8\<rparr>"

definition page_down :: "nat \<Rightarrow> nat" where "page_down n = n div 4096 * 4096"
definition page_up :: "nat \<Rightarrow> nat" where "page_up n = page_down (n + 4095)"

text \<open>
  One loadable header: \<open>Ok None\<close> when it loads nothing, else the pages it maps, its range in the file and the segment
  still without its bytes.
\<close>

definition check_segment ::
    "byte list \<Rightarrow> program_header \<Rightarrow> nat \<Rightarrow> (elf_error, (nat \<times> (nat \<times> nat \<times> nat) \<times> segment) option) result" where
  "check_segment bs ph img =
     (if p_memsz ph < p_filesz ph then Err InvalidSegmentBounds
      else case checked_add 64 (p_offset ph) (p_filesz ph) of
        None \<Rightarrow> Err SegmentOutOfBounds
      | Some file_end \<Rightarrow>
          if length bs < file_end then Err SegmentOutOfBounds
          else case checked_add 64 (p_vaddr ph) (p_memsz ph) of
            None \<Rightarrow> Err KernelAddressViolation
          | Some vaddr_end \<Rightarrow>
              if p_vaddr ph < USER_ADDR_MIN \<or> USER_ADDR_MAX < vaddr_end then Err KernelAddressViolation
              else if p_memsz ph = 0 then Ok None
              else case Option.bind (checked_add 64 (p_memsz ph) (p_vaddr ph mod 4096)) (\<lambda>n. checked_add 64 n 4095) of
                None \<Rightarrow> Err ImageTooLarge
              | Some n \<Rightarrow>
                  (case checked_add 64 img (page_down n) of
                     None \<Rightarrow> Err ImageTooLarge
                   | Some tot \<Rightarrow>
                       if MAX_IMAGE_BYTES < tot then Err ImageTooLarge
                       else Ok (Some (tot, (p_offset ph, p_filesz ph, p_memsz ph),
                              \<lparr>vaddr = p_vaddr ph, filesz = p_filesz ph, memsz = p_memsz ph, seg_flags = p_flags ph, seg_data = []\<rparr>))))"

fun scan_headers ::
    "byte list \<Rightarrow> nat \<Rightarrow> nat \<Rightarrow> nat \<Rightarrow> nat \<Rightarrow> (elf_error, ((nat \<times> nat \<times> nat) \<times> segment) list) result" where
  "scan_headers bs off entsize 0 img = Ok []"
| "scan_headers bs off entsize (Suc n) img =
     (let ph = read_phdr bs off in
      if p_type ph = PT_LOAD then
        (case check_segment bs ph img of
           Err e \<Rightarrow> Err e
         | Ok None \<Rightarrow> scan_headers bs (off + entsize) entsize n img
         | Ok (Some (tot, rng, seg)) \<Rightarrow>
             (case scan_headers bs (off + entsize) entsize n tot of
                Err e \<Rightarrow> Err e
              | Ok rest \<Rightarrow> Ok ((rng, seg) # rest)))
      else scan_headers bs (off + entsize) entsize n img)"

definition pages_overlap :: "segment \<Rightarrow> segment \<Rightarrow> bool" where
  "pages_overlap a b \<longleftrightarrow>
     page_down (vaddr a) < page_up (vaddr b + memsz b) \<and> page_down (vaddr b) < page_up (vaddr a + memsz a)"

fun any_overlap :: "segment list \<Rightarrow> bool" where
  "any_overlap [] = False"
| "any_overlap (s # ss) = (list_ex (pages_overlap s) ss \<or> any_overlap ss)"

definition entry_valid :: "nat \<Rightarrow> segment list \<Rightarrow> bool" where
  "entry_valid e ss = list_ex (\<lambda>s. (seg_flags s AND PF_X) \<noteq> 0 \<and> vaddr s \<le> e \<and> e < vaddr s + memsz s) ss"

fun fill_segments ::
    "(nat \<Rightarrow> bool) \<Rightarrow> byte list \<Rightarrow> nat \<Rightarrow> ((nat \<times> nat \<times> nat) \<times> segment) list \<Rightarrow> (elf_error, segment list) result" where
  "fill_segments heap bs i [] = Ok []"
| "fill_segments heap bs i (((off, fsz, msz), s) # rest) =
     (if \<not> heap i then Err OutOfMemory
      else (case fill_segments heap bs (i + 1) rest of
              Err e \<Rightarrow> Err e
            | Ok ss \<Rightarrow> Ok (s\<lparr>seg_data := take fsz (drop off bs) @ replicate (msz - fsz) 0\<rparr> # ss)))"

definition parse_elf :: "(nat \<Rightarrow> bool) \<Rightarrow> byte list \<Rightarrow> (elf_error, elf_file) result" where
  "parse_elf heap bs =
     (if length bs < 64 then Err FileTooSmall
      else let h = read_ehdr bs in
      if take 4 (e_ident h) \<noteq> [0x7F, 0x45, 0x4C, 0x46] then Err InvalidMagic
      else if e_ident h ! 4 \<noteq> 2 then Err Not64Bit
      else if e_ident h ! 5 \<noteq> 1 then Err NotLittleEndian
      else if e_type h \<noteq> 2 then Err NotExecutable
      else if e_machine h \<noteq> 62 then Err InvalidMachine
      else if MAX_PROGRAM_HEADERS < e_phnum h then Err ImageTooLarge
      else if e_phentsize h < 56 then Err HeadersOutOfBounds
      else case Option.bind (checked_mul 64 (e_phnum h) (e_phentsize h)) (checked_add 64 (e_phoff h)) of
        None \<Rightarrow> Err HeadersOutOfBounds
      | Some headers_end \<Rightarrow>
          if length bs < headers_end then Err HeadersOutOfBounds
          else if \<not> heap 0 then Err OutOfMemory
          else if \<not> heap 1 then Err OutOfMemory
          else case scan_headers bs (e_phoff h) (e_phentsize h) (e_phnum h) 0 of
            Err e \<Rightarrow> Err e
          | Ok found \<Rightarrow>
              let ss = map snd found in
              if ss = [] then Err NoLoadableSegments
              else if any_overlap ss then Err OverlappingSegments
              else if \<not> entry_valid (e_entry h) ss then Err InvalidEntryPoint
              else (case fill_segments heap bs 2 found of
                      Err e \<Rightarrow> Err e
                    | Ok filled \<Rightarrow> Ok \<lparr>entry_point = e_entry h, segments = filled\<rparr>))"

subsection \<open>What the checks establish\<close>

definition mapped_bytes :: "segment \<Rightarrow> nat" where
  "mapped_bytes s = page_up (vaddr s + memsz s) - page_down (vaddr s)"

lemma page_span: "page_up (v + m) - page_down v = page_down (m + v mod 4096 + 4095)"
proof -
  have "v + m + 4095 = 4096 * (v div 4096) + (m + v mod 4096 + 4095)" by simp
  then have "(v + m + 4095) div 4096 = v div 4096 + (m + v mod 4096 + 4095) div 4096" by (simp only: div_mult_self4)
  then show ?thesis by (simp add: page_up_def page_down_def)
qed

definition range_ok :: "byte list \<Rightarrow> (nat \<times> nat \<times> nat) \<times> segment \<Rightarrow> bool" where
  "range_ok bs p \<longleftrightarrow> (case p of ((off, fsz, msz), s) \<Rightarrow>
     off + fsz \<le> length bs \<and> fsz = filesz s \<and> msz = memsz s \<and> fsz \<le> msz \<and> 0 < msz \<and>
     USER_ADDR_MIN \<le> vaddr s \<and> vaddr s + memsz s \<le> USER_ADDR_MAX)"

lemma check_segment_ok:
  assumes "check_segment bs ph img = Ok (Some (tot, rng, s))"
  shows "range_ok bs (rng, s)" and "tot = img + mapped_bytes s" and "tot \<le> MAX_IMAGE_BYTES"
proof -
  have "range_ok bs (rng, s) \<and> tot = img + page_down (memsz s + vaddr s mod 4096 + 4095) \<and> tot \<le> MAX_IMAGE_BYTES"
    using assms by (auto simp: check_segment_def range_ok_def bind_eq_Some_conv split: if_splits option.splits)
  then show "range_ok bs (rng, s)" "tot = img + mapped_bytes s" "tot \<le> MAX_IMAGE_BYTES"
    by (simp_all add: mapped_bytes_def page_span)
qed

lemma scan_headers_ok:
  assumes "scan_headers bs off entsize n img = Ok found" and "img \<le> MAX_IMAGE_BYTES"
  shows "length found \<le> n \<and> list_all (range_ok bs) found \<and> img + sum_list (map (mapped_bytes \<circ> snd) found) \<le> MAX_IMAGE_BYTES"
  using assms
proof (induction bs off entsize n img arbitrary: found rule: scan_headers.induct)
  case (2 bs off entsize n img)
  let ?ph = "read_phdr bs off"
  show ?case
  proof (cases "p_type ?ph = PT_LOAD")
    case True
    show ?thesis
    proof (cases "check_segment bs ?ph img")
      case (Inl e)
      with True 2(4) show ?thesis by simp
    next
      case (Inr r)
      show ?thesis
      proof (cases r)
        case None
        with True Inr 2(1) [OF refl True Inr None] 2(4,5) show ?thesis by fastforce
      next
        case (Some q)
        obtain tot rng s where q: "q = (tot, rng, s)" by (cases q) auto
        with True Inr Some 2(4) obtain rest where rest: "scan_headers bs (off + entsize) entsize n tot = Ok rest" "found = (rng, s) # rest"
          by (auto split: sum.splits)
        note ck = check_segment_ok [OF Inr [unfolded Some q]]
        have "length rest \<le> n \<and> list_all (range_ok bs) rest \<and> tot + sum_list (map (mapped_bytes \<circ> snd) rest) \<le> MAX_IMAGE_BYTES"
          by (rule 2(2) [OF refl True Inr Some q [symmetric] refl rest(1) ck(3)])
        with ck rest(2) show ?thesis by (simp add: comp_def)
      qed
    qed
  next
    case False
    with 2(3) [OF refl False] 2(4,5) show ?thesis by fastforce
  qed
qed simp

lemma fill_segments_ok:
  "fill_segments heap bs i found = Ok filled \<Longrightarrow>
   filled = map (\<lambda>((off, fsz, msz), s). s\<lparr>seg_data := take fsz (drop off bs) @ replicate (msz - fsz) 0\<rparr>) found"
proof (induction heap bs i found arbitrary: filled rule: fill_segments.induct)
  case (2 heap bs i off fsz msz s rest)
  then show ?case by (auto split: if_splits sum.splits)
qed simp

lemma no_overlap_pages:
  "\<not> any_overlap ss \<Longrightarrow> i < j \<Longrightarrow> j < length ss \<Longrightarrow>
   {page_down (vaddr (ss ! i))..<page_up (vaddr (ss ! i) + memsz (ss ! i))} \<inter>
   {page_down (vaddr (ss ! j))..<page_up (vaddr (ss ! j) + memsz (ss ! j))} = {}"
proof (induction ss arbitrary: i j)
  case (Cons s ss)
  obtain j' where j: "j = Suc j'" using Cons.prems(2) by (cases j) auto
  show ?case
  proof (cases i)
    case 0
    have "\<not> pages_overlap s (ss ! j')" using Cons.prems j by (auto simp: list_ex_iff)
    with 0 j show ?thesis by (auto simp: pages_overlap_def)
  next
    case (Suc i')
    with Cons.IH [of i' j'] Cons.prems j show ?thesis by simp
  qed
qed simp

lemma parse_elf_Ok:
  assumes "parse_elf heap bs = Ok f"
  obtains found where "scan_headers bs (e_phoff (read_ehdr bs)) (e_phentsize (read_ehdr bs)) (e_phnum (read_ehdr bs)) 0 = Ok found"
    "e_phnum (read_ehdr bs) \<le> MAX_PROGRAM_HEADERS" "found \<noteq> []" "\<not> any_overlap (map snd found)"
    "entry_valid (entry_point f) (map snd found)" "fill_segments heap bs 2 found = Ok (segments f)"
proof -
  have "\<exists>found. scan_headers bs (e_phoff (read_ehdr bs)) (e_phentsize (read_ehdr bs)) (e_phnum (read_ehdr bs)) 0 = Ok found \<and>
    e_phnum (read_ehdr bs) \<le> MAX_PROGRAM_HEADERS \<and> found \<noteq> [] \<and> \<not> any_overlap (map snd found) \<and>
    entry_valid (entry_point f) (map snd found) \<and> fill_segments heap bs 2 found = Ok (segments f)"
    using assms unfolding parse_elf_def Let_def by (simp split: if_splits option.splits sum.splits) auto
  then show ?thesis using that by blast
qed

subsection \<open>Properties\<close>

text \<open>
  C28. Every image the loader accepts is confined: it has between 1 and 128 segments; each lies in the user region
  between 0x40000000 and 0x70000000, is not empty, and its bytes are a range of the file followed by zeros up to its
  memory size; no two segments share a page; the entry point lies in an executable segment; and all the pages
  together are at most 16 MiB.
\<close>
theorem elf_image_is_confined:
  assumes "parse_elf heap bs = Ok f"
  shows "segments f \<noteq> [] \<and> length (segments f) \<le> 128 \<and>
    (\<forall>s \<in> set (segments f). 0x40000000 \<le> vaddr s \<and> vaddr s + memsz s \<le> 0x70000000 \<and> 0 < memsz s \<and>
       (\<exists>off. off + filesz s \<le> length bs \<and> filesz s \<le> memsz s \<and>
          seg_data s = take (filesz s) (drop off bs) @ replicate (memsz s - filesz s) 0)) \<and>
    (\<forall>i j. i < j \<and> j < length (segments f) \<longrightarrow>
       {page_down (vaddr (segments f ! i))..<page_up (vaddr (segments f ! i) + memsz (segments f ! i))} \<inter>
       {page_down (vaddr (segments f ! j))..<page_up (vaddr (segments f ! j) + memsz (segments f ! j))} = {}) \<and>
    (\<exists>s \<in> set (segments f). (seg_flags s AND PF_X) \<noteq> 0 \<and> vaddr s \<le> entry_point f \<and> entry_point f < vaddr s + memsz s) \<and>
    sum_list (map mapped_bytes (segments f)) \<le> 16 * 1024 * 1024"
proof -
  obtain found where p: "scan_headers bs (e_phoff (read_ehdr bs)) (e_phentsize (read_ehdr bs)) (e_phnum (read_ehdr bs)) 0 = Ok found"
    "e_phnum (read_ehdr bs) \<le> MAX_PROGRAM_HEADERS" "found \<noteq> []" "\<not> any_overlap (map snd found)"
    "entry_valid (entry_point f) (map snd found)" "fill_segments heap bs 2 found = Ok (segments f)"
    by (rule parse_elf_Ok [OF assms])
  define fill where "fill = (\<lambda>((off, fsz, msz), s). s\<lparr>seg_data := take fsz (drop off bs) @ replicate (msz - fsz) 0\<rparr> :: segment)"
  have seg: "segments f = map fill found" using fill_segments_ok [OF p(6)] by (simp add: fill_def)
  have same: "vaddr (fill x) = vaddr (snd x)" "memsz (fill x) = memsz (snd x)" "filesz (fill x) = filesz (snd x)"
    "seg_flags (fill x) = seg_flags (snd x)" for x by (cases x; simp add: fill_def split: prod.splits)+
  have sc: "length found \<le> e_phnum (read_ehdr bs)" "list_all (range_ok bs) found"
    "sum_list (map (mapped_bytes \<circ> snd) found) \<le> MAX_IMAGE_BYTES"
    using scan_headers_ok [OF p(1)] by simp_all
  have each: "0x40000000 \<le> vaddr s \<and> vaddr s + memsz s \<le> 0x70000000 \<and> 0 < memsz s \<and>
      (\<exists>off. off + filesz s \<le> length bs \<and> filesz s \<le> memsz s \<and>
         seg_data s = take (filesz s) (drop off bs) @ replicate (memsz s - filesz s) 0)" if s: "s \<in> set (segments f)" for s
  proof -
    obtain off fsz msz t where x: "((off, fsz, msz), t) \<in> set found" "s = fill ((off, fsz, msz), t)" using s seg by auto
    have "range_ok bs ((off, fsz, msz), t)" using sc(2) x(1) by (simp add: list_all_iff)
    then show ?thesis unfolding x(2) same
      by (intro conjI exI [of _ off]) (simp_all add: range_ok_def elf_limits fill_def)
  qed
  have apart: "{page_down (vaddr (segments f ! i))..<page_up (vaddr (segments f ! i) + memsz (segments f ! i))} \<inter>
      {page_down (vaddr (segments f ! j))..<page_up (vaddr (segments f ! j) + memsz (segments f ! j))} = {}"
    if "i < j" "j < length (segments f)" for i j
    using no_overlap_pages [OF p(4) that(1)] that seg by (simp add: same)
  have entry: "\<exists>s \<in> set (segments f). (seg_flags s AND PF_X) \<noteq> 0 \<and> vaddr s \<le> entry_point f \<and> entry_point f < vaddr s + memsz s"
    using p(5) unfolding seg entry_valid_def list_ex_iff by (force simp: same)
  have "map mapped_bytes (segments f) = map (mapped_bytes \<circ> snd) found" by (simp add: seg mapped_bytes_def same comp_def)
  then have sum: "sum_list (map mapped_bytes (segments f)) \<le> 16 * 1024 * 1024" using sc(3) by (simp only: MAX_IMAGE_BYTES_def)
  have "segments f \<noteq> []" "length (segments f) \<le> 128" using p(2,3) sc(1) seg by (simp_all add: elf_limits)
  with each apart entry sum show ?thesis by (intro conjI ballI allI impI) (blast | simp only:)+
qed

text \<open>A program of one executable segment: 64 bytes of memory at 0x40000000, the first two from the file.\<close>

definition tiny_elf :: "byte list" where
  "tiny_elf =
     [0x7F, 0x45, 0x4C, 0x46, 2, 1, 1, 0, 0, 0, 0, 0, 0, 0, 0, 0,
      2, 0, 62, 0, 1, 0, 0, 0, 0, 0, 0, 0x40, 0, 0, 0, 0,
      64, 0, 0, 0, 0, 0, 0, 0, 0, 0, 0, 0, 0, 0, 0, 0,
      0, 0, 0, 0, 64, 0, 56, 0, 1, 0, 0, 0, 0, 0, 0, 0,
      1, 0, 0, 0, 5, 0, 0, 0, 120, 0, 0, 0, 0, 0, 0, 0,
      0, 0, 0, 0x40, 0, 0, 0, 0, 0, 0, 0, 0x40, 0, 0, 0, 0,
      2, 0, 0, 0, 0, 0, 0, 0, 64, 0, 0, 0, 0, 0, 0, 0,
      0, 16, 0, 0, 0, 0, 0, 0, 0xEB, 0xFE]"

lemma tiny_elf_parses:
  "parse_elf (\<lambda>_. True) tiny_elf = Ok \<lparr>entry_point = 0x40000000, segments =
     [\<lparr>vaddr = 0x40000000, filesz = 2, memsz = 64, seg_flags = 5, seg_data = [0xEB, 0xFE] @ replicate 62 0\<rparr>]\<rparr>"
proof -
  have h: "read_ehdr tiny_elf = \<lparr>e_ident = [0x7F, 0x45, 0x4C, 0x46, 2, 1, 1, 0, 0, 0, 0, 0, 0, 0, 0, 0], e_type = 2, e_machine = 62,
      e_entry = 0x40000000, e_phoff = 64, e_phentsize = 56, e_phnum = 1\<rparr>"
    by (simp add: read_ehdr_def tiny_elf_def field_def)
  have ph: "read_phdr tiny_elf 64 = \<lparr>p_type = 1, p_flags = 5, p_offset = 120, p_vaddr = 0x40000000, p_filesz = 2, p_memsz = 64\<rparr>"
    by (simp add: read_phdr_def tiny_elf_def field_def)
  have len: "length tiny_elf = 122" "drop 120 tiny_elf = [0xEB, 0xFE]" by (simp_all add: tiny_elf_def)
  have scan: "scan_headers tiny_elf 64 56 (Suc 0) 0 = Ok [((120, 2, 64),
      \<lparr>vaddr = 0x40000000, filesz = 2, memsz = 64, seg_flags = 5, seg_data = []\<rparr>)]"
    by (simp add: ph PT_LOAD_def check_segment_def checked_add_def len elf_limits page_down_def)
  show ?thesis
    by (simp add: parse_elf_def h len checked_mul_def checked_add_def elf_limits scan entry_valid_def PF_X_def del: replicate.simps scan_headers.simps)
qed

theorem elf_image_is_confined_witness:
  "\<exists>f. parse_elf (\<lambda>_. True) tiny_elf = Ok f \<and> segments f \<noteq> [] \<and> length (segments f) \<le> 128 \<and>
    (\<exists>s \<in> set (segments f). (seg_flags s AND PF_X) \<noteq> 0 \<and> vaddr s \<le> entry_point f \<and> entry_point f < vaddr s + memsz s) \<and>
    sum_list (map mapped_bytes (segments f)) \<le> 16 * 1024 * 1024"
proof -
  obtain f where f: "parse_elf (\<lambda>_. True) tiny_elf = Ok f" using tiny_elf_parses by blast
  from elf_image_is_confined [OF f] f show ?thesis by blast
qed

end
