(* ===== verification/Service_Graph.thy ===== *)
theory Service_Graph
  imports Spark_Interfaces
begin

section \<open>Depth-first search over service dependencies\<close>

text \<open>
  The two searches of \<^verbatim>\<open>kernel/src/service.rs\<close>: the three-colour search behind \<^verbatim>\<open>has_cycle\<close> (0 unvisited, 1 being
  visited, 2 visited) and the post-order walk behind \<^verbatim>\<open>get_boot_order\<close>, over the adjacency function \<open>adj\<close> that the
  service table gives. The recursion is bounded by a depth, and the lemmas show that a depth of one more than the
  number of services is never reached. \<open>dep_graph\<close> is the interface: a function that stays below \<open>n\<close>.
\<close>

fun dfs_deps :: "(nat \<Rightarrow> nat list \<Rightarrow> (bool \<times> nat list) option) \<Rightarrow> nat list \<Rightarrow> nat list \<Rightarrow> (bool \<times> nat list) option" where
  "dfs_deps f [] vis = Some (False, vis)"
| "dfs_deps f (j # js) vis =
     (if vis ! j = 1 then Some (True, vis)
      else if vis ! j = 0 then do {
        (r, v1) \<leftarrow> f j vis;
        if r then Some (True, v1) else dfs_deps f js v1
      }
      else dfs_deps f js vis)"

fun dfs :: "(nat \<Rightarrow> nat list) \<Rightarrow> nat \<Rightarrow> nat \<Rightarrow> nat list \<Rightarrow> (bool \<times> nat list) option" where
  "dfs adj 0 i vis = None"
| "dfs adj (Suc k) i vis = do {
     (r, v1) \<leftarrow> dfs_deps (dfs adj k) (adj i) (vis[i := 1]);
     if r then Some (True, v1) else Some (False, v1[i := 2])
   }"

fun dfs_all :: "(nat \<Rightarrow> nat list) \<Rightarrow> nat \<Rightarrow> nat list \<Rightarrow> nat list \<Rightarrow> bool option" where
  "dfs_all adj k [] vis = Some False"
| "dfs_all adj k (i # is) vis =
     (if vis ! i = 0 then do {
        (r, v1) \<leftarrow> dfs adj k i vis;
        if r then Some True else dfs_all adj k is v1
      }
      else dfs_all adj k is vis)"

fun visit_deps :: "(nat \<Rightarrow> bool list \<times> nat list \<Rightarrow> (bool list \<times> nat list) option) \<Rightarrow> nat list \<Rightarrow> bool list \<times> nat list \<Rightarrow>
    (bool list \<times> nat list) option" where
  "visit_deps f [] st = Some st"
| "visit_deps f (j # js) st = do { st1 \<leftarrow> f j st; visit_deps f js st1 }"

fun visit :: "(nat \<Rightarrow> nat list) \<Rightarrow> nat \<Rightarrow> nat \<Rightarrow> bool list \<times> nat list \<Rightarrow> (bool list \<times> nat list) option" where
  "visit adj 0 i st = None"
| "visit adj (Suc k) i (vs, ord) =
     (if vs ! i then Some (vs, ord)
      else do {
        (v1, o1) \<leftarrow> visit_deps (visit adj k) (adj i) (vs[i := True], ord);
        Some (v1, o1 @ [i])
      })"

subsection \<open>Correctness of the searches\<close>

definition white :: "nat list \<Rightarrow> nat set" where "white v = {i. i < length v \<and> v ! i = 0}"
definition gray :: "nat list \<Rightarrow> nat set" where "gray v = {i. i < length v \<and> v ! i = 1}"
definition black :: "nat list \<Rightarrow> nat set" where "black v = {i. i < length v \<and> v ! i = 2}"

lemma colour_upd:
  assumes "i < length v"
  shows "white (v[i := 1]) = white v - {i}" "gray (v[i := 1]) = insert i (gray v)" "black (v[i := 1]) = black v - {i}"
    "white (v[i := 2]) = white v - {i}" "gray (v[i := 2]) = gray v - {i}" "black (v[i := 2]) = insert i (black v)"
  using assms by (auto simp: white_def gray_def black_def nth_list_update split: if_splits)

lemma colour_disjoint: "white v \<inter> gray v = {}" "white v \<inter> black v = {}" "gray v \<inter> black v = {}"
  by (auto simp: white_def gray_def black_def)

lemma finite_white [simp]: "finite (white v)"
  by (simp add: white_def)

locale dep_graph =
  fixes adj :: "nat \<Rightarrow> nat list" and n :: nat
  assumes adj_bound: "i < n \<Longrightarrow> j \<in> set (adj i) \<Longrightarrow> j < n"
begin

definition E :: "(nat \<times> nat) set" where "E = {(i, j). i < n \<and> j \<in> set (adj i)}"

definition search_inv :: "nat list \<Rightarrow> bool" where
  "search_inv v \<longleftrightarrow> length v = n \<and> (\<forall>i < n. v ! i \<le> 2) \<and> (\<forall>b \<in> black v. set (adj b) \<subseteq> black v \<and> (b, b) \<notin> E\<^sup>+)"

lemma closed_trancl: "(x, y) \<in> E\<^sup>* \<Longrightarrow> x \<in> S \<Longrightarrow> (\<And>b. b \<in> S \<Longrightarrow> set (adj b) \<subseteq> S) \<Longrightarrow> y \<in> S"
  by (induction rule: rtrancl_induct) (auto simp: E_def)

definition searched :: "nat list \<Rightarrow> nat set \<Rightarrow> bool \<times> nat list \<Rightarrow> bool" where
  "searched v S res \<longleftrightarrow>
     (if fst res then \<not> acyclic E
      else search_inv (snd res) \<and> gray (snd res) = gray v \<and> white (snd res) \<subseteq> white v \<and> black v \<union> S \<subseteq> black (snd res))"

definition finds :: "nat \<Rightarrow> (nat \<Rightarrow> nat list \<Rightarrow> (bool \<times> nat list) option) \<Rightarrow> bool" where
  "finds k f \<longleftrightarrow> (\<forall>i v. search_inv v \<longrightarrow> i \<in> white v \<longrightarrow> (\<forall>g \<in> gray v. (g, i) \<in> E\<^sup>+) \<longrightarrow> card (white v) \<le> k \<longrightarrow>
     (\<exists>res. f i v = Some res \<and> searched v {i} res))"

lemma dfs_deps_spec:
  assumes f: "finds k f"
  shows "search_inv v \<Longrightarrow> i \<in> gray v \<Longrightarrow> \<forall>g \<in> gray v. (g, i) \<in> E\<^sup>* \<Longrightarrow> set js \<subseteq> set (adj i) \<Longrightarrow> card (white v) \<le> k \<Longrightarrow>
    \<exists>res. dfs_deps f js v = Some res \<and> searched v (set js) res"
proof (induction js arbitrary: v)
  case Nil
  then show ?case by (simp add: searched_def)
next
  case (Cons j js)
  have n: "length v = n" "i < n" using Cons.prems(1,2) by (auto simp: search_inv_def gray_def)
  then have j: "j < n" "(i, j) \<in> E" using Cons.prems(4) adj_bound by (auto simp: E_def)
  have reach: "(g, j) \<in> E\<^sup>+" if "g \<in> gray v" for g using that Cons.prems(3) j(2) by (meson rtrancl_into_trancl1)
  consider "v ! j = 1" | "v ! j = 0" | "v ! j = 2" using Cons.prems(1) j(1) by (force simp: search_inv_def)
  then show ?case
  proof cases
    case 1
    then have "j \<in> gray v" using j n by (simp add: gray_def)
    then have "\<not> acyclic E" using reach by (auto simp: acyclic_def)
    with 1 show ?thesis by (simp add: searched_def)
  next
    case 2
    then have "j \<in> white v" using j n by (simp add: white_def)
    then obtain r v1 where r: "f j v = Some (r, v1)" "searched v {j} (r, v1)"
      using f Cons.prems(1,5) reach unfolding finds_def by fast
    show ?thesis
    proof (cases r)
      case True
      with 2 r show ?thesis by (simp add: searched_def)
    next
      case False
      with r have v1: "search_inv v1" "gray v1 = gray v" "white v1 \<subseteq> white v" "black v \<union> {j} \<subseteq> black v1" by (simp_all add: searched_def)
      have "card (white v1) \<le> k" using card_mono [OF finite_white v1(3)] Cons.prems(5) by simp
      then obtain res where "dfs_deps f js v1 = Some res" "searched v1 (set js) res"
        using Cons.IH [of v1] Cons.prems v1 by auto
      then show ?thesis using 2 r(1) False v1 by (auto simp: searched_def split: if_splits)
    qed
  next
    case 3
    then have "j \<in> black v" using j n by (simp add: black_def)
    moreover obtain res where "dfs_deps f js v = Some res" "searched v (set js) res"
      using Cons.IH [OF Cons.prems(1-3)] Cons.prems(4,5) by auto
    ultimately show ?thesis using 3 by (auto simp: searched_def split: if_splits)
  qed
qed

lemma dfs_finds: "finds k (dfs adj k)"
proof (induction k)
  case 0
  show ?case unfolding finds_def by (auto simp: card_eq_0_iff)
next
  case (Suc k)
  show ?case
    unfolding finds_def
  proof (intro allI impI)
    fix i v assume v: "search_inv v" and i: "i \<in> white v" and g: "\<forall>g \<in> gray v. (g, i) \<in> E\<^sup>+" and c: "card (white v) \<le> Suc k"
    let ?v = "v[i := 1]"
    have len: "i < length v" "length v = n" using v i by (auto simp: white_def search_inv_def)
    have nb: "i \<notin> black v" "i \<notin> gray v" using i colour_disjoint [of v] by auto
    note up = colour_upd [OF len(1)]
    have inv1: "search_inv ?v" using v nb up(3) len by (simp add: search_inv_def nth_list_update)
    have "card (white ?v) \<le> k" using c i up(1) by simp
    then obtain r v1 where r: "dfs_deps (dfs adj k) (adj i) ?v = Some (r, v1)" "searched ?v (set (adj i)) (r, v1)"
      using dfs_deps_spec [OF Suc inv1, of i "adj i"] g up(2) by (auto intro: trancl_into_rtrancl)
    show "\<exists>res. dfs adj (Suc k) i v = Some res \<and> searched v {i} res"
    proof (cases r)
      case True
      with r show ?thesis by (simp add: searched_def)
    next
      case False
      with r have v1: "search_inv v1" "gray v1 = insert i (gray v)" "white v1 \<subseteq> white v - {i}" "black v \<subseteq> black v1" "set (adj i) \<subseteq> black v1"
        using up nb by (simp_all add: searched_def)
      have len1: "i < length v1" using v1(1) len by (simp add: search_inv_def)
      note up1 = colour_upd [OF len1]
      have ib: "i \<notin> black v1" using v1(2) colour_disjoint(3) [of v1] by auto
      have acyc: "(i, i) \<notin> E\<^sup>+"
      proof
        assume "(i, i) \<in> E\<^sup>+"
        then obtain j where "(i, j) \<in> E" "(j, i) \<in> E\<^sup>*" by (meson tranclD)
        then have "i \<in> black v1" using closed_trancl [of j i "black v1"] v1(1,5) by (auto simp: E_def search_inv_def)
        with ib show False by simp
      qed
      have "search_inv (v1[i := 2])"
        using v1(1,5) acyc up1(6) len1 by (auto simp: search_inv_def nth_list_update)
      then have "searched v {i} (False, v1[i := 2])"
        using v1 up1 nb by (auto simp: searched_def)
      then show ?thesis using r(1) False by simp
    qed
  qed
qed

lemma dfs_all_spec:
  "search_inv v \<Longrightarrow> gray v = {} \<Longrightarrow> set is \<subseteq> {..<n} \<Longrightarrow>
   \<exists>r. dfs_all adj n is v = Some r \<and> (if r then \<not> acyclic E else \<exists>v'. search_inv v' \<and> black v \<union> set is \<subseteq> black v')"
proof (induction "is" arbitrary: v)
  case (Cons i "is")
  have len: "length v = n" "i < n" using Cons.prems by (auto simp: search_inv_def)
  show ?case
  proof (cases "v ! i = 0")
    case True
    then have i: "i \<in> white v" using len by (simp add: white_def)
    have "white v \<subseteq> {..<n}" using len by (auto simp: white_def)
    then have "card (white v) \<le> n" using card_mono [of "{..<n}" "white v"] by simp
    then have "\<exists>res. dfs adj n i v = Some res \<and> searched v {i} res"
      using dfs_finds [of n, unfolded finds_def, rule_format, OF Cons.prems(1) i] Cons.prems(2) by simp
    then obtain r v1 where r: "dfs adj n i v = Some (r, v1)" "searched v {i} (r, v1)" by auto
    show ?thesis
    proof (cases r)
      case True
      with r \<open>v ! i = 0\<close> show ?thesis by (intro exI [of _ True]) (simp add: searched_def)
    next
      case False
      with r Cons.prems(2) have v1: "search_inv v1" "gray v1 = {}" "black v \<union> {i} \<subseteq> black v1" by (simp_all add: searched_def)
      obtain q where q: "dfs_all adj n is v1 = Some q" "if q then \<not> acyclic E else \<exists>v'. search_inv v' \<and> black v1 \<union> set is \<subseteq> black v'"
        using Cons.IH [OF v1(1,2)] Cons.prems(3) by auto
      then show ?thesis using True r(1) False v1(3) by (cases q) (simp, auto)
    qed
  next
    case False
    have "v ! i \<le> 2" using Cons.prems(1) len by (simp add: search_inv_def)
    moreover have "v ! i \<noteq> 1" using Cons.prems(2) len by (auto simp: gray_def)
    ultimately have "v ! i = 2" using False by linarith
    then have "i \<in> black v" using len by (simp add: black_def)
    moreover obtain q where q: "dfs_all adj n is v = Some q" "if q then \<not> acyclic E else \<exists>v'. search_inv v' \<and> black v \<union> set is \<subseteq> black v'"
      using Cons.IH [OF Cons.prems(1,2)] Cons.prems(3) by auto
    ultimately show ?thesis using False by (cases q) (simp, auto)
  qed
qed auto

text \<open>The cycle search returns, and answers whether there is a cycle.\<close>

lemma cycle_search_exact: "dfs_all adj n [0..<n] (replicate n 0) = Some (\<not> acyclic E)"
proof -
  have v: "search_inv (replicate n 0)" "gray (replicate n 0) = {}" by (auto simp: search_inv_def black_def gray_def)
  obtain r where r: "dfs_all adj n [0..<n] (replicate n 0) = Some r"
    "if r then \<not> acyclic E else \<exists>v'. search_inv v' \<and> black (replicate n 0) \<union> set [0..<n] \<subseteq> black v'"
    using dfs_all_spec [OF v, of "[0..<n]"] unfolding set_upt atLeast0LessThan by blast
  have "acyclic E" if nr: "\<not> r"
  proof -
    obtain v' where "search_inv v'" "{..<n} \<subseteq> black v'" using r(2) nr by (auto simp: atLeast0LessThan)
    then have "(x, x) \<notin> E\<^sup>+" for x
      by (cases "x < n") (auto simp: search_inv_def E_def dest: tranclD)
    then show ?thesis by (simp add: acyclic_def)
  qed
  with r show ?thesis by (cases r) auto
qed

text \<open>The post-order walk in an acyclic graph; \<open>A\<close> is the chain of services being visited.\<close>

definition topological :: "nat list \<Rightarrow> bool" where
  "topological xs \<longleftrightarrow> (\<forall>k < length xs. set (adj (xs ! k)) \<subseteq> set (take k xs))"

lemma topological_snoc: "topological (xs @ [i]) \<longleftrightarrow> topological xs \<and> set (adj i) \<subseteq> set xs"
  by (auto simp: topological_def nth_append less_Suc_eq)

definition walk_inv :: "nat set \<Rightarrow> bool list \<times> nat list \<Rightarrow> bool" where
  "walk_inv A st \<longleftrightarrow> length (fst st) = n \<and> {i. i < n \<and> fst st ! i} = set (snd st) \<union> A \<and> set (snd st) \<inter> A = {} \<and>
     distinct (snd st) \<and> topological (snd st)"

definition todo :: "bool list \<times> nat list \<Rightarrow> nat set" where
  "todo st = {i. i < n \<and> \<not> fst st ! i}"

definition walked :: "nat set \<Rightarrow> bool list \<times> nat list \<Rightarrow> nat set \<Rightarrow> bool list \<times> nat list \<Rightarrow> bool" where
  "walked A st S st' \<longleftrightarrow> walk_inv A st' \<and> set (snd st) \<union> S \<subseteq> set (snd st') \<and> todo st' \<subseteq> todo st"

definition walks :: "nat \<Rightarrow> (nat \<Rightarrow> bool list \<times> nat list \<Rightarrow> (bool list \<times> nat list) option) \<Rightarrow> bool" where
  "walks k f \<longleftrightarrow> (\<forall>A i st. walk_inv A st \<longrightarrow> i < n \<longrightarrow> (\<forall>a \<in> A. (a, i) \<in> E\<^sup>+) \<longrightarrow> card (todo st) < k \<longrightarrow>
     (\<exists>st'. f i st = Some st' \<and> walked A st {i} st'))"

lemma finite_todo [simp]: "finite (todo st)"
  by (simp add: todo_def)

lemma visit_deps_spec:
  assumes f: "walks k f"
  shows "walk_inv A st \<Longrightarrow> \<forall>j \<in> set js. j < n \<and> (\<forall>a \<in> A. (a, j) \<in> E\<^sup>+) \<Longrightarrow> card (todo st) < k \<Longrightarrow>
    \<exists>st'. visit_deps f js st = Some st' \<and> walked A st (set js) st'"
proof (induction js arbitrary: st)
  case Nil
  then show ?case by (simp add: walked_def)
next
  case (Cons j js)
  obtain s1 where s1: "f j st = Some s1" "walked A st {j} s1"
    using f [unfolded walks_def, rule_format, OF Cons.prems(1), of j] Cons.prems(2,3) by auto
  then have w: "walk_inv A s1" "card (todo s1) < k"
    using card_mono [OF finite_todo, of "todo s1" st] Cons.prems(3) by (simp_all add: walked_def)
  obtain s2 where "visit_deps f js s1 = Some s2" "walked A s1 (set js) s2"
    using Cons.IH [OF w(1) _ w(2)] Cons.prems(2) by auto
  with s1 show ?case by (auto simp: walked_def)
qed

lemma visit_walks:
  assumes "acyclic E"
  shows "walks k (visit adj k)"
proof (induction k)
  case 0
  show ?case by (simp add: walks_def)
next
  case (Suc k)
  show ?case
    unfolding walks_def
  proof (intro allI impI)
    fix A i st assume w: "walk_inv A st" and i: "i < n" and reach: "\<forall>a \<in> A. (a, i) \<in> E\<^sup>+" and c: "card (todo st) < Suc k"
    obtain vs ord where st: "st = (vs, ord)" by (cases st)
    have iA: "i \<notin> A" using reach assms by (auto simp: acyclic_def)
    show "\<exists>st'. visit adj (Suc k) i st = Some st' \<and> walked A st {i} st'"
    proof (cases "vs ! i")
      case True
      then have "i \<in> set ord" using w st i iA by (auto simp: walk_inv_def)
      with True w st show ?thesis by (simp add: walked_def)
    next
      case False
      let ?st = "(vs[i := True], ord)"
      have len: "length vs = n" using w st by (simp add: walk_inv_def)
      have io: "i \<notin> set ord" using w st False i by (auto simp: walk_inv_def)
      have w1: "walk_inv (insert i A) ?st"
        using w st i io len by (auto simp: walk_inv_def nth_list_update)
      have td: "todo ?st = todo st - {i}" "i \<in> todo st" using st i len False by (auto simp: todo_def nth_list_update)
      have "card (todo st) > 0" using td(2) by (auto simp: card_gt_0_iff)
      then have c1: "card (todo ?st) < k" using c td by simp
      have "(a, j) \<in> E\<^sup>+" if "j \<in> set (adj i)" "a \<in> insert i A" for j a
      proof -
        have "(i, j) \<in> E" using that i by (simp add: E_def)
        then show ?thesis using that(2) reach by (auto intro: trancl_into_trancl)
      qed
      then obtain s1 where s1: "visit_deps (visit adj k) (adj i) ?st = Some s1" "walked (insert i A) ?st (set (adj i)) s1"
        using visit_deps_spec [OF Suc w1 _ c1, of "adj i"] adj_bound [OF i] by auto
      obtain v1 o1 where o: "s1 = (v1, o1)" by (cases s1)
      have "i \<notin> set o1" using s1(2) o by (auto simp: walked_def walk_inv_def)
      then have "walked A st {i} (v1, o1 @ [i])"
        using s1(2) o st td(1) iA by (auto simp: walked_def walk_inv_def topological_snoc todo_def)
      then show ?thesis using False st s1(1) o by simp
    qed
  qed
qed

text \<open>The boot order: every service once, each after all its dependencies.\<close>

lemma boot_walk:
  assumes "acyclic E"
  shows "\<exists>vs ord. visit_deps (visit adj (Suc n)) [0..<n] (replicate n False, []) = Some (vs, ord) \<and>
    distinct ord \<and> set ord = {..<n} \<and> (\<forall>k < length ord. set (adj (ord ! k)) \<subseteq> set (take k ord))"
proof -
  have w: "walk_inv {} (replicate n False, [])" by (auto simp: walk_inv_def topological_def)
  have "todo (replicate n False, []) \<subseteq> {..<n}" by (auto simp: todo_def)
  then have "card (todo (replicate n False, [])) < Suc n" using card_mono [of "{..<n}" "todo (replicate n False, [])"] by simp
  then obtain st where st: "visit_deps (visit adj (Suc n)) [0..<n] (replicate n False, []) = Some st"
    "walked {} (replicate n False, []) (set [0..<n]) st"
    using visit_deps_spec [OF visit_walks [OF assms, of "Suc n"] w, of "[0..<n]"] by auto
  then have "set (snd st) = {..<n}" "distinct (snd st)" "topological (snd st)" by (auto simp: walked_def walk_inv_def)
  with st(1) show ?thesis by (cases st) (auto simp: topological_def)
qed

end

end
