(* ===== verification/Service_Manager.thy ===== *)
theory Service_Manager
  imports Service_Graph Cap_Abi Byte_Codec
begin

section \<open>The service supervisor\<close>

text \<open>
  \<^verbatim>\<open>ServiceManager\<close> of \<^verbatim>\<open>kernel/src/service.rs\<close> with the request protocol of \<^verbatim>\<open>spark-abi/src/service.rs\<close>:
  registration, dependency order, discovery, restart policy, reconnection and the dispatcher. The tick a heartbeat
  records is an argument.
\<close>

datatype restart_policy = Always | OnFailure | Never

datatype service_state = SStopped | SStarting | SRunning | SRestarting | SFailed

record service_definition =
  sname :: string
  spath :: string
  dependencies :: "string list"
  policy :: restart_policy
  is_critical :: bool
  max_retries :: nat

record service_instance =
  sid :: nat
  def :: service_definition
  sstate :: service_state
  spid :: "nat option"
  restart_count :: nat
  last_exit_code :: "nat option"
  endpoint_id :: "nat option"
  svc_cap :: "cap_handle option"
  sgeneration :: nat
  last_heartbeat_tick :: nat

datatype supervisor_action = Restart nat | Stop nat | CriticalFailure nat | Ignore

record service_manager =
  services :: "service_instance list"
  init_pid :: "nat option"

definition new_manager :: service_manager where
  "new_manager = \<lparr>services = [], init_pid = None\<rparr>"

definition set_init_pid :: "nat \<Rightarrow> service_manager \<Rightarrow> service_manager" where
  "set_init_pid pid m = m\<lparr>init_pid := Some pid\<rparr>"

definition named :: "string \<Rightarrow> service_instance \<Rightarrow> bool" where
  "named name s \<longleftrightarrow> sname (def s) = name"

definition register :: "service_definition \<Rightarrow> service_manager \<Rightarrow> (string, nat) result \<times> service_manager" where
  "register d m =
     (if list_ex (named (sname d)) (services m) then (Err ''Duplicate service name'', m)
      else let i = length (services m) in
        (Ok i, m\<lparr>services := services m @
           [\<lparr>sid = i, def = d, sstate = SStopped, spid = None, restart_count = 0, last_exit_code = None, endpoint_id = None,
             svc_cap = None, sgeneration = 1, last_heartbeat_tick = 0\<rparr>]\<rparr>))"

subsection \<open>Dependencies\<close>

definition dep_indices :: "service_instance list \<Rightarrow> nat \<Rightarrow> nat list" where
  "dep_indices ss i = List.map_filter (\<lambda>name. position (named name) ss) (dependencies (def (ss ! i)))"

definition has_cycle :: "service_manager \<Rightarrow> bool option" where
  "has_cycle m =
     (let n = length (services m) in dfs_all (dep_indices (services m)) n [0..<n] (replicate n 0))"

definition get_boot_order :: "service_manager \<Rightarrow> (string, nat list) result option" where
  "get_boot_order m = do {
     c \<leftarrow> has_cycle m;
     if c then Some (Err ''Dependency cycle detected'')
     else do {
       let n = length (services m);
       (vs, ord) \<leftarrow> visit_deps (visit (dep_indices (services m)) (Suc n)) [0..<n] (replicate n False, []);
       Some (Ok ord)
     }
   }"

definition get_shutdown_order :: "service_manager \<Rightarrow> (string, nat list) result option" where
  "get_shutdown_order m = map_option (map_sum id rev) (get_boot_order m)"

subsection \<open>Discovery and supervision\<close>

definition update_first :: "(service_instance \<Rightarrow> bool) \<Rightarrow> (service_instance \<Rightarrow> service_instance) \<Rightarrow> service_manager \<Rightarrow> service_manager option" where
  "update_first P f m =
     (case position P (services m) of
        None \<Rightarrow> None
      | Some i \<Rightarrow> Some (m\<lparr>services := (services m)[i := f (services m ! i)]\<rparr>))"

definition set_service_ready ::
    "string \<Rightarrow> nat \<Rightarrow> nat \<Rightarrow> cap_handle option \<Rightarrow> service_manager \<Rightarrow> (string, unit) result \<times> service_manager" where
  "set_service_ready name pid ep c m =
     (case update_first (named name) (\<lambda>s. s\<lparr>spid := Some pid, endpoint_id := Some ep, svc_cap := c, sstate := SRunning\<rparr>) m of
        None \<Rightarrow> (Err ''Service not found'', m)
      | Some m1 \<Rightarrow> (Ok (), m1))"

definition lookup :: "string \<Rightarrow> service_manager \<Rightarrow> (nat \<times> cap_handle option \<times> nat \<times> nat) option" where
  "lookup name m = do {
     s \<leftarrow> find (named name) (services m);
     if sstate s = SRunning then do {
       ep \<leftarrow> endpoint_id s;
       pid \<leftarrow> spid s;
       Some (ep, svc_cap s, pid, sgeneration s)
     } else None
   }"

definition record_heartbeat :: "nat \<Rightarrow> nat \<Rightarrow> service_manager \<Rightarrow> bool \<times> service_manager" where
  "record_heartbeat pid tick m =
     (case update_first (\<lambda>s. spid s = Some pid) (\<lambda>s. s\<lparr>last_heartbeat_tick := tick\<rparr>) m of
        None \<Rightarrow> (False, m)
      | Some m1 \<Rightarrow> (True, m1))"

definition exit_decision :: "nat \<Rightarrow> nat \<Rightarrow> service_instance \<Rightarrow> supervisor_action \<times> service_instance" where
  "exit_decision i code s0 =
     (let s = s0\<lparr>last_exit_code := Some code, spid := None, sgeneration := wrapping_add 32 (sgeneration s0) 1\<rparr>;
          again = (Restart i, s\<lparr>restart_count := restart_count s + 1, sstate := SRestarting\<rparr>) in
      if max_retries (def s) \<le> restart_count s
      then (if is_critical (def s) then CriticalFailure i else Stop i, s\<lparr>sstate := SFailed\<rparr>)
      else case policy (def s) of
        Always \<Rightarrow> again
      | OnFailure \<Rightarrow> if code \<noteq> 0 then again else (Stop i, s\<lparr>sstate := SStopped\<rparr>)
      | Never \<Rightarrow> (Stop i, s\<lparr>sstate := SStopped\<rparr>))"

definition handle_process_exit :: "nat \<Rightarrow> nat \<Rightarrow> service_manager \<Rightarrow> supervisor_action \<times> service_manager" where
  "handle_process_exit pid code m =
     (case position (\<lambda>s. spid s = Some pid) (services m) of
        None \<Rightarrow> (Ignore, m)
      | Some i \<Rightarrow> (let (a, s) = exit_decision i code (services m ! i) in (a, m\<lparr>services := (services m)[i := s]\<rparr>)))"

definition reconnect :: "string \<Rightarrow> nat \<Rightarrow> service_manager \<Rightarrow> (string, nat \<times> cap_handle option \<times> nat \<times> nat) result" where
  "reconnect name old_generation m =
     (case find (named name) (services m) of
        None \<Rightarrow> Err ''Service not found''
      | Some s \<Rightarrow>
          if sstate s \<noteq> SRunning then Err ''Service not running yet''
          else case endpoint_id s of
            None \<Rightarrow> Err ''Endpoint missing''
          | Some ep \<Rightarrow>
              (case spid s of
                 None \<Rightarrow> Err ''PID missing''
               | Some pid \<Rightarrow>
                   if old_generation < sgeneration s then Ok (ep, svc_cap s, pid, sgeneration s)
                   else Ok (ep, svc_cap s, pid, sgeneration s)))"

subsection \<open>Requests\<close>

definition MAX_SERVICE_NAME_LEN :: nat where "MAX_SERVICE_NAME_LEN = 32"
definition SVC_OP_REGISTER :: nat where "SVC_OP_REGISTER = 1"
definition SVC_OP_LOOKUP :: nat where "SVC_OP_LOOKUP = 2"
definition SVC_OP_READY :: nat where "SVC_OP_READY = 3"
definition SVC_OP_HEARTBEAT :: nat where "SVC_OP_HEARTBEAT = 4"
definition SVC_OP_RECONNECT :: nat where "SVC_OP_RECONNECT = 6"

record service_request =
  sq_opcode :: nat
  sq_client_pid :: nat
  sq_name :: "byte list"
  sq_name_len :: nat
  sq_extra :: nat

record service_response =
  sr_status :: nat
  sr_endpoint_id :: nat
  sr_service_pid :: nat
  sr_generation :: nat
  sr_restart_count :: nat

definition svc_empty_request :: service_request where
  "svc_empty_request = \<lparr>sq_opcode = 0, sq_client_pid = 0, sq_name = replicate MAX_SERVICE_NAME_LEN 0, sq_name_len = 0, sq_extra = 0\<rparr>"

definition set_name :: "string \<Rightarrow> service_request \<Rightarrow> service_request" where
  "set_name p r =
     (let n = min (length p) MAX_SERVICE_NAME_LEN in
      r\<lparr>sq_name := overwrite 0 (take n (as_bytes p)) (replicate MAX_SERVICE_NAME_LEN 0), sq_name_len := n\<rparr>)"

definition name_str :: "service_request \<Rightarrow> string" where
  "name_str r =
     (case from_utf8 (take (min (sq_name_len r) MAX_SERVICE_NAME_LEN) (sq_name r)) of Some s \<Rightarrow> s | None \<Rightarrow> [])"

definition svc_ok :: "nat \<Rightarrow> nat \<Rightarrow> nat \<Rightarrow> nat \<Rightarrow> service_response" where
  "svc_ok ep pid gen rc =
     \<lparr>sr_status = 0, sr_endpoint_id = ep, sr_service_pid = pid, sr_generation = gen, sr_restart_count = rc\<rparr>"

definition svc_err :: "nat \<Rightarrow> service_response" where
  "svc_err e = \<lparr>sr_status = e, sr_endpoint_id = 0, sr_service_pid = 0, sr_generation = 0, sr_restart_count = 0\<rparr>"

definition dispatch_request ::
    "nat \<Rightarrow> service_request \<Rightarrow> cap_handle option \<Rightarrow> service_manager \<Rightarrow> (service_response \<times> cap_handle option) \<times> service_manager" where
  "dispatch_request tick req attached m =
     (let name = name_str req in
      if sq_opcode req = SVC_OP_REGISTER then
        let m1 = snd (register \<lparr>sname = name, spath = name, dependencies = [], policy = Always, is_critical = False, max_retries = 5\<rparr> m);
            ep = sq_extra req mod 2 ^ 32;
            m2 = snd (set_service_ready name (sq_client_pid req) ep attached m1)
        in ((svc_ok ep (sq_client_pid req) 1 0, None), m2)
      else if sq_opcode req = SVC_OP_LOOKUP then
        (case lookup name m of
           Some (ep, c, pid, gen) \<Rightarrow> ((svc_ok ep pid gen 0, c), m)
         | None \<Rightarrow> ((svc_err 2, None), m))
      else if sq_opcode req = SVC_OP_READY then
        (if sq_extra req mod 2 ^ 32 = 0 then
           (case position (\<lambda>s. named name s \<or> spid s = Some (sq_client_pid req)) (services m) of
              Some i \<Rightarrow>
                let s = services m ! i in
                ((svc_ok (case endpoint_id s of Some e \<Rightarrow> e | None \<Rightarrow> 0) (sq_client_pid req) (sgeneration s) (restart_count s), None),
                 m\<lparr>services := (services m)[i := s\<lparr>sstate := SRunning\<rparr>]\<rparr>)
            | None \<Rightarrow> ((svc_err 22, None), m))
         else ((svc_err 22, None), m))
      else if sq_opcode req = SVC_OP_HEARTBEAT then
        (case record_heartbeat (sq_client_pid req) tick m of
           (True, m1) \<Rightarrow> ((svc_ok 0 (sq_client_pid req) 0 0, None), m1)
         | (False, m1) \<Rightarrow> ((svc_err 3, None), m1))
      else if sq_opcode req = SVC_OP_RECONNECT then
        (case reconnect name (sq_extra req mod 2 ^ 32) m of
           Ok (ep, c, pid, gen) \<Rightarrow> ((svc_ok ep pid gen 0, c), m)
         | Err _ \<Rightarrow> ((svc_err 11, None), m))
      else ((svc_err 38, None), m))"

subsection \<open>The dependency graph\<close>

interpretation svc: dep_graph "dep_indices ss" "length ss" for ss
proof
  fix i j assume "i < length ss" "j \<in> set (dep_indices ss i)"
  then show "j < length ss"
    by (auto simp: dep_indices_def List.map_filter_def dest: position_in_range)
qed

definition depends_on :: "service_instance list \<Rightarrow> (nat \<times> nat) set" where
  "depends_on ss = {(i, j). i < length ss \<and> j < length ss \<and>
     (\<exists>name \<in> set (dependencies (def (ss ! i))). position (named name) ss = Some j)}"

lemma dep_indices_set: "set (dep_indices ss i) = {j. \<exists>name \<in> set (dependencies (def (ss ! i))). position (named name) ss = Some j}"
  by (force simp: dep_indices_def List.map_filter_def)

lemma svc_E: "svc.E ss = depends_on ss"
  by (auto simp: svc.E_def depends_on_def dep_indices_set dest: position_in_range)

lemma has_cycle_exact: "has_cycle m = Some (\<not> acyclic (depends_on (services m)))"
  using svc.cycle_search_exact [of "services m"] by (simp add: has_cycle_def svc_E Let_def)

subsection \<open>Supervision, event by event\<close>

datatype svc_event =
    Exit nat nat
  | Define service_definition
  | Ready string nat nat "cap_handle option"
  | Request nat service_request "cap_handle option"

fun svc_step :: "svc_event \<Rightarrow> service_manager \<Rightarrow> supervisor_action \<times> service_manager" where
  "svc_step (Exit pid code) m = handle_process_exit pid code m"
| "svc_step (Define d) m = (Ignore, snd (register d m))"
| "svc_step (Ready name pid ep c) m = (Ignore, snd (set_service_ready name pid ep c m))"
| "svc_step (Request tick req c) m = (Ignore, snd (dispatch_request tick req c m))"

fun svc_run :: "svc_event list \<Rightarrow> service_manager \<Rightarrow> supervisor_action list \<times> service_manager" where
  "svc_run [] m = ([], m)"
| "svc_run (e # es) m = (let (a, m1) = svc_step e m; (as, m2) = svc_run es m1 in (a # as, m2))"

text \<open>What no request changes of a service: its definition and its restart count.\<close>

definition same_books :: "service_manager \<Rightarrow> service_manager \<Rightarrow> bool" where
  "same_books m m' \<longleftrightarrow> length (services m) \<le> length (services m') \<and>
     (\<forall>i < length (services m). def (services m' ! i) = def (services m ! i) \<and>
        restart_count (services m' ! i) = restart_count (services m ! i))"

lemma same_books_refl: "same_books m m"
  by (simp add: same_books_def)

lemma same_books_trans: "same_books a b \<Longrightarrow> same_books b c \<Longrightarrow> same_books a c"
  by (auto simp: same_books_def)

lemma same_books_upd:
  "def s = def (services m ! i) \<Longrightarrow> restart_count s = restart_count (services m ! i) \<Longrightarrow>
   same_books m (m\<lparr>services := (services m)[i := s]\<rparr>)"
  by (auto simp: same_books_def nth_upd)

lemma same_books_register: "same_books m (snd (register d m))"
  by (simp add: register_def same_books_def Let_def nth_append)

lemma same_books_ready: "same_books m (snd (set_service_ready name pid ep c m))"
  by (auto simp: set_service_ready_def update_first_def same_books_refl intro!: same_books_upd split: option.splits)

lemma same_books_heartbeat: "same_books m (snd (record_heartbeat pid tick m))"
  by (auto simp: record_heartbeat_def update_first_def same_books_refl intro!: same_books_upd split: option.splits)

lemma same_books_dispatch: "same_books m (snd (dispatch_request tick req c m))"
proof -
  have hb: "same_books m m1" if "record_heartbeat (sq_client_pid req) tick m = (b, m1)" for b m1
    using same_books_heartbeat [of m "sq_client_pid req" tick] that by simp
  consider "sq_opcode req = SVC_OP_REGISTER" | "sq_opcode req = SVC_OP_HEARTBEAT"
    | "sq_opcode req \<noteq> SVC_OP_REGISTER" "sq_opcode req \<noteq> SVC_OP_HEARTBEAT" by blast
  then show ?thesis
  proof cases
    case 1
    then show ?thesis
      by (simp add: dispatch_request_def Let_def same_books_trans [OF same_books_register same_books_ready])
  next
    case 2
    then show ?thesis
      using hb by (simp add: dispatch_request_def Let_def SVC_OP_REGISTER_def SVC_OP_LOOKUP_def SVC_OP_READY_def SVC_OP_HEARTBEAT_def
        split: prod.split bool.split)
  next
    case 3
    then show ?thesis
      by (auto simp: dispatch_request_def Let_def same_books_refl intro!: same_books_upd split: option.split sum.split)
  qed
qed

lemma exit_decision_books:
  assumes "exit_decision j code s0 = (a, s)"
  shows "def s = def s0" and "restart_count s = restart_count s0 + (if a = Restart j then 1 else 0)"
    and "a = Restart i \<longrightarrow> i = j \<and> restart_count s0 < max_retries (def s0)"
  using assms by (auto simp: exit_decision_def Let_def split: if_splits restart_policy.splits)

lemma svc_step_books:
  assumes "svc_step e m = (a, m')" and "i < length (services m)"
  shows "i < length (services m')" and "def (services m' ! i) = def (services m ! i)"
    and "restart_count (services m' ! i) = restart_count (services m ! i) + (if a = Restart i then 1 else 0)"
    and "a = Restart i \<Longrightarrow> restart_count (services m ! i) < max_retries (def (services m ! i))"
proof -
  have "i < length (services m') \<and> def (services m' ! i) = def (services m ! i) \<and>
    restart_count (services m' ! i) = restart_count (services m ! i) + (if a = Restart i then 1 else 0) \<and>
    (a = Restart i \<longrightarrow> restart_count (services m ! i) < max_retries (def (services m ! i)))"
  proof (cases "\<exists>pid code. e = Exit pid code")
    case True
    then obtain pid code where e: "e = Exit pid code" by blast
    show ?thesis
    proof (cases "position (\<lambda>s. spid s = Some pid) (services m)")
      case None
      with assms e show ?thesis by (auto simp: handle_process_exit_def)
    next
      case (Some j)
      obtain b s where d: "exit_decision j code (services m ! j) = (b, s)" by (cases "exit_decision j code (services m ! j)")
      then have m': "a = b" "m' = m\<lparr>services := (services m)[j := s]\<rparr>" using assms(1) e Some by (simp_all add: handle_process_exit_def)
      note bk = exit_decision_books [OF d]
      show ?thesis
      proof (cases "i = j")
        case True
        then show ?thesis using bk(1,2) bk(3) [of i] m' assms(2) by simp
      next
        case False
        then show ?thesis using bk(3) [of i] m' assms(2) by auto
      qed
    qed
  next
    case False
    then have "a = Ignore" "same_books m m'"
      using assms(1) same_books_register same_books_ready same_books_dispatch by (cases e; force)+
    then show ?thesis using assms(2) by (auto simp: same_books_def)
  qed
  then show "i < length (services m')" "def (services m' ! i) = def (services m ! i)"
    "restart_count (services m' ! i) = restart_count (services m ! i) + (if a = Restart i then 1 else 0)"
    "a = Restart i \<Longrightarrow> restart_count (services m ! i) < max_retries (def (services m ! i))" by blast+
qed

subsection \<open>Properties\<close>

text \<open>
  C29. The boot order always comes back: an error exactly when the dependencies have a cycle, and otherwise a list of
  every service once in which each service stands after all the services it depends on. The shutdown order is its
  reverse.
\<close>
theorem boot_order_topological:
  "\<exists>r. get_boot_order m = Some r \<and> get_shutdown_order m = Some (map_sum id rev r) \<and>
    (case r of
       Err _ \<Rightarrow> \<not> acyclic (depends_on (services m))
     | Ok ord \<Rightarrow> acyclic (depends_on (services m)) \<and> distinct ord \<and> set ord = {..<length (services m)} \<and>
         (\<forall>k < length ord. depends_on (services m) `` {ord ! k} \<subseteq> set (take k ord)))"
proof (cases "acyclic (depends_on (services m))")
  case True
  let ?n = "length (services m)" and ?adj = "dep_indices (services m)"
  obtain vs ord where o: "visit_deps (visit ?adj (Suc ?n)) [0..<?n] (replicate ?n False, []) = Some (vs, ord)"
    "distinct ord" "set ord = {..<?n}" "\<forall>k < length ord. set (?adj (ord ! k)) \<subseteq> set (take k ord)"
    using svc.boot_walk [of "services m"] True by (auto simp: svc_E)
  have "depends_on (services m) `` {i} \<subseteq> set (?adj i)" for i by (auto simp: depends_on_def dep_indices_set)
  then have "\<forall>k < length ord. depends_on (services m) `` {ord ! k} \<subseteq> set (take k ord)" using o(4) by blast
  moreover have "get_boot_order m = Some (Ok ord)" using True o(1) by (simp add: get_boot_order_def has_cycle_exact Let_def)
  ultimately show ?thesis using True o(2,3) by (intro exI [of _ "Ok ord"]) (simp add: get_shutdown_order_def)
next
  case False
  then have "get_boot_order m = Some (Err ''Dependency cycle detected'')" by (simp add: get_boot_order_def has_cycle_exact)
  with False show ?thesis by (simp add: get_shutdown_order_def)
qed

definition two_services :: service_manager where
  "two_services = snd (register \<lparr>sname = ''fs'', spath = ''/bin/fs'', dependencies = [], policy = Always, is_critical = True, max_retries = 1\<rparr>
     (snd (register \<lparr>sname = ''shell'', spath = ''/bin/sh'', dependencies = [''fs''], policy = OnFailure, is_critical = False, max_retries = 2\<rparr>
       new_manager)))"

theorem boot_order_topological_witness:
  "\<exists>ord. get_boot_order two_services = Some (Ok ord) \<and> distinct ord \<and> set ord = {..<2} \<and> get_shutdown_order two_services = Some (Ok (rev ord))"
proof -
  have "get_boot_order two_services = Some (Ok [1, 0])"
    by (simp add: two_services_def register_def new_manager_def named_def get_boot_order_def has_cycle_def dep_indices_def
      List.map_filter_def numeral_2_eq_2 upt_rec)
  moreover have "length (services two_services) = 2"
    by (simp add: two_services_def register_def new_manager_def named_def)
  ultimately show ?thesis using boot_order_topological [of two_services] by auto
qed

text \<open>
  A service is restarted at most \<^verbatim>\<open>max_retries\<close> times: over any sequence of exits, registrations, handshakes and
  requests, the number of restarts the supervisor orders for a service is exactly what its restart count grew by, and
  the count never exceeds the limit of its definition, which no event changes.
\<close>
theorem restarts_are_bounded:
  assumes "svc_run es m = (acts, m')" and "i < length (services m)"
    and "restart_count (services m ! i) \<le> max_retries (def (services m ! i))"
  shows "i < length (services m') \<and> def (services m' ! i) = def (services m ! i) \<and>
    restart_count (services m' ! i) = restart_count (services m ! i) + length (filter (\<lambda>a. a = Restart i) acts) \<and>
    restart_count (services m' ! i) \<le> max_retries (def (services m ! i))"
  using assms
proof (induction es arbitrary: m acts)
  case (Cons e es)
  obtain a m1 where st: "svc_step e m = (a, m1)" by (cases "svc_step e m")
  obtain as where rn: "svc_run es m1 = (as, m')" "acts = a # as" using Cons.prems(1) st by (cases "svc_run es m1") simp
  note bk = svc_step_books [OF st Cons.prems(2)]
  have "restart_count (services m1 ! i) \<le> max_retries (def (services m1 ! i))"
    using bk(2-4) Cons.prems(3) by (cases "a = Restart i") auto
  from Cons.IH [OF rn(1) bk(1) this] bk(2,3) rn(2) show ?case by simp
qed simp

theorem restarts_are_bounded_witness:
  "\<exists>acts m'. svc_run [Ready ''fs'' 40 7 None, Exit 40 1, Ready ''fs'' 41 7 None, Exit 41 1] two_services = (acts, m') \<and>
    restart_count (services m' ! 1) = length (filter (\<lambda>a. a = Restart 1) acts) \<and> restart_count (services m' ! 1) \<le> 1"
proof -
  let ?es = "[Ready ''fs'' 40 7 None, Exit 40 1, Ready ''fs'' 41 7 None, Exit 41 1]"
  obtain acts m' where r: "svc_run ?es two_services = (acts, m')" by (cases "svc_run ?es two_services")
  have "1 < length (services two_services)" "restart_count (services two_services ! 1) = 0"
    "max_retries (def (services two_services ! 1)) = 1"
    by (simp_all add: two_services_def register_def new_manager_def named_def)
  with restarts_are_bounded [OF r, of 1] r show ?thesis by simp
qed

end
