(* ===== verification/Net_Packet.thy ===== *)
theory Net_Packet
  imports Byte_Codec
begin

section \<open>Packets of the network stack\<close>

text \<open>
  The pure part of \<^verbatim>\<open>kernel/src/net.rs\<close>: the Internet checksum, the construction of IPv4, UDP and TCP packets, and
  the parsers of what comes in. A \<^verbatim>\<open>u16\<close> or \<^verbatim>\<open>u32\<close> field is a \<open>nat\<close> with its width written out; an address is the
  list of its bytes. Outside a parser \<open>None\<close> is a panic; in a parser it is the source's own \<^verbatim>\<open>None\<close>.
\<close>

subsection \<open>Big-endian fields\<close>

definition be_bytes :: "nat \<Rightarrow> nat \<Rightarrow> byte list" where "be_bytes n v = rev (le_bytes n v)"

definition be_val :: "byte list \<Rightarrow> nat" where "be_val bs = le_val (rev bs)"

definition be_field :: "byte list \<Rightarrow> nat \<Rightarrow> nat \<Rightarrow> nat" where
  "be_field s off n = be_val (take n (drop off s))"

lemma length_be_bytes [simp]: "length (be_bytes n v) = n"
  by (simp add: be_bytes_def)

lemma be_val_be_bytes [simp]: "v < 256 ^ n \<Longrightarrow> be_val (be_bytes n v) = v"
  by (simp add: be_val_def be_bytes_def)

lemma be_field_at: "length xs = off \<Longrightarrow> length ys = n \<Longrightarrow> be_field (xs @ ys @ zs) off n = be_val ys"
  by (simp add: be_field_def)

lemma be_field_shift: "length xs = k \<Longrightarrow> be_field (xs @ s) (k + off) n = be_field s off n"
  by (simp add: be_field_def)

lemma be_field_bound: "be_field s off n < 256 ^ n"
proof -
  have "le_val (rev (take n (drop off s))) < 256 ^ length (rev (take n (drop off s)))" by (rule le_val_bound)
  also have "\<dots> \<le> 256 ^ n" by (rule power_increasing) simp_all
  finally show ?thesis by (simp add: be_field_def be_val_def)
qed

lemma be_bytes_2: "be_bytes 2 v = [word_of_nat (v div 256 mod 256), word_of_nat (v mod 256)]"
  by (simp add: be_bytes_def numeral_2_eq_2)

subsection \<open>The Internet checksum\<close>

text \<open>The sum is a \<^verbatim>\<open>u32\<close> whose additions are checked; an odd last byte counts as the high byte of a word.\<close>

fun word_sum :: "byte list \<Rightarrow> nat \<Rightarrow> nat option" where
  "word_sum [] s = Some s"
| "word_sum [b] s = checked_add 32 s (256 * unat b)"
| "word_sum (a # b # bs) s = Option.bind (checked_add 32 s (256 * unat a + unat b)) (word_sum bs)"

function fold_carry :: "nat \<Rightarrow> nat" where
  "fold_carry s = (if 0 < s div 65536 then fold_carry (s mod 65536 + s div 65536) else s)"
  by auto
termination
proof (relation "measure id")
  fix s :: nat
  assume "0 < s div 65536"
  moreover have "s = s mod 65536 + 65536 * (s div 65536)" by simp
  ultimately have "s mod 65536 + s div 65536 < s" by linarith
  then show "(s mod 65536 + s div 65536, s) \<in> measure id" by simp
qed simp

declare fold_carry.simps [simp del]

definition calculate_checksum :: "byte list \<Rightarrow> nat option" where
  "calculate_checksum bs = map_option (\<lambda>s. 65535 - fold_carry s) (word_sum bs 0)"

subsection \<open>Building packets\<close>

definition MY_IP :: "byte list" where "MY_IP = [10, 0, 2, 15]"

definition build_ipv4_packet :: "byte list \<Rightarrow> byte \<Rightarrow> byte list \<Rightarrow> byte list option" where
  "build_ipv4_packet dest_ip protocol payload =
     (let hdr = [0x45, 0x00] @ be_bytes 2 ((20 + length payload) mod 2 ^ 16) @ [0x12, 0x34] @ [0x00, 0x00] @ [64, protocol] @
                [0x00, 0x00] @ [10, 0, 2, 15] @ dest_ip in
      map_option (\<lambda>c. hdr[10 := word_of_nat (c div 256), 11 := word_of_nat (c mod 256)] @ payload)
        (calculate_checksum (take 20 hdr)))"

definition build_udp_packet :: "nat \<Rightarrow> nat \<Rightarrow> byte list \<Rightarrow> byte list" where
  "build_udp_packet src_port dest_port data =
     be_bytes 2 src_port @ be_bytes 2 dest_port @ be_bytes 2 ((8 + length data) mod 2 ^ 16) @ [0x00, 0x00] @ data"

definition FIN :: byte where "FIN = 0x01"
definition SYN :: byte where "SYN = 0x02"
definition RST :: byte where "RST = 0x04"
definition PSH :: byte where "PSH = 0x08"
definition ACK :: byte where "ACK = 0x10"

definition tcp_pseudo :: "byte list \<Rightarrow> byte list \<Rightarrow> byte list" where
  "tcp_pseudo dest_ip tcp = MY_IP @ dest_ip @ [0, 6] @ be_bytes 2 (length tcp mod 2 ^ 16) @ tcp"

definition build_tcp_packet :: "nat \<Rightarrow> nat \<Rightarrow> byte list \<Rightarrow> nat \<Rightarrow> nat \<Rightarrow> byte \<Rightarrow> byte list \<Rightarrow> byte list option" where
  "build_tcp_packet src_port dest_port dest_ip seq ack flags payload =
     (let tcp = be_bytes 2 src_port @ be_bytes 2 dest_port @ be_bytes 4 seq @ be_bytes 4 ack @ [0x50, flags] @
                be_bytes 2 8192 @ [0x00, 0x00] @ [0x00, 0x00] @ payload in
      map_option (\<lambda>c. tcp[16 := word_of_nat (c div 256), 17 := word_of_nat (c mod 256)])
        (calculate_checksum (tcp_pseudo dest_ip tcp)))"

subsection \<open>Parsing packets\<close>

record tcp_header =
  th_src_port :: nat
  th_dst_port :: nat
  th_seq :: nat
  th_ack :: nat
  th_flags :: byte
  data_offset :: nat

definition parse_tcp_header :: "byte list \<Rightarrow> nat \<Rightarrow> tcp_header option" where
  "parse_tcp_header packet t =
     (if length packet < t + 20 then None
      else Some \<lparr>th_src_port = be_field packet t 2, th_dst_port = be_field packet (t + 2) 2,
        th_seq = be_field packet (t + 4) 4, th_ack = be_field packet (t + 8) 4,
        th_flags = packet ! (t + 13), data_offset = unat (packet ! (t + 12)) div 16 * 4\<rparr>)"

text \<open>The header checksum is computed and not looked at, so a wrong one is accepted: the computation has no effect.\<close>

definition parse_ipv4_header :: "byte list \<Rightarrow> (byte list \<times> byte list \<times> byte \<times> nat) option" where
  "parse_ipv4_header packet =
     (if length packet < 20 then None
      else if unat (packet ! 0) div 16 \<noteq> 4 then None
      else let ihl = unat (packet ! 0) mod 16 * 4 in
      if length packet < ihl then None
      else if length packet < be_field packet 2 2 then None
      else Some (take 4 (drop 12 packet), take 4 (drop 16 packet), packet ! 9, ihl))"

definition parse_ipv4_payload :: "byte list \<Rightarrow> (byte list \<times> byte list \<times> byte \<times> nat) option" where
  "parse_ipv4_payload packet =
     (if length packet < 34 then None
      else if be_field packet 12 2 \<noteq> 0x0800 then None
      else case parse_ipv4_header (drop 14 packet) of
        Some (src, dst, proto, ihl) \<Rightarrow> Some (src, dst, proto, 14 + ihl)
      | None \<Rightarrow> None)"

subsection \<open>The TCP connection tracker\<close>

datatype tcp_state =
  TClosed | TListen | TSynSent | TSynReceived | TEstablished | TFinWait1 | TFinWait2 | TCloseWait | TClosing | TLastAck | TTimeWait

record tcp_tracker =
  tr_local_port :: nat
  tr_remote_ip :: "byte list"
  tr_remote_port :: nat
  tr_state :: tcp_state
  snd_una :: nat
  snd_nxt :: nat
  rcv_nxt :: nat
  snd_wnd :: nat

definition new_tracker :: "nat \<Rightarrow> byte list \<Rightarrow> nat \<Rightarrow> nat \<Rightarrow> tcp_tracker option" where
  "new_tracker local_port remote_ip remote_port isn =
     map_option (\<lambda>nxt. \<lparr>tr_local_port = local_port, tr_remote_ip = remote_ip, tr_remote_port = remote_port,
       tr_state = TSynSent, snd_una = isn, snd_nxt = nxt, rcv_nxt = 0, snd_wnd = 8192\<rparr>) (checked_add 32 isn 1)"

definition handle_syn_ack :: "nat \<Rightarrow> nat \<Rightarrow> tcp_tracker \<Rightarrow> bool \<times> tcp_tracker" where
  "handle_syn_ack seq ack t =
     (if tr_state t = TSynSent \<and> ack = snd_nxt t
      then (True, t\<lparr>tr_state := TEstablished, snd_una := ack, rcv_nxt := wrapping_add 32 seq 1\<rparr>)
      else (False, t))"

definition handle_fin :: "nat \<Rightarrow> tcp_tracker \<Rightarrow> tcp_tracker" where
  "handle_fin seq t =
     (if tr_state t = TEstablished then t\<lparr>tr_state := TCloseWait, rcv_nxt := wrapping_add 32 seq 1\<rparr>
      else if tr_state t = TFinWait1 \<or> tr_state t = TFinWait2 then t\<lparr>tr_state := TTimeWait, rcv_nxt := wrapping_add 32 seq 1\<rparr>
      else t)"

subsection \<open>Facts about the checksum\<close>

text \<open>The same sum in unbounded arithmetic.\<close>

fun wsum :: "byte list \<Rightarrow> nat" where
  "wsum [] = 0"
| "wsum [b] = 256 * unat b"
| "wsum (a # b # bs) = 256 * unat a + unat b + wsum bs"

lemma word_sum_eq: "word_sum bs s = (if s + wsum bs < 2 ^ 32 \<or> bs = [] then Some (s + wsum bs) else None)"
proof (induction bs s rule: word_sum.induct)
  case (3 a b bs s)
  then show ?case by (auto simp: checked_add_def add.assoc)
qed (auto simp: checked_add_def)

lemma wsum_append: "even (length xs) \<Longrightarrow> wsum (xs @ ys) = wsum xs + wsum ys"
  by (induction xs rule: wsum.induct) auto

lemma wsum_bound: "2 * wsum bs \<le> 65535 * (length bs + 1)"
proof (induction bs rule: wsum.induct)
  case (2 b)
  then show ?case using byte_bound [of b] by simp
next
  case (3 a b bs)
  then show ?case using byte_bound [of a] byte_bound [of b] by simp
qed simp

lemma wsum_be_bytes_2: "c < 65536 \<Longrightarrow> wsum (be_bytes 2 c) = c"
proof -
  assume "c < 65536"
  then have "256 * (c div 256 mod 256) + c mod 256 = c" by simp
  then show ?thesis by (simp only: be_bytes_2 wsum.simps unat_byte add_0_right)
qed

lemma fold_carry_small: "s < 65536 \<Longrightarrow> fold_carry s = s"
  by (simp add: fold_carry.simps)

lemma fold_carry_spec: "fold_carry s < 65536 \<and> fold_carry s mod 65535 = s mod 65535 \<and> (fold_carry s = 0 \<longleftrightarrow> s = 0)"
proof (induction s rule: fold_carry.induct)
  case (1 s)
  show ?case
  proof (cases "0 < s div 65536")
    case True
    have "s = (s mod 65536 + s div 65536) + s div 65536 * 65535" by simp
    then have "(s mod 65536 + s div 65536) mod 65535 = s mod 65535" by (metis mod_mult_self1)
    with 1 [OF True] True show ?thesis by (subst (1 2 3) fold_carry.simps) auto
  next
    case False
    then have "s < 65536" by simp
    then show ?thesis by (simp add: fold_carry_small)
  qed
qed

lemma calculate_checksum_Some: "wsum bs < 2 ^ 32 \<Longrightarrow> calculate_checksum bs = Some (65535 - fold_carry (wsum bs))"
  by (simp add: calculate_checksum_def word_sum_eq)

text \<open>What a receiver relies on: a packet whose checksum field was zero while it was summed adds up to zero with the field filled.\<close>

lemma checksum_verifies:
  assumes "even (length xs)" and "calculate_checksum (xs @ [0, 0] @ ys) = Some c" and "length xs + length ys < 100000"
  shows "calculate_checksum (xs @ be_bytes 2 c @ ys) = Some 0"
proof -
  let ?s = "wsum xs + wsum ys"
  have small: "?s + 65535 < 2 ^ 32" using wsum_bound [of xs] wsum_bound [of ys] assms(3) by simp
  have "wsum (xs @ [0, 0] @ ys) = ?s" using assms(1) by (simp add: wsum_append)
  with assms(2) small have c: "c = 65535 - fold_carry ?s" by (simp add: calculate_checksum_Some)
  then have "wsum (be_bytes 2 c) = c" by (simp add: wsum_be_bytes_2)
  then have w: "wsum (xs @ be_bytes 2 c @ ys) = ?s + c" using assms(1) by (simp add: wsum_append)
  have f: "fold_carry ?s < 65536" "fold_carry ?s mod 65535 = ?s mod 65535" using fold_carry_spec [of ?s] by auto
  have "(?s + c) mod 65535 = (fold_carry ?s + c) mod 65535" using f(2) by (metis mod_add_left_eq)
  also have "\<dots> = 0" using f(1) c by simp
  finally have "fold_carry (?s + c) mod 65535 = 0" using fold_carry_spec [of "?s + c"] by simp
  moreover have "?s + c \<noteq> 0" using c f(1) fold_carry_spec [of ?s] by (cases "?s = 0") auto
  ultimately have "fold_carry (?s + c) = 65535"
    using fold_carry_spec [of "?s + c"] by (cases "fold_carry (?s + c) < 65535") auto
  moreover have "?s + c < 2 ^ 32" using small c by simp
  ultimately show ?thesis by (simp add: calculate_checksum_Some w)
qed

subsection \<open>What is built is parsed back\<close>

lemma word_of_nat_high: "c < 65536 \<Longrightarrow> [word_of_nat (c div 256), word_of_nat (c mod 256)] = be_bytes 2 c"
  by (simp add: be_bytes_2)

lemma checksum_bound: "calculate_checksum bs = Some c \<Longrightarrow> c < 65536"
  by (auto simp: calculate_checksum_def)

lemma fill_checksum:
  assumes "length xs = k"
  shows "(xs @ [0, 0] @ ys)[k := a, Suc k := b] = xs @ [a, b] @ ys"
  using assms by (simp add: list_update_append)

definition ipv4_prefix :: "byte \<Rightarrow> nat \<Rightarrow> byte list" where
  "ipv4_prefix protocol n = [0x45, 0x00] @ be_bytes 2 (20 + n) @ [0x12, 0x34, 0x00, 0x00, 64, protocol]"

lemma build_ipv4_spec:
  assumes "length dest_ip = 4" and "length payload \<le> 65515"
  obtains c where "c < 65536" and "build_ipv4_packet dest_ip protocol payload =
      Some (ipv4_prefix protocol (length payload) @ be_bytes 2 c @ MY_IP @ dest_ip @ payload)"
    and "calculate_checksum (ipv4_prefix protocol (length payload) @ be_bytes 2 c @ MY_IP @ dest_ip) = Some 0"
proof -
  let ?p = "ipv4_prefix protocol (length payload)"
  let ?h = "?p @ [0, 0] @ MY_IP @ dest_ip"
  have len: "length ?p = 10" by (simp add: ipv4_prefix_def)
  have "2 * wsum ?h \<le> 65535 * 21" using wsum_bound [of ?h] assms(1) len by (simp add: MY_IP_def)
  then have "wsum ?h < 2 ^ 32" by simp
  then obtain c where c: "calculate_checksum ?h = Some c" by (simp add: calculate_checksum_Some)
  note b = checksum_bound [OF c]
  have h: "[0x45, 0x00] @ be_bytes 2 ((20 + length payload) mod 2 ^ 16) @ [0x12, 0x34] @ [0x00, 0x00] @ [64, protocol] @
      [0x00, 0x00] @ [10, 0, 2, 15] @ dest_ip = ?h"
    using assms(2) by (simp add: ipv4_prefix_def MY_IP_def)
  have t: "take 20 ?h = ?h" using len assms(1) by (simp add: MY_IP_def)
  have "?h[10 := word_of_nat (c div 256), 11 := word_of_nat (c mod 256)] = ?p @ be_bytes 2 c @ MY_IP @ dest_ip"
    using fill_checksum [OF len, of "MY_IP @ dest_ip"] word_of_nat_high [OF b] by simp
  then have "build_ipv4_packet dest_ip protocol payload = Some (?p @ be_bytes 2 c @ MY_IP @ dest_ip @ payload)"
    by (simp only: build_ipv4_packet_def Let_def h t c option.map append_assoc)
  moreover have "calculate_checksum (?p @ be_bytes 2 c @ MY_IP @ dest_ip) = Some 0"
    using checksum_verifies [of ?p "MY_IP @ dest_ip" c] c len assms(1) by (simp add: MY_IP_def)
  ultimately show ?thesis using that b by blast
qed

lemma build_ipv4_total: "\<exists>pkt. build_ipv4_packet dest_ip protocol payload = Some pkt"
proof -
  have "wsum (take 20 h) < 2 ^ 32" for h :: "byte list"
  proof -
    have "2 * wsum (take 20 h) \<le> 65535 * 21" by (rule order.trans [OF wsum_bound]) simp
    then show ?thesis by simp
  qed
  then show ?thesis by (simp add: build_ipv4_packet_def Let_def calculate_checksum_Some del: take_append append.simps)
qed

lemma parse_ipv4_built:
  assumes "length dest_ip = 4" and "length payload \<le> 65515" and "c < 65536"
  shows "parse_ipv4_header (ipv4_prefix protocol (length payload) @ be_bytes 2 c @ MY_IP @ dest_ip @ payload) =
    Some (MY_IP, dest_ip, protocol, 20)"
proof -
  let ?n = "length payload"
  let ?k = "ipv4_prefix protocol ?n @ be_bytes 2 c @ MY_IP @ dest_ip @ payload"
  have l: "length (ipv4_prefix protocol ?n) = 10" by (simp add: ipv4_prefix_def)
  have "be_field ?k 2 2 = 20 + ?n"
    using be_field_at [of "[0x45, 0x00]" 2 "be_bytes 2 (20 + ?n)" 2] assms(2) by (simp add: ipv4_prefix_def)
  moreover have "length ?k = 20 + ?n" using l assms(1) by (simp add: MY_IP_def)
  moreover have "?k ! 0 = 0x45" "?k ! 9 = protocol" by (simp_all add: ipv4_prefix_def nth_append be_bytes_2)
  moreover have "take 4 (drop 12 ?k) = MY_IP" "take 4 (drop 16 ?k) = dest_ip" using l assms(1) by (simp_all add: MY_IP_def)
  ultimately show ?thesis by (simp add: parse_ipv4_header_def Let_def)
qed

definition ethernet_frame :: "byte list \<Rightarrow> byte list \<Rightarrow> nat \<Rightarrow> byte list \<Rightarrow> byte list" where
  "ethernet_frame dest_mac src_mac ethertype payload = dest_mac @ src_mac @ be_bytes 2 ethertype @ payload"

lemma frame_ethertype:
  assumes "length dest_mac = 6" and "length src_mac = 6" and "ethertype < 65536"
  shows "be_field (ethernet_frame dest_mac src_mac ethertype payload) 12 2 = ethertype"
    and "drop 14 (ethernet_frame dest_mac src_mac ethertype payload) = payload"
  using assms be_field_at [of "dest_mac @ src_mac" 12 "be_bytes 2 ethertype" 2 payload]
  by (simp_all add: ethernet_frame_def)

lemma parse_ipv4_frame:
  assumes "length dest_mac = 6" and "length src_mac = 6" and "parse_ipv4_header packet = Some (src, dst, proto, ihl)"
  shows "parse_ipv4_payload (ethernet_frame dest_mac src_mac 0x0800 packet) = Some (src, dst, proto, 14 + ihl)"
proof -
  have "20 \<le> length packet" using assms(3) by (simp add: parse_ipv4_header_def split: if_splits)
  moreover have "length (ethernet_frame dest_mac src_mac 0x0800 packet) = 14 + length packet"
    using assms(1,2) by (simp add: ethernet_frame_def)
  ultimately show ?thesis using assms frame_ethertype [OF assms(1,2), of "0x0800" packet]
    by (simp add: parse_ipv4_payload_def)
qed

definition tcp_prefix :: "nat \<Rightarrow> nat \<Rightarrow> nat \<Rightarrow> nat \<Rightarrow> byte \<Rightarrow> byte list" where
  "tcp_prefix src_port dest_port seq ack flags =
     be_bytes 2 src_port @ be_bytes 2 dest_port @ be_bytes 4 seq @ be_bytes 4 ack @ [0x50, flags] @ be_bytes 2 8192"

lemma length_tcp_prefix [simp]: "length (tcp_prefix sp dp seq ack flags) = 16"
  by (simp add: tcp_prefix_def)

lemma build_tcp_spec:
  assumes "length dest_ip = 4" and "length payload \<le> 65515"
  obtains c where "c < 65536"
    and "build_tcp_packet sp dp dest_ip seq ack flags payload =
      Some (tcp_prefix sp dp seq ack flags @ be_bytes 2 c @ [0, 0] @ payload)"
    and "calculate_checksum (tcp_pseudo dest_ip (tcp_prefix sp dp seq ack flags @ be_bytes 2 c @ [0, 0] @ payload)) = Some 0"
proof -
  let ?t = "tcp_prefix sp dp seq ack flags" and ?y = "[0, 0] @ payload"
  let ?x = "MY_IP @ dest_ip @ [0, 6] @ be_bytes 2 ((20 + length payload) mod 2 ^ 16) @ ?t"
  have pseudo: "tcp_pseudo dest_ip (?t @ z @ ?y) = ?x @ z @ ?y" if "length z = 2" for z
    using that by (simp add: tcp_pseudo_def)
  have "2 * wsum (?x @ [0, 0] @ ?y) \<le> 65535 * 65600"
    using wsum_bound [of "?x @ [0, 0] @ ?y"] assms by (simp add: MY_IP_def)
  then have "wsum (?x @ [0, 0] @ ?y) < 2 ^ 32" by simp
  then obtain c where c: "calculate_checksum (?x @ [0, 0] @ ?y) = Some c" by (simp add: calculate_checksum_Some)
  note b = checksum_bound [OF c]
  have "(?t @ [0, 0] @ ?y)[16 := word_of_nat (c div 256), 17 := word_of_nat (c mod 256)] = ?t @ be_bytes 2 c @ ?y"
    using fill_checksum [of ?t 16 ?y] word_of_nat_high [OF b] by simp
  then have "build_tcp_packet sp dp dest_ip seq ack flags payload = Some (?t @ be_bytes 2 c @ ?y)"
    using c pseudo [of "[0, 0]"] by (simp add: build_tcp_packet_def Let_def tcp_prefix_def)
  moreover have "calculate_checksum (tcp_pseudo dest_ip (?t @ be_bytes 2 c @ ?y)) = Some 0"
    using checksum_verifies [of ?x ?y c] c pseudo [of "be_bytes 2 c"] assms by (simp add: MY_IP_def)
  ultimately show ?thesis using that b by simp
qed

lemma parse_tcp_built:
  assumes "sp < 65536" and "dp < 65536" and "seq < 2 ^ 32" and "ack < 2 ^ 32" and "length pre = t"
  shows "parse_tcp_header (pre @ tcp_prefix sp dp seq ack flags @ be_bytes 2 c @ [0, 0] @ payload) t =
    Some \<lparr>th_src_port = sp, th_dst_port = dp, th_seq = seq, th_ack = ack, th_flags = flags, data_offset = 20\<rparr>"
proof -
  define s where "s = be_bytes 2 sp @ be_bytes 2 dp @ be_bytes 4 seq @ be_bytes 4 ack @ [0x50, flags] @ be_bytes 2 8192 @
    be_bytes 2 c @ [0, 0] @ payload"
  have "be_field s 0 2 = sp" using be_field_at [of "[]" 0 "be_bytes 2 sp" 2] assms(1) by (simp add: s_def)
  moreover have "be_field s 2 2 = dp"
    using be_field_at [of "be_bytes 2 sp" 2 "be_bytes 2 dp" 2] assms(2) by (simp add: s_def)
  moreover have "be_field s 4 4 = seq"
    using be_field_at [of "be_bytes 2 sp @ be_bytes 2 dp" 4 "be_bytes 4 seq" 4] assms(3) by (simp add: s_def)
  moreover have "be_field s 8 4 = ack"
    using be_field_at [of "be_bytes 2 sp @ be_bytes 2 dp @ be_bytes 4 seq" 8 "be_bytes 4 ack" 4] assms(4)
    by (simp add: s_def)
  moreover have "s ! 12 = 0x50" "s ! 13 = flags" by (simp_all add: s_def nth_append)
  moreover have "(pre @ s) ! (t + k) = s ! k" for k using assms(5) by (simp add: nth_append)
  moreover have "20 \<le> length s" by (simp add: s_def)
  ultimately have "parse_tcp_header (pre @ s) t =
      Some \<lparr>th_src_port = sp, th_dst_port = dp, th_seq = seq, th_ack = ack, th_flags = flags, data_offset = 20\<rparr>"
    using be_field_shift [OF assms(5), of s] be_field_shift [OF assms(5), of s 0] assms(5)
    by (simp add: parse_tcp_header_def del: add_2_eq_Suc')
  then show ?thesis by (simp add: s_def tcp_prefix_def)
qed

end
