(* ===== verification/Net_Arp.thy ===== *)
theory Net_Arp
  imports Net_Packet
begin

section \<open>Address resolution and transmission\<close>

text \<open>
  The stateful part of \<^verbatim>\<open>kernel/src/net.rs\<close>: the ARP cache, ARP frames, and the transmission of IPv4, UDP and TCP
  packets. The network card is the record \<open>nic\<close>: its address, what the next polls of its receive ring return, and the
  frames handed to it so far. A card that was not found is \<open>None\<close>.

  While \<^verbatim>\<open>resolve_ip\<close> waits for a reply it hands every other frame to the socket layer, which may transmit and resolve
  again. The operations that can wait therefore take the receiver \<open>recv\<close> of such frames as an argument; the socket layer
  closes the knot. \<open>None\<close> means that the call does not return.
\<close>

subsection \<open>State\<close>

record arp_entry =
  a_ip :: "byte list"
  a_mac :: "byte list"
  timestamp :: nat

record nic =
  nic_mac :: "byte list"
  rx_polls :: "byte list option list"
  tx_frames :: "byte list list"

record net =
  device :: "nic option"
  arp_cache :: "arp_entry list"

record socket_addr =
  sa_ip :: "byte list"
  sa_port :: nat

definition MAC_BROADCAST :: "byte list" where "MAC_BROADCAST = [0xFF, 0xFF, 0xFF, 0xFF, 0xFF, 0xFF]"
definition ARP_ENTRY_TTL_MS :: nat where "ARP_ENTRY_TTL_MS = 60000"

subsection \<open>The cache\<close>

definition arp_cache_lookup :: "byte list \<Rightarrow> 'z net_scheme \<Rightarrow> byte list option" where
  "arp_cache_lookup ip w = map_option a_mac (find (\<lambda>e. a_ip e = ip) (arp_cache w))"

definition arp_cache_insert_with_time :: "byte list \<Rightarrow> byte list \<Rightarrow> nat \<Rightarrow> 'z net_scheme \<Rightarrow> 'z net_scheme" where
  "arp_cache_insert_with_time ip mac now w =
     (let c = arp_cache w in
      case position (\<lambda>e. a_ip e = ip) c of
        Some i \<Rightarrow> w\<lparr>arp_cache := c[i := (c ! i)\<lparr>a_mac := mac, timestamp := now\<rparr>]\<rparr>
      | None \<Rightarrow> w\<lparr>arp_cache := (if 32 \<le> length c then list_remove 0 c else c) @ [\<lparr>a_ip = ip, a_mac = mac, timestamp = now\<rparr>]\<rparr>)"

definition arp_cache_insert :: "byte list \<Rightarrow> byte list \<Rightarrow> 'z net_scheme \<Rightarrow> 'z net_scheme" where
  "arp_cache_insert ip mac w = arp_cache_insert_with_time ip mac 0 w"

definition arp_cache_prune_expired :: "nat \<Rightarrow> 'z net_scheme \<Rightarrow> nat \<times> 'z net_scheme" where
  "arp_cache_prune_expired now w =
     (let kept = filter (\<lambda>e. timestamp e = 0 \<or> now - timestamp e < ARP_ENTRY_TTL_MS) (arp_cache w) in
      (length (arp_cache w) - length kept, w\<lparr>arp_cache := kept\<rparr>))"

subsection \<open>Frames\<close>

definition send_ethernet_packet_raw :: "byte list \<Rightarrow> 'z net_scheme \<Rightarrow> 'z net_scheme" where
  "send_ethernet_packet_raw frame w =
     (case device w of None \<Rightarrow> w | Some d \<Rightarrow> w\<lparr>device := Some (d\<lparr>tx_frames := tx_frames d @ [frame]\<rparr>)\<rparr>)"

definition get_my_mac :: "'z net_scheme \<Rightarrow> byte list" where
  "get_my_mac w = (case device w of None \<Rightarrow> replicate 6 0 | Some d \<Rightarrow> nic_mac d)"

definition arp_frame :: "byte list \<Rightarrow> byte list \<Rightarrow> nat \<Rightarrow> byte list \<Rightarrow> byte list \<Rightarrow> byte list \<Rightarrow> byte list" where
  "arp_frame dest_mac sender_mac oper sender_ip target_mac target_ip =
     dest_mac @ sender_mac @ [0x08, 0x06] @ [0x00, 0x01] @ [0x08, 0x00] @ [6, 4] @ be_bytes 2 oper @
     sender_mac @ sender_ip @ target_mac @ target_ip"

definition arp_request :: "byte list \<Rightarrow> byte list \<Rightarrow> byte list" where
  "arp_request my_mac target_ip = arp_frame MAC_BROADCAST my_mac 1 MY_IP (replicate 6 0) target_ip"

definition arp_reply :: "byte list \<Rightarrow> byte list \<Rightarrow> byte list \<Rightarrow> byte list" where
  "arp_reply my_mac target_ip target_mac = arp_frame target_mac my_mac 2 MY_IP target_mac target_ip"

definition send_arp_request :: "byte list \<Rightarrow> 'z net_scheme \<Rightarrow> 'z net_scheme" where
  "send_arp_request target_ip w = send_ethernet_packet_raw (arp_request (get_my_mac w) target_ip) w"

definition send_arp_reply :: "byte list \<Rightarrow> byte list \<Rightarrow> 'z net_scheme \<Rightarrow> 'z net_scheme" where
  "send_arp_reply target_ip target_mac w = send_ethernet_packet_raw (arp_reply (get_my_mac w) target_ip target_mac) w"

definition parse_arp :: "byte list \<Rightarrow> (byte list \<times> byte list \<times> nat) option" where
  "parse_arp packet =
     (if length packet < 14 + 28 then None
      else if be_field packet 12 2 \<noteq> 0x0806 then None
      else Some (take 4 (drop 28 packet), take 6 (drop 22 packet), be_field packet 20 2))"

definition handle_incoming_arp :: "byte list \<Rightarrow> 'z net_scheme \<Rightarrow> bool \<times> 'z net_scheme" where
  "handle_incoming_arp packet w =
     (case parse_arp packet of
        None \<Rightarrow> (False, w)
      | Some (sender_ip, sender_mac, oper) \<Rightarrow>
          let hlen = unat (packet ! 18); ptype = unat (packet ! 19) in
          if oper = 1 then
            (let off = 14 + 8 + 2 * hlen + 2 * ptype in
             if off + 4 \<le> length packet \<and> take 4 (drop off packet) = MY_IP
             then (True, send_arp_reply sender_ip sender_mac w) else (True, w))
          else if oper = 2 then (True, if sender_ip \<noteq> MY_IP then arp_cache_insert sender_ip sender_mac w else w)
          else (True, w))"

subsection \<open>Resolution\<close>

definition poll_rx :: "'z net_scheme \<Rightarrow> byte list option \<times> 'z net_scheme" where
  "poll_rx w =
     (case device w of
        None \<Rightarrow> (None, w)
      | Some d \<Rightarrow> (case rx_polls d of
          [] \<Rightarrow> (None, w)
        | p # ps \<Rightarrow> (p, w\<lparr>device := Some (d\<lparr>rx_polls := ps\<rparr>)\<rparr>)))"

type_synonym 'w receiver = "byte list \<Rightarrow> 'w \<Rightarrow> 'w option"

fun poll_arp_reply :: "'z net_scheme receiver \<Rightarrow> byte list \<Rightarrow> nat \<Rightarrow> 'z net_scheme \<Rightarrow> (bool \<times> 'z net_scheme) option" where
  "poll_arp_reply recv ip 0 w = Some (False, w)"
| "poll_arp_reply recv ip (Suc n) w =
     (let (p, w1) = poll_rx w in
      do {
        w2 \<leftarrow> (case p of
                None \<Rightarrow> Some w1
              | Some packet \<Rightarrow> (let (handled, w') = handle_incoming_arp packet w1 in
                  if handled then Some w' else recv packet w'));
        if arp_cache_lookup ip w2 \<noteq> None then Some (True, w2) else poll_arp_reply recv ip n w2
      })"

fun ask_for :: "'z net_scheme receiver \<Rightarrow> byte list \<Rightarrow> nat \<Rightarrow> 'z net_scheme \<Rightarrow> 'z net_scheme option" where
  "ask_for recv ip 0 w = Some w"
| "ask_for recv ip (Suc n) w =
     do {
       (found, w1) \<leftarrow> poll_arp_reply recv ip 50 (send_arp_request ip w);
       if found then Some w1 else ask_for recv ip n w1
     }"

definition resolve_ip :: "'z net_scheme receiver \<Rightarrow> byte list \<Rightarrow> 'z net_scheme \<Rightarrow> (byte list \<times> 'z net_scheme) option" where
  "resolve_ip recv ip w =
     (case arp_cache_lookup ip w of
        Some mac \<Rightarrow> Some (mac, w)
      | None \<Rightarrow> do {
          w1 \<leftarrow> ask_for recv ip 3 w;
          Some (case arp_cache_lookup ip w1 of Some mac \<Rightarrow> mac | None \<Rightarrow> MAC_BROADCAST, w1)
        })"

subsection \<open>Transmission\<close>

definition send_ethernet_packet :: "byte list \<Rightarrow> nat \<Rightarrow> byte list \<Rightarrow> 'z net_scheme \<Rightarrow> 'z net_scheme" where
  "send_ethernet_packet dest_mac ethertype payload w =
     send_ethernet_packet_raw (dest_mac @ get_my_mac w @ be_bytes 2 ethertype @ payload) w"

definition send_ipv4_packet :: "'z net_scheme receiver \<Rightarrow> byte list \<Rightarrow> byte \<Rightarrow> byte list \<Rightarrow> 'z net_scheme \<Rightarrow> 'z net_scheme option" where
  "send_ipv4_packet recv dest_ip protocol payload w =
     do {
       (dest_mac, w1) \<leftarrow> resolve_ip recv dest_ip w;
       ip_packet \<leftarrow> build_ipv4_packet dest_ip protocol payload;
       Some (send_ethernet_packet dest_mac 0x0800 ip_packet w1)
     }"

definition send_udp_packet :: "'z net_scheme receiver \<Rightarrow> nat \<Rightarrow> socket_addr \<Rightarrow> byte list \<Rightarrow> 'z net_scheme \<Rightarrow> 'z net_scheme option" where
  "send_udp_packet recv src_port dest data w =
     send_ipv4_packet recv (sa_ip dest) 17 (build_udp_packet src_port (sa_port dest) data) w"

definition send_tcp :: "byte \<Rightarrow> 'z net_scheme receiver \<Rightarrow> nat \<Rightarrow> socket_addr \<Rightarrow> nat \<Rightarrow> nat \<Rightarrow> byte list \<Rightarrow> 'z net_scheme \<Rightarrow> 'z net_scheme option" where
  "send_tcp flags recv src_port dest seq ack data w =
     do {
       tcp \<leftarrow> build_tcp_packet src_port (sa_port dest) (sa_ip dest) seq ack flags data;
       send_ipv4_packet recv (sa_ip dest) 6 tcp w
     }"

definition send_tcp_syn_seq :: "'z net_scheme receiver \<Rightarrow> nat \<Rightarrow> socket_addr \<Rightarrow> nat \<Rightarrow> 'z net_scheme \<Rightarrow> 'z net_scheme option" where
  "send_tcp_syn_seq recv src_port dest iscn w = send_tcp SYN recv src_port dest iscn 0 [] w"

definition send_tcp_syn :: "'z net_scheme receiver \<Rightarrow> nat \<Rightarrow> socket_addr \<Rightarrow> 'z net_scheme \<Rightarrow> 'z net_scheme option" where
  "send_tcp_syn recv src_port dest w = send_tcp_syn_seq recv src_port dest 12345678 w"

definition send_tcp_ack :: "'z net_scheme receiver \<Rightarrow> nat \<Rightarrow> socket_addr \<Rightarrow> nat \<Rightarrow> nat \<Rightarrow> 'z net_scheme \<Rightarrow> 'z net_scheme option" where
  "send_tcp_ack recv src_port dest seq ack w = send_tcp ACK recv src_port dest seq ack [] w"

definition send_tcp_fin :: "'z net_scheme receiver \<Rightarrow> nat \<Rightarrow> socket_addr \<Rightarrow> nat \<Rightarrow> nat \<Rightarrow> 'z net_scheme \<Rightarrow> 'z net_scheme option" where
  "send_tcp_fin recv src_port dest seq ack w = send_tcp (FIN OR ACK) recv src_port dest seq ack [] w"

definition send_tcp_rst :: "'z net_scheme receiver \<Rightarrow> nat \<Rightarrow> socket_addr \<Rightarrow> nat \<Rightarrow> 'z net_scheme \<Rightarrow> 'z net_scheme option" where
  "send_tcp_rst recv src_port dest seq w = send_tcp RST recv src_port dest seq 0 [] w"

definition send_tcp_data :: "'z net_scheme receiver \<Rightarrow> nat \<Rightarrow> socket_addr \<Rightarrow> nat \<Rightarrow> nat \<Rightarrow> byte list \<Rightarrow> 'z net_scheme \<Rightarrow> 'z net_scheme option" where
  "send_tcp_data recv src_port dest seq ack data w = send_tcp (PSH OR ACK) recv src_port dest seq ack data w"

subsection \<open>Well-formed ARP frames\<close>

lemma arp_frame_fields:
  assumes "length dest_mac = 6" and "length sender_mac = 6" and "length sender_ip = 4" and "length target_mac = 6"
    and "length target_ip = 4" and "oper < 65536"
  shows "parse_arp (arp_frame dest_mac sender_mac oper sender_ip target_mac target_ip) = Some (sender_ip, sender_mac, oper)"
    and "arp_frame dest_mac sender_mac oper sender_ip target_mac target_ip ! 18 = 6"
    and "arp_frame dest_mac sender_mac oper sender_ip target_mac target_ip ! 19 = 4"
    and "length (arp_frame dest_mac sender_mac oper sender_ip target_mac target_ip) = 42"
proof -
  let ?f = "arp_frame dest_mac sender_mac oper sender_ip target_mac target_ip"
  show len: "length ?f = 42" using assms by (simp add: arp_frame_def)
  show "?f ! 18 = 6" "?f ! 19 = 4" using assms by (simp_all add: arp_frame_def nth_append)
  have "be_field ?f 12 2 = 0x0806"
    using be_field_at [of "dest_mac @ sender_mac" 12 "[0x08, 0x06]" 2] assms by (simp add: arp_frame_def be_val_def)
  moreover have "be_field ?f 20 2 = oper"
    using be_field_at [of "dest_mac @ sender_mac @ [0x08, 0x06, 0x00, 0x01, 0x08, 0x00, 6, 4]" 20 "be_bytes 2 oper" 2] assms
    by (simp add: arp_frame_def)
  moreover have "take 4 (drop 28 ?f) = sender_ip" "take 6 (drop 22 ?f) = sender_mac"
    using assms by (simp_all add: arp_frame_def)
  ultimately show "parse_arp ?f = Some (sender_ip, sender_mac, oper)" using len by (simp add: parse_arp_def)
qed

definition arp_ok :: "'z net_scheme \<Rightarrow> bool" where
  "arp_ok w \<longleftrightarrow> distinct (map a_ip (arp_cache w)) \<and> length (arp_cache w) \<le> 32"

lemma find_some_index: "distinct (map f xs) \<Longrightarrow> find (\<lambda>e. f e = k) xs = Some e \<longleftrightarrow> e \<in> set xs \<and> f e = k"
  by (induction xs) (auto simp: image_iff)

lemma arp_lookup_iff:
  assumes "arp_ok w"
  shows "arp_cache_lookup ip w = Some mac \<longleftrightarrow> (\<exists>e \<in> set (arp_cache w). a_ip e = ip \<and> a_mac e = mac)"
proof -
  have "find (\<lambda>e. a_ip e = ip) (arp_cache w) = Some e \<longleftrightarrow> e \<in> set (arp_cache w) \<and> a_ip e = ip" for e
    using assms by (intro find_some_index) (simp add: arp_ok_def)
  then show ?thesis by (auto simp: arp_cache_lookup_def)
qed

lemma arp_lookup_None: "arp_cache_lookup ip w = None \<longleftrightarrow> ip \<notin> a_ip ` set (arp_cache w)"
  by (auto simp: arp_cache_lookup_def find_None_iff)

text \<open>The entry that makes room when the cache is full.\<close>

definition evicted :: "byte list \<Rightarrow> 'z net_scheme \<Rightarrow> byte list set" where
  "evicted ip w = (if arp_cache_lookup ip w = None \<and> 32 \<le> length (arp_cache w) then {a_ip (hd (arp_cache w))} else {})"

lemma arp_insert_spec:
  assumes "arp_ok w"
  shows "arp_ok (arp_cache_insert_with_time ip mac now w)"
    and "arp_cache_lookup ip' (arp_cache_insert_with_time ip mac now w) =
      (if ip' = ip then Some mac else if ip' \<in> evicted ip w then None else arp_cache_lookup ip' w)"
proof -
  let ?c = "arp_cache w" and ?w = "arp_cache_insert_with_time ip mac now w"
  have "arp_ok ?w \<and> (\<forall>ip' m. arp_cache_lookup ip' ?w = Some m \<longleftrightarrow>
      (if ip' = ip then m = mac else ip' \<notin> evicted ip w \<and> arp_cache_lookup ip' w = Some m))"
  proof (cases "position (\<lambda>e. a_ip e = ip) ?c")
    case None
    let ?k = "if 32 \<le> length ?c then tl ?c else ?c" and ?n = "\<lparr>a_ip = ip, a_mac = mac, timestamp = now\<rparr>"
    have new: "ip \<notin> a_ip ` set ?c" using None by (auto simp: position_None)
    have w: "arp_cache ?w = ?k @ [?n]"
      using None by (simp add: arp_cache_insert_with_time_def Let_def list_remove_def drop_Suc)
    have "set ?k \<subseteq> set ?c" by (cases ?c) auto
    moreover have "distinct (map a_ip ?k)" using assms by (simp add: arp_ok_def distinct_tl map_tl)
    ultimately have ok: "arp_ok ?w" using new assms w by (fastforce simp: arp_ok_def)
    have ev: "e \<in> set ?k \<longleftrightarrow> e \<in> set ?c \<and> a_ip e \<notin> evicted ip w" for e
      using new assms by (cases ?c) (auto simp: evicted_def arp_lookup_None arp_ok_def image_iff)
    then have "set ?k = {e \<in> set ?c. a_ip e \<notin> evicted ip w}" by blast
    then have "set (arp_cache ?w) = insert ?n {e \<in> set ?c. a_ip e \<notin> evicted ip w}" by (simp only: w set_append) simp
    then show ?thesis using ok new by (auto simp: arp_lookup_iff [OF ok] arp_lookup_iff [OF assms])
  next
    case (Some i)
    then have i: "i < length ?c" "a_ip (?c ! i) = ip" by (simp_all add: position_Some)
    let ?e = "(?c ! i)\<lparr>a_mac := mac, timestamp := now\<rparr>"
    have w: "arp_cache ?w = ?c[i := ?e]" using Some by (simp add: arp_cache_insert_with_time_def Let_def)
    have m: "map a_ip (?c[i := ?e]) = map a_ip ?c" using i by (simp add: map_update list_update_same_conv)
    then have ok: "arp_ok ?w" using assms w by (simp add: arp_ok_def)
    have "ip \<in> a_ip ` set ?c" using i by (metis imageI nth_mem)
    then have ev: "evicted ip w = {}" by (simp add: evicted_def arp_lookup_None)
    have "inj_on a_ip (set ?c)" "distinct ?c" using assms by (simp_all add: arp_ok_def distinct_map)
    then have "set (?c[i := ?e]) = insert ?e {e \<in> set ?c. a_ip e \<noteq> ip}"
      using i nth_mem [OF i(1)] by (auto simp: set_update_distinct dest: inj_onD)
    then show ?thesis using ok ev i by (auto simp: arp_lookup_iff [OF ok] arp_lookup_iff [OF assms] w)
  qed
  then show "arp_ok ?w" "arp_cache_lookup ip' ?w =
      (if ip' = ip then Some mac else if ip' \<in> evicted ip w then None else arp_cache_lookup ip' w)"
    by (auto simp: not_None_eq intro: option.exhaust, metis not_None_eq)
qed

subsection \<open>The contract of a receiver of frames\<close>

text \<open>
  \<open>recv\<close> handles a frame that is \<open>safe\<close> whenever fewer than \<open>k\<close> polls are left, keeps \<open>extra\<close>, and leaves no more
  polls than it found. Under this contract every transmission returns.
\<close>

definition polls :: "'z net_scheme \<Rightarrow> byte list option list" where
  "polls w = (case device w of None \<Rightarrow> [] | Some d \<Rightarrow> rx_polls d)"

locale frame_receiver =
  fixes recv :: "'z net_scheme receiver"
    and safe :: "byte list \<Rightarrow> bool"
    and extra :: "'z net_scheme \<Rightarrow> bool"
    and k :: nat
  assumes recv_returns: "extra w \<Longrightarrow> list_all (pred_option safe) (polls w) \<Longrightarrow> safe p \<Longrightarrow> length (polls w) < k \<Longrightarrow>
      \<exists>w'. recv p w = Some w' \<and> extra w' \<and> (\<exists>ps. polls w = ps @ polls w')"
    and extra_device: "extra (w\<lparr>device := d\<rparr>) = extra w"
    and extra_arp: "extra (w\<lparr>arp_cache := c\<rparr>) = extra w"
begin

definition good :: "'z net_scheme \<Rightarrow> bool" where
  "good w \<longleftrightarrow> extra w \<and> list_all (pred_option safe) (polls w)"

definition moved :: "'z net_scheme \<Rightarrow> 'z net_scheme \<Rightarrow> bool" where
  "moved w w' \<longleftrightarrow> good w' \<and> (\<exists>ps. polls w = ps @ polls w')"

lemma moved_refl: "good w \<Longrightarrow> moved w w"
  by (auto simp: moved_def intro: exI [of _ "[]"])

lemma moved_trans: "moved a b \<Longrightarrow> moved b c \<Longrightarrow> moved a c"
  unfolding moved_def by (metis append_assoc)

lemma moved_good: "moved a b \<Longrightarrow> good b"
  by (simp add: moved_def)

lemma moved_length: "moved a b \<Longrightarrow> length (polls b) \<le> length (polls a)"
  by (auto simp: moved_def)

lemma moved_recv: "good w \<Longrightarrow> safe p \<Longrightarrow> length (polls w) < k \<Longrightarrow> \<exists>w'. recv p w = Some w' \<and> moved w w'"
  using recv_returns [of w p] unfolding good_def moved_def by (metis list_all_append)

lemma moved_send: "good w \<Longrightarrow> moved w (send_ethernet_packet_raw f w)"
  by (auto simp: moved_def good_def send_ethernet_packet_raw_def polls_def extra_device split: option.splits intro: exI [of _ "[]"])

lemma moved_insert: "good w \<Longrightarrow> moved w (arp_cache_insert ip mac w)"
  by (auto simp: moved_def good_def arp_cache_insert_def arp_cache_insert_with_time_def Let_def polls_def extra_arp
      split: option.splits intro: exI [of _ "[]"])

lemma moved_arp: "good w \<Longrightarrow> moved w (snd (handle_incoming_arp p w))"
  by (auto simp: handle_incoming_arp_def Let_def send_arp_reply_def moved_send moved_insert moved_refl split: option.splits)

lemma poll_rx_later:
  assumes "good w" and "poll_rx w = (p, w1)"
  shows "moved w w1" and "pred_option safe p" and "p = None \<or> length (polls w1) < length (polls w)"
  using assms by (auto simp: poll_rx_def moved_def good_def polls_def extra_device split: option.splits list.splits)

lemma poll_arp_reply_returns:
  "good w \<Longrightarrow> length (polls w) \<le> k \<Longrightarrow> \<exists>b w'. poll_arp_reply recv ip n w = Some (b, w') \<and> moved w w'"
proof (induction n arbitrary: w)
  case (Suc n)
  obtain p w1 where p: "poll_rx w = (p, w1)" by (cases "poll_rx w")
  note q = poll_rx_later [OF Suc.prems(1) p]
  obtain w2 where w2: "(case p of None \<Rightarrow> Some w1 | Some packet \<Rightarrow>
      (let (handled, w') = handle_incoming_arp packet w1 in if handled then Some w' else recv packet w')) = Some w2"
    "moved w1 w2"
  proof (cases p)
    case None
    then show ?thesis using that moved_refl moved_good [OF q(1)] by simp
  next
    case (Some f)
    obtain b wa where a: "handle_incoming_arp f w1 = (b, wa)" by (cases "handle_incoming_arp f w1")
    have la: "moved w1 wa" using moved_arp [OF moved_good [OF q(1)], of f] a by simp
    moreover have "length (polls wa) < k" using q(3) Some Suc.prems(2) moved_length [OF la] by simp
    moreover have "safe f" using q(2) Some by simp
    ultimately obtain wr where "recv f wa = Some wr" "moved wa wr" using moved_recv moved_good by blast
    then show ?thesis using that la a Some moved_trans by (cases b) auto
  qed
  have l: "moved w w2" using q(1) w2(2) moved_trans by blast
  show ?case
  proof (cases "arp_cache_lookup ip w2 = None")
    case True
    obtain b w' where "poll_arp_reply recv ip n w2 = Some (b, w')" "moved w2 w'"
      using Suc.IH [OF moved_good [OF l]] moved_length [OF l] Suc.prems(2) by auto
    with True l p w2 show ?thesis using moved_trans by (auto simp: Let_def)
  next
    case False
    with l p w2 show ?thesis by (auto simp: Let_def)
  qed
qed (auto intro: moved_refl)

lemma ask_for_returns: "good w \<Longrightarrow> length (polls w) \<le> k \<Longrightarrow> \<exists>w'. ask_for recv ip n w = Some w' \<and> moved w w'"
proof (induction n arbitrary: w)
  case (Suc n)
  let ?a = "send_arp_request ip w"
  have a: "moved w ?a" using Suc.prems(1) by (simp add: send_arp_request_def moved_send)
  then obtain b w1 where w1: "poll_arp_reply recv ip 50 ?a = Some (b, w1)" "moved ?a w1"
    using poll_arp_reply_returns moved_good moved_length Suc.prems(2) by (metis order_trans)
  then have l: "moved w w1" using a moved_trans by blast
  show ?case
  proof (cases b)
    case False
    obtain w' where "ask_for recv ip n w1 = Some w'" "moved w1 w'"
      using Suc.IH [OF moved_good [OF l]] moved_length [OF l] Suc.prems(2) by auto
    with False w1 l show ?thesis using moved_trans by auto
  qed (use w1 l in auto)
qed (auto intro: moved_refl)

lemma resolve_ip_returns:
  assumes "good w" and "length (polls w) \<le> k"
  shows "\<exists>mac w'. resolve_ip recv ip w = Some (mac, w') \<and> moved w w'"
proof (cases "arp_cache_lookup ip w")
  case None
  with ask_for_returns [OF assms, of ip 3] show ?thesis by (auto simp: resolve_ip_def)
qed (use moved_refl [OF assms(1)] in \<open>auto simp: resolve_ip_def\<close>)

lemma send_ipv4_returns:
  assumes "good w" and "length (polls w) \<le> k"
  shows "\<exists>w'. send_ipv4_packet recv ip proto payload w = Some w' \<and> moved w w'"
proof -
  obtain mac w1 where r: "resolve_ip recv ip w = Some (mac, w1)" "moved w w1"
    using resolve_ip_returns [OF assms] by blast
  obtain pkt where "build_ipv4_packet ip proto payload = Some pkt" using build_ipv4_total by blast
  moreover have "moved w1 (send_ethernet_packet mac 0x0800 pkt w1)"
    using moved_good [OF r(2)] by (simp add: send_ethernet_packet_def moved_send)
  ultimately show ?thesis using r moved_trans by (auto simp: send_ipv4_packet_def)
qed

lemma send_tcp_returns:
  assumes "good w" and "length (polls w) \<le> k" and "length (sa_ip dest) = 4" and "length data \<le> 65515"
  shows "\<exists>w'. send_tcp flags recv port dest seq ack data w = Some w' \<and> moved w w'"
proof -
  obtain tcp where "build_tcp_packet port (sa_port dest) (sa_ip dest) seq ack flags data = Some tcp"
    using build_tcp_spec [OF assms(3,4), of port "sa_port dest" seq ack flags] by blast
  with send_ipv4_returns [OF assms(1,2), of "sa_ip dest" 6 tcp] show ?thesis by (simp add: send_tcp_def)
qed

end

end
