(* ===== verification/Net_Socket.thy ===== *)
theory Net_Socket
  imports Net_Arp Cap_Abi
begin

section \<open>Sockets\<close>

text \<open>
  The socket table of \<^verbatim>\<open>kernel/src/net_socket.rs\<close> with its operations, the routing of received packets, and the network
  request dispatcher with its protocol of \<^verbatim>\<open>spark-abi/src/net.rs\<close>.

  \<^verbatim>\<open>SOCKET_TABLE\<close> is a spin lock, which the same CPU must not take twice: \<open>table_locked\<close> says whether it is held, and
  taking it while it is held does not return (\<open>None\<close>), because the holder is the caller itself. \<^verbatim>\<open>find_slot\<close> takes the
  lock, so the operations that call it with the guard of the table alive stop there; their bodies are written out to the
  end all the same. \<open>sys_socket\<close> is left out: it adds a capability to the tables of the calling process.
\<close>

subsection \<open>State\<close>

datatype socket_type = Udp | Tcp | Raw

datatype socket_state = Closed | Listening | SynSent | SynReceived | Connected

record sock =
  s_fd :: nat
  sock_type :: socket_type
  sock_state :: socket_state
  local_port :: nat
  remote_addr :: "socket_addr option"
  rx_buffer :: "byte list list"
  tcp_seq :: nat
  tcp_ack :: nat

record net_stack = net +
  sockets :: "sock option list"
  next_fd :: nat
  next_port :: nat
  table_locked :: bool

definition new_stack :: "nic option \<Rightarrow> net_stack" where
  "new_stack d = \<lparr>device = d, arp_cache = [], sockets = replicate 64 None, next_fd = 0, next_port = 49152, table_locked = False\<rparr>"

subsection \<open>The lock and the slots\<close>

definition lock_table :: "net_stack \<Rightarrow> net_stack option" where
  "lock_table w = (if table_locked w then None else Some (w\<lparr>table_locked := True\<rparr>))"

definition unlock_table :: "net_stack \<Rightarrow> net_stack" where
  "unlock_table w = w\<lparr>table_locked := False\<rparr>"

definition has_fd :: "nat \<Rightarrow> sock option \<Rightarrow> bool" where
  "has_fd fd so = (case so of Some s \<Rightarrow> s_fd s = fd | None \<Rightarrow> False)"

definition find_slot :: "nat \<Rightarrow> net_stack \<Rightarrow> (nat option \<times> net_stack) option" where
  "find_slot fd w = do { w1 \<leftarrow> lock_table w; Some (position (has_fd fd) (sockets w1), unlock_table w1) }"

definition update_slot :: "nat \<Rightarrow> (sock \<Rightarrow> sock) \<Rightarrow> net_stack \<Rightarrow> net_stack" where
  "update_slot i f w = w\<lparr>sockets := (sockets w)[i := map_option f (sockets w ! i)]\<rparr>"

definition allocate_port :: "net_stack \<Rightarrow> nat \<times> net_stack" where
  "allocate_port w = (next_port w, w\<lparr>next_port := if next_port w = 65535 then 49152 else next_port w + 1\<rparr>)"

text \<open>\<^verbatim>\<open>{ let table = SOCKET_TABLE.lock(); match find_slot(fd).and_then(|i| table.sockets[i].as_ref()) ... }\<close>\<close>

definition peek_slot :: "nat \<Rightarrow> net_stack \<Rightarrow> (sock option \<times> net_stack) option" where
  "peek_slot fd w =
     do {
       w1 \<leftarrow> lock_table w;
       (i, w2) \<leftarrow> find_slot fd w1;
       Some (Option.bind i (\<lambda>i. sockets w2 ! i), unlock_table w2)
     }"

definition socket :: "socket_type \<Rightarrow> net_stack \<Rightarrow> (nat option \<times> net_stack) option" where
  "socket t w =
     do {
       w1 \<leftarrow> lock_table w;
       case position (\<lambda>so. so = None) (sockets w1) of
         None \<Rightarrow> Some (None, unlock_table w1)
       | Some i \<Rightarrow> do {
           n \<leftarrow> checked_add 64 (next_fd w1) 1;
           Some (Some (next_fd w1), unlock_table (w1\<lparr>next_fd := n, sockets := (sockets w1)[i := Some
             \<lparr>s_fd = next_fd w1, sock_type = t, sock_state = Closed, local_port = 0, remote_addr = None, rx_buffer = [],
              tcp_seq = 0, tcp_ack = 0\<rparr>]\<rparr>))
         }
     }"

definition sock_bind :: "nat \<Rightarrow> nat \<Rightarrow> net_stack \<Rightarrow> (bool \<times> net_stack) option" where
  "sock_bind fd port w =
     do {
       w1 \<leftarrow> lock_table w;
       if list_ex (\<lambda>so. case so of Some s \<Rightarrow> local_port s = port \<and> port \<noteq> 0 | None \<Rightarrow> False) (sockets w1)
       then Some (False, unlock_table w1)
       else case position (has_fd fd) (sockets w1) of
         None \<Rightarrow> Some (False, unlock_table w1)
       | Some i \<Rightarrow>
           (let (p, w2) = (if port = 0 then allocate_port w1 else (port, w1)) in
            Some (True, unlock_table (update_slot i (\<lambda>s. s\<lparr>local_port := p\<rparr>) w2)))
     }"

definition sock_listen :: "nat \<Rightarrow> net_stack \<Rightarrow> (bool \<times> net_stack) option" where
  "sock_listen fd w =
     do {
       w1 \<leftarrow> lock_table w;
       case position (has_fd fd) (sockets w1) of
         None \<Rightarrow> Some (False, unlock_table w1)
       | Some i \<Rightarrow>
           if map_option sock_type (sockets w1 ! i) = Some Tcp
           then Some (True, unlock_table (update_slot i (\<lambda>s. s\<lparr>sock_state := Listening\<rparr>) w1))
           else Some (False, unlock_table w1)
     }"

definition sock_recv :: "nat \<Rightarrow> net_stack \<Rightarrow> (byte list option \<times> net_stack) option" where
  "sock_recv fd w =
     do {
       w1 \<leftarrow> lock_table w;
       case position (\<lambda>so. has_fd fd so \<and> map_option rx_buffer so \<noteq> Some []) (sockets w1) of
         None \<Rightarrow> Some (None, unlock_table w1)
       | Some i \<Rightarrow>
           (case sockets w1 ! i of
              Some s \<Rightarrow> Some (Some (hd (rx_buffer s)), unlock_table (update_slot i (\<lambda>s. s\<lparr>rx_buffer := list_remove 0 (rx_buffer s)\<rparr>) w1))
            | None \<Rightarrow> Some (None, unlock_table w1))
     }"

definition sock_close :: "nat \<Rightarrow> net_stack \<Rightarrow> net_stack option" where
  "sock_close fd w =
     do {
       w1 \<leftarrow> lock_table w;
       case position (has_fd fd) (sockets w1) of
         None \<Rightarrow> Some (unlock_table w1)
       | Some i \<Rightarrow> Some (unlock_table (w1\<lparr>sockets := (sockets w1)[i := None]\<rparr>))
     }"

subsection \<open>Received packets\<close>

definition deliver_packet_to_socket :: "socket_type \<Rightarrow> nat \<Rightarrow> byte list \<Rightarrow> net_stack \<Rightarrow> net_stack option" where
  "deliver_packet_to_socket t dest_port data w =
     do {
       w1 \<leftarrow> lock_table w;
       case position (\<lambda>so. case so of Some s \<Rightarrow> sock_type s = t \<and> local_port s = dest_port | None \<Rightarrow> False) (sockets w1) of
         None \<Rightarrow> Some (unlock_table w1)
       | Some i \<Rightarrow> Some (unlock_table (update_slot i
           (\<lambda>s. if length (rx_buffer s) < 16 then s\<lparr>rx_buffer := rx_buffer s @ [data]\<rparr> else s) w1))
     }"

definition handle_incoming_udp :: "byte list \<Rightarrow> nat \<Rightarrow> net_stack \<Rightarrow> net_stack option" where
  "handle_incoming_udp packet udp_start w =
     (if length packet < udp_start + 8 then Some w
      else let dest_port = be_field packet (udp_start + 2) 2; len = be_field packet (udp_start + 4) 2 in
      if length packet < udp_start + len then Some w
      else do {
        payload \<leftarrow> slice packet (udp_start + 8) (udp_start + len);
        deliver_packet_to_socket Udp dest_port payload w
      })"

definition handle_incoming_tcp :: "net_stack receiver \<Rightarrow> byte list \<Rightarrow> byte list \<Rightarrow> nat \<Rightarrow> net_stack \<Rightarrow> net_stack option" where
  "handle_incoming_tcp recv packet src_ip start w =
     (case parse_tcp_header packet start of
        None \<Rightarrow> Some w
      | Some hdr \<Rightarrow>
          let payload_start = start + data_offset hdr;
              payload = (if payload_start \<le> length packet then drop payload_start packet else []) in
          do {
            w1 \<leftarrow> lock_table w;
            let target = position (\<lambda>so. case so of Some s \<Rightarrow> sock_type s = Tcp \<and> local_port s = th_dst_port hdr | None \<Rightarrow> False) (sockets w1);
            let w2 = unlock_table w1;
            case Option.bind target (\<lambda>i. map_option (Pair i) (sockets w2 ! i)) of
              None \<Rightarrow> Some w2
            | Some (i, s) \<Rightarrow>
                (let has_syn = (th_flags hdr AND SYN) \<noteq> 0; has_ack = (th_flags hdr AND ACK) \<noteq> 0 in
                 if sock_state s = SynSent \<and> has_syn \<and> has_ack then
                   (let remote = \<lparr>sa_ip = src_ip, sa_port = th_src_port hdr\<rparr>; ack_val = wrapping_add 32 (th_seq hdr) 1 in
                    do {
                      w3 \<leftarrow> send_tcp_ack recv (local_port s) remote (tcp_seq s) ack_val w2;
                      w4 \<leftarrow> lock_table w3;
                      Some (unlock_table (update_slot i
                        (\<lambda>s. s\<lparr>sock_state := Connected, tcp_seq := wrapping_add 32 (tcp_seq s) 1, tcp_ack := ack_val\<rparr>) w4))
                    })
                 else if sock_state s = Connected then
                   do {
                     w3 \<leftarrow> (if payload \<noteq> [] then deliver_packet_to_socket Tcp (th_dst_port hdr) payload w2 else Some w2);
                     let consumed = wrapping_add 32 (wrapping_add 32 (th_seq hdr) (length payload mod 2 ^ 32)) (if has_syn then 1 else 0);
                     w4 \<leftarrow> lock_table w3;
                     Some (unlock_table (update_slot i (\<lambda>s. s\<lparr>tcp_ack := consumed\<rparr>) w4))
                   }
                 else Some w2)
          })"

definition handle_incoming_packet :: "net_stack receiver \<Rightarrow> net_stack receiver" where
  "handle_incoming_packet recv packet w =
     (case parse_ipv4_payload packet of
        None \<Rightarrow> Some w
      | Some (src_ip, dst_ip, proto, payload_start) \<Rightarrow>
          if proto = 6 then handle_incoming_tcp recv packet src_ip payload_start w
          else if proto = 17 then handle_incoming_udp packet payload_start w
          else Some w)"

definition handle_incoming_frame :: "net_stack receiver \<Rightarrow> byte list \<Rightarrow> net_stack \<Rightarrow> (bool \<times> net_stack) option" where
  "handle_incoming_frame recv packet w =
     (if length packet < 14 then Some (False, w)
      else if be_field packet 12 2 = 0x0806 then Some (handle_incoming_arp packet w)
      else if be_field packet 12 2 = 0x0800 then map_option (Pair True) (handle_incoming_packet recv packet w)
      else Some (False, w))"

text \<open>
  A frame that arrives while an acknowledgement waits for an address is handled inside the handling of the first. The
  argument bounds the depth; it has to exceed the number of polls the card still answers.
\<close>

fun rx_depth :: "nat \<Rightarrow> net_stack receiver" where
  "rx_depth 0 packet w = None"
| "rx_depth (Suc k) packet w = handle_incoming_packet (rx_depth k) packet w"

fun pump_rx :: "net_stack receiver \<Rightarrow> nat \<Rightarrow> net_stack \<Rightarrow> net_stack option" where
  "pump_rx recv 0 w = Some w"
| "pump_rx recv (Suc n) w =
     (case poll_rx w of
        (None, w1) \<Rightarrow> pump_rx recv n w1
      | (Some packet, w1) \<Rightarrow> do { (_, w2) \<leftarrow> handle_incoming_frame recv packet w1; pump_rx recv n w2 })"

subsection \<open>Connecting and sending\<close>

definition initial_seq :: "nat \<Rightarrow> nat option" where
  "initial_seq last_fd =
     do { m \<leftarrow> checked_mul 32 (last_fd mod 2 ^ 32) 1000; checked_add 32 (wrapping_add 32 0x10000000 m) 1234 }"

text \<open>The wait of the handshake: \<open>n\<close> rounds are left before \<^verbatim>\<open>waited\<close> passes the deadline of 4000000 in steps of 32.\<close>

fun wait_connected :: "net_stack receiver \<Rightarrow> nat \<Rightarrow> nat \<Rightarrow> net_stack \<Rightarrow> (bool \<times> net_stack) option" where
  "wait_connected recv fd 0 w = Some (False, w)"
| "wait_connected recv fd (Suc n) w =
     do {
       w1 \<leftarrow> pump_rx recv 32 w;
       (s, w2) \<leftarrow> peek_slot fd w1;
       case s of
         None \<Rightarrow> Some (False, w2)
       | Some s \<Rightarrow> if sock_state s = Connected then Some (True, w2) else wait_connected recv fd n w2
     }"

definition tcp_handshake :: "net_stack receiver \<Rightarrow> nat \<Rightarrow> net_stack \<Rightarrow> (bool \<times> net_stack) option" where
  "tcp_handshake recv fd w =
     do {
       (s, w1) \<leftarrow> peek_slot fd w;
       case s of
         None \<Rightarrow> Some (False, w1)
       | Some s \<Rightarrow>
           (let remote = (case remote_addr s of Some a \<Rightarrow> a | None \<Rightarrow> \<lparr>sa_ip = replicate 4 0, sa_port = 0\<rparr>);
                iscn = tcp_seq s in
            if sa_port remote = 0 then Some (False, w1)
            else do {
              w2 \<leftarrow> lock_table w1;
              (i, w3) \<leftarrow> find_slot fd w2;
              let w4 = (case i of Some i \<Rightarrow> update_slot i (\<lambda>s. s\<lparr>sock_state := SynSent, tcp_seq := iscn\<rparr>) w3 | None \<Rightarrow> w3);
              w5 \<leftarrow> send_tcp_syn_seq recv (local_port s) remote iscn (unlock_table w4);
              wait_connected recv fd 125001 w5
            })
     }"

definition unpack_ip :: "nat \<Rightarrow> byte list" where
  "unpack_ip v = be_bytes 4 (v mod 2 ^ 32)"

definition sys_connect :: "net_stack receiver \<Rightarrow> nat \<Rightarrow> nat \<Rightarrow> nat \<Rightarrow> net_stack \<Rightarrow> (nat \<times> net_stack) option" where
  "sys_connect recv fd ip_packed port w =
     (let addr = \<lparr>sa_ip = unpack_ip ip_packed, sa_port = port mod 2 ^ 16\<rparr> in
      do {
        (s, w1) \<leftarrow> peek_slot fd w;
        case s of
          None \<Rightarrow> Some (U64_MAX, w1)
        | Some s \<Rightarrow> do {
            let is_tcp = (sock_type s = Tcp);
            w2 \<leftarrow> lock_table w1;
            (i, w3) \<leftarrow> find_slot fd w2;
            case Option.bind i (\<lambda>i. sockets w3 ! i) of
              None \<Rightarrow> Some (U64_MAX, unlock_table w3)
            | Some s2 \<Rightarrow> do {
                (lp, w4) \<leftarrow> (if local_port s2 = 0 then (let (p, w') = allocate_port w3 in Some (Some p, w'))
                  else do { (j, w') \<leftarrow> find_slot fd w3; Some (map_option local_port (Option.bind j (\<lambda>j. sockets w' ! j)), w') });
                case lp of
                  None \<Rightarrow> Some (U64_MAX, unlock_table w4)
                | Some lp \<Rightarrow> do {
                    (k, w5) \<leftarrow> find_slot fd w4;
                    w6 \<leftarrow> (case k of
                            None \<Rightarrow> Some w5
                          | Some k \<Rightarrow> do {
                              isn \<leftarrow> initial_seq lp;
                              Some (update_slot k (\<lambda>s. s\<lparr>local_port := lp, remote_addr := Some addr, tcp_seq := isn, tcp_ack := 0,
                                sock_state := if is_tcp then sock_state s else Connected\<rparr>) w5)
                            });
                    let w7 = unlock_table w6;
                    if is_tcp then do {
                      (ok, w8) \<leftarrow> tcp_handshake recv fd w7;
                      Some (if ok then 0 else U64_MAX, w8)
                    }
                    else do { w8 \<leftarrow> send_udp_packet recv lp addr [] w7; Some (0, w8) }
                  }
              }
          }
      })"

definition sock_connect :: "net_stack receiver \<Rightarrow> nat \<Rightarrow> socket_addr \<Rightarrow> net_stack \<Rightarrow> (bool \<times> net_stack) option" where
  "sock_connect recv fd addr w =
     do { (ret, w1) \<leftarrow> sys_connect recv fd (be_val (sa_ip addr)) (sa_port addr) w; Some (ret \<noteq> U64_MAX, w1) }"

text \<open>
  \<open>data\<close> and \<open>buf\<close> are what \<^verbatim>\<open>validate_user_ptr\<close> made of the user buffer: \<open>None\<close> when it refused it. \<^verbatim>\<open>sys_recv\<close> gives the
  bytes it copies out as well.
\<close>

definition sys_send :: "net_stack receiver \<Rightarrow> nat \<Rightarrow> byte list option \<Rightarrow> net_stack \<Rightarrow> (nat \<times> net_stack) option" where
  "sys_send recv fd buf w =
     (case buf of
        None \<Rightarrow> Some (EFAULT_RET, w)
      | Some data \<Rightarrow> do {
          (s, w1) \<leftarrow> peek_slot fd w;
          case s of
            None \<Rightarrow> Some (U64_MAX, w1)
          | Some s \<Rightarrow>
              (case remote_addr s of
                 None \<Rightarrow> Some (U64_MAX, w1)
               | Some addr \<Rightarrow>
                   (case sock_type s of
                      Udp \<Rightarrow> do { w2 \<leftarrow> send_udp_packet recv (local_port s) addr data w1; Some (length data, w2) }
                    | Tcp \<Rightarrow>
                        if sock_state s \<noteq> Connected then Some (U64_MAX, w1)
                        else do {
                          w2 \<leftarrow> send_tcp_data recv (local_port s) addr (tcp_seq s) (tcp_ack s) data w1;
                          w3 \<leftarrow> lock_table w2;
                          (i, w4) \<leftarrow> find_slot fd w3;
                          let w5 = (case i of Some i \<Rightarrow> update_slot i (\<lambda>s. s\<lparr>tcp_seq := wrapping_add 32 (tcp_seq s) (length data mod 2 ^ 32)\<rparr>) w4
                                    | None \<Rightarrow> w4);
                          Some (length data, unlock_table w5)
                        }
                    | Raw \<Rightarrow> Some (length data, w1)))
        })"

definition sys_recv :: "nat \<Rightarrow> nat \<Rightarrow> bool \<Rightarrow> net_stack \<Rightarrow> (nat \<times> byte list \<times> net_stack) option" where
  "sys_recv fd len buf_ok w =
     do {
       w1 \<leftarrow> lock_table w;
       (i, w2) \<leftarrow> find_slot fd w1;
       case Option.bind i (\<lambda>i. map_option (Pair i) (sockets w2 ! i)) of
         None \<Rightarrow> Some (0, [], unlock_table w2)
       | Some (i, s) \<Rightarrow>
           (case rx_buffer s of
              [] \<Rightarrow> Some (0, [], unlock_table w2)
            | data # rest \<Rightarrow>
                (let n = min (length data) len; w3 = unlock_table (update_slot i (\<lambda>s. s\<lparr>rx_buffer := rest\<rparr>) w2) in
                 if n = 0 \<or> buf_ok then Some (n, take n data, w3) else Some (EFAULT_RET, [], w3)))
     }"

definition sock_send :: "net_stack receiver \<Rightarrow> nat \<Rightarrow> byte list \<Rightarrow> net_stack \<Rightarrow> (bool \<times> net_stack) option" where
  "sock_send recv fd data w =
     do {
       w1 \<leftarrow> lock_table w;
       let found = Option.bind (position (has_fd fd) (sockets w1)) (\<lambda>i. sockets w1 ! i);
       let w2 = unlock_table w1;
       case Option.bind found (\<lambda>s. map_option (Pair s) (remote_addr s)) of
         None \<Rightarrow> Some (False, w2)
       | Some (s, addr) \<Rightarrow>
           (case sock_type s of
              Udp \<Rightarrow> do { w3 \<leftarrow> send_udp_packet recv (local_port s) addr data w2; Some (True, w3) }
            | Tcp \<Rightarrow> do {
                (t, w3) \<leftarrow> peek_slot fd w2;
                case t of
                  None \<Rightarrow> Some (False, w3)
                | Some t \<Rightarrow> do {
                    w4 \<leftarrow> send_tcp_data recv (local_port s) addr (tcp_seq t) (tcp_ack t) data w3;
                    Some (True, w4)
                  }
              }
            | Raw \<Rightarrow> Some (True, w2))
     }"

subsection \<open>The request dispatcher\<close>

definition NET_OP_SOCKET :: nat where "NET_OP_SOCKET = 1"
definition NET_OP_BIND :: nat where "NET_OP_BIND = 2"
definition NET_OP_LISTEN :: nat where "NET_OP_LISTEN = 3"
definition NET_OP_CONNECT :: nat where "NET_OP_CONNECT = 4"
definition NET_OP_SEND :: nat where "NET_OP_SEND = 5"
definition NET_OP_RECV :: nat where "NET_OP_RECV = 6"
definition NET_OP_CLOSE :: nat where "NET_OP_CLOSE = 7"
definition IPPROTO_TCP :: nat where "IPPROTO_TCP = 6"

lemmas net_ops = NET_OP_SOCKET_def NET_OP_BIND_def NET_OP_LISTEN_def NET_OP_CONNECT_def NET_OP_SEND_def NET_OP_RECV_def
  NET_OP_CLOSE_def

record net_request =
  nr_opcode :: nat
  socket_id :: nat
  nr_proto :: nat
  nr_ip :: "byte list"
  nr_port :: nat
  payload_len :: nat

record net_response =
  nr_status :: nat
  nr_socket_id :: nat
  bytes_transferred :: nat

definition net_empty_request :: net_request where
  "net_empty_request = \<lparr>nr_opcode = 0, socket_id = 0, nr_proto = 0, nr_ip = replicate 4 0, nr_port = 0, payload_len = 0\<rparr>"

definition new_socket :: "nat \<Rightarrow> net_request" where
  "new_socket proto = net_empty_request\<lparr>nr_opcode := NET_OP_SOCKET, nr_proto := proto\<rparr>"

definition new_connect :: "nat \<Rightarrow> byte list \<Rightarrow> nat \<Rightarrow> net_request" where
  "new_connect sid ip port = net_empty_request\<lparr>nr_opcode := NET_OP_CONNECT, socket_id := sid, nr_ip := ip, nr_port := port\<rparr>"

definition new_send :: "nat \<Rightarrow> nat \<Rightarrow> net_request" where
  "new_send sid len = net_empty_request\<lparr>nr_opcode := NET_OP_SEND, socket_id := sid, payload_len := len\<rparr>"

definition new_recv :: "nat \<Rightarrow> nat \<Rightarrow> net_request" where
  "new_recv sid max_len = net_empty_request\<lparr>nr_opcode := NET_OP_RECV, socket_id := sid, payload_len := max_len\<rparr>"

definition new_net_close :: "nat \<Rightarrow> net_request" where
  "new_net_close sid = net_empty_request\<lparr>nr_opcode := NET_OP_CLOSE, socket_id := sid\<rparr>"

definition net_ok :: "nat \<Rightarrow> nat \<Rightarrow> net_response" where
  "net_ok sid n = \<lparr>nr_status = 0, nr_socket_id = sid, bytes_transferred = n\<rparr>"

definition net_err :: "nat \<Rightarrow> net_response" where
  "net_err e = \<lparr>nr_status = e, nr_socket_id = 0, bytes_transferred = 0\<rparr>"

definition dispatch_net_request ::
    "net_stack receiver \<Rightarrow> net_request \<Rightarrow> byte list option \<Rightarrow> net_stack \<Rightarrow> ((net_response \<times> byte list) \<times> net_stack) option" where
  "dispatch_net_request recv req data_payload w =
     (if nr_opcode req = NET_OP_SOCKET then do {
        (r, w1) \<leftarrow> socket (if nr_proto req = IPPROTO_TCP then Tcp else Udp) w;
        Some ((case r of Some fd \<Rightarrow> net_ok (fd mod 2 ^ 32) 0 | None \<Rightarrow> net_err ENOMEM, []), w1)
      }
      else if nr_opcode req = NET_OP_BIND then do {
        (ok, w1) \<leftarrow> sock_bind (socket_id req) (nr_port req) w;
        Some ((if ok then net_ok (socket_id req) 0 else net_err EINVAL, []), w1)
      }
      else if nr_opcode req = NET_OP_LISTEN then do {
        (ok, w1) \<leftarrow> sock_listen (socket_id req) w;
        Some ((if ok then net_ok (socket_id req) 0 else net_err EINVAL, []), w1)
      }
      else if nr_opcode req = NET_OP_CONNECT then do {
        (ok, w1) \<leftarrow> sock_connect recv (socket_id req) \<lparr>sa_ip = nr_ip req, sa_port = nr_port req\<rparr> w;
        Some ((if ok then net_ok (socket_id req) 0 else net_err EACCES, []), w1)
      }
      else if nr_opcode req = NET_OP_SEND then do {
        let payload = (case data_payload of Some d \<Rightarrow> d | None \<Rightarrow> []);
        (ok, w1) \<leftarrow> sock_send recv (socket_id req) payload w;
        Some ((if ok then net_ok (socket_id req) (length payload mod 2 ^ 32) else net_err EIO, []), w1)
      }
      else if nr_opcode req = NET_OP_RECV then do {
        (r, w1) \<leftarrow> sock_recv (socket_id req) w;
        Some (case r of Some data \<Rightarrow> (net_ok (socket_id req) (length data mod 2 ^ 32), data) | None \<Rightarrow> (net_err EAGAIN, []), w1)
      }
      else if nr_opcode req = NET_OP_CLOSE then do {
        w1 \<leftarrow> sock_close (socket_id req) w;
        Some ((net_ok (socket_id req) 0, []), w1)
      }
      else Some ((net_err ENOSYS, []), w))"

end
