(* ===== verification/Net_Properties.thy ===== *)
theory Net_Properties
  imports Net_Socket
begin

section \<open>What holds of the network stack\<close>

text \<open>
  Lemmas and properties of \<open>Net_Packet\<close>, \<open>Net_Arp\<close> and \<open>Net_Socket\<close>: packets come back as they were built and their
  checksums verify, the handling of a received frame returns unless its UDP length is malformed, a datagram reaches the socket bound to its
  port, the socket table stays well formed, and the operations that look a socket up twice under its lock never return.
\<close>

subsection \<open>The lock\<close>

lemma lock_free [simp]: "\<not> table_locked w \<Longrightarrow> lock_table w = Some (w\<lparr>table_locked := True\<rparr>)"
  by (simp add: lock_table_def)

lemma lock_held [simp]: "table_locked w \<Longrightarrow> lock_table w = None"
  by (simp add: lock_table_def)

lemma lock_table_Some: "lock_table w = Some w' \<longleftrightarrow> \<not> table_locked w \<and> w' = w\<lparr>table_locked := True\<rparr>"
  by (auto simp: lock_table_def)

lemma unlock_locked [simp]: "\<not> table_locked w \<Longrightarrow> unlock_table (w\<lparr>table_locked := True\<rparr>) = w"
  by (simp add: unlock_table_def)

lemma unlock_simps [simp]:
  "sockets (unlock_table w) = sockets w" "next_fd (unlock_table w) = next_fd w" "next_port (unlock_table w) = next_port w"
  "\<not> table_locked (unlock_table w)" "device (unlock_table w) = device w" "arp_cache (unlock_table w) = arp_cache w"
  by (simp_all add: unlock_table_def)

lemma update_slot_simps [simp]:
  "sockets (update_slot i f w) = (sockets w)[i := map_option f (sockets w ! i)]" "next_fd (update_slot i f w) = next_fd w"
  "next_port (update_slot i f w) = next_port w" "table_locked (update_slot i f w) = table_locked w"
  "device (update_slot i f w) = device w" "arp_cache (update_slot i f w) = arp_cache w"
  by (simp_all add: update_slot_def)

text \<open>The table is looked up with its guard alive: the second acquisition spins for ever.\<close>

lemma peek_slot_hangs: "peek_slot fd w = None"
  by (simp add: peek_slot_def find_slot_def lock_table_def)

subsection \<open>Frames are handled\<close>

text \<open>A UDP packet is malformed for this stack when its length field is less than the 8 bytes of its own header.\<close>

definition udp_safe :: "byte list \<Rightarrow> bool" where
  "udp_safe packet \<longleftrightarrow> (case parse_ipv4_payload packet of
     Some (src, dst, proto, start) \<Rightarrow>
       proto = 17 \<longrightarrow> start + 8 \<le> length packet \<longrightarrow> start + be_field packet (start + 4) 2 \<le> length packet \<longrightarrow>
       8 \<le> be_field packet (start + 4) 2
   | None \<Rightarrow> True)"

lemma deliver_returns:
  assumes "\<not> table_locked w"
  shows "\<exists>w'. deliver_packet_to_socket t port data w = Some w' \<and> \<not> table_locked w' \<and> device w' = device w"
  using assms by (auto simp: deliver_packet_to_socket_def split: option.splits)

lemma polls_device: "device w' = device w \<Longrightarrow> polls w' = polls w"
  by (simp add: polls_def)

lemma parse_ip_lengths: "parse_ipv4_payload p = Some (src, dst, proto, start) \<Longrightarrow> length src = 4 \<and> length dst = 4"
  by (auto simp: parse_ipv4_payload_def parse_ipv4_header_def Let_def split: if_splits option.splits)

lemma handle_udp_returns:
  assumes "\<not> table_locked w" and "udp_safe p" and "parse_ipv4_payload p = Some (src, dst, 17, start)"
  shows "\<exists>w'. handle_incoming_udp p start w = Some w' \<and> \<not> table_locked w' \<and> device w' = device w"
  using assms deliver_returns [OF assms(1)] by (auto simp: handle_incoming_udp_def udp_safe_def Let_def slice_def)

lemma handle_tcp_returns:
  assumes recv: "frame_receiver recv udp_safe (\<lambda>w :: net_stack. \<not> table_locked w) k"
    and w: "\<not> table_locked w" "list_all (pred_option udp_safe) (polls w)" "length (polls w) \<le> k" and src: "length src = 4"
  shows "\<exists>w'. handle_incoming_tcp recv p src start w = Some w' \<and> \<not> table_locked w' \<and> (\<exists>ps. polls w = ps @ polls w')"
proof (cases "parse_tcp_header p start")
  case None
  with w show ?thesis by (auto simp: handle_incoming_tcp_def)
next
  case (Some hdr)
  let ?t = "position (\<lambda>so. case so of Some s \<Rightarrow> sock_type s = Tcp \<and> local_port s = th_dst_port hdr | None \<Rightarrow> False) (sockets w)"
  show ?thesis
  proof (cases "Option.bind ?t (\<lambda>i. map_option (Pair i) (sockets w ! i))")
    case None
    with Some w show ?thesis by (auto simp: handle_incoming_tcp_def Let_def)
  next
    case (Some q)
    obtain i s where q: "q = (i, s)" by (cases q)
    let ?r = "\<lparr>sa_ip = src, sa_port = th_src_port hdr\<rparr>" and ?a = "wrapping_add 32 (th_seq hdr) 1"
    obtain wa where wa: "send_tcp_ack recv (local_port s) ?r (tcp_seq s) ?a w = Some wa" "\<not> table_locked wa"
      "\<exists>ps. polls w = ps @ polls wa"
      using frame_receiver.send_tcp_returns [OF recv, of w ?r "[]" ACK "local_port s" "tcp_seq s" ?a] w src
      by (auto simp: send_tcp_ack_def frame_receiver.good_def [OF recv] frame_receiver.moved_def [OF recv])
    obtain wd where wd: "deliver_packet_to_socket Tcp (th_dst_port hdr) (drop (start + data_offset hdr) p) w = Some wd"
      "\<not> table_locked wd" "device wd = device w" using deliver_returns [OF w(1)] by blast
    note unf = handle_incoming_tcp_def Let_def \<open>parse_tcp_header p start = Some hdr\<close> Some q
    show ?thesis
      using w(1) wa wd polls_device [OF wd(3)]
      by (auto simp: unf polls_def split: if_splits)
  qed
qed

lemma handle_packet_returns:
  assumes recv: "frame_receiver recv udp_safe (\<lambda>w :: net_stack. \<not> table_locked w) k"
    and w: "\<not> table_locked w" "list_all (pred_option udp_safe) (polls w)" "length (polls w) \<le> k" and p: "udp_safe p"
  shows "\<exists>w'. handle_incoming_packet recv p w = Some w' \<and> \<not> table_locked w' \<and> (\<exists>ps. polls w = ps @ polls w')"
proof (cases "parse_ipv4_payload p")
  case None
  with w show ?thesis by (auto simp: handle_incoming_packet_def)
next
  case (Some q)
  obtain src dst proto start where q: "parse_ipv4_payload p = Some (src, dst, proto, start)"
    using Some by (cases q) auto
  consider "proto = 6" | "proto = 17" | "proto \<noteq> 6" "proto \<noteq> 17" by blast
  then show ?thesis
  proof cases
    case 1
    with handle_tcp_returns [OF recv w, of src p start] q parse_ip_lengths [OF q] show ?thesis
      by (simp add: handle_incoming_packet_def)
  next
    case 2
    then obtain w' where "handle_incoming_udp p start w = Some w'" "\<not> table_locked w'" "device w' = device w"
      using handle_udp_returns w p q by blast
    with 2 q polls_device show ?thesis by (fastforce simp: handle_incoming_packet_def)
  next
    case 3
    with w q show ?thesis by (auto simp: handle_incoming_packet_def)
  qed
qed

lemma rx_depth_receiver: "frame_receiver (rx_depth k) udp_safe (\<lambda>w. \<not> table_locked w) k"
proof (induction k)
  case 0
  show ?case by unfold_locales simp_all
next
  case (Suc k)
  show ?case by unfold_locales (simp_all add: handle_packet_returns [OF Suc])
qed

interpretation rx: frame_receiver "rx_depth k" udp_safe "\<lambda>w. \<not> table_locked w" k for k
  by (rule rx_depth_receiver)

subsection \<open>The table over time\<close>

definition slot_ok :: "nat \<Rightarrow> sock \<Rightarrow> bool" where
  "slot_ok n s \<longleftrightarrow> s_fd s < n \<and> length (rx_buffer s) \<le> 16 \<and> remote_addr s = None \<and> sock_state s \<in> {Closed, Listening}"

definition sock_ok :: "net_stack \<Rightarrow> bool" where
  "sock_ok w \<longleftrightarrow> \<not> table_locked w \<and> length (sockets w) = 64 \<and> 49152 \<le> next_port w \<and> next_port w \<le> 65535 \<and>
     (\<forall>i s. i < 64 \<and> sockets w ! i = Some s \<longrightarrow> slot_ok (next_fd w) s) \<and>
     (\<forall>i j s t. i < 64 \<and> j < 64 \<and> sockets w ! i = Some s \<and> sockets w ! j = Some t \<and> s_fd s = s_fd t \<longrightarrow> i = j)"

lemma sock_okD:
  assumes "sock_ok w"
  shows "\<not> table_locked w" "length (sockets w) = 64" "i < 64 \<Longrightarrow> sockets w ! i = Some s \<Longrightarrow> slot_ok (next_fd w) s"
    "i < 64 \<Longrightarrow> j < 64 \<Longrightarrow> sockets w ! i = Some s \<Longrightarrow> sockets w ! j = Some t \<Longrightarrow> s_fd s = s_fd t \<Longrightarrow> i = j"
  using assms unfolding sock_ok_def by blast+

text \<open>One slot is replaced by a socket with the descriptor it had, by a new descriptor, or emptied.\<close>

lemma sock_ok_slot:
  assumes "sock_ok w" and "\<not> table_locked w'" and "sockets w' = (sockets w)[i := so]" and "next_fd w \<le> next_fd w'"
    and "49152 \<le> next_port w'" "next_port w' \<le> 65535"
    and new: "\<And>s. so = Some s \<Longrightarrow> slot_ok (next_fd w') s \<and>
      (s_fd s = next_fd w \<or> (\<exists>s0. i < 64 \<and> sockets w ! i = Some s0 \<and> s_fd s = s_fd s0))"
  shows "sock_ok w'"
proof -
  note ok = sock_okD [OF assms(1)]
  have slot: "sockets w' ! j = (if j = i then so else sockets w ! j)" if "j < 64" for j
    using that assms(3) ok(2) by (cases "j = i") auto
  have fresh: "s_fd s \<noteq> s_fd t" if "so = Some s" "j < 64" "j \<noteq> i" "sockets w ! j = Some t" for j s t
    using new [OF that(1)] ok(3) [OF that(2,4)] ok(4) [OF that(2) _ that(4)] that(3) by (auto simp: slot_ok_def)
  have "slot_ok (next_fd w') s" if "j < 64" "sockets w' ! j = Some s" for j s
    using that new ok(3) [OF that(1)] assms(4) slot [OF that(1)] by (auto simp: slot_ok_def split: if_splits)
  moreover have "j = k" if "j < 64" "k < 64" "sockets w' ! j = Some s" "sockets w' ! k = Some t" "s_fd s = s_fd t" for j k s t
  proof (rule ccontr)
    assume ne: "j \<noteq> k"
    consider "j = i" | "k = i" | "j \<noteq> i" "k \<noteq> i" by blast
    then show False
    proof cases
      case 1
      then show False using fresh [of s k t] slot [OF that(1)] slot [OF that(2)] that ne by simp
    next
      case 2
      then show False using fresh [of t j s] slot [OF that(1)] slot [OF that(2)] that ne by simp
    next
      case 3
      then show False using ok(4) [OF that(1,2), of s t] slot [OF that(1)] slot [OF that(2)] that ne by simp
    qed
  qed
  ultimately show ?thesis using assms(2,3,5,6) ok(2) by (auto simp: sock_ok_def)
qed

lemma sock_ok_net: "sock_ok w \<Longrightarrow> sockets w' = sockets w \<Longrightarrow> next_fd w' = next_fd w \<Longrightarrow> next_port w' = next_port w \<Longrightarrow>
    table_locked w' = table_locked w \<Longrightarrow> sock_ok w'"
  by (simp add: sock_ok_def)

lemma sock_ok_upd:
  assumes "sock_ok w" and "i < 64" and "\<And>s. slot_ok (next_fd w) s \<Longrightarrow> slot_ok (next_fd w) (f s) \<and> s_fd (f s) = s_fd s"
    and "49152 \<le> p" "p \<le> 65535"
  shows "sock_ok (unlock_table (update_slot i f (w\<lparr>table_locked := b, next_port := p\<rparr>)))"
proof (rule sock_ok_slot [OF assms(1)])
  fix s assume "map_option f (sockets w ! i) = Some s"
  then obtain s0 where "sockets w ! i = Some s0" "s = f s0" by auto
  with assms(2,3) sock_okD(3) [OF assms(1,2)] show "slot_ok (next_fd (unlock_table (update_slot i f (w\<lparr>table_locked := b, next_port := p\<rparr>)))) s \<and>
      (s_fd s = next_fd w \<or> (\<exists>s0. i < 64 \<and> sockets w ! i = Some s0 \<and> s_fd s = s_fd s0))" by auto
qed (use assms(4,5) in simp_all)

lemma new_stack_ok: "sock_ok (new_stack d)"
  by (auto simp: sock_ok_def new_stack_def)

lemma socket_keeps_ok:
  assumes "sock_ok w" and "socket t w = Some (r, w')"
  shows "sock_ok w'"
proof -
  note ok = sock_okD [OF assms(1)]
  show ?thesis
  proof (cases "position (\<lambda>so. so = None) (sockets w)")
    case None
    with assms ok(1) show ?thesis by (simp add: socket_def)
  next
    case (Some i)
    let ?s = "\<lparr>s_fd = next_fd w, sock_type = t, sock_state = Closed, local_port = 0, remote_addr = None, rx_buffer = [],
      tcp_seq = 0, tcp_ack = 0\<rparr>"
    have "sockets w' = (sockets w)[i := Some ?s]" "next_fd w' = next_fd w + 1" "next_port w' = next_port w" "\<not> table_locked w'"
      using assms(2) ok(1) Some by (auto simp: socket_def checked_add_def split: if_splits)
    then show ?thesis
      using assms(1) by (intro sock_ok_slot [OF assms(1)]) (auto simp: slot_ok_def sock_ok_def)
  qed
qed

lemma bind_keeps_ok:
  assumes "sock_ok w" and "sock_bind fd port w = Some (r, w')"
  shows "sock_ok w'"
proof -
  note ok = sock_okD [OF assms(1)]
  have np: "49152 \<le> next_port w" "next_port w \<le> 65535" using assms(1) by (simp_all add: sock_ok_def)
  show ?thesis
  proof (cases "w' = w")
    case False
    then obtain i where i: "position (has_fd fd) (sockets w) = Some i"
      using assms(2) ok(1) by (auto simp: sock_bind_def split: if_splits option.splits)
    let ?np = "if port = 0 then if next_port w = 65535 then 49152 else next_port w + 1 else next_port w"
      and ?p = "if port = 0 then next_port w else port"
    have "w' = unlock_table (update_slot i (\<lambda>s. s\<lparr>local_port := ?p\<rparr>) (w\<lparr>table_locked := True, next_port := ?np\<rparr>))"
      using assms(2) ok(1) i False by (cases "port = 0") (auto simp: sock_bind_def allocate_port_def split: if_splits)
    moreover have "i < 64" using position_in_range [OF i] ok(2) by simp
    ultimately show ?thesis using np sock_ok_upd [OF assms(1)] by (simp add: slot_ok_def)
  qed (use assms(1) in simp)
qed


lemma sock_ok_touch:
  assumes "sock_ok w" and "position P (sockets w) = Some i"
    and "\<And>s. slot_ok (next_fd w) s \<Longrightarrow> slot_ok (next_fd w) (f s) \<and> s_fd (f s) = s_fd s"
  shows "sock_ok (unlock_table (update_slot i f (w\<lparr>table_locked := True\<rparr>)))"
proof -
  have "i < 64" using position_in_range [OF assms(2)] sock_okD(2) [OF assms(1)] by simp
  then have "sock_ok (unlock_table (update_slot i f (w\<lparr>table_locked := True, next_port := next_port w\<rparr>)))"
    using assms(1,3) by (intro sock_ok_upd) (auto simp: sock_ok_def)
  then show ?thesis by simp
qed

lemma listen_keeps_ok: "sock_ok w \<Longrightarrow> sock_listen fd w = Some (r, w') \<Longrightarrow> sock_ok w'"
  using sock_ok_touch [of w "has_fd fd" _ "\<lambda>s. s\<lparr>sock_state := Listening\<rparr>"]
  by (auto simp: sock_listen_def sock_okD(1) slot_ok_def split: option.splits if_splits)

lemma recv_keeps_ok:
  assumes "sock_ok w" and "sock_recv fd w = Some (r, w')"
  shows "sock_ok w'"
proof (cases "position (\<lambda>so. has_fd fd so \<and> map_option rx_buffer so \<noteq> Some []) (sockets w)")
  case None
  with assms sock_okD(1) [OF assms(1)] show ?thesis by (simp add: sock_recv_def)
next
  case (Some i)
  have "slot_ok (next_fd w) s \<Longrightarrow> slot_ok (next_fd w) (s\<lparr>rx_buffer := list_remove 0 (rx_buffer s)\<rparr>) \<and>
      s_fd (s\<lparr>rx_buffer := list_remove 0 (rx_buffer s)\<rparr>) = s_fd s" for s
    by (auto simp: slot_ok_def list_remove_def)
  with sock_ok_touch [OF assms(1) Some] assms Some sock_okD(1) [OF assms(1)] show ?thesis
    by (auto simp: sock_recv_def split: option.splits)
qed

lemma deliver_keeps_ok: "sock_ok w \<Longrightarrow> deliver_packet_to_socket t port data w = Some w' \<Longrightarrow> sock_ok w'"
  using sock_ok_touch [of w "\<lambda>so. case so of Some s \<Rightarrow> sock_type s = t \<and> local_port s = port | None \<Rightarrow> False" _
      "\<lambda>s. if length (rx_buffer s) < 16 then s\<lparr>rx_buffer := rx_buffer s @ [data]\<rparr> else s"]
  by (auto simp: deliver_packet_to_socket_def sock_okD(1) slot_ok_def split: option.splits)

lemma close_keeps_ok:
  assumes "sock_ok w" and "sock_close fd w = Some w'"
  shows "sock_ok w'"
proof (cases "position (has_fd fd) (sockets w)")
  case None
  with assms sock_okD(1) [OF assms(1)] show ?thesis by (simp add: sock_close_def)
next
  case (Some i)
  then have "w' = unlock_table (w\<lparr>table_locked := True, sockets := (sockets w)[i := None]\<rparr>)"
    using assms(2) sock_okD(1) [OF assms(1)] by (simp add: sock_close_def)
  then show ?thesis using assms(1) by (intro sock_ok_slot [OF assms(1), of _ i None]) (simp_all add: sock_ok_def)
qed

lemma send_fails: "sock_ok w \<Longrightarrow> sock_send recv fd data w = Some (False, w)"
proof -
  assume ok: "sock_ok w"
  have "Option.bind (Option.bind (position (has_fd fd) (sockets w)) (\<lambda>i. sockets w ! i)) (\<lambda>s. map_option (Pair s) (remote_addr s)) = None"
  proof (cases "Option.bind (position (has_fd fd) (sockets w)) (\<lambda>i. sockets w ! i)")
    case (Some s)
    then obtain i where "position (has_fd fd) (sockets w) = Some i" "sockets w ! i = Some s" by (auto simp: bind_eq_Some_conv)
    then have "slot_ok (next_fd w) s" using sock_okD [OF ok] position_in_range by metis
    with Some show ?thesis by (simp add: slot_ok_def)
  qed simp
  with sock_okD(1) [OF ok] show ?thesis by (simp add: sock_send_def Let_def)
qed

lemma tcp_segment_ignored:
  assumes "sock_ok w" shows "handle_incoming_tcp recv p src start w = Some w"
proof (cases "parse_tcp_header p start")
  case (Some hdr)
  let ?t = "position (\<lambda>so. case so of Some s \<Rightarrow> sock_type s = Tcp \<and> local_port s = th_dst_port hdr | None \<Rightarrow> False) (sockets w)"
  have "sock_state s \<noteq> SynSent \<and> sock_state s \<noteq> Connected" if "Option.bind ?t (\<lambda>i. map_option (Pair i) (sockets w ! i)) = Some (i, s)" for i s
  proof -
    have "?t = Some i" "sockets w ! i = Some s" using that by (auto simp: bind_eq_Some_conv)
    then have "slot_ok (next_fd w) s" using sock_okD [OF assms] position_in_range by metis
    then show ?thesis by (auto simp: slot_ok_def)
  qed
  with Some sock_okD(1) [OF assms] show ?thesis by (auto simp: handle_incoming_tcp_def Let_def split: option.splits)
qed (simp add: handle_incoming_tcp_def)

lemma arp_keeps_ok: "sock_ok w \<Longrightarrow> handle_incoming_arp p w = (b, w') \<Longrightarrow> sock_ok w'"
  by (erule sock_ok_net) (auto simp: handle_incoming_arp_def Let_def send_arp_reply_def send_ethernet_packet_raw_def
      arp_cache_insert_def arp_cache_insert_with_time_def split: option.splits if_splits)

lemma frame_keeps_ok:
  assumes "sock_ok w" and "handle_incoming_frame recv p w = Some (b, w')"
  shows "sock_ok w'"
proof -
  have "sock_ok v" if "handle_incoming_packet recv p w = Some v" for v
    using that assms(1) tcp_segment_ignored [OF assms(1)]
    by (auto simp: handle_incoming_packet_def handle_incoming_udp_def Let_def bind_eq_Some_conv deliver_keeps_ok
        split: option.splits if_splits)
  with assms arp_keeps_ok show ?thesis by (auto simp: handle_incoming_frame_def split: if_splits)
qed

lemma connect_hangs: "sys_connect recv fd ip port w = None"
  by (simp add: sys_connect_def peek_slot_hangs Let_def)

lemma recv_hangs: "sys_recv fd len buf_ok w = None"
  by (simp add: sys_recv_def find_slot_def lock_table_def)

lemmas requests_keep_ok = socket_keeps_ok bind_keeps_ok listen_keeps_ok recv_keeps_ok close_keeps_ok

lemma dispatch_keeps_ok:
  assumes "sock_ok w" and "dispatch_net_request recv req data w = Some (r, w')"
  shows "sock_ok w'"
  using assms unfolding dispatch_net_request_def sock_connect_def connect_hangs send_fails [OF assms(1)] Let_def
  by (auto simp: bind_eq_Some_conv dest: requests_keep_ok [OF assms(1)] split: if_splits)

lemma sock_recv_only:
  assumes "sock_ok w" and i: "i < 64" "sockets w ! i = Some s" and "rx_buffer s = []"
  shows "sock_recv (s_fd s) (w\<lparr>sockets := (sockets w)[i := Some (s\<lparr>rx_buffer := [data]\<rparr>)]\<rparr>) = Some (Some data, w)"
proof -
  note ok = sock_okD [OF assms(1)]
  let ?w = "w\<lparr>sockets := (sockets w)[i := Some (s\<lparr>rx_buffer := [data]\<rparr>)]\<rparr>"
  let ?P = "\<lambda>so. has_fd (s_fd s) so \<and> map_option rx_buffer so \<noteq> Some []"
  have "\<not> ?P (sockets ?w ! j)" if "j < i" for j
    using that i ok(2) ok(4) [of j i] by (auto simp: has_fd_def split: option.splits)
  then have "position ?P (sockets ?w) = Some i" using i ok(2) by (simp add: position_Some has_fd_def)
  moreover have "w\<lparr>sockets := (sockets w)[i := Some (s\<lparr>rx_buffer := []\<rparr>)], table_locked := False\<rparr> = w"
  proof -
    have "s\<lparr>rx_buffer := []\<rparr> = s" using assms(4) by (cases s) simp
    moreover have "(sockets w)[i := Some s] = sockets w" using i(2) by (metis list_update_id)
    moreover have "w\<lparr>sockets := sockets w, table_locked := False\<rparr> = w" using ok(1) by (cases w) simp
    ultimately show ?thesis by (simp only:)
  qed
  ultimately show ?thesis
    using i ok(1,2) assms(4) by (simp add: sock_recv_def update_slot_def unlock_table_def list_remove_def)
qed

text \<open>The stack over time: requests and system calls that return, received frames, the card filling its ring, and expiry.\<close>

inductive net_step :: "net_stack \<Rightarrow> net_stack \<Rightarrow> bool" where
  step_request: "dispatch_net_request (rx_depth k) req data w = Some (r, w') \<Longrightarrow> net_step w w'"
| step_connect: "sys_connect (rx_depth k) fd ip port w = Some (r, w') \<Longrightarrow> net_step w w'"
| step_send: "sys_send (rx_depth k) fd buf w = Some (r, w') \<Longrightarrow> net_step w w'"
| step_recv: "sys_recv fd len buf_ok w = Some (r, bs, w') \<Longrightarrow> net_step w w'"
| step_frame: "handle_incoming_frame (rx_depth k) packet w = Some (r, w') \<Longrightarrow> net_step w w'"
| step_card: "device w = Some d \<Longrightarrow> net_step w (w\<lparr>device := Some (d\<lparr>rx_polls := ps\<rparr>)\<rparr>)"
| step_prune: "net_step w (snd (arp_cache_prune_expired now w))"

inductive_cases net_stepE: "net_step w w'"

interpretation net: inv_system net_step sock_ok
proof
  fix w w' assume "sock_ok w" "net_step w w'"
  from this(2,1) show "sock_ok w'"
  proof cases
    case (step_send k fd buf r)
    then show ?thesis using \<open>sock_ok w\<close> by (auto simp: sys_send_def peek_slot_hangs split: option.splits)
  next
    case (step_card d ps)
    then show ?thesis using \<open>sock_ok w\<close> by (auto intro: sock_ok_net)
  next
    case (step_prune now)
    then show ?thesis using \<open>sock_ok w\<close> by (auto simp: arp_cache_prune_expired_def Let_def intro: sock_ok_net)
  next
    case (step_request k req data r)
    then show ?thesis using dispatch_keeps_ok \<open>sock_ok w\<close> by blast
  next
    case (step_frame k packet r)
    then show ?thesis using frame_keeps_ok \<open>sock_ok w\<close> by blast
  qed (simp_all add: connect_hangs recv_hangs)
qed

subsection \<open>A stack with work to do\<close>

text \<open>
  A concrete stack for the properties below: a datagram socket on port 53 and a TCP socket that has sent its first segment,
  on a card that answers nothing, then a datagram, then the address of the peer; and the peer's acknowledgement.
\<close>

definition ip_header :: "byte \<Rightarrow> byte \<Rightarrow> byte list" where
  "ip_header len proto = [0x45, 0, 0, len, 0, 0, 0, 0, 64, proto, 0, 0, 93, 184, 216, 34, 10, 0, 2, 15]"

definition syn_ack_frame :: "byte list" where
  "syn_ack_frame = [1, 1, 1, 1, 1, 1, 1, 1, 1, 1, 1, 1] @ [8, 0] @ ip_header 40 6 @ [0, 80, 192, 0, 0, 0, 0, 9, 0, 0, 0, 8, 0x50, 0x12, 0, 0, 0, 0, 0, 0]"

definition datagram_frame :: "byte list" where
  "datagram_frame = [1, 1, 1, 1, 1, 1, 1, 1, 1, 1, 1, 1] @ [8, 0] @ ip_header 30 17 @ [0, 7, 0, 53, 0, 10, 0, 0, 104, 105]"

definition answer_frame :: "byte list" where
  "answer_frame = arp_frame (replicate 6 1) (replicate 6 2) 2 [93, 184, 216, 34] (replicate 6 1) [10, 0, 2, 15]"

abbreviation peer_ip :: "byte list" where "peer_ip \<equiv> [93, 184, 216, 34]"

abbreviation peer_entry :: arp_entry where "peer_entry \<equiv> \<lparr>a_ip = peer_ip, a_mac = replicate 6 2, timestamp = 0\<rparr>"

definition plain_sock :: "nat \<Rightarrow> socket_type \<Rightarrow> socket_state \<Rightarrow> nat \<Rightarrow> byte list list \<Rightarrow> nat \<Rightarrow> nat \<Rightarrow> sock" where
  "plain_sock fd t st p rx sq ak =
     \<lparr>s_fd = fd, sock_type = t, sock_state = st, local_port = p, remote_addr = None, rx_buffer = rx, tcp_seq = sq, tcp_ack = ak\<rparr>"

definition busy_stack :: "byte list option list \<Rightarrow> byte list list \<Rightarrow> arp_entry list \<Rightarrow> byte list list \<Rightarrow> sock \<Rightarrow> net_stack" where
  "busy_stack ps tx cache rx s = \<lparr>device = Some \<lparr>nic_mac = replicate 6 1, rx_polls = ps, tx_frames = tx\<rparr>, arp_cache = cache,
     sockets = Some (plain_sock 0 Udp Closed 53 rx 0 0) # Some s # replicate 62 None, next_fd = 2, next_port = 49152, table_locked = False\<rparr>"

definition busy_demo :: "net_stack" where
  "busy_demo = busy_stack [None, Some datagram_frame, Some answer_frame] [] [] [] (plain_sock (Suc 0) Tcp SynSent 49152 [] 7 0)"

lemma demo_fields:
  "parse_ipv4_payload syn_ack_frame = Some (peer_ip, [10, 0, 2, 15], 6, 34)"
  "parse_ipv4_payload datagram_frame = Some (peer_ip, [10, 0, 2, 15], 17, 34)"
  "parse_ipv4_payload answer_frame = None"
  "parse_arp datagram_frame = None"  "be_field syn_ack_frame 12 2 = 0x0800" "length syn_ack_frame = 54"
  "parse_arp answer_frame = Some (peer_ip, replicate 6 2, 2)"
  "parse_tcp_header syn_ack_frame 34 = Some \<lparr>th_src_port = 80, th_dst_port = 49152, th_seq = 9, th_ack = 8, th_flags = 0x12, data_offset = 20\<rparr>"
  "length datagram_frame = 44" "be_field datagram_frame 36 2 = 53"  "be_field datagram_frame 38 2 = 10" "slice datagram_frame 42 44 = Some [104, 105]"
  by (simp_all add: syn_ack_frame_def datagram_frame_def answer_frame_def ip_header_def parse_ipv4_payload_def parse_ipv4_header_def
   be_field_def be_val_def parse_arp_def arp_frame_def be_bytes_def parse_tcp_header_def slice_def)

lemma datagram_runs: "rx_depth (Suc k) datagram_frame (busy_stack ps tx c [] s) = Some (busy_stack ps tx c [[104, 105]] s)"
  by (simp add: demo_fields handle_incoming_packet_def handle_incoming_udp_def deliver_packet_to_socket_def busy_stack_def lock_table_def
    unlock_table_def update_slot_def plain_sock_def)

lemma busy_polls: "poll_rx (busy_stack (p # ps) tx c rx s) = (p, busy_stack ps tx c rx s)"
  by (simp add: poll_rx_def busy_stack_def)

lemma busy_asks: "send_arp_request ip (busy_stack ps [] c rx s) = busy_stack ps [arp_request (replicate 6 1) ip] c rx s"
  by (simp add: send_arp_request_def send_ethernet_packet_raw_def get_my_mac_def busy_stack_def)

lemma busy_lookup: "arp_cache_lookup ip (busy_stack ps tx c rx s) = map_option a_mac (find (\<lambda>e. a_ip e = ip) c)"
  by (simp add: arp_cache_lookup_def busy_stack_def)

lemma answer_handled: "handle_incoming_arp answer_frame (busy_stack ps tx [] rx s) =
   (True, busy_stack ps tx [peer_entry] rx s)"
  by (simp add: handle_incoming_arp_def demo_fields arp_cache_insert_def arp_cache_insert_with_time_def busy_stack_def MY_IP_def)

lemma datagram_not_arp: "handle_incoming_arp datagram_frame w = (False, w)"
  by (simp add: handle_incoming_arp_def demo_fields)

lemma busy_poll_steps:
  "poll_arp_reply recv peer_ip (Suc n) (busy_stack (None # ps) tx [] rx s) = poll_arp_reply recv peer_ip n (busy_stack ps tx [] rx s)"
  "poll_arp_reply (rx_depth (Suc k)) peer_ip (Suc n) (busy_stack (Some datagram_frame # ps) tx [] [] s) =
     poll_arp_reply (rx_depth (Suc k)) peer_ip n (busy_stack ps tx [] [[104, 105]] s)"
  "poll_arp_reply recv peer_ip (Suc n) (busy_stack (Some answer_frame # ps) tx [] rx s) =
     Some (True, busy_stack ps tx [peer_entry] rx s)"
  by (simp_all add: busy_polls busy_lookup datagram_not_arp datagram_runs answer_handled del: rx_depth.simps)

lemma busy_resolves: "resolve_ip (rx_depth (Suc k)) peer_ip (busy_stack [None, Some datagram_frame, Some answer_frame] [] [] [] s) =
   Some (replicate 6 2, busy_stack [] [arp_request (replicate 6 1) peer_ip]
      [peer_entry] [[104, 105]] s)"
proof -
  let ?q = "[arp_request (replicate 6 1) peer_ip]"
  have n: "(50 :: nat) = Suc (Suc (Suc 47))" "(3 :: nat) = Suc 2" by simp_all
  have "ask_for (rx_depth (Suc k)) peer_ip 3 (busy_stack [None, Some datagram_frame, Some answer_frame] [] [] [] s) =
     Some (busy_stack [] ?q [peer_entry] [[104, 105]] s)"
    by (simp only: n ask_for.simps busy_asks busy_poll_steps Option.bind.simps prod.case if_True)
  then show ?thesis by (simp add: resolve_ip_def busy_lookup del: rx_depth.simps)
qed

lemma busy_sends: "send_ethernet_packet mac et pkt (busy_stack ps tx c rx s) = busy_stack ps (tx @ [mac @ replicate 6 1 @ be_bytes 2 et @ pkt]) c rx s"
  by (simp add: send_ethernet_packet_def send_ethernet_packet_raw_def get_my_mac_def busy_stack_def)

lemma busy_acknowledges: "\<exists>tx. send_tcp_ack (rx_depth (Suc k)) 49152 \<lparr>sa_ip = peer_ip, sa_port = 80\<rparr> 7 10 busy_demo =
   Some (busy_stack [] tx [peer_entry] [[104, 105]] (plain_sock (Suc 0) Tcp SynSent 49152 [] 7 0))"
proof -
  obtain c where c: "build_tcp_packet 49152 80 peer_ip 7 10 ACK [] = Some c"
    by (rule build_tcp_spec [of peer_ip "[]"]) auto
  obtain pkt where pkt: "build_ipv4_packet peer_ip 6 c = Some pkt" using build_ipv4_total by blast
  show ?thesis
    by (simp only: busy_demo_def send_tcp_ack_def send_tcp_def send_ipv4_packet_def socket_addr.simps c pkt busy_resolves
        busy_sends Option.bind.simps prod.case) blast
qed

text \<open>The datagram arrives while the acknowledgement waits for the peer's address; then the connection is up.\<close>

lemma busy_run: "\<exists>tx. handle_incoming_frame (rx_depth 3) syn_ack_frame busy_demo =
   Some (True, busy_stack [] tx [peer_entry] [[104, 105]] (plain_sock (Suc 0) Tcp Connected 49152 [] 8 10))"
proof -
  have "rx_depth 3 = rx_depth (Suc 2)" by simp
  then obtain tx where send: "send_tcp_ack (rx_depth 3) 49152 \<lparr>sa_ip = peer_ip, sa_port = 80\<rparr> 7 10 busy_demo =
      Some (busy_stack [] tx [peer_entry] [[104, 105]] (plain_sock (Suc 0) Tcp SynSent 49152 [] 7 0))"
    using busy_acknowledges [of 2] by (simp only:) blast
  have free: "\<not> table_locked busy_demo" by (simp add: busy_demo_def busy_stack_def)
  have slots: "sockets busy_demo =
      Some (plain_sock 0 Udp Closed 53 [] 0 0) # Some (plain_sock (Suc 0) Tcp SynSent 49152 [] 7 0) # replicate 62 None"
    by (simp add: busy_demo_def busy_stack_def)
  have target: "position (\<lambda>so. case so of Some s \<Rightarrow> sock_type s = Tcp \<and> local_port s = 49152 | None \<Rightarrow> False) (sockets busy_demo)
      = Some (Suc 0)" by (simp add: slots plain_sock_def)
  have slot: "sockets busy_demo ! Suc 0 = Some (plain_sock (Suc 0) Tcp SynSent 49152 [] 7 0)" by (simp add: slots)
  have vals: "sock_state (plain_sock fd t st p rx sq ak) = st" "local_port (plain_sock fd t st p rx sq ak) = p"
    "tcp_seq (plain_sock fd t st p rx sq ak) = sq" "((0x12 :: byte) AND SYN) \<noteq> 0" "((0x12 :: byte) AND ACK) \<noteq> 0"
    "wrapping_add 32 9 (Suc 0) = 10" "wrapping_add 32 7 (Suc 0) = 8" for fd t st p rx sq ak
    by (simp_all add: plain_sock_def SYN_def ACK_def wrapping_add_def)
  have "handle_incoming_tcp (rx_depth 3) syn_ack_frame peer_ip 34 busy_demo =
      Some (busy_stack [] tx [peer_entry] [[104, 105]] (plain_sock (Suc 0) Tcp Connected 49152 [] 8 10))"
    unfolding handle_incoming_tcp_def Let_def demo_fields option.case tcp_header.simps lock_free [OF free] Option.bind.simps
      unlock_locked [OF free]
    by (simp add: target slot vals send lock_table_def del: rx_depth.simps position.simps)
      (simp add: busy_stack_def unlock_table_def update_slot_def plain_sock_def vals)
  then show ?thesis by (auto simp: handle_incoming_frame_def handle_incoming_packet_def demo_fields simp del: rx_depth.simps)
qed

subsection \<open>Properties\<close>

text \<open>
  A TCP segment is received as it was sent: for any ports, sequence numbers, flags and a payload that fits an IPv4
  packet, the segment and the packet around it are built, both Internet checksums verify to zero, and parsing the
  Ethernet frame gives back the addresses, the protocol, every header field and the payload.
\<close>
theorem tcp_packet_roundtrip:
  assumes "length dest_ip = 4" and "length payload \<le> 65495" and "sp < 65536" and "dp < 65536" and "seq < 2 ^ 32" and "ack < 2 ^ 32"
    and "length dest_mac = 6" and "length src_mac = 6"
  shows "\<exists>tcp pkt. build_tcp_packet sp dp dest_ip seq ack flags payload = Some tcp \<and> build_ipv4_packet dest_ip 6 tcp = Some pkt \<and>
    calculate_checksum (take 20 pkt) = Some 0 \<and> calculate_checksum (tcp_pseudo dest_ip tcp) = Some 0 \<and>
    (let frame = ethernet_frame dest_mac src_mac 0x0800 pkt in
      parse_ipv4_payload frame = Some (MY_IP, dest_ip, 6, 34) \<and>
      parse_tcp_header frame 34 =
        Some \<lparr>th_src_port = sp, th_dst_port = dp, th_seq = seq, th_ack = ack, th_flags = flags, data_offset = 20\<rparr> \<and>
      drop 54 frame = payload)"
proof -
  have short: "length payload \<le> 65515" using assms(2) by simp
  obtain c where c: "c < 65536" "build_tcp_packet sp dp dest_ip seq ack flags payload =
      Some (tcp_prefix sp dp seq ack flags @ be_bytes 2 c @ [0, 0] @ payload)"
    "calculate_checksum (tcp_pseudo dest_ip (tcp_prefix sp dp seq ack flags @ be_bytes 2 c @ [0, 0] @ payload)) = Some 0"
    by (rule build_tcp_spec [OF assms(1) short, of sp dp seq ack flags])
  define tcp where "tcp = tcp_prefix sp dp seq ack flags @ be_bytes 2 c @ [0, 0] @ payload"
  have len: "length tcp \<le> 65515" using assms(2) by (simp add: tcp_def)
  obtain d where d: "d < 65536" "build_ipv4_packet dest_ip 6 tcp =
      Some (ipv4_prefix 6 (length tcp) @ be_bytes 2 d @ MY_IP @ dest_ip @ tcp)"
    "calculate_checksum (ipv4_prefix 6 (length tcp) @ be_bytes 2 d @ MY_IP @ dest_ip) = Some 0"
    by (rule build_ipv4_spec [OF assms(1) len, of 6])
  define hdr where "hdr = ipv4_prefix 6 (length tcp) @ be_bytes 2 d @ MY_IP @ dest_ip"
  define pre where "pre = dest_mac @ src_mac @ be_bytes 2 0x0800 @ hdr"
  have l: "length hdr = 20" "length pre = 34" using assms by (simp_all add: hdr_def pre_def ipv4_prefix_def MY_IP_def)
  have fr: "ethernet_frame dest_mac src_mac 0x0800 (hdr @ tcp) = pre @ tcp" by (simp add: ethernet_frame_def pre_def)
  have "parse_ipv4_header (hdr @ tcp) = Some (MY_IP, dest_ip, 6, 20)"
    using parse_ipv4_built [OF assms(1) len d(1), of 6] by (simp add: hdr_def)
  then have "parse_ipv4_payload (pre @ tcp) = Some (MY_IP, dest_ip, 6, 34)"
    using parse_ipv4_frame [OF assms(7,8), of "hdr @ tcp"] fr by simp
  moreover have "parse_tcp_header (pre @ tcp) 34 =
      Some \<lparr>th_src_port = sp, th_dst_port = dp, th_seq = seq, th_ack = ack, th_flags = flags, data_offset = 20\<rparr>"
    using parse_tcp_built [OF assms(3-6) l(2), of flags c payload] by (simp add: tcp_def)
  moreover have "drop 54 (pre @ tcp) = payload" using l(2) by (simp add: tcp_def)
  moreover have "build_ipv4_packet dest_ip 6 tcp = Some (hdr @ tcp)" using d(2) by (simp add: hdr_def)
  moreover have "take 20 (hdr @ tcp) = hdr" using l(1) by simp
  moreover have "calculate_checksum hdr = Some 0" using d(3) by (simp add: hdr_def)
  ultimately show ?thesis using c(2,3) fr unfolding tcp_def [symmetric] Let_def by auto
qed

theorem tcp_packet_roundtrip_witness:
  "\<exists>tcp pkt. build_tcp_packet 49152 80 [93, 184, 216, 34] 7 0 SYN [] = Some tcp \<and>
    build_ipv4_packet [93, 184, 216, 34] 6 tcp = Some pkt \<and> calculate_checksum (take 20 pkt) = Some 0"
  using tcp_packet_roundtrip [of "[93, 184, 216, 34]" "[]" 49152 80 7 0 "replicate 6 1" "replicate 6 2" SYN] by auto

text \<open>
  C34. A received frame is always dealt with: while the table is free, and as long as neither the frame nor any frame the
  card still holds is a UDP packet whose length field is less than its header, handling it returns with the table free, even when
  an acknowledgement has to resolve an address and handles other frames meanwhile. A depth of the number of polls the
  card still answers is enough.
\<close>
theorem received_frame_is_handled:
  assumes "\<not> table_locked w" and "list_all (pred_option udp_safe) (polls w)" and "udp_safe p" and "length (polls w) \<le> k"
  shows "\<exists>b w'. handle_incoming_frame (rx_depth k) p w = Some (b, w') \<and> \<not> table_locked w' \<and> (\<exists>ps. polls w = ps @ polls w')"
proof -
  obtain v where v: "handle_incoming_packet (rx_depth k) p w = Some v" "\<not> table_locked v" "\<exists>ps. polls w = ps @ polls v"
    using handle_packet_returns [OF rx_depth_receiver assms(1,2,4,3)] by blast
  have g: "rx.good w" using assms(1,2) by (simp add: rx.good_def)
  obtain b u where u: "handle_incoming_arp p w = (b, u)" by (cases "handle_incoming_arp p w")
  then have "rx.moved w u" using rx.moved_arp [OF g, of p] by simp
  then have "\<not> table_locked u" "\<exists>ps. polls w = ps @ polls u" by (auto simp: rx.moved_def rx.good_def)
  with v u assms(1) show ?thesis by (auto simp: handle_incoming_frame_def)
qed

theorem received_frame_is_handled_witness:
  "\<exists>b w'. handle_incoming_frame (rx_depth 3) syn_ack_frame busy_demo = Some (b, w') \<and> \<not> table_locked w' \<and>
    (\<exists>ps. polls busy_demo = ps @ polls w') \<and>
    take 2 (sockets w') = [Some (plain_sock 0 Udp Closed 53 [[104, 105]] 0 0), Some (plain_sock (Suc 0) Tcp Connected 49152 [] 8 10)]"
proof -
  have p: "polls busy_demo = [None, Some datagram_frame, Some answer_frame]" by (simp add: busy_demo_def busy_stack_def polls_def)
  have safe: "udp_safe syn_ack_frame" "list_all (pred_option udp_safe) (polls busy_demo)" "\<not> table_locked busy_demo"
    by (simp_all add: p) (simp_all add: udp_safe_def demo_fields busy_demo_def busy_stack_def)
  obtain b w' where w': "handle_incoming_frame (rx_depth 3) syn_ack_frame busy_demo = Some (b, w')" "\<not> table_locked w'"
    "\<exists>ps. polls busy_demo = ps @ polls w'"
    using received_frame_is_handled [OF safe(3,2,1), of 3] by (auto simp: p simp del: rx_depth.simps)
  moreover have "take 2 (sockets w') =
      [Some (plain_sock 0 Udp Closed 53 [[104, 105]] 0 0), Some (plain_sock (Suc 0) Tcp Connected 49152 [] 8 10)]"
    using busy_run w'(1) by (auto simp: busy_stack_def)
  ultimately show ?thesis by blast
qed

text \<open>
  A datagram reaches its socket: a frame that carries a UDP datagram for a port puts its data, unchanged, behind what the first
  socket bound to the port holds, unless that socket already holds 16 packets, and changes nothing else. When the socket held
  nothing, the next receive on its descriptor returns the data and leaves the stack as it was before the frame.
\<close>
theorem udp_datagram_delivered:
  assumes "sock_ok w" and "sp < 65536" and "dp < 65536" and "length data \<le> 65507" and "length dest_ip = 4"
    and "length dest_mac = 6" and "length src_mac = 6"
    and "position (\<lambda>so. case so of Some s \<Rightarrow> sock_type s = Udp \<and> local_port s = dp | None \<Rightarrow> False) (sockets w) = Some i"
    and "sockets w ! i = Some s" and "build_ipv4_packet dest_ip 17 (build_udp_packet sp dp data) = Some pkt"
  shows "\<exists>w'. handle_incoming_frame recv (ethernet_frame dest_mac src_mac 0x0800 pkt) w = Some (True, w') \<and>
    w' = w\<lparr>sockets := (sockets w)[i := Some (if length (rx_buffer s) < 16 then s\<lparr>rx_buffer := rx_buffer s @ [data]\<rparr> else s)]\<rparr> \<and>
    (rx_buffer s = [] \<longrightarrow> sock_recv (s_fd s) w' = Some (Some data, w))"
proof -
  let ?u = "build_udp_packet sp dp data" and ?f = "ethernet_frame dest_mac src_mac 0x0800 pkt"
  let ?s = "if length (rx_buffer s) < 16 then s\<lparr>rx_buffer := rx_buffer s @ [data]\<rparr> else s"
  have len: "length ?u \<le> 65515" using assms(4) by (simp add: build_udp_packet_def)
  obtain c where c: "c < 65536" "pkt = (ipv4_prefix 17 (length ?u) @ be_bytes 2 c @ MY_IP @ dest_ip) @ ?u"
    using build_ipv4_spec [OF assms(5) len, of 17] assms(10) by (metis append_assoc option.inject)
  have ip: "parse_ipv4_payload ?f = Some (MY_IP, dest_ip, 17, 34)"
    using parse_ipv4_frame [OF assms(6,7)] parse_ipv4_built [OF assms(5) len c(1), of 17] c(2) by fastforce
  obtain pre where pre: "?f = pre @ ?u" "length pre = 34"
    using c(2) assms(5,6,7) by (auto simp: ethernet_frame_def ipv4_prefix_def MY_IP_def)
  have fields: "be_field ?f 36 2 = dp" "be_field ?f 38 2 = 8 + length data"
    using be_field_at [of "pre @ be_bytes 2 sp" 36 "be_bytes 2 dp" 2] assms(3,4)
      be_field_at [of "pre @ be_bytes 2 sp @ be_bytes 2 dp" 38 "be_bytes 2 (8 + length data)" 2] pre
    by (simp_all add: build_udp_packet_def)
  have l: "length ?f = 42 + length data" using pre by (simp add: build_udp_packet_def)
  have "slice ?f 42 (42 + length data) = Some data" using pre by (simp add: slice_def build_udp_packet_def)
  then have "handle_incoming_udp ?f 34 w = deliver_packet_to_socket Udp dp data w"
    using fields l by (simp add: handle_incoming_udp_def Let_def)
  moreover have i: "i < 64" using position_in_range [OF assms(8)] sock_okD(2) [OF assms(1)] by simp
  moreover define w' where "w' = w\<lparr>sockets := (sockets w)[i := Some ?s]\<rparr>"
  ultimately have udp: "handle_incoming_udp ?f 34 w = Some w'"
    using assms(8,9) sock_okD(1) [OF assms(1)] by (simp add: deliver_packet_to_socket_def update_slot_def unlock_table_def)
  have "be_field ?f 12 2 = 0x0800" using frame_ethertype(1) [OF assms(6,7), of "0x0800" pkt] by simp
  then have "handle_incoming_frame recv ?f w = Some (True, w')"
    using udp ip l by (simp add: handle_incoming_frame_def handle_incoming_packet_def)
  moreover have "sock_recv (s_fd s) w' = Some (Some data, w)" if e: "rx_buffer s = []"
    using sock_recv_only [OF assms(1) i assms(9) e] by (simp add: w'_def e)
  ultimately show ?thesis by (auto simp: w'_def)
qed

definition demo_sock :: sock where
  "demo_sock = \<lparr>s_fd = 0, sock_type = Udp, sock_state = Closed, local_port = 53, remote_addr = None, rx_buffer = [], tcp_seq = 0, tcp_ack = 0\<rparr>"

definition demo_stack :: net_stack where
  "demo_stack = (new_stack None)\<lparr>sockets := (replicate 64 None)[0 := Some demo_sock], next_fd := 1\<rparr>"

lemma empty_slots: "replicate 64 (None :: sock option) = None # None # replicate 62 None"
  by (simp add: numeral_eq_Suc)

lemma demo_stack_ok: "sock_ok demo_stack"
  by (rule sock_ok_slot [OF new_stack_ok [of None], of _ 0 "Some demo_sock"])
    (auto simp: demo_stack_def new_stack_def slot_ok_def demo_sock_def)

theorem udp_datagram_delivered_witness:
  "\<exists>pkt w'. build_ipv4_packet MY_IP 17 (build_udp_packet 1000 53 [1, 2, 3]) = Some pkt \<and>
    handle_incoming_frame (rx_depth 0) (ethernet_frame (replicate 6 1) (replicate 6 2) 0x0800 pkt) demo_stack = Some (True, w') \<and>
    sock_recv 0 w' = Some (Some [1, 2, 3], demo_stack)"
proof -
  obtain pkt where pkt: "build_ipv4_packet MY_IP 17 (build_udp_packet 1000 53 [1, 2, 3]) = Some pkt" using build_ipv4_total by blast
  have s: "sockets demo_stack = Some demo_sock # None # replicate 62 None" by (simp add: demo_stack_def empty_slots)
  then have "position (\<lambda>so. case so of Some s \<Rightarrow> sock_type s = Udp \<and> local_port s = 53 | None \<Rightarrow> False) (sockets demo_stack) = Some 0"
    "sockets demo_stack ! 0 = Some demo_sock" by (simp_all add: demo_sock_def)
  with udp_datagram_delivered [OF demo_stack_ok, of 1000 53 "[1, 2, 3]" MY_IP "replicate 6 1" "replicate 6 2" 0 demo_sock pkt] pkt
  show ?thesis by (auto simp: MY_IP_def demo_sock_def)
qed

text \<open>
  A datagram whose UDP length field is less than the 8 bytes of the header stops the kernel: the range of its payload ends
  before it begins, and indexing with it panics, whoever sent the frame and whatever sockets are open.
\<close>
theorem short_udp_length_panics:
  assumes "len < 8" and "length dest_ip = 4" and "length dest_mac = 6" and "length src_mac = 6"
    and "build_ipv4_packet dest_ip 17 (be_bytes 2 sp @ be_bytes 2 dp @ be_bytes 2 len @ [0, 0] @ data) = Some pkt" and "length data \<le> 1000"
  shows "handle_incoming_frame recv (ethernet_frame dest_mac src_mac 0x0800 pkt) w = None"
proof -
  let ?u = "be_bytes 2 sp @ be_bytes 2 dp @ be_bytes 2 len @ [0, 0] @ data" and ?f = "ethernet_frame dest_mac src_mac 0x0800 pkt"
  have n: "length ?u \<le> 65515" using assms(6) by simp
  obtain c where c: "c < 65536" "pkt = (ipv4_prefix 17 (length ?u) @ be_bytes 2 c @ MY_IP @ dest_ip) @ ?u"
    using build_ipv4_spec [OF assms(2) n, of 17] assms(5) by (metis append_assoc option.inject)
  have ip: "parse_ipv4_payload ?f = Some (MY_IP, dest_ip, 17, 34)"
    using parse_ipv4_frame [OF assms(3,4)] parse_ipv4_built [OF assms(2) n c(1), of 17] c(2) by fastforce
  obtain pre where pre: "?f = pre @ ?u" "length pre = 34"
    using c(2) assms(2,3,4) by (auto simp: ethernet_frame_def ipv4_prefix_def MY_IP_def)
  have "be_field ?f 38 2 = len"
    using be_field_at [of "pre @ be_bytes 2 sp @ be_bytes 2 dp" 38 "be_bytes 2 len" 2] pre assms(1) by simp
  moreover have "length ?f = 42 + length data" using pre by simp
  ultimately have "handle_incoming_udp ?f 34 w = None" using assms(1) by (simp add: handle_incoming_udp_def Let_def slice_def)
  moreover have "be_field ?f 12 2 = 0x0800" using frame_ethertype(1) [OF assms(3,4), of "0x0800" pkt] by simp
  ultimately show ?thesis
    using ip pre(2) by (simp add: handle_incoming_frame_def handle_incoming_packet_def pre(1))
qed

theorem short_udp_length_panics_witness:
  "\<exists>pkt. build_ipv4_packet MY_IP 17 (be_bytes 2 1000 @ be_bytes 2 53 @ be_bytes 2 0 @ [0, 0] @ []) = Some pkt \<and>
    handle_incoming_frame (rx_depth 0) (ethernet_frame (replicate 6 1) (replicate 6 2) 0x0800 pkt) (new_stack None) = None"
proof -
  obtain pkt where pkt: "build_ipv4_packet MY_IP 17 (be_bytes 2 1000 @ be_bytes 2 53 @ be_bytes 2 0 @ [0, 0] @ []) = Some pkt"
    using build_ipv4_total by blast
  with short_udp_length_panics [OF _ _ _ _ pkt] show ?thesis by (auto simp: MY_IP_def)
qed

text \<open>
  Connecting never returns: connect, receive, and send with a readable buffer look their socket up with the table's
  guard alive, in every state and for every descriptor, and so does the connect request of the network service.
\<close>
theorem socket_calls_hang:
  "sys_connect recv fd ip port w = None \<and> sys_recv fd len buf_ok w = None \<and> sys_send recv fd (Some data) w = None \<and>
    dispatch_net_request recv (new_connect fd dest_ip port) payload w = None"
  by (simp add: connect_hangs recv_hangs sys_send_def peek_slot_hangs dispatch_net_request_def new_connect_def net_ops sock_connect_def)

text \<open>
  Over any run of the network stack the table keeps 64 slots with distinct descriptors below the next one, at most 16 packets in each
  socket, and the lock free; but no socket ever has a peer, so every send request fails and transmits nothing.
\<close>
theorem sockets_never_connect:
  assumes "net_step\<^sup>*\<^sup>* (new_stack d) w"
  shows "sock_ok w \<and> dispatch_net_request recv (new_send fd n) data w = Some ((net_err EIO, []), w)"
proof -
  have ok: "sock_ok w" using net.inv_run [OF assms new_stack_ok] .
  then show ?thesis
    by (simp add: dispatch_net_request_def new_send_def net_ops send_fails [OF ok])
qed

theorem sockets_never_connect_witness:
  "\<exists>w. net_step\<^sup>*\<^sup>* (new_stack None) w \<and> sock_ok w \<and> next_fd w = 1 \<and>
    dispatch_net_request (rx_depth 0) (new_send 0 4) (Some [1]) w = Some ((net_err EIO, []), w)"
proof -
  obtain r w where w: "dispatch_net_request (rx_depth 0) (new_socket 6) None (new_stack None) = Some (r, w)" "next_fd w = 1"
    by (simp add: dispatch_net_request_def new_socket_def net_ops socket_def new_stack_def empty_slots checked_add_def lock_table_def)
  then have "net_step\<^sup>*\<^sup>* (new_stack None) w" using step_request by blast
  with w(2) sockets_never_connect [of None w, where recv = "rx_depth 0" and fd = 0 and n = 4 and data = "Some [1]"] show ?thesis by auto
qed

text \<open>
  A host whose reply names its hardware address is found afterwards: an ARP reply for another address enters the cache,
  replaces what was known of that address, evicts at most the oldest entry when 32 are held, and leaves all others as they
  were.
\<close>
theorem arp_reply_is_learned:
  assumes "arp_ok w" and "length dest_mac = 6" and "length mac = 6" and "length ip = 4" and "length target_ip = 4" and "ip \<noteq> MY_IP"
  shows "\<exists>w'. handle_incoming_arp (arp_frame dest_mac mac 2 ip dest_mac target_ip) w = (True, w') \<and> arp_ok w' \<and>
    resolve_ip recv ip w' = Some (mac, w') \<and>
    (\<forall>other. arp_cache_lookup other w' =
      (if other = ip then Some mac else if other \<in> evicted ip w then None else arp_cache_lookup other w))"
proof -
  let ?w = "arp_cache_insert_with_time ip mac 0 w"
  have "handle_incoming_arp (arp_frame dest_mac mac 2 ip dest_mac target_ip) w = (True, ?w)"
    using arp_frame_fields [OF assms(2-4) assms(2,5), of 2] assms(6) by (simp add: handle_incoming_arp_def Let_def arp_cache_insert_def)
  with arp_insert_spec [OF assms(1), where ip = ip and mac = mac and now = 0] show ?thesis by (simp add: resolve_ip_def)
qed

theorem arp_reply_is_learned_witness:
  "\<exists>w'. handle_incoming_arp (arp_frame (replicate 6 1) (replicate 6 2) 2 [10, 0, 2, 2] (replicate 6 1) MY_IP) (new_stack None) = (True, w') \<and>
    resolve_ip (rx_depth 0) [10, 0, 2, 2] w' = Some (replicate 6 2, w')"
  using arp_reply_is_learned [of "new_stack None" "replicate 6 1" "replicate 6 2" "[10, 0, 2, 2]" MY_IP "rx_depth 0"]
  by (auto simp: arp_ok_def new_stack_def MY_IP_def)

text \<open>
  The target address of a well-formed request is read four bytes too late, behind the end of the frame, so a request for
  the address of this host is never answered.
\<close>
lemma arp_request_unanswered:
  assumes "length dest_mac = 6" and "length mac = 6" and "length ip = 4" and "length target_mac = 6"
  shows "handle_incoming_arp (arp_frame dest_mac mac 1 ip target_mac MY_IP) w = (True, w)"
  using arp_frame_fields [OF assms(1-4), of MY_IP 1] by (simp add: handle_incoming_arp_def Let_def MY_IP_def)

text \<open>A socket bound to port 0 gets the next port of the counter, even when another socket is bound to it already.\<close>
lemma auto_port_collides:
  "\<exists>w1 w2 w3 w4. socket Udp (new_stack None) = Some (Some 0, w1) \<and> socket Udp w1 = Some (Some 1, w2) \<and>
    sock_bind 0 49152 w2 = Some (True, w3) \<and> sock_bind 1 0 w3 = Some (True, w4) \<and>
    map (map_option local_port) (take 2 (sockets w4)) = [Some 49152, Some 49152]"
  by (simp add: socket_def sock_bind_def new_stack_def empty_slots checked_add_def lock_table_def update_slot_def has_fd_def allocate_port_def
      unlock_table_def list_ex_iff)

end
