(* ===== verification/Permissions.thy ===== *)
theory Permissions
  imports Spark_Interfaces
begin

section \<open>Application permissions\<close>

text \<open>
  \<^verbatim>\<open>kernel/src/permission.rs\<close>: the permissions an application's manifest asks for, the search that extracts them from the
  text of the manifest, and the table of what each process was granted. A Rust string is the list of its UTF-8 bytes, so
  \<^verbatim>\<open>find\<close> gives byte offsets and slicing is \<open>take\<close> and \<open>drop\<close>.
\<close>

subsection \<open>Strings\<close>

fun find_str :: "string \<Rightarrow> string \<Rightarrow> nat option" where
  "find_str pat [] = (if pat = [] then Some 0 else None)"
| "find_str pat (c # cs) = (if take (length pat) (c # cs) = pat then Some 0 else map_option Suc (find_str pat cs))"

definition contains_str :: "string \<Rightarrow> string \<Rightarrow> bool" where
  "contains_str s pat = (find_str pat s \<noteq> None)"

text \<open>What \<^verbatim>\<open>str::trim\<close> removes: the UTF-8 encodings of the characters with the property White\_Space.\<close>

definition whites :: "string list" where
  "whites = map (map char_of) ([[9], [10], [11], [12], [13], [32], [0xC2, 0x85], [0xC2, 0xA0], [0xE1, 0x9A, 0x80],
     [0xE2, 0x80, 0xA8], [0xE2, 0x80, 0xA9], [0xE2, 0x80, 0xAF], [0xE2, 0x81, 0x9F], [0xE3, 0x80, 0x80]] @
     map (\<lambda>n. [0xE2, 0x80, 0x80 + n]) [0..<11] :: nat list list)"

fun strip :: "string list \<Rightarrow> nat \<Rightarrow> string \<Rightarrow> string" where
  "strip ws 0 s = s"
| "strip ws (Suc n) s = (case find (\<lambda>w. take (length w) s = w) ws of Some w \<Rightarrow> strip ws n (drop (length w) s) | None \<Rightarrow> s)"

definition trim :: "string \<Rightarrow> string" where
  "trim s = (let t = strip whites (length s) s in rev (strip (map rev whites) (length t) (rev t)))"

subsection \<open>Permissions and manifests\<close>

datatype app_permission = FilesystemRead | FilesystemWrite | NetworkAccess | CameraAccess | DeviceAccess | NotificationSend

definition perm_from_str :: "string \<Rightarrow> app_permission option" where
  "perm_from_str s =
     (let t = trim s in
      if t = ''filesystem.read'' then Some FilesystemRead
      else if t = ''filesystem.write'' then Some FilesystemWrite
      else if t = ''network'' then Some NetworkAccess
      else if t = ''camera'' then Some CameraAccess
      else if t = ''device'' then Some DeviceAccess
      else if t = ''notification.send'' then Some NotificationSend
      else None)"

fun perm_as_str :: "app_permission \<Rightarrow> string" where
  "perm_as_str FilesystemRead = ''filesystem.read''"
| "perm_as_str FilesystemWrite = ''filesystem.write''"
| "perm_as_str NetworkAccess = ''network''"
| "perm_as_str CameraAccess = ''camera''"
| "perm_as_str DeviceAccess = ''device''"
| "perm_as_str NotificationSend = ''notification.send''"

record app_manifest =
  app_name :: string
  permissions :: "app_permission list"

definition quote :: string where "quote = [char_of (34 :: nat)]"

definition manifest_name :: "string \<Rightarrow> string option" where
  "manifest_name json =
     do {
       pos \<leftarrow> find_str (quote @ ''name'' @ quote) json;
       let rest = drop pos json;
       colon \<leftarrow> find_str '':'' rest;
       let after_colon = drop (colon + 1) rest;
       start_quote \<leftarrow> find_str quote after_colon;
       let val_rest = drop (start_quote + 1) after_colon;
       end_quote \<leftarrow> find_str quote val_rest;
       Some (take end_quote val_rest)
     }"

definition candidates :: "string list" where
  "candidates = [''filesystem.read'', ''filesystem.write'', ''network'', ''camera'', ''device'', ''notification.send'']"

definition collect_permission :: "string \<Rightarrow> string \<Rightarrow> app_permission list \<Rightarrow> app_permission list" where
  "collect_permission json candidate ps =
     (if contains_str json candidate
      then (case perm_from_str candidate of
              Some p \<Rightarrow> if p \<in> set ps then ps else ps @ [p]
            | None \<Rightarrow> ps)
      else ps)"

definition parse_manifest :: "string \<Rightarrow> (string, app_manifest) result" where
  "parse_manifest json =
     Ok \<lparr>app_name = (case manifest_name json of Some n \<Rightarrow> n | None \<Rightarrow> ''UnknownApp''),
         permissions = fold (collect_permission json) candidates []\<rparr>"

subsection \<open>What processes were granted\<close>

type_synonym permission_manager = "(nat, app_permission list) btree_map"

definition new_permissions :: permission_manager where "new_permissions = []"

definition register_process_permissions :: "nat \<Rightarrow> app_manifest \<Rightarrow> permission_manager \<Rightarrow> permission_manager" where
  "register_process_permissions pid m pm = bt_insert pid (permissions m) pm"

definition unregister_process :: "nat \<Rightarrow> permission_manager \<Rightarrow> permission_manager" where
  "unregister_process pid pm = bt_remove pid pm"

definition check_permission :: "nat \<Rightarrow> app_permission \<Rightarrow> permission_manager \<Rightarrow> (string, unit) result" where
  "check_permission pid p pm =
     (case bt_get pm pid of
        Some ps \<Rightarrow> if p \<in> set ps then Ok () else Err ''PermissionDenied''
      | None \<Rightarrow> Err ''PermissionDenied'')"

subsection \<open>Facts\<close>

lemma find_str_Some: "find_str pat s = Some i \<Longrightarrow> take (length pat) (drop i s) = pat \<and> i \<le> length s"
  by (induction pat s arbitrary: i rule: find_str.induct) (auto split: if_splits)

lemma find_str_None: "find_str pat s = None \<longleftrightarrow> (\<forall>a b. s \<noteq> a @ pat @ b)"
proof (induction pat s rule: find_str.induct)
  case (2 pat c cs)
  show ?case
  proof (cases "take (length pat) (c # cs) = pat")
    case True
    then have "c # cs = [] @ pat @ drop (length pat) (c # cs)" by (metis append_Nil append_take_drop_id)
    then have "\<exists>a b. c # cs = a @ pat @ b" by blast
    with True show ?thesis by simp
  next
    case False
    have "(\<exists>a b. c # cs = a @ pat @ b) \<longleftrightarrow> (\<exists>a b. cs = a @ pat @ b)"
    proof
      assume "\<exists>a b. c # cs = a @ pat @ b"
      then obtain a b where ab: "c # cs = a @ pat @ b" by blast
      moreover have "a \<noteq> []" using ab False by (metis append_Nil append_eq_conv_conj)
      ultimately show "\<exists>a b. cs = a @ pat @ b" by (cases a) auto
    next
      assume "\<exists>a b. cs = a @ pat @ b"
      then show "\<exists>a b. c # cs = a @ pat @ b" by (metis append_Cons)
    qed
    with 2 False show ?thesis by auto
  qed
qed auto

lemma contains_str_iff: "contains_str s pat \<longleftrightarrow> (\<exists>a b. s = a @ pat @ b)"
  by (simp add: contains_str_def find_str_None)

lemma strip_id:
  assumes "s \<noteq> []" and "\<And>w. w \<in> set ws \<Longrightarrow> w \<noteq> [] \<and> hd w \<noteq> hd s"
  shows "strip ws n s = s"
proof (cases n)
  case (Suc m)
  have "find (\<lambda>w. take (length w) s = w) ws = None"
    using assms by (auto simp: find_None_iff) (metis hd_take length_greater_0_conv)
  with Suc show ?thesis by simp
qed simp

definition printable :: "char \<Rightarrow> bool" where
  "printable c \<longleftrightarrow> 32 < (of_char c :: nat) \<and> (of_char c :: nat) < 128"

lemma whites_ends: "w \<in> set whites \<Longrightarrow> w \<noteq> [] \<and> \<not> printable (hd w) \<and> \<not> printable (last w)"
  by (auto simp: whites_def printable_def)

lemma trim_id:
  assumes "s \<noteq> []" and "printable (hd s)" and "printable (last s)"
  shows "trim s = s"
proof -
  have "strip whites (length s) s = s" using assms whites_ends by (intro strip_id) force+
  moreover have "strip (map rev whites) (length s) (rev s) = rev s"
    using assms whites_ends by (intro strip_id) (force simp: hd_rev)+
  ultimately show ?thesis by (simp add: trim_def Let_def)
qed

lemma trim_names:
  "trim ''filesystem.read'' = ''filesystem.read''" "trim ''filesystem.write'' = ''filesystem.write''" "trim ''network'' = ''network''"
  "trim ''camera'' = ''camera''" "trim ''device'' = ''device''" "trim ''notification.send'' = ''notification.send''"
  by (rule trim_id; simp add: printable_def)+

lemma perm_of_candidate: "perm_from_str (perm_as_str p) = Some p"
  by (cases p) (simp_all add: perm_from_str_def trim_names Let_def)

lemma candidates_eq: "candidates = map perm_as_str [FilesystemRead, FilesystemWrite, NetworkAccess, CameraAccess, DeviceAccess, NotificationSend]"
  by (simp add: candidates_def)

lemma collect_set: "set (fold (collect_permission json) (map perm_as_str qs) ps) = set ps \<union> {p \<in> set qs. contains_str json (perm_as_str p)}"
  by (induction qs arbitrary: ps) (auto simp: collect_permission_def perm_of_candidate)

lemma collect_distinct: "distinct ps \<Longrightarrow> distinct (fold (collect_permission json) cs ps)"
  by (induction cs arbitrary: ps) (auto simp: collect_permission_def split: option.splits)

text \<open>
  The permissions of a manifest are those whose name occurs anywhere in its text, each once. The check grants exactly them
  while the process is registered.
\<close>

lemma manifest_permissions:
  assumes "parse_manifest json = Ok m"
  shows "distinct (permissions m)" and "p \<in> set (permissions m) \<longleftrightarrow> (\<exists>a b. json = a @ perm_as_str p @ b)"
proof -
  have m: "permissions m = fold (collect_permission json) candidates []" using assms by (auto simp: parse_manifest_def)
  show "distinct (permissions m)" unfolding m by (rule collect_distinct) simp
  have "p \<in> set [FilesystemRead, FilesystemWrite, NetworkAccess, CameraAccess, DeviceAccess, NotificationSend]" by (cases p) auto
  then show "p \<in> set (permissions m) \<longleftrightarrow> (\<exists>a b. json = a @ perm_as_str p @ b)"
    unfolding m candidates_eq collect_set contains_str_iff [symmetric] by auto
qed

lemma check_registered:
  "is_ok (check_permission q p (register_process_permissions pid m pm)) \<longleftrightarrow>
     (if q = pid then p \<in> set (permissions m) else is_ok (check_permission q p pm))"
  by (auto simp: check_permission_def register_process_permissions_def split: option.splits)

lemma check_unregistered:
  "is_ok (check_permission q p (unregister_process pid pm)) \<longleftrightarrow> q \<noteq> pid \<and> is_ok (check_permission q p pm)"
  by (auto simp: check_permission_def unregister_process_def split: option.splits)

text \<open>The search does not look at the list of permissions: an application that only names a permission in its title has it.\<close>

lemma permission_from_title:
  assumes "parse_manifest (quote @ ''name'' @ quote @ '':'' @ quote @ ''network clock'' @ quote) = Ok m"
  shows "NetworkAccess \<in> set (permissions m)"
proof -
  have "quote @ ''name'' @ quote @ '':'' @ quote @ ''network clock'' @ quote =
      (quote @ ''name'' @ quote @ '':'' @ quote) @ perm_as_str NetworkAccess @ ('' clock'' @ quote)" by simp
  then show ?thesis unfolding manifest_permissions(2) [OF assms] by blast
qed

end
