(* ===== verification/Network_Service.thy ===== *)
theory Network_Service
  imports Net_Properties Permissions
begin

section \<open>The network service\<close>

text \<open>
  \<^verbatim>\<open>kernel/src/network_service.rs\<close>: sockets owned by processes, behind the network permission, and
  \<^verbatim>\<open>kernel/src/network_manager.rs\<close>: the link state and its query. Packets leave through
  the transmission of \<open>Net_Arp\<close>, so a request can fail to return (\<open>None\<close>) when that does not, or when a counter overflows.
\<close>

subsection \<open>State\<close>

definition MAX_UDP_PAYLOAD_SIZE :: nat where "MAX_UDP_PAYLOAD_SIZE = 1472"
definition MAX_TCP_SEGMENT_SIZE :: nat where "MAX_TCP_SEGMENT_SIZE = 1460"

datatype svc_tcp_state = TsClosed | TsSynSent | TsEstablished | TsFinWait

record udp_datagram =
  dg_src_ip :: "byte list"
  dg_src_port :: nat
  dg_dst_ip :: "byte list"
  dg_dst_port :: nat
  dg_payload :: "byte list"

record udp_record =
  u_socket_id :: nat
  u_owner :: nat
  u_local_port :: nat
  rx_queue :: "udp_datagram list"

record tcp_record =
  t_socket_id :: nat
  t_owner :: nat
  t_local_port :: nat
  t_remote_ip :: "byte list option"
  t_remote_port :: "nat option"
  t_state :: svc_tcp_state
  seq_num :: nat
  ack_num :: nat
  rx_stream :: "byte list"

datatype net_ipc_request =
    CreateUdpSocket nat
  | SendUdp nat "byte list" nat "byte list"
  | RecvUdp nat
  | CloseSocket nat
  | CreateTcpSocket nat
  | ConnectTcp nat "byte list" nat
  | SendTcp nat "byte list"
  | RecvTcp nat nat
  | CloseTcpSocket nat

datatype net_ipc_response =
    SocketCreated nat nat
  | Sent nat
  | Received "byte list" nat "byte list"
  | RConnected
  | DataReceived "byte list"
  | RClosed
  | RError string

record net_service =
  udp_sockets :: "(nat, udp_record) btree_map"
  tcp_sockets :: "(nat, tcp_record) btree_map"
  next_socket_id :: nat
  next_ephemeral_port :: nat

definition new_net_service :: net_service where
  "new_net_service = \<lparr>udp_sockets = [], tcp_sockets = [], next_socket_id = 1, next_ephemeral_port = 49152\<rparr>"

definition alloc_ephemeral_port :: "net_service \<Rightarrow> nat \<times> net_service" where
  "alloc_ephemeral_port s =
     (let p = next_ephemeral_port s; n = wrapping_add 16 p 1 in (p, s\<lparr>next_ephemeral_port := if n < 49152 then 49152 else n\<rparr>))"

subsection \<open>Requests\<close>

text \<open>A request works on the service and on the network stack; its result is the answer and both of them.\<close>

type_synonym net_reply = "(net_ipc_response \<times> net_service \<times> net_stack) option"

definition choose_port :: "nat \<Rightarrow> net_service \<Rightarrow> nat \<times> net_service" where
  "choose_port lport s = (if lport = 0 then alloc_ephemeral_port s else (lport, s))"

definition create_udp :: "nat \<Rightarrow> nat \<Rightarrow> net_service \<Rightarrow> net_stack \<Rightarrow> net_reply" where
  "create_udp pid lport s w =
     (let (port, s1) = choose_port lport s; sid = next_socket_id s1 in
      do {
        n \<leftarrow> checked_add 32 sid 1;
        Some (SocketCreated sid port,
          s1\<lparr>next_socket_id := n,
             udp_sockets := bt_insert sid \<lparr>u_socket_id = sid, u_owner = pid, u_local_port = port, rx_queue = []\<rparr> (udp_sockets s1)\<rparr>, w)
      })"

definition send_udp :: "net_stack receiver \<Rightarrow> nat \<Rightarrow> nat \<Rightarrow> byte list \<Rightarrow> nat \<Rightarrow> byte list \<Rightarrow> net_service \<Rightarrow> net_stack \<Rightarrow> net_reply" where
  "send_udp recv pid sid dst_ip dst_port data s w =
     (if MAX_UDP_PAYLOAD_SIZE < length data then Some (RError ''BufferOverflow'', s, w)
      else case bt_get (udp_sockets s) sid of
        None \<Rightarrow> Some (RError ''SocketNotFound'', s, w)
      | Some so \<Rightarrow>
          if u_owner so \<noteq> pid then Some (RError ''SocketOwnershipViolation'', s, w)
          else do {
            w1 \<leftarrow> send_udp_packet recv (u_local_port so) \<lparr>sa_ip = dst_ip, sa_port = dst_port\<rparr> data w;
            Some (Sent (length data), s, w1)
          })"

definition recv_udp :: "nat \<Rightarrow> nat \<Rightarrow> net_service \<Rightarrow> net_stack \<Rightarrow> net_reply" where
  "recv_udp pid sid s w =
     (case bt_get (udp_sockets s) sid of
        None \<Rightarrow> Some (RError ''SocketNotFound'', s, w)
      | Some so \<Rightarrow>
          if u_owner so \<noteq> pid then Some (RError ''SocketOwnershipViolation'', s, w)
          else if rx_queue so = [] then Some (RError ''WouldBlock'', s, w)
          else let pkt = last (rx_queue so) in
            Some (Received (dg_src_ip pkt) (dg_src_port pkt) (dg_payload pkt),
              s\<lparr>udp_sockets := bt_insert sid (so\<lparr>rx_queue := butlast (rx_queue so)\<rparr>) (udp_sockets s)\<rparr>, w))"

definition close_udp :: "nat \<Rightarrow> nat \<Rightarrow> net_service \<Rightarrow> net_stack \<Rightarrow> net_reply" where
  "close_udp pid sid s w =
     (case bt_get (udp_sockets s) sid of
        None \<Rightarrow> Some (RError ''SocketNotFound'', s, w)
      | Some so \<Rightarrow>
          if u_owner so \<noteq> pid then Some (RError ''SocketOwnershipViolation'', s, w)
          else Some (RClosed, s\<lparr>udp_sockets := bt_remove sid (udp_sockets s)\<rparr>, w))"

definition create_tcp :: "nat \<Rightarrow> nat \<Rightarrow> net_service \<Rightarrow> net_stack \<Rightarrow> net_reply" where
  "create_tcp pid lport s w =
     (let (port, s1) = choose_port lport s; sid = next_socket_id s1 in
      do {
        n \<leftarrow> checked_add 32 sid 1;
        Some (SocketCreated sid port,
          s1\<lparr>next_socket_id := n,
             tcp_sockets := bt_insert sid \<lparr>t_socket_id = sid, t_owner = pid, t_local_port = port, t_remote_ip = None,
               t_remote_port = None, t_state = TsClosed, seq_num = 1000, ack_num = 0, rx_stream = []\<rparr> (tcp_sockets s1)\<rparr>, w)
      })"

definition connect_tcp :: "net_stack receiver \<Rightarrow> nat \<Rightarrow> nat \<Rightarrow> byte list \<Rightarrow> nat \<Rightarrow> net_service \<Rightarrow> net_stack \<Rightarrow> net_reply" where
  "connect_tcp recv pid sid dst_ip dst_port s w =
     (case bt_get (tcp_sockets s) sid of
        None \<Rightarrow> Some (RError ''SocketNotFound'', s, w)
      | Some so \<Rightarrow>
          if t_owner so \<noteq> pid then Some (RError ''SocketOwnershipViolation'', s, w)
          else do {
            w1 \<leftarrow> send_tcp_syn_seq recv (t_local_port so) \<lparr>sa_ip = dst_ip, sa_port = dst_port\<rparr> (seq_num so) w;
            Some (RConnected,
              s\<lparr>tcp_sockets := bt_insert sid (so\<lparr>t_remote_ip := Some dst_ip, t_remote_port := Some dst_port,
                seq_num := wrapping_add 32 (seq_num so) 1, t_state := TsEstablished\<rparr>) (tcp_sockets s)\<rparr>, w1)
          })"

definition send_tcp_stream :: "net_stack receiver \<Rightarrow> nat \<Rightarrow> nat \<Rightarrow> byte list \<Rightarrow> net_service \<Rightarrow> net_stack \<Rightarrow> net_reply" where
  "send_tcp_stream recv pid sid data s w =
     (if MAX_TCP_SEGMENT_SIZE < length data then Some (RError ''BufferOverflow'', s, w)
      else case bt_get (tcp_sockets s) sid of
        None \<Rightarrow> Some (RError ''SocketNotFound'', s, w)
      | Some so \<Rightarrow>
          if t_owner so \<noteq> pid then Some (RError ''SocketOwnershipViolation'', s, w)
          else if t_state so \<noteq> TsEstablished then Some (RError ''SocketNotConnected'', s, w)
          else (case (t_remote_ip so, t_remote_port so) of
            (Some ip, Some port) \<Rightarrow> do {
              w1 \<leftarrow> send_tcp_data recv (t_local_port so) \<lparr>sa_ip = ip, sa_port = port\<rparr> (seq_num so) (ack_num so) data w;
              Some (Sent (length data),
                s\<lparr>tcp_sockets := bt_insert sid (so\<lparr>seq_num := wrapping_add 32 (seq_num so) (length data)\<rparr>) (tcp_sockets s)\<rparr>, w1)
            }
          | _ \<Rightarrow> Some (RError ''SocketNotConnected'', s, w)))"

definition recv_tcp :: "nat \<Rightarrow> nat \<Rightarrow> nat \<Rightarrow> net_service \<Rightarrow> net_stack \<Rightarrow> net_reply" where
  "recv_tcp pid sid max_len s w =
     (case bt_get (tcp_sockets s) sid of
        None \<Rightarrow> Some (RError ''SocketNotFound'', s, w)
      | Some so \<Rightarrow>
          if t_owner so \<noteq> pid then Some (RError ''SocketOwnershipViolation'', s, w)
          else if rx_stream so = [] then Some (RError ''WouldBlock'', s, w)
          else let n = min (length (rx_stream so)) max_len in
            Some (DataReceived (take n (rx_stream so)),
              s\<lparr>tcp_sockets := bt_insert sid (so\<lparr>rx_stream := drop n (rx_stream so)\<rparr>) (tcp_sockets s)\<rparr>, w))"

definition close_tcp :: "nat \<Rightarrow> nat \<Rightarrow> net_service \<Rightarrow> net_stack \<Rightarrow> net_reply" where
  "close_tcp pid sid s w =
     (case bt_get (tcp_sockets s) sid of
        None \<Rightarrow> Some (RError ''SocketNotFound'', s, w)
      | Some so \<Rightarrow>
          if t_owner so \<noteq> pid then Some (RError ''SocketOwnershipViolation'', s, w)
          else Some (RClosed, s\<lparr>tcp_sockets := bt_remove sid (tcp_sockets s)\<rparr>, w))"

definition handle_request ::
    "net_stack receiver \<Rightarrow> permission_manager \<Rightarrow> nat \<Rightarrow> net_ipc_request \<Rightarrow> net_service \<Rightarrow> net_stack \<Rightarrow> net_reply" where
  "handle_request recv pm pid req s w =
     (if \<not> is_ok (check_permission pid NetworkAccess pm) then Some (RError ''PermissionDenied'', s, w)
      else case req of
        CreateUdpSocket p \<Rightarrow> create_udp pid p s w
      | SendUdp sid ip port data \<Rightarrow> send_udp recv pid sid ip port data s w
      | RecvUdp sid \<Rightarrow> recv_udp pid sid s w
      | CloseSocket sid \<Rightarrow> close_udp pid sid s w
      | CreateTcpSocket p \<Rightarrow> create_tcp pid p s w
      | ConnectTcp sid ip port \<Rightarrow> connect_tcp recv pid sid ip port s w
      | SendTcp sid data \<Rightarrow> send_tcp_stream recv pid sid data s w
      | RecvTcp sid n \<Rightarrow> recv_tcp pid sid n s w
      | CloseTcpSocket sid \<Rightarrow> close_tcp pid sid s w)"

definition dispatch_incoming_tcp :: "byte list \<Rightarrow> nat \<Rightarrow> nat \<Rightarrow> nat \<Rightarrow> byte list \<Rightarrow> net_service \<Rightarrow> net_service" where
  "dispatch_incoming_tcp src_ip src_port dst_port seq payload s =
     s\<lparr>tcp_sockets := map (\<lambda>(k, so). (k,
         if t_local_port so = dst_port
         then so\<lparr>ack_num := wrapping_add 32 seq (max (length payload) 1 mod 2 ^ 32), rx_stream := rx_stream so @ payload\<rparr>
         else so)) (tcp_sockets s)\<rparr>"

subsection \<open>The link state\<close>

datatype network_state = Disconnected | Ethernet string "byte list" | Wifi string nat

record network_manager =
  nm_state :: network_state
  popup_open :: bool
  last_updated_tick :: nat

definition new_network_manager :: network_manager where
  "new_network_manager = \<lparr>nm_state = Ethernet ''eth0 (RTL8139)'' [10, 0, 2, 15], popup_open = False, last_updated_tick = 0\<rparr>"

definition set_disconnected :: "network_manager \<Rightarrow> network_manager" where
  "set_disconnected m = m\<lparr>nm_state := Disconnected\<rparr>"

definition set_ethernet :: "byte list \<Rightarrow> network_manager \<Rightarrow> network_manager" where
  "set_ethernet ip m = m\<lparr>nm_state := Ethernet ''eth0 (RTL8139)'' ip\<rparr>"

definition set_wifi :: "string \<Rightarrow> nat \<Rightarrow> network_manager \<Rightarrow> network_manager" where
  "set_wifi ssid signal m = m\<lparr>nm_state := Wifi ssid (min signal 100)\<rparr>"

definition toggle_popup :: "network_manager \<Rightarrow> network_manager" where
  "toggle_popup m = m\<lparr>popup_open := \<not> popup_open m\<rparr>"

definition get_icon_symbol :: "network_manager \<Rightarrow> string" where
  "get_icon_symbol m = (case nm_state m of Disconnected \<Rightarrow> ''x'' | Ethernet _ _ \<Rightarrow> ''[ETH]'' | Wifi _ _ \<Rightarrow> ''[WIFI]'')"

definition get_network_state_for_app :: "permission_manager \<Rightarrow> nat \<Rightarrow> network_manager \<Rightarrow> (string, network_state) result" where
  "get_network_state_for_app pm pid m =
     (if \<not> is_ok (check_permission pid NetworkAccess pm) then Err ''PermissionDenied'' else Ok (nm_state m))"

subsection \<open>Ownership\<close>

definition net_svc_ok :: "net_service \<Rightarrow> bool" where
  "net_svc_ok s \<longleftrightarrow> (\<forall>i so. bt_get (udp_sockets s) i = Some so \<longrightarrow> u_socket_id so = i \<and> i < next_socket_id s) \<and>
     (\<forall>i so. bt_get (tcp_sockets s) i = Some so \<longrightarrow> t_socket_id so = i \<and> i < next_socket_id s) \<and>
     49152 \<le> next_ephemeral_port s \<and> next_ephemeral_port s < 65536"

text \<open>What a process can see of the service: its own sockets.\<close>

definition udp_view :: "nat \<Rightarrow> net_service \<Rightarrow> nat \<Rightarrow> udp_record option" where
  "udp_view pid s i = (case bt_get (udp_sockets s) i of Some so \<Rightarrow> if u_owner so = pid then Some so else None | None \<Rightarrow> None)"

definition tcp_view :: "nat \<Rightarrow> net_service \<Rightarrow> nat \<Rightarrow> tcp_record option" where
  "tcp_view pid s i = (case bt_get (tcp_sockets s) i of Some so \<Rightarrow> if t_owner so = pid then Some so else None | None \<Rightarrow> None)"

lemmas request_defs = create_udp_def send_udp_def recv_udp_def close_udp_def create_tcp_def connect_tcp_def send_tcp_stream_def
  recv_tcp_def close_tcp_def

lemma choose_port_simps:
  assumes "choose_port p s = (port, s1)" and "net_svc_ok s"
  shows "udp_sockets s1 = udp_sockets s" "tcp_sockets s1 = tcp_sockets s" "next_socket_id s1 = next_socket_id s" "net_svc_ok s1"
    "49152 \<le> next_ephemeral_port s1" "next_ephemeral_port s1 < 65536"
proof -
  have "wrapping_add 16 n 1 < 65536" for n by (simp add: wrapping_add_def)
  with assms show "udp_sockets s1 = udp_sockets s" "tcp_sockets s1 = tcp_sockets s" "next_socket_id s1 = next_socket_id s" "net_svc_ok s1"
    "49152 \<le> next_ephemeral_port s1" "next_ephemeral_port s1 < 65536"
    by (auto simp: choose_port_def alloc_ephemeral_port_def net_svc_ok_def Let_def split: if_splits)
qed

text \<open>What a request of \<open>pid\<close> may do to the service.\<close>

definition own_change :: "nat \<Rightarrow> net_service \<Rightarrow> net_service \<Rightarrow> bool" where
  "own_change pid s s' \<longleftrightarrow> net_svc_ok s' \<and> (\<forall>q. q \<noteq> pid \<longrightarrow> udp_view q s' = udp_view q s \<and> tcp_view q s' = tcp_view q s)"

lemma own_change_refl: "net_svc_ok s \<Longrightarrow> own_change pid s s"
  by (simp add: own_change_def)

lemma own_udp:
  assumes "net_svc_ok s" and "bt_get (udp_sockets s) i = Some so" and "u_owner so = pid"
  shows "u_socket_id so' = i \<Longrightarrow> u_owner so' = pid \<Longrightarrow> own_change pid s (s\<lparr>udp_sockets := bt_insert i so' (udp_sockets s)\<rparr>)"
    and "own_change pid s (s\<lparr>udp_sockets := bt_remove i (udp_sockets s)\<rparr>)"
  using assms by (auto simp: own_change_def net_svc_ok_def udp_view_def tcp_view_def fun_eq_iff)

lemma own_tcp:
  assumes "net_svc_ok s" and "bt_get (tcp_sockets s) i = Some so" and "t_owner so = pid"
  shows "t_socket_id so' = i \<Longrightarrow> t_owner so' = pid \<Longrightarrow> own_change pid s (s\<lparr>tcp_sockets := bt_insert i so' (tcp_sockets s)\<rparr>)"
    and "own_change pid s (s\<lparr>tcp_sockets := bt_remove i (tcp_sockets s)\<rparr>)"
  using assms by (auto simp: own_change_def net_svc_ok_def udp_view_def tcp_view_def fun_eq_iff)

lemma fresh_id: "net_svc_ok s \<Longrightarrow> bt_get (udp_sockets s) (next_socket_id s) = None \<and> bt_get (tcp_sockets s) (next_socket_id s) = None"
  by (metis net_svc_ok_def less_irrefl not_None_eq)

lemma own_create:
  assumes "net_svc_ok s" and "choose_port p s = (port, s1)"
  shows "u_socket_id u = next_socket_id s \<Longrightarrow> u_owner u = pid \<Longrightarrow>
      own_change pid s (s1\<lparr>next_socket_id := Suc (next_socket_id s), udp_sockets := bt_insert (next_socket_id s) u (udp_sockets s)\<rparr>)"
    and "t_socket_id t = next_socket_id s \<Longrightarrow> t_owner t = pid \<Longrightarrow>
      own_change pid s (s1\<lparr>next_socket_id := Suc (next_socket_id s), tcp_sockets := bt_insert (next_socket_id s) t (tcp_sockets s)\<rparr>)"
  using fresh_id [OF assms(1)] choose_port_simps [OF assms(2,1)] assms(1)
  by (auto simp: own_change_def net_svc_ok_def udp_view_def tcp_view_def fun_eq_iff less_Suc_eq)

lemma create_own:
  assumes "net_svc_ok s"
  shows "create_udp pid p s w = Some (r, s', w') \<Longrightarrow> own_change pid s s'"
    and "create_tcp pid p s w = Some (r, s', w') \<Longrightarrow> own_change pid s s'"
proof -
  obtain port s1 where c: "choose_port p s = (port, s1)" by (cases "choose_port p s")
  note e = choose_port_simps [OF c assms]
  show "create_udp pid p s w = Some (r, s', w') \<Longrightarrow> own_change pid s s'"
    using own_create(1) [OF assms c] by (auto simp: create_udp_def c e Let_def bind_eq_Some_conv)
  show "create_tcp pid p s w = Some (r, s', w') \<Longrightarrow> own_change pid s s'"
    using own_create(2) [OF assms c] by (auto simp: create_tcp_def c e Let_def bind_eq_Some_conv)
qed

lemma net_ids:
  "net_svc_ok s \<Longrightarrow> bt_get (udp_sockets s) i = Some u \<Longrightarrow> u_socket_id u = i"
  "net_svc_ok s \<Longrightarrow> bt_get (tcp_sockets s) i = Some t \<Longrightarrow> t_socket_id t = i"
  by (auto simp: net_svc_ok_def)

lemma request_own:
  assumes "net_svc_ok s"
  shows "send_udp recv pid i ip port data s w = Some (r, s', w') \<Longrightarrow> own_change pid s s'"
    and "recv_udp pid i s w = Some (r, s', w') \<Longrightarrow> own_change pid s s'"
    and "close_udp pid i s w = Some (r, s', w') \<Longrightarrow> own_change pid s s'"
    and "connect_tcp recv pid i ip port s w = Some (r, s', w') \<Longrightarrow> own_change pid s s'"
    and "send_tcp_stream recv pid i data s w = Some (r, s', w') \<Longrightarrow> own_change pid s s'"
    and "recv_tcp pid i n s w = Some (r, s', w') \<Longrightarrow> own_change pid s s'"
    and "close_tcp pid i s w = Some (r, s', w') \<Longrightarrow> own_change pid s s'"
  using assms
  by (auto simp: request_defs Let_def bind_eq_Some_conv net_ids intro!: own_change_refl own_udp own_tcp
      split: if_splits option.splits)

subsection \<open>Properties\<close>

text \<open>
  C35. Processes do not reach each other's sockets: whatever a process asks of the network service, the sockets of every other
  process stay as they are, and a process without the network permission changes nothing and sends nothing.
\<close>
theorem network_requests_isolated:
  assumes "net_svc_ok s" and "handle_request recv pm pid req s w = Some (r, s', w')"
  shows "own_change pid s s' \<and>
    (\<not> is_ok (check_permission pid NetworkAccess pm) \<longrightarrow> r = RError ''PermissionDenied'' \<and> s' = s \<and> w' = w)"
proof -
  have "own_change pid s s'"
  proof (cases "is_ok (check_permission pid NetworkAccess pm)")
    case True
    with assms(2) show ?thesis
      by (cases req) (auto simp: handle_request_def dest: create_own [OF assms(1)] request_own [OF assms(1)])
  qed (use assms own_change_refl in \<open>auto simp: handle_request_def\<close>)
  then show ?thesis using assms(2) by (auto simp: handle_request_def)
qed

theorem network_requests_isolated_witness:
  "\<exists>s. handle_request (rx_depth 0) [(7, [NetworkAccess])] 7 (CreateTcpSocket 0) new_net_service (new_stack None) =
      Some (SocketCreated 1 49152, s, new_stack None) \<and> own_change 7 new_net_service s \<and> tcp_view 8 s 1 = None"
proof -
  have ok: "net_svc_ok new_net_service" by (simp add: net_svc_ok_def new_net_service_def)
  obtain s where s: "handle_request (rx_depth 0) [(7, [NetworkAccess])] 7 (CreateTcpSocket 0) new_net_service (new_stack None) =
      Some (SocketCreated 1 49152, s, new_stack None)"
    by (simp add: handle_request_def check_permission_def create_tcp_def choose_port_def alloc_ephemeral_port_def new_net_service_def
        checked_add_def Let_def)
  moreover have "tcp_view 8 s = tcp_view 8 new_net_service" using network_requests_isolated [OF ok s] by (simp add: own_change_def)
  moreover have "tcp_view 8 new_net_service 1 = None" by (simp add: tcp_view_def new_net_service_def)
  ultimately show ?thesis using network_requests_isolated [OF ok s] by auto
qed

text \<open>A segment is handed to every socket with its destination port, so two processes on one port both read it.\<close>
lemma same_port_reads_stream:
  "tcp_view p s i = Some so \<Longrightarrow> t_local_port so = dst_port \<Longrightarrow>
    \<exists>so'. tcp_view p (dispatch_incoming_tcp src_ip src_port dst_port seq payload s) i = Some so' \<and> rx_stream so' = rx_stream so @ payload"
proof -
  have "map_of (map (\<lambda>(k, v). (k, f v)) m) i = map_option f (map_of m i)" for f :: "tcp_record \<Rightarrow> tcp_record" and m
    by (induction m) auto
  then show "tcp_view p s i = Some so \<Longrightarrow> t_local_port so = dst_port \<Longrightarrow> ?thesis"
    by (auto simp: tcp_view_def dispatch_incoming_tcp_def split: option.splits if_splits)
qed

text \<open>No operation puts a datagram into the queue of a UDP socket: receiving on it always answers that it would block.\<close>
lemma udp_queue_stays_empty:
  assumes "\<forall>i so. bt_get (udp_sockets s) i = Some so \<longrightarrow> rx_queue so = []" and "handle_request recv pm pid req s w = Some (r, s', w')"
  shows "\<forall>i so. bt_get (udp_sockets s') i = Some so \<longrightarrow> rx_queue so = []" and "\<And>ip port data. r \<noteq> Received ip port data"
proof -
  have "udp_sockets (snd (choose_port p s)) = udp_sockets s" for p by (simp add: choose_port_def alloc_ephemeral_port_def Let_def)
  then have c: "choose_port p s = (port, s1) \<Longrightarrow> udp_sockets s1 = udp_sockets s" for p port s1 by (metis snd_conv)
  show "\<forall>i so. bt_get (udp_sockets s') i = Some so \<longrightarrow> rx_queue so = []" "r \<noteq> Received ip port data" for ip port data
    using assms unfolding handle_request_def
    by (cases req; auto simp: request_defs Let_def bind_eq_Some_conv c split: if_splits option.splits prod.splits)+
qed

end
