(* ===== verification/Fd_Table.thy ===== *)
theory Fd_Table
  imports Vfs
begin

section \<open>File descriptors\<close>

text \<open>
  \<^verbatim>\<open>kernel/src/fd.rs\<close>: one table of 256 descriptors for the whole system, each a path, an offset and the flags of the
  call that opened it. Reads and writes go to the file system at the descriptor's offset and advance it. An outer
  \<open>None\<close> is a panic: an offset sum that overflows, or a write that ends past the capacity of a vector.
\<close>

definition FD_RDONLY :: "32 word" where "FD_RDONLY = 0"
definition FD_WRONLY :: "32 word" where "FD_WRONLY = 1"
definition FD_RDWR :: "32 word" where "FD_RDWR = 2"
definition FD_CREAT :: "32 word" where "FD_CREAT = 64"

definition SEEK_SET :: nat where "SEEK_SET = 0"
definition SEEK_CUR :: nat where "SEEK_CUR = 1"
definition SEEK_END :: nat where "SEEK_END = 2"

record file_descriptor =
  d_fd :: nat
  d_path :: string
  d_offset :: nat
  d_flags :: "32 word"
  d_ref_count :: nat

type_synonym fd_table = "file_descriptor option list"

definition new_fd_table :: fd_table where
  "new_fd_table = replicate 256 None"

text \<open>The test of \<^verbatim>\<open>open\<close>; a directory counts as an existing file.\<close>

definition openable :: "kernel_stats \<Rightarrow> string \<Rightarrow> 'd vfs \<Rightarrow> bool" where
  "openable k path v \<longleftrightarrow>
     file_exists k path v \<or> \<not> is_dir path v \<and> (is_ok (read_file k path v) \<or> is_seeded_binary path v)"

definition fd_open ::
    "'d drive \<Rightarrow> kernel_stats \<Rightarrow> string \<Rightarrow> 32 word \<Rightarrow> fd_table \<Rightarrow> 'd vfs \<Rightarrow> (string, nat) result \<times> fd_table \<times> 'd vfs" where
  "fd_open dr k path flags fds v =
     (case position (\<lambda>f. f = None) fds of
        None \<Rightarrow> (Err ''No free fd'', fds, v)
      | Some fd \<Rightarrow>
          let fds' = fds[fd := Some \<lparr>d_fd = fd, d_path = path, d_offset = 0, d_flags = flags, d_ref_count = 1\<rparr>] in
          if openable k path v then (Ok fd, fds', v)
          else if flags AND FD_CREAT \<noteq> 0 then
            (case write_file dr path [] v of
               (Inl e, v1) \<Rightarrow> (Err e, fds, v1)
             | (Inr _, v1) \<Rightarrow> (Ok fd, fds', v1))
          else (Err ''File not found'', fds, v))"

definition fd_close :: "nat \<Rightarrow> fd_table \<Rightarrow> (string, unit) result \<times> fd_table" where
  "fd_close fd fds =
     (if 256 \<le> fd \<or> fds ! fd = None then (Err ''Invalid fd'', fds) else (Ok (), fds[fd := None]))"

text \<open>\<^verbatim>\<open>self.fds.get_mut(fd).and_then(|f| f.as_mut())\<close>\<close>

definition fd_get :: "fd_table \<Rightarrow> nat \<Rightarrow> file_descriptor option" where
  "fd_get fds fd = (if fd < length fds then fds ! fd else None)"

text \<open>\<^verbatim>\<open>desc.offset += len; Ok(len)\<close>\<close>

definition fd_advance :: "nat \<Rightarrow> file_descriptor \<Rightarrow> nat \<Rightarrow> fd_table \<Rightarrow> fd_table option" where
  "fd_advance fd desc len fds = do {
     off \<leftarrow> checked_add 64 (d_offset desc) len;
     Some (fds[fd := Some (desc\<lparr>d_offset := off\<rparr>)])
   }"

definition fd_read ::
    "kernel_stats \<Rightarrow> nat \<Rightarrow> byte list \<Rightarrow> fd_table \<Rightarrow> 'd vfs \<Rightarrow> ((string, nat) result \<times> byte list \<times> fd_table) option" where
  "fd_read k fd buf fds v =
     (case fd_get fds fd of
        None \<Rightarrow> Some (Err ''Invalid fd'', buf, fds)
      | Some desc \<Rightarrow>
          if d_flags desc AND FD_WRONLY \<noteq> 0 \<and> d_flags desc AND FD_RDWR = 0
          then Some (Err ''Bad fd flags for reading'', buf, fds)
          else (case (if is_seeded_binary (d_path desc) v
                      then read_file_from_path_chunk k (d_path desc) (d_offset desc) buf v
                      else read_file_chunk k (d_path desc) (d_offset desc) buf v) of
                  (Inl e, buf1) \<Rightarrow> Some (Err e, buf1, fds)
                | (Inr len, buf1) \<Rightarrow> do {
                    fds1 \<leftarrow> fd_advance fd desc len fds;
                    Some (Ok len, buf1, fds1)
                  }))"

definition fd_write ::
    "'d drive \<Rightarrow> nat \<Rightarrow> byte list \<Rightarrow> fd_table \<Rightarrow> 'd vfs \<Rightarrow> ((string, nat) result \<times> fd_table \<times> 'd vfs) option" where
  "fd_write dr fd buf fds v =
     (case fd_get fds fd of
        None \<Rightarrow> Some (Err ''Invalid fd'', fds, v)
      | Some desc \<Rightarrow>
          if d_flags desc AND FD_WRONLY = 0 \<and> d_flags desc AND FD_RDWR = 0
          then Some (Err ''Bad fd flags for writing'', fds, v)
          else do {
            (r, v1) \<leftarrow> write_file_chunk dr (d_path desc) (d_offset desc) buf v;
            case r of
              Inl e \<Rightarrow> Some (Err e, fds, v1)
            | Inr len \<Rightarrow> do {
                fds1 \<leftarrow> fd_advance fd desc len fds;
                Some (Ok len, fds1, v1)
              }
          })"

text \<open>\<^verbatim>\<open>as isize\<close>, and a sum of two such numbers that must fit.\<close>

definition as_isize :: "nat \<Rightarrow> int" where
  "as_isize n = (if n < 2 ^ 63 then int n else int n - 2 ^ 64)"

definition checked_isize :: "int \<Rightarrow> int option" where
  "checked_isize i = (if - (2 ^ 63) \<le> i \<and> i < 2 ^ 63 then Some i else None)"

definition fd_lseek ::
    "kernel_stats \<Rightarrow> nat \<Rightarrow> int \<Rightarrow> nat \<Rightarrow> fd_table \<Rightarrow> 'd vfs \<Rightarrow> ((string, nat) result \<times> fd_table) option" where
  "fd_lseek k fd offset whence fds v =
     (case fd_get fds fd of
        None \<Rightarrow> Some (Err ''Invalid fd'', fds)
      | Some desc \<Rightarrow>
          (case (if is_seeded_binary (d_path desc) v then get_file_size_from_path k (d_path desc) v
                 else get_file_size k (d_path desc) v) of
             Inl e \<Rightarrow> Some (Err e, fds)
           | Inr content_len \<Rightarrow>
               if whence \<notin> {SEEK_SET, SEEK_CUR, SEEK_END} then Some (Err ''Invalid whence'', fds)
               else do {
                 new_offset \<leftarrow> (if whence = SEEK_SET then Some offset
                   else if whence = SEEK_CUR then checked_isize (as_isize (d_offset desc) + offset)
                   else checked_isize (as_isize content_len + offset));
                 if new_offset < 0 then Some (Err ''Invalid offset'', fds)
                 else Some (Ok (nat new_offset), fds[fd := Some (desc\<lparr>d_offset := nat new_offset\<rparr>)])
               }))"

end
