(* ===== verification/Cap_Tables.thy ===== *)
theory Cap_Tables
  imports Scheduler
begin

section \<open>The capability tables of processes\<close>

text \<open>
  \<^verbatim>\<open>kernel/src/syscall_cap.rs\<close>: every process holds a table from descriptor numbers to capability handles. A system
  call is allowed when the handle its descriptor names passes the capability check. The functions on a bare table come
  first, then the wrappers on the table of the running process (\<open>pid\<close>), which \<^verbatim>\<open>with_cap_table\<close> of
  \<^verbatim>\<open>task/process.rs\<close> finds. An outer \<open>None\<close> is a panic of the capability table.
\<close>

type_synonym cap_tbl = "(nat \<times> cap_handle) list"
type_synonym 'a tbl_op = "cap_tbl \<Rightarrow> cap_world \<Rightarrow> ((cap_error, 'a) result \<times> cap_tbl \<times> cap_world) option"

definition find_fd_in_table :: "cap_tbl \<Rightarrow> nat \<Rightarrow> cap_handle option" where
  "find_fd_in_table tbl fd = map_option snd (find (\<lambda>(f, _). f = fd) tbl)"

definition check_fd_access_in_table :: "cap_tbl \<Rightarrow> nat \<Rightarrow> rights \<Rightarrow> cap_world \<Rightarrow> (cap_error, unit) result option" where
  "check_fd_access_in_table tbl fd needed w =
     (case find (\<lambda>(f, _). f = fd) tbl of
        None \<Rightarrow> Some (Err NotFound)
      | Some (_, h) \<Rightarrow> read_state (check_rights h needed) w)"

fun check_process_exec_in_table :: "cap_tbl \<Rightarrow> cap_world \<Rightarrow> (cap_error, unit) result option" where
  "check_process_exec_in_table [] w = Some (Err NoRights)"
| "check_process_exec_in_table ((_, h) # tbl) w = do {
     c \<leftarrow> read_state (check_rights h 256) w;
     if is_ok c then Some (Ok ()) else check_process_exec_in_table tbl w
   }"

definition grant_fd_in_table :: "nat \<Rightarrow> cap_handle \<Rightarrow> rights \<Rightarrow> unit tbl_op" where
  "grant_fd_in_table fd parent req tbl w =
     (if list_ex (\<lambda>(f, _). f = fd) tbl then Some (Err AlreadyExists, tbl, w)
      else do {
        (r, w1) \<leftarrow> with_state (grant parent req) w;
        case r of
          Inl e \<Rightarrow> Some (Err e, tbl, w1)
        | Inr granted \<Rightarrow> Some (Ok (), tbl @ [(fd, granted)], w1)
      })"

text \<open>The entry leaves the table before the handle is closed, so a failing close does not keep it.\<close>

definition close_fd_in_table :: "nat \<Rightarrow> unit tbl_op" where
  "close_fd_in_table fd tbl w =
     (case position (\<lambda>(f, _). f = fd) tbl of
        None \<Rightarrow> Some (Err NotFound, tbl, w)
      | Some i \<Rightarrow> do {
          (r, w1) \<leftarrow> with_state (close (snd (tbl ! i))) w;
          Some (r, list_remove i tbl, w1)
        })"

text \<open>\<^verbatim>\<open>table.push((fd, cap::grant(cap, req)?))\<close>: what was pushed before a failure stays.\<close>

definition push_grant :: "nat \<Rightarrow> cap_handle \<Rightarrow> rights \<Rightarrow> unit tbl_op" where
  "push_grant fd parent req tbl w = do {
     (r, w1) \<leftarrow> with_state (grant parent req) w;
     case r of
       Inl e \<Rightarrow> Some (Err e, tbl, w1)
     | Inr h \<Rightarrow> Some (Ok (), tbl @ [(fd, h)], w1)
   }"

fun push_grants :: "nat list \<Rightarrow> cap_handle \<Rightarrow> rights \<Rightarrow> unit tbl_op" where
  "push_grants [] parent req tbl w = Some (Ok (), tbl, w)"
| "push_grants (fd # fds) parent req tbl w = do {
     (r, tbl1, w1) \<leftarrow> push_grant fd parent req tbl w;
     case r of
       Inl e \<Rightarrow> Some (Err e, tbl1, w1)
     | Inr _ \<Rightarrow> push_grants fds parent req tbl1 w1
   }"

definition seed_stdio :: "unit tbl_op" where
  "seed_stdio tbl w = do {
     (r, w1) \<leftarrow> with_state (create_object KFd) w;
     case r of
       Inl e \<Rightarrow> Some (Err e, tbl, w1)
     | Inr stdio_cap \<Rightarrow> push_grants [0, 1, 2] stdio_cap 3 tbl w1
   }"

definition U32_MAX :: nat where "U32_MAX = 2 ^ 32 - 1"

definition seed_process_exec :: "unit tbl_op" where
  "seed_process_exec tbl w = do {
     (r, w1) \<leftarrow> with_state (create_object KProcess) w;
     case r of
       Inl e \<Rightarrow> Some (Err e, tbl, w1)
     | Inr proc_cap \<Rightarrow> push_grant U32_MAX proc_cap 256 tbl w1
   }"

definition seed_new_process :: "unit tbl_op" where
  "seed_new_process tbl w = do {
     (r, tbl1, w1) \<leftarrow> seed_stdio tbl w;
     case r of
       Inl e \<Rightarrow> Some (Err e, tbl1, w1)
     | Inr _ \<Rightarrow> seed_process_exec tbl1 w1
   }"

subsection \<open>On the running process\<close>

text \<open>\<^verbatim>\<open>with_cap_table\<close>: \<open>None\<close> inside when the process does not exist.\<close>

definition with_cap_table ::
    "nat \<Rightarrow> (cap_tbl \<Rightarrow> cap_world \<Rightarrow> ('a \<times> cap_tbl \<times> cap_world) option) \<Rightarrow> kernel \<Rightarrow> cap_world \<Rightarrow>
     ('a option \<times> kernel \<times> cap_world) option" where
  "with_cap_table pid f k w =
     (case bt_get (ktable k) pid of
        None \<Rightarrow> Some (None, k, w)
      | Some p \<Rightarrow> do {
          (x, tbl, w1) \<leftarrow> f (cap_table p) w;
          Some (Some x, upd_k pid (\<lambda>p. p\<lparr>cap_table := tbl\<rparr>) k, w1)
        })"

text \<open>A closure that only reads the table leaves the process as it is.\<close>

definition cap_table_of :: "nat \<Rightarrow> kernel \<Rightarrow> cap_tbl option" where
  "cap_table_of pid k = map_option cap_table (bt_get (ktable k) pid)"

definition check_fd_access :: "nat \<Rightarrow> nat \<Rightarrow> rights \<Rightarrow> kernel \<Rightarrow> cap_world \<Rightarrow> (cap_error, unit) result option" where
  "check_fd_access pid fd needed k w =
     (case cap_table_of pid k of
        None \<Rightarrow> Some (Err NotFound)
      | Some tbl \<Rightarrow> check_fd_access_in_table tbl fd needed w)"

definition check_process_exec :: "nat \<Rightarrow> kernel \<Rightarrow> cap_world \<Rightarrow> (cap_error, unit) result option" where
  "check_process_exec pid k w =
     (case cap_table_of pid k of
        None \<Rightarrow> Some (Err NotFound)
      | Some tbl \<Rightarrow> check_process_exec_in_table tbl w)"

definition add_fd_to_current ::
    "nat \<Rightarrow> nat \<Rightarrow> cap_handle \<Rightarrow> rights \<Rightarrow> kernel \<Rightarrow> cap_world \<Rightarrow> ((cap_error, unit) result \<times> kernel \<times> cap_world) option" where
  "add_fd_to_current pid fd cap req k w = do {
     (r, k1, w1) \<leftarrow> with_cap_table pid (grant_fd_in_table fd cap req) k w;
     Some (case r of Some x \<Rightarrow> x | None \<Rightarrow> Err NotFound, k1, w1)
   }"

definition remove_fd_from_current ::
    "nat \<Rightarrow> nat \<Rightarrow> kernel \<Rightarrow> cap_world \<Rightarrow> ((cap_error, unit) result \<times> kernel \<times> cap_world) option" where
  "remove_fd_from_current pid fd k w = do {
     (r, k1, w1) \<leftarrow> with_cap_table pid (close_fd_in_table fd) k w;
     Some (case r of Some x \<Rightarrow> x | None \<Rightarrow> Err NotFound, k1, w1)
   }"

text \<open>
  The provision of a new descriptor, the same in \<^verbatim>\<open>sys_open\<close> and \<^verbatim>\<open>sys_socket\<close>: a fresh object, and a grant of \<open>req\<close> on it
  under the descriptor's number; both errors are dropped.
\<close>

definition provision_fd :: "nat \<Rightarrow> nat \<Rightarrow> rights \<Rightarrow> kernel \<Rightarrow> cap_world \<Rightarrow> (kernel \<times> cap_world) option" where
  "provision_fd pid fd req k w = do {
     (r, w1) \<leftarrow> with_state (create_object KFd) w;
     case r of
       Inl _ \<Rightarrow> Some (k, w1)
     | Inr cap \<Rightarrow> do {
         (_, k2, w2) \<leftarrow> add_fd_to_current pid (fd mod 2 ^ 32) cap req k w1;
         Some (k2, w2)
       }
   }"

subsection \<open>Rights that a table can never exercise\<close>

text \<open>
  The capability world of one moment and of a later one, and a handle that was issued without the rights \<open>rts\<close>: it
  keeps lacking them, whatever happens to the slot it names.
\<close>

definition world_moves :: "cap_world \<Rightarrow> cap_world \<Rightarrow> bool" where
  "world_moves w w' \<longleftrightarrow>
     (case w_state w of
        None \<Rightarrow> w_state w' = None
      | Some s \<Rightarrow> \<exists>t. w_state w' = Some t \<and> moves s t)"

definition issued_without :: "core_state \<Rightarrow> rights \<Rightarrow> cap_handle \<Rightarrow> bool" where
  "issued_without s rts h \<longleftrightarrow>
     h_slot h < length (slots s) \<and> h_gen h \<le> s_gen (slots s ! h_slot h) \<and>
     (h_gen h = s_gen (slots s ! h_slot h) \<longrightarrow>
        \<not> s_free (slots s ! h_slot h) \<and> \<not> rights_contains (s_rights (slots s ! h_slot h)) rts)"

definition lacks :: "rights \<Rightarrow> cap_world \<Rightarrow> cap_handle \<Rightarrow> bool" where
  "lacks rts w h \<longleftrightarrow> (\<forall>s. w_state w = Some s \<longrightarrow> cap_ok s \<and> issued_without s rts h)"

definition tbl_lacks :: "rights \<Rightarrow> cap_world \<Rightarrow> cap_tbl \<Rightarrow> bool" where
  "tbl_lacks rts w tbl \<longleftrightarrow> (\<forall>h \<in> snd ` set tbl. lacks rts w h)"

lemma world_moves_refl [simp]: "world_moves w w"
  by (simp add: world_moves_def split: option.split)

lemma world_moves_trans: "world_moves w v \<Longrightarrow> world_moves v u \<Longrightarrow> world_moves w u"
  by (auto simp: world_moves_def split: option.splits intro: moves_trans)

lemma with_state_moves:
  assumes "with_state f w = Some (r, w')" and "\<And>s r t. f s = Some (r, t) \<Longrightarrow> moves s t"
  shows "world_moves w w'"
  using assms by (auto simp: with_state_Some world_moves_def)

lemma table_moves:
  "with_state (create_object kind) w = Some (rc, w1) \<Longrightarrow> world_moves w w1"
  "with_state (grant p req) w = Some (rg, w2) \<Longrightarrow> world_moves w w2"
  "with_state (close h) w = Some (ru, w3) \<Longrightarrow> world_moves w w3"
  by (auto elim!: with_state_moves intro: cap_moves)

lemma issued_without_later: "issued_without s rts h \<Longrightarrow> cap_le s t \<Longrightarrow> issued_without t rts h"
  by (fastforce simp: issued_without_def cap_le_def slots_le_def)

lemma lacks_later: "lacks rts w h \<Longrightarrow> world_moves w w' \<Longrightarrow> lacks rts w' h"
  by (auto simp: lacks_def world_moves_def moves_def split: option.splits intro: issued_without_later)

lemma tbl_lacks_later: "tbl_lacks rts w tbl \<Longrightarrow> world_moves w w' \<Longrightarrow> tbl_lacks rts w' tbl"
  by (auto simp: tbl_lacks_def intro: lacks_later)

lemma lacks_check:
  assumes "lacks rts w h"
  obtains e where "read_state (check_rights h rts) w = Some (Err e)"
proof (cases "w_state w")
  case (Some s)
  with assms have s: "issued_without s rts h" "cap_ok s" by (auto simp: lacks_def)
  have "check_rights h rts s \<noteq> Some (Ok ())"
    using s by (auto simp: check_rights_Ok handle_slot_Some issued_without_def)
  moreover obtain c where "check_rights h rts s = Some c" using check_rights_returns [OF s(2)] by blast
  ultimately obtain e where "check_rights h rts s = Some (Err e)" by (cases c) auto
  then show thesis using Some that by (simp add: read_state_def)
qed (use that in \<open>simp add: read_state_def\<close>)

lemma tbl_lacks_check:
  assumes "tbl_lacks rts w tbl"
  obtains e where "check_fd_access_in_table tbl fd rts w = Some (Err e)"
proof (cases "find (\<lambda>(f, _). f = fd) tbl")
  case (Some x)
  then have "x \<in> set tbl" by (metis find_Some_iff nth_mem)
  then have "lacks rts w (snd x)" using assms by (auto simp: tbl_lacks_def)
  then obtain e where "read_state (check_rights (snd x) rts) w = Some (Err e)" by (rule lacks_check)
  then show thesis using Some that by (cases x) (simp add: check_fd_access_in_table_def)
qed (use that in \<open>simp add: check_fd_access_in_table_def\<close>)

text \<open>A handle just granted without the rights lacks them.\<close>

lemma grant_lacks:
  assumes "with_state (grant parent req) w = Some (Ok h, w')" and "\<not> rights_contains req rts"
    and "\<And>s. w_state w = Some s \<Longrightarrow> cap_ok s"
  shows "lacks rts w' h"
proof -
  obtain s t where s: "w_state w = Some s" "grant parent req s = Some (Ok h, t)" "w' = w\<lparr>w_state := Some t\<rparr>"
    using assms(1) by (auto simp: with_state_Some)
  obtain c where "handle_slot t h = Some c" "s_rights c = req" using grant_Ok [OF assms(3) [OF s(1)] s(2)] by blast
  moreover have "cap_ok t" using grant_moves [OF s(2)] assms(3) [OF s(1)] by (simp add: moves_def)
  ultimately show ?thesis using s(3) assms(2) by (auto simp: lacks_def issued_without_def handle_slot_Some)
qed

text \<open>
  What every table operation does to the world and to such a table, given that it grants only rights \<open>req\<close> that do
  not contain \<open>rts\<close>.
\<close>

definition world_valid :: "cap_world \<Rightarrow> bool" where
  "world_valid w \<longleftrightarrow> (\<forall>s. w_state w = Some s \<longrightarrow> cap_ok s)"

lemma world_valid_later: "world_valid w \<Longrightarrow> world_moves w w' \<Longrightarrow> world_valid w'"
  by (auto simp: world_valid_def world_moves_def moves_def split: option.splits)

definition tbl_safe :: "rights \<Rightarrow> 'a tbl_op \<Rightarrow> bool" where
  "tbl_safe rts f \<longleftrightarrow> (\<forall>tbl w r tbl' w'. f tbl w = Some (r, tbl', w') \<longrightarrow> world_moves w w' \<and>
     (world_valid w \<and> tbl_lacks rts w tbl \<longrightarrow> tbl_lacks rts w' tbl'))"

lemma tbl_safeD:
  assumes "tbl_safe rts f" and "f tbl w = Some (r, tbl', w')"
  shows "world_moves w w'" and "world_valid w \<Longrightarrow> tbl_lacks rts w tbl \<Longrightarrow> tbl_lacks rts w' tbl'"
  using assms by (auto simp: tbl_safe_def)

lemma push_grant_safe [intro]:
  assumes "\<not> rights_contains req rts"
  shows "tbl_safe rts (push_grant fd parent req)"
proof (unfold tbl_safe_def, intro allI impI)
  fix tbl w r tbl' w' assume f: "push_grant fd parent req tbl w = Some (r, tbl', w')"
  obtain g where g: "with_state (grant parent req) w = Some (g, w')"
    and c: "(\<exists>e. g = Err e \<and> tbl' = tbl) \<or> (\<exists>h. g = Ok h \<and> tbl' = tbl @ [(fd, h)])"
    using f by (auto simp: push_grant_def split: bind_splits sum.splits)
  have m: "world_moves w w'" using table_moves(2) [OF g] .
  show "world_moves w w' \<and> (world_valid w \<and> tbl_lacks rts w tbl \<longrightarrow> tbl_lacks rts w' tbl')"
  proof (intro conjI impI m)
    assume w: "world_valid w \<and> tbl_lacks rts w tbl"
    from c show "tbl_lacks rts w' tbl'"
    proof
      assume "\<exists>h. g = Ok h \<and> tbl' = tbl @ [(fd, h)]"
      then obtain h where h: "g = Ok h" "tbl' = tbl @ [(fd, h)]" by blast
      have "lacks rts w' h" using grant_lacks [of parent req w h w' rts] g h assms w by (simp add: world_valid_def)
      then show ?thesis using h tbl_lacks_later [OF conjunct2 [OF w] m] by (auto simp: tbl_lacks_def)
    qed (use tbl_lacks_later [OF conjunct2 [OF w] m] in auto)
  qed
qed

lemma grant_fd_push_grant:
  "grant_fd_in_table fd parent req tbl w =
     (if list_ex (\<lambda>(f, _). f = fd) tbl then Some (Err AlreadyExists, tbl, w) else push_grant fd parent req tbl w)"
  by (simp add: grant_fd_in_table_def push_grant_def)

lemma grant_fd_safe [intro]: "\<not> rights_contains req rts \<Longrightarrow> tbl_safe rts (grant_fd_in_table fd parent req)"
  using push_grant_safe [of req rts fd parent] by (auto simp: tbl_safe_def grant_fd_push_grant)

text \<open>Operations in sequence, the second only after a success of the first.\<close>

lemma tbl_safe_seq:
  assumes "tbl_safe rts f" and "\<And>x. tbl_safe rts (g x)"
  shows "tbl_safe rts (\<lambda>tbl w. do {
    (r, tbl1, w1) \<leftarrow> f tbl w;
    case r of Inl e \<Rightarrow> Some (Err e, tbl1, w1) | Inr x \<Rightarrow> g x tbl1 w1 })" (is "tbl_safe rts ?h")
proof (unfold tbl_safe_def, intro allI impI)
  fix tbl w r tbl' w' assume h: "?h tbl w = Some (r, tbl', w')"
  obtain c tbl1 w1 where f: "f tbl w = Some (c, tbl1, w1)"
    and c: "(\<exists>e. c = Err e \<and> (tbl', w') = (tbl1, w1)) \<or> (\<exists>x. c = Ok x \<and> g x tbl1 w1 = Some (r, tbl', w'))"
    using h by (auto split: bind_splits sum.splits)
  note first = tbl_safeD [OF assms(1) f]
  from c show "world_moves w w' \<and> (world_valid w \<and> tbl_lacks rts w tbl \<longrightarrow> tbl_lacks rts w' tbl')"
  proof
    assume "\<exists>x. c = Ok x \<and> g x tbl1 w1 = Some (r, tbl', w')"
    then obtain x where g: "g x tbl1 w1 = Some (r, tbl', w')" by blast
    show ?thesis using first tbl_safeD [OF assms(2) g] world_valid_later [OF _ first(1)]
      by (auto intro: world_moves_trans)
  qed (use first in auto)
qed

lemma push_grants_safe [intro]: "\<not> rights_contains req rts \<Longrightarrow> tbl_safe rts (push_grants fds parent req)"
proof (induction fds)
  case (Cons fd fds)
  have "push_grants (fd # fds) parent req = (\<lambda>tbl w. do {
      (r, tbl1, w1) \<leftarrow> push_grant fd parent req tbl w;
      case r of Inl e \<Rightarrow> Some (Err e, tbl1, w1) | Inr x \<Rightarrow> push_grants fds parent req tbl1 w1 })"
    by (intro ext) simp
  then show ?case using tbl_safe_seq [OF push_grant_safe [OF Cons.prems] Cons.IH [OF Cons.prems]] by simp
qed (simp add: tbl_safe_def)

lemma create_then_safe:
  assumes "\<And>h. tbl_safe rts (g h)"
  shows "tbl_safe rts (\<lambda>tbl w. do {
    (r, w1) \<leftarrow> with_state (create_object kind) w;
    case r of Inl e \<Rightarrow> Some (Err e, tbl, w1) | Inr h \<Rightarrow> g h tbl w1 })" (is "tbl_safe rts ?h")
proof -
  have "tbl_safe rts (\<lambda>tbl w. do { (r, w1) \<leftarrow> with_state (create_object kind) w; Some (r, tbl, w1) })"
    by (auto simp: tbl_safe_def split: bind_splits dest!: table_moves(1) intro: tbl_lacks_later)
  note safe = tbl_safe_seq [OF this, of g]
  have "?h = (\<lambda>tbl w. do {
      (r, tbl1, w1) \<leftarrow> do { (r, w1) \<leftarrow> with_state (create_object kind) w; Some (r, tbl, w1) };
      case r of Inl e \<Rightarrow> Some (Err e, tbl1, w1) | Inr h \<Rightarrow> g h tbl1 w1 })"
    by (intro ext) (auto split: bind_splits prod.splits)
  then show ?thesis using safe assms by simp
qed

lemma seed_safe:
  assumes "\<not> rights_contains 3 rts" and "\<not> rights_contains 256 rts"
  shows "tbl_safe rts seed_new_process"
proof -
  have "tbl_safe rts seed_stdio"
    using create_then_safe [OF push_grants_safe [OF assms(1)]] by (simp add: seed_stdio_def [abs_def])
  moreover have "tbl_safe rts seed_process_exec"
    using create_then_safe [OF push_grant_safe [OF assms(2)]] by (simp add: seed_process_exec_def [abs_def])
  ultimately show ?thesis unfolding seed_new_process_def [abs_def] by (rule tbl_safe_seq)
qed

lemma close_fd_safe [intro]: "tbl_safe rts (close_fd_in_table fd)"
proof (unfold tbl_safe_def, intro allI impI)
  fix tbl w r tbl' w' assume f: "close_fd_in_table fd tbl w = Some (r, tbl', w')"
  have "world_moves w w' \<and> (\<forall>x \<in> set tbl'. x \<in> set tbl)"
    using f by (auto simp: close_fd_in_table_def split: bind_splits option.splits dest!: table_moves(3) set_list_remove [THEN subsetD])
  then show "world_moves w w' \<and> (world_valid w \<and> tbl_lacks rts w tbl \<longrightarrow> tbl_lacks rts w' tbl')"
    using lacks_later by (fastforce simp: tbl_lacks_def)
qed

text \<open>The same for the tables of all processes.\<close>

definition caps_lack :: "rights \<Rightarrow> kernel \<Rightarrow> cap_world \<Rightarrow> bool" where
  "caps_lack rts k w \<longleftrightarrow> world_valid w \<and> (\<forall>pid tbl. cap_table_of pid k = Some tbl \<longrightarrow> tbl_lacks rts w tbl)"

lemma cap_table_of_upd:
  "cap_table_of j (upd_k i (\<lambda>p. p\<lparr>cap_table := tbl\<rparr>) k) =
     (if j = i then map_option (\<lambda>_. tbl) (cap_table_of j k) else cap_table_of j k)"
  by (auto simp: cap_table_of_def map_of_upd option.map_comp comp_def)

lemma caps_lack_later: "caps_lack rts k w \<Longrightarrow> world_moves w w' \<Longrightarrow> caps_lack rts k w'"
  by (auto simp: caps_lack_def intro: world_valid_later tbl_lacks_later)

lemma with_cap_table_lack:
  assumes "with_cap_table pid f k w = Some (x, k', w')" and "tbl_safe rts f" and "caps_lack rts k w"
  shows "caps_lack rts k' w'"
proof (cases "bt_get (ktable k) pid")
  case (Some p)
  with assms(1) obtain c tbl where f: "f (cap_table p) w = Some (c, tbl, w')"
    and k': "k' = upd_k pid (\<lambda>p. p\<lparr>cap_table := tbl\<rparr>) k"
    by (auto simp: with_cap_table_def split: bind_splits)
  have "world_valid w" "tbl_lacks rts w (cap_table p)" using assms(3) Some by (auto simp: caps_lack_def cap_table_of_def)
  note f' = tbl_safeD(1) [OF assms(2) f] tbl_safeD(2) [OF assms(2) f this]
  show ?thesis using caps_lack_later [OF assms(3) f'(1)] f'(2) by (auto simp: caps_lack_def k' cap_table_of_upd)
qed (use assms in \<open>simp add: with_cap_table_def\<close>)

lemma add_fd_lack:
  assumes "add_fd_to_current pid fd cap req k w = Some (r, k', w')" and "\<not> rights_contains req rts" and "caps_lack rts k w"
  shows "caps_lack rts k' w'"
  using assms with_cap_table_lack [OF _ grant_fd_safe] by (auto simp: add_fd_to_current_def split: bind_splits)

lemma remove_fd_lack:
  assumes "remove_fd_from_current pid fd k w = Some (r, k', w')" and "caps_lack rts k w"
  shows "caps_lack rts k' w'"
  using assms with_cap_table_lack [OF _ close_fd_safe] by (auto simp: remove_fd_from_current_def split: bind_splits)

lemma provision_fd_lack:
  assumes "provision_fd pid fd req k w = Some (k', w')" and "\<not> rights_contains req rts" and "caps_lack rts k w"
  shows "caps_lack rts k' w'"
proof -
  obtain r w1 where c: "with_state (create_object KFd) w = Some (r, w1)"
    using assms(1) by (auto simp: provision_fd_def split: bind_splits)
  note l = caps_lack_later [OF assms(3) table_moves(1) [OF c]]
  show ?thesis using assms(1) c l add_fd_lack [OF _ assms(2)]
    by (auto simp: provision_fd_def split: bind_splits sum.splits)
qed

lemma caps_lack_check:
  assumes "caps_lack rts k w"
  obtains e where "check_fd_access pid fd rts k w = Some (Err e)"
proof (cases "cap_table_of pid k")
  case (Some tbl)
  then have "tbl_lacks rts w tbl" using assms by (simp add: caps_lack_def)
  then obtain e where "check_fd_access_in_table tbl fd rts w = Some (Err e)" by (rule tbl_lacks_check)
  then show thesis using that Some by (simp add: check_fd_access_def)
qed (use that in \<open>simp add: check_fd_access_def\<close>)

subsection \<open>What a new process may do\<close>

text \<open>\<open>carries w h rts\<close>: the handle is alive and carries exactly the rights \<open>rts\<close>.\<close>

definition carries :: "cap_world \<Rightarrow> cap_handle \<Rightarrow> rights \<Rightarrow> bool" where
  "carries w h rts \<longleftrightarrow> (\<exists>s c. w_state w = Some s \<and> cap_ok s \<and> handle_slot s h = Some c \<and> s_rights c = rts \<and>
     \<not> revoked (nodes s) (s_node c) \<and> o_valid (objects s ! s_object c))"

definition extends :: "core_state \<Rightarrow> core_state \<Rightarrow> bool" where
  "extends s t \<longleftrightarrow> cap_ok t \<and> (\<exists>ns os. nodes t = nodes s @ ns \<and> objects t = objects s @ os) \<and>
     (\<forall>h x. handle_slot s h = Some x \<longrightarrow> handle_slot t h = Some x)"

lemma carries_check:
  assumes "carries w h rts"
  shows "read_state (check_rights h needed) w = Some (Ok ()) \<longleftrightarrow> rights_contains rts needed"
  using assms by (auto simp: carries_def read_state_def check_rights_Ok)

lemma carries_extends:
  assumes "carries w h rts" and "w_state w = Some s" and "extends s t"
  shows "carries (w\<lparr>w_state := Some t\<rparr>) h rts"
proof -
  from assms obtain c where c: "cap_ok s" "handle_slot s h = Some c" "s_rights c = rts"
    "\<not> revoked (nodes s) (s_node c)" "o_valid (objects s ! s_object c)"
    by (auto simp: carries_def)
  have b: "s_node c < length (nodes s)" "s_object c < length (objects s)" "wf_nodes (nodes s)"
    using handle_slot_ok [OF c(1,2)] c(1) by (auto simp: cap_ok_def)
  show ?thesis using assms(3) b c by (auto simp: carries_def extends_def revoked_append nth_append)
qed

lemma grant_carries:
  assumes "carries w p rp" and "with_state (grant p req) w = Some (Ok h, w')"
  shows "carries w' h req" and "carries w k rk \<Longrightarrow> carries w' k rk"
proof -
  from assms obtain s t where s: "w_state w = Some s" "cap_ok s" "grant p req s = Some (Ok h, t)" "w' = w\<lparr>w_state := Some t\<rparr>"
    by (auto simp: carries_def with_state_Some)
  obtain pc c where c: "handle_slot s p = Some pc" "handle_slot t h = Some c" "s_rights c = req" "s_object c = s_object pc"
    "\<not> revoked (nodes t) (s_node c)" "objects t = objects s" "\<And>h' x. handle_slot s h' = Some x \<Longrightarrow> handle_slot t h' = Some x"
    using grant_Ok [OF s(2,3)] by metis
  have t: "cap_ok t" using grant_moves [OF s(3)] s(2) by (simp add: moves_def)
  have "\<exists>ns. nodes t = nodes s @ ns"
    using s(3) by (auto simp: grant_def split: bind_splits sum.splits dest: install_cap_Ok(1))
  then have "extends s t" using t c by (auto simp: extends_def)
  then show "carries w k rk \<Longrightarrow> carries w' k rk" using carries_extends s by blast
  show "carries w' h req" using assms(1) s c t by (auto simp: carries_def)
qed

lemma create_carries:
  assumes "with_state (create_object kind) w = Some (Ok h, w')" and "world_valid w"
  shows "carries w' h rights_all" and "carries w k rk \<Longrightarrow> carries w' k rk"
proof -
  from assms obtain s t where s: "w_state w = Some s" "cap_ok s" "create_object kind s = Some (Ok h, t)" "w' = w\<lparr>w_state := Some t\<rparr>"
    by (auto simp: world_valid_def with_state_Some)
  let ?s1 = "s\<lparr>objects := objects s @ [\<lparr>o_kind = kind, o_refcount = 0, o_gen = 1, o_valid = True\<rparr>]\<rparr>"
  have i: "install_cap None (length (objects s)) rights_all False ?s1 = (Ok h, t)"
    using s(3) by (auto simp: create_object_def split: if_splits)
  note i_Ok = install_cap_Ok [OF i]
  have t: "cap_ok t" using create_object_moves [OF s(3)] s(2) by (simp add: moves_def)
  have live: "handle_slot t h' = Some x" if "handle_slot s h' = Some x" for h' x
  proof -
    have "handle_slot ?s1 h' = handle_slot s h'" by (simp add: handle_slot_def)
    then show ?thesis using install_cap_other [OF i, of h' x] that by simp
  qed
  then have "extends s t" using t i_Ok(1,2) by (auto simp: extends_def)
  then show "carries w k rk \<Longrightarrow> carries w' k rk" using carries_extends s by blast
  have "\<not> revoked (nodes t) (length (nodes s))"
    by (subst revoked_rec) (use t i_Ok(1) in \<open>auto simp: cap_ok_def\<close>)
  then show "carries w' h rights_all" using s(4) t i_Ok(2,3) by (auto simp: carries_def)
qed

text \<open>The table as a list of descriptors with the rights their handles hold.\<close>

definition tbl_carries :: "cap_world \<Rightarrow> cap_tbl \<Rightarrow> (nat \<times> rights) list \<Rightarrow> bool" where
  "tbl_carries w tbl spec \<longleftrightarrow> list_all2 (\<lambda>(f, h) (f', r). f = f' \<and> carries w h r) tbl spec"

lemma tbl_carries_check:
  assumes "tbl_carries w tbl spec"
  shows "check_fd_access_in_table tbl fd needed w = Some (Ok ()) \<longleftrightarrow>
    (case map_of spec fd of None \<Rightarrow> False | Some r \<Rightarrow> rights_contains r needed)"
  using assms unfolding tbl_carries_def
  by (induction rule: list_all2_induct) (auto simp: check_fd_access_in_table_def carries_check split: prod.splits)

lemma carries_check_returns:
  assumes "carries w h rts"
  shows "read_state (check_rights h needed) w \<noteq> None"
  using assms check_rights_returns by (fastforce simp: carries_def read_state_def)

lemma tbl_carries_exec:
  assumes "tbl_carries w tbl spec" and "\<exists>r \<in> snd ` set spec. rights_contains r 256"
  shows "check_process_exec_in_table tbl w = Some (Ok ())"
  using assms unfolding tbl_carries_def
proof (induction rule: list_all2_induct)
  case (Cons x xs y ys)
  obtain h where h: "x = (fst x, h)" "carries w h (snd y)" using Cons.hyps by (cases x) (auto split: prod.splits)
  obtain c where c: "read_state (check_rights h 256) w = Some c" using carries_check_returns [OF h(2)] by blast
  have "is_ok c \<longleftrightarrow> rights_contains (snd y) 256" using carries_check [OF h(2), of 256] c by (cases c) (auto simp: is_ok_def)
  then show ?case using Cons c by (subst h(1)) auto
qed simp

lemma tbl_carries_mono:
  assumes "tbl_carries w tbl spec" and "\<And>h r. carries w h r \<Longrightarrow> carries w' h r"
  shows "tbl_carries w' tbl spec"
  using assms(1) unfolding tbl_carries_def by (rule list_all2_mono) (auto intro: assms(2))

lemma push_grant_carries:
  assumes "push_grant fd p req tbl w = Some (Ok (), tbl', w')" and "carries w p rp" and "tbl_carries w tbl spec"
  shows "tbl_carries w' tbl' (spec @ [(fd, req)])" and "carries w' p rp"
proof -
  obtain h where h: "with_state (grant p req) w = Some (Ok h, w')" "tbl' = tbl @ [(fd, h)]"
    using assms(1) by (auto simp: push_grant_def split: bind_splits sum.splits)
  note g = grant_carries [OF assms(2) h(1)]
  show "carries w' p rp" using g(2) assms(2) .
  show "tbl_carries w' tbl' (spec @ [(fd, req)])"
    using tbl_carries_mono [OF assms(3) g(2)] g(1) h(2) by (simp add: tbl_carries_def list_all2_appendI)
qed

lemma push_grants_carries:
  assumes "push_grants fds p req tbl w = Some (Ok (), tbl', w')" and "carries w p rp" and "tbl_carries w tbl spec"
  shows "tbl_carries w' tbl' (spec @ map (\<lambda>fd. (fd, req)) fds)"
  using assms
proof (induction fds arbitrary: tbl w spec)
  case (Cons fd fds)
  then obtain tbl1 w1 where f: "push_grant fd p req tbl w = Some (Ok (), tbl1, w1)"
    and r: "push_grants fds p req tbl1 w1 = Some (Ok (), tbl', w')"
    by (auto split: bind_splits sum.splits)
  show ?case using Cons.IH [OF r] push_grant_carries [OF f Cons.prems(2,3)] by fastforce
qed simp

text \<open>
  A process that starts with an empty table and whose seeding succeeds may read and write the descriptors 0, 1
  and 2 and may execute through the descriptor \<^verbatim>\<open>u32::MAX\<close>; every other access is refused.
\<close>

theorem seeded_process_rights:
  assumes "world_valid w" and "seed_new_process [] w = Some (Ok (), tbl, w')"
  shows "(\<forall>fd needed. check_fd_access_in_table tbl fd needed w' = Some (Ok ()) \<longleftrightarrow>
      fd \<in> {0, 1, 2} \<and> rights_contains 3 needed \<or> fd = U32_MAX \<and> rights_contains 256 needed) \<and>
    check_process_exec_in_table tbl w' = Some (Ok ())"
proof -
  obtain c1 w1 tbl1 w2 c2 w3 where
    c1: "with_state (create_object KFd) w = Some (Ok c1, w1)" and
    p1: "push_grants [0, 1, 2] c1 3 [] w1 = Some (Ok (), tbl1, w2)" and
    c2: "with_state (create_object KProcess) w2 = Some (Ok c2, w3)" and
    p2: "push_grant U32_MAX c2 256 tbl1 w3 = Some (Ok (), tbl, w')"
    using assms(2) by (auto simp: seed_new_process_def seed_stdio_def seed_process_exec_def split: bind_splits sum.splits)
  have v2: "world_valid w2"
  proof -
    have "tbl_safe rights_all (push_grants [0, 1, 2] c1 3)"
      by (rule push_grants_safe) (simp add: rights_contains_def rights_all_def)
    from tbl_safeD(1) [OF this p1] table_moves(1) [OF c1] show ?thesis
      using world_valid_later [OF assms(1)] world_moves_trans by blast
  qed
  have "tbl_carries w2 tbl1 [(0, 3), (1, 3), (2, 3)]"
    using push_grants_carries [OF p1 create_carries(1) [OF c1 assms(1)], of "[]"] by (simp add: tbl_carries_def)
  from tbl_carries_mono [OF this create_carries(2) [OF c2 v2]]
  have "tbl_carries w3 tbl1 [(0, 3), (1, 3), (2, 3)]" by blast
  from push_grant_carries(1) [OF p2 create_carries(1) [OF c2 v2] this]
  have t: "tbl_carries w' tbl [(0, 3), (1, 3), (2, 3), (U32_MAX, 256)]" by simp
  have "check_process_exec_in_table tbl w' = Some (Ok ())"
    by (rule tbl_carries_exec [OF t]) (simp add: rights_contains_def)
  then show ?thesis using tbl_carries_check [OF t] by (auto simp: U32_MAX_def)
qed

text \<open>The world after \<^verbatim>\<open>cap::init\<close> and the first process: one object for the three streams, one for the process.\<close>

abbreviation init_world :: cap_world where
  "init_world \<equiv> empty_world\<lparr>w_state := Some init_core\<rparr>"

definition seed_slot :: "nat \<Rightarrow> nat \<Rightarrow> rights \<Rightarrow> cap_slot" where
  "seed_slot node obj rts = \<lparr>s_node = node, s_object = obj, s_rights = rts, s_gen = 1, s_free = False, s_lent = False\<rparr>"

definition seed_node :: "nat option \<Rightarrow> cap_node" where
  "seed_node par = \<lparr>n_parent = par, n_epoch = 0\<rparr>"

definition seed_object :: "object_kind \<Rightarrow> cap_object" where
  "seed_object kind = \<lparr>o_kind = kind, o_refcount = 0, o_gen = 1, o_valid = True\<rparr>"

definition stdio_core :: core_state where
  "stdio_core = \<lparr>slots = seed_slot 0 0 rights_all # map (\<lambda>n. seed_slot n 0 3) [1, 2, 3],
     nodes = map seed_node [None, Some 0, Some 0, Some 0], objects = [seed_object KFd]\<rparr>"

definition exec_core :: core_state where
  "exec_core = \<lparr>slots = slots stdio_core @ [seed_slot 4 1 rights_all],
     nodes = nodes stdio_core @ [seed_node None], objects = objects stdio_core @ [seed_object KProcess]\<rparr>"

definition seeded_core :: core_state where
  "seeded_core = \<lparr>slots = slots exec_core @ [seed_slot 5 1 256],
     nodes = nodes exec_core @ [seed_node (Some 4)], objects = objects exec_core\<rparr>"

definition seeded_world :: cap_world where "seeded_world = empty_world\<lparr>w_state := Some seeded_core\<rparr>"

definition stdio_tbl :: cap_tbl where "stdio_tbl = map (\<lambda>n. (n, handle (Suc n) 1)) [0, 1, 2]"

definition seeded_tbl :: cap_tbl where "seeded_tbl = stdio_tbl @ [(U32_MAX, handle 5 1)]"

lemma seed_steps:
  "seed_stdio [] init_world = Some (Ok (), stdio_tbl, empty_world\<lparr>w_state := Some stdio_core\<rparr>)"
  "with_state (create_object KProcess) (empty_world\<lparr>w_state := Some stdio_core\<rparr>) =
     Some (Ok (handle 4 1), empty_world\<lparr>w_state := Some exec_core\<rparr>)"
  "with_state (grant (handle 4 1) 256) (empty_world\<lparr>w_state := Some exec_core\<rparr>) = Some (Ok (handle 5 1), seeded_world)"
  by code_simp+

lemma seeded_world_eq: "seed_new_process [] init_world = Some (Ok (), seeded_tbl, seeded_world)"
  by (simp add: seed_new_process_def seed_steps seed_process_exec_def push_grant_def seeded_tbl_def del: One_nat_def)

lemma init_world_valid: "world_valid init_world"
  by (simp add: world_valid_def)

theorem seeded_process_rights_witness:
  "check_fd_access_in_table seeded_tbl 1 2 seeded_world = Some (Ok ()) \<and>
   check_fd_access_in_table seeded_tbl 1 128 seeded_world \<noteq> Some (Ok ())"
  using seeded_process_rights [OF init_world_valid seeded_world_eq] by (simp add: rights_contains_def U32_MAX_def)

end
