(* ===== verification/User_Memory.thy ===== *)
theory User_Memory
  imports Spark_Prelude "HOL-Library.Word" "HOL-Library.Monad_Syntax"
begin

section \<open>Pointers from user space\<close>

text \<open>
  The pointer checks of \<^verbatim>\<open>kernel/src/sec_mem.rs\<close> and the range test of \<^verbatim>\<open>kernel/src/memory.rs\<close>: a system call accepts
  a buffer only when it lies in the user half and every page of it is mapped for user mode. A page-table entry is what
  the paging crate reports of it (four flags and the frame's address); the tables in physical memory are the function
  \<open>entries\<close>, which reads entry \<open>i\<close> of the table at a physical address. The theorem compares the walk with the access
  rule of the processor.
\<close>

definition USER_ADDR_LIMIT :: nat where "USER_ADDR_LIMIT = 0x80000000"
definition USER_ADDR_BASE :: nat where "USER_ADDR_BASE = 0x40000000"

lemmas user_limits = USER_ADDR_LIMIT_def USER_ADDR_BASE_def

unbundle bit_operations_syntax

definition is_canonical :: "64 word \<Rightarrow> bool" where
  "is_canonical addr \<longleftrightarrow> signed_drop_bit 16 (push_bit 16 addr) = addr"

definition is_user_range :: "64 word \<Rightarrow> nat \<Rightarrow> bool" where
  "is_user_range ptr len =
     (if ptr = 0 then False
      else if \<not> is_canonical ptr then False
      else if USER_ADDR_LIMIT \<le> unat ptr then False
      else case checked_add 64 (unat ptr) len of
        None \<Rightarrow> False
      | Some e \<Rightarrow> e \<le> USER_ADDR_LIMIT)"

subsection \<open>The walk through the page tables\<close>

record pte =
  present :: bool
  writable :: bool
  user_accessible :: bool
  huge_page :: bool
  pte_addr :: nat

type_synonym page_tables = "nat \<Rightarrow> nat \<Rightarrow> pte"

text \<open>The indices of a page number: nine bits per level.\<close>

definition p1_index :: "nat \<Rightarrow> nat" where "p1_index page = page mod 512"
definition p2_index :: "nat \<Rightarrow> nat" where "p2_index page = page div 512 mod 512"
definition p3_index :: "nat \<Rightarrow> nat" where "p3_index page = page div 512 ^ 2 mod 512"
definition p4_index :: "nat \<Rightarrow> nat" where "p4_index page = page div 512 ^ 3 mod 512"

text \<open>\<open>cr3\<close> is the address \<^verbatim>\<open>active_l4\<close> reads from the register.\<close>

definition walk_page :: "page_tables \<Rightarrow> nat \<Rightarrow> nat \<Rightarrow> pte option" where
  "walk_page entries cr3 page =
     (let p4 = entries cr3 (p4_index page) in
      if \<not> (present p4 \<and> user_accessible p4) then None
      else let p3e = entries (pte_addr p4) (p3_index page) in
      if \<not> (present p3e \<and> user_accessible p3e) \<or> huge_page p3e then None
      else let p2e = entries (pte_addr p3e) (p2_index page) in
      if \<not> (present p2e \<and> user_accessible p2e) \<or> huge_page p2e then None
      else let p1e = entries (pte_addr p2e) (p1_index page) in
      if \<not> present p1e then None
      else if \<not> writable p4 \<or> \<not> writable p3e \<or> \<not> writable p2e then Some (p1e\<lparr>writable := False\<rparr>)
      else Some p1e)"

definition page_is_user_accessible :: "page_tables \<Rightarrow> nat \<Rightarrow> nat \<Rightarrow> bool" where
  "page_is_user_accessible entries cr3 page =
     (case walk_page entries cr3 page of None \<Rightarrow> False | Some f \<Rightarrow> user_accessible f)"

definition page_is_user_writable :: "page_tables \<Rightarrow> nat \<Rightarrow> nat \<Rightarrow> bool" where
  "page_is_user_writable entries cr3 page =
     (case walk_page entries cr3 page of None \<Rightarrow> False | Some f \<Rightarrow> writable f \<and> user_accessible f)"

subsection \<open>The checks\<close>

definition containing_page :: "nat \<Rightarrow> nat" where "containing_page a = a div 4096"

definition check_user_range :: "page_tables \<Rightarrow> nat \<Rightarrow> nat \<Rightarrow> nat \<Rightarrow> (string, unit) result" where
  "check_user_range entries cr3 ptr len =
     (if ptr = 0 then Err ''null pointer''
      else if ptr < USER_ADDR_BASE \<or> USER_ADDR_LIMIT \<le> ptr then Err ''address outside user space''
      else case checked_add 64 ptr len of
        None \<Rightarrow> Err ''address range overflow''
      | Some e \<Rightarrow>
          if USER_ADDR_LIMIT < e then Err ''address range outside user space''
          else if list_all (page_is_user_accessible entries cr3) [containing_page ptr..<Suc (containing_page (e - 1))]
          then Ok () else Err ''page not user-accessible'')"

text \<open>A success is the range of addresses that the returned slice covers.\<close>

definition validate_user_ptr :: "page_tables \<Rightarrow> nat \<Rightarrow> nat \<Rightarrow> nat \<Rightarrow> (string, nat list) result" where
  "validate_user_ptr entries cr3 buf_ptr len =
     (if len = 0 then Ok []
      else case check_user_range entries cr3 buf_ptr len of
        Inl e \<Rightarrow> Err e
      | Inr _ \<Rightarrow> Ok [buf_ptr..<buf_ptr + len])"

definition validate_user_ptr_mut :: "page_tables \<Rightarrow> nat \<Rightarrow> nat \<Rightarrow> nat \<Rightarrow> (string, nat list) result" where
  "validate_user_ptr_mut entries cr3 buf_ptr len =
     (if len = 0 then Ok []
      else case check_user_range entries cr3 buf_ptr len of
        Inl e \<Rightarrow> Err e
      | Inr _ \<Rightarrow>
          if list_all (page_is_user_writable entries cr3)
               [containing_page buf_ptr..<Suc (containing_page (buf_ptr + len - 1))]
          then Ok [buf_ptr..<buf_ptr + len] else Err ''page not user-writable'')"

subsection \<open>What the processor allows\<close>

text \<open>
  The access rule of the processor for user mode, level by level: every entry on the way is present and
  user-accessible, and writable for a store. The way ends at the entry of the last level, or earlier at a huge page of the
  third or second level. \<open>small_page\<close> says that it does not end early.
\<close>

fun way_allows :: "page_tables \<Rightarrow> bool \<Rightarrow> nat list \<Rightarrow> nat \<Rightarrow> bool" where
  "way_allows entries store [] tbl \<longleftrightarrow> True"
| "way_allows entries store (i # is) tbl \<longleftrightarrow>
     (let e = entries tbl i in
      present e \<and> user_accessible e \<and> (store \<longrightarrow> writable e) \<and>
      (length is \<in> {1, 2} \<and> huge_page e \<or> way_allows entries store is (pte_addr e)))"

fun way_small :: "page_tables \<Rightarrow> nat list \<Rightarrow> nat \<Rightarrow> bool" where
  "way_small entries [] tbl \<longleftrightarrow> True"
| "way_small entries (i # is) tbl \<longleftrightarrow>
     (let e = entries tbl i in \<not> (length is \<in> {1, 2} \<and> huge_page e) \<and> way_small entries is (pte_addr e))"

definition table_way :: "nat \<Rightarrow> nat list" where
  "table_way a = (let page = a div 4096 in [p4_index page, p3_index page, p2_index page, p1_index page])"

definition user_may :: "page_tables \<Rightarrow> nat \<Rightarrow> bool \<Rightarrow> nat \<Rightarrow> bool" where
  "user_may entries cr3 store a \<longleftrightarrow> way_allows entries store (table_way a) cr3"

definition small_page :: "page_tables \<Rightarrow> nat \<Rightarrow> nat \<Rightarrow> bool" where
  "small_page entries cr3 a \<longleftrightarrow> way_small entries (table_way a) cr3"

definition in_user_space :: "nat \<Rightarrow> bool" where
  "in_user_space a \<longleftrightarrow> USER_ADDR_BASE \<le> a \<and> a < USER_ADDR_LIMIT"

lemma walk_matches_processor:
  "page_is_user_accessible entries cr3 (a div 4096) \<longleftrightarrow> user_may entries cr3 False a \<and> small_page entries cr3 a"
  "page_is_user_writable entries cr3 (a div 4096) \<longleftrightarrow> user_may entries cr3 True a \<and> small_page entries cr3 a"
  by (auto simp: page_is_user_accessible_def page_is_user_writable_def walk_page_def user_may_def small_page_def table_way_def Let_def)

lemma store_implies_load: "user_may entries cr3 True a \<Longrightarrow> user_may entries cr3 False a"
  by (auto simp: user_may_def table_way_def Let_def)

text \<open>Testing every page between the first and the last is testing every byte.\<close>

lemma all_pages_all_bytes:
  assumes "0 < len"
  shows "list_all P [containing_page ptr..<Suc (containing_page (ptr + len - 1))] \<longleftrightarrow>
    (\<forall>a. ptr \<le> a \<and> a < ptr + len \<longrightarrow> P (a div 4096))" (is "?L \<longleftrightarrow> ?R")
proof
  assume L: ?L
  show ?R
  proof (intro allI impI)
    fix a assume "ptr \<le> a \<and> a < ptr + len"
    then have "ptr div 4096 \<le> a div 4096" "a div 4096 \<le> (ptr + len - 1) div 4096" by (auto intro: div_le_mono)
    then show "P (a div 4096)" using L by (simp add: list_all_iff containing_page_def less_Suc_eq_le del: upt_Suc)
  qed
next
  assume R: ?R
  have "P g" if "ptr div 4096 \<le> g" "g \<le> (ptr + len - 1) div 4096" for g
  proof -
    have "P (max ptr (g * 4096) div 4096)"
    proof -
      have "g * 4096 \<le> ptr + len - 1" using that(2) by (simp add: less_eq_div_iff_mult_less_eq)
      then show ?thesis using R assms by auto
    qed
    moreover have "max ptr (g * 4096) div 4096 = g"
      using that(1) div_le_mono [of "g * 4096" ptr 4096] by (auto simp: max_def)
    ultimately show ?thesis by simp
  qed
  then show ?L by (simp add: list_all_iff containing_page_def less_Suc_eq_le del: upt_Suc)
qed

lemma range_in_user_space:
  assumes "0 < len"
  shows "(\<forall>a. ptr \<le> a \<and> a < ptr + len \<longrightarrow> in_user_space a) \<longleftrightarrow>
    USER_ADDR_BASE \<le> ptr \<and> ptr + len \<le> USER_ADDR_LIMIT" (is "?L \<longleftrightarrow> ?R")
proof
  assume L: ?L
  have "in_user_space ptr" "in_user_space (ptr + len - 1)" using L assms by auto
  then show ?R by (auto simp: in_user_space_def)
qed (auto simp: in_user_space_def)

lemma check_user_range_Ok:
  assumes "0 < len"
  shows "check_user_range entries cr3 ptr len = Ok () \<longleftrightarrow>
    (\<forall>a. ptr \<le> a \<and> a < ptr + len \<longrightarrow> in_user_space a \<and> user_may entries cr3 False a \<and> small_page entries cr3 a)"
proof -
  have "check_user_range entries cr3 ptr len = Ok () \<longleftrightarrow>
      USER_ADDR_BASE \<le> ptr \<and> ptr + len \<le> USER_ADDR_LIMIT \<and>
      list_all (page_is_user_accessible entries cr3) [containing_page ptr..<Suc (containing_page (ptr + len - 1))]"
    using assms by (auto simp: check_user_range_def checked_add_def user_limits simp del: upt_Suc list_all_iff)
  also have "\<dots> \<longleftrightarrow> (\<forall>a. ptr \<le> a \<and> a < ptr + len \<longrightarrow> in_user_space a) \<and>
      (\<forall>a. ptr \<le> a \<and> a < ptr + len \<longrightarrow> user_may entries cr3 False a \<and> small_page entries cr3 a)"
    by (simp only: all_pages_all_bytes [OF assms] range_in_user_space [OF assms] walk_matches_processor conj_assoc)
  finally show ?thesis by blast
qed

lemma validate_user_ptr_Ok:
  "validate_user_ptr entries cr3 ptr len = Ok as \<longleftrightarrow>
    as = [ptr..<ptr + len] \<and> (\<forall>a \<in> set as. in_user_space a \<and> user_may entries cr3 False a \<and> small_page entries cr3 a)"
proof (cases "len = 0")
  case False
  then have "validate_user_ptr entries cr3 ptr len = Ok as \<longleftrightarrow>
      check_user_range entries cr3 ptr len = Ok () \<and> as = [ptr..<ptr + len]"
    by (auto simp: validate_user_ptr_def split: sum.splits)
  then show ?thesis using False by (auto simp: check_user_range_Ok)
qed (auto simp: validate_user_ptr_def)

lemma validate_user_ptr_mut_Ok:
  "validate_user_ptr_mut entries cr3 ptr len = Ok as \<longleftrightarrow>
    as = [ptr..<ptr + len] \<and> (\<forall>a \<in> set as. in_user_space a \<and> user_may entries cr3 True a \<and> small_page entries cr3 a)"
proof (cases "len = 0")
  case False
  then have "validate_user_ptr_mut entries cr3 ptr len = Ok as \<longleftrightarrow>
      check_user_range entries cr3 ptr len = Ok () \<and> as = [ptr..<ptr + len] \<and>
      list_all (page_is_user_writable entries cr3) [containing_page ptr..<Suc (containing_page (ptr + len - 1))]"
    by (auto simp: validate_user_ptr_mut_def split: sum.splits simp del: upt_Suc list_all_iff)
  also have "\<dots> \<longleftrightarrow> (\<forall>a. ptr \<le> a \<and> a < ptr + len \<longrightarrow> in_user_space a \<and> user_may entries cr3 False a \<and> small_page entries cr3 a) \<and>
      as = [ptr..<ptr + len] \<and> (\<forall>a. ptr \<le> a \<and> a < ptr + len \<longrightarrow> user_may entries cr3 True a \<and> small_page entries cr3 a)"
    using False by (simp only: all_pages_all_bytes check_user_range_Ok walk_matches_processor)
  finally show ?thesis by (auto intro: store_implies_load)
qed (auto simp: validate_user_ptr_mut_def)

text \<open>
  C13. The pointer checks accept exactly the buffers in ordinary pages that the processor would let the user touch: a range is
  accepted for reading (for writing) when every byte of it lies in user space, can be loaded (stored) from user mode
  through the caller's page tables, and is mapped by a 4 KiB page, and the slice that is handed out covers exactly that
  range. So nothing is accepted that the processor would refuse; of what it would allow, the checks refuse huge pages only.
\<close>

theorem user_pointer_checks_exact:
  "(validate_user_ptr entries cr3 ptr len = Ok as \<longleftrightarrow>
     as = [ptr..<ptr + len] \<and> (\<forall>a \<in> set as. in_user_space a \<and> user_may entries cr3 False a \<and> small_page entries cr3 a)) \<and>
   (validate_user_ptr_mut entries cr3 ptr len = Ok as \<longleftrightarrow>
     as = [ptr..<ptr + len] \<and> (\<forall>a \<in> set as. in_user_space a \<and> user_may entries cr3 True a \<and> small_page entries cr3 a))"
  by (rule conjI [OF validate_user_ptr_Ok validate_user_ptr_mut_Ok])

text \<open>Tables that map everything for user mode.\<close>

definition open_pte :: pte where
  "open_pte = \<lparr>present = True, writable = True, user_accessible = True, huge_page = False, pte_addr = 0\<rparr>"

lemma open_pages: "user_may (\<lambda>_ _. open_pte) 0 st a" "small_page (\<lambda>_ _. open_pte) 0 a"
  by (simp_all add: user_may_def small_page_def table_way_def Let_def open_pte_def)

theorem user_pointer_checks_exact_witness:
  "validate_user_ptr_mut (\<lambda>_ _. open_pte) 0 0x40000000 2 = Ok [0x40000000, 0x40000001]"
  using user_pointer_checks_exact [of "\<lambda>_ _. open_pte" 0 "0x40000000" 2 "[0x40000000, 0x40000001]"]
  by (simp add: open_pages in_user_space_def user_limits upt_rec)

text \<open>A huge page that the user may store to is refused.\<close>

theorem huge_pages_refused:
  "user_may (\<lambda>_ _. open_pte\<lparr>huge_page := True\<rparr>) 0 True a \<and>
   (0 < len \<longrightarrow> validate_user_ptr_mut (\<lambda>_ _. open_pte\<lparr>huge_page := True\<rparr>) 0 ptr len \<noteq> Ok as)"
  by (auto simp: validate_user_ptr_mut_Ok user_may_def small_page_def table_way_def Let_def open_pte_def)

text \<open>
  The range test of \<^verbatim>\<open>memory.rs\<close> is weaker than the one of \<^verbatim>\<open>sec_mem.rs\<close>: it accepts addresses below the base of user space.
\<close>

lemma low_bits: "unat addr < 2 ^ n \<Longrightarrow> n \<le> m \<Longrightarrow> \<not> bit addr m" for addr :: "64 word"
proof
  assume small: "unat addr < 2 ^ n" and nm: "n \<le> m" and b: "bit addr m"
  have "bit (unat addr) m" using b by transfer (simp add: bit_take_bit_iff bit_nat_iff)
  then have "2 ^ m \<le> unat addr" by (metis bit_take_bit_iff less_irrefl not_le take_bit_nat_eq_self)
  moreover have "(2::nat) ^ n \<le> 2 ^ m" using nm by simp
  ultimately show False using small by linarith
qed

lemma canonical_low:
  assumes "unat addr < 2 ^ 47"
  shows "is_canonical addr"
proof -
  have "\<not> bit addr m" if "47 \<le> m" for m using low_bits [OF assms that] .
  then show ?thesis unfolding is_canonical_def
    by (intro bit_word_eqI) (auto simp: bit_signed_drop_bit_iff bit_push_bit_iff)
qed

lemma is_user_range_iff:
  "is_user_range ptr len \<longleftrightarrow> ptr \<noteq> 0 \<and> unat ptr < USER_ADDR_LIMIT \<and> unat ptr + len \<le> USER_ADDR_LIMIT"
  using canonical_low [of ptr] by (auto simp: is_user_range_def checked_add_def user_limits)

end
