(* ===== verification/Syscall_Storage.thy ===== *)
theory Syscall_Storage
  imports Fd_Table Cap_Tables User_Memory
begin

section \<open>File system calls\<close>

text \<open>
  The file calls of \<^verbatim>\<open>kernel/src/syscall_storage.rs\<close> and the arms of \<^verbatim>\<open>syscall_dispatcher\<close>
  (\<^verbatim>\<open>kernel/src/syscall.rs\<close>) that reach them: pointers are validated against the page tables of the caller, descriptors
  against its capability table. The state joins the components; the environment of one call holds the caller, its page
  tables, the drive and the numbers that \<^verbatim>\<open>/proc\<close> shows. A call returns the \<^verbatim>\<open>u64\<close> of the source; \<open>None\<close> is a panic.
\<close>

record 'd os =
  os_kern :: kernel
  os_caps :: cap_world
  os_fds :: fd_table
  os_vfs :: "'d vfs"
  os_mem :: "nat \<Rightarrow> byte"
  os_console :: "(nat \<times> string) list"

record 'd env =
  e_pid :: nat
  e_tables :: page_tables
  e_cr3 :: nat
  e_drive :: "'d drive"
  e_stats :: kernel_stats

type_synonym 'd syscall = "'d env \<Rightarrow> 'd os \<Rightarrow> (nat \<times> 'd os) option"

definition MAX_PATH :: nat where "MAX_PATH = 256"

text \<open>Copying into the slice that a validated pointer covers.\<close>

definition write_mem :: "nat \<Rightarrow> byte list \<Rightarrow> (nat \<Rightarrow> byte) \<Rightarrow> nat \<Rightarrow> byte" where
  "write_mem ptr bs m a = (if ptr \<le> a \<and> a < ptr + length bs then bs ! (a - ptr) else m a)"

definition user_bytes :: "'d env \<Rightarrow> 'd os \<Rightarrow> nat \<Rightarrow> nat \<Rightarrow> (string, byte list) result" where
  "user_bytes e s ptr len = map_sum id (map (os_mem s)) (validate_user_ptr (e_tables e) (e_cr3 e) ptr len)"

definition user_bytes_mut :: "'d env \<Rightarrow> 'd os \<Rightarrow> nat \<Rightarrow> nat \<Rightarrow> (string, byte list) result" where
  "user_bytes_mut e s ptr len = map_sum id (map (os_mem s)) (validate_user_ptr_mut (e_tables e) (e_cr3 e) ptr len)"

definition user_strn_len :: "byte list \<Rightarrow> nat \<Rightarrow> (nat, nat) result" where
  "user_strn_len buf mx =
     (let scan = (if length buf < mx then length buf else mx) in
      case position (\<lambda>b. b = 0) (take scan buf) of
        Some i \<Rightarrow> Ok i
      | None \<Rightarrow> Err EFAULT_RET)"

text \<open>The path argument of a call: the error it returns, or the path, which is absent when it is not UTF-8.\<close>

definition user_path :: "'d env \<Rightarrow> 'd os \<Rightarrow> nat \<Rightarrow> (nat, string option) result" where
  "user_path e s path_ptr =
     (case user_bytes e s path_ptr MAX_PATH of
        Inl _ \<Rightarrow> Err EFAULT_RET
      | Inr buf \<Rightarrow>
          (case user_strn_len buf MAX_PATH of
             Inl x \<Rightarrow> Err x
           | Inr len \<Rightarrow> Ok (from_utf8 (take len buf))))"

definition sys_open :: "nat \<Rightarrow> nat \<Rightarrow> 'd syscall" where
  "sys_open path_ptr flags e s =
     (case user_path e s path_ptr of
        Inl x \<Rightarrow> Some (x, s)
      | Inr None \<Rightarrow> Some (U64_MAX, s)
      | Inr (Some path) \<Rightarrow>
          (case fd_open (e_drive e) (e_stats e) path (of_nat flags) (os_fds s) (os_vfs s) of
             (Inl _, fds, v) \<Rightarrow> Some (U64_MAX, s\<lparr>os_fds := fds, os_vfs := v\<rparr>)
           | (Inr fd, fds, v) \<Rightarrow>
               if fd \<noteq> U64_MAX then do {
                 (k1, w1) \<leftarrow> provision_fd (e_pid e) fd 3 (os_kern s) (os_caps s);
                 Some (fd, s\<lparr>os_fds := fds, os_vfs := v, os_kern := k1, os_caps := w1\<rparr>)
               }
               else Some (fd, s\<lparr>os_fds := fds, os_vfs := v\<rparr>)))"

definition sys_read :: "nat \<Rightarrow> nat \<Rightarrow> nat \<Rightarrow> 'd syscall" where
  "sys_read fd buf_ptr len e s =
     (case user_bytes_mut e s buf_ptr len of
        Inl _ \<Rightarrow> Some (EFAULT_RET, s)
      | Inr buf \<Rightarrow> do {
          (r, buf1, fds) \<leftarrow> fd_read (e_stats e) fd buf (os_fds s) (os_vfs s);
          Some (case r of Inl _ \<Rightarrow> U64_MAX | Inr n \<Rightarrow> n,
                s\<lparr>os_fds := fds, os_mem := write_mem buf_ptr buf1 (os_mem s)\<rparr>)
        })"

definition sys_write :: "nat \<Rightarrow> nat \<Rightarrow> nat \<Rightarrow> 'd syscall" where
  "sys_write fd buf_ptr len e s =
     (case user_bytes e s buf_ptr len of
        Inl _ \<Rightarrow> Some (EFAULT_RET, s)
      | Inr buf \<Rightarrow> do {
          (r, fds, v) \<leftarrow> fd_write (e_drive e) fd buf (os_fds s) (os_vfs s);
          Some (case r of Inl _ \<Rightarrow> U64_MAX | Inr n \<Rightarrow> n, s\<lparr>os_fds := fds, os_vfs := v\<rparr>)
        })"

definition sys_close :: "nat \<Rightarrow> 'd syscall" where
  "sys_close fd e s = do {
     (_, k1, w1) \<leftarrow> remove_fd_from_current (e_pid e) (fd mod 2 ^ 32) (os_kern s) (os_caps s);
     case fd_close fd (os_fds s) of
       (r, fds) \<Rightarrow> Some (case r of Inl _ \<Rightarrow> U64_MAX | Inr _ \<Rightarrow> 0, s\<lparr>os_kern := k1, os_caps := w1, os_fds := fds\<rparr>)
   }"

definition sys_lseek :: "nat \<Rightarrow> int \<Rightarrow> nat \<Rightarrow> 'd syscall" where
  "sys_lseek fd offset whence e s = do {
     (r, fds) \<leftarrow> fd_lseek (e_stats e) fd offset (whence mod 2 ^ 32) (os_fds s) (os_vfs s);
     Some (case r of Inl _ \<Rightarrow> U64_MAX | Inr n \<Rightarrow> n, s\<lparr>os_fds := fds\<rparr>)
   }"

definition sys_mkdir :: "nat \<Rightarrow> 'd syscall" where
  "sys_mkdir path_ptr e s =
     (case user_path e s path_ptr of
        Inl x \<Rightarrow> Some (x, s)
      | Inr None \<Rightarrow> Some (U64_MAX, s)
      | Inr (Some path) \<Rightarrow>
          (case mkdir (e_drive e) path (os_vfs s) of
             (r, v) \<Rightarrow> Some (case r of Inl _ \<Rightarrow> U64_MAX | Inr _ \<Rightarrow> 0, s\<lparr>os_vfs := v\<rparr>)))"

record stat_buf =
  st_size :: nat
  st_mode :: nat
  st_ino :: nat
  st_dev :: nat

text \<open>The memory of the \<^verbatim>\<open>repr(C)\<close> structure: 32 bytes, the last twelve of them zero.\<close>

definition stat_bytes :: "stat_buf \<Rightarrow> byte list" where
  "stat_bytes st = le_bytes 8 (st_size st) @ le_bytes 4 (st_mode st) @ le_bytes 4 (st_ino st) @
     le_bytes 4 (st_dev st) @ replicate 12 0"

definition sys_stat :: "nat \<Rightarrow> nat \<Rightarrow> 'd syscall" where
  "sys_stat path_ptr stat_ptr e s =
     (case user_path e s path_ptr of
        Inl x \<Rightarrow> Some (x, s)
      | Inr path_opt \<Rightarrow>
          (case user_bytes_mut e s stat_ptr 32 of
             Inl _ \<Rightarrow> Some (EFAULT_RET, s)
           | Inr _ \<Rightarrow>
               (case path_opt of
                  None \<Rightarrow> Some (U64_MAX, s)
                | Some path \<Rightarrow>
                    if is_dir path (os_vfs s) then
                      Some (0, s\<lparr>os_mem := write_mem stat_ptr (stat_bytes
                        \<lparr>st_size = 4096, st_mode = 0x41ED, st_ino = 1, st_dev = 0\<rparr>) (os_mem s)\<rparr>)
                    else (case get_file_size (e_stats e) path (os_vfs s) of
                            Inl _ \<Rightarrow> Some (U64_MAX, s)
                          | Inr sz \<Rightarrow>
                              Some (0, s\<lparr>os_mem := write_mem stat_ptr (stat_bytes
                                \<lparr>st_size = sz, st_mode = 0x81A4, st_ino = 2, st_dev = 0\<rparr>) (os_mem s)\<rparr>)))))"

subsection \<open>The console\<close>

text \<open>\<^verbatim>\<open>sys_write\<close> of \<^verbatim>\<open>kernel/src/syscall.rs\<close>; the text on the screen is kept with the stream it came through.\<close>

definition sys_write_console :: "nat \<Rightarrow> nat \<Rightarrow> nat \<Rightarrow> 'd syscall" where
  "sys_write_console fd buf_ptr len e s =
     (if fd = 1 \<or> fd = 2 then
        (case user_bytes e s buf_ptr len of
           Inl _ \<Rightarrow> Some (EFAULT_RET, s)
         | Inr bytes \<Rightarrow>
             (case from_utf8 bytes of
                Some str \<Rightarrow> Some (len, s\<lparr>os_console := os_console s @ [(fd, str)]\<rparr>)
              | None \<Rightarrow> Some (U64_MAX, s)))
      else Some (U64_MAX, s))"

subsection \<open>The gates of the dispatcher\<close>

definition gated :: "nat \<Rightarrow> rights \<Rightarrow> 'd syscall \<Rightarrow> 'd syscall" where
  "gated fd needed f e s = do {
     c \<leftarrow> check_fd_access (e_pid e) (fd mod 2 ^ 32) needed (os_kern s) (os_caps s);
     if is_ok c then f e s else Some (EACCES_RET, s)
   }"

datatype file_call =
    Read nat nat nat
  | Open nat nat
  | Close nat
  | Lseek nat nat nat
  | Write nat nat nat
  | Mkdir nat
  | Stat nat nat

text \<open>\<^verbatim>\<open>arg2 as i64\<close>\<close>

fun file_syscall :: "file_call \<Rightarrow> 'd syscall" where
  "file_syscall (Read fd ptr len) = gated fd 1 (sys_read fd ptr len)"
| "file_syscall (Open ptr flags) = sys_open ptr flags"
| "file_syscall (Close fd) = gated fd 128 (sys_close fd)"
| "file_syscall (Lseek fd off whence) = gated fd 1 (sys_lseek fd (as_isize off) whence)"
| "file_syscall (Write fd ptr len) =
     gated fd 2 (if fd = 1 \<or> fd = 2 then sys_write_console fd ptr len else sys_write fd ptr len)"
| "file_syscall (Mkdir ptr) = sys_mkdir ptr"
| "file_syscall (Stat ptr stat_ptr) = sys_stat ptr stat_ptr"

end
