(* ===== verification/Syscall_Ipc.thy ===== *)
theory Syscall_Ipc
  imports Syscall_Storage Ipc
begin

section \<open>IPC system calls\<close>

text \<open>
  The IPC calls of \<^verbatim>\<open>kernel/src/syscall.rs\<close>: the endpoint's number doubles as the descriptor under which the caller
  holds the capability for it. The calls run on the state of \<open>Ipc\<close> and the caller's memory; the caller is a record with
  its CPU, its pid and its page tables. A receive that finds no message parks; \<open>Parked\<close> is the point where the source
  calls \<^verbatim>\<open>schedule\<close>, and the second function is what runs when the process is woken.
\<close>

record caller =
  u_cpu :: nat
  u_tick :: nat
  u_pid :: nat
  u_tables :: page_tables
  u_cr3 :: nat

type_synonym memory = "nat \<Rightarrow> byte"

definition EINVAL_RET :: nat where "EINVAL_RET = 2 ^ 64 - 22"

definition current_is_user_process :: "nat \<Rightarrow> kernel \<Rightarrow> bool" where
  "current_is_user_process cpu k =
     (case current_for_cpu cpu (sched k) of
        None \<Rightarrow> False
      | Some i \<Rightarrow> (case bt_get (ktable k) i of None \<Rightarrow> False | Some p \<Rightarrow> is_user p))"

text \<open>\<^verbatim>\<open>with_cap_table(pid, |t| find_fd_in_table(t, fd as u32))\<close>, flattened.\<close>

definition caller_cap :: "caller \<Rightarrow> nat \<Rightarrow> 'q ipc \<Rightarrow> cap_handle option" where
  "caller_cap u fd st = Option.bind (cap_table_of (u_pid u) (kern st)) (\<lambda>tbl. find_fd_in_table tbl (fd mod 2 ^ 32))"

definition ipc_error_ret :: "cap_error \<Rightarrow> nat" where
  "ipc_error_ret e = (if e = NoRights then EACCES_RET else U64_MAX)"

definition sys_ipc_send ::
    "nat \<Rightarrow> nat \<Rightarrow> nat \<Rightarrow> nat \<Rightarrow> nat \<Rightarrow> caller \<Rightarrow> memory \<Rightarrow> 'q ipc \<Rightarrow> (nat \<times> switch \<times> 'q ipc) option" where
  "sys_ipc_send ep_id buf_ptr len attach_slot mode_val u m st =
     (case caller_cap u ep_id st of
        None \<Rightarrow> Some (EACCES_RET, Stay, st)
      | Some sender_cap \<Rightarrow>
          (case validate_user_ptr (u_tables u) (u_cr3 u) buf_ptr len of
             Inl _ \<Rightarrow> Some (EFAULT_RET, Stay, st)
           | Inr as \<Rightarrow>
               let attached = (if attach_slot \<noteq> 0 then caller_cap u attach_slot st else None);
                   mode = (if mode_val = 1 then ModeTransfer else if mode_val = 2 then ModeLend else ModeNone)
               in do {
                 (r, st1) \<leftarrow> raw_ipc_send (u_cpu u) (u_tick u) (ep_id mod 2 ^ 32) sender_cap (map m as) attached mode st;
                 Some (case r of Inl e \<Rightarrow> (ipc_error_ret e, Stay, st1) | Inr sw \<Rightarrow> (0, sw, st1))
               }))"

subsection \<open>Receiving\<close>

text \<open>\<^verbatim>\<open>if ptr != 0 { if let Ok(s) = validate_user_ptr_mut(ptr, n) { s.copy_from_slice(..) } }\<close>\<close>

definition put_user :: "caller \<Rightarrow> nat \<Rightarrow> byte list \<Rightarrow> memory \<Rightarrow> memory" where
  "put_user u ptr bs m =
     (if ptr = 0 then m
      else case validate_user_ptr_mut (u_tables u) (u_cr3 u) ptr (length bs) of
        Inl _ \<Rightarrow> m
      | Inr _ \<Rightarrow> write_mem ptr bs m)"

definition handle_bytes :: "cap_handle \<Rightarrow> byte list" where
  "handle_bytes h = le_bytes 4 (h_slot h) @ le_bytes 4 (h_gen h)"

definition copy_ipc_msg_to_user ::
    "bytes cap_message \<Rightarrow> nat \<Rightarrow> nat \<Rightarrow> nat \<Rightarrow> nat \<Rightarrow> caller \<Rightarrow> cap_world \<Rightarrow> memory \<Rightarrow> (nat \<times> memory) option" where
  "copy_ipc_msg_to_user msg buf_ptr out_cap_ptr out_status_ptr max_len u w m =
     (let n = min (length (m_payload msg)) max_len;
          m1 = write_mem buf_ptr (take n (m_payload msg)) m
      in do {
        (status, m2) \<leftarrow> (case m_capability msg of
            None \<Rightarrow> Some (0, m1)
          | Some cap \<Rightarrow> do {
              c \<leftarrow> read_state (check_rights cap rights_empty) w;
              Some (case c of
                Inr _ \<Rightarrow> (0, put_user u out_cap_ptr (handle_bytes cap) m1)
              | Inl Revoked \<Rightarrow> (1, put_user u out_cap_ptr (replicate 8 0) m1)
              | Inl _ \<Rightarrow> (2, put_user u out_cap_ptr (replicate 8 0) m1))
            });
        Some (n, put_user u out_status_ptr (le_bytes 4 status) m2)
      })"

definition sys_ipc_try_recv ::
    "('q \<Rightarrow> (irq_msg \<times> 'q) option) \<Rightarrow> nat \<Rightarrow> nat \<Rightarrow> nat \<Rightarrow> nat \<Rightarrow> nat \<Rightarrow> caller \<Rightarrow> memory \<Rightarrow> 'q ipc \<Rightarrow>
     (nat \<times> memory \<times> 'q ipc) option" where
  "sys_ipc_try_recv pop ep_id buf_ptr max_len out_cap_ptr out_status_ptr u m st0 = do {
     st \<leftarrow> deliver_pending_irqs pop st0;
     case caller_cap u ep_id st of
       None \<Rightarrow> Some (EACCES_RET, m, st)
     | Some receiver_cap \<Rightarrow>
         (case validate_user_ptr_mut (u_tables u) (u_cr3 u) buf_ptr max_len of
            Inl _ \<Rightarrow> Some (EFAULT_RET, m, st)
          | Inr _ \<Rightarrow> do {
              (r, st1) \<leftarrow> raw_ipc_try_recv (ep_id mod 2 ^ 32) receiver_cap st;
              case r of
                Inr (Some msg) \<Rightarrow> do {
                  (n, m1) \<leftarrow> copy_ipc_msg_to_user msg buf_ptr out_cap_ptr out_status_ptr max_len u (caps st1) m;
                  Some (n, m1, st1)
                }
              | Inr None \<Rightarrow> Some (EAGAIN_RET, m, st1)
              | Inl e \<Rightarrow> Some (ipc_error_ret e, m, st1)
            })
   }"

text \<open>The end of a round of the blocking receive.\<close>

definition recv_outcome ::
    "nat \<Rightarrow> nat \<Rightarrow> nat \<Rightarrow> nat \<Rightarrow> caller \<Rightarrow> memory \<Rightarrow>
     (cap_error, (bytes cap_message, bytes cap_message) round) result \<times> 'q ipc \<Rightarrow>
     ((nat, nat) round \<times> memory \<times> 'q ipc) option" where
  "recv_outcome buf_ptr out_cap_ptr out_status_ptr max_len u m res =
     (case res of
        (Inl e, st) \<Rightarrow> Some (Done (ipc_error_ret e), m, st)
      | (Inr Parked, st) \<Rightarrow> Some (Parked, m, st)
      | (Inr (Done msg), st) \<Rightarrow> do {
          (n, m1) \<leftarrow> copy_ipc_msg_to_user msg buf_ptr out_cap_ptr out_status_ptr max_len u (caps st) m;
          Some (Done n, m1, st)
        })"

definition sys_ipc_recv ::
    "('q \<Rightarrow> (irq_msg \<times> 'q) option) \<Rightarrow> nat \<Rightarrow> nat \<Rightarrow> nat \<Rightarrow> nat \<Rightarrow> nat \<Rightarrow> caller \<Rightarrow> memory \<Rightarrow> 'q ipc \<Rightarrow>
     ((nat, nat) round \<times> memory \<times> 'q ipc) option" where
  "sys_ipc_recv pop ep_id buf_ptr max_len out_cap_ptr out_status_ptr u m st0 = do {
     st \<leftarrow> deliver_pending_irqs pop st0;
     case caller_cap u ep_id st of
       None \<Rightarrow> Some (Done EACCES_RET, m, st)
     | Some receiver_cap \<Rightarrow>
         (case validate_user_ptr_mut (u_tables u) (u_cr3 u) buf_ptr max_len of
            Inl _ \<Rightarrow> Some (Done EFAULT_RET, m, st)
          | Inr _ \<Rightarrow> do {
              res \<leftarrow> raw_ipc_recv_round (u_cpu u) (ep_id mod 2 ^ 32) receiver_cap st;
              recv_outcome buf_ptr out_cap_ptr out_status_ptr max_len u m res
            })
   }"

text \<open>After a wake-up the loop keeps the handle and the buffer it checked at the start.\<close>

definition sys_ipc_recv_woken ::
    "cap_handle \<Rightarrow> nat \<Rightarrow> nat \<Rightarrow> nat \<Rightarrow> nat \<Rightarrow> nat \<Rightarrow> caller \<Rightarrow> memory \<Rightarrow> 'q ipc \<Rightarrow>
     ((nat, nat) round \<times> memory \<times> 'q ipc) option" where
  "sys_ipc_recv_woken receiver_cap ep_id buf_ptr max_len out_cap_ptr out_status_ptr u m st = do {
     (e, st1) \<leftarrow> raw_ipc_recv_resume (u_cpu u) (ep_id mod 2 ^ 32) st;
     case e of
       Some x \<Rightarrow> Some (Done (ipc_error_ret x), m, st1)
     | None \<Rightarrow> do {
         res \<leftarrow> raw_ipc_recv_round (u_cpu u) (ep_id mod 2 ^ 32) receiver_cap st1;
         recv_outcome buf_ptr out_cap_ptr out_status_ptr max_len u m res
       }
   }"

subsection \<open>Endpoints and interrupts\<close>

definition insert_endpoint_fd :: "nat \<Rightarrow> cap_handle \<Rightarrow> cap_tbl \<Rightarrow> cap_world \<Rightarrow> (bool \<times> cap_tbl \<times> cap_world) option" where
  "insert_endpoint_fd ep root tbl w =
     (if find_fd_in_table tbl ep \<noteq> None then Some (False, tbl, w) else Some (True, tbl @ [(ep, root)], w))"

definition sys_ipc_create_endpoint :: "nat \<Rightarrow> caller \<Rightarrow> 'q ipc \<Rightarrow> (nat \<times> 'q ipc) option" where
  "sys_ipc_create_endpoint capac u st =
     (if \<not> current_is_user_process (u_cpu u) (kern st) then Some (EACCES_RET, st)
      else if capac = 0 \<or> capac > MAX_ENDPOINT_CAPACITY then Some (EINVAL_RET, st)
      else do {
        (r, st1) \<leftarrow> create_raw_endpoint capac st;
        case r of
          Inl _ \<Rightarrow> Some (U64_MAX, st1)
        | Inr (ep_id, ep_root) \<Rightarrow> do {
            (ins, k, w) \<leftarrow> with_cap_table (u_pid u) (insert_endpoint_fd ep_id ep_root) (kern st1) (caps st1);
            let st2 = st1\<lparr>kern := k, caps := w\<rparr>;
            if ins = Some True then Some (ep_id, register_endpoint_owner ep_id (u_pid u mod 2 ^ 32) st2)
            else Some (EACCES_RET, st2)
          }
      })"

definition sys_ipc_bind_irq :: "nat \<Rightarrow> nat \<Rightarrow> nat \<Rightarrow> caller \<Rightarrow> 'q ipc \<Rightarrow> (nat \<times> 'q ipc) option" where
  "sys_ipc_bind_irq device_fd irq ep_id u st =
     (if \<not> current_is_user_process (u_cpu u) (kern st) then Some (EACCES_RET, st)
      else if irq > 15 then Some (EACCES_RET, st)
      else case (caller_cap u device_fd st, caller_cap u ep_id st) of
        (Some device_cap, Some writer_cap) \<Rightarrow> do {
          (r, st1) \<leftarrow> bind_irq device_cap irq (ep_id mod 2 ^ 32) writer_cap st;
          Some (case r of Inl _ \<Rightarrow> EACCES_RET | Inr _ \<Rightarrow> 0, st1)
        }
      | _ \<Rightarrow> Some (EACCES_RET, st))"

definition sys_ipc_cancel :: "nat \<Rightarrow> caller \<Rightarrow> 'q ipc \<Rightarrow> (nat \<times> 'q ipc) option" where
  "sys_ipc_cancel ep_id u st =
     (case caller_cap u ep_id st of
        None \<Rightarrow> Some (EACCES_RET, st)
      | Some h \<Rightarrow> do {
          c \<leftarrow> read_state (check_rights h (1 OR 2)) (caps st);
          if \<not> is_ok c then Some (EACCES_RET, st)
          else do {
            (r, st1) \<leftarrow> cancel_endpoint (ep_id mod 2 ^ 32) h st;
            Some (case r of Inl _ \<Rightarrow> EACCES_RET | Inr _ \<Rightarrow> 0, st1)
          }
        })"

end
