(* ===== verification/File_Calls.thy ===== *)
theory File_Calls
  imports Syscall_Storage
begin

section \<open>Properties of the file calls\<close>

text \<open>
  What the file calls of user processes guarantee, and where they fail: memory is written only where the page tables
  let the caller store; data written through a descriptor is read back; descriptors are never released; and the table
  of descriptors that all processes share lets one process reach the file of another.
\<close>

subsection \<open>Runs of file calls\<close>

inductive file_step :: "'d os \<Rightarrow> 'd os \<Rightarrow> bool" where
  file_step: "file_syscall c e s = Some (r, t) \<Longrightarrow> file_step s t"

text \<open>Nobody holds the right to destroy a descriptor.\<close>

definition no_destroy :: "'d os \<Rightarrow> bool" where
  "no_destroy s \<longleftrightarrow> caps_lack 128 (os_kern s) (os_caps s)"

lemma close_denied:
  assumes "no_destroy s"
  shows "file_syscall (Close fd) e s = Some (EACCES_RET, s)"
proof -
  obtain x where "check_fd_access (e_pid e) (fd mod 2 ^ 32) 128 (os_kern s) (os_caps s) = Some (Err x)"
    using assms caps_lack_check unfolding no_destroy_def by blast
  then show ?thesis by (simp add: gated_def)
qed

lemma gated_result:
  assumes "gated fd needed f e s = Some (r, t)"
  shows "t = s \<and> r = EACCES_RET \<or> f e s = Some (r, t)"
  using assms unfolding gated_def by (auto split: bind_splits if_splits)

text \<open>What opening does to the descriptors that are already there: nothing.\<close>

lemma fd_open_keeps:
  assumes "fd_open dr k path flags fds v = (r, fds', v')" and "fd_get fds fd = Some d"
  shows "fd_get fds' fd = Some d"
proof -
  have "fds' = fds \<or> (\<exists>i x. position (\<lambda>f. f = None) fds = Some i \<and> fds' = fds[i := x])"
    using assms(1) by (auto simp: fd_open_def Let_def split: option.splits if_splits prod.splits sum.splits)
  then show ?thesis
  proof
    assume "\<exists>i x. position (\<lambda>f. f = None) fds = Some i \<and> fds' = fds[i := x]"
    then obtain i x where i: "position (\<lambda>f. f = None) fds = Some i" "fds' = fds[i := x]" by blast
    then have "i \<noteq> fd" using assms(2) by (auto simp: position_Some fd_get_def split: if_splits)
    then show ?thesis using assms(2) i by (simp add: fd_get_def split: if_splits)
  qed (use assms in simp)
qed

lemma sys_open_parts:
  assumes "sys_open ptr flags e s = Some (r, t)"
  shows "os_mem t = os_mem s"
    and "os_fds t = os_fds s \<or> (\<exists>path x v. fd_open (e_drive e) (e_stats e) path (of_nat flags) (os_fds s) (os_vfs s) = (x, os_fds t, v))"
    and "os_kern t = os_kern s \<and> os_caps t = os_caps s \<or>
      provision_fd (e_pid e) r 3 (os_kern s) (os_caps s) = Some (os_kern t, os_caps t)"
proof -
  have "os_mem t = os_mem s \<and>
      (os_fds t = os_fds s \<or> (\<exists>path x v. fd_open (e_drive e) (e_stats e) path (of_nat flags) (os_fds s) (os_vfs s) = (x, os_fds t, v))) \<and>
      (os_kern t = os_kern s \<and> os_caps t = os_caps s \<or>
       provision_fd (e_pid e) r 3 (os_kern s) (os_caps s) = Some (os_kern t, os_caps t))"
  proof (cases "user_path e s ptr")
    case (Inr p)
    show ?thesis
    proof (cases p)
      case (Some path)
      obtain x fds v where f: "fd_open (e_drive e) (e_stats e) path (of_nat flags) (os_fds s) (os_vfs s) = (x, fds, v)"
        by (metis prod_cases3)
      show ?thesis using assms Inr Some f
        by (cases x) (auto simp: sys_open_def split: bind_splits if_splits)
    qed (use assms Inr in \<open>simp add: sys_open_def\<close>)
  qed (use assms in \<open>simp add: sys_open_def\<close>)
  then show "os_mem t = os_mem s"
    and "os_fds t = os_fds s \<or> (\<exists>path x v. fd_open (e_drive e) (e_stats e) path (of_nat flags) (os_fds s) (os_vfs s) = (x, os_fds t, v))"
    and "os_kern t = os_kern s \<and> os_caps t = os_caps s \<or>
      provision_fd (e_pid e) r 3 (os_kern s) (os_caps s) = Some (os_kern t, os_caps t)"
    by blast+
qed

subsection \<open>Descriptors stay open\<close>

definition opened :: "fd_table \<Rightarrow> nat \<Rightarrow> string \<Rightarrow> bool" where
  "opened fds fd path \<longleftrightarrow> (\<exists>d. fd_get fds fd = Some d \<and> d_path d = path)"

lemma fd_advance_opened:
  assumes "fd_advance fd desc n fds = Some fds'" and "fd_get fds fd = Some desc"
  shows "opened fds' = opened fds"
  using assms by (auto simp: fd_advance_def opened_def fd_get_def fun_eq_iff nth_list_update split: bind_splits if_splits)

lemma fd_read_opened:
  assumes "fd_read k fd buf fds v = Some (r, buf', fds')"
  shows "opened fds' = opened fds"
proof -
  have "fds' = fds \<or> (\<exists>desc n. fd_get fds fd = Some desc \<and> fd_advance fd desc n fds = Some fds')"
    using assms by (auto simp: fd_read_def split: option.splits if_splits prod.splits sum.splits bind_splits)
  then show ?thesis using fd_advance_opened by auto
qed

lemma fd_write_opened:
  assumes "fd_write dr fd buf fds v = Some (r, fds', v')"
  shows "opened fds' = opened fds"
proof -
  have "fds' = fds \<or> (\<exists>desc n. fd_get fds fd = Some desc \<and> fd_advance fd desc n fds = Some fds')"
    using assms by (auto simp: fd_write_def split: option.splits if_splits prod.splits sum.splits bind_splits)
  then show ?thesis using fd_advance_opened by auto
qed

lemma fd_lseek_opened:
  assumes "fd_lseek k fd off whence fds v = Some (r, fds')"
  shows "opened fds' = opened fds"
proof -
  have "fds' = fds \<or> (\<exists>desc n. fd_get fds fd = Some desc \<and> fds' = fds[fd := Some (desc\<lparr>d_offset := n\<rparr>)])"
    using assms by (auto simp: fd_lseek_def split: option.splits if_splits prod.splits sum.splits bind_splits)
  then show ?thesis by (auto simp: opened_def fd_get_def fun_eq_iff nth_list_update split: if_splits)
qed

lemma sys_open_keeps:
  assumes "sys_open ptr flags e s = Some (r, t)"
  shows "no_destroy s \<Longrightarrow> no_destroy t" and "opened (os_fds s) fd p \<Longrightarrow> opened (os_fds t) fd p"
proof -
  have "\<not> rights_contains 3 128" by (simp add: rights_contains_def)
  then show "no_destroy t" if "no_destroy s" using sys_open_parts(3) [OF assms(1)] that provision_fd_lack
    unfolding no_destroy_def by auto
  show "opened (os_fds t) fd p" if "opened (os_fds s) fd p"
    using sys_open_parts(2) [OF assms(1)] that fd_open_keeps unfolding opened_def by metis
qed

text \<open>Every other call keeps the kernel's tables and the set of open descriptors.\<close>

definition same_tables :: "'d os \<Rightarrow> 'd os \<Rightarrow> bool" where
  "same_tables s t \<longleftrightarrow> os_kern t = os_kern s \<and> os_caps t = os_caps s \<and> opened (os_fds t) = opened (os_fds s)"

lemma same_tables_refl [simp]: "same_tables s s"
  by (simp add: same_tables_def)

lemma sys_calls_same_tables:
  "sys_read fd ptr len e s = Some (r, t) \<Longrightarrow> same_tables s t"
  "sys_write fd ptr len e s = Some (r, t) \<Longrightarrow> same_tables s t"
  "sys_write_console fd ptr len e s = Some (r, t) \<Longrightarrow> same_tables s t"
  "sys_lseek fd off whence e s = Some (r, t) \<Longrightarrow> same_tables s t"
  "sys_mkdir ptr e s = Some (r, t) \<Longrightarrow> same_tables s t"
  "sys_stat ptr stat_ptr e s = Some (r, t) \<Longrightarrow> same_tables s t"
  by (auto simp: same_tables_def sys_read_def sys_write_def sys_write_console_def sys_lseek_def sys_mkdir_def sys_stat_def
      split: bind_splits sum.splits prod.splits option.splits if_splits
      dest: fd_read_opened fd_write_opened fd_lseek_opened)

lemma file_syscall_keeps:
  assumes "file_syscall c e s = Some (r, t)" and "no_destroy s"
  shows "no_destroy t" and "opened (os_fds s) fd p \<Longrightarrow> opened (os_fds t) fd p"
proof -
  have "same_tables s t \<or> (\<exists>ptr flags. sys_open ptr flags e s = Some (r, t))"
  proof (cases c)
    case (Close fd)
    then show ?thesis using close_denied [OF assms(2), of fd e] assms(1) by simp
  qed (use assms(1) sys_calls_same_tables in \<open>auto dest!: gated_result split: if_splits\<close>)
  then show "no_destroy t" and "opened (os_fds s) fd p \<Longrightarrow> opened (os_fds t) fd p"
    using assms(2) sys_open_keeps by (auto simp: same_tables_def no_destroy_def)
qed

interpretation files: inv_system file_step no_destroy
  by unfold_locales (auto elim!: file_step.cases intro: file_syscall_keeps)

text \<open>
  Descriptors are never released. When no process holds the right to destroy a descriptor, which is so after
  seeding because opening grants only read and write, then after any sequence of file calls of any processes closing
  any descriptor is refused with \<^verbatim>\<open>EACCES\<close> and changes nothing, and every descriptor that was open still is, on the same path.
\<close>

theorem descriptors_never_released:
  assumes "no_destroy s" and "file_step\<^sup>*\<^sup>* s t"
  shows "file_syscall (Close fd) e t = Some (EACCES_RET, t) \<and> (opened (os_fds s) fd path \<longrightarrow> opened (os_fds t) fd path)"
proof
  show "file_syscall (Close fd) e t = Some (EACCES_RET, t)"
    using close_denied files.inv_run [OF assms(2,1)] .
  have "opened (os_fds u) fd path \<Longrightarrow> opened (os_fds v) fd path" if "no_destroy u" "file_step u v" for u v :: "'a os"
    using that by (auto elim!: file_step.cases intro: file_syscall_keeps)
  then show "opened (os_fds s) fd path \<longrightarrow> opened (os_fds t) fd path"
    using files.stable_run [OF assms(2,1), where P = "\<lambda>u. opened (os_fds u) fd path"] by blast
qed

subsection \<open>Memory\<close>

lemma copy_chunk_length: "copy_chunk content off buf = (n, buf') \<Longrightarrow> length buf' = length buf"
  by (auto simp: copy_chunk_def Let_def split: if_splits)

lemma fd_read_length:
  assumes "fd_read k fd buf fds v = Some (r, buf', fds')"
  shows "length buf' = length buf"
  using assms copy_chunk_length
  by (fastforce simp: fd_read_def read_file_from_path_chunk_def read_file_chunk_def
      split: option.splits if_splits prod.splits sum.splits bind_splits)

lemma length_stat_bytes [simp]: "length (stat_bytes st) = 32"
  by (simp add: stat_bytes_def)

lemma write_mem_changes:
  assumes "user_bytes_mut e s ptr len = Ok buf" and "length bs = len" and "write_mem ptr bs (os_mem s) a \<noteq> os_mem s a"
  shows "in_user_space a \<and> user_may (e_tables e) (e_cr3 e) True a \<and> small_page (e_tables e) (e_cr3 e) a"
proof -
  obtain as where "validate_user_ptr_mut (e_tables e) (e_cr3 e) ptr len = Ok as"
    using assms(1) by (cases "validate_user_ptr_mut (e_tables e) (e_cr3 e) ptr len") (auto simp: user_bytes_mut_def)
  moreover have "a \<in> {ptr..<ptr + len}" using assms(2,3) by (auto simp: write_mem_def split: if_splits)
  ultimately show ?thesis by (auto simp: validate_user_ptr_mut_Ok)
qed

lemma length_user_bytes_mut: "user_bytes_mut e s ptr len = Ok buf \<Longrightarrow> length buf = len"
  by (cases "validate_user_ptr_mut (e_tables e) (e_cr3 e) ptr len")
    (auto simp: user_bytes_mut_def validate_user_ptr_mut_Ok)

lemma sys_read_mem:
  assumes "sys_read fd ptr len e s = Some (r, t)" and "os_mem t a \<noteq> os_mem s a"
  shows "in_user_space a \<and> user_may (e_tables e) (e_cr3 e) True a \<and> small_page (e_tables e) (e_cr3 e) a"
proof (cases "user_bytes_mut e s ptr len")
  case (Inr buf)
  with assms(1) obtain x buf' fds where "fd_read (e_stats e) fd buf (os_fds s) (os_vfs s) = Some (x, buf', fds)"
    and t: "os_mem t = write_mem ptr buf' (os_mem s)"
    by (auto simp: sys_read_def split: bind_splits)
  then have "length buf' = len" using fd_read_length length_user_bytes_mut [OF Inr] by metis
  then show ?thesis using write_mem_changes [OF Inr, of buf' a] assms(2) t by simp
qed (use assms in \<open>simp add: sys_read_def\<close>)

lemma sys_stat_mem:
  assumes "sys_stat ptr stat_ptr e s = Some (r, t)" and "os_mem t a \<noteq> os_mem s a"
  shows "in_user_space a \<and> user_may (e_tables e) (e_cr3 e) True a \<and> small_page (e_tables e) (e_cr3 e) a"
proof (cases "user_bytes_mut e s stat_ptr 32")
  case (Inr buf)
  with assms obtain st where "os_mem t = write_mem stat_ptr (stat_bytes st) (os_mem s)"
    by (auto simp: sys_stat_def split: sum.splits option.splits if_splits)
  then show ?thesis using write_mem_changes [OF Inr length_stat_bytes, of st a] assms(2) by simp
qed (use assms in \<open>auto simp: sys_stat_def split: sum.splits\<close>)

lemma other_calls_mem:
  "sys_write fd ptr len e s = Some (r, t) \<Longrightarrow> os_mem t = os_mem s"
  "sys_write_console fd ptr len e s = Some (r, t) \<Longrightarrow> os_mem t = os_mem s"
  "sys_lseek fd off whence e s = Some (r, t) \<Longrightarrow> os_mem t = os_mem s"
  "sys_mkdir ptr e s = Some (r, t) \<Longrightarrow> os_mem t = os_mem s"
  "sys_close fd e s = Some (r, t) \<Longrightarrow> os_mem t = os_mem s"
  by (auto simp: sys_write_def sys_write_console_def sys_lseek_def sys_mkdir_def sys_close_def
      split: bind_splits sum.splits prod.splits option.splits if_splits)

text \<open>
  C14. A file call writes to memory only where the caller itself could: an address whose byte differs after the call
  lies in user space, in a 4 KiB page, and every page-table level on its way is present, user-accessible and writable.
\<close>

theorem file_calls_store_where_the_user_may:
  assumes "file_syscall c e s = Some (r, t)" and "os_mem t a \<noteq> os_mem s a"
  shows "in_user_space a \<and> user_may (e_tables e) (e_cr3 e) True a \<and> small_page (e_tables e) (e_cr3 e) a"
proof (cases c)
  case (Read fd ptr len)
  then have "t = s \<or> sys_read fd ptr len e s = Some (r, t)" using assms(1) gated_result by fastforce
  then show ?thesis using assms(2) sys_read_mem by blast
next
  case (Stat ptr stat_ptr)
  then show ?thesis using assms sys_stat_mem [of ptr stat_ptr] by simp
qed (use assms in \<open>auto dest!: gated_result dest: sys_open_parts(1) other_calls_mem split: if_splits\<close>)

subsection \<open>Data through a descriptor\<close>

lemma read_chunk_of_bytes:
  assumes "read_file_bytes k path v = Ok content" and "root_ok (vroot v)"
  shows "read_file_chunk k path off buf v = map_prod Ok id (copy_chunk content off buf)"
proof (cases "generate_procfs_content k path")
  case None
  have "path \<noteq> ''/''" using assms(1) by (auto simp: read_file_bytes_def)
  moreover have "lookup_file ''Bu bir dizin veya cihaz!'' path (vroot v) = Ok content"
    using assms(1) None calculation lookup_file_spec [OF assms(2)] by (simp add: read_file_bytes_def)
  ultimately show ?thesis using None by (simp add: read_file_chunk_def split_def map_prod_def Let_def)
qed (use assms(1) in \<open>simp add: read_file_bytes_def read_file_chunk_def split_def map_prod_def Let_def split: if_splits\<close>)

lemma chunk_Ok_bounded: "write_file_chunk dr path off buf v = Some (Ok n, w) \<Longrightarrow> off + length buf < 2 ^ 63"
proof -
  assume a: "write_file_chunk dr path off buf v = Some (Ok n, w)"
  then obtain res where r: "write_file_chunk_tree path off buf (vroot v) = Some res" "then_sync dr res v = (Ok n, w)"
    by (auto simp: write_file_chunk_def split: bind_splits)
  then have "fst res = Ok n" using then_sync_simps(1) [of dr res v] by simp
  with r(1) show ?thesis
    by (cases res) (auto simp: write_file_chunk_tree_def checked_add_def split: if_splits option.splits prod.splits fs_node.splits bind_splits)
qed

lemma chunk_keeps_blobs: "write_file_chunk dr path off buf v = Some (r, w) \<Longrightarrow> blob_store w = blob_store v"
proof -
  assume "write_file_chunk dr path off buf v = Some (r, w)"
  then obtain res where "then_sync dr res v = (r, w)"
    by (cases "write_file_chunk_tree path off buf (vroot v)") (auto simp: write_file_chunk_def)
  then show ?thesis using then_sync_simps(3) [of dr res v] by simp
qed

lemma seeded_find: "is_seeded_binary p v \<Longrightarrow> find (\<lambda>(q, _). q = p) (blob_store v) \<noteq> None"
  unfolding is_seeded_binary_def list_ex_iff find_None_iff by blast

text \<open>
  C15. What is written through a descriptor is read back through it: when a write of \<open>bs\<close> through a descriptor opened
  for reading and writing (the bit \<^verbatim>\<open>O_RDWR\<close> is set) succeeds, it reports all of \<open>bs\<close> and advances the offset by that many bytes;
  seeking back to the old offset succeeds, and reading as many bytes then returns exactly \<open>bs\<close> and leaves the offset
  behind them. This is so for the paths of ordinary files: neither a generated file of \<^verbatim>\<open>/proc\<close> nor a seeded program, for which a
  write changes the tree and a read does not look at it.
\<close>

theorem descriptor_write_read:
  assumes "root_ok (vroot v)" and "fd_get fds fd = Some d" and "d_flags d AND FD_RDWR \<noteq> 0"
    and "generate_procfs_content k (d_path d) = None" and "\<not> is_seeded_binary (d_path d) v"
    and "fd_write dr fd bs fds v = Some (Ok n, fds1, v1)"
  shows "n = length bs \<and> fd_get fds1 fd = Some (d\<lparr>d_offset := d_offset d + n\<rparr>) \<and>
    (\<exists>fds2. fd_lseek k fd (int (d_offset d)) SEEK_SET fds1 v1 = Some (Ok (d_offset d), fds2) \<and>
       (\<exists>fds3. fd_read k fd (replicate n 0) fds2 v1 = Some (Ok n, bs, fds3) \<and>
          fd_get fds3 fd = Some (d\<lparr>d_offset := d_offset d + n\<rparr>)))"
proof -
  have w: "write_file_chunk dr (d_path d) (d_offset d) bs v = Some (Ok n, v1)"
    and adv: "fd_advance fd d n fds = Some fds1"
    using assms(2,3,6) by (auto simp: fd_write_def split: bind_splits sum.splits)
  note small = chunk_Ok_bounded [OF w]
  note rt = vfs_chunk_roundtrip [OF assms(1) small assms(4) w]
  have n: "n = length bs" and r: "read_file_chunk k (d_path d) (d_offset d) (replicate n 0) v1 = (Ok n, bs)"
    using rt by auto
  have fd: "fd < length fds" using assms(2) by (simp add: fd_get_def split: if_splits)
  have fds1: "fds1 = fds[fd := Some (d\<lparr>d_offset := d_offset d + n\<rparr>)]"
    using adv small n by (auto simp: fd_advance_def checked_add_def split: bind_splits if_splits)
  note blob = chunk_keeps_blobs [OF w]
  have seed: "\<not> is_seeded_binary (d_path d) v1" using assms(5) blob by (simp add: is_seeded_binary_def)
  obtain len where len: "get_file_size k (d_path d) v1 = Ok len"
    using r assms(4) by (auto simp: get_file_size_def read_file_chunk_def split: if_splits sum.splits)
  have g1: "fd_get fds1 fd = Some (d\<lparr>d_offset := d_offset d + n\<rparr>)" using fd by (simp add: fds1 fd_get_def)
  have s: "fd_lseek k fd (int (d_offset d)) SEEK_SET fds1 v1 = Some (Ok (d_offset d), fds1[fd := Some d])"
    using g1 seed len by (simp add: fd_lseek_def)
  have "fd_get (fds1[fd := Some d]) fd = Some d" using fd by (simp add: fds1 fd_get_def)
  then have "fd_read k fd (replicate n 0) (fds1[fd := Some d]) v1 = Some (Ok n, bs, fds1)"
    using seed r assms(3) small n fd
    by (simp add: fd_read_def fd_advance_def checked_add_def fds1)
  then show ?thesis using n g1 s by blast
qed

text \<open>
  A seeded program can be opened for writing, and a write succeeds, but it changes only the placeholder in the tree: reads through any
  descriptor of that path go on giving the seeded bytes.
\<close>

theorem seeded_write_not_read_back:
  assumes "fd_get fds fd = Some d" and "is_seeded_binary (d_path d) v" and "resolve_path ''/'' (d_path d) = d_path d"
    and "fd_write dr fd bs fds v = Some (r, fds1, v1)" and "fd_get fds2 fd2 = Some d2" and "d_path d2 = d_path d"
  shows "fd_read k fd2 buf fds2 v1 = fd_read k fd2 buf fds2 v"
proof -
  have "v1 = v \<or> (\<exists>n. write_file_chunk dr (d_path d) (d_offset d) bs v = Some (n, v1))"
    using assms(1,4) by (auto simp: fd_write_def split: if_splits bind_splits sum.splits)
  then have blob: "blob_store v1 = blob_store v" using chunk_keeps_blobs by blast
  obtain b where "find (\<lambda>(p, _). p = d_path d) (blob_store v) = Some b" using seeded_find [OF assms(2)] by auto
  then have "read_file_from_path_chunk k (d_path d) off buf v1 = read_file_from_path_chunk k (d_path d) off buf v" for off
    using blob assms(3) by (cases b) (simp add: read_file_from_path_chunk_def read_file_from_path_def Let_def)
  moreover have "is_seeded_binary (d_path d) v1" using assms(2) blob by (simp add: is_seeded_binary_def)
  ultimately show ?thesis using assms(2,5,6) by (simp add: fd_read_def)
qed

subsection \<open>One table for all processes\<close>

text \<open>What a successful open leaves behind.\<close>

lemma sys_open_result:
  assumes "sys_open ptr flags e s = Some (fd, t)" and "fd < 256" and "user_path e s ptr = Ok (Some path)"
    and "length (os_fds s) = 256"
  shows "fd_get (os_fds t) fd =
    Some \<lparr>d_fd = fd, d_path = path, d_offset = 0, d_flags = of_nat flags, d_ref_count = 1\<rparr>"
proof -
  obtain x fds v where f: "fd_open (e_drive e) (e_stats e) path (of_nat flags) (os_fds s) (os_vfs s) = (x, fds, v)"
    by (metis prod_cases3)
  have x: "x = Ok fd" "os_fds t = fds"
    using assms(1-3) f by (cases x; auto simp: sys_open_def U64_MAX_def split: bind_splits if_splits)+
  have "fds = (os_fds s)[fd := Some \<lparr>d_fd = fd, d_path = path, d_offset = 0, d_flags = of_nat flags, d_ref_count = 1\<rparr>]"
    using f x(1) by (auto simp: fd_open_def Let_def split: option.splits if_splits prod.splits sum.splits)
  then show ?thesis using x(2) assms(2,4) by (simp add: fd_get_def)
qed

lemma shared_read:
  assumes "file_syscall (Open ptr flags) e s = Some (fd, t)" and "fd < 3" and "user_path e s ptr = Ok (Some path)"
    and "length (os_fds s) = 256" and "of_nat flags AND FD_WRONLY = 0"
    and "root_ok (vroot (os_vfs t))" and "\<not> is_seeded_binary path (os_vfs t)"
    and "read_file_bytes (e_stats e') path (os_vfs t) = Ok content" and "length content < 2 ^ 63"
    and "check_fd_access (e_pid e') fd 1 (os_kern t) (os_caps t) = Some (Ok ())"
    and "user_bytes_mut e' t ptr' n = Ok buf" and "n \<le> length content"
  shows "\<exists>u. file_syscall (Read fd ptr' n) e' t = Some (n, u) \<and> (\<forall>i. i < n \<longrightarrow> os_mem u (ptr' + i) = content ! i)"
proof -
  have fd: "fd < 4294967296" using assms(2) by simp
  have o: "sys_open ptr flags e s = Some (fd, t)" using assms(1) by simp
  note d = sys_open_result [OF o _ assms(3,4)]
  have len: "length buf = n" using length_user_bytes_mut [OF assms(11)] .
  have c: "copy_chunk content 0 buf = (n, take n content)"
    using len assms(12) by (auto simp: copy_chunk_def overwrite_def)
  have r: "read_file_chunk (e_stats e') path 0 buf (os_vfs t) = (Ok n, take n content)"
    using read_chunk_of_bytes [OF assms(8,6), of 0 buf] c by simp
  obtain fds where "fd_read (e_stats e') fd buf (os_fds t) (os_vfs t) = Some (Ok n, take n content, fds)"
    using d assms(2,5,7,9,12) r by (auto simp: fd_read_def fd_advance_def checked_add_def)
  then have "sys_read fd ptr' n e' t = Some (n, t\<lparr>os_fds := fds, os_mem := write_mem ptr' (take n content) (os_mem t)\<rparr>)"
    using assms(11) by (simp add: sys_read_def)
  then have "file_syscall (Read fd ptr' n) e' t =
      Some (n, t\<lparr>os_fds := fds, os_mem := write_mem ptr' (take n content) (os_mem t)\<rparr>)"
    using assms(10) by (simp add: gated_def fd)
  then show ?thesis using assms(12) by (auto simp: write_mem_def)
qed

text \<open>
  The first three files that are opened are shared with every process. When a file is opened under a descriptor
  below 3, any process that may read its standard streams (as every seeded process may), even one that never opened
  anything, reads that file's content with a read call on that descriptor.
\<close>

theorem first_files_are_shared:
  assumes "file_syscall (Open ptr flags) e s = Some (fd, t)" and "fd < 3" and "user_path e s ptr = Ok (Some path)"
    and "length (os_fds s) = 256" and "of_nat flags AND FD_WRONLY = 0"
    and "root_ok (vroot (os_vfs t))" and "\<not> is_seeded_binary path (os_vfs t)"
    and "read_file_bytes (e_stats e') path (os_vfs t) = Ok content" and "length content < 2 ^ 63"
    and "check_fd_access (e_pid e') fd 1 (os_kern t) (os_caps t) = Some (Ok ())"
    and "user_bytes_mut e' t ptr' n = Ok buf" and "n \<le> length content"
  shows "\<exists>u. file_syscall (Read fd ptr' n) e' t = Some (n, u) \<and> (\<forall>i. i < n \<longrightarrow> os_mem u (ptr' + i) = content ! i)"
  by (rule shared_read [OF assms])

text \<open>
  A process can stop the kernel through a descriptor: after seeking an existing file that it opened for writing
  to the offset \<^verbatim>\<open>i64::MAX\<close>, which is accepted, the next write of a single byte panics.
\<close>

theorem seek_and_write_panics:
  assumes "fd_get fds fd = Some d" and "d_flags d = FD_RDWR" and "root_ok (vroot v)"
    and "generate_procfs_content k (d_path d) = None" and "\<not> is_seeded_binary (d_path d) v"
    and "read_file_bytes k (d_path d) v = Ok content" and "bs \<noteq> []"
  shows "\<exists>fds1. fd_lseek k fd (2 ^ 63 - 1) SEEK_SET fds v = Some (Ok (2 ^ 63 - 1), fds1) \<and> fd_write dr fd bs fds1 v = None"
proof -
  let ?d = "d\<lparr>d_offset := 2 ^ 63 - 1\<rparr>"
  have fd: "fd < length fds" using assms(1) by (simp add: fd_get_def split: if_splits)
  have look: "\<And>m. lookup_file m (d_path d) (vroot v) = Ok content" and ne: "d_path d \<noteq> ''/''"
    using assms(3,4,6) lookup_file_spec by (auto simp: read_file_bytes_def split: if_splits)
  then have "get_file_size k (d_path d) v = Ok (length content)" using assms(4) by (simp add: get_file_size_def)
  then have s: "fd_lseek k fd (2 ^ 63 - 1) SEEK_SET fds v = Some (Ok (2 ^ 63 - 1), fds[fd := Some ?d])"
    using assms(1,5) by (simp add: fd_lseek_def)
  have "write_file_chunk_tree (d_path d) (2 ^ 63 - 1) bs (vroot v) = None"
    using look [of "''x''"] ne assms(7)
    by (auto simp: write_file_chunk_tree_def lookup_file_def find_dir_ro_def find_dir_def checked_add_def
        split: option.splits fs_node.splits prod.splits if_splits)
  then have "fd_write dr fd bs (fds[fd := Some ?d]) v = None"
    using fd assms(2) by (simp add: fd_write_def fd_get_def FD_WRONLY_def FD_RDWR_def write_file_chunk_def)
  then show ?thesis using s by blast
qed

subsection \<open>A concrete system\<close>

text \<open>
  Two seeded processes, all of whose pages are mapped for user mode, on a file system with one file; the path of that
  file is in memory at the base of user space.
\<close>

lemma user_path_string:
  assumes "validate_user_ptr (e_tables e) (e_cr3 e) ptr 256 = Ok as"
    and "\<And>i. i < length p \<Longrightarrow> os_mem s (ptr + i) = char_byte (p ! i)" and "os_mem s (ptr + length p) = 0"
    and "\<forall>c \<in> set p. char_byte c \<noteq> 0" and "length p < 256" and "utf8_string p"
  shows "user_path e s ptr = Ok (Some p)"
proof -
  let ?buf = "map (os_mem s) [ptr..<ptr + 256]"
  have u: "user_bytes e s ptr MAX_PATH = Ok ?buf"
    using assms(1) assms(1) [unfolded validate_user_ptr_Ok] by (simp add: user_bytes_def MAX_PATH_def)
  have "position (\<lambda>b. b = 0) ?buf = Some (length p)"
    using assms(2-5) by (auto simp: position_Some)
  then have l: "user_strn_len ?buf MAX_PATH = Ok (length p)"
    by (simp add: user_strn_len_def MAX_PATH_def)
  have "take (length p) ?buf = as_bytes p"
    by (rule nth_equalityI) (use assms(2,5) in \<open>auto simp: as_bytes_def\<close>)
  then show ?thesis using u l assms(6) by (simp add: user_path_def from_utf8_as_bytes)
qed

lemma openable_file: "read_file_bytes k path v = Ok c \<Longrightarrow> openable k path v"
  by (simp add: openable_def file_exists_def read_file_def)

definition demo_env :: "nat \<Rightarrow> (nat \<Rightarrow> byte list) env" where
  "demo_env pid = \<lparr>e_pid = pid, e_tables = (\<lambda>_ _. open_pte), e_cr3 = 0, e_drive = ram_drive 8, e_stats = idle_stats\<rparr>"

definition demo_proc :: process where
  "demo_proc = (new_process ''app'')\<lparr>cap_table := seeded_tbl\<rparr>"

definition two_procs :: kernel where
  "two_procs = boot_kernel\<lparr>sched := uninit\<lparr>table := [(1, demo_proc), (2, demo_proc)]\<rparr>\<rparr>"

definition demo_os :: "(nat \<Rightarrow> byte list) os" where
  "demo_os = \<lparr>os_kern = two_procs, os_caps = seeded_world, os_fds = new_fd_table, os_vfs = sample_vfs,
     os_mem = write_mem 0x40000000 (as_bytes ''/etc/motd'') (\<lambda>_. 0), os_console = []\<rparr>"

lemma demo_valid:
  assumes "USER_ADDR_BASE \<le> ptr" and "ptr + len \<le> USER_ADDR_LIMIT"
  shows "validate_user_ptr (\<lambda>_ _. open_pte) 0 ptr len = Ok [ptr..<ptr + len]"
    and "validate_user_ptr_mut (\<lambda>_ _. open_pte) 0 ptr len = Ok [ptr..<ptr + len]"
  using assms by (auto simp: validate_user_ptr_Ok validate_user_ptr_mut_Ok open_pages in_user_space_def)

lemma demo_no_destroy: "no_destroy demo_os"
proof -
  have "tbl_safe 128 seed_new_process" by (rule seed_safe) (simp_all add: rights_contains_def)
  note safe = tbl_safeD [OF this seeded_world_eq]
  have "tbl_lacks 128 seeded_world seeded_tbl" using safe(2) [OF init_world_valid] by (simp add: tbl_lacks_def)
  moreover have "world_valid seeded_world" using safe(1) world_valid_later [OF init_world_valid] by blast
  ultimately show ?thesis
    by (auto simp: no_destroy_def caps_lack_def demo_os_def two_procs_def cap_table_of_def demo_proc_def)
qed

lemma demo_path: "user_path (demo_env pid) demo_os 0x40000000 = Ok (Some ''/etc/motd'')"
proof (rule user_path_string)
  show "validate_user_ptr (e_tables (demo_env pid)) (e_cr3 (demo_env pid)) 0x40000000 256 = Ok [0x40000000..<0x40000000 + 256]"
    using demo_valid(1) [where ptr = "0x40000000" and len = 256] by (simp add: demo_env_def user_limits)
  show "utf8_string ''/etc/motd''" by (rule ascii_utf8) simp
  show "os_mem demo_os (0x40000000 + i) = char_byte (''/etc/motd'' ! i)" if "i < length ''/etc/motd''" for i
    unfolding demo_os_def as_bytes_def write_mem_def using that by (simp del: list.map nth_Cons')
qed (auto simp: demo_os_def write_mem_def as_bytes_def char_byte_def)

text \<open>The first process opens the file and gets descriptor 0; the grant fails, because standard input has that number.\<close>

definition opened_world :: cap_world where
  "opened_world = empty_world\<lparr>w_state := Some \<lparr>slots = slots seeded_core @ [seed_slot 6 2 rights_all],
     nodes = nodes seeded_core @ [seed_node None], objects = objects seeded_core @ [seed_object KFd]\<rparr>\<rparr>"

lemma demo_create: "with_state (create_object KFd) seeded_world = Some (Ok (handle 6 1), opened_world)"
  by code_simp

lemma demo_provision: "provision_fd 1 0 3 two_procs seeded_world = Some (two_procs, opened_world)"
  by (simp add: provision_fd_def demo_create add_fd_to_current_def with_cap_table_def grant_fd_in_table_def two_procs_def
      demo_proc_def seeded_tbl_def stdio_tbl_def upd_def)

definition opened_os :: "(nat \<Rightarrow> byte list) os" where
  "opened_os = demo_os\<lparr>os_fds := new_fd_table[0 := Some
     \<lparr>d_fd = 0, d_path = ''/etc/motd'', d_offset = 0, d_flags = FD_RDWR, d_ref_count = 1\<rparr>], os_caps := opened_world\<rparr>"

lemma demo_file:
  "read_file_bytes idle_stats ''/etc/motd'' sample_vfs = Ok [104, 105]"
  "generate_procfs_content idle_stats ''/etc/motd'' = None" "\<not> is_seeded_binary ''/etc/motd'' sample_vfs"
proof -
  show p: "generate_procfs_content idle_stats ''/etc/motd'' = None"
    by (simp add: generate_procfs_content_def trim_slashes_start_def starts_with_def SLASH_def)
  show "\<not> is_seeded_binary ''/etc/motd'' sample_vfs" by (simp add: is_seeded_binary_def sample_vfs_def)
  show "read_file_bytes idle_stats ''/etc/motd'' sample_vfs = Ok [104, 105]"
    by (subst read_file_bytes_spec [OF sample_vfs_ok(4) p])
      (simp add: sample_vfs_def path_parts_def SLASH_def tree_view_def)
qed

lemma demo_open: "file_syscall (Open 0x40000000 2) (demo_env 1) demo_os = Some (0, opened_os)"
proof -
  have pos: "position (\<lambda>f. f = None) new_fd_table = Some 0" by (simp add: position_Some new_fd_table_def)
  have "openable idle_stats ''/etc/motd'' sample_vfs" using openable_file [OF demo_file(1)] .
  then have "fd_open (ram_drive 8) idle_stats ''/etc/motd'' 2 new_fd_table sample_vfs =
      (Ok 0, os_fds opened_os, sample_vfs)"
    using pos by (simp add: fd_open_def opened_os_def FD_RDWR_def)
  then show ?thesis using demo_path [of 1] demo_provision
    by (simp add: sys_open_def demo_env_def opened_os_def demo_os_def U64_MAX_def)
qed

theorem descriptors_never_released_witness:
  "file_step\<^sup>*\<^sup>* demo_os opened_os \<and> file_syscall (Close 0) (demo_env 1) opened_os = Some (EACCES_RET, opened_os)"
proof -
  have "file_step\<^sup>*\<^sup>* demo_os opened_os" by (rule r_into_rtranclp) (rule file_step [OF demo_open])
  then show ?thesis using descriptors_never_released [OF demo_no_destroy, of opened_os 0 "demo_env 1"] by blast
qed

lemma demo_read_gate: "check_fd_access 2 0 1 two_procs opened_world = Some (Ok ())"
proof -
  have "read_state (check_rights (handle 1 1) 1) opened_world = Some (Ok ())" by code_simp
  then show ?thesis
    by (simp add: check_fd_access_def check_fd_access_in_table_def cap_table_of_def two_procs_def demo_proc_def
        seeded_tbl_def stdio_tbl_def)
qed

lemma demo_read:
  "\<exists>u. file_syscall (Read 0 0x50000000 2) (demo_env 2) opened_os = Some (2, u) \<and>
     os_mem u 0x50000000 = 104 \<and> os_mem u 0x50000001 = 105"
proof -
  have "\<exists>u. file_syscall (Read 0 0x50000000 2) (demo_env 2) opened_os = Some (2, u) \<and>
      (\<forall>i. i < 2 \<longrightarrow> os_mem u (0x50000000 + i) = [104, 105] ! i)"
  proof (rule shared_read [OF demo_open _ demo_path])
    show "user_bytes_mut (demo_env 2) opened_os 0x50000000 2 = Ok (map (os_mem opened_os) [0x50000000..<0x50000000 + 2])"
      using demo_valid(2) [where ptr = "0x50000000" and len = 2] by (simp add: user_bytes_mut_def demo_env_def user_limits)
  qed (use demo_file demo_read_gate sample_vfs_ok(4) in
      \<open>simp_all add: demo_os_def opened_os_def new_fd_table_def demo_env_def FD_WRONLY_def\<close>)
  then obtain u where u: "file_syscall (Read 0 0x50000000 2) (demo_env 2) opened_os = Some (2, u)"
    "\<And>i. i < 2 \<Longrightarrow> os_mem u (0x50000000 + i) = [104, 105] ! i" by blast
  show ?thesis by (intro exI [of _ u] conjI u(1)) (use u(2) [of 0] u(2) [of 1] in simp_all)
qed

theorem first_files_are_shared_witness:
  "\<exists>u. file_syscall (Read 0 0x50000000 2) (demo_env 2) opened_os = Some (2, u) \<and>
     os_mem u 0x50000000 = 104 \<and> os_mem u 0x50000001 = 105"
proof -
  have "\<exists>u. file_syscall (Read 0 0x50000000 2) (demo_env 2) opened_os = Some (2, u) \<and>
      (\<forall>i. i < 2 \<longrightarrow> os_mem u (0x50000000 + i) = [104, 105] ! i)"
  proof (rule first_files_are_shared [OF demo_open _ demo_path])
    show "user_bytes_mut (demo_env 2) opened_os 0x50000000 2 = Ok (map (os_mem opened_os) [0x50000000..<0x50000000 + 2])"
      using demo_valid(2) [where ptr = "0x50000000" and len = 2] by (simp add: user_bytes_mut_def demo_env_def user_limits)
  qed (use demo_file demo_read_gate sample_vfs_ok(4) in
      \<open>simp_all add: demo_os_def opened_os_def new_fd_table_def demo_env_def FD_WRONLY_def\<close>)
  then obtain u where u: "file_syscall (Read 0 0x50000000 2) (demo_env 2) opened_os = Some (2, u)"
    "\<And>i. i < 2 \<Longrightarrow> os_mem u (0x50000000 + i) = [104, 105] ! i" by blast
  show ?thesis by (intro exI [of _ u] conjI u(1)) (use u(2) [of 0] u(2) [of 1] in simp_all)
qed

theorem file_calls_store_where_the_user_may_witness:
  "in_user_space 0x50000000 \<and> user_may (\<lambda>_ _. open_pte) 0 True 0x50000000"
proof -
  obtain u where u: "file_syscall (Read 0 0x50000000 2) (demo_env 2) opened_os = Some (2, u)" "os_mem u 0x50000000 = 104"
    using demo_read by blast
  have "os_mem opened_os 0x50000000 = 0" by (simp add: opened_os_def demo_os_def write_mem_def)
  then show ?thesis
    using file_calls_store_where_the_user_may [OF u(1), of "0x50000000"] u(2) by (simp add: demo_env_def)
qed

definition seeked_desc :: file_descriptor where
  "seeked_desc = \<lparr>d_fd = 0, d_path = ''/etc/motd'', d_offset = 5, d_flags = FD_RDWR, d_ref_count = 1\<rparr>"

theorem descriptor_write_read_witness:
  "\<exists>fds1 v1. fd_write (ram_drive 8) 0 [1, 2] [Some seeked_desc] sample_vfs = Some (Ok 2, fds1, v1) \<and>
    (\<exists>fds2. fd_lseek idle_stats 0 5 SEEK_SET fds1 v1 = Some (Ok 5, fds2) \<and>
       (\<exists>fds3. fd_read idle_stats 0 [0, 0] fds2 v1 = Some (Ok 2, [1, 2], fds3)))"
proof -
  obtain v1 where "write_file_chunk (ram_drive 8) ''/etc/motd'' 5 [1, 2] sample_vfs = Some (Ok 2, v1)"
    using sample_chunk by blast
  then obtain fds1 where w: "fd_write (ram_drive 8) 0 [1, 2] [Some seeked_desc] sample_vfs = Some (Ok 2, fds1, v1)"
    by (simp add: fd_write_def fd_get_def seeked_desc_def FD_WRONLY_def FD_RDWR_def fd_advance_def checked_add_def)
  have g: "fd_get [Some seeked_desc] 0 = Some seeked_desc" by (simp add: fd_get_def)
  have d: "d_flags seeked_desc AND FD_RDWR \<noteq> 0" "d_path seeked_desc = ''/etc/motd''" "d_offset seeked_desc = 5"
    by (simp_all add: seeked_desc_def FD_RDWR_def)
  have "replicate 2 (0 :: byte) = [0, 0]" by (simp add: numeral_2_eq_2)
  note [simp] = this
  show ?thesis
    using descriptor_write_read [OF sample_vfs_ok(4) g d(1) _ _ w, of idle_stats] w demo_file unfolding d by auto
qed

theorem seek_and_write_panics_witness:
  "\<exists>fds1. fd_lseek idle_stats 0 (2 ^ 63 - 1) SEEK_SET [Some seeked_desc] sample_vfs = Some (Ok (2 ^ 63 - 1), fds1) \<and>
     fd_write (ram_drive 8) 0 [1] fds1 sample_vfs = None"
  by (rule seek_and_write_panics [where d = seeked_desc and content = "[104, 105]"])
    (use demo_file sample_vfs_ok(4) in \<open>simp_all add: fd_get_def seeked_desc_def\<close>)

end
