(* ===== verification/Ipc_Calls.thy ===== *)
theory Ipc_Calls
  imports Syscall_Ipc File_Calls Ipc_Security
begin

section \<open>Properties of the IPC calls\<close>

text \<open>
  What the IPC calls guarantee to a process and how they meet the other calls: a receive writes only where the caller
  may, a message arrives unchanged, a received capability is reported but never enters a table, and the number of a new
  endpoint opens the file descriptor with the same number.
\<close>

subsection \<open>Memory\<close>

lemma put_user_changes:
  assumes "put_user u ptr bs m a \<noteq> m a"
  shows "in_user_space a \<and> user_may (u_tables u) (u_cr3 u) True a \<and> small_page (u_tables u) (u_cr3 u) a"
proof -
  obtain as where v: "validate_user_ptr_mut (u_tables u) (u_cr3 u) ptr (length bs) = Ok as"
    and w: "write_mem ptr bs m a \<noteq> m a"
    using assms by (auto simp: put_user_def split: if_splits sum.splits)
  then have "a \<in> {ptr..<ptr + length bs}" by (auto simp: write_mem_def split: if_splits)
  then show ?thesis using v by (auto simp: validate_user_ptr_mut_Ok)
qed

lemma copy_msg_changes:
  assumes "copy_ipc_msg_to_user msg buf_ptr cp sp max_len u w m = Some (n, m')"
    and "validate_user_ptr_mut (u_tables u) (u_cr3 u) buf_ptr max_len = Ok as" and "m' a \<noteq> m a"
  shows "in_user_space a \<and> user_may (u_tables u) (u_cr3 u) True a \<and> small_page (u_tables u) (u_cr3 u) a"
proof -
  let ?m1 = "write_mem buf_ptr (take (min (length (m_payload msg)) max_len) (m_payload msg)) m"
  obtain st m2 where m': "m' = put_user u sp (le_bytes 4 st) m2" and m2: "m2 = ?m1 \<or> (\<exists>bs. m2 = put_user u cp bs ?m1)"
    using assms(1) unfolding copy_ipc_msg_to_user_def Let_def
    by (auto split: bind_splits option.splits sum.splits cap_error.splits)
  consider "m' a \<noteq> m2 a" | "m2 a \<noteq> ?m1 a" | "?m1 a \<noteq> m a" using assms(3) by metis
  then show ?thesis
  proof cases
    case 3
    then have "a \<in> {buf_ptr..<buf_ptr + max_len}" by (auto simp: write_mem_def split: if_splits)
    then show ?thesis using assms(2) by (auto simp: validate_user_ptr_mut_Ok)
  qed (use m' m2 put_user_changes in auto)
qed

text \<open>
  A receive, blocking or not, writes to memory only where the caller itself could: the payload, the capability and
  the status go to addresses in user space that the page tables let the caller store to.
\<close>

theorem ipc_receive_stores_where_the_user_may:
  assumes "sys_ipc_try_recv pop ep buf_ptr max_len cp sp u m st = Some (r, m', st') \<or>
      sys_ipc_recv pop ep buf_ptr max_len cp sp u m st = Some (rd, m', st')"
    and "m' a \<noteq> m a"
  shows "in_user_space a \<and> user_may (u_tables u) (u_cr3 u) True a \<and> small_page (u_tables u) (u_cr3 u) a"
proof -
  obtain as msg w n where "validate_user_ptr_mut (u_tables u) (u_cr3 u) buf_ptr max_len = Ok as"
    "copy_ipc_msg_to_user msg buf_ptr cp sp max_len u w m = Some (n, m')"
    using assms(1)
  proof
    assume "sys_ipc_try_recv pop ep buf_ptr max_len cp sp u m st = Some (r, m', st')"
    then show thesis using assms(2) that
      by (auto simp: sys_ipc_try_recv_def split: bind_splits option.splits sum.splits)
  next
    assume "sys_ipc_recv pop ep buf_ptr max_len cp sp u m st = Some (rd, m', st')"
    then show thesis using assms(2) that
      by (auto simp: sys_ipc_recv_def recv_outcome_def split: bind_splits option.splits sum.splits round.splits)
  qed
  then show ?thesis using copy_msg_changes assms(2) by blast
qed

subsection \<open>Capability tables\<close>

lemma tstatics_cores: "cores t = cores t' \<Longrightarrow> tstatics t = tstatics t'"
proof (rule ext)
  fix i assume "cores t = cores t'"
  then have "map_option static (cores t i) = map_option static (cores t' i)" by simp
  then show "tstatics t i = tstatics t' i" by (simp add: tstatics_def cores_def option.map_comp comp_def static_core)
qed

lemma dequeue_statics: "dequeue_internal q s = (r, q', s') \<Longrightarrow> tstatics (table s') = tstatics (table s)"
  by (auto simp: dequeue_internal_def split: prod.splits dest!: dequeue_cores intro!: tstatics_cores)

lemma wake_try_statics: "wake_try i s = Some (r, s') \<Longrightarrow> tstatics (table s') = tstatics (table s)"
  by (auto simp: wake_try_def split: option.splits if_splits)

lemma wake_one_statics:
  assumes "wake_one q s = Some res"
  shows "tstatics (table (snd (snd res))) = tstatics (table s)"
proof (rule wake_one.raw_induct [where P = "\<lambda>q s res. tstatics (table (snd (snd res))) = tstatics (table s)", OF _ assms])
  fix f q s res
  assume IH: "\<And>q s res. f q s = Some res \<Longrightarrow> tstatics (table (snd (snd res))) = tstatics (table s)"
    and r: "(case dequeue_internal q s of (None, q', s') \<Rightarrow> Some (None, q', s')
      | (Some pid, q', s') \<Rightarrow> (case wake_try pid s' of Some (w, s'') \<Rightarrow> Some (Some w, q', s'') | None \<Rightarrow> f q' s')) = Some res"
  obtain x q' s' where d: "dequeue_internal q s = (x, q', s')" by (metis prod_cases3)
  show "tstatics (table (snd (snd res))) = tstatics (table s)"
    using r d dequeue_statics [OF d] by (cases x) (auto split: option.splits dest!: IH dest: wake_try_statics)
qed

text \<open>The capability table is part of what no wake-up touches.\<close>

lemma cap_table_static: "cap_table_of i k = map_option cap_table (statics k i)"
  by (simp add: cap_table_of_def tstatics_def option.map_comp comp_def static_def)

lemma same_statics_tables: "statics k = statics k' \<Longrightarrow> cap_table_of i k = cap_table_of i k'"
  by (simp add: cap_table_static)

definition same_procs :: "'q ipc \<Rightarrow> 'q ipc \<Rightarrow> bool" where
  "same_procs st st' \<longleftrightarrow> statics (kern st') = statics (kern st)"

lemma try_recv_statics:
  assumes "cap_try_recv ch h w s = Some (r, ch', s')"
  shows "tstatics (table s') = tstatics (table s)"
  using assms by (auto simp: cap_try_recv_def try_recv_def split: bind_splits sum.splits list.splits dest!: wake_one_statics)

lemma try_send_statics:
  assumes "cap_try_send ch h msg att mode w s = Some (r, ch', w', s')"
  shows "tstatics (table s') = tstatics (table s)"
  using assms by (auto simp: cap_try_send_def try_send_def split: bind_splits sum.splits if_splits dest!: wake_one_statics)

lemma prepare_wait_statics:
  assumes "prepare_wait cpu reason q s = Some (q', s')"
  shows "tstatics (table s') = tstatics (table s)"
  using assms
  by (auto simp: prepare_wait_def enqueue_internal_def Let_def split: bind_splits prod.splits
      dest!: enqueue_cores tstatics_cores)

lemma raw_try_send_procs: "raw_ipc_try_send ep h d att mode st = Some (r, st') \<Longrightarrow> same_procs st st'"
  by (auto simp: raw_ipc_try_send_def same_procs_def put_channel_def split: option.splits bind_splits dest!: try_send_statics)

lemma raw_try_recv_procs: "raw_ipc_try_recv ep h st = Some (r, st') \<Longrightarrow> same_procs st st'"
  by (auto simp: raw_ipc_try_recv_def same_procs_def put_channel_def split: option.splits bind_splits dest!: try_recv_statics)

lemma raw_recv_round_procs: "raw_ipc_recv_round cpu ep h st = Some (r, st') \<Longrightarrow> same_procs st st'"
  by (auto simp: raw_ipc_recv_round_def same_procs_def put_channel_def
      split: option.splits bind_splits sum.splits dest!: try_recv_statics prepare_wait_statics)

lemma deliver_events_procs: "deliver_events es st = Some st' \<Longrightarrow> same_procs st st'"
proof (induction es arbitrary: st)
  case (Cons ev es)
  obtain irq payload where ev: "ev = (irq, payload)" by (cases ev)
  show ?case using Cons.prems ev raw_try_send_procs
    by (fastforce simp: same_procs_def split: option.splits bind_splits dest: Cons.IH)
qed (simp add: same_procs_def)

lemma deliver_pending_procs: "deliver_pending_irqs pop st = Some st' \<Longrightarrow> same_procs st st'"
  by (auto simp: deliver_pending_irqs_def same_procs_def split: option.splits bind_splits dest!: deliver_events_procs)

text \<open>
  A capability that arrives with a message is reported to the receiver but never becomes usable: neither form of
  receive changes the capability table of any process, so a handle that was in no table before is in none afterwards,
  and no system call can name it.
\<close>

theorem received_capability_not_installed:
  assumes "sys_ipc_try_recv pop ep buf_ptr max_len cp sp u m st = Some (r, m', st') \<or>
      sys_ipc_recv pop ep buf_ptr max_len cp sp u m st = Some (rd, m', st')"
  shows "cap_table_of pid (kern st') = cap_table_of pid (kern st) \<and> caller_cap v fd st' = caller_cap v fd st"
proof -
  have "same_procs st st'"
    using assms
  proof
    assume "sys_ipc_try_recv pop ep buf_ptr max_len cp sp u m st = Some (r, m', st')"
    then show ?thesis
      by (auto simp: sys_ipc_try_recv_def same_procs_def split: bind_splits option.splits sum.splits
          dest!: deliver_pending_procs raw_try_recv_procs)
  next
    assume "sys_ipc_recv pop ep buf_ptr max_len cp sp u m st = Some (rd, m', st')"
    then show ?thesis
      by (auto simp: sys_ipc_recv_def recv_outcome_def same_procs_def
          split: bind_splits option.splits sum.splits round.splits prod.splits
          dest!: deliver_pending_procs raw_recv_round_procs)
  qed
  then show ?thesis by (simp add: same_procs_def caller_cap_def cap_table_static)
qed

subsection \<open>Endpoints and file descriptors\<close>

lemma find_fd_append: "find_fd_in_table tbl fd = None \<Longrightarrow> find_fd_in_table (tbl @ [(fd, h)]) fd = Some h"
  unfolding find_fd_in_table_def by (induction tbl) (auto split: if_splits)

lemma create_endpoint_grants:
  assumes "sys_ipc_create_endpoint capac u st = Some (ep, st')" and "ep < 2 ^ 32" and "world_valid (caps st)"
  shows "\<exists>tbl h. cap_table_of (u_pid u) (kern st') = Some tbl \<and> find_fd_in_table tbl ep = Some h \<and> carries (caps st') h rights_all"
proof -
  have big: "ep \<noteq> EACCES_RET" "ep \<noteq> EINVAL_RET" "ep \<noteq> U64_MAX"
    using assms(2) by (auto simp: EACCES_RET_def EINVAL_RET_def U64_MAX_def)
  obtain st1 root k w where c: "create_raw_endpoint capac st = Some (Ok (ep, root), st1)"
    and ins: "with_cap_table (u_pid u) (insert_endpoint_fd ep root) (kern st1) (caps st1) = Some (Some True, k, w)"
    and st': "st' = register_endpoint_owner ep (u_pid u mod 2 ^ 32) (st1\<lparr>kern := k, caps := w\<rparr>)"
    using assms(1) big
    by (auto simp: sys_ipc_create_endpoint_def Let_def split: if_splits bind_splits sum.splits)
  have "with_state (create_object KEndpoint) (caps st) = Some (Ok root, caps st1)"
    using c by (auto simp: create_raw_endpoint_def new_cap_channel_def Let_def split: if_splits bind_splits sum.splits)
  then have h: "carries (caps st1) root rights_all" using create_carries(1) assms(3) by blast
  obtain p where p: "bt_get (ktable (kern st1)) (u_pid u) = Some p" "find_fd_in_table (cap_table p) ep = None"
    "k = upd_k (u_pid u) (\<lambda>q. q\<lparr>cap_table := cap_table p @ [(ep, root)]\<rparr>) (kern st1)" "w = caps st1"
    using ins by (auto simp: with_cap_table_def insert_endpoint_fd_def split: option.splits bind_splits if_splits)
  have "cap_table_of (u_pid u) k = Some (cap_table p @ [(ep, root)])"
    using p(1) by (simp add: p(3) cap_table_of_def map_of_upd)
  moreover have "find_fd_in_table (cap_table p @ [(ep, root)]) ep = Some root"
    using p(2) by (simp add: find_fd_append)
  ultimately show ?thesis using h p(4) by (auto simp: st' register_endpoint_owner_def)
qed

text \<open>
  Endpoint numbers and file descriptors share the capability table but not the file table: after a process has
  created the endpoint \<open>ep\<close>, the gates of the file calls let it read, write, seek and close the file descriptor \<open>ep\<close> of
  the system-wide table, whoever opened it.
\<close>

theorem endpoint_number_opens_files:
  assumes "sys_ipc_create_endpoint capac u st = Some (ep, st')" and "ep < 256" and "world_valid (caps st)"
    and "os_kern s = kern st'" and "os_caps s = caps st'" and "e_pid e = u_pid u"
  shows "file_syscall (Read ep ptr n) e s = sys_read ep ptr n e s \<and>
    (2 < ep \<longrightarrow> file_syscall (Write ep ptr n) e s = sys_write ep ptr n e s) \<and>
    file_syscall (Lseek ep off whence) e s = sys_lseek ep (as_isize off) whence e s \<and>
    file_syscall (Close ep) e s = sys_close ep e s"
proof -
  have small: "ep < 2 ^ 32" using assms(2) by simp
  obtain tbl h where tbl: "cap_table_of (u_pid u) (kern st') = Some tbl" "find_fd_in_table tbl ep = Some h"
    and all: "carries (caps st') h rights_all"
    using create_endpoint_grants [OF assms(1) small assms(3)] by blast
  have gate: "check_fd_access (e_pid e) (ep mod 2 ^ 32) needed (os_kern s) (os_caps s) = Some (Ok ())"
    if "rights_contains rights_all needed" for needed
    using tbl carries_check [OF all, of needed] that assms(4-6) small
    by (auto simp: check_fd_access_def check_fd_access_in_table_def find_fd_in_table_def)
  then have "gated ep needed f e s = f e s" if "rights_contains rights_all needed" for needed and f
    using that by (simp add: gated_def del: power_numeral)
  then show ?thesis by (auto simp: rights_contains_def rights_all_def)
qed

subsection \<open>A message from one process to another\<close>

lemma wake_one_idle: "q_head q = None \<Longrightarrow> wake_one q s = Some (None, q, s)"
  by (subst wake_one.simps) (simp add: dequeue_internal_def dequeue_links.simps)

lemma send_leaves_message:
  assumes "bt_get (endpoints st) (ep mod 2 ^ 32) = Some ch" and "buffer (inner ch) = []"
    and "sys_ipc_send ep ptr len 0 mode u m st = Some (0, sw, st1)"
  shows "\<exists>ch' md. bt_get (endpoints st1) (ep mod 2 ^ 32) = Some ch' \<and> endpoint_cap ch' = endpoint_cap ch \<and>
    buffer (inner ch') = [\<lparr>m_payload = map m [ptr..<ptr + len], m_capability = None, m_mode = md\<rparr>]"
proof -
  obtain h as md where v: "validate_user_ptr (u_tables u) (u_cr3 u) ptr len = Ok as"
    and r: "raw_ipc_send (u_cpu u) (u_tick u) (ep mod 2 ^ 32) h (map m as) None md st = Some (Ok sw, st1)"
    using assms(3)
    by (auto simp: sys_ipc_send_def Let_def EACCES_RET_def EFAULT_RET_def ipc_error_ret_def U64_MAX_def
        split: option.splits sum.splits bind_splits if_splits)
  have as: "as = [ptr..<ptr + len]" using v [unfolded validate_user_ptr_Ok] by simp
  obtain c w s rd where cs: "cap_send (u_cpu u) ch h (map m as) None md (caps st) (isched st) = Some (Ok rd, c, w, s)"
    and e: "endpoints st1 = endpoints (put_channel (ep mod 2 ^ 32) c w s st)" "rd \<noteq> Parked"
    using r assms(1)
    by (auto simp: raw_ipc_send_def Let_def put_channel_def split: bind_splits sum.splits round.splits option.splits)
  have "buffer (inner c) = [\<lparr>m_payload = map m as, m_capability = None, m_mode = md\<rparr>] \<and>
      endpoint_cap c = endpoint_cap ch"
    using cs e(2) assms(2)
    by (auto simp: cap_send_def seal_def attach_def send_round_def
        split: bind_splits sum.splits if_splits transfer_mode.splits option.splits)
  then show ?thesis using e as by (auto simp: put_channel_def)
qed

lemma write_mem_nth: "i < length bs \<Longrightarrow> write_mem ptr bs m (ptr + i) = bs ! i"
  by (simp add: write_mem_def)

text \<open>Interrupts that are delivered on the way queue up behind the messages that wait.\<close>

lemma delivery_appends:
  assumes "fifo_queue contents accepts push pop ok" and "\<forall>q. irq_events st = Some q \<longrightarrow> ok q" and "ipc_ok st"
    and "bt_get (endpoints st) ep = Some ch"
  shows "\<exists>st' ch' more. deliver_pending_irqs pop st = Some st' \<and> ipc_ok st' \<and> caps st' = caps st \<and>
    caller_cap u fd st' = caller_cap u fd st \<and>
    bt_get (endpoints st') ep = Some ch' \<and> endpoint_cap ch' = endpoint_cap ch \<and> buffer (inner ch') = buffer (inner ch) @ more"
proof (cases "irq_events st")
  case None
  then show ?thesis using assms(3,4)
    by (intro exI [of _ st] exI [of _ ch] exI [of _ "[]"]) (simp add: deliver_pending_irqs_def)
next
  case (Some q)
  then obtain q' where p: "pop_all pop q = Some (contents q, q')" using pop_all_spec [OF assms(1)] assms(2) by blast
  let ?st = "st\<lparr>irq_events := Some q'\<rparr>"
  obtain st' where d: "deliver_events (contents q) ?st = Some st'" "ipc_ok st'" "caps st' = caps st"
    and ch: "\<exists>ch'. bt_get (endpoints st') ep = Some ch' \<and> endpoint_cap ch' = endpoint_cap ch \<and> capacity (inner ch') = capacity (inner ch) \<and>
       buffer (inner ch') = buffer (inner ch) @ take (capacity (inner ch) - length (buffer (inner ch))) (irq_messages ?st ep (endpoint_cap ch) (contents q))"
    using deliver_events_spec [of ?st "contents q"] assms(3,4) by auto
  have a: "deliver_pending_irqs pop st = Some st'" using Some p d(1) by (simp add: deliver_pending_irqs_def)
  have "cap_table_of (u_pid u) (kern st') = cap_table_of (u_pid u) (kern st)"
    using deliver_pending_procs [OF a] by (intro same_statics_tables) (simp add: same_procs_def)
  then show ?thesis using a d ch by (auto simp: caller_cap_def)
qed

text \<open>
  C16. A message arrives unchanged. When the send of a message without a capability into an empty endpoint succeeds, a
  process that holds the right to read the endpoint and has room for the message, and asks for neither the capability nor the
  status, receives all of it, whatever interrupts are delivered before: the receive returns the length, the receiver's
  buffer holds the sender's bytes, and no other byte of its memory changes. The IPC state has to be well formed and the queue of
  pending interrupts, if there is one, a FIFO.
\<close>

theorem ipc_message_arrives:
  assumes "fifo_queue contents accepts push pop qok" and "\<forall>q. irq_events st1 = Some q \<longrightarrow> qok q" and "ipc_ok st1"
    and "bt_get (endpoints st) (ep mod 2 ^ 32) = Some ch" and "buffer (inner ch) = []"
    and "sys_ipc_send ep ptr len 0 mode ua ma st = Some (0, sw, st1)"
    and "caller_cap ub ep st1 = Some h"
    and "read_state (check_rights_for_object h (endpoint_cap ch) RIGHT_READ) (caps st1) = Some (Ok ())"
    and "validate_user_ptr_mut (u_tables ub) (u_cr3 ub) buf mx = Ok as" and "len \<le> mx"
  shows "\<exists>m' st2. sys_ipc_try_recv pop ep buf mx 0 0 ub mb st1 = Some (len, m', st2) \<and>
    (\<forall>i. i < len \<longrightarrow> m' (buf + i) = ma (ptr + i)) \<and> (\<forall>a. a < buf \<or> buf + len \<le> a \<longrightarrow> m' a = mb a)"
proof -
  obtain ch' md where ch': "bt_get (endpoints st1) (ep mod 2 ^ 32) = Some ch'" "endpoint_cap ch' = endpoint_cap ch"
    "buffer (inner ch') = [\<lparr>m_payload = map ma [ptr..<ptr + len], m_capability = None, m_mode = md\<rparr>]"
    using send_leaves_message [OF assms(4-6)] by blast
  let ?msg = "\<lparr>m_payload = map ma [ptr..<ptr + len], m_capability = None, m_mode = md\<rparr>"
  from delivery_appends [OF assms(1-3) ch'(1), of ub ep] obtain st' c more where d: "deliver_pending_irqs pop st1 = Some st'" "ipc_ok st'"
    "caps st' = caps st1" "caller_cap ub ep st' = Some h" "bt_get (endpoints st') (ep mod 2 ^ 32) = Some c"
    "endpoint_cap c = endpoint_cap ch" "buffer (inner c) = ?msg # more" using ch'(2,3) assms(7) by auto
  have w: "world_ok (caps st1)" using assms(3) by (simp add: ipc_ok_def)
  have hold: "holds (caps st') h (endpoint_cap c) RIGHT_READ" using gate_Ok [OF w] assms(8) d(3,6) by simp
  obtain st2 where r: "raw_ipc_try_recv (ep mod 2 ^ 32) h st' = Some (Ok (Some ?msg), st2)"
    using plain_recv [OF d(2,5), of h] hold d(5,7) by (auto simp: raw_ipc_try_recv_def)
  have "copy_ipc_msg_to_user ?msg buf 0 0 mx ub (caps st2) mb = Some (len, write_mem buf (map ma [ptr..<ptr + len]) mb)"
    using assms(10) by (simp add: copy_ipc_msg_to_user_def put_user_def)
  then have "sys_ipc_try_recv pop ep buf mx 0 0 ub mb st1 = Some (len, write_mem buf (map ma [ptr..<ptr + len]) mb, st2)"
    using r d(1,4) assms(9) by (simp add: sys_ipc_try_recv_def del: power_numeral)
  then show ?thesis by (auto simp: write_mem_def)
qed

subsection \<open>A concrete system\<close>

text \<open>Two seeded user processes, the first of them running on CPU 0; it creates the endpoint 8.\<close>

definition demo_user :: process where "demo_user = demo_proc\<lparr>is_user := True\<rparr>"

definition demo_caller :: "nat \<Rightarrow> caller" where
  "demo_caller pid = \<lparr>u_cpu = 0, u_tick = 0, u_pid = pid, u_tables = (\<lambda>_ _. open_pte), u_cr3 = 0\<rparr>"

definition user_kernel :: "cap_tbl \<Rightarrow> kernel" where
  "user_kernel tbl = boot_kernel\<lparr>sched := uninit\<lparr>table := [(1, demo_user\<lparr>cap_table := tbl\<rparr>), (2, demo_user)],
     current := (replicate MAX_CPUS None)[0 := Some 1]\<rparr>\<rparr>"

definition endpoint_world :: cap_world where
  "endpoint_world = empty_world\<lparr>w_state := Some \<lparr>slots = slots seeded_core @ [seed_slot 6 2 rights_all],
     nodes = nodes seeded_core @ [seed_node None], objects = objects seeded_core @ [seed_object KEndpoint]\<rparr>\<rparr>"

definition ep_channel :: "bytes cap_message list \<Rightarrow> bytes cap_channel" where
  "ep_channel msgs = \<lparr>endpoint_cap = handle 6 1, inner = (new_channel 4)\<lparr>buffer := msgs\<rparr>\<rparr>"

definition ep_ipc :: "bytes cap_message list \<Rightarrow> unit ipc" where
  "ep_ipc msgs = \<lparr>caps = endpoint_world, kern = user_kernel (seeded_tbl @ [(8, handle 6 1)]),
     endpoints = [(8, ep_channel msgs)], owners = [(8, 1)], next_ep_id = 9, irq_bindings = [],
     irq_nonempty = False, irq_events = None\<rparr>"

lemma ep_create: "with_state (create_object KEndpoint) seeded_world = Some (Ok (handle 6 1), endpoint_world)"
  by code_simp

lemma ep_gates:
  "read_state (check_rights_for_object (handle 6 1) (handle 6 1) RIGHT_WRITE) endpoint_world = Some (Ok ())"
  "read_state (check_rights_for_object (handle 6 1) (handle 6 1) RIGHT_READ) endpoint_world = Some (Ok ())"
  by code_simp+

lemma demo_endpoint:
  "sys_ipc_create_endpoint 4 (demo_caller 1) (boot_ipc seeded_world (user_kernel seeded_tbl)) = Some (8, ep_ipc [])"
proof -
  have raw: "create_raw_endpoint 4 (boot_ipc seeded_world (user_kernel seeded_tbl)) =
      Some (Ok (8, handle 6 1), (ep_ipc [])\<lparr>kern := user_kernel seeded_tbl, owners := []\<rparr>)"
    by (simp add: create_raw_endpoint_def boot_ipc_def new_cap_channel_def ep_create MAX_ENDPOINT_CAPACITY_def
        MAX_ENDPOINTS_def wrapping_add_def ep_ipc_def ep_channel_def new_channel_def del: One_nat_def)
  have user: "current_is_user_process 0 (user_kernel seeded_tbl)"
    by (simp add: current_is_user_process_def current_for_cpu_def user_kernel_def demo_user_def MAX_CPUS_def)
  have "with_cap_table 1 (insert_endpoint_fd 8 (handle 6 1)) (user_kernel seeded_tbl) endpoint_world =
      Some (Some True, user_kernel (seeded_tbl @ [(8, handle 6 1)]), endpoint_world)"
    by (simp add: with_cap_table_def insert_endpoint_fd_def user_kernel_def find_fd_in_table_def seeded_tbl_def
        stdio_tbl_def U32_MAX_def upd_def demo_user_def demo_proc_def)
  then show ?thesis using raw user
    by (simp add: sys_ipc_create_endpoint_def demo_caller_def boot_ipc_def MAX_ENDPOINT_CAPACITY_def
        register_endpoint_owner_def ep_ipc_def del: One_nat_def)
qed

theorem endpoint_number_opens_files_witness:
  "file_syscall (Read 8 0x50000000 2) (demo_env 1) (demo_os\<lparr>os_kern := kern (ep_ipc []), os_caps := endpoint_world\<rparr>) =
     sys_read 8 0x50000000 2 (demo_env 1) (demo_os\<lparr>os_kern := kern (ep_ipc []), os_caps := endpoint_world\<rparr>)"
proof -
  have "world_valid (caps (boot_ipc seeded_world (user_kernel seeded_tbl)))"
    using demo_no_destroy by (simp add: no_destroy_def caps_lack_def demo_os_def boot_ipc_def)
  note opens = endpoint_number_opens_files [OF demo_endpoint _ this,
      where s = "demo_os\<lparr>os_kern := kern (ep_ipc []), os_caps := endpoint_world\<rparr>" and e = "demo_env 1"]
  show ?thesis by (rule opens [THEN conjunct1]) (simp_all add: ep_ipc_def demo_env_def demo_caller_def)
qed

definition demo_msg :: "bytes cap_message" where
  "demo_msg = \<lparr>m_payload = [104, 105], m_capability = None, m_mode = ModeNone\<rparr>"

lemma demo_caller_cap: "caller_cap (demo_caller 1) 8 (ep_ipc msgs) = Some (handle 6 1)"
  by (simp add: caller_cap_def demo_caller_def ep_ipc_def cap_table_of_def user_kernel_def find_fd_in_table_def
      seeded_tbl_def stdio_tbl_def U32_MAX_def)

lemma demo_pages:
  "validate_user_ptr (u_tables (demo_caller pid)) (u_cr3 (demo_caller pid)) 0x40000000 2 = Ok [0x40000000..<0x40000000 + 2]"
  "validate_user_ptr_mut (u_tables (demo_caller pid)) (u_cr3 (demo_caller pid)) 0x50000000 2 = Ok [0x50000000..<0x50000000 + 2]"
  using demo_valid(1) [where ptr = "0x40000000" and len = 2] demo_valid(2) [where ptr = "0x50000000" and len = 2]
  by (simp_all add: demo_caller_def user_limits)

lemma demo_receive:
  "\<exists>st. sys_ipc_try_recv (\<lambda>_. None) 8 0x50000000 2 0 0 (demo_caller 1) m (ep_ipc [demo_msg]) =
     Some (2, write_mem 0x50000000 [104, 105] m, st)"
proof -
  have "\<exists>st. raw_ipc_try_recv 8 (handle 6 1) (ep_ipc [demo_msg]) = Some (Ok (Some demo_msg), st)"
    using ep_gates(2) wake_one_idle [of new_queue]
    by (simp add: raw_ipc_try_recv_def ep_ipc_def cap_try_recv_def ep_channel_def try_recv_def new_channel_def new_queue_def
        del: One_nat_def)
  then obtain st where r: "raw_ipc_try_recv 8 (handle 6 1) (ep_ipc [demo_msg]) = Some (Ok (Some demo_msg), st)" by blast
  have c: "copy_ipc_msg_to_user demo_msg 0x50000000 0 0 2 (demo_caller 1) (caps st) m =
      Some (2, write_mem 0x50000000 [104, 105] m)"
    by (simp add: copy_ipc_msg_to_user_def demo_msg_def put_user_def)
  have d: "deliver_pending_irqs (\<lambda>_. None) (ep_ipc [demo_msg]) = Some (ep_ipc [demo_msg])"
    by (simp add: deliver_pending_irqs_def ep_ipc_def)
  show ?thesis
    by (intro exI [of _ st]) (simp add: sys_ipc_try_recv_def d demo_caller_cap demo_pages(2) r c del: One_nat_def)
qed

theorem ipc_receive_stores_where_the_user_may_witness:
  "in_user_space 0x50000000 \<and> user_may (\<lambda>_ _. open_pte) 0 True 0x50000000"
proof -
  obtain st where "sys_ipc_try_recv (\<lambda>_. None) 8 0x50000000 2 0 0 (demo_caller 1) (\<lambda>_. 0) (ep_ipc [demo_msg]) =
      Some (2, write_mem 0x50000000 [104, 105] (\<lambda>_. 0), st)"
    using demo_receive by blast
  from ipc_receive_stores_where_the_user_may [OF disjI1 [OF this], of "0x50000000"]
  show ?thesis by (simp add: write_mem_def demo_caller_def)
qed

theorem received_capability_not_installed_witness:
  "\<exists>m st. sys_ipc_try_recv (\<lambda>_. None) 8 0x50000000 2 0 0 (demo_caller 1) (\<lambda>_. 0) (ep_ipc [demo_msg]) = Some (2, m, st) \<and>
     cap_table_of 1 (kern st) = Some (seeded_tbl @ [(8, handle 6 1)])"
proof -
  obtain st where r: "sys_ipc_try_recv (\<lambda>_. None) 8 0x50000000 2 0 0 (demo_caller 1) (\<lambda>_. 0) (ep_ipc [demo_msg]) =
      Some (2, write_mem 0x50000000 [104, 105] (\<lambda>_. 0), st)"
    using demo_receive by blast
  from received_capability_not_installed [OF disjI1 [OF this], of 1]
  have "cap_table_of 1 (kern st) = Some (seeded_tbl @ [(8, handle 6 1)])"
    by (simp add: ep_ipc_def cap_table_of_def user_kernel_def)
  then show ?thesis using r by blast
qed

text \<open>
  Two processes that both hold the endpoint, with an interrupt bound to it pending: process 1 sends, process 2 receives.
\<close>

definition pair_ipc :: "bytes cap_message list \<Rightarrow> irq_msg list ipc" where
  "pair_ipc msgs = \<lparr>caps = endpoint_world,
     kern = boot_kernel\<lparr>sched := uninit\<lparr>table := [(1, demo_user\<lparr>cap_table := seeded_tbl @ [(8, handle 6 1)]\<rparr>),
         (2, demo_user\<lparr>cap_table := seeded_tbl @ [(8, handle 6 1)]\<rparr>)], current := (replicate MAX_CPUS None)[0 := Some 1]\<rparr>\<rparr>,
     endpoints = [(8, ep_channel msgs)], owners = [(8, 1)], next_ep_id = 9, irq_bindings = [(1, \<lparr>b_ep = 8, b_writer = handle 6 1\<rparr>)],
     irq_nonempty = True, irq_events = Some [(1, 0x4b)]\<rparr>"

lemma endpoint_world_ok: "world_ok endpoint_world"
proof -
  have "wf_nodes (map seed_node [None, Some 0, Some 0, Some 0, None, Some 4, None])"
    by (simp add: wf_nodes_def seed_node_def nth_Cons split: nat.splits)
  then show ?thesis
    by (simp add: world_ok_def endpoint_world_def empty_world_def seeded_core_def exec_core_def stdio_core_def cap_ok_def
        seed_slot_def seed_node_def seed_object_def MAX_CAP_SLOTS_def MAX_CAP_NODES_def MAX_CAP_OBJECTS_def)
qed

lemma pair_ipc_ok: "length msgs \<le> 4 \<Longrightarrow> ipc_ok (pair_ipc msgs)"
  by (auto simp: ipc_ok_def waits_ok_def pair_ipc_def endpoint_world_ok parted_def ep_channel_def new_channel_def new_queue_def
      queue_repr_def intro!: exI [of _ "\<lambda>_. []"])

lemma pair_cap: "pid \<in> {1, 2} \<Longrightarrow> caller_cap (demo_caller pid) 8 (pair_ipc msgs) = Some (handle 6 1)"
  by (auto simp: caller_cap_def demo_caller_def pair_ipc_def cap_table_of_def find_fd_in_table_def
      seeded_tbl_def stdio_tbl_def U32_MAX_def)

lemma pair_send:
  "sys_ipc_send 8 0x40000000 2 0 0 (demo_caller 1) m (pair_ipc []) =
     Some (0, Stay, pair_ipc [\<lparr>m_payload = map m [0x40000000..<0x40000000 + 2], m_capability = None, m_mode = ModeNone\<rparr>])"
proof -
  have r: "raw_ipc_send 0 0 8 (handle 6 1) bs None ModeNone (pair_ipc []) =
      Some (Ok Stay, pair_ipc [\<lparr>m_payload = bs, m_capability = None, m_mode = ModeNone\<rparr>])" for bs
    using ep_gates(1) wake_one_idle [of new_queue]
    by (simp add: raw_ipc_send_def pair_ipc_def cap_send_def seal_def attach_def ep_channel_def send_round_def
        new_channel_def new_queue_def put_channel_def del: One_nat_def)
  have u: "u_cpu (demo_caller 1) = 0" "u_tick (demo_caller 1) = 0" by (simp_all add: demo_caller_def)
  show ?thesis using r pair_cap [of 1] by (simp add: sys_ipc_send_def demo_pages(1) u del: One_nat_def)
qed

theorem ipc_message_arrives_witness:
  "\<exists>st m' st2. sys_ipc_send 8 0x40000000 2 0 0 (demo_caller 1) (\<lambda>_. 7) (pair_ipc []) = Some (0, Stay, st) \<and>
     irq_events st = Some [(1, 0x4b)] \<and>
     sys_ipc_try_recv list_pop 8 0x50000000 2 0 0 (demo_caller 2) (\<lambda>_. 0) st = Some (2, m', st2) \<and> m' 0x50000000 = 7"
proof -
  let ?st = "pair_ipc [\<lparr>m_payload = map (\<lambda>_. 7) [0x40000000..<0x40000000 + 2], m_capability = None, m_mode = ModeNone\<rparr>]"
  have "\<exists>m' st2. sys_ipc_try_recv list_pop 8 0x50000000 2 0 0 (demo_caller 2) (\<lambda>_. 0) ?st = Some (2, m', st2) \<and>
      (\<forall>i. i < 2 \<longrightarrow> m' (0x50000000 + i) = 7) \<and> (\<forall>a. a < 0x50000000 \<or> 0x50000000 + 2 \<le> a \<longrightarrow> m' a = 0)"
    by (rule ipc_message_arrives [OF list_queue_fifo _ pair_ipc_ok _ _ pair_send pair_cap _ demo_pages(2), where ch = "ep_channel []"])
      (use ep_gates(2) in \<open>simp_all add: pair_ipc_def ep_channel_def new_channel_def\<close>)
  then obtain m' st2 where r: "sys_ipc_try_recv list_pop 8 0x50000000 2 0 0 (demo_caller 2) (\<lambda>_. 0) ?st = Some (2, m', st2)"
    "\<forall>i. i < 2 \<longrightarrow> m' (0x50000000 + i) = 7" by blast
  have "m' 0x50000000 = 7" using r(2) [rule_format, of 0] by simp
  moreover have "irq_events ?st = Some [(1, 0x4b)]" by (simp add: pair_ipc_def)
  ultimately show ?thesis using pair_send [of "\<lambda>_. 7"] r(1) by blast
qed

end
