(* ===== verification/Sync_Prims.thy ===== *)
theory Sync_Prims
  imports Scheduler
begin

section \<open>Sleeping locks, semaphores and condition variables\<close>

text \<open>
  The primitives of \<^verbatim>\<open>kernel/src/sync.rs\<close> that park the caller on a wait queue. \<^verbatim>\<open>SleepMutex::lock\<close> and \<^verbatim>\<open>Semaphore::wait\<close>
  follow one protocol: try, queue up as blocked, try again, give up the CPU, leave the queue, start over; the release
  first gives the permit back and then wakes one waiter. Each part between two of these points is atomic (one atomic
  operation or one critical section under the scheduler's lock), and threads interleave between them. \<open>wait_section\<close> is
  the next part of a thread; the lock word and the counter are the resource. The weak compare-and-exchange is taken as
  strong, which it is on the processor the kernel is built for.
\<close>

subsection \<open>The resources\<close>

text \<open>The counter of a semaphore: \<^verbatim>\<open>try_wait\<close> retries its compare-and-exchange until the counter is 0 or it wins; \<^verbatim>\<open>fetch_add\<close> wraps.\<close>

definition sem_try_wait :: "nat \<Rightarrow> nat option" where
  "sem_try_wait count = (if count = 0 then None else Some (count - 1))"

definition sem_release :: "nat \<Rightarrow> nat" where
  "sem_release count = (count + 1) mod 2 ^ 64"

text \<open>The lock word of a sleeping mutex.\<close>

definition mutex_try_lock :: "bool \<Rightarrow> bool option" where
  "mutex_try_lock locked = (if locked then None else Some True)"

definition mutex_release :: "bool \<Rightarrow> bool" where
  "mutex_release locked = False"

subsection \<open>The protocol\<close>

datatype wait_pc = Idle | Try | Prepare | Retry | Park | Finish bool | Acquired

record 'r sync =
  sy_res :: 'r
  sy_queue :: wait_queue
  sy_sched :: scheduler
  sy_pc :: "nat \<Rightarrow> wait_pc"
  sy_wakes :: nat

definition blocked :: "scheduler \<Rightarrow> nat \<Rightarrow> bool" where
  "blocked s i = (case bt_get (table s) i of None \<Rightarrow> False | Some p \<Rightarrow> pstate p = Blocked)"

text \<open>
  The next part of the thread \<open>i\<close>, which runs on \<open>cpu\<close>; \<open>None\<close> when it cannot go on. \<^verbatim>\<open>schedule\<close> returns to the thread once it
  is no longer blocked.
\<close>

definition wait_section :: "('r \<Rightarrow> 'r option) \<Rightarrow> nat \<Rightarrow> nat \<Rightarrow> 'r sync \<Rightarrow> 'r sync option" where
  "wait_section try_it cpu i s =
     (let goto = (\<lambda>p t. t\<lparr>sy_pc := (sy_pc t)(i := p)\<rparr>) in
      case sy_pc s i of
        Try \<Rightarrow> (case try_it (sy_res s) of
                 Some r \<Rightarrow> Some (goto Acquired (s\<lparr>sy_res := r\<rparr>))
               | None \<Rightarrow> Some (goto Prepare s))
      | Prepare \<Rightarrow> do {
          (q, t) \<leftarrow> prepare_wait cpu Generic (sy_queue s) (sy_sched s);
          Some (goto Retry (s\<lparr>sy_queue := q, sy_sched := t\<rparr>))
        }
      | Retry \<Rightarrow> (case try_it (sy_res s) of
                   Some r \<Rightarrow> Some (goto (Finish True) (s\<lparr>sy_res := r\<rparr>))
                 | None \<Rightarrow> Some (goto Park s))
      | Park \<Rightarrow> if blocked (sy_sched s) i then None else Some (goto (Finish False) s)
      | Finish won \<Rightarrow>
          (case finish_wait cpu (sy_queue s) (sy_sched s) of
             (q, t) \<Rightarrow> Some (goto (if won then Acquired else Try) (s\<lparr>sy_queue := q, sy_sched := t\<rparr>)))
      | _ \<Rightarrow> None)"

text \<open>The two parts of a release: \<^verbatim>\<open>Drop\<close> of a guard and \<^verbatim>\<open>Semaphore::signal\<close>; \<open>sy_wakes\<close> counts those between the two.\<close>

definition release_section :: "('r \<Rightarrow> 'r) \<Rightarrow> 'r sync \<Rightarrow> 'r sync" where
  "release_section rel s = s\<lparr>sy_res := rel (sy_res s), sy_wakes := Suc (sy_wakes s)\<rparr>"

definition wake_section :: "'r sync \<Rightarrow> 'r sync option" where
  "wake_section s =
     (if sy_wakes s = 0 then None
      else do {
        (_, q, t) \<leftarrow> wake_one (sy_queue s) (sy_sched s);
        Some (s\<lparr>sy_queue := q, sy_sched := t, sy_wakes := sy_wakes s - 1\<rparr>)
      })"

definition in_protocol :: "'r sync \<Rightarrow> nat \<Rightarrow> bool" where
  "in_protocol s i \<longleftrightarrow> sy_pc s i \<notin> {Idle, Acquired}"

text \<open>
  Steps of the system. Only the holder of a guard can drop it; anybody may signal a semaphore (\<open>anyone\<close>). The rest of
  the kernel (\<open>other\<close>), context switches included, may do anything that leaves the queue links and the blocked state of
  the threads inside the protocol alone. The idle process, which the scheduler resumes without looking at its state,
  does not wait.
\<close>

inductive sync_step :: "('r \<Rightarrow> 'r option) \<Rightarrow> ('r \<Rightarrow> 'r) \<Rightarrow> bool \<Rightarrow> 'r sync \<Rightarrow> 'r sync \<Rightarrow> bool" for try_it rel anyone where
  enter: "sy_pc s i = Idle \<Longrightarrow> i \<noteq> 0 \<Longrightarrow> \<not> blocked (sy_sched s) i \<Longrightarrow> ptrs (table (sy_sched s)) i = Some (None, None) \<Longrightarrow>
    sync_step try_it rel anyone s (s\<lparr>sy_pc := (sy_pc s)(i := Try)\<rparr>)"
| run_part: "current_for_cpu cpu (sy_sched s) = Some i \<Longrightarrow> wait_section try_it cpu i s = Some t \<Longrightarrow>
    sync_step try_it rel anyone s t"
| drop_guard: "sy_pc s i = Acquired \<Longrightarrow> sync_step try_it rel anyone s ((release_section rel s)\<lparr>sy_pc := (sy_pc s)(i := Idle)\<rparr>)"
| signal: "anyone \<Longrightarrow> sync_step try_it rel anyone s (release_section rel s)"
| wake_up: "wake_section s = Some t \<Longrightarrow> sync_step try_it rel anyone s t"
| other: "(\<And>i. in_protocol s i \<Longrightarrow> ptrs (table sc) i = ptrs (table (sy_sched s)) i \<and> blocked sc i = blocked (sy_sched s) i) \<Longrightarrow>
    sync_step try_it rel anyone s (s\<lparr>sy_sched := sc\<rparr>)"

definition sync_init :: "'r \<Rightarrow> scheduler \<Rightarrow> 'r sync" where
  "sync_init r sc = \<lparr>sy_res = r, sy_queue = new_queue, sy_sched = sc, sy_pc = (\<lambda>_. Idle), sy_wakes = 0\<rparr>"

text \<open>
  The condition variable. \<^verbatim>\<open>Condvar::wait\<close> queues the caller while it still holds the guard (\<open>condvar_prepare\<close>), drops the guard,
  gives up the CPU, and leaves the queue (\<open>condvar_finish\<close>) before it takes the lock again.
\<close>

definition condvar_prepare :: "nat \<Rightarrow> wait_queue \<Rightarrow> scheduler \<Rightarrow> (wait_queue \<times> scheduler) option" where
  "condvar_prepare cpu q s = prepare_wait cpu Condvar q s"

definition condvar_finish :: "nat \<Rightarrow> wait_queue \<Rightarrow> scheduler \<Rightarrow> wait_queue \<times> scheduler" where
  "condvar_finish cpu q s = finish_wait cpu q s"

definition notify_one :: "wait_queue \<Rightarrow> scheduler \<Rightarrow> (wait_queue \<times> scheduler) option" where
  "notify_one q s = do { (_, q', s') \<leftarrow> wake_one q s; Some (q', s') }"

definition notify_all :: "wait_queue \<Rightarrow> scheduler \<Rightarrow> (wait_queue \<times> scheduler) option" where
  "notify_all q s = do { (_, q', s') \<leftarrow> wake_all 0 q s; Some (q', s') }"

text \<open>An interleaving as a list of actions: \<open>Part cpu\<close> is the next part of the thread that is current on \<open>cpu\<close>.\<close>

datatype sync_act = Enter nat | Part nat | Drop_Guard nat | Signal | Wake

fun sync_do :: "('r \<Rightarrow> 'r option) \<Rightarrow> ('r \<Rightarrow> 'r) \<Rightarrow> bool \<Rightarrow> sync_act \<Rightarrow> 'r sync \<Rightarrow> 'r sync option" where
  "sync_do try_it rel anyone (Enter i) s =
     (if sy_pc s i = Idle \<and> i \<noteq> 0 \<and> \<not> blocked (sy_sched s) i \<and> ptrs (table (sy_sched s)) i = Some (None, None)
      then Some (s\<lparr>sy_pc := (sy_pc s)(i := Try)\<rparr>) else None)"
| "sync_do try_it rel anyone (Part cpu) s =
     (case current_for_cpu cpu (sy_sched s) of None \<Rightarrow> None | Some i \<Rightarrow> wait_section try_it cpu i s)"
| "sync_do try_it rel anyone (Drop_Guard i) s =
     (if sy_pc s i = Acquired then Some ((release_section rel s)\<lparr>sy_pc := (sy_pc s)(i := Idle)\<rparr>) else None)"
| "sync_do try_it rel anyone Signal s = (if anyone then Some (release_section rel s) else None)"
| "sync_do try_it rel anyone Wake s = wake_section s"

fun sync_run :: "('r \<Rightarrow> 'r option) \<Rightarrow> ('r \<Rightarrow> 'r) \<Rightarrow> bool \<Rightarrow> sync_act list \<Rightarrow> 'r sync \<Rightarrow> 'r sync option" where
  "sync_run try_it rel anyone [] s = Some s"
| "sync_run try_it rel anyone (a # as) s = do { t \<leftarrow> sync_do try_it rel anyone a s; sync_run try_it rel anyone as t }"

lemma sync_do_step: "sync_do try_it rel anyone a s = Some t \<Longrightarrow> sync_step try_it rel anyone s t"
  by (cases a) (auto intro: sync_step.intros split: if_splits option.splits)

lemma sync_run_steps: "sync_run try_it rel anyone as s = Some t \<Longrightarrow> (sync_step try_it rel anyone)\<^sup>*\<^sup>* s t"
  by (induction as arbitrary: s) (auto split: bind_splits intro: converse_rtranclp_into_rtranclp dest: sync_do_step)

subsection \<open>What the parts do to the queue\<close>

lemma blocked_by_cores: "blocked s i = (case cores (table s) i of None \<Rightarrow> False | Some p \<Rightarrow> pstate p = Blocked)"
  by (simp add: blocked_def cores_def split: option.split)

lemma blocked_cores: "cores (table s') = cores (table s) \<Longrightarrow> blocked s' = blocked s"
  by (rule ext) (simp add: blocked_by_cores)

lemma prepare_wait_effect:
  assumes "prepare_wait cpu reason q s = Some (q', s')" and "current_for_cpu cpu s = Some i"
    and "queue_repr q (table s) xs" and "i \<notin> set xs" and "bt_get (table s) i \<noteq> None"
  shows "queue_repr q' (table s') (xs @ [i])" and "blocked s' = (blocked s)(i := True)"
    and "\<And>j. j \<noteq> i \<Longrightarrow> j \<notin> set xs \<Longrightarrow> ptrs (table s') j = ptrs (table s) j"
proof -
  obtain t' where e: "enqueue_links i q (table s) = (q', t')"
    and s': "table s' = upd i (\<lambda>p. p\<lparr>pstate := Blocked, block_reason := Some reason\<rparr>) t'"
    using assms(1,2) by (auto simp: prepare_wait_def enqueue_internal_def split: prod.splits bind_splits)
  have ptr: "ptrs (table s') = ptrs t'" by (auto simp: s' ptrs_upd fun_eq_iff ptrs_def)
  show "queue_repr q' (table s') (xs @ [i])" using enqueue_repr [OF assms(3-5) e] repr_ptrs [OF ptr] by simp
  have c: "cores t' = cores (table s)" by (rule enqueue_cores [OF e])
  have "blocked s' j = ((blocked s)(i := True)) j" for j
  proof (cases "j = i")
    case True
    have "cores t' i = cores (table s) i" using c by simp
    then have "bt_get t' i \<noteq> None" using assms(5) by (cases "bt_get t' i") (auto simp: cores_def)
    then show ?thesis using True by (auto simp: blocked_def s' map_of_upd)
  next
    case False
    have "blocked (s\<lparr>table := t'\<rparr>) j = blocked s j" using blocked_cores [of "s\<lparr>table := t'\<rparr>" s] c by simp
    then show ?thesis using False by (simp add: blocked_def s' map_of_upd)
  qed
  then show "blocked s' = (blocked s)(i := True)" by auto
  show "ptrs (table s') j = ptrs (table s) j" if "j \<noteq> i" "j \<notin> set xs" for j
  proof -
    have "q_tail q \<noteq> Some j" using assms(3) that(2) last_in_set [of xs] by (auto simp: queue_repr_def last_or_def)
    then show ?thesis using e that(1) ptr by (auto simp: enqueue_links_def Let_def ptrs_upd split: option.splits)
  qed
qed

lemma finish_wait_effect:
  assumes "finish_wait cpu q s = (q', s')" and "current_for_cpu cpu s = Some i"
    and "queue_repr q (table s) xs" and "i \<notin> set xs \<Longrightarrow> ptrs (table s) i = Some (None, None)"
  shows "queue_repr q' (table s') (remove1 i xs)" and "blocked s' = (blocked s)(i := False)"
    and "ptrs (table s') i = Some (None, None)"
    and "\<And>j. j \<noteq> i \<Longrightarrow> j \<notin> set xs \<Longrightarrow> ptrs (table s') j = ptrs (table s) j"
proof -
  obtain t' where r: "remove_links i q (table s) = (q', t')"
    and s': "table s' = upd i (\<lambda>p. if pstate p = Blocked then p\<lparr>pstate := Running, block_reason := None\<rparr> else p) t'"
    using assms(1,2) by (auto simp: finish_wait_def remove_internal_def split: prod.splits)
  have ptr: "ptrs (table s') = ptrs t'" by (auto simp: s' ptrs_upd fun_eq_iff ptrs_def intro!: option.map_cong)
  have c: "cores t' = cores (table s)" by (rule remove_cores [OF r])
  have "blocked s' j = ((blocked s)(i := False)) j" for j
  proof (cases "j = i")
    case True
    then show ?thesis by (auto simp: blocked_def s' map_of_upd split: option.splits)
  next
    case False
    have "blocked (s\<lparr>table := t'\<rparr>) j = blocked s j" using blocked_cores [of "s\<lparr>table := t'\<rparr>" s] c by simp
    then show ?thesis using False by (simp add: blocked_def s' map_of_upd)
  qed
  then show "blocked s' = (blocked s)(i := False)" by auto
  have "queue_repr q' t' (remove1 i xs) \<and> ptrs t' i = Some (None, None) \<and>
      (\<forall>j. j \<noteq> i \<longrightarrow> j \<notin> set xs \<longrightarrow> ptrs t' j = ptrs (table s) j)"
  proof (cases "i \<in> set xs")
    case True
    then obtain as bs where xs: "xs = as @ i # bs" "i \<notin> set as" by (meson split_list_first)
    have "remove1 i xs = as @ bs" using xs by (simp add: remove1_append)
    then show ?thesis using remove_repr [OF assms(3) [unfolded xs(1)] r] xs by auto
  next
    case False
    note absent = remove_absent [OF assms(3) False assms(4) [OF False] r]
    then show ?thesis using False assms(3,4) repr_ptrs [of t' "table s" q xs] by (simp add: remove1_idem)
  qed
  then show "queue_repr q' (table s') (remove1 i xs)" "ptrs (table s') i = Some (None, None)"
    "\<And>j. j \<noteq> i \<Longrightarrow> j \<notin> set xs \<Longrightarrow> ptrs (table s') j = ptrs (table s) j"
    using ptr repr_ptrs [OF ptr] by auto
qed

lemma wake_one_head:
  assumes "queue_repr q (table s) (x # xs)" and "wakeable s x"
  obtains q' s' where "wake_one q s = Some (Some x, q', s')" and "queue_repr q' (table s') xs"
    and "ptrs (table s') x = Some (None, None)" and "\<And>i. i \<notin> set (x # xs) \<Longrightarrow> ptrs (table s') i = ptrs (table s) i"
    and "cores (table s') = awake_set {x} s"
proof -
  from dequeue_repr [OF assms(1)] obtain q1 t1 where d: "dequeue_links q (table s) = (Some x, q1, t1)"
    and r1: "queue_repr q1 t1 xs" "ptrs t1 x = Some (None, None)" "\<forall>i. i \<notin> set (x # xs) \<longrightarrow> ptrs t1 i = ptrs (table s) i"
    by blast
  let ?s1 = "s\<lparr>table := t1\<rparr>"
  have c1: "cores t1 = cores (table s)" by (rule dequeue_cores [OF d])
  have "wakeable ?s1 x" using assms(2) wakeable_cong [of ?s1 x s] c1 by simp
  then obtain w s2 where w: "wake_try x ?s1 = Some (w, s2)" using wake_try_None [of x ?s1] by auto
  note f = wake_try_Some [OF w]
  have "wake_one q s = Some (Some x, q1, s2)"
    using w f(1) by (subst wake_one.simps) (simp add: dequeue_internal_def d)
  moreover have "awake_set {x} ?s1 = awake_set {x} s" using awake_set_cong [of ?s1 s] c1 by simp
  ultimately show ?thesis using that [of q1 s2] f(2,5) r1 repr_ptrs [OF f(2), of q1 xs] by simp
qed

lemma wake_one_effect:
  assumes "wake_one q s = Some (r, q', s')" and "queue_repr q (table s) xs" and "\<And>i. i \<in> set xs \<Longrightarrow> blocked s i"
  shows "queue_repr q' (table s') (tl xs)"
    and "blocked s' = (\<lambda>i. blocked s i \<and> \<not> (xs \<noteq> [] \<and> i = hd xs))"
    and "\<And>j. j \<notin> set xs \<Longrightarrow> ptrs (table s') j = ptrs (table s) j"
    and "xs \<noteq> [] \<Longrightarrow> ptrs (table s') (hd xs) = Some (None, None)"
proof -
  have "queue_repr q' (table s') (tl xs) \<and> blocked s' = (\<lambda>i. blocked s i \<and> \<not> (xs \<noteq> [] \<and> i = hd xs)) \<and>
      (\<forall>j. j \<notin> set xs \<longrightarrow> ptrs (table s') j = ptrs (table s) j) \<and> (xs \<noteq> [] \<longrightarrow> ptrs (table s') (hd xs) = Some (None, None))"
  proof (cases xs)
    case Nil
    with assms(1,2) show ?thesis
      by (subst (asm) wake_one.simps) (auto simp: dequeue_internal_def dequeue_empty)
  next
    case (Cons x ys)
    then have "wakeable s x" using assms(3) [of x] by (auto simp: blocked_def wakeable_def split: option.splits)
    then obtain q2 s2 where h: "wake_one q s = Some (Some x, q2, s2)" "queue_repr q2 (table s2) ys"
      "ptrs (table s2) x = Some (None, None)" "\<And>i. i \<notin> set (x # ys) \<Longrightarrow> ptrs (table s2) i = ptrs (table s) i"
      "cores (table s2) = awake_set {x} s"
      using wake_one_head [OF assms(2) [unfolded Cons]] by blast
    have "blocked s2 i = (blocked s i \<and> i \<noteq> x)" for i
      by (auto simp: blocked_by_cores h(5) awake_set_def awake_def split: option.splits)
    then show ?thesis using h(1-4) assms(1) Cons by auto
  qed
  then show "queue_repr q' (table s') (tl xs)" "blocked s' = (\<lambda>i. blocked s i \<and> \<not> (xs \<noteq> [] \<and> i = hd xs))"
    "\<And>j. j \<notin> set xs \<Longrightarrow> ptrs (table s') j = ptrs (table s) j"
    "xs \<noteq> [] \<Longrightarrow> ptrs (table s') (hd xs) = Some (None, None)" by auto
qed

subsection \<open>The queue holds the blocked threads of the protocol\<close>

definition sync_ok :: "'r sync \<Rightarrow> nat list \<Rightarrow> bool" where
  "sync_ok s xs \<longleftrightarrow> queue_repr (sy_queue s) (table (sy_sched s)) xs \<and>
     (\<forall>i\<in>set xs. blocked (sy_sched s) i \<and> sy_pc s i \<in> {Retry, Park, Finish True}) \<and>
     (\<forall>i. in_protocol s i \<longrightarrow> i \<notin> set xs \<longrightarrow> \<not> blocked (sy_sched s) i \<and> ptrs (table (sy_sched s)) i = Some (None, None))"

text \<open>The cases of a part, with the new state of the thread.\<close>

lemma wait_section_cases:
  assumes "wait_section try_it cpu i s = Some t"
  obtains
    (take_first) r where "sy_pc s i = Try" "try_it (sy_res s) = Some r" "t = s\<lparr>sy_res := r, sy_pc := (sy_pc s)(i := Acquired)\<rparr>"
  | (busy) "sy_pc s i = Try" "try_it (sy_res s) = None" "t = s\<lparr>sy_pc := (sy_pc s)(i := Prepare)\<rparr>"
  | (queue_up) q sc where "sy_pc s i = Prepare" "prepare_wait cpu Generic (sy_queue s) (sy_sched s) = Some (q, sc)"
      "t = s\<lparr>sy_queue := q, sy_sched := sc, sy_pc := (sy_pc s)(i := Retry)\<rparr>"
  | (take_second) r where "sy_pc s i = Retry" "try_it (sy_res s) = Some r"
      "t = s\<lparr>sy_res := r, sy_pc := (sy_pc s)(i := Finish True)\<rparr>"
  | (still_busy) "sy_pc s i = Retry" "try_it (sy_res s) = None" "t = s\<lparr>sy_pc := (sy_pc s)(i := Park)\<rparr>"
  | (resumed) "sy_pc s i = Park" "\<not> blocked (sy_sched s) i" "t = s\<lparr>sy_pc := (sy_pc s)(i := Finish False)\<rparr>"
  | (leave) won q sc where "sy_pc s i = Finish won" "finish_wait cpu (sy_queue s) (sy_sched s) = (q, sc)"
      "t = s\<lparr>sy_queue := q, sy_sched := sc, sy_pc := (sy_pc s)(i := if won then Acquired else Try)\<rparr>"
  using assms by (cases "sy_pc s i") (auto simp: wait_section_def Let_def split: option.splits bind_splits if_splits prod.splits)

lemma sync_ok_cong:
  assumes "sync_ok s xs" and "sy_queue t = sy_queue s"
    and "\<And>i. in_protocol s i \<Longrightarrow> ptrs (table (sy_sched t)) i = ptrs (table (sy_sched s)) i \<and> blocked (sy_sched t) i = blocked (sy_sched s) i"
    and "\<And>i. i \<in> set xs \<Longrightarrow> sy_pc t i \<in> {Retry, Park, Finish True}"
    and "\<And>i. in_protocol t i \<Longrightarrow> i \<notin> set xs \<Longrightarrow> in_protocol s i"
  shows "sync_ok t xs"
proof -
  have mem: "in_protocol s i" if "i \<in> set xs" for i using assms(1) that by (auto simp: sync_ok_def in_protocol_def)
  have "links (table (sy_sched t)) None xs None = links (table (sy_sched s)) None xs None"
    using mem assms(3) by (intro links_cong) blast
  then show ?thesis using assms mem by (auto simp: sync_ok_def queue_repr_def)
qed

lemma sync_ok_blocked: "sync_ok s xs \<Longrightarrow> in_protocol s i \<Longrightarrow> i \<in> set xs \<longleftrightarrow> blocked (sy_sched s) i"
  by (auto simp: sync_ok_def)

lemma sync_ok_pc:
  assumes "sync_ok s xs" and "sy_queue t = sy_queue s" and "sy_sched t = sy_sched s" and "sy_pc t = (sy_pc s)(i := p)"
    and "in_protocol s i \<or> p \<in> {Idle, Acquired}" and "i \<in> set xs \<Longrightarrow> p \<in> {Retry, Park, Finish True}"
  shows "sync_ok t xs"
  using assms by (intro sync_ok_cong [OF assms(1)]) (auto simp: sync_ok_def in_protocol_def split: if_splits)

lemma sync_ok_section:
  assumes "sync_ok s xs" and "current_for_cpu cpu (sy_sched s) = Some i" and "wait_section try_it cpu i s = Some t"
  shows "\<exists>ys. sync_ok t ys"
  using assms(3)
proof (cases rule: wait_section_cases)
  case (queue_up q sc)
  have i: "i \<notin> set xs" "in_protocol s i" using assms(1) queue_up(1) by (auto simp: sync_ok_def in_protocol_def)
  then have g: "bt_get (table (sy_sched s)) i \<noteq> None" using assms(1) by (auto simp: sync_ok_def ptrs_def)
  have r: "queue_repr (sy_queue s) (table (sy_sched s)) xs" using assms(1) by (simp add: sync_ok_def)
  note e = prepare_wait_effect [OF queue_up(2) assms(2) r i(1) g]
  have "in_protocol t j \<Longrightarrow> in_protocol s j" for j using queue_up(1,3) by (cases "j = i") (auto simp: in_protocol_def)
  then have "sync_ok t (xs @ [i])" using assms(1) e queue_up(3) by (auto simp: sync_ok_def)
  then show ?thesis by blast
next
  case (leave won q sc)
  have r: "queue_repr (sy_queue s) (table (sy_sched s)) xs" using assms(1) by (simp add: sync_ok_def)
  have i: "in_protocol s i" using leave(1) by (simp add: in_protocol_def)
  then have "i \<notin> set xs \<Longrightarrow> ptrs (table (sy_sched s)) i = Some (None, None)" using assms(1) by (simp add: sync_ok_def)
  note e = finish_wait_effect [OF leave(2) assms(2) r this]
  have "in_protocol t j \<Longrightarrow> in_protocol s j" for j using leave(1,3) by (cases "j = i") (auto simp: in_protocol_def)
  moreover have "set (remove1 i xs) = set xs - {i}" using r by (simp add: queue_repr_def)
  ultimately have "sync_ok t (remove1 i xs)" using assms(1) e leave(3) by (auto simp: sync_ok_def)
  then show ?thesis by blast
qed (use assms(1) in \<open>auto simp: sync_ok_def in_protocol_def intro!: exI [of _ xs] sync_ok_pc [OF assms(1), unfolded sync_ok_def]\<close>)

lemma wait_section_frame:
  assumes "sync_ok s xs" and "current_for_cpu cpu (sy_sched s) = Some i" and "wait_section try_it cpu i s = Some t" and "j \<noteq> i"
  shows "sy_pc t j = sy_pc s j" and "blocked (sy_sched t) j = blocked (sy_sched s) j"
proof -
  have r: "queue_repr (sy_queue s) (table (sy_sched s)) xs" using assms(1) by (simp add: sync_ok_def)
  have i: "i \<notin> set xs \<Longrightarrow> in_protocol s i \<Longrightarrow> ptrs (table (sy_sched s)) i = Some (None, None)"
    using assms(1) by (simp add: sync_ok_def)
  from assms(3) have "sy_pc t j = sy_pc s j \<and> blocked (sy_sched t) j = blocked (sy_sched s) j"
  proof (cases rule: wait_section_cases)
    case (queue_up q sc)
    then have "in_protocol s i" "i \<notin> set xs" using assms(1) by (auto simp: sync_ok_def in_protocol_def)
    moreover from this i have "bt_get (table (sy_sched s)) i \<noteq> None" by (auto simp: ptrs_def)
    ultimately show ?thesis using prepare_wait_effect(2) [OF queue_up(2) assms(2) r] queue_up(3) assms(4) by simp
  next
    case (leave won q sc)
    then have "in_protocol s i" by (simp add: in_protocol_def)
    then show ?thesis using finish_wait_effect(2) [OF leave(2) assms(2) r] i leave(3) assms(4) by simp
  qed (use assms(4) in auto)
  then show "sy_pc t j = sy_pc s j" "blocked (sy_sched t) j = blocked (sy_sched s) j" by simp_all
qed

lemma sync_ok_wake:
  assumes "sync_ok s xs" and "wake_section s = Some t"
  shows "sync_ok t (tl xs)" and "sy_pc t = sy_pc s" and "sy_res t = sy_res s" and "sy_wakes s = Suc (sy_wakes t)"
    and "blocked (sy_sched t) = (\<lambda>i. blocked (sy_sched s) i \<and> \<not> (xs \<noteq> [] \<and> i = hd xs))"
proof -
  obtain r q sc where w: "wake_one (sy_queue s) (sy_sched s) = Some (r, q, sc)"
    and t: "t = s\<lparr>sy_queue := q, sy_sched := sc, sy_wakes := sy_wakes s - 1\<rparr>" and n: "sy_wakes s \<noteq> 0"
    using assms(2) by (auto simp: wake_section_def split: if_splits bind_splits)
  have rep: "queue_repr (sy_queue s) (table (sy_sched s)) xs" and bl: "\<And>i. i \<in> set xs \<Longrightarrow> blocked (sy_sched s) i"
    using assms(1) by (auto simp: sync_ok_def)
  note e = wake_one_effect [OF w rep bl]
  show "sy_pc t = sy_pc s" "sy_res t = sy_res s" "sy_wakes s = Suc (sy_wakes t)"
    "blocked (sy_sched t) = (\<lambda>i. blocked (sy_sched s) i \<and> \<not> (xs \<noteq> [] \<and> i = hd xs))"
    using e(2) n by (simp_all add: t)
  show "sync_ok t (tl xs)"
  proof (cases xs)
    case Nil
    then show ?thesis using assms(1) e by (auto simp: sync_ok_def t in_protocol_def)
  next
    case (Cons x ys)
    then have "x \<notin> set ys" using rep by (simp add: queue_repr_def)
    moreover have "ptrs (table sc) i = Some (None, None)" if "in_protocol s i" "i \<notin> set ys" for i
      using assms(1) e(3) [of i] e(4) Cons that by (cases "i = x") (auto simp: sync_ok_def)
    ultimately show ?thesis using assms(1) e(1,2) Cons by (auto simp: sync_ok_def t in_protocol_def)
  qed
qed

lemma sync_ok_step:
  assumes "sync_step try_it rel anyone s t" and "sync_ok s xs"
  shows "\<exists>ys. sync_ok t ys"
  using assms
proof (cases rule: sync_step.cases)
  case (enter i)
  then have "sync_ok t xs" using assms(2) by (auto simp: sync_ok_def in_protocol_def)
  then show ?thesis by blast
next
  case (run_part cpu i)
  then show ?thesis using sync_ok_section [OF assms(2)] by blast
next
  case wake_up
  then show ?thesis using sync_ok_wake(1) [OF assms(2)] by blast
next
  case (other sc)
  have "sync_ok t xs" by (rule sync_ok_cong [OF assms(2)]) (use other assms(2) in \<open>auto simp: sync_ok_def in_protocol_def\<close>)
  then show ?thesis by blast
qed (rule exI [of _ xs], rule sync_ok_cong [OF assms(2)],
  use assms(2) in \<open>auto simp: sync_ok_def in_protocol_def release_section_def split: if_splits\<close>)+

lemma sync_ok_init: "sync_ok (sync_init r sc) []"
  by (simp add: sync_ok_def sync_init_def queue_repr_def new_queue_def in_protocol_def)

subsection \<open>The sleeping mutex\<close>

abbreviation mutex_step :: "bool sync \<Rightarrow> bool sync \<Rightarrow> bool" where
  "mutex_step \<equiv> sync_step mutex_try_lock mutex_release False"

definition holder :: "'r sync \<Rightarrow> nat \<Rightarrow> bool" where
  "holder s i \<longleftrightarrow> sy_pc s i \<in> {Finish True, Acquired}"

text \<open>A thread asleep in \<^verbatim>\<open>schedule\<close>, and a thread that is going to try for the lock without anybody's help.\<close>

definition asleep :: "'r sync \<Rightarrow> nat \<Rightarrow> bool" where
  "asleep s i \<longleftrightarrow> sy_pc s i = Park \<and> blocked (sy_sched s) i"

definition on_its_way :: "'r sync \<Rightarrow> nat \<Rightarrow> bool" where
  "on_its_way s i \<longleftrightarrow> sy_pc s i \<in> {Try, Finish False} \<or> sy_pc s i \<in> {Retry, Park} \<and> \<not> blocked (sy_sched s) i"

definition wake_coming :: "'r sync \<Rightarrow> bool" where
  "wake_coming s \<longleftrightarrow> sy_wakes s > 0 \<or> (\<exists>i. on_its_way s i)"

definition mutex_inv :: "bool sync \<Rightarrow> bool" where
  "mutex_inv s \<longleftrightarrow> (\<exists>xs. sync_ok s xs) \<and> (\<forall>i j. holder s i \<longrightarrow> holder s j \<longrightarrow> i = j) \<and>
     (sy_res s \<longleftrightarrow> (\<exists>i. holder s i)) \<and> (\<not> sy_res s \<longrightarrow> (\<exists>i. asleep s i) \<longrightarrow> wake_coming s)"

lemma mutex_inv_section:
  assumes "mutex_inv s" and "current_for_cpu cpu (sy_sched s) = Some i" and "wait_section mutex_try_lock cpu i s = Some t"
  shows "mutex_inv t"
proof -
  obtain xs ys where ok: "sync_ok s xs" "sync_ok t ys"
    using assms sync_ok_section by (metis mutex_inv_def)
  note fr = wait_section_frame [OF ok(1) assms(2,3)]
  then have keep: "holder t j = holder s j" "asleep t j = asleep s j" "on_its_way t j = on_its_way s j" if "j \<noteq> i" for j
    using that by (simp_all add: holder_def asleep_def on_its_way_def)
  have I: "\<forall>i j. holder s i \<longrightarrow> holder s j \<longrightarrow> i = j" "sy_res s \<longleftrightarrow> (\<exists>i. holder s i)"
    "\<not> sy_res s \<longrightarrow> (\<exists>i. asleep s i) \<longrightarrow> wake_coming s" using assms(1) by (simp_all add: mutex_inv_def)
  have R: "sy_res t \<and> \<not> sy_res s \<and> holder t i \<or> sy_res t = sy_res s \<and> holder t i = holder s i"
    using assms(3) by (cases rule: wait_section_cases) (auto simp: holder_def mutex_try_lock_def split: if_splits)
  have W: "sy_wakes t = sy_wakes s" "on_its_way t i \<or> sy_res t \<or> \<not> on_its_way s i \<and> \<not> asleep t i"
    using assms(3)
    by (cases rule: wait_section_cases; auto simp: on_its_way_def asleep_def mutex_try_lock_def split: if_splits)+
  have "wake_coming t" if "\<not> sy_res t" "asleep t j" for j
  proof (cases "on_its_way t i")
    case False
    with W(2) that have "\<not> on_its_way s i" "j \<noteq> i" by auto
    moreover from this that R I(3) keep(2) have "wake_coming s" by blast
    ultimately show ?thesis using W(1) keep(3) by (metis wake_coming_def)
  qed (auto simp: wake_coming_def)
  moreover have "\<forall>i j. holder t i \<longrightarrow> holder t j \<longrightarrow> i = j" "sy_res t \<longleftrightarrow> (\<exists>i. holder t i)"
    using R I(1,2) keep(1) by metis+
  ultimately show ?thesis using ok(2) by (auto simp: mutex_inv_def)
qed

lemma mutex_inv_wake:
  assumes "mutex_inv s" and "wake_section s = Some t"
  shows "mutex_inv t"
proof -
  obtain xs where ok: "sync_ok s xs" using assms(1) by (auto simp: mutex_inv_def)
  note e = sync_ok_wake [OF ok assms(2)]
  have "wake_coming t" if "\<not> sy_res t" "asleep t j" for j
  proof (cases xs)
    case Nil
    then show ?thesis using that(2) e(2,5) ok sync_ok_blocked [OF ok, of j] by (auto simp: asleep_def in_protocol_def)
  next
    case (Cons x ys)
    then have "sy_pc s x \<in> {Retry, Park, Finish True}" using ok by (simp add: sync_ok_def)
    moreover have "sy_pc s x \<noteq> Finish True" using that(1) e(3) assms(1) by (auto simp: mutex_inv_def holder_def)
    ultimately have "on_its_way t x" using e(2,5) Cons by (auto simp: on_its_way_def)
    then show ?thesis by (auto simp: wake_coming_def)
  qed
  then show ?thesis using assms(1) e(1-3) by (auto simp: mutex_inv_def holder_def)
qed

lemma mutex_inv_step:
  assumes "mutex_step s t" and "mutex_inv s"
  shows "mutex_inv t"
proof -
  obtain xs ys where ok: "sync_ok s xs" "sync_ok t ys" using assms sync_ok_step by (metis mutex_inv_def)
  note I = assms(2) [unfolded mutex_inv_def]
  from assms(1) show ?thesis
  proof (cases rule: sync_step.cases)
    case (enter i)
    then have "holder t j = holder s j" for j by (cases "j = i") (auto simp: holder_def)
    moreover have "on_its_way t i" using enter by (simp add: on_its_way_def)
    ultimately show ?thesis using I ok(2) enter(1) by (auto simp: mutex_inv_def wake_coming_def)
  next
    case (run_part cpu i)
    then show ?thesis using mutex_inv_section assms(2) by blast
  next
    case (drop_guard i)
    then have "\<not> holder t j" for j using I by (cases "j = i") (auto simp: holder_def release_section_def)
    then show ?thesis using drop_guard ok(2)
      by (auto simp: mutex_inv_def wake_coming_def release_section_def mutex_release_def)
  next
    case wake_up
    then show ?thesis using mutex_inv_wake assms(2) by blast
  next
    case (other sc)
    then have "blocked (sy_sched t) j = blocked (sy_sched s) j" if "sy_pc s j \<in> {Park, Retry}" for j
      using that by (auto simp: in_protocol_def)
    then have "holder t = holder s" "asleep t = asleep s" "on_its_way t = on_its_way s"
      using other(1) by (auto simp: fun_eq_iff holder_def asleep_def on_its_way_def)
    then show ?thesis using I ok(2) other(1) by (auto simp: mutex_inv_def wake_coming_def)
  qed simp
qed

lemma mutex_inv_reachable: "mutex_step\<^sup>*\<^sup>* (sync_init False sc) s \<Longrightarrow> mutex_inv s"
proof (induction rule: rtranclp_induct)
  case base
  show ?case using sync_ok_init [of False sc] by (auto simp: mutex_inv_def holder_def asleep_def sync_init_def)
qed (rule mutex_inv_step)

text \<open>
  C10. The sleeping mutex in every interleaving of any number of threads on any number of CPUs: at most one thread holds
  it, the lock word is set exactly when one does, and while a thread sleeps and the lock is free, a wake-up is still
  to come or another thread is going to try: no release is missed by a thread that sleeps in \<^verbatim>\<open>schedule\<close>.
\<close>

theorem sleep_mutex_excludes_and_wakes:
  assumes "mutex_step\<^sup>*\<^sup>* (sync_init False sc) s"
  shows "(holder s i \<and> holder s j \<longrightarrow> i = j) \<and> (sy_res s \<longleftrightarrow> (\<exists>i. holder s i)) \<and>
    (asleep s i \<and> \<not> sy_res s \<longrightarrow> sy_wakes s > 0 \<or> (\<exists>j. on_its_way s j))"
  using mutex_inv_reachable [OF assms] by (auto simp: mutex_inv_def wake_coming_def)

definition demo_smp :: scheduler where
  "demo_smp = \<lparr>table = [(0, new_process ''idle''), (1, (new_process ''a'')\<lparr>pstate := Running, on_cpu := Some 0\<rparr>),
        (2, (new_process ''b'')\<lparr>pstate := Running, on_cpu := Some 1\<rparr>)],
      ready = [], current = [Some 1, Some 2, None, None, None, None, None, None], sleep_queue = new_queue\<rparr>"

lemmas sync_run_simps = sync_init_def demo_smp_def wait_section_def mutex_try_lock_def mutex_release_def release_section_def
  wake_section_def sem_try_wait_def sem_release_def blocked_def ptrs_def current_for_cpu_def MAX_CPUS_def prepare_wait_def
  finish_wait_def enqueue_internal_def remove_internal_def enqueue_links_def remove_links_def upd_def new_queue_def
  wake_one.simps dequeue_internal_def dequeue_links.simps wake_try_def is_running_on_any_cpu_def asleep_def Let_def
  new_process_def

lemma demo_contended:
  "case sync_run mutex_try_lock mutex_release False [Enter 1, Part 0, Enter 2, Part 1, Part 1, Part 1, Drop_Guard 1]
       (sync_init False demo_smp) of None \<Rightarrow> False | Some s \<Rightarrow> asleep s 2 \<and> \<not> sy_res s"
  by (simp add: sync_run_simps)

theorem sleep_mutex_excludes_and_wakes_witness:
  "\<exists>s. mutex_step\<^sup>*\<^sup>* (sync_init False demo_smp) s \<and> asleep s 2 \<and> \<not> sy_res s \<and> (sy_wakes s > 0 \<or> (\<exists>j. on_its_way s j))"
proof -
  obtain s where s: "sync_run mutex_try_lock mutex_release False [Enter 1, Part 0, Enter 2, Part 1, Part 1, Part 1, Drop_Guard 1]
      (sync_init False demo_smp) = Some s" "asleep s 2" "\<not> sy_res s"
    using demo_contended by (auto split: option.splits)
  from sync_run_steps [OF s(1)] sleep_mutex_excludes_and_wakes [of demo_smp s] s(2,3) show ?thesis by blast
qed

subsection \<open>Where a wake-up is lost\<close>

text \<open>
  Two signals for two waiting threads: the first finds the queue empty, the second wakes the thread that has taken the
  permit of the first and only has to leave the queue.
\<close>

definition two_signals :: "sync_act list" where
  "two_signals = [Enter 1, Enter 2, Part 0, Part 1, Signal, Wake, Part 0, Part 1, Part 0, Part 1, Signal, Wake, Part 0]"

lemma two_signals_run:
  "case sync_run sem_try_wait sem_release True two_signals (sync_init 0 demo_smp) of None \<Rightarrow> False
   | Some s \<Rightarrow> asleep s 2 \<and> sy_res s = 1 \<and> sy_wakes s = 0 \<and> sy_pc s = (\<lambda>_. Idle)(2 := Park, 1 := Acquired)"
  by (simp add: sync_run_simps two_signals_def)

text \<open>
  The semaphore has no such guarantee: from a semaphore with no permit, two threads that wait and two signals lead to a
  state where one thread sleeps although a permit is available, no wake-up is pending and no thread is on its way.
\<close>

theorem semaphore_loses_wakeup:
  "\<exists>s. (sync_step sem_try_wait sem_release True)\<^sup>*\<^sup>* (sync_init 0 demo_smp) s \<and>
     asleep s 2 \<and> sy_res s = 1 \<and> sy_wakes s = 0 \<and> (\<nexists>j. on_its_way s j)"
proof -
  obtain s where s: "sync_run sem_try_wait sem_release True two_signals (sync_init 0 demo_smp) = Some s"
    "asleep s 2" "sy_res s = 1" "sy_wakes s = 0" "sy_pc s = (\<lambda>_. Idle)(2 := Park, 1 := Acquired)"
    using two_signals_run by (auto split: option.splits)
  have "\<not> on_its_way s j" for j using s(2,5) by (auto simp: on_its_way_def asleep_def)
  with sync_run_steps [OF s(1)] s(2-4) show ?thesis by blast
qed

text \<open>
  The holder releases between the first try and the queueing of the waiter, and the timer interrupt comes between the
  queueing and the second try.
\<close>

definition late_queueing :: "sync_act list" where
  "late_queueing = [Enter 2, Part 1, Enter 1, Part 0, Drop_Guard 2, Wake, Part 0]"

text \<open>
  A thread that is preempted between \<^verbatim>\<open>prepare_wait\<close> and its second try is lost: it is marked as blocked, so the scheduler
  does not put it back on the run queue, and with the lock free nobody is left to wake it.
\<close>

theorem preempted_waiter_is_lost:
  "\<exists>s k. sync_run mutex_try_lock mutex_release False late_queueing (sync_init False demo_smp) = Some s \<and>
     \<not> sy_res s \<and> sy_wakes s = 0 \<and> sy_pc s 1 = Retry \<and>
     timer_tick 0 7 True (boot_kernel\<lparr>sched := sy_sched s, preempt := replicate MAX_CPUS True\<rparr>) = Some (Switch (Some 1) 0, k) \<and>
     blocked (sched k) 1 \<and> 1 \<notin> set (kready k) \<and> Some 1 \<notin> set (current (sched k)) \<and> sleep_queue (sched k) = new_queue"
  by (simp add: sync_run_simps late_queueing_def timer_tick_def boot_kernel_def schedule_internal_def
      poll_sleeping_processes_locked_def poll_sleeping_from.simps requeue_current_def pick_next_def hint_ok_def
      set_current_for_cpu_def run_on_def arm_quantum_def numeral_eq_Suc)

subsection \<open>Condition variables\<close>

text \<open>
  A notification that comes after \<^verbatim>\<open>wait\<close> has queued the caller, hence any that is sent under the lock after the caller
  gave the lock up, is not missed: on an empty queue it makes exactly this thread runnable again.
\<close>

theorem notify_reaches_queued_waiter:
  assumes "queue_repr q (table s) []" and "current_for_cpu cpu s = Some i" and "bt_get (table s) i \<noteq> None"
    and "condvar_prepare cpu q s = Some (q1, s1)" and "notify_one q1 s1 = Some (q2, s2)"
  shows "blocked s1 i \<and> \<not> blocked s2 i \<and> queue_repr q2 (table s2) [] \<and> (\<forall>j. j \<noteq> i \<longrightarrow> blocked s2 j = blocked s j)"
proof -
  note p = prepare_wait_effect [OF assms(4) [unfolded condvar_prepare_def] assms(2,1) _ assms(3), simplified]
  obtain r where "wake_one q1 s1 = Some (r, q2, s2)"
    using assms(5) by (auto simp: notify_one_def split: bind_splits)
  note w = wake_one_effect [OF this p(1)]
  show ?thesis using p(2) w(1,2) by auto
qed

end
