(* ===== verification/Access_Control.thy ===== *)
theory Access_Control
  imports Byte_Codec "HOL-Library.List_Lexorder" "HOL-Library.Char_ord"
begin

section \<open>Users, sessions and permission checks\<close>

text \<open>
  \<^verbatim>\<open>kernel/src/auth.rs\<close> (accounts with a salted password hash, lockout and sessions, and a check of POSIX mode bits) and
  \<^verbatim>\<open>kernel/src/security.rs\<close> (credentials with a capability mask, permission and file mode checks). Both are kept beside
  each other because they decide the same question, whether a user may open a file. The kernel is built with overflow
  checks, so the counters stop the kernel when they overflow, which is \<open>None\<close>.
\<close>

unbundle bit_operations_syntax

subsection \<open>Accounts and sessions\<close>

datatype auth_error = UserNotFound | InvalidPassword | AccountLocked | SessionNotFound | PermissionDenied

record user_record =
  ur_uid :: "16 word"
  ur_gid :: "16 word"
  ur_username :: string
  ur_home_dir :: string
  ur_shell :: string

record shadow_record =
  sh_username :: string
  salt :: "byte list"
  password_hash :: "byte list"
  failed_attempts :: nat
  sh_locked :: bool

record session =
  session_id :: nat
  se_uid :: "16 word"
  se_gid :: "16 word"
  se_username :: string
  se_pids :: "nat list"
  se_active :: bool

record auth_manager =
  am_users :: "(string, user_record) btree_map"
  am_shadow :: "(string, shadow_record) btree_map"
  am_sessions :: "(nat, session) btree_map"
  next_session_id :: nat

definition new_auth :: auth_manager where
  "new_auth = \<lparr>am_users = [], am_shadow = [], am_sessions = [], next_session_id = 1\<rparr>"

text \<open>One round of the FNV-1a loops.\<close>

definition fnv_round :: "byte \<Rightarrow> 64 word \<Rightarrow> 64 word" where
  "fnv_round b h = (h XOR ucast b) * 0x100000001b3"

definition compute_hash :: "byte list \<Rightarrow> byte list \<Rightarrow> byte list" where
  "compute_hash password slt =
     (let h = fold fnv_round slt (fold fnv_round password 0xcbf29ce484222325);
          bytes = rev (le_bytes 8 (unat h))
      in map (\<lambda>i. bytes ! (i mod 8) XOR word_of_nat i) [0..<32])"

text \<open>The salt of an account is its name, padded with zeros.\<close>

definition make_salt :: "string \<Rightarrow> byte list" where
  "make_salt name = map (\<lambda>i. if i < length name then word_of_nat (of_char (name ! i)) XOR 0xAA else 0) [0..<16]"

definition add_user :: "string \<Rightarrow> 16 word \<Rightarrow> 16 word \<Rightarrow> byte list \<Rightarrow> auth_manager \<Rightarrow> auth_manager" where
  "add_user name uid gid password a =
     (let user = \<lparr>ur_uid = uid, ur_gid = gid, ur_username = name,
                  ur_home_dir = (if uid = 0 then ''/root'' else ''/home/user''), ur_shell = ''/bin/sh''\<rparr>;
          slt = make_salt name;
          shadow = \<lparr>sh_username = name, salt = slt, password_hash = compute_hash password slt,
                    failed_attempts = 0, sh_locked = False\<rparr>
      in a\<lparr>am_users := bt_insert name user (am_users a), am_shadow := bt_insert name shadow (am_shadow a)\<rparr>)"

definition authenticate :: "string \<Rightarrow> byte list \<Rightarrow> auth_manager \<Rightarrow> ((auth_error, nat) result \<times> auth_manager) option" where
  "authenticate name password a =
     (case bt_get (am_shadow a) name of
        None \<Rightarrow> Some (Err UserNotFound, a)
      | Some sh \<Rightarrow>
          if sh_locked sh then Some (Err AccountLocked, a)
          else if compute_hash password (salt sh) \<noteq> password_hash sh then
            (if failed_attempts sh \<ge> 255 then None
             else let n = failed_attempts sh + 1;
                      sh' = sh\<lparr>failed_attempts := n, sh_locked := (if n \<ge> 3 then True else sh_locked sh)\<rparr>
                  in Some (Err InvalidPassword, a\<lparr>am_shadow := bt_insert name sh' (am_shadow a)\<rparr>))
          else
            let a1 = a\<lparr>am_shadow := bt_insert name (sh\<lparr>failed_attempts := 0\<rparr>) (am_shadow a)\<rparr> in
            (case bt_get (am_users a1) name of
               None \<Rightarrow> Some (Err UserNotFound, a1)
             | Some user \<Rightarrow>
                 if next_session_id a1 \<ge> 2 ^ 32 - 1 then None
                 else let sid = next_session_id a1;
                          se = \<lparr>session_id = sid, se_uid = ur_uid user, se_gid = ur_gid user, se_username = name,
                                se_pids = [], se_active = True\<rparr>
                      in Some (Ok sid, a1\<lparr>next_session_id := sid + 1, am_sessions := bt_insert sid se (am_sessions a1)\<rparr>)))"

definition logout :: "nat \<Rightarrow> auth_manager \<Rightarrow> (auth_error, unit) result \<times> auth_manager" where
  "logout sid a =
     (case bt_get (am_sessions a) sid of
        None \<Rightarrow> (Err SessionNotFound, a)
      | Some _ \<Rightarrow> (Ok (), a\<lparr>am_sessions := bt_remove sid (am_sessions a)\<rparr>))"

definition check_posix_permission :: "16 word \<Rightarrow> 16 word \<Rightarrow> 16 word \<Rightarrow> 16 word \<Rightarrow> 16 word \<Rightarrow> byte \<Rightarrow> bool" where
  "check_posix_permission uid gid inode_uid inode_gid mode requested_right =
     (if uid = 0 then True
      else let shift = (if uid = inode_uid then 6 else if gid = inode_gid then 3 else 0);
               perm = ucast (drop_bit shift mode AND 7) :: byte
           in perm AND requested_right = requested_right)"

subsection \<open>Credentials and capabilities\<close>

type_synonym cap_mask = "64 word"

definition SYS_ADMIN :: cap_mask where "SYS_ADMIN = push_bit 0 1"
definition FILE_READ :: cap_mask where "FILE_READ = push_bit 1 1"
definition FILE_WRITE :: cap_mask where "FILE_WRITE = push_bit 2 1"
definition CAP_NET :: cap_mask where "CAP_NET = push_bit 3 1"
definition SYS_TIME :: cap_mask where "SYS_TIME = push_bit 4 1"
definition SYS_RAWIO :: cap_mask where "SYS_RAWIO = push_bit 5 1"
definition SYS_MODULE :: cap_mask where "SYS_MODULE = push_bit 6 1"
definition PROCESS_KILL :: cap_mask where "PROCESS_KILL = push_bit 7 1"

definition mask_contains :: "cap_mask \<Rightarrow> cap_mask \<Rightarrow> bool" where "mask_contains c d \<longleftrightarrow> c AND d = d"
definition mask_add :: "cap_mask \<Rightarrow> cap_mask \<Rightarrow> cap_mask" where "mask_add c d = c OR d"
definition mask_remove :: "cap_mask \<Rightarrow> cap_mask \<Rightarrow> cap_mask" where "mask_remove c d = c AND NOT d"

datatype permission = Admin | ReadFile | WriteFile | Network | RawIo | SetTime | LoadModule | KillProcess

fun required_cap :: "permission \<Rightarrow> cap_mask" where
  "required_cap Admin = SYS_ADMIN"
| "required_cap ReadFile = FILE_READ"
| "required_cap WriteFile = FILE_WRITE"
| "required_cap Network = CAP_NET"
| "required_cap RawIo = SYS_RAWIO"
| "required_cap SetTime = SYS_TIME"
| "required_cap LoadModule = SYS_MODULE"
| "required_cap KillProcess = PROCESS_KILL"

datatype file_access = AccRead | AccWrite | AccExecute

text \<open>The mode bits for the owner, the group and the others.\<close>

fun mode_bits :: "file_access \<Rightarrow> 16 word \<times> 16 word \<times> 16 word" where
  "mode_bits AccRead = (256, 32, 4)"
| "mode_bits AccWrite = (128, 16, 2)"
| "mode_bits AccExecute = (64, 8, 1)"

record user =
  us_uid :: "32 word"
  us_gid :: "32 word"
  us_name :: string
  us_caps :: cap_mask

record group =
  gr_gid :: "32 word"
  gr_name :: string

record credentials =
  cr_uid :: "32 word"
  cr_gid :: "32 word"
  cr_groups :: "32 word list"
  cr_caps :: cap_mask

definition new_credentials :: "32 word \<Rightarrow> 32 word \<Rightarrow> credentials" where
  "new_credentials uid gid = \<lparr>cr_uid = uid, cr_gid = gid, cr_groups = [], cr_caps = 0\<rparr>"

definition root_credentials :: credentials where
  "root_credentials = \<lparr>cr_uid = 0, cr_gid = 0, cr_groups = [], cr_caps = NOT 0\<rparr>"

definition add_group :: "32 word \<Rightarrow> credentials \<Rightarrow> credentials" where
  "add_group gid c = (if gid \<notin> set (cr_groups c) then c\<lparr>cr_groups := cr_groups c @ [gid]\<rparr> else c)"

definition add_cap :: "cap_mask \<Rightarrow> credentials \<Rightarrow> credentials" where
  "add_cap cap c = c\<lparr>cr_caps := mask_add (cr_caps c) cap\<rparr>"

definition has_cap :: "cap_mask \<Rightarrow> credentials \<Rightarrow> bool" where
  "has_cap cap c = mask_contains (cr_caps c) cap"

definition is_root :: "credentials \<Rightarrow> bool" where
  "is_root c \<longleftrightarrow> cr_uid c = 0"

record security_manager =
  sm_users :: "user list"
  sm_groups :: "group list"

definition new_security :: security_manager where
  "new_security =
     \<lparr>sm_users = [\<lparr>us_uid = 0, us_gid = 0, us_name = ''root'', us_caps = NOT 0\<rparr>,
        \<lparr>us_uid = 1000, us_gid = 1000, us_name = ''user'', us_caps = mask_add (mask_add FILE_READ FILE_WRITE) CAP_NET\<rparr>,
        \<lparr>us_uid = 65534, us_gid = 65534, us_name = ''guest'', us_caps = 0\<rparr>],
      sm_groups = [\<lparr>gr_gid = 0, gr_name = ''root''\<rparr>, \<lparr>gr_gid = 1000, gr_name = ''user''\<rparr>,
        \<lparr>gr_gid = 65534, gr_name = ''nogroup''\<rparr>]\<rparr>"

definition get_user :: "32 word \<Rightarrow> security_manager \<Rightarrow> user option" where
  "get_user uid m = find (\<lambda>u. us_uid u = uid) (sm_users m)"

definition lookup_user :: "string \<Rightarrow> security_manager \<Rightarrow> user option" where
  "lookup_user name m = find (\<lambda>u. us_name u = name) (sm_users m)"

definition get_group :: "32 word \<Rightarrow> security_manager \<Rightarrow> group option" where
  "get_group gid m = find (\<lambda>g. gr_gid g = gid) (sm_groups m)"

definition credentials_for :: "32 word \<Rightarrow> security_manager \<Rightarrow> credentials option" where
  "credentials_for uid m =
     (case get_user uid m of
        None \<Rightarrow> None
      | Some u \<Rightarrow>
          let c = (new_credentials (us_uid u) (us_gid u))\<lparr>cr_caps := us_caps u\<rparr>
          in Some (case get_group (us_gid u) m of Some g \<Rightarrow> add_group (gr_gid g) c | None \<Rightarrow> c))"

definition syscall_capable :: "credentials \<Rightarrow> cap_mask \<Rightarrow> bool" where
  "syscall_capable c cap = (if is_root c then True else mask_contains (cr_caps c) cap)"

definition check_permission_for :: "credentials \<Rightarrow> permission \<Rightarrow> bool" where
  "check_permission_for c required = syscall_capable c (required_cap required)"

definition check_file_mode :: "credentials \<Rightarrow> file_access \<Rightarrow> 32 word \<Rightarrow> 32 word \<Rightarrow> 16 word \<Rightarrow> bool" where
  "check_file_mode c acc owner grp mode =
     (if is_root c then True
      else case mode_bits acc of (b0, b1, b2) \<Rightarrow>
        if cr_uid c = owner then mode AND b0 \<noteq> 0
        else if cr_gid c = grp \<or> grp \<in> set (cr_groups c) then mode AND b1 \<noteq> 0
        else mode AND b2 \<noteq> 0)"

subsection \<open>The password hash\<close>

text \<open>A round loses nothing: the multiplier has an inverse modulo \<open>2 ^ 64\<close>.\<close>

lemma fnv_prime_inverse: "(0x100000001b3 :: 64 word) * 0xce965057aff6957b = 1"
  by simp

lemma fnv_undo: "fnv_round b h * 0xce965057aff6957b = h XOR ucast b"
  unfolding fnv_round_def mult.assoc fnv_prime_inverse by simp

lemma fnv_round_inj:
  assumes "fnv_round b h = fnv_round b h'"
  shows "h = h'"
proof -
  from assms have "h XOR ucast b = h' XOR ucast b" by (metis fnv_undo)
  then have "(h XOR ucast b) XOR ucast b = (h' XOR ucast b) XOR ucast b" by simp
  then show ?thesis by (simp add: xor.assoc)
qed

lemma fnv_fold_inj: "fold fnv_round bs h = fold fnv_round bs h' \<Longrightarrow> h = h'"
  by (induction bs arbitrary: h h') (auto dest: fnv_round_inj)

lemma fnv_round_byte:
  assumes "fnv_round b h = fnv_round b' h"
  shows "b = b'"
proof -
  from assms have "h XOR ucast b = h XOR ucast b'" by (metis fnv_undo)
  then have "h XOR (h XOR ucast b) = h XOR (h XOR ucast b')" by simp
  then have "(ucast b :: 64 word) = ucast b'" by (simp flip: xor.assoc)
  then show ?thesis by transfer simp
qed

lemma hash_digest_inj:
  assumes "compute_hash p s = compute_hash q s'"
  shows "fold fnv_round s (fold fnv_round p 0xcbf29ce484222325) = fold fnv_round s' (fold fnv_round q 0xcbf29ce484222325)"
    (is "?h = ?h'")
proof -
  define u v where "u = le_bytes 8 (unat ?h)" and "v = le_bytes 8 (unat ?h')"
  have len: "length u = 8" "length v = 8" by (simp_all add: u_def v_def)
  have "rev u ! i = rev v ! i" if "i < 8" for i
  proof -
    have "compute_hash p s ! i = compute_hash q s' ! i" using assms by simp
    then have "rev u ! i XOR word_of_nat i = rev v ! i XOR word_of_nat i"
      using that by (simp add: compute_hash_def Let_def u_def v_def)
    then have "(rev u ! i XOR word_of_nat i) XOR word_of_nat i = (rev v ! i XOR word_of_nat i) XOR word_of_nat i" by simp
    then show ?thesis by (simp add: xor.assoc)
  qed
  then have "rev u = rev v" using len by (intro nth_equalityI) simp_all
  then have "le_val u = le_val v" by simp
  moreover have "unat x < 256 ^ 8" for x :: "64 word" using unsigned_less [of x, where 'a = nat] by simp
  ultimately have "unat ?h = unat ?h'" using le_val_le_bytes_id [of _ 8] by (simp add: u_def v_def)
  then show ?thesis by (simp only: word_unat_eq_iff)
qed

lemma one_byte_off:
  assumes "b \<noteq> b'"
  shows "compute_hash (p @ b # q) s \<noteq> compute_hash (p @ b' # q) s"
proof
  assume "compute_hash (p @ b # q) s = compute_hash (p @ b' # q) s"
  from hash_digest_inj [OF this] have "fnv_round b (fold fnv_round p 0xcbf29ce484222325) = fnv_round b' (fold fnv_round p 0xcbf29ce484222325)"
    by (auto dest: fnv_fold_inj)
  with assms show False by (blast dest: fnv_round_byte)
qed

text \<open>
  After \<^verbatim>\<open>add_user\<close> the account is opened by its password and only by a password with the same hash: the login creates a
  session of this user under a new number, and a password that differs in one byte is refused and counted.
\<close>

theorem password_opens_account:
  assumes "a = add_user name uid gid (p @ b # q) a0" and "next_session_id a0 < 2 ^ 32 - 1"
  shows "(\<exists>a1 se. authenticate name (p @ b # q) a = Some (Ok (next_session_id a0), a1) \<and>
      bt_get (am_sessions a1) (next_session_id a0) = Some se \<and> se_uid se = uid \<and> se_gid se = gid \<and> se_username se = name) \<and>
    (b' \<noteq> b \<longrightarrow> (\<exists>a2 sh. authenticate name (p @ b' # q) a = Some (Err InvalidPassword, a2) \<and>
      am_sessions a2 = am_sessions a0 \<and> bt_get (am_shadow a2) name = Some sh \<and> failed_attempts sh = 1 \<and> \<not> sh_locked sh))"
  using assms one_byte_off [of b' b p q "make_salt name"]
  by (simp_all add: authenticate_def add_user_def Let_def)

subsection \<open>Lockout\<close>

datatype auth_op = Login string "byte list" | Logout nat

fun auth_step :: "auth_op \<Rightarrow> auth_manager \<Rightarrow> auth_manager option" where
  "auth_step (Login name password) a = map_option snd (authenticate name password a)"
| "auth_step (Logout sid) a = Some (snd (logout sid a))"

fun auth_run :: "auth_op list \<Rightarrow> auth_manager \<Rightarrow> auth_manager option" where
  "auth_run [] a = Some a"
| "auth_run (x # xs) a = Option.bind (auth_step x a) (auth_run xs)"

text \<open>What the attempts on one account in a run make of its record.\<close>

fun attempt :: "string \<Rightarrow> auth_op \<Rightarrow> shadow_record \<Rightarrow> shadow_record" where
  "attempt name (Login n password) sh =
     (if n \<noteq> name \<or> sh_locked sh then sh
      else if compute_hash password (salt sh) = password_hash sh then sh\<lparr>failed_attempts := 0\<rparr>
      else sh\<lparr>failed_attempts := failed_attempts sh + 1, sh_locked := failed_attempts sh + 1 \<ge> 3\<rparr>)"
| "attempt name (Logout sid) sh = sh"

lemma auth_step_shadow:
  assumes "auth_step x a = Some a'" and "bt_get (am_shadow a) name = Some sh"
  shows "bt_get (am_shadow a') name = Some (attempt name x sh)"
proof (cases x)
  case (Login n pw)
  then obtain r where "authenticate n pw a = Some (r, a')" using assms(1) by auto
  then show ?thesis using assms(2) Login
    by (cases "n = name") (auto simp: authenticate_def Let_def split: option.splits if_splits)
qed (use assms in \<open>auto simp: logout_def split: option.splits\<close>)

lemma auth_run_shadow:
  "auth_run xs a = Some a' \<Longrightarrow> bt_get (am_shadow a) name = Some sh \<Longrightarrow>
     bt_get (am_shadow a') name = Some (fold (attempt name) xs sh)"
  by (induction xs arbitrary: a sh) (auto split: bind_splits dest: auth_step_shadow)

definition wrong_for :: "string \<Rightarrow> shadow_record \<Rightarrow> auth_op \<Rightarrow> bool" where
  "wrong_for name sh x = (case x of Login n pw \<Rightarrow> n = name \<and> compute_hash pw (salt sh) \<noteq> password_hash sh | Logout _ \<Rightarrow> False)"

definition right_for :: "string \<Rightarrow> shadow_record \<Rightarrow> auth_op \<Rightarrow> bool" where
  "right_for name sh x = (case x of Login n pw \<Rightarrow> n = name \<and> compute_hash pw (salt sh) = password_hash sh | Logout _ \<Rightarrow> False)"

lemma locked_stays: "sh_locked sh \<Longrightarrow> fold (attempt name) xs sh = sh"
proof (induction xs arbitrary: sh)
  case (Cons x xs)
  then show ?case by (cases x) auto
qed simp

lemma attempts_counted:
  assumes "\<not> sh_locked sh" and "failed_attempts sh < 3" and "\<forall>x\<in>set xs. \<not> right_for name sh x"
  shows "sh_locked (fold (attempt name) xs sh) \<longleftrightarrow> 3 \<le> failed_attempts sh + length (filter (wrong_for name sh) xs)"
  using assms
proof (induction xs arbitrary: sh)
  case (Cons x xs)
  show ?case
  proof (cases "wrong_for name sh x")
    case True
    then obtain pw where x: "x = Login name pw" "compute_hash pw (salt sh) \<noteq> password_hash sh"
      by (auto simp: wrong_for_def split: auth_op.splits)
    let ?sh = "sh\<lparr>failed_attempts := failed_attempts sh + 1, sh_locked := failed_attempts sh + 1 \<ge> 3\<rparr>"
    have same: "wrong_for name ?sh = wrong_for name sh" "right_for name ?sh = right_for name sh"
      by (auto simp: wrong_for_def right_for_def fun_eq_iff split: auth_op.split)
    show ?thesis
    proof (cases "failed_attempts sh + 1 \<ge> 3")
      case True
      then show ?thesis using x Cons.prems(1) locked_stays [of ?sh name xs] \<open>wrong_for name sh x\<close> by simp
    next
      case False
      then show ?thesis using x Cons.prems Cons.IH [of ?sh] same \<open>wrong_for name sh x\<close> by simp
    qed
  next
    case False
    then have "attempt name x sh = sh" using Cons.prems(3) by (cases x) (auto simp: wrong_for_def right_for_def)
    then show ?thesis using Cons False by simp
  qed
qed simp

text \<open>
  C30. Three wrong passwords lock an account: in any sequence of logins and logouts of all users in which nobody gives the
  right password of this account, its next login is refused as locked, whatever the password, if and only if at least
  three wrong ones were tried on it.
\<close>

theorem three_wrong_passwords_lock:
  assumes "bt_get (am_shadow a) name = Some sh" and "\<not> sh_locked sh" and "failed_attempts sh = 0"
    and "\<forall>x\<in>set xs. \<not> right_for name sh x" and "auth_run xs a = Some a'"
  shows "authenticate name password a' = Some (Err AccountLocked, a') \<longleftrightarrow> length (filter (wrong_for name sh) xs) \<ge> 3"
  using auth_run_shadow [OF assms(5,1)] attempts_counted [of sh xs name] assms(2-4)
  by (auto simp: authenticate_def Let_def split: option.splits if_splits)

subsection \<open>The two checks of mode bits\<close>

lemma word_and_exp: "(w :: 'a::len word) AND 2 ^ n = 2 ^ n \<longleftrightarrow> bit w n \<or> n \<ge> LENGTH('a)"
  by (auto simp: bit_eq_iff [of "w AND 2 ^ n"] bit_simps dest!: spec [of _ n])

fun right_bits :: "file_access \<Rightarrow> byte" where
  "right_bits AccRead = 4"
| "right_bits AccWrite = 2"
| "right_bits AccExecute = 1"

fun right_bit :: "file_access \<Rightarrow> nat" where
  "right_bit AccRead = 2"
| "right_bit AccWrite = 1"
| "right_bit AccExecute = 0"

lemma right_bits_exp: "right_bits acc = 2 ^ right_bit acc"
  by (cases acc) simp_all

lemma mode_bits_exp: "mode_bits acc = (2 ^ (6 + right_bit acc), 2 ^ (3 + right_bit acc), 2 ^ right_bit acc)"
  by (cases acc) simp_all

lemma perm_field:
  "(ucast (drop_bit n (mode :: 16 word) AND 7) :: byte) AND right_bits acc = right_bits acc \<longleftrightarrow> bit mode (n + right_bit acc)"
proof -
  have "right_bit acc < 3" by (cases acc) simp_all
  moreover have "bit (7 :: 16 word) (right_bit acc)" by (cases acc) simp_all
  ultimately show ?thesis by (simp add: right_bits_exp word_and_exp bit_simps)
qed

text \<open>
  The two file permission checks of the kernel agree: for a user without supplementary groups the check of
  \<^verbatim>\<open>auth.rs\<close> on the mode field and the check of \<^verbatim>\<open>security.rs\<close> on single mode bits give the same answer for every owner,
  group, mode and kind of access.
\<close>

theorem permission_checks_agree:
  assumes "cr_uid c = ucast uid" and "cr_gid c = ucast gid" and "set (cr_groups c) \<subseteq> {ucast gid}"
  shows "check_file_mode c acc (ucast owner) (ucast grp) mode = check_posix_permission uid gid owner grp mode (right_bits acc)"
proof -
  have up: "(ucast x :: 32 word) = ucast y \<longleftrightarrow> x = y" for x y :: "16 word" by transfer simp
  have "(ucast uid :: 32 word) = 0 \<longleftrightarrow> uid = 0" using up [of uid 0] by simp
  moreover have "ucast grp \<in> set (cr_groups c) \<Longrightarrow> grp = gid" using assms(3) up by auto
  ultimately show ?thesis
    using assms(1,2) up
    by (auto simp: check_file_mode_def check_posix_permission_def is_root_def perm_field mode_bits_exp Let_def
        and_exp_eq_0_iff_not_bit simp del: power_Suc power_add)
qed

text \<open>The built-in users: root may do everything, \<^verbatim>\<open>user\<close> files and network only, \<^verbatim>\<open>guest\<close> nothing; nobody else has credentials.\<close>

lemmas security_defs = credentials_for_def get_user_def get_group_def new_security_def new_credentials_def add_group_def
  check_permission_for_def syscall_capable_def is_root_def mask_contains_def mask_add_def SYS_ADMIN_def FILE_READ_def
  FILE_WRITE_def CAP_NET_def SYS_TIME_def SYS_RAWIO_def SYS_MODULE_def PROCESS_KILL_def

theorem builtin_permissions:
  "credentials_for uid new_security = None \<longleftrightarrow> uid \<notin> {0, 1000, 65534}"
  "map_option (\<lambda>c. check_permission_for c p) (credentials_for 0 new_security) = Some True"
  "map_option (\<lambda>c. check_permission_for c p) (credentials_for 1000 new_security) = Some (p \<in> {ReadFile, WriteFile, Network})"
  "map_option (\<lambda>c. check_permission_for c p) (credentials_for 65534 new_security) = Some False"
  by (simp add: security_defs Let_def, simp add: security_defs, (cases p; simp add: security_defs),
      (cases p; simp add: security_defs))

subsection \<open>Sessions\<close>

definition sessions_ok :: "auth_manager \<Rightarrow> bool" where
  "sessions_ok a \<longleftrightarrow> (\<forall>sid se. bt_get (am_sessions a) sid = Some se \<longrightarrow>
     sid < next_session_id a \<and> session_id se = sid \<and> se_active se)"

lemma sessions_ok_step: "auth_step x a = Some a' \<Longrightarrow> sessions_ok a \<Longrightarrow> sessions_ok a' \<and> next_session_id a \<le> next_session_id a'"
  by (cases x) (auto simp: sessions_ok_def authenticate_def logout_def Let_def less_Suc_eq split: option.splits if_splits)

text \<open>A session number is never given out twice, and a session that was closed stays closed.\<close>

theorem session_numbers_fresh:
  assumes "sessions_ok a" and "auth_run xs a = Some a'" and "authenticate name password a' = Some (Ok sid, a'')"
  shows "bt_get (am_sessions a) sid = None \<and> bt_get (am_sessions a') sid = None \<and> next_session_id a \<le> sid"
proof -
  have "sessions_ok a' \<and> next_session_id a \<le> next_session_id a'" using assms(1,2)
    by (induction xs arbitrary: a) (auto split: bind_splits dest: sessions_ok_step intro: order_trans)
  moreover have "sid = next_session_id a'" using assms(3)
    by (auto simp: authenticate_def Let_def split: option.splits if_splits)
  moreover have "bt_get (am_sessions c) i = None" if "sessions_ok c" "next_session_id c \<le> i" for c i
    using that by (cases "bt_get (am_sessions c) i") (fastforce simp: sessions_ok_def)+
  ultimately show ?thesis using assms(1) by simp
qed

subsection \<open>Concrete runs\<close>

definition demo_auth :: auth_manager where
  "demo_auth = add_user ''ayse'' 1000 1000 [0x31, 0x32, 0x33] new_auth"

theorem password_opens_account_witness:
  "\<exists>a1 a2. authenticate ''ayse'' [0x31, 0x32, 0x33] demo_auth = Some (Ok 1, a1) \<and>
     authenticate ''ayse'' [0x31, 0x32, 0x34] demo_auth = Some (Err InvalidPassword, a2)"
proof -
  have "demo_auth = add_user ''ayse'' 1000 1000 ([0x31, 0x32] @ 0x33 # []) new_auth" "next_session_id new_auth < 2 ^ 32 - 1"
    by (simp_all add: demo_auth_def new_auth_def)
  from password_opens_account [OF this, of "0x34"] show ?thesis by (auto simp: new_auth_def)
qed

theorem three_wrong_passwords_lock_witness:
  "\<exists>a'. auth_run (replicate 3 (Login ''ayse'' [0x31, 0x32, 0x34])) demo_auth = Some a' \<and>
     authenticate ''ayse'' [0x31, 0x32, 0x33] a' = Some (Err AccountLocked, a')"
proof -
  let ?xs = "replicate 3 (Login ''ayse'' [0x31, 0x32, 0x34])"
  have ne: "compute_hash [0x31, 0x32, 0x34] s \<noteq> compute_hash [0x31, 0x32, 0x33] s" for s
    using one_byte_off [of "0x34" "0x33" "[0x31, 0x32]" "[]" s] by simp
  obtain sh where sh: "bt_get (am_shadow demo_auth) ''ayse'' = Some sh" "\<not> sh_locked sh" "failed_attempts sh = 0"
    "compute_hash [0x31, 0x32, 0x34] (salt sh) \<noteq> password_hash sh"
    using ne by (auto simp: demo_auth_def add_user_def Let_def)
  have w: "\<forall>x\<in>set ?xs. \<not> right_for ''ayse'' sh x" "length (filter (wrong_for ''ayse'' sh) ?xs) = 3"
    using sh(4) by (simp_all add: right_for_def wrong_for_def)
  obtain a' where "auth_run ?xs demo_auth = Some a'"
    using sh by (auto simp: numeral_3_eq_3 authenticate_def Let_def)
  with three_wrong_passwords_lock [OF sh(1-3) w(1) this] w(2) show ?thesis by simp
qed

theorem permission_checks_agree_witness:
  "check_file_mode (new_credentials 1000 1000) AccWrite (ucast (0 :: 16 word)) (ucast (1000 :: 16 word)) 436 =
   check_posix_permission 1000 1000 0 1000 436 (right_bits AccWrite)"
  by (rule permission_checks_agree) (simp_all add: new_credentials_def)

end
