(* ===== verification/Address_Space.thy ===== *)
theory Address_Space
  imports User_Memory Frame_Pool
begin

section \<open>Address spaces of user processes\<close>

text \<open>
  The per-process page tables of \<^verbatim>\<open>kernel/src/memory.rs\<close>: cloning the kernel's tables into a new address space, mapping
  pages of the frame pool, taking empty tables away and tearing a whole address space down. Tables live in physical
  frames; \<open>tables m t i\<close> is entry \<open>i\<close> of the table in the frame at \<open>t\<close>. Private to a process are its root table, the table
  behind root entry 0 and everything behind entry 1 of that one, which is the range from 1 to 2 GiB. The paging crate
  that walks and extends the tables is the parameter \<open>mapper\<close>. A panic is \<open>None\<close>.
\<close>

subsection \<open>State\<close>

text \<open>An entry with the flags the kernel sets; \<open>bit_9\<close> marks a page that the address space owns.\<close>

record pt_entry = pte +
  no_execute :: bool
  bit_9 :: bool

definition zero_entry :: pt_entry where
  "zero_entry = \<lparr>present = False, writable = False, user_accessible = False, huge_page = False, pte_addr = 0,
     no_execute = False, bit_9 = False\<rparr>"

definition is_unused :: "pt_entry \<Rightarrow> bool" where "is_unused e \<longleftrightarrow> e = zero_entry"

record mmu =
  tables :: "nat \<Rightarrow> nat \<Rightarrow> pt_entry"
  frame_alloc :: "frame_pool option"
  shared_kernel_cr3 :: "nat option"
  active_cr3 :: nat

definition set_entry :: "nat \<Rightarrow> nat \<Rightarrow> pt_entry \<Rightarrow> mmu \<Rightarrow> mmu" where
  "set_entry t i e m = m\<lparr>tables := (tables m)(t := (tables m t)(i := e))\<rparr>"

text \<open>The pool hands out frames whose memory is cleared.\<close>

definition user_alloc_contiguous_frames :: "nat \<Rightarrow> mmu \<Rightarrow> nat option \<times> mmu" where
  "user_alloc_contiguous_frames count m =
     (case frame_alloc m of
        None \<Rightarrow> (None, m)
      | Some p \<Rightarrow>
          (case allocate count p of
             (None, p') \<Rightarrow> (None, m\<lparr>frame_alloc := Some p'\<rparr>)
           | (Some a, p') \<Rightarrow>
               (Some a, m\<lparr>frame_alloc := Some p',
                          tables := (\<lambda>t. if t \<in> run_of a count then (\<lambda>_. zero_entry) else tables m t)\<rparr>)))"

definition user_alloc_frame :: "mmu \<Rightarrow> nat option \<times> mmu" where
  "user_alloc_frame = user_alloc_contiguous_frames 1"

definition user_free_frame :: "nat \<Rightarrow> mmu \<Rightarrow> mmu option" where
  "user_free_frame a m =
     (case frame_alloc m of
        None \<Rightarrow> Some m
      | Some p \<Rightarrow> do { p' \<leftarrow> release a p; Some (m\<lparr>frame_alloc := Some p'\<rparr>) })"

definition get_memory_stats :: "mmu \<Rightarrow> nat \<times> nat" where
  "get_memory_stats m = (case frame_alloc m of None \<Rightarrow> (0, 0) | Some p \<Rightarrow> stats p)"

definition frames_free :: "mmu \<Rightarrow> nat" where
  "frames_free m = (case get_memory_stats m of (used, all) \<Rightarrow> (all - used) div 4096)"

definition capture_shared_kernel_cr3 :: "mmu \<Rightarrow> mmu" where
  "capture_shared_kernel_cr3 m =
     (case shared_kernel_cr3 m of None \<Rightarrow> m\<lparr>shared_kernel_cr3 := Some (active_cr3 m)\<rparr> | Some _ \<Rightarrow> m)"

subsection \<open>Creating an address space\<close>

definition copy_table :: "nat \<Rightarrow> nat \<Rightarrow> mmu \<Rightarrow> mmu" where
  "copy_table src dst m = m\<lparr>tables := (tables m)(dst := (\<lambda>i. if i < 512 then tables m src i else tables m dst i))\<rparr>"

text \<open>The part of \<^verbatim>\<open>clone_active_cr3\<close> that fills the two new tables.\<close>

definition fill_tables :: "nat \<Rightarrow> nat \<Rightarrow> nat \<Rightarrow> mmu \<Rightarrow> mmu" where
  "fill_tables src root low m0 =
     (let m1 = copy_table src root m0;
          e0 = tables m1 src 0;
          m2 = (if present e0 then copy_table (pte_addr e0) low m1 else m1);
          m3 = set_entry low 0 ((tables m2 low 0)\<lparr>user_accessible := False\<rparr>) m2;
          m4 = set_entry low 1 zero_entry m3
      in set_entry root 0 (zero_entry\<lparr>present := True, writable := True, user_accessible := True, pte_addr := low\<rparr>) m4)"

definition clone_active_cr3 :: "mmu \<Rightarrow> (nat option \<times> mmu) option" where
  "clone_active_cr3 m0 =
     (case user_alloc_frame (capture_shared_kernel_cr3 m0) of
        (None, m1) \<Rightarrow> Some (None, m1)
      | (Some root, m1) \<Rightarrow>
          (case user_alloc_frame m1 of
             (None, m2) \<Rightarrow> do { m3 \<leftarrow> user_free_frame root m2; Some (None, m3) }
           | (Some low, m2) \<Rightarrow>
               (case shared_kernel_cr3 m2 of
                  None \<Rightarrow> Some (None, m2)
                | Some src \<Rightarrow> Some (Some root, fill_tables src root low m2))))"

subsection \<open>Tearing it down\<close>

text \<open>One entry of a last-level table: free the page behind it if the address space owns it, and clear it.\<close>

definition drop_leaf :: "nat \<Rightarrow> nat \<Rightarrow> mmu \<Rightarrow> mmu option" where
  "drop_leaf l1 i m = do {
     let e = tables m l1 i;
     m1 \<leftarrow> (if present e \<and> bit_9 e then user_free_frame (pte_addr e) m else Some m);
     Some (set_entry l1 i zero_entry m1)
   }"

fun drop_leaves :: "nat \<Rightarrow> nat list \<Rightarrow> mmu \<Rightarrow> mmu option" where
  "drop_leaves l1 [] m = Some m"
| "drop_leaves l1 (i # is) m = do { m1 \<leftarrow> drop_leaf l1 i m; drop_leaves l1 is m1 }"

fun drop_user_tables :: "nat \<Rightarrow> nat list \<Rightarrow> mmu \<Rightarrow> ((string, unit) result \<times> mmu) option" where
  "drop_user_tables l2 [] m = Some (Ok (), m)"
| "drop_user_tables l2 (i # is) m =
     (let e = tables m l2 i in
      if \<not> present e then drop_user_tables l2 is m
      else if huge_page e then Some (Err ''Unexpected huge page in private userspace'', m)
      else do {
        m1 \<leftarrow> drop_leaves (pte_addr e) [0..<512] m;
        m2 \<leftarrow> user_free_frame (pte_addr e) (set_entry l2 i zero_entry m1);
        drop_user_tables l2 is m2
      })"

definition destroy_user_address_space :: "nat \<Rightarrow> mmu \<Rightarrow> ((string, unit) result \<times> mmu) option" where
  "destroy_user_address_space cr3 m0 =
     (if cr3 = 0 \<or> shared_kernel_cr3 m0 = Some cr3 \<or> active_cr3 m0 = cr3
      then Some (Err ''Cannot destroy the active or shared address space'', m0)
      else do {
        let l3 = pte_addr (tables m0 cr3 0);
        let e = tables m0 l3 1;
        (r, m1) \<leftarrow> (if present e then do {
            (r, m1) \<leftarrow> drop_user_tables (pte_addr e) [0..<512] m0;
            case r of
              Inl err \<Rightarrow> Some (Err err, m1)
            | Inr _ \<Rightarrow> do {
                m2 \<leftarrow> user_free_frame (pte_addr e) (set_entry l3 1 zero_entry m1);
                Some (Ok (), m2)
              }
          } else Some (Ok (), m0));
        case r of
          Inl err \<Rightarrow> Some (Err err, m1)
        | Inr _ \<Rightarrow> do {
            m2 \<leftarrow> user_free_frame l3 (set_entry cr3 0 zero_entry m1);
            m3 \<leftarrow> user_free_frame cr3 m2;
            Some (Ok (), m3)
          }
      })"

text \<open>\<^verbatim>\<open>prune_empty_user_tables\<close>: free the last-level tables without entries, then the table above if it has none left.\<close>

fun prune_entries :: "nat \<Rightarrow> nat list \<Rightarrow> mmu \<Rightarrow> mmu option" where
  "prune_entries l2 [] m = Some m"
| "prune_entries l2 (i # is) m =
     (let e = tables m l2 i in
      if present e \<and> \<not> huge_page e \<and> list_all (\<lambda>j. is_unused (tables m (pte_addr e) j)) [0..<512]
      then do { m1 \<leftarrow> user_free_frame (pte_addr e) (set_entry l2 i zero_entry m); prune_entries l2 is m1 }
      else prune_entries l2 is m)"

definition prune_empty_user_tables :: "nat \<Rightarrow> mmu \<Rightarrow> mmu option" where
  "prune_empty_user_tables cr3 m0 =
     (let l3 = pte_addr (tables m0 cr3 0); e = tables m0 l3 1 in
      if \<not> present e then Some m0
      else do {
        m1 \<leftarrow> prune_entries (pte_addr e) [0..<512] m0;
        if list_all (\<lambda>j. is_unused (tables m1 (pte_addr e) j)) [0..<512]
        then user_free_frame (pte_addr e) (set_entry l3 1 zero_entry m1)
        else Some m1
      })"

subsection \<open>Mapping pages\<close>

text \<open>
  What the kernel calls of the paging crate: \<^verbatim>\<open>map_to_with_table_flags\<close> with the kernel's frame allocator, \<^verbatim>\<open>unmap\<close>,
  \<^verbatim>\<open>update_flags\<close> and \<^verbatim>\<open>translate_page\<close>, each on the table tree at a root for a page number.
\<close>

datatype map_result = Mapped | AlreadyMapped | MapFailed

record mapper =
  map_to :: "nat \<Rightarrow> nat \<Rightarrow> pt_entry \<Rightarrow> mmu \<Rightarrow> map_result \<times> mmu"
  update_flags :: "nat \<Rightarrow> nat \<Rightarrow> pt_entry \<Rightarrow> mmu \<Rightarrow> mmu"
  unmap :: "nat \<Rightarrow> nat \<Rightarrow> mmu \<Rightarrow> nat option \<times> mmu"
  translate_page :: "nat \<Rightarrow> nat \<Rightarrow> mmu \<Rightarrow> nat option"

text \<open>The entry a mapping of \<open>frame\<close> at \<open>virt\<close> gets.\<close>

definition leaf_entry :: "nat \<Rightarrow> bool \<Rightarrow> bool \<Rightarrow> nat \<Rightarrow> pt_entry" where
  "leaf_entry virt wr own frame =
     zero_entry\<lparr>present := True, user_accessible := True, writable := wr,
       no_execute := wr \<and> (USER_ADDR_BASE + 0x2000 \<le> virt \<or> virt < USER_ADDR_BASE), bit_9 := own, pte_addr := frame\<rparr>"

definition target_cr3 :: "nat \<Rightarrow> mmu \<Rightarrow> nat" where
  "target_cr3 cr3 m = (if cr3 = 0 then active_cr3 m else cr3)"

text \<open>\<^verbatim>\<open>target[0].set_flags(curr_flags | USER_ACCESSIBLE | WRITABLE | PRESENT)\<close>\<close>

definition open_low :: "nat \<Rightarrow> mmu \<Rightarrow> mmu" where
  "open_low t m = set_entry t 0 ((tables m t 0)\<lparr>present := True, writable := True, user_accessible := True\<rparr>) m"

definition map_user_page_in_cr3 :: "mapper \<Rightarrow> nat \<Rightarrow> nat \<Rightarrow> bool \<Rightarrow> mmu \<Rightarrow> ((string, nat) result \<times> mmu) option" where
  "map_user_page_in_cr3 mp cr3 virt wr m =
     (if \<not> is_canonical (word_of_nat virt) \<or> virt < USER_ADDR_BASE \<or> USER_ADDR_LIMIT \<le> virt
      then Some (Err ''user mapping target outside user space'', m)
      else case user_alloc_frame m of
        (None, m1) \<Rightarrow> Some (Err ''no free user frames'', m1)
      | (Some frame, m1) \<Rightarrow>
          (let t = target_cr3 cr3 m1 in
           case map_to mp t (containing_page virt) (leaf_entry virt wr True frame) (open_low t m1) of
             (Mapped, m2) \<Rightarrow> Some (Ok virt, m2)
           | (_, m2) \<Rightarrow> do {
               m3 \<leftarrow> user_free_frame frame m2;
               Some (Err ''user page already mapped or page-table allocation failed'', m3)
             }))"

text \<open>The rollback of a region: unmap and free the first \<open>n\<close> pages.\<close>

fun unmap_pages :: "mapper \<Rightarrow> nat \<Rightarrow> nat \<Rightarrow> nat \<Rightarrow> mmu \<Rightarrow> mmu option" where
  "unmap_pages mp t start 0 m = Some m"
| "unmap_pages mp t start (Suc n) m = do {
     m1 \<leftarrow> unmap_pages mp t start n m;
     case unmap mp t (containing_page (start + n * 4096)) m1 of
       (None, m2) \<Rightarrow> Some m2
     | (Some frame, m2) \<Rightarrow> user_free_frame frame m2
   }"

fun map_pages :: "mapper \<Rightarrow> nat \<Rightarrow> nat \<Rightarrow> bool \<Rightarrow> nat \<Rightarrow> nat \<Rightarrow> mmu \<Rightarrow> ((string, unit) result \<times> mmu) option" where
  "map_pages mp cr3 start wr i 0 m = Some (Ok (), m)"
| "map_pages mp cr3 start wr i (Suc n) m = do {
     (r, m1) \<leftarrow> map_user_page_in_cr3 mp cr3 (start + i * 4096) wr m;
     case r of
       Inr _ \<Rightarrow> map_pages mp cr3 start wr (i + 1) n m1
     | Inl e \<Rightarrow> do {
         m2 \<leftarrow> unmap_pages mp (target_cr3 cr3 m1) start i m1;
         m3 \<leftarrow> (if cr3 \<noteq> 0 then prune_empty_user_tables cr3 m2 else Some m2);
         Some (Err e, m3)
       }
   }"

definition map_user_region_in_cr3 ::
    "mapper \<Rightarrow> nat \<Rightarrow> nat \<Rightarrow> nat \<Rightarrow> bool \<Rightarrow> mmu \<Rightarrow> ((string, nat) result \<times> mmu) option" where
  "map_user_region_in_cr3 mp cr3 virt len wr m =
     (case checked_add 64 virt (max len 1) of
        None \<Rightarrow> Some (Err ''User region overflow'', m)
      | Some stop \<Rightarrow>
          if virt < USER_ADDR_BASE \<or> USER_ADDR_LIMIT < stop then Some (Err ''User region out of bounds'', m)
          else do {
            let start = virt - virt mod 4096;
            (r, m1) \<leftarrow> map_pages mp cr3 start wr 0 ((stop - start + 4095) div 4096) m;
            Some (case r of Inl e \<Rightarrow> Err e | Inr _ \<Rightarrow> Ok virt, m1)
          })"

text \<open>The owner of a new address space until it is handed to a process: dropping it tears the address space down.\<close>

definition builder_new :: "mmu \<Rightarrow> ((string, nat) result \<times> mmu) option" where
  "builder_new m = do {
     (r, m1) \<leftarrow> clone_active_cr3 m;
     Some (case r of None \<Rightarrow> Err ''No free frames for address space'' | Some cr3 \<Rightarrow> Ok cr3, m1)
   }"

definition builder_drop :: "nat \<Rightarrow> mmu \<Rightarrow> mmu option" where
  "builder_drop cr3 m =
     (if cr3 \<noteq> 0 then do { (_, m1) \<leftarrow> destroy_user_address_space cr3 m; Some m1 } else Some m)"

subsection \<open>The frames of an address space\<close>

text \<open>A pool in order, of frames below the limit of physical addresses.\<close>

definition pool_fine :: "mmu \<Rightarrow> bool" where
  "pool_fine m \<longleftrightarrow> (\<exists>p. frame_alloc m = Some p \<and> pool_ok p \<and> space p \<subseteq> {..<2 ^ 52})"

definition in_use :: "mmu \<Rightarrow> nat set" where
  "in_use m = (case frame_alloc m of None \<Rightarrow> {} | Some p \<Rightarrow> allocated p)"

type_synonym pt_memory = "nat \<Rightarrow> nat \<Rightarrow> pt_entry"

text \<open>The pages a last-level table owns, the last-level tables below entries \<open>is\<close> of a table, and all frames of a tree.\<close>

definition owned_at :: "pt_memory \<Rightarrow> nat \<Rightarrow> nat list \<Rightarrow> nat list" where
  "owned_at tb l1 is = map (\<lambda>i. pte_addr (tb l1 i)) (filter (\<lambda>i. present (tb l1 i) \<and> bit_9 (tb l1 i)) is)"

definition tables_at :: "pt_memory \<Rightarrow> nat \<Rightarrow> nat list \<Rightarrow> nat list" where
  "tables_at tb l2 is = map (\<lambda>i. pte_addr (tb l2 i)) (filter (\<lambda>i. present (tb l2 i)) is)"

definition l3_of :: "pt_memory \<Rightarrow> nat \<Rightarrow> nat" where "l3_of tb cr3 = pte_addr (tb cr3 0)"
definition user_entry :: "pt_memory \<Rightarrow> nat \<Rightarrow> pt_entry" where "user_entry tb cr3 = tb (l3_of tb cr3) 1"

definition l1_tables :: "pt_memory \<Rightarrow> nat \<Rightarrow> nat list" where
  "l1_tables tb cr3 =
     (if present (user_entry tb cr3) then tables_at tb (pte_addr (user_entry tb cr3)) [0..<512] else [])"

definition own_tables :: "pt_memory \<Rightarrow> nat \<Rightarrow> nat list" where
  "own_tables tb cr3 = cr3 # l3_of tb cr3 #
     (if present (user_entry tb cr3) then pte_addr (user_entry tb cr3) # l1_tables tb cr3 else [])"

definition own_pages :: "pt_memory \<Rightarrow> nat \<Rightarrow> nat set" where
  "own_pages tb cr3 = (\<Union>l1 \<in> set (l1_tables tb cr3). set (owned_at tb l1 [0..<512]))"

text \<open>The last-level entry of a page between 1 and 2 GiB.\<close>

definition user_page :: "nat \<Rightarrow> bool" where "user_page pg \<longleftrightarrow> 0x40000 \<le> pg \<and> pg < 0x80000"

definition page_leaf :: "pt_memory \<Rightarrow> nat \<Rightarrow> nat \<Rightarrow> pt_entry" where
  "page_leaf tb cr3 pg =
     (let e3 = user_entry tb cr3; e2 = tb (pte_addr e3) (p2_index pg) in
      if present e3 \<and> present e2 then tb (pte_addr e2) (p1_index pg) else zero_entry)"

definition owns :: "pt_memory \<Rightarrow> nat \<Rightarrow> nat \<Rightarrow> bool" where
  "owns tb cr3 pg \<longleftrightarrow> user_page pg \<and> present (page_leaf tb cr3 pg) \<and> bit_9 (page_leaf tb cr3 pg)"

definition no_huge :: "pt_memory \<Rightarrow> nat \<Rightarrow> bool" where
  "no_huge tb cr3 \<longleftrightarrow> (\<forall>i<512. present (user_entry tb cr3) \<longrightarrow> \<not> huge_page (tb (pte_addr (user_entry tb cr3)) i))"

text \<open>
  A private tree: its tables are different frames in use, none is entered through a huge page, and the pages it owns are
  frames in use outside the tables.
\<close>

definition space_ok :: "nat \<Rightarrow> mmu \<Rightarrow> bool" where
  "space_ok cr3 m \<longleftrightarrow> pool_fine m \<and> cr3 \<noteq> 0 \<and> shared_kernel_cr3 m \<noteq> Some cr3 \<and>
     distinct (own_tables (tables m) cr3) \<and> set (own_tables (tables m) cr3) \<subseteq> in_use m \<and>
     no_huge (tables m) cr3 \<and>
     own_pages (tables m) cr3 \<subseteq> in_use m \<and> own_pages (tables m) cr3 \<inter> set (own_tables (tables m) cr3) = {} \<and>
     (\<forall>p q. owns (tables m) cr3 p \<longrightarrow> owns (tables m) cr3 q \<longrightarrow>
        pte_addr (page_leaf (tables m) cr3 p) = pte_addr (page_leaf (tables m) cr3 q) \<longrightarrow> p = q)"

lemma page_index: "i < 512 \<Longrightarrow> j < 512 \<Longrightarrow> p2_index (0x40000 + i * 512 + j) = i \<and> p1_index (0x40000 + i * 512 + j) = j"
proof -
  assume ij: "i < 512" "j < 512"
  have eq: "0x40000 + i * 512 + j = j + 512 * (512 + i)" by simp
  have "(j + 512 * (512 + i)) div 512 = 512 + i" "(j + 512 * (512 + i)) mod 512 = j"
    using ij by (simp_all del: distrib_left_numeral add: div_mult_self2 mod_mult_self2)
  then show ?thesis unfolding p2_index_def p1_index_def eq using ij by (simp del: distrib_left_numeral)
qed

lemma own_pages_leaf: "own_pages tb cr3 = {pte_addr (page_leaf tb cr3 p) | p. owns tb cr3 p}"
proof (intro set_eqI iffI)
  fix a assume "a \<in> own_pages tb cr3"
  then obtain i j where ij: "present (user_entry tb cr3)" "i < 512" "j < 512" "present (tb (pte_addr (user_entry tb cr3)) i)"
    "present (tb (pte_addr (tb (pte_addr (user_entry tb cr3)) i)) j)" "bit_9 (tb (pte_addr (tb (pte_addr (user_entry tb cr3)) i)) j)"
    "a = pte_addr (tb (pte_addr (tb (pte_addr (user_entry tb cr3)) i)) j)"
    by (auto simp: own_pages_def l1_tables_def tables_at_def owned_at_def split: if_splits)
  have "user_page (0x40000 + i * 512 + j)" using ij(2,3) by (simp add: user_page_def)
  then show "a \<in> {pte_addr (page_leaf tb cr3 p) | p. owns tb cr3 p}"
    using ij page_index [OF ij(2,3)] by (auto simp: owns_def page_leaf_def Let_def intro!: exI [of _ "0x40000 + i * 512 + j"])
next
  fix a assume "a \<in> {pte_addr (page_leaf tb cr3 p) | p. owns tb cr3 p}"
  then obtain p where p: "owns tb cr3 p" "a = pte_addr (page_leaf tb cr3 p)" by blast
  let ?l1 = "pte_addr (tb (pte_addr (user_entry tb cr3)) (p2_index p))"
  have pr: "present (user_entry tb cr3)" "present (tb (pte_addr (user_entry tb cr3)) (p2_index p))"
    and l: "page_leaf tb cr3 p = tb ?l1 (p1_index p)" "present (page_leaf tb cr3 p)" "bit_9 (page_leaf tb cr3 p)"
    using p(1) by (auto simp: owns_def page_leaf_def Let_def zero_entry_def split: if_splits)
  have "?l1 \<in> set (l1_tables tb cr3)" using pr by (auto simp: l1_tables_def tables_at_def p2_index_def)
  moreover have "a \<in> set (owned_at tb ?l1 [0..<512])" using l p(2) by (auto simp: owned_at_def p1_index_def)
  ultimately show "a \<in> own_pages tb cr3" by (auto simp: own_pages_def)
qed

subsection \<open>Freeing\<close>

lemma set_entry_simps [simp]:
  "frame_alloc (set_entry t i e m) = frame_alloc m" "shared_kernel_cr3 (set_entry t i e m) = shared_kernel_cr3 m"
  "active_cr3 (set_entry t i e m) = active_cr3 m" "in_use (set_entry t i e m) = in_use m"
  "pool_fine (set_entry t i e m) = pool_fine m" "tables (set_entry t i e m) = (tables m)(t := (tables m t)(i := e))"
  by (simp_all add: set_entry_def in_use_def pool_fine_def)

definition same_regs :: "mmu \<Rightarrow> mmu \<Rightarrow> bool" where
  "same_regs m m' \<longleftrightarrow> shared_kernel_cr3 m' = shared_kernel_cr3 m \<and> active_cr3 m' = active_cr3 m"

lemma user_free_frame_effect:
  assumes "pool_fine m"
  shows "\<exists>m'. user_free_frame a m = Some m' \<and> pool_fine m' \<and> same_regs m m' \<and> in_use m' = in_use m - {a} \<and> tables m' = tables m"
proof -
  obtain p where p: "frame_alloc m = Some p" "pool_ok p" "space p \<subseteq> {..<2 ^ 52}" using assms by (auto simp: pool_fine_def)
  obtain p' where r: "release a p = Some p'" using release_returns [OF p(2)] by blast
  from release_ok [OF p(2) r] p r show ?thesis
    by (auto simp: user_free_frame_def pool_fine_def in_use_def same_regs_def)
qed

lemma owned_at_Cons:
  "owned_at tb l1 (i # is) = (if present (tb l1 i) \<and> bit_9 (tb l1 i) then [pte_addr (tb l1 i)] else []) @ owned_at tb l1 is"
  by (simp add: owned_at_def)

lemma owned_at_cong: "(\<And>j. j \<in> set is \<Longrightarrow> tb l1 j = tb' l1 j) \<Longrightarrow> owned_at tb l1 is = owned_at tb' l1 is"
  by (induction "is") (auto simp: owned_at_def)

lemma tables_at_cong: "(\<And>j. j \<in> set is \<Longrightarrow> tb l2 j = tb' l2 j) \<Longrightarrow> tables_at tb l2 is = tables_at tb' l2 is"
  by (induction "is") (auto simp: tables_at_def)

lemma drop_leaves_effect:
  assumes "pool_fine m" and "distinct is"
  shows "\<exists>m'. drop_leaves l1 is m = Some m' \<and> pool_fine m' \<and> same_regs m m' \<and>
    in_use m' = in_use m - set (owned_at (tables m) l1 is) \<and>
    tables m' = (tables m)(l1 := (\<lambda>j. if j \<in> set is then zero_entry else tables m l1 j))"
  using assms
proof (induction "is" arbitrary: m)
  case Nil
  then show ?case by (simp add: owned_at_def same_regs_def)
next
  case (Cons i "is")
  let ?e = "tables m l1 i"
  let ?own = "present ?e \<and> bit_9 ?e"
  have "\<exists>m1. (if ?own then user_free_frame (pte_addr ?e) m else Some m) = Some m1 \<and> pool_fine m1 \<and>
      in_use m1 = in_use m - (if ?own then {pte_addr ?e} else {}) \<and> tables m1 = tables m \<and> same_regs m m1"
  proof (cases ?own)
    case True
    with user_free_frame_effect [OF Cons.prems(1), of "pte_addr ?e"] show ?thesis by auto
  qed (use Cons.prems(1) in \<open>auto simp: same_regs_def\<close>)
  then obtain m1 where m1: "(if ?own then user_free_frame (pte_addr ?e) m else Some m) = Some m1" "pool_fine m1"
    "in_use m1 = in_use m - (if ?own then {pte_addr ?e} else {})" "tables m1 = tables m" "same_regs m m1" by blast
  let ?m1 = "set_entry l1 i zero_entry m1"
  have o: "owned_at (tables ?m1) l1 is = owned_at (tables m) l1 is"
    using Cons.prems(2) m1(4) by (intro owned_at_cong) auto
  have "pool_fine ?m1" "distinct is" using m1(2) Cons.prems(2) by simp_all
  from Cons.IH [OF this] obtain m' where m': "drop_leaves l1 is ?m1 = Some m'" "pool_fine m'" "same_regs ?m1 m'"
    "in_use m' = in_use ?m1 - set (owned_at (tables ?m1) l1 is)"
    "tables m' = (tables ?m1)(l1 := (\<lambda>j. if j \<in> set is then zero_entry else tables ?m1 l1 j))" by blast
  have "drop_leaves l1 (i # is) m = Some m'" using m1(1) m'(1) by (simp add: drop_leaf_def Let_def)
  moreover have "in_use m' = in_use m - set (owned_at (tables m) l1 (i # is))"
    unfolding m'(4) o owned_at_Cons using m1(3) by auto
  moreover have "tables m' = (tables m)(l1 := (\<lambda>j. if j \<in> set (i # is) then zero_entry else tables m l1 j))"
    using m'(5) m1(4) by (auto simp: fun_eq_iff)
  moreover have "same_regs m m'" using m'(3) m1(5) by (simp add: same_regs_def)
  ultimately show ?case using m'(2) by blast
qed

lemma drop_user_tables_effect:
  assumes "pool_fine m" and "distinct is" and "distinct (tables_at (tables m) l2 is)" and "l2 \<notin> set (tables_at (tables m) l2 is)"
    and "\<And>i. i \<in> set is \<Longrightarrow> \<not> huge_page (tables m l2 i)"
  shows "\<exists>m'. drop_user_tables l2 is m = Some (Ok (), m') \<and> pool_fine m' \<and> same_regs m m' \<and>
    in_use m' = in_use m - (\<Union>l1 \<in> set (tables_at (tables m) l2 is). insert l1 (set (owned_at (tables m) l1 [0..<512]))) \<and>
    (\<forall>t. t \<noteq> l2 \<longrightarrow> t \<notin> set (tables_at (tables m) l2 is) \<longrightarrow> tables m' t = tables m t)"
  using assms
proof (induction "is" arbitrary: m)
  case Nil
  then show ?case by (simp add: tables_at_def same_regs_def)
next
  case (Cons i "is")
  let ?e = "tables m l2 i" and ?l1 = "pte_addr (tables m l2 i)"
  show ?case
  proof (cases "present ?e")
    case False
    then have "tables_at (tables m) l2 (i # is) = tables_at (tables m) l2 is" by (simp add: tables_at_def)
    then show ?thesis using Cons False by simp
  next
    case True
    then have ts: "tables_at (tables m) l2 (i # is) = ?l1 # tables_at (tables m) l2 is" by (simp add: tables_at_def)
    from drop_leaves_effect [OF Cons.prems(1), of "[0..<512]" ?l1] obtain m1 where m1: "drop_leaves ?l1 [0..<512] m = Some m1"
      "pool_fine m1" "same_regs m m1" "in_use m1 = in_use m - set (owned_at (tables m) ?l1 [0..<512])"
      "tables m1 = (tables m)(?l1 := (\<lambda>j. if j \<in> set [0..<512] then zero_entry else tables m ?l1 j))" by auto
    from m1(2) obtain m2 where m2: "user_free_frame ?l1 (set_entry l2 i zero_entry m1) = Some m2" "pool_fine m2"
      "same_regs m1 m2" "in_use m2 = in_use m1 - {?l1}" "tables m2 = (tables m1)(l2 := (tables m1 l2)(i := zero_entry))"
      using user_free_frame_effect [of "set_entry l2 i zero_entry m1" ?l1] by (auto simp: same_regs_def)
    have tb: "t \<noteq> l2 \<Longrightarrow> t \<noteq> ?l1 \<Longrightarrow> tables m2 t = tables m t" "j \<in> set is \<Longrightarrow> tables m2 l2 j = tables m l2 j" for t j
      using m2(5) m1(5) Cons.prems(2,4) ts by auto
    have rest: "tables_at (tables m2) l2 is = tables_at (tables m) l2 is"
      using tb(2) by (intro tables_at_cong) simp
    have own: "owned_at (tables m2) l1 [0..<512] = owned_at (tables m) l1 [0..<512]" if "l1 \<in> set (tables_at (tables m) l2 is)" for l1
    proof -
      have "tables m2 l1 = tables m l1" using that Cons.prems(3,4) ts by (intro tb(1)) auto
      then show ?thesis by (intro owned_at_cong) simp
    qed
    from Cons.IH [of m2] rest Cons.prems tb(2) m2(2) ts obtain m' where m': "drop_user_tables l2 is m2 = Some (Ok (), m')" "pool_fine m'"
      "same_regs m2 m'" "in_use m' = in_use m2 - (\<Union>l1 \<in> set (tables_at (tables m2) l2 is). insert l1 (set (owned_at (tables m2) l1 [0..<512])))"
      "\<forall>t. t \<noteq> l2 \<longrightarrow> t \<notin> set (tables_at (tables m) l2 is) \<longrightarrow> tables m' t = tables m2 t" by auto
    have "drop_user_tables l2 (i # is) m = Some (Ok (), m')" using True Cons.prems(5) m1(1) m2(1) m'(1) by (simp add: Let_def)
    moreover have "in_use m' = in_use m - (\<Union>l1 \<in> set (tables_at (tables m) l2 (i # is)). insert l1 (set (owned_at (tables m) l1 [0..<512])))"
      using m'(4) m2(4) m1(4) rest own ts by auto
    ultimately show ?thesis using m'(2,3,5) m1(3) m2(3) tb(1) ts by (auto simp: same_regs_def)
  qed
qed

definition space_frames :: "nat \<Rightarrow> mmu \<Rightarrow> nat set" where
  "space_frames cr3 m = set (own_tables (tables m) cr3) \<union> own_pages (tables m) cr3"

lemma destroy_effect:
  assumes "space_ok cr3 m" and "active_cr3 m \<noteq> cr3"
  shows "\<exists>m'. destroy_user_address_space cr3 m = Some (Ok (), m') \<and> pool_fine m' \<and> same_regs m m' \<and>
    in_use m' = in_use m - space_frames cr3 m \<and> (\<forall>t. t \<notin> set (own_tables (tables m) cr3) \<longrightarrow> tables m' t = tables m t)"
proof -
  let ?tb = "tables m"
  let ?l3 = "l3_of ?tb cr3" and ?e = "user_entry ?tb cr3"
  let ?mid = "if present ?e then (do {
      (r, m1) \<leftarrow> drop_user_tables (pte_addr ?e) [0..<512] m;
      case r of Inl err \<Rightarrow> Some (Err err, m1)
      | Inr _ \<Rightarrow> do { m2 \<leftarrow> user_free_frame (pte_addr ?e) (set_entry ?l3 1 zero_entry m1); Some (Ok (), m2) } })
    else Some (Ok (), m)"
  have ok: "pool_fine m" "cr3 \<noteq> 0" "shared_kernel_cr3 m \<noteq> Some cr3" "distinct (own_tables ?tb cr3)"
    using assms(1) by (auto simp: space_ok_def)
  have "\<exists>m1. ?mid = Some (Ok (), m1) \<and> pool_fine m1 \<and> same_regs m m1 \<and>
      in_use m1 = in_use m - (set (own_tables ?tb cr3) - {cr3, ?l3} \<union> own_pages ?tb cr3) \<and>
      (\<forall>t. t \<notin> set (own_tables ?tb cr3) \<longrightarrow> tables m1 t = ?tb t)"
  proof (cases "present ?e")
    case False
    then show ?thesis using ok(1) by (auto simp: own_tables_def own_pages_def l1_tables_def same_regs_def)
  next
    case True
    let ?l2 = "pte_addr ?e"
    have l1: "l1_tables ?tb cr3 = tables_at ?tb ?l2 [0..<512]" using True by (simp add: l1_tables_def)
    have own: "own_tables ?tb cr3 = cr3 # ?l3 # ?l2 # tables_at ?tb ?l2 [0..<512]" using True l1 by (simp add: own_tables_def)
    obtain m1 where m1: "drop_user_tables ?l2 [0..<512] m = Some (Ok (), m1)" "pool_fine m1" "same_regs m m1"
      "in_use m1 = in_use m - (\<Union>l1 \<in> set (tables_at ?tb ?l2 [0..<512]). insert l1 (set (owned_at ?tb l1 [0..<512])))"
      "\<forall>t. t \<noteq> ?l2 \<longrightarrow> t \<notin> set (tables_at ?tb ?l2 [0..<512]) \<longrightarrow> tables m1 t = ?tb t"
      using drop_user_tables_effect [of m "[0..<512]" ?l2] ok own assms(1) True by (auto simp: space_ok_def no_huge_def)
    obtain m2 where m2: "user_free_frame ?l2 (set_entry ?l3 1 zero_entry m1) = Some m2" "pool_fine m2" "same_regs m1 m2"
      "in_use m2 = in_use m1 - {?l2}" "tables m2 = (tables m1)(?l3 := (tables m1 ?l3)(1 := zero_entry))"
      using user_free_frame_effect [of "set_entry ?l3 1 zero_entry m1" ?l2] m1(2) by (auto simp: same_regs_def)
    show ?thesis
    proof (intro exI conjI)
      show "?mid = Some (Ok (), m2)" using True m1(1) m2(1) by simp
      show "in_use m2 = in_use m - (set (own_tables ?tb cr3) - {cr3, ?l3} \<union> own_pages ?tb cr3)"
        using m2(4) m1(4) own l1 ok(4) by (auto simp: own_pages_def)
      show "\<forall>t. t \<notin> set (own_tables ?tb cr3) \<longrightarrow> tables m2 t = ?tb t" using m2(5) m1(5) own by auto
    qed (use m2(2,3) m1(3) in \<open>auto simp: same_regs_def\<close>)
  qed
  then obtain m1 where m1: "?mid = Some (Ok (), m1)" "pool_fine m1" "same_regs m m1"
      "in_use m1 = in_use m - (set (own_tables ?tb cr3) - {cr3, ?l3} \<union> own_pages ?tb cr3)"
      "\<forall>t. t \<notin> set (own_tables ?tb cr3) \<longrightarrow> tables m1 t = ?tb t" by blast
  obtain m2 where m2: "user_free_frame ?l3 (set_entry cr3 0 zero_entry m1) = Some m2" "pool_fine m2" "same_regs m1 m2"
    "in_use m2 = in_use m1 - {?l3}" "tables m2 = (tables m1)(cr3 := (tables m1 cr3)(0 := zero_entry))"
    using user_free_frame_effect [of "set_entry cr3 0 zero_entry m1" ?l3] m1(2) by (auto simp: same_regs_def)
  obtain m3 where m3: "user_free_frame cr3 m2 = Some m3" "pool_fine m3" "same_regs m2 m3" "in_use m3 = in_use m2 - {cr3}"
    "tables m3 = tables m2" using user_free_frame_effect [OF m2(2), of cr3] by blast
  have "destroy_user_address_space cr3 m = Some (Ok (), m3)"
    using ok(2,3) assms(2) m1(1) m2(1) m3(1) unfolding destroy_user_address_space_def l3_of_def user_entry_def Let_def by simp
  moreover have "in_use m3 = in_use m - space_frames cr3 m"
    using m3(4) m2(4) m1(4) by (auto simp: space_frames_def own_tables_def)
  moreover have "\<forall>t. t \<notin> set (own_tables ?tb cr3) \<longrightarrow> tables m3 t = ?tb t"
    using m3(5) m2(5) m1(5) by (auto simp: own_tables_def)
  ultimately show ?thesis using m3(2,3) m2(3) m1(3) by (auto simp: same_regs_def)
qed

subsection \<open>The paging crate\<close>

text \<open>
  What the crate documents of the calls, for a page of a private tree: \<^verbatim>\<open>map_to_with_table_flags\<close> takes the tables it needs from the
  allocator and links them into the tree, writes the entry of the page if it is unused and no other entry, and leaves all
  other tables alone; \<^verbatim>\<open>unmap\<close> clears the entry of a mapped page and returns its frame.
\<close>

definition map_to_ok :: "mapper \<Rightarrow> bool" where
  "map_to_ok mp \<longleftrightarrow> (\<forall>cr3 pg e m r m'. space_ok cr3 m \<longrightarrow> user_page pg \<longrightarrow> map_to mp cr3 pg e m = (r, m') \<longrightarrow>
     pool_fine m' \<and> same_regs m m' \<and> in_use m \<subseteq> in_use m' \<and>
     distinct (own_tables (tables m') cr3) \<and> no_huge (tables m') cr3 \<and>
     set (own_tables (tables m') cr3) = set (own_tables (tables m) cr3) \<union> (in_use m' - in_use m) \<and>
     (\<forall>t. t \<notin> set (own_tables (tables m') cr3) \<longrightarrow> tables m' t = tables m t) \<and>
     (\<forall>q. user_page q \<longrightarrow> page_leaf (tables m') cr3 q = (if q = pg \<and> r = Mapped then e else page_leaf (tables m) cr3 q)) \<and>
     (r = Mapped \<longrightarrow> is_unused (page_leaf (tables m) cr3 pg)))"

definition unmap_ok :: "mapper \<Rightarrow> bool" where
  "unmap_ok mp \<longleftrightarrow> (\<forall>cr3 pg m r m'. space_ok cr3 m \<longrightarrow> user_page pg \<longrightarrow> unmap mp cr3 pg m = (r, m') \<longrightarrow>
     frame_alloc m' = frame_alloc m \<and> same_regs m m' \<and> own_tables (tables m') cr3 = own_tables (tables m) cr3 \<and>
     no_huge (tables m') cr3 \<and> (\<forall>t. t \<notin> set (own_tables (tables m) cr3) \<longrightarrow> tables m' t = tables m t) \<and>
     r = (if present (page_leaf (tables m) cr3 pg) then Some (pte_addr (page_leaf (tables m) cr3 pg)) else None) \<and>
     (\<forall>q. user_page q \<longrightarrow> page_leaf (tables m') cr3 q =
        (if q = pg \<and> present (page_leaf (tables m) cr3 pg) then zero_entry else page_leaf (tables m) cr3 q)))"

text \<open>All frames in use are those of \<open>base\<close>, which the address space does not touch, and its own.\<close>

definition accounted :: "nat set \<Rightarrow> nat \<Rightarrow> mmu \<Rightarrow> bool" where
  "accounted base cr3 m \<longleftrightarrow> space_ok cr3 m \<and> in_use m = base \<union> space_frames cr3 m \<and> base \<inter> space_frames cr3 m = {}"

lemma accounted_destroy:
  assumes "accounted base cr3 m" and "active_cr3 m \<noteq> cr3"
  shows "\<exists>m'. destroy_user_address_space cr3 m = Some (Ok (), m') \<and> in_use m' = base \<and> pool_fine m' \<and> same_regs m m' \<and>
    (\<forall>t\<in>base. tables m' t = tables m t)"
proof -
  have a: "space_ok cr3 m" "in_use m = base \<union> space_frames cr3 m" "base \<inter> space_frames cr3 m = {}"
    using assms(1) by (auto simp: accounted_def)
  obtain m' where m': "destroy_user_address_space cr3 m = Some (Ok (), m')" "pool_fine m'" "same_regs m m'"
    "in_use m' = in_use m - space_frames cr3 m" "\<forall>t. t \<notin> set (own_tables (tables m) cr3) \<longrightarrow> tables m' t = tables m t"
    using destroy_effect [OF a(1) assms(2)] by blast
  have "in_use m' = base" "\<forall>t\<in>base. tables m' t = tables m t" using m'(4,5) a(2,3) by (auto simp: space_frames_def)
  with m' show ?thesis by blast
qed

text \<open>The tree is read only through its own tables.\<close>

lemma tree_cong:
  assumes "\<And>t i. t \<in> set (own_tables tb cr3) \<Longrightarrow> \<not> (t = cr3 \<and> i = 0) \<Longrightarrow> tb' t i = tb t i" and "pte_addr (tb' cr3 0) = pte_addr (tb cr3 0)"
    and "distinct (own_tables tb cr3)"
  shows "own_tables tb' cr3 = own_tables tb cr3" and "page_leaf tb' cr3 = page_leaf tb cr3" and "no_huge tb' cr3 = no_huge tb cr3"
proof -
  have l3: "l3_of tb' cr3 = l3_of tb cr3" using assms(2) by (simp add: l3_of_def)
  have ue: "user_entry tb' cr3 = user_entry tb cr3"
    using assms(1) [of "l3_of tb cr3" 1] l3 by (simp add: user_entry_def own_tables_def)
  have l2: "tb' (pte_addr (user_entry tb cr3)) i = tb (pte_addr (user_entry tb cr3)) i" if "present (user_entry tb cr3)" for i
    using that assms(1,3) by (simp add: own_tables_def)
  have l1s: "l1_tables tb' cr3 = l1_tables tb cr3"
    using l2 tables_at_cong [of "[0..<512]" tb' "pte_addr (user_entry tb cr3)" tb] by (simp add: l1_tables_def ue)
  show "own_tables tb' cr3 = own_tables tb cr3" by (simp add: own_tables_def l3 ue l1s)
  show "no_huge tb' cr3 = no_huge tb cr3" using l2 by (auto simp: no_huge_def ue)
  have "page_leaf tb' cr3 pg = page_leaf tb cr3 pg" for pg
  proof (cases "present (user_entry tb cr3) \<and> present (tb (pte_addr (user_entry tb cr3)) (p2_index pg))")
    case True
    let ?l1 = "pte_addr (tb (pte_addr (user_entry tb cr3)) (p2_index pg))"
    have "?l1 \<in> set (l1_tables tb cr3)" using True by (auto simp: l1_tables_def tables_at_def p2_index_def)
    then have "tb' ?l1 (p1_index pg) = tb ?l1 (p1_index pg)"
      using assms(3) True by (intro assms(1)) (auto simp: own_tables_def)
    then show ?thesis using True l2 by (simp add: page_leaf_def ue)
  qed (use l2 in \<open>auto simp: page_leaf_def ue Let_def\<close>)
  then show "page_leaf tb' cr3 = page_leaf tb cr3" by blast
qed

lemma own_pages_image: "own_pages tb cr3 = (\<lambda>p. pte_addr (page_leaf tb cr3 p)) ` Collect (owns tb cr3)"
  by (auto simp: own_pages_leaf)

lemma leaf_cong:
  assumes "\<And>q. user_page q \<Longrightarrow> page_leaf tb' cr3 q = page_leaf tb cr3 q"
  shows "owns tb' cr3 = owns tb cr3" and "own_pages tb' cr3 = own_pages tb cr3"
proof -
  show o: "owns tb' cr3 = owns tb cr3" using assms by (auto simp: owns_def fun_eq_iff)
  have "pte_addr (page_leaf tb' cr3 q) = pte_addr (page_leaf tb cr3 q)" if "owns tb cr3 q" for q
    using that assms by (simp add: owns_def)
  then show "own_pages tb' cr3 = own_pages tb cr3" unfolding own_pages_image o by (intro image_cong) auto
qed

lemma accounted_same_tree:
  assumes "accounted base cr3 m" and "own_tables (tables m') cr3 = own_tables (tables m) cr3"
    and "page_leaf (tables m') cr3 = page_leaf (tables m) cr3" and "no_huge (tables m') cr3 = no_huge (tables m) cr3"
    and "pool_fine m'" and "same_regs m m'" and "in_use m' = in_use m \<union> extra" and "extra \<inter> in_use m = {}"
  shows "accounted (base \<union> extra) cr3 m'"
  using assms leaf_cong [of "tables m'" cr3 "tables m"]
  by (auto simp: accounted_def space_ok_def space_frames_def same_regs_def)

lemma alloc_effect_Some:
  assumes "pool_fine m" and "user_alloc_frame m = (Some f, m')"
  shows "f \<notin> in_use m" and "in_use m' = insert f (in_use m)" and "pool_fine m'" and "same_regs m m'"
    and "tables m' = (tables m)(f := (\<lambda>_. zero_entry))"
proof -
  obtain p p' where p: "frame_alloc m = Some p" "pool_ok p" "allocate 1 p = (Some f, p')" "space p \<subseteq> {..<2 ^ 52}"
    and m': "m' = m\<lparr>frame_alloc := Some p', tables := (\<lambda>t. if t \<in> run_of f 1 then (\<lambda>_. zero_entry) else tables m t)\<rparr>"
    using assms by (auto simp: user_alloc_frame_def user_alloc_contiguous_frames_def pool_fine_def split: prod.splits option.splits)
  have "alloc_frame p = Some (f, p')" using p(3) by (simp add: alloc_frame_def)
  note e = alloc_frame_effect [OF p(2) this]
  have "space p' = space p" using allocate_effect [OF p(2,3)] by (simp add: alloc_effect_def)
  then show "f \<notin> in_use m" "in_use m' = insert f (in_use m)" "pool_fine m'" "same_regs m m'"
    using e p(1,4) m' by (auto simp: in_use_def pool_fine_def same_regs_def)
  show "tables m' = (tables m)(f := (\<lambda>_. zero_entry))" using m' by (auto simp: fun_eq_iff)
qed

lemma alloc_effect_None:
  assumes "pool_fine m" and "user_alloc_frame m = (None, m')"
  shows "m' = m"
  using assms allocate_None [of 1]
  by (auto simp: user_alloc_frame_def user_alloc_contiguous_frames_def pool_fine_def split: prod.splits option.splits)

lemma accounted_alloc:
  assumes "accounted base cr3 m" and "user_alloc_frame m = (Some f, m1)"
  shows "accounted (insert f base) cr3 (open_low cr3 m1)" and "same_regs m (open_low cr3 m1)"
    and "page_leaf (tables (open_low cr3 m1)) cr3 = page_leaf (tables m) cr3"
proof -
  have ok: "space_ok cr3 m" using assms(1) by (simp add: accounted_def)
  then have pf: "pool_fine m" and d: "distinct (own_tables (tables m) cr3)" and u: "set (own_tables (tables m) cr3) \<subseteq> in_use m"
    by (auto simp: space_ok_def)
  note e = alloc_effect_Some [OF pf assms(2)]
  let ?m = "open_low cr3 m1"
  have f: "f \<notin> set (own_tables (tables m) cr3)" using u e(1) by blast
  have cr3: "cr3 \<in> set (own_tables (tables m) cr3)" by (simp add: own_tables_def)
  have t: "tables ?m t i = tables m t i" if "t \<in> set (own_tables (tables m) cr3)" "\<not> (t = cr3 \<and> i = 0)" for t i
    using that f e(5) by (auto simp: open_low_def)
  have a: "pte_addr (tables ?m cr3 0) = pte_addr (tables m cr3 0)" using f cr3 e(5) by (auto simp: open_low_def)
  note tc = tree_cong [OF t a d]
  show "page_leaf (tables ?m) cr3 = page_leaf (tables m) cr3" by (rule tc(2))
  show r: "same_regs m ?m" using e(4) by (simp add: same_regs_def open_low_def)
  have "accounted (base \<union> {f}) cr3 ?m"
    by (rule accounted_same_tree [OF assms(1) tc]) (use e(1-3) r in \<open>auto simp: open_low_def\<close>)
  then show "accounted (insert f base) cr3 ?m" by simp
qed

lemma accounted_map_to:
  assumes "map_to_ok mp" and "accounted (insert f base) cr3 m" and "f \<notin> base" and "user_page pg"
    and "map_to mp cr3 pg (leaf_entry virt wr True f) m = (r, m')"
  shows "accounted (if r = Mapped then base else insert f base) cr3 m'" and "same_regs m m'"
    and "\<And>q. user_page q \<Longrightarrow> page_leaf (tables m') cr3 q = (if q = pg \<and> r = Mapped then leaf_entry virt wr True f else page_leaf (tables m) cr3 q)"
    and "r = Mapped \<Longrightarrow> is_unused (page_leaf (tables m) cr3 pg)" and "\<And>t. t \<in> base \<Longrightarrow> tables m' t = tables m t"
proof -
  have ok: "space_ok cr3 m" and use: "in_use m = insert f base \<union> space_frames cr3 m"
    and dis: "insert f base \<inter> space_frames cr3 m = {}" using assms(2) by (auto simp: accounted_def)
  from assms(1) [unfolded map_to_ok_def, rule_format, OF ok assms(4,5)]
  have m': "pool_fine m'" "same_regs m m'" "in_use m \<subseteq> in_use m'" "distinct (own_tables (tables m') cr3)" "no_huge (tables m') cr3"
    "set (own_tables (tables m') cr3) = set (own_tables (tables m) cr3) \<union> (in_use m' - in_use m)"
    "\<And>t. t \<notin> set (own_tables (tables m') cr3) \<Longrightarrow> tables m' t = tables m t"
    and lf: "\<And>q. user_page q \<Longrightarrow> page_leaf (tables m') cr3 q = (if q = pg \<and> r = Mapped then leaf_entry virt wr True f else page_leaf (tables m) cr3 q)"
    and un: "r = Mapped \<Longrightarrow> is_unused (page_leaf (tables m) cr3 pg)" by blast+
  show "same_regs m m'" "\<And>q. user_page q \<Longrightarrow> page_leaf (tables m') cr3 q = (if q = pg \<and> r = Mapped then leaf_entry virt wr True f else page_leaf (tables m) cr3 q)"
    "r = Mapped \<Longrightarrow> is_unused (page_leaf (tables m) cr3 pg)" using m'(2) lf un by blast+
  show "tables m' t = tables m t" if "t \<in> base" for t
    using that dis use m'(6) by (intro m'(7)) (auto simp: space_frames_def)
  have ow: "owns (tables m') cr3 q \<longleftrightarrow> owns (tables m) cr3 q \<or> q = pg \<and> r = Mapped" for q
    using lf [of q] un assms(4) by (auto simp: owns_def leaf_entry_def is_unused_def zero_entry_def)
  have ad: "pte_addr (page_leaf (tables m') cr3 q) = (if q = pg \<and> r = Mapped then f else pte_addr (page_leaf (tables m) cr3 q))"
    if "owns (tables m') cr3 q" for q using that lf [of q] by (auto simp: owns_def leaf_entry_def)
  have np: "r = Mapped \<Longrightarrow> \<not> owns (tables m) cr3 pg" using un by (auto simp: owns_def is_unused_def zero_entry_def)
  have op: "own_pages (tables m') cr3 = own_pages (tables m) cr3 \<union> (if r = Mapped then {f} else {})"
    unfolding own_pages_image using ow ad np by (auto simp: image_iff)
  have fo: "f \<notin> own_pages (tables m) cr3" "f \<notin> set (own_tables (tables m') cr3)" "f \<in> in_use m"
    using dis use m'(6) by (auto simp: space_frames_def)
  have inj: "p = q" if "owns (tables m') cr3 p" "owns (tables m') cr3 q"
      "pte_addr (page_leaf (tables m') cr3 p) = pte_addr (page_leaf (tables m') cr3 q)" for p q
    using that ok ow ad fo(1) by (auto simp: space_ok_def own_pages_leaf split: if_splits)
  have "space_ok cr3 m'"
    using ok m' op fo inj use by (auto simp: space_ok_def same_regs_def split: if_splits)
  moreover have "space_frames cr3 m' = space_frames cr3 m \<union> (in_use m' - in_use m) \<union> (if r = Mapped then {f} else {})"
    using m'(6) op by (auto simp: space_frames_def)
  ultimately show "accounted (if r = Mapped then base else insert f base) cr3 m'"
    using use dis m'(3) assms(3) by (auto simp: accounted_def)
qed

lemma accounted_free:
  assumes "accounted (insert f base) cr3 m" and "f \<notin> base"
  shows "\<exists>m'. user_free_frame f m = Some m' \<and> accounted base cr3 m' \<and> same_regs m m' \<and> tables m' = tables m"
proof -
  have "pool_fine m" using assms(1) by (simp add: accounted_def space_ok_def)
  then obtain m' where m': "user_free_frame f m = Some m'" "pool_fine m'" "same_regs m m'" "in_use m' = in_use m - {f}" "tables m' = tables m"
    using user_free_frame_effect by blast
  moreover have "accounted base cr3 m'"
    using assms m' by (auto simp: accounted_def space_ok_def space_frames_def same_regs_def)
  ultimately show ?thesis by blast
qed

text \<open>Mapping one page: the page was unused and gets a fresh frame, or nothing but tables was added.\<close>

lemma map_user_page_effect:
  assumes "map_to_ok mp" and "accounted base cr3 m" and "USER_ADDR_BASE \<le> virt" and "virt < USER_ADDR_LIMIT"
  shows "\<exists>r m'. map_user_page_in_cr3 mp cr3 virt wr m = Some (r, m') \<and> accounted base cr3 m' \<and> same_regs m m' \<and>
    (is_ok r \<longrightarrow> is_unused (page_leaf (tables m) cr3 (containing_page virt)) \<and>
       (\<exists>f. f \<notin> in_use m \<and> (\<forall>q. user_page q \<longrightarrow> page_leaf (tables m') cr3 q =
          (if q = containing_page virt then leaf_entry virt wr True f else page_leaf (tables m) cr3 q)))) \<and>
    (\<not> is_ok r \<longrightarrow> (\<forall>q. user_page q \<longrightarrow> page_leaf (tables m') cr3 q = page_leaf (tables m) cr3 q))"
proof -
  have ok: "space_ok cr3 m" and pf: "pool_fine m" and c: "cr3 \<noteq> 0" using assms(2) by (auto simp: accounted_def space_ok_def)
  have canon: "is_canonical (word_of_nat virt)" 
    by (rule canonical_low) (use assms(4) in \<open>simp add: USER_ADDR_LIMIT_def unat_of_nat\<close>)
  have up: "user_page (containing_page virt)"
    using assms(3,4) by (auto simp: user_page_def containing_page_def USER_ADDR_BASE_def USER_ADDR_LIMIT_def)
  show ?thesis
  proof (cases "user_alloc_frame m")
    case (Pair fo m1)
    show ?thesis
    proof (cases fo)
      case None
      then have "m1 = m" using alloc_effect_None [OF pf] Pair by blast
      then show ?thesis using None Pair canon assms(2-4) by (simp add: map_user_page_in_cr3_def same_regs_def)
    next
      case (Some f)
      note al = Pair [unfolded Some]
      have f: "f \<notin> in_use m" "f \<notin> base" using alloc_effect_Some(1) [OF pf al] assms(2) by (auto simp: accounted_def)
      note a = accounted_alloc [OF assms(2) al]
      have t: "target_cr3 cr3 m1 = cr3" using c by (simp add: target_cr3_def)
      obtain r m2 where mp: "map_to mp cr3 (containing_page virt) (leaf_entry virt wr True f) (open_low cr3 m1) = (r, m2)" by fastforce
      note e = accounted_map_to [OF assms(1) a(1) f(2) up mp]
      show ?thesis
      proof (cases "r = Mapped")
        case True
        have "map_user_page_in_cr3 mp cr3 virt wr m = Some (Ok virt, m2)"
          using al canon assms(3,4) mp t True by (simp add: map_user_page_in_cr3_def Let_def)
        moreover have "same_regs m m2" using a(2) e(2) by (simp add: same_regs_def)
        ultimately show ?thesis using e(1,3,4) a(3) True f(1) by auto
      next
        case False
        then obtain m3 where m3: "user_free_frame f m2 = Some m3" "accounted base cr3 m3" "same_regs m2 m3" "tables m3 = tables m2"
          using accounted_free [of f base cr3 m2] e(1) f(2) by auto
        have "map_user_page_in_cr3 mp cr3 virt wr m =
            Some (Err ''user page already mapped or page-table allocation failed'', m3)"
          using al canon assms(3,4) mp t False m3(1) by (cases r) (simp_all add: map_user_page_in_cr3_def Let_def)
        moreover have "same_regs m m3" using a(2) e(2) m3(3) by (simp add: same_regs_def)
        ultimately show ?thesis using m3(2,4) e(3) a(3) False by auto
      qed
    qed
  qed
qed

subsection \<open>Rollback\<close>

lemma unmap_free_effect:
  assumes "unmap_ok mp" and "accounted base cr3 m" and "owns (tables m) cr3 pg" and "unmap mp cr3 pg m = (r, m1)"
  shows "\<exists>f m'. r = Some f \<and> user_free_frame f m1 = Some m' \<and> accounted base cr3 m' \<and> same_regs m m' \<and>
    (\<forall>q. user_page q \<longrightarrow> page_leaf (tables m') cr3 q = (if q = pg then zero_entry else page_leaf (tables m) cr3 q))"
proof -
  let ?f = "pte_addr (page_leaf (tables m) cr3 pg)"
  have ok: "space_ok cr3 m" and use: "in_use m = base \<union> space_frames cr3 m" and dis: "base \<inter> space_frames cr3 m = {}"
    using assms(2) by (auto simp: accounted_def)
  have up: "user_page pg" and pr: "present (page_leaf (tables m) cr3 pg)" using assms(3) by (auto simp: owns_def)
  from assms(1) [unfolded unmap_ok_def, rule_format, OF ok up assms(4)] pr
  have m1: "frame_alloc m1 = frame_alloc m" "same_regs m m1" "own_tables (tables m1) cr3 = own_tables (tables m) cr3"
    "no_huge (tables m1) cr3" "r = Some ?f"
    "\<And>q. user_page q \<Longrightarrow> page_leaf (tables m1) cr3 q = (if q = pg then zero_entry else page_leaf (tables m) cr3 q)" by auto
  have iu: "in_use m1 = in_use m" "pool_fine m1" using m1(1) ok by (auto simp: in_use_def pool_fine_def space_ok_def)
  have ow: "owns (tables m1) cr3 q \<longleftrightarrow> owns (tables m) cr3 q \<and> q \<noteq> pg" for q
    using m1(6) [of q] by (cases "q = pg") (auto simp: owns_def zero_entry_def)
  have ad: "pte_addr (page_leaf (tables m1) cr3 q) = pte_addr (page_leaf (tables m) cr3 q)" if "owns (tables m1) cr3 q" for q
  proof -
    have "user_page q" "q \<noteq> pg" using that ow by (auto simp: owns_def)
    then show ?thesis using m1(6) by simp
  qed
  have inj: "\<And>p q. owns (tables m) cr3 p \<Longrightarrow> owns (tables m) cr3 q \<Longrightarrow> pte_addr (page_leaf (tables m) cr3 p) = pte_addr (page_leaf (tables m) cr3 q) \<Longrightarrow> p = q"
    using ok by (auto simp: space_ok_def)
  have fi: "?f \<in> own_pages (tables m) cr3" unfolding own_pages_image using assms(3) by simp
  have "own_pages (tables m1) cr3 = (\<lambda>p. pte_addr (page_leaf (tables m) cr3 p)) ` (Collect (owns (tables m) cr3) - {pg})"
    unfolding own_pages_image using ow ad by (intro image_cong) auto
  also have "\<dots> = own_pages (tables m) cr3 - (\<lambda>p. pte_addr (page_leaf (tables m) cr3 p)) ` {pg}"
    unfolding own_pages_image using inj assms(3)
    by (intro inj_on_image_set_diff [where C = "Collect (owns (tables m) cr3)"]) (auto simp: inj_on_def)
  finally have op: "own_pages (tables m1) cr3 = own_pages (tables m) cr3 - {?f}" by simp
  obtain m' where m': "user_free_frame ?f m1 = Some m'" "pool_fine m'" "same_regs m1 m'" "in_use m' = in_use m1 - {?f}" "tables m' = tables m1"
    using user_free_frame_effect [OF iu(2)] by blast
  have sf: "space_frames cr3 m' = space_frames cr3 m - {?f}" and ft: "?f \<notin> set (own_tables (tables m) cr3)"
    using ok op fi m1(3) m'(5) by (auto simp: space_frames_def space_ok_def)
  have "space_ok cr3 m'" using ok m' m1(2-4) op iu ft ow ad by (auto simp: space_ok_def same_regs_def)
  then have "accounted base cr3 m'" using use dis sf m'(4) iu(1) fi by (auto simp: accounted_def space_frames_def)
  moreover have "same_regs m m'" using m1(2) m'(3) by (simp add: same_regs_def)
  ultimately show ?thesis using m1(5,6) m'(1,5) by auto
qed

lemma unmap_pages_effect:
  assumes "unmap_ok mp" and "accounted base cr3 m" and "\<And>j. j < n \<Longrightarrow> owns (tables m) cr3 (start + j)"
  shows "\<exists>m'. unmap_pages mp cr3 (start * 4096) n m = Some m' \<and> accounted base cr3 m' \<and> same_regs m m' \<and>
    (\<forall>q. user_page q \<longrightarrow> page_leaf (tables m') cr3 q = (if start \<le> q \<and> q < start + n then zero_entry else page_leaf (tables m) cr3 q))"
  using assms(3)
proof (induction n)
  case 0
  then show ?case using assms(2) by (auto simp: same_regs_def)
next
  case (Suc n)
  from Suc.IH [OF Suc.prems [OF less_SucI]] obtain m1 where m1: "unmap_pages mp cr3 (start * 4096) n m = Some m1"
    "accounted base cr3 m1" "same_regs m m1"
    "\<And>q. user_page q \<Longrightarrow> page_leaf (tables m1) cr3 q = (if start \<le> q \<and> q < start + n then zero_entry else page_leaf (tables m) cr3 q)"
    by blast
  have pg: "containing_page (start * 4096 + n * 4096) = start + n" 
    unfolding containing_page_def add_mult_distrib [symmetric] by simp
  have "owns (tables m) cr3 (start + n)" using Suc.prems by simp
  then have o: "owns (tables m1) cr3 (start + n)" using m1(4) [of "start + n"] by (simp add: owns_def)
  obtain r m2 where u: "unmap mp cr3 (start + n) m1 = (r, m2)" by fastforce
  from unmap_free_effect [OF assms(1) m1(2) o u] obtain f m' where m': "r = Some f" "user_free_frame f m2 = Some m'"
    "accounted base cr3 m'" "same_regs m1 m'"
    "\<And>q. user_page q \<Longrightarrow> page_leaf (tables m') cr3 q = (if q = start + n then zero_entry else page_leaf (tables m1) cr3 q)" by blast
  have "unmap_pages mp cr3 (start * 4096) (Suc n) m = Some m'" using m1(1) u m'(1,2) pg by simp
  moreover have "same_regs m m'" using m1(3) m'(4) by (simp add: same_regs_def)
  moreover have "page_leaf (tables m') cr3 q = (if start \<le> q \<and> q < start + Suc n then zero_entry else page_leaf (tables m) cr3 q)" if "user_page q" for q
    using m1(4) [OF that] m'(5) [OF that] by auto
  ultimately show ?case using m'(3) by blast
qed

text \<open>Pruning: the last-level tables it takes away are empty, so no page of the tree changes.\<close>

lemma prune_entries_effect:
  assumes "pool_fine m" and "distinct is" and "l2 \<notin> set (tables_at (tables m) l2 is)"
  shows "\<exists>m' Z. prune_entries l2 is m = Some m' \<and> pool_fine m' \<and> same_regs m m' \<and> Z \<subseteq> set is \<and>
    (\<forall>i\<in>Z. present (tables m l2 i) \<and> (\<forall>j<512. is_unused (tables m (pte_addr (tables m l2 i)) j))) \<and>
    in_use m' = in_use m - (\<lambda>i. pte_addr (tables m l2 i)) ` Z \<and>
    tables m' = (tables m)(l2 := (\<lambda>i. if i \<in> Z then zero_entry else tables m l2 i))"
  using assms
proof (induction "is" arbitrary: m)
  case Nil
  then show ?case by (intro exI [of _ m] exI [of _ "{}"]) (simp add: same_regs_def)
next
  case (Cons i "is")
  let ?e = "tables m l2 i"
  let ?go = "present ?e \<and> \<not> huge_page ?e \<and> list_all (\<lambda>j. is_unused (tables m (pte_addr ?e) j)) [0..<512]"
  show ?case
  proof (cases ?go)
    case False
    have "l2 \<notin> set (tables_at (tables m) l2 is)" using Cons.prems(3) by (auto simp: tables_at_def split: if_splits)
    moreover have d: "distinct is" using Cons.prems(2) by simp
    ultimately obtain m' Z where m': "prune_entries l2 is m = Some m'" "pool_fine m'" "same_regs m m'" "Z \<subseteq> set is"
      "\<forall>i\<in>Z. present (tables m l2 i) \<and> (\<forall>j<512. is_unused (tables m (pte_addr (tables m l2 i)) j))"
      "in_use m' = in_use m - (\<lambda>i. pte_addr (tables m l2 i)) ` Z"
      "tables m' = (tables m)(l2 := (\<lambda>i. if i \<in> Z then zero_entry else tables m l2 i))"
      using Cons.IH [OF Cons.prems(1)] by blast
    have "prune_entries l2 (i # is) m = Some m'" using False m'(1) by (simp only: prune_entries.simps Let_def if_False)
    moreover have "Z \<subseteq> set (i # is)" using m'(4) by auto
    ultimately show ?thesis by (intro exI [of _ m'] exI [of _ Z] conjI) (assumption | rule m')+
  next
    case True
    let ?l1 = "pte_addr ?e"
    obtain m1 where m1: "user_free_frame ?l1 (set_entry l2 i zero_entry m) = Some m1" "pool_fine m1" "same_regs m m1"
      "in_use m1 = in_use m - {?l1}" "tables m1 = (tables m)(l2 := (tables m l2)(i := zero_entry))"
      using user_free_frame_effect [of "set_entry l2 i zero_entry m" ?l1] Cons.prems(1) by (auto simp: same_regs_def)
    have same: "j \<in> set is \<Longrightarrow> tables m1 l2 j = tables m l2 j" "t \<noteq> l2 \<Longrightarrow> tables m1 t = tables m t" for j t
      using m1(5) Cons.prems(2) by auto
    have ts: "tables_at (tables m1) l2 is = tables_at (tables m) l2 is" using same(1) by (intro tables_at_cong) simp
    have nl: "l2 \<notin> set (tables_at (tables m) l2 is)" using Cons.prems(3) by (auto simp: tables_at_def split: if_splits)
    have d: "distinct is" using Cons.prems(2) by simp
    from Cons.IH [OF m1(2) d, unfolded ts, OF nl] obtain m' Z where m': "prune_entries l2 is m1 = Some m'" "pool_fine m'" "same_regs m1 m'" "Z \<subseteq> set is"
      "\<forall>i\<in>Z. present (tables m1 l2 i) \<and> (\<forall>j<512. is_unused (tables m1 (pte_addr (tables m1 l2 i)) j))"
      "in_use m' = in_use m1 - (\<lambda>i. pte_addr (tables m1 l2 i)) ` Z"
      "tables m' = (tables m1)(l2 := (\<lambda>i. if i \<in> Z then zero_entry else tables m1 l2 i))" by blast
    have Z: "tables m1 l2 j = tables m l2 j" "tables m1 (pte_addr (tables m l2 j)) = tables m (pte_addr (tables m l2 j))" if "j \<in> Z" for j
    proof -
      show e: "tables m1 l2 j = tables m l2 j" using that m'(4) same(1) by blast
      have "pte_addr (tables m l2 j) \<in> set (tables_at (tables m) l2 is)" 
        using bspec [OF m'(5) that] that m'(4) e by (auto simp: tables_at_def)
      then show "tables m1 (pte_addr (tables m l2 j)) = tables m (pte_addr (tables m l2 j))" using nl by (intro same(2)) auto
    qed
    show ?thesis
    proof (intro exI [of _ m'] exI [of _ "insert i Z"] conjI)
      show "prune_entries l2 (i # is) m = Some m'" using True m1(1) m'(1) by (simp add: Let_def)
      show "\<forall>k\<in>insert i Z. present (tables m l2 k) \<and> (\<forall>j<512. is_unused (tables m (pte_addr (tables m l2 k)) j))"
        using True m'(5) Z by (auto simp: list_all_iff)
      show "in_use m' = in_use m - (\<lambda>i. pte_addr (tables m l2 i)) ` insert i Z" using m'(6) m1(4) Z(1) by auto
      show "tables m' = (tables m)(l2 := (\<lambda>k. if k \<in> insert i Z then zero_entry else tables m l2 k))"
        using m'(7) m1(5) Z(1) by (auto simp: fun_eq_iff)
    qed (use m'(2-4) m1(3) in \<open>auto simp: same_regs_def\<close>)
  qed
qed

lemma accounted_fewer_tables:
  assumes "accounted base cr3 m" and "set (own_tables (tables m') cr3) = set (own_tables (tables m) cr3) - gone"
    and "distinct (own_tables (tables m') cr3)" and "no_huge (tables m') cr3"
    and "\<And>q. user_page q \<Longrightarrow> page_leaf (tables m') cr3 q = page_leaf (tables m) cr3 q" and "gone \<subseteq> set (own_tables (tables m) cr3)"
    and "pool_fine m'" and "same_regs m m'" and "in_use m' = in_use m - gone"
  shows "accounted base cr3 m'"
proof -
  have o: "owns (tables m') cr3 = owns (tables m) cr3" "own_pages (tables m') cr3 = own_pages (tables m) cr3"
    using leaf_cong [of "tables m'" cr3 "tables m"] assms(5) by simp_all
  have ad: "owns (tables m) cr3 q \<Longrightarrow> page_leaf (tables m') cr3 q = page_leaf (tables m) cr3 q" for q using assms(5) by (simp add: owns_def)
  have ok: "space_ok cr3 m" using assms(1) by (simp add: accounted_def)
  have "space_ok cr3 m'"
    using ok assms(2-4,6-9) o ad unfolding space_ok_def same_regs_def by auto
  moreover have "space_frames cr3 m' = space_frames cr3 m - gone"
    using assms(2,6) o(2) ok by (auto simp: space_frames_def space_ok_def)
  ultimately show ?thesis using assms(1,6,9) by (auto simp: accounted_def space_frames_def)
qed

lemma prune_leaves:
  assumes "present (user_entry tb cr3)" and l2: "l2 = pte_addr (user_entry tb cr3)" and d: "distinct (own_tables tb cr3)"
    and tb': "tb' = tb(l2 := (\<lambda>i. if i \<in> Z then zero_entry else tb l2 i))" and "Z \<subseteq> {0..<512}"
    and Z: "\<forall>i\<in>Z. present (tb l2 i) \<and> (\<forall>j<512. is_unused (tb (pte_addr (tb l2 i)) j))"
  shows "user_entry tb' cr3 = user_entry tb cr3" and "l3_of tb' cr3 = l3_of tb cr3"
    and "set (l1_tables tb' cr3) = set (l1_tables tb cr3) - (\<lambda>i. pte_addr (tb l2 i)) ` Z"
    and "distinct (own_tables tb' cr3)" and "page_leaf tb' cr3 = page_leaf tb cr3"
proof -
  have own: "own_tables tb cr3 = cr3 # l3_of tb cr3 # l2 # tables_at tb l2 [0..<512]"
    using assms(1) l2 by (simp add: own_tables_def l1_tables_def)
  have ne: "l2 \<noteq> cr3" "l2 \<noteq> l3_of tb cr3" "l2 \<notin> set (tables_at tb l2 [0..<512])" using d own by auto
  show l3: "l3_of tb' cr3 = l3_of tb cr3" using ne tb' by (simp add: l3_of_def)
  show ue: "user_entry tb' cr3 = user_entry tb cr3" using ne tb' l3 by (simp add: user_entry_def)
  have zp: "\<not> present zero_entry" by (simp add: zero_entry_def)
  have fl: "filter (\<lambda>i. present (tb' l2 i)) [0..<512] = filter (\<lambda>i. i \<notin> Z) (filter (\<lambda>i. present (tb l2 i)) [0..<512])"
    using tb' zp by (auto simp: filter_filter intro!: filter_cong)
  have l1: "l1_tables tb' cr3 = map (\<lambda>i. pte_addr (tb l2 i)) (filter (\<lambda>i. i \<notin> Z) (filter (\<lambda>i. present (tb l2 i)) [0..<512]))"
    unfolding l1_tables_def ue l2 [symmetric] tables_at_def fl using assms(1) tb' by auto
  have inj: "inj_on (\<lambda>i. pte_addr (tb l2 i)) {i. i < 512 \<and> present (tb l2 i)}"
    using d own by (auto simp: tables_at_def distinct_map atLeast0LessThan inj_on_def)
  have old: "l1_tables tb cr3 = tables_at tb l2 [0..<512]" using assms(1) l2 by (simp add: l1_tables_def)
  show st: "set (l1_tables tb' cr3) = set (l1_tables tb cr3) - (\<lambda>i. pte_addr (tb l2 i)) ` Z"
    unfolding l1 old tables_at_def using inj assms(5) Z by (auto simp: inj_on_def image_iff subset_iff)
  have "distinct (map (\<lambda>i. pte_addr (tb l2 i)) (filter (\<lambda>i. present (tb l2 i)) [0..<512]))"
    using d own by (simp add: tables_at_def)
  then have "distinct (l1_tables tb' cr3)" unfolding l1 by (rule distinct_map_filter)
  then show "distinct (own_tables tb' cr3)"
    using d assms(1) st by (simp add: own_tables_def ue l3)
  have at: "tb' l2 i = (if i \<in> Z then zero_entry else tb l2 i)" "t \<noteq> l2 \<Longrightarrow> tb' t = tb t" for i t using tb' by simp_all
  have "page_leaf tb' cr3 pg = page_leaf tb cr3 pg" for pg
  proof (cases "p2_index pg \<in> Z")
    case True
    then have "is_unused (tb (pte_addr (tb l2 (p2_index pg))) (p1_index pg))" using Z by (simp add: p1_index_def)
    then show ?thesis using True zp Z assms(1) by (simp add: page_leaf_def ue l2 [symmetric] is_unused_def Let_def at)
  next
    case False
    show ?thesis
    proof (cases "present (tb l2 (p2_index pg))")
      case True
      then have "pte_addr (tb l2 (p2_index pg)) \<in> set (tables_at tb l2 [0..<512])" by (auto simp: tables_at_def p2_index_def)
      then have "pte_addr (tb l2 (p2_index pg)) \<noteq> l2" using ne(3) by auto
      then show ?thesis using False by (simp add: page_leaf_def ue l2 [symmetric] Let_def at)
    qed (use False in \<open>simp add: page_leaf_def ue l2 [symmetric] Let_def at\<close>)
  qed
  then show "page_leaf tb' cr3 = page_leaf tb cr3" by blast
qed

lemma prune_effect:
  assumes "accounted base cr3 m"
  shows "\<exists>m'. prune_empty_user_tables cr3 m = Some m' \<and> accounted base cr3 m' \<and> same_regs m m' \<and>
    (\<forall>q. user_page q \<longrightarrow> page_leaf (tables m') cr3 q = page_leaf (tables m) cr3 q)"
proof (cases "present (user_entry (tables m) cr3)")
  case False
  then have "prune_empty_user_tables cr3 m = Some m" by (simp add: prune_empty_user_tables_def user_entry_def l3_of_def Let_def)
  then show ?thesis using assms by (auto simp: same_regs_def)
next
  case True
  let ?tb = "tables m"
  let ?e = "user_entry ?tb cr3" and ?l3 = "l3_of ?tb cr3"
  let ?l2 = "pte_addr ?e"
  have ok: "space_ok cr3 m" using assms by (simp add: accounted_def)
  then have pf: "pool_fine m" and d: "distinct (own_tables ?tb cr3)" and nh: "no_huge ?tb cr3" by (auto simp: space_ok_def)
  have own: "own_tables ?tb cr3 = cr3 # ?l3 # ?l2 # tables_at ?tb ?l2 [0..<512]"
    using True by (simp add: own_tables_def l1_tables_def)
  obtain m1 Z where m1: "prune_entries ?l2 [0..<512] m = Some m1" "pool_fine m1" "same_regs m m1" "Z \<subseteq> set [0..<512]"
    and Z: "\<forall>i\<in>Z. present (?tb ?l2 i) \<and> (\<forall>j<512. is_unused (?tb (pte_addr (?tb ?l2 i)) j))"
    and iu: "in_use m1 = in_use m - (\<lambda>i. pte_addr (?tb ?l2 i)) ` Z"
    and tb: "tables m1 = ?tb(?l2 := (\<lambda>i. if i \<in> Z then zero_entry else ?tb ?l2 i))"
    using prune_entries_effect [OF pf, of "[0..<512]" ?l2] d own by fastforce
  have Z': "Z \<subseteq> {0..<512}" using m1(4) by simp
  note pl = prune_leaves [OF True refl d tb Z' Z]
  have gone: "(\<lambda>i. pte_addr (?tb ?l2 i)) ` Z \<subseteq> set (tables_at ?tb ?l2 [0..<512])"
    using Z Z' by (auto simp: tables_at_def subset_iff)
  have l1o: "l1_tables ?tb cr3 = tables_at ?tb ?l2 [0..<512]" using True by (simp add: l1_tables_def)
  have own1: "set (own_tables (tables m1) cr3) = set (own_tables ?tb cr3) - (\<lambda>i. pte_addr (?tb ?l2 i)) ` Z"
    using pl(1-3) True gone d own l1o by (auto simp: own_tables_def)
  have nh1: "no_huge (tables m1) cr3" using nh pl(1) tb by (auto simp: no_huge_def zero_entry_def)
  have a1: "accounted base cr3 m1"
    by (rule accounted_fewer_tables [OF assms own1 pl(4) nh1]) (use pl(5) gone own m1(2,3) iu in auto)
  show ?thesis
  proof (cases "list_all (\<lambda>j. is_unused (tables m1 ?l2 j)) [0..<512]")
    case False
    then have "prune_empty_user_tables cr3 m = Some m1"
      using True m1(1) unfolding prune_empty_user_tables_def user_entry_def l3_of_def Let_def by simp
    then show ?thesis using a1 m1(3) pl(5) by auto
  next
    case empty: True
    obtain m2 where m2: "user_free_frame ?l2 (set_entry ?l3 1 zero_entry m1) = Some m2" "pool_fine m2" "same_regs m1 m2"
      "in_use m2 = in_use m1 - {?l2}" "tables m2 = (tables m1)(?l3 := (tables m1 ?l3)(1 := zero_entry))"
      using user_free_frame_effect [of "set_entry ?l3 1 zero_entry m1" ?l2] m1(2) by (auto simp: same_regs_def)
    have zp: "\<not> present zero_entry" by (simp add: zero_entry_def)
    have ne: "?l3 \<noteq> cr3" "?l2 \<noteq> ?l3" "?l2 \<noteq> cr3" using d own by auto
    have e1: "tables m1 ?l2 j = zero_entry" if "j < 512" for j using empty that by (auto simp: list_all_iff is_unused_def)
    have l1: "l1_tables (tables m1) cr3 = []"
      using e1 zp True pl(1) by (auto simp: l1_tables_def tables_at_def filter_empty_conv)
    have l32: "l3_of (tables m2) cr3 = ?l3" using m2(5) ne(1) pl(2) by (simp add: l3_of_def)
    have ue2: "user_entry (tables m2) cr3 = zero_entry" using m2(5) l32 by (simp add: user_entry_def)
    have own2: "own_tables (tables m2) cr3 = [cr3, ?l3]" by (simp add: own_tables_def l32 ue2 zp)
    have ownm1: "own_tables (tables m1) cr3 = [cr3, ?l3, ?l2]" using True by (simp add: own_tables_def pl(1,2) l1)
    have lf: "page_leaf (tables m2) cr3 q = page_leaf (tables m1) cr3 q" for q
      using e1 [of "p2_index q"] by (simp add: page_leaf_def ue2 zp pl(1) p2_index_def)
    have "accounted base cr3 m2"
      by (rule accounted_fewer_tables [OF a1, of m2 "{?l2}"])
        (use own2 ownm1 ne lf m2(2-4) in \<open>auto simp: no_huge_def ue2 zp\<close>)
    moreover have "prune_empty_user_tables cr3 m = Some m2"
      using True m1(1) m2(1) empty unfolding prune_empty_user_tables_def user_entry_def l3_of_def Let_def by simp
    moreover have "same_regs m m2" using m1(3) m2(3) by (simp add: same_regs_def)
    ultimately show ?thesis using pl(5) lf by auto
  qed
qed

lemma user_page_times: "USER_ADDR_BASE \<le> k * 4096 \<Longrightarrow> k * 4096 < USER_ADDR_LIMIT \<Longrightarrow> user_page k"
  unfolding user_page_def USER_ADDR_BASE_def USER_ADDR_LIMIT_def by linarith

text \<open>
  Mapping pages \<open>i\<close> to \<open>i + n\<close> of a region whose first \<open>i\<close> pages are mapped: all are mapped in the end, or none of the region.
\<close>

lemma map_pages_effect:
  assumes "map_to_ok mp" and "unmap_ok mp" and "accounted base cr3 m" and "USER_ADDR_BASE \<le> s * 4096"
    and "(s + i + n) * 4096 \<le> USER_ADDR_LIMIT" and "\<And>j. j < i \<Longrightarrow> owns (tables m) cr3 (s + j)"
  shows "\<exists>r m'. map_pages mp cr3 (s * 4096) wr i n m = Some (r, m') \<and> accounted base cr3 m' \<and> same_regs m m' \<and>
    (is_ok r \<longrightarrow> (\<forall>q. user_page q \<longrightarrow> (if s + i \<le> q \<and> q < s + i + n
        then is_unused (page_leaf (tables m) cr3 q) \<and> (\<exists>f. page_leaf (tables m') cr3 q = leaf_entry (q * 4096) wr True f)
        else page_leaf (tables m') cr3 q = page_leaf (tables m) cr3 q))) \<and>
    (\<not> is_ok r \<longrightarrow> (\<forall>q. user_page q \<longrightarrow>
        page_leaf (tables m') cr3 q = (if s \<le> q \<and> q < s + i then zero_entry else page_leaf (tables m) cr3 q)))"
  using assms(3,5,6)
proof (induction n arbitrary: i m)
  case 0
  then show ?case by (auto simp: same_regs_def)
next
  case (Suc n)
  let ?v = "s * 4096 + i * 4096"
  have v: "?v = (s + i) * 4096" "containing_page ((s + i) * 4096) = s + i"
    unfolding containing_page_def add_mult_distrib [symmetric] by simp_all
  have rng: "USER_ADDR_BASE \<le> ?v" "?v < USER_ADDR_LIMIT" using assms(4) Suc.prems(2) by simp_all
  have up: "user_page (s + i)" by (rule user_page_times) (use rng in \<open>simp_all only: v(1)\<close>)
  obtain r1 m1 where m1: "map_user_page_in_cr3 mp cr3 ?v wr m = Some (r1, m1)" "accounted base cr3 m1" "same_regs m m1"
    and good: "is_ok r1 \<Longrightarrow> is_unused (page_leaf (tables m) cr3 (s + i)) \<and>
       (\<exists>f. \<forall>q. user_page q \<longrightarrow> page_leaf (tables m1) cr3 q = (if q = s + i then leaf_entry ((s + i) * 4096) wr True f else page_leaf (tables m) cr3 q))"
    and bad: "\<not> is_ok r1 \<Longrightarrow> \<forall>q. user_page q \<longrightarrow> page_leaf (tables m1) cr3 q = page_leaf (tables m) cr3 q"
    using map_user_page_effect [OF assms(1) Suc.prems(1) rng, of wr] unfolding v by blast
  show ?case
  proof (cases r1)
    case (Inr x)
    then have "is_ok r1" by (simp add: is_ok_def)
    with good obtain f where un: "is_unused (page_leaf (tables m) cr3 (s + i))"
      and lf: "\<And>q. user_page q \<Longrightarrow> page_leaf (tables m1) cr3 q = (if q = s + i then leaf_entry ((s + i) * 4096) wr True f else page_leaf (tables m) cr3 q)"
      by blast
    have "owns (tables m1) cr3 (s + j)" if "j < i + 1" for j
      using that Suc.prems(3) [of j] lf up by (cases "j = i") (auto simp: owns_def leaf_entry_def)
    moreover have "(s + (i + 1) + n) * 4096 \<le> USER_ADDR_LIMIT" using Suc.prems(2) by simp
    ultimately obtain r m' where m': "map_pages mp cr3 (s * 4096) wr (i + 1) n m1 = Some (r, m')" "accounted base cr3 m'" "same_regs m1 m'"
      and ok: "is_ok r \<Longrightarrow> (\<forall>q. user_page q \<longrightarrow> (if s + (i + 1) \<le> q \<and> q < s + (i + 1) + n
        then is_unused (page_leaf (tables m1) cr3 q) \<and> (\<exists>f. page_leaf (tables m') cr3 q = leaf_entry (q * 4096) wr True f)
        else page_leaf (tables m') cr3 q = page_leaf (tables m1) cr3 q))"
      and err: "\<not> is_ok r \<Longrightarrow> (\<forall>q. user_page q \<longrightarrow>
        page_leaf (tables m') cr3 q = (if s \<le> q \<and> q < s + (i + 1) then zero_entry else page_leaf (tables m1) cr3 q))"
      using Suc.IH [OF m1(2)] by blast
    have "map_pages mp cr3 (s * 4096) wr i (Suc n) m = Some (r, m')" using m1(1) m'(1) Inr by simp
    moreover have "same_regs m m'" using m1(3) m'(3) by (simp add: same_regs_def)
    moreover have "if s + i \<le> q \<and> q < s + i + Suc n
        then is_unused (page_leaf (tables m) cr3 q) \<and> (\<exists>f. page_leaf (tables m') cr3 q = leaf_entry (q * 4096) wr True f)
        else page_leaf (tables m') cr3 q = page_leaf (tables m) cr3 q" if "is_ok r" "user_page q" for q
    proof (cases "q = s + i")
      case True
      then show ?thesis using ok [OF that(1), rule_format, OF that(2)] lf [OF that(2)] un by auto
    next
      case False
      then show ?thesis using ok [OF that(1), rule_format, OF that(2)] lf [OF that(2)] by (auto split: if_splits)
    qed
    moreover have "page_leaf (tables m') cr3 q = (if s \<le> q \<and> q < s + i then zero_entry else page_leaf (tables m) cr3 q)"
      if "\<not> is_ok r" "user_page q" for q
      using err [OF that(1), rule_format, OF that(2)] lf [OF that(2)] un by (cases "q = s + i") (auto simp: is_unused_def)
    ultimately show ?thesis using m'(2) by blast
  next
    case (Inl e)
    then have lf: "\<And>q. user_page q \<Longrightarrow> page_leaf (tables m1) cr3 q = page_leaf (tables m) cr3 q" using bad by (simp add: is_ok_def)
    have "owns (tables m1) cr3 (s + j)" if "j < i" for j using Suc.prems(3) [OF that] lf by (simp add: owns_def)
    then obtain m2 where m2: "unmap_pages mp cr3 (s * 4096) i m1 = Some m2" "accounted base cr3 m2" "same_regs m1 m2"
      "\<And>q. user_page q \<Longrightarrow> page_leaf (tables m2) cr3 q = (if s \<le> q \<and> q < s + i then zero_entry else page_leaf (tables m1) cr3 q)"
      using unmap_pages_effect [OF assms(2) m1(2), of i s] by blast
    obtain m3 where m3: "prune_empty_user_tables cr3 m2 = Some m3" "accounted base cr3 m3" "same_regs m2 m3"
      "\<And>q. user_page q \<Longrightarrow> page_leaf (tables m3) cr3 q = page_leaf (tables m2) cr3 q"
      using prune_effect [OF m2(2)] by blast
    have "cr3 \<noteq> 0" using m1(2) by (simp add: accounted_def space_ok_def)
    then have "map_pages mp cr3 (s * 4096) wr i (Suc n) m = Some (Err e, m3)"
      using m1(1) m2(1) m3(1) Inl by (simp add: target_cr3_def)
    moreover have "same_regs m m3" using m1(3) m2(3) m3(3) by (simp add: same_regs_def)
    ultimately show ?thesis using m3(2,4) m2(4) lf by auto
  qed
qed

lemma page_bounds: "a div 4096 * 4096 \<le> a" "a < a div 4096 * 4096 + (4096 :: nat)"
  using div_mod_decomp [of a 4096] mod_less_divisor [of 4096 a] by linarith+

lemma map_region_effect:
  assumes "map_to_ok mp" and "unmap_ok mp" and "accounted base cr3 m"
  shows "\<exists>r m'. map_user_region_in_cr3 mp cr3 virt len wr m = Some (r, m') \<and> accounted base cr3 m' \<and> same_regs m m' \<and>
    (is_ok r \<longrightarrow> USER_ADDR_BASE \<le> virt \<and> virt + max len 1 \<le> USER_ADDR_LIMIT \<and>
      (\<forall>q. user_page q \<longrightarrow> (if \<exists>a. virt \<le> a \<and> a < virt + max len 1 \<and> q = containing_page a
        then is_unused (page_leaf (tables m) cr3 q) \<and> (\<exists>f. page_leaf (tables m') cr3 q = leaf_entry (q * 4096) wr True f)
        else page_leaf (tables m') cr3 q = page_leaf (tables m) cr3 q))) \<and>
    (\<not> is_ok r \<longrightarrow> (\<forall>q. user_page q \<longrightarrow> page_leaf (tables m') cr3 q = page_leaf (tables m) cr3 q))"
proof (cases "checked_add 64 virt (max len 1) = None \<or> virt < USER_ADDR_BASE \<or> USER_ADDR_LIMIT < virt + max len 1")
  case True
  then have "\<exists>e. map_user_region_in_cr3 mp cr3 virt len wr m = Some (Err e, m)"
    by (cases "checked_add 64 virt (max len 1)") (auto simp: map_user_region_in_cr3_def checked_add_def split: if_splits)
  then obtain e where e: "map_user_region_in_cr3 mp cr3 virt len wr m = Some (Err e, m)" ..
  show ?thesis unfolding e using assms(3) by (auto simp: same_regs_def)
next
  case False
  let ?stop = "virt + max len 1"
  define s where "s = virt div 4096"
  define n where "n = (?stop - s * 4096 + 4095) div 4096"
  have add: "checked_add 64 virt (max len 1) = Some ?stop" and rng: "USER_ADDR_BASE \<le> virt" "?stop \<le> USER_ADDR_LIMIT"
    using False by (auto simp: checked_add_def split: if_splits)
  have start: "virt - virt mod 4096 = s * 4096" by (simp add: s_def minus_mod_eq_div_mult)
  have sv: "s * 4096 \<le> virt" "virt < s * 4096 + 4096"  unfolding s_def by (rule page_bounds)+
  have "0x40000 \<le> s" using div_le_mono [OF rng(1), of 4096] by (simp add: s_def USER_ADDR_BASE_def)
  then have base: "USER_ADDR_BASE \<le> s * 4096" by (simp add: USER_ADDR_BASE_def)
  have nb: "n * 4096 \<le> ?stop - s * 4096 + 4095" "?stop - s * 4096 + 4095 < n * 4096 + 4096" unfolding n_def by (rule page_bounds)+
  have lim: "(s + 0 + n) * 4096 \<le> USER_ADDR_LIMIT"
  proof -
    have "(s + n) * 4096 \<le> 0x80000000 + 4095" using rng(2) sv(1) nb(1) unfolding USER_ADDR_LIMIT_def by simp
    then have "(s + n) * 4096 div 4096 \<le> (0x80000000 + 4095) div 4096" by (rule div_le_mono)
    then have "s + n \<le> 0x80000" by (simp del: distrib_right_numeral)
    then show ?thesis by (simp add: USER_ADDR_LIMIT_def)
  qed
  have cover: "(\<exists>a. virt \<le> a \<and> a < ?stop \<and> q = containing_page a) \<longleftrightarrow> s \<le> q \<and> q < s + n" for q
  proof
    assume "\<exists>a. virt \<le> a \<and> a < ?stop \<and> q = containing_page a"
    then obtain a where "virt \<le> a" "a < ?stop" "q = a div 4096" by (auto simp: containing_page_def)
    moreover from this have "q * 4096 \<le> a" "a < q * 4096 + 4096" using page_bounds [of a] by simp_all
    ultimately show "s \<le> q \<and> q < s + n" using sv nb(2) by (intro conjI; linarith)
  next
    assume q: "s \<le> q \<and> q < s + n"
    have "virt \<le> max virt (q * 4096) \<and> max virt (q * 4096) < ?stop \<and> q = max virt (q * 4096) div 4096"
    proof (cases "q = s")
      case True
      then show ?thesis using sv by (simp add: max_def)
    next
      case False
      then have "virt \<le> q * 4096" using q sv(2) by linarith
      moreover have "q * 4096 < ?stop" using q nb(1) sv(1) by linarith
      ultimately show ?thesis by (simp add: max_def)
    qed
    then show "\<exists>a. virt \<le> a \<and> a < ?stop \<and> q = containing_page a" unfolding containing_page_def by blast
  qed
  obtain r m' where m': "map_pages mp cr3 (s * 4096) wr 0 n m = Some (r, m')" "accounted base cr3 m'" "same_regs m m'"
    and ok: "is_ok r \<Longrightarrow> \<forall>q. user_page q \<longrightarrow> (if s + 0 \<le> q \<and> q < s + 0 + n
        then is_unused (page_leaf (tables m) cr3 q) \<and> (\<exists>f. page_leaf (tables m') cr3 q = leaf_entry (q * 4096) wr True f)
        else page_leaf (tables m') cr3 q = page_leaf (tables m) cr3 q)"
    and err: "\<not> is_ok r \<Longrightarrow> \<forall>q. user_page q \<longrightarrow>
        page_leaf (tables m') cr3 q = (if s \<le> q \<and> q < s + 0 then zero_entry else page_leaf (tables m) cr3 q)"
    using map_pages_effect [OF assms base lim, of wr] by blast
  have "map_user_region_in_cr3 mp cr3 virt len wr m = Some (case r of Inl e \<Rightarrow> Err e | Inr _ \<Rightarrow> Ok virt, m')"
    unfolding map_user_region_in_cr3_def add using m'(1) rng by (simp add: start n_def Let_def)
  moreover have "is_ok (case r of Inl e \<Rightarrow> Err e | Inr _ \<Rightarrow> Ok virt) = is_ok r" by (cases r) auto
  ultimately show ?thesis using m'(2,3) ok err rng unfolding cover by auto
qed

subsection \<open>A new address space\<close>

definition managed :: "mmu \<Rightarrow> nat set" where
  "managed m = (case frame_alloc m of None \<Rightarrow> {} | Some p \<Rightarrow> space p)"

definition kernel_root :: "mmu \<Rightarrow> nat" where
  "kernel_root m = (case shared_kernel_cr3 m of None \<Rightarrow> active_cr3 m | Some s \<Rightarrow> s)"

lemma alloc_managed:
  assumes "pool_fine m" and "user_alloc_frame m = (Some f, m')"
  shows "f \<in> managed m" and "managed m' = managed m"
proof -
  obtain p p' where p: "frame_alloc m = Some p" "pool_ok p" "allocate 1 p = (Some f, p')" and p': "frame_alloc m' = Some p'"
    using assms by (auto simp: user_alloc_frame_def user_alloc_contiguous_frames_def pool_fine_def split: prod.splits option.splits)
  have e: "space p' = space p" "allocated p' = allocated p \<union> {f}" using allocate_effect [OF p(2,3)] by (simp_all add: alloc_effect_def)
  have "f \<in> space p'" using mem_page [of f] e(2) by (auto simp: space_def)
  then show "f \<in> managed m" "managed m' = managed m" using p(1) p' e(1) by (simp_all add: managed_def)
qed

text \<open>The kernel's own tables and address 0 are outside the frame pool.\<close>

definition kernel_apart :: "mmu \<Rightarrow> bool" where
  "kernel_apart m \<longleftrightarrow> {0, kernel_root m, pte_addr (tables m (kernel_root m) 0)} \<inter> managed m = {}"

lemma fill_tables_entries:
  assumes "root \<noteq> low" and "src \<notin> {root, low}" and "pte_addr (tables m src 0) \<notin> {root, low}"
  shows "tables (fill_tables src root low m) root i =
      (if i = 0 then zero_entry\<lparr>present := True, writable := True, user_accessible := True, pte_addr := low\<rparr>
       else if i < 512 then tables m src i else tables m root i)"
    and "tables (fill_tables src root low m) low i =
      (let e = (if present (tables m src 0) \<and> i < 512 then tables m (pte_addr (tables m src 0)) i else tables m low i)
       in if i = 1 then zero_entry else if i = 0 then e\<lparr>user_accessible := False\<rparr> else e)"
    and "t \<notin> {root, low} \<Longrightarrow> tables (fill_tables src root low m) t = tables m t"
    and "frame_alloc (fill_tables src root low m) = frame_alloc m" and "same_regs m (fill_tables src root low m)"
  using assms by (auto simp: fill_tables_def copy_table_def Let_def same_regs_def)

text \<open>What a new address space is: the kernel's mappings, supervisor-only in the first gigabyte, and no user page.\<close>

definition fresh_space :: "nat \<Rightarrow> mmu \<Rightarrow> mmu \<Rightarrow> bool" where
  "fresh_space cr3 m m' \<longleftrightarrow>
     (\<forall>i. 0 < i \<and> i < 512 \<longrightarrow> tables m' cr3 i = tables m (kernel_root m) i) \<and>
     (\<forall>i. 1 < i \<and> i < 512 \<longrightarrow> present (tables m (kernel_root m) 0) \<longrightarrow>
        tables m' (l3_of (tables m') cr3) i = tables m (pte_addr (tables m (kernel_root m) 0)) i) \<and>
     \<not> user_accessible (tables m' (l3_of (tables m') cr3) 0) \<and>
     (\<forall>q. page_leaf (tables m') cr3 q = zero_entry) \<and> cr3 \<notin> in_use m \<and>
     (\<forall>t. t \<in> in_use m \<or> t \<notin> managed m \<longrightarrow> tables m' t = tables m t)"

lemma clone_effect:
  assumes "pool_fine m" and "kernel_apart m"
  shows "\<exists>r m'. clone_active_cr3 m = Some (r, m') \<and> pool_fine m' \<and> active_cr3 m' = active_cr3 m \<and>
    shared_kernel_cr3 m' = Some (kernel_root m) \<and> (r = None \<longrightarrow> in_use m' = in_use m) \<and>
    (\<forall>cr3. r = Some cr3 \<longrightarrow> accounted (in_use m) cr3 m' \<and> fresh_space cr3 m m' \<and> cr3 \<in> managed m)"
proof -
  let ?m0 = "capture_shared_kernel_cr3 m"
  have m0: "frame_alloc ?m0 = frame_alloc m" "tables ?m0 = tables m" "active_cr3 ?m0 = active_cr3 m"
    "shared_kernel_cr3 ?m0 = Some (kernel_root m)"
    by (auto simp: capture_shared_kernel_cr3_def kernel_root_def split: option.split)
  have b0: "pool_fine ?m0" "in_use ?m0 = in_use m" "managed ?m0 = managed m"
    using assms(1) m0(1) by (auto simp: pool_fine_def in_use_def managed_def)
  obtain ro m1 where a1: "user_alloc_frame ?m0 = (ro, m1)" by fastforce
  show ?thesis
  proof (cases ro)
    case None
    then have "m1 = ?m0" using alloc_effect_None [OF b0(1)] a1 by blast
    then show ?thesis using None a1 b0 m0 by (simp add: clone_active_cr3_def)
  next
    case (Some root)
    note a1 = a1 [unfolded Some]
    note e1 = alloc_effect_Some [OF b0(1) a1] alloc_managed [OF b0(1) a1]
    obtain lo m2 where a2: "user_alloc_frame m1 = (lo, m2)" by fastforce
    show ?thesis
    proof (cases lo)
      case None
      then have m2: "m2 = m1" using alloc_effect_None [OF e1(3)] a2 by blast
      obtain m3 where m3: "user_free_frame root m1 = Some m3" "pool_fine m3" "same_regs m1 m3" "in_use m3 = in_use m1 - {root}"
        using user_free_frame_effect [OF e1(3)] by blast
      have "clone_active_cr3 m = Some (None, m3)" using a1 a2 None m2 m3(1) by (simp add: clone_active_cr3_def)
      then show ?thesis using m3 e1(1,2,4) b0(2) m0(3,4) by (auto simp: same_regs_def)
    next
      case (Some low)
      note a2 = a2 [unfolded Some]
      note e2 = alloc_effect_Some [OF e1(3) a2] alloc_managed [OF e1(3) a2]
      let ?src = "kernel_root m" and ?m = "fill_tables (kernel_root m) root low m2"
      have sh: "shared_kernel_cr3 m2 = Some ?src" "active_cr3 m2 = active_cr3 m"
        using m0(3,4) e1(4) e2(4) by (simp_all add: same_regs_def)
      have r: "clone_active_cr3 m = Some (Some root, ?m)" using a1 a2 sh by (simp add: clone_active_cr3_def)
      have ap: "0 \<notin> managed m" "?src \<notin> managed m" "pte_addr (tables m ?src 0) \<notin> managed m"
        using assms(2) by (auto simp: kernel_apart_def)
      have ne: "root \<noteq> low" "root \<in> managed m" "low \<in> managed m" "root \<notin> in_use m" "low \<notin> in_use m"
        "in_use m2 = {root, low} \<union> in_use m"
        using e1 e2 b0 by auto
      have tb: "tables m2 = (tables m)(root := (\<lambda>_. zero_entry), low := (\<lambda>_. zero_entry))" using e1(5) e2(5) m0(2) by simp
      have out: "?src \<notin> {root, low}" "pte_addr (tables m ?src 0) \<notin> {root, low}" using ap ne(2,3) by auto
      then have out2: "pte_addr (tables m2 ?src 0) \<notin> {root, low}" using tb by auto
      note f = fill_tables_entries [OF ne(1) out(1) out2]
      have l3: "l3_of (tables ?m) root = low" by (simp add: l3_of_def f(1))
      have ue: "user_entry (tables ?m) root = zero_entry" by (simp add: user_entry_def l3 f(2) Let_def)
      have zp: "\<not> present zero_entry" by (simp add: zero_entry_def)
      have own: "own_tables (tables ?m) root = [root, low]" by (simp add: own_tables_def l3 ue zp)
      have lf: "page_leaf (tables ?m) root q = zero_entry" for q by (simp add: page_leaf_def ue zp)
      have op: "own_pages (tables ?m) root = {}" by (auto simp: own_pages_leaf owns_def lf zp)
      have iu: "in_use ?m = {root, low} \<union> in_use m" "pool_fine ?m" using ne(6) e2(3) f(4) by (auto simp: in_use_def pool_fine_def)
      have "space_ok root ?m"
        unfolding space_ok_def own op
      proof (intro conjI)
        show "root \<noteq> 0" using ne(2) ap(1) by (cases "root = 0") simp_all
        show "shared_kernel_cr3 ?m \<noteq> Some root" using f(5) sh(1) out(1) by (simp add: same_regs_def)
        show "no_huge (tables ?m) root" by (simp add: no_huge_def ue zp)
        show "\<forall>p q. owns (tables ?m) root p \<longrightarrow> owns (tables ?m) root q \<longrightarrow>
            pte_addr (page_leaf (tables ?m) root p) = pte_addr (page_leaf (tables ?m) root q) \<longrightarrow> p = q"
          by (simp add: owns_def lf zp)
      qed (use iu ne(1) in auto)
      then have acc: "accounted (in_use m) root ?m" using iu own op ne(4,5) by (auto simp: accounted_def space_frames_def)
      have old: "tables m2 t = tables m t" if "t \<notin> {root, low}" for t using that tb by simp
      have "tables ?m t = tables m t" if "t \<in> in_use m \<or> t \<notin> managed m" for t
      proof -
        have "t \<notin> {root, low}" using that ne by auto
        then show ?thesis using f(3) old by simp
      qed
      moreover have "tables ?m root i = tables m ?src i" if "0 < i" "i < 512" for i using that f(1) [of i] old [OF out(1)] by simp
      moreover have "tables ?m low i = tables m (pte_addr (tables m ?src 0)) i" if "1 < i" "i < 512" "present (tables m ?src 0)" for i
        using that f(2) [of i] old [OF out(1)] old [OF out(2)] by (simp add: Let_def)
      moreover have "\<not> user_accessible (tables ?m low 0)" using f(2) [of 0] by (simp add: Let_def)
      ultimately have "fresh_space root m ?m" unfolding fresh_space_def l3 using lf ne(4) by blast
      then show ?thesis using r acc iu f(5) sh ne(2) by (auto simp: same_regs_def)
    qed
  qed
qed

end
