(* ===== verification/Exec_Space.thy ===== *)
theory Exec_Space
  imports Address_Space
begin

section \<open>Starting a program in a new address space\<close>

text \<open>
  How a new program gets its address space: the part of \<^verbatim>\<open>exec_elf_proc\<close> that builds the page tables, over the operations of
  \<^verbatim>\<open>kernel/src/memory.rs\<close>. The paging crate is the parameter \<open>mp\<close> with its documented behaviour \<open>map_to_ok\<close> and \<open>unmap_ok\<close>. A
  mapper written out in full shows that this behaviour can be had.
\<close>

subsection \<open>The operations\<close>

text \<open>
  The address space of a new program, as \<^verbatim>\<open>exec_elf_proc\<close> in \<^verbatim>\<open>kernel/src/task/process.rs\<close> sets it up: a region for each segment, given as
  address, length and writability, and one page of stack. An error drops the builder; on success it is committed. The
  bytes of the segments go to pages, not to tables, and are left out.
\<close>

definition USER_STACK_TOP :: nat where "USER_STACK_TOP = 0x7FFF0000"

fun load_segments :: "mapper \<Rightarrow> nat \<Rightarrow> (nat \<times> nat \<times> bool) list \<Rightarrow> mmu \<Rightarrow> ((string, unit) result \<times> mmu) option" where
  "load_segments mp cr3 [] m = Some (Ok (), m)"
| "load_segments mp cr3 ((vaddr, memsz, wr) # segs) m = do {
     (r, m1) \<leftarrow> map_user_region_in_cr3 mp cr3 vaddr (max memsz 1) wr m;
     case r of Inl e \<Rightarrow> Some (Err e, m1) | Inr _ \<Rightarrow> load_segments mp cr3 segs m1
   }"

definition exec_address_space :: "mapper \<Rightarrow> (nat \<times> nat \<times> bool) list \<Rightarrow> mmu \<Rightarrow> ((string, nat) result \<times> mmu) option" where
  "exec_address_space mp segs m0 = do {
     (b, m1) \<leftarrow> builder_new m0;
     case b of
       Inl e \<Rightarrow> Some (Err e, m1)
     | Inr cr3 \<Rightarrow> do {
         (r, m2) \<leftarrow> load_segments mp cr3 (segs @ [(USER_STACK_TOP - 4096, 4096, True)]) m1;
         case r of
           Inl e \<Rightarrow> do { m3 \<leftarrow> builder_drop cr3 m2; Some (Err e, m3) }
         | Inr _ \<Rightarrow> Some (Ok cr3, m2)
       }
   }"

lemma load_segments_effect:
  assumes "map_to_ok mp" and "unmap_ok mp" and "accounted base cr3 m"
  shows "\<exists>r m'. load_segments mp cr3 segs m = Some (r, m') \<and> accounted base cr3 m' \<and> same_regs m m'"
  using assms(3)
proof (induction segs arbitrary: m)
  case Nil
  then show ?case by (simp add: same_regs_def)
next
  case (Cons seg segs)
  obtain v n wr where seg: "seg = (v, n, wr)" by (cases seg)
  from map_region_effect [OF assms(1,2) Cons.prems, of v "max n 1" wr] obtain r m1 where
    m1: "map_user_region_in_cr3 mp cr3 v (max n 1) wr m = Some (r, m1)" "accounted base cr3 m1" "same_regs m m1" by blast
  from Cons.IH [OF m1(2)] obtain r' m2 where
    m2: "load_segments mp cr3 segs m1 = Some (r', m2)" "accounted base cr3 m2" "same_regs m1 m2" by blast
  show ?case
  proof (cases r)
    case (Inl e)
    then show ?thesis using m1 by (simp add: seg)
  next
    case (Inr x)
    then show ?thesis using m1 m2 by (simp add: seg same_regs_def)
  qed
qed

subsection \<open>A mapper\<close>

definition table_entry :: "nat \<Rightarrow> pt_entry" where
  "table_entry f = zero_entry\<lparr>present := True, writable := True, user_accessible := True, pte_addr := f\<rparr>"

definition link_table :: "nat \<Rightarrow> nat \<Rightarrow> mmu \<Rightarrow> nat option \<times> mmu" where
  "link_table t i m =
     (if present (tables m t i) then (Some (pte_addr (tables m t i)), m)
      else case user_alloc_frame m of
        (None, m1) \<Rightarrow> (None, m1)
      | (Some f, m1) \<Rightarrow> (Some f, set_entry t i (table_entry f) m1))"

definition walk_map :: "nat \<Rightarrow> nat \<Rightarrow> pt_entry \<Rightarrow> mmu \<Rightarrow> map_result \<times> mmu" where
  "walk_map cr3 pg e m =
     (case link_table (l3_of (tables m) cr3) 1 m of
        (None, m1) \<Rightarrow> (MapFailed, m1)
      | (Some l2, m1) \<Rightarrow>
          (case link_table l2 (p2_index pg) m1 of
             (None, m2) \<Rightarrow> (MapFailed, m2)
           | (Some l1, m2) \<Rightarrow>
               if is_unused (tables m2 l1 (p1_index pg)) then (Mapped, set_entry l1 (p1_index pg) e m2)
               else (AlreadyMapped, m2)))"

definition walk_unmap :: "nat \<Rightarrow> nat \<Rightarrow> mmu \<Rightarrow> nat option \<times> mmu" where
  "walk_unmap cr3 pg m =
     (let e = page_leaf (tables m) cr3 pg in
      if present e
      then (Some (pte_addr e),
            set_entry (pte_addr (tables m (pte_addr (user_entry (tables m) cr3)) (p2_index pg))) (p1_index pg) zero_entry m)
      else (None, m))"

definition walk_mapper :: mapper where
  "walk_mapper = \<lparr>map_to = walk_map, update_flags = (\<lambda>_ _ _ m. m), unmap = walk_unmap,
     translate_page = (\<lambda>cr3 pg m. let e = page_leaf (tables m) cr3 pg in if present e then Some (pte_addr e) else None)\<rparr>"

text \<open>The tree grows by fresh tables only; its pages stay.\<close>

definition tree_ext :: "nat \<Rightarrow> mmu \<Rightarrow> mmu \<Rightarrow> bool" where
  "tree_ext cr3 m m' \<longleftrightarrow> pool_fine m' \<and> same_regs m m' \<and> in_use m \<subseteq> in_use m' \<and>
     distinct (own_tables (tables m') cr3) \<and> no_huge (tables m') cr3 \<and>
     set (own_tables (tables m') cr3) = set (own_tables (tables m) cr3) \<union> (in_use m' - in_use m) \<and>
     (\<forall>t. t \<notin> set (own_tables (tables m') cr3) \<longrightarrow> tables m' t = tables m t) \<and>
     page_leaf (tables m') cr3 = page_leaf (tables m) cr3"

lemma tree_ext_refl: "space_ok cr3 m \<Longrightarrow> tree_ext cr3 m m"
  by (auto simp: tree_ext_def space_ok_def same_regs_def)

lemma tree_ext_trans: "tree_ext cr3 m m1 \<Longrightarrow> tree_ext cr3 m1 m2 \<Longrightarrow> tree_ext cr3 m m2"
  unfolding tree_ext_def same_regs_def by (intro conjI; (elim conjE)?; auto)

lemma tree_ext_ok:
  assumes "space_ok cr3 m" and "tree_ext cr3 m m'"
  shows "space_ok cr3 m'"
proof -
  have e: "page_leaf (tables m') cr3 = page_leaf (tables m) cr3" using assms(2) by (simp add: tree_ext_def)
  have o: "owns (tables m') cr3 = owns (tables m) cr3" "own_pages (tables m') cr3 = own_pages (tables m) cr3"
    using leaf_cong [of "tables m'" cr3 "tables m"] e by simp_all
  show ?thesis using assms unfolding space_ok_def tree_ext_def o e same_regs_def by auto
qed

lemma zero_present [simp]: "\<not> present zero_entry" "\<not> huge_page zero_entry" "\<not> bit_9 zero_entry"
  by (simp_all add: zero_entry_def)

lemma link_first:
  assumes ok: "space_ok cr3 m" and l: "link_table (l3_of (tables m) cr3) 1 m = (r, m')"
  shows "tree_ext cr3 m m'" and "r = Some l2 \<Longrightarrow> present (user_entry (tables m') cr3) \<and> pte_addr (user_entry (tables m') cr3) = l2"
proof -
  let ?l3 = "l3_of (tables m) cr3"
  have pf: "pool_fine m" using ok by (simp add: space_ok_def)
  consider (there) "present (user_entry (tables m) cr3)" "m' = m" "r = Some (pte_addr (user_entry (tables m) cr3))"
    | (none) "m' = m" "r = None"
    | (new) f m1 where "\<not> present (user_entry (tables m) cr3)" "user_alloc_frame m = (Some f, m1)" "r = Some f"
        "m' = set_entry ?l3 1 (table_entry f) m1"
    using l alloc_effect_None [OF pf]
    by (auto simp: link_table_def user_entry_def split: if_splits prod.splits option.splits)
  then have "tree_ext cr3 m m' \<and> (r = Some l2 \<longrightarrow> present (user_entry (tables m') cr3) \<and> pte_addr (user_entry (tables m') cr3) = l2)"
  proof cases
    case there
    then show ?thesis using tree_ext_refl [OF ok] by auto
  next
    case none
    then show ?thesis using tree_ext_refl [OF ok] by auto
  next
    case new
    note e = alloc_effect_Some [OF pf new(2)]
    have own: "own_tables (tables m) cr3 = [cr3, ?l3]" using new(1) by (simp add: own_tables_def)
    then have ne: "cr3 \<noteq> ?l3" "f \<noteq> cr3" "f \<noteq> ?l3" using ok e(1) by (auto simp: space_ok_def)
    have tb: "tables m' = (tables m)(f := (\<lambda>_. zero_entry), ?l3 := (tables m ?l3)(1 := table_entry f))"
      using new(4) e(5) ne by auto
    have l3: "l3_of (tables m') cr3 = ?l3" using tb ne by (simp add: l3_of_def)
    have ue: "user_entry (tables m') cr3 = table_entry f" unfolding user_entry_def l3 using tb by simp
    have te: "present (table_entry f)" "pte_addr (table_entry f) = f" by (simp_all add: table_entry_def)
    have zf: "tables m' f i = zero_entry" for i using tb ne by simp
    have l1: "l1_tables (tables m') cr3 = []" by (simp add: l1_tables_def ue te tables_at_def zf filter_empty_conv)
    have own': "own_tables (tables m') cr3 = [cr3, ?l3, f]" by (simp add: own_tables_def l3 ue te l1)
    have lf: "page_leaf (tables m') cr3 = page_leaf (tables m) cr3"
      using new(1) by (auto simp: page_leaf_def fun_eq_iff ue te zf Let_def)
    have iu: "in_use m' = insert f (in_use m)" "pool_fine m'" "same_regs m m'" using new(4) e by (auto simp: same_regs_def)
    have "tree_ext cr3 m m'"
      unfolding tree_ext_def own own'
    proof (intro conjI)
      show "no_huge (tables m') cr3" by (simp add: no_huge_def ue te zf)
      show "\<forall>t. t \<notin> set [cr3, ?l3, f] \<longrightarrow> tables m' t = tables m t" using tb by simp
      show "set [cr3, ?l3, f] = set [cr3, ?l3] \<union> (in_use m' - in_use m)" using iu(1) e(1) by auto
    qed (use iu ne lf in auto)
    then show ?thesis using new(3) ue te by auto
  qed
  then show "tree_ext cr3 m m'" "r = Some l2 \<Longrightarrow> present (user_entry (tables m') cr3) \<and> pte_addr (user_entry (tables m') cr3) = l2"
    by simp_all
qed

lemma link_second:
  assumes ok: "space_ok cr3 m" and pr: "present (user_entry (tables m) cr3)" and l2: "pte_addr (user_entry (tables m) cr3) = l2"
    and i: "i < 512" and l: "link_table l2 i m = (r, m')"
  shows "tree_ext cr3 m m'" and "user_entry (tables m') cr3 = user_entry (tables m) cr3"
    and "r = Some l1 \<Longrightarrow> present (tables m' l2 i) \<and> pte_addr (tables m' l2 i) = l1"
proof -
  let ?tb = "tables m"
  have pf: "pool_fine m" and d: "distinct (own_tables ?tb cr3)" and nh: "no_huge ?tb cr3" and u: "set (own_tables ?tb cr3) \<subseteq> in_use m"
    using ok by (auto simp: space_ok_def)
  consider (there) "present (?tb l2 i)" "m' = m" "r = Some (pte_addr (?tb l2 i))"
    | (none) "m' = m" "r = None"
    | (new) f m1 where "\<not> present (?tb l2 i)" "user_alloc_frame m = (Some f, m1)" "r = Some f" "m' = set_entry l2 i (table_entry f) m1"
    using l alloc_effect_None [OF pf] by (auto simp: link_table_def split: if_splits prod.splits option.splits)
  then have "tree_ext cr3 m m' \<and> user_entry (tables m') cr3 = user_entry ?tb cr3 \<and>
      (r = Some l1 \<longrightarrow> present (tables m' l2 i) \<and> pte_addr (tables m' l2 i) = l1)"
  proof cases
    case there
    then show ?thesis using tree_ext_refl [OF ok] by auto
  next
    case none
    then show ?thesis using tree_ext_refl [OF ok] by auto
  next
    case new
    note e = alloc_effect_Some [OF pf new(2)]
    have own: "own_tables ?tb cr3 = cr3 # l3_of ?tb cr3 # l2 # tables_at ?tb l2 [0..<512]"
      using pr l2 by (simp add: own_tables_def l1_tables_def)
    have fn: "f \<notin> set (own_tables ?tb cr3)" using u e(1) by blast
    have tb: "tables m' = ?tb(f := (\<lambda>_. zero_entry), l2 := (?tb l2)(i := table_entry f))"
      using new(4) e(5) fn own by auto
    have at: "tables m' l2 j = (if j = i then table_entry f else ?tb l2 j)" "tables m' f j = zero_entry"
      "t \<noteq> l2 \<Longrightarrow> t \<noteq> f \<Longrightarrow> tables m' t = ?tb t" for j t using tb fn own by auto
    have te: "present (table_entry f)" "pte_addr (table_entry f) = f" "\<not> huge_page (table_entry f)" by (simp_all add: table_entry_def)
    have l3: "l3_of (tables m') cr3 = l3_of ?tb cr3" using at(3) [of cr3] d own fn by (auto simp: l3_of_def)
    have ue: "user_entry (tables m') cr3 = user_entry ?tb cr3" using at(3) [of "l3_of ?tb cr3"] d own fn by (auto simp: user_entry_def l3)
    have inj: "inj_on (\<lambda>j. pte_addr (?tb l2 j)) {j. j < 512 \<and> present (?tb l2 j)}"
      using d own by (auto simp: tables_at_def distinct_map atLeast0LessThan inj_on_def)
    have fo: "pte_addr (?tb l2 j) \<noteq> f" if "j < 512" "present (?tb l2 j)" for j
      using fn that own by (auto simp: tables_at_def)
    have st: "set (tables_at (tables m') l2 [0..<512]) = insert f (set (tables_at ?tb l2 [0..<512]))"
    proof -
      have "{j. j < 512 \<and> present (tables m' l2 j)} = insert i {j. j < 512 \<and> present (?tb l2 j)}" using i te at(1) by auto
      moreover have "(\<lambda>j. pte_addr (tables m' l2 j)) ` {j. j < 512 \<and> present (?tb l2 j)} =
          (\<lambda>j. pte_addr (?tb l2 j)) ` {j. j < 512 \<and> present (?tb l2 j)}"
        using new(1) at(1) by (intro image_cong) auto
      moreover have "pte_addr (tables m' l2 i) = f" using at(1) te by simp
      ultimately show ?thesis by (simp add: tables_at_def atLeast0LessThan lessThan_def)
    qed
    have di: "distinct (tables_at (tables m') l2 [0..<512])"
      using inj fo new(1) te at(1) by (auto simp: tables_at_def distinct_map inj_on_def)
    have own': "own_tables (tables m') cr3 = cr3 # l3_of ?tb cr3 # l2 # tables_at (tables m') l2 [0..<512]"
      using pr l2 by (simp add: own_tables_def l1_tables_def ue l3)
    have "page_leaf (tables m') cr3 q = page_leaf ?tb cr3 q" for q
    proof (cases "p2_index q = i")
      case True
      then show ?thesis using new(1) te at(1,2) by (simp add: page_leaf_def ue l2 Let_def)
    next
      case False
      have "pte_addr (?tb l2 (p2_index q)) \<notin> {l2, f}" if "present (?tb l2 (p2_index q))"
      proof -
        have "pte_addr (?tb l2 (p2_index q)) \<in> set (tables_at ?tb l2 [0..<512])" using that by (auto simp: tables_at_def p2_index_def)
        then show ?thesis using d own fn by auto
      qed
      then show ?thesis using False at(1,3) by (auto simp: page_leaf_def ue l2 Let_def)
    qed
    then have lf: "page_leaf (tables m') cr3 = page_leaf ?tb cr3" by blast
    have iu: "in_use m' = insert f (in_use m)" "pool_fine m'" "same_regs m m'" using new(4) e by (auto simp: same_regs_def)
    have nh': "no_huge (tables m') cr3" using nh at(1) te by (auto simp: no_huge_def ue l2)
    have "tree_ext cr3 m m'"
      unfolding tree_ext_def
    proof (intro conjI)
      show "distinct (own_tables (tables m') cr3)" using d own fn di st by (auto simp: own')
      show "set (own_tables (tables m') cr3) = set (own_tables ?tb cr3) \<union> (in_use m' - in_use m)"
        using iu(1) e(1) st unfolding own own' by auto
      show "\<forall>t. t \<notin> set (own_tables (tables m') cr3) \<longrightarrow> tables m' t = ?tb t" using at(3) st unfolding own' by auto
    qed (use iu nh' lf in auto)
    then show ?thesis using new(3) ue at(1) te by auto
  qed
  then show "tree_ext cr3 m m'" "user_entry (tables m') cr3 = user_entry (tables m) cr3"
    "r = Some l1 \<Longrightarrow> present (tables m' l2 i) \<and> pte_addr (tables m' l2 i) = l1" by simp_all
qed

lemma user_page_eq:
  assumes "user_page p" and "user_page q"
  shows "p = q \<longleftrightarrow> p2_index p = p2_index q \<and> p1_index p = p1_index q"
proof -
  have "k = 0x40000 + p2_index k * 512 + p1_index k" if "user_page k" for k
  proof -
    have "512 \<le> k div 512" "k div 512 < 1024" using that div_le_mono [of "0x40000" k 512] by (auto simp: user_page_def)
    then have "k div 512 mod 512 = k div 512 - 512" by (simp add: mod_if)
    then show ?thesis using \<open>512 \<le> k div 512\<close> div_mod_decomp [of k 512] unfolding p2_index_def p1_index_def by linarith
  qed
  from this [OF assms(1)] this [OF assms(2)] show ?thesis by metis
qed

lemma set_leaf:
  assumes ok: "space_ok cr3 m" and pr: "present (user_entry (tables m) cr3)" and pr2: "present (tables m (pte_addr (user_entry (tables m) cr3)) (p2_index pg))"
    and l1: "l1 = pte_addr (tables m (pte_addr (user_entry (tables m) cr3)) (p2_index pg))" and up: "user_page pg"
    and m': "m' = set_entry l1 (p1_index pg) e m"
  shows "own_tables (tables m') cr3 = own_tables (tables m) cr3" and "no_huge (tables m') cr3"
    and "\<And>t. t \<notin> set (own_tables (tables m) cr3) \<Longrightarrow> tables m' t = tables m t"
    and "\<And>q. user_page q \<Longrightarrow> page_leaf (tables m') cr3 q = (if q = pg then e else page_leaf (tables m) cr3 q)"
proof -
  let ?tb = "tables m" and ?l2 = "pte_addr (user_entry (tables m) cr3)"
  have d: "distinct (own_tables ?tb cr3)" and nh: "no_huge ?tb cr3" using ok by (auto simp: space_ok_def)
  have own: "own_tables ?tb cr3 = cr3 # l3_of ?tb cr3 # ?l2 # tables_at ?tb ?l2 [0..<512]"
    using pr by (simp add: own_tables_def l1_tables_def)
  have mem: "l1 \<in> set (tables_at ?tb ?l2 [0..<512])" using pr2 l1 by (auto simp: tables_at_def p2_index_def)
  then have ne: "l1 \<noteq> cr3" "l1 \<noteq> l3_of ?tb cr3" "l1 \<noteq> ?l2" using d own by auto
  have at: "t \<noteq> l1 \<Longrightarrow> tables m' t = ?tb t" "tables m' l1 j = (if j = p1_index pg then e else ?tb l1 j)" for t j using m' by simp_all
  have l3: "l3_of (tables m') cr3 = l3_of ?tb cr3" using at(1) ne by (simp add: l3_of_def)
  have ue: "user_entry (tables m') cr3 = user_entry ?tb cr3" using at(1) ne by (simp add: user_entry_def l3)
  have l2s: "tables m' ?l2 = ?tb ?l2" using at(1) ne by simp
  show "own_tables (tables m') cr3 = own_tables ?tb cr3" by (simp add: own_tables_def l1_tables_def l3 ue tables_at_def l2s)
  show "no_huge (tables m') cr3" using nh by (simp add: no_huge_def ue l2s)
  show "tables m' t = ?tb t" if "t \<notin> set (own_tables ?tb cr3)" for t using that mem own by (intro at(1)) auto
  have inj: "inj_on (\<lambda>j. pte_addr (?tb ?l2 j)) {j. j < 512 \<and> present (?tb ?l2 j)}"
    using d own by (auto simp: tables_at_def distinct_map atLeast0LessThan inj_on_def)
  show "page_leaf (tables m') cr3 q = (if q = pg then e else page_leaf ?tb cr3 q)" if "user_page q" for q
  proof (cases "p2_index q = p2_index pg")
    case True
    then show ?thesis using pr pr2 l1 at(2) user_page_eq [OF that up] by (simp add: page_leaf_def ue l2s Let_def)
  next
    case False
    have "pte_addr (?tb ?l2 (p2_index q)) \<noteq> l1" if "present (?tb ?l2 (p2_index q))"
      using inj_onD [OF inj, of "p2_index q" "p2_index pg"] that pr2 l1 False by (auto simp: p2_index_def)
    then show ?thesis using False at(1) by (auto simp: page_leaf_def ue l2s Let_def)
  qed
qed

lemma walk_map_ok: "map_to_ok walk_mapper"
  unfolding map_to_ok_def
proof (intro allI impI)
  fix cr3 pg e m r m'
  assume ok: "space_ok cr3 m" and up: "user_page pg" and "map_to walk_mapper cr3 pg e m = (r, m')"
  then have w: "walk_map cr3 pg e m = (r, m')" by (simp add: walk_mapper_def)
  obtain a m1 where a: "link_table (l3_of (tables m) cr3) 1 m = (a, m1)" by fastforce
  note f1 = link_first [OF ok a]
  note ok1 = tree_ext_ok [OF ok f1(1)]
  have "r \<noteq> Mapped \<and> tree_ext cr3 m m' \<or> (\<exists>m2 l1. r = Mapped \<and> tree_ext cr3 m m2 \<and> present (user_entry (tables m2) cr3) \<and>
      present (tables m2 (pte_addr (user_entry (tables m2) cr3)) (p2_index pg)) \<and>
      l1 = pte_addr (tables m2 (pte_addr (user_entry (tables m2) cr3)) (p2_index pg)) \<and> is_unused (tables m2 l1 (p1_index pg)) \<and>
      m' = set_entry l1 (p1_index pg) e m2)"
  proof (cases a)
    case None
    then show ?thesis using w a f1(1) by (simp add: walk_map_def)
  next
    case (Some l2)
    note u1 = f1(2) [OF Some]
    obtain b m2 where b: "link_table l2 (p2_index pg) m1 = (b, m2)" by fastforce
    have "p2_index pg < 512" by (simp add: p2_index_def)
    note f2 = link_second [OF ok1 _ _ this b]
    have te: "tree_ext cr3 m m2" using tree_ext_trans [OF f1(1) f2(1)] u1 by blast
    show ?thesis
    proof (cases b)
      case None
      then show ?thesis using w a b Some te by (simp add: walk_map_def)
    next
      case (Some l1)
      have p2: "present (tables m2 l2 (p2_index pg)) \<and> pte_addr (tables m2 l2 (p2_index pg)) = l1"
        and ue: "user_entry (tables m2) cr3 = user_entry (tables m1) cr3" using f2(2,3) u1 Some by blast+
      show ?thesis
        using w a b \<open>a = Some l2\<close> Some te p2 ue u1 by (auto simp: walk_map_def split: if_splits)
    qed
  qed
  then show "pool_fine m' \<and> same_regs m m' \<and> in_use m \<subseteq> in_use m' \<and> distinct (own_tables (tables m') cr3) \<and> no_huge (tables m') cr3 \<and>
     set (own_tables (tables m') cr3) = set (own_tables (tables m) cr3) \<union> (in_use m' - in_use m) \<and>
     (\<forall>t. t \<notin> set (own_tables (tables m') cr3) \<longrightarrow> tables m' t = tables m t) \<and>
     (\<forall>q. user_page q \<longrightarrow> page_leaf (tables m') cr3 q = (if q = pg \<and> r = Mapped then e else page_leaf (tables m) cr3 q)) \<and>
     (r = Mapped \<longrightarrow> is_unused (page_leaf (tables m) cr3 pg))"
  proof
    assume "r \<noteq> Mapped \<and> tree_ext cr3 m m'"
    then show ?thesis by (auto simp: tree_ext_def)
  next
    assume "\<exists>m2 l1. r = Mapped \<and> tree_ext cr3 m m2 \<and> present (user_entry (tables m2) cr3) \<and>
      present (tables m2 (pte_addr (user_entry (tables m2) cr3)) (p2_index pg)) \<and>
      l1 = pte_addr (tables m2 (pte_addr (user_entry (tables m2) cr3)) (p2_index pg)) \<and> is_unused (tables m2 l1 (p1_index pg)) \<and>
      m' = set_entry l1 (p1_index pg) e m2"
    then obtain m2 l1 where g: "r = Mapped" "tree_ext cr3 m m2" "present (user_entry (tables m2) cr3)"
      "present (tables m2 (pte_addr (user_entry (tables m2) cr3)) (p2_index pg))"
      "l1 = pte_addr (tables m2 (pte_addr (user_entry (tables m2) cr3)) (p2_index pg))" "is_unused (tables m2 l1 (p1_index pg))"
      "m' = set_entry l1 (p1_index pg) e m2" by blast
    note s = set_leaf [OF tree_ext_ok [OF ok g(2)] g(3-5) up g(7)]
    have un: "is_unused (page_leaf (tables m2) cr3 pg)" using g(3-6) by (simp add: page_leaf_def Let_def)
    have regs: "frame_alloc m' = frame_alloc m2" "same_regs m2 m'" using g(7) by (simp_all add: same_regs_def)
    have iu: "in_use m' = in_use m2" "pool_fine m' = pool_fine m2" using g(7) by simp_all
    show ?thesis unfolding s(1) iu
    proof (intro conjI allI impI)
      show "page_leaf (tables m') cr3 q = (if q = pg \<and> r = Mapped then e else page_leaf (tables m) cr3 q)" if "user_page q" for q
        using s(4) [OF that] g(1,2) by (simp add: tree_ext_def)
      show "tables m' t = tables m t" if "t \<notin> set (own_tables (tables m2) cr3)" for t
        using s(3) [OF that] g(2) that by (simp add: tree_ext_def)
      show "is_unused (page_leaf (tables m) cr3 pg)" using un g(2) by (simp add: tree_ext_def)
    qed (use g(2) s(2) regs(2) in \<open>auto simp: tree_ext_def same_regs_def\<close>)
  qed
qed

lemma walk_unmap_ok: "unmap_ok walk_mapper"
  unfolding unmap_ok_def
proof (intro allI impI)
  fix cr3 pg m r m'
  assume ok: "space_ok cr3 m" and up: "user_page pg" and "unmap walk_mapper cr3 pg m = (r, m')"
  then have w: "walk_unmap cr3 pg m = (r, m')" by (simp add: walk_mapper_def)
  let ?goal = "frame_alloc m' = frame_alloc m \<and> same_regs m m' \<and> own_tables (tables m') cr3 = own_tables (tables m) cr3 \<and>
     no_huge (tables m') cr3 \<and> (\<forall>t. t \<notin> set (own_tables (tables m) cr3) \<longrightarrow> tables m' t = tables m t) \<and>
     r = (if present (page_leaf (tables m) cr3 pg) then Some (pte_addr (page_leaf (tables m) cr3 pg)) else None) \<and>
     (\<forall>q. user_page q \<longrightarrow> page_leaf (tables m') cr3 q =
        (if q = pg \<and> present (page_leaf (tables m) cr3 pg) then zero_entry else page_leaf (tables m) cr3 q))"
  show ?goal
  proof (cases "present (page_leaf (tables m) cr3 pg)")
    case False
    then show ?thesis using w ok by (auto simp: walk_unmap_def space_ok_def same_regs_def)
  next
    case True
    let ?l1 = "pte_addr (tables m (pte_addr (user_entry (tables m) cr3)) (p2_index pg))"
    have pr: "present (user_entry (tables m) cr3)" "present (tables m (pte_addr (user_entry (tables m) cr3)) (p2_index pg))"
      using True by (auto simp: page_leaf_def Let_def split: if_splits)
    have m': "m' = set_entry ?l1 (p1_index pg) zero_entry m" "r = Some (pte_addr (page_leaf (tables m) cr3 pg))"
      using w True by (simp_all add: walk_unmap_def Let_def)
    note s = set_leaf [OF ok pr refl up m'(1)]
    have "frame_alloc m' = frame_alloc m" "same_regs m m'" using m'(1) by (simp_all add: same_regs_def)
    then show ?thesis using s m'(2) True by auto
  qed
qed

subsection \<open>Properties\<close>

lemma exec_takes_all:
  assumes "map_to_ok mp" and "unmap_ok mp" and "pool_fine m" and "kernel_apart m" and "active_cr3 m \<notin> managed m - in_use m"
  shows "\<exists>r m'. exec_address_space mp segs m = Some (r, m') \<and>
    (case r of
       Inl _ \<Rightarrow> in_use m' = in_use m
     | Inr cr3 \<Rightarrow> cr3 \<notin> in_use m \<and> in_use m \<subseteq> in_use m' \<and>
         (\<exists>m''. destroy_user_address_space cr3 m' = Some (Ok (), m'') \<and> in_use m'' = in_use m))"
proof -
  obtain b m1 where c: "clone_active_cr3 m = Some (b, m1)" "active_cr3 m1 = active_cr3 m" "b = None \<Longrightarrow> in_use m1 = in_use m"
    "\<And>cr3. b = Some cr3 \<Longrightarrow> accounted (in_use m) cr3 m1 \<and> fresh_space cr3 m m1 \<and> cr3 \<in> managed m"
    using clone_effect [OF assms(3,4)] by blast
  show ?thesis
  proof (cases b)
    case None
    then show ?thesis using c(1,3) by (simp add: exec_address_space_def builder_new_def)
  next
    case (Some cr3)
    note acc = c(4) [OF Some]
    let ?segs = "segs @ [(USER_STACK_TOP - 4096, 4096, True)]"
    obtain r m2 where m2: "load_segments mp cr3 ?segs m1 = Some (r, m2)" "accounted (in_use m) cr3 m2" "same_regs m1 m2"
      using load_segments_effect [OF assms(1,2)] acc by blast
    have act: "active_cr3 m2 \<noteq> cr3" using c(2) m2(3) acc assms(5) by (auto simp: same_regs_def fresh_space_def)
    obtain m3 where m3: "destroy_user_address_space cr3 m2 = Some (Ok (), m3)" "in_use m3 = in_use m"
      using accounted_destroy [OF m2(2) act] by blast
    have "cr3 \<noteq> 0" "cr3 \<notin> in_use m" using m2(2) acc by (auto simp: accounted_def space_ok_def fresh_space_def)
    moreover have "in_use m \<subseteq> in_use m2" using m2(2) by (auto simp: accounted_def)
    ultimately show ?thesis
      using c(1) Some m2(1) m3
      by (cases r) (auto simp: exec_address_space_def builder_new_def builder_drop_def)
  qed
qed

text \<open>
  Starting a program either ends with an address space that owns all frames it took, or takes back everything: when a
  step fails at any point, the frames in use are those from before. The address space of a program that was started returns exactly what it took when it is torn down.
\<close>

theorem exec_takes_back_everything:
  assumes "map_to_ok mp" and "unmap_ok mp" and "pool_fine m" and "kernel_apart m" and "active_cr3 m \<notin> managed m - in_use m"
  shows "\<exists>r m'. exec_address_space mp segs m = Some (r, m') \<and>
    (case r of
       Inl _ \<Rightarrow> in_use m' = in_use m
     | Inr cr3 \<Rightarrow> cr3 \<notin> in_use m \<and> in_use m \<subseteq> in_use m' \<and>
         (\<exists>m''. destroy_user_address_space cr3 m' = Some (Ok (), m'') \<and> in_use m'' = in_use m))"
  using exec_takes_all [OF assms] .

definition demo_frames :: frame_pool where
  "demo_frames = \<lparr>regions = [(0x1000000, 0x1010000)], recycled = [], allocated = {}, total_bytes = 0x10000\<rparr>"

definition demo_mmu :: mmu where
  "demo_mmu = \<lparr>tables = (\<lambda>_ _. zero_entry), frame_alloc = Some demo_frames, shared_kernel_cr3 = None, active_cr3 = 0x1000\<rparr>"

lemma demo_mmu_facts: "pool_fine demo_mmu" "kernel_apart demo_mmu" "active_cr3 demo_mmu \<notin> managed demo_mmu - in_use demo_mmu"
  by (auto simp: pool_fine_def demo_mmu_def demo_frames_def pool_ok_def disjoint_pages_def kernel_apart_def kernel_root_def
      managed_def space_def zero_entry_def)

theorem exec_takes_back_everything_witness:
  "map_to_ok walk_mapper \<and> unmap_ok walk_mapper \<and>
   (\<exists>r m'. exec_address_space walk_mapper [(0x40000000, 100, False), (0x40001000, 8192, True)] demo_mmu = Some (r, m') \<and>
     (case r of
        Inl _ \<Rightarrow> in_use m' = in_use demo_mmu
      | Inr cr3 \<Rightarrow> cr3 \<notin> in_use demo_mmu \<and> in_use demo_mmu \<subseteq> in_use m' \<and>
          (\<exists>m''. destroy_user_address_space cr3 m' = Some (Ok (), m'') \<and> in_use m'' = in_use demo_mmu)))"
  using exec_takes_back_everything [OF walk_map_ok walk_unmap_ok demo_mmu_facts] walk_map_ok walk_unmap_ok by blast

text \<open>
  C26. A new address space has the kernel's mappings and no user page: outside its first entry the root table is a copy of
  the kernel's, the low gigabyte is closed to user mode, nothing is mapped between 1 and 2 GiB, and no table of a running
  process or of the kernel changes. Without two free frames nothing is taken.
\<close>

theorem new_address_space_is_private:
  assumes "pool_fine m" and "kernel_apart m"
  shows "\<exists>r m'. builder_new m = Some (r, m') \<and>
    (case r of
       Inl _ \<Rightarrow> in_use m' = in_use m
     | Inr cr3 \<Rightarrow> cr3 \<notin> in_use m \<and> (\<forall>i. 0 < i \<and> i < 512 \<longrightarrow> tables m' cr3 i = tables m (kernel_root m) i) \<and>
         \<not> user_accessible (tables m' (l3_of (tables m') cr3) 0) \<and>
         (\<forall>a. USER_ADDR_BASE \<le> a \<and> a < USER_ADDR_LIMIT \<longrightarrow> page_leaf (tables m') cr3 (containing_page a) = zero_entry) \<and>
         (\<forall>t. t \<in> in_use m \<or> t \<notin> managed m \<longrightarrow> tables m' t = tables m t))"
proof -
  obtain b m1 where c: "clone_active_cr3 m = Some (b, m1)" "b = None \<Longrightarrow> in_use m1 = in_use m"
    "\<And>cr3. b = Some cr3 \<Longrightarrow> fresh_space cr3 m m1" using clone_effect [OF assms] by blast
  show ?thesis
  proof (cases b)
    case None
    then show ?thesis using c(1,2) by (simp add: builder_new_def)
  next
    case (Some cr3)
    then show ?thesis using c(1) c(3) [OF Some] by (simp add: builder_new_def fresh_space_def)
  qed
qed

lemma demo_clone: "\<exists>cr3 m'. clone_active_cr3 demo_mmu = Some (Some cr3, m')"
  by (simp add: clone_active_cr3_def capture_shared_kernel_cr3_def demo_mmu_def user_alloc_frame_def
      user_alloc_contiguous_frames_def allocate_def demo_frames_def checked_mul_def checked_add_def PAGE_BYTES_def Let_def)

text \<open>
  A machine whose processor runs on the tables of a process, in a frame of the pool, as it does during the system call that starts a
  program. Building the address space of a small program succeeds there.
\<close>

definition running_mmu :: mmu where
  "running_mmu = \<lparr>tables = (\<lambda>_ _. zero_entry),
     frame_alloc = Some \<lparr>regions = [(0x1002000, 0x1010000)], recycled = [], allocated = {0x1000000, 0x1001000}, total_bytes = 0x10000\<rparr>,
     shared_kernel_cr3 = Some 0x1000, active_cr3 = 0x1000000\<rparr>"

lemma running_mmu_facts:
  "pool_fine running_mmu" "kernel_apart running_mmu" "active_cr3 running_mmu \<notin> managed running_mmu - in_use running_mmu"
  "active_cr3 running_mmu \<in> managed running_mmu" "in_use running_mmu = {0x1000000, 0x1001000}"
  by (auto simp: pool_fine_def running_mmu_def pool_ok_def disjoint_pages_def kernel_apart_def kernel_root_def
      managed_def space_def zero_entry_def in_use_def page_def PAGE_BYTES_def)

lemma next_frame:
  assumes "a + 4096 \<le> b" and "b < 2 ^ 32"
  shows "user_alloc_frame \<lparr>tables = tb, frame_alloc = Some \<lparr>regions = [(a, b)], recycled = [], allocated = A, total_bytes = n\<rparr>,
      shared_kernel_cr3 = sk, active_cr3 = c\<rparr> =
    (Some a, \<lparr>tables = tb(a := (\<lambda>_. zero_entry)),
      frame_alloc = Some \<lparr>regions = [(a + 4096, b)], recycled = [], allocated = insert a A, total_bytes = n\<rparr>,
      shared_kernel_cr3 = sk, active_cr3 = c\<rparr>)"
proof -
  have "run_of a (Suc 0) = {a}" by (auto simp: run_of_def)
  then show ?thesis using assms
    by (auto simp: user_alloc_frame_def user_alloc_contiguous_frames_def allocate_def checked_mul_def checked_add_def PAGE_BYTES_def
        Let_def fun_upd_def)
qed

lemma running_exec: "map_option fst (exec_address_space walk_mapper [(0x40000000, 64, False)] running_mmu) = Some (Ok 0x1002000)"
proof -
  have "is_canonical 0x40000000" "is_canonical 0x7FFEF000" by (simp_all add: canonical_low)
  then show ?thesis
    by (simp add: exec_address_space_def builder_new_def clone_active_cr3_def next_frame capture_shared_kernel_cr3_def running_mmu_def
        fill_tables_def copy_table_def set_entry_def zero_entry_def Let_def map_user_region_in_cr3_def checked_add_def USER_ADDR_BASE_def
        USER_ADDR_LIMIT_def map_user_page_in_cr3_def containing_page_def walk_mapper_def walk_map_def link_table_def l3_of_def
        target_cr3_def open_low_def table_entry_def p2_index_def p1_index_def is_unused_def leaf_entry_def USER_STACK_TOP_def)
qed

theorem new_address_space_is_private_witness:
  "\<exists>r m'. builder_new demo_mmu = Some (r, m') \<and>
    (case r of
       Inl _ \<Rightarrow> in_use m' = in_use demo_mmu
     | Inr cr3 \<Rightarrow> cr3 \<notin> in_use demo_mmu \<and> (\<forall>i. 0 < i \<and> i < 512 \<longrightarrow> tables m' cr3 i = tables demo_mmu (kernel_root demo_mmu) i) \<and>
         \<not> user_accessible (tables m' (l3_of (tables m') cr3) 0) \<and>
         (\<forall>a. USER_ADDR_BASE \<le> a \<and> a < USER_ADDR_LIMIT \<longrightarrow> page_leaf (tables m') cr3 (containing_page a) = zero_entry) \<and>
         (\<forall>t. t \<in> in_use demo_mmu \<or> t \<notin> managed demo_mmu \<longrightarrow> tables m' t = tables demo_mmu t))"
  by (rule new_address_space_is_private [OF demo_mmu_facts(1,2)])

text \<open>
  Mapping a region is all or nothing. A success means that every page of it was unused and now has its own frame with the
  asked protection, and that all other pages are as before; after an error every page of the address space is as before.
\<close>

theorem region_mapping_all_or_nothing:
  assumes "map_to_ok mp" and "unmap_ok mp" and "accounted base cr3 m"
  shows "\<exists>r m'. map_user_region_in_cr3 mp cr3 virt len wr m = Some (r, m') \<and>
    (\<forall>q. user_page q \<longrightarrow>
       (if is_ok r \<and> (\<exists>a. virt \<le> a \<and> a < virt + max len 1 \<and> q = containing_page a)
        then is_unused (page_leaf (tables m) cr3 q) \<and> (\<exists>f. f \<notin> base \<and> page_leaf (tables m') cr3 q = leaf_entry (q * 4096) wr True f)
        else page_leaf (tables m') cr3 q = page_leaf (tables m) cr3 q))"
proof -
  obtain r m' where m': "map_user_region_in_cr3 mp cr3 virt len wr m = Some (r, m')" "accounted base cr3 m'"
    and ok: "is_ok r \<Longrightarrow> \<forall>q. user_page q \<longrightarrow> (if \<exists>a. virt \<le> a \<and> a < virt + max len 1 \<and> q = containing_page a
        then is_unused (page_leaf (tables m) cr3 q) \<and> (\<exists>f. page_leaf (tables m') cr3 q = leaf_entry (q * 4096) wr True f)
        else page_leaf (tables m') cr3 q = page_leaf (tables m) cr3 q)"
    and err: "\<not> is_ok r \<Longrightarrow> \<forall>q. user_page q \<longrightarrow> page_leaf (tables m') cr3 q = page_leaf (tables m) cr3 q"
    using map_region_effect [OF assms, of virt len wr] by blast
  have "f \<notin> base" if "user_page q" "page_leaf (tables m') cr3 q = leaf_entry (q * 4096) wr True f" for q f
  proof -
    have "owns (tables m') cr3 q" "pte_addr (page_leaf (tables m') cr3 q) = f" using that by (simp_all add: owns_def leaf_entry_def)
    then have "f \<in> own_pages (tables m') cr3" unfolding own_pages_image by blast
    then show ?thesis using m'(2) by (auto simp: accounted_def space_frames_def)
  qed
  note apart = this
  show ?thesis
  proof (intro exI conjI allI impI)
    show "map_user_region_in_cr3 mp cr3 virt len wr m = Some (r, m')" by (rule m'(1))
    show "if is_ok r \<and> (\<exists>a. virt \<le> a \<and> a < virt + max len 1 \<and> q = containing_page a)
        then is_unused (page_leaf (tables m) cr3 q) \<and> (\<exists>f. f \<notin> base \<and> page_leaf (tables m') cr3 q = leaf_entry (q * 4096) wr True f)
        else page_leaf (tables m') cr3 q = page_leaf (tables m) cr3 q" if "user_page q" for q
    proof (cases "is_ok r")
      case True
      note o = ok [OF True, rule_format, OF that]
      show ?thesis
      proof (cases "\<exists>a. virt \<le> a \<and> a < virt + max len 1 \<and> q = containing_page a")
        case c: True
        from o have "is_unused (page_leaf (tables m) cr3 q) \<and> (\<exists>f. page_leaf (tables m') cr3 q = leaf_entry (q * 4096) wr True f)"
          unfolding if_P [OF c] .
        then have "is_unused (page_leaf (tables m) cr3 q) \<and> (\<exists>f. f \<notin> base \<and> page_leaf (tables m') cr3 q = leaf_entry (q * 4096) wr True f)"
          using apart [OF that] by blast
        then show ?thesis unfolding if_P [OF conjI [OF True c]] .
      next
        case c: False
        from o have "page_leaf (tables m') cr3 q = page_leaf (tables m) cr3 q" unfolding if_not_P [OF c] .
        then show ?thesis using c by (simp only: simp_thms if_False)
      qed
    next
      case False
      then show ?thesis using err [OF False, rule_format, OF that] by (simp only: simp_thms if_False)
    qed
  qed
qed

theorem region_mapping_all_or_nothing_witness:
  "\<exists>cr3 m r m'. clone_active_cr3 demo_mmu = Some (Some cr3, m) \<and>
     map_user_region_in_cr3 walk_mapper cr3 0x40000000 8192 True m = Some (r, m') \<and>
     (is_ok r \<longrightarrow> is_unused (page_leaf (tables m) cr3 0x40001) \<and> (\<exists>f. page_leaf (tables m') cr3 0x40001 = leaf_entry 0x40001000 True True f))"
proof -
  obtain cr3 m where c: "clone_active_cr3 demo_mmu = Some (Some cr3, m)" using demo_clone by blast
  then have acc: "accounted (in_use demo_mmu) cr3 m" using clone_effect [OF demo_mmu_facts(1,2)] by auto
  obtain r m' where m': "map_user_region_in_cr3 walk_mapper cr3 0x40000000 8192 True m = Some (r, m')"
    "\<And>q. user_page q \<Longrightarrow> (if is_ok r \<and> (\<exists>a. 0x40000000 \<le> a \<and> a < 0x40000000 + max 8192 1 \<and> q = containing_page a)
        then is_unused (page_leaf (tables m) cr3 q) \<and> (\<exists>f. f \<notin> in_use demo_mmu \<and> page_leaf (tables m') cr3 q = leaf_entry (q * 4096) True True f)
        else page_leaf (tables m') cr3 q = page_leaf (tables m) cr3 q)"
    using region_mapping_all_or_nothing [OF walk_map_ok walk_unmap_ok acc, of "0x40000000" 8192 True] by blast
  have "\<exists>a. 0x40000000 \<le> a \<and> a < 0x40000000 + max 8192 1 \<and> 0x40001 = containing_page a"
    by (rule exI [of _ "0x40001000"]) (simp add: containing_page_def)
  moreover have "user_page 0x40001" by (simp add: user_page_def)
  ultimately have "is_ok r \<Longrightarrow> is_unused (page_leaf (tables m) cr3 0x40001) \<and> (\<exists>f. page_leaf (tables m') cr3 0x40001 = leaf_entry (0x40001 * 4096) True True f)"
    using m'(2) [of "0x40001"] by (simp only: if_True simp_thms) blast
  then show ?thesis using c m'(1) by (intro exI conjI) (assumption | simp)+
qed

end
