(* ===== verification/Shared_Pages.thy ===== *)
theory Shared_Pages
  imports Exec_Space
begin

section \<open>Mapping frames the address space does not own\<close>

text \<open>
  The rest of the mapping operations of \<^verbatim>\<open>kernel/src/memory.rs\<close>: ranges of given physical frames, the backing of surfaces, single
  pages of the active address space, and copy on write. Their entries carry no owner mark, so the teardown of the address
  space leaves the frames alone. \<^verbatim>\<open>VirtAddr::new\<close> and \<^verbatim>\<open>PhysAddr::new\<close> panic on addresses that are not canonical or have more than
  52 bits; the plain additions panic on overflow. Flushing of address translations is left out.
\<close>

subsection \<open>Operations\<close>

definition virt_at :: "nat \<Rightarrow> nat \<Rightarrow> nat option" where
  "virt_at virt i = do {
     off \<leftarrow> checked_mul 64 i 4096;
     v \<leftarrow> checked_add 64 virt off;
     if is_canonical (word_of_nat v) then Some v else None
   }"

definition phys_at :: "nat \<Rightarrow> nat \<Rightarrow> nat option" where
  "phys_at phys i = do {
     off \<leftarrow> checked_mul 64 i 4096;
     p \<leftarrow> checked_add 64 phys off;
     if p < 2 ^ 52 then Some p else None
   }"

definition containing_frame :: "nat \<Rightarrow> nat" where "containing_frame p = p - p mod 4096"

definition map_user_page :: "mapper \<Rightarrow> nat \<Rightarrow> bool \<Rightarrow> mmu \<Rightarrow> (string, nat) result \<times> mmu" where
  "map_user_page mp virt wr m =
     (if \<not> is_canonical (word_of_nat virt) \<or> virt < USER_ADDR_BASE \<or> USER_ADDR_LIMIT \<le> virt
      then (Err ''user mapping target outside user space'', m)
      else case user_alloc_frame m of
        (None, m1) \<Rightarrow> (Err ''no free user frames'', m1)
      | (Some frame, m1) \<Rightarrow>
          (case map_to mp (active_cr3 m1) (containing_page virt) (leaf_entry virt wr False frame) m1 of
             (Mapped, m2) \<Rightarrow> (Ok virt, m2)
           | (AlreadyMapped, m2) \<Rightarrow> (Ok virt, m2)
           | (MapFailed, m2) \<Rightarrow> (Err ''failed to map user page'', m2)))"

definition unmap_user_page :: "mapper \<Rightarrow> nat \<Rightarrow> mmu \<Rightarrow> ((string, bool) result \<times> mmu) option" where
  "unmap_user_page mp virt m =
     (if \<not> is_canonical (word_of_nat virt) then Some (Ok False, m)
      else case unmap mp (active_cr3 m) (containing_page virt) m of
        (None, m1) \<Rightarrow> Some (Err ''unmap failed'', m1)
      | (Some frame, m1) \<Rightarrow> do { m2 \<leftarrow> user_free_frame frame m1; Some (Ok True, m2) })"

fun unmap_user_range_from :: "mapper \<Rightarrow> nat \<Rightarrow> nat list \<Rightarrow> mmu \<Rightarrow> ((string, unit) result \<times> mmu) option" where
  "unmap_user_range_from mp virt [] m = Some (Ok (), m)"
| "unmap_user_range_from mp virt (i # is) m =
     (case checked_mul 64 i 4096 of
        None \<Rightarrow> Some (Err ''Virtual address overflow'', m)
      | Some off \<Rightarrow>
          (case checked_add 64 virt off of
             None \<Rightarrow> Some (Err ''Virtual address overflow'', m)
           | Some v \<Rightarrow> do { (_, m1) \<leftarrow> unmap_user_page mp v m; unmap_user_range_from mp virt is m1 }))"

definition unmap_user_range :: "mapper \<Rightarrow> nat \<Rightarrow> nat \<Rightarrow> mmu \<Rightarrow> ((string, unit) result \<times> mmu) option" where
  "unmap_user_range mp virt count = unmap_user_range_from mp virt [0..<count]"

fun map_user_range_from :: "mapper \<Rightarrow> nat \<Rightarrow> bool \<Rightarrow> nat list \<Rightarrow> mmu \<Rightarrow> ((string, unit) result \<times> mmu) option" where
  "map_user_range_from mp virt wr [] m = Some (Ok (), m)"
| "map_user_range_from mp virt wr (i # is) m = do {
     off \<leftarrow> checked_mul 64 i 4096;
     v \<leftarrow> checked_add 64 virt off;
     case map_user_page mp v wr m of
       (Inl e, m1) \<Rightarrow> Some (Err e, m1)
     | (Inr _, m1) \<Rightarrow> map_user_range_from mp virt wr is m1
   }"

definition map_user_range :: "mapper \<Rightarrow> nat \<Rightarrow> nat \<Rightarrow> bool \<Rightarrow> mmu \<Rightarrow> ((string, nat) result \<times> mmu) option" where
  "map_user_range mp virt count wr m = do {
     (r, m1) \<leftarrow> map_user_range_from mp virt wr [0..<count] m;
     Some (case r of Inl e \<Rightarrow> Err e | Inr _ \<Rightarrow> Ok count, m1)
   }"

text \<open>A range of given frames. A page that is already mapped keeps its frame and gets the new flags.\<close>

fun map_phys_from :: "mapper \<Rightarrow> nat \<Rightarrow> nat \<Rightarrow> nat \<Rightarrow> bool \<Rightarrow> nat list \<Rightarrow> mmu \<Rightarrow> ((string, unit) result \<times> mmu) option" where
  "map_phys_from mp t virt phys wr [] m = Some (Ok (), m)"
| "map_phys_from mp t virt phys wr (i # is) m = do {
     p \<leftarrow> phys_at phys i;
     v \<leftarrow> virt_at virt i;
     let e = leaf_entry virt wr False (containing_frame p);
     case map_to mp t (containing_page v) e m of
       (Mapped, m1) \<Rightarrow> map_phys_from mp t virt phys wr is m1
     | (AlreadyMapped, m1) \<Rightarrow> map_phys_from mp t virt phys wr is (update_flags mp t (containing_page v) e m1)
     | (MapFailed, m1) \<Rightarrow> Some (Err ''failed to map phys page to user'', m1)
   }"

definition map_user_phys_range_in_cr3 ::
    "mapper \<Rightarrow> nat \<Rightarrow> nat \<Rightarrow> nat \<Rightarrow> nat \<Rightarrow> bool \<Rightarrow> mmu \<Rightarrow> ((string, unit) result \<times> mmu) option" where
  "map_user_phys_range_in_cr3 mp cr3 virt phys count wr m =
     (if \<not> is_canonical (word_of_nat virt) \<or> USER_ADDR_LIMIT \<le> virt
      then Some (Err ''user mapping target outside user space'', m)
      else map_phys_from mp (target_cr3 cr3 m) virt phys wr [0..<count] (open_low (target_cr3 cr3 m) m))"

definition map_user_phys_range ::
    "mapper \<Rightarrow> nat \<Rightarrow> nat \<Rightarrow> nat \<Rightarrow> bool \<Rightarrow> mmu \<Rightarrow> ((string, unit) result \<times> mmu) option" where
  "map_user_phys_range mp virt phys count wr = map_user_phys_range_in_cr3 mp 0 virt phys count wr"

fun unmap_phys_from :: "mapper \<Rightarrow> nat \<Rightarrow> nat \<Rightarrow> nat list \<Rightarrow> mmu \<Rightarrow> mmu option" where
  "unmap_phys_from mp t virt [] m = Some m"
| "unmap_phys_from mp t virt (i # is) m = do {
     v \<leftarrow> virt_at virt i;
     unmap_phys_from mp t virt is (snd (unmap mp t (containing_page v) m))
   }"

definition unmap_user_phys_range_in_cr3 ::
    "mapper \<Rightarrow> nat \<Rightarrow> nat \<Rightarrow> nat \<Rightarrow> mmu \<Rightarrow> ((string, unit) result \<times> mmu) option" where
  "unmap_user_phys_range_in_cr3 mp cr3 virt count m =
     (if \<not> is_canonical (word_of_nat virt) \<or> USER_ADDR_LIMIT \<le> virt
      then Some (Err ''user unmapping target outside user space'', m)
      else do {
        m1 \<leftarrow> unmap_phys_from mp (target_cr3 cr3 m) virt [0..<count] m;
        m2 \<leftarrow> (if cr3 \<noteq> 0 then prune_empty_user_tables cr3 m1 else Some m1);
        Some (Ok (), m2)
      })"

definition translate_page_in_cr3 :: "mapper \<Rightarrow> nat \<Rightarrow> nat \<Rightarrow> mmu \<Rightarrow> nat option option" where
  "translate_page_in_cr3 mp cr3 virt m = do {
     v \<leftarrow> virt_at virt 0;
     Some (translate_page mp (target_cr3 cr3 m) (containing_page v) m)
   }"

text \<open>The backing of a surface: all pages or none, and never over an existing page.\<close>

definition surface_entry :: "nat \<Rightarrow> pt_entry" where
  "surface_entry frame =
     zero_entry\<lparr>present := True, user_accessible := True, writable := True, no_execute := True, pte_addr := frame\<rparr>"

fun map_frames :: "mapper \<Rightarrow> nat \<Rightarrow> nat \<Rightarrow> nat \<Rightarrow> nat \<Rightarrow> nat \<Rightarrow> mmu \<Rightarrow> ((string, unit) result \<times> mmu) option" where
  "map_frames mp cr3 virt phys i 0 m = Some (Ok (), m)"
| "map_frames mp cr3 virt phys i (Suc n) m = do {
     v \<leftarrow> virt_at virt i;
     p \<leftarrow> phys_at phys i;
     case map_to mp cr3 (containing_page v) (surface_entry (containing_frame p)) m of
       (Mapped, m1) \<Rightarrow> map_frames mp cr3 virt phys (i + 1) n m1
     | (_, m1) \<Rightarrow> do {
         m2 \<leftarrow> unmap_phys_from mp cr3 virt [0..<i] m1;
         m3 \<leftarrow> prune_empty_user_tables cr3 m2;
         Some (Err ''Surface mapping failed or overlaps an existing mapping'', m3)
       }
   }"

definition map_surface_frames ::
    "mapper \<Rightarrow> nat \<Rightarrow> nat \<Rightarrow> nat \<Rightarrow> nat \<Rightarrow> mmu \<Rightarrow> ((string, unit) result \<times> mmu) option" where
  "map_surface_frames mp cr3 virt phys pages m =
     (if cr3 = 0 \<or> virt < USER_ADDR_BASE \<or> virt mod 4096 \<noteq> 0 \<or> phys mod 4096 \<noteq> 0 \<or> pages = 0
      then Some (Err ''Invalid surface mapping'', m)
      else case checked_mul 64 pages 4096 of
        None \<Rightarrow> Some (Err ''Surface range overflow'', m)
      | Some len \<Rightarrow>
          if \<not> is_user_range (word_of_nat virt) len then Some (Err ''Invalid surface mapping'', m)
          else map_frames mp cr3 virt phys 0 pages m)"

fun backing_matches :: "mapper \<Rightarrow> nat \<Rightarrow> nat \<Rightarrow> nat \<Rightarrow> nat list \<Rightarrow> mmu \<Rightarrow> bool option" where
  "backing_matches mp cr3 virt phys [] m = Some True"
| "backing_matches mp cr3 virt phys (i # is) m = do {
     v \<leftarrow> virt_at virt i;
     p \<leftarrow> checked_add 64 phys (i * 4096);
     if translate_page mp cr3 (containing_page v) m = Some p then backing_matches mp cr3 virt phys is m else Some False
   }"

fun unmap_frames :: "mapper \<Rightarrow> nat \<Rightarrow> nat \<Rightarrow> nat list \<Rightarrow> mmu \<Rightarrow> ((string, unit) result \<times> mmu) option" where
  "unmap_frames mp cr3 virt [] m = Some (Ok (), m)"
| "unmap_frames mp cr3 virt (i # is) m = do {
     v \<leftarrow> virt_at virt i;
     case unmap mp cr3 (containing_page v) m of
       (None, m1) \<Rightarrow> Some (Err ''Surface unmap failed'', m1)
     | (Some _, m1) \<Rightarrow> unmap_frames mp cr3 virt is m1
   }"

definition unmap_surface_frames ::
    "mapper \<Rightarrow> nat \<Rightarrow> nat \<Rightarrow> nat \<Rightarrow> nat \<Rightarrow> mmu \<Rightarrow> ((string, unit) result \<times> mmu) option" where
  "unmap_surface_frames mp cr3 virt phys pages m = do {
     same \<leftarrow> backing_matches mp cr3 virt phys [0..<pages] m;
     if \<not> same then Some (Err ''Surface backing does not match the owner page table'', m)
     else do {
       (r, m1) \<leftarrow> unmap_frames mp cr3 virt [0..<pages] m;
       case r of
         Inl e \<Rightarrow> Some (Err e, m1)
       | Inr _ \<Rightarrow> do { m2 \<leftarrow> prune_empty_user_tables cr3 m1; Some (Ok (), m2) }
     }
   }"

text \<open>Copy on write: the tracked pages, and the fault that gives a page its own frame. A frame is copied as its entries.\<close>

type_synonym cow_pages = "nat \<times> nat \<rightharpoonup> nat"

definition register_cow_page :: "nat \<Rightarrow> nat \<Rightarrow> nat \<Rightarrow> cow_pages \<Rightarrow> cow_pages" where
  "register_cow_page cr3 virt phys c = c((cr3, containing_frame virt) \<mapsto> phys)"

definition is_cow_page :: "nat \<Rightarrow> nat \<Rightarrow> cow_pages \<Rightarrow> bool" where
  "is_cow_page cr3 virt c \<longleftrightarrow> c (cr3, containing_frame virt) \<noteq> None"

definition handle_cow_fault ::
    "mapper \<Rightarrow> nat \<Rightarrow> nat \<Rightarrow> cow_pages \<Rightarrow> mmu \<Rightarrow> ((string, unit) result \<times> cow_pages \<times> mmu) option" where
  "handle_cow_fault mp cr3 virt c m =
     (let page = containing_frame virt in
      case c (cr3, page) of
        None \<Rightarrow> Some (Err ''Not a tracked CoW page'', c, m)
      | Some old \<Rightarrow>
          let c1 = c((cr3, page) := None) in
          (case user_alloc_frame m of
             (None, m1) \<Rightarrow> Some (Err ''No physical memory for CoW duplication'', c1, m1)
           | (Some new, m1) \<Rightarrow> do {
               v \<leftarrow> virt_at page 0;
               let m2 = copy_table old new m1;
               let t = target_cr3 cr3 m2;
               let m3 = snd (unmap mp t (containing_page v) m2);
               case map_to mp t (containing_page v) (leaf_entry 0 True False new\<lparr>no_execute := False\<rparr>) m3 of
                 (Mapped, m4) \<Rightarrow> Some (Ok (), c1, m4)
               | (_, m4) \<Rightarrow> Some (Err ''Failed to remap CoW page'', c1, m4)
             }))"

subsection \<open>Foreign pages of an address space\<close>

text \<open>Mapping and unmapping pages the address space does not own changes neither its frames nor its other pages.\<close>

lemma accounted_map_foreign:
  assumes "map_to_ok mp" and "accounted base cr3 m" and "user_page pg" and "\<not> bit_9 e" and "map_to mp cr3 pg e m = (r, m')"
  shows "accounted base cr3 m'" and "same_regs m m'"
    and "\<And>q. user_page q \<Longrightarrow> page_leaf (tables m') cr3 q = (if q = pg \<and> r = Mapped then e else page_leaf (tables m) cr3 q)"
    and "r = Mapped \<Longrightarrow> is_unused (page_leaf (tables m) cr3 pg)"
proof -
  have ok: "space_ok cr3 m" and use: "in_use m = base \<union> space_frames cr3 m" and dis: "base \<inter> space_frames cr3 m = {}"
    using assms(2) by (auto simp: accounted_def)
  from assms(1) [unfolded map_to_ok_def, rule_format, OF ok assms(3,5)]
  have m': "pool_fine m'" "same_regs m m'" "in_use m \<subseteq> in_use m'" "distinct (own_tables (tables m') cr3)" "no_huge (tables m') cr3"
    "set (own_tables (tables m') cr3) = set (own_tables (tables m) cr3) \<union> (in_use m' - in_use m)"
    and lf: "\<And>q. user_page q \<Longrightarrow> page_leaf (tables m') cr3 q = (if q = pg \<and> r = Mapped then e else page_leaf (tables m) cr3 q)"
    and un: "r = Mapped \<Longrightarrow> is_unused (page_leaf (tables m) cr3 pg)" by blast+
  show "same_regs m m'" "\<And>q. user_page q \<Longrightarrow> page_leaf (tables m') cr3 q = (if q = pg \<and> r = Mapped then e else page_leaf (tables m) cr3 q)"
    "r = Mapped \<Longrightarrow> is_unused (page_leaf (tables m) cr3 pg)" using m'(2) lf un by blast+
  have ow: "owns (tables m') cr3 q \<longleftrightarrow> owns (tables m) cr3 q" for q
    using lf [of q] un assms(3,4) by (auto simp: owns_def is_unused_def zero_entry_def split: if_splits)
  have ad: "page_leaf (tables m') cr3 q = page_leaf (tables m) cr3 q" if "owns (tables m) cr3 q" for q
    using that lf [of q] un by (auto simp: owns_def is_unused_def zero_entry_def)
  have op: "own_pages (tables m') cr3 = own_pages (tables m) cr3"
    unfolding own_pages_image using ow ad by (auto simp: image_iff)
  have "space_ok cr3 m'" using ok m' op ow ad by (auto simp: space_ok_def same_regs_def)
  moreover have "space_frames cr3 m' = space_frames cr3 m \<union> (in_use m' - in_use m)"
    using m'(6) op by (auto simp: space_frames_def)
  ultimately show "accounted base cr3 m'" using use dis m'(3) by (auto simp: accounted_def)
qed

lemma accounted_unmap_foreign:
  assumes "unmap_ok mp" and "accounted base cr3 m" and "user_page pg" and "\<not> owns (tables m) cr3 pg" and "unmap mp cr3 pg m = (r, m')"
  shows "accounted base cr3 m'" and "same_regs m m'"
    and "r = (if present (page_leaf (tables m) cr3 pg) then Some (pte_addr (page_leaf (tables m) cr3 pg)) else None)"
    and "\<And>q. user_page q \<Longrightarrow> page_leaf (tables m') cr3 q =
      (if q = pg \<and> present (page_leaf (tables m) cr3 pg) then zero_entry else page_leaf (tables m) cr3 q)"
proof -
  have ok: "space_ok cr3 m" and use: "in_use m = base \<union> space_frames cr3 m" and dis: "base \<inter> space_frames cr3 m = {}"
    using assms(2) by (auto simp: accounted_def)
  from assms(1) [unfolded unmap_ok_def, rule_format, OF ok assms(3,5)]
  have m': "frame_alloc m' = frame_alloc m" "same_regs m m'" "own_tables (tables m') cr3 = own_tables (tables m) cr3" "no_huge (tables m') cr3"
    and r: "r = (if present (page_leaf (tables m) cr3 pg) then Some (pte_addr (page_leaf (tables m) cr3 pg)) else None)"
    and lf: "\<And>q. user_page q \<Longrightarrow> page_leaf (tables m') cr3 q =
      (if q = pg \<and> present (page_leaf (tables m) cr3 pg) then zero_entry else page_leaf (tables m) cr3 q)" by blast+
  show "same_regs m m'" "r = (if present (page_leaf (tables m) cr3 pg) then Some (pte_addr (page_leaf (tables m) cr3 pg)) else None)"
    "\<And>q. user_page q \<Longrightarrow> page_leaf (tables m') cr3 q =
      (if q = pg \<and> present (page_leaf (tables m) cr3 pg) then zero_entry else page_leaf (tables m) cr3 q)" using m'(2) r lf by blast+
  have iu: "in_use m' = in_use m" "pool_fine m'" using m'(1) ok by (auto simp: in_use_def pool_fine_def space_ok_def)
  have ow: "owns (tables m') cr3 q \<longleftrightarrow> owns (tables m) cr3 q" for q
    using lf [of q] assms(4) by (cases "q = pg") (auto simp: owns_def zero_entry_def split: if_splits)
  have ad: "page_leaf (tables m') cr3 q = page_leaf (tables m) cr3 q" if "owns (tables m) cr3 q" for q
    using that lf [of q] assms(4) by (cases "q = pg") (auto simp: owns_def)
  have op: "own_pages (tables m') cr3 = own_pages (tables m) cr3"
    unfolding own_pages_image using ow ad by (auto simp: image_iff)
  have "space_ok cr3 m'" using ok m' iu op ow ad by (auto simp: space_ok_def same_regs_def)
  moreover have "space_frames cr3 m' = space_frames cr3 m" using m'(3) op by (simp add: space_frames_def)
  ultimately show "accounted base cr3 m'" using use dis iu by (simp add: accounted_def)
qed

lemma canonical_nat: "n < 2 ^ 47 \<Longrightarrow> is_canonical (word_of_nat n)"
  by (rule canonical_low) (simp add: unat_of_nat)

lemma virt_at_user:
  assumes "(s + i) * 4096 < USER_ADDR_LIMIT"
  shows "virt_at (s * 4096) i = Some ((s + i) * 4096)" and "containing_page ((s + i) * 4096) = s + i"
proof -
  have b: "(s + i) * 4096 < 0x80000000" using assms by (simp add: USER_ADDR_LIMIT_def)
  have "is_canonical (word_of_nat ((s + i) * 4096))" by (rule canonical_nat) (use b in simp)
  then show "virt_at (s * 4096) i = Some ((s + i) * 4096)"
    using b by (simp add: virt_at_def checked_mul_def checked_add_def add_mult_distrib)
  show "containing_page ((s + i) * 4096) = s + i" by (simp add: containing_page_def)
qed

text \<open>Unmapping a list of foreign pages.\<close>

definition foreign :: "nat \<Rightarrow> mmu \<Rightarrow> nat \<Rightarrow> bool" where
  "foreign cr3 m pg \<longleftrightarrow> user_page pg \<and> present (page_leaf (tables m) cr3 pg) \<and> \<not> bit_9 (page_leaf (tables m) cr3 pg)"

lemma unmap_foreign_effect:
  assumes "unmap_ok mp" and "accounted base cr3 m" and "distinct is"
    and "\<And>i. i \<in> set is \<Longrightarrow> (s + i) * 4096 < USER_ADDR_LIMIT \<and> foreign cr3 m (s + i)"
  shows "\<exists>m'. unmap_phys_from mp cr3 (s * 4096) is m = Some m' \<and> unmap_frames mp cr3 (s * 4096) is m = Some (Ok (), m') \<and>
    accounted base cr3 m' \<and> same_regs m m' \<and>
    (\<forall>q. user_page q \<longrightarrow> page_leaf (tables m') cr3 q = (if \<exists>i\<in>set is. q = s + i then zero_entry else page_leaf (tables m) cr3 q))"
  using assms(2-4)
proof (induction "is" arbitrary: m)
  case Nil
  then show ?case by (simp add: same_regs_def)
next
  case (Cons i "is")
  have lim: "(s + i) * 4096 < USER_ADDR_LIMIT" and fo: "foreign cr3 m (s + i)" using Cons.prems(3) by simp_all
  have up: "user_page (s + i)" and no: "\<not> owns (tables m) cr3 (s + i)" and pr: "present (page_leaf (tables m) cr3 (s + i))"
    using fo by (auto simp: foreign_def owns_def)
  obtain r m1 where u: "unmap mp cr3 (s + i) m = (r, m1)" by fastforce
  note e = accounted_unmap_foreign [OF assms(1) Cons.prems(1) up no u]
  have lf: "page_leaf (tables m1) cr3 q = (if q = s + i then zero_entry else page_leaf (tables m) cr3 q)" if "user_page q" for q
    using e(4) [OF that] pr by simp
  have "\<And>j. j \<in> set is \<Longrightarrow> (s + j) * 4096 < USER_ADDR_LIMIT \<and> foreign cr3 m1 (s + j)"
    using Cons.prems(2,3) lf by (auto simp: foreign_def)
  from Cons.IH [OF e(1) _ this] Cons.prems(2) obtain m' where m': "unmap_phys_from mp cr3 (s * 4096) is m1 = Some m'"
    "unmap_frames mp cr3 (s * 4096) is m1 = Some (Ok (), m')" "accounted base cr3 m'" "same_regs m1 m'"
    "\<And>q. user_page q \<Longrightarrow> page_leaf (tables m') cr3 q = (if \<exists>i\<in>set is. q = s + i then zero_entry else page_leaf (tables m1) cr3 q)"
    by auto
  have "unmap_phys_from mp cr3 (s * 4096) (i # is) m = Some m'" "unmap_frames mp cr3 (s * 4096) (i # is) m = Some (Ok (), m')"
    using m'(1,2) u e(3) pr virt_at_user [OF lim] by simp_all
  moreover have "same_regs m m'" using e(2) m'(4) by (simp add: same_regs_def)
  moreover have "page_leaf (tables m') cr3 q = (if \<exists>i\<in>set (i # is). q = s + i then zero_entry else page_leaf (tables m) cr3 q)" if "user_page q" for q
    using m'(5) [OF that] lf [OF that] by auto
  ultimately show ?case using m'(3) by blast
qed

subsection \<open>The backing of a surface\<close>

lemma phys_at_frame:
  assumes "phys mod 4096 = 0" and "phys + i * 4096 < 2 ^ 52"
  shows "phys_at phys i = Some (phys + i * 4096)" and "containing_frame (phys + i * 4096) = phys + i * 4096"
  using assms by (simp_all add: phys_at_def checked_mul_def checked_add_def containing_frame_def)

lemma map_frames_effect:
  assumes "map_to_ok mp" and "unmap_ok mp" and "accounted base cr3 m" and "USER_ADDR_BASE \<le> s * 4096"
    and "(s + i + n) * 4096 \<le> USER_ADDR_LIMIT" and "phys mod 4096 = 0" and "phys + (i + n) * 4096 \<le> 2 ^ 52"
    and "\<And>j. j < i \<Longrightarrow> foreign cr3 m (s + j)"
  shows "\<exists>r m'. map_frames mp cr3 (s * 4096) phys i n m = Some (r, m') \<and> accounted base cr3 m' \<and> same_regs m m' \<and>
    (is_ok r \<longrightarrow> (\<forall>q. user_page q \<longrightarrow> (if s + i \<le> q \<and> q < s + i + n
        then is_unused (page_leaf (tables m) cr3 q) \<and> page_leaf (tables m') cr3 q = surface_entry (phys + (q - s) * 4096)
        else page_leaf (tables m') cr3 q = page_leaf (tables m) cr3 q))) \<and>
    (\<not> is_ok r \<longrightarrow> (\<forall>q. user_page q \<longrightarrow>
        page_leaf (tables m') cr3 q = (if s \<le> q \<and> q < s + i then zero_entry else page_leaf (tables m) cr3 q)))"
  using assms(3,5,7,8)
proof (induction n arbitrary: i m)
  case 0
  then show ?case by (auto simp: same_regs_def)
next
  case (Suc n)
  have lim: "(s + i) * 4096 < USER_ADDR_LIMIT" using Suc.prems(2) by simp
  have up: "user_page (s + i)" by (rule user_page_times) (use assms(4) lim in simp_all)
  let ?e = "surface_entry (phys + i * 4096)"
  have b9: "\<not> bit_9 ?e" by (simp add: surface_entry_def zero_entry_def)
  have ph: "phys_at phys i = Some (phys + i * 4096)" "containing_frame (phys + i * 4096) = phys + i * 4096"
    by (rule phys_at_frame; use assms(6) Suc.prems(3) in simp)+
  obtain r1 m1 where u: "map_to mp cr3 (s + i) ?e m = (r1, m1)" by fastforce
  note e = accounted_map_foreign [OF assms(1) Suc.prems(1) up b9 u]
  show ?case
  proof (cases "r1 = Mapped")
    case True
    have lf: "\<And>q. user_page q \<Longrightarrow> page_leaf (tables m1) cr3 q = (if q = s + i then ?e else page_leaf (tables m) cr3 q)"
      and un: "is_unused (page_leaf (tables m) cr3 (s + i))" using e(3,4) True by simp_all
    have "foreign cr3 m1 (s + j)" if "j < i + 1" for j
      using that Suc.prems(4) [of j] lf up by (cases "j = i") (auto simp: foreign_def surface_entry_def zero_entry_def)
    moreover have "(s + (i + 1) + n) * 4096 \<le> USER_ADDR_LIMIT" "phys + (i + 1 + n) * 4096 \<le> 2 ^ 52" using Suc.prems(2,3) by simp_all
    ultimately obtain r m' where m': "map_frames mp cr3 (s * 4096) phys (i + 1) n m1 = Some (r, m')" "accounted base cr3 m'" "same_regs m1 m'"
      and ok: "is_ok r \<Longrightarrow> \<forall>q. user_page q \<longrightarrow> (if s + (i + 1) \<le> q \<and> q < s + (i + 1) + n
        then is_unused (page_leaf (tables m1) cr3 q) \<and> page_leaf (tables m') cr3 q = surface_entry (phys + (q - s) * 4096)
        else page_leaf (tables m') cr3 q = page_leaf (tables m1) cr3 q)"
      and err: "\<not> is_ok r \<Longrightarrow> \<forall>q. user_page q \<longrightarrow>
        page_leaf (tables m') cr3 q = (if s \<le> q \<and> q < s + (i + 1) then zero_entry else page_leaf (tables m1) cr3 q)"
      using Suc.IH [OF e(1)] by blast
    have "map_frames mp cr3 (s * 4096) phys i (Suc n) m = Some (r, m')"
      using m'(1) True u virt_at_user [OF lim] ph by simp
    moreover have "same_regs m m'" using e(2) m'(3) by (simp add: same_regs_def)
    moreover have "if s + i \<le> q \<and> q < s + i + Suc n
        then is_unused (page_leaf (tables m) cr3 q) \<and> page_leaf (tables m') cr3 q = surface_entry (phys + (q - s) * 4096)
        else page_leaf (tables m') cr3 q = page_leaf (tables m) cr3 q" if "is_ok r" "user_page q" for q
      using ok [OF that(1), rule_format, OF that(2)] lf [OF that(2)] un by (cases "q = s + i") (auto split: if_splits)
    moreover have "page_leaf (tables m') cr3 q = (if s \<le> q \<and> q < s + i then zero_entry else page_leaf (tables m) cr3 q)"
      if "\<not> is_ok r" "user_page q" for q
      using err [OF that(1), rule_format, OF that(2)] lf [OF that(2)] un by (cases "q = s + i") (auto simp: is_unused_def)
    ultimately show ?thesis using m'(2) by blast
  next
    case False
    then have lf: "\<And>q. user_page q \<Longrightarrow> page_leaf (tables m1) cr3 q = page_leaf (tables m) cr3 q" using e(3) by simp
    have "(s + j) * 4096 < USER_ADDR_LIMIT \<and> foreign cr3 m1 (s + j)" if "j \<in> set [0..<i]" for j
      using that Suc.prems(4) [of j] lim lf by (auto simp: foreign_def)
    from unmap_foreign_effect [OF assms(2) e(1) distinct_upt this] obtain m2 where
      m2: "unmap_phys_from mp cr3 (s * 4096) [0..<i] m1 = Some m2" "accounted base cr3 m2" "same_regs m1 m2"
      "\<And>q. user_page q \<Longrightarrow> page_leaf (tables m2) cr3 q = (if \<exists>j\<in>set [0..<i]. q = s + j then zero_entry else page_leaf (tables m1) cr3 q)"
      by blast
    obtain m3 where m3: "prune_empty_user_tables cr3 m2 = Some m3" "accounted base cr3 m3" "same_regs m2 m3"
      "\<And>q. user_page q \<Longrightarrow> page_leaf (tables m3) cr3 q = page_leaf (tables m2) cr3 q"
      using prune_effect [OF m2(2)] by blast
    have "map_frames mp cr3 (s * 4096) phys i (Suc n) m = Some (Err ''Surface mapping failed or overlaps an existing mapping'', m3)"
      using False u virt_at_user [OF lim] ph m2(1) m3(1) by (cases r1) simp_all
    moreover have "same_regs m m3" using e(2) m2(3) m3(3) by (simp add: same_regs_def)
    moreover have "(\<exists>j\<in>set [0..<i]. q = s + j) \<longleftrightarrow> s \<le> q \<and> q < s + i" for q by (auto intro: bexI [of _ "q - s"])
    ultimately show ?thesis using m3(2,4) m2(4) lf by auto
  qed
qed

lemma map_surface_effect:
  assumes "map_to_ok mp" and "unmap_ok mp" and "accounted base cr3 m" and "phys + pages * 4096 \<le> 2 ^ 52" and "virt < 2 ^ 64"
  shows "\<exists>r m'. map_surface_frames mp cr3 virt phys pages m = Some (r, m') \<and> accounted base cr3 m' \<and> same_regs m m' \<and>
    (is_ok r \<longrightarrow> virt mod 4096 = 0 \<and> USER_ADDR_BASE \<le> virt \<and> virt + pages * 4096 \<le> USER_ADDR_LIMIT) \<and>
    (\<forall>q. user_page q \<longrightarrow> (if is_ok r \<and> virt div 4096 \<le> q \<and> q < virt div 4096 + pages
       then is_unused (page_leaf (tables m) cr3 q) \<and> page_leaf (tables m') cr3 q = surface_entry (phys + (q - virt div 4096) * 4096)
       else page_leaf (tables m') cr3 q = page_leaf (tables m) cr3 q))"
proof (cases "virt < USER_ADDR_BASE \<or> virt mod 4096 \<noteq> 0 \<or> phys mod 4096 \<noteq> 0 \<or> pages = 0 \<or>
    (case checked_mul 64 pages 4096 of None \<Rightarrow> True | Some len \<Rightarrow> \<not> is_user_range (word_of_nat virt) len)")
  case True
  then have "\<exists>e. map_surface_frames mp cr3 virt phys pages m = Some (Err e, m)"
    by (auto simp: map_surface_frames_def split: option.splits)
  then obtain e where e: "map_surface_frames mp cr3 virt phys pages m = Some (Err e, m)" ..
  show ?thesis unfolding e using assms(3) by (auto simp: same_regs_def)
next
  case False
  then obtain len where len: "checked_mul 64 pages 4096 = Some len" "is_user_range (word_of_nat virt) len"
    and al: "USER_ADDR_BASE \<le> virt" "virt mod 4096 = 0" "phys mod 4096 = 0" by (auto split: option.splits)
  define s where "s = virt div 4096"
  have virt: "virt = s * 4096" using div_mult_mod_eq [of virt 4096] al(2) by (simp add: s_def)
  have lim: "virt + pages * 4096 \<le> USER_ADDR_LIMIT" using len assms(5) by (simp add: is_user_range_iff unat_of_nat checked_mul_def split: if_splits)
  obtain r m' where m': "map_frames mp cr3 (s * 4096) phys 0 pages m = Some (r, m')" "accounted base cr3 m'" "same_regs m m'"
    and ok: "is_ok r \<Longrightarrow> \<forall>q. user_page q \<longrightarrow> (if s + 0 \<le> q \<and> q < s + 0 + pages
        then is_unused (page_leaf (tables m) cr3 q) \<and> page_leaf (tables m') cr3 q = surface_entry (phys + (q - s) * 4096)
        else page_leaf (tables m') cr3 q = page_leaf (tables m) cr3 q)"
    and err: "\<not> is_ok r \<Longrightarrow> \<forall>q. user_page q \<longrightarrow>
        page_leaf (tables m') cr3 q = (if s \<le> q \<and> q < s + 0 then zero_entry else page_leaf (tables m) cr3 q)"
    using map_frames_effect [OF assms(1-3), of s 0 pages phys] al lim assms(4) virt by (auto simp: add_mult_distrib)
  have "cr3 \<noteq> 0" using assms(3) by (simp add: accounted_def space_ok_def)
  then have "map_surface_frames mp cr3 virt phys pages m = Some (r, m')"
    unfolding map_surface_frames_def len(1) using False m'(1) [folded virt] len(2) by simp
  moreover have "if is_ok r \<and> s \<le> q \<and> q < s + pages
       then is_unused (page_leaf (tables m) cr3 q) \<and> page_leaf (tables m') cr3 q = surface_entry (phys + (q - s) * 4096)
       else page_leaf (tables m') cr3 q = page_leaf (tables m) cr3 q" if "user_page q" for q
    using ok [rule_format, OF _ that] err [rule_format, OF _ that] by (cases "is_ok r") auto
  ultimately show ?thesis using m'(2,3) al lim unfolding s_def [symmetric]
    by (intro exI [of _ r] exI [of _ m'] conjI allI impI) assumption+
qed

text \<open>What the crate documents of \<^verbatim>\<open>translate_page\<close>.\<close>

definition translate_ok :: "mapper \<Rightarrow> bool" where
  "translate_ok mp \<longleftrightarrow> (\<forall>cr3 pg m. space_ok cr3 m \<longrightarrow> user_page pg \<longrightarrow> translate_page mp cr3 pg m =
     (let e = page_leaf (tables m) cr3 pg in if present e then Some (pte_addr e) else None))"

lemma walk_translate_ok: "translate_ok walk_mapper"
  by (simp add: translate_ok_def walk_mapper_def)

lemma backing_matches_effect:
  assumes "translate_ok mp" and "space_ok cr3 m"
    and "\<And>i. i \<in> set is \<Longrightarrow> (s + i) * 4096 < USER_ADDR_LIMIT \<and> user_page (s + i) \<and> phys + i * 4096 < 2 ^ 64"
  shows "backing_matches mp cr3 (s * 4096) phys is m = Some (list_all (\<lambda>i. present (page_leaf (tables m) cr3 (s + i)) \<and>
    pte_addr (page_leaf (tables m) cr3 (s + i)) = phys + i * 4096) is)"
  using assms(3)
proof (induction "is")
  case (Cons i "is")
  have lim: "(s + i) * 4096 < USER_ADDR_LIMIT" and up: "user_page (s + i)" and ph: "phys + i * 4096 < 2 ^ 64"
    using Cons.prems by simp_all
  have "translate_page mp cr3 (s + i) m =
      (let e = page_leaf (tables m) cr3 (s + i) in if present e then Some (pte_addr e) else None)"
    using assms(1,2) up by (simp add: translate_ok_def)
  then show ?case using Cons virt_at_user [OF lim] ph by (simp add: checked_add_def Let_def)
qed simp

lemma unmap_surface_effect:
  assumes "unmap_ok mp" and "translate_ok mp" and "accounted base cr3 m" and "USER_ADDR_BASE \<le> s * 4096"
    and "(s + pages) * 4096 \<le> USER_ADDR_LIMIT" and "phys + pages * 4096 \<le> 2 ^ 64"
    and "\<And>i. i < pages \<Longrightarrow> \<not> owns (tables m) cr3 (s + i)"
  shows "if \<forall>i<pages. present (page_leaf (tables m) cr3 (s + i)) \<and> pte_addr (page_leaf (tables m) cr3 (s + i)) = phys + i * 4096
    then \<exists>m'. unmap_surface_frames mp cr3 (s * 4096) phys pages m = Some (Ok (), m') \<and> accounted base cr3 m' \<and> same_regs m m' \<and>
      (\<forall>q. user_page q \<longrightarrow> page_leaf (tables m') cr3 q = (if s \<le> q \<and> q < s + pages then zero_entry else page_leaf (tables m) cr3 q))
    else unmap_surface_frames mp cr3 (s * 4096) phys pages m = Some (Err ''Surface backing does not match the owner page table'', m)"
proof -
  have ok: "space_ok cr3 m" using assms(3) by (simp add: accounted_def)
  have lim: "(s + i) * 4096 < USER_ADDR_LIMIT" "user_page (s + i)" if "i < pages" for i
  proof -
    show l: "(s + i) * 4096 < USER_ADDR_LIMIT" using that assms(5) by (simp add: add_mult_distrib)
    show "user_page (s + i)" by (rule user_page_times) (use assms(4) l in simp_all)
  qed
  let ?good = "\<forall>i<pages. present (page_leaf (tables m) cr3 (s + i)) \<and> pte_addr (page_leaf (tables m) cr3 (s + i)) = phys + i * 4096"
  have same: "backing_matches mp cr3 (s * 4096) phys [0..<pages] m = Some ?good"
    using backing_matches_effect [OF assms(2) ok, of "[0..<pages]" s phys] lim assms(6) by (auto simp: list_all_iff)
  show ?thesis
  proof (cases ?good)
    case True
    have "(s + i) * 4096 < USER_ADDR_LIMIT \<and> foreign cr3 m (s + i)" if "i \<in> set [0..<pages]" for i
      using that lim True assms(7) by (auto simp: foreign_def owns_def)
    from unmap_foreign_effect [OF assms(1,3) distinct_upt this] obtain m1 where
      m1: "unmap_frames mp cr3 (s * 4096) [0..<pages] m = Some (Ok (), m1)" "accounted base cr3 m1" "same_regs m m1"
      "\<And>q. user_page q \<Longrightarrow> page_leaf (tables m1) cr3 q = (if \<exists>j\<in>set [0..<pages]. q = s + j then zero_entry else page_leaf (tables m) cr3 q)"
      by blast
    obtain m2 where m2: "prune_empty_user_tables cr3 m1 = Some m2" "accounted base cr3 m2" "same_regs m1 m2"
      "\<And>q. user_page q \<Longrightarrow> page_leaf (tables m2) cr3 q = page_leaf (tables m1) cr3 q"
      using prune_effect [OF m1(2)] by blast
    have "unmap_surface_frames mp cr3 (s * 4096) phys pages m = Some (Ok (), m2)"
      using same True m1(1) m2(1) by (simp add: unmap_surface_frames_def)
    moreover have "same_regs m m2" using m1(3) m2(3) by (simp add: same_regs_def)
    moreover have "(\<exists>j\<in>set [0..<pages]. q = s + j) \<longleftrightarrow> s \<le> q \<and> q < s + pages" for q by (auto intro: bexI [of _ "q - s"])
    ultimately show ?thesis using True m2(2,4) m1(4) by auto
  next
    case False
    then show ?thesis unfolding if_not_P [OF False] using same by (simp add: unmap_surface_frames_def)
  qed
qed

end
