(* ===== verification/Surface.thy ===== *)
theory Surface
  imports Shared_Pages Scheduler
begin

section \<open>Surfaces\<close>

text \<open>
  The shared drawing buffers of \<^verbatim>\<open>kernel/src/surface.rs\<close>. A surface is a run of physical frames that is mapped into the address
  space of its owner at a fixed slot and charged to the owner's quotas. The registry, the process table and the page tables
  are the three states an operation changes. The locks are always taken in the order registry, scheduler, so an operation is
  one step. Whether the heap can grow the registry is an argument. Log output is left out.
\<close>

subsection \<open>State\<close>

definition USER_SURFACE_BASE :: nat where "USER_SURFACE_BASE = 0x70000000"
definition SURFACE_SLOT_SIZE :: nat where "SURFACE_SLOT_SIZE = 0x01000000"
definition MAX_SURFACES_PER_PROCESS :: nat where "MAX_SURFACES_PER_PROCESS = 16"
definition MAX_SURFACE_WIDTH :: nat where "MAX_SURFACE_WIDTH = 1280"
definition MAX_SURFACE_HEIGHT :: nat where "MAX_SURFACE_HEIGHT = 720"

record surface_info =
  surface_id :: nat
  sf_owner :: nat
  owner_cr3 :: nat
  sf_slot :: nat
  sf_width :: nat
  sf_height :: nat
  sf_stride :: nat
  vma_addr :: nat
  sf_pages :: nat
  shmem_phys_addr :: nat
  shmem_size :: nat
  sf_dirty :: bool
  dirty_rect :: "nat \<times> nat \<times> nat \<times> nat"

record surfaces =
  su_kernel :: kernel
  su_mmu :: mmu
  registry :: "surface_info list"
  next_surface_id :: nat

subsection \<open>Creating\<close>

definition used_mask :: "nat \<Rightarrow> surface_info list \<Rightarrow> 16 word" where
  "used_mask pid reg = fold (\<lambda>s mask. mask OR push_bit (sf_slot s) 1) (filter (\<lambda>s. sf_owner s = pid) reg) 0"

definition free_surface_slot :: "nat \<Rightarrow> surface_info list \<Rightarrow> nat option" where
  "free_surface_slot pid reg = find (\<lambda>i. used_mask pid reg AND push_bit i 1 = 0) [0..<MAX_SURFACES_PER_PROCESS]"

fun free_backing :: "nat \<Rightarrow> nat \<Rightarrow> mmu \<Rightarrow> mmu option" where
  "free_backing phys 0 m = Some m"
| "free_backing phys (Suc n) m = do { m1 \<leftarrow> free_backing phys n m; user_free_frame (phys + n * 4096) m1 }"

definition uncharge_surface :: "nat \<Rightarrow> nat \<Rightarrow> kernel \<Rightarrow> kernel" where
  "uncharge_surface pid bytes k = upd_k pid (\<lambda>p. decrement_surface_count (uncharge_memory bytes p)) k"

text \<open>The charge on the owner, under the scheduler's lock; the result is the owner's root table.\<close>

definition charge_surface :: "nat \<Rightarrow> nat \<Rightarrow> kernel \<Rightarrow> (string, nat) result \<times> kernel" where
  "charge_surface pid bytes k =
     (case bt_get (ktable k) pid of
        None \<Rightarrow> (Err ''Surface owner not found'', k)
      | Some p \<Rightarrow>
          if exited p \<or> reaped p \<or> user_cr3 p = 0 then (Err ''Surface owner has no live user address space'', k)
          else case try_charge_memory bytes p of
            Inl e \<Rightarrow> (Err e, k)
          | Inr p1 \<Rightarrow>
              (case increment_surface_count p1 of
                 Inl e \<Rightarrow> (Err e, upd_k pid (\<lambda>_. uncharge_memory bytes p1) k)
               | Inr p2 \<Rightarrow> (Ok (user_cr3 p2), upd_k pid (\<lambda>_. p2) k)))"

text \<open>The backing: a contiguous run, mapped as a whole.\<close>

definition back_surface :: "mapper \<Rightarrow> nat \<Rightarrow> nat \<Rightarrow> nat \<Rightarrow> mmu \<Rightarrow> ((string, nat) result \<times> mmu) option" where
  "back_surface mp cr3 vma pages m =
     (case user_alloc_contiguous_frames pages m of
        (None, m1) \<Rightarrow> Some (Err ''Out of contiguous memory for surface backing'', m1)
      | (Some phys, m1) \<Rightarrow> do {
          (r, m2) \<leftarrow> map_surface_frames mp cr3 vma phys pages m1;
          case r of
            Inl e \<Rightarrow> do { m3 \<leftarrow> free_backing phys pages m2; Some (Err e, m3) }
          | Inr _ \<Rightarrow> Some (Ok phys, m2)
        })"

definition create_surface_for_pid ::
    "mapper \<Rightarrow> bool \<Rightarrow> nat \<Rightarrow> nat \<Rightarrow> nat \<Rightarrow> surfaces \<Rightarrow> ((string, nat) result \<times> surfaces) option" where
  "create_surface_for_pid mp reserved pid width height d =
     (if width = 0 \<or> MAX_SURFACE_WIDTH < width \<or> height = 0 \<or> MAX_SURFACE_HEIGHT < height
      then Some (Err ''Invalid surface dimensions'', d)
      else case checked_mul 32 width 4 of
        None \<Rightarrow> Some (Err ''Stride calculation overflow'', d)
      | Some stride \<Rightarrow>
     (case checked_mul 64 stride height of
        None \<Rightarrow> Some (Err ''Buffer size overflow'', d)
      | Some size_bytes \<Rightarrow>
     (let pages = (size_bytes + 4095) div 4096; bytes = pages * 4096 in
      case free_surface_slot pid (registry d) of
        None \<Rightarrow> Some (Err ''Process reached maximum surface limit (16 surfaces max)'', d)
      | Some slot \<Rightarrow>
     (let vma = USER_SURFACE_BASE + slot * SURFACE_SLOT_SIZE in
      if \<not> reserved then Some (Err ''Out of kernel memory for surface record'', d)
      else case charge_surface pid bytes (su_kernel d) of
        (Inl e, k) \<Rightarrow> Some (Err e, d\<lparr>su_kernel := k\<rparr>)
      | (Inr cr3, k) \<Rightarrow> do {
          (r, m) \<leftarrow> back_surface mp cr3 vma pages (su_mmu d);
          case r of
            Inl e \<Rightarrow> Some (Err e, d\<lparr>su_kernel := uncharge_surface pid bytes k, su_mmu := m\<rparr>)
          | Inr phys \<Rightarrow>
              Some (Ok (next_surface_id d),
                d\<lparr>su_kernel := k, su_mmu := m, next_surface_id := wrapping_add 64 (next_surface_id d) 1,
                  registry := registry d @
                    [\<lparr>surface_id = next_surface_id d, sf_owner = pid, owner_cr3 = cr3, sf_slot = slot, sf_width = width,
                      sf_height = height, sf_stride = stride, vma_addr = vma, sf_pages = pages, shmem_phys_addr = phys,
                      shmem_size = bytes, sf_dirty = False, dirty_rect = (0, 0, width, height)\<rparr>]\<rparr>)
        }))))"

definition create_surface :: "mapper \<Rightarrow> bool \<Rightarrow> nat \<Rightarrow> nat \<Rightarrow> nat \<Rightarrow> surfaces \<Rightarrow> ((string, nat) result \<times> surfaces) option" where
  "create_surface mp reserved cpu width height d =
     create_surface_for_pid mp reserved (cpu_pids (su_kernel d) ! cpu) width height d"

subsection \<open>Presenting and drawing\<close>

text \<open>
  The part of \<^verbatim>\<open>present_surface_for_pid\<close> under the registry's lock: it clips the rectangle and marks the surface. What the window
  manager then does with the rectangle is in \<open>Desktop\<close>.
\<close>

definition mark_presented ::
    "nat \<Rightarrow> nat \<Rightarrow> nat \<Rightarrow> nat \<Rightarrow> nat \<Rightarrow> nat \<Rightarrow> surface_info list \<Rightarrow> (string, nat \<times> nat \<times> nat \<times> nat) result \<times> surface_info list" where
  "mark_presented pid sid x y w h reg =
     (case position (\<lambda>s. surface_id s = sid) reg of
        None \<Rightarrow> (Err ''Surface not found'', reg)
      | Some i \<Rightarrow>
          (let s = reg ! i in
           if sf_owner s \<noteq> pid then (Err ''Permission denied: caller is not surface owner'', reg)
           else
             let cx = min x (sf_width s); cy = min y (sf_height s);
                 cw = min w (sf_width s - cx); ch = min h (sf_height s - cy)
             in (Ok (cx, cy, cw, ch), reg[i := s\<lparr>sf_dirty := True, dirty_rect := (cx, cy, cw, ch)\<rparr>])))"

text \<open>\<^verbatim>\<open>clamp\<close> panics when its bounds are not in order.\<close>

definition clamp :: "nat \<Rightarrow> nat \<Rightarrow> nat \<Rightarrow> nat option" where
  "clamp x lo hi = (if lo \<le> hi then Some (max lo (min x hi)) else None)"

definition get_surface_render_target ::
    "nat \<Rightarrow> nat \<Rightarrow> nat \<Rightarrow> nat \<Rightarrow> surfaces \<Rightarrow> ((nat \<times> nat \<times> nat) option \<times> surfaces) option" where
  "get_surface_render_target sid pid req_w req_h d =
     (case position (\<lambda>s. surface_id s = sid \<and> sf_owner s = pid) (registry d) of
        None \<Rightarrow> Some (None, d)
      | Some i \<Rightarrow> do {
          let s = registry d ! i;
          let max_w = min (sf_stride s div 4) MAX_SURFACE_WIDTH;
          let max_h = (if sf_stride s > 0 then min (shmem_size s div sf_stride s mod 2 ^ 32) MAX_SURFACE_HEIGHT else 0);
          w \<leftarrow> clamp req_w 1 max_w;
          h \<leftarrow> clamp req_h 1 max_h;
          Some (Some (shmem_phys_addr s, w, h), d\<lparr>registry := (registry d)[i := s\<lparr>sf_width := w, sf_height := h\<rparr>]\<rparr>)
        })"

subsection \<open>Destroying\<close>

definition destroy_surface_for_pid :: "mapper \<Rightarrow> nat \<Rightarrow> nat \<Rightarrow> surfaces \<Rightarrow> ((string, unit) result \<times> surfaces) option" where
  "destroy_surface_for_pid mp pid sid d =
     (case position (\<lambda>s. surface_id s = sid) (registry d) of
        None \<Rightarrow> Some (Err ''Surface not found'', d)
      | Some i \<Rightarrow>
          (let s = registry d ! i in
           if sf_owner s \<noteq> pid then Some (Err ''Permission denied: caller is not surface owner'', d)
           else do {
             (r, m) \<leftarrow> unmap_surface_frames mp (owner_cr3 s) (vma_addr s) (shmem_phys_addr s) (sf_pages s) (su_mmu d);
             case r of
               Inl e \<Rightarrow> Some (Err e, d\<lparr>su_mmu := m\<rparr>)
             | Inr _ \<Rightarrow> do {
                 m1 \<leftarrow> free_backing (shmem_phys_addr s) (sf_pages s) m;
                 Some (Ok (), d\<lparr>su_mmu := m1, registry := list_remove i (registry d),
                   su_kernel := uncharge_surface pid (shmem_size s) (su_kernel d)\<rparr>)
               }
           }))"

definition destroy_surface :: "mapper \<Rightarrow> nat \<Rightarrow> nat \<Rightarrow> surfaces \<Rightarrow> ((string, unit) result \<times> surfaces) option" where
  "destroy_surface mp cpu sid d = destroy_surface_for_pid mp (cpu_pids (su_kernel d) ! cpu) sid d"

text \<open>The clean-up of an exiting process stops at the first failure; every round removes a record.\<close>

fun cleanup_rounds :: "nat \<Rightarrow> mapper \<Rightarrow> nat \<Rightarrow> surfaces \<Rightarrow> surfaces option" where
  "cleanup_rounds 0 mp pid d = Some d"
| "cleanup_rounds (Suc n) mp pid d =
     (case find (\<lambda>s. sf_owner s = pid) (registry d) of
        None \<Rightarrow> Some d
      | Some s \<Rightarrow> do {
          (r, d1) \<leftarrow> destroy_surface_for_pid mp pid (surface_id s) d;
          case r of Inl _ \<Rightarrow> Some d1 | Inr _ \<Rightarrow> cleanup_rounds n mp pid d1
        })"

definition cleanup_surfaces_for_pid :: "mapper \<Rightarrow> nat \<Rightarrow> surfaces \<Rightarrow> surfaces option" where
  "cleanup_surfaces_for_pid mp pid d = cleanup_rounds (Suc (length (registry d))) mp pid d"

subsection \<open>Frames\<close>

lemma run_of_4096: "run_of a n = (\<lambda>i. a + i * 4096) ` {..<n}"
  by (simp add: run_of_def PAGE_BYTES_def)

text \<open>A contiguous run enters the accounts of an address space as foreign frames, and leaves them again.\<close>

lemma accounted_run:
  assumes "accounted base cr3 m" and "user_alloc_contiguous_frames n m = (Some f, m1)"
  shows "accounted (base \<union> run_of f n) cr3 m1" and "same_regs m m1" and "run_of f n \<inter> in_use m = {}"
    and "page_leaf (tables m1) cr3 = page_leaf (tables m) cr3" and "{f..<f + n * 4096} \<subseteq> {..<2 ^ 52}"
proof -
  have ok: "space_ok cr3 m" using assms(1) by (simp add: accounted_def)
  then have d: "distinct (own_tables (tables m) cr3)" and u: "set (own_tables (tables m) cr3) \<subseteq> in_use m" by (auto simp: space_ok_def)
  obtain p p' where p: "frame_alloc m = Some p" "pool_ok p" "allocate n p = (Some f, p')" "space p \<subseteq> {..<2 ^ 52}"
    and m1: "m1 = m\<lparr>frame_alloc := Some p', tables := (\<lambda>t. if t \<in> run_of f n then (\<lambda>_. zero_entry) else tables m t)\<rparr>"
    using assms ok by (auto simp: user_alloc_contiguous_frames_def space_ok_def pool_fine_def split: prod.splits option.splits)
  from allocate_effect [OF p(2,3)] have e: "pool_ok p'" "space p' = space p" "allocated p' = allocated p \<union> run_of f n"
    "(\<Union>a \<in> run_of f n. page a) \<inter> (\<Union>a \<in> allocated p. page a) = {}" by (simp_all add: alloc_effect_def)
  have iu: "in_use m = allocated p" "in_use m1 = in_use m \<union> run_of f n" "pool_fine m1" using p m1 e(1-3) by (auto simp: in_use_def pool_fine_def)
  show dj: "run_of f n \<inter> in_use m = {}" using e(4) iu(1) mem_page by blast
  show r: "same_regs m m1" using m1 by (simp add: same_regs_def)
  have t: "tables m1 t i = tables m t i" if "t \<in> set (own_tables (tables m) cr3)" for t i using that u dj m1 by auto
  have c: "cr3 \<in> set (own_tables (tables m) cr3)" by (simp add: own_tables_def)
  have "pte_addr (tables m1 cr3 0) = pte_addr (tables m cr3 0)" using t [OF c] by simp
  note tc = tree_cong [OF t this d]
  show "page_leaf (tables m1) cr3 = page_leaf (tables m) cr3" by (rule tc(2))
  show "accounted (base \<union> run_of f n) cr3 m1"
    by (rule accounted_same_tree [OF assms(1) tc iu(3) r iu(2) dj])
  have "{f..<f + n * 4096} \<subseteq> space p'" using e(3) page_run [of f n] by (auto simp: space_def PAGE_BYTES_def)
  then show "{f..<f + n * 4096} \<subseteq> {..<2 ^ 52}" using p(4) e(2) by simp
qed

lemma free_backing_effect:
  assumes "accounted (base \<union> run_of f n) cr3 m" and "base \<inter> run_of f n = {}"
  shows "\<exists>m'. free_backing f n m = Some m' \<and> accounted base cr3 m' \<and> same_regs m m' \<and> tables m' = tables m"
  using assms
proof (induction n arbitrary: base)
  case 0
  then show ?case by (simp add: run_of_4096 same_regs_def)
next
  case (Suc n)
  let ?x = "f + n * 4096"
  have r: "run_of f (Suc n) = insert ?x (run_of f n)" and x: "?x \<notin> run_of f n" by (auto simp: run_of_4096 lessThan_Suc)
  have "accounted (insert ?x base \<union> run_of f n) cr3 m" "insert ?x base \<inter> run_of f n = {}" using Suc.prems r x by auto
  from Suc.IH [OF this] obtain m1 where m1: "free_backing f n m = Some m1" "accounted (insert ?x base) cr3 m1" "same_regs m m1" "tables m1 = tables m"
    by blast
  have "?x \<notin> base" using Suc.prems(2) r by auto
  from accounted_free [OF m1(2) this] obtain m' where m': "user_free_frame ?x m1 = Some m'" "accounted base cr3 m'" "same_regs m1 m'" "tables m' = tables m1"
    by blast
  then show ?case using m1 by (intro exI [of _ m']) (simp add: same_regs_def)
qed

lemma back_surface_effect:
  assumes "map_to_ok mp" and "unmap_ok mp" and "accounted base cr3 m" and "vma < 2 ^ 64" and "0 < pages"
  shows "\<exists>r m'. back_surface mp cr3 vma pages m = Some (r, m') \<and> same_regs m m' \<and>
    (case r of
       Inl e \<Rightarrow> accounted base cr3 m' \<and> (\<forall>q. user_page q \<longrightarrow> page_leaf (tables m') cr3 q = page_leaf (tables m) cr3 q)
     | Inr phys \<Rightarrow> run_of phys pages \<inter> in_use m = {} \<and> accounted (base \<union> run_of phys pages) cr3 m' \<and> phys + pages * 4096 \<le> 2 ^ 52 \<and>
         vma mod 4096 = 0 \<and> USER_ADDR_BASE \<le> vma \<and> vma + pages * 4096 \<le> USER_ADDR_LIMIT \<and>
         (\<forall>q. user_page q \<longrightarrow> (if vma div 4096 \<le> q \<and> q < vma div 4096 + pages
            then is_unused (page_leaf (tables m) cr3 q) \<and> page_leaf (tables m') cr3 q = surface_entry (phys + (q - vma div 4096) * 4096)
            else page_leaf (tables m') cr3 q = page_leaf (tables m) cr3 q)))"
proof (cases "user_alloc_contiguous_frames pages m")
  case (Pair fo m1)
  show ?thesis
  proof (cases fo)
    case None
    have "m1 = m" using Pair None allocate_None by (auto simp: user_alloc_contiguous_frames_def split: option.splits prod.splits)
    then show ?thesis using Pair None assms(3) by (simp add: back_surface_def same_regs_def)
  next
    case (Some f)
    note a = accounted_run [OF assms(3) Pair [unfolded Some]]
    have "f + pages * 4096 - 1 \<in> {f..<f + pages * 4096}" using assms(5) by auto
    then have lim: "f + pages * 4096 \<le> 2 ^ 52" using a(5) by auto
    have dj: "base \<inter> run_of f pages = {}" using a(3) assms(3) by (auto simp: accounted_def)
    obtain r m2 where m2: "map_surface_frames mp cr3 vma f pages m1 = Some (r, m2)" "accounted (base \<union> run_of f pages) cr3 m2" "same_regs m1 m2"
      and bnd: "is_ok r \<longrightarrow> vma mod 4096 = 0 \<and> USER_ADDR_BASE \<le> vma \<and> vma + pages * 4096 \<le> USER_ADDR_LIMIT"
      and lf: "\<forall>q. user_page q \<longrightarrow> (if is_ok r \<and> vma div 4096 \<le> q \<and> q < vma div 4096 + pages
       then is_unused (page_leaf (tables m1) cr3 q) \<and> page_leaf (tables m2) cr3 q = surface_entry (f + (q - vma div 4096) * 4096)
       else page_leaf (tables m2) cr3 q = page_leaf (tables m1) cr3 q)"
      using map_surface_effect [OF assms(1,2) a(1) lim assms(4)] by (elim exE conjE) (rule that)
    have sr: "same_regs m m2" using a(2) m2(3) by (simp add: same_regs_def)
    show ?thesis
    proof (cases r)
      case (Inl e)
      obtain m3 where m3: "free_backing f pages m2 = Some m3" "accounted base cr3 m3" "same_regs m2 m3" "tables m3 = tables m2"
        using free_backing_effect [OF m2(2) dj] by blast
      have "back_surface mp cr3 vma pages m = Some (Err e, m3)" using Pair Some m2(1) Inl m3(1) by (simp add: back_surface_def)
      moreover have "same_regs m m3" using sr m3(3) by (simp add: same_regs_def)
      moreover have "page_leaf (tables m3) cr3 q = page_leaf (tables m) cr3 q" if "user_page q" for q
        using lf [rule_format, OF that] Inl m3(4) a(4) by simp
      ultimately show ?thesis using m3(2) by (intro exI [of _ "Err e"] exI [of _ m3]) simp
    next
      case (Inr x)
      have "back_surface mp cr3 vma pages m = Some (Ok f, m2)" using Pair Some m2(1) Inr by (simp add: back_surface_def)
      moreover have ok: "is_ok r" using Inr by simp
      moreover have "if vma div 4096 \<le> q \<and> q < vma div 4096 + pages
          then is_unused (page_leaf (tables m) cr3 q) \<and> page_leaf (tables m2) cr3 q = surface_entry (f + (q - vma div 4096) * 4096)
          else page_leaf (tables m2) cr3 q = page_leaf (tables m) cr3 q" if "user_page q" for q
        using lf [rule_format, OF that] ok unfolding a(4) by (simp only: simp_thms)
      ultimately show ?thesis using sr m2(2) a(3) lim bnd by (intro exI [of _ "Ok f"] exI [of _ m2]) simp
    qed
  qed
qed

subsection \<open>Quotas and slots\<close>

text \<open>What a process is charged with, and its root table.\<close>

definition quota :: "kernel \<Rightarrow> nat \<Rightarrow> (nat \<times> nat \<times> nat) option" where
  "quota k i = map_option (\<lambda>p. (current_memory_bytes (usage p), surface_count (usage p), user_cr3 p)) (bt_get (ktable k) i)"

definition limits_fine :: "kernel \<Rightarrow> bool" where
  "limits_fine k \<longleftrightarrow> (\<forall>i p. bt_get (ktable k) i = Some p \<longrightarrow> max_memory_bytes (limits p) < 2 ^ 64 - 1)"

lemma charge_surface_effect:
  assumes "limits_fine k" and "charge_surface pid bytes k = (r, k')"
  shows "case r of
      Inl e \<Rightarrow> quota k' = quota k
    | Inr cr3 \<Rightarrow> \<exists>mem n. quota k pid = Some (mem, n, cr3) \<and> cr3 \<noteq> 0 \<and> quota k' = (quota k)(pid \<mapsto> (mem + bytes, n + 1, cr3)) \<and>
        quota (uncharge_surface pid bytes k') = quota k"
proof (cases "bt_get (ktable k) pid")
  case None
  then show ?thesis using assms(2) by (auto simp: charge_surface_def)
next
  case (Some p)
  then have lim: "max_memory_bytes (limits p) < 2 ^ 64 - 1" using assms(1) by (auto simp: limits_fine_def)
  show ?thesis
  proof (cases "try_charge_memory bytes p")
    case (Inl e)
    then show ?thesis using assms(2) Some by (auto simp: charge_surface_def split: if_splits)
  next
    case (Inr p1)
    have "current_memory_bytes (usage p) + bytes < 2 ^ 64"
      using Inr lim by (auto simp: try_charge_memory_def saturating_add_def Let_def min_def split: if_splits)
    then have p1: "current_memory_bytes (usage p1) = current_memory_bytes (usage p) + bytes"
      "surface_count (usage p1) = surface_count (usage p)" "user_cr3 p1 = user_cr3 p"
      using Inr by (auto simp: try_charge_memory_def saturating_add_def Let_def split: if_splits)
    show ?thesis
      using assms(2) Some Inr p1
      by (cases "increment_surface_count p1")
        (auto simp: charge_surface_def quota_def map_of_upd fun_eq_iff increment_surface_count_def uncharge_surface_def
          uncharge_memory_def decrement_surface_count_def split: if_splits)
  qed
qed

lemma used_mask_bit: "bit (used_mask pid reg) i \<longleftrightarrow> i < 16 \<and> (\<exists>s\<in>set reg. sf_owner s = pid \<and> sf_slot s = i)"
proof -
  have "bit (fold (\<lambda>s mask. mask OR push_bit (sf_slot s) 1) xs a) i \<longleftrightarrow> bit a i \<or> (i < 16 \<and> (\<exists>s\<in>set xs. sf_slot s = i))"
    for xs :: "surface_info list" and a :: "16 word"
    by (induction xs arbitrary: a) (auto simp: bit_simps)
  then show ?thesis by (auto simp: used_mask_def)
qed

lemma free_surface_slot_Some:
  assumes "free_surface_slot pid reg = Some i"
  shows "i < 16" and "\<And>s. s \<in> set reg \<Longrightarrow> sf_owner s = pid \<Longrightarrow> sf_slot s \<noteq> i"
proof -
  have i: "i < 16" "used_mask pid reg AND push_bit i 1 = 0"
    using assms by (auto simp: free_surface_slot_def find_Some_iff MAX_SURFACES_PER_PROCESS_def)
  show "i < 16" by (rule i(1))
  have "\<not> bit (used_mask pid reg AND push_bit i 1) i" using i(2) by simp
  then have "\<not> bit (used_mask pid reg) i" using i(1) by (simp add: bit_simps)
  then show "\<And>s. s \<in> set reg \<Longrightarrow> sf_owner s = pid \<Longrightarrow> sf_slot s \<noteq> i" using i(1) by (auto simp: used_mask_bit)
qed

text \<open>The record of a new surface, and the pages of its owner before and after.\<close>

definition surface_fits :: "surface_info \<Rightarrow> bool" where
  "surface_fits sf \<longleftrightarrow> 4 \<le> sf_stride sf \<and> sf_stride sf \<le> shmem_size sf \<and> shmem_size sf < 2 ^ 32 \<and> shmem_size sf = sf_pages sf * 4096"

definition surface_mapped :: "surface_info \<Rightarrow> mmu \<Rightarrow> mmu \<Rightarrow> bool" where
  "surface_mapped sf m m' \<longleftrightarrow> (\<forall>q. user_page q \<longrightarrow>
     (if vma_addr sf div 4096 \<le> q \<and> q < vma_addr sf div 4096 + sf_pages sf
      then is_unused (page_leaf (tables m) (owner_cr3 sf) q) \<and>
        page_leaf (tables m') (owner_cr3 sf) q = surface_entry (shmem_phys_addr sf + (q - vma_addr sf div 4096) * 4096)
      else page_leaf (tables m') (owner_cr3 sf) q = page_leaf (tables m) (owner_cr3 sf) q))"

definition same_pages :: "nat \<Rightarrow> mmu \<Rightarrow> mmu \<Rightarrow> bool" where
  "same_pages cr3 m m' \<longleftrightarrow> (\<forall>q. user_page q \<longrightarrow> page_leaf (tables m') cr3 q = page_leaf (tables m) cr3 q)"

definition placed :: "surface_info \<Rightarrow> bool" where
  "placed sf \<longleftrightarrow> sf_slot sf < 16 \<and> vma_addr sf = USER_SURFACE_BASE + sf_slot sf * SURFACE_SLOT_SIZE \<and>
     sf_pages sf * 4096 \<le> SURFACE_SLOT_SIZE \<and> vma_addr sf mod 4096 = 0 \<and> USER_ADDR_BASE \<le> vma_addr sf \<and> vma_addr sf + sf_pages sf * 4096 \<le> USER_ADDR_LIMIT \<and>
     shmem_phys_addr sf + sf_pages sf * 4096 \<le> 2 ^ 52"

lemma surface_bytes:
  assumes "width \<noteq> 0" "width \<le> 1280" "height \<noteq> 0" "height \<le> (720 :: nat)"
  shows "0 < (width * 4 * height + 4095) div 4096" and "width * 4 \<le> (width * 4 * height + 4095) div 4096 * 4096"
    and "(width * 4 * height + 4095) div 4096 * 4096 \<le> 3690495"
proof -
  let ?t = "width * 4 * height"
  have "width * height \<le> 1280 * 720" using assms by (intro mult_mono) simp_all
  then have up: "?t \<le> 3686400" by (simp add: mult.commute)
  have lo: "width * 4 \<le> ?t" using assms(3) by simp
  note pb = page_bounds [of "?t + 4095"]
  show "(?t + 4095) div 4096 * 4096 \<le> 3690495" using pb(1) up by linarith
  show le: "width * 4 \<le> (?t + 4095) div 4096 * 4096" using pb(2) lo by linarith
  show "0 < (?t + 4095) div 4096" using le assms(1) by (cases "(?t + 4095) div 4096") simp_all
qed

subsection \<open>All or nothing\<close>

lemma create_surface_effect:
  assumes "map_to_ok mp" and "unmap_ok mp" and "limits_fine (su_kernel d)"
    and "quota (su_kernel d) pid = Some (mem, n, cr3)" and "accounted base cr3 (su_mmu d)"
  shows "\<exists>r d'. create_surface_for_pid mp reserved pid width height d = Some (r, d') \<and> same_regs (su_mmu d) (su_mmu d') \<and>
    (case r of
       Inl e \<Rightarrow> registry d' = registry d \<and> quota (su_kernel d') = quota (su_kernel d) \<and> accounted base cr3 (su_mmu d') \<and>
         same_pages cr3 (su_mmu d) (su_mmu d')
     | Inr sid \<Rightarrow> \<exists>sf. sid = next_surface_id d \<and> registry d' = registry d @ [sf] \<and> surface_id sf = sid \<and> sf_owner sf = pid \<and> owner_cr3 sf = cr3 \<and>
         sf_width sf = width \<and> sf_height sf = height \<and> surface_fits sf \<and> placed sf \<and>
         (\<forall>s\<in>set (registry d). sf_owner s = pid \<longrightarrow> sf_slot s \<noteq> sf_slot sf) \<and>
         quota (su_kernel d') = (quota (su_kernel d))(pid \<mapsto> (mem + shmem_size sf, n + 1, cr3)) \<and>
         quota (uncharge_surface pid (shmem_size sf) (su_kernel d')) = quota (su_kernel d) \<and>
         run_of (shmem_phys_addr sf) (sf_pages sf) \<inter> in_use (su_mmu d) = {} \<and>
         accounted (base \<union> run_of (shmem_phys_addr sf) (sf_pages sf)) cr3 (su_mmu d') \<and> surface_mapped sf (su_mmu d) (su_mmu d'))"
proof (cases "width = 0 \<or> MAX_SURFACE_WIDTH < width \<or> height = 0 \<or> MAX_SURFACE_HEIGHT < height \<or> free_surface_slot pid (registry d) = None \<or> \<not> reserved")
  case True
  then have "\<exists>e. create_surface_for_pid mp reserved pid width height d = Some (Err e, d)"
    by (auto simp: create_surface_for_pid_def Let_def split: option.splits)
  then obtain e where e: "create_surface_for_pid mp reserved pid width height d = Some (Err e, d)" ..
  show ?thesis unfolding e using assms(5) by (auto simp: same_pages_def same_regs_def)
next
  case False
  then obtain slot where slot: "free_surface_slot pid (registry d) = Some slot"
    and dim: "width \<noteq> 0" "width \<le> 1280" "height \<noteq> 0" "height \<le> 720" and res: reserved
    by (auto simp: MAX_SURFACE_WIDTH_def MAX_SURFACE_HEIGHT_def)
  define pages where "pages = (width * 4 * height + 4095) div 4096"
  define vma where "vma = USER_SURFACE_BASE + slot * SURFACE_SLOT_SIZE"
  note sb = surface_bytes [OF dim, folded pages_def]
  note sl = free_surface_slot_Some [OF slot]
  have mul: "checked_mul 32 width 4 = Some (width * 4)" "checked_mul 64 (width * 4) height = Some (width * 4 * height)"
  proof -
    have "width * height \<le> 1280 * 720" using dim by (intro mult_mono) simp_all
    then show "checked_mul 64 (width * 4) height = Some (width * 4 * height)" by (simp add: checked_mul_def mult.commute)
  qed (use dim in \<open>simp add: checked_mul_def\<close>)
  have vma: "vma < 2 ^ 64" using sl(1) by (simp add: vma_def USER_SURFACE_BASE_def SURFACE_SLOT_SIZE_def)
  obtain c k where ch: "charge_surface pid (pages * 4096) (su_kernel d) = (c, k)" by fastforce
  note ce = charge_surface_effect [OF assms(3) ch]
  have run: "create_surface_for_pid mp reserved pid width height d =
      (case c of
         Inl e \<Rightarrow> Some (Err e, d\<lparr>su_kernel := k\<rparr>)
       | Inr cr3 \<Rightarrow> do {
          (r, m) \<leftarrow> back_surface mp cr3 vma pages (su_mmu d);
          case r of
            Inl e \<Rightarrow> Some (Err e, d\<lparr>su_kernel := uncharge_surface pid (pages * 4096) k, su_mmu := m\<rparr>)
          | Inr phys \<Rightarrow>
              Some (Ok (next_surface_id d),
                d\<lparr>su_kernel := k, su_mmu := m, next_surface_id := wrapping_add 64 (next_surface_id d) 1,
                  registry := registry d @
                    [\<lparr>surface_id = next_surface_id d, sf_owner = pid, owner_cr3 = cr3, sf_slot = slot, sf_width = width,
                      sf_height = height, sf_stride = width * 4, vma_addr = vma, sf_pages = pages, shmem_phys_addr = phys,
                      shmem_size = pages * 4096, sf_dirty = False, dirty_rect = (0, 0, width, height)\<rparr>]\<rparr>)
        })"
    unfolding create_surface_for_pid_def mul slot option.case Let_def pages_def [symmetric] vma_def [symmetric] ch prod.case
    using False res by (cases c) simp_all
  show ?thesis
  proof (cases c)
    case (Inl e)
    then have "create_surface_for_pid mp reserved pid width height d = Some (Err e, d\<lparr>su_kernel := k\<rparr>)" using run by simp
    then show ?thesis using Inl ce assms(5) by (simp add: same_pages_def same_regs_def)
  next
    case (Inr c')
    have q: "c' = cr3" "quota k = (quota (su_kernel d))(pid \<mapsto> (mem + pages * 4096, n + 1, cr3))"
      "quota (uncharge_surface pid (pages * 4096) k) = quota (su_kernel d)" using ce Inr assms(4) by auto
    obtain r m' where m': "back_surface mp cr3 vma pages (su_mmu d) = Some (r, m')" "same_regs (su_mmu d) m'"
      and cases: "case r of
       Inl e \<Rightarrow> accounted base cr3 m' \<and> (\<forall>q. user_page q \<longrightarrow> page_leaf (tables m') cr3 q = page_leaf (tables (su_mmu d)) cr3 q)
     | Inr phys \<Rightarrow> run_of phys pages \<inter> in_use (su_mmu d) = {} \<and> accounted (base \<union> run_of phys pages) cr3 m' \<and> phys + pages * 4096 \<le> 2 ^ 52 \<and>
         vma mod 4096 = 0 \<and> USER_ADDR_BASE \<le> vma \<and> vma + pages * 4096 \<le> USER_ADDR_LIMIT \<and>
         (\<forall>q. user_page q \<longrightarrow> (if vma div 4096 \<le> q \<and> q < vma div 4096 + pages
            then is_unused (page_leaf (tables (su_mmu d)) cr3 q) \<and> page_leaf (tables m') cr3 q = surface_entry (phys + (q - vma div 4096) * 4096)
            else page_leaf (tables m') cr3 q = page_leaf (tables (su_mmu d)) cr3 q))"
      using back_surface_effect [OF assms(1,2,5) vma sb(1)] by (elim exE conjE) (rule that)
    show ?thesis
    proof (cases r)
      case r: (Inl e)
      have "create_surface_for_pid mp reserved pid width height d =
          Some (Err e, d\<lparr>su_kernel := uncharge_surface pid (pages * 4096) k, su_mmu := m'\<rparr>)" using run Inr q(1) m'(1) r by simp
      then show ?thesis using r cases q(3) m'(2) by (simp add: same_pages_def)
    next
      case r: (Inr phys)
      define sf where "sf = \<lparr>surface_id = next_surface_id d, sf_owner = pid, owner_cr3 = cr3, sf_slot = slot, sf_width = width,
        sf_height = height, sf_stride = width * 4, vma_addr = vma, sf_pages = pages, shmem_phys_addr = phys,
        shmem_size = pages * 4096, sf_dirty = False, dirty_rect = (0, 0, width, height)\<rparr>"
      define d' where "d' = d\<lparr>su_kernel := k, su_mmu := m', next_surface_id := wrapping_add 64 (next_surface_id d) 1,
        registry := registry d @ [sf]\<rparr>"
      have sf: "surface_id sf = next_surface_id d" "sf_owner sf = pid" "owner_cr3 sf = cr3" "sf_slot sf = slot" "sf_width sf = width"
        "sf_height sf = height" "sf_stride sf = width * 4" "vma_addr sf = vma" "sf_pages sf = pages" "shmem_phys_addr sf = phys"
        "shmem_size sf = pages * 4096" unfolding sf_def by simp_all
      have small: "pages * 4096 \<le> SURFACE_SLOT_SIZE" "pages * 4096 < 2 ^ 32" using sb(3) by (simp_all add: SURFACE_SLOT_SIZE_def)
      have "surface_fits sf" using sb(2) small(2) dim by (simp add: surface_fits_def sf)
      moreover have "placed sf" using sl(1) small(1) cases r by (simp add: placed_def sf vma_def)
      moreover have "surface_mapped sf (su_mmu d) m'" using cases r unfolding surface_mapped_def sf by simp
      moreover have "create_surface_for_pid mp reserved pid width height d = Some (Ok (next_surface_id d), d')"
        using run Inr q(1) m'(1) r unfolding sf_def d'_def by simp
      ultimately show ?thesis using sl(2) q(2,3) cases r sf m'(2)
        by (intro exI [of _ "Ok (next_surface_id d)"] exI [of _ d'] conjI) (auto simp: d'_def)
    qed
  qed
qed

text \<open>A surface whose pages are where its record says.\<close>

definition surface_live :: "surface_info \<Rightarrow> mmu \<Rightarrow> bool" where
  "surface_live sf m \<longleftrightarrow> placed sf \<and> (\<forall>i < sf_pages sf.
     page_leaf (tables m) (owner_cr3 sf) (vma_addr sf div 4096 + i) = surface_entry (shmem_phys_addr sf + i * 4096))"

definition pages_of :: "surface_info \<Rightarrow> nat set" where
  "pages_of sf = {q. vma_addr sf div 4096 \<le> q \<and> q < vma_addr sf div 4096 + sf_pages sf}"

definition frames_of :: "surface_info \<Rightarrow> nat set" where
  "frames_of sf = run_of (shmem_phys_addr sf) (sf_pages sf)"

lemma placed_pages:
  assumes "placed sf"
  shows "vma_addr sf = vma_addr sf div 4096 * 4096" and "vma_addr sf div 4096 = 0x70000 + sf_slot sf * 0x1000"
    and "sf_pages sf \<le> 0x1000" and "q \<in> pages_of sf \<Longrightarrow> user_page q"
proof -
  have p: "sf_slot sf < 16" "vma_addr sf = 0x70000000 + sf_slot sf * 0x01000000" "sf_pages sf * 4096 \<le> 0x01000000"
    using assms by (simp_all add: placed_def USER_SURFACE_BASE_def SURFACE_SLOT_SIZE_def)
  have "vma_addr sf = (0x70000 + sf_slot sf * 0x1000) * 4096" using p(2) by simp
  then show v: "vma_addr sf div 4096 = 0x70000 + sf_slot sf * 0x1000" by simp
  then show "vma_addr sf = vma_addr sf div 4096 * 4096" using p(2) by simp
  show n: "sf_pages sf \<le> 0x1000" using p(3) by simp
  show "user_page q" if "q \<in> pages_of sf" using that v n p(1) by (simp add: pages_of_def user_page_def)
qed

lemma pages_apart:
  assumes "placed sf" "placed sg" "sf_slot sf \<noteq> sf_slot sg"
  shows "pages_of sf \<inter> pages_of sg = {}"
proof -
  have "a \<noteq> b \<Longrightarrow> 0x70000 + a * 0x1000 \<le> q \<Longrightarrow> q < 0x70000 + a * 0x1000 + 0x1000 \<Longrightarrow> 0x70000 + b * 0x1000 \<le> q \<Longrightarrow>
      q < 0x70000 + b * 0x1000 + 0x1000 \<Longrightarrow> False" for a b q :: nat by linarith
  then show ?thesis
    using placed_pages(2,3) [OF assms(1)] placed_pages(2,3) [OF assms(2)] assms(3) by (fastforce simp: pages_of_def)
qed

lemma destroy_surface_effect:
  assumes "unmap_ok mp" and "translate_ok mp" and "position (\<lambda>s. surface_id s = sid) (registry d) = Some i"
    and "sf = registry d ! i" and "sf_owner sf = pid" and "surface_live sf (su_mmu d)"
    and "accounted (base \<union> frames_of sf) (owner_cr3 sf) (su_mmu d)" and "base \<inter> frames_of sf = {}"
  shows "\<exists>d'. destroy_surface_for_pid mp pid sid d = Some (Ok (), d') \<and> registry d' = list_remove i (registry d) \<and>
    su_kernel d' = uncharge_surface pid (shmem_size sf) (su_kernel d) \<and> accounted base (owner_cr3 sf) (su_mmu d') \<and> same_regs (su_mmu d) (su_mmu d') \<and>
    (\<forall>q. user_page q \<longrightarrow> page_leaf (tables (su_mmu d')) (owner_cr3 sf) q =
       (if q \<in> pages_of sf then zero_entry else page_leaf (tables (su_mmu d)) (owner_cr3 sf) q))"
proof -
  let ?c = "owner_cr3 sf" and ?m = "su_mmu d" and ?n = "sf_pages sf" and ?f = "shmem_phys_addr sf"
  define s where "s = vma_addr sf div 4096"
  have pl: "vma_addr sf = s * 4096" "USER_ADDR_BASE \<le> s * 4096" "(s + ?n) * 4096 \<le> USER_ADDR_LIMIT" "?f + ?n * 4096 \<le> 2 ^ 64"
  proof -
    have "placed sf" using assms(6) by (simp add: surface_live_def)
    then show v: "vma_addr sf = s * 4096" and "?f + ?n * 4096 \<le> 2 ^ 64"
      using placed_pages(1) by (auto simp: s_def placed_def)
    then show "USER_ADDR_BASE \<le> s * 4096" "(s + ?n) * 4096 \<le> USER_ADDR_LIMIT"
      using \<open>placed sf\<close> unfolding placed_def by (simp_all add: add_mult_distrib)
  qed
  have lf: "page_leaf (tables ?m) ?c (s + j) = surface_entry (?f + j * 4096)" if "j < ?n" for j
    using that assms(6) by (simp add: surface_live_def s_def)
  have no: "\<not> owns (tables ?m) ?c (s + j)" if "j < ?n" for j
    using lf [OF that] by (simp add: owns_def surface_entry_def zero_entry_def)
  have good: "\<forall>j<?n. present (page_leaf (tables ?m) ?c (s + j)) \<and> pte_addr (page_leaf (tables ?m) ?c (s + j)) = ?f + j * 4096"
    using lf by (simp add: surface_entry_def)
  obtain m1 where m1: "unmap_surface_frames mp ?c (s * 4096) ?f ?n ?m = Some (Ok (), m1)" "accounted (base \<union> frames_of sf) ?c m1" "same_regs ?m m1"
    and lf1: "\<forall>q. user_page q \<longrightarrow> page_leaf (tables m1) ?c q = (if s \<le> q \<and> q < s + ?n then zero_entry else page_leaf (tables ?m) ?c q)"
    using unmap_surface_effect [OF assms(1,2,7) pl(2-4), OF no, simplified if_P [OF good]] by blast
  obtain m2 where m2: "free_backing ?f ?n m1 = Some m2" "accounted base ?c m2" "tables m2 = tables m1" "same_regs m1 m2"
    using free_backing_effect m1(2) assms(8) unfolding frames_of_def by blast
  have "destroy_surface_for_pid mp pid sid d = Some (Ok (), d\<lparr>su_mmu := m2, registry := list_remove i (registry d),
      su_kernel := uncharge_surface pid (shmem_size sf) (su_kernel d)\<rparr>)"
    using assms(3-5) m1(1) m2(1) pl(1) by (simp add: destroy_surface_for_pid_def Let_def)
  moreover have "same_regs ?m m2" using m1(3) m2(4) by (simp add: same_regs_def)
  ultimately show ?thesis using m2(2,3) lf1 by (auto simp: pages_of_def s_def)
qed

lemma mapped_live:
  assumes "surface_mapped sf m m'" and "placed sf"
  shows "surface_live sf m'"
proof -
  have "user_page (vma_addr sf div 4096 + i)" if "i < sf_pages sf" for i
    by (rule placed_pages(4) [OF assms(2)]) (use that in \<open>simp add: pages_of_def\<close>)
  then show ?thesis using assms by (simp add: surface_live_def surface_mapped_def)
qed


definition demo_root :: nat where "demo_root = 0x1000000"

definition demo_space :: mmu where
  "demo_space = (case clone_active_cr3 demo_mmu of Some (_, m) \<Rightarrow> m | None \<Rightarrow> demo_mmu)"

definition demo_surfaces :: surfaces where
  "demo_surfaces = \<lparr>su_kernel = boot_kernel\<lparr>sched := (sched boot_kernel)\<lparr>table := [(1, (new_process ''app'')\<lparr>user_cr3 := demo_root\<rparr>)]\<rparr>\<rparr>,
     su_mmu = demo_space, registry = [], next_surface_id = 1\<rparr>"

lemma demo_space_clone: "clone_active_cr3 demo_mmu = Some (Some demo_root, demo_space)"
  by (simp add: demo_space_def clone_active_cr3_def capture_shared_kernel_cr3_def demo_mmu_def user_alloc_frame_def demo_root_def
      user_alloc_contiguous_frames_def allocate_def demo_frames_def checked_mul_def checked_add_def PAGE_BYTES_def Let_def)

lemma demo_surfaces_facts:
  "accounted (in_use demo_mmu) demo_root (su_mmu demo_surfaces)" "limits_fine (su_kernel demo_surfaces)"
  "quota (su_kernel demo_surfaces) 1 = Some (0, 0, demo_root)"
proof -
  show "accounted (in_use demo_mmu) demo_root (su_mmu demo_surfaces)"
    using clone_effect [OF demo_mmu_facts(1,2)] demo_space_clone by (auto simp: demo_surfaces_def)
qed (auto simp: demo_surfaces_def limits_fine_def quota_def new_process_def new_usage_def default_ui_def split: if_splits)


end
