(* ===== verification/Mem_Object.thy ===== *)
theory Mem_Object
  imports Surface Cap_Tables
begin

section \<open>Memory objects\<close>

text \<open>
  \<^verbatim>\<open>kernel/src/mem_object.rs\<close>: physical memory behind a capability. Each object has its frames, its mappings and a reference
  count; the store maps the index of the capability's object to it. The state is the store with the scheduler (for quotas and root
  tables), the page tables and the capability table. \<open>drop_object\<close> is the destructor of an object, which runs wherever a value goes
  out of scope. \<open>None\<close> is a panic.
\<close>

record mem_object =
  mo_pages :: nat
  mo_flags :: "32 word"
  mo_owner :: nat
  mo_frames :: "nat list"
  mapped_vaddrs :: "(nat \<times> nat) list"
  mo_refs :: nat
  mo_destroyed :: bool

record mem_state =
  ms_kernel :: kernel
  ms_mmu :: mmu
  ms_caps :: cap_world
  ms_store :: "(nat, mem_object) btree_map"

fun free_frames :: "nat list \<Rightarrow> mmu \<Rightarrow> mmu option" where
  "free_frames [] m = Some m"
| "free_frames (f # fs) m = do { m1 \<leftarrow> user_free_frame (f - f mod 4096) m; free_frames fs m1 }"

definition drop_object :: "mem_object \<Rightarrow> mem_state \<Rightarrow> mem_state option" where
  "drop_object ob s = do {
     let k = uncharge_process_memory (mo_owner ob) (mo_pages ob * 4096) (ms_kernel s);
     m \<leftarrow> free_frames (mo_frames ob) (ms_mmu s);
     Some (s\<lparr>ms_kernel := k, ms_mmu := m\<rparr>)
   }"

text \<open>\<^verbatim>\<open>MemObject::new\<close> up to the missing frame or the last; the frames taken so far are returned in either case.\<close>

fun take_frames :: "nat \<Rightarrow> mmu \<Rightarrow> nat list option \<times> mmu" where
  "take_frames 0 m = (Some [], m)"
| "take_frames (Suc n) m =
     (case user_alloc_frame m of
        (None, m1) \<Rightarrow> (None, m1)
      | (Some f, m1) \<Rightarrow>
          (case take_frames n m1 of
             (None, m2) \<Rightarrow> (None, m2)
           | (Some fs, m2) \<Rightarrow> (Some (f # fs), m2)))"

definition mem_object_new :: "nat \<Rightarrow> 32 word \<Rightarrow> nat \<Rightarrow> mmu \<Rightarrow> (string, mem_object) result \<times> mmu" where
  "mem_object_new pages flags owner m =
     (case take_frames pages m of
        (None, m1) \<Rightarrow> (Err ''Out of physical frames'', m1)
      | (Some fs, m1) \<Rightarrow>
          (Ok \<lparr>mo_pages = pages, mo_flags = flags, mo_owner = owner, mo_frames = fs, mapped_vaddrs = [], mo_refs = 1,
               mo_destroyed = False\<rparr>, m1))"

definition refund :: "nat \<Rightarrow> nat \<Rightarrow> mem_state \<Rightarrow> mem_state" where
  "refund pid bytes s = s\<lparr>ms_kernel := uncharge_process_memory pid bytes (ms_kernel s)\<rparr>"

definition store_insert :: "nat \<Rightarrow> mem_object \<Rightarrow> mem_state \<Rightarrow> mem_state option" where
  "store_insert idx ob s = do {
     let s1 = s\<lparr>ms_store := bt_insert idx ob (ms_store s)\<rparr>;
     case bt_get (ms_store s) idx of None \<Rightarrow> Some s1 | Some old \<Rightarrow> drop_object old s1
   }"

definition mem_create :: "nat \<Rightarrow> 32 word \<Rightarrow> nat \<Rightarrow> mem_state \<Rightarrow> ((cap_error, cap_handle) result \<times> mem_state) option" where
  "mem_create pages flags pid s =
     (if pages = 0 \<or> 16384 < pages then Some (Err Invalid, s)
      else let bytes = pages * 4096 in
      case try_charge_process_memory pid bytes (ms_kernel s) of
        (Inl _, k) \<Rightarrow> Some (Err QuotaExceeded, s\<lparr>ms_kernel := k\<rparr>)
      | (Inr _, k) \<Rightarrow>
     (case mem_object_new pages flags pid (ms_mmu s) of
        (Inl _, m) \<Rightarrow> Some (Err Exhausted, refund pid bytes (s\<lparr>ms_kernel := k, ms_mmu := m\<rparr>))
      | (Inr ob, m) \<Rightarrow> do {
          let s1 = s\<lparr>ms_kernel := k, ms_mmu := m\<rparr>;
          (r, w) \<leftarrow> with_state (create_object KMemObject) (ms_caps s1);
          let s2 = s1\<lparr>ms_caps := w\<rparr>;
          case r of
            Inl e \<Rightarrow> do { s3 \<leftarrow> drop_object ob (refund pid bytes s2); Some (Err e, s3) }
          | Inr hd_cap \<Rightarrow> do {
              i \<leftarrow> read_state (object_identity hd_cap) w;
              case i of
                Inl e \<Rightarrow> do {
                  (_, w1) \<leftarrow> with_state (revoke hd_cap) w;
                  (_, w2) \<leftarrow> with_state (close hd_cap) w1;
                  s3 \<leftarrow> drop_object ob (refund pid bytes (s2\<lparr>ms_caps := w2\<rparr>));
                  Some (Err e, s3)
                }
              | Inr (_, idx) \<Rightarrow> do { s3 \<leftarrow> store_insert idx (ob\<lparr>mo_refs := 1\<rparr>) s2; Some (Ok hd_cap, s3) }
            }
        }))"

text \<open>The capability check and the lookup the other calls share.\<close>

definition find_object :: "cap_handle \<Rightarrow> rights list \<Rightarrow> mem_state \<Rightarrow> (cap_error, nat \<times> mem_object) result option" where
  "find_object hd_cap needs s =
     (case fold (\<lambda>need acc. do {
              a \<leftarrow> acc;
              case a of Inl e \<Rightarrow> Some (Err e) | Inr _ \<Rightarrow> read_state (check_rights hd_cap need) (ms_caps s) }) needs (Some (Ok ())) of
        None \<Rightarrow> None
      | Some (Inl e) \<Rightarrow> Some (Err e)
      | Some (Inr _) \<Rightarrow> do {
          i \<leftarrow> read_state (object_identity hd_cap) (ms_caps s);
          Some (case i of
                  Inl e \<Rightarrow> Err e
                | Inr (_, idx) \<Rightarrow> (case bt_get (ms_store s) idx of None \<Rightarrow> Err NotFound | Some ob \<Rightarrow> Ok (idx, ob)))
        })"

definition mem_destroy :: "cap_handle \<Rightarrow> mem_state \<Rightarrow> ((cap_error, unit) result \<times> mem_state) option" where
  "mem_destroy hd_cap s = do {
     c \<leftarrow> find_object hd_cap [128] s;
     case c of
       Inl e \<Rightarrow> Some (Err e, s)
     | Inr (idx, ob) \<Rightarrow> do {
         s1 \<leftarrow> (if mapped_vaddrs ob = [] \<and> mo_refs ob \<le> 1
                then do {
                  s1 \<leftarrow> drop_object ob (s\<lparr>ms_store := bt_remove idx (ms_store s)\<rparr>);
                  (_, w) \<leftarrow> with_state (revoke hd_cap) (ms_caps s1);
                  Some (s1\<lparr>ms_caps := w\<rparr>)
                }
                else Some (s\<lparr>ms_store := bt_insert idx (ob\<lparr>mo_destroyed := True, mo_refs := mo_refs ob - 1\<rparr>) (ms_store s)\<rparr>));
         (_, w) \<leftarrow> with_state (close hd_cap) (ms_caps s1);
         Some (Ok (), s1\<lparr>ms_caps := w\<rparr>)
       }
   }"

definition mem_dup :: "cap_handle \<Rightarrow> rights \<Rightarrow> mem_state \<Rightarrow> ((cap_error, cap_handle) result \<times> mem_state) option" where
  "mem_dup hd_cap req s = do {
     c \<leftarrow> find_object hd_cap [64] s;
     case c of
       Inl e \<Rightarrow> Some (Err e, s)
     | Inr (idx, ob) \<Rightarrow>
         if mo_destroyed ob then Some (Err Revoked, s)
         else do {
           (r, w) \<leftarrow> with_state (grant hd_cap req) (ms_caps s);
           case r of
             Inl e \<Rightarrow> Some (Err e, s\<lparr>ms_caps := w\<rparr>)
           | Inr h \<Rightarrow> Some (Ok h, s\<lparr>ms_caps := w,
               ms_store := bt_insert idx (ob\<lparr>mo_refs := saturating_add 64 (mo_refs ob) 1\<rparr>) (ms_store s)\<rparr>)
         }
   }"

text \<open>The pages of an object from number \<open>i\<close> on, each its own range; a failure takes the first \<open>i\<close> pages back.\<close>

fun unmap_first :: "mapper \<Rightarrow> nat \<Rightarrow> nat \<Rightarrow> nat list \<Rightarrow> mmu \<Rightarrow> mmu option" where
  "unmap_first mp cr3 vaddr [] m = Some m"
| "unmap_first mp cr3 vaddr (j # js) m = do {
     v \<leftarrow> checked_add 64 vaddr (j * 4096);
     (_, m1) \<leftarrow> unmap_user_phys_range_in_cr3 mp cr3 v 1 m;
     unmap_first mp cr3 vaddr js m1
   }"

fun map_object_pages :: "mapper \<Rightarrow> nat \<Rightarrow> nat \<Rightarrow> bool \<Rightarrow> nat \<Rightarrow> nat list \<Rightarrow> mmu \<Rightarrow> (bool \<times> mmu) option" where
  "map_object_pages mp cr3 vaddr wr i [] m = Some (True, m)"
| "map_object_pages mp cr3 vaddr wr i (f # fs) m = do {
     v \<leftarrow> checked_add 64 vaddr (i * 4096);
     (r, m1) \<leftarrow> map_user_phys_range_in_cr3 mp cr3 v f 1 wr m;
     case r of
       Inr _ \<Rightarrow> map_object_pages mp cr3 vaddr wr (i + 1) fs m1
     | Inl _ \<Rightarrow> do { m2 \<leftarrow> unmap_first mp cr3 vaddr [0..<i] m1; Some (False, m2) }
   }"

definition mem_map :: "mapper \<Rightarrow> cap_handle \<Rightarrow> nat \<Rightarrow> nat \<Rightarrow> bool \<Rightarrow> mem_state \<Rightarrow> ((cap_error, nat) result \<times> mem_state) option" where
  "mem_map mp hd_cap target_pid vaddr wr s = do {
     c \<leftarrow> find_object hd_cap (4 # (if wr then [2] else [])) s;
     case c of
       Inl e \<Rightarrow> Some (Err e, s)
     | Inr (idx, ob) \<Rightarrow>
         if mo_destroyed ob then Some (Err Revoked, s)
         else case bt_get (ktable (ms_kernel s)) target_pid of
           None \<Rightarrow> Some (Err NotFound, s)
         | Some p \<Rightarrow>
             if exited p \<or> reaped p \<or> user_cr3 p = 0 then Some (Err Invalid, s)
             else do {
               (ok, m) \<leftarrow> map_object_pages mp (user_cr3 p) vaddr wr 0 (mo_frames ob) (ms_mmu s);
               if \<not> ok then Some (Err Exhausted, s\<lparr>ms_mmu := m\<rparr>)
               else Some (Ok vaddr, s\<lparr>ms_mmu := m,
                 ms_store := bt_insert idx (ob\<lparr>mapped_vaddrs := mapped_vaddrs ob @ [(target_pid, vaddr)],
                                              mo_refs := saturating_add 64 (mo_refs ob) 1\<rparr>) (ms_store s)\<rparr>)
             }
   }"

definition mem_unmap :: "mapper \<Rightarrow> cap_handle \<Rightarrow> nat \<Rightarrow> nat \<Rightarrow> mem_state \<Rightarrow> ((cap_error, unit) result \<times> mem_state) option" where
  "mem_unmap mp hd_cap target_pid vaddr s = do {
     c \<leftarrow> find_object hd_cap [4] s;
     case c of
       Inl e \<Rightarrow> Some (Err e, s)
     | Inr (idx, ob) \<Rightarrow>
         (case position (\<lambda>x. x = (target_pid, vaddr)) (mapped_vaddrs ob) of
            None \<Rightarrow> Some (Err NotFound, s)
          | Some i \<Rightarrow> do {
              let ob1 = ob\<lparr>mapped_vaddrs := list_remove i (mapped_vaddrs ob), mo_refs := mo_refs ob - 1\<rparr>;
              m \<leftarrow> (case bt_get (ktable (ms_kernel s)) target_pid of
                      None \<Rightarrow> Some (ms_mmu s)
                    | Some p \<Rightarrow> if user_cr3 p \<noteq> 0 then unmap_first mp (user_cr3 p) vaddr [0..<mo_pages ob] (ms_mmu s) else Some (ms_mmu s));
              let s1 = s\<lparr>ms_mmu := m, ms_store := bt_insert idx ob1 (ms_store s)\<rparr>;
              if mo_destroyed ob1 \<and> mapped_vaddrs ob1 = [] \<and> mo_refs ob1 \<le> 1
              then do { s2 \<leftarrow> drop_object ob1 (s1\<lparr>ms_store := bt_remove idx (ms_store s1)\<rparr>); Some (Ok (), s2) }
              else Some (Ok (), s1)
            })
   }"

subsection \<open>What the calls do to the frames\<close>

text \<open>The pool holds page-aligned addresses only, as the boot regions it starts from do.\<close>

definition pool_aligned :: "mmu \<Rightarrow> bool" where
  "pool_aligned m \<longleftrightarrow>
     (\<forall>p. frame_alloc m = Some p \<longrightarrow> (\<forall>r\<in>set (regions p). fst r mod 4096 = 0) \<and> (\<forall>a\<in>set (recycled p). a mod 4096 = 0))"

lemma allocate_aligned:
  assumes "pool_aligned m" and "user_alloc_frame m = (Some f, m')"
  shows "f mod 4096 = 0" and "pool_aligned m'"
proof -
  obtain p p' where p: "frame_alloc m = Some p" "allocate 1 p = (Some f, p')" "frame_alloc m' = Some p'"
    using assms(2) by (auto simp: user_alloc_frame_def user_alloc_contiguous_frames_def split: option.splits prod.splits)
  from p(2) have "f mod 4096 = 0 \<and> pool_aligned m'"
  proof (cases rule: allocate_cases)
    case (reuse pre mid post)
    then have "f \<in> set (recycled p)" by simp
    then show ?thesis using reuse p(1,3) assms(1) by (auto simp: pool_aligned_def)
  next
    case (carve e pre post)
    then have "f mod 4096 = 0" using p(1) assms(1) by (auto simp: pool_aligned_def)
    then show ?thesis using carve p(1,3) assms(1) by (auto simp: pool_aligned_def PAGE_BYTES_def)
  qed
  then show "f mod 4096 = 0" "pool_aligned m'" by simp_all
qed

lemma take_frames_aligned:
  "pool_aligned m \<Longrightarrow> take_frames n m = (Some fs, m') \<Longrightarrow> \<forall>f\<in>set fs. f mod 4096 = 0"
proof (induction n arbitrary: m fs)
  case (Suc n)
  then obtain f m1 gs where f: "user_alloc_frame m = (Some f, m1)" "take_frames n m1 = (Some gs, m')" "fs = f # gs"
    by (auto split: prod.splits option.splits)
  note a = allocate_aligned [OF Suc.prems(1) f(1)]
  then show ?case using Suc.IH [OF a(2) f(2)] f(3) by simp
qed simp

lemma take_frames_effect:
  assumes "pool_fine m" and "take_frames n m = (r, m')"
  shows "\<exists>fs. pool_fine m' \<and> same_regs m m' \<and> distinct fs \<and> set fs \<inter> in_use m = {} \<and> in_use m' = in_use m \<union> set fs \<and>
    (case r of None \<Rightarrow> length fs < n | Some gs \<Rightarrow> gs = fs \<and> length fs = n)"
  using assms
proof (induction n arbitrary: m r)
  case 0
  then show ?case by (intro exI [of _ "[]"]) (auto simp: same_regs_def)
next
  case (Suc n)
  show ?case
  proof (cases "user_alloc_frame m")
    case (Pair a m1)
    show ?thesis
    proof (cases a)
      case None
      then have "m' = m" "r = None" using Pair Suc.prems alloc_effect_None [of m m1] by auto
      then show ?thesis using Suc.prems(1) by (intro exI [of _ "[]"]) (auto simp: same_regs_def)
    next
      case (Some f)
      note e = alloc_effect_Some [OF Suc.prems(1) Pair [unfolded Some]]
      obtain r1 where r1: "take_frames n m1 = (r1, m')" "r = map_option ((#) f) r1"
        using Suc.prems(2) Pair Some by (auto split: prod.splits option.splits)
      obtain fs where fs: "pool_fine m'" "same_regs m1 m'" "distinct fs" "set fs \<inter> in_use m1 = {}" "in_use m' = in_use m1 \<union> set fs"
        "case r1 of None \<Rightarrow> length fs < n | Some gs \<Rightarrow> gs = fs \<and> length fs = n"
        using Suc.IH [OF e(3) r1(1)] by (elim exE conjE) (rule that)
      have "f \<notin> set fs" "set fs \<inter> in_use m = {}" using fs(4) e(2) by auto
      then show ?thesis using e fs r1(2)
        by (intro exI [of _ "f # fs"]) (auto simp: same_regs_def split: option.splits)
    qed
  qed
qed

lemma free_frames_effect:
  assumes "pool_fine m" and "\<forall>f\<in>set fs. f mod 4096 = 0"
  shows "\<exists>m'. free_frames fs m = Some m' \<and> pool_fine m' \<and> same_regs m m' \<and> in_use m' = in_use m - set fs"
  using assms
proof (induction fs arbitrary: m)
  case Nil
  then show ?case by (simp add: same_regs_def)
next
  case (Cons f fs)
  obtain m1 where m1: "user_free_frame f m = Some m1" "pool_fine m1" "same_regs m m1" "in_use m1 = in_use m - {f}"
    using user_free_frame_effect [OF Cons.prems(1), of f] by blast
  from Cons.IH [OF m1(2)] Cons.prems(2) obtain m' where m': "free_frames fs m1 = Some m'" "pool_fine m'" "same_regs m1 m'"
    "in_use m' = in_use m1 - set fs" by auto
  then show ?case using m1 Cons.prems(2) by (auto simp: same_regs_def)
qed

lemma drop_object_effect:
  assumes "pool_fine (ms_mmu s)" and "\<forall>f\<in>set (mo_frames ob). f mod 4096 = 0"
  shows "\<exists>m. drop_object ob s = Some (s\<lparr>ms_kernel := uncharge_process_memory (mo_owner ob) (mo_pages ob * 4096) (ms_kernel s), ms_mmu := m\<rparr>) \<and>
    pool_fine m \<and> in_use m = in_use (ms_mmu s) - set (mo_frames ob)"
  using free_frames_effect [OF assms] by (auto simp: drop_object_def Let_def)

lemma charge_effect:
  assumes "limits_fine k" and "bt_get (ktable k) pid \<noteq> None" and "try_charge_process_memory pid b k = (Ok (), k')"
  shows "\<exists>mem n c. quota k pid = Some (mem, n, c) \<and> quota k' = (quota k)(pid \<mapsto> (mem + b, n, c))"
proof -
  obtain p where p: "bt_get (ktable k) pid = Some p" using assms(2) by blast
  have lim: "max_memory_bytes (limits p) < 2 ^ 64 - 1" using assms(1) p by (auto simp: limits_fine_def)
  obtain q where q: "try_charge_memory b p = Ok q" "k' = upd_k pid (\<lambda>_. q) k"
    using assms(3) p by (auto simp: try_charge_process_memory_def split: sum.splits)
  have "current_memory_bytes (usage p) + b < 2 ^ 64"
    using q(1) lim by (auto simp: try_charge_memory_def saturating_add_def Let_def min_def split: if_splits)
  then have "current_memory_bytes (usage q) = current_memory_bytes (usage p) + b"
    "surface_count (usage q) = surface_count (usage p)" "user_cr3 q = user_cr3 p"
    using q by (auto simp: try_charge_memory_def saturating_add_def Let_def split: if_splits)
  then show ?thesis using p q by (auto simp: quota_def map_of_upd fun_eq_iff)
qed

lemma uncharge_effect:
  assumes "quota k pid = Some (mem, n, c)"
  shows "quota (uncharge_process_memory pid b k) = (quota k)(pid \<mapsto> (mem - b, n, c))"
  using assms by (auto simp: quota_def map_of_upd fun_eq_iff uncharge_process_memory_def uncharge_memory_def)

text \<open>The store names objects of the capability table only.\<close>

definition store_known :: "mem_state \<Rightarrow> bool" where
  "store_known s \<longleftrightarrow> (\<forall>c i. w_state (ms_caps s) = Some c \<longrightarrow> bt_get (ms_store s) i \<noteq> None \<longrightarrow> i < length (objects c))"

definition mem_fine :: "mem_state \<Rightarrow> bool" where
  "mem_fine s \<longleftrightarrow> pool_fine (ms_mmu s) \<and> pool_aligned (ms_mmu s) \<and> limits_fine (ms_kernel s) \<and> world_valid (ms_caps s) \<and>
     bt_ok (ms_store s) \<and> store_known s"

lemma create_object_index:
  assumes "with_state (create_object kind) w = Some (Ok h, w')" and "world_valid w"
  shows "\<exists>c t. w_state w = Some c \<and> w_state w' = Some t \<and> cap_ok t \<and> carries w' h rights_all \<and>
    object_identity h t = Some (Ok (kind, length (objects c)))"
proof -
  from assms obtain s t where s: "w_state w = Some s" "cap_ok s" "create_object kind s = Some (Ok h, t)" "w' = w\<lparr>w_state := Some t\<rparr>"
    by (auto simp: world_valid_def with_state_Some)
  let ?s1 = "s\<lparr>objects := objects s @ [\<lparr>o_kind = kind, o_refcount = 0, o_gen = 1, o_valid = True\<rparr>]\<rparr>"
  have i: "install_cap None (length (objects s)) rights_all False ?s1 = (Ok h, t)"
    using s(3) by (auto simp: create_object_def split: if_splits)
  have ca: "carries w' h rights_all" using create_carries [OF assms] by simp
  then have "cap_ok t" using s(4) by (simp add: carries_def)
  moreover have "object_identity h t = Some (Ok (kind, length (objects s)))"
    using ca s(4) install_cap_Ok [OF i] by (auto simp: carries_def object_identity_Ok)
  ultimately show ?thesis using s ca by auto
qed

lemma mem_create_effect:
  assumes "mem_fine s" and "bt_get (ktable (ms_kernel s)) pid \<noteq> None" and "mem_create pages flags pid s = Some (Ok h, s1)"
  shows "\<exists>idx fs mem n c t. s1 = s\<lparr>ms_kernel := ms_kernel s1, ms_mmu := ms_mmu s1, ms_caps := ms_caps s1,
        ms_store := bt_insert idx \<lparr>mo_pages = pages, mo_flags = flags, mo_owner = pid, mo_frames = fs, mapped_vaddrs = [], mo_refs = 1,
          mo_destroyed = False\<rparr> (ms_store s)\<rparr> \<and>
      bt_get (ms_store s) idx = None \<and> distinct fs \<and> length fs = pages \<and> (\<forall>f\<in>set fs. f mod 4096 = 0) \<and>
      set fs \<inter> in_use (ms_mmu s) = {} \<and> in_use (ms_mmu s1) = in_use (ms_mmu s) \<union> set fs \<and> pool_fine (ms_mmu s1) \<and>
      quota (ms_kernel s) pid = Some (mem, n, c) \<and> quota (ms_kernel s1) = (quota (ms_kernel s))(pid \<mapsto> (mem + pages * 4096, n, c)) \<and>
      w_state (ms_caps s1) = Some t \<and> cap_ok t \<and> carries (ms_caps s1) h rights_all \<and> object_identity h t = Some (Ok (KMemObject, idx)) \<and>
      0 < pages \<and> pages \<le> 16384"
proof -
  have range: "0 < pages" "pages \<le> 16384" using assms(3) by (auto simp: mem_create_def split: if_splits)
  obtain rc k where k: "try_charge_process_memory pid (pages * 4096) (ms_kernel s) = (rc, k)" by fastforce
  obtain ro m where m: "take_frames pages (ms_mmu s) = (ro, m)" by fastforce
  have rc: "rc = Ok ()" using assms(3) range k by (cases rc) (auto simp: mem_create_def)
  obtain fs where fs: "ro = Some fs" using assms(3) range k rc m by (cases ro) (auto simp: mem_create_def mem_object_new_def)
  obtain r w where w: "with_state (create_object KMemObject) (ms_caps s) = Some (r, w)"
    using assms(3) range k rc m fs by (auto simp: mem_create_def mem_object_new_def Let_def split: bind_splits)
  have r: "r = Ok h"
    using assms(3) range k rc m fs w
    by (cases r) (auto simp: mem_create_def mem_object_new_def Let_def split: bind_splits sum.splits prod.splits)
  obtain c t where t: "w_state (ms_caps s) = Some c" "w_state w = Some t" "cap_ok t" "carries w h rights_all"
    "object_identity h t = Some (Ok (KMemObject, length (objects c)))"
    using create_object_index [OF w [unfolded r]] assms(1) by (auto simp: mem_fine_def)
  have new: "bt_get (ms_store s) (length (objects c)) = None"
    using assms(1) t(1) by (auto simp: mem_fine_def store_known_def)
  have s1: "s1 = s\<lparr>ms_kernel := k, ms_mmu := m, ms_caps := w, ms_store := bt_insert (length (objects c))
      \<lparr>mo_pages = pages, mo_flags = flags, mo_owner = pid, mo_frames = fs, mapped_vaddrs = [], mo_refs = 1, mo_destroyed = False\<rparr> (ms_store s)\<rparr>"
    using assms(3) range k rc m fs w r t new
    by (simp add: mem_create_def mem_object_new_def Let_def read_state_def store_insert_def)
  have pf: "pool_fine (ms_mmu s)" "pool_aligned (ms_mmu s)" "limits_fine (ms_kernel s)" using assms(1) by (simp_all add: mem_fine_def)
  from take_frames_effect [OF pf(1) m] fs have "pool_fine m" "distinct fs" "set fs \<inter> in_use (ms_mmu s) = {}"
    "in_use m = in_use (ms_mmu s) \<union> set fs" "length fs = pages" by auto
  moreover have "\<forall>f\<in>set fs. f mod 4096 = 0" using take_frames_aligned [OF pf(2)] m fs by blast
  moreover note charge_effect [OF pf(3) assms(2) k [unfolded rc]]
  ultimately show ?thesis using range t new s1 by auto
qed

text \<open>
  C24. A memory object takes as many frames as it has pages, none of them in use before, and charges them to its owner; destroying
  its only handle before it is mapped gives all of them back: the frames in use, the charge of every process and the store are what
  they were before the object was made.
\<close>

theorem mem_object_round_trip:
  assumes "mem_fine s" and "bt_get (ktable (ms_kernel s)) pid \<noteq> None" and "mem_create pages flags pid s = Some (Ok h, s1)"
    and "\<forall>t. w_state (ms_caps s1) = Some t \<longrightarrow> (\<forall>sl\<in>set (slots t). s_gen sl + 1 < 2 ^ 32)"
  shows "(\<exists>fs mem n c. length fs = pages \<and> distinct fs \<and> set fs \<inter> in_use (ms_mmu s) = {} \<and>
        in_use (ms_mmu s1) = in_use (ms_mmu s) \<union> set fs \<and> quota (ms_kernel s) pid = Some (mem, n, c) \<and>
        quota (ms_kernel s1) pid = Some (mem + pages * 4096, n, c)) \<and>
      (\<exists>s2. mem_destroy h s1 = Some (Ok (), s2) \<and> in_use (ms_mmu s2) = in_use (ms_mmu s) \<and>
        quota (ms_kernel s2) = quota (ms_kernel s) \<and> bt_get (ms_store s2) = bt_get (ms_store s))"
proof -
  from mem_create_effect [OF assms(1-3)] obtain idx fs mem n c t where e:
    "s1 = s\<lparr>ms_kernel := ms_kernel s1, ms_mmu := ms_mmu s1, ms_caps := ms_caps s1,
        ms_store := bt_insert idx \<lparr>mo_pages = pages, mo_flags = flags, mo_owner = pid, mo_frames = fs, mapped_vaddrs = [], mo_refs = 1,
          mo_destroyed = False\<rparr> (ms_store s)\<rparr>"
    "bt_get (ms_store s) idx = None" "distinct fs" "length fs = pages" "\<forall>f\<in>set fs. f mod 4096 = 0"
    "set fs \<inter> in_use (ms_mmu s) = {}" "in_use (ms_mmu s1) = in_use (ms_mmu s) \<union> set fs" "pool_fine (ms_mmu s1)"
    "quota (ms_kernel s) pid = Some (mem, n, c)" "quota (ms_kernel s1) = (quota (ms_kernel s))(pid \<mapsto> (mem + pages * 4096, n, c))"
    "w_state (ms_caps s1) = Some t" "cap_ok t" "carries (ms_caps s1) h rights_all" "object_identity h t = Some (Ok (KMemObject, idx))"
    by (elim exE conjE) (rule that)
  define ob where "ob = \<lparr>mo_pages = pages, mo_flags = flags, mo_owner = pid, mo_frames = fs, mapped_vaddrs = [], mo_refs = 1,
          mo_destroyed = False\<rparr>"
  have ob: "mapped_vaddrs ob = []" "mo_refs ob = 1" "mo_frames ob = fs" "mo_owner ob = pid" "mo_pages ob = pages" by (simp_all add: ob_def)
  have bt: "bt_ok (ms_store s)" using assms(1) by (simp add: mem_fine_def)
  have st: "ms_store s1 = bt_insert idx ob (ms_store s)" using e(1) ob_def by (metis mem_state.select_convs(4) mem_state.surjective mem_state.update_convs(4))
  have find: "find_object h [128] s1 = Some (Ok (idx, ob))"
    using carries_check [OF e(13), of 128] e(11,14) st bt
    by (simp add: find_object_def read_state_def rights_contains_def rights_all_def)
  let ?s1 = "s1\<lparr>ms_store := bt_remove idx (ms_store s1)\<rparr>"
  obtain m where m: "drop_object ob ?s1 = Some (?s1\<lparr>ms_kernel := uncharge_process_memory pid (pages * 4096) (ms_kernel s1), ms_mmu := m\<rparr>)"
    "in_use m = in_use (ms_mmu s1) - set fs"
    using drop_object_effect [of ?s1 ob] e(5,8) ob by auto
  obtain rr t1 where t1: "revoke h t = Some (rr, t1)" using revoke_returns [OF e(12)] by blast
  have "slots t1 = slots t" using t1 by (auto simp: revoke_def Let_def split: option.splits if_splits)
  then obtain rcl t2 where t2: "close h t1 = Some (rcl, t2)" using close_returns [of t1 h] assms(4) e(11) by auto
  have "quota (uncharge_process_memory pid (pages * 4096) (ms_kernel s1)) = quota (ms_kernel s)"
    using uncharge_effect [of "ms_kernel s1" pid "mem + pages * 4096" n c "pages * 4096"] e(9,10) by (simp add: fun_upd_idem)
  moreover have "bt_get (bt_remove idx (ms_store s1)) = bt_get (ms_store s)"
    using st bt e(2) by (simp add: fun_eq_iff)
  ultimately have "\<exists>s2. mem_destroy h s1 = Some (Ok (), s2) \<and> in_use (ms_mmu s2) = in_use (ms_mmu s) \<and>
        quota (ms_kernel s2) = quota (ms_kernel s) \<and> bt_get (ms_store s2) = bt_get (ms_store s)"
    using find m t1 t2 e(6,7,11) ob by (auto simp: mem_destroy_def with_state_def fun_upd_def)
  then show ?thesis using e(3,4,6,7,9,10) by (metis fun_upd_same)
qed

definition demo_mem :: mem_state where
  "demo_mem = \<lparr>ms_kernel = su_kernel demo_surfaces, ms_mmu = demo_mmu, ms_caps = init_world, ms_store = []\<rparr>"

lemma demo_mem_fine: "mem_fine demo_mem"
  using demo_mmu_facts demo_surfaces_facts init_world_valid
  by (auto simp: mem_fine_def demo_mem_def pool_aligned_def demo_mmu_def demo_frames_def store_known_def bt_ok_def)

lemma demo_mem_parts:
  "\<exists>k. try_charge_process_memory 1 8192 (su_kernel demo_surfaces) = (Ok (), k)"
  "\<exists>fs m. take_frames 2 demo_mmu = (Some fs, m)"
  "create_object KMemObject init_core = Some (Ok (handle 0 1),
     \<lparr>slots = [seed_slot 0 0 rights_all], nodes = [seed_node None], objects = [seed_object KMemObject]\<rparr>)"
proof -
  show "\<exists>k. try_charge_process_memory 1 8192 (su_kernel demo_surfaces) = (Ok (), k)"
    by (simp add: demo_surfaces_def try_charge_process_memory_def try_charge_memory_def new_process_def new_usage_def default_ui_def
        saturating_add_def Let_def)
  have "\<exists>fs m. take_frames (Suc (Suc 0)) demo_mmu = (Some fs, m)"
    by (simp add: demo_mmu_def user_alloc_frame_def user_alloc_contiguous_frames_def allocate_def demo_frames_def
        checked_mul_def checked_add_def PAGE_BYTES_def)
  then show "\<exists>fs m. take_frames 2 demo_mmu = (Some fs, m)" by (simp only: numeral_2_eq_2)
  show "create_object KMemObject init_core = Some (Ok (handle 0 1),
     \<lparr>slots = [seed_slot 0 0 rights_all], nodes = [seed_node None], objects = [seed_object KMemObject]\<rparr>)"
    by code_simp
qed

lemma demo_mem_create: "\<exists>s1. mem_create 2 3 1 demo_mem = Some (Ok (handle 0 1), s1) \<and>
    (\<forall>t. w_state (ms_caps s1) = Some t \<longrightarrow> (\<forall>sl\<in>set (slots t). s_gen sl + 1 < 2 ^ 32))"
proof -
  let ?t = "\<lparr>slots = [seed_slot 0 0 rights_all], nodes = [seed_node None], objects = [seed_object KMemObject]\<rparr>"
  obtain k fs m where p: "try_charge_process_memory 1 8192 (su_kernel demo_surfaces) = (Ok (), k)" "take_frames 2 demo_mmu = (Some fs, m)"
    using demo_mem_parts by blast
  have c: "with_state (create_object KMemObject) init_world = Some (Ok (handle 0 1), init_world\<lparr>w_state := Some ?t\<rparr>)"
    using demo_mem_parts(3) by (simp add: with_state_def)
  have i: "object_identity (handle 0 1) ?t = Some (Ok (KMemObject, 0))" by code_simp
  show ?thesis
    using p c i by (simp add: mem_create_def demo_mem_def mem_object_new_def Let_def read_state_def store_insert_def seed_slot_def)
qed

theorem mem_object_round_trip_witness:
  "\<exists>s1 s2. mem_create 2 3 1 demo_mem = Some (Ok (handle 0 1), s1) \<and> mem_destroy (handle 0 1) s1 = Some (Ok (), s2) \<and>
     card (in_use (ms_mmu s1)) = 2 \<and> in_use (ms_mmu s2) = {}"
proof -
  have e: "in_use (ms_mmu demo_mem) = {}" "bt_get (ktable (ms_kernel demo_mem)) 1 \<noteq> None"
    by (simp_all add: demo_mem_def in_use_def demo_mmu_def demo_frames_def demo_surfaces_def)
  obtain s1 where s1: "mem_create 2 3 1 demo_mem = Some (Ok (handle 0 1), s1)"
    "\<forall>t. w_state (ms_caps s1) = Some t \<longrightarrow> (\<forall>sl\<in>set (slots t). s_gen sl + 1 < 2 ^ 32)"
    using demo_mem_create by blast
  show ?thesis using mem_object_round_trip [OF demo_mem_fine e(2) s1] s1(1) e(1) by (auto simp: distinct_card)
qed

text \<open>
  When the capability table is full the frames come back but the charge is returned twice, once by the call and once by the
  destructor of the object: the process ends with a smaller charge than it had.
\<close>

theorem failed_create_refunds_twice:
  assumes "mem_fine s" and "quota (ms_kernel s) pid = Some (mem, n, c)" and "0 < pages" and "pages \<le> 16384"
    and "try_charge_process_memory pid (pages * 4096) (ms_kernel s) = (Ok (), k)"
    and "take_frames pages (ms_mmu s) = (Some fs, m)"
    and "with_state (create_object KMemObject) (ms_caps s) = Some (Err e, w)"
  shows "\<exists>s1. mem_create pages flags pid s = Some (Err e, s1) \<and> in_use (ms_mmu s1) = in_use (ms_mmu s) \<and>
    quota (ms_kernel s1) pid = Some (mem - pages * 4096, n, c)"
proof -
  have pf: "pool_fine (ms_mmu s)" "pool_aligned (ms_mmu s)" "limits_fine (ms_kernel s)" using assms(1) by (simp_all add: mem_fine_def)
  have f: "pool_fine m" "set fs \<inter> in_use (ms_mmu s) = {}" "in_use m = in_use (ms_mmu s) \<union> set fs"
    using take_frames_effect [OF pf(1) assms(6)] by auto
  have p: "bt_get (ktable (ms_kernel s)) pid \<noteq> None" using assms(2) by (auto simp: quota_def)
  have k: "quota k pid = Some (mem + pages * 4096, n, c)" using charge_effect [OF pf(3) p assms(5)] assms(2) by auto
  let ?ob = "\<lparr>mo_pages = pages, mo_flags = flags, mo_owner = pid, mo_frames = fs, mapped_vaddrs = [], mo_refs = 1, mo_destroyed = False\<rparr>"
  let ?s = "refund pid (pages * 4096) (s\<lparr>ms_kernel := k, ms_mmu := m, ms_caps := w\<rparr>)"
  obtain m' where m': "drop_object ?ob ?s = Some (?s\<lparr>ms_kernel := uncharge_process_memory pid (pages * 4096) (ms_kernel ?s), ms_mmu := m'\<rparr>)"
    "in_use m' = in_use m - set fs"
    using drop_object_effect [of ?s ?ob] take_frames_aligned [OF pf(2) assms(6)] f(1) by (auto simp: refund_def)
  have "quota (uncharge_process_memory pid (pages * 4096) (ms_kernel ?s)) pid = Some (mem - pages * 4096, n, c)"
    using uncharge_effect [OF k] by (simp add: refund_def uncharge_effect)
  moreover have "in_use m' = in_use (ms_mmu s)" using m'(2) f(2,3) by auto
  ultimately show ?thesis using m'(1) assms(3-7) by (simp add: mem_create_def mem_object_new_def Let_def)
qed

text \<open>When the frames run out, those taken so far stay allocated: no object owns them.\<close>

theorem failed_create_keeps_frames:
  assumes "mem_fine s" and "0 < pages" and "pages \<le> 16384"
    and "try_charge_process_memory pid (pages * 4096) (ms_kernel s) = (Ok (), k)"
    and "take_frames pages (ms_mmu s) = (None, m)"
  shows "\<exists>s1 fs. mem_create pages flags pid s = Some (Err Exhausted, s1) \<and> ms_store s1 = ms_store s \<and>
    in_use (ms_mmu s1) = in_use (ms_mmu s) \<union> set fs \<and> set fs \<inter> in_use (ms_mmu s) = {} \<and> length fs < pages"
proof -
  have pf: "pool_fine (ms_mmu s)" using assms(1) by (simp add: mem_fine_def)
  obtain fs where "in_use m = in_use (ms_mmu s) \<union> set fs" "set fs \<inter> in_use (ms_mmu s) = {}" "length fs < pages"
    using take_frames_effect [OF pf assms(5)] by auto
  then show ?thesis using assms(2-5) by (auto simp: mem_create_def mem_object_new_def refund_def Let_def)
qed

end
