(* ===== verification/Spawn.thy ===== *)
theory Spawn
  imports Exec_Space Cap_Tables Elf_Loader
begin

section \<open>Starting user processes\<close>

text \<open>
  How \<^verbatim>\<open>kernel/src/task/process.rs\<close> makes user processes: the entry in the process table with its seeded capabilities
  (\<^verbatim>\<open>create_user_process_with_caps\<close>), loading an ELF image into a new address space (\<^verbatim>\<open>exec_elf_proc\<close>), and \<^verbatim>\<open>fork_current\<close>. The state is
  the scheduler, the page tables and the capability table. The selectors of the descriptor table are arguments. The saved kernel
  registers, the kernel stack, the list of process names for the shell and the trace are left out. The bytes of a segment are
  written to the pages that were just mapped and change no state of this model.
\<close>

record machine =
  mc_kernel :: kernel
  mc_mmu :: mmu
  mc_caps :: cap_world

definition PF_W :: "32 word" where "PF_W = 2"

definition create_user_process_with_caps ::
    "nat \<Rightarrow> string \<Rightarrow> nat \<Rightarrow> nat \<Rightarrow> nat \<Rightarrow> nat \<Rightarrow> nat \<Rightarrow> cap_tbl \<Rightarrow> machine \<Rightarrow> (nat \<times> machine) option" where
  "create_user_process_with_caps cpu name rip rsp cr3 cs ss extra s = do {
     let (pid, k1) = insert_process cpu name (mc_kernel s);
     p \<leftarrow> bt_get (ktable k1) pid;
     (_, tbl, w) \<leftarrow> seed_new_process (cap_table p) (mc_caps s);
     let k2 = upd_k pid (\<lambda>p. p\<lparr>is_user := True, pstate := Ready, user_rip := rip, user_rsp := rsp, user_cr3 := cr3,
                               user_cs := cs, user_ss := ss, cap_table := tbl @ extra\<rparr>) k1;
     Some (pid, s\<lparr>mc_kernel := push_ready pid k2, mc_caps := w\<rparr>)
   }"

definition create_user_process ::
    "nat \<Rightarrow> string \<Rightarrow> nat \<Rightarrow> nat \<Rightarrow> nat \<Rightarrow> nat \<Rightarrow> nat \<Rightarrow> machine \<Rightarrow> (nat \<times> machine) option" where
  "create_user_process cpu name rip rsp cr3 cs ss s = create_user_process_with_caps cpu name rip rsp cr3 cs ss [] s"

fun elf_message :: "elf_error \<Rightarrow> string" where
  "elf_message FileTooSmall = ''File too small to be ELF''"
| "elf_message InvalidMagic = ''Invalid ELF magic''"
| "elf_message Not64Bit = ''Not a 64-bit ELF''"
| "elf_message NotLittleEndian = ''Not Little Endian ELF''"
| "elf_message NotExecutable = ''Not an executable ELF''"
| "elf_message InvalidMachine = ''Not an x86-64 ELF''"
| "elf_message HeadersOutOfBounds = ''Program headers out of bounds''"
| "elf_message SegmentOutOfBounds = ''Segment data out of bounds''"
| "elf_message InvalidSegmentBounds = ''Invalid segment memory bounds''"
| "elf_message KernelAddressViolation = ''Segment touches kernel address space''"
| "elf_message OverlappingSegments = ''Overlapping ELF segments''"
| "elf_message InvalidEntryPoint = ''Invalid ELF entry point''"
| "elf_message NoLoadableSegments = ''No loadable segments found''"
| "elf_message ImageTooLarge = ''ELF image exceeds load budget''"
| "elf_message OutOfMemory = ''Insufficient memory for ELF image''"

definition segment_regions :: "elf_file \<Rightarrow> (nat \<times> nat \<times> bool) list" where
  "segment_regions f = map (\<lambda>s. (vaddr s, memsz s, (seg_flags s AND PF_W) \<noteq> 0)) (segments f)"

definition exec_elf_proc ::
    "mapper \<Rightarrow> (nat \<Rightarrow> bool) \<Rightarrow> nat \<Rightarrow> nat \<Rightarrow> nat \<Rightarrow> string \<Rightarrow> byte list \<Rightarrow> machine \<Rightarrow> ((string, nat) result \<times> machine) option" where
  "exec_elf_proc mp heap cpu cs ss name bytes s =
     (case parse_elf heap bytes of
        Err e \<Rightarrow> Some (Err (elf_message e), s)
      | Ok f \<Rightarrow> do {
          (r, m) \<leftarrow> exec_address_space mp (segment_regions f) (mc_mmu s);
          case r of
            Inl e \<Rightarrow> Some (Err e, s\<lparr>mc_mmu := m\<rparr>)
          | Inr cr3 \<Rightarrow> do {
              (pid, s1) \<leftarrow> create_user_process cpu name (entry_point f) USER_STACK_TOP cr3 cs ss (s\<lparr>mc_mmu := m\<rparr>);
              Some (Ok pid, s1)
            }
        })"

text \<open>\<open>None\<close> inside stands for the return value -1.\<close>

definition fork_current :: "nat \<Rightarrow> machine \<Rightarrow> (nat option \<times> machine) option" where
  "fork_current cpu s =
     (case cur_of cpu (mc_kernel s) of
        None \<Rightarrow> Some (None, s)
      | Some cur \<Rightarrow>
          if cur = 0 then Some (None, s)
          else case bt_get (ktable (mc_kernel s)) cur of
            None \<Rightarrow> Some (None, s)
          | Some p \<Rightarrow>
              if \<not> is_user p then Some (None, s)
              else do {
                (c, m) \<leftarrow> clone_active_cr3 (mc_mmu s);
                let child_cr3 = (case c of None \<Rightarrow> 0 | Some a \<Rightarrow> a);
                let pid = next_pid (mc_kernel s);
                let k1 = (mc_kernel s)\<lparr>next_pid := wrapping_add 64 pid 1\<rparr>;
                let np = (new_process (pname p @ ''_f''))\<lparr>p_pid := pid, is_user := True, pstate := Ready, user_rip := user_rip p,
                           user_rsp := user_rsp p, user_cr3 := child_cr3, user_cs := user_cs p, user_ss := user_ss p\<rparr>;
                (_, tbl, w) \<leftarrow> seed_new_process (cap_table np) (mc_caps s);
                let k2 = k1\<lparr>sched := (sched k1)\<lparr>table := bt_insert pid (np\<lparr>cap_table := tbl\<rparr>) (ktable k1)\<rparr>\<rparr>;
                Some (Some pid, s\<lparr>mc_kernel := push_ready pid k2, mc_mmu := m, mc_caps := w\<rparr>)
              })"

subsection \<open>The pages of the program\<close>

definition region_mapped :: "nat \<Rightarrow> mmu \<Rightarrow> nat \<times> nat \<times> bool \<Rightarrow> bool" where
  "region_mapped cr3 m seg \<longleftrightarrow> (case seg of (v, l, wr) \<Rightarrow> \<forall>a. v \<le> a \<and> a < v + max l 1 \<longrightarrow> user_page (containing_page a) \<and>
     (\<exists>f. page_leaf (tables m) cr3 (containing_page a) = leaf_entry (containing_page a * 4096) wr True f))"

lemma leaf_entry_used: "\<not> is_unused (leaf_entry v wr own f)"
  by (simp add: is_unused_def leaf_entry_def zero_entry_def)

lemma region_kept:
  assumes "region_mapped cr3 m seg"
    and "\<And>q. user_page q \<Longrightarrow> \<not> is_unused (page_leaf (tables m) cr3 q) \<Longrightarrow> page_leaf (tables m') cr3 q = page_leaf (tables m) cr3 q"
  shows "region_mapped cr3 m' seg"
  unfolding region_mapped_def
proof (clarify, intro conjI)
  fix v l wr a assume s: "seg = (v, l, wr)" "v \<le> a" "a < v + max l 1"
  then obtain f where u: "user_page (containing_page a)"
    and f: "page_leaf (tables m) cr3 (containing_page a) = leaf_entry (containing_page a * 4096) wr True f"
    using assms(1) unfolding region_mapped_def by blast
  show "user_page (containing_page a)" by (rule u)
  have "\<not> is_unused (page_leaf (tables m) cr3 (containing_page a))" unfolding f by (rule leaf_entry_used)
  then show "\<exists>f. page_leaf (tables m') cr3 (containing_page a) = leaf_entry (containing_page a * 4096) wr True f"
    using assms(2) [OF u] f by metis
qed

lemma map_region_pages:
  assumes "map_to_ok mp" and "unmap_ok mp" and "accounted base cr3 m"
    and "map_user_region_in_cr3 mp cr3 v l wr m = Some (Ok x, m')"
  shows "region_mapped cr3 m' (v, l, wr)" and "accounted base cr3 m'" and "same_regs m m'"
    and "\<And>q. user_page q \<Longrightarrow> \<not> is_unused (page_leaf (tables m) cr3 q) \<Longrightarrow> page_leaf (tables m') cr3 q = page_leaf (tables m) cr3 q"
proof -
  have e: "accounted base cr3 m'" "same_regs m m'" "USER_ADDR_BASE \<le> v" "v + max l 1 \<le> USER_ADDR_LIMIT"
    and lf: "\<forall>q. user_page q \<longrightarrow> (if \<exists>a. v \<le> a \<and> a < v + max l 1 \<and> q = containing_page a
        then is_unused (page_leaf (tables m) cr3 q) \<and> (\<exists>f. page_leaf (tables m') cr3 q = leaf_entry (q * 4096) wr True f)
        else page_leaf (tables m') cr3 q = page_leaf (tables m) cr3 q)"
    using map_region_effect [OF assms(1-3), of v l wr] unfolding assms(4) by auto
  show "accounted base cr3 m'" "same_regs m m'" by (fact e)+
  show "page_leaf (tables m') cr3 q = page_leaf (tables m) cr3 q" if "user_page q" "\<not> is_unused (page_leaf (tables m) cr3 q)" for q
    using lf [rule_format, OF that(1)] that(2) by (auto split: if_splits)
  have "user_page (containing_page a)" if "v \<le> a" "a < v + max l 1" for a
    using that e(3,4) by (auto simp: user_page_def containing_page_def USER_ADDR_BASE_def USER_ADDR_LIMIT_def)
  then show "region_mapped cr3 m' (v, l, wr)" using lf unfolding region_mapped_def by (auto split: if_splits)
qed

lemma load_segments_pages:
  assumes "map_to_ok mp" and "unmap_ok mp" and "accounted base cr3 m" and "load_segments mp cr3 segs m = Some (Ok (), m')"
  shows "(\<forall>seg\<in>set segs. region_mapped cr3 m' seg) \<and>
    (\<forall>q. user_page q \<longrightarrow> \<not> is_unused (page_leaf (tables m) cr3 q) \<longrightarrow> page_leaf (tables m') cr3 q = page_leaf (tables m) cr3 q)"
  using assms(3,4)
proof (induction segs arbitrary: m)
  case (Cons seg segs)
  obtain v l wr where seg: "seg = (v, l, wr)" by (cases seg)
  obtain x m1 where m1: "map_user_region_in_cr3 mp cr3 v (max l 1) wr m = Some (Ok x, m1)" "load_segments mp cr3 segs m1 = Some (Ok (), m')"
    using Cons.prems(2) by (auto simp: seg split: bind_splits sum.splits)
  note e = map_region_pages [OF assms(1,2) Cons.prems(1) m1(1)]
  note ih = Cons.IH [OF e(2) m1(2)]
  have "region_mapped cr3 m1 seg" using e(1) by (simp add: region_mapped_def seg)
  then have "region_mapped cr3 m' seg" by (rule region_kept) (use ih in blast)
  moreover have "page_leaf (tables m') cr3 q = page_leaf (tables m) cr3 q" if "user_page q" "\<not> is_unused (page_leaf (tables m) cr3 q)" for q
    using that e(4) [OF that] ih by simp
  ultimately show ?case using ih by auto
qed simp

lemma exec_space_pages:
  assumes "map_to_ok mp" and "unmap_ok mp" and "pool_fine m" and "kernel_apart m" and "exec_address_space mp segs m = Some (Ok cr3, m')"
  shows "accounted (in_use m) cr3 m'" and "\<And>seg. seg \<in> set segs \<Longrightarrow> region_mapped cr3 m' seg"
    and "region_mapped cr3 m' (USER_STACK_TOP - 4096, 4096, True)"
proof -
  let ?segs = "segs @ [(USER_STACK_TOP - 4096, 4096, True)]"
  obtain m1 where c: "clone_active_cr3 m = Some (Some cr3, m1)" and l: "load_segments mp cr3 ?segs m1 = Some (Ok (), m')"
    using assms(5) by (auto simp: exec_address_space_def builder_new_def split: bind_splits sum.splits option.splits)
  have acc: "accounted (in_use m) cr3 m1" using clone_effect [OF assms(3,4)] c by auto
  show "accounted (in_use m) cr3 m'" using load_segments_effect [OF assms(1,2) acc, of ?segs] l by auto
  show "\<And>seg. seg \<in> set segs \<Longrightarrow> region_mapped cr3 m' seg" "region_mapped cr3 m' (USER_STACK_TOP - 4096, 4096, True)"
    using load_segments_pages [OF assms(1,2) acc l] by simp_all
qed

subsection \<open>The new process\<close>

lemma insert_process_effect:
  assumes "insert_process cpu name k = (pid, k1)"
  shows "\<exists>p. bt_get (ktable k1) pid = Some p \<and> cap_table p = []" and "kready k1 = kready k"
  using assms by (auto simp: insert_process_def Let_def new_process_def)

lemma create_user_process_effect:
  assumes "seed_new_process [] (mc_caps s) \<noteq> None"
  shows "\<exists>pid p s'. create_user_process cpu name rip rsp cr3 cs ss s = Some (pid, s') \<and> mc_mmu s' = mc_mmu s \<and>
    bt_get (ktable (mc_kernel s')) pid = Some p \<and> is_user p \<and> pstate p = Ready \<and> user_rip p = rip \<and> user_rsp p = rsp \<and> user_cr3 p = cr3 \<and>
    kready (mc_kernel s') = kready (mc_kernel s) @ [pid]"
proof -
  obtain pid k1 where i: "insert_process cpu name (mc_kernel s) = (pid, k1)" by fastforce
  obtain p where p: "bt_get (ktable k1) pid = Some p" "cap_table p = []" using insert_process_effect(1) [OF i] by blast
  obtain r tbl w where sd: "seed_new_process [] (mc_caps s) = Some (r, tbl, w)" using assms by auto
  show ?thesis
    using p sd insert_process_effect(2) [OF i]
    by (simp add: create_user_process_def create_user_process_with_caps_def i map_of_upd)
qed

text \<open>
  C21. Starting an ELF program is all or nothing. After an error no process and no capability was made and the frames in use are
  those from before. After a success the image was a valid one, the process is ready and last in the run queue, it starts at the
  entry point of the image, every byte of every segment lies in a page of its own address space that is writable exactly when the
  segment is, its stack page is mapped, and the address space accounts for every frame that was taken. The processor may run on the
  tables of a process, as in the system call; what is needed is that they are not in a free frame, that the kernel's own tables are
  outside the frame pool, and that the paging crate behaves as documented.
\<close>

theorem exec_loads_the_program:
  assumes "map_to_ok mp" and "unmap_ok mp" and "pool_fine (mc_mmu s)" and "kernel_apart (mc_mmu s)"
    and "active_cr3 (mc_mmu s) \<notin> managed (mc_mmu s) - in_use (mc_mmu s)" and "seed_new_process [] (mc_caps s) \<noteq> None"
  shows "\<exists>r s'. exec_elf_proc mp heap cpu cs ss name bytes s = Some (r, s') \<and>
    (case r of
       Inl _ \<Rightarrow> mc_kernel s' = mc_kernel s \<and> mc_caps s' = mc_caps s \<and> in_use (mc_mmu s') = in_use (mc_mmu s)
     | Inr pid \<Rightarrow> \<exists>f p. parse_elf heap bytes = Ok f \<and> bt_get (ktable (mc_kernel s')) pid = Some p \<and> is_user p \<and> pstate p = Ready \<and>
         kready (mc_kernel s') = kready (mc_kernel s) @ [pid] \<and> user_rip p = entry_point f \<and>
         accounted (in_use (mc_mmu s)) (user_cr3 p) (mc_mmu s') \<and>
         (\<forall>sg\<in>set (segments f). region_mapped (user_cr3 p) (mc_mmu s') (vaddr sg, memsz sg, (seg_flags sg AND PF_W) \<noteq> 0)) \<and>
         region_mapped (user_cr3 p) (mc_mmu s') (user_rsp p - 4096, 4096, True))"
proof (cases "parse_elf heap bytes")
  case (Inl e)
  then show ?thesis by (simp add: exec_elf_proc_def)
next
  case (Inr f)
  obtain r m' where x: "exec_address_space mp (segment_regions f) (mc_mmu s) = Some (r, m')"
    and cases: "case r of Inl _ \<Rightarrow> in_use m' = in_use (mc_mmu s) | Inr cr3 \<Rightarrow> cr3 \<notin> in_use (mc_mmu s) \<and> in_use (mc_mmu s) \<subseteq> in_use m' \<and>
         (\<exists>m''. destroy_user_address_space cr3 m' = Some (Ok (), m'') \<and> in_use m'' = in_use (mc_mmu s))"
    using exec_takes_all [OF assms(1-5), of "segment_regions f"] by blast
  show ?thesis
  proof (cases r)
    case r: (Inl e)
    then show ?thesis using Inr x cases by (simp add: exec_elf_proc_def)
  next
    case r: (Inr cr3)
    note pg = exec_space_pages [OF assms(1-4) x [unfolded r]]
    have "seed_new_process [] (mc_caps (s\<lparr>mc_mmu := m'\<rparr>)) \<noteq> None" using assms(6) by simp
    from create_user_process_effect [OF this, of cpu name "entry_point f" USER_STACK_TOP cr3 cs ss] obtain pid p s' where
      c: "create_user_process cpu name (entry_point f) USER_STACK_TOP cr3 cs ss (s\<lparr>mc_mmu := m'\<rparr>) = Some (pid, s')" "mc_mmu s' = m'"
        "bt_get (ktable (mc_kernel s')) pid = Some p" "is_user p" "pstate p = Ready" "user_rip p = entry_point f" "user_rsp p = USER_STACK_TOP"
        "user_cr3 p = cr3" "kready (mc_kernel s') = kready (mc_kernel s) @ [pid]" by auto
    have "exec_elf_proc mp heap cpu cs ss name bytes s = Some (Ok pid, s')" using Inr x r c(1) by (simp add: exec_elf_proc_def)
    moreover have "\<forall>sg\<in>set (segments f). region_mapped cr3 m' (vaddr sg, memsz sg, (seg_flags sg AND PF_W) \<noteq> 0)"
      using pg(2) by (auto simp: segment_regions_def)
    ultimately show ?thesis using Inr c pg(1,3) by auto
  qed
qed

text \<open>
  A forked process starts at the saved instruction pointer of its parent, but in an address space without a single user page:
  \<^verbatim>\<open>clone_active_cr3\<close> copies the kernel's tables and clears the user range.
\<close>

theorem forked_process_has_no_pages:
  assumes "pool_fine (mc_mmu s)" and "kernel_apart (mc_mmu s)" and "fork_current cpu s = Some (Some pid, s')"
    and "cur_of cpu (mc_kernel s) = Some cur" and "bt_get (ktable (mc_kernel s)) cur = Some p"
  shows "\<exists>np. bt_get (ktable (mc_kernel s')) pid = Some np \<and> pstate np = Ready \<and> user_rip np = user_rip p \<and>
    (user_cr3 np = 0 \<or> (\<forall>a. USER_ADDR_BASE \<le> a \<and> a < USER_ADDR_LIMIT \<longrightarrow>
       page_leaf (tables (mc_mmu s')) (user_cr3 np) (containing_page a) = zero_entry))"
proof -
  obtain c m where c: "clone_active_cr3 (mc_mmu s) = Some (c, m)"
    and fresh: "\<And>cr3. c = Some cr3 \<Longrightarrow> fresh_space cr3 (mc_mmu s) m"
    using clone_effect [OF assms(1,2)] by blast
  have "mc_mmu s' = m" "\<exists>np. bt_get (ktable (mc_kernel s')) pid = Some np \<and> pstate np = Ready \<and> user_rip np = user_rip p \<and>
      user_cr3 np = (case c of None \<Rightarrow> 0 | Some a \<Rightarrow> a)"
    using assms(3-5) c by (auto simp: fork_current_def Let_def split: if_splits bind_splits)
  then show ?thesis using fresh by (cases c) (auto simp: fresh_space_def)
qed

definition demo_machine :: machine where
  "demo_machine = \<lparr>mc_kernel = boot_kernel, mc_mmu = running_mmu, mc_caps = init_world\<rparr>"

lemma demo_exec_succeeds:
  assumes "exec_elf_proc walk_mapper (\<lambda>_. True) cpu cs ss name tiny_elf demo_machine = Some (r, s')"
  shows "\<exists>pid. r = Ok pid"
proof -
  obtain f where f: "parse_elf (\<lambda>_. True) tiny_elf = Ok f" "segment_regions f = [(0x40000000, 64, False)]"
    using tiny_elf_parses by (auto simp: segment_regions_def PF_W_def)
  obtain m where "exec_address_space walk_mapper [(0x40000000, 64, False)] running_mmu = Some (Ok 0x1002000, m)"
    using running_exec by auto
  then show ?thesis using assms f by (auto simp: exec_elf_proc_def demo_machine_def split: bind_splits)
qed

theorem exec_loads_the_program_witness:
  "\<exists>pid s' p. exec_elf_proc walk_mapper (\<lambda>_. True) 0 8 16 ''tiny'' tiny_elf demo_machine = Some (Ok pid, s') \<and>
     bt_get (ktable (mc_kernel s')) pid = Some p \<and> user_rip p = 0x40000000 \<and>
     region_mapped (user_cr3 p) (mc_mmu s') (0x40000000, 64, False)"
proof -
  have d: "mc_mmu demo_machine = running_mmu" "mc_kernel demo_machine = boot_kernel" "mc_caps demo_machine = init_world" by (simp_all add: demo_machine_def)
  have w: "seed_new_process [] (mc_caps demo_machine) \<noteq> None" by (simp add: d(3) seeded_world_eq)
  obtain f where f: "parse_elf (\<lambda>_. True) tiny_elf = Ok f" "entry_point f = 0x40000000"
    "\<exists>sg\<in>set (segments f). vaddr sg = 0x40000000 \<and> memsz sg = 64 \<and> (seg_flags sg AND PF_W) = 0"
    using tiny_elf_parses by (auto simp: PF_W_def)
  from exec_loads_the_program [OF walk_map_ok walk_unmap_ok running_mmu_facts(1-3) [folded d(1)] w, of "\<lambda>_. True" 0 8 16 "''tiny''" tiny_elf]
  obtain r s' where r: "exec_elf_proc walk_mapper (\<lambda>_. True) 0 8 16 ''tiny'' tiny_elf demo_machine = Some (r, s')"
    "case r of Inl _ \<Rightarrow> True
     | Inr pid \<Rightarrow> \<exists>g p. parse_elf (\<lambda>_. True) tiny_elf = Ok g \<and> bt_get (ktable (mc_kernel s')) pid = Some p \<and> user_rip p = entry_point g \<and>
         (\<forall>sg\<in>set (segments g). region_mapped (user_cr3 p) (mc_mmu s') (vaddr sg, memsz sg, (seg_flags sg AND PF_W) \<noteq> 0))"
    by (elim exE conjE) (rule that, assumption, auto split: sum.splits)
  obtain pid where pid: "r = Ok pid" using demo_exec_succeeds [OF r(1)] by blast
  then show ?thesis using f r by (intro exI [of _ pid] exI [of _ s']) fastforce
qed

end
