(* ===== verification/Surface_Sessions.thy ===== *)
theory Surface_Sessions
  imports Surface
begin

section \<open>The surfaces of a process over its lifetime\<close>

text \<open>
  Whole histories of surface calls of one process, from its first surface to the clean-up when it exits
  (\<^verbatim>\<open>cleanup_surfaces_for_pid\<close>). The invariant says where every frame, page and charge of the process's surfaces is.
\<close>

subsection \<open>Histories\<close>

datatype surface_op = Create_Op bool nat nat | Destroy_Op nat | Present_Op nat nat nat nat nat | Draw_Op nat nat nat

fun surface_do :: "mapper \<Rightarrow> nat \<Rightarrow> surface_op \<Rightarrow> surfaces \<Rightarrow> surfaces option" where
  "surface_do mp pid (Create_Op reserved w h) d = map_option snd (create_surface_for_pid mp reserved pid w h d)"
| "surface_do mp pid (Destroy_Op sid) d = map_option snd (destroy_surface_for_pid mp pid sid d)"
| "surface_do mp pid (Present_Op sid x y w h) d = Some (d\<lparr>registry := snd (mark_presented pid sid x y w h (registry d))\<rparr>)"
| "surface_do mp pid (Draw_Op sid w h) d = map_option snd (get_surface_render_target sid pid w h d)"

fun surface_run :: "mapper \<Rightarrow> nat \<Rightarrow> surface_op list \<Rightarrow> surfaces \<Rightarrow> surfaces option" where
  "surface_run mp pid [] d = Some d"
| "surface_run mp pid (x # xs) d = do { d1 \<leftarrow> surface_do mp pid x d; surface_run mp pid xs d1 }"

text \<open>
  The end of a process as far as memory is concerned: \<^verbatim>\<open>exit_current\<close> goes back to the kernel's tables, cleans up the
  surfaces and gives the address space back.
\<close>

definition reload_kernel_cr3 :: "surfaces \<Rightarrow> surfaces" where
  "reload_kernel_cr3 d = (case shared_kernel_cr3 (su_mmu d) of None \<Rightarrow> d | Some k \<Rightarrow> d\<lparr>su_mmu := (su_mmu d)\<lparr>active_cr3 := k\<rparr>\<rparr>)"

definition release_process_address_space :: "nat \<Rightarrow> surfaces \<Rightarrow> (bool \<times> surfaces) option" where
  "release_process_address_space pid d =
     (if list_ex (\<lambda>s. sf_owner s = pid) (registry d) then Some (False, d)
      else
        let cr3 = (case bt_get (ktable (su_kernel d)) pid of None \<Rightarrow> 0 | Some p \<Rightarrow> user_cr3 p) in
        if cr3 = 0 then Some (True, d)
        else do {
          let d1 = (if active_cr3 (su_mmu d) = cr3 then reload_kernel_cr3 d else d);
          (r, m) \<leftarrow> destroy_user_address_space cr3 (su_mmu d1);
          case r of
            Inl _ \<Rightarrow> Some (False, d1\<lparr>su_mmu := m\<rparr>)
          | Inr _ \<Rightarrow> Some (True, d1\<lparr>su_mmu := m, su_kernel := upd_k pid (\<lambda>p. p\<lparr>user_cr3 := 0\<rparr>) (su_kernel d1)\<rparr>)
        })"

subsection \<open>The invariant\<close>

text \<open>What drawing and presenting leave of a record.\<close>

definition plain :: "surface_info \<Rightarrow> surface_info" where
  "plain sf = sf\<lparr>sf_width := 0, sf_height := 0, sf_dirty := False, dirty_rect := (0, 0, 0, 0)\<rparr>"

lemma plain_fields [simp]:
  "surface_id (plain sf) = surface_id sf" "sf_owner (plain sf) = sf_owner sf" "sf_slot (plain sf) = sf_slot sf"
  "owner_cr3 (plain sf) = owner_cr3 sf" "sf_stride (plain sf) = sf_stride sf" "vma_addr (plain sf) = vma_addr sf"
  "sf_pages (plain sf) = sf_pages sf" "shmem_phys_addr (plain sf) = shmem_phys_addr sf" "shmem_size (plain sf) = shmem_size sf"
  "surface_live (plain sf) m = surface_live sf m" "surface_fits (plain sf) = surface_fits sf" "placed (plain sf) = placed sf"
  "frames_of (plain sf) = frames_of sf" "pages_of (plain sf) = pages_of sf"
  by (simp_all add: plain_def surface_live_def surface_fits_def placed_def frames_of_def pages_of_def)

definition own :: "nat \<Rightarrow> surfaces \<Rightarrow> surface_info list" where
  "own pid d = filter (\<lambda>s. sf_owner s = pid) (map plain (registry d))"

definition others :: "nat \<Rightarrow> surfaces \<Rightarrow> surface_info list" where
  "others pid d = filter (\<lambda>s. sf_owner s \<noteq> pid) (registry d)"

definition ids_fine :: "surfaces \<Rightarrow> bool" where
  "ids_fine d \<longleftrightarrow> distinct (map surface_id (registry d)) \<and> (\<forall>s\<in>set (registry d). surface_id s < next_surface_id d)"

definition own_frames :: "nat \<Rightarrow> surfaces \<Rightarrow> nat set" where
  "own_frames pid d = (\<Union>s\<in>set (own pid d). frames_of s)"

definition own_fine :: "nat \<Rightarrow> nat \<Rightarrow> surfaces \<Rightarrow> bool" where
  "own_fine pid cr3 d \<longleftrightarrow>
     (\<forall>s\<in>set (own pid d). owner_cr3 s = cr3 \<and> surface_live s (su_mmu d) \<and> surface_fits s) \<and>
     (\<forall>s\<in>set (own pid d). \<forall>t\<in>set (own pid d). s \<noteq> t \<longrightarrow> sf_slot s \<noteq> sf_slot t \<and> frames_of s \<inter> frames_of t = {})"

definition session_inv :: "nat set \<Rightarrow> nat \<Rightarrow> nat \<times> nat \<times> nat \<Rightarrow> surfaces \<Rightarrow> surfaces \<Rightarrow> bool" where
  "session_inv base pid q d0 d \<longleftrightarrow> (case q of (mem, n, cr3) \<Rightarrow>
     ids_fine d \<and> same_regs (su_mmu d0) (su_mmu d) \<and> others pid d = others pid d0 \<and> own_fine pid cr3 d \<and>
     accounted (base \<union> own_frames pid d) cr3 (su_mmu d) \<and> base \<inter> own_frames pid d = {} \<and> limits_fine (su_kernel d) \<and>
     quota (su_kernel d) = (quota (su_kernel d0))(pid \<mapsto> (mem + sum_list (map shmem_size (own pid d)), n + length (own pid d), cr3)))"

subsection \<open>Steps that keep the plain records\<close>

lemma filter_update_same: "i < length xs \<Longrightarrow> \<not> P (xs ! i) \<Longrightarrow> \<not> P y \<Longrightarrow> filter P (xs[i := y]) = filter P xs"
  by (induction xs arbitrary: i) (auto split: nat.splits)

lemma session_inv_same:
  assumes "session_inv base pid q d0 d" and "map plain reg = map plain (registry d)"
    and "filter (\<lambda>s. sf_owner s \<noteq> pid) reg = others pid d"
  shows "session_inv base pid q d0 (d\<lparr>registry := reg\<rparr>)"
proof -
  let ?d = "d\<lparr>registry := reg\<rparr>"
  have ids: "map surface_id reg = map surface_id (registry d)"
    using arg_cong [OF assms(2), of "map surface_id"] by (simp add: comp_def)
  have "\<forall>s\<in>set reg. surface_id s < next_surface_id d" if "\<forall>s\<in>set (registry d). surface_id s < next_surface_id d"
  proof -
    have "surface_id ` set reg = surface_id ` set (registry d)" using arg_cong [OF ids, of set] by simp
    then show ?thesis using that by (auto simp: image_iff set_eq_iff) (metis imageE imageI)
  qed
  then have "ids_fine d \<Longrightarrow> ids_fine ?d" by (simp add: ids_fine_def ids)
  moreover have "own pid ?d = own pid d" "others pid ?d = others pid d" using assms(2,3) by (simp_all add: own_def others_def)
  ultimately show ?thesis using assms(1) by (auto simp: session_inv_def own_fine_def own_frames_def)
qed

lemma session_inv_update:
  assumes "session_inv base pid q d0 d" and "i < length (registry d)" and "sf_owner (registry d ! i) = pid"
    and "plain y = plain (registry d ! i)"
  shows "session_inv base pid q d0 (d\<lparr>registry := (registry d)[i := y]\<rparr>)"
proof (rule session_inv_same [OF assms(1)])
  have "sf_owner y = pid" using arg_cong [OF assms(4), of sf_owner] assms(3) by simp
  then show "filter (\<lambda>s. sf_owner s \<noteq> pid) ((registry d)[i := y]) = others pid d"
    using assms(2,3) by (simp add: others_def filter_update_same)
  show "map plain ((registry d)[i := y]) = map plain (registry d)"
    using assms(2,4) by (simp add: map_update list_update_same_conv)
qed

lemma session_inv_present:
  assumes "session_inv base pid q d0 d"
  shows "session_inv base pid q d0 (d\<lparr>registry := snd (mark_presented pid sid x y w h (registry d))\<rparr>)"
proof (cases "position (\<lambda>s. surface_id s = sid) (registry d)")
  case None
  then show ?thesis using assms by (simp add: mark_presented_def)
next
  case (Some i)
  then have "i < length (registry d)" by (simp add: position_in_range)
  then show ?thesis
    using Some assms session_inv_update [OF assms, of i] by (simp add: mark_presented_def Let_def plain_def)
qed

lemma plain_own: "s \<in> set (registry d) \<Longrightarrow> sf_owner s = pid \<Longrightarrow> plain s \<in> set (own pid d)"
  by (simp add: own_def)

lemma own_member:
  assumes "session_inv base pid (mem, n, cr3) d0 d" and "s \<in> set (registry d)" and "sf_owner s = pid"
  shows "owner_cr3 s = cr3" and "surface_live s (su_mmu d)" and "surface_fits s" and "placed s"
proof -
  have "plain s \<in> set (own pid d)" using assms(2,3) by (rule plain_own)
  then show "owner_cr3 s = cr3" "surface_live s (su_mmu d)" "surface_fits s"
    using assms(1) unfolding session_inv_def own_fine_def by force+
  then show "placed s" by (simp add: surface_live_def)
qed

text \<open>A drawing target never reaches behind the backing, whichever of the two row lengths the caller uses.\<close>

lemma render_target_bounds:
  assumes "surface_fits s" and "position (\<lambda>s. surface_id s = sid \<and> sf_owner s = pid) (registry d) = Some i" and "s = registry d ! i"
  shows "\<exists>w h. get_surface_render_target sid pid rw rh d =
      Some (Some (shmem_phys_addr s, w, h), d\<lparr>registry := (registry d)[i := s\<lparr>sf_width := w, sf_height := h\<rparr>]\<rparr>) \<and>
    1 \<le> w \<and> 1 \<le> h \<and> 4 * w \<le> sf_stride s \<and> h * sf_stride s \<le> shmem_size s"
proof -
  have f: "4 \<le> sf_stride s" "sf_stride s \<le> shmem_size s" "shmem_size s < 2 ^ 32" using assms(1) by (simp_all add: surface_fits_def)
  have q: "1 \<le> shmem_size s div sf_stride s" "shmem_size s div sf_stride s < 2 ^ 32"
    using f by (simp_all add: div_greater_zero_iff Suc_le_eq le_less_trans [OF div_le_dividend])
  define mw where "mw = min (sf_stride s div 4) MAX_SURFACE_WIDTH"
  define mh where "mh = min (shmem_size s div sf_stride s mod 2 ^ 32) MAX_SURFACE_HEIGHT"
  have mw: "1 \<le> mw" "mw \<le> sf_stride s div 4" using f(1) by (simp_all add: mw_def MAX_SURFACE_WIDTH_def)
  have mh: "1 \<le> mh" "mh \<le> shmem_size s div sf_stride s" using q by (simp_all add: mh_def MAX_SURFACE_HEIGHT_def)
  let ?w = "max 1 (min rw mw)" and ?h = "max 1 (min rh mh)"
  have le: "?w \<le> sf_stride s div 4" "?h \<le> shmem_size s div sf_stride s" using mw mh by linarith+
  have "4 * ?w \<le> sf_stride s"
    using le_trans [OF mult_le_mono1 [OF le(1), of 4] div_times_less_eq_dividend] by (simp only: mult.commute)
  moreover have "?h * sf_stride s \<le> shmem_size s"
    by (rule le_trans [OF mult_le_mono1 [OF le(2)] div_times_less_eq_dividend])
  moreover have "get_surface_render_target sid pid rw rh d =
      Some (Some (shmem_phys_addr s, ?w, ?h), d\<lparr>registry := (registry d)[i := s\<lparr>sf_width := ?w, sf_height := ?h\<rparr>]\<rparr>)"
    unfolding get_surface_render_target_def assms(2) option.case Let_def assms(3) [symmetric] mw_def [symmetric]
    using f(1) mw(1) mh(1) unfolding mh_def by (simp add: clamp_def)
  ultimately show ?thesis by (intro exI [of _ ?w] exI [of _ ?h] conjI) simp_all
qed

lemma session_inv_draw:
  assumes "session_inv base pid (mem, n, cr3) d0 d"
  shows "\<exists>r d'. get_surface_render_target sid pid w h d = Some (r, d') \<and> session_inv base pid (mem, n, cr3) d0 d' \<and>
    next_surface_id d' = next_surface_id d"
proof (cases "position (\<lambda>s. surface_id s = sid \<and> sf_owner s = pid) (registry d)")
  case None
  then show ?thesis using assms by (simp add: get_surface_render_target_def)
next
  case (Some i)
  then have i: "i < length (registry d)" "sf_owner (registry d ! i) = pid" by (auto simp: position_Some)
  have "surface_fits (registry d ! i)" using own_member(3) [OF assms] i by simp
  from render_target_bounds [OF this Some refl] obtain w' h' where
    "get_surface_render_target sid pid w h d = Some (Some (shmem_phys_addr (registry d ! i), w', h'),
       d\<lparr>registry := (registry d)[i := (registry d ! i)\<lparr>sf_width := w', sf_height := h'\<rparr>]\<rparr>)" by blast
  then show ?thesis using session_inv_update [OF assms i, of "(registry d ! i)\<lparr>sf_width := w', sf_height := h'\<rparr>"] by (simp add: plain_def)
qed

subsection \<open>Creating and destroying\<close>

lemma own_pages_user:
  assumes "surface_live s m" and "\<And>q. q \<in> pages_of s \<Longrightarrow> page_leaf (tables m') (owner_cr3 s) q = page_leaf (tables m) (owner_cr3 s) q"
  shows "surface_live s m'"
  using assms by (auto simp: surface_live_def pages_of_def)

lemma limits_upd:
  assumes "limits_fine k" and "\<And>p. limits (f p) = limits p"
  shows "limits_fine (upd_k i f k)"
  using assms by (auto simp: limits_fine_def map_of_upd split: if_splits)

lemma limits_uncharge: "limits_fine k \<Longrightarrow> limits_fine (uncharge_surface pid b k)"
  unfolding uncharge_surface_def by (rule limits_upd) (simp_all add: decrement_surface_count_def uncharge_memory_def)

lemma limits_charge:
  assumes "limits_fine k" and "charge_surface pid b k = (r, k')"
  shows "limits_fine k'"
proof (cases "bt_get (ktable k) pid")
  case None
  then show ?thesis using assms by (auto simp: charge_surface_def)
next
  case (Some p)
  have put: "limits_fine (upd_k pid (\<lambda>_. p') k)" if "limits p' = limits p" for p'
    using that assms(1) Some by (auto simp: limits_fine_def map_of_upd split: if_splits)
  show ?thesis
    using assms(2) Some put assms(1)
    by (auto simp: charge_surface_def try_charge_memory_def increment_surface_count_def uncharge_memory_def Let_def split: if_splits sum.splits)
qed

lemma limits_create:
  assumes "limits_fine (su_kernel d)" and "create_surface_for_pid mp reserved pid w h d = Some (r, d')"
  shows "limits_fine (su_kernel d')"
  using assms limits_charge [OF assms(1)] limits_uncharge
  by (auto simp: create_surface_for_pid_def Let_def split: if_splits option.splits sum.splits prod.splits bind_splits)

lemma next_create:
  assumes "create_surface_for_pid mp reserved pid w h d = Some (r, d')"
  shows "next_surface_id d' = (if is_ok r then wrapping_add 64 (next_surface_id d) 1 else next_surface_id d)"
  using assms
  by (auto simp: create_surface_for_pid_def Let_def split: if_splits option.splits sum.splits prod.splits bind_splits)

lemma session_inv_create:
  assumes "map_to_ok mp" and "unmap_ok mp" and inv: "session_inv base pid (mem, n, cr3) d0 d" and "next_surface_id d < 2 ^ 64 - 1"
  shows "\<exists>r d'. create_surface_for_pid mp reserved pid w h d = Some (r, d') \<and> session_inv base pid (mem, n, cr3) d0 d' \<and>
    next_surface_id d' \<le> next_surface_id d + 1"
proof -
  let ?mem = "mem + sum_list (map shmem_size (own pid d))" and ?n = "n + length (own pid d)"
  have i0: "same_regs (su_mmu d0) (su_mmu d)" using inv by (simp add: session_inv_def)
  have i: "ids_fine d" "others pid d = others pid d0" "own_fine pid cr3 d" "accounted (base \<union> own_frames pid d) cr3 (su_mmu d)"
      "base \<inter> own_frames pid d = {}" "limits_fine (su_kernel d)"
      "quota (su_kernel d) = (quota (su_kernel d0))(pid \<mapsto> (?mem, ?n, cr3))" using inv by (simp_all add: session_inv_def)
  have q: "quota (su_kernel d) pid = Some (?mem, ?n, cr3)" using i(7) by simp
  obtain r d' where c: "create_surface_for_pid mp reserved pid w h d = Some (r, d')" and sr: "same_regs (su_mmu d) (su_mmu d')"
    and e: "case r of
       Inl e \<Rightarrow> registry d' = registry d \<and> quota (su_kernel d') = quota (su_kernel d) \<and> accounted (base \<union> own_frames pid d) cr3 (su_mmu d') \<and>
         same_pages cr3 (su_mmu d) (su_mmu d')
     | Inr sid \<Rightarrow> \<exists>sf. sid = next_surface_id d \<and> registry d' = registry d @ [sf] \<and> surface_id sf = sid \<and> sf_owner sf = pid \<and> owner_cr3 sf = cr3 \<and>
         sf_width sf = w \<and> sf_height sf = h \<and> surface_fits sf \<and> placed sf \<and>
         (\<forall>s\<in>set (registry d). sf_owner s = pid \<longrightarrow> sf_slot s \<noteq> sf_slot sf) \<and>
         quota (su_kernel d') = (quota (su_kernel d))(pid \<mapsto> (?mem + shmem_size sf, ?n + 1, cr3)) \<and>
         quota (uncharge_surface pid (shmem_size sf) (su_kernel d')) = quota (su_kernel d) \<and>
         run_of (shmem_phys_addr sf) (sf_pages sf) \<inter> in_use (su_mmu d) = {} \<and>
         accounted (base \<union> own_frames pid d \<union> run_of (shmem_phys_addr sf) (sf_pages sf)) cr3 (su_mmu d') \<and> surface_mapped sf (su_mmu d) (su_mmu d')"
    using create_surface_effect [OF assms(1,2) i(6) q i(4), of reserved w h] by (elim exE conjE) (rule that)
  have lim: "limits_fine (su_kernel d')" by (rule limits_create [OF i(6) c])
  note nx = next_create [OF c]
  have sr': "same_regs (su_mmu d0) (su_mmu d')" using i0 sr by (simp add: same_regs_def)
  show ?thesis
  proof (cases r)
    case (Inl err)
    have o: "own pid d' = own pid d" "others pid d' = others pid d" "own_frames pid d' = own_frames pid d" "next_surface_id d' = next_surface_id d"
      using e Inl nx by (auto simp: own_def others_def own_frames_def)
    have "surface_live s (su_mmu d')" if "s \<in> set (own pid d)" for s
    proof (rule own_pages_user)
      show l: "surface_live s (su_mmu d)" using that i(3) by (simp add: own_fine_def)
      fix p assume "p \<in> pages_of s"
      then have "user_page p" using l placed_pages(4) unfolding surface_live_def by blast
      moreover have "owner_cr3 s = cr3" using that i(3) by (simp add: own_fine_def)
      ultimately show "page_leaf (tables (su_mmu d')) (owner_cr3 s) p = page_leaf (tables (su_mmu d)) (owner_cr3 s) p"
        using e Inl by (simp add: same_pages_def)
    qed
    then have "own_fine pid cr3 d'" using i(3) o(1) by (simp add: own_fine_def)
    moreover have "ids_fine d'" using i(1) e Inl o(4) by (simp add: ids_fine_def)
    ultimately have "session_inv base pid (mem, n, cr3) d0 d'" using i e Inl o lim sr' by (simp add: session_inv_def)
    then show ?thesis using c o(4) by auto
  next
    case (Inr sid)
    then obtain sf where sf: "registry d' = registry d @ [sf]" "surface_id sf = next_surface_id d" "sf_owner sf = pid" "owner_cr3 sf = cr3"
        "surface_fits sf" "placed sf"
      and slot: "\<And>s. s \<in> set (registry d) \<Longrightarrow> sf_owner s = pid \<Longrightarrow> sf_slot s \<noteq> sf_slot sf"
      and q': "quota (su_kernel d') = (quota (su_kernel d))(pid \<mapsto> (?mem + shmem_size sf, ?n + 1, cr3))"
      and fr: "frames_of sf \<inter> in_use (su_mmu d) = {}" "accounted (base \<union> own_frames pid d \<union> frames_of sf) cr3 (su_mmu d')"
      and mapped: "surface_mapped sf (su_mmu d) (su_mmu d')" using e unfolding frames_of_def by auto
    have o: "own pid d' = own pid d @ [plain sf]" "others pid d' = others pid d" "own_frames pid d' = own_frames pid d \<union> frames_of sf"
      using sf(1,3) by (auto simp: own_def others_def own_frames_def)
    have nx': "next_surface_id d' = next_surface_id d + 1" using nx Inr assms(4) by (simp add: wrapping_add_def)
    have use: "base \<union> own_frames pid d \<subseteq> in_use (su_mmu d)" using i(4) by (auto simp: accounted_def)
    have oslot: "sf_slot s \<noteq> sf_slot sf" if "s \<in> set (own pid d)" for s using that slot by (auto simp: own_def)
    have live: "surface_live s (su_mmu d')" if s: "s \<in> set (own pid d)" for s
    proof (rule own_pages_user)
      show l: "surface_live s (su_mmu d)" using s i(3) by (simp add: own_fine_def)
      then have pl: "placed s" by (simp add: surface_live_def)
      fix p assume p: "p \<in> pages_of s"
      then have "p \<notin> pages_of sf" using pages_apart [OF pl sf(6) oslot [OF s]] by blast
      moreover have "owner_cr3 s = cr3" using s i(3) by (simp add: own_fine_def)
      ultimately show "page_leaf (tables (su_mmu d')) (owner_cr3 s) p = page_leaf (tables (su_mmu d)) (owner_cr3 s) p"
        using mapped placed_pages(4) [OF pl p] sf(4) by (auto simp: surface_mapped_def pages_of_def)
    qed
    have apart: "frames_of s \<inter> frames_of sf = {}" if "s \<in> set (own pid d)" for s
      using that fr(1) use by (auto simp: own_frames_def)
    have "own_fine pid cr3 d'"
      unfolding own_fine_def o(1)
    proof (intro conjI ballI impI)
      fix s assume "s \<in> set (own pid d @ [plain sf])"
      then show "owner_cr3 s = cr3" "surface_live s (su_mmu d')" "surface_fits s"
        using i(3) live sf(4,5) mapped_live [OF mapped sf(6)] by (auto simp: own_fine_def)
    next
      fix s t assume "s \<in> set (own pid d @ [plain sf])" "t \<in> set (own pid d @ [plain sf])" "s \<noteq> t"
      then consider "s \<in> set (own pid d)" "t \<in> set (own pid d)" | "s \<in> set (own pid d)" "t = plain sf" | "t \<in> set (own pid d)" "s = plain sf"
        by auto
      then have "sf_slot s \<noteq> sf_slot t \<and> frames_of s \<inter> frames_of t = {}"
      proof cases
        case 1
        then show ?thesis using i(3) \<open>s \<noteq> t\<close> unfolding own_fine_def by blast
      next
        case 2
        then show ?thesis using oslot apart by simp
      next
        case 3
        then show ?thesis using oslot [of t] apart [of t] by (simp add: Int_commute)
      qed
      then show "sf_slot s \<noteq> sf_slot t" "frames_of s \<inter> frames_of t = {}" by simp_all
    qed
    moreover have "ids_fine d'" using i(1) sf(1,2) nx' by (auto simp: ids_fine_def)
    moreover have "base \<inter> own_frames pid d' = {}" using i(5) fr(1) use o(3) by auto
    moreover have "quota (su_kernel d') = (quota (su_kernel d0))(pid \<mapsto> (mem + sum_list (map shmem_size (own pid d')), n + length (own pid d'), cr3))"
      using q' i(7) o(1) by (auto simp: ac_simps)
    ultimately have "session_inv base pid (mem, n, cr3) d0 d'" using i(2) o(2,3) fr(2) lim sr' by (simp add: session_inv_def Un_assoc)
    then show ?thesis using c nx' by auto
  qed
qed

lemma list_remove_split: "i < length xs \<Longrightarrow> xs = take i xs @ xs ! i # drop (Suc i) xs"
  by (rule id_take_nth_drop)

lemma session_inv_destroy:
  assumes "unmap_ok mp" and "translate_ok mp" and inv: "session_inv base pid (mem, n, cr3) d0 d"
  shows "\<exists>r d'. destroy_surface_for_pid mp pid sid d = Some (r, d') \<and> session_inv base pid (mem, n, cr3) d0 d' \<and>
    next_surface_id d' = next_surface_id d \<and>
    ((\<exists>s\<in>set (registry d). sf_owner s = pid \<and> surface_id s = sid) \<longrightarrow> is_ok r \<and> length (own pid d') + 1 = length (own pid d))"
proof (cases "position (\<lambda>s. surface_id s = sid) (registry d)")
  case None
  then have "destroy_surface_for_pid mp pid sid d = Some (Err ''Surface not found'', d)" by (simp add: destroy_surface_for_pid_def)
  then show ?thesis using inv None by (auto simp: position_None)
next
  case (Some i)
  define sf where "sf = registry d ! i"
  have il: "i < length (registry d)" "surface_id sf = sid" using Some by (auto simp: position_Some sf_def)
  have mem: "sf \<in> set (registry d)" using il(1) by (simp add: sf_def)
  have ids: "distinct (map surface_id (registry d))" using inv by (simp add: session_inv_def ids_fine_def)
  show ?thesis
  proof (cases "sf_owner sf = pid")
    case False
    then have "destroy_surface_for_pid mp pid sid d = Some (Err ''Permission denied: caller is not surface owner'', d)"
      using Some by (simp add: destroy_surface_for_pid_def sf_def Let_def)
    moreover have "\<not> (\<exists>s\<in>set (registry d). sf_owner s = pid \<and> surface_id s = sid)"
      using False ids mem il(2) by (auto simp: distinct_map inj_on_def)
    ultimately show ?thesis using inv by auto
  next
    case True
    define pre post where "pre = take i (registry d)" and "post = drop (Suc i) (registry d)"
    have reg: "registry d = pre @ sf # post" using list_remove_split [OF il(1)] by (simp add: pre_def post_def sf_def)
    have i0: "same_regs (su_mmu d0) (su_mmu d)" using inv by (simp add: session_inv_def)
  have i: "ids_fine d" "others pid d = others pid d0" "own_fine pid cr3 d" "accounted (base \<union> own_frames pid d) cr3 (su_mmu d)"
      "base \<inter> own_frames pid d = {}" "limits_fine (su_kernel d)"
      "quota (su_kernel d) = (quota (su_kernel d0))(pid \<mapsto> (mem + sum_list (map shmem_size (own pid d)), n + length (own pid d), cr3))"
      using inv by (simp_all add: session_inv_def)
    note om = own_member [OF inv mem True]
    let ?ow = "\<lambda>xs. filter (\<lambda>s. sf_owner s = pid) (map plain xs)"
    have own: "own pid d = ?ow pre @ plain sf # ?ow post" using True by (simp add: own_def reg)
    define rest where "rest = ?ow pre @ ?ow post"
    have inj: "s \<noteq> plain sf" if "s \<in> set rest" for s
    proof -
      have "surface_id s \<in> surface_id ` (set pre \<union> set post)" using that by (auto simp: rest_def)
      then have "surface_id s \<noteq> surface_id sf" using ids reg by auto
      then show ?thesis by auto
    qed
    let ?fr = "\<Union>s\<in>set rest. frames_of s"
    have of: "own_frames pid d = ?fr \<union> frames_of sf" by (auto simp: own_frames_def own rest_def)
    have dj: "frames_of s \<inter> frames_of sf = {}" "sf_slot s \<noteq> sf_slot sf" "s \<in> set (own pid d)" if "s \<in> set rest" for s
    proof -
      show m: "s \<in> set (own pid d)" using that by (auto simp: own rest_def)
      moreover have "plain sf \<in> set (own pid d)" by (simp add: own)
      ultimately show "frames_of s \<inter> frames_of sf = {}" "sf_slot s \<noteq> sf_slot sf"
        using i(3) inj [OF that] unfolding own_fine_def by force+
    qed
    have acc: "accounted (base \<union> ?fr \<union> frames_of sf) (owner_cr3 sf) (su_mmu d)" using i(4) om(1) of by (simp add: Un_assoc)
    have dj2: "(base \<union> ?fr) \<inter> frames_of sf = {}" using dj(1) i(5) of by auto
    obtain d' where d': "destroy_surface_for_pid mp pid sid d = Some (Ok (), d')" "registry d' = list_remove i (registry d)"
      "su_kernel d' = uncharge_surface pid (shmem_size sf) (su_kernel d)" "accounted (base \<union> ?fr) cr3 (su_mmu d')" "same_regs (su_mmu d) (su_mmu d')"
      "\<And>q. user_page q \<Longrightarrow> page_leaf (tables (su_mmu d')) cr3 q = (if q \<in> pages_of sf then zero_entry else page_leaf (tables (su_mmu d)) cr3 q)"
      using destroy_surface_effect [OF assms(1,2) Some sf_def True om(2) acc dj2] om(1) by auto
    have nx: "next_surface_id d' = next_surface_id d"
      using d'(1) by (auto simp: destroy_surface_for_pid_def Let_def split: option.splits if_splits bind_splits sum.splits)
    have reg': "registry d' = pre @ post" using d'(2) by (simp add: list_remove_def pre_def post_def)
    have o: "own pid d' = rest" "others pid d' = others pid d" "own_frames pid d' = ?fr"
      using True by (simp_all add: own_def others_def own_frames_def reg reg' rest_def)
    have "surface_live s (su_mmu d')" if s: "s \<in> set rest" for s
    proof (rule own_pages_user)
      show l: "surface_live s (su_mmu d)" using dj(3) [OF s] i(3) by (simp add: own_fine_def)
      then have pl: "placed s" by (simp add: surface_live_def)
      fix p assume p: "p \<in> pages_of s"
      then have "p \<notin> pages_of sf" using pages_apart [OF pl om(4) dj(2) [OF s]] by blast
      moreover have "owner_cr3 s = cr3" using dj(3) [OF s] i(3) by (simp add: own_fine_def)
      ultimately show "page_leaf (tables (su_mmu d')) (owner_cr3 s) p = page_leaf (tables (su_mmu d)) (owner_cr3 s) p"
        using d'(6) [OF placed_pages(4) [OF pl p]] by simp
    qed
    then have "own_fine pid cr3 d'" using i(3) dj(3) by (simp add: own_fine_def o(1))
    moreover have "ids_fine d'" using i(1) nx by (auto simp: ids_fine_def reg reg')
    moreover have "quota (su_kernel d') = (quota (su_kernel d0))(pid \<mapsto> (mem + sum_list (map shmem_size rest), n + length rest, cr3))"
    proof -
      have "quota (su_kernel d') = (\<lambda>j. if j = pid then map_option (\<lambda>(a, b, c). (a - shmem_size sf, b - 1, c)) (quota (su_kernel d) j) else quota (su_kernel d) j)"
        by (auto simp: d'(3) quota_def uncharge_surface_def map_of_upd decrement_surface_count_def uncharge_memory_def fun_eq_iff
            option.map_comp comp_def)
      then show ?thesis using i(7) own by (auto simp: rest_def)
    qed
    moreover have "limits_fine (su_kernel d')" using d'(3) limits_uncharge [OF i(6)] by simp
    ultimately have "session_inv base pid (mem, n, cr3) d0 d'" using i(2,5) o of d'(4,5) i0 by (auto simp: session_inv_def same_regs_def)
    moreover have "length (own pid d') + 1 = length (own pid d)" by (simp add: o(1) own rest_def)
    ultimately show ?thesis using d'(1) nx by auto
  qed
qed

subsection \<open>Whole histories\<close>

lemma session_inv_do:
  assumes "map_to_ok mp" and "unmap_ok mp" and "translate_ok mp" and "session_inv base pid (mem, n, cr3) d0 d"
    and "next_surface_id d < 2 ^ 64 - 1"
  shows "\<exists>d'. surface_do mp pid x d = Some d' \<and> session_inv base pid (mem, n, cr3) d0 d' \<and> next_surface_id d' \<le> next_surface_id d + 1"
proof (cases x)
  case (Create_Op reserved w h)
  then show ?thesis using session_inv_create [OF assms(1,2,4,5), of reserved w h] by auto
next
  case (Destroy_Op sid)
  then show ?thesis using session_inv_destroy [OF assms(2-4), of sid] by auto
next
  case (Present_Op sid x y w h)
  then show ?thesis using session_inv_present [OF assms(4)] by simp
next
  case (Draw_Op sid w h)
  then show ?thesis using session_inv_draw [OF assms(4), of sid w h] by auto
qed

lemma session_inv_run:
  assumes "map_to_ok mp" and "unmap_ok mp" and "translate_ok mp" and "session_inv base pid (mem, n, cr3) d0 d"
    and "next_surface_id d + length xs < 2 ^ 64"
  shows "\<exists>d'. surface_run mp pid xs d = Some d' \<and> session_inv base pid (mem, n, cr3) d0 d'"
  using assms(4,5)
proof (induction xs arbitrary: d)
  case (Cons x xs)
  have "next_surface_id d < 2 ^ 64 - 1" using Cons.prems(2) by simp
  from session_inv_do [OF assms(1-3) Cons.prems(1) this] obtain d1 where
    d1: "surface_do mp pid x d = Some d1" "session_inv base pid (mem, n, cr3) d0 d1" "next_surface_id d1 \<le> next_surface_id d + 1" by blast
  have "next_surface_id d1 + length xs < 2 ^ 64" using d1(3) Cons.prems(2) by simp
  from Cons.IH [OF d1(2) this] show ?case using d1(1) by simp
qed simp

lemma session_inv_start:
  assumes "ids_fine d" and "own pid d = []" and "accounted base cr3 (su_mmu d)" and "limits_fine (su_kernel d)"
    and "quota (su_kernel d) pid = Some (mem, n, cr3)"
  shows "session_inv base pid (mem, n, cr3) d d"
  using assms by (auto simp: session_inv_def own_fine_def own_frames_def fun_eq_iff same_regs_def)

lemma cleanup_rounds_effect:
  assumes "unmap_ok mp" and "translate_ok mp" and "session_inv base pid (mem, n, cr3) d0 d" and "length (own pid d) < k"
  shows "\<exists>d'. cleanup_rounds k mp pid d = Some d' \<and> session_inv base pid (mem, n, cr3) d0 d' \<and> own pid d' = []"
  using assms(3,4)
proof (induction k arbitrary: d)
  case (Suc k)
  show ?case
  proof (cases "find (\<lambda>s. sf_owner s = pid) (registry d)")
    case None
    then have "own pid d = []" by (auto simp: find_None_iff own_def filter_empty_conv)
    then show ?thesis using None Suc.prems(1) by simp
  next
    case (Some s)
    then have s: "s \<in> set (registry d)" "sf_owner s = pid" by (auto simp: find_Some_iff)
    from session_inv_destroy [OF assms(1,2) Suc.prems(1), of "surface_id s"] obtain r d1 where
      d1: "destroy_surface_for_pid mp pid (surface_id s) d = Some (r, d1)" "session_inv base pid (mem, n, cr3) d0 d1"
        "(\<exists>t\<in>set (registry d). sf_owner t = pid \<and> surface_id t = surface_id s) \<longrightarrow> is_ok r \<and> length (own pid d1) + 1 = length (own pid d)"
      by blast
    then have "is_ok r" "length (own pid d1) < k" using s Suc.prems(2) by auto
    then show ?thesis using d1(1) Some Suc.IH [OF d1(2)] by (auto simp: is_ok_def split: sum.splits)
  qed
qed simp

lemma session_inv_reload:
  assumes "session_inv base pid q d0 d"
  shows "session_inv base pid q (reload_kernel_cr3 d0) (reload_kernel_cr3 d)"
proof -
  have "accounted b c (su_mmu (reload_kernel_cr3 e)) = accounted b c (su_mmu e)" for b c e
    by (auto simp: reload_kernel_cr3_def accounted_def space_ok_def pool_fine_def in_use_def space_frames_def split: option.splits)
  moreover have "registry (reload_kernel_cr3 e) = registry e" "su_kernel (reload_kernel_cr3 e) = su_kernel e"
      "next_surface_id (reload_kernel_cr3 e) = next_surface_id e" "tables (su_mmu (reload_kernel_cr3 e)) = tables (su_mmu e)" for e
    by (simp_all add: reload_kernel_cr3_def split: option.splits)
  moreover have "same_regs (su_mmu d0) (su_mmu d) \<Longrightarrow> same_regs (su_mmu (reload_kernel_cr3 d0)) (su_mmu (reload_kernel_cr3 d))"
    by (auto simp: same_regs_def reload_kernel_cr3_def split: option.splits)
  ultimately show ?thesis using assms
    by (auto simp: session_inv_def ids_fine_def others_def own_fine_def own_frames_def own_def surface_live_def)
qed

lemma release_effect:
  assumes "accounted base cr3 (su_mmu d)" and "quota (su_kernel d) pid = Some (mem, n, cr3)" and "own pid d = []"
    and "active_cr3 (su_mmu d) \<noteq> cr3"
  shows "\<exists>d'. release_process_address_space pid d = Some (True, d') \<and> in_use (su_mmu d') = base \<and>
    quota (su_kernel d') = (quota (su_kernel d))(pid \<mapsto> (mem, n, 0)) \<and> registry d' = registry d"
proof -
  obtain m' where m': "destroy_user_address_space cr3 (su_mmu d) = Some (Ok (), m')" "in_use m' = base"
    using accounted_destroy [OF assms(1,4)] by blast
  have "cr3 \<noteq> 0" using assms(1) by (simp add: accounted_def space_ok_def)
  moreover obtain p where p: "bt_get (ktable (su_kernel d)) pid = Some p" "user_cr3 p = cr3" using assms(2) by (auto simp: quota_def)
  moreover have "\<not> list_ex (\<lambda>s. sf_owner s = pid) (registry d)"
    using assms(3) by (auto simp: own_def filter_empty_conv list_ex_iff)
  ultimately have "release_process_address_space pid d =
      Some (True, d\<lparr>su_mmu := m', su_kernel := upd_k pid (\<lambda>p. p\<lparr>user_cr3 := 0\<rparr>) (su_kernel d)\<rparr>)"
    using m'(1) assms(4) by (simp add: release_process_address_space_def Let_def)
  then show ?thesis using m'(2) assms(2) by (auto simp: quota_def map_of_upd fun_eq_iff)
qed


lemma own_render_target:
  assumes "session_inv base pid (mem, n, cr3) d0 d" and "s \<in> set (registry d)" and "sf_owner s = pid"
  shows "\<exists>w h d'. get_surface_render_target (surface_id s) pid rw rh d = Some (Some (shmem_phys_addr s, w, h), d') \<and> 1 \<le> w \<and> 1 \<le> h \<and>
    (\<forall>x<w. \<forall>y<h. 4 * (y * w + x) + 4 \<le> shmem_size s \<and> y * sf_stride s + 4 * x + 4 \<le> shmem_size s)"
proof -
  let ?P = "\<lambda>t. surface_id t = surface_id s \<and> sf_owner t = pid"
  obtain i where i: "position ?P (registry d) = Some i"
    using assms(2,3) position_None [of ?P "registry d"] by fastforce
  have ids: "distinct (map surface_id (registry d))" using assms(1) by (simp add: session_inv_def ids_fine_def)
  have "registry d ! i \<in> set (registry d)" "surface_id (registry d ! i) = surface_id s" using i by (auto simp: position_Some)
  then have s: "s = registry d ! i" using ids assms(2) by (auto simp: distinct_map inj_on_def)
  from render_target_bounds [OF own_member(3) [OF assms] i s] obtain w h where
    t: "get_surface_render_target (surface_id s) pid rw rh d =
      Some (Some (shmem_phys_addr s, w, h), d\<lparr>registry := (registry d)[i := s\<lparr>sf_width := w, sf_height := h\<rparr>]\<rparr>)"
    and b: "1 \<le> w" "1 \<le> h" "4 * w \<le> sf_stride s" "h * sf_stride s \<le> shmem_size s" by blast
  have px: "y * k + 4 * x + 4 \<le> shmem_size s" if "x < w" "y < h" "4 * w \<le> k" "k \<le> sf_stride s" for x y k
  proof -
    have "y * k + 4 * x + 4 \<le> Suc y * k" using that(1,3) by simp
    also have "\<dots> \<le> h * sf_stride s" using that(2,4) by (intro mult_le_mono) simp_all
    finally show ?thesis using b(4) by simp
  qed
  have "4 * (y * w + x) + 4 \<le> shmem_size s \<and> y * sf_stride s + 4 * x + 4 \<le> shmem_size s" if "x < w" "y < h" for x y
    using px [OF that, of "4 * w"] px [OF that b(3)] b(3) by (simp add: algebra_simps)
  then show ?thesis using t b(1,2) by blast
qed

text \<open>
  A drawing target lies inside the backing of its surface. After any history of surface calls, for each surface of the process and
  every size asked for, the kernel gets a target of at least one pixel, and every pixel it draws there, with rows as long as the
  target or as long as the stride, is within the surface's frames.
\<close>

theorem render_target_inside_backing:
  assumes "map_to_ok mp" and "unmap_ok mp" and "translate_ok mp" and "ids_fine d" and "own pid d = []"
    and "accounted base cr3 (su_mmu d)" and "limits_fine (su_kernel d)" and "quota (su_kernel d) pid = Some (mem, n, cr3)"
    and "next_surface_id d + length xs < 2 ^ 64"
  shows "\<exists>d1. surface_run mp pid xs d = Some d1 \<and>
    (\<forall>s\<in>set (registry d1). sf_owner s = pid \<longrightarrow>
      (\<exists>w h d'. get_surface_render_target (surface_id s) pid rw rh d1 = Some (Some (shmem_phys_addr s, w, h), d') \<and> 1 \<le> w \<and> 1 \<le> h \<and>
        (\<forall>x<w. \<forall>y<h. 4 * (y * w + x) + 4 \<le> shmem_size s \<and> y * sf_stride s + 4 * x + 4 \<le> shmem_size s)))"
  using session_inv_run [OF assms(1-3) session_inv_start [OF assms(4-8)] assms(9)] own_render_target by blast

subsection \<open>An example\<close>

lemma demo_surfaces_start: "ids_fine demo_surfaces" "own 1 demo_surfaces = []"
  by (simp_all add: demo_surfaces_def ids_fine_def own_def)


theorem render_target_inside_backing_witness:
  "\<exists>d1. surface_run walk_mapper 1 [Create_Op True 8 8, Draw_Op 1 4 4] demo_surfaces = Some d1 \<and>
    (\<forall>s\<in>set (registry d1). sf_owner s = 1 \<longrightarrow>
      (\<exists>w h d'. get_surface_render_target (surface_id s) 1 2000 2000 d1 = Some (Some (shmem_phys_addr s, w, h), d') \<and> 1 \<le> w \<and> 1 \<le> h \<and>
        (\<forall>x<w. \<forall>y<h. 4 * (y * w + x) + 4 \<le> shmem_size s \<and> y * sf_stride s + 4 * x + 4 \<le> shmem_size s)))"
proof -
  have "next_surface_id demo_surfaces + length [Create_Op True 8 8, Draw_Op 1 4 4] < 2 ^ 64" by (simp add: demo_surfaces_def)
  from render_target_inside_backing [OF walk_map_ok walk_unmap_ok walk_translate_ok demo_surfaces_start demo_surfaces_facts this]
  show ?thesis .
qed

end
