(* ===== verification/Window_Manager.thy ===== *)
theory Window_Manager
  imports Surface_Sessions Damage
begin

section \<open>The window manager\<close>

text \<open>
  \<^verbatim>\<open>kernel/src/wm.rs\<close>: the windows from back to front, which of them has the focus, the list of the most recently used ones, and
  what gestures and calls do to them. The size of the screen is the pair \<open>sw\<close>, \<open>sh\<close>, a global of the source with \<^verbatim>\<open>u16\<close> fields.
  \<open>None\<close> is a panic: an overflow in \<open>Damage\<close>, or \<^verbatim>\<open>clamp\<close> with its bounds out of order. Drawing is left out: redrawing a surface is
  the choice of its drawing target, which changes the registry of surfaces.
\<close>

subsection \<open>State\<close>

definition WORK_AREA_TOP :: int where "WORK_AREA_TOP = 24"
definition DOCK_HEIGHT :: nat where "DOCK_HEIGHT = 24"
definition MIN_WINDOW_WIDTH :: nat where "MIN_WINDOW_WIDTH = 120"
definition MIN_WINDOW_HEIGHT :: nat where "MIN_WINDOW_HEIGHT = 60"
definition EDGE_SNAP_THRESHOLD :: int where "EDGE_SNAP_THRESHOLD = 16"

datatype wm_error = InvalidDimensions | WindowNotFound | NotOwner | SurfaceNotFound | StaleHandle

datatype window_state = WNormal | Minimized | Maximized | Fullscreen | SnappedLeft | SnappedRight | WClosed

datatype resize_edge = EdgeNone | EdgeLeft | EdgeRight | EdgeTop | EdgeBottom | EdgeTopLeft | EdgeTopRight | EdgeBottomLeft | EdgeBottomRight

datatype chrome_button = ButtonNone | ButtonMinimize | ButtonMaximize | ButtonClose

record hover_target =
  ht_window :: nat
  ht_button :: chrome_button
  is_titlebar :: bool
  ht_edge :: resize_edge

datatype app_icon = IconLogo | IconTerminal | IconDemo | IconFiles | IconEditor | IconTaskMgr | IconSysMon | IconSettings | IconBrowser
  | IconTrash | IconGeneric

type_synonym geometry = "int \<times> int \<times> nat \<times> nat"

record window =
  window_id :: nat
  win_owner :: nat
  win_surface :: nat
  win_x :: int
  win_y :: int
  win_w :: nat
  win_h :: nat
  visible :: bool
  has_focus :: bool
  win_state :: window_state
  normal_geom :: geometry
  prev_state :: window_state
  saved_geom :: "geometry option"
  win_title :: string
  win_icon :: app_icon

abbreviation geom :: "window \<Rightarrow> geometry" where "geom w \<equiv> (win_x w, win_y w, win_w w, win_h w)"

datatype snap_preview = PreviewNone | PreviewLeft | PreviewRight | PreviewMaximized

record alt_tab_switcher =
  at_active :: bool
  selected_index :: nat
  at_candidates :: "nat list"

record window_manager =
  windows :: "window list"
  next_window_id :: nat
  focused_window :: "nat option"
  mru_list :: "nat list"
  alt_tab :: alt_tab_switcher
  snap_shown :: snap_preview
  dragging_window :: "(nat \<times> int \<times> int) option"
  resizing_window :: "(nat \<times> resize_edge \<times> int \<times> int \<times> int \<times> int \<times> nat \<times> nat) option"
  pending_resize_render :: "nat option"
  hovered_target :: "hover_target option"
  hovered_dock_tab :: "nat option"
  launcher_open :: bool
  launcher_selected :: nat
  pending_spawn_app :: "nat option"
  last_titlebar_click :: "(nat \<times> nat) option"
  damage_tracker :: tracker

definition new_wm :: window_manager where
  "new_wm = \<lparr>windows = [], next_window_id = 1, focused_window = None, mru_list = [],
     alt_tab = \<lparr>at_active = False, selected_index = 0, at_candidates = []\<rparr>, snap_shown = PreviewNone, dragging_window = None,
     resizing_window = None, pending_resize_render = None, hovered_target = None, hovered_dock_tab = None, launcher_open = False,
     launcher_selected = 0, pending_spawn_app = None, last_titlebar_click = None, damage_tracker = new_tracker\<rparr>"

text \<open>The applications of the launcher: their number in the list and their identifiers.\<close>

definition REGISTERED_APPS :: "nat list" where "REGISTERED_APPS = [1, 2, 3, 4, 5, 6]"

subsection \<open>Damage\<close>

definition mark_damage :: "int \<Rightarrow> int \<Rightarrow> nat \<Rightarrow> nat \<Rightarrow> window_manager \<Rightarrow> window_manager option" where
  "mark_damage x y w h m = do { t \<leftarrow> add_bounds x y w h (damage_tracker m); Some (m\<lparr>damage_tracker := t\<rparr>) }"

definition sub_sat :: "int \<Rightarrow> int \<Rightarrow> int" where
  "sub_sat a b = max (- (2 ^ 31)) (a - b)"

definition mark_window_damage :: "geometry \<Rightarrow> window_manager \<Rightarrow> window_manager option" where
  "mark_window_damage g m =
     (case g of (x, y, w, h) \<Rightarrow> do {
        w' \<leftarrow> checked_add 32 w 8;
        h' \<leftarrow> checked_add 32 h 28;
        mark_damage (sub_sat x 4) (sub_sat y 4) w' h' m
      })"

definition mark_full_damage :: "nat \<Rightarrow> nat \<Rightarrow> window_manager \<Rightarrow> window_manager option" where
  "mark_full_damage sw sh m = do { t \<leftarrow> add_full_screen sw sh (damage_tracker m); Some (m\<lparr>damage_tracker := t\<rparr>) }"

definition mark_top_bar_damage :: "nat \<Rightarrow> window_manager \<Rightarrow> window_manager option" where
  "mark_top_bar_damage sw m = mark_damage 0 0 sw (DOCK_HEIGHT + 2) m"

text \<open>The box around the old and the new place of a window.\<close>

definition mark_box :: "geometry \<Rightarrow> geometry \<Rightarrow> window_manager \<Rightarrow> window_manager option" where
  "mark_box old new m =
     (case old of (ox, oy, ow, oh) \<Rightarrow> case new of (nx, ny, nw, nh) \<Rightarrow> do {
        x \<leftarrow> chk_i32 (min ox nx - 4);
        y \<leftarrow> chk_i32 (min oy ny - 4);
        dx \<leftarrow> chk_i32 (ox - nx);
        ax \<leftarrow> chk_i32 \<bar>dx\<bar>;
        bw \<leftarrow> checked_add 32 (max ow nw) (nat ax);
        bw' \<leftarrow> checked_add 32 bw 8;
        dy \<leftarrow> chk_i32 (oy - ny);
        ay \<leftarrow> chk_i32 \<bar>dy\<bar>;
        bh \<leftarrow> checked_add 32 (max oh nh) (nat ay);
        bh' \<leftarrow> checked_add 32 bh 28;
        mark_damage x y bw' bh' m
      })"

text \<open>The decoration of a window that loses the focus.\<close>

definition mark_frame :: "window \<Rightarrow> window_manager \<Rightarrow> window_manager option" where
  "mark_frame w m = do {
     m1 \<leftarrow> mark_damage (win_x w) (win_y w) (win_w w) 20 m;
     y \<leftarrow> chk_i32 (win_y w + 20);
     m2 \<leftarrow> mark_damage (win_x w) y 1 (win_h w) m1;
     xr \<leftarrow> chk_i32 (win_x w + as_i32 (win_w w));
     xr1 \<leftarrow> chk_i32 (xr - 1);
     m3 \<leftarrow> mark_damage xr1 y 1 (win_h w) m2;
     yb \<leftarrow> chk_i32 (win_y w + as_i32 (win_h w));
     yb1 \<leftarrow> chk_i32 (yb + 19);
     mark_damage (win_x w) yb1 (win_w w) 1 m3
   }"

fun mark_frames :: "window list \<Rightarrow> window_manager \<Rightarrow> window_manager option" where
  "mark_frames [] m = Some m"
| "mark_frames (w # ws) m = do { m1 \<leftarrow> (if has_focus w then mark_frame w m else Some m); mark_frames ws m1 }"

text \<open>\<^verbatim>\<open>for w in self.windows.iter_mut()\<close>: the frames of the windows that had the focus are damaged, and all lose it.\<close>

definition drop_focus :: "window_manager \<Rightarrow> window_manager option" where
  "drop_focus m = do {
     m1 \<leftarrow> mark_frames (windows m) m;
     Some (m1\<lparr>windows := map (\<lambda>w. w\<lparr>has_focus := False\<rparr>) (windows m1)\<rparr>)
   }"

subsection \<open>The launcher\<close>

definition launcher_geom :: geometry where
  "launcher_geom = (4, int DOCK_HEIGHT + 2, 164, 34 + length REGISTERED_APPS * 28 + 26)"

definition mark_launcher_damage :: "window_manager \<Rightarrow> window_manager option" where
  "mark_launcher_damage m =
     (case launcher_geom of (x, y, w, h) \<Rightarrow> do { m1 \<leftarrow> mark_damage x y w h m; mark_damage 4 0 92 DOCK_HEIGHT m1 })"

definition launcher_nav_up :: "window_manager \<Rightarrow> window_manager option" where
  "launcher_nav_up m =
     mark_launcher_damage (m\<lparr>launcher_selected :=
       (if launcher_selected m = 0 then length REGISTERED_APPS - 1 else launcher_selected m - 1)\<rparr>)"

definition launcher_nav_down :: "window_manager \<Rightarrow> window_manager option" where
  "launcher_nav_down m = do {
     i \<leftarrow> checked_add 64 (launcher_selected m) 1;
     mark_launcher_damage (m\<lparr>launcher_selected := i mod length REGISTERED_APPS\<rparr>)
   }"

definition launcher_get_selected_app :: "window_manager \<Rightarrow> nat option" where
  "launcher_get_selected_app m =
     (if launcher_open m \<and> launcher_selected m < length REGISTERED_APPS then Some (REGISTERED_APPS ! launcher_selected m) else None)"

subsection \<open>Order and focus\<close>

definition find_window :: "nat \<Rightarrow> window_manager \<Rightarrow> nat option" where
  "find_window wid m = position (\<lambda>w. window_id w = wid) (windows m)"

definition own_window :: "nat \<Rightarrow> nat \<Rightarrow> window_manager \<Rightarrow> (wm_error, nat) result" where
  "own_window pid wid m =
     (case find_window wid m of
        None \<Rightarrow> Err WindowNotFound
      | Some i \<Rightarrow> if win_owner (windows m ! i) \<noteq> pid then Err NotOwner else Ok i)"

definition clean_mru :: "window_manager \<Rightarrow> window_manager" where
  "clean_mru m = m\<lparr>mru_list := filter (\<lambda>i. list_ex (\<lambda>w. window_id w = i \<and> win_state w \<noteq> WClosed) (windows m)) (mru_list m)\<rparr>"

definition touch_mru :: "nat \<Rightarrow> window_manager \<Rightarrow> window_manager" where
  "touch_mru wid m = clean_mru (m\<lparr>mru_list := wid # filter (\<lambda>i. i \<noteq> wid) (mru_list m)\<rparr>)"

definition raise_to_top_internal :: "nat \<Rightarrow> nat \<Rightarrow> window_manager \<Rightarrow> ((wm_error, unit) result \<times> window_manager) option" where
  "raise_to_top_internal sw wid m =
     (if windows m = [] then Some (Err WindowNotFound, m)
      else if window_id (last (windows m)) = wid \<and> focused_window m = Some wid then Some (Ok (), m)
      else case find_window wid m of
        None \<Rightarrow> Some (Err WindowNotFound, m)
      | Some i \<Rightarrow> do {
          let w = windows m ! i;
          m1 \<leftarrow> drop_focus (m\<lparr>windows := list_remove i (windows m)\<rparr>);
          m2 \<leftarrow> mark_window_damage (geom w) (m1\<lparr>focused_window := Some wid\<rparr>);
          m3 \<leftarrow> mark_top_bar_damage sw m2;
          Some (Ok (), touch_mru wid (m3\<lparr>windows := windows m3 @ [w\<lparr>has_focus := True\<rparr>]\<rparr>))
        })"

definition raise_to_top :: "nat \<Rightarrow> nat \<Rightarrow> nat \<Rightarrow> window_manager \<Rightarrow> ((wm_error, unit) result \<times> window_manager) option" where
  "raise_to_top sw pid wid m =
     (case own_window pid wid m of Inl e \<Rightarrow> Some (Err e, m) | Inr _ \<Rightarrow> raise_to_top_internal sw wid m)"

text \<open>The focus goes to the topmost window that is shown, when the one that had it is gone.\<close>

definition top_shown :: "window list \<Rightarrow> nat option" where
  "top_shown ws = map_option window_id (find (\<lambda>w. visible w \<and> win_state w \<noteq> Minimized) (rev ws))"

definition refocus :: "window_manager \<Rightarrow> window_manager option" where
  "refocus m = do {
     let f = top_shown (windows m);
     let m1 = m\<lparr>focused_window := f, windows := map (\<lambda>w. w\<lparr>has_focus := (Some (window_id w) = f)\<rparr>) (windows m)\<rparr>;
     m2 \<leftarrow> (case find has_focus (rev (windows m1)) of Some w \<Rightarrow> mark_window_damage (geom w) m1 | None \<Rightarrow> Some m1);
     Some (case f of Some i \<Rightarrow> touch_mru i m2 | None \<Rightarrow> m2)
   }"

subsection \<open>Making, moving and hiding windows\<close>

record desk =
  d_wm :: window_manager
  d_surf :: surfaces

definition icon_of :: "string \<Rightarrow> app_icon" where
  "icon_of name =
     (if name = ''terminal.app'' then IconTerminal else if name = ''files.app'' then IconFiles
      else if name = ''editor.app'' then IconEditor else if name = ''taskmgr.app'' then IconTaskMgr
      else if name = ''sysmon.app'' then IconSysMon else if name = ''settings.app'' then IconSettings
      else if name = ''browser.app'' then IconBrowser else if name = ''live_demo_app'' then IconDemo else IconGeneric)"

definition title_of :: "string \<Rightarrow> string" where
  "title_of name =
     (if name = ''terminal.app'' then ''Terminal'' else if name = ''files.app'' then ''Files''
      else if name = ''editor.app'' then ''Text Editor'' else if name = ''taskmgr.app'' then ''Task Manager''
      else if name = ''sysmon.app'' then ''System Monitor'' else if name = ''settings.app'' then ''Settings''
      else if name = ''browser.app'' then ''Web Browser'' else if name = ''live_demo_app'' then ''Demo App''
      else ''SparkOS Application'')"

text \<open>The window is entered in the process that owns it; a full quota is ignored.\<close>

definition attach_window :: "nat \<Rightarrow> process \<Rightarrow> process" where
  "attach_window wid p =
     (let q = (case increment_window_count p of Inl _ \<Rightarrow> p | Inr q \<Rightarrow> q) in
      if wid \<in> set (owned_windows q) then q else q\<lparr>owned_windows := owned_windows q @ [wid]\<rparr>)"

definition place_window :: "nat \<Rightarrow> nat \<Rightarrow> int \<Rightarrow> int \<Rightarrow> nat \<Rightarrow> nat \<Rightarrow> geometry option" where
  "place_window sw sh x y w h = do {
     cw \<leftarrow> clamp w MIN_WINDOW_WIDTH sw;
     ch \<leftarrow> clamp h MIN_WINDOW_HEIGHT (sh - (nat WORK_AREA_TOP + DOCK_HEIGHT));
     cx \<leftarrow> clamp_i32 x 0 (as_i32 (sw - cw));
     cy \<leftarrow> clamp_i32 y WORK_AREA_TOP (as_i32 (sh - (ch + DOCK_HEIGHT + 20)));
     Some (cx, cy, cw, ch)
   }"

text \<open>The new window goes on top and takes the focus; \<open>f\<close> makes it from its number.\<close>

definition add_window :: "nat \<Rightarrow> (nat \<Rightarrow> window) \<Rightarrow> window_manager \<Rightarrow> (nat \<times> window_manager) option" where
  "add_window sw f m = do {
     let wid = next_window_id m;
     nxt \<leftarrow> checked_add 64 wid 1;
     m1 \<leftarrow> drop_focus (m\<lparr>next_window_id := nxt\<rparr>);
     let m2 = touch_mru wid (m1\<lparr>windows := windows m1 @ [f wid], focused_window := Some wid\<rparr>);
     m3 \<leftarrow> mark_window_damage (geom (f wid)) m2;
     m4 \<leftarrow> mark_top_bar_damage sw m3;
     Some (wid, m4)
   }"

definition new_window :: "nat \<Rightarrow> nat \<Rightarrow> geometry \<Rightarrow> string \<Rightarrow> app_icon \<Rightarrow> nat \<Rightarrow> window" where
  "new_window pid sid g title icon wid =
     (case g of (x, y, w, h) \<Rightarrow>
        \<lparr>window_id = wid, win_owner = pid, win_surface = sid, win_x = x, win_y = y, win_w = w, win_h = h, visible = True,
         has_focus = True, win_state = WNormal, normal_geom = g, prev_state = WNormal, saved_geom = None,
         win_title = title, win_icon = icon\<rparr>)"

definition create_window_with_meta ::
    "nat \<Rightarrow> nat \<Rightarrow> nat \<Rightarrow> nat \<Rightarrow> int \<Rightarrow> int \<Rightarrow> nat \<Rightarrow> nat \<Rightarrow> string \<Rightarrow> app_icon \<Rightarrow> desk \<Rightarrow> ((wm_error, nat) result \<times> desk) option" where
  "create_window_with_meta sw sh pid sid x y w h title icon d =
     (if w = 0 \<or> h = 0 \<or> w > sw \<or> h > sh then Some (Err InvalidDimensions, d)
      else if sid \<noteq> 0 \<and> \<not> list_ex (\<lambda>s. surface_id s = sid \<and> sf_owner s = pid) (registry (d_surf d)) then Some (Err SurfaceNotFound, d)
      else do {
        g \<leftarrow> place_window sw sh x y w h;
        (wid, m) \<leftarrow> add_window sw (new_window pid sid g title icon) (d_wm d);
        Some (Ok wid, d\<lparr>d_wm := m, d_surf := (d_surf d)\<lparr>su_kernel := upd_k pid (attach_window wid) (su_kernel (d_surf d))\<rparr>\<rparr>)
      })"

definition create_window :: "nat \<Rightarrow> nat \<Rightarrow> nat \<Rightarrow> nat \<Rightarrow> int \<Rightarrow> int \<Rightarrow> nat \<Rightarrow> nat \<Rightarrow> desk \<Rightarrow> ((wm_error, nat) result \<times> desk) option" where
  "create_window sw sh pid sid x y w h d =
     (let (title, icon) = (case bt_get (ktable (su_kernel (d_surf d))) pid of
                             Some p \<Rightarrow> (title_of (pname p), icon_of (pname p))
                           | None \<Rightarrow> (''SparkOS Application'', IconGeneric))
      in create_window_with_meta sw sh pid sid x y w h title icon d)"

definition set_window_title :: "nat \<Rightarrow> string \<Rightarrow> window_manager \<Rightarrow> ((wm_error, unit) result \<times> window_manager) option" where
  "set_window_title wid title m =
     (case find_window wid m of
        None \<Rightarrow> Some (Err WindowNotFound, m)
      | Some i \<Rightarrow> do {
          let w = windows m ! i;
          m1 \<leftarrow> mark_window_damage (geom w) (m\<lparr>windows := (windows m)[i := w\<lparr>win_title := title\<rparr>]\<rparr>);
          Some (Ok (), m1)
        })"

definition minimize_window :: "nat \<Rightarrow> nat \<Rightarrow> nat \<Rightarrow> window_manager \<Rightarrow> ((wm_error, unit) result \<times> window_manager) option" where
  "minimize_window sw pid wid m =
     (case own_window pid wid m of
        Inl e \<Rightarrow> Some (Err e, m)
      | Inr i \<Rightarrow> do {
          let w = windows m ! i;
          let w1 = w\<lparr>prev_state := (if win_state w \<noteq> Minimized then win_state w else prev_state w), visible := False, has_focus := False,
                     win_state := Minimized\<rparr>;
          m1 \<leftarrow> mark_window_damage (geom w) (m\<lparr>windows := (windows m)[i := w1]\<rparr>);
          m2 \<leftarrow> mark_top_bar_damage sw m1;
          m3 \<leftarrow> (if focused_window m2 = Some wid then refocus m2 else Some m2);
          Some (Ok (), m3)
        })"

definition move_window :: "nat \<Rightarrow> nat \<Rightarrow> nat \<Rightarrow> nat \<Rightarrow> int \<Rightarrow> int \<Rightarrow> window_manager \<Rightarrow> ((wm_error, unit) result \<times> window_manager) option" where
  "move_window sw sh pid wid x y m =
     (case own_window pid wid m of
        Inl e \<Rightarrow> Some (Err e, m)
      | Inr i \<Rightarrow> do {
          let w = windows m ! i;
          cx \<leftarrow> clamp_i32 x (- 100) (int sw - 50);
          cy \<leftarrow> clamp_i32 y WORK_AREA_TOP (int sh - (int DOCK_HEIGHT + 30));
          let w1 = w\<lparr>win_x := cx, win_y := cy\<rparr>;
          let w2 = (if win_state w1 = WNormal then w1\<lparr>normal_geom := geom w1\<rparr> else w1);
          m1 \<leftarrow> mark_window_damage (geom w) (m\<lparr>windows := (windows m)[i := w2]\<rparr>);
          m2 \<leftarrow> mark_window_damage (geom w2) m1;
          Some (Ok (), m2)
        })"

subsection \<open>States of a window\<close>

text \<open>\<^verbatim>\<open>rerender_app_surface\<close> asks for a drawing target of the new size; what the application draws there is not modelled.\<close>

definition rerender_app_surface :: "window \<Rightarrow> desk \<Rightarrow> desk option" where
  "rerender_app_surface w d = do {
     (_, s) \<leftarrow> get_surface_render_target (win_surface w) (win_owner w) (win_w w) (win_h w) (d_surf d);
     Some (d\<lparr>d_surf := s\<rparr>)
   }"

definition set_geom :: "geometry \<Rightarrow> window \<Rightarrow> window" where
  "set_geom g w = (case g of (x, y, wd, ht) \<Rightarrow> w\<lparr>win_x := x, win_y := y, win_w := wd, win_h := ht\<rparr>)"

definition work_geom :: "nat \<Rightarrow> nat \<Rightarrow> geometry" where "work_geom sw sh = (0, WORK_AREA_TOP, sw, sh - nat WORK_AREA_TOP)"
definition left_geom :: "nat \<Rightarrow> nat \<Rightarrow> geometry" where "left_geom sw sh = (0, WORK_AREA_TOP, sw div 2, sh - nat WORK_AREA_TOP)"
definition right_geom :: "nat \<Rightarrow> nat \<Rightarrow> geometry" where
  "right_geom sw sh = (int (sw div 2), WORK_AREA_TOP, sw - sw div 2, sh - nat WORK_AREA_TOP)"

definition restored :: "nat \<Rightarrow> nat \<Rightarrow> window \<Rightarrow> window" where
  "restored sw sh w =
     (let w1 = (if win_state w = Minimized then w\<lparr>win_state := prev_state w\<rparr> else w)\<lparr>visible := True\<rparr> in
      case win_state w1 of
        Maximized \<Rightarrow> set_geom (work_geom sw sh) w1
      | Fullscreen \<Rightarrow> set_geom (0, 0, sw, sh) w1
      | SnappedLeft \<Rightarrow> set_geom (left_geom sw sh) w1
      | SnappedRight \<Rightarrow> set_geom (right_geom sw sh) w1
      | _ \<Rightarrow> set_geom (normal_geom w1) (w1\<lparr>win_state := WNormal\<rparr>))"

definition on_wm :: "(window_manager \<Rightarrow> ('a \<times> window_manager) option) \<Rightarrow> desk \<Rightarrow> ('a \<times> desk) option" where
  "on_wm f d = do { (r, m) \<leftarrow> f (d_wm d); Some (r, d\<lparr>d_wm := m\<rparr>) }"

definition restore_window :: "nat \<Rightarrow> nat \<Rightarrow> nat \<Rightarrow> nat \<Rightarrow> desk \<Rightarrow> ((wm_error, unit) result \<times> desk) option" where
  "restore_window sw sh pid wid d =
     (case own_window pid wid (d_wm d) of
        Inl e \<Rightarrow> Some (Err e, d)
      | Inr i \<Rightarrow> do {
          let m = d_wm d;
          let w = restored sw sh (windows m ! i);
          d1 \<leftarrow> rerender_app_surface w (d\<lparr>d_wm := m\<lparr>windows := (windows m)[i := w]\<rparr>\<rparr>);
          m1 \<leftarrow> mark_window_damage (geom w) (d_wm d1);
          m2 \<leftarrow> mark_top_bar_damage sw m1;
          on_wm (raise_to_top_internal sw wid) (d1\<lparr>d_wm := m2\<rparr>)
        })"

definition keep_normal :: "window \<Rightarrow> window" where
  "keep_normal w = (if win_state w = WNormal then w\<lparr>normal_geom := geom w\<rparr> else w)"

definition snap_to :: "nat \<Rightarrow> geometry \<Rightarrow> window_state \<Rightarrow> nat \<Rightarrow> nat \<Rightarrow> desk \<Rightarrow> ((wm_error, unit) result \<times> desk) option" where
  "snap_to sw g st pid wid d =
     (case own_window pid wid (d_wm d) of
        Inl e \<Rightarrow> Some (Err e, d)
      | Inr i \<Rightarrow> do {
          let m = d_wm d;
          let w = windows m ! i;
          let w1 = (set_geom g (keep_normal w))\<lparr>win_state := st, prev_state := WNormal\<rparr>;
          d1 \<leftarrow> rerender_app_surface w1 (d\<lparr>d_wm := m\<lparr>windows := (windows m)[i := w1]\<rparr>\<rparr>);
          m1 \<leftarrow> mark_box (geom w) g (d_wm d1);
          on_wm (raise_to_top_internal sw wid) (d1\<lparr>d_wm := m1\<rparr>)
        })"

definition snap_left :: "nat \<Rightarrow> nat \<Rightarrow> nat \<Rightarrow> nat \<Rightarrow> desk \<Rightarrow> ((wm_error, unit) result \<times> desk) option" where
  "snap_left sw sh = snap_to sw (left_geom sw sh) SnappedLeft"

definition snap_right :: "nat \<Rightarrow> nat \<Rightarrow> nat \<Rightarrow> nat \<Rightarrow> desk \<Rightarrow> ((wm_error, unit) result \<times> desk) option" where
  "snap_right sw sh = snap_to sw (right_geom sw sh) SnappedRight"

text \<open>Back to the normal place; \<open>hmax\<close> is the height the window may have.\<close>

definition back_to_normal :: "nat \<Rightarrow> nat \<Rightarrow> nat \<Rightarrow> window \<Rightarrow> window option" where
  "back_to_normal sw sh hmax w =
     (case normal_geom w of (nx, ny, nw, nh) \<Rightarrow> do {
        x \<leftarrow> clamp_i32 nx 0 (as_i32 (sw - MIN_WINDOW_WIDTH));
        y \<leftarrow> clamp_i32 ny WORK_AREA_TOP (as_i32 (sh - (MIN_WINDOW_HEIGHT + 20)));
        wd \<leftarrow> clamp nw MIN_WINDOW_WIDTH sw;
        ht \<leftarrow> clamp nh MIN_WINDOW_HEIGHT hmax;
        Some ((set_geom (x, y, wd, ht) w)\<lparr>win_state := WNormal, saved_geom := None\<rparr>)
      })"

definition toggled_max :: "nat \<Rightarrow> nat \<Rightarrow> window \<Rightarrow> window option" where
  "toggled_max sw sh w =
     (if win_state w = Maximized then do {
        w1 \<leftarrow> back_to_normal sw sh (sh - nat WORK_AREA_TOP) w;
        Some (w1\<lparr>prev_state := WNormal\<rparr>)
      }
      else
        let w1 = keep_normal w in
        Some ((set_geom (work_geom sw sh) w1)\<lparr>saved_geom := Some (normal_geom w1), win_state := Maximized, prev_state := WNormal\<rparr>))"

definition toggled_full :: "nat \<Rightarrow> nat \<Rightarrow> window \<Rightarrow> window option" where
  "toggled_full sw sh w =
     (if win_state w = Fullscreen then do {
        w1 \<leftarrow> (if prev_state w = Maximized then Some ((set_geom (work_geom sw sh) w)\<lparr>win_state := Maximized\<rparr>)
               else back_to_normal sw sh sh w);
        Some (w1\<lparr>prev_state := WNormal\<rparr>)
      }
      else
        let w1 = keep_normal (w\<lparr>prev_state := win_state w\<rparr>) in
        Some ((set_geom (0, 0, sw, sh) w1)\<lparr>saved_geom := Some (normal_geom w1), win_state := Fullscreen\<rparr>))"

definition toggle_with :: "nat \<Rightarrow> nat \<Rightarrow> (window \<Rightarrow> window option) \<Rightarrow> nat \<Rightarrow> nat \<Rightarrow> desk \<Rightarrow> ((wm_error, unit) result \<times> desk) option" where
  "toggle_with sw sh f pid wid d = do {
     m \<leftarrow> mark_full_damage sw sh (d_wm d);
     case own_window pid wid m of
       Inl e \<Rightarrow> Some (Err e, d\<lparr>d_wm := m\<rparr>)
     | Inr i \<Rightarrow> do {
         w \<leftarrow> f (windows m ! i);
         d1 \<leftarrow> rerender_app_surface w (d\<lparr>d_wm := m\<lparr>windows := (windows m)[i := w]\<rparr>\<rparr>);
         on_wm (raise_to_top_internal sw wid) d1
       }
   }"

definition toggle_maximize_window :: "nat \<Rightarrow> nat \<Rightarrow> nat \<Rightarrow> nat \<Rightarrow> desk \<Rightarrow> ((wm_error, unit) result \<times> desk) option" where
  "toggle_maximize_window sw sh = toggle_with sw sh (toggled_max sw sh)"

definition toggle_fullscreen :: "nat \<Rightarrow> nat \<Rightarrow> nat \<Rightarrow> nat \<Rightarrow> desk \<Rightarrow> ((wm_error, unit) result \<times> desk) option" where
  "toggle_fullscreen sw sh = toggle_with sw sh (toggled_full sw sh)"

subsection \<open>Switching with Alt and Tab\<close>

definition half :: "int \<Rightarrow> int" where "half i = (if 0 \<le> i then i div 2 else - ((- i) div 2))"

definition mark_switcher :: "nat \<Rightarrow> nat \<Rightarrow> window_manager \<Rightarrow> window_manager option" where
  "mark_switcher sw sh m =
     (let hud_w = min 400 (int sw - 40) in
      do {
        w' \<leftarrow> checked_add 32 (as_u32 hud_w) 8;
        mark_damage (half (int sw - hud_w) - 4) (half (int sh - 100) - 4) w' 108 m
      })"

definition alt_tab_press :: "nat \<Rightarrow> nat \<Rightarrow> bool \<Rightarrow> window_manager \<Rightarrow> window_manager option" where
  "alt_tab_press sw sh is_shift m =
     (let m1 = clean_mru m; c = mru_list m1; n = length c; a = alt_tab m1 in
      if c = [] then Some m1
      else
        let i = (if \<not> at_active a then (if n \<ge> 2 then (if is_shift then n - 1 else 1) else 0)
                 else if is_shift then (if selected_index a = 0 then n - 1 else selected_index a - 1)
                 else (selected_index a + 1) mod n)
        in mark_switcher sw sh (m1\<lparr>alt_tab := \<lparr>at_active = True, selected_index = i, at_candidates = c\<rparr>\<rparr>))"

definition switch_to :: "nat \<Rightarrow> nat \<Rightarrow> nat \<Rightarrow> desk \<Rightarrow> (bool \<times> desk) option" where
  "switch_to sw sh target d =
     (case find_window target (d_wm d) of
        None \<Rightarrow> Some (False, d)
      | Some i \<Rightarrow> do {
          let w = windows (d_wm d) ! i;
          (_, d1) \<leftarrow> (if win_state w = Minimized then restore_window sw sh (win_owner w) target d
                     else on_wm (raise_to_top_internal sw target) d);
          Some (True, d1\<lparr>d_wm := touch_mru target (d_wm d1)\<rparr>)
        })"

definition alt_tab_commit :: "nat \<Rightarrow> nat \<Rightarrow> desk \<Rightarrow> (nat option \<times> desk) option" where
  "alt_tab_commit sw sh d =
     (if \<not> at_active (alt_tab (d_wm d)) then Some (None, d)
      else do {
        m \<leftarrow> mark_switcher sw sh (d_wm d);
        let a = alt_tab m;
        let d1 = d\<lparr>d_wm := m\<lparr>alt_tab := a\<lparr>at_active := False\<rparr>\<rparr>\<rparr>;
        if at_candidates a = [] then Some (None, d1)
        else do {
          let target = at_candidates a ! min (selected_index a) (length (at_candidates a) - 1);
          (ok, d2) \<leftarrow> switch_to sw sh target d1;
          Some (if ok then Some target else None, d2)
        }
      })"

definition alt_tab_cancel :: "nat \<Rightarrow> nat \<Rightarrow> window_manager \<Rightarrow> window_manager option" where
  "alt_tab_cancel sw sh m =
     (if \<not> at_active (alt_tab m) then Some m
      else do { m1 \<leftarrow> mark_switcher sw sh m; Some (m1\<lparr>alt_tab := (alt_tab m1)\<lparr>at_active := False\<rparr>\<rparr>) })"

definition alt_tab_cycle :: "nat \<Rightarrow> nat \<Rightarrow> desk \<Rightarrow> (nat option \<times> desk) option" where
  "alt_tab_cycle sw sh d =
     (let m = clean_mru (d_wm d); d1 = d\<lparr>d_wm := m\<rparr> in
      if mru_list m = [] then Some (None, d1)
      else do {
        (_, d2) \<leftarrow> switch_to sw sh (if length (mru_list m) \<ge> 2 then mru_list m ! 1 else mru_list m ! 0) d1;
        Some (focused_window (d_wm d2), d2)
      })"

subsection \<open>Mouse and keyboard\<close>

text \<open>
  The sums of a corner and an extent that the tests below form fit \<^verbatim>\<open>i32\<close> when the window is within it by a margin; a window beyond
  counts as a panic.
\<close>

definition sums_fit :: "window \<Rightarrow> bool" where
  "sums_fit w \<longleftrightarrow> win_w w < 2 ^ 31 \<and> win_h w < 2 ^ 31 \<and> - (2 ^ 31) + 64 \<le> win_x w \<and> win_x w + int (win_w w) + 64 < 2 ^ 31 \<and>
     - (2 ^ 31) + 64 \<le> win_y w \<and> win_y w + int (win_h w) + 64 < 2 ^ 31"

fun hit_scan :: "int \<Rightarrow> int \<Rightarrow> window list \<Rightarrow> nat option option" where
  "hit_scan mx my [] = Some None"
| "hit_scan mx my (w # ws) =
     (if \<not> visible w then hit_scan mx my ws
      else if \<not> sums_fit w then None
      else if win_x w \<le> mx \<and> mx < win_x w + int (win_w w) \<and> win_y w \<le> my \<and> my < win_y w + (int (win_h w) + 20)
      then Some (Some (window_id w))
      else hit_scan mx my ws)"

definition hit_test :: "int \<Rightarrow> int \<Rightarrow> window_manager \<Rightarrow> nat option option" where
  "hit_test mx my m = hit_scan mx my (rev (windows m))"

definition owner_of :: "nat \<Rightarrow> window_manager \<Rightarrow> nat option" where
  "owner_of wid m = map_option (\<lambda>i. win_owner (windows m ! i)) (find_window wid m)"

definition dispatch_mouse_click :: "nat \<Rightarrow> int \<Rightarrow> int \<Rightarrow> window_manager \<Rightarrow> ((nat \<times> nat) option \<times> window_manager) option" where
  "dispatch_mouse_click sw mx my m = do {
     t \<leftarrow> hit_test mx my m;
     case t of
       None \<Rightarrow> Some (None, m)
     | Some wid \<Rightarrow> do { (_, m1) \<leftarrow> raise_to_top_internal sw wid m; Some (map_option (Pair wid) (owner_of wid m1), m1) }
   }"

definition dispatch_keyboard_input :: "window_manager \<Rightarrow> (nat \<times> nat) option" where
  "dispatch_keyboard_input m = do { wid \<leftarrow> focused_window m; pid \<leftarrow> owner_of wid m; Some (wid, pid) }"

text \<open>Where on a window a button goes down; the first window from the top that is hit takes it.\<close>

datatype zone = OnFull | OnEdge resize_edge | OnClose | OnMaximize | OnMinimize | OnTitle | OnClient

definition edge_at :: "int \<Rightarrow> int \<Rightarrow> window \<Rightarrow> resize_edge" where
  "edge_at mx my w =
     (let x = win_x w; y = win_y w; r = win_x w + int (win_w w); b = win_y w + 20 + int (win_h w);
          atl = (x - 6 \<le> mx \<and> mx \<le> x + 8); atr = (r - 8 \<le> mx \<and> mx \<le> r + 6);
          att = (y - 6 \<le> my \<and> my \<le> y + 8); atb = (b - 8 \<le> my \<and> my \<le> b + 6)
      in if atl \<and> att then EdgeTopLeft
         else if atr \<and> att then EdgeTopRight
         else if atl \<and> atb then EdgeBottomLeft
         else if atr \<and> atb then EdgeBottomRight
         else if x - 6 \<le> mx \<and> mx \<le> x + 4 \<and> y \<le> my \<and> my \<le> b then EdgeLeft
         else if r - 4 \<le> mx \<and> mx \<le> r + 6 \<and> y \<le> my \<and> my \<le> b then EdgeRight
         else if x \<le> mx \<and> mx \<le> r \<and> y - 6 \<le> my \<and> my \<le> y + 4 then EdgeTop
         else if x \<le> mx \<and> mx \<le> r \<and> b - 4 \<le> my \<and> my \<le> b + 6 then EdgeBottom
         else EdgeNone)"

definition button_at :: "int \<Rightarrow> int \<Rightarrow> window \<Rightarrow> chrome_button" where
  "button_at mx my w =
     (let r = win_x w + int (win_w w) in
      if \<not> (win_y w + 2 \<le> my \<and> my \<le> win_y w + 18) then ButtonNone
      else if r - 20 \<le> mx \<and> mx \<le> r - 4 then ButtonClose
      else if r - 38 \<le> mx \<and> mx \<le> r - 22 then ButtonMaximize
      else if r - 56 \<le> mx \<and> mx \<le> r - 40 then ButtonMinimize
      else ButtonNone)"

definition on_title :: "int \<Rightarrow> int \<Rightarrow> window \<Rightarrow> bool" where
  "on_title mx my w \<longleftrightarrow> win_x w \<le> mx \<and> mx < win_x w + int (win_w w) \<and> win_y w \<le> my \<and> my < win_y w + 20"

definition on_client :: "int \<Rightarrow> int \<Rightarrow> window \<Rightarrow> bool" where
  "on_client mx my w \<longleftrightarrow> win_x w \<le> mx \<and> mx < win_x w + int (win_w w) \<and> win_y w + 20 \<le> my \<and> my < win_y w + 20 + int (win_h w)"

definition zone_at :: "int \<Rightarrow> int \<Rightarrow> window \<Rightarrow> zone option" where
  "zone_at mx my w =
     (if win_state w = Fullscreen then Some OnFull
      else if win_state w \<noteq> Maximized \<and> edge_at mx my w \<noteq> EdgeNone then Some (OnEdge (edge_at mx my w))
      else if on_title mx my w then
        Some (case button_at mx my w of ButtonClose \<Rightarrow> OnClose | ButtonMaximize \<Rightarrow> OnMaximize | ButtonMinimize \<Rightarrow> OnMinimize
              | ButtonNone \<Rightarrow> OnTitle)
      else if on_client mx my w then Some OnClient
      else None)"

fun zone_scan :: "int \<Rightarrow> int \<Rightarrow> window list \<Rightarrow> (window \<times> zone) option option" where
  "zone_scan mx my [] = Some None"
| "zone_scan mx my (w # ws) =
     (if \<not> visible w \<or> win_state w = Minimized then zone_scan mx my ws
      else if win_state w \<noteq> Fullscreen \<and> \<not> sums_fit w then None
      else case zone_at mx my w of Some z \<Rightarrow> Some (Some (w, z)) | None \<Rightarrow> zone_scan mx my ws)"

text \<open>
  What a press leaves to do: nothing, an event for a window and its owner, or the request to close a window, which
  is the last thing the handler does.
\<close>

datatype press = Handled "(nat \<times> nat) option" | CloseRequest nat nat

fun launcher_item :: "int \<Rightarrow> int \<Rightarrow> nat list \<Rightarrow> nat option \<times> int" where
  "launcher_item my y [] = (None, y)"
| "launcher_item my y (a # as) = (if y \<le> my \<and> my < y + 24 then (Some a, y) else launcher_item my (y + 28) as)"

definition press_launcher :: "int \<Rightarrow> int \<Rightarrow> window_manager \<Rightarrow> (bool \<times> window_manager) option" where
  "press_launcher mx my m =
     (if \<not> launcher_open m then Some (False, m)
      else case launcher_geom of (px, py, pw, ph) \<Rightarrow>
        let shut = (\<lambda>m1. mark_damage px py pw ph (m1\<lparr>launcher_open := False\<rparr>)) in
        if px \<le> mx \<and> mx < px + int pw \<and> py \<le> my \<and> my < py + int ph then
          (case launcher_item my (py + 28) REGISTERED_APPS of
             (Some a, _) \<Rightarrow> do { m1 \<leftarrow> shut (m\<lparr>pending_spawn_app := Some a\<rparr>); Some (True, m1) }
           | (None, y) \<Rightarrow> if y \<le> my \<and> my < y + 20 then do { m1 \<leftarrow> shut m; Some (True, m1) } else Some (False, m))
        else if \<not> (4 \<le> mx \<and> mx \<le> 92 \<and> my < int DOCK_HEIGHT) then do { m1 \<leftarrow> shut m; Some (False, m1) }
        else Some (False, m))"

definition press_tab :: "nat \<Rightarrow> nat \<Rightarrow> int \<Rightarrow> desk \<Rightarrow> (press \<times> desk) option" where
  "press_tab sw sh mx d =
     (let m = d_wm d; i = nat ((mx - 102) div 92) in
      if 102 \<le> mx \<and> mx \<le> int sw - 200 \<and> i < length (windows m) then do {
        let w = windows m ! i;
        let wid = window_id w;
        (_, d1) \<leftarrow> (if win_state w = Minimized then restore_window sw sh (win_owner w) wid d
                   else if focused_window m = Some wid then on_wm (minimize_window sw (win_owner w) wid) d
                   else on_wm (raise_to_top_internal sw wid) d);
        m1 \<leftarrow> mark_top_bar_damage sw (d_wm d1);
        Some (Handled (Some (wid, win_owner w)), d1\<lparr>d_wm := m1\<rparr>)
      }
      else Some (Handled None, d))"

definition press_window :: "nat \<Rightarrow> nat \<Rightarrow> nat \<Rightarrow> int \<Rightarrow> int \<Rightarrow> window \<Rightarrow> zone \<Rightarrow> desk \<Rightarrow> (press \<times> desk) option" where
  "press_window sw sh now mx my w z d =
     (let m = d_wm d; wid = window_id w; owner = win_owner w;
          raise = (\<lambda>r m1. do { (_, d1) \<leftarrow> on_wm (raise_to_top_internal sw wid) (d\<lparr>d_wm := m1\<rparr>); Some (Handled r, d1) });
          toggle = (\<lambda>m1. do { (_, d1) \<leftarrow> toggle_maximize_window sw sh owner wid (d\<lparr>d_wm := m1\<rparr>); Some (Handled None, d1) })
      in case z of
        OnFull \<Rightarrow> raise (Some (wid, owner)) m
      | OnEdge e \<Rightarrow> raise None (m\<lparr>resizing_window := Some (wid, e, mx, my, win_x w, win_y w, win_w w, win_h w)\<rparr>)
      | OnClose \<Rightarrow> Some (CloseRequest owner wid, d)
      | OnMaximize \<Rightarrow> toggle m
      | OnMinimize \<Rightarrow> do { (_, d1) \<leftarrow> on_wm (minimize_window sw owner wid) d; Some (Handled None, d1) }
      | OnTitle \<Rightarrow>
          if (case last_titlebar_click m of Some (last_id, last_tick) \<Rightarrow> last_id = wid \<and> now - last_tick \<le> 300 | None \<Rightarrow> False)
          then toggle (m\<lparr>last_titlebar_click := None\<rparr>)
          else raise None (m\<lparr>last_titlebar_click := Some (wid, now), dragging_window := Some (wid, mx - win_x w, my - win_y w)\<rparr>)
      | OnClient \<Rightarrow> raise (Some (wid, owner)) m)"

definition handle_mouse_down :: "nat \<Rightarrow> nat \<Rightarrow> nat \<Rightarrow> int \<Rightarrow> int \<Rightarrow> desk \<Rightarrow> (press \<times> desk) option" where
  "handle_mouse_down sw sh now mx my d = do {
     (finished, m) \<leftarrow> press_launcher mx my (d_wm d);
     let d1 = d\<lparr>d_wm := m\<rparr>;
     if finished then Some (Handled None, d1)
     else if my < int DOCK_HEIGHT then
       if 4 \<le> mx \<and> mx \<le> 92 then do {
         m1 \<leftarrow> mark_damage 0 0 sw 350 (m\<lparr>launcher_open := \<not> launcher_open m\<rparr>);
         Some (Handled None, d1\<lparr>d_wm := m1\<rparr>)
       }
       else press_tab sw sh mx d1
     else do {
       z \<leftarrow> zone_scan mx my (rev (windows m));
       case z of None \<Rightarrow> Some (Handled None, d1) | Some (w, zn) \<Rightarrow> press_window sw sh now mx my w zn d1
     }
   }"

subsection \<open>Letting go\<close>

text \<open>Where a dragged window ends: at an edge of the screen it snaps.\<close>

definition dropped :: "nat \<Rightarrow> nat \<Rightarrow> window \<Rightarrow> window" where
  "dropped sw sh w =
     (if win_y w \<le> WORK_AREA_TOP + EDGE_SNAP_THRESHOLD then (set_geom (work_geom sw sh) w)\<lparr>win_state := Maximized, prev_state := WNormal\<rparr>
      else if win_x w \<le> EDGE_SNAP_THRESHOLD then (set_geom (left_geom sw sh) w)\<lparr>win_state := SnappedLeft, prev_state := WNormal\<rparr>
      else if win_x w + int (win_w w) \<ge> int sw - EDGE_SNAP_THRESHOLD
      then (set_geom (right_geom sw sh) w)\<lparr>win_state := SnappedRight, prev_state := WNormal\<rparr>
      else w\<lparr>win_state := WNormal, normal_geom := geom w\<rparr>)"

definition drop_window :: "nat \<Rightarrow> nat \<Rightarrow> nat \<Rightarrow> desk \<Rightarrow> desk option" where
  "drop_window sw sh wid d =
     (case find_window wid (d_wm d) of
        None \<Rightarrow> Some d
      | Some i \<Rightarrow> do {
          let m = d_wm d;
          let w = windows m ! i;
          let w1 = dropped sw sh w;
          d1 \<leftarrow> rerender_app_surface w1 (d\<lparr>d_wm := m\<lparr>windows := (windows m)[i := w1]\<rparr>\<rparr>);
          m1 \<leftarrow> mark_box (geom w) (geom w1) (d_wm d1);
          Some (d1\<lparr>d_wm := m1\<rparr>)
        })"

text \<open>The pending redraw of a resized window.\<close>

definition render_resized :: "nat \<Rightarrow> desk \<Rightarrow> desk option" where
  "render_resized wid d =
     (case find_window wid (d_wm d) of
        None \<Rightarrow> Some d
      | Some i \<Rightarrow> do {
          let w = windows (d_wm d) ! i;
          d1 \<leftarrow> rerender_app_surface w d;
          h' \<leftarrow> checked_add 32 (win_h w) 20;
          m1 \<leftarrow> mark_damage (win_x w) (win_y w) (win_w w) h' (d_wm d1);
          Some (d1\<lparr>d_wm := m1\<rparr>)
        })"

definition handle_mouse_up :: "nat \<Rightarrow> nat \<Rightarrow> desk \<Rightarrow> ((nat \<times> nat) option \<times> desk) option" where
  "handle_mouse_up sw sh d = do {
     d1 \<leftarrow> (case dragging_window (d_wm d) of
              None \<Rightarrow> Some d
            | Some (wid, _, _) \<Rightarrow> drop_window sw sh wid (d\<lparr>d_wm := (d_wm d)\<lparr>dragging_window := None\<rparr>\<rparr>));
     m2 \<leftarrow> (if snap_shown (d_wm d1) \<noteq> PreviewNone
            then mark_damage 0 WORK_AREA_TOP sw (sh - nat WORK_AREA_TOP) ((d_wm d1)\<lparr>snap_shown := PreviewNone\<rparr>)
            else Some (d_wm d1));
     d3 \<leftarrow> (case resizing_window m2 of
              None \<Rightarrow> Some (d1\<lparr>d_wm := m2\<rparr>)
            | Some (wid, _) \<Rightarrow>
                let d2 = d1\<lparr>d_wm := m2\<lparr>resizing_window := None, pending_resize_render := None\<rparr>\<rparr> in
                if pending_resize_render m2 = Some wid then render_resized wid d2 else Some d2);
     Some (dispatch_keyboard_input (d_wm d3), d3)
   }"

subsection \<open>Dragging and resizing\<close>

definition resize_left :: "int \<Rightarrow> int \<Rightarrow> nat \<Rightarrow> window \<Rightarrow> window option" where
  "resize_left dx ox ow w = do {
     x \<leftarrow> clamp_i32 (ox + dx) 0 (ox + int ow - int MIN_WINDOW_WIDTH);
     Some (w\<lparr>win_x := x, win_w := as_u32 (ox + int ow - x)\<rparr>)
   }"

definition resize_right :: "nat \<Rightarrow> int \<Rightarrow> int \<Rightarrow> nat \<Rightarrow> window \<Rightarrow> window option" where
  "resize_right sw dx ox ow w = do {
     n \<leftarrow> clamp_i32 (int ow + dx) (int MIN_WINDOW_WIDTH) (int sw - ox);
     Some (w\<lparr>win_w := as_u32 n\<rparr>)
   }"

definition resize_top :: "int \<Rightarrow> int \<Rightarrow> nat \<Rightarrow> window \<Rightarrow> window option" where
  "resize_top dy oy oh w = do {
     y \<leftarrow> clamp_i32 (oy + dy) WORK_AREA_TOP (oy + int oh - int MIN_WINDOW_HEIGHT);
     Some (w\<lparr>win_y := y, win_h := as_u32 (oy + int oh - y)\<rparr>)
   }"

definition resize_bottom :: "nat \<Rightarrow> int \<Rightarrow> int \<Rightarrow> nat \<Rightarrow> window \<Rightarrow> window option" where
  "resize_bottom sh dy oy oh w = do {
     n \<leftarrow> clamp_i32 (int oh + dy) (int MIN_WINDOW_HEIGHT) (max (int sh - (oy + 20)) (int MIN_WINDOW_HEIGHT));
     Some (w\<lparr>win_h := as_u32 n\<rparr>)
   }"

definition resized :: "nat \<Rightarrow> nat \<Rightarrow> resize_edge \<Rightarrow> int \<Rightarrow> int \<Rightarrow> int \<Rightarrow> int \<Rightarrow> nat \<Rightarrow> nat \<Rightarrow> window \<Rightarrow> window option" where
  "resized sw sh e dx dy ox oy ow oh w =
     (case e of
        EdgeRight \<Rightarrow> resize_right sw dx ox ow w
      | EdgeLeft \<Rightarrow> resize_left dx ox ow w
      | EdgeBottom \<Rightarrow> resize_bottom sh dy oy oh w
      | EdgeTop \<Rightarrow> resize_top dy oy oh w
      | EdgeTopLeft \<Rightarrow> do { w1 \<leftarrow> resize_left dx ox ow w; resize_top dy oy oh w1 }
      | EdgeTopRight \<Rightarrow> do { w1 \<leftarrow> resize_right sw dx ox ow w; resize_top dy oy oh w1 }
      | EdgeBottomLeft \<Rightarrow> do { w1 \<leftarrow> resize_left dx ox ow w; resize_bottom sh dy oy oh w1 }
      | EdgeBottomRight \<Rightarrow> do { w1 \<leftarrow> resize_right sw dx ox ow w; resize_bottom sh dy oy oh w1 }
      | EdgeNone \<Rightarrow> Some w)"

definition resize_move :: "nat \<Rightarrow> nat \<Rightarrow> int \<Rightarrow> int \<Rightarrow> (nat \<times> resize_edge \<times> int \<times> int \<times> int \<times> int \<times> nat \<times> nat) \<Rightarrow> window_manager \<Rightarrow> window_manager option" where
  "resize_move sw sh mx my rz m =
     (case rz of (wid, e, sx, sy, ox, oy, ow, oh) \<Rightarrow>
        (case find_window wid m of
           None \<Rightarrow> Some m
         | Some i \<Rightarrow> do {
             let w = windows m ! i;
             w1 \<leftarrow> resized sw sh e (mx - sx) (my - sy) ox oy ow oh w;
             m1 \<leftarrow> (if geom w \<noteq> geom w1 then mark_box (geom w) (geom w1) (m\<lparr>pending_resize_render := Some wid\<rparr>) else Some m);
             Some (m1\<lparr>windows := (windows m1)[i := w1\<lparr>win_state := WNormal, normal_geom := geom w1\<rparr>]\<rparr>)
           }))"

definition preview_at :: "nat \<Rightarrow> window \<Rightarrow> snap_preview" where
  "preview_at sw w =
     (if win_y w \<le> WORK_AREA_TOP + EDGE_SNAP_THRESHOLD then PreviewMaximized
      else if win_x w \<le> EDGE_SNAP_THRESHOLD then PreviewLeft
      else if win_x w + int (win_w w) \<ge> int sw - EDGE_SNAP_THRESHOLD then PreviewRight
      else PreviewNone)"

definition show_preview :: "nat \<Rightarrow> nat \<Rightarrow> snap_preview \<Rightarrow> window_manager \<Rightarrow> window_manager option" where
  "show_preview sw sh pv m =
     (if snap_shown m \<noteq> pv
      then mark_damage 0 WORK_AREA_TOP sw (as_u32 (int sh - (WORK_AREA_TOP + int DOCK_HEIGHT + 20))) (m\<lparr>snap_shown := pv\<rparr>)
      else Some m)"

definition unsnapped :: "window \<Rightarrow> window" where
  "unsnapped w =
     (if win_state w \<in> {Maximized, SnappedLeft, SnappedRight}
      then (case normal_geom w of (_, _, pw, ph) \<Rightarrow> w\<lparr>win_w := pw, win_h := ph, win_state := WNormal, prev_state := WNormal, saved_geom := None\<rparr>)
      else w)"

definition drag_move :: "nat \<Rightarrow> nat \<Rightarrow> int \<Rightarrow> int \<Rightarrow> (nat \<times> int \<times> int) \<Rightarrow> window_manager \<Rightarrow> window_manager option" where
  "drag_move sw sh mx my dg m =
     (case dg of (wid, ox, oy) \<Rightarrow>
        (case find_window wid m of
           None \<Rightarrow> Some m
         | Some i \<Rightarrow> do {
             let w = unsnapped (windows m ! i);
             x \<leftarrow> clamp_i32 (mx - ox) (- 100) (int sw - 50);
             y \<leftarrow> clamp_i32 (my - oy) WORK_AREA_TOP (int sh - 30);
             let w1 = keep_normal (w\<lparr>win_x := x, win_y := y\<rparr>);
             m1 \<leftarrow> mark_box (geom w) (geom w1) m;
             show_preview sw sh (preview_at sw w1) (m1\<lparr>windows := (windows m1)[i := w1]\<rparr>)
           }))"

subsection \<open>Hovering\<close>

definition hover_edge :: "int \<Rightarrow> int \<Rightarrow> window \<Rightarrow> resize_edge" where
  "hover_edge mx my w =
     (let x = win_x w; y = win_y w; r = win_x w + int (win_w w); b = win_y w + 20 + int (win_h w);
          atl = (x - 6 \<le> mx \<and> mx \<le> x + 8); atr = (r - 8 \<le> mx \<and> mx \<le> r + 6);
          att = (y - 6 \<le> my \<and> my \<le> y + 8); atb = (b - 8 \<le> my \<and> my \<le> b + 6)
      in if atr \<and> atb \<or> atl \<and> att then EdgeBottomRight
         else if atl \<and> atb \<or> atr \<and> att then EdgeBottomLeft
         else if (r - 4 \<le> mx \<and> mx \<le> r + 6 \<or> x - 6 \<le> mx \<and> mx \<le> x + 4) \<and> y \<le> my \<and> my \<le> b then EdgeRight
         else if x \<le> mx \<and> mx \<le> r \<and> (b - 4 \<le> my \<and> my \<le> b + 6 \<or> y - 6 \<le> my \<and> my \<le> y + 4) then EdgeBottom
         else EdgeNone)"

definition hover_at :: "int \<Rightarrow> int \<Rightarrow> window \<Rightarrow> hover_target option" where
  "hover_at mx my w =
     (let target = (\<lambda>b t e. Some \<lparr>ht_window = window_id w, ht_button = b, is_titlebar = t, ht_edge = e\<rparr>) in
      if win_state w = Fullscreen then target ButtonNone False EdgeNone
      else if \<not> (win_x w - 6 \<le> mx \<and> mx \<le> win_x w + int (win_w w) + 6 \<and> win_y w - 6 \<le> my \<and> my \<le> win_y w + 20 + int (win_h w) + 6) then None
      else if win_state w \<noteq> Maximized \<and> hover_edge mx my w \<noteq> EdgeNone then target ButtonNone False (hover_edge mx my w)
      else if on_title mx my w then
        (if button_at mx my w \<noteq> ButtonNone then target (button_at mx my w) False EdgeNone else target ButtonNone True EdgeNone)
      else if on_client mx my w then target ButtonNone False EdgeNone
      else None)"

fun hover_scan :: "int \<Rightarrow> int \<Rightarrow> window list \<Rightarrow> hover_target option option" where
  "hover_scan mx my [] = Some None"
| "hover_scan mx my (w # ws) =
     (if \<not> visible w \<or> win_state w = Minimized then hover_scan mx my ws
      else if win_state w \<noteq> Fullscreen \<and> \<not> sums_fit w then None
      else case hover_at mx my w of Some h \<Rightarrow> Some (Some h) | None \<Rightarrow> hover_scan mx my ws)"

definition mark_hover :: "hover_target option \<Rightarrow> window_manager \<Rightarrow> window_manager option" where
  "mark_hover h m =
     (case h of
        None \<Rightarrow> Some m
      | Some t \<Rightarrow> (case find_window (ht_window t) m of
                     None \<Rightarrow> Some m
                   | Some i \<Rightarrow> let w = windows m ! i in mark_damage (win_x w) (win_y w) (win_w w) 20 m))"

definition hover_tab :: "nat \<Rightarrow> int \<Rightarrow> window_manager \<Rightarrow> nat option" where
  "hover_tab sw mx m =
     (let i = nat ((mx - 102) div 92) in
      if 102 \<le> mx \<and> mx \<le> int sw - 210 \<and> i < length (windows m) then Some i else None)"

definition hover_windows :: "int \<Rightarrow> int \<Rightarrow> window_manager \<Rightarrow> window_manager option" where
  "hover_windows mx my m = do {
     h \<leftarrow> hover_scan mx my (rev (windows m));
     m1 \<leftarrow> (if hovered_target m \<noteq> h then do { m1 \<leftarrow> mark_hover (hovered_target m) m; mark_hover h m1 } else Some m);
     Some (m1\<lparr>hovered_target := h\<rparr>)
   }"

definition handle_mouse_move :: "nat \<Rightarrow> nat \<Rightarrow> int \<Rightarrow> int \<Rightarrow> window_manager \<Rightarrow> window_manager option" where
  "handle_mouse_move sw sh mx my m =
     (case resizing_window m of
        Some rz \<Rightarrow> resize_move sw sh mx my rz m
      | None \<Rightarrow>
     (case dragging_window m of
        Some dg \<Rightarrow> drag_move sw sh mx my dg m
      | None \<Rightarrow>
          if my < int DOCK_HEIGHT then
            (if hovered_dock_tab m \<noteq> hover_tab sw mx m
             then mark_top_bar_damage sw (m\<lparr>hovered_dock_tab := hover_tab sw mx m\<rparr>) else Some m)
          else do {
            m1 \<leftarrow> (if hovered_dock_tab m \<noteq> None then mark_top_bar_damage sw (m\<lparr>hovered_dock_tab := None\<rparr>) else Some m);
            hover_windows mx my m1
          }))"

subsection \<open>Taking windows away\<close>

definition forget_window :: "nat \<Rightarrow> window_manager \<Rightarrow> window_manager" where
  "forget_window wid m =
     m\<lparr>pending_resize_render := (if pending_resize_render m = Some wid then None else pending_resize_render m),
       mru_list := filter (\<lambda>i. i \<noteq> wid) (mru_list m),
       alt_tab := (alt_tab m)\<lparr>at_candidates := filter (\<lambda>i. i \<noteq> wid) (at_candidates (alt_tab m))\<rparr>\<rparr>"

definition remove_window :: "nat \<Rightarrow> nat \<Rightarrow> window_manager \<Rightarrow> window_manager option" where
  "remove_window sw i m = do {
     let w = windows m ! i;
     let m1 = clean_mru (forget_window (window_id w) (m\<lparr>windows := list_remove i (windows m)\<rparr>));
     m2 \<leftarrow> mark_window_damage (geom w) m1;
     m3 \<leftarrow> mark_top_bar_damage sw m2;
     if focused_window m3 = Some (window_id w) then refocus m3 else Some m3
   }"

text \<open>The windows of an exiting process; the gestures that name one of them end.\<close>

definition forget_gestures :: "nat \<Rightarrow> window_manager \<Rightarrow> window_manager" where
  "forget_gestures wid m =
     m\<lparr>dragging_window := (case dragging_window m of Some (i, _) \<Rightarrow> if i = wid then None else dragging_window m | None \<Rightarrow> None),
       resizing_window := (case resizing_window m of Some (i, _) \<Rightarrow> if i = wid then None else resizing_window m | None \<Rightarrow> None),
       hovered_target := (case hovered_target m of Some h \<Rightarrow> if ht_window h = wid then None else hovered_target m | None \<Rightarrow> None),
       last_titlebar_click := (case last_titlebar_click m of Some (i, _) \<Rightarrow> if i = wid then None else last_titlebar_click m | None \<Rightarrow> None)\<rparr>"

definition remove_dead :: "nat \<Rightarrow> nat \<Rightarrow> window list \<Rightarrow> window_manager \<Rightarrow> window_manager option" where
  "remove_dead sw pid dead m = do {
     let m1 = clean_mru (m\<lparr>windows := filter (\<lambda>w. win_owner w \<noteq> pid) (windows m)\<rparr>);
     m2 \<leftarrow> mark_top_bar_damage sw m1;
     if (case focused_window m2 of Some f \<Rightarrow> f \<in> window_id ` set dead | None \<Rightarrow> True) then refocus m2 else Some m2
   }"

end
