(* ===== verification/Input_Queue.thy ===== *)
theory Input_Queue
  imports Spark_Interfaces Cap_Abi
begin

section \<open>Input events\<close>

text \<open>
  \<^verbatim>\<open>kernel/src/input.rs\<close> and \<^verbatim>\<open>spark-abi/src/input.rs\<close>: the queue of input events of each process, the processes whose events the
  kernel handles itself, and the input service. A queue merges moves of the mouse that follow each other and holds 64 events.
\<close>

definition MouseMove :: nat where "MouseMove = 1"
definition MouseButtonDown :: nat where "MouseButtonDown = 2"
definition MouseButtonUp :: nat where "MouseButtonUp = 3"
definition KeyDown :: nat where "KeyDown = 4"
definition KeyUp :: nat where "KeyUp = 5"
definition WindowFocus :: nat where "WindowFocus = 6"
definition WindowResize :: nat where "WindowResize = 7"

definition MAX_QUEUE_CAPACITY :: nat where "MAX_QUEUE_CAPACITY = 64"

record input_event =
  event_type :: nat
  ev_modifiers :: nat
  key_code :: nat
  mouse_button :: nat
  mouse_x :: int
  mouse_y :: int
  ev_timestamp :: nat

type_synonym event_queue = "input_event list"

definition is_move :: "input_event \<Rightarrow> bool" where "is_move e \<longleftrightarrow> event_type e = MouseMove"

definition event_push :: "input_event \<Rightarrow> event_queue \<Rightarrow> event_queue" where
  "event_push e q =
     (if is_move e \<and> q \<noteq> [] \<and> is_move (last q)
      then butlast q @ [(last q)\<lparr>mouse_x := mouse_x e, mouse_y := mouse_y e, ev_timestamp := ev_timestamp e, ev_modifiers := ev_modifiers e\<rparr>]
      else
        let q1 = (if length q \<ge> MAX_QUEUE_CAPACITY
                  then (case position is_move q of Some i \<Rightarrow> list_remove i q | None \<Rightarrow> list_remove 0 q)
                  else q)
        in q1 @ [e])"

definition event_pop :: "event_queue \<Rightarrow> input_event option \<times> event_queue" where
  "event_pop q = (case q of [] \<Rightarrow> (None, []) | e # es \<Rightarrow> (Some e, es))"

text \<open>\<^verbatim>\<open>KERNEL_INPUT_OWNERS\<close> and \<^verbatim>\<open>INPUT_QUEUES\<close>.\<close>

record inputs =
  input_owners :: "nat set"
  input_queues :: "(nat, event_queue) btree_map"

definition register_kernel_input_owner :: "nat \<Rightarrow> inputs \<Rightarrow> inputs" where
  "register_kernel_input_owner pid s = s\<lparr>input_owners := insert pid (input_owners s), input_queues := bt_remove pid (input_queues s)\<rparr>"

definition queue_of :: "nat \<Rightarrow> inputs \<Rightarrow> event_queue" where
  "queue_of pid s = (case bt_get (input_queues s) pid of Some q \<Rightarrow> q | None \<Rightarrow> [])"

definition deliver_event_to_pid :: "nat \<Rightarrow> input_event \<Rightarrow> inputs \<Rightarrow> inputs" where
  "deliver_event_to_pid pid e s =
     (if pid \<in> input_owners s then s
      else s\<lparr>input_queues := bt_insert pid (event_push e (queue_of pid s)) (input_queues s)\<rparr>)"

definition cleanup_input_for_pid :: "nat \<Rightarrow> inputs \<Rightarrow> inputs" where
  "cleanup_input_for_pid pid s = s\<lparr>input_owners := input_owners s - {pid}, input_queues := bt_remove pid (input_queues s)\<rparr>"

definition notify_window_event :: "nat \<Rightarrow> nat \<Rightarrow> int \<Rightarrow> int \<Rightarrow> nat \<Rightarrow> inputs \<Rightarrow> inputs" where
  "notify_window_event pid ty w h now s =
     deliver_event_to_pid pid \<lparr>event_type = ty, ev_modifiers = 0, key_code = 0, mouse_button = 0, mouse_x = w, mouse_y = h, ev_timestamp = now\<rparr> s"

subsection \<open>The input service\<close>

definition INPUT_OP_POLL_EVENT :: nat where "INPUT_OP_POLL_EVENT = 2"
definition INPUT_OP_SEND_EVENT :: nat where "INPUT_OP_SEND_EVENT = 3"
definition EVENT_KEY_DOWN :: nat where "EVENT_KEY_DOWN = 1"
definition EVENT_KEY_UP :: nat where "EVENT_KEY_UP = 2"
definition EVENT_MOUSE_MOVE :: nat where "EVENT_MOUSE_MOVE = 3"

record abi_event =
  ae_kind :: nat
  ae_keycode :: nat
  ae_modifiers :: nat
  ae_mouse_x :: int
  ae_mouse_y :: int
  ae_buttons :: nat
  timestamp_ms :: nat

record input_request =
  ir_opcode :: nat
  ir_client :: nat
  ir_event :: abi_event

record input_response =
  ip_status :: nat
  pending_count :: nat
  ip_event :: abi_event

definition abi_empty :: abi_event where
  "abi_empty = \<lparr>ae_kind = 0, ae_keycode = 0, ae_modifiers = 0, ae_mouse_x = 0, ae_mouse_y = 0, ae_buttons = 0, timestamp_ms = 0\<rparr>"

definition abi_key_down :: "nat \<Rightarrow> nat \<Rightarrow> nat \<Rightarrow> abi_event" where
  "abi_key_down k mods now = abi_empty\<lparr>ae_kind := EVENT_KEY_DOWN, ae_keycode := k, ae_modifiers := mods, timestamp_ms := now\<rparr>"

definition to_abi :: "input_event \<Rightarrow> abi_event" where
  "to_abi e = \<lparr>ae_kind = event_type e, ae_keycode = key_code e, ae_modifiers = ev_modifiers e, ae_mouse_x = mouse_x e,
     ae_mouse_y = mouse_y e, ae_buttons = mouse_button e, timestamp_ms = ev_timestamp e\<rparr>"

definition of_abi :: "abi_event \<Rightarrow> input_event" where
  "of_abi a = \<lparr>event_type = ae_kind a mod 256, ev_modifiers = ae_modifiers a mod 256, key_code = ae_keycode a mod 256,
     mouse_button = ae_buttons a mod 256, mouse_x = ae_mouse_x a, mouse_y = ae_mouse_y a, ev_timestamp = timestamp_ms a\<rparr>"

definition dispatch_input_request :: "input_request \<Rightarrow> inputs \<Rightarrow> input_response \<times> inputs" where
  "dispatch_input_request r s =
     (if ir_opcode r = INPUT_OP_POLL_EVENT then
        (case bt_get (input_queues s) (ir_client r) of
           Some (e # es) \<Rightarrow>
             (\<lparr>ip_status = 0, pending_count = length es mod 2 ^ 32, ip_event = to_abi e\<rparr>, s\<lparr>input_queues := bt_insert (ir_client r) es (input_queues s)\<rparr>)
         | _ \<Rightarrow> (\<lparr>ip_status = 0, pending_count = 0, ip_event = abi_empty\<rparr>, s))
      else if ir_opcode r = INPUT_OP_SEND_EVENT then
        (\<lparr>ip_status = 0, pending_count = 0, ip_event = ir_event r\<rparr>, deliver_event_to_pid (ir_client r) (of_abi (ir_event r)) s)
      else (\<lparr>ip_status = ENOSYS, pending_count = 0, ip_event = abi_empty\<rparr>, s))"

subsection \<open>What a queue keeps\<close>

abbreviation critical :: "event_queue \<Rightarrow> event_queue" where "critical q \<equiv> filter (\<lambda>e. \<not> is_move e) q"

lemma move_upd [simp]: "is_move (e\<lparr>mouse_x := a, mouse_y := b, ev_timestamp := c, ev_modifiers := d\<rparr>) = is_move e"
  by (simp add: is_move_def)

lemma critical_remove: "i < length q \<Longrightarrow> is_move (q ! i) \<Longrightarrow> critical (list_remove i q) = critical q"
  by (subst (2) id_take_nth_drop [of i q]) (simp_all add: list_remove_def)

lemma push_length: "length q \<le> MAX_QUEUE_CAPACITY \<Longrightarrow> length (event_push e q) \<le> MAX_QUEUE_CAPACITY"
  by (auto simp: event_push_def list_remove_def Let_def MAX_QUEUE_CAPACITY_def position_Some split: option.splits)

lemma push_critical:
  assumes "length (critical q) < MAX_QUEUE_CAPACITY"
  shows "critical (event_push e q) = critical q @ (if is_move e then [] else [e])"
proof (cases "is_move e \<and> q \<noteq> [] \<and> is_move (last q)")
  case True
  then have "critical q = critical (butlast q) @ critical [last q]"
    by (metis append_butlast_last_id filter_append)
  then show ?thesis using True by (simp add: event_push_def)
next
  case False
  show ?thesis
  proof (cases "MAX_QUEUE_CAPACITY \<le> length q")
    case True
    then have "\<exists>e\<in>set q. is_move e"
      using assms by (metis (no_types, lifting) filter_True leD)
    then obtain i where "position is_move q = Some i" "i < length q" "is_move (q ! i)"
      using position_None [of is_move q] by (cases "position is_move q") (auto simp: position_Some)
    then show ?thesis using False True critical_remove [of i q] by (auto simp: event_push_def)
  qed (use False in \<open>auto simp: event_push_def\<close>)
qed

lemma pushes_keep:
  assumes "length q \<le> MAX_QUEUE_CAPACITY" and "length (critical q) + length (critical es) < MAX_QUEUE_CAPACITY"
  shows "length (fold event_push es q) \<le> MAX_QUEUE_CAPACITY \<and> critical (fold event_push es q) = critical q @ critical es"
  using assms
proof (induction es arbitrary: q)
  case (Cons e es)
  have "length (critical q) < MAX_QUEUE_CAPACITY" using Cons.prems(2) by simp
  note p = push_critical [OF this, of e] push_length [OF Cons.prems(1), of e]
  have "length (critical (event_push e q)) + length (critical es) < MAX_QUEUE_CAPACITY" using Cons.prems(2) p(1) by (auto split: if_splits)
  from Cons.IH [OF p(2) this] show ?case using p(1) by auto
qed simp

lemma deliver_queue:
  "pid \<notin> input_owners s \<Longrightarrow> bt_ok (input_queues s) \<Longrightarrow>
     queue_of pid (deliver_event_to_pid pid e s) = event_push e (queue_of pid s) \<and>
     bt_ok (input_queues (deliver_event_to_pid pid e s)) \<and> input_owners (deliver_event_to_pid pid e s) = input_owners s \<and>
     (\<forall>other. other \<noteq> pid \<longrightarrow> queue_of other (deliver_event_to_pid pid e s) = queue_of other s)"
  by (auto simp: deliver_event_to_pid_def queue_of_def intro: bt_ok_insert)

lemma deliver_all:
  assumes "pid \<notin> input_owners s" and "bt_ok (input_queues s)"
  shows "queue_of pid (fold (deliver_event_to_pid pid) es s) = fold event_push es (queue_of pid s) \<and>
    (\<forall>other. other \<noteq> pid \<longrightarrow> queue_of other (fold (deliver_event_to_pid pid) es s) = queue_of other s)"
  using assms
proof (induction es arbitrary: s)
  case (Cons e es)
  note d = deliver_queue [OF Cons.prems, of e]
  then show ?case using Cons.IH [of "deliver_event_to_pid pid e s"] Cons.prems by auto
qed simp

lemma owner_gets_nothing: "pid \<in> input_owners s \<Longrightarrow> fold (deliver_event_to_pid pid) es s = s"
  by (induction es) (simp_all add: deliver_event_to_pid_def)

text \<open>
  C32. Keys, clicks and window events are neither lost nor reordered: when events are delivered to a process whose queue holds at most
  64, and of the waiting and the new events fewer than 64 are no moves of the mouse, however many moves arrive between
  them, then the queue holds all of them in order and at most 64 events, and no other process sees any. Only for a process whose input
  the kernel handles itself, one that was registered for it, every event is dropped and nothing changes.
\<close>

theorem input_events_kept:
  assumes "bt_ok (input_queues s)" and "length (queue_of pid s) \<le> MAX_QUEUE_CAPACITY"
    and "length (filter (\<lambda>e. event_type e \<noteq> MouseMove) (queue_of pid s @ es)) < MAX_QUEUE_CAPACITY"
    and "t = fold (deliver_event_to_pid pid) es s"
  shows "if pid \<in> input_owners s then t = s
    else length (queue_of pid t) \<le> MAX_QUEUE_CAPACITY \<and>
      filter (\<lambda>e. event_type e \<noteq> MouseMove) (queue_of pid t) = filter (\<lambda>e. event_type e \<noteq> MouseMove) (queue_of pid s @ es) \<and>
      (\<forall>other. other \<noteq> pid \<longrightarrow> queue_of other t = queue_of other s)"
proof (cases "pid \<in> input_owners s")
  case True
  then show ?thesis using assms(4) owner_gets_nothing by simp
next
  case False
  then show ?thesis
    using pushes_keep [of "queue_of pid s" es] deliver_all [OF False assms(1), of es] assms(2-4) by (simp add: is_move_def)
qed

theorem input_events_kept_witness:
  "filter (\<lambda>e. event_type e \<noteq> MouseMove) (queue_of 7 (fold (deliver_event_to_pid 7)
      [of_abi (abi_empty\<lparr>ae_kind := 1\<rparr>), of_abi (abi_empty\<lparr>ae_kind := 4\<rparr>), of_abi (abi_empty\<lparr>ae_kind := 1\<rparr>)] \<lparr>input_owners = {8}, input_queues = []\<rparr>)) =
     [of_abi (abi_empty\<lparr>ae_kind := 4\<rparr>)] \<and>
   fold (deliver_event_to_pid 8) [of_abi (abi_empty\<lparr>ae_kind := 4\<rparr>)] \<lparr>input_owners = {8}, input_queues = []\<rparr> = \<lparr>input_owners = {8}, input_queues = []\<rparr>"
  using input_events_kept [of "\<lparr>input_owners = {8}, input_queues = []\<rparr>" 7
      "[of_abi (abi_empty\<lparr>ae_kind := 1\<rparr>), of_abi (abi_empty\<lparr>ae_kind := 4\<rparr>), of_abi (abi_empty\<lparr>ae_kind := 1\<rparr>)]", OF _ _ _ refl]
    input_events_kept [of "\<lparr>input_owners = {8}, input_queues = []\<rparr>" 8 "[of_abi (abi_empty\<lparr>ae_kind := 4\<rparr>)]", OF _ _ _ refl]
  by (simp add: bt_ok_def queue_of_def MAX_QUEUE_CAPACITY_def of_abi_def abi_empty_def MouseMove_def)

text \<open>
  The service numbers its events differently from the queue: a key press is 1 there, which is a move of the mouse here. Of two key
  presses sent one after the other the second takes the place of the first, with the key of the first.
\<close>

definition send_key :: "nat \<Rightarrow> nat \<Rightarrow> nat \<Rightarrow> inputs \<Rightarrow> inputs" where
  "send_key pid k now s = snd (dispatch_input_request \<lparr>ir_opcode = INPUT_OP_SEND_EVENT, ir_client = pid, ir_event = abi_key_down k 0 now\<rparr> s)"

theorem sent_keys_merge:
  assumes "pid \<notin> input_owners s" and "bt_ok (input_queues s)" and "queue_of pid s = []" and "k < 256"
  shows "\<exists>e. queue_of pid (send_key pid j 1 (send_key pid k 0 s)) = [e] \<and> key_code e = k \<and> event_type e = MouseMove"
proof -
  let ?a = "\<lambda>k now. of_abi (abi_key_down k 0 now)"
  have "send_key pid j 1 (send_key pid k 0 s) = fold (deliver_event_to_pid pid) [?a k 0, ?a j 1] s"
    by (simp add: send_key_def dispatch_input_request_def INPUT_OP_SEND_EVENT_def INPUT_OP_POLL_EVENT_def)
  then have "queue_of pid (send_key pid j 1 (send_key pid k 0 s)) = fold event_push [?a k 0, ?a j 1] []"
    using deliver_all [OF assms(1,2), of "[?a k 0, ?a j 1]"] assms(3) by simp
  then show ?thesis
    using assms(4) by (simp add: event_push_def is_move_def of_abi_def abi_key_down_def abi_empty_def EVENT_KEY_DOWN_def MouseMove_def MAX_QUEUE_CAPACITY_def)
qed

end
