(* ===== verification/Desktop.thy ===== *)
theory Desktop
  imports Window_Manager Input_Queue Permissions Ipc
begin

section \<open>Windows and the processes they belong to\<close>

text \<open>
  The operations of \<^verbatim>\<open>kernel/src/wm.rs\<close> that reach the rest of the kernel: closing the last window of a process ends the process and gives
  back its surfaces, address space, capabilities, endpoints, events and permissions. The compositor protocol is
  \<^verbatim>\<open>spark-abi/src/compositor.rs\<close>. The scheduler is the one of the surfaces; \<open>dk_ipc\<close> holds the capability table and the endpoints. Of the
  applications inside the kernel the state keeps which windows have one, and of editors the two flags that closing looks at. \<open>None\<close> is
  a panic or a call that never returns.
\<close>

record 'q desktop =
  dk_desk :: desk
  dk_ipc :: "'q ipc"
  dk_perms :: permission_manager
  dk_inputs :: inputs
  dk_editors :: "(nat, bool \<times> bool) btree_map"
  dk_apps :: "nat set"
  process_list :: "(nat, string) btree_map"

abbreviation dk_wm :: "'q desktop \<Rightarrow> window_manager" where "dk_wm dk \<equiv> d_wm (dk_desk dk)"
abbreviation dk_surf :: "'q desktop \<Rightarrow> surfaces" where "dk_surf dk \<equiv> d_surf (dk_desk dk)"
abbreviation dk_kernel :: "'q desktop \<Rightarrow> kernel" where "dk_kernel dk \<equiv> su_kernel (dk_surf dk)"
abbreviation put_wm :: "window_manager \<Rightarrow> 'q desktop \<Rightarrow> 'q desktop" where "put_wm m dk \<equiv> dk\<lparr>dk_desk := (dk_desk dk)\<lparr>d_wm := m\<rparr>\<rparr>"
abbreviation put_surf :: "surfaces \<Rightarrow> 'q desktop \<Rightarrow> 'q desktop" where "put_surf s dk \<equiv> dk\<lparr>dk_desk := (dk_desk dk)\<lparr>d_surf := s\<rparr>\<rparr>"
abbreviation put_kernel :: "kernel \<Rightarrow> 'q desktop \<Rightarrow> 'q desktop" where
  "put_kernel k dk \<equiv> put_surf ((dk_surf dk)\<lparr>su_kernel := k\<rparr>) dk"

definition cleanup_apps_for_window :: "nat \<Rightarrow> 'q desktop \<Rightarrow> 'q desktop" where
  "cleanup_apps_for_window wid dk = dk\<lparr>dk_editors := bt_remove wid (dk_editors dk), dk_apps := dk_apps dk - {wid}\<rparr>"

text \<open>
  \<^verbatim>\<open>hangup_channel_for_pid\<close> takes the lock of the scheduler for each endpoint it removes. Here the caller holds that lock, so the
  call returns only when no endpoint is left to remove.
\<close>

definition hangup_under_lock :: "nat \<Rightarrow> 'q ipc \<Rightarrow> 'q ipc option" where
  "hangup_under_lock pid st =
     (if list_ex (\<lambda>ep. bt_get (endpoints st) ep \<noteq> None) (owned_by pid st) then None else hangup_channel_for_pid pid st)"

text \<open>The entry of the process: one window less, and the end of the process when its memory is released.\<close>

definition detach_window :: "nat \<Rightarrow> process \<Rightarrow> process" where
  "detach_window wid p = (let q = decrement_window_count p in q\<lparr>owned_windows := filter (\<lambda>i. i \<noteq> wid) (owned_windows q)\<rparr>)"

definition finish_process :: "nat \<Rightarrow> 'q desktop \<Rightarrow> 'q desktop option" where
  "finish_process pid dk =
     (case bt_get (ktable (dk_kernel dk)) pid of
        None \<Rightarrow> Some dk
      | Some p \<Rightarrow> do {
          let st = dk_ipc dk;
          (tbl, w) \<leftarrow> (case w_state (caps st) of
                        None \<Rightarrow> Some ([], caps st)
                      | Some c \<Rightarrow> do { (t, c1) \<leftarrow> destroy_process_cspace (cap_table p) c; Some (t, (caps st)\<lparr>w_state := Some c1\<rparr>) });
          let dk1 = put_kernel (upd_k pid (\<lambda>p. p\<lparr>pstate := Exited, exited := True, reaped := True, cap_table := tbl\<rparr>) (dk_kernel dk)) dk;
          st1 \<leftarrow> hangup_under_lock (pid mod 2 ^ 32) (st\<lparr>caps := w\<rparr>);
          Some (dk1\<lparr>dk_ipc := st1\<rparr>)
        })"

definition purge_process :: "nat \<Rightarrow> 'q desktop \<Rightarrow> 'q desktop" where
  "purge_process pid dk = (put_kernel (purge_pid pid (dk_kernel dk)) dk)\<lparr>process_list := bt_remove pid (process_list dk)\<rparr>"

definition release_window :: "mapper \<Rightarrow> nat \<Rightarrow> nat \<Rightarrow> nat \<Rightarrow> 'q desktop \<Rightarrow> 'q desktop option" where
  "release_window mp cpu pid wid dk = do {
     let remaining = list_ex (\<lambda>w. win_owner w = pid) (windows (dk_wm dk));
     let ends = (\<not> remaining \<and> cpu_pids (dk_kernel dk) ! cpu \<noteq> pid \<and>
                 (case bt_get (ktable (dk_kernel dk)) pid of Some p \<Rightarrow> p_kind p = UIBound | None \<Rightarrow> False));
     (can_purge, dk1) \<leftarrow> (if ends then do {
                            s1 \<leftarrow> cleanup_surfaces_for_pid mp pid (dk_surf dk);
                            (b, s2) \<leftarrow> release_process_address_space pid s1;
                            Some (b, put_surf s2 dk)
                          }
                          else Some (False, dk));
     dk2 \<leftarrow> (case bt_get (ktable (dk_kernel dk1)) pid of
               None \<Rightarrow> Some (if remaining then dk1 else purge_process pid dk1)
             | Some _ \<Rightarrow>
                 let dk3 = put_kernel (upd_k pid (detach_window wid) (dk_kernel dk1)) dk1 in
                 if can_purge then do { dk4 \<leftarrow> finish_process pid dk3; Some (purge_process pid dk4) } else Some dk3);
     Some (if remaining then dk2
           else dk2\<lparr>dk_inputs := cleanup_input_for_pid pid (dk_inputs dk2), dk_perms := unregister_process pid (dk_perms dk2)\<rparr>)
   }"

definition destroy_window :: "mapper \<Rightarrow> nat \<Rightarrow> nat \<Rightarrow> nat \<Rightarrow> nat \<Rightarrow> 'q desktop \<Rightarrow> ((wm_error, unit) result \<times> 'q desktop) option" where
  "destroy_window mp sw cpu pid wid dk =
     (case own_window pid wid (dk_wm dk) of
        Inl e \<Rightarrow> Some (Err e, dk)
      | Inr i \<Rightarrow> do {
          let sid = win_surface (windows (dk_wm dk) ! i);
          m \<leftarrow> remove_window sw i (dk_wm dk);
          let dk1 = put_wm m dk;
          dk2 \<leftarrow> (if sid = 0 then Some dk1
                  else do { (_, s) \<leftarrow> destroy_surface_for_pid mp pid sid (dk_surf dk1); Some (put_surf s dk1) });
          dk3 \<leftarrow> release_window mp cpu pid wid (cleanup_apps_for_window wid dk2);
          Some (Ok (), dk3)
        })"

text \<open>An editor with unsaved text asks first; drawing its question is left out.\<close>

definition request_close_window :: "mapper \<Rightarrow> nat \<Rightarrow> nat \<Rightarrow> nat \<Rightarrow> nat \<Rightarrow> 'q desktop \<Rightarrow> ((wm_error, unit) result \<times> 'q desktop) option" where
  "request_close_window mp sw cpu pid wid dk =
     (case own_window pid wid (dk_wm dk) of
        Inl e \<Rightarrow> Some (Err e, dk)
      | Inr i \<Rightarrow>
          (case bt_get (dk_editors dk) wid of
             Some (True, _) \<Rightarrow> do {
               m \<leftarrow> mark_window_damage (geom (windows (dk_wm dk) ! i)) (dk_wm dk);
               Some (Ok (), (put_wm m dk)\<lparr>dk_editors := bt_insert wid (True, True) (dk_editors dk)\<rparr>)
             }
           | _ \<Rightarrow> destroy_window mp sw cpu pid wid dk))"

text \<open>The press of a button with the request to close that may follow from it.\<close>

definition mouse_down :: "mapper \<Rightarrow> nat \<Rightarrow> nat \<Rightarrow> nat \<Rightarrow> nat \<Rightarrow> int \<Rightarrow> int \<Rightarrow> 'q desktop \<Rightarrow> ((nat \<times> nat) option \<times> 'q desktop) option" where
  "mouse_down mp sw sh cpu now mx my dk = do {
     (r, d) \<leftarrow> handle_mouse_down sw sh now mx my (dk_desk dk);
     let dk1 = dk\<lparr>dk_desk := d\<rparr>;
     case r of
       Handled x \<Rightarrow> Some (x, dk1)
     | CloseRequest pid wid \<Rightarrow> do { (_, dk2) \<leftarrow> request_close_window mp sw cpu pid wid dk1; Some (None, dk2) }
   }"

fun cleanup_dead :: "mapper \<Rightarrow> nat \<Rightarrow> window list \<Rightarrow> 'q desktop \<Rightarrow> 'q desktop option" where
  "cleanup_dead mp pid [] dk = Some dk"
| "cleanup_dead mp pid (w # ws) dk = do {
     m \<leftarrow> mark_window_damage (geom w) (dk_wm dk);
     let dk1 = cleanup_apps_for_window (window_id w) (put_wm (forget_gestures (window_id w) (forget_window (window_id w) m)) dk);
     dk2 \<leftarrow> (if win_surface w = 0 then Some dk1
             else do { (_, s) \<leftarrow> destroy_surface_for_pid mp pid (win_surface w) (dk_surf dk1); Some (put_surf s dk1) });
     cleanup_dead mp pid ws dk2
   }"

definition cleanup_windows_for_pid :: "mapper \<Rightarrow> nat \<Rightarrow> nat \<Rightarrow> 'q desktop \<Rightarrow> 'q desktop option" where
  "cleanup_windows_for_pid mp sw pid dk =
     (let dead = filter (\<lambda>w. win_owner w = pid) (windows (dk_wm dk)) in
      if dead = [] then Some dk
      else do {
        dk1 \<leftarrow> cleanup_dead mp pid dead dk;
        m \<leftarrow> remove_dead sw pid dead (dk_wm dk1);
        Some (put_wm m dk1)
      })"

subsection \<open>Presenting a surface and the compositor protocol\<close>

definition present_surface_for_pid :: "nat \<Rightarrow> nat \<Rightarrow> nat \<Rightarrow> nat \<Rightarrow> nat \<Rightarrow> nat \<Rightarrow> 'q desktop \<Rightarrow> ((string, unit) result \<times> 'q desktop) option" where
  "present_surface_for_pid pid sid x y w h dk =
     (case mark_presented pid sid x y w h (registry (dk_surf dk)) of
        (Inl e, _) \<Rightarrow> Some (Err e, dk)
      | (Inr (cx, cy, cw, ch), reg) \<Rightarrow> do {
          let dk1 = put_surf ((dk_surf dk)\<lparr>registry := reg\<rparr>) dk;
          m \<leftarrow> (case find (\<lambda>wn. win_surface wn = sid \<and> win_owner wn = pid) (windows (dk_wm dk1)) of
                  None \<Rightarrow> Some (dk_wm dk1)
                | Some wn \<Rightarrow> do {
                    px \<leftarrow> chk_i32 (win_x wn + as_i32 cx);
                    y1 \<leftarrow> chk_i32 (win_y wn + 20);
                    py \<leftarrow> chk_i32 (y1 + as_i32 cy);
                    mark_damage px py cw ch (dk_wm dk1)
                  });
          Some (Ok (), put_wm m dk1)
        })"

definition COMP_OP_CREATE_SURFACE :: nat where "COMP_OP_CREATE_SURFACE = 1"
definition COMP_OP_PRESENT_SURFACE :: nat where "COMP_OP_PRESENT_SURFACE = 2"
definition COMP_OP_DESTROY_SURFACE :: nat where "COMP_OP_DESTROY_SURFACE = 3"
definition COMP_OP_CREATE_WINDOW :: nat where "COMP_OP_CREATE_WINDOW = 4"
definition COMP_OP_DESTROY_WINDOW :: nat where "COMP_OP_DESTROY_WINDOW = 5"
definition COMP_OP_MOVE_WINDOW :: nat where "COMP_OP_MOVE_WINDOW = 6"
definition COMP_OP_FOCUS_WINDOW :: nat where "COMP_OP_FOCUS_WINDOW = 7"

lemmas comp_ops = COMP_OP_CREATE_SURFACE_def COMP_OP_PRESENT_SURFACE_def COMP_OP_DESTROY_SURFACE_def COMP_OP_CREATE_WINDOW_def
  COMP_OP_DESTROY_WINDOW_def COMP_OP_MOVE_WINDOW_def COMP_OP_FOCUS_WINDOW_def

record compositor_request =
  cr_opcode :: nat
  client_pid :: nat
  cr_surface :: nat
  cr_window :: nat
  cr_w :: nat
  cr_h :: nat
  cr_x :: int
  cr_y :: int
  damage_x :: nat
  damage_y :: nat
  damage_w :: nat
  damage_h :: nat

record compositor_response =
  cp_status :: nat
  cp_surface :: nat
  cp_window :: nat
  shmem_vaddr :: nat
  cp_shmem_size :: nat

definition ok_surface :: "nat \<Rightarrow> nat \<Rightarrow> nat \<Rightarrow> compositor_response" where
  "ok_surface sid v sz = \<lparr>cp_status = 0, cp_surface = sid, cp_window = 0, shmem_vaddr = v, cp_shmem_size = sz\<rparr>"

definition ok_window :: "nat \<Rightarrow> compositor_response" where
  "ok_window wid = \<lparr>cp_status = 0, cp_surface = 0, cp_window = wid, shmem_vaddr = 0, cp_shmem_size = 0\<rparr>"

definition comp_err :: "nat \<Rightarrow> compositor_response" where
  "comp_err e = \<lparr>cp_status = e, cp_surface = 0, cp_window = 0, shmem_vaddr = 0, cp_shmem_size = 0\<rparr>"

text \<open>\<open>reserved\<close> is whether the heap could grow for a new record of a surface.\<close>

definition dispatch_compositor_request ::
    "mapper \<Rightarrow> bool \<Rightarrow> nat \<Rightarrow> nat \<Rightarrow> nat \<Rightarrow> compositor_request \<Rightarrow> 'q desktop \<Rightarrow> (compositor_response \<times> 'q desktop) option" where
  "dispatch_compositor_request mp reserved sw sh cpu r dk =
     (let pid = client_pid r; op = cr_opcode r in
      if op = COMP_OP_CREATE_SURFACE then do {
        (x, s) \<leftarrow> create_surface_for_pid mp reserved pid (cr_w r) (cr_h r) (dk_surf dk);
        Some (case x of Inl _ \<Rightarrow> comp_err ENOMEM | Inr sid \<Rightarrow> ok_surface (sid mod 2 ^ 32) USER_SURFACE_BASE (cr_w r * cr_h r * 4), put_surf s dk)
      }
      else if op = COMP_OP_PRESENT_SURFACE then do {
        (x, dk1) \<leftarrow> present_surface_for_pid pid (cr_surface r) (damage_x r) (damage_y r) (damage_w r) (damage_h r) dk;
        case x of
          Inl _ \<Rightarrow> Some (comp_err EINVAL, dk1)
        | Inr _ \<Rightarrow> do {
            m \<leftarrow> mark_window_damage (as_i32 (damage_x r), as_i32 (damage_y r), damage_w r, damage_h r) (dk_wm dk1);
            Some (ok_surface (cr_surface r) 0 0, put_wm m dk1)
          }
      }
      else if op = COMP_OP_DESTROY_SURFACE then do {
        (x, s) \<leftarrow> destroy_surface_for_pid mp pid (cr_surface r) (dk_surf dk);
        Some (case x of Inl _ \<Rightarrow> comp_err EINVAL | Inr _ \<Rightarrow> ok_surface (cr_surface r) 0 0, put_surf s dk)
      }
      else if op = COMP_OP_CREATE_WINDOW then do {
        (x, d) \<leftarrow> create_window sw sh pid (cr_surface r) (cr_x r) (cr_y r) (cr_w r) (cr_h r) (dk_desk dk);
        Some (case x of Inl _ \<Rightarrow> comp_err ENOMEM | Inr wid \<Rightarrow> ok_window (wid mod 2 ^ 32), dk\<lparr>dk_desk := d\<rparr>)
      }
      else if op = COMP_OP_DESTROY_WINDOW then do {
        (_, dk1) \<leftarrow> destroy_window mp sw cpu pid (cr_window r) dk;
        Some (ok_window (cr_window r), dk1)
      }
      else if op = COMP_OP_MOVE_WINDOW then do {
        (_, m) \<leftarrow> move_window sw sh pid (cr_window r) (cr_x r) (cr_y r) (dk_wm dk);
        Some (ok_window (cr_window r), put_wm m dk)
      }
      else if op = COMP_OP_FOCUS_WINDOW then
        Some (ok_window (cr_window r), put_wm ((dk_wm dk)\<lparr>focused_window := Some (cr_window r)\<rparr>) dk)
      else Some (comp_err ENOSYS, dk))"

end
