(* ===== verification/Window_Focus.thy ===== *)
theory Window_Focus
  imports Desktop
begin

section \<open>One window has the keyboard\<close>

text \<open>
  The invariant of the window manager: window numbers are distinct, the focus flag of a window agrees with the focused window, which is
  one of the windows, the list of recently used windows names each window once, and the switcher names windows only. Every gesture
  and every call keeps it but one, the request for the focus of the compositor protocol.
\<close>

lemma bind_pair_Some: "(do { (a, b) \<leftarrow> x; f a b }) = Some z \<longleftrightarrow> (\<exists>a b. x = Some (a, b) \<and> f a b = Some z)"
  by (cases x) auto

definition ids :: "window_manager \<Rightarrow> nat set" where "ids m = window_id ` set (windows m)"

definition win_ok :: "window_manager \<Rightarrow> bool" where
  "win_ok m \<longleftrightarrow> distinct (map window_id (windows m)) \<and>
     (\<forall>w\<in>set (windows m). window_id w < next_window_id m \<and> win_state w \<noteq> WClosed \<and> prev_state w \<noteq> WClosed \<and>
        (has_focus w \<longleftrightarrow> focused_window m = Some (window_id w))) \<and>
     (\<forall>i. focused_window m = Some i \<longrightarrow> i \<in> ids m) \<and> set (at_candidates (alt_tab m)) \<subseteq> ids m"

definition wm_ok :: "window_manager \<Rightarrow> bool" where
  "wm_ok m \<longleftrightarrow> win_ok m \<and> distinct (mru_list m) \<and> set (mru_list m) = ids m"

text \<open>The part of the state the invariant is about; damage leaves it alone.\<close>

definition wm_core :: "window_manager \<Rightarrow> window list \<times> nat \<times> nat option \<times> nat list \<times> nat list" where
  "wm_core m = (windows m, next_window_id m, focused_window m, mru_list m, at_candidates (alt_tab m))"

lemma ok_core: "wm_core m' = wm_core m \<Longrightarrow> wm_ok m' = wm_ok m"
  by (simp add: wm_core_def wm_ok_def win_ok_def ids_def)

lemma core_fields:
  assumes "wm_core m' = wm_core m"
  shows "windows m' = windows m" "next_window_id m' = next_window_id m" "focused_window m' = focused_window m"
    "mru_list m' = mru_list m" "at_candidates (alt_tab m') = at_candidates (alt_tab m)"
  using assms by (simp_all add: wm_core_def)

lemma mark_core:
  "mark_damage x y w h m = Some m' \<Longrightarrow> wm_core m' = wm_core m"
  "mark_window_damage g m = Some m' \<Longrightarrow> wm_core m' = wm_core m"
  "mark_full_damage sw sh m = Some m' \<Longrightarrow> wm_core m' = wm_core m"
  "mark_top_bar_damage sw m = Some m' \<Longrightarrow> wm_core m' = wm_core m"
  "mark_box old new m = Some m' \<Longrightarrow> wm_core m' = wm_core m"
  "mark_launcher_damage m = Some m' \<Longrightarrow> wm_core m' = wm_core m"
  "mark_switcher sw sh m = Some m' \<Longrightarrow> wm_core m' = wm_core m"
  by (auto simp: mark_damage_def mark_window_damage_def mark_full_damage_def mark_top_bar_damage_def mark_box_def mark_launcher_damage_def
      mark_switcher_def wm_core_def Let_def split: prod.splits bind_splits)

lemma mark_frame_core: "mark_frame w m = Some m' \<Longrightarrow> wm_core m' = wm_core m"
  by (auto simp: mark_frame_def split: bind_splits dest!: mark_core(1))

lemma mark_frames_core: "mark_frames ws m = Some m' \<Longrightarrow> wm_core m' = wm_core m"
  by (induction ws arbitrary: m) (force split: bind_splits if_splits dest: mark_frame_core)+

lemma drop_focus_core:
  assumes "drop_focus m = Some m'"
  shows "wm_core m' = wm_core (m\<lparr>windows := map (\<lambda>w. w\<lparr>has_focus := False\<rparr>) (windows m)\<rparr>)"
  using assms mark_frames_core [of "windows m" m] by (auto simp: drop_focus_def wm_core_def split: bind_splits)

lemma find_window_Some:
  "find_window wid m = Some i \<Longrightarrow> i < length (windows m) \<and> window_id (windows m ! i) = wid"
  by (auto simp: find_window_def position_Some)

lemma own_window_Ok:
  "own_window pid wid m = Ok i \<Longrightarrow> i < length (windows m) \<and> window_id (windows m ! i) = wid \<and> win_owner (windows m ! i) = pid"
  by (auto simp: own_window_def dest: find_window_Some split: option.splits if_splits)

subsection \<open>Recently used windows\<close>

lemma clean_mru_set:
  assumes "win_ok m"
  shows "set (mru_list (clean_mru m)) = set (mru_list m) \<inter> ids m" "distinct (mru_list m) \<Longrightarrow> distinct (mru_list (clean_mru m))"
    "win_ok (clean_mru m)" "ids (clean_mru m) = ids m"
  using assms by (auto simp: clean_mru_def ids_def win_ok_def list_ex_iff)

lemma touch_ok:
  assumes "win_ok m" and "distinct (mru_list m)" and "ids m - {wid} \<subseteq> set (mru_list m)"
  shows "wm_ok (touch_mru wid m)"
proof -
  let ?m = "m\<lparr>mru_list := wid # filter (\<lambda>i. i \<noteq> wid) (mru_list m)\<rparr>"
  have w: "win_ok ?m" "ids ?m = ids m" using assms(1) by (auto simp: win_ok_def ids_def)
  show ?thesis using clean_mru_set [OF w(1)] assms w(2) by (auto simp: wm_ok_def touch_mru_def)
qed

lemma clean_ok: "win_ok m \<Longrightarrow> distinct (mru_list m) \<Longrightarrow> ids m \<subseteq> set (mru_list m) \<Longrightarrow> wm_ok (clean_mru m)"
  using clean_mru_set by (auto simp: wm_ok_def)

lemma ids_touch [simp]: "ids (touch_mru wid m) = ids m" "ids (clean_mru m) = ids m"
  by (simp_all add: ids_def touch_mru_def clean_mru_def)

lemma touch_again: "wm_ok m \<Longrightarrow> wm_ok (touch_mru wid m)"
  by (rule touch_ok) (auto simp: wm_ok_def)

lemma remove_ids:
  assumes "distinct (map f xs)" and "i < length xs"
  shows "f ` set (list_remove i xs) = f ` set xs - {f (xs ! i)}" "distinct (map f (list_remove i xs))"
    "set (list_remove i xs) = {x \<in> set xs. f x \<noteq> f (xs ! i)}"
proof -
  have e: "xs = take i xs @ xs ! i # drop (Suc i) xs" using assms(2) by (rule id_take_nth_drop)
  define a b x where "a = take i xs" and "b = drop (Suc i) xs" and "x = xs ! i"
  have xs: "xs = a @ x # b" using e by (simp add: a_def b_def x_def)
  have r: "list_remove i xs = a @ b" by (simp add: list_remove_def a_def b_def)
  have d: "distinct (map f (a @ x # b))" using assms(1) xs by simp
  have n: "\<forall>y\<in>set a \<union> set b. f y \<noteq> f x" using d by (auto simp: image_iff)
  have s: "set (a @ x # b) = insert x (set a \<union> set b)" by auto
  show "f ` set (list_remove i xs) = f ` set xs - {f (xs ! i)}"
    unfolding r x_def [symmetric] using n by (subst xs) (auto simp: image_iff)
  show "distinct (map f (list_remove i xs))" unfolding r using d by auto
  show "set (list_remove i xs) = {y \<in> set xs. f y \<noteq> f (xs ! i)}"
    unfolding r x_def [symmetric] using n by (subst xs) auto
qed

subsection \<open>The operations on the window manager\<close>

lemma update_ids:
  assumes "i < length (windows m)" and "window_id w = window_id (windows m ! i)"
  shows "map window_id ((windows m)[i := w]) = map window_id (windows m)" "ids (m\<lparr>windows := (windows m)[i := w]\<rparr>) = ids m"
proof -
  show *: "map window_id ((windows m)[i := w]) = map window_id (windows m)"
    using assms by (simp add: map_update list_update_same_conv)
  have "set (map window_id ((windows m)[i := w])) = set (map window_id (windows m))" using * by simp
  then show "ids (m\<lparr>windows := (windows m)[i := w]\<rparr>) = ids m" by (simp add: ids_def)
qed

lemma update_set: "x \<in> set (xs[i := w]) \<Longrightarrow> x = w \<or> x \<in> set xs"
  using set_update_subset_insert [of xs i w] by auto

lemma update_ok:
  assumes "wm_ok m" and "i < length (windows m)" and "window_id w = window_id (windows m ! i)"
    and "has_focus w \<longleftrightarrow> focused_window m = Some (window_id w)" and "win_state w \<noteq> WClosed" and "prev_state w \<noteq> WClosed"
  shows "wm_ok (m\<lparr>windows := (windows m)[i := w]\<rparr>)"
proof -
  have "windows m ! i \<in> set (windows m)" using assms(2) by simp
  then show ?thesis
    using assms update_ids [OF assms(2,3)] by (auto simp: wm_ok_def win_ok_def dest!: update_set)
qed

lemma raise_ok:
  assumes "wm_ok m" and "raise_to_top_internal sw wid m = Some (r, m')"
  shows "wm_ok m'" and "ids m' = ids m"
proof -
  have "wm_ok m' \<and> ids m' = ids m"
  proof (cases "windows m = [] \<or> window_id (last (windows m)) = wid \<and> focused_window m = Some wid \<or> find_window wid m = None")
    case True
    then show ?thesis using assms by (auto simp: raise_to_top_internal_def split: if_splits)
  next
    case False
    then obtain i where i: "find_window wid m = Some i" by auto
    let ?w = "windows m ! i" and ?m = "m\<lparr>windows := list_remove i (windows m)\<rparr>"
    have n: "(windows m = []) = False" "(window_id (last (windows m)) = wid \<and> focused_window m = Some wid) = False" using False by auto
    have "do { m1 \<leftarrow> drop_focus ?m; m2 \<leftarrow> mark_window_damage (geom ?w) (m1\<lparr>focused_window := Some wid\<rparr>); m3 \<leftarrow> mark_top_bar_damage sw m2;
        Some (Ok (), touch_mru wid (m3\<lparr>windows := windows m3 @ [?w\<lparr>has_focus := True\<rparr>]\<rparr>)) } = Some (r, m')"
      using assms(2) unfolding raise_to_top_internal_def n i if_False option.case Let_def .
    then obtain m1 m2 m3 where m1: "drop_focus ?m = Some m1" and m2: "mark_window_damage (geom ?w) (m1\<lparr>focused_window := Some wid\<rparr>) = Some m2"
      and m3: "mark_top_bar_damage sw m2 = Some m3" and m': "m' = touch_mru wid (m3\<lparr>windows := windows m3 @ [?w\<lparr>has_focus := True\<rparr>]\<rparr>)"
      unfolding Option.bind_eq_Some_conv by blast
    note c = core_fields [OF drop_focus_core [OF m1]] core_fields [OF mark_core(2) [OF m2]] core_fields [OF mark_core(4) [OF m3]]
    have il: "i < length (windows m)" "window_id ?w = wid" using find_window_Some [OF i] by auto
    have ok: "distinct (map window_id (windows m))" "?w \<in> set (windows m)" using assms(1) il by (auto simp: wm_ok_def win_ok_def)
    note rem = remove_ids [OF ok(1) il(1)]
    let ?m4 = "m3\<lparr>windows := windows m3 @ [?w\<lparr>has_focus := True\<rparr>]\<rparr>"
    have ids4: "ids ?m4 = ids m" using c rem(1) il ok(2) by (auto simp: ids_def image_image)
    have dist: "distinct (map window_id (windows ?m4))" using c rem(1,2) il by (auto simp: comp_def)
    have wid: "wid \<in> ids m" using il ok(2) by (auto simp: ids_def)
    then have "win_ok ?m4"
      using assms(1) c rem(3) il ok(2) dist ids4 by (auto simp: win_ok_def wm_ok_def)
    moreover have "mru_list ?m4 = mru_list m" using c by simp
    ultimately have "wm_ok m'" unfolding m' using wid ids4 assms(1) by (intro touch_ok) (simp_all add: wm_ok_def)
    then show ?thesis using m' ids4 by simp
  qed
  then show "wm_ok m'" "ids m' = ids m" by simp_all
qed

lemma top_shown_in: "top_shown ws = Some i \<Longrightarrow> i \<in> window_id ` set ws"
  by (auto simp: top_shown_def find_Some_iff) (metis image_eqI length_rev nth_mem set_rev)

text \<open>After a window lost the focus or went away: all of the invariant but the focus still holds.\<close>

definition almost_ok :: "window_manager \<Rightarrow> bool" where
  "almost_ok m \<longleftrightarrow> distinct (map window_id (windows m)) \<and>
     (\<forall>w\<in>set (windows m). window_id w < next_window_id m \<and> win_state w \<noteq> WClosed \<and> prev_state w \<noteq> WClosed) \<and>
     set (at_candidates (alt_tab m)) \<subseteq> ids m \<and> distinct (mru_list m) \<and> set (mru_list m) = ids m"

lemma almost_core: "wm_core m' = wm_core m \<Longrightarrow> almost_ok m' = almost_ok m"
  by (simp add: wm_core_def almost_ok_def ids_def)

lemma refocus_ok:
  assumes "almost_ok m" and "refocus m = Some m'"
  shows "wm_ok m'" and "ids m' = ids m"
proof -
  let ?f = "top_shown (windows m)"
  let ?m1 = "m\<lparr>focused_window := ?f, windows := map (\<lambda>w. w\<lparr>has_focus := (Some (window_id w) = ?f)\<rparr>) (windows m)\<rparr>"
  obtain m2 where m2: "wm_core m2 = wm_core ?m1" "m' = (case ?f of Some i \<Rightarrow> touch_mru i m2 | None \<Rightarrow> m2)"
    using assms(2) by (auto simp: refocus_def Let_def split: bind_splits option.splits dest: mark_core(2))
  have ids1: "ids ?m1 = ids m" by (auto simp: ids_def image_image)
  have wm: "wm_ok ?m1"
    using assms(1) ids1 top_shown_in [of "windows m"] by (auto simp: almost_ok_def wm_ok_def win_ok_def comp_def ids_def)
  then have wm2: "wm_ok m2" using ok_core [OF m2(1)] by simp
  have ids2: "ids m2 = ids m" using m2(1) ids1 by (simp add: wm_core_def ids_def)
  have "wm_ok m' \<and> ids m' = ids m"
  proof (cases ?f)
    case (Some i)
    then show ?thesis using Some m2(2) touch_again [OF wm2] ids2 by simp
  qed (use m2(2) wm2 ids2 in simp)
  then show "wm_ok m'" "ids m' = ids m" by simp_all
qed

lemma ok_almost: "wm_ok m \<Longrightarrow> almost_ok m"
  by (simp add: almost_ok_def wm_ok_def win_ok_def)

lemma update_almost:
  assumes "almost_ok m" and "i < length (windows m)" and "window_id w = window_id (windows m ! i)"
    and "win_state w \<noteq> WClosed" and "prev_state w \<noteq> WClosed"
  shows "almost_ok (m\<lparr>windows := (windows m)[i := w]\<rparr>)"
proof -
  have "windows m ! i \<in> set (windows m)" using assms(2) by simp
  then show ?thesis
    using assms update_ids [OF assms(2,3)] by (auto simp: almost_ok_def dest!: update_set)
qed

lemma member_ok:
  assumes "wm_ok m" and "i < length (windows m)"
  shows "win_state (windows m ! i) \<noteq> WClosed" "prev_state (windows m ! i) \<noteq> WClosed" "window_id (windows m ! i) \<in> ids m"
    "has_focus (windows m ! i) \<longleftrightarrow> focused_window m = Some (window_id (windows m ! i))"
  using assms nth_mem [OF assms(2)] by (auto simp: wm_ok_def win_ok_def ids_def)

lemma minimize_ok:
  assumes "wm_ok m" and "minimize_window sw pid wid m = Some (r, m')"
  shows "wm_ok m'"
proof (cases "own_window pid wid m")
  case (Inr i)
  note o = own_window_Ok [OF Inr]
  let ?w = "windows m ! i"
  define w1 where "w1 = ?w\<lparr>prev_state := (if win_state ?w \<noteq> Minimized then win_state ?w else prev_state ?w), visible := False,
    has_focus := False, win_state := Minimized\<rparr>"
  let ?m1 = "m\<lparr>windows := (windows m)[i := w1]\<rparr>"
  have "do { m1 \<leftarrow> mark_window_damage (geom ?w) ?m1; m2 \<leftarrow> mark_top_bar_damage sw m1;
      m3 \<leftarrow> (if focused_window m2 = Some wid then refocus m2 else Some m2); Some (Ok (), m3) } = Some (r, m')"
    using assms(2) unfolding minimize_window_def Inr sum.case Let_def w1_def .
  then obtain m1 m2 where m2: "mark_window_damage (geom ?w) ?m1 = Some m1" "mark_top_bar_damage sw m1 = Some m2"
    and m': "(if focused_window m2 = Some wid then refocus m2 else Some m2) = Some m'"
    unfolding Option.bind_eq_Some_conv by auto
  have c: "wm_core m2 = wm_core ?m1" using mark_core(2) [OF m2(1)] mark_core(4) [OF m2(2)] by simp
  have w1: "window_id w1 = window_id ?w" "win_state w1 \<noteq> WClosed" "prev_state w1 \<noteq> WClosed" "\<not> has_focus w1"
    using member_ok [OF assms(1)] o by (auto simp: w1_def)
  show ?thesis
  proof (cases "focused_window m2 = Some wid")
    case True
    have "almost_ok ?m1" using update_almost ok_almost assms(1) o w1 by blast
    then show ?thesis using True m' refocus_ok(1) almost_core [OF c] by simp
  next
    case False
    then have "wm_ok ?m1" using c w1 o assms(1) by (intro update_ok) (auto simp: wm_core_def)
    then show ?thesis using False m' ok_core [OF c] by simp
  qed
qed (use assms in \<open>simp add: minimize_window_def\<close>)

text \<open>A window that changes neither its number nor its focus.\<close>

definition same_window :: "window \<Rightarrow> window \<Rightarrow> bool" where
  "same_window w w' \<longleftrightarrow> window_id w' = window_id w \<and> win_owner w' = win_owner w \<and> has_focus w' = has_focus w \<and>
     (win_state w \<noteq> WClosed \<and> prev_state w \<noteq> WClosed \<longrightarrow> win_state w' \<noteq> WClosed \<and> prev_state w' \<noteq> WClosed)"

lemma same_ok:
  assumes "wm_ok m" and "i < length (windows m)" and "same_window (windows m ! i) w"
  shows "wm_ok (m\<lparr>windows := (windows m)[i := w]\<rparr>)"
  using assms member_ok [OF assms(1,2)] by (intro update_ok) (auto simp: same_window_def)

lemma same_set_geom [simp]: "same_window w (set_geom g w') = same_window w w'"
  by (cases g) (simp add: same_window_def set_geom_def)

lemma same_windows:
  "same_window w (keep_normal w)" "same_window w (restored sw sh w)" "same_window w (dropped sw sh w)" "same_window w (unsnapped w)"
  "toggled_max sw sh w = Some w1 \<Longrightarrow> same_window w w1" "toggled_full sw sh w = Some w1 \<Longrightarrow> same_window w w1"
  "resized sw sh e dx dy ox oy ow oh w = Some w1 \<Longrightarrow> same_window w w1"
  by (auto simp: same_window_def keep_normal_def restored_def Let_def set_geom_def dropped_def unsnapped_def toggled_max_def
      toggled_full_def back_to_normal_def resized_def resize_left_def resize_right_def resize_top_def resize_bottom_def
      split: prod.splits window_state.splits bind_splits if_splits resize_edge.splits)

lemma set_title_ok:
  assumes "wm_ok m" and "set_window_title wid title m = Some (r, m')"
  shows "wm_ok m'"
proof (cases "find_window wid m")
  case (Some i)
  note f = find_window_Some [OF Some]
  let ?m = "m\<lparr>windows := (windows m)[i := (windows m ! i)\<lparr>win_title := title\<rparr>]\<rparr>"
  have "wm_ok ?m" using assms(1) f by (intro same_ok) (auto simp: same_window_def)
  moreover have "wm_core m' = wm_core ?m"
    using assms(2) Some by (auto simp: set_window_title_def Let_def split: bind_splits dest: mark_core(2))
  ultimately show ?thesis using ok_core by blast
qed (use assms in \<open>simp add: set_window_title_def\<close>)

lemma move_ok:
  assumes "wm_ok m" and "move_window sw sh pid wid x y m = Some (r, m')"
  shows "wm_ok m'"
proof (cases "own_window pid wid m")
  case (Inr i)
  note o = own_window_Ok [OF Inr]
  let ?w = "\<lambda>cx cy. let w1 = (windows m ! i)\<lparr>win_x := cx, win_y := cy\<rparr> in if win_state w1 = WNormal then w1\<lparr>normal_geom := geom w1\<rparr> else w1"
  have "do { cx \<leftarrow> clamp_i32 x (- 100) (int sw - 50); cy \<leftarrow> clamp_i32 y WORK_AREA_TOP (int sh - (int DOCK_HEIGHT + 30));
      m1 \<leftarrow> mark_window_damage (geom (windows m ! i)) (m\<lparr>windows := (windows m)[i := ?w cx cy]\<rparr>);
      m2 \<leftarrow> mark_window_damage (geom (?w cx cy)) m1; Some (Ok (), m2) } = Some (r, m')"
    using assms(2) unfolding move_window_def Inr sum.case Let_def .
  then obtain cx cy m1 where m1: "mark_window_damage (geom (windows m ! i)) (m\<lparr>windows := (windows m)[i := ?w cx cy]\<rparr>) = Some m1"
    "mark_window_damage (geom (?w cx cy)) m1 = Some m'"
    unfolding Option.bind_eq_Some_conv by auto
  obtain w where w: "same_window (windows m ! i) w" "wm_core m' = wm_core (m\<lparr>windows := (windows m)[i := w]\<rparr>)"
    using mark_core(2) [OF m1(1)] mark_core(2) [OF m1(2)]
    by (intro that [of "?w cx cy"]) (simp_all add: same_window_def Let_def)
  then show ?thesis using same_ok [OF assms(1), of i w] o ok_core by blast
qed (use assms in \<open>simp add: move_window_def\<close>)

lemma ok_next: "wm_ok m \<Longrightarrow> next_window_id m \<notin> ids m"
  by (auto simp: wm_ok_def win_ok_def ids_def)

lemma add_window_ok:
  assumes "wm_ok m" and "add_window sw f m = Some (wid, m')"
    and "\<And>i. window_id (f i) = i \<and> has_focus (f i) \<and> win_state (f i) \<noteq> WClosed \<and> prev_state (f i) \<noteq> WClosed"
  shows "wm_ok m'" and "wid = next_window_id m" and "focused_window m' = Some wid"
    and "windows m' = map (\<lambda>w. w\<lparr>has_focus := False\<rparr>) (windows m) @ [f wid]"
proof -
  obtain nxt m1 m3 m4 where n: "checked_add 64 (next_window_id m) 1 = Some nxt"
    and m1: "drop_focus (m\<lparr>next_window_id := nxt\<rparr>) = Some m1"
    and m3: "mark_window_damage (geom (f wid)) (touch_mru wid (m1\<lparr>windows := windows m1 @ [f wid], focused_window := Some wid\<rparr>)) = Some m3"
    and m4: "mark_top_bar_damage sw m3 = Some m'" and wid: "wid = next_window_id m"
    using assms(2) unfolding add_window_def Let_def Option.bind_eq_Some_conv by auto
  let ?m2 = "m1\<lparr>windows := windows m1 @ [f wid], focused_window := Some wid\<rparr>"
  note c = core_fields [OF drop_focus_core [OF m1]] and win = assms(3) [of wid]
  have nxt: "nxt = wid + 1" using n wid by (auto simp: checked_add_def split: if_splits)
  have ids2: "ids ?m2 = insert wid (ids m)" using c win by (auto simp: ids_def image_image)
  have "win_ok ?m2" using assms(1) c win ids2 nxt wid ok_next [OF assms(1)] by (auto simp: win_ok_def wm_ok_def comp_def ids_def)
  moreover have "mru_list ?m2 = mru_list m" using c by simp
  ultimately have "wm_ok (touch_mru wid ?m2)" using ids2 assms(1) by (intro touch_ok) (auto simp: wm_ok_def)
  moreover have e: "wm_core m' = wm_core (touch_mru wid ?m2)" using mark_core(2) [OF m3] mark_core(4) [OF m4] by simp
  ultimately show "wm_ok m'" using ok_core by blast
  show "wid = next_window_id m" by (rule wid)
  show "focused_window m' = Some wid" "windows m' = map (\<lambda>w. w\<lparr>has_focus := False\<rparr>) (windows m) @ [f wid]"
    using core_fields(1,3) [OF e] c by (simp_all add: touch_mru_def clean_mru_def)
qed

lemma create_ok:
  assumes "wm_ok (d_wm d)" and "create_window_with_meta sw sh pid sid x y w h title icon d = Some (r, d')"
  shows "wm_ok (d_wm d')"
  using assms
  by (auto simp: create_window_with_meta_def new_window_def split: if_splits bind_splits prod.splits intro: add_window_ok(1))

lemma create_window_ok: "wm_ok (d_wm d) \<Longrightarrow> create_window sw sh pid sid x y w h d = Some (r, d') \<Longrightarrow> wm_ok (d_wm d')"
  by (auto simp: create_window_def Let_def intro: create_ok split: prod.splits)

lemma rerender_wm: "rerender_app_surface w d = Some d' \<Longrightarrow> d_wm d' = d_wm d"
  by (auto simp: rerender_app_surface_def split: bind_splits)

lemma on_wm_raise_ok:
  assumes "wm_ok (d_wm d)" and "on_wm (raise_to_top_internal sw wid) d = Some (r, d')"
  shows "wm_ok (d_wm d')"
  using assms by (auto simp: on_wm_def split: bind_splits intro: raise_ok(1))

lemma restore_ok:
  assumes "wm_ok (d_wm d)" and "restore_window sw sh pid wid d = Some (r, d')"
  shows "wm_ok (d_wm d')"
proof (cases "own_window pid wid (d_wm d)")
  case (Inr i)
  note o = own_window_Ok [OF Inr]
  let ?m = "d_wm d"
  let ?w = "restored sw sh (windows ?m ! i)"
  let ?d = "d\<lparr>d_wm := ?m\<lparr>windows := (windows ?m)[i := ?w]\<rparr>\<rparr>"
  have "do { d1 \<leftarrow> rerender_app_surface ?w ?d; m1 \<leftarrow> mark_window_damage (geom ?w) (d_wm d1); m2 \<leftarrow> mark_top_bar_damage sw m1;
      on_wm (raise_to_top_internal sw wid) (d1\<lparr>d_wm := m2\<rparr>) } = Some (r, d')"
    using assms(2) unfolding restore_window_def Inr sum.case Let_def .
  then obtain d1 m1 m2 where d1: "rerender_app_surface ?w ?d = Some d1" and m1: "mark_window_damage (geom ?w) (d_wm d1) = Some m1"
    and m2: "mark_top_bar_damage sw m1 = Some m2" and r: "on_wm (raise_to_top_internal sw wid) (d1\<lparr>d_wm := m2\<rparr>) = Some (r, d')"
    unfolding Option.bind_eq_Some_conv by blast
  have "wm_ok (d_wm ?d)" using same_ok [OF assms(1), of i ?w] o same_windows(2) by auto
  then have "wm_ok m2" using rerender_wm [OF d1] mark_core(2) [OF m1] mark_core(4) [OF m2] ok_core by metis
  then show ?thesis using on_wm_raise_ok [OF _ r] by simp
qed (use assms in \<open>simp add: restore_window_def\<close>)

lemma snap_ok:
  assumes "wm_ok (d_wm d)" and "snap_to sw g st pid wid d = Some (r, d')" and "st \<noteq> WClosed"
  shows "wm_ok (d_wm d')"
proof (cases "own_window pid wid (d_wm d)")
  case (Inr i)
  note o = own_window_Ok [OF Inr]
  let ?m = "d_wm d"
  let ?w = "(set_geom g (keep_normal (windows ?m ! i)))\<lparr>win_state := st, prev_state := WNormal\<rparr>"
  let ?d = "d\<lparr>d_wm := ?m\<lparr>windows := (windows ?m)[i := ?w]\<rparr>\<rparr>"
  have "do { d1 \<leftarrow> rerender_app_surface ?w ?d; m1 \<leftarrow> mark_box (geom (windows ?m ! i)) g (d_wm d1);
      on_wm (raise_to_top_internal sw wid) (d1\<lparr>d_wm := m1\<rparr>) } = Some (r, d')"
    using assms(2) unfolding snap_to_def Inr sum.case Let_def .
  then obtain d1 m1 where d1: "rerender_app_surface ?w ?d = Some d1" and m1: "mark_box (geom (windows ?m ! i)) g (d_wm d1) = Some m1"
    and r: "on_wm (raise_to_top_internal sw wid) (d1\<lparr>d_wm := m1\<rparr>) = Some (r, d')"
    unfolding Option.bind_eq_Some_conv by blast
  have "same_window (windows ?m ! i) ?w" using assms(3) by (cases g) (simp add: same_window_def set_geom_def keep_normal_def)
  then have "wm_ok (d_wm ?d)" using same_ok [OF assms(1), of i ?w] o by auto
  then have "wm_ok m1" using rerender_wm [OF d1] mark_core(5) [OF m1] ok_core by metis
  then show ?thesis using on_wm_raise_ok [OF _ r] by simp
qed (use assms in \<open>simp add: snap_to_def\<close>)

lemma toggle_ok:
  assumes "wm_ok (d_wm d)" and "toggle_with sw sh f pid wid d = Some (r, d')" and "\<And>w w'. f w = Some w' \<Longrightarrow> same_window w w'"
  shows "wm_ok (d_wm d')"
proof -
  obtain m where m: "mark_full_damage sw sh (d_wm d) = Some m"
    using assms(2) by (auto simp: toggle_with_def split: bind_splits)
  have okm: "wm_ok m" using ok_core [OF mark_core(3) [OF m]] assms(1) by simp
  show ?thesis
  proof (cases "own_window pid wid m")
    case (Inr i)
    note o = own_window_Ok [OF Inr]
    obtain w d1 where w: "f (windows m ! i) = Some w"
      and d1: "rerender_app_surface w (d\<lparr>d_wm := m\<lparr>windows := (windows m)[i := w]\<rparr>\<rparr>) = Some d1"
      and r: "on_wm (raise_to_top_internal sw wid) d1 = Some (r, d')"
      using assms(2) unfolding toggle_with_def m Option.bind.simps Inr sum.case Option.bind_eq_Some_conv by blast
    have "wm_ok (d_wm d1)" using rerender_wm [OF d1] same_ok [OF okm, of i w] o assms(3) [OF w] by simp
    then show ?thesis using on_wm_raise_ok [OF _ r] by simp
  qed (use assms(2) m okm in \<open>auto simp: toggle_with_def\<close>)
qed

lemma snaps_ok:
  "wm_ok (d_wm d) \<Longrightarrow> snap_left sw sh pid wid d = Some (r, d') \<Longrightarrow> wm_ok (d_wm d')"
  "wm_ok (d_wm d) \<Longrightarrow> snap_right sw sh pid wid d = Some (r, d') \<Longrightarrow> wm_ok (d_wm d')"
  "wm_ok (d_wm d) \<Longrightarrow> toggle_maximize_window sw sh pid wid d = Some (r, d') \<Longrightarrow> wm_ok (d_wm d')"
  "wm_ok (d_wm d) \<Longrightarrow> toggle_fullscreen sw sh pid wid d = Some (r, d') \<Longrightarrow> wm_ok (d_wm d')"
  by (auto simp: snap_left_def snap_right_def toggle_maximize_window_def toggle_fullscreen_def
      intro: snap_ok toggle_ok same_windows(5,6))

lemma switch_ok:
  assumes "wm_ok (d_wm d)" and "switch_to sw sh wid d = Some (r, d')"
  shows "wm_ok (d_wm d')"
proof (cases "find_window wid (d_wm d)")
  case (Some i)
  let ?w = "windows (d_wm d) ! i"
  obtain r1 d1 where d1: "(if win_state ?w = Minimized then restore_window sw sh (win_owner ?w) wid d
      else on_wm (raise_to_top_internal sw wid) d) = Some (r1, d1)" "d' = d1\<lparr>d_wm := touch_mru wid (d_wm d1)\<rparr>"
    using assms(2) unfolding switch_to_def Some option.case Let_def bind_pair_Some by (elim exE conjE) (rule that, assumption, simp)
  have ok: "wm_ok (d_wm d1)"
  proof (cases "win_state ?w = Minimized")
    case True
    with d1(1) have "restore_window sw sh (win_owner ?w) wid d = Some (r1, d1)" by simp
    then show ?thesis by (rule restore_ok [OF assms(1)])
  next
    case False
    with d1(1) have "on_wm (raise_to_top_internal sw wid) d = Some (r1, d1)" by simp
    then show ?thesis by (rule on_wm_raise_ok [OF assms(1)])
  qed
  show ?thesis using d1(2) touch_again [OF ok] by simp
qed (use assms in \<open>simp add: switch_to_def\<close>)

lemma press_ok: "wm_ok m \<Longrightarrow> alt_tab_press sw sh b m = Some m' \<Longrightarrow> wm_ok m'"
proof -
  assume ok: "wm_ok m" and p: "alt_tab_press sw sh b m = Some m'"
  have c: "wm_ok (clean_mru m)" using ok by (intro clean_ok) (auto simp: wm_ok_def)
  show "wm_ok m'"
  proof (cases "mru_list (clean_mru m) = []")
    case True
    then show ?thesis using p c by (simp add: alt_tab_press_def Let_def)
  next
    case False
    then obtain i where "mark_switcher sw sh ((clean_mru m)\<lparr>alt_tab := \<lparr>at_active = True, selected_index = i, at_candidates = mru_list (clean_mru m)\<rparr>\<rparr>) = Some m'"
      using p unfolding alt_tab_press_def Let_def by auto
    note k = core_fields [OF mark_core(7) [OF this]]
    have "ids m' = ids (clean_mru m)" using k(1) by (simp add: ids_def)
    then show ?thesis using k c by (auto simp: wm_ok_def win_ok_def)
  qed
qed

lemma cancel_ok: "wm_ok m \<Longrightarrow> alt_tab_cancel sw sh m = Some m' \<Longrightarrow> wm_ok m'"
  by (auto simp: alt_tab_cancel_def wm_ok_def win_ok_def ids_def wm_core_def split: if_splits bind_splits dest!: mark_core(7))

lemma commit_ok:
  assumes "wm_ok (d_wm d)" and "alt_tab_commit sw sh d = Some (r, d')"
  shows "wm_ok (d_wm d')"
proof (cases "at_active (alt_tab (d_wm d))")
  case True
  then obtain m where m: "mark_switcher sw sh (d_wm d) = Some m"
    using assms(2) by (cases "mark_switcher sw sh (d_wm d)") (auto simp: alt_tab_commit_def)
  let ?d = "d\<lparr>d_wm := m\<lparr>alt_tab := (alt_tab m)\<lparr>at_active := False\<rparr>\<rparr>\<rparr>"
  have ok: "wm_ok (d_wm ?d)"
    using assms(1) mark_core(7) [OF m] by (auto simp: wm_ok_def win_ok_def ids_def wm_core_def)
  show ?thesis
  proof (cases "at_candidates (alt_tab m) = []")
    case True
    then show ?thesis using assms(2) m ok \<open>at_active _\<close> by (auto simp: alt_tab_commit_def Let_def)
  next
    case False
    then obtain b wid where "switch_to sw sh wid ?d = Some (b, d')"
      using assms(2) m True by (auto simp: alt_tab_commit_def Let_def bind_pair_Some)
    then show ?thesis using switch_ok ok by blast
  qed
qed (use assms in \<open>simp add: alt_tab_commit_def\<close>)

lemma cycle_ok:
  assumes "wm_ok (d_wm d)" and "alt_tab_cycle sw sh d = Some (r, d')"
  shows "wm_ok (d_wm d')"
proof -
  have c: "wm_ok (clean_mru (d_wm d))" using assms(1) by (intro clean_ok) (auto simp: wm_ok_def)
  then show ?thesis
    using assms(2) switch_ok [of "d\<lparr>d_wm := clean_mru (d_wm d)\<rparr>"]
    by (auto simp: alt_tab_cycle_def Let_def bind_pair_Some split: if_splits)
qed

lemma click_ok: "wm_ok m \<Longrightarrow> dispatch_mouse_click sw mx my m = Some (r, m') \<Longrightarrow> wm_ok m'"
  by (auto simp: dispatch_mouse_click_def bind_pair_Some split: bind_splits option.splits intro: raise_ok(1))

subsection \<open>The mouse\<close>

lemma gesture_core [simp]:
  "wm_core (m\<lparr>launcher_open := a\<rparr>) = wm_core m" "wm_core (m\<lparr>pending_spawn_app := b\<rparr>) = wm_core m" "wm_core (m\<lparr>resizing_window := c\<rparr>) = wm_core m"
  "wm_core (m\<lparr>last_titlebar_click := e\<rparr>) = wm_core m" "wm_core (m\<lparr>dragging_window := f\<rparr>) = wm_core m" "wm_core (m\<lparr>snap_shown := g\<rparr>) = wm_core m"
  "wm_core (m\<lparr>pending_resize_render := h\<rparr>) = wm_core m" "wm_core (m\<lparr>hovered_target := i\<rparr>) = wm_core m" "wm_core (m\<lparr>hovered_dock_tab := j\<rparr>) = wm_core m"
  by (simp_all add: wm_core_def)

lemma gesture_ok [simp]:
  "wm_ok (m\<lparr>launcher_open := a\<rparr>) = wm_ok m" "wm_ok (m\<lparr>pending_spawn_app := b\<rparr>) = wm_ok m" "wm_ok (m\<lparr>resizing_window := c\<rparr>) = wm_ok m"
  "wm_ok (m\<lparr>last_titlebar_click := e\<rparr>) = wm_ok m" "wm_ok (m\<lparr>dragging_window := f\<rparr>) = wm_ok m" "wm_ok (m\<lparr>snap_shown := g\<rparr>) = wm_ok m"
  "wm_ok (m\<lparr>pending_resize_render := h\<rparr>) = wm_ok m" "wm_ok (m\<lparr>hovered_target := i\<rparr>) = wm_ok m" "wm_ok (m\<lparr>hovered_dock_tab := j\<rparr>) = wm_ok m"
  by (simp_all add: ok_core [OF gesture_core(1)] ok_core [OF gesture_core(2)] ok_core [OF gesture_core(3)] ok_core [OF gesture_core(4)]
      ok_core [OF gesture_core(5)] ok_core [OF gesture_core(6)] ok_core [OF gesture_core(7)] ok_core [OF gesture_core(8)] ok_core [OF gesture_core(9)])

lemma mark_ok:
  "mark_damage x y w h m = Some m' \<Longrightarrow> wm_ok m' = wm_ok m" "mark_top_bar_damage sw m = Some m' \<Longrightarrow> wm_ok m' = wm_ok m"
  "mark_box old new m = Some m' \<Longrightarrow> wm_ok m' = wm_ok m" "mark_window_damage g m = Some m' \<Longrightarrow> wm_ok m' = wm_ok m"
  by (rule ok_core, erule mark_core)+

lemma launcher_press_ok: "wm_ok m \<Longrightarrow> press_launcher mx my m = Some (b, m') \<Longrightarrow> wm_ok m'"
  by (auto simp: press_launcher_def Let_def split: if_splits prod.splits option.splits bind_splits dest!: mark_ok(1))

lemma on_wm_minimize_ok: "wm_ok (d_wm d) \<Longrightarrow> on_wm (minimize_window sw pid wid) d = Some (r, d') \<Longrightarrow> wm_ok (d_wm d')"
  by (auto simp: on_wm_def bind_pair_Some intro: minimize_ok)

lemma tab_press_ok:
  assumes "wm_ok (d_wm d)" and "press_tab sw sh mx d = Some (r, d')"
  shows "wm_ok (d_wm d')"
proof -
  define i where "i = nat ((mx - 102) div 92)"
  let ?w = "windows (d_wm d) ! i"
  let ?op = "if win_state ?w = Minimized then restore_window sw sh (win_owner ?w) (window_id ?w) d
      else if focused_window (d_wm d) = Some (window_id ?w) then on_wm (minimize_window sw (win_owner ?w) (window_id ?w)) d
      else on_wm (raise_to_top_internal sw (window_id ?w)) d"
  show ?thesis
  proof (cases "102 \<le> mx \<and> mx \<le> int sw - 200 \<and> i < length (windows (d_wm d))")
    case True
    then have "do { (_, d1) \<leftarrow> ?op; m1 \<leftarrow> mark_top_bar_damage sw (d_wm d1); Some (Handled (Some (window_id ?w, win_owner ?w)), d1\<lparr>d_wm := m1\<rparr>) } = Some (r, d')"
      using assms(2) unfolding press_tab_def Let_def i_def [symmetric] by (simp only: if_True simp_thms)
    then obtain r1 d1 where op: "?op = Some (r1, d1)"
      and d1: "do { m1 \<leftarrow> mark_top_bar_damage sw (d_wm d1); Some (Handled (Some (window_id ?w, win_owner ?w)), d1\<lparr>d_wm := m1\<rparr>) } = Some (r, d')"
      unfolding bind_pair_Some by (elim exE conjE) (rule that)
    then obtain m1 where m1: "mark_top_bar_damage sw (d_wm d1) = Some m1" "d' = d1\<lparr>d_wm := m1\<rparr>"
      unfolding Option.bind_eq_Some_conv by auto
    have "wm_ok (d_wm d1)"
    proof (cases "win_state ?w = Minimized")
      case True
      with op have "restore_window sw sh (win_owner ?w) (window_id ?w) d = Some (r1, d1)" by simp
      then show ?thesis by (rule restore_ok [OF assms(1)])
    next
      case False
      show ?thesis
      proof (cases "focused_window (d_wm d) = Some (window_id ?w)")
        case True
        with op False have "on_wm (minimize_window sw (win_owner ?w) (window_id ?w)) d = Some (r1, d1)" by simp
        then show ?thesis by (rule on_wm_minimize_ok [OF assms(1)])
      next
        case f: False
        with op False have "on_wm (raise_to_top_internal sw (window_id ?w)) d = Some (r1, d1)" by simp
        then show ?thesis by (rule on_wm_raise_ok [OF assms(1)])
      qed
    qed
    then show ?thesis using m1 mark_ok(2) by simp
  next
    case False
    then have "d' = d" using assms(2) unfolding press_tab_def Let_def i_def [symmetric] by auto
    then show ?thesis using assms(1) by simp
  qed
qed

lemma window_press_ok:
  assumes "wm_ok (d_wm d)" and "press_window sw sh now mx my w z d = Some (r, d')"
  shows "wm_ok (d_wm d')"
proof -
  have raise: "wm_ok (d_wm e')" if "on_wm (raise_to_top_internal sw wid) (d\<lparr>d_wm := m\<rparr>) = Some (q, e')" "wm_core m = wm_core (d_wm d)" for wid m q e'
    using on_wm_raise_ok [OF _ that(1)] ok_core [OF that(2)] assms(1) by simp
  have toggle: "wm_ok (d_wm e')" if "toggle_maximize_window sw sh pid wid (d\<lparr>d_wm := m\<rparr>) = Some (q, e')" "wm_core m = wm_core (d_wm d)" for pid wid m q e'
    using snaps_ok(3) [OF _ that(1)] ok_core [OF that(2)] assms(1) by simp
  note eq = assms(2) [unfolded press_window_def Let_def]
  show ?thesis
    using eq assms(1) on_wm_minimize_ok
    by (cases z) (auto simp: bind_pair_Some split: if_splits elim!: raise toggle
        intro: on_wm_raise_ok [OF assms(1)] snaps_ok(3) [OF assms(1)])
qed

lemma mouse_down_ok:
  assumes "wm_ok (d_wm d)" and "handle_mouse_down sw sh now mx my d = Some (r, d')"
  shows "wm_ok (d_wm d')"
proof -
  obtain fin m where p: "press_launcher mx my (d_wm d) = Some (fin, m)"
    using assms(2) by (auto simp: handle_mouse_down_def bind_pair_Some)
  have ok: "wm_ok m" using launcher_press_ok [OF assms(1) p] .
  show ?thesis
    using assms(2) p ok tab_press_ok [of "d\<lparr>d_wm := m\<rparr>"] window_press_ok [of "d\<lparr>d_wm := m\<rparr>"]
    by (auto simp: handle_mouse_down_def Let_def bind_pair_Some split: if_splits bind_splits option.splits dest!: mark_ok(1))
qed

lemma drop_ok:
  assumes "wm_ok (d_wm d)" and "drop_window sw sh wid d = Some d'"
  shows "wm_ok (d_wm d')"
proof (cases "find_window wid (d_wm d)")
  case (Some i)
  note f = find_window_Some [OF Some]
  let ?w = "windows (d_wm d) ! i"
  let ?w1 = "dropped sw sh ?w"
  let ?d = "d\<lparr>d_wm := (d_wm d)\<lparr>windows := (windows (d_wm d))[i := ?w1]\<rparr>\<rparr>"
  obtain d1 m1 where d1: "rerender_app_surface ?w1 ?d = Some d1" "mark_box (geom ?w) (geom ?w1) (d_wm d1) = Some m1" "d' = d1\<lparr>d_wm := m1\<rparr>"
    using assms(2) unfolding drop_window_def Some option.case Let_def Option.bind_eq_Some_conv by blast
  have "wm_ok (d_wm ?d)" using same_ok [OF assms(1), of i ?w1] f same_windows(3) by simp
  then show ?thesis using d1(3) mark_ok(3) [OF d1(2)] rerender_wm [OF d1(1)] by simp
qed (use assms in \<open>simp add: drop_window_def\<close>)

lemma render_ok: "wm_ok (d_wm d) \<Longrightarrow> render_resized wid d = Some d' \<Longrightarrow> wm_ok (d_wm d')"
  by (auto simp: render_resized_def Let_def split: option.splits bind_splits dest!: mark_ok(1) rerender_wm)

lemma mouse_up_ok:
  assumes "wm_ok (d_wm d)" and "handle_mouse_up sw sh d = Some (r, d')"
  shows "wm_ok (d_wm d')"
proof -
  let ?drag = "case dragging_window (d_wm d) of None \<Rightarrow> Some d
    | Some (wid, _, _) \<Rightarrow> drop_window sw sh wid (d\<lparr>d_wm := (d_wm d)\<lparr>dragging_window := None\<rparr>\<rparr>)"
  let ?snap = "\<lambda>d1. if snap_shown (d_wm d1) \<noteq> PreviewNone
    then mark_damage 0 WORK_AREA_TOP sw (sh - nat WORK_AREA_TOP) ((d_wm d1)\<lparr>snap_shown := PreviewNone\<rparr>) else Some (d_wm d1)"
  let ?size = "\<lambda>d1 m2. case resizing_window m2 of None \<Rightarrow> Some (d1\<lparr>d_wm := m2\<rparr>)
    | Some (wid, _) \<Rightarrow> let d2 = d1\<lparr>d_wm := m2\<lparr>resizing_window := None, pending_resize_render := None\<rparr>\<rparr> in
        if pending_resize_render m2 = Some wid then render_resized wid d2 else Some d2"
  obtain d1 m2 d3 where d1: "?drag = Some d1" and m2: "?snap d1 = Some m2" and d3: "?size d1 m2 = Some d3" "d' = d3"
    using assms(2) unfolding handle_mouse_up_def Option.bind_eq_Some_conv by blast
  have "wm_ok (d_wm d1)"
    using d1 assms(1) drop_ok [of "d\<lparr>d_wm := (d_wm d)\<lparr>dragging_window := None\<rparr>\<rparr>"] by (auto split: option.splits prod.splits)
  then have "wm_ok m2" using m2 mark_ok(1) by (auto split: if_splits)
  then show ?thesis
    using d3 render_ok [of "d1\<lparr>d_wm := m2\<lparr>resizing_window := None, pending_resize_render := None\<rparr>\<rparr>"]
    by (auto simp: Let_def split: option.splits prod.splits if_splits)
qed

lemma resize_move_ok:
  assumes "wm_ok m" and "resize_move sw sh mx my rz m = Some m'"
  shows "wm_ok m'"
proof -
  obtain wid e sx sy ox oy ow oh where rz: "rz = (wid, e, sx, sy, ox, oy, ow, oh)" by (cases rz) auto
  show ?thesis
  proof (cases "find_window wid m")
    case (Some i)
    note f = find_window_Some [OF Some]
    let ?w = "windows m ! i"
    obtain w1 m1 where w1: "resized sw sh e (mx - sx) (my - sy) ox oy ow oh ?w = Some w1"
      and m1: "(if geom ?w \<noteq> geom w1 then mark_box (geom ?w) (geom w1) (m\<lparr>pending_resize_render := Some wid\<rparr>) else Some m) = Some m1"
      and m': "m' = m1\<lparr>windows := (windows m1)[i := w1\<lparr>win_state := WNormal, normal_geom := geom w1\<rparr>]\<rparr>"
      using assms(2) unfolding resize_move_def rz prod.case Some option.case Let_def Option.bind_eq_Some_conv by (elim exE conjE) (rule that, assumption, assumption, simp)
    have c: "wm_core m1 = wm_core m" using m1 mark_core(5) by (auto split: if_splits)
    have "same_window ?w (w1\<lparr>win_state := WNormal, normal_geom := geom w1\<rparr>)"
      using same_windows(7) [OF w1] by (simp add: same_window_def)
    then show ?thesis using same_ok [of m1 i] m' f ok_core [OF c] assms(1) core_fields(1) [OF c] by simp
  qed (use assms rz in \<open>simp add: resize_move_def\<close>)
qed

lemma same_trans: "same_window a b \<Longrightarrow> same_window b c \<Longrightarrow> same_window a c"
  by (simp add: same_window_def)

lemma drag_move_ok:
  assumes "wm_ok m" and "drag_move sw sh mx my dg m = Some m'"
  shows "wm_ok m'"
proof -
  obtain wid ox oy where dg: "dg = (wid, ox, oy)" by (cases dg) auto
  show ?thesis
  proof (cases "find_window wid m")
    case (Some i)
    note f = find_window_Some [OF Some]
    let ?w = "unsnapped (windows m ! i)"
    obtain x y m1 where m1: "mark_box (geom ?w) (geom (keep_normal (?w\<lparr>win_x := x, win_y := y\<rparr>))) m = Some m1"
      and m': "show_preview sw sh (preview_at sw (keep_normal (?w\<lparr>win_x := x, win_y := y\<rparr>)))
        (m1\<lparr>windows := (windows m1)[i := keep_normal (?w\<lparr>win_x := x, win_y := y\<rparr>)]\<rparr>) = Some m'"
      using assms(2) unfolding drag_move_def dg prod.case Some option.case Let_def Option.bind_eq_Some_conv by blast
    define w1 where "w1 = keep_normal (?w\<lparr>win_x := x, win_y := y\<rparr>)"
    note c = mark_core(5) [OF m1]
    have "same_window ?w (?w\<lparr>win_x := x, win_y := y\<rparr>)" by (simp add: same_window_def)
    then have "same_window (windows m ! i) w1" unfolding w1_def using same_trans same_windows(1,4) by blast
    then have "wm_ok (m1\<lparr>windows := (windows m1)[i := w1]\<rparr>)" using same_ok [of m1 i w1] f ok_core [OF c] assms(1) core_fields(1) [OF c] by simp
    then show ?thesis using m' unfolding w1_def [symmetric] by (auto simp: show_preview_def split: if_splits dest!: mark_ok(1))
  qed (use assms dg in \<open>simp add: drag_move_def\<close>)
qed

lemma hover_ok: "wm_ok m \<Longrightarrow> hover_windows mx my m = Some m' \<Longrightarrow> wm_ok m'"
  by (auto simp: hover_windows_def mark_hover_def Let_def split: bind_splits if_splits option.splits dest!: mark_ok(1))

lemma mouse_move_ok:
  assumes "wm_ok m" and "handle_mouse_move sw sh mx my m = Some m'"
  shows "wm_ok m'"
  using assms resize_move_ok [OF assms(1)] drag_move_ok [OF assms(1)]
  by (auto simp: handle_mouse_move_def split: option.splits if_splits bind_splits intro: hover_ok dest: mark_ok(2))

subsection \<open>Windows that go away\<close>

lemma remove_ok:
  assumes "wm_ok m" and "remove_window sw i m = Some m'" and "i < length (windows m)"
  shows "wm_ok m'"
proof -
  let ?w = "windows m ! i"
  let ?m0 = "forget_window (window_id ?w) (m\<lparr>windows := list_remove i (windows m)\<rparr>)"
  obtain m2 m3 where m: "mark_window_damage (geom ?w) (clean_mru ?m0) = Some m2" "mark_top_bar_damage sw m2 = Some m3"
    and m': "(if focused_window m3 = Some (window_id ?w) then refocus m3 else Some m3) = Some m'"
    using assms(2) unfolding remove_window_def Let_def Option.bind_eq_Some_conv by (elim exE conjE) (rule that, assumption, assumption, assumption)
  have c: "wm_core m3 = wm_core (clean_mru ?m0)" using mark_core(2) [OF m(1)] mark_core(4) [OF m(2)] by simp
  have d: "distinct (map window_id (windows m))" using assms(1) by (simp add: wm_ok_def win_ok_def)
  note rem = remove_ids [OF d assms(3)]
  have ids: "ids ?m0 = ids m - {window_id ?w}" using rem(1) by (simp add: ids_def forget_window_def)
  have al: "almost_ok (clean_mru ?m0)"
    using assms(1) rem ids
    by (auto simp: almost_ok_def wm_ok_def win_ok_def clean_mru_def forget_window_def ids_def list_ex_iff)
  show ?thesis
  proof (cases "focused_window m3 = Some (window_id ?w)")
    case True
    then show ?thesis using m' refocus_ok(1) al almost_core [OF c] by simp
  next
    case False
    then have "focused_window m \<noteq> Some (window_id ?w)" using core_fields(3) [OF c] by (simp add: clean_mru_def forget_window_def)
    then have "win_ok (clean_mru ?m0)"
      using assms(1) rem ids by (auto simp: wm_ok_def win_ok_def clean_mru_def forget_window_def ids_def)
    then have "wm_ok (clean_mru ?m0)" using al by (simp add: almost_ok_def wm_ok_def)
    then show ?thesis using False m' ok_core [OF c] by simp
  qed
qed

lemma cleanup_dead_core:
  assumes "cleanup_dead mp pid ws dk = Some dk'"
  shows "windows (dk_wm dk') = windows (dk_wm dk) \<and> next_window_id (dk_wm dk') = next_window_id (dk_wm dk) \<and>
    focused_window (dk_wm dk') = focused_window (dk_wm dk) \<and>
    mru_list (dk_wm dk') = filter (\<lambda>i. i \<notin> window_id ` set ws) (mru_list (dk_wm dk)) \<and>
    at_candidates (alt_tab (dk_wm dk')) = filter (\<lambda>i. i \<notin> window_id ` set ws) (at_candidates (alt_tab (dk_wm dk)))"
  using assms
proof (induction ws arbitrary: dk)
  case (Cons w ws)
  let ?id = "window_id w"
  obtain m where m: "mark_window_damage (geom w) (dk_wm dk) = Some m"
    using Cons.prems by (cases "mark_window_damage (geom w) (dk_wm dk)") auto
  let ?dk1 = "cleanup_apps_for_window ?id (put_wm (forget_gestures ?id (forget_window ?id m)) dk)"
  obtain dk2 where s: "(if win_surface w = 0 then Some ?dk1
      else do { (_, s) \<leftarrow> destroy_surface_for_pid mp pid (win_surface w) (dk_surf ?dk1); Some (put_surf s ?dk1) }) = Some dk2"
    and rest: "cleanup_dead mp pid ws dk2 = Some dk'"
    using Cons.prems unfolding cleanup_dead.simps m Option.bind.simps Let_def Option.bind_eq_Some_conv [of "if _ then _ else _"]
    by (elim exE conjE) (rule that, assumption, assumption)
  have "dk_wm dk2 = forget_gestures ?id (forget_window ?id m)"
    using s by (auto simp: cleanup_apps_for_window_def split: if_splits bind_splits)
  note dk2 = this rest
  note c = core_fields [OF mark_core(2) [OF m]]
  show ?case
    using Cons.IH [OF dk2(2)] dk2(1) c by (auto simp: forget_gestures_def forget_window_def intro!: filter_cong)
qed simp

lemma remove_dead_ok:
  assumes "wm_ok m0" and "dead = filter (\<lambda>w. win_owner w = pid) (windows m0)"
    and "windows m = windows m0" and "next_window_id m = next_window_id m0" and "focused_window m = focused_window m0"
    and "mru_list m = filter (\<lambda>i. i \<notin> window_id ` set dead) (mru_list m0)"
    and "at_candidates (alt_tab m) = filter (\<lambda>i. i \<notin> window_id ` set dead) (at_candidates (alt_tab m0))"
    and "remove_dead sw pid dead m = Some m'"
  shows "wm_ok m'"
proof -
  let ?m1 = "clean_mru (m\<lparr>windows := filter (\<lambda>w. win_owner w \<noteq> pid) (windows m)\<rparr>)"
  obtain m2 where m2: "mark_top_bar_damage sw ?m1 = Some m2"
    and m': "(if (case focused_window m2 of Some f \<Rightarrow> f \<in> window_id ` set dead | None \<Rightarrow> True) then refocus m2 else Some m2) = Some m'"
    using assms(8) unfolding remove_dead_def Let_def Option.bind_eq_Some_conv by (elim exE conjE) (rule that, assumption, assumption)
  note c = mark_core(4) [OF m2]
  have d: "distinct (map window_id (windows m0))" using assms(1) by (simp add: wm_ok_def win_ok_def)
  have inj: "inj_on window_id (set (windows m0))" using d by (simp add: distinct_map)
  have ids: "ids ?m1 = ids m0 - window_id ` set dead"
    using assms(2,3) inj by (auto simp: ids_def clean_mru_def inj_on_def)
  have al: "almost_ok ?m1"
    using assms ids d unfolding almost_ok_def
    by (auto simp: wm_ok_def win_ok_def clean_mru_def ids_def list_ex_iff distinct_map_filter)
  show ?thesis
  proof (cases "case focused_window m2 of Some f \<Rightarrow> f \<in> window_id ` set dead | None \<Rightarrow> True")
    case True
    then show ?thesis using m' refocus_ok(1) al almost_core [OF c] by simp
  next
    case False
    then obtain f where f: "focused_window m0 = Some f" "f \<notin> window_id ` set dead"
      using core_fields(3) [OF c] assms(5) by (auto simp: clean_mru_def split: option.splits)
    then have "f \<in> ids ?m1" using ids assms(1) by (auto simp: wm_ok_def win_ok_def)
    then have "win_ok ?m1" using al assms(1,3,5) f by (auto simp: wm_ok_def win_ok_def almost_ok_def clean_mru_def)
    then have "wm_ok ?m1" using al by (simp add: almost_ok_def wm_ok_def)
    then show ?thesis using False m' ok_core [OF c] by simp
  qed
qed

lemma cleanup_ok:
  assumes "wm_ok (dk_wm dk)" and "cleanup_windows_for_pid mp sw pid dk = Some dk'"
  shows "wm_ok (dk_wm dk')"
proof (cases "filter (\<lambda>w. win_owner w = pid) (windows (dk_wm dk)) = []")
  case False
  then obtain dk1 m where d: "cleanup_dead mp pid (filter (\<lambda>w. win_owner w = pid) (windows (dk_wm dk))) dk = Some dk1"
    "remove_dead sw pid (filter (\<lambda>w. win_owner w = pid) (windows (dk_wm dk))) (dk_wm dk1) = Some m" "dk' = put_wm m dk1"
    using assms(2) unfolding cleanup_windows_for_pid_def Let_def by (auto split: bind_splits)
  show ?thesis
    using remove_dead_ok [OF assms(1) refl, of "dk_wm dk1" pid sw m] cleanup_dead_core [OF d(1)] d(2,3) by simp
qed (use assms in \<open>simp add: cleanup_windows_for_pid_def\<close>)

lemma finish_wm: "finish_process pid dk = Some dk' \<Longrightarrow> dk_wm dk' = dk_wm dk"
  by (auto simp: finish_process_def Let_def split: option.splits bind_splits)

lemma purge_wm [simp]: "dk_wm (purge_process pid dk) = dk_wm dk"
  by (simp add: purge_process_def)

lemma release_wm: "release_window mp cpu pid wid dk = Some dk' \<Longrightarrow> dk_wm dk' = dk_wm dk"
  by (auto simp: release_window_def Let_def split: if_splits bind_splits option.splits dest!: finish_wm)

lemma destroy_ok:
  assumes "wm_ok (dk_wm dk)" and "destroy_window mp sw cpu pid wid dk = Some (r, dk')"
  shows "wm_ok (dk_wm dk')"
proof (cases "own_window pid wid (dk_wm dk)")
  case (Inr i)
  note o = own_window_Ok [OF Inr]
  let ?sid = "win_surface (windows (dk_wm dk) ! i)"
  obtain m dk2 dk3 where m: "remove_window sw i (dk_wm dk) = Some m"
    and dk2: "(if ?sid = 0 then Some (put_wm m dk)
               else do { (_, s) \<leftarrow> destroy_surface_for_pid mp pid ?sid (dk_surf (put_wm m dk)); Some (put_surf s (put_wm m dk)) }) = Some dk2"
    and dk3: "release_window mp cpu pid wid (cleanup_apps_for_window wid dk2) = Some dk'"
    using assms(2) unfolding destroy_window_def Inr sum.case Let_def Option.bind_eq_Some_conv
    by (elim exE conjE) (rule that, assumption, assumption, simp)
  have "wm_ok m" using remove_ok [OF assms(1) m] o by simp
  moreover have "dk_wm dk2 = m" using dk2 by (auto split: if_splits bind_splits)
  ultimately show ?thesis using release_wm [OF dk3] by (simp add: cleanup_apps_for_window_def)
qed (use assms in \<open>simp add: destroy_window_def\<close>)

lemma request_close_ok:
  assumes "wm_ok (dk_wm dk)" and "request_close_window mp sw cpu pid wid dk = Some (r, dk')"
  shows "wm_ok (dk_wm dk')"
  using assms destroy_ok [OF assms(1)]
  by (auto simp: request_close_window_def split: sum.splits option.splits bool.splits bind_splits dest!: mark_ok(4))

lemma mouse_down_close_ok:
  assumes "wm_ok (dk_wm dk)" and "mouse_down mp sw sh cpu now mx my dk = Some (r, dk')"
  shows "wm_ok (dk_wm dk')"
proof -
  obtain p d where d: "handle_mouse_down sw sh now mx my (dk_desk dk) = Some (p, d)"
    and rest: "(case p of Handled x \<Rightarrow> Some (x, dk\<lparr>dk_desk := d\<rparr>)
       | CloseRequest pid wid \<Rightarrow> do { (_, dk2) \<leftarrow> request_close_window mp sw cpu pid wid (dk\<lparr>dk_desk := d\<rparr>); Some (None, dk2) }) = Some (r, dk')"
    using assms(2) unfolding mouse_down_def Let_def bind_pair_Some [of "handle_mouse_down _ _ _ _ _ _"] by (elim exE conjE) (rule that)
  have ok: "wm_ok (dk_wm (dk\<lparr>dk_desk := d\<rparr>))" using mouse_down_ok [OF assms(1) d] by simp
  show ?thesis
  proof (cases p)
    case (Handled x)
    then show ?thesis using rest ok by simp
  next
    case (CloseRequest pid wid)
    then obtain q where "request_close_window mp sw cpu pid wid (dk\<lparr>dk_desk := d\<rparr>) = Some (q, dk')" using rest by (auto simp: bind_pair_Some)
    then show ?thesis by (rule request_close_ok [OF ok])
  qed
qed

lemma present_wm:
  assumes "present_surface_for_pid pid sid x y w h dk = Some (r, dk')"
  shows "wm_ok (dk_wm dk') = wm_ok (dk_wm dk)"
  using assms
  by (auto simp: present_surface_for_pid_def Let_def split: prod.splits sum.splits option.splits bind_splits dest!: mark_ok(1))

lemma dispatch_ok:
  assumes "wm_ok (dk_wm dk)" and "dispatch_compositor_request mp reserved sw sh cpu q dk = Some (r, dk')" and "cr_opcode q \<noteq> COMP_OP_FOCUS_WINDOW"
  shows "wm_ok (dk_wm dk')"
proof -
  consider "cr_opcode q = 1" | "cr_opcode q = 2" | "cr_opcode q = 3" | "cr_opcode q = 4" | "cr_opcode q = 5" | "cr_opcode q = 6" | "cr_opcode q \<notin> {1, 2, 3, 4, 5, 6}"
    by blast
  then show ?thesis
  proof cases
    case 2
    then obtain x dk1 where x: "present_surface_for_pid (client_pid q) (cr_surface q) (damage_x q) (damage_y q) (damage_w q) (damage_h q) dk = Some (x, dk1)"
      and rest: "(case x of Inl _ \<Rightarrow> Some (comp_err EINVAL, dk1)
        | Inr _ \<Rightarrow> do { m \<leftarrow> mark_window_damage (as_i32 (damage_x q), as_i32 (damage_y q), damage_w q, damage_h q) (dk_wm dk1);
                      Some (ok_surface (cr_surface q) 0 0, put_wm m dk1) }) = Some (r, dk')"
      using assms(2) by (auto simp: dispatch_compositor_request_def comp_ops Let_def bind_pair_Some)
    show ?thesis
      using rest present_wm [OF x] assms(1) by (cases x) (auto split: bind_splits dest!: mark_ok(4))
  next
    case 4
    then show ?thesis using assms(1,2) by (auto simp: dispatch_compositor_request_def comp_ops Let_def bind_pair_Some intro: create_window_ok)
  next
    case 5
    then show ?thesis using assms(1,2) by (auto simp: dispatch_compositor_request_def comp_ops Let_def bind_pair_Some intro: destroy_ok)
  next
    case 6
    then show ?thesis using assms(1,2) by (auto simp: dispatch_compositor_request_def comp_ops Let_def bind_pair_Some intro: move_ok)
  qed (use assms in \<open>auto simp: dispatch_compositor_request_def comp_ops Let_def bind_pair_Some\<close>)
qed

subsection \<open>Every history\<close>

text \<open>
  One step of the desktop: a gesture, a shortcut, a system call, a request to the compositor other than the one for the focus,
  or the end of a process.
\<close>

inductive desk_step :: "'q desktop \<Rightarrow> 'q desktop \<Rightarrow> bool" where
  create: "create_window_with_meta sw sh pid sid x y w h title icon (dk_desk dk) = Some (ri, d) \<Longrightarrow> desk_step dk (dk\<lparr>dk_desk := d\<rparr>)"
| title: "set_window_title wid title (dk_wm dk) = Some (r, m) \<Longrightarrow> desk_step dk (put_wm m dk)"
| minimize: "minimize_window sw pid wid (dk_wm dk) = Some (r, m) \<Longrightarrow> desk_step dk (put_wm m dk)"
| move: "move_window sw sh pid wid x y (dk_wm dk) = Some (r, m) \<Longrightarrow> desk_step dk (put_wm m dk)"
| restore: "restore_window sw sh pid wid (dk_desk dk) = Some (r, d) \<Longrightarrow> desk_step dk (dk\<lparr>dk_desk := d\<rparr>)"
| left: "snap_left sw sh pid wid (dk_desk dk) = Some (r, d) \<Longrightarrow> desk_step dk (dk\<lparr>dk_desk := d\<rparr>)"
| right: "snap_right sw sh pid wid (dk_desk dk) = Some (r, d) \<Longrightarrow> desk_step dk (dk\<lparr>dk_desk := d\<rparr>)"
| maximize: "toggle_maximize_window sw sh pid wid (dk_desk dk) = Some (r, d) \<Longrightarrow> desk_step dk (dk\<lparr>dk_desk := d\<rparr>)"
| fullscreen: "toggle_fullscreen sw sh pid wid (dk_desk dk) = Some (r, d) \<Longrightarrow> desk_step dk (dk\<lparr>dk_desk := d\<rparr>)"
| raise: "raise_to_top sw pid wid (dk_wm dk) = Some (r, m) \<Longrightarrow> desk_step dk (put_wm m dk)"
| tab_press: "alt_tab_press sw sh b (dk_wm dk) = Some m \<Longrightarrow> desk_step dk (put_wm m dk)"
| tab_cancel: "alt_tab_cancel sw sh (dk_wm dk) = Some m \<Longrightarrow> desk_step dk (put_wm m dk)"
| tab_commit: "alt_tab_commit sw sh (dk_desk dk) = Some (ro, d) \<Longrightarrow> desk_step dk (dk\<lparr>dk_desk := d\<rparr>)"
| tab_cycle: "alt_tab_cycle sw sh (dk_desk dk) = Some (ro, d) \<Longrightarrow> desk_step dk (dk\<lparr>dk_desk := d\<rparr>)"
| click: "dispatch_mouse_click sw mx my (dk_wm dk) = Some (rp, m) \<Longrightarrow> desk_step dk (put_wm m dk)"
| down: "mouse_down mp sw sh cpu now mx my dk = Some (rp, dk') \<Longrightarrow> desk_step dk dk'"
| up: "handle_mouse_up sw sh (dk_desk dk) = Some (rp, d) \<Longrightarrow> desk_step dk (dk\<lparr>dk_desk := d\<rparr>)"
| drag: "handle_mouse_move sw sh mx my (dk_wm dk) = Some m \<Longrightarrow> desk_step dk (put_wm m dk)"
| launcher: "launcher_nav_up (dk_wm dk) = Some m \<or> launcher_nav_down (dk_wm dk) = Some m \<Longrightarrow> desk_step dk (put_wm m dk)"
| destroy: "destroy_window mp sw cpu pid wid dk = Some (r, dk') \<Longrightarrow> desk_step dk dk'"
| close_request: "request_close_window mp sw cpu pid wid dk = Some (r, dk') \<Longrightarrow> desk_step dk dk'"
| process_end: "cleanup_windows_for_pid mp sw pid dk = Some dk' \<Longrightarrow> desk_step dk dk'"
| request: "cr_opcode q \<noteq> COMP_OP_FOCUS_WINDOW \<Longrightarrow> dispatch_compositor_request mp reserved sw sh cpu q dk = Some (rq, dk') \<Longrightarrow> desk_step dk dk'"

lemma raise_call_ok: "wm_ok m \<Longrightarrow> raise_to_top sw pid wid m = Some (r, m') \<Longrightarrow> wm_ok m'"
  by (auto simp: raise_to_top_def split: sum.splits intro: raise_ok(1))

lemma launcher_ok: "wm_ok m \<Longrightarrow> launcher_nav_up m = Some m' \<or> launcher_nav_down m = Some m' \<Longrightarrow> wm_ok m'"
  by (auto simp: launcher_nav_up_def launcher_nav_down_def wm_core_def wm_ok_def win_ok_def ids_def split: bind_splits dest!: mark_core(6))

lemma step_ok:
  assumes "desk_step dk dk'" and "wm_ok (dk_wm dk)"
  shows "wm_ok (dk_wm dk')"
  using assms
proof (induction rule: desk_step.induct)
  case (create sw sh pid sid x y w h title icon dk ri d)
  then show ?case using create_ok [of "dk_desk dk"] by simp
next
  case (launcher dk m)
  then show ?case using launcher_ok [of "dk_wm dk" m] by simp
next
  case (request q mp reserved sw sh cpu dk rq dk')
  then show ?case using dispatch_ok by blast
qed (simp_all, (blast intro: set_title_ok minimize_ok move_ok restore_ok snaps_ok raise_call_ok press_ok cancel_ok commit_ok cycle_ok click_ok
      mouse_down_close_ok mouse_up_ok mouse_move_ok destroy_ok request_close_ok cleanup_ok)+)

lemma new_wm_ok: "wm_ok new_wm"
  by (simp add: new_wm_def wm_ok_def win_ok_def ids_def)

interpretation desk: inv_system desk_step "\<lambda>dk. wm_ok (dk_wm dk)"
  by unfold_locales (rule step_ok)

text \<open>
  C31. The keyboard belongs to one window: whatever gestures, shortcuts, system calls and requests to the compositor (other than the one
  for the focus) follow each other from an empty desktop, key presses go to a process exactly when one of its windows carries the
  focus, at most one window carries it, window numbers are distinct, and the list of recently used windows names each window once.
\<close>

theorem one_window_has_the_keyboard:
  assumes "desk_step\<^sup>*\<^sup>* dk0 dk" and "dk_wm dk0 = new_wm"
  shows "(\<forall>wid pid. dispatch_keyboard_input (dk_wm dk) = Some (wid, pid) \<longleftrightarrow>
      (\<exists>w\<in>set (windows (dk_wm dk)). has_focus w \<and> window_id w = wid \<and> win_owner w = pid)) \<and>
    (\<forall>v\<in>set (windows (dk_wm dk)). \<forall>w\<in>set (windows (dk_wm dk)). has_focus v \<and> has_focus w \<longrightarrow> v = w) \<and>
    distinct (map window_id (windows (dk_wm dk))) \<and>
    distinct (mru_list (dk_wm dk)) \<and> set (mru_list (dk_wm dk)) = window_id ` set (windows (dk_wm dk))"
proof -
  let ?m = "dk_wm dk"
  have ok: "wm_ok ?m" using desk.inv_run [OF assms(1)] assms(2) new_wm_ok by simp
  then have d: "distinct (map window_id (windows ?m))" and f: "\<forall>w\<in>set (windows ?m). has_focus w \<longleftrightarrow> focused_window ?m = Some (window_id w)"
    and r: "distinct (mru_list ?m)" "set (mru_list ?m) = window_id ` set (windows ?m)" by (auto simp: wm_ok_def win_ok_def ids_def)
  have inj: "inj_on window_id (set (windows ?m))" using d by (simp add: distinct_map)
  have key: "dispatch_keyboard_input ?m = Some (wid, pid) \<longleftrightarrow> (\<exists>w\<in>set (windows ?m). has_focus w \<and> window_id w = wid \<and> win_owner w = pid)" for wid pid
  proof
    assume "dispatch_keyboard_input ?m = Some (wid, pid)"
    then obtain i where i: "focused_window ?m = Some wid" "find_window wid ?m = Some i" "win_owner (windows ?m ! i) = pid"
      by (auto simp: dispatch_keyboard_input_def owner_of_def split: bind_splits)
    then show "\<exists>w\<in>set (windows ?m). has_focus w \<and> window_id w = wid \<and> win_owner w = pid"
      using find_window_Some [OF i(2)] f by (intro bexI [of _ "windows ?m ! i"]) auto
  next
    assume "\<exists>w\<in>set (windows ?m). has_focus w \<and> window_id w = wid \<and> win_owner w = pid"
    then obtain w where w: "w \<in> set (windows ?m)" "has_focus w" "window_id w = wid" "win_owner w = pid" by blast
    then obtain i where i: "find_window wid ?m = Some i"
      using position_None [of "\<lambda>w. window_id w = wid" "windows ?m"] by (cases "find_window wid ?m") (auto simp: find_window_def)
    then have "windows ?m ! i = w" using find_window_Some [OF i] w inj by (auto simp: inj_on_def)
    then show "dispatch_keyboard_input ?m = Some (wid, pid)" using w f i by (simp add: dispatch_keyboard_input_def owner_of_def)
  qed
  moreover have "\<forall>v\<in>set (windows ?m). \<forall>w\<in>set (windows ?m). has_focus v \<and> has_focus w \<longrightarrow> v = w" using f inj by (auto simp: inj_on_def)
  ultimately show ?thesis using d r by blast
qed

definition demo_desktop :: "unit desktop" where
  "demo_desktop = \<lparr>dk_desk = \<lparr>d_wm = new_wm, d_surf = demo_surfaces\<rparr>, dk_ipc = boot_ipc empty_world (su_kernel demo_surfaces), dk_perms = [],
     dk_inputs = \<lparr>input_owners = {}, input_queues = []\<rparr>, dk_editors = [], dk_apps = {}, process_list = []\<rparr>"

text \<open>Damage inside the range of the tracker never stops an operation.\<close>

lemma mark_returns:
  assumes "tracker_ok (damage_tracker m)" and "in_range (new_region x y w h)"
  shows "\<exists>m'. mark_damage x y w h m = Some m' \<and> tracker_ok (damage_tracker m')"
  using add_rect_spec [OF assms] by (auto simp: mark_damage_def add_bounds_def)

lemma demo_added: "\<exists>m. add_window 1280 (new_window 1 0 (100, 100, 200, 150) ''notes'' IconEditor) new_wm = Some (1, m)"
proof -
  let ?w = "new_window 1 0 (100, 100, 200, 150) ''notes'' IconEditor 1"
  let ?m = "touch_mru 1 (new_wm\<lparr>next_window_id := 2, windows := [?w], focused_window := Some 1\<rparr>)"
  have t: "tracker_ok (damage_tracker ?m)"
    by (simp add: touch_mru_def clean_mru_def new_wm_def new_tracker_def tracker_ok_def all_in_range_def)
  obtain m1 where m1: "mark_damage 96 96 208 178 ?m = Some m1" "tracker_ok (damage_tracker m1)"
    using mark_returns [OF t, of 96 96 208 178] by (auto simp: in_range_def new_region_def)
  obtain m2 where m2: "mark_damage 0 0 1280 26 m1 = Some m2"
    using mark_returns [OF m1(2), of 0 0 1280 26] by (auto simp: in_range_def new_region_def)
  have d: "drop_focus (new_wm\<lparr>next_window_id := 2\<rparr>) = Some (new_wm\<lparr>next_window_id := 2\<rparr>)" "next_window_id new_wm = 1"
    "windows (new_wm\<lparr>next_window_id := 2\<rparr>) = []"
    by (simp_all add: drop_focus_def new_wm_def)
  have g: "geom ?w = (100, 100, 200, 150)" by (simp add: new_window_def)
  have "mark_window_damage (geom ?w) ?m = Some m1"
    unfolding g using m1(1) by (simp add: mark_window_damage_def checked_add_def sub_sat_def)
  moreover have "mark_top_bar_damage 1280 m1 = Some m2" using m2 by (simp add: mark_top_bar_damage_def DOCK_HEIGHT_def)
  moreover have "checked_add 64 1 1 = Some 2" by (simp add: checked_add_def)
  ultimately show ?thesis
    unfolding add_window_def Let_def d(2) by (intro exI [of _ m2]) (simp only: Option.bind.simps d window_manager.simps append.simps)
qed

lemma demo_created:
  "\<exists>d. create_window_with_meta 1280 720 1 0 100 100 200 150 ''notes'' IconEditor (dk_desk demo_desktop) = Some (Ok 1, d) \<and>
     (\<exists>w. windows (d_wm d) = [w] \<and> has_focus w \<and> window_id w = 1 \<and> win_owner w = 1)"
proof -
  obtain m where m: "add_window 1280 (new_window 1 0 (100, 100, 200, 150) ''notes'' IconEditor) new_wm = Some (1, m)"
    using demo_added by blast
  have p: "place_window 1280 720 100 100 200 150 = Some (100, 100, 200, 150)"
    by (simp add: place_window_def clamp_def clamp_i32_def as_i32_def MIN_WINDOW_WIDTH_def MIN_WINDOW_HEIGHT_def WORK_AREA_TOP_def DOCK_HEIGHT_def)
  have "windows m = [new_window 1 0 (100, 100, 200, 150) ''notes'' IconEditor 1]"
    using add_window_ok(4) [OF new_wm_ok m] by (simp add: new_wm_def new_window_def)
  then show ?thesis using m p by (simp add: create_window_with_meta_def demo_desktop_def new_window_def)
qed

theorem one_window_has_the_keyboard_witness:
  "\<exists>dk. desk_step\<^sup>*\<^sup>* demo_desktop dk \<and> dispatch_keyboard_input (dk_wm dk) = Some (1, 1) \<and> set (mru_list (dk_wm dk)) = {1}"
proof -
  obtain d w where d: "create_window_with_meta 1280 720 1 0 100 100 200 150 ''notes'' IconEditor (dk_desk demo_desktop) = Some (Ok 1, d)"
    "windows (d_wm d) = [w]" "has_focus w" "window_id w = 1" "win_owner w = 1" using demo_created by blast
  let ?dk = "demo_desktop\<lparr>dk_desk := d\<rparr>"
  have s: "desk_step\<^sup>*\<^sup>* demo_desktop ?dk" using desk_step.create [OF d(1)] by blast
  have n: "dk_wm demo_desktop = new_wm" by (simp add: demo_desktop_def)
  note t = one_window_has_the_keyboard [OF s n]
  then have "dispatch_keyboard_input (dk_wm ?dk) = Some (1, 1)" using d by auto
  moreover have "set (mru_list (dk_wm ?dk)) = {1}" using t d(2,4) by simp
  ultimately show ?thesis using s by blast
qed

subsection \<open>Where a new window goes\<close>

lemma window_place:
  assumes "120 \<le> sw" and "sw < 2 ^ 16" and "128 \<le> sh" and "sh < 2 ^ 16"
  shows "case place_window sw sh x y w h of
      None \<Rightarrow> sh < h + 68
    | Some (cx, cy, cw, ch) \<Rightarrow> h + 68 \<le> sh \<and> 0 \<le> cx \<and> cx + int cw \<le> int sw \<and> WORK_AREA_TOP \<le> cy \<and>
        cy + 20 + int ch + int DOCK_HEIGHT \<le> int sh \<and> MIN_WINDOW_WIDTH \<le> cw \<and> MIN_WINDOW_HEIGHT \<le> ch"
proof -
  define cw where "cw = max 120 (min w sw)"
  define ch where "ch = max 60 (min h (sh - 48))"
  have cw: "clamp w MIN_WINDOW_WIDTH sw = Some cw" "120 \<le> cw" "cw \<le> sw" using assms(1) by (auto simp: clamp_def MIN_WINDOW_WIDTH_def cw_def)
  have ch: "clamp h MIN_WINDOW_HEIGHT (sh - (nat WORK_AREA_TOP + DOCK_HEIGHT)) = Some ch" "60 \<le> ch"
    using assms(3) by (auto simp: clamp_def MIN_WINDOW_HEIGHT_def WORK_AREA_TOP_def DOCK_HEIGHT_def ch_def)
  have i: "as_i32 (sw - cw) = int (sw - cw)" "as_i32 (sh - (ch + DOCK_HEIGHT + 20)) = int (sh - (ch + 44))"
    using assms(2,4) by (auto simp: as_i32_def DOCK_HEIGHT_def)
  have hi: "24 \<le> sh - (ch + 44) \<longleftrightarrow> h + 68 \<le> sh" using assms(3) by (auto simp: ch_def)
  obtain cx where cx: "clamp_i32 x 0 (int (sw - cw)) = Some cx" "0 \<le> cx" "cx \<le> int (sw - cw)"
    by (auto simp: clamp_i32_def)
  show ?thesis
  proof (cases "h + 68 \<le> sh")
    case True
    define top where "top = int (sh - (ch + 44))"
    have top: "24 \<le> top" using True hi by (simp add: top_def)
    obtain cy where cy: "clamp_i32 y WORK_AREA_TOP top = Some cy" "24 \<le> cy" "cy \<le> top"
      using top by (auto simp: clamp_i32_def WORK_AREA_TOP_def)
    note cy = cy [unfolded top_def]
    have "place_window sw sh x y w h = Some (cx, cy, cw, ch)" by (simp add: place_window_def cw(1) ch(1) i cx(1) cy(1))
    then show ?thesis using True hi cw ch cx cy by (simp add: WORK_AREA_TOP_def DOCK_HEIGHT_def MIN_WINDOW_WIDTH_def MIN_WINDOW_HEIGHT_def)
  next
    case False
    then have "clamp_i32 y WORK_AREA_TOP (int (sh - (ch + 44))) = None" using hi by (auto simp: clamp_i32_def WORK_AREA_TOP_def)
    then have "place_window sw sh x y w h = None" by (simp add: place_window_def cw(1) ch(1) i cx(1))
    then show ?thesis using False by simp
  qed
qed

text \<open>
  C25. A new window is on the screen: it has at least the smallest size, lies between the left and the right edge and, with its title
  bar, between the work area's top and the bottom bar. It is placed exactly when it is at least 68 pixels lower than the screen: for a
  taller one, which the checks of the call let pass, the bounds of the second clamp are out of order and the kernel panics.
\<close>

theorem window_placed_on_screen:
  assumes "120 \<le> sw" and "sw < 2 ^ 16" and "128 \<le> sh" and "sh < 2 ^ 16"
  shows "case place_window sw sh x y w h of
      None \<Rightarrow> sh < h + 68
    | Some (cx, cy, cw, ch) \<Rightarrow> h + 68 \<le> sh \<and> 0 \<le> cx \<and> cx + int cw \<le> int sw \<and> WORK_AREA_TOP \<le> cy \<and>
        cy + 20 + int ch + int DOCK_HEIGHT \<le> int sh \<and> MIN_WINDOW_WIDTH \<le> cw \<and> MIN_WINDOW_HEIGHT \<le> ch"
  using window_place [OF assms] .

theorem window_placed_on_screen_witness:
  "\<exists>cx cy cw ch. place_window 1280 720 (- 50) 900 80 200 = Some (cx, cy, cw, ch) \<and> 0 \<le> cx \<and> cx + int cw \<le> 1280 \<and> cy + 20 + int ch + 24 \<le> 720"
  using window_placed_on_screen [where sw = 1280 and sh = 720 and x = "- 50" and y = 900 and w = 80 and h = 200] by (auto simp: DOCK_HEIGHT_def split: option.splits)

text \<open>Any process can stop the kernel with one system call.\<close>

theorem tall_window_panics:
  assumes "120 \<le> sw" and "sw < 2 ^ 16" and "128 \<le> sh" and "sh < 2 ^ 16" and "0 < w" and "w \<le> sw" and "sh < h + 68" and "h \<le> sh"
  shows "create_window sw sh pid 0 x y w h d = None"
proof -
  have "place_window sw sh x y w h = None"
    using window_place [where x = x and y = y and w = w and h = h, OF assms(1-4)] assms(7) by (auto split: option.splits)
  then show ?thesis
    using assms(3,5-8) by (auto simp: create_window_def create_window_with_meta_def Let_def split: option.split prod.split)
qed

text \<open>
  A window whose left edge is less than 120 pixels from the right edge of the screen, where its owner may move it, cannot be resized at
  the right: the first move of the mouse panics.
\<close>

theorem resize_at_edge_panics:
  assumes "resizing_window m = Some (wid, e, sx, sy, ox, oy, ow, oh)" and "e \<in> {EdgeRight, EdgeTopRight, EdgeBottomRight}"
    and "find_window wid m = Some i" and "int sw < ox + 120"
  shows "handle_mouse_move sw sh mx my m = None"
  using assms by (auto simp: handle_mouse_move_def resize_move_def resized_def resize_right_def clamp_i32_def MIN_WINDOW_WIDTH_def Let_def)

text \<open>
  The request for the focus is the step that breaks the invariant: it checks neither the window nor its owner. Any client sends the
  keyboard to any window, while another one carries the focus.
\<close>

theorem focus_request_unchecked:
  assumes "wm_ok (dk_wm dk)" and "v \<in> set (windows (dk_wm dk))" and "w \<in> set (windows (dk_wm dk))" and "has_focus v" and "\<not> has_focus w"
    and "cr_opcode q = COMP_OP_FOCUS_WINDOW" and "cr_window q = window_id w"
  shows "\<exists>dk'. dispatch_compositor_request mp reserved sw sh cpu q dk = Some (ok_window (window_id w), dk') \<and>
    dispatch_keyboard_input (dk_wm dk') = Some (window_id w, win_owner w) \<and> windows (dk_wm dk') = windows (dk_wm dk)"
proof -
  let ?m = "(dk_wm dk)\<lparr>focused_window := Some (window_id w)\<rparr>"
  have inj: "inj_on window_id (set (windows (dk_wm dk)))" using assms(1) by (simp add: wm_ok_def win_ok_def distinct_map)
  obtain i where i: "find_window (window_id w) ?m = Some i"
    using assms(3) position_None [of "\<lambda>u. window_id u = window_id w" "windows (dk_wm dk)"]
    by (cases "find_window (window_id w) ?m") (auto simp: find_window_def)
  then have "windows (dk_wm dk) ! i = w" using find_window_Some [OF i] assms(3) inj by (auto simp: inj_on_def)
  then have "dispatch_keyboard_input ?m = Some (window_id w, win_owner w)" using i by (simp add: dispatch_keyboard_input_def owner_of_def)
  then show ?thesis using assms(6,7) by (auto simp: dispatch_compositor_request_def comp_ops)
qed

text \<open>
  Closing the last window of a process that owns an endpoint never returns: the end of the process hangs up its endpoints while the
  window manager holds the lock of the scheduler, which the hang-up takes again.
\<close>

theorem closing_window_hangs:
  assumes "bt_get (ktable (dk_kernel dk)) pid = Some p" and "pid < 2 ^ 32"
    and "(ep, pid) \<in> set (owners (dk_ipc dk))" and "bt_get (endpoints (dk_ipc dk)) ep \<noteq> None"
  shows "finish_process pid dk = None"
proof -
  have "list_ex (\<lambda>ep. bt_get (endpoints (dk_ipc dk)) ep \<noteq> None) (owned_by pid ((dk_ipc dk)\<lparr>caps := w\<rparr>))" for w
    using assms(3,4) by (force simp: list_ex_iff owned_by_def)
  then show ?thesis
    using assms(1,2) by (auto simp: finish_process_def Let_def hangup_under_lock_def split: option.splits bind_splits)
qed

text \<open>Maximizing twice, or full screen twice, brings a window back where it was.\<close>

theorem maximize_round_trip:
  assumes "win_state w = WNormal" and "0 \<le> win_x w" and "win_x w \<le> int sw - 120" and "24 \<le> win_y w" and "win_y w \<le> int sh - 80"
    and "120 \<le> win_w w" and "win_w w \<le> sw" and "60 \<le> win_h w" and "win_h w \<le> sh - 24" and "sw < 2 ^ 16" and "sh < 2 ^ 16"
  shows "\<exists>w1 w2 w3 w4. toggled_max sw sh w = Some w1 \<and> win_state w1 = Maximized \<and> toggled_max sw sh w1 = Some w2 \<and> win_state w2 = WNormal \<and>
    geom w2 = geom w \<and> toggled_full sw sh w = Some w3 \<and> win_state w3 = Fullscreen \<and> toggled_full sw sh w3 = Some w4 \<and>
    win_state w4 = WNormal \<and> geom w4 = geom w"
proof -
  have s: "sw - 120 < 2147483648" "sh - 80 < 2147483648" using assms(10,11) by auto
  have b: "back_to_normal sw sh hmax u = Some ((set_geom (geom w) u)\<lparr>win_state := WNormal, saved_geom := None\<rparr>)"
    if "normal_geom u = geom w" "win_h w \<le> hmax" for u hmax
    using assms(2-9) that s
    by (simp add: back_to_normal_def clamp_i32_def clamp_def as_i32_def MIN_WINDOW_WIDTH_def MIN_WINDOW_HEIGHT_def WORK_AREA_TOP_def of_nat_diff)
  show ?thesis
    using assms(1,9) b
    by (simp add: toggled_max_def toggled_full_def keep_normal_def set_geom_def work_geom_def WORK_AREA_TOP_def Let_def)
qed

text \<open>
  The quota of windows is not enforced: \<^verbatim>\<open>create_window\<close> drops the answer of \<^verbatim>\<open>increment_window_count\<close>, so a process at its limit gets
  another window, which its counter does not show.
\<close>

theorem window_quota_ignored:
  assumes "bt_get (ktable (su_kernel (d_surf d))) pid = Some p" and "max_windows (limits p) \<le> window_count (usage p)"
    and "create_window sw sh pid sid x y w h d = Some (Ok wid, d')"
  shows "\<exists>p'. bt_get (ktable (su_kernel (d_surf d'))) pid = Some p' \<and> wid \<in> set (owned_windows p') \<and> usage p' = usage p"
  using assms
  by (auto simp: create_window_def create_window_with_meta_def Let_def attach_window_def increment_window_count_def map_of_upd
      split: if_splits bind_splits prod.splits)

text \<open>
  Any client of the compositor can stop the kernel: the size of the damage that it reports for one of its surfaces is cut to the surface
  for presenting it, but goes unchecked into a sum when the damage is recorded a second time.
\<close>

theorem oversized_damage_panics:
  assumes "cr_opcode rq = COMP_OP_PRESENT_SURFACE" and "2 ^ 32 \<le> damage_w rq + 8"
    and "present_surface_for_pid (client_pid rq) (cr_surface rq) (damage_x rq) (damage_y rq) (damage_w rq) (damage_h rq) dk = Some (Ok (), dk1)"
  shows "dispatch_compositor_request mp reserved sw sh cpu rq dk = None"
  using assms by (simp add: dispatch_compositor_request_def comp_ops mark_window_damage_def checked_add_def)

end
