(* ===== verification/Spec2Isabelle.thy ===== *)
theory Spec2Isabelle
  imports Frame_Pool Ipc_Security Damage Fs_Service Block_Cache Elf_Loader Service_Manager Network_Service Ipc_Calls
    Sync_Prims Access_Control Mem_Object Spawn Window_Focus
begin

text \<open>
  \<^bold>\<open>SparkOS: a model of its kernel and what is proved about it.\<close>

  SparkOS is an operating system kernel in Rust for x86-64. Its core (\<^verbatim>\<open>src/kernel/src\<close>) keeps a table of
  capabilities that names every kernel object, schedules processes on several CPUs, passes messages that may carry
  capabilities, and offers files, services and sockets on top. \<^verbatim>\<open>src/spark-abi/src\<close> holds the types that kernel and user
  programs share. This development translates those parts function by function and proves what makes them correct. It also
  records, as theorems where that is possible, what the code does not do although it means to.

  \<^bold>\<open>Conventions\<close>

  \<^item> A struct is a \<open>record\<close>, an enum a \<open>datatype\<close>, a method a function from the state to the result and the new state.
    \<open>Ok\<close> and \<open>Err\<close> are the two sides of a Rust \<^verbatim>\<open>Result\<close>.
  \<^item> A function that can panic or loop for ever has an \<open>option\<close> type and \<open>None\<close> says that the call does not return. The
    kernel is built with \<^verbatim>\<open>overflow-checks\<close>, so a plain addition that overflows is such a panic. In a parser whose source
    returns an \<^verbatim>\<open>Option\<close>, \<open>None\<close> is that value; the text of the theory says which reading applies.
  \<^item> Sizes, indices, process numbers and counters are \<open>nat\<close> with their width written out at each operation that can reach
    it. Bit masks and bytes are words. A \<^verbatim>\<open>BTreeMap\<close> is an association list in ascending order (\<open>bt_insert\<close>, \<open>bt_remove\<close>).
  \<^item> Each static behind a lock is a component of the state. An operation that holds the lock throughout is one step.
    Where a lock can be taken twice by its holder, or a blocking call splits an operation in two, the model shows it.

  \<^bold>\<open>The theories\<close>

  \<^item> \<open>Spark_Prelude\<close>, \<open>Spark_Interfaces\<close>, \<open>Byte_Codec\<close>: results, machine arithmetic, list searches; the contracts
    (locales \<open>inv_system\<close>, \<open>ordered_map\<close>, \<open>fifo_queue\<close>, \<open>allocator\<close>, \<open>quota_counter\<close>) with their client lemmas; byte
    encodings, slices and UTF-8.
  \<^item> \<open>Cap_Abi\<close>, \<open>Cap_Core\<close>, \<open>Cap_Security\<close>, \<open>Cap_Registry\<close> (\<^verbatim>\<open>spark-abi/src/lib.rs\<close>, \<^verbatim>\<open>cap.rs\<close>): handles, rights, slots,
    nodes and objects; creation, grant, lend, transfer, close, revoke, reclaim, teardown and the checks; the registries of
    lent handles and device ports. Shown: the table stays well formed, rights only shrink along a lineage, revocation kills
    exactly the lineage, a closed handle never revives, a dead process keeps nothing, a lent handle goes no further.
  \<^item> \<open>Frame_Pool\<close> (\<^verbatim>\<open>frame_pool.rs\<close>): contiguous physical frames. Shown: no frame is handed out twice, memory is
    conserved, and a request fails only when no run is long enough.
  \<^item> \<open>Process_Model\<close>, \<open>Wait_Queue\<close>, \<open>Io_Ports\<close>, \<open>Scheduler\<close> (\<^verbatim>\<open>task/process.rs\<close>, \<^verbatim>\<open>gdt.rs\<close>): the process record and its quotas,
    the doubly linked wait queues through the process table, the port bitmaps of the CPUs, sleep, choice of the next process,
    switch, exit, waitpid and signals. Shown: the usage counters stay within the quotas, the linked queue is a FIFO list, waking terminates, a process runs
    on one CPU at a time and only when it may, the run queue is round robin, timers wake exactly what is due, a switch opens
    exactly the ports of the process it resumes, port 65535 alone excepted.
  \<^item> \<open>Channel\<close>, \<open>Ipc\<close>, \<open>Ipc_Security\<close> (\<^verbatim>\<open>sync.rs\<close>, \<^verbatim>\<open>ipc.rs\<close>): bounded channels, endpoints gated by capabilities,
    hang-up, cancellation and interrupt delivery. Shown: bounded FIFO, sends and attached capabilities are authorised,
    hang-up and cancellation leave nothing behind, interrupts arrive in order.
  \<^item> \<open>Damage\<close> (\<^verbatim>\<open>damage.rs\<close>): the rectangles the compositor has to redraw. Shown: every damaged pixel is covered, and the sums that
    overflow when coordinates are not bounded.
  \<^item> \<open>Data_Drive\<close>, \<open>Spfs_Blocks\<close>, \<open>Spfs_Journal\<close>, \<open>Block_Cache\<close>, \<open>Vfs_Image\<close>, \<open>Vfs_Paths\<close>, \<open>Vfs_Tree\<close>, \<open>Procfs\<close>, \<open>Vfs\<close>,
    \<open>Fs_Service\<close> (\<^verbatim>\<open>fs.rs\<close>, \<^verbatim>\<open>spark-abi/src/fs.rs\<close>): the block engine with its journal and sector cache, the tree with its image
    on the drive, paths, the virtual files of \<^verbatim>\<open>/proc\<close>, and the request dispatcher. Shown: the tree refines a map from
    paths to entries, the image and the journal round trip, a synchronised tree survives a reboot but for the contents of
    directories called \<^verbatim>\<open>proc\<close> or \<^verbatim>\<open>dev\<close>, writes read back, a write without room for its data rolls back, and a whole service session behaves as a client expects.
  \<^item> \<open>Elf_Loader\<close> (\<^verbatim>\<open>elf.rs\<close>): every image the loader accepts is confined to the user region.
  \<^item> \<open>Service_Graph\<close>, \<open>Service_Manager\<close> (\<^verbatim>\<open>service.rs\<close>, \<^verbatim>\<open>spark-abi/src/service.rs\<close>): boot order by depth-first search
    (locale \<open>dep_graph\<close>), restart policy, lookup and the request dispatcher. Shown: the order exists exactly when the
    dependencies have no cycle and respects them, and restarts are bounded.
  \<^item> \<open>Net_Packet\<close>, \<open>Net_Arp\<close>, \<open>Net_Socket\<close>, \<open>Net_Properties\<close> (\<^verbatim>\<open>net.rs\<close>, \<^verbatim>\<open>net_socket.rs\<close>, \<^verbatim>\<open>spark-abi/src/net.rs\<close>): checksums,
    packets, address resolution (locale \<open>frame_receiver\<close>), the socket table and the dispatcher. Shown: packets come back as built,
    the handling of a received frame returns, a datagram reaches the socket of its port, and some socket calls never return
    because they take a lock twice.
  \<^item> \<open>Permissions\<close>, \<open>Network_Service\<close> (\<^verbatim>\<open>permission.rs\<close>, \<^verbatim>\<open>network_service.rs\<close>, \<^verbatim>\<open>network_manager.rs\<close>): what manifests ask for, grants, and
    sockets owned by processes. Shown: a request touches no socket of another process and none without the permission.
  \<^item> \<open>User_Memory\<close>, \<open>Cap_Tables\<close>, \<open>Fd_Table\<close>, \<open>Syscall_Storage\<close>, \<open>File_Calls\<close> (\<^verbatim>\<open>sec_mem.rs\<close>, \<^verbatim>\<open>syscall_cap.rs\<close>, \<^verbatim>\<open>fd.rs\<close>,
    \<^verbatim>\<open>syscall_storage.rs\<close>, \<^verbatim>\<open>syscall.rs\<close>): pointer checks, the capability tables of processes, descriptors and the file calls. Shown:
    in 4 KiB pages the pointer checks accept exactly what the processor would, a call stores only where its caller may, written data
    is read back (but not from a seeded program).
  \<^item> \<open>Syscall_Ipc\<close>, \<open>Ipc_Calls\<close> (\<^verbatim>\<open>syscall.rs\<close>): the IPC calls with their copies to user memory. Shown: a message arrives unchanged.
  \<^item> \<open>Sync_Prims\<close> (\<^verbatim>\<open>sync.rs\<close>): sleeping mutex, semaphore and condition variable as interleaved parts. Shown: the mutex
    excludes and a sleeper misses no release; where the semaphore, or a thread preempted while it queues up, loses a wake-up.
  \<^item> \<open>Access_Control\<close> (\<^verbatim>\<open>auth.rs\<close>, \<^verbatim>\<open>security.rs\<close>): accounts, sessions and permission checks. Shown: the account locks at the third
    wrong password.
  \<^item> \<open>Address_Space\<close>, \<open>Exec_Space\<close>, \<open>Shared_Pages\<close>, \<open>Spawn\<close> (\<^verbatim>\<open>memory.rs\<close>, \<^verbatim>\<open>task/process.rs\<close>): page tables in physical frames, cloning,
    mapping and teardown, the address space of a new program, process creation and fork. Shown: a new address space is private,
    a successful load maps the program and a failed one gives every frame back.
  \<^item> \<open>Surface\<close>, \<open>Surface_Sessions\<close>, \<open>Mem_Object\<close> (\<^verbatim>\<open>surface.rs\<close>, \<^verbatim>\<open>mem_object.rs\<close>): shared drawing buffers and memory behind
    capabilities, over quotas, page tables and frames. Shown: creation and destruction balance, and the exit of a process
    gives all memory back.
  \<^item> \<open>Input_Queue\<close> (\<^verbatim>\<open>input.rs\<close>, \<^verbatim>\<open>spark-abi/src/input.rs\<close>): the event queues of processes. Shown: a queue is bounded, keys and
    clicks stay in order, and none is lost while fewer than 64 of them wait.
  \<^item> \<open>Window_Manager\<close>, \<open>Desktop\<close>, \<open>Window_Focus\<close> (\<^verbatim>\<open>wm.rs\<close>, \<^verbatim>\<open>launcher.rs\<close>, \<^verbatim>\<open>app_registry.rs\<close>, \<^verbatim>\<open>spark-abi/src/compositor.rs\<close>): windows, focus,
    gestures, the switcher and the launcher, closing windows with the end of their process, and the compositor protocol.
    Shown: one window has the keyboard in every reachable state, new windows lie on the screen, and the calls that panic or hang.

  \<^bold>\<open>Bounds\<close>

  \<^item> \<open>deser\<close> carries fuel, the length of the image plus one: every node takes at least one byte, so it never runs out
    (\<open>deser_fuel\<close>). \<open>dfs\<close> and \<open>visit\<close> carry a depth, the number of services plus one: the services being visited are
    distinct (\<open>boot_order_topological\<close> says that the walk returns).
  \<^item> \<open>rx_depth\<close> bounds how deeply the handling of one frame can nest in that of another; one more than the number of
    polls the card still answers is enough.
  \<^item> The drive, the seeded programs, the kernel statistics, the screen size, the answers of the heap to fallible
    reservations and what the network card receives are arguments. Where a property relies on the drive, \<open>drive_stores\<close> of
    \<open>Data_Drive\<close> states what it promises and a memory drive shows that the promise can be kept.
  \<^item> The paging crate that walks and extends page tables is the parameter \<open>mapper\<close>; \<open>map_to_ok\<close> and \<open>unmap_ok\<close> state its
    documented behaviour and \<open>Exec_Space\<close> has a mapper with that behaviour.

  \<^bold>\<open>Not modelled\<close>

  \<^item> Assembly, interrupt entry, the boot sequence and the start of other CPUs, the heap allocator, and the flushing of address
    translations: their effect is on the machine, not on state of the kernel that the model has.
  \<^item> Device drivers with port or memory-mapped access, and the DMA regions and device tables behind them. The drive and the network
    card are arguments.
  \<^item> Drawing: fonts, compositing and the mouse pointer. Redrawing a surface is the choice of its drawing target.
  \<^item> The applications and the shell inside the kernel and the routing of keys into them. Of an application the desktop keeps
    whether a window has one.
  \<^item> User libraries, tests, and the copies of the sources under \<^verbatim>\<open>scratch\<close>.
\<close>

end
